(* ===== verification/Prelude.thy ===== *)
theory Prelude
  imports Main "HOL-Library.Word" "HOL-Library.Sublist" "HOL-Library.Char_ord"
    "HOL-Library.List_Lexorder"
begin

text \<open>
  Shared vocabulary of the development: fallible computations as values of a sum type with
  their sequencing operators, Go's signed 64-bit arithmetic, big-endian encodings, and the
  facts on prefixes, maps and association lists that several components use.
\<close>

section \<open>Fallible computations\<close>

text \<open>
  A Go function returning \<open>(T, error)\<close> is a value of \<open>'e + 'a\<close>: \<open>Inl e\<close> is the early
  return of an error, \<open>Inr x\<close> a result. \<open>bindE m f\<close> is the ubiquitous
  \<open>x, err := m; if err != nil { return err }; f(x)\<close>.
\<close>

definition bindE :: "'e + 'a \<Rightarrow> ('a \<Rightarrow> 'e + 'b) \<Rightarrow> 'e + 'b" where
  "bindE m f = (case m of Inl e \<Rightarrow> Inl e | Inr x \<Rightarrow> f x)"

lemma bindE_simps [simp]:
  "bindE (Inl e) f = Inl e"
  "bindE (Inr x) f = f x"
  by (simp_all add: bindE_def)

lemma bindE_eq_Inr [simp]: "bindE m f = Inr y \<longleftrightarrow> (\<exists>x. m = Inr x \<and> f x = Inr y)"
  by (cases m) simp_all

lemma bindE_eq_Inl: "bindE m f = Inl e \<longleftrightarrow> m = Inl e \<or> (\<exists>x. m = Inr x \<and> f x = Inl e)"
  by (cases m) simp_all

lemma bindE_cong [fundef_cong]:
  "m = m' \<Longrightarrow> (\<And>x. m' = Inr x \<Longrightarrow> f x = f' x) \<Longrightarrow> bindE m f = bindE m' f'"
  by (cases m') simp_all

text \<open>A \<open>for\<close> loop over a slice whose body may return an error.\<close>

fun forE :: "('a \<Rightarrow> 's \<Rightarrow> 'e + 's) \<Rightarrow> 'a list \<Rightarrow> 's \<Rightarrow> 'e + 's" where
  "forE f [] s = Inr s"
| "forE f (x # xs) s = bindE (f x s) (forE f xs)"

lemma forE_append: "forE f (xs @ ys) s = bindE (forE f xs s) (forE f ys)"
proof (induction xs arbitrary: s)
  case (Cons x xs)
  show ?case by (cases "f x s") (simp_all add: Cons.IH)
qed simp

lemma forE_invariant:
  assumes "forE f xs s = Inr s'" and "P s"
    and "\<And>x s s'. x \<in> set xs \<Longrightarrow> P s \<Longrightarrow> f x s = Inr s' \<Longrightarrow> P s'"
  shows "P s'"
  using assms
proof (induction xs arbitrary: s)
  case (Cons x xs)
  then obtain s1 where "f x s = Inr s1" and "forE f xs s1 = Inr s'" by auto
  with Cons.prems show ?case by (auto intro: Cons.IH)
qed simp

lemma forE_cong [fundef_cong]:
  "xs = ys \<Longrightarrow> s = t \<Longrightarrow> (\<And>x s. x \<in> set ys \<Longrightarrow> f x s = g x s) \<Longrightarrow> forE f xs s = forE g ys t"
proof (induction xs arbitrary: ys s t)
  case (Cons x xs)
  then obtain ys' where ys: "ys = x # ys'" "ys' = xs" by auto
  show ?case
  proof (cases "g x t")
    case (Inr a)
    have "forE f xs a = forE g xs a"
      using Cons.prems ys by (intro Cons.IH) auto
    with Inr Cons.prems ys show ?thesis by simp
  qed (use Cons.prems ys in simp)
qed simp

text \<open>Collecting the results of a loop that appends to a slice.\<close>

fun mapE :: "('a \<Rightarrow> 'e + 'b) \<Rightarrow> 'a list \<Rightarrow> 'e + 'b list" where
  "mapE f [] = Inr []"
| "mapE f (x # xs) = bindE (f x) (\<lambda>y. bindE (mapE f xs) (\<lambda>ys. Inr (y # ys)))"

lemma mapE_Inr_iff: "mapE f xs = Inr ys \<longleftrightarrow> list_all2 (\<lambda>x y. f x = Inr y) xs ys"
proof (induction xs arbitrary: ys)
  case (Cons x xs)
  show ?case by (cases ys) (auto simp: Cons.IH)
qed auto

lemma mapE_length: "mapE f xs = Inr ys \<Longrightarrow> length ys = length xs"
  by (auto simp: mapE_Inr_iff dest: list_all2_lengthD)

lemma mapE_set: "mapE f xs = Inr ys \<Longrightarrow> y \<in> set ys \<Longrightarrow> \<exists>x \<in> set xs. f x = Inr y"
  by (fastforce simp: mapE_Inr_iff list_all2_conv_all_nth in_set_conv_nth)

lemma mapE_set2: "mapE f xs = Inr ys \<Longrightarrow> x \<in> set xs \<Longrightarrow> \<exists>y \<in> set ys. f x = Inr y"
  by (fastforce simp: mapE_Inr_iff list_all2_conv_all_nth in_set_conv_nth)

lemma mapE_total: "(\<And>x. x \<in> set xs \<Longrightarrow> f x = Inr (g x)) \<Longrightarrow> mapE f xs = Inr (map g xs)"
  by (induction xs) auto

lemma mapE_bind: "mapE (\<lambda>x. bindE (f x) (\<lambda>y. Inr (g y))) xs = bindE (mapE f xs) (\<lambda>ys. Inr (map g ys))"
proof (induction xs)
  case (Cons x xs)
  then show ?case by (cases "f x"; cases "mapE f xs") simp_all
qed simp

section \<open>Signed 64-bit integers\<close>

text \<open>\<open>int64\<close> arithmetic wraps around: every sum of the source is read back through \<open>i64\<close>.\<close>

definition i64 :: "int \<Rightarrow> int" where
  "i64 x = (x + 2 ^ 63) mod 2 ^ 64 - 2 ^ 63"

definition int64_range :: "int \<Rightarrow> bool" where
  "int64_range x \<longleftrightarrow> - (2 ^ 63) \<le> x \<and> x < 2 ^ 63"

lemma i64_id: "int64_range x \<Longrightarrow> i64 x = x"
  unfolding i64_def int64_range_def by (subst mod_pos_pos_trivial) auto

lemma i64_range: "int64_range (i64 x)"
proof -
  have "0 \<le> (x + 2 ^ 63) mod 2 ^ 64" and "(x + 2 ^ 63) mod 2 ^ 64 < 2 ^ 64" by simp_all
  then show ?thesis by (simp add: i64_def int64_range_def)
qed

lemma int64_rangeI: "- 9223372036854775808 \<le> x \<Longrightarrow> x < 9223372036854775808 \<Longrightarrow> int64_range x"
  by (simp add: int64_range_def)

lemma i64_overflow:
  assumes "2 ^ 63 \<le> x" and "x < 2 ^ 64"
  shows "i64 x = x - 2 ^ 64"
proof -
  have "(x + 2 ^ 63) mod 2 ^ 64 = (x + 2 ^ 63 - 2 ^ 64) mod 2 ^ 64"
    by (metis minus_mod_self2)
  also have "\<dots> = x + 2 ^ 63 - 2 ^ 64" using assms by (intro mod_pos_pos_trivial) auto
  finally show ?thesis by (simp add: i64_def)
qed

section \<open>Big-endian bytes\<close>

type_synonym bytes = string

fun beBytes :: "nat \<Rightarrow> nat \<Rightarrow> bytes" where
  "beBytes 0 x = []"
| "beBytes (Suc n) x = beBytes n (x div 256) @ [char_of (x mod 256)]"

definition beValue :: "bytes \<Rightarrow> nat" where
  "beValue bs = foldl (\<lambda>a c. a * 256 + of_char c) 0 bs"

lemma length_beBytes [simp]: "length (beBytes n x) = n"
  by (induction n arbitrary: x) auto

lemma beValue_beBytes: "beValue (beBytes n x) = x mod 256 ^ n"
proof (induction n arbitrary: x)
  case (Suc n)
  have "beValue (beBytes (Suc n) x) = (x div 256) mod 256 ^ n * 256 + x mod 256"
    using Suc.IH [of "x div 256"] by (simp add: beValue_def of_char_of)
  also have "\<dots> = x mod 256 ^ Suc n" by (simp add: mod_mult2_eq)
  finally show ?case .
qed (simp add: beValue_def)

lemma beBytes_inj: "beBytes n x = beBytes n y \<Longrightarrow> x < 256 ^ n \<Longrightarrow> y < 256 ^ n \<Longrightarrow> x = y"
  by (metis beValue_beBytes mod_less)

section \<open>Prefixes\<close>

lemma prefix_drop: "prefix p s \<Longrightarrow> p @ drop (length p) s = s"
  by (auto simp: prefix_def)

lemma prefix_less_eq: "prefix (p :: 'a :: linorder list) s \<Longrightarrow> p \<le> s"
proof (induction s arbitrary: p)
  case (Cons x xs)
  then show ?case by (cases p) auto
qed simp

lemma prefix_append_cancel [simp]: "prefix (p @ q) (p @ r) \<longleftrightarrow> prefix q r"
  by simp

lemma prefix_same_length: "prefix p s \<Longrightarrow> length p = length s \<Longrightarrow> p = s"
  by (auto simp: prefix_def)

section \<open>Maps\<close>

text \<open>Restricting a map to what does not satisfy a predicate: a bulk deletion.\<close>

definition map_without :: "('k \<Rightarrow> bool) \<Rightarrow> ('k \<rightharpoonup> 'v) \<Rightarrow> ('k \<rightharpoonup> 'v)" where
  "map_without P m = (\<lambda>k. if P k then None else m k)"

lemma map_without_apply [simp]: "map_without P m k = (if P k then None else m k)"
  by (simp add: map_without_def)

lemma map_without_twice [simp]:
  "map_without P (map_without Q m) = map_without (\<lambda>k. P k \<or> Q k) m"
  by (rule ext) simp

lemma map_without_upd_None: "(map_without P m)(k := None) = map_without (\<lambda>x. P x \<or> x = k) m"
  by (rule ext) simp

lemma map_without_False [simp]: "map_without (\<lambda>_. False) m = m"
  by (rule ext) simp

text \<open>Writing a list of bindings in order, later ones winning.\<close>

definition put_all :: "('k \<times> 'v) list \<Rightarrow> ('k \<rightharpoonup> 'v) \<Rightarrow> ('k \<rightharpoonup> 'v)" where
  "put_all kvs m = foldl (\<lambda>m (k, v). m(k \<mapsto> v)) m kvs"

lemma put_all_Nil [simp]: "put_all [] m = m"
  by (simp add: put_all_def)

lemma put_all_Cons [simp]: "put_all ((k, v) # kvs) m = put_all kvs (m(k \<mapsto> v))"
  by (simp add: put_all_def)

lemma put_all_append [simp]: "put_all (xs @ ys) m = put_all ys (put_all xs m)"
  by (simp add: put_all_def)

lemma put_all_other: "k \<notin> fst ` set kvs \<Longrightarrow> put_all kvs m k = m k"
  by (induction kvs arbitrary: m) auto

end
