(* ===== verification/GoStrings.thy ===== *)
theory GoStrings
  imports Prelude
begin

text \<open>
  What the source uses of Go's \<open>strings\<close>, \<open>path\<close>, \<open>path/filepath\<close> (on Unix),
  \<open>encoding/binary\<close> and \<open>uuid\<close> packages, on byte strings, and the facts about it that the
  path handling of the drivers rests on.
\<close>

section \<open>Package strings\<close>

abbreviation slash :: char where "slash \<equiv> CHR ''/''"

text \<open>The UTF-8 encodings of the code points for which \<open>unicode.IsSpace\<close> holds.\<close>

definition goSpaces :: "string list" where
  "goSpaces = map (\<lambda>n. [char_of (n :: nat)]) [9, 10, 11, 12, 13, 32] @
     [[CHR 0xC2, CHR 0x85], [CHR 0xC2, CHR 0xA0], [CHR 0xE1, CHR 0x9A, CHR 0x80]] @
     map (\<lambda>n. [CHR 0xE2, CHR 0x80, char_of (n :: nat)])
       [128, 129, 130, 131, 132, 133, 134, 135, 136, 137, 138, 168, 169, 175] @
     [[CHR 0xE2, CHR 0x81, CHR 0x9F], [CHR 0xE3, CHR 0x80, CHR 0x80]]"

lemma goSpaces_nonempty: "w \<in> set goSpaces \<Longrightarrow> w \<noteq> []"
  by (auto simp: goSpaces_def)

definition leadSpace :: "string \<Rightarrow> string option" where
  "leadSpace s = find (\<lambda>w. prefix w s) goSpaces"

definition trailSpace :: "string \<Rightarrow> string option" where
  "trailSpace s = find (\<lambda>w. suffix w s) goSpaces"

lemma leadSpace_SomeD: "leadSpace s = Some w \<Longrightarrow> w \<in> set goSpaces \<and> prefix w s"
  by (auto simp: leadSpace_def find_Some_iff)

lemma trailSpace_SomeD: "trailSpace s = Some w \<Longrightarrow> w \<in> set goSpaces \<and> suffix w s"
  by (auto simp: trailSpace_def find_Some_iff)

function trimLeft :: "string \<Rightarrow> string" where
  "trimLeft s = (case leadSpace s of None \<Rightarrow> s | Some w \<Rightarrow> trimLeft (drop (length w) s))"
  by pat_completeness auto
termination
proof (relation "measure length", goal_cases)
  case (2 s w)
  then have "w \<noteq> []" "prefix w s" by (auto dest: leadSpace_SomeD goSpaces_nonempty)
  then show ?case by (auto simp: prefix_def)
qed simp

function trimRight :: "string \<Rightarrow> string" where
  "trimRight s = (case trailSpace s of None \<Rightarrow> s
     | Some w \<Rightarrow> trimRight (take (length s - length w) s))"
  by pat_completeness auto
termination
proof (relation "measure length", goal_cases)
  case (2 s w)
  then have "w \<noteq> []" "suffix w s" by (auto dest: trailSpace_SomeD goSpaces_nonempty)
  then show ?case by (auto simp: suffix_def)
qed simp

declare trimLeft.simps [simp del] trimRight.simps [simp del]

definition trimSpace :: "string \<Rightarrow> string" where
  "trimSpace s = trimRight (trimLeft s)"

lemma trimLeft_fix: "leadSpace s = None \<Longrightarrow> trimLeft s = s"
  by (subst trimLeft.simps) simp

lemma trimRight_fix: "trailSpace s = None \<Longrightarrow> trimRight s = s"
  by (subst trimRight.simps) simp

lemma leadSpace_trimLeft: "leadSpace (trimLeft s) = None"
proof (induction s rule: trimLeft.induct)
  case (1 s)
  then show ?case by (cases "leadSpace s") (simp_all add: trimLeft.simps [of s])
qed

lemma trailSpace_trimRight: "trailSpace (trimRight s) = None"
proof (induction s rule: trimRight.induct)
  case (1 s)
  then show ?case by (cases "trailSpace s") (simp_all add: trimRight.simps [of s])
qed

lemma prefix_trimRight: "prefix (trimRight s) s"
proof (induction s rule: trimRight.induct)
  case (1 s)
  then show ?case
    by (cases "trailSpace s")
      (auto simp: trimRight.simps [of s] intro: prefix_order.trans take_is_prefix)
qed

lemma leadSpace_prefix: "leadSpace s = None \<Longrightarrow> prefix t s \<Longrightarrow> leadSpace t = None"
  by (auto simp: leadSpace_def find_None_iff dest: prefix_order.trans)

lemma trimSpace_idem: "trimSpace (trimSpace s) = trimSpace s"
proof -
  have "leadSpace (trimSpace s) = None"
    unfolding trimSpace_def using leadSpace_trimLeft prefix_trimRight by (rule leadSpace_prefix)
  then show ?thesis
    unfolding trimSpace_def by (simp add: trimLeft_fix trimRight_fix trailSpace_trimRight)
qed

definition trimPrefix :: "string \<Rightarrow> string \<Rightarrow> string" where
  "trimPrefix s p = (if prefix p s then drop (length p) s else s)"

definition trimSuffix :: "string \<Rightarrow> string \<Rightarrow> string" where
  "trimSuffix s p = (if suffix p s then take (length s - length p) s else s)"

text \<open>\<open>strings.Trim(s, c)\<close> for a cutset of one ASCII character.\<close>

definition trimBoth :: "char \<Rightarrow> string \<Rightarrow> string" where
  "trimBoth c s = rev (dropWhile ((=) c) (rev (dropWhile ((=) c) s)))"

fun lastIndex :: "char \<Rightarrow> string \<Rightarrow> int" where
  "lastIndex c [] = -1"
| "lastIndex c (x # xs) =
     (let r = lastIndex c xs in if 0 \<le> r then r + 1 else if x = c then 0 else -1)"

fun splitOn :: "char \<Rightarrow> string \<Rightarrow> string list" where
  "splitOn c [] = [[]]"
| "splitOn c (x # xs) =
     (if x = c then [] # splitOn c xs
      else (case splitOn c xs of [] \<Rightarrow> [[x]] | y # ys \<Rightarrow> (x # y) # ys))"

fun joinWith :: "string \<Rightarrow> string list \<Rightarrow> string" where
  "joinWith sep [] = []"
| "joinWith sep [x] = x"
| "joinWith sep (x # y # ys) = x @ sep @ joinWith sep (y # ys)"

text \<open>
  \<open>strings.ToLower\<close>: exact on ASCII strings; on any other string it applies the Unicode case
  tables, which are the parameter \<open>ul\<close>.
\<close>

definition asciiLower :: "char \<Rightarrow> char" where
  "asciiLower c = (if 65 \<le> (of_char c :: nat) \<and> (of_char c :: nat) \<le> 90
     then char_of ((of_char c :: nat) + 32) else c)"

definition isAscii :: "string \<Rightarrow> bool" where
  "isAscii s = list_all (\<lambda>c. (of_char c :: nat) < 128) s"

definition toLower :: "(string \<Rightarrow> string) \<Rightarrow> string \<Rightarrow> string" where
  "toLower ul s = (if isAscii s then map asciiLower s else ul s)"

lemma asciiLower_idem [simp]: "asciiLower (asciiLower c) = asciiLower c"
  by (auto simp: asciiLower_def of_char_of)

lemma asciiLower_ascii: "(of_char c :: nat) < 128 \<Longrightarrow> (of_char (asciiLower c) :: nat) < 128"
  by (auto simp: asciiLower_def of_char_of)

lemma toLower_idem_ascii: "isAscii s \<Longrightarrow> toLower ul (toLower ul s) = toLower ul s"
  by (auto simp: toLower_def isAscii_def list_all_iff asciiLower_ascii)

subsection \<open>Facts\<close>

lemma splitOn_neq_Nil [simp]: "splitOn c s \<noteq> []"
  by (induction s) (auto split: list.splits)

lemma join_split: "joinWith [c] (splitOn c s) = s"
proof (induction s)
  case (Cons x xs)
  obtain y ys where yy: "splitOn c xs = y # ys" by (cases "splitOn c xs") auto
  then show ?case using Cons.IH by (cases ys) auto
qed simp

lemma splitOn_no_sep: "w \<in> set (splitOn c s) \<Longrightarrow> c \<notin> set w"
proof (induction s arbitrary: w)
  case (Cons x xs)
  obtain y ys where yy: "splitOn c xs = y # ys" by (cases "splitOn c xs") auto
  then show ?case using Cons by (auto split: if_splits)
qed simp

lemma splitOn_sep_free: "c \<notin> set s \<Longrightarrow> splitOn c s = [s]"
  by (induction s) auto

lemma splitOn_append_sep:
  "c \<notin> set w \<Longrightarrow> splitOn c (w @ c # s) = w # splitOn c s"
  by (induction w) auto

lemma split_join:
  "ws \<noteq> [] \<Longrightarrow> (\<And>w. w \<in> set ws \<Longrightarrow> c \<notin> set w) \<Longrightarrow> splitOn c (joinWith [c] ws) = ws"
  by (induction "[c]" ws rule: joinWith.induct) (auto simp: splitOn_sep_free splitOn_append_sep)

lemma lastIndex_neg: "lastIndex c s < 0 \<longleftrightarrow> c \<notin> set s"
  by (induction s) (auto simp: Let_def)

lemma lastIndex_append:
  "c \<notin> set t \<Longrightarrow> lastIndex c (s @ c # t) = int (length s)"
proof (induction s)
  case Nil
  then have "lastIndex c t < 0" by (simp add: lastIndex_neg)
  then show ?case by (simp add: Let_def)
qed (auto simp: Let_def)

lemma last_slash_split: "c \<in> set s \<Longrightarrow> \<exists>a b. s = a @ c # b \<and> c \<notin> set b"
  using split_list_last by fastforce

section \<open>Packages path and path/filepath\<close>

text \<open>
  \<open>path.Clean\<close>, which on Unix is also \<open>filepath.Clean\<close>: empty and dot elements vanish, a
  \<open>..\<close> removes the element before it and is dropped at the root.
\<close>

fun cleanStep :: "bool \<Rightarrow> string list \<Rightarrow> string \<Rightarrow> string list" where
  "cleanStep rooted acc e =
     (if e = [] \<or> e = ''.'' then acc
      else if e = ''..'' then
        (case acc of [] \<Rightarrow> (if rooted then [] else [''..''])
         | x # xs \<Rightarrow> (if x = ''..'' then ''..'' # acc else xs))
      else e # acc)"

definition cleanElems :: "string \<Rightarrow> string list" where
  "cleanElems p = rev (foldl (cleanStep (prefix [slash] p)) [] (splitOn slash p))"

definition cleanPath :: "string \<Rightarrow> string" where
  "cleanPath p =
     (let s = (if prefix [slash] p then [slash] else []) @ joinWith [slash] (cleanElems p)
      in if s = [] then ''.'' else s)"

definition stripSlashes :: "string \<Rightarrow> string" where
  "stripSlashes s = rev (dropWhile ((=) slash) (rev s))"

definition afterSlash :: "string \<Rightarrow> string" where
  "afterSlash s = rev (takeWhile ((\<noteq>) slash) (rev s))"

definition basePath :: "string \<Rightarrow> string" where
  "basePath p = (if p = [] then ''.'' else
     let q = afterSlash (stripSlashes p) in if q = [] then [slash] else q)"

text \<open>\<open>Dir\<close> cleans everything up to and including the last slash.\<close>

definition dirPath :: "string \<Rightarrow> string" where
  "dirPath p = cleanPath (take (length p - length (afterSlash p)) p)"

text \<open>\<open>Ext\<close>: the suffix from the last dot of the last element.\<close>

definition extPath :: "string \<Rightarrow> string" where
  "extPath p = (let n = afterSlash p; k = lastIndex CHR ''.'' n
     in if k < 0 then [] else drop (nat k) n)"

definition joinPath :: "string list \<Rightarrow> string" where
  "joinPath es = (let ns = filter (\<lambda>e. e \<noteq> []) es
     in if ns = [] then [] else cleanPath (joinWith [slash] ns))"

subsection \<open>Facts\<close>

text \<open>A clean absolute path: a slash and proper elements separated by single slashes.\<close>

definition properElem :: "string \<Rightarrow> bool" where
  "properElem w \<longleftrightarrow> w \<noteq> [] \<and> w \<noteq> ''.'' \<and> w \<noteq> ''..'' \<and> slash \<notin> set w"

definition cleanAbs :: "string \<Rightarrow> bool" where
  "cleanAbs s \<longleftrightarrow> (\<exists>ws. s = slash # joinWith [slash] ws \<and> list_all properElem ws)"

lemma properElem_D [dest]: "properElem w \<Longrightarrow> w \<noteq> [] \<and> slash \<notin> set w"
  by (simp add: properElem_def)

lemma cleanStep_proper:
  "list_all properElem acc \<Longrightarrow> slash \<notin> set e \<Longrightarrow> list_all properElem (cleanStep True acc e)"
  by (auto simp: properElem_def split: list.splits)

lemma foldl_cleanStep_proper:
  "list_all properElem acc \<Longrightarrow> (\<And>e. e \<in> set es \<Longrightarrow> slash \<notin> set e) \<Longrightarrow>
     list_all properElem (foldl (cleanStep True) acc es)"
proof (induction es arbitrary: acc)
  case (Cons e es)
  then have "list_all properElem (cleanStep True acc e)" by (intro cleanStep_proper) auto
  with Cons show ?case by (simp del: cleanStep.simps)
qed simp

lemma cleanPath_cleanAbs: "cleanAbs (cleanPath (slash # s))"
proof -
  have "list_all properElem (cleanElems (slash # s))"
    unfolding cleanElems_def
    by (auto simp del: cleanStep.simps splitOn.simps simp: list_all_rev
          intro!: foldl_cleanStep_proper dest: splitOn_no_sep)
  then show ?thesis by (auto simp: cleanAbs_def cleanPath_def)
qed

lemma foldl_cleanStep_fix:
  "list_all properElem es \<Longrightarrow> foldl (cleanStep b) acc es = rev es @ acc"
  by (induction es arbitrary: acc) (auto simp: properElem_def)

lemma cleanPath_fix: "cleanAbs s \<Longrightarrow> cleanPath s = s"
proof -
  assume "cleanAbs s"
  then obtain ws where ws: "s = slash # joinWith [slash] ws" "list_all properElem ws"
    by (auto simp: cleanAbs_def)
  have "foldl (cleanStep True) [] (splitOn slash (joinWith [slash] ws)) = rev ws"
  proof (cases "ws = []")
    case False
    have "splitOn slash (joinWith [slash] ws) = ws"
      using False ws(2) by (intro split_join) (auto simp: list_all_iff)
    then show ?thesis using ws(2) by (simp add: foldl_cleanStep_fix)
  qed simp
  then show ?thesis using ws(1) by (simp add: cleanPath_def cleanElems_def Let_def)
qed

lemma cleanPath_idem: "cleanPath (cleanPath (slash # s)) = cleanPath (slash # s)"
  by (rule cleanPath_fix) (rule cleanPath_cleanAbs)

lemma joinWith_last:
  "ws \<noteq> [] \<Longrightarrow> list_all properElem ws \<Longrightarrow>
     joinWith [slash] ws \<noteq> [] \<and> last (joinWith [slash] ws) \<noteq> slash"
  by (induction "[slash]" ws rule: joinWith.induct)
    (use last_in_set in \<open>fastforce simp: properElem_def\<close>)+

lemma cleanAbs_starts: "cleanAbs s \<Longrightarrow> \<exists>t. s = slash # t"
  by (auto simp: cleanAbs_def)

lemma cleanAbs_last: "cleanAbs s \<Longrightarrow> s \<noteq> [slash] \<Longrightarrow> last s \<noteq> slash"
proof -
  assume "cleanAbs s" and ne: "s \<noteq> [slash]"
  then obtain ws where ws: "s = slash # joinWith [slash] ws" "list_all properElem ws"
    by (auto simp: cleanAbs_def)
  then have "ws \<noteq> []" using ne by auto
  with ws joinWith_last [of ws] show ?thesis by auto
qed

section \<open>Package uuid\<close>

type_synonym uuid = "128 word"

definition nilUUID :: uuid where
  "nilUUID = 0"

definition idBytes :: "uuid \<Rightarrow> bytes" where
  "idBytes i = beBytes 16 (unat i)"

definition idOfBytes :: "bytes \<Rightarrow> uuid" where
  "idOfBytes bs = of_nat (beValue bs)"

lemma length_idBytes [simp]: "length (idBytes i) = 16"
  by (simp add: idBytes_def)

lemma unat_uuid_bound: "unat (i :: uuid) < 256 ^ 16"
  using unsigned_less [of i] by simp

lemma idOfBytes_idBytes [simp]: "idOfBytes (idBytes i) = i"
  using unat_uuid_bound [of i] by (simp add: idOfBytes_def idBytes_def beValue_beBytes)

lemma idBytes_inj [simp]: "idBytes i = idBytes j \<longleftrightarrow> i = j"
  by (metis idOfBytes_idBytes)

text \<open>\<open>uuid.UUID.String\<close>: lower-case hexadecimal in groups of 8-4-4-4-12 digits.\<close>

definition hexDigit :: "nat \<Rightarrow> char" where
  "hexDigit n = ''0123456789abcdef'' ! (n mod 16)"

definition hexEncode :: "bytes \<Rightarrow> string" where
  "hexEncode bs = concat (map (\<lambda>c. [hexDigit (of_char c div 16), hexDigit (of_char c)]) bs)"

definition uuidString :: "uuid \<Rightarrow> string" where
  "uuidString i = (let h = hexEncode (idBytes i) in
     joinWith ''-'' [take 8 h, take 4 (drop 8 h), take 4 (drop 12 h), take 4 (drop 16 h), drop 20 h])"

end
