(* ===== verification/Vfs.thy ===== *)
theory Vfs
  imports GoStrings
begin

text \<open>
  The root package: metadata, MIME types, open files, tree traversal (\<open>vfs.go\<close>,
  \<open>constants.go\<close>) and the checks shared by both drivers' move and copy (\<open>transfer.go\<close>).
\<close>

section \<open>Errors\<close>

text \<open>
  The package's sentinel errors, the sentinels of the libraries the source compares with, those
  of the user store, an error that the source only passes on (\<open>ErrOther\<close>), \<open>errors.Join\<close> and
  \<open>fmt.Errorf\<close> with \<open>%w\<close>.
\<close>

datatype err =
    ErrNotFound | ErrAlreadyExists | ErrNotDir | ErrInvalidPath | ErrNotSupported
  | ErrNotSupportedSeek
  | ErrKeyNotFound | ErrDBClosed | ErrInvalidEncryptionKey
  | ErrEOF | ErrUnexpectedEOF | ErrNotExist | ErrExist | ErrClosed
  | ErrUserNotFound | ErrUsernameExists | ErrInvalidRole | ErrInvalidPassword | ErrLastAdmin
  | ErrOther string
  | ErrJoined "err list"
  | ErrWrapped string err

fun errorsIs :: "err \<Rightarrow> err \<Rightarrow> bool" where
  "errorsIs (ErrJoined es) t = (ErrJoined es = t \<or> list_ex (\<lambda>e. errorsIs e t) es)"
| "errorsIs (ErrWrapped s e) t = (ErrWrapped s e = t \<or> errorsIs e t)"
| "errorsIs e t = (e = t)"

text \<open>\<open>errors.Join\<close> drops nil errors and is nil when none is left.\<close>

definition errorsJoin :: "err option list \<Rightarrow> err option" where
  "errorsJoin es = (let xs = map the (filter (\<lambda>e. e \<noteq> None) es)
     in if xs = [] then None else Some (ErrJoined xs))"

lemma errorsJoin_None [simp]: "errorsJoin es = None \<longleftrightarrow> (\<forall>e \<in> set es. e = None)"
  by (auto simp: errorsJoin_def Let_def filter_empty_conv)

section \<open>Metadata\<close>

text \<open>\<open>time.Time\<close> is an instant in nanoseconds.\<close>

record vmeta =
  mID :: uuid
  mPath :: string
  mName :: string
  mExtension :: string
  mSize :: int
  mIsDir :: bool
  mModified :: int
  mComments :: string

definition vmeta0 :: vmeta where
  "vmeta0 = \<lparr>mID = nilUUID, mPath = [], mName = [], mExtension = [], mSize = 0,
     mIsDir = False, mModified = 0, mComments = []\<rparr>"

definition Root :: string where
  "Root = ''/''"

definition MIMEOctetStream :: string where
  "MIMEOctetStream = ''application/octet-stream''"

definition mimeByExtension :: "(string \<times> string) list" where
  "mimeByExtension =
    [(''md'', ''text/markdown''), (''txt'', ''text/plain''), (''json'', ''application/json''),
     (''jpg'', ''image/jpeg''), (''jpeg'', ''image/jpeg''), (''png'', ''image/png''),
     (''webp'', ''image/webp''), (''gif'', ''image/gif''), (''svg'', ''image/svg+xml''),
     (''xml'', ''application/xml''), (''js'', ''text/javascript''), (''mjs'', ''text/javascript''),
     (''css'', ''text/css''), (''csv'', ''text/csv''), (''html'', ''text/html''),
     (''htm'', ''text/html''), (''pdf'', ''application/pdf''), (''mp3'', ''audio/mpeg''),
     (''wav'', ''audio/wav''), (''mpeg'', ''video/mpeg''), (''mpg'', ''video/mpeg''),
     (''mp4'', ''video/mp4''), (''webm'', ''video/webm''), (''avi'', ''video/x-msvideo''),
     (''mov'', ''video/quicktime''), (''mkv'', ''video/x-matroska'')]"

definition MIME :: "(string \<Rightarrow> string) \<Rightarrow> ('z) vmeta_scheme \<Rightarrow> string" where
  "MIME ul m = (case map_of mimeByExtension (toLower ul (mExtension m)) of
     Some mimeType \<Rightarrow> mimeType | None \<Rightarrow> MIMEOctetStream)"

section \<open>Trees\<close>

datatype tree_node = TreeNode (nodeMeta: vmeta) (nodeChildren: "tree_node list")

text \<open>
  \<open>traverseNodes\<close> with a callback that carries state \<open>'s\<close> and may stop the traversal. The
  result is Go's boolean and the final state.
\<close>

fun traverseNodes ::
    "(tree_node \<Rightarrow> 's \<Rightarrow> bool \<times> 's) \<Rightarrow> tree_node \<Rightarrow> 's \<Rightarrow> bool \<times> 's"
and traverseChildren ::
    "(tree_node \<Rightarrow> 's \<Rightarrow> bool \<times> 's) \<Rightarrow> tree_node list \<Rightarrow> 's \<Rightarrow> bool \<times> 's" where
  "traverseNodes yield (TreeNode m cs) s =
     (case yield (TreeNode m cs) s of
        (False, s') \<Rightarrow> (False, s')
      | (True, s') \<Rightarrow> traverseChildren yield cs s')"
| "traverseChildren yield [] s = (True, s)"
| "traverseChildren yield (c # cs) s =
     (case traverseNodes yield c s of
        (False, s') \<Rightarrow> (False, s')
      | (True, s') \<Rightarrow> traverseChildren yield cs s')"

text \<open>\<open>Walk\<close> on a possibly nil node.\<close>

definition Walk :: "tree_node option \<Rightarrow> (tree_node \<Rightarrow> 's \<Rightarrow> bool \<times> 's) \<Rightarrow> 's \<Rightarrow> 's" where
  "Walk node yield s = (case node of None \<Rightarrow> s | Some n \<Rightarrow> snd (traverseNodes yield n s))"

text \<open>The reference order: a node before its subtrees, the subtrees from left to right.\<close>

fun preorder :: "tree_node \<Rightarrow> tree_node list" where
  "preorder (TreeNode m cs) = TreeNode m cs # concat (map preorder cs)"

text \<open>Feeding a list to a callback until it answers false.\<close>

fun feed :: "('a \<Rightarrow> 's \<Rightarrow> bool \<times> 's) \<Rightarrow> 'a list \<Rightarrow> 's \<Rightarrow> bool \<times> 's" where
  "feed yield [] s = (True, s)"
| "feed yield (x # xs) s =
     (case yield x s of (False, s') \<Rightarrow> (False, s') | (True, s') \<Rightarrow> feed yield xs s')"

lemma feed_append: "feed yield (xs @ ys) s =
  (case feed yield xs s of (False, s') \<Rightarrow> (False, s') | (True, s') \<Rightarrow> feed yield ys s')"
  by (induction xs arbitrary: s) (auto split: prod.splits bool.splits)

lemma traverse_feed:
  "traverseNodes yield n s = feed yield (preorder n) s"
  "traverseChildren yield ns s = feed yield (concat (map preorder ns)) s"
  by (induction yield n s and yield ns s rule: traverseNodes_traverseChildren.induct)
    (auto simp: feed_append split: prod.splits bool.splits)

lemma Walk_preorder: "Walk node yield s = (case node of None \<Rightarrow> s
    | Some n \<Rightarrow> snd (feed yield (preorder n) s))"
  by (simp add: Walk_def traverse_feed split: option.split)

lemma feed_collect: "feed (\<lambda>n acc. (True, acc @ [n])) xs acc = (True, acc @ xs)"
  by (induction xs arbitrary: acc) auto

lemma feed_all: "(\<And>x s. x \<in> set xs \<Longrightarrow> fst (f x s)) \<Longrightarrow>
    snd (feed f xs s) = foldl (\<lambda>s x. snd (f x s)) s xs"
proof (induction xs arbitrary: s)
  case (Cons x xs)
  obtain s' where "f x s = (True, s')" using Cons.prems [of x s] by (cases "f x s") auto
  with Cons show ?case by simp
qed simp

section \<open>Transfers\<close>

definition containsAny :: "string \<Rightarrow> string \<Rightarrow> bool" where
  "containsAny s cs = list_ex (\<lambda>c. c \<in> set cs) s"

text \<open>The characters no stored path may hold: a backslash and NUL.\<close>

definition badChars :: string where
  "badChars = [CHR 0x5C, CHR 0x00]"

definition TransferPath :: "('z) vmeta_scheme \<Rightarrow> string \<Rightarrow> err + string" where
  "TransferPath src dst =
     (let dst = cleanPath (''/'' @ trimSpace dst);
          source = cleanPath (mPath src)
      in if source = ''/'' \<or> dst = ''/'' \<or> source = dst
            \<or> prefix (dst @ ''/'') source
            \<or> (mIsDir src \<and> prefix (source @ ''/'') dst)
            \<or> containsAny dst badChars
         then Inl ErrInvalidPath
         else Inr (if mIsDir src then dst @ ''/'' else dst))"

definition CheckReplacement :: "('z) vmeta_scheme option \<Rightarrow> uuid list \<Rightarrow> err option" where
  "CheckReplacement target replaceID =
     (case replaceID of [] \<Rightarrow> None
      | expected # _ \<Rightarrow>
        (case target of
           None \<Rightarrow> if expected \<noteq> nilUUID then Some ErrAlreadyExists else None
         | Some t \<Rightarrow> if expected = nilUUID \<or> mID t \<noteq> expected then Some ErrAlreadyExists else None))"

text \<open>Two slash-free-terminated paths of which neither is the other or below the other.\<close>

definition unrelated :: "string \<Rightarrow> string \<Rightarrow> bool" where
  "unrelated p q \<longleftrightarrow> p \<noteq> q \<and> \<not> prefix (p @ ''/'') q \<and> \<not> prefix (q @ ''/'') p"

lemma TransferPath_InrD:
  assumes "TransferPath src dst = Inr p"
  obtains d where "p = (if mIsDir src then d @ ''/'' else d)" "cleanAbs d" "d \<noteq> ''/''"
    "d = cleanPath (slash # trimSpace dst)" "cleanPath (mPath src) \<noteq> ''/''"
    "cleanPath (mPath src) \<noteq> d" "\<not> prefix (d @ ''/'') (cleanPath (mPath src))"
    "mIsDir src \<Longrightarrow> \<not> prefix (cleanPath (mPath src) @ ''/'') d" "\<not> containsAny d badChars"
  using assms cleanPath_cleanAbs [of "trimSpace dst"]
  by (auto simp: TransferPath_def Let_def split: if_splits)

lemma TransferPath_rooted: "TransferPath src dst = Inr p \<Longrightarrow> prefix ''/'' p"
  by (erule TransferPath_InrD) (auto dest!: cleanAbs_starts)

lemma TransferPath_Inl: "TransferPath src dst = Inl e \<Longrightarrow> e = ErrInvalidPath"
  by (auto simp: TransferPath_def Let_def split: if_splits)

section \<open>Readers\<close>

text \<open>
  An \<open>io.Reader\<close>: the bytes it delivers and the error it ends with, \<open>io.EOF\<close> at a normal end.
  \<open>io.ReadFull\<close> returns a full buffer with no error, or what is left with that error.
\<close>

record reader =
  rData :: bytes
  rEnd :: err

section \<open>Open files\<close>

text \<open>
  \<open>File\<close> wraps an optional reader of type \<open>'r\<close>; \<open>rd\<close> is the reader's own \<open>Read\<close>, \<open>sk\<close> its
  \<open>Seek\<close> when it implements \<open>io.Seeker\<close>, \<open>cl\<close> its \<open>Close\<close>.
\<close>

record 'r vfile =
  fMeta :: vmeta
  fReader :: "'r option"

definition File_Read :: "('r \<Rightarrow> nat \<Rightarrow> (bytes \<times> err option) \<times> 'r) \<Rightarrow> 'r vfile \<Rightarrow> nat
    \<Rightarrow> (bytes \<times> err option) \<times> 'r vfile" where
  "File_Read rd f n = (case fReader f of
     None \<Rightarrow> (([], Some ErrEOF), f)
   | Some r \<Rightarrow> (case rd r n of (res, r') \<Rightarrow> (res, f\<lparr>fReader := Some r'\<rparr>)))"

definition File_Seek :: "('r \<Rightarrow> int \<Rightarrow> int \<Rightarrow> (err + int) \<times> 'r) option \<Rightarrow> 'r vfile \<Rightarrow> int \<Rightarrow> int
    \<Rightarrow> (err + int) \<times> 'r vfile" where
  "File_Seek sk f offset whence = (case (fReader f, sk) of
     (Some r, Some seek) \<Rightarrow>
       (case seek r offset whence of (res, r') \<Rightarrow> (res, f\<lparr>fReader := Some r'\<rparr>))
   | _ \<Rightarrow> (Inl ErrNotSupportedSeek, f))"

definition File_Close :: "('r \<Rightarrow> err option \<times> 'r) \<Rightarrow> 'r vfile \<Rightarrow> err option \<times> 'r vfile" where
  "File_Close cl f = (case fReader f of
     None \<Rightarrow> (None, f)
   | Some r \<Rightarrow> (case cl r of (res, r') \<Rightarrow> (res, f\<lparr>fReader := Some r'\<rparr>)))"

definition NewFile :: "vmeta \<Rightarrow> 'r option \<Rightarrow> 'r vfile" where
  "NewFile m r = \<lparr>fMeta = m, fReader = r\<rparr>"

end
