(* ===== verification/Kv_Store.thy ===== *)
theory Kv_Store
  imports Vfs
begin

text \<open>
  The interface through which the Badger driver and the user store reach BadgerDB, a library
  outside the repository: its operations are the fields of a record that every definition of
  the clients takes as an argument, its documented behaviour is the locale \<open>kv_store\<close> (what an
  operation that reports success has done) and its extension \<open>kv_reliable\<close> (no operation
  fails). An in-memory store shows that the laws can hold together.
\<close>

section \<open>Operations\<close>

text \<open>
  \<open>'d\<close> is an open database, \<open>'t\<close> a transaction: a snapshot with pending writes. \<open>kvGet\<close> is
  \<open>txn.Get\<close> followed by reading the item's value, and fails when either does. A scan lists the
  items under a key prefix in key order; reading an item's value may fail. A write batch is
  the list of its accepted writes; parts of it may reach the database before it is flushed.
\<close>

type_synonym pending = "(bytes \<times> bytes) list"

record ('d, 't) kv =
  kvBegin :: "'d \<Rightarrow> 't"
  kvGet :: "'t \<Rightarrow> bytes \<Rightarrow> err + bytes"
  kvSet :: "'t \<Rightarrow> bytes \<Rightarrow> bytes \<Rightarrow> err + 't"
  kvDelete :: "'t \<Rightarrow> bytes \<Rightarrow> err + 't"
  kvScan :: "'t \<Rightarrow> bytes \<Rightarrow> (bytes \<times> (err + bytes)) list"
  kvCommit :: "'d \<Rightarrow> 't \<Rightarrow> err + 'd"
  kvBatchSet :: "'d \<Rightarrow> pending \<Rightarrow> bytes \<Rightarrow> bytes \<Rightarrow> err option"
  kvBatchFlush :: "'d \<Rightarrow> pending \<Rightarrow> err option \<times> 'd"
  kvBatchCancel :: "'d \<Rightarrow> pending \<Rightarrow> 'd"
  kvBackup :: "'d \<Rightarrow> nat \<Rightarrow> err + (bytes \<times> nat)"
  kvLoad :: "'d \<Rightarrow> bytes \<Rightarrow> nat \<Rightarrow> err option \<times> 'd"
  kvClose :: "'d \<Rightarrow> err option"

text \<open>
  \<open>db.View\<close> runs its function on a snapshot; \<open>db.Update\<close> runs it on a fresh transaction,
  discards the transaction when the function returns an error and commits it otherwise.
\<close>

definition dbView :: "('d, 't, 'z) kv_scheme \<Rightarrow> ('t \<Rightarrow> 'a) \<Rightarrow> 'd \<Rightarrow> 'a" where
  "dbView K f d = f (kvBegin K d)"

definition dbUpdate :: "('d, 't, 'z) kv_scheme \<Rightarrow> ('t \<Rightarrow> err + 'a \<times> 't) \<Rightarrow> 'd
    \<Rightarrow> (err + 'a) \<times> 'd" where
  "dbUpdate K f d = (case f (kvBegin K d) of
     Inl e \<Rightarrow> (Inl e, d)
   | Inr (a, t) \<Rightarrow> (case kvCommit K d t of Inl e \<Rightarrow> (Inl e, d) | Inr d' \<Rightarrow> (Inr a, d')))"

lemma dbUpdate_Inl: "dbUpdate K f d = (Inl e, d') \<Longrightarrow> d' = d"
  by (auto simp: dbUpdate_def split: sum.splits prod.splits)

lemma dbUpdate_InrD: "dbUpdate K f d = (Inr a, d') \<Longrightarrow>
    \<exists>t. f (kvBegin K d) = Inr (a, t) \<and> kvCommit K d t = Inr d'"
  by (auto simp: dbUpdate_def split: sum.splits prod.splits)

section \<open>Laws\<close>

type_synonym store = "bytes \<rightharpoonup> bytes"
type_synonym wlog = "bytes \<rightharpoonup> bytes option"

definition overlay :: "store \<Rightarrow> wlog \<Rightarrow> store" where
  "overlay m w = (\<lambda>k. case w k of None \<Rightarrow> m k | Some x \<Rightarrow> x)"

lemma overlay_apply: "overlay m w k = (case w k of None \<Rightarrow> m k | Some x \<Rightarrow> x)"
  by (simp add: overlay_def)

lemma overlay_empty [simp]: "overlay m Map.empty = m"
  by (simp add: overlay_def)

lemma overlay_write: "overlay m (w(k \<mapsto> x)) = (overlay m w)(k := x)"
  by (auto simp: overlay_def)

lemma overlay_base_upd: "w k = None \<Longrightarrow> overlay (m(k \<mapsto> v)) w = (overlay m w)(k \<mapsto> v)"
  by (auto simp: overlay_def fun_eq_iff split: option.splits)

text \<open>
  \<open>dview\<close> is the content of a database, \<open>tview\<close> what a transaction reads, \<open>twr\<close> its pending
  writes. Successful reads and writes act on these views; a failed batch may have changed only
  the keys it was asked to write.
\<close>

locale kv_store =
  fixes K :: "('d, 't, 'z) kv_scheme"
    and dview :: "'d \<Rightarrow> store"
    and tview :: "'t \<Rightarrow> store"
    and twr :: "'t \<Rightarrow> wlog"
  assumes begin_view: "tview (kvBegin K d) = dview d"
    and begin_wr: "twr (kvBegin K d) = Map.empty"
    and get_ok: "kvGet K t k = Inr v \<Longrightarrow> tview t k = Some v"
    and get_missing: "kvGet K t k = Inl e \<Longrightarrow> errorsIs e ErrKeyNotFound \<Longrightarrow> tview t k = None"
    and set_view: "kvSet K t k v = Inr t' \<Longrightarrow> tview t' = (tview t)(k \<mapsto> v)"
    and set_wr: "kvSet K t k v = Inr t' \<Longrightarrow> twr t' = (twr t)(k \<mapsto> Some v)"
    and delete_view: "kvDelete K t k = Inr t' \<Longrightarrow> tview t' = (tview t)(k := None)"
    and delete_wr: "kvDelete K t k = Inr t' \<Longrightarrow> twr t' = (twr t)(k \<mapsto> None)"
    and scan_keys: "fst ` set (kvScan K t p) = {k \<in> dom (tview t). prefix p k}"
    and scan_sorted: "sorted_wrt (<) (map fst (kvScan K t p))"
    and scan_value: "(k, Inr v) \<in> set (kvScan K t p) \<Longrightarrow> tview t k = Some v"
    and commit_view: "kvCommit K d t = Inr d' \<Longrightarrow> dview d' = overlay (dview d) (twr t)"
    and flush_view: "kvBatchFlush K d ps = (None, d') \<Longrightarrow> dview d' = put_all ps (dview d)"
    and flush_failed: "kvBatchFlush K d ps = (Some e, d') \<Longrightarrow> k \<notin> fst ` set ps \<Longrightarrow>
          dview d' k = dview d k"
    and cancel_view: "k \<notin> fst ` set ps \<Longrightarrow> dview (kvBatchCancel K d ps) k = dview d k"
begin

text \<open>
  \<open>shows d t m\<close>: the transaction \<open>t\<close> over the database \<open>d\<close> reads the content \<open>m\<close>, and
  committing it to \<open>d\<close> makes \<open>m\<close> the content of the database.
\<close>

definition "shows d t m \<longleftrightarrow> tview t = m \<and> overlay (dview d) (twr t) = m"

lemma shows_begin: "shows d (kvBegin K d) (dview d)"
  by (simp add: shows_def begin_view begin_wr)

lemma shows_set: "shows d t m \<Longrightarrow> kvSet K t k v = Inr t' \<Longrightarrow> shows d t' (m(k \<mapsto> v))"
  by (simp add: shows_def set_view set_wr overlay_write)

lemma shows_delete: "shows d t m \<Longrightarrow> kvDelete K t k = Inr t' \<Longrightarrow> shows d t' (m(k := None))"
  by (simp add: shows_def delete_view delete_wr overlay_write)

lemma shows_commit: "shows d t m \<Longrightarrow> kvCommit K d t = Inr d' \<Longrightarrow> dview d' = m"
  by (simp add: shows_def commit_view)

lemma shows_get: "shows d t m \<Longrightarrow> kvGet K t k = Inr v \<Longrightarrow> m k = Some v"
  by (auto simp: shows_def dest: get_ok)

lemma shows_missing:
  "shows d t m \<Longrightarrow> kvGet K t k = Inl e \<Longrightarrow> errorsIs e ErrKeyNotFound \<Longrightarrow> m k = None"
  by (auto simp: shows_def dest: get_missing)

lemma shows_scan: "shows d t m \<Longrightarrow> (k, Inr v) \<in> set (kvScan K t p) \<Longrightarrow> m k = Some v \<and> prefix p k"
  using scan_value [of k v t p] scan_keys [of t p] by (force simp: shows_def)

lemma shows_scan_complete:
  "shows d t m \<Longrightarrow> m k = Some v \<Longrightarrow> prefix p k \<Longrightarrow> \<exists>x. (k, x) \<in> set (kvScan K t p)"
  using scan_keys [of t p] by (force simp: shows_def)

lemma update_rule:
  assumes "dbUpdate K f d = (Inr a, d')"
    and "\<And>t a t'. shows d t (dview d) \<Longrightarrow> f t = Inr (a, t') \<Longrightarrow> \<exists>m. shows d t' m \<and> P a m"
  shows "P a (dview d')"
proof -
  obtain t where "f (kvBegin K d) = Inr (a, t)" and c: "kvCommit K d t = Inr d'"
    using dbUpdate_InrD [OF assms(1)] by blast
  with assms(2) [OF shows_begin] obtain m where "shows d t m" "P a m" by blast
  with shows_commit [OF _ c] show ?thesis by simp
qed

end

text \<open>No operation fails: what is needed to show that the clients' operations succeed.\<close>

locale kv_reliable = kv_store +
  assumes get_total: "tview t k = Some v \<Longrightarrow> kvGet K t k = Inr v"
    and get_none: "tview t k = None \<Longrightarrow> kvGet K t k = Inl ErrKeyNotFound"
    and set_total: "\<exists>t'. kvSet K t k v = Inr t'"
    and delete_total: "\<exists>t'. kvDelete K t k = Inr t'"
    and scan_total: "(k, x) \<in> set (kvScan K t p) \<Longrightarrow> \<exists>v. x = Inr v"
    and commit_total: "\<exists>d'. kvCommit K d t = Inr d'"
    and batch_total: "kvBatchSet K d ps k v = None"
    and flush_total: "\<exists>d'. kvBatchFlush K d ps = (None, d')"
begin

lemma get_iff: "kvGet K t k = (case tview t k of Some v \<Rightarrow> Inr v | None \<Rightarrow> Inl ErrKeyNotFound)"
  by (simp add: get_total get_none split: option.split)

lemma update_total:
  "f (kvBegin K d) = Inr (a, t) \<Longrightarrow> \<exists>d'. dbUpdate K f d = (Inr a, d')"
  using commit_total [of d t] by (auto simp: dbUpdate_def)

end

section \<open>A store in memory\<close>

text \<open>
  Databases are association lists; a transaction is the list it started from and its writes,
  latest first.
\<close>

type_synonym mem = "(bytes \<times> bytes) list"
type_synonym memtx = "mem \<times> (bytes \<times> bytes option) list"

definition mem_tview :: "memtx \<Rightarrow> store" where
  "mem_tview t = overlay (map_of (fst t)) (map_of (snd t))"

definition mem_scan :: "memtx \<Rightarrow> bytes \<Rightarrow> (bytes \<times> (err + bytes)) list" where
  "mem_scan t p =
     map (\<lambda>k. (k, Inr (the (mem_tview t k))))
       (sort (remdups (filter (\<lambda>k. prefix p k \<and> mem_tview t k \<noteq> None)
          (map fst (fst t) @ map fst (snd t)))))"

fun mem_apply :: "(bytes \<times> bytes option) list \<Rightarrow> mem \<Rightarrow> mem" where
  "mem_apply [] d = d"
| "mem_apply ((k, Some v) # w) d = (k, v) # mem_apply w d"
| "mem_apply ((k, None) # w) d = filter (\<lambda>(k', _). k' \<noteq> k) (mem_apply w d)"

definition mem_kv :: "(mem, memtx) kv" where
  "mem_kv = \<lparr>
     kvBegin = (\<lambda>d. (d, [])),
     kvGet = (\<lambda>t k. case mem_tview t k of Some v \<Rightarrow> Inr v | None \<Rightarrow> Inl ErrKeyNotFound),
     kvSet = (\<lambda>t k v. Inr (fst t, (k, Some v) # snd t)),
     kvDelete = (\<lambda>t k. Inr (fst t, (k, None) # snd t)),
     kvScan = mem_scan,
     kvCommit = (\<lambda>d t. Inr (mem_apply (snd t) d)),
     kvBatchSet = (\<lambda>d ps k v. None),
     kvBatchFlush = (\<lambda>d ps. (None, rev ps @ d)),
     kvBatchCancel = (\<lambda>d ps. d),
     kvBackup = (\<lambda>d since. Inr ([], 0)),
     kvLoad = (\<lambda>d r n. (None, d)),
     kvClose = (\<lambda>d. None)\<rparr>"

lemma map_of_mem_apply: "map_of (mem_apply w d) = overlay (map_of d) (map_of w)"
proof (induction w d rule: mem_apply.induct)
  case (3 k w d)
  have "map_of (filter (\<lambda>(k', _). k' \<noteq> k) xs) = (map_of xs)(k := None)" for xs :: mem
    by (induction xs) auto
  with 3 show ?case by (auto simp: overlay_def fun_eq_iff)
qed (auto simp: overlay_def fun_eq_iff)

lemma map_of_rev_put_all [simp]: "map_of d ++ map_of (rev ps) = put_all ps (map_of d)"
  by (induction ps arbitrary: d rule: rev_induct) (auto simp: fun_eq_iff)

lemma mem_scan_keys: "fst ` set (mem_scan t p) = {k \<in> dom (mem_tview t). prefix p k}"
proof -
  have "k \<in> fst ` set (fst t) \<or> k \<in> fst ` set (snd t)" if "mem_tview t k = Some v" for k v
    using that by (auto simp: mem_tview_def overlay_def map_of_eq_None_iff
        split: option.splits dest: map_of_SomeD intro: rev_image_eqI)
  then show ?thesis by (force simp: mem_scan_def dom_def image_iff)
qed

lemma mem_scan_sorted: "sorted_wrt (<) (map fst (mem_scan t p))"
  unfolding mem_scan_def by (simp add: comp_def strict_sorted_iff)

interpretation memkv: kv_reliable "mem_kv" "map_of" mem_tview "\<lambda>t. map_of (snd t)"
  by unfold_locales
    (auto simp: mem_kv_def mem_tview_def overlay_write map_of_mem_apply map_of_rev_put_all
       mem_scan_keys mem_scan_sorted put_all_other split: option.splits,
     auto simp: mem_scan_def mem_tview_def)

end
