(* ===== verification/Badger_Blob.thy ===== *)
theory Badger_Blob
  imports Kv_Store "HOL-Library.Signed_Division"
begin

text \<open>
  File contents in the Badger driver: the key layout (\<open>utils.go\<close>), the chunked writer
  \<open>writeChunks\<close>, \<open>deleteChunks\<close>, and the random-access reader \<open>blobReader\<close>
  (\<open>badger.go\<close>). The results: what is written can be read back from any offset, deleting one
  file's chunks touches no other key, and \<open>Seek\<close> never leaves a negative offset.
\<close>

section \<open>Keys\<close>

definition prefixMeta :: bytes where "prefixMeta = ''meta:''"
definition prefixBlob :: bytes where "prefixBlob = ''blob:''"
definition prefixIndex :: bytes where "prefixIndex = ''index:''"

definition makeKey :: "bytes \<Rightarrow> bytes \<Rightarrow> bytes" where
  "makeKey pre suf = pre @ suf"

definition makeChunkKey :: "bytes \<Rightarrow> 32 word \<Rightarrow> bytes" where
  "makeChunkKey i seq = prefixBlob @ i @ beBytes 4 (unat seq)"

lemmas prefix_consts = prefixMeta_def prefixBlob_def prefixIndex_def

lemma makeKey_inj [simp]: "makeKey p a = makeKey p b \<longleftrightarrow> a = b"
  by (simp add: makeKey_def)

lemma makeKey_prefix [simp]: "prefix (makeKey p a) (makeKey p b) \<longleftrightarrow> prefix a b"
  by (simp add: makeKey_def)

lemma key_classes [simp]:
  "makeKey prefixMeta a \<noteq> makeKey prefixIndex b"
  "makeKey prefixIndex b \<noteq> makeKey prefixMeta a"
  "makeKey prefixMeta a \<noteq> makeChunkKey i n"
  "makeChunkKey i n \<noteq> makeKey prefixMeta a"
  "makeKey prefixIndex a \<noteq> makeChunkKey i n"
  "makeChunkKey i n \<noteq> makeKey prefixIndex a"
  by (simp_all add: makeKey_def makeChunkKey_def prefix_consts)

lemma blob_prefix_classes [simp]:
  "\<not> prefix (makeKey prefixBlob i) (makeKey prefixMeta a)"
  "\<not> prefix (makeKey prefixBlob i) (makeKey prefixIndex a)"
  "\<not> prefix (makeKey prefixMeta a) (makeKey prefixIndex b)"
  "\<not> prefix (makeKey prefixMeta a) (makeChunkKey i n)"
  by (simp_all add: makeKey_def makeChunkKey_def prefix_consts)

lemma makeChunkKey_inj [simp]:
  "length i = length j \<Longrightarrow> makeChunkKey i a = makeChunkKey j b \<longleftrightarrow> i = j \<and> a = b"
proof -
  have "unat a < 256 ^ 4" "unat b < 256 ^ 4"
    using unsigned_less [of a] unsigned_less [of b] by simp_all
  then show "length i = length j \<Longrightarrow> makeChunkKey i a = makeChunkKey j b \<longleftrightarrow> i = j \<and> a = b"
    using beBytes_inj [of 4 "unat a" "unat b"] by (auto simp: makeChunkKey_def word_unat_eq_iff)
qed

lemma prefix_chunk_key [simp]:
  "length i = length j \<Longrightarrow> prefix (makeKey prefixBlob i) (makeChunkKey j n) \<longleftrightarrow> i = j"
  by (auto simp: makeKey_def makeChunkKey_def prefix_def)

section \<open>Deleting chunks\<close>

definition deleteKeys :: "('d, 't, 'z) kv_scheme \<Rightarrow> bytes list \<Rightarrow> 't \<Rightarrow> err + 't" where
  "deleteKeys K keys t = forE (\<lambda>k t. kvDelete K t k) keys t"

definition deleteChunks :: "('d, 't, 'z) kv_scheme \<Rightarrow> 't \<Rightarrow> bytes \<Rightarrow> err + 't" where
  "deleteChunks K t i =
     (let keys = map fst (kvScan K t (makeKey prefixBlob i)) in deleteKeys K keys t)"

text \<open>The method of \<open>BadgerVFS\<close>: the same in a transaction of its own.\<close>

definition deleteChunksDB :: "('d, 't, 'z) kv_scheme \<Rightarrow> 'd \<Rightarrow> bytes \<Rightarrow> err option \<times> 'd" where
  "deleteChunksDB K d i =
     (case dbUpdate K (\<lambda>t. bindE (deleteChunks K t i) (\<lambda>t'. Inr ((), t'))) d of
        (Inl e, d') \<Rightarrow> (Some e, d') | (Inr _, d') \<Rightarrow> (None, d'))"

section \<open>Writing chunks\<close>

definition ChunkSize :: nat where
  "ChunkSize = 256 * 1024"

lemma ChunkSize_pos [simp]: "0 < ChunkSize" "ChunkSize \<noteq> 0"
  by (simp_all add: ChunkSize_def)

text \<open>
  The loop of \<open>writeChunks\<close>: the batch keeps the accepted writes \<open>ps\<close>. Any error cancels the
  batch (the deferred \<open>wb.Cancel\<close>), whose writes may already be partly in the database.
\<close>

definition finishBatch :: "('d, 't, 'z) kv_scheme \<Rightarrow> 'd \<Rightarrow> pending \<Rightarrow> err \<Rightarrow> int
    \<Rightarrow> (err + int) \<times> 'd" where
  "finishBatch K d ps ending sz =
     (if ending = ErrEOF \<or> ending = ErrUnexpectedEOF
      then (case kvBatchFlush K d ps of (Some e, d') \<Rightarrow> (Inl e, d') | (None, d') \<Rightarrow> (Inr sz, d'))
      else (Inl ending, kvBatchCancel K d ps))"

function writeLoop :: "('d, 't, 'z) kv_scheme \<Rightarrow> bytes \<Rightarrow> 'd \<Rightarrow> bytes \<Rightarrow> err \<Rightarrow> 32 word \<Rightarrow> int
    \<Rightarrow> pending \<Rightarrow> (err + int) \<times> 'd" where
  "writeLoop K i d data ending seq sz ps =
     (let buf = take ChunkSize data;
          n = length buf;
          currentKey = makeChunkKey i seq
      in case (if 0 < n then kvBatchSet K d ps currentKey buf else None) of
           Some e \<Rightarrow> (Inl e, kvBatchCancel K d ps)
         | None \<Rightarrow>
             let ps' = (if 0 < n then ps @ [(currentKey, buf)] else ps);
                 sz' = (if 0 < n then i64 (sz + int n) else sz);
                 seq' = (if 0 < n then seq + 1 else seq)
             in if n = ChunkSize
                then writeLoop K i d (drop ChunkSize data) ending seq' sz' ps'
                else finishBatch K d ps' ending sz')"
  by pat_completeness auto
termination
proof (relation "measure (\<lambda>(K, i, d, data, ending, seq, sz, ps). length data)", goal_cases)
  case (2 K i d data ending seq sz ps)
  then have "length (take ChunkSize data) = ChunkSize" by simp
  then have "ChunkSize \<le> length data" by simp
  then show ?case using ChunkSize_pos by (simp del: ChunkSize_pos)
qed simp

declare writeLoop.simps [simp del]

definition writeChunks :: "('d, 't, 'z) kv_scheme \<Rightarrow> bytes \<Rightarrow> reader \<Rightarrow> 'd \<Rightarrow> (err + int) \<times> 'd"
  where
  "writeChunks K i r d = writeLoop K i d (rData r) (rEnd r) 0 0 []"

section \<open>Reading chunks\<close>

record blobReader =
  brID :: bytes
  brSize :: int
  brOffset :: int
  brChunk :: "bytes option"
  brChunkIdx :: "32 word"

definition newBlobReader :: "bytes \<Rightarrow> int \<Rightarrow> blobReader" where
  "newBlobReader i sz =
     \<lparr>brID = i, brSize = sz, brOffset = 0, brChunk = None, brChunkIdx = 0\<rparr>"

definition errOffsetRange :: err where
  "errOffsetRange = ErrOther ''badger: offset out of range''"

definition errInvalidChunk :: err where
  "errInvalidChunk = ErrOther ''badger: invalid chunk data''"

text \<open>Loading the chunk of an index unless it is the cached one.\<close>

definition loadChunk :: "('d, 't, 'z) kv_scheme \<Rightarrow> 'd \<Rightarrow> blobReader \<Rightarrow> 32 word
    \<Rightarrow> err + blobReader" where
  "loadChunk K d br idx =
     (if brChunk br = None \<or> brChunkIdx br \<noteq> idx
      then bindE (dbView K (\<lambda>t. kvGet K t (makeChunkKey (brID br) idx)) d)
        (\<lambda>val. Inr (br\<lparr>brChunk := (if val = [] \<and> brChunk br = None then None else Some val),
                       brChunkIdx := idx\<rparr>))
      else Inr br)"

text \<open>
  The copy loop of \<open>readLocked\<close> into a buffer of \<open>n\<close> bytes, of which \<open>acc\<close> is filled;
  \<open>toRead\<close> is at most \<open>n\<close> there, so the guard is the source's \<open>read < toRead\<close>.
\<close>

function readLoop :: "('d, 't, 'z) kv_scheme \<Rightarrow> 'd \<Rightarrow> nat \<Rightarrow> int \<Rightarrow> blobReader \<Rightarrow> bytes
    \<Rightarrow> (bytes \<times> err option) \<times> blobReader" where
  "readLoop K d n toRead br acc =
     (if int (length acc) < toRead \<and> length acc < n then
        (let idx64 = brOffset br sdiv int ChunkSize in
         if idx64 < 0 \<or> 4294967295 < idx64 then ((acc, Some errOffsetRange), br)
         else
           (let chunkOffset = nat (brOffset br smod int ChunkSize) in
            case loadChunk K d br (of_int idx64) of
              Inl e \<Rightarrow> ((acc, Some e), br)
            | Inr br' \<Rightarrow>
                (let chunk = (case brChunk br' of None \<Rightarrow> [] | Some c \<Rightarrow> c) in
                 if length chunk \<le> chunkOffset then ((acc, Some errInvalidChunk), br')
                 else
                   (let part = take (n - length acc) (drop chunkOffset chunk) in
                    readLoop K d n toRead
                      (br'\<lparr>brOffset := i64 (brOffset br' + int (length part))\<rparr>) (acc @ part)))))
      else ((acc, None), br))"
  by pat_completeness auto
termination
  by (relation "measure (\<lambda>(K, d, n, toRead, br, acc). n - length acc)") auto

declare readLoop.simps [simp del]

definition readLocked :: "('d, 't, 'z) kv_scheme \<Rightarrow> err option \<Rightarrow> 'd \<Rightarrow> blobReader \<Rightarrow> nat
    \<Rightarrow> (bytes \<times> err option) \<times> blobReader" where
  "readLocked K failed d br n =
     (case failed of Some e \<Rightarrow> (([], Some e), br)
      | None \<Rightarrow>
        if brSize br \<le> brOffset br then (([], Some ErrEOF), br)
        else (let toRead = (if brSize br < i64 (brOffset br + int n)
                            then i64 (brSize br - brOffset br) else int n)
              in readLoop K d n toRead br []))"

text \<open>\<open>Seek\<close>: the three origins of the \<open>io\<close> package are 0, 1 and 2.\<close>

definition blobSeek :: "blobReader \<Rightarrow> int \<Rightarrow> int \<Rightarrow> (err + int) \<times> blobReader" where
  "blobSeek br offset whence =
     (case (if whence = 0 then Some offset
            else if whence = 1 then Some (i64 (brOffset br + offset))
            else if whence = 2 then Some (i64 (brSize br + offset))
            else None) of
        None \<Rightarrow> (Inl (ErrOther ''badger: invalid whence''), br)
      | Some pos \<Rightarrow>
          if pos < 0 then (Inl (ErrOther ''badger: negative position''), br)
          else (Inr pos, br\<lparr>brOffset := pos\<rparr>))"

definition blobClose :: "blobReader \<Rightarrow> err option \<times> blobReader" where
  "blobClose br = (None, br\<lparr>brChunk := None\<rparr>)"

section \<open>Stored contents\<close>

text \<open>The chunk of a given number, and a store holding exactly the chunks of some contents.\<close>

definition chunkAt :: "bytes \<Rightarrow> nat \<Rightarrow> bytes option" where
  "chunkAt data n = (if n * ChunkSize < length data
     then Some (take ChunkSize (drop (n * ChunkSize) data)) else None)"

definition maxContent :: nat where
  "maxContent = 2 ^ 32 * ChunkSize"

definition stores :: "store \<Rightarrow> bytes \<Rightarrow> bytes \<Rightarrow> bool" where
  "stores m i data \<longleftrightarrow> length data \<le> maxContent
     \<and> (\<forall>n < 2 ^ 32. m (makeChunkKey i (of_nat n)) = chunkAt data n)"

lemma maxContent_less: "maxContent < 4611686018427387904"
  by (simp add: maxContent_def ChunkSize_def)

lemma storesD: "stores m i data \<Longrightarrow> n < 2 ^ 32 \<Longrightarrow> m (makeChunkKey i (of_nat n)) = chunkAt data n"
  by (simp add: stores_def)

lemma stores_length: "stores m i data \<Longrightarrow> length data \<le> maxContent"
  by (simp add: stores_def)

lemma stores_cong: "(\<And>n. m (makeChunkKey i n) = m' (makeChunkKey i n)) \<Longrightarrow>
    stores m i data \<longleftrightarrow> stores m' i data"
  by (simp add: stores_def)

lemma unat_of_nat_32: "a < 2 ^ 32 \<Longrightarrow> unat (of_nat a :: 32 word) = a"
  by (simp add: unsigned_of_nat take_bit_nat_eq_self)

lemma of_nat32_inj: "a < 2 ^ 32 \<Longrightarrow> b < 2 ^ 32 \<Longrightarrow> (of_nat a :: 32 word) = of_nat b \<longleftrightarrow> a = b"
  by (metis unat_of_nat_32)

function chunkList :: "bytes \<Rightarrow> 32 word \<Rightarrow> bytes \<Rightarrow> pending" where
  "chunkList i seq data = (if data = [] then []
     else (makeChunkKey i seq, take ChunkSize data) # chunkList i (seq + 1) (drop ChunkSize data))"
  by pat_completeness auto
termination
  by (relation "measure (\<lambda>(i, seq, data). length data)") auto

declare chunkList.simps [simp del]

lemma chunkList_keys: "k \<in> fst ` set (chunkList i seq data) \<Longrightarrow> \<exists>n. k = makeChunkKey i n"
proof (induction i seq data rule: chunkList.induct)
  case (1 i seq data)
  show ?case
  proof (cases "data = []")
    case True
    with 1 show ?thesis by (simp add: chunkList.simps)
  next
    case False
    with 1 show ?thesis by (auto simp: chunkList.simps [of i seq data])
  qed
qed

lemma chunkAt_0: "data \<noteq> [] \<Longrightarrow> chunkAt data 0 = Some (take ChunkSize data)"
  by (simp add: chunkAt_def)

lemma chunkAt_Suc: "chunkAt (drop ChunkSize data) n = chunkAt data (Suc n)"
  by (auto simp: chunkAt_def add.commute)

lemma put_chunkList:
  assumes "a * ChunkSize + length data \<le> maxContent" and "b < 2 ^ 32"
  shows "put_all (chunkList i (of_nat a) data) m (makeChunkKey i (of_nat b)) =
    (if a \<le> b then (case chunkAt data (b - a) of Some c \<Rightarrow> Some c
       | None \<Rightarrow> m (makeChunkKey i (of_nat b)))
     else m (makeChunkKey i (of_nat b)))"
  using assms
proof (induction "length data" arbitrary: data a m rule: less_induct)
  case less
  show ?case
  proof (cases "data = []")
    case True
    then show ?thesis by (simp add: chunkList.simps chunkAt_def)
  next
    case False
    let ?m = "m(makeChunkKey i (of_nat a) \<mapsto> take ChunkSize data)"
    have a: "a < 2 ^ 32"
    proof -
      have "a * ChunkSize < 2 ^ 32 * ChunkSize"
        using less.prems(1) False unfolding maxContent_def
        by (metis add_leD1 le_neq_implies_less length_greater_0_conv less_add_same_cancel1
            order_less_le_trans)
      then show ?thesis by simp
    qed
    have step: "put_all (chunkList i (of_nat a) data) m =
        put_all (chunkList i (of_nat (Suc a)) (drop ChunkSize data)) ?m"
      using False by (simp add: chunkList.simps [of i "of_nat a" data] add.commute)
    show ?thesis
    proof (cases "length data \<le> ChunkSize")
      case True
      then have "chunkAt data n = None" if "n \<noteq> 0" for n
        using that by (cases n) (auto simp: chunkAt_def)
      then show ?thesis
        using step True False a less.prems(2)
        by (auto simp: chunkList.simps chunkAt_0 of_nat32_inj)
    next
      case long: False
      have "put_all (chunkList i (of_nat (Suc a)) (drop ChunkSize data)) ?m
              (makeChunkKey i (of_nat b)) =
        (if Suc a \<le> b then (case chunkAt (drop ChunkSize data) (b - Suc a) of Some c \<Rightarrow> Some c
           | None \<Rightarrow> ?m (makeChunkKey i (of_nat b)))
         else ?m (makeChunkKey i (of_nat b)))"
        using long less.prems False by (intro less.hyps) auto
      moreover have "b - a = Suc (b - Suc a)" if "Suc a \<le> b" using that by simp
      ultimately show ?thesis
        using step False a less.prems(2)
        by (auto simp: chunkAt_0 chunkAt_Suc of_nat32_inj split: option.splits)
    qed
  qed
qed

lemma stores_put_chunkList:
  assumes "length data \<le> maxContent" and "\<And>n. m (makeChunkKey i n) = None"
  shows "stores (put_all (chunkList i 0 data) m) i data"
  unfolding stores_def
  using assms put_chunkList [of 0 data _ i m] by (auto split: option.split)

section \<open>What the chunk operations do\<close>

abbreviation blobKeys :: "bytes \<Rightarrow> bytes set" where
  "blobKeys i \<equiv> {k. prefix (makeKey prefixBlob i) k}"

lemma chunkKey_blob [simp]: "prefix (makeKey prefixBlob i) (makeChunkKey i n)"
  by simp

lemma chunkList_blobKeys: "fst ` set (chunkList i seq data) \<subseteq> blobKeys i"
  using chunkList_keys by fastforce

context kv_store
begin

lemma shows_deleteKeys:
  "shows d t m \<Longrightarrow> deleteKeys K keys t = Inr t' \<Longrightarrow>
   shows d t' (map_without (\<lambda>k. k \<in> set keys) m)"
proof (induction keys arbitrary: t m)
  case (Cons k keys)
  then obtain t1 where "kvDelete K t k = Inr t1" and r: "deleteKeys K keys t1 = Inr t'"
    by (auto simp: deleteKeys_def)
  then have "shows d t1 (m(k := None))" using Cons.prems(1) shows_delete by blast
  from Cons.IH [OF this r] show ?case
    by (rule back_subst [where P = "shows d t'"]) (simp add: fun_eq_iff)
qed (simp add: deleteKeys_def)

lemma shows_deleteChunks:
  assumes "shows d t m" and "deleteChunks K t i = Inr t'"
  shows "shows d t' (map_without (prefix (makeKey prefixBlob i)) m)"
proof -
  let ?p = "makeKey prefixBlob i"
  have "shows d t' (map_without (\<lambda>k. k \<in> set (map fst (kvScan K t ?p))) m)"
    by (rule shows_deleteKeys [OF assms(1)]) (use assms(2) in \<open>simp add: deleteChunks_def\<close>)
  moreover have "set (map fst (kvScan K t ?p)) = {k \<in> dom m. prefix ?p k}"
    using scan_keys [of t ?p] assms(1) by (simp add: shows_def)
  ultimately show ?thesis
    by (elim back_subst [where P = "shows d t'"]) (auto simp: fun_eq_iff dom_def)
qed

lemma deleteChunksDB_frame:
  assumes "deleteChunksDB K d i = (e, d')"
  shows "dview d' = (if e = None then map_without (prefix (makeKey prefixBlob i)) (dview d)
    else dview d)"
proof (cases "dbUpdate K (\<lambda>t. bindE (deleteChunks K t i) (\<lambda>t'. Inr ((), t'))) d")
  case (Pair r d1)
  show ?thesis
  proof (cases r)
    case (Inl x)
    with Pair assms show ?thesis by (auto simp: deleteChunksDB_def dest: dbUpdate_Inl)
  next
    case (Inr u)
    have "dview d1 = map_without (prefix (makeKey prefixBlob i)) (dview d)"
      using update_rule [OF Pair [unfolded Inr],
          where P = "\<lambda>_ m. m = map_without (prefix (makeKey prefixBlob i)) (dview d)"]
        shows_deleteChunks by fastforce
    with Pair Inr assms show ?thesis by (simp add: deleteChunksDB_def)
  qed
qed


end

lemma writeLoop_full:
  assumes "ChunkSize \<le> length data"
  shows "writeLoop K i d data ending seq sz ps =
    (case kvBatchSet K d ps (makeChunkKey i seq) (take ChunkSize data) of
       Some e \<Rightarrow> (Inl e, kvBatchCancel K d ps)
     | None \<Rightarrow> writeLoop K i d (drop ChunkSize data) ending (seq + 1) (i64 (sz + int ChunkSize))
         (ps @ [(makeChunkKey i seq, take ChunkSize data)]))"
proof -
  have "min (length data) ChunkSize = ChunkSize" "data \<noteq> []"
    using assms ChunkSize_pos by (auto simp del: ChunkSize_pos)
  then show ?thesis
    by (simp add: writeLoop.simps [of K i d data] Let_def split: option.split)
qed

lemma writeLoop_last:
  assumes "length data < ChunkSize" and "data \<noteq> []"
  shows "writeLoop K i d data ending seq sz ps =
    (let ps' = ps @ [(makeChunkKey i seq, data)] in
     case kvBatchSet K d ps (makeChunkKey i seq) data of
       Some e \<Rightarrow> (Inl e, kvBatchCancel K d ps)
     | None \<Rightarrow> finishBatch K d ps' ending (i64 (sz + int (length data))))"
  using assms by (simp add: writeLoop.simps [of K i d data] Let_def split: option.split)

lemma writeLoop_empty:
  "writeLoop K i d [] ending seq sz ps = finishBatch K d ps ending sz"
proof -
  have "length (take ChunkSize ([] :: bytes)) = 0" "0 \<noteq> ChunkSize" by (simp, metis ChunkSize_pos(2))
  then show ?thesis by (subst writeLoop.simps) (simp add: Let_def)
qed

lemma writeLoop_cases [case_names empty last full]:
  assumes "data = [] \<Longrightarrow> P" and "data \<noteq> [] \<Longrightarrow> length data < ChunkSize \<Longrightarrow> P"
    and "ChunkSize \<le> length data \<Longrightarrow> P"
  shows P
  using assms by (cases "data = []"; cases "length data < ChunkSize") simp_all

lemma writeLoop_induct [case_names empty last full]:
  fixes P :: "bytes \<Rightarrow> 32 word \<Rightarrow> int \<Rightarrow> pending \<Rightarrow> bool"
  assumes "\<And>seq sz ps. P [] seq sz ps"
    and "\<And>data seq sz ps. data \<noteq> [] \<Longrightarrow> length data < ChunkSize \<Longrightarrow> P data seq sz ps"
    and "\<And>data seq sz ps. ChunkSize \<le> length data \<Longrightarrow>
      (\<And>seq' sz' ps'. P (drop ChunkSize data) seq' sz' ps') \<Longrightarrow> P data seq sz ps"
  shows "P data seq sz ps"
proof (induction "length data" arbitrary: data seq sz ps rule: less_induct)
  case less
  show ?case
  proof (cases data rule: writeLoop_cases)
    case empty
    then show ?thesis by (simp add: assms(1))
  next
    case last
    then show ?thesis by (rule assms(2))
  next
    case full
    have "length (drop ChunkSize data) < length data"
      using full ChunkSize_pos(1) by (simp del: ChunkSize_pos)
    then have "P (drop ChunkSize data) seq' sz' ps'" for seq' sz' ps' by (rule less)
    with full show ?thesis by (rule assms(3))
  qed
qed

lemma chunkList_step:
  "data \<noteq> [] \<Longrightarrow> chunkList i seq data =
     (makeChunkKey i seq, take ChunkSize data) # chunkList i (seq + 1) (drop ChunkSize data)"
  by (simp add: chunkList.simps [of i seq data])

lemma chunkList_Nil [simp]: "chunkList i seq [] = []"
  by (simp add: chunkList.simps)

context kv_store
begin

lemma finishBatch_frame:
  "finishBatch K d ps ending sz = (r, d') \<Longrightarrow> k \<notin> fst ` set ps \<Longrightarrow> dview d' k = dview d k"
  by (auto simp: finishBatch_def put_all_other flush_view flush_failed cancel_view
      split: if_splits prod.splits option.splits)

lemma finishBatch_ok:
  "finishBatch K d ps ending sz = (Inr n, d') \<Longrightarrow>
   n = sz \<and> dview d' = put_all ps (dview d) \<and> ending \<in> {ErrEOF, ErrUnexpectedEOF}"
  by (auto simp: finishBatch_def flush_view split: if_splits prod.splits option.splits)

lemma writeLoop_frame:
  assumes "writeLoop K i d data ending seq sz ps = (r, d')"
    and "fst ` set ps \<subseteq> blobKeys i" and "\<not> prefix (makeKey prefixBlob i) k"
  shows "dview d' k = dview d k"
  using assms
proof (induction data seq sz ps rule: writeLoop_induct)
  case (empty seq sz ps)
  then show ?case using finishBatch_frame by (fastforce simp: writeLoop_empty)
next
  case (last data seq sz ps)
  let ?ps = "ps @ [(makeChunkKey i seq, data)]"
  have k: "k \<notin> fst ` set ?ps" "k \<notin> fst ` set ps" using last.prems(2,3) by auto
  then show ?case
    using last.prems(1) last.hyps finishBatch_frame [of d ?ps ending _ r d' k]
    by (auto simp: writeLoop_last Let_def cancel_view split: option.splits)
next
  case (full data seq sz ps)
  have "k \<notin> fst ` set ps" using full.prems(2,3) by auto
  with full.prems full.hyps show ?case
    using full.IH [of "seq + 1" "i64 (sz + int ChunkSize)"
        "ps @ [(makeChunkKey i seq, take ChunkSize data)]"]
    by (auto simp: writeLoop_full cancel_view split: option.splits)
qed

lemma writeLoop_ok:
  assumes "writeLoop K i d data ending seq sz ps = (Inr n, d')"
    and "0 \<le> sz" and "sz + int (length data) < 2 ^ 63"
  shows "n = sz + int (length data) \<and> dview d' = put_all (ps @ chunkList i seq data) (dview d)
    \<and> ending \<in> {ErrEOF, ErrUnexpectedEOF}"
  using assms
proof (induction data seq sz ps rule: writeLoop_induct)
  case (empty seq sz ps)
  then show ?case by (auto simp: writeLoop_empty dest!: finishBatch_ok)
next
  case (last data seq sz ps)
  then have "i64 (sz + int (length data)) = sz + int (length data)"
    by (intro i64_id) (auto simp: int64_range_def)
  with last show ?case
    by (auto simp: writeLoop_last Let_def chunkList_step
        dest!: finishBatch_ok split: option.splits)
next
  case (full data seq sz ps)
  have l: "int ChunkSize + int (length (drop ChunkSize data)) = int (length data)"
    using full.hyps by simp
  have "int64_range (sz + int ChunkSize)"
    unfolding int64_range_def using full.prems(2,3) full.hyps by linarith
  then have s: "i64 (sz + int ChunkSize) = sz + int ChunkSize" by (rule i64_id)
  have ne: "data \<noteq> []" using full.hyps ChunkSize_pos by (auto simp del: ChunkSize_pos)
  from full.prems(1) s
  have r: "writeLoop K i d (drop ChunkSize data) ending (seq + 1) (sz + int ChunkSize)
      (ps @ [(makeChunkKey i seq, take ChunkSize data)]) = (Inr n, d')"
    by (simp add: writeLoop_full [OF full.hyps] split: option.splits)
  have "sz + int ChunkSize + int (length (drop ChunkSize data)) = sz + int (length data)"
    using l by linarith
  with full.IH [OF r] full.prems(2,3) show ?case
    by (simp add: chunkList_step [OF ne] del: length_drop)
qed

lemma writeChunks_ok:
  assumes "writeChunks K i r d = (Inr n, d')" and "length (rData r) \<le> maxContent"
    and "\<And>j. dview d (makeChunkKey i j) = None"
  shows "n = int (length (rData r))" "stores (dview d') i (rData r)"
proof -
  have "length (rData r) < 4611686018427387904" using assms(2) maxContent_less by simp
  then have "int (length (rData r)) < 2 ^ 63" by simp
  with assms(1) have "n = int (length (rData r)) \<and>
      dview d' = put_all (chunkList i 0 (rData r)) (dview d)"
    unfolding writeChunks_def by (auto dest!: writeLoop_ok)
  with stores_put_chunkList [OF assms(2), of "dview d" i] assms(3)
  show "n = int (length (rData r))" "stores (dview d') i (rData r)" by auto
qed

lemma writeChunks_frame:
  "writeChunks K i r d = (x, d') \<Longrightarrow> \<not> prefix (makeKey prefixBlob i) k \<Longrightarrow> dview d' k = dview d k"
  unfolding writeChunks_def by (erule writeLoop_frame) auto

end

context kv_reliable
begin

lemma writeLoop_total:
  assumes "ending = ErrEOF \<or> ending = ErrUnexpectedEOF"
  shows "\<exists>n d'. writeLoop K i d data ending seq sz ps = (Inr n, d')"
proof (induction data seq sz ps rule: writeLoop_induct)
  case (empty seq sz ps)
  then show ?case using flush_total [of d ps] assms by (auto simp: writeLoop_empty finishBatch_def)
next
  case (last data seq sz ps)
  then show ?case using flush_total [of d "ps @ [(makeChunkKey i seq, data)]"] assms
    by (auto simp: writeLoop_last Let_def batch_total finishBatch_def)
next
  case (full data seq sz ps)
  then show ?case by (simp add: writeLoop_full batch_total)
qed

end

section \<open>What the reader delivers\<close>

definition cacheOk :: "blobReader \<Rightarrow> bytes \<Rightarrow> bool" where
  "cacheOk br data = (case brChunk br of None \<Rightarrow> True
     | Some c \<Rightarrow> chunkAt data (unat (brChunkIdx br)) = Some c)"

text \<open>A reader positioned at \<open>o\<close> in a stored content.\<close>

definition readerAt :: "store \<Rightarrow> blobReader \<Rightarrow> bytes \<Rightarrow> nat \<Rightarrow> bool" where
  "readerAt m br data pos \<longleftrightarrow> stores m (brID br) data \<and> brSize br = int (length data)
     \<and> brOffset br = int pos \<and> cacheOk br data"

lemma chunkAt_ne: "chunkAt data n \<noteq> Some []"
  by (auto simp: chunkAt_def)

lemma chunkAt_in: "pos < length data \<Longrightarrow> \<exists>c. chunkAt data (pos div ChunkSize) = Some c
    \<and> pos mod ChunkSize < length c
    \<and> drop (pos mod ChunkSize) c = take (ChunkSize - pos mod ChunkSize) (drop pos data)"
proof -
  assume pos: "pos < length data"
  let ?b = "pos div ChunkSize * ChunkSize" and ?r = "pos mod ChunkSize"
  have e: "pos = ?b + ?r" by simp
  have r: "?r < ChunkSize" by simp
  have b: "?b < length data" using pos e by linarith
  have "drop ?r (take ChunkSize (drop ?b data)) = take (ChunkSize - ?r) (drop (?b + ?r) data)"
    by (simp only: drop_take drop_drop add.commute)
  moreover have "?r < length (take ChunkSize (drop ?b data))"
    using e r pos by (subst length_take, subst length_drop) linarith
  ultimately show ?thesis using b e by (simp add: chunkAt_def)
qed

lemma sdiv_nat: "int a sdiv int ChunkSize = int (a div ChunkSize)"
  by (cases "a = 0") (simp_all add: signed_divide_int_def zdiv_int)

lemma smod_nat: "int a smod int ChunkSize = int (a mod ChunkSize)"
  by (cases "a = 0") (simp_all add: signed_modulo_int_def zmod_int)

context kv_reliable
begin

lemma loadChunk_ok:
  assumes "stores (dview d) (brID br) data" and "cacheOk br data"
    and "n < 2 ^ 32" and "chunkAt data n = Some c"
  shows "loadChunk K d br (of_nat n) = Inr (br\<lparr>brChunk := Some c, brChunkIdx := of_nat n\<rparr>)"
proof (cases "brChunk br = None \<or> brChunkIdx br \<noteq> of_nat n")
  case True
  have "tview (kvBegin K d) (makeChunkKey (brID br) (of_nat n)) = Some c"
    using storesD [OF assms(1,3)] assms(4) by (simp add: begin_view)
  with True chunkAt_ne [of data n] assms(4) show ?thesis
    by (auto simp: loadChunk_def dbView_def get_total)
next
  case False
  then obtain x where x: "brChunk br = Some x" "brChunkIdx br = of_nat n" by auto
  then have "x = c" using assms(2-4) by (simp add: cacheOk_def unat_of_nat_32)
  with x show ?thesis by (simp add: loadChunk_def)
qed

lemma readLoop_ok:
  assumes "readerAt (dview d) br data pos"
    and "length acc \<le> n" and "toRead = int (min n (length acc + (length data - pos)))"
  shows "\<exists>br'. readLoop K d n toRead br acc =
      ((acc @ take (n - length acc) (drop pos data), None), br')
    \<and> readerAt (dview d) br' data (pos + min (n - length acc) (length data - pos))
    \<and> brID br' = brID br"
  using assms
proof (induction "n - length acc" arbitrary: br acc pos rule: less_induct)
  case less
  note r = less.prems(1)
  show ?case
  proof (cases "length acc < n \<and> pos < length data")
    case False
    then have "\<not> (int (length acc) < toRead \<and> length acc < n)" using less.prems(3) by auto
    then have "readLoop K d n toRead br acc = ((acc, None), br)"
      by (subst readLoop.simps) auto
    with False r less.prems(2) show ?thesis by auto
  next
    case True
    then have go: "int (length acc) < toRead \<and> length acc < n"
      using less.prems(3) by auto
    let ?i = "pos div ChunkSize" and ?o = "pos mod ChunkSize"
    obtain c where c: "chunkAt data ?i = Some c" "?o < length c"
      "drop ?o c = take (ChunkSize - ?o) (drop pos data)"
      using chunkAt_in True by blast
    have st: "stores (dview d) (brID br) data" and len: "length data \<le> maxContent"
      using r by (auto simp: readerAt_def stores_def)
    then have "pos < 2 ^ 32 * ChunkSize" using True by (simp add: maxContent_def)
    then have i: "?i < 2 ^ 32" by (simp add: less_mult_imp_div_less)
    have off: "brOffset br = int pos" using r by (simp add: readerAt_def)
    let ?br = "br\<lparr>brChunk := Some c, brChunkIdx := of_nat ?i\<rparr>"
    have ld: "loadChunk K d br (of_nat ?i) = Inr ?br"
      using loadChunk_ok [OF st _ i c(1)] r by (simp add: readerAt_def)
    let ?part = "take (n - length acc) (drop ?o c)"
    have pl: "0 < length ?part" "length ?part \<le> n - length acc"
      "pos + length ?part \<le> length data"
      using c(2,3) True by auto
    have "int64_range (int pos + int (length ?part))"
      using pl(3) len maxContent_less by (intro int64_rangeI) linarith+
    then have off': "i64 (int pos + int (length ?part)) = int (pos + length ?part)"
      by (simp add: i64_id)
    let ?br' = "?br\<lparr>brOffset := int (pos + length ?part)\<rparr>"
    note sd = sdiv_nat smod_nat
    have step: "readLoop K d n toRead br acc = readLoop K d n toRead ?br' (acc @ ?part)"
      using go i c(2) ld off'
      by (subst readLoop.simps) (simp add: Let_def off sd)
    have r': "readerAt (dview d) ?br' data (pos + length ?part)"
      using r c(1) i by (auto simp: readerAt_def cacheOk_def unat_of_nat_32)
    have part: "?part @ take (n - length acc - length ?part) (drop (pos + length ?part) data)
        = take (n - length acc) (drop pos data)"
    proof -
      have "?part = take (length ?part) (take (n - length acc) (drop pos data))"
        using c(3) by (simp add: min_def)
      moreover have "drop (length ?part) (take (n - length acc) (drop pos data)) =
          take (n - length acc - length ?part) (drop (pos + length ?part) data)"
        by (simp only: drop_take drop_drop add.commute)
      ultimately show ?thesis by (metis append_take_drop_id)
    qed
    have ih: "\<exists>br'. readLoop K d n toRead ?br' (acc @ ?part) =
        (((acc @ ?part) @ take (n - length (acc @ ?part)) (drop (pos + length ?part) data), None), br')
      \<and> readerAt (dview d) br' data ((pos + length ?part) +
           min (n - length (acc @ ?part)) (length data - (pos + length ?part)))
      \<and> brID br' = brID ?br'"
    proof (rule less.hyps [OF _ r'])
      show "n - length (acc @ ?part) < n - length acc"
        using pl(1) True by (simp only: length_append) linarith
      show "length (acc @ ?part) \<le> n" using pl(2) True by (simp only: length_append) linarith
      show "toRead = int (min n (length (acc @ ?part) + (length data - (pos + length ?part))))"
        using less.prems(3) pl True by (simp only: length_append) linarith
    qed
    have "(pos + length ?part) + min (n - length (acc @ ?part)) (length data - (pos + length ?part))
        = pos + min (n - length acc) (length data - pos)"
      using pl True by (simp only: length_append) linarith
    moreover have "(acc @ ?part) @ take (n - length (acc @ ?part)) (drop (pos + length ?part) data)
        = acc @ take (n - length acc) (drop pos data)"
      unfolding append_assoc length_append diff_diff_left [symmetric] part ..
    moreover have "brID ?br' = brID br" by simp
    ultimately show ?thesis using ih unfolding step by (simp only:)
  qed
qed

lemma readLocked_ok:
  assumes "readerAt (dview d) br data pos" and "pos < length data" and "int (pos + n) < 2 ^ 63"
  shows "\<exists>br'. readLocked K None d br n = ((take n (drop pos data), None), br')
    \<and> readerAt (dview d) br' data (pos + min n (length data - pos)) \<and> brID br' = brID br"
proof -
  have len: "length data \<le> maxContent" and b: "brOffset br = int pos" "brSize br = int (length data)"
    using assms(1) by (auto simp: readerAt_def stores_def)
  have "int (pos + n) < 9223372036854775808" using assms(3) by simp
  then have "int64_range (int pos + int n)" "int64_range (int (length data) - int pos)"
    using len maxContent_less assms(2) by (auto intro!: int64_rangeI)
  then have e: "i64 (int pos + int n) = int pos + int n"
      "i64 (int (length data) - int pos) = int (length data) - int pos"
    by (auto intro: i64_id)
  have "(if brSize br < i64 (brOffset br + int n) then i64 (brSize br - brOffset br) else int n)
     = int (min n (length ([] :: bytes) + (length data - pos)))"
    using assms(2) by (auto simp: b e)
  with readLoop_ok [OF assms(1), of "[]" n] assms(2) show ?thesis
    by (auto simp: readLocked_def b simp del: of_nat_min)
qed

lemma readLocked_eof:
  "readerAt (dview d) br data pos \<Longrightarrow> length data \<le> pos \<Longrightarrow>
   readLocked K None d br n = (([], Some ErrEOF), br)"
  by (auto simp: readLocked_def readerAt_def)

end

lemma newBlobReader_at:
  "stores m i data \<Longrightarrow> readerAt m (newBlobReader i (int (length data))) data 0"
  by (simp add: readerAt_def newBlobReader_def cacheOk_def)

lemma readerAt_seek:
  "readerAt m br data pos \<Longrightarrow> blobSeek br off wh = (Inr p, br') \<Longrightarrow>
   0 \<le> p \<and> readerAt m br' data (nat p)"
  by (auto simp: blobSeek_def readerAt_def cacheOk_def split: if_splits option.splits)

lemma blobSeek_nonneg:
  "0 \<le> brOffset br \<Longrightarrow> blobSeek br off wh = (res, br') \<Longrightarrow> 0 \<le> brOffset br'"
  by (auto simp: blobSeek_def split: if_splits)

end
