(* ===== verification/Utf8.thy ===== *)
theory Utf8
  imports GoStrings
begin

text \<open>
  Well-formed UTF-8, the condition under which \<open>encoding/json\<close> gives back the string it was
  given, and its stability under the path operations: cutting a well-formed string in front of
  a byte that is not a continuation byte leaves two well-formed strings.
\<close>

definition contByte :: "char \<Rightarrow> bool" where
  "contByte c \<longleftrightarrow> 128 \<le> (of_char c :: nat) \<and> (of_char c :: nat) < 192"

text \<open>The length announced by a leading byte, and the ranges of the byte after it.\<close>

definition leadLen :: "char \<Rightarrow> nat" where
  "leadLen c = (let n = (of_char c :: nat) in
     if n < 128 then 1
     else if 194 \<le> n \<and> n \<le> 223 then 2
     else if 224 \<le> n \<and> n \<le> 239 then 3
     else if 240 \<le> n \<and> n \<le> 244 then 4
     else 0)"

definition secondOk :: "char \<Rightarrow> char \<Rightarrow> bool" where
  "secondOk c d \<longleftrightarrow> (let n = (of_char c :: nat); m = (of_char d :: nat) in
     (n = 224 \<longrightarrow> 160 \<le> m) \<and> (n = 237 \<longrightarrow> m < 160) \<and> (n = 240 \<longrightarrow> 144 \<le> m)
     \<and> (n = 244 \<longrightarrow> m < 144))"

text \<open>The bytes of one encoded code point at the front of a string, if there is one.\<close>

definition runeLen :: "string \<Rightarrow> nat" where
  "runeLen s = (case s of [] \<Rightarrow> 0 | c # t \<Rightarrow>
     let n = leadLen c in
     if n \<le> length s \<and> list_all contByte (take (n - 1) t)
        \<and> (2 \<le> n \<longrightarrow> secondOk c (hd t)) then n else 0)"

function utf8 :: "string \<Rightarrow> bool" where
  "utf8 s = (if s = [] then True else if runeLen s = 0 then False else utf8 (drop (runeLen s) s))"
  by pat_completeness auto
termination
  by (relation "measure length") auto

declare utf8.simps [simp del]

lemma utf8_Nil [simp]: "utf8 []"
  by (subst utf8.simps) simp

lemma utf8_step: "s \<noteq> [] \<Longrightarrow> utf8 s \<longleftrightarrow> runeLen s \<noteq> 0 \<and> utf8 (drop (runeLen s) s)"
  by (subst utf8.simps) simp

lemma runeLen_le: "runeLen s \<le> length s"
  by (auto simp: runeLen_def Let_def split: list.splits)

lemma runeLen_append: "runeLen s \<noteq> 0 \<Longrightarrow> runeLen (s @ t) = runeLen s"
proof (cases s)
  case (Cons c u)
  assume r: "runeLen s \<noteq> 0"
  let ?n = "leadLen c"
  have ok: "?n \<le> length s" "list_all contByte (take (?n - 1) u)" "2 \<le> ?n \<longrightarrow> secondOk c (hd u)"
    using r Cons by (auto simp: runeLen_def Let_def split: if_splits)
  then have "take (?n - 1) (u @ t) = take (?n - 1) u" using Cons by auto
  moreover have "hd (u @ t) = hd u" if "2 \<le> ?n" using ok(1) Cons that by (cases u) auto
  ultimately show ?thesis using ok Cons by (simp add: runeLen_def Let_def)
qed (simp add: runeLen_def)

lemma runeLen_take: "runeLen s \<noteq> 0 \<Longrightarrow> runeLen (take (runeLen s) s) = runeLen s"
proof (cases s)
  case (Cons c u)
  assume r: "runeLen s \<noteq> 0"
  let ?n = "leadLen c"
  have ok: "?n \<le> length s" "list_all contByte (take (?n - 1) u)" "2 \<le> ?n \<longrightarrow> secondOk c (hd u)"
    and n: "runeLen s = ?n"
    using r Cons by (auto simp: runeLen_def Let_def split: if_splits)
  then have t: "take ?n s = c # take (?n - 1) u" using r Cons by (cases ?n) auto
  have "hd (take (?n - 1) u) = hd u" if "2 \<le> ?n" using ok(1) Cons that by (cases u) (auto simp: take_Cons')
  then show ?thesis using ok n t Cons by (simp add: runeLen_def Let_def)
qed (simp add: runeLen_def)

lemma runeLen_cont: "0 < n \<Longrightarrow> n < runeLen s \<Longrightarrow> contByte (s ! n)"
proof (cases s)
  case (Cons c u)
  assume n: "0 < n" "n < runeLen s"
  then have l: "leadLen c \<le> length s" "list_all contByte (take (leadLen c - 1) u)" "n < leadLen c"
    using Cons by (auto simp: runeLen_def Let_def split: if_splits)
  moreover have "s ! n = take (leadLen c - 1) u ! (n - 1)"
    using n l Cons by (cases n) auto
  ultimately show ?thesis
    using n Cons by (auto simp: list_all_length)
qed (simp add: runeLen_def)

lemma contByte_range [dest]: "contByte c \<Longrightarrow> 128 \<le> (of_char c :: nat) \<and> (of_char c :: nat) < 192"
  by (simp add: contByte_def)

lemma runeLen_start: "runeLen (c # s) \<noteq> 0 \<Longrightarrow> \<not> contByte c"
  by (auto simp: runeLen_def leadLen_def Let_def split: if_splits)

lemma utf8_append: "utf8 a \<Longrightarrow> utf8 b \<Longrightarrow> utf8 (a @ b)"
proof (induction a rule: utf8.induct)
  case (1 a)
  show ?case
  proof (cases "a = []")
    case False
    then have r: "runeLen a \<noteq> 0" and u: "utf8 (drop (runeLen a) a)"
      using 1(2) by (auto simp: utf8_step [of a])
    then have "utf8 (drop (runeLen a) a @ b)" using 1(1,3) False by blast
    then show ?thesis
      using r runeLen_le [of a] False by (subst utf8_step) (simp_all add: runeLen_append)
  qed (use 1 in simp)
qed

lemma utf8_cut:
  assumes "utf8 (a @ c # b)" and "\<not> contByte c"
  shows "utf8 a \<and> utf8 (c # b)"
  using assms
proof (induction "length a" arbitrary: a rule: less_induct)
  case less
  show ?case
  proof (cases "a = []")
    case False
    let ?s = "a @ c # b" and ?n = "runeLen (a @ c # b)"
    have n: "?n \<noteq> 0" and u: "utf8 (drop ?n ?s)"
      using less.prems(1) False by (auto simp: utf8_step [of ?s])
    have le: "?n \<le> length a"
    proof (rule ccontr)
      assume "\<not> ?n \<le> length a"
      then have "contByte (?s ! length a)" using False by (intro runeLen_cont) auto
      with less.prems(2) show False by simp
    qed
    then have d: "drop ?n ?s = drop ?n a @ c # b" by simp
    have "utf8 (drop ?n a) \<and> utf8 (c # b)"
      by (rule less.hyps) (use n le u d less.prems(2) in auto)
    moreover have "runeLen a = ?n"
    proof -
      have "take ?n ?s = take ?n a" using le by simp
      then have "runeLen (take ?n a) = ?n" using runeLen_take [OF n] by simp
      then show ?thesis using n runeLen_append [of "take ?n a" "drop ?n a"] by simp
    qed
    ultimately show ?thesis using n False by (subst utf8_step) auto
  qed (use less.prems in simp)
qed

lemma utf8_suffix: "utf8 (a @ b) \<Longrightarrow> utf8 a \<Longrightarrow> utf8 b"
proof (induction a rule: utf8.induct)
  case (1 a)
  show ?case
  proof (cases "a = []")
    case False
    then have r: "runeLen a \<noteq> 0" and u: "utf8 (drop (runeLen a) a)"
      using 1(3) by (auto simp: utf8_step [of a])
    have "utf8 (drop (runeLen a) a @ b)"
      using 1(2) r runeLen_le [of a] False by (auto simp: utf8_step [of "a @ b"] runeLen_append)
    with 1(1) False r u show ?thesis by blast
  qed (use 1 in simp)
qed

lemma slash_not_cont [simp]: "\<not> contByte slash"
  by (simp add: contByte_def)

lemma dot_not_cont [simp]: "\<not> contByte CHR ''.''"
  by (simp add: contByte_def)

lemma utf8_ascii: "isAscii s \<Longrightarrow> utf8 s"
proof (induction s)
  case (Cons c s)
  then have "runeLen (c # s) = 1" by (simp add: isAscii_def runeLen_def leadLen_def)
  with Cons show ?case by (subst utf8.simps) (simp add: isAscii_def)
qed simp

lemma utf8_Cons_ascii: "(of_char c :: nat) < 128 \<Longrightarrow> utf8 (c # s) \<longleftrightarrow> utf8 s"
  by (subst utf8.simps) (simp add: runeLen_def leadLen_def)

lemma utf8_slash [simp]: "utf8 (slash # s) \<longleftrightarrow> utf8 s"
  by (rule utf8_Cons_ascii) simp

lemma utf8_dot [simp]: "utf8 (CHR ''.'' # s) \<longleftrightarrow> utf8 s"
  by (rule utf8_Cons_ascii) simp

lemma utf8_split: "\<not> contByte c \<Longrightarrow> (of_char c :: nat) < 128 \<Longrightarrow> utf8 (a @ c # b) \<Longrightarrow> utf8 a \<and> utf8 b"
  using utf8_cut utf8_Cons_ascii by blast

lemma utf8_splitOn: "utf8 s \<Longrightarrow> w \<in> set (splitOn slash s) \<Longrightarrow> utf8 w"
proof (induction "length s" arbitrary: s rule: less_induct)
  case less
  show ?case
  proof (cases "slash \<in> set s")
    case True
    then obtain a b where s: "s = a @ slash # b" "slash \<notin> set a" by (meson split_list_first)
    then have "utf8 a" "utf8 b" using less.prems(1) utf8_split [of slash a b] by auto
    moreover have "splitOn slash s = a # splitOn slash b"
      using s by (simp add: splitOn_append_sep)
    moreover have "length b < length s" using s by simp
    ultimately show ?thesis using less.hyps [of b] less.prems(2) s(1) by auto
  qed (use less in \<open>simp add: splitOn_sep_free\<close>)
qed

lemma utf8_joinWith: "list_all utf8 ws \<Longrightarrow> utf8 (joinWith [slash] ws)"
  by (induction "[slash]" ws rule: joinWith.induct) (auto intro: utf8_append)

lemma utf8_cleanStep: "list_all utf8 acc \<Longrightarrow> utf8 e \<Longrightarrow> list_all utf8 (cleanStep r acc e)"
  by (auto split: list.splits simp: utf8_ascii isAscii_def)

lemma utf8_cleanPath:
  assumes "utf8 p" shows "utf8 (cleanPath p)"
proof -
  have f: "list_all utf8 (foldl (cleanStep r) acc ws)"
    if "list_all utf8 acc" "list_all utf8 ws" for r acc ws
    using that by (induction ws arbitrary: acc) (auto intro: utf8_cleanStep simp del: cleanStep.simps)
  have "list_all utf8 (splitOn slash p)"
    using utf8_splitOn [OF assms] by (simp add: list_all_iff)
  then have "list_all utf8 (cleanElems p)"
    unfolding cleanElems_def using f [of "[]"] by simp
  then show ?thesis
    using utf8_joinWith by (auto simp: cleanPath_def Let_def)
qed

section \<open>Path operations\<close>

lemma afterSlash_split: "slash \<in> set s \<Longrightarrow> \<exists>a. s = a @ slash # afterSlash s"
proof -
  assume "slash \<in> set s"
  then obtain a b where s: "s = a @ slash # b" "slash \<notin> set b"
    using split_list_last by fastforce
  then have "afterSlash s = b" by (auto simp: afterSlash_def takeWhile_append)
  with s show ?thesis by auto
qed

lemma afterSlash_none: "slash \<notin> set s \<Longrightarrow> afterSlash s = s"
proof -
  assume "slash \<notin> set s"
  then have "takeWhile ((\<noteq>) slash) (rev s) = rev s" by (auto simp: takeWhile_eq_all_conv)
  then show ?thesis unfolding afterSlash_def by (simp only: rev_rev_ident)
qed

lemma utf8_afterSlash: "utf8 s \<Longrightarrow> utf8 (afterSlash s)"
proof (cases "slash \<in> set s")
  case True
  assume "utf8 s"
  obtain a where "s = a @ slash # afterSlash s" using afterSlash_split [OF True] by blast
  with \<open>utf8 s\<close> show ?thesis using utf8_split [of slash a "afterSlash s"] by simp
qed (simp add: afterSlash_none)

lemma utf8_snoc_slash: "utf8 (a @ [slash]) \<longleftrightarrow> utf8 a"
  using utf8_split [of slash a "[]"] utf8_append [of a "[slash]"] by auto

lemma utf8_stripSlashes: "utf8 s \<Longrightarrow> utf8 (stripSlashes s)"
proof (induction s rule: rev_induct)
  case (snoc c s)
  then show ?case by (cases "c = slash") (auto simp: stripSlashes_def utf8_snoc_slash)
qed (simp add: stripSlashes_def)

lemma utf8_basePath: "utf8 s \<Longrightarrow> utf8 (basePath s)"
  by (simp add: basePath_def Let_def utf8_afterSlash utf8_stripSlashes)

lemma drop_lastIndex: "0 \<le> lastIndex c s \<Longrightarrow> \<exists>a b. s = a @ c # b \<and> drop (nat (lastIndex c s)) s = c # b"
proof (induction s)
  case (Cons x xs)
  show ?case
  proof (cases "0 \<le> lastIndex c xs")
    case True
    with Cons obtain a b where "xs = a @ c # b" "drop (nat (lastIndex c xs)) xs = c # b" by auto
    with True show ?thesis by (intro exI [of _ "x # a"] exI [of _ b]) (simp add: Let_def nat_add_distrib)
  next
    case False
    with Cons.prems have "x = c" "lastIndex c (x # xs) = 0" by (auto simp: Let_def split: if_splits)
    then show ?thesis by (intro exI [of _ "[]"] exI [of _ xs]) simp
  qed
qed simp

lemma utf8_extPath: "utf8 s \<Longrightarrow> utf8 (extPath s)"
proof -
  assume "utf8 s"
  then have u: "utf8 (afterSlash s)" by (rule utf8_afterSlash)
  show ?thesis
  proof (cases "lastIndex CHR ''.'' (afterSlash s) < 0")
    case False
    then obtain a b where "afterSlash s = a @ CHR ''.'' # b" "extPath s = CHR ''.'' # b"
      using drop_lastIndex [of "CHR ''.''" "afterSlash s"] by (auto simp: extPath_def Let_def)
    with u show ?thesis using utf8_cut [of a "CHR ''.''" b] by simp
  qed (simp add: extPath_def Let_def)
qed

lemma goSpaces_runes:
  "list_all (\<lambda>w. runeLen w = length w \<and> w \<noteq> [] \<and> \<not> contByte (hd w)) goSpaces"
  by code_simp

lemma goSpaces_rune:
  assumes "w \<in> set goSpaces" shows "utf8 w \<and> \<not> contByte (hd w)"
proof -
  have "runeLen w = length w" "w \<noteq> []" "\<not> contByte (hd w)"
    using goSpaces_runes assms by (auto simp: list_all_iff)
  then show ?thesis by (simp add: utf8_step)
qed

lemma utf8_trimSpace: assumes "utf8 s" shows "utf8 (trimSpace s)"
proof -
  have l: "utf8 t \<Longrightarrow> utf8 (trimLeft t)" for t
  proof (induction t rule: trimLeft.induct)
    case (1 t)
    show ?case
    proof (cases "leadSpace t")
      case (Some w)
      then have w: "w \<in> set goSpaces" "prefix w t" by (auto dest: leadSpace_SomeD)
      then have "utf8 (drop (length w) t)"
        using 1(2) goSpaces_rune utf8_suffix [of w "drop (length w) t"] by (auto simp: prefix_def)
      with 1(1) Some show ?thesis by (simp add: trimLeft.simps [of t])
    qed (use 1 in \<open>simp add: trimLeft.simps [of t]\<close>)
  qed
  have r: "utf8 t \<Longrightarrow> utf8 (trimRight t)" for t
  proof (induction t rule: trimRight.induct)
    case (1 t)
    show ?case
    proof (cases "trailSpace t")
      case (Some w)
      then have w: "w \<in> set goSpaces" "suffix w t" by (auto dest: trailSpace_SomeD)
      obtain a c b where t: "t = a @ c # b" "w = c # b"
        using goSpaces_nonempty [OF w(1)] w(2) that by (cases w) (auto simp: suffix_def)
      then have "utf8 a" using 1(2) goSpaces_rune [OF w(1)] utf8_cut [of a c b] by simp
      then have "utf8 (take (length t - length w) t)" using t by simp
      with 1(1) Some show ?thesis by (simp add: trimRight.simps [of t])
    qed (use 1 in \<open>simp add: trimRight.simps [of t]\<close>)
  qed
  show ?thesis using l r assms by (simp add: trimSpace_def)
qed

lemma asciiLower_big: "128 \<le> (of_char c :: nat) \<Longrightarrow> asciiLower c = c"
  by (simp add: asciiLower_def)

lemma utf8_toLower: "utf8 s \<Longrightarrow> (\<And>t. utf8 t \<Longrightarrow> utf8 (ul t)) \<Longrightarrow> utf8 (toLower ul s)"
  by (auto simp: toLower_def isAscii_def list_all_iff asciiLower_ascii intro!: utf8_ascii)

lemma utf8_trimPrefix_dot: "utf8 s \<Longrightarrow> utf8 (trimPrefix s ''.'')"
  by (cases s) (auto simp: trimPrefix_def)

lemma utf8_trimSuffix_slash: "utf8 s \<Longrightarrow> utf8 (trimSuffix s ''/'')"
  by (auto simp: trimSuffix_def suffix_def utf8_snoc_slash)

lemma utf8_drop_prefix: "utf8 s \<Longrightarrow> utf8 p \<Longrightarrow> prefix p s \<Longrightarrow> utf8 (drop (length p) s)"
  by (auto simp: prefix_def dest: utf8_suffix)

end
