(* ===== verification/Badger_Meta.thy ===== *)
theory Badger_Meta
  imports Badger_Blob Utf8
begin

text \<open>
  Metadata in the Badger driver (\<open>pkg/drivers/badger/utils.go\<close> and the transfer helpers of
  \<open>badger.go\<close>): lookups by identifier and by path, deletion, moving and collecting subtrees.
  JSON encoding, from a library outside the repository, is a pair of fields of the record of
  external operations; its laws are the locale \<open>badger_env\<close>.
\<close>

section \<open>State and external operations\<close>

record imeta = vmeta +
  mInternalID :: uuid

definition Meta_of :: "imeta \<Rightarrow> vmeta" where
  "Meta_of im = vmeta.truncate im"

record ('d, 't) benv = "('d, 't) kv" +
  bMarshal :: "imeta \<Rightarrow> err + bytes"
  bUnmarshal :: "bytes \<Rightarrow> err + imeta"
  bLower :: "string \<Rightarrow> string"

section \<open>Paths\<close>

definition extractExtension :: "(string \<Rightarrow> string) \<Rightarrow> string \<Rightarrow> string" where
  "extractExtension ul path =
     (let ext = extPath path in if ext \<noteq> [] then toLower ul (trimPrefix ext ''.'') else [])"

definition getParentPath :: "string \<Rightarrow> string" where
  "getParentPath path =
     (if path = Root \<or> path = [] then Root
      else
        let p = trimSuffix path ''/'';
            k = lastIndex slash p
        in if k < 0 then Root else if k = 0 then Root else take (nat k + 1) p)"

section \<open>Lookups\<close>

definition setMeta :: "('d, 't, 'z) benv_scheme \<Rightarrow> 't \<Rightarrow> bytes \<Rightarrow> imeta \<Rightarrow> err + 't" where
  "setMeta E t metaKey im = bindE (bMarshal E im) (\<lambda>jsonByte. kvSet E t metaKey jsonByte)"

text \<open>An item's value, or the error of reading it, is decoded.\<close>

definition getMeta :: "('d, 't, 'z) benv_scheme \<Rightarrow> err + bytes \<Rightarrow> err + imeta" where
  "getMeta E item = bindE item (bUnmarshal E)"

definition findMetaItemByID :: "('d, 't, 'z) benv_scheme \<Rightarrow> 't \<Rightarrow> uuid \<Rightarrow> err + bytes" where
  "findMetaItemByID E t i =
     (case kvGet E t (makeKey prefixIndex (idBytes i)) of
        Inl e \<Rightarrow> if errorsIs e ErrKeyNotFound then Inl ErrNotFound else Inl e
      | Inr path \<Rightarrow>
          (case kvGet E t (makeKey prefixMeta path) of
             Inl e \<Rightarrow> if errorsIs e ErrKeyNotFound then Inl ErrNotFound else Inl e
           | Inr item \<Rightarrow> Inr item))"

fun findCandidate :: "('d, 't, 'z) benv_scheme \<Rightarrow> 't \<Rightarrow> string list \<Rightarrow> err + imeta" where
  "findCandidate E t [] = Inl ErrNotFound"
| "findCandidate E t (candidate # cs) =
     (case kvGet E t (makeKey prefixMeta candidate) of
        Inl e \<Rightarrow> if errorsIs e ErrKeyNotFound then findCandidate E t cs else Inl e
      | Inr item \<Rightarrow> getMeta E (Inr item))"

definition findByPath :: "('d, 't, 'z) benv_scheme \<Rightarrow> 't \<Rightarrow> string \<Rightarrow> err + imeta" where
  "findByPath E t path =
     (if path = Root then Inl ErrNotFound else findCandidate E t [path, path @ ''/''])"

section \<open>Deleting items\<close>

definition deleteIndex :: "('d, 't, 'z) benv_scheme \<Rightarrow> 't \<Rightarrow> imeta \<Rightarrow> err + 't" where
  "deleteIndex E t im = kvDelete E t (makeKey prefixIndex (idBytes (mID im)))"

definition deleteItem :: "('d, 't, 'z) benv_scheme \<Rightarrow> imeta \<Rightarrow> 't \<Rightarrow> err + 't" where
  "deleteItem E im t =
     bindE (deleteChunks E t (idBytes (mInternalID im))) (\<lambda>t.
     bindE (deleteIndex E t im) (\<lambda>t.
     kvDelete E t (makeKey prefixMeta (mPath im))))"

definition deleteItems :: "('d, 't, 'z) benv_scheme \<Rightarrow> imeta list \<Rightarrow> 't \<Rightarrow> err + 't" where
  "deleteItems E items t =
     forE (\<lambda>im t. if \<not> mIsDir im then deleteItem E im t
       else bindE (deleteIndex E t im) (\<lambda>t. kvDelete E t (makeKey prefixMeta (mPath im)))) items t"

section \<open>Moving items\<close>

text \<open>The metadata after a move or a copy to another path at a given time.\<close>

definition renamed :: "imeta \<Rightarrow> string \<Rightarrow> int \<Rightarrow> imeta" where
  "renamed im newPath now =
     (let nm = basePath (trimSuffix newPath ''/'')
      in im\<lparr>mPath := newPath, mName := nm, mExtension := trimPrefix (extPath nm) ''.'',
            mModified := now\<rparr>)"

definition moveItem :: "('d, 't, 'z) benv_scheme \<Rightarrow> int \<Rightarrow> 't \<Rightarrow> imeta \<Rightarrow> string
    \<Rightarrow> err + imeta \<times> 't" where
  "moveItem E now t im newPath =
     bindE (kvDelete E t (makeKey prefixMeta (mPath im))) (\<lambda>t.
     let im' = renamed im newPath now in
     bindE (setMeta E t (makeKey prefixMeta newPath) im') (\<lambda>t.
     bindE (kvSet E t (makeKey prefixIndex (idBytes (mID im'))) newPath) (\<lambda>t.
     Inr (im', t))))"

definition withSlash :: "string \<Rightarrow> string" where
  "withSlash p = (if suffix ''/'' p then p else p @ ''/'')"

definition childPath :: "string \<Rightarrow> string \<Rightarrow> imeta \<Rightarrow> string" where
  "childPath pre dstPath im =
     (let relPath = trimPrefix (mPath im) pre;
          newChildPath = joinPath [dstPath, relPath]
      in if mIsDir im \<and> \<not> suffix ''/'' newChildPath then newChildPath @ ''/'' else newChildPath)"

text \<open>
  The collecting loop of \<open>moveChildren\<close> skips what it cannot read; the moving loop reads the
  clock once for every child, after the \<open>k\<close> readings before it.
\<close>

fun readable :: "('d, 't, 'z) benv_scheme \<Rightarrow> (bytes \<times> (err + bytes)) list \<Rightarrow> imeta list" where
  "readable E [] = []"
| "readable E ((key, v) # its) =
     (case getMeta E v of Inl e \<Rightarrow> readable E its | Inr im \<Rightarrow> im # readable E its)"

fun moveEach :: "('d, 't, 'z) benv_scheme \<Rightarrow> (nat \<Rightarrow> int) \<Rightarrow> nat \<Rightarrow> string \<Rightarrow> string
    \<Rightarrow> imeta list \<Rightarrow> 't \<Rightarrow> err + 't" where
  "moveEach E clock k pre dstPath [] t = Inr t"
| "moveEach E clock k pre dstPath (im # ims) t =
     bindE (moveItem E (clock k) t im (childPath pre dstPath im)) (\<lambda>(_, t).
     moveEach E clock (Suc k) pre dstPath ims t)"

definition moveChildren :: "('d, 't, 'z) benv_scheme \<Rightarrow> (nat \<Rightarrow> int) \<Rightarrow> nat \<Rightarrow> 't \<Rightarrow> string
    \<Rightarrow> string \<Rightarrow> err + 't" where
  "moveChildren E clock k t srcPath dstPath =
     (let pre = withSlash srcPath;
          children = readable E (kvScan E t (makeKey prefixMeta pre))
      in moveEach E clock k pre dstPath children t)"

section \<open>Transfers\<close>

text \<open>The collecting loops that stop at the first undecodable item.\<close>

definition readAll :: "('d, 't, 'z) benv_scheme \<Rightarrow> (bytes \<times> (err + bytes)) list
    \<Rightarrow> err + imeta list" where
  "readAll E its = mapE (\<lambda>(key, v). getMeta E v) its"

definition transferItems :: "('d, 't, 'z) benv_scheme \<Rightarrow> 't \<Rightarrow> imeta \<Rightarrow> err + imeta list" where
  "transferItems E t root =
     (if \<not> mIsDir root then Inr [root]
      else bindE (readAll E (kvScan E t (makeKey prefixMeta (mPath root)))) (\<lambda>ims.
        Inr (root # filter (\<lambda>item. mID item \<noteq> mID root) ims)))"

definition prepareTransfer :: "('d, 't, 'z) benv_scheme \<Rightarrow> 't \<Rightarrow> string \<Rightarrow> uuid list
    \<Rightarrow> err + 't" where
  "prepareTransfer E t dst replaceID =
     (case findByPath E t (trimSuffix dst ''/'') of
        Inl e \<Rightarrow>
          if errorsIs e ErrNotFound
          then (case CheckReplacement (None :: imeta option) replaceID of
                  Some e' \<Rightarrow> Inl e' | None \<Rightarrow> Inr t)
          else Inl e
      | Inr target \<Rightarrow>
          (case CheckReplacement (Some target) replaceID of
             Some e' \<Rightarrow> Inl e'
           | None \<Rightarrow>
               bindE (transferItems E t target) (\<lambda>items. deleteItems E items t)))"

end
