(* ===== verification/Badger_Vfs.thy ===== *)
theory Badger_Vfs
  imports Badger_Meta
begin

text \<open>
  The operations of \<open>BadgerVFS\<close> (\<open>pkg/drivers/badger/badger.go\<close>), each as a function of the
  driver's state. Fresh identifiers and the clock are arguments: \<open>rng k\<close> is the identifier the
  \<open>k\<close>-th \<open>uuid.NewV4()\<close> of the call returns and \<open>clock k\<close> the time the \<open>k\<close>-th \<open>time.Now()\<close>
  reads.
\<close>

section \<open>State\<close>

record 'd bvfs =
  b_db :: 'd
  b_failed :: "err option"
  b_inMemory :: bool
  b_key :: bytes
  b_closed :: bool

text \<open>Every operation first returns the sticky failure of the driver, if it has one.\<close>

definition guarded :: "'d bvfs \<Rightarrow> ('d \<Rightarrow> (err + 'a) \<times> 'd) \<Rightarrow> (err + 'a) \<times> 'd bvfs" where
  "guarded s f = (case b_failed s of
     Some e \<Rightarrow> (Inl e, s)
   | None \<Rightarrow> (case f (b_db s) of (r, d') \<Rightarrow> (r, s\<lparr>b_db := d'\<rparr>)))"

definition rootedPath :: "string \<Rightarrow> string" where
  "rootedPath p = (if prefix ''/'' p then p else ''/'' @ p)"

section \<open>Listing and looking up\<close>

text \<open>The filter of \<open>List\<close>: neither the directory itself nor anything below its children.\<close>

definition directChild :: "bytes \<Rightarrow> bytes \<Rightarrow> bool" where
  "directChild metaKey key =
     (let subpath = drop (length metaKey) key
      in \<not> (subpath = [] \<or> slash \<in> set (trimSuffix subpath ''/'')))"

definition badger_List :: "('d, 't, 'z) benv_scheme \<Rightarrow> 'd bvfs \<Rightarrow> string \<Rightarrow> err + vmeta list" where
  "badger_List E s path = (case b_failed s of Some e \<Rightarrow> Inl e | None \<Rightarrow>
     (let path = trimSpace path;
          path = (if path = [] then Root else path);
          path = (if suffix ''/'' path then path else path @ ''/'');
          metaKey = makeKey prefixMeta path
      in dbView E (\<lambda>t.
           let scan = mapE (\<lambda>(key, v). bindE (getMeta E v) (\<lambda>im. Inr (Meta_of im)))
                 (filter (\<lambda>(key, v). directChild metaKey key) (kvScan E t metaKey))
           in if path \<noteq> Root
              then (case kvGet E t metaKey of
                      Inl e \<Rightarrow> if errorsIs e ErrKeyNotFound then Inl ErrNotFound else Inl e
                    | Inr _ \<Rightarrow> scan)
              else scan) (b_db s)))"

text \<open>\<open>Open\<close>: directories have no reader; a nil internal identifier stands for the public one.\<close>

definition badger_Open :: "('d, 't, 'z) benv_scheme \<Rightarrow> 'd bvfs \<Rightarrow> uuid
    \<Rightarrow> err + blobReader vfile" where
  "badger_Open E s i = (case b_failed s of Some e \<Rightarrow> Inl e | None \<Rightarrow>
     bindE (dbView E (\<lambda>t. bindE (findMetaItemByID E t i) (\<lambda>item. getMeta E (Inr item))) (b_db s))
       (\<lambda>im.
         let iid = (if mInternalID im = nilUUID then mID im else mInternalID im);
             r = (if \<not> mIsDir im then Some (newBlobReader (idBytes iid) (mSize im)) else None)
         in Inr (NewFile (Meta_of im) r)))"

definition badger_StatByPath :: "('d, 't, 'z) benv_scheme \<Rightarrow> 'd bvfs \<Rightarrow> string \<Rightarrow> err + vmeta" where
  "badger_StatByPath E s p = (case b_failed s of Some e \<Rightarrow> Inl e | None \<Rightarrow>
     if p = Root then Inl ErrInvalidPath
     else (let p = rootedPath (trimSpace p)
           in bindE (dbView E (\<lambda>t. findByPath E t p) (b_db s)) (\<lambda>im. Inr (Meta_of im))))"

definition badger_Stat :: "('d, 't, 'z) benv_scheme \<Rightarrow> 'd bvfs \<Rightarrow> uuid \<Rightarrow> err + vmeta" where
  "badger_Stat E s i = (case b_failed s of Some e \<Rightarrow> Inl e | None \<Rightarrow>
     bindE (dbView E (\<lambda>t.
       case kvGet E t (makeKey prefixIndex (idBytes i)) of
         Inl e \<Rightarrow> if errorsIs e ErrKeyNotFound then Inl ErrNotFound else Inl e
       | Inr path \<Rightarrow>
           (case kvGet E t (makeKey prefixMeta path) of
              Inl e \<Rightarrow> if errorsIs e ErrKeyNotFound then Inl ErrNotFound else Inl e
            | Inr item \<Rightarrow> getMeta E (Inr item))) (b_db s))
       (\<lambda>im. Inr (Meta_of im)))"

section \<open>Creating and writing\<close>

text \<open>The parent check shared by the transactions of \<open>Create\<close> and \<open>Mkdir\<close>.\<close>

definition requireParent :: "('d, 't, 'z) benv_scheme \<Rightarrow> 't \<Rightarrow> string \<Rightarrow> err + unit" where
  "requireParent E t path =
     (let parentDir = getParentPath path
      in if parentDir \<noteq> Root
         then bindE (findByPath E t parentDir) (\<lambda>parentMeta.
           if \<not> mIsDir parentMeta then Inl ErrNotDir else Inr ())
         else Inr ())"

text \<open>Storing a new entry and its index, the end of both transactions.\<close>

definition storeEntry :: "('d, 't, 'z) benv_scheme \<Rightarrow> 't \<Rightarrow> imeta \<Rightarrow> err + 't" where
  "storeEntry E t im =
     bindE (setMeta E t (makeKey prefixMeta (mPath im)) im) (\<lambda>t.
     kvSet E t (makeKey prefixIndex (idBytes (mID im))) (mPath im))"

definition newFileMeta :: "(string \<Rightarrow> string) \<Rightarrow> string \<Rightarrow> uuid \<Rightarrow> uuid \<Rightarrow> int \<Rightarrow> int \<Rightarrow> imeta" where
  "newFileMeta ul path i iid sz now =
     \<lparr>mID = i, mPath = path, mName = basePath path, mExtension = extractExtension ul path,
      mSize = sz, mIsDir = False, mModified = now, mComments = [], mInternalID = iid\<rparr>"

definition createTx :: "('d, 't, 'z) benv_scheme \<Rightarrow> imeta \<Rightarrow> 't \<Rightarrow> err + vmeta \<times> 't" where
  "createTx E im t =
     bindE (requireParent E t (mPath im)) (\<lambda>_.
     case kvGet E t (makeKey prefixMeta (mPath im)) of
       Inr _ \<Rightarrow> Inl ErrAlreadyExists
     | Inl e \<Rightarrow> if \<not> errorsIs e ErrKeyNotFound then Inl e
         else bindE (storeEntry E t im) (\<lambda>t. Inr (Meta_of im, t)))"

definition badger_Create :: "('d, 't, 'z) benv_scheme \<Rightarrow> (nat \<Rightarrow> uuid) \<Rightarrow> (nat \<Rightarrow> int) \<Rightarrow> 'd bvfs
    \<Rightarrow> string \<Rightarrow> reader \<Rightarrow> (err + vmeta) \<times> 'd bvfs" where
  "badger_Create E rng clock s path r = guarded s (\<lambda>d.
     if path = Root then (Inl ErrInvalidPath, d)
     else
       let path = rootedPath (trimSpace path);
           i = rng 0;
           internalID = rng 1
       in case writeChunks E (idBytes internalID) r d of
            (Inl e, d) \<Rightarrow> (Inl e, snd (deleteChunksDB E d (idBytes internalID)))
          | (Inr sz, d) \<Rightarrow>
              (case dbUpdate E (createTx E (newFileMeta (bLower E) path i internalID sz (clock 0))) d of
                 (Inl e, d) \<Rightarrow>
                   (case deleteChunksDB E d (idBytes internalID) of
                      (ce, d) \<Rightarrow> (Inl (the (errorsJoin [Some e, ce])), d))
               | (Inr m, d) \<Rightarrow> (Inr m, d)))"

text \<open>The transaction of \<open>Write\<close>: it yields the new metadata and the old internal identifier.\<close>

definition writeTx :: "('d, 't, 'z) benv_scheme \<Rightarrow> uuid \<Rightarrow> uuid \<Rightarrow> int \<Rightarrow> int \<Rightarrow> 't
    \<Rightarrow> err + (imeta \<times> uuid) \<times> 't" where
  "writeTx E i newInternalID sz now t =
     (case kvGet E t (makeKey prefixIndex (idBytes i)) of
        Inl e \<Rightarrow> if errorsIs e ErrKeyNotFound then Inl ErrNotFound else Inl e
      | Inr path \<Rightarrow>
          let metaKey = makeKey prefixMeta path in
          (case kvGet E t metaKey of
             Inl e \<Rightarrow> if errorsIs e ErrKeyNotFound then Inl ErrNotFound else Inl e
           | Inr item \<Rightarrow>
               bindE (getMeta E (Inr item)) (\<lambda>im.
               if mIsDir im then Inl ErrAlreadyExists
               else
                 let im' = im\<lparr>mSize := sz, mModified := now, mInternalID := newInternalID\<rparr>
                 in bindE (setMeta E t metaKey im') (\<lambda>t. Inr ((im', mInternalID im), t)))))"

definition badger_Write :: "('d, 't, 'z) benv_scheme \<Rightarrow> (nat \<Rightarrow> uuid) \<Rightarrow> (nat \<Rightarrow> int) \<Rightarrow> 'd bvfs
    \<Rightarrow> uuid \<Rightarrow> reader \<Rightarrow> (err + vmeta) \<times> 'd bvfs" where
  "badger_Write E rng clock s i r = guarded s (\<lambda>d.
     let newInternalID = rng 0 in
     case writeChunks E (idBytes newInternalID) r d of
       (Inl e, d) \<Rightarrow> (Inl e, snd (deleteChunksDB E d (idBytes newInternalID)))
     | (Inr sz, d) \<Rightarrow>
         (case dbUpdate E (writeTx E i newInternalID sz (clock 0)) d of
            (Inl e, d) \<Rightarrow> (Inl e, snd (deleteChunksDB E d (idBytes newInternalID)))
          | (Inr (im, oldInternalID), d) \<Rightarrow>
              if oldInternalID \<noteq> nilUUID
              then (case deleteChunksDB E d (idBytes oldInternalID) of
                      (Some e, d) \<Rightarrow> (Inl e, d)
                    | (None, d) \<Rightarrow> (Inr (Meta_of im), d))
              else (Inr (Meta_of im), d)))"

definition commentsTx :: "('d, 't, 'z) benv_scheme \<Rightarrow> uuid \<Rightarrow> string \<Rightarrow> 't
    \<Rightarrow> err + vmeta \<times> 't" where
  "commentsTx E i comments t =
     bindE (findMetaItemByID E t i) (\<lambda>item.
     bindE (getMeta E (Inr item)) (\<lambda>im.
     let im = im\<lparr>mComments := comments\<rparr> in
     bindE (setMeta E t (makeKey prefixMeta (mPath im)) im) (\<lambda>t. Inr (Meta_of im, t))))"

definition badger_WriteComments :: "('d, 't, 'z) benv_scheme \<Rightarrow> 'd bvfs \<Rightarrow> uuid \<Rightarrow> string
    \<Rightarrow> (err + vmeta) \<times> 'd bvfs" where
  "badger_WriteComments E s i comments = guarded s (dbUpdate E (commentsTx E i comments))"

section \<open>Deleting\<close>

definition deleteTx :: "('d, 't, 'z) benv_scheme \<Rightarrow> uuid \<Rightarrow> 't \<Rightarrow> err + unit \<times> 't" where
  "deleteTx E i t =
     bindE (findMetaItemByID E t i) (\<lambda>item.
     bindE (getMeta E (Inr item)) (\<lambda>im.
     bindE (if mIsDir im
            then bindE (readAll E (kvScan E t (makeKey prefixMeta (withSlash (mPath im)))))
                   (\<lambda>itemsToDelete. deleteItems E itemsToDelete t)
            else deleteItem E im t) (\<lambda>t. Inr ((), t))))"

definition badger_Delete :: "('d, 't, 'z) benv_scheme \<Rightarrow> 'd bvfs \<Rightarrow> uuid
    \<Rightarrow> (err + unit) \<times> 'd bvfs" where
  "badger_Delete E s i = guarded s (dbUpdate E (deleteTx E i))"

section \<open>Directories\<close>

definition newDirMeta :: "string \<Rightarrow> uuid \<Rightarrow> int \<Rightarrow> imeta" where
  "newDirMeta path i now =
     \<lparr>mID = i, mPath = path, mName = basePath (trimSuffix path ''/''), mExtension = [],
      mSize = 0, mIsDir = True, mModified = now, mComments = [], mInternalID = nilUUID\<rparr>"

text \<open>An error other than a missing key counts as absence here, as in the source.\<close>

definition mkdirTx :: "('d, 't, 'z) benv_scheme \<Rightarrow> imeta \<Rightarrow> 't \<Rightarrow> err + vmeta \<times> 't" where
  "mkdirTx E im t =
     bindE (requireParent E t (mPath im)) (\<lambda>_.
     case kvGet E t (makeKey prefixMeta (mPath im)) of
       Inr _ \<Rightarrow> Inl ErrAlreadyExists
     | Inl e \<Rightarrow> bindE (storeEntry E t im) (\<lambda>t. Inr (Meta_of im, t)))"

definition badger_Mkdir :: "('d, 't, 'z) benv_scheme \<Rightarrow> (nat \<Rightarrow> uuid) \<Rightarrow> (nat \<Rightarrow> int) \<Rightarrow> 'd bvfs
    \<Rightarrow> string \<Rightarrow> (err + vmeta) \<times> 'd bvfs" where
  "badger_Mkdir E rng clock s path = guarded s (\<lambda>d.
     let path = trimSpace path in
     if path = [] \<or> path = ''/'' then (Inl ErrInvalidPath, d)
     else
       let path = withSlash (rootedPath path)
       in dbUpdate E (mkdirTx E (newDirMeta path (rng 0) (clock 0))) d)"

section \<open>Moving and copying\<close>

definition moveTx :: "('d, 't, 'z) benv_scheme \<Rightarrow> (nat \<Rightarrow> int) \<Rightarrow> uuid \<Rightarrow> string \<Rightarrow> uuid list \<Rightarrow> 't
    \<Rightarrow> err + vmeta \<times> 't" where
  "moveTx E clock i dst replaceID t =
     bindE (findMetaItemByID E t i) (\<lambda>item.
     bindE (getMeta E (Inr item)) (\<lambda>im.
     bindE (TransferPath im dst) (\<lambda>dst.
     bindE (prepareTransfer E t dst replaceID) (\<lambda>t.
     bindE (moveItem E (clock 0) t im dst) (\<lambda>(im', t).
     if mIsDir im'
     then bindE (moveChildren E clock 1 t (mPath im) dst) (\<lambda>t. Inr (Meta_of im', t))
     else Inr (Meta_of im', t))))))"

definition badger_Move :: "('d, 't, 'z) benv_scheme \<Rightarrow> (nat \<Rightarrow> int) \<Rightarrow> 'd bvfs \<Rightarrow> uuid \<Rightarrow> string
    \<Rightarrow> uuid list \<Rightarrow> (err + vmeta) \<times> 'd bvfs" where
  "badger_Move E clock s i dst replaceID =
     guarded s (dbUpdate E (moveTx E clock i (rootedPath (trimSpace dst)) replaceID))"

text \<open>
  The stream a \<open>lockedBlobReader\<close> delivers: the bytes up to the recorded size, or those before
  the first error.
\<close>

definition blobStream :: "('d, 't, 'z) kv_scheme \<Rightarrow> 'd \<Rightarrow> blobReader \<Rightarrow> reader" where
  "blobStream K d br =
     (case readLocked K None d br (nat (brSize br - brOffset br)) of
        ((bs, None), _) \<Rightarrow> \<lparr>rData = bs, rEnd = ErrEOF\<rparr>
      | ((bs, Some e), _) \<Rightarrow> \<lparr>rData = bs, rEnd = e\<rparr>)"

text \<open>
  The copying loop. Chunks are written by batches of their own, outside the transaction, so the
  database \<open>d\<close> and the transaction \<open>t\<close> advance side by side; \<open>ids\<close> collects the internal
  identifiers written, which a failure must clean up.
\<close>

definition copiedMeta :: "(nat \<Rightarrow> uuid) \<Rightarrow> (nat \<Rightarrow> int) \<Rightarrow> nat \<Rightarrow> string \<Rightarrow> string \<Rightarrow> imeta \<Rightarrow> imeta"
  where
  "copiedMeta rng clock k dst srcPath original =
     (renamed original (dst @ trimPrefix (mPath original) srcPath) (clock k))
       \<lparr>mID := rng (2 * k), mInternalID := rng (2 * k + 1)\<rparr>"

fun copyItems :: "('d, 't, 'z) benv_scheme \<Rightarrow> (nat \<Rightarrow> uuid) \<Rightarrow> (nat \<Rightarrow> int) \<Rightarrow> uuid \<Rightarrow> string
    \<Rightarrow> string \<Rightarrow> nat \<Rightarrow> imeta list \<Rightarrow> 'd \<Rightarrow> 't \<Rightarrow> vmeta \<Rightarrow> uuid list
    \<Rightarrow> (err + vmeta \<times> 't) \<times> 'd \<times> uuid list" where
  "copyItems E rng clock i dst srcPath k [] d t result ids = (Inr (result, t), d, ids)"
| "copyItems E rng clock i dst srcPath k (original # items) d t result ids =
     (let copied = copiedMeta rng clock k dst srcPath original in
      case (if mIsDir copied then (Inr 0, d)
            else writeChunks E (idBytes (mInternalID copied))
              (blobStream E d (newBlobReader (idBytes (mInternalID original)) (mSize original))) d) of
        (Inl e, d) \<Rightarrow> (Inl e, d, ids @ [mInternalID copied])
      | (Inr _, d) \<Rightarrow>
          let ids = (if mIsDir copied then ids else ids @ [mInternalID copied]) in
          (case storeEntry E t copied of
             Inl e \<Rightarrow> (Inl e, d, ids)
           | Inr t \<Rightarrow>
               copyItems E rng clock i dst srcPath (Suc k) items d t
                 (if mID original = i then Meta_of copied else result) ids))"

definition copyTx :: "('d, 't, 'z) benv_scheme \<Rightarrow> (nat \<Rightarrow> uuid) \<Rightarrow> (nat \<Rightarrow> int) \<Rightarrow> uuid \<Rightarrow> string
    \<Rightarrow> uuid list \<Rightarrow> 'd \<Rightarrow> 't \<Rightarrow> (err + vmeta \<times> 't) \<times> 'd \<times> uuid list" where
  "copyTx E rng clock i dst replaceID d t =
     (case bindE (findMetaItemByID E t i) (\<lambda>item.
           bindE (getMeta E (Inr item)) (\<lambda>src.
           bindE (TransferPath src dst) (\<lambda>dst.
           bindE (prepareTransfer E t dst replaceID) (\<lambda>t.
           bindE (transferItems E t src) (\<lambda>items. Inr (src, dst, items, t)))))) of
        Inl e \<Rightarrow> (Inl e, d, [])
      | Inr (src, dst, items, t) \<Rightarrow>
          copyItems E rng clock i dst (mPath src) 0 items d t vmeta0 [])"

text \<open>Cleaning up after a failed copy; the errors of the cleanup are joined to the first.\<close>

fun cleanupChunks :: "('d, 't, 'z) benv_scheme \<Rightarrow> uuid list \<Rightarrow> err \<Rightarrow> 'd \<Rightarrow> err \<times> 'd" where
  "cleanupChunks E [] e d = (e, d)"
| "cleanupChunks E (i # ids) e d =
     (case deleteChunksDB E d (idBytes i) of
        (ce, d) \<Rightarrow> cleanupChunks E ids (the (errorsJoin [Some e, ce])) d)"

definition badger_Copy :: "('d, 't, 'z) benv_scheme \<Rightarrow> (nat \<Rightarrow> uuid) \<Rightarrow> (nat \<Rightarrow> int) \<Rightarrow> 'd bvfs
    \<Rightarrow> uuid \<Rightarrow> string \<Rightarrow> uuid list \<Rightarrow> (err + vmeta) \<times> 'd bvfs" where
  "badger_Copy E rng clock s i dst replaceID = guarded s (\<lambda>d.
     let replaceID = (if replaceID = [] then [nilUUID] else replaceID) in
     case copyTx E rng clock i dst replaceID d (kvBegin E d) of
       (Inl e, d, ids) \<Rightarrow> (case cleanupChunks E ids e d of (e, d) \<Rightarrow> (Inl e, d))
     | (Inr (result, t), d, ids) \<Rightarrow>
         (case kvCommit E d t of
            Inl e \<Rightarrow> (case cleanupChunks E ids e d of (e, d) \<Rightarrow> (Inl e, d))
          | Inr d \<Rightarrow> (Inr result, d)))"

section \<open>Trees\<close>

text \<open>
  \<open>Tree\<close> links nodes through pointers. Here the nodes are numbered in the order they are
  created; \<open>tr_nodes\<close> has for every node its metadata and the number of the node whose
  \<open>Children\<close> it was appended to, \<open>tr_byPath\<close> is the source's map \<open>nodes\<close>.
\<close>

record tree_state =
  tr_nodes :: "(vmeta \<times> nat option) list"
  tr_byPath :: "string \<rightharpoonup> nat"
  tr_root :: "nat option"

definition treeStep :: "string \<Rightarrow> imeta \<Rightarrow> tree_state \<Rightarrow> tree_state" where
  "treeStep targetPath im st =
     (let k = length (tr_nodes st);
          byPath = (tr_byPath st)(mPath im \<mapsto> k)
      in if mPath im = targetPath
         then \<lparr>tr_nodes = tr_nodes st @ [(Meta_of im, None)], tr_byPath = byPath, tr_root = Some k\<rparr>
         else
           let parent = (case byPath (getParentPath (mPath im)) of
                           Some p \<Rightarrow> Some p | None \<Rightarrow> tr_root st)
           in \<lparr>tr_nodes = tr_nodes st @ [(Meta_of im, parent)], tr_byPath = byPath,
               tr_root = tr_root st\<rparr>)"

definition treeInit :: "string \<Rightarrow> tree_state" where
  "treeInit targetPath =
     (if targetPath = Root
      then \<lparr>tr_nodes = [(vmeta0\<lparr>mPath := targetPath,
                           mName := basePath (trimSuffix targetPath ''/''), mIsDir := True\<rparr>, None)],
            tr_byPath = [Root \<mapsto> 0], tr_root = Some 0\<rparr>
      else \<lparr>tr_nodes = [], tr_byPath = Map.empty, tr_root = None\<rparr>)"

text \<open>
  The tree hanging from a node. A node's parent was created before it, so chains of children
  are no longer than the number of nodes, which is the fuel.
\<close>

fun treeFrom :: "nat \<Rightarrow> (vmeta \<times> nat option) list \<Rightarrow> nat \<Rightarrow> tree_node" where
  "treeFrom 0 nodes k = TreeNode (fst (nodes ! k)) []"
| "treeFrom (Suc n) nodes k =
     TreeNode (fst (nodes ! k))
       (map (treeFrom n nodes) (filter (\<lambda>j. snd (nodes ! j) = Some k) [0..<length nodes]))"

definition treeTarget :: "string \<Rightarrow> string" where
  "treeTarget p = (let p = trimSpace p; p = (if p = [] then Root else p)
     in withSlash (rootedPath p))"

definition badger_Tree :: "('d, 't, 'z) benv_scheme \<Rightarrow> 'd bvfs \<Rightarrow> string \<Rightarrow> err + tree_node" where
  "badger_Tree E s targetPath = (case b_failed s of Some e \<Rightarrow> Inl e | None \<Rightarrow>
     let targetPath = treeTarget targetPath in
     bindE (dbView E (\<lambda>t.
         forE (\<lambda>(key, v) st. bindE (getMeta E v) (\<lambda>im. Inr (treeStep targetPath im st)))
           (kvScan E t (makeKey prefixMeta targetPath)) (treeInit targetPath)) (b_db s))
       (\<lambda>st. case tr_root st of
          None \<Rightarrow> Inl ErrNotFound
        | Some k \<Rightarrow> Inr (treeFrom (length (tr_nodes st)) (tr_nodes st) k)))"

section \<open>Backups, statistics, closing\<close>

definition badger_Backup :: "('d, 't, 'z) benv_scheme \<Rightarrow> 'd bvfs \<Rightarrow> nat \<Rightarrow> err + (bytes \<times> nat)" where
  "badger_Backup E s since = (case b_failed s of Some e \<Rightarrow> Inl e | None \<Rightarrow> kvBackup E (b_db s) since)"

definition badger_Load :: "('d, 't, 'z) benv_scheme \<Rightarrow> 'd bvfs \<Rightarrow> bytes \<Rightarrow> nat
    \<Rightarrow> (err + unit) \<times> 'd bvfs" where
  "badger_Load E s r maxPendingWrites = guarded s (\<lambda>d.
     case kvLoad E d r maxPendingWrites of (Some e, d) \<Rightarrow> (Inl e, d) | (None, d) \<Rightarrow> (Inr (), d))"

definition badger_AllKeysByPrefix :: "('d, 't, 'z) benv_scheme \<Rightarrow> 'd bvfs \<Rightarrow> bytes
    \<Rightarrow> err + bytes list" where
  "badger_AllKeysByPrefix E s pre = (case b_failed s of Some e \<Rightarrow> Inl e | None \<Rightarrow>
     Inr (dbView E (\<lambda>t. map fst (kvScan E t pre)) (b_db s)))"

definition badger_AllKeys :: "('d, 't, 'z) benv_scheme \<Rightarrow> 'd bvfs \<Rightarrow> err + bytes list" where
  "badger_AllKeys E s = badger_AllKeysByPrefix E s []"

record kv_stats =
  st_Count :: int
  st_Size :: int

definition statClass :: "bytes \<Rightarrow> string" where
  "statClass key =
     (if prefix prefixMeta key then ''meta''
      else if prefix prefixBlob key then ''blob''
      else if prefix prefixIndex key then ''index''
      else ''other'')"

text \<open>\<open>vsize\<close> is \<open>item.ValueSize()\<close>, which Badger reports without reading the value.\<close>

definition statStep :: "(bytes \<Rightarrow> int) \<Rightarrow> bytes \<Rightarrow> (string \<rightharpoonup> kv_stats) \<Rightarrow> (string \<rightharpoonup> kv_stats)" where
  "statStep vsize key stats =
     (let c = statClass key;
          s = (case stats c of None \<Rightarrow> \<lparr>st_Count = 0, st_Size = 0\<rparr> | Some s \<Rightarrow> s)
      in stats(c \<mapsto> \<lparr>st_Count = i64 (st_Count s + 1),
                     st_Size = i64 (st_Size s + int (length key) + vsize key)\<rparr>))"

definition badger_Stats :: "('d, 't, 'z) benv_scheme \<Rightarrow> ('t \<Rightarrow> bytes \<Rightarrow> int) \<Rightarrow> 'd bvfs
    \<Rightarrow> err + (string \<rightharpoonup> kv_stats)" where
  "badger_Stats E vsize s = (case b_failed s of Some e \<Rightarrow> Inl e | None \<Rightarrow>
     Inr (dbView E (\<lambda>t. foldl (\<lambda>st kv. statStep (vsize t) (fst kv) st) Map.empty (kvScan E t [])) (b_db s)))"

text \<open>\<open>close\<close> runs once; \<open>Close\<close> also stops the collector's goroutine, which does nothing else.\<close>

definition badger_close :: "('d, 't, 'z) benv_scheme \<Rightarrow> 'd bvfs \<Rightarrow> err option \<times> 'd bvfs" where
  "badger_close E s =
     (if b_closed s then (None, s)
      else (errorsJoin [kvClose E (b_db s)], s\<lparr>b_failed := Some ErrDBClosed, b_closed := True\<rparr>))"

text \<open>
  The events of \<open>runGC\<close>: the context's end closes the driver, a tick collects unless the driver
  has failed; \<open>gc\<close> is Badger's value log collection.
\<close>

datatype gc_event = CtxDone | Tick

fun runGC :: "('d, 't, 'z) benv_scheme \<Rightarrow> ('d \<Rightarrow> 'd) \<Rightarrow> gc_event list \<Rightarrow> 'd bvfs \<Rightarrow> 'd bvfs" where
  "runGC E gc [] s = s"
| "runGC E gc (CtxDone # evs) s = snd (badger_close E s)"
| "runGC E gc (Tick # evs) s =
     runGC E gc evs (if b_failed s = None then s\<lparr>b_db := gc (b_db s)\<rparr> else s)"

end
