(* ===== verification/Badger_Inv.thy ===== *)
theory Badger_Inv
  imports Badger_Vfs
begin

text \<open>
  The consistency of the Badger store: every metadata record is stored under its own path, the
  index maps exactly the identifiers of the stored records to their paths, and every file has
  its whole contents stored under an internal identifier of its own. Each lemma says what one of
  the driver's key updates does to this invariant and to the abstract file system it represents.
\<close>

section \<open>The abstract file system\<close>

definition textOk :: "imeta \<Rightarrow> bool" where
  "textOk im \<longleftrightarrow> utf8 (mPath im) \<and> utf8 (mName im) \<and> utf8 (mExtension im) \<and> utf8 (mComments im)"

definition metaAt :: "('d, 't, 'z) benv_scheme \<Rightarrow> store \<Rightarrow> string \<Rightarrow> imeta option" where
  "metaAt E m p = (case m (makeKey prefixMeta p) of
     None \<Rightarrow> None
   | Some b \<Rightarrow> (case bUnmarshal E b of Inl _ \<Rightarrow> None | Inr im \<Rightarrow> Some im))"

definition idAt :: "store \<Rightarrow> uuid \<Rightarrow> string option" where
  "idAt m i = m (makeKey prefixIndex (idBytes i))"

definition blobContent :: "store \<Rightarrow> bytes \<Rightarrow> nat \<Rightarrow> bytes" where
  "blobContent m i sz = concat (map
     (\<lambda>n. case m (makeChunkKey i (of_nat n)) of None \<Rightarrow> [] | Some c \<Rightarrow> c)
     [0..<(sz + ChunkSize - 1) div ChunkSize])"

text \<open>What the store represents: for every path its metadata and its contents.\<close>

definition contentOf :: "store \<Rightarrow> imeta \<Rightarrow> bytes" where
  "contentOf m im = (if mIsDir im then []
     else blobContent m (idBytes (mInternalID im)) (nat (mSize im)))"

definition fsView :: "('d, 't, 'z) benv_scheme \<Rightarrow> store \<Rightarrow> string \<Rightarrow> (vmeta \<times> bytes) option" where
  "fsView E m p = map_option (\<lambda>im. (Meta_of im, contentOf m im)) (metaAt E m p)"

section \<open>The invariant\<close>

text \<open>On the two maps a store holds, records by path and paths by identifier:\<close>

definition index_inv :: "(string \<Rightarrow> imeta option) \<Rightarrow> (uuid \<Rightarrow> string option) \<Rightarrow> bool" where
  "index_inv M I \<longleftrightarrow>
     (\<forall>p im. M p = Some im \<longrightarrow> mPath im = p \<and> textOk im \<and> I (mID im) = Some p)
     \<and> (\<forall>i p. I i = Some p \<longrightarrow> (\<exists>im. M p = Some im \<and> mID im = i))"

definition decodable :: "('d, 't, 'z) benv_scheme \<Rightarrow> store \<Rightarrow> bool" where
  "decodable E m \<longleftrightarrow> (\<forall>p. m (makeKey prefixMeta p) \<noteq> None \<longrightarrow> metaAt E m p \<noteq> None)"

definition index_ok :: "('d, 't, 'z) benv_scheme \<Rightarrow> store \<Rightarrow> bool" where
  "index_ok E m \<longleftrightarrow> decodable E m \<and> index_inv (metaAt E m) (idAt m)"

definition content_inv :: "(bytes \<Rightarrow> bytes \<Rightarrow> bool) \<Rightarrow> (string \<Rightarrow> imeta option) \<Rightarrow> bool" where
  "content_inv S M \<longleftrightarrow>
     (\<forall>p im. M p = Some im \<and> \<not> mIsDir im \<longrightarrow>
        mInternalID im \<noteq> nilUUID
        \<and> (\<exists>data. S (idBytes (mInternalID im)) data \<and> mSize im = int (length data)))
     \<and> (\<forall>p q im jm. M p = Some im \<and> M q = Some jm \<and> \<not> mIsDir im \<and> \<not> mIsDir jm
          \<and> mInternalID im = mInternalID jm \<longrightarrow> p = q)"

definition content_ok :: "('d, 't, 'z) benv_scheme \<Rightarrow> store \<Rightarrow> bool" where
  "content_ok E m \<longleftrightarrow> content_inv (stores m) (metaAt E m)"

definition db_ok :: "('d, 't, 'z) benv_scheme \<Rightarrow> store \<Rightarrow> bool" where
  "db_ok E m \<longleftrightarrow> index_ok E m \<and> content_ok E m"

section \<open>Contents\<close>

lemma concat_chunks:
  "concat (map (\<lambda>n. take c (drop (n * c) data)) [0..<k]) = take (k * c) data"
proof (induction k)
  case (Suc k)
  have "take (k * c) data @ take c (drop (k * c) data) = take (k * c + c) data"
    by (rule take_add [symmetric])
  with Suc show ?case by (simp add: add.commute)
qed simp

lemma chunkAt_total: "(case chunkAt data n of None \<Rightarrow> [] | Some c \<Rightarrow> c) =
    take ChunkSize (drop (n * ChunkSize) data)"
  by (simp add: chunkAt_def)

lemma ceil_chunks: "sz \<le> (sz + ChunkSize - 1) div ChunkSize * ChunkSize"
proof -
  let ?x = "sz + ChunkSize - 1"
  have "?x = ?x div ChunkSize * ChunkSize + ?x mod ChunkSize" by simp
  moreover have "?x mod ChunkSize < ChunkSize" by simp
  ultimately show ?thesis using ChunkSize_pos(1) by linarith
qed

lemma blobContent_stores:
  assumes "stores m i data"
  shows "blobContent m i (length data) = data"
proof -
  let ?k = "(length data + ChunkSize - 1) div ChunkSize"
  have "?k \<le> 2 ^ 32"
  proof -
    have "length data + ChunkSize - 1 < 2 ^ 32 * ChunkSize + ChunkSize"
      using stores_length [OF assms] ChunkSize_pos(1) unfolding maxContent_def by linarith
    then have "length data + ChunkSize - 1 < (2 ^ 32 + 1) * ChunkSize" by simp
    then have "?k < 2 ^ 32 + 1" by (rule less_mult_imp_div_less)
    then show ?thesis by simp
  qed
  then have "blobContent m i (length data) =
      concat (map (\<lambda>n. take ChunkSize (drop (n * ChunkSize) data)) [0..<?k])"
    unfolding blobContent_def
    by (intro arg_cong [where f = concat] map_cong refl)
      (simp add: storesD [OF assms] flip: chunkAt_total)
  also have "\<dots> = data" using concat_chunks [of ChunkSize data ?k] ceil_chunks by simp
  finally show ?thesis .
qed

lemma blobContent_cong:
  "(\<And>n. m (makeChunkKey i n) = m' (makeChunkKey i n)) \<Longrightarrow> blobContent m i sz = blobContent m' i sz"
  by (simp add: blobContent_def)

section \<open>Reading the views of an updated store\<close>

lemma metaAt_meta [simp]:
  "bUnmarshal E b = Inr im \<Longrightarrow> metaAt E (m(makeKey prefixMeta p \<mapsto> b)) = (metaAt E m)(p \<mapsto> im)"
  by (auto simp: metaAt_def)

lemma metaAt_meta_del [simp]: "metaAt E (m(makeKey prefixMeta p := None)) = (metaAt E m)(p := None)"
  by (auto simp: metaAt_def)

lemma metaAt_index [simp]: "metaAt E (m(makeKey prefixIndex i := x)) = metaAt E m"
  by (auto simp: metaAt_def)

lemma metaAt_blob [simp]:
  "metaAt E (map_without (prefix (makeKey prefixBlob i)) m) = metaAt E m"
  by (auto simp: metaAt_def)

lemma idAt_index [simp]: "idAt (m(makeKey prefixIndex (idBytes i) := x)) = (idAt m)(i := x)"
  by (auto simp: idAt_def)

lemma idAt_meta [simp]: "idAt (m(makeKey prefixMeta p := x)) = idAt m"
  by (auto simp: idAt_def)

lemma idAt_blob [simp]:
  "idAt (map_without (prefix (makeKey prefixBlob i)) m) = idAt m"
  by (auto simp: idAt_def)

lemma chunk_meta [simp]: "(m(makeKey prefixMeta p := x)) (makeChunkKey i n) = m (makeChunkKey i n)"
  by simp

lemma chunk_index [simp]: "(m(makeKey prefixIndex j := x)) (makeChunkKey i n) = m (makeChunkKey i n)"
  by simp

lemma stores_meta [simp]: "stores (m(makeKey prefixMeta p := x)) = stores m"
  by (auto simp: stores_def fun_eq_iff)

lemma stores_index [simp]: "stores (m(makeKey prefixIndex p := x)) = stores m"
  by (auto simp: stores_def fun_eq_iff)

lemma stores_without [simp]: "length i = length j \<Longrightarrow> i \<noteq> j \<Longrightarrow>
    stores (map_without (prefix (makeKey prefixBlob i)) m) j = stores m j"
  by (auto simp: stores_def fun_eq_iff)

lemma contentOf_meta [simp]: "contentOf (m(makeKey prefixMeta p := x)) = contentOf m"
  by (auto simp: contentOf_def blobContent_def fun_eq_iff)

lemma contentOf_index [simp]: "contentOf (m(makeKey prefixIndex p := x)) = contentOf m"
  by (auto simp: contentOf_def blobContent_def fun_eq_iff)

lemma contentOf_without:
  "mInternalID im \<noteq> i \<Longrightarrow>
   contentOf (map_without (prefix (makeKey prefixBlob (idBytes i))) m) im = contentOf m im"
  by (auto simp: contentOf_def blobContent_def)

section \<open>What the invariant gives\<close>

lemma index_okD:
  "index_ok E m \<Longrightarrow> metaAt E m p = Some im \<Longrightarrow> mPath im = p \<and> textOk im \<and> idAt m (mID im) = Some p"
  by (simp add: index_ok_def index_inv_def)

lemma index_okE:
  assumes "index_ok E m" and "idAt m i = Some p"
  obtains im where "metaAt E m p = Some im" "mID im = i" "mPath im = p"
  using assms unfolding index_ok_def index_inv_def by blast

lemma index_ok_ids:
  "index_ok E m \<Longrightarrow> metaAt E m p = Some im \<Longrightarrow> metaAt E m q = Some jm \<Longrightarrow> mID im = mID jm \<Longrightarrow> p = q"
  by (metis index_okD option.inject)

lemma index_ok_meta: "index_ok E m \<Longrightarrow> m (makeKey prefixMeta p) = None \<longleftrightarrow> metaAt E m p = None"
  by (cases "m (makeKey prefixMeta p)") (auto simp: index_ok_def decodable_def metaAt_def)

lemma content_okD:
  assumes "content_ok E m" and "metaAt E m p = Some im" and "\<not> mIsDir im"
  obtains data where "stores m (idBytes (mInternalID im)) data" "mSize im = int (length data)"
    "contentOf m im = data" "mInternalID im \<noteq> nilUUID"
proof -
  obtain data where "stores m (idBytes (mInternalID im)) data" "mSize im = int (length data)"
    "mInternalID im \<noteq> nilUUID"
    using assms unfolding content_ok_def content_inv_def by blast
  then show thesis using that assms(3) by (simp add: contentOf_def blobContent_stores)
qed

section \<open>Preservation\<close>

lemma decodable_meta: "decodable E m \<Longrightarrow> bUnmarshal E b = Inr im \<Longrightarrow>
    decodable E (m(makeKey prefixMeta p \<mapsto> b))"
  by (simp add: decodable_def)

lemma decodable_meta_del: "decodable E m \<Longrightarrow> decodable E (m(makeKey prefixMeta p := None))"
  by (simp add: decodable_def)

lemma decodable_index: "decodable E m \<Longrightarrow> decodable E (m(makeKey prefixIndex p := x))"
  by (simp add: decodable_def)

lemmas decodables = decodable_meta decodable_meta_del decodable_index

lemma index_invI:
  assumes "\<And>p im. M p = Some im \<Longrightarrow> mPath im = p \<and> textOk im \<and> I (mID im) = Some p"
    and "\<And>i p. I i = Some p \<Longrightarrow> \<exists>im. M p = Some im \<and> mID im = i"
  shows "index_inv M I"
  using assms unfolding index_inv_def by blast

lemma index_invD1: "index_inv M I \<Longrightarrow> M p = Some im \<Longrightarrow> mPath im = p \<and> textOk im \<and> I (mID im) = Some p"
  by (simp add: index_inv_def)

lemma index_invD2: "index_inv M I \<Longrightarrow> I i = Some p \<Longrightarrow> \<exists>im. M p = Some im \<and> mID im = i"
  by (simp add: index_inv_def)

lemma index_inv_insert:
  assumes "index_inv M I" and "textOk im" and "M (mPath im) = None" and "I (mID im) = None"
  shows "index_inv (M(mPath im \<mapsto> im)) (I(mID im \<mapsto> mPath im))"
proof (rule index_invI)
  fix p jm assume "(M(mPath im \<mapsto> im)) p = Some jm"
  then show "mPath jm = p \<and> textOk jm \<and> (I(mID im \<mapsto> mPath im)) (mID jm) = Some p"
    using assms index_invD1 [OF assms(1), of p jm] by (auto split: if_splits)
next
  fix i p assume "(I(mID im \<mapsto> mPath im)) i = Some p"
  then show "\<exists>jm. (M(mPath im \<mapsto> im)) p = Some jm \<and> mID jm = i"
    using assms index_invD2 [OF assms(1), of i p] by (auto split: if_splits)
qed

lemma index_inv_update:
  assumes "index_inv M I" and "textOk im" and "M (mPath im) = Some jm" and "mID jm = mID im"
  shows "index_inv (M(mPath im \<mapsto> im)) I"
proof (rule index_invI)
  fix p km assume "(M(mPath im \<mapsto> im)) p = Some km"
  then show "mPath km = p \<and> textOk km \<and> I (mID km) = Some p"
    using assms(2,4) index_invD1 [OF assms(1), of p km] index_invD1 [OF assms(1,3)]
    by (cases "p = mPath im") auto
next
  fix i p assume "I i = Some p"
  then show "\<exists>km. (M(mPath im \<mapsto> im)) p = Some km \<and> mID km = i"
    using assms(3,4) index_invD2 [OF assms(1), of i p] by auto
qed

lemma index_inv_delete:
  assumes "index_inv M I" and "M p = Some im"
  shows "index_inv (M(p := None)) (I(mID im := None))"
proof (rule index_invI)
  fix q km assume "(M(p := None)) q = Some km"
  then show "mPath km = q \<and> textOk km \<and> (I(mID im := None)) (mID km) = Some q"
    using assms index_invD1 [OF assms(1), of q km] index_invD1 [OF assms]
    by (auto split: if_splits)
next
  fix i q assume "(I(mID im := None)) i = Some q"
  then show "\<exists>km. (M(p := None)) q = Some km \<and> mID km = i"
    using assms index_invD2 [OF assms(1), of i q] by (auto split: if_splits)
qed

lemma index_inv_move:
  assumes "index_inv M I" and "M p = Some im" and "textOk jm" and "mID jm = mID im"
    and "q \<noteq> p \<Longrightarrow> M q = None" and "mPath jm = q"
  shows "index_inv (M(p := None, q \<mapsto> jm)) (I(mID jm \<mapsto> q))"
proof (cases "q = p")
  case True
  then have "index_inv (M(mPath jm \<mapsto> jm)) I"
    using assms by (intro index_inv_update) auto
  moreover have "I(mID jm \<mapsto> q) = I"
    using index_invD1 [OF assms(1,2)] assms(4) True by (auto simp: fun_eq_iff)
  ultimately show ?thesis using True assms(6) by simp
next
  case False
  have "index_inv (M(p := None)) (I(mID jm := None))"
    using index_inv_delete [OF assms(1,2)] assms(4) by simp
  then have "index_inv (M(p := None, mPath jm \<mapsto> jm)) (I(mID jm := None, mID jm \<mapsto> mPath jm))"
    by (rule index_inv_insert) (use False assms in auto)
  then show ?thesis using assms(6) by simp
qed

lemma index_ok_insert:
  assumes "index_ok E m" and "bUnmarshal E b = Inr im" and "textOk im"
    and "m (makeKey prefixMeta (mPath im)) = None" and "idAt m (mID im) = None"
  shows "index_ok E (m(makeKey prefixMeta (mPath im) \<mapsto> b, makeKey prefixIndex (idBytes (mID im)) \<mapsto> mPath im))"
  using assms index_ok_meta [OF assms(1), of "mPath im"]
  by (simp add: index_ok_def decodables index_inv_insert)

lemma index_ok_update:
  assumes "index_ok E m" and "bUnmarshal E b = Inr im" and "textOk im"
    and "metaAt E m (mPath im) = Some jm" and "mID jm = mID im"
  shows "index_ok E (m(makeKey prefixMeta (mPath im) \<mapsto> b))"
  using assms by (auto simp: index_ok_def decodables intro: index_inv_update)

lemma index_ok_delete:
  assumes "index_ok E m" and "metaAt E m p = Some im"
  shows "index_ok E (m(makeKey prefixIndex (idBytes (mID im)) := None, makeKey prefixMeta p := None))"
  using assms by (auto simp: index_ok_def decodables intro: index_inv_delete)

lemma index_ok_move:
  assumes "index_ok E m" and "metaAt E m p = Some im" and "bUnmarshal E b = Inr jm"
    and "textOk jm" and "mID jm = mID im" and "q \<noteq> p \<Longrightarrow> metaAt E m q = None" and "mPath jm = q"
  shows "index_ok E (m(makeKey prefixMeta p := None, makeKey prefixMeta q \<mapsto> b,
    makeKey prefixIndex (idBytes (mID jm)) \<mapsto> q))"
  using assms index_inv_move [of "metaAt E m" "idAt m" p im jm q]
  by (simp add: index_ok_def decodables)

lemma index_ok_blob:
  assumes "\<And>k. \<not> prefix prefixBlob k \<Longrightarrow> m' k = m k"
  shows "index_ok E m' = index_ok E m" "metaAt E m' = metaAt E m" "idAt m' = idAt m"
proof -
  have m: "m' (makeKey prefixMeta p) = m (makeKey prefixMeta p)"
    and "m' (makeKey prefixIndex p) = m (makeKey prefixIndex p)" for p
    by (auto intro!: assms simp: makeKey_def prefix_consts)
  then show "metaAt E m' = metaAt E m" "idAt m' = idAt m"
    by (auto simp add: metaAt_def idAt_def fun_eq_iff)
  with m show "index_ok E m' = index_ok E m"
    by (simp add: index_ok_def decodable_def)
qed

section \<open>Steps that keep the contents\<close>

text \<open>
  The store \<open>m'\<close> is consistent, holds the records \<open>M\<close> with the contents they have in \<open>m\<close>, and
  has no chunk that \<open>m\<close> does not have.
\<close>

definition keeps :: "('d, 't, 'z) benv_scheme \<Rightarrow> store \<Rightarrow> store \<Rightarrow> (string \<Rightarrow> imeta option) \<Rightarrow> bool"
  where
  "keeps E m m' M \<longleftrightarrow> db_ok E m' \<and> metaAt E m' = M
     \<and> (\<forall>p im. M p = Some im \<longrightarrow> contentOf m' im = contentOf m im)
     \<and> (\<forall>i n. m' (makeChunkKey i n) = None \<or> m' (makeChunkKey i n) = m (makeChunkKey i n))"

definition sameContent :: "imeta \<Rightarrow> imeta \<Rightarrow> bool" where
  "sameContent im jm \<longleftrightarrow> mIsDir im = mIsDir jm \<and> mInternalID im = mInternalID jm \<and> mSize im = mSize jm"

lemma sameContent_refl [simp]: "sameContent im im"
  by (simp add: sameContent_def)

lemma contentOf_same: "sameContent im jm \<Longrightarrow> contentOf m im = contentOf m jm"
  by (simp add: sameContent_def contentOf_def)

lemma keeps_refl: "db_ok E m \<Longrightarrow> keeps E m m (metaAt E m)"
  by (simp add: keeps_def)

lemma keeps_trans:
  assumes "keeps E m m1 M1" and "keeps E m1 m2 M2"
    and "\<And>p im. M2 p = Some im \<Longrightarrow> \<exists>q jm. M1 q = Some jm \<and> sameContent im jm"
  shows "keeps E m m2 M2"
proof -
  have "contentOf m2 im = contentOf m im" if M2: "M2 p = Some im" for p im
  proof -
    obtain q jm where "M1 q = Some jm" and sc: "sameContent im jm" using assms(3) [OF M2] by blast
    then have "contentOf m1 jm = contentOf m jm" using assms(1) by (simp add: keeps_def)
    moreover have "contentOf m2 im = contentOf m1 im" using assms(2) M2 by (simp add: keeps_def)
    ultimately show ?thesis using contentOf_same [OF sc] by metis
  qed
  moreover have "m2 (makeChunkKey i n) = None \<or> m2 (makeChunkKey i n) = m (makeChunkKey i n)" for i n
    using assms(1,2) unfolding keeps_def by metis
  ultimately show ?thesis using assms(2) unfolding keeps_def by blast
qed

lemma keeps_fsView: "keeps E m m' M \<Longrightarrow>
    fsView E m' p = map_option (\<lambda>im. (Meta_of im, contentOf m im)) (M p)"
  by (cases "M p") (auto simp: keeps_def fsView_def)

lemma content_inv_sub:
  assumes "content_inv S M"
    and "\<And>p im. M' p = Some im \<Longrightarrow> \<not> mIsDir im \<Longrightarrow> \<exists>jm. M (f p) = Some jm \<and> sameContent im jm
        \<and> S' (idBytes (mInternalID im)) = S (idBytes (mInternalID im))"
    and "inj_on f (dom M')"
  shows "content_inv S' M'"
  unfolding content_inv_def
proof (intro conjI allI impI; elim conjE)
  fix p im assume "M' p = Some im" "\<not> mIsDir im"
  then show "mInternalID im \<noteq> nilUUID"
    "\<exists>data. S' (idBytes (mInternalID im)) data \<and> mSize im = int (length data)"
    using assms(1,2) unfolding content_inv_def sameContent_def by metis+
next
  fix p q im jm
  assume *: "M' p = Some im" "M' q = Some jm" "\<not> mIsDir im" "\<not> mIsDir jm"
    "mInternalID im = mInternalID jm"
  then obtain im' jm' where "M (f p) = Some im'" "sameContent im im'" "M (f q) = Some jm'"
    "sameContent jm jm'" using assms(2) by meson
  then have "f p = f q"
    using assms(1) * unfolding content_inv_def sameContent_def by metis
  then show "p = q" using assms(3) * by (auto simp: inj_on_def)
qed

lemma content_other:
  assumes "content_inv S M" and "M p = Some im" and "\<not> mIsDir im" and "M q = Some jm"
    and "\<not> mIsDir jm" and "q \<noteq> p"
  shows "mInternalID jm \<noteq> mInternalID im"
  using assms unfolding content_inv_def by metis

lemma keeps_delete_file:
  assumes "db_ok E m" and "metaAt E m p = Some im" and "\<not> mIsDir im"
  shows "keeps E m ((map_without (prefix (makeKey prefixBlob (idBytes (mInternalID im)))) m)
    (makeKey prefixIndex (idBytes (mID im)) := None, makeKey prefixMeta p := None))
    ((metaAt E m)(p := None))" (is "keeps E m (?w(_ := None, _ := None)) ?M")
proof -
  have io: "index_ok E m" and co: "content_inv (stores m) (metaAt E m)"
    using assms(1) by (auto simp: db_ok_def content_ok_def)
  have "?w k = m k" if "\<not> prefix prefixBlob k" for k
    using that by (auto simp: makeKey_def prefix_def)
  then have "index_ok E ?w = index_ok E m" by (rule index_ok_blob(1))
  then have w: "index_ok E ?w" "metaAt E ?w = metaAt E m" using io by simp_all
  have other: "mInternalID jm \<noteq> mInternalID im" if "?M q = Some jm" "\<not> mIsDir jm" for q jm
    using that content_other [OF co assms(2,3)] by (auto split: if_splits)
  have "content_inv (stores ?w) ?M"
  proof (rule content_inv_sub [OF co, where f = id])
    fix q jm assume "?M q = Some jm" "\<not> mIsDir jm"
    then show "\<exists>km. metaAt E m (id q) = Some km \<and> sameContent jm km
        \<and> stores ?w (idBytes (mInternalID jm)) = stores m (idBytes (mInternalID jm))"
      using other [of q jm] by (auto split: if_splits)
  qed simp
  moreover have "contentOf ?w jm = contentOf m jm" if "?M q = Some jm" for q jm
    using other [OF that] contentOf_without [of jm "mInternalID im" m] by (cases "mIsDir jm") (auto simp: contentOf_def)
  moreover have "index_ok E (?w(makeKey prefixIndex (idBytes (mID im)) := None,
      makeKey prefixMeta p := None))"
    using w assms(2) by (intro index_ok_delete) auto
  ultimately show ?thesis
    by (auto simp: keeps_def db_ok_def content_ok_def)
qed

lemma keeps_delete_dir:
  assumes "db_ok E m" and "metaAt E m p = Some im"
  shows "keeps E m (m(makeKey prefixIndex (idBytes (mID im)) := None, makeKey prefixMeta p := None))
    ((metaAt E m)(p := None))"
proof -
  have "content_inv (stores m) ((metaAt E m)(p := None))"
    by (rule content_inv_sub [where f = id and M = "metaAt E m" and S = "stores m"])
      (use assms(1) in \<open>auto simp: db_ok_def content_ok_def split: if_splits\<close>)
  then show ?thesis
    using assms index_ok_delete [of E m p im] by (auto simp: keeps_def db_ok_def content_ok_def)
qed

lemma keeps_move:
  assumes "db_ok E m" and "metaAt E m p = Some im" and "bUnmarshal E b = Inr jm"
    and "textOk jm" and "mID jm = mID im" and "sameContent jm im"
    and "q \<noteq> p \<Longrightarrow> metaAt E m q = None" and "mPath jm = q"
  shows "keeps E m (m(makeKey prefixMeta p := None, makeKey prefixMeta q \<mapsto> b,
    makeKey prefixIndex (idBytes (mID jm)) \<mapsto> q)) ((metaAt E m)(p := None, q \<mapsto> jm))"
proof -
  let ?M = "(metaAt E m)(p := None, q \<mapsto> jm)" and ?f = "\<lambda>r. if r = q then p else r"
  have "content_inv (stores m) ?M"
  proof (rule content_inv_sub [where f = ?f and M = "metaAt E m" and S = "stores m"])
    show "inj_on ?f (dom ?M)" using assms(7) by (auto simp: inj_on_def)
  qed (use assms(1,2,6) in \<open>auto simp: db_ok_def content_ok_def split: if_splits\<close>)
  then show ?thesis
    using assms index_ok_move [of E m p im b jm q] by (auto simp: keeps_def db_ok_def content_ok_def)
qed

end
