(* ===== verification/Badger_Env.thy ===== *)
theory Badger_Env
  imports Badger_Inv
begin

text \<open>
  The contract the Badger driver relies on, the locale \<open>badger_env\<close>: the key-value store's laws
  and a metadata codec that gives back what it was given. Within it, what each helper of the
  driver's transactions does to the store a transaction shows. The contract is interpreted on
  the in-memory store with a concrete codec.
\<close>

section \<open>The contract\<close>

locale badger_env = kv_store E dview tview twr
  for E :: "('d, 't, 'z) benv_scheme" and dview :: "'d \<Rightarrow> store" and tview :: "'t \<Rightarrow> store"
    and twr :: "'t \<Rightarrow> wlog" +
  assumes codec: "textOk im \<Longrightarrow> bMarshal E im = Inr b \<Longrightarrow> bUnmarshal E b = Inr im"
    and lower_text: "utf8 s \<Longrightarrow> utf8 (bLower E s)"
begin

lemma shows_setMeta:
  assumes "shows d t m" and "textOk im" and "setMeta E t k im = Inr t'"
  obtains b where "bUnmarshal E b = Inr im" "shows d t' (m(k \<mapsto> b))"
  using assms by (auto simp: setMeta_def dest: codec shows_set)

lemma metaAt_get:
  "shows d t m \<Longrightarrow> kvGet E t (makeKey prefixMeta p) = Inr v \<Longrightarrow> bUnmarshal E v = Inr im \<Longrightarrow>
   metaAt E m p = Some im"
  by (auto simp: metaAt_def dest: shows_get)

lemma found_by_id:
  assumes "shows d t m" and "index_ok E m" and "findMetaItemByID E t i = Inr item"
    and "getMeta E (Inr item) = Inr im"
  shows "metaAt E m (mPath im) = Some im" "mID im = i" "idAt m i = Some (mPath im)" "textOk im"
proof -
  obtain p where p: "kvGet E t (makeKey prefixIndex (idBytes i)) = Inr p"
      "kvGet E t (makeKey prefixMeta p) = Inr item"
    using assms(3) by (auto simp: findMetaItemByID_def split: sum.splits if_splits)
  then have i: "idAt m i = Some p" using assms(1) by (auto simp: idAt_def dest: shows_get)
  have M: "metaAt E m p = Some im"
    using metaAt_get [OF assms(1) p(2)] assms(4) by (simp add: getMeta_def)
  with i index_okE [OF assms(2) i] index_okD [OF assms(2) M]
  show "metaAt E m (mPath im) = Some im" "mID im = i" "idAt m i = Some (mPath im)" "textOk im"
    by auto
qed

lemma found_candidate:
  assumes "shows d t m" and "findCandidate E t cs = Inr im"
  shows "\<exists>p \<in> set cs. metaAt E m p = Some im"
  using assms(2)
  by (induction cs)
    (auto simp: getMeta_def split: sum.splits if_splits dest: metaAt_get [OF assms(1)])

lemma found_by_path:
  assumes "shows d t m" and "index_ok E m" and "findByPath E t p = Inr im"
  shows "metaAt E m (mPath im) = Some im" "mPath im = p \<or> mPath im = p @ ''/''" "p \<noteq> Root"
proof -
  obtain q where "q = p \<or> q = p @ ''/''" "metaAt E m q = Some im"
    using found_candidate [OF assms(1), of "[p, p @ ''/'']" im] assms(3)
    by (auto simp: findByPath_def simp del: findCandidate.simps split: if_splits)
  with index_okD [OF assms(2), of q im] show "metaAt E m (mPath im) = Some im"
    "mPath im = p \<or> mPath im = p @ ''/''" by auto
  show "p \<noteq> Root" using assms(3) by (auto simp: findByPath_def)
qed

lemma missing_meta:
  assumes "shows d t m" and "kvGet E t (makeKey prefixMeta p) = Inl e" and "errorsIs e ErrKeyNotFound"
  shows "m (makeKey prefixMeta p) = None"
  using assms by (rule shows_missing)

text \<open>A scan that decodes everything lists exactly the records below a prefix, each once.\<close>

lemma readAll_keys:
  assumes "shows d t m" and "index_ok E m" and "readAll E its = Inr ims"
    and "set its \<subseteq> set (kvScan E t (makeKey prefixMeta p))" and "distinct (map fst its)"
  shows "map fst its = map (\<lambda>im. makeKey prefixMeta (mPath im)) ims"
    "\<And>im. im \<in> set ims \<Longrightarrow> metaAt E m (mPath im) = Some im \<and> prefix p (mPath im)"
    "distinct (map mPath ims)"
proof -
  have one: "k = makeKey prefixMeta (mPath im) \<and> metaAt E m (mPath im) = Some im \<and> prefix p (mPath im)"
    if kv: "(k, v) \<in> set its" and g: "getMeta E v = Inr im" for k v im
  proof -
    obtain b where b: "v = Inr b" "bUnmarshal E b = Inr im"
      using g by (auto simp: getMeta_def bindE_def split: sum.splits)
    then have k: "m k = Some b" "prefix (makeKey prefixMeta p) k"
      using shows_scan [OF assms(1), of k b] kv assms(4) by auto
    then obtain q where q: "k = makeKey prefixMeta q" "prefix p q"
      by (auto simp: makeKey_def prefix_def)
    then have "metaAt E m q = Some im" using k b by (simp add: metaAt_def)
    with q index_okD [OF assms(2), of q im] show ?thesis by auto
  qed
  have l: "list_all2 (\<lambda>kv im. getMeta E (snd kv) = Inr im) its ims"
    using assms(3) by (auto simp: readAll_def mapE_Inr_iff case_prod_unfold)
  then have "list_all2 (\<lambda>kv im. fst kv = makeKey prefixMeta (mPath im)
      \<and> metaAt E m (mPath im) = Some im \<and> prefix p (mPath im)) its ims"
    by (rule list.rel_mono_strong) (use one in auto)
  then show k: "map fst its = map (\<lambda>im. makeKey prefixMeta (mPath im)) ims"
    and "\<And>im. im \<in> set ims \<Longrightarrow> metaAt E m (mPath im) = Some im \<and> prefix p (mPath im)"
    by (auto simp: list_all2_conv_all_nth in_set_conv_nth list_eq_iff_nth_eq)
  then have "map fst its = map (makeKey prefixMeta) (map mPath ims)" by simp
  with assms(5) show "distinct (map mPath ims)" by (metis distinct_map)
qed

lemma scan_distinct: "distinct (map fst (kvScan E t p))"
  using scan_sorted [of t p] by (rule strict_sorted_iff [THEN iffD1, THEN conjunct2])

text \<open>The part of a scan whose keys satisfy a condition, and the whole scan.\<close>

lemma readAll_filter:
  assumes "shows d t m" and "index_ok E m"
    and "readAll E (filter (\<lambda>kv. P (fst kv)) (kvScan E t (makeKey prefixMeta p))) = Inr ims"
  shows "set ims = {im. \<exists>q. prefix p q \<and> metaAt E m q = Some im \<and> P (makeKey prefixMeta q)}"
    "distinct (map mPath ims)"
proof -
  let ?its = "filter (\<lambda>kv. P (fst kv)) (kvScan E t (makeKey prefixMeta p))"
  have "distinct (map fst ?its)" using scan_distinct [of t "makeKey prefixMeta p"]
    by (simp add: distinct_map inj_on_def)
  note r = readAll_keys [OF assms(1-3) filter_is_subset this]
  show "distinct (map mPath ims)" by (rule r)
  show "set ims = {im. \<exists>q. prefix p q \<and> metaAt E m q = Some im \<and> P (makeKey prefixMeta q)}"
  proof (intro set_eqI iffI)
    fix im assume im: "im \<in> set ims"
    then have "makeKey prefixMeta (mPath im) \<in> set (map fst ?its)" unfolding r(1) by simp
    then have "P (makeKey prefixMeta (mPath im))" by auto
    then show "im \<in> {im. \<exists>q. prefix p q \<and> metaAt E m q = Some im \<and> P (makeKey prefixMeta q)}"
      using r(2) [OF im] by blast
  next
    fix im assume "im \<in> {im. \<exists>q. prefix p q \<and> metaAt E m q = Some im \<and> P (makeKey prefixMeta q)}"
    then obtain q where q: "prefix p q" "metaAt E m q = Some im" "P (makeKey prefixMeta q)" by blast
    then obtain b where "m (makeKey prefixMeta q) = Some b"
      by (auto simp: metaAt_def split: option.splits)
    then obtain x where "(makeKey prefixMeta q, x) \<in> set (kvScan E t (makeKey prefixMeta p))"
      using shows_scan_complete [OF assms(1)] q(1) by fastforce
    then have "(makeKey prefixMeta q, x) \<in> set ?its" using q(3) by simp
    then have "makeKey prefixMeta q \<in> set (map fst ?its)" by (force simp del: set_filter)
    then obtain jm where "jm \<in> set ims" "mPath jm = q" unfolding r(1) by auto
    with r(2) [of jm] q(2) show "im \<in> set ims" by auto
  qed
qed

lemma readAll_scan:
  assumes "shows d t m" and "index_ok E m"
    and "readAll E (kvScan E t (makeKey prefixMeta p)) = Inr ims"
  shows "set ims = {im. \<exists>q. prefix p q \<and> metaAt E m q = Some im}" "distinct (map mPath ims)"
proof -
  have "readAll E (filter (\<lambda>kv. True) (kvScan E t (makeKey prefixMeta p))) = Inr ims"
    using assms(3) by simp
  note r = readAll_filter [OF assms(1,2) this]
  show "set ims = {im. \<exists>q. prefix p q \<and> metaAt E m q = Some im}" "distinct (map mPath ims)"
    using r by simp_all
qed

section \<open>Deleting\<close>

lemma deleteItem_keeps:
  assumes "shows d t m" and "db_ok E m" and "metaAt E m (mPath im) = Some im" and "\<not> mIsDir im"
    and "deleteItem E im t = Inr t'"
  shows "\<exists>m'. shows d t' m' \<and> keeps E m m' ((metaAt E m)(mPath im := None))"
proof -
  obtain t1 t2 where "deleteChunks E t (idBytes (mInternalID im)) = Inr t1"
    "kvDelete E t1 (makeKey prefixIndex (idBytes (mID im))) = Inr t2"
    "kvDelete E t2 (makeKey prefixMeta (mPath im)) = Inr t'"
    using assms(5) by (auto simp: deleteItem_def deleteIndex_def)
  then have "shows d t' ((map_without (prefix (makeKey prefixBlob (idBytes (mInternalID im)))) m)
      (makeKey prefixIndex (idBytes (mID im)) := None, makeKey prefixMeta (mPath im) := None))"
    using assms(1) by (meson shows_deleteChunks shows_delete)
  then show ?thesis using keeps_delete_file [OF assms(2-4)] by blast
qed

lemma deleteDir_keeps:
  assumes "shows d t m" and "db_ok E m" and "metaAt E m (mPath im) = Some im"
    and "bindE (deleteIndex E t im) (\<lambda>t. kvDelete E t (makeKey prefixMeta (mPath im))) = Inr t'"
  shows "\<exists>m'. shows d t' m' \<and> keeps E m m' ((metaAt E m)(mPath im := None))"
proof -
  obtain t1 where "kvDelete E t (makeKey prefixIndex (idBytes (mID im))) = Inr t1"
    "kvDelete E t1 (makeKey prefixMeta (mPath im)) = Inr t'"
    using assms(4) by (auto simp: deleteIndex_def)
  then have "shows d t' (m(makeKey prefixIndex (idBytes (mID im)) := None,
      makeKey prefixMeta (mPath im) := None))"
    using assms(1) by (meson shows_delete)
  then show ?thesis using keeps_delete_dir [OF assms(2,3)] by blast
qed

lemma deleteItems_keeps:
  assumes "shows d t m" and "db_ok E m" and "\<And>im. im \<in> set ims \<Longrightarrow> metaAt E m (mPath im) = Some im"
    and "distinct (map mPath ims)" and "deleteItems E ims t = Inr t'"
  shows "\<exists>m'. shows d t' m' \<and> keeps E m m' (map_without (\<lambda>p. p \<in> mPath ` set ims) (metaAt E m))"
  using assms
proof (induction ims arbitrary: t m)
  case Nil
  then show ?case using keeps_refl [of E m] by (auto simp: deleteItems_def)
next
  case (Cons im ims)
  obtain t1 where t1: "(if \<not> mIsDir im then deleteItem E im t
      else bindE (deleteIndex E t im) (\<lambda>t. kvDelete E t (makeKey prefixMeta (mPath im)))) = Inr t1"
    and rest: "deleteItems E ims t1 = Inr t'"
    using Cons.prems(5) by (auto simp: deleteItems_def)
  have im: "metaAt E m (mPath im) = Some im" using Cons.prems(3) by simp
  obtain m1 where m1: "shows d t1 m1" "keeps E m m1 ((metaAt E m)(mPath im := None))"
  proof (cases "mIsDir im")
    case True
    with t1 deleteDir_keeps [OF Cons.prems(1,2) im] that show thesis by auto
  next
    case False
    with t1 deleteItem_keeps [OF Cons.prems(1,2) im] that show thesis by auto
  qed
  then have ok1: "db_ok E m1" "metaAt E m1 = (metaAt E m)(mPath im := None)"
    by (auto simp: keeps_def)
  obtain m2 where m2: "shows d t' m2"
      "keeps E m1 m2 (map_without (\<lambda>p. p \<in> mPath ` set ims) (metaAt E m1))"
  proof -
    have "metaAt E m1 (mPath jm) = Some jm" if "jm \<in> set ims" for jm
      using that Cons.prems(3,4) ok1(2) by (auto simp: image_iff)
    moreover have "distinct (map mPath ims)" using Cons.prems(4) by simp
    ultimately show thesis using Cons.IH [OF m1(1) ok1(1) _ _ rest] that by blast
  qed
  have "keeps E m m2 (map_without (\<lambda>p. p \<in> mPath ` set ims) (metaAt E m1))"
    by (rule keeps_trans [OF m1(2) m2(2)]) (auto simp: ok1(2) split: if_splits intro: sameContent_refl)
  moreover have "map_without (\<lambda>p. p \<in> mPath ` set ims) (metaAt E m1) =
      map_without (\<lambda>p. p \<in> mPath ` set (im # ims)) (metaAt E m)"
    unfolding ok1(2) by (auto simp: fun_eq_iff)
  ultimately show ?case using m2(1) by metis
qed

end

end
