(* ===== verification/Badger_Ops.thy ===== *)
theory Badger_Ops
  imports Badger_Env
begin

text \<open>
  What the operations of \<open>BadgerVFS\<close> do to the abstract file system, whether they succeed or
  fail at any call of the store: creating, overwriting, commenting, deleting and reading.
\<close>

section \<open>Fresh identifiers and frames\<close>

definition freshIID :: "('d, 't, 'z) benv_scheme \<Rightarrow> store \<Rightarrow> uuid \<Rightarrow> bool" where
  "freshIID E m i \<longleftrightarrow> i \<noteq> nilUUID \<and> (\<forall>n. m (makeChunkKey (idBytes i) n) = None)
     \<and> (\<forall>p im. metaAt E m p = Some im \<longrightarrow> mInternalID im \<noteq> i)"

definition sameExcept :: "uuid \<Rightarrow> store \<Rightarrow> store \<Rightarrow> bool" where
  "sameExcept i m m' \<longleftrightarrow> (\<forall>k. \<not> prefix (makeKey prefixBlob (idBytes i)) k \<longrightarrow> m' k = m k)"

lemma sameExcept_refl [simp]: "sameExcept i m m"
  by (simp add: sameExcept_def)

lemma sameExcept_trans: "sameExcept i m m1 \<Longrightarrow> sameExcept i m1 m2 \<Longrightarrow> sameExcept i m m2"
  by (simp add: sameExcept_def)

lemma sameExcept_without: "sameExcept i m (map_without (prefix (makeKey prefixBlob (idBytes i))) m)"
  by (simp add: sameExcept_def)

lemma sameExcept_index:
  assumes "sameExcept i m m'"
  shows "index_ok E m' = index_ok E m" "metaAt E m' = metaAt E m" "idAt m' = idAt m"
proof -
  have k: "m' k = m k" if "\<not> prefix prefixBlob k" for k
    using assms that by (auto simp: sameExcept_def makeKey_def prefix_def)
  show "index_ok E m' = index_ok E m" "metaAt E m' = metaAt E m" "idAt m' = idAt m"
    using index_ok_blob [of m' m] k by auto
qed

lemma sameExcept_other:
  assumes "sameExcept i m m'" and "j \<noteq> i"
  shows "m' (makeChunkKey (idBytes j) n) = m (makeChunkKey (idBytes j) n)"
    "stores m' (idBytes j) = stores m (idBytes j)"
proof -
  have c: "m' (makeChunkKey (idBytes j) n) = m (makeChunkKey (idBytes j) n)" for n
    using assms by (simp add: sameExcept_def)
  then show "m' (makeChunkKey (idBytes j) n) = m (makeChunkKey (idBytes j) n)" by simp
  from c show "stores m' (idBytes j) = stores m (idBytes j)"
    by (intro ext stores_cong) simp
qed

lemma content_inv_cong:
  assumes "\<And>p im. M p = Some im \<Longrightarrow> \<not> mIsDir im \<Longrightarrow>
    S' (idBytes (mInternalID im)) = S (idBytes (mInternalID im))"
  shows "content_inv S' M = content_inv S M"
proof
  show "content_inv S' M \<Longrightarrow> content_inv S M"
    by (erule content_inv_sub [where f = id]) (auto simp: assms)
  show "content_inv S M \<Longrightarrow> content_inv S' M"
    by (erule content_inv_sub [where f = id]) (auto simp: assms)
qed

text \<open>Changing chunks that no file owns changes nothing of the abstract file system.\<close>

lemma sameExcept_files:
  assumes "sameExcept i m m'"
    and "\<And>p im. metaAt E m p = Some im \<Longrightarrow> \<not> mIsDir im \<Longrightarrow> mInternalID im \<noteq> i"
  shows "db_ok E m' = db_ok E m \<and> fsView E m' = fsView E m"
proof
  note sx = sameExcept_index(1,2) [OF assms(1), where E = E] sameExcept_index(3) [OF assms(1)]
  have "content_inv (stores m') (metaAt E m) = content_inv (stores m) (metaAt E m)"
    by (rule content_inv_cong) (metis assms(2) sameExcept_other(2) [OF assms(1)])
  then show "db_ok E m' = db_ok E m" by (simp add: db_ok_def content_ok_def sx)
  have "contentOf m' im = contentOf m im" if "metaAt E m p = Some im" for p im
    using assms(2) [OF that] sameExcept_other(1) [OF assms(1)]
    by (simp add: contentOf_def blobContent_def)
  then show "fsView E m' = fsView E m"
    by (auto simp: fsView_def sx fun_eq_iff intro!: option.map_cong)
qed

lemma freshIID_other: "freshIID E m i \<Longrightarrow> metaAt E m p = Some im \<Longrightarrow> mInternalID im \<noteq> i"
  by (simp add: freshIID_def)

lemma freshIID_sameExcept:
  "freshIID E m i \<Longrightarrow> sameExcept i m m' \<Longrightarrow> db_ok E m' = db_ok E m \<and> fsView E m' = fsView E m"
  using sameExcept_files [of i m m' E] by (auto simp: freshIID_def)

section \<open>Storing and replacing records\<close>

lemma content_insert:
  assumes "content_inv S M" and "\<not> mIsDir im \<Longrightarrow> mInternalID im \<noteq> nilUUID
      \<and> S (idBytes (mInternalID im)) data \<and> mSize im = int (length data)
      \<and> (\<forall>q jm. M q = Some jm \<longrightarrow> q \<noteq> p \<longrightarrow> \<not> mIsDir jm \<longrightarrow> mInternalID jm \<noteq> mInternalID im)"
  shows "content_inv S (M(p \<mapsto> im))"
  unfolding content_inv_def
proof (intro conjI allI impI; elim conjE)
  fix q jm assume q: "(M(p \<mapsto> im)) q = Some jm" "\<not> mIsDir jm"
  then show "mInternalID jm \<noteq> nilUUID"
    using assms unfolding content_inv_def by (cases "q = p") auto
  show "\<exists>data. S (idBytes (mInternalID jm)) data \<and> mSize jm = int (length data)"
    using q assms unfolding content_inv_def by (cases "q = p") auto
next
  fix q r jm km
  assume *: "(M(p \<mapsto> im)) q = Some jm" "(M(p \<mapsto> im)) r = Some km" "\<not> mIsDir jm" "\<not> mIsDir km"
    "mInternalID jm = mInternalID km"
  have "\<And>q r jm km. M q = Some jm \<Longrightarrow> M r = Some km \<Longrightarrow> \<not> mIsDir jm \<Longrightarrow> \<not> mIsDir km \<Longrightarrow>
      mInternalID jm = mInternalID km \<Longrightarrow> q = r"
    using assms(1) unfolding content_inv_def by blast
  with * assms(2) show "q = r"
    by (cases "q = p"; cases "r = p") auto
qed

lemma contentOf_stores:
  "stores m (idBytes (mInternalID im)) data \<Longrightarrow> mSize im = int (length data) \<Longrightarrow> \<not> mIsDir im \<Longrightarrow>
   contentOf m im = data"
  by (simp add: contentOf_def blobContent_stores)

lemma db_insert:
  assumes "db_ok E m" and "bUnmarshal E b = Inr im" and "textOk im"
    and "m (makeKey prefixMeta (mPath im)) = None" and "idAt m (mID im) = None"
    and "\<not> mIsDir im \<Longrightarrow> mInternalID im \<noteq> nilUUID
      \<and> stores m (idBytes (mInternalID im)) data \<and> mSize im = int (length data)
      \<and> (\<forall>q jm. metaAt E m q = Some jm \<longrightarrow> mInternalID jm \<noteq> mInternalID im)"
    and "mIsDir im \<Longrightarrow> data = []"
  shows "db_ok E (m(makeKey prefixMeta (mPath im) \<mapsto> b, makeKey prefixIndex (idBytes (mID im)) \<mapsto> mPath im))"
    and "fsView E (m(makeKey prefixMeta (mPath im) \<mapsto> b, makeKey prefixIndex (idBytes (mID im)) \<mapsto> mPath im)) =
      (fsView E m)(mPath im \<mapsto> (Meta_of im, data))"
proof -
  have "content_inv (stores m) ((metaAt E m)(mPath im \<mapsto> im))"
    by (rule content_insert [where data = data]) (use assms in \<open>auto simp: db_ok_def content_ok_def\<close>)
  then show "db_ok E (m(makeKey prefixMeta (mPath im) \<mapsto> b, makeKey prefixIndex (idBytes (mID im)) \<mapsto> mPath im))"
    using assms index_ok_insert [of E m b im] by (simp add: db_ok_def content_ok_def)
  have "contentOf m im = data"
    using assms(6,7) contentOf_stores by (cases "mIsDir im") (auto simp: contentOf_def)
  then show "fsView E (m(makeKey prefixMeta (mPath im) \<mapsto> b, makeKey prefixIndex (idBytes (mID im)) \<mapsto> mPath im)) =
      (fsView E m)(mPath im \<mapsto> (Meta_of im, data))"
    using assms(2) by (auto simp: fsView_def fun_eq_iff)
qed

lemma db_update:
  assumes "db_ok E m" and "bUnmarshal E b = Inr im" and "textOk im"
    and "metaAt E m (mPath im) = Some jm" and "mID jm = mID im"
    and "\<not> mIsDir im \<Longrightarrow> mInternalID im \<noteq> nilUUID
      \<and> stores m (idBytes (mInternalID im)) data \<and> mSize im = int (length data)
      \<and> (\<forall>q km. metaAt E m q = Some km \<longrightarrow> q \<noteq> mPath im \<longrightarrow> \<not> mIsDir km \<longrightarrow>
            mInternalID km \<noteq> mInternalID im)"
    and "mIsDir im \<Longrightarrow> data = []"
  shows "db_ok E (m(makeKey prefixMeta (mPath im) \<mapsto> b))"
    and "fsView E (m(makeKey prefixMeta (mPath im) \<mapsto> b)) = (fsView E m)(mPath im \<mapsto> (Meta_of im, data))"
proof -
  have "content_inv (stores m) ((metaAt E m)(mPath im \<mapsto> im))"
    by (rule content_insert [where data = data]) (use assms in \<open>auto simp: db_ok_def content_ok_def\<close>)
  then show "db_ok E (m(makeKey prefixMeta (mPath im) \<mapsto> b))"
    using assms index_ok_update [of E m b im jm] by (simp add: db_ok_def content_ok_def)
  have "contentOf m im = data"
    using assms(6,7) contentOf_stores by (cases "mIsDir im") (auto simp: contentOf_def)
  then show "fsView E (m(makeKey prefixMeta (mPath im) \<mapsto> b)) = (fsView E m)(mPath im \<mapsto> (Meta_of im, data))"
    using assms(2) by (auto simp: fsView_def fun_eq_iff)
qed

section \<open>Overwritten files and subtrees\<close>

definition subtree :: "string \<Rightarrow> bool \<Rightarrow> string \<Rightarrow> bool" where
  "subtree p isdir q = (if isdir then prefix (withSlash p) q else q = p)"


text \<open>
  \<open>Write\<close> is atomic: whatever it returns, the abstract file system is as before or the file with
  the identifier has the new contents; the latter whenever it reports success.
\<close>

definition overwritten :: "('d, 't, 'z) benv_scheme \<Rightarrow> store \<Rightarrow> store \<Rightarrow> uuid \<Rightarrow> bytes \<Rightarrow> vmeta \<Rightarrow> bool"
  where
  "overwritten E m m' i data mt \<longleftrightarrow>
     (\<exists>im. metaAt E m (mPath mt) = Some im \<and> mID im = i \<and> \<not> mIsDir im
        \<and> (\<exists>now. mt = (Meta_of im)\<lparr>mSize := int (length data), mModified := now\<rparr>))
     \<and> fsView E m' = (fsView E m)(mPath mt \<mapsto> (mt, data))"

lemma Meta_of_simps [simp]:
  "mID (Meta_of im) = mID im" "mPath (Meta_of im) = mPath im" "mName (Meta_of im) = mName im"
  "mExtension (Meta_of im) = mExtension im" "mSize (Meta_of im) = mSize im"
  "mIsDir (Meta_of im) = mIsDir im" "mModified (Meta_of im) = mModified im"
  "mComments (Meta_of im) = mComments im"
  by (simp_all add: Meta_of_def vmeta.truncate_def)

lemma Meta_of_written: "Meta_of (im\<lparr>mSize := sz, mModified := now, mInternalID := iid\<rparr>) =
    (Meta_of im)\<lparr>mSize := sz, mModified := now\<rparr>"
  by (simp add: Meta_of_def vmeta.truncate_def)

section \<open>Text\<close>

lemma textOk_rootedPath: "utf8 p \<Longrightarrow> utf8 (rootedPath (trimSpace p))"
  by (simp add: rootedPath_def utf8_trimSpace)

lemma utf8_withSlash: "utf8 p \<Longrightarrow> utf8 (withSlash p)"
  by (simp add: withSlash_def utf8_snoc_slash)

lemma textOk_newDir: "utf8 p \<Longrightarrow> textOk (newDirMeta p i now)"
  by (simp add: textOk_def newDirMeta_def utf8_basePath utf8_trimSuffix_slash)

lemma textOk_renamed: "textOk im \<Longrightarrow> utf8 p \<Longrightarrow> textOk (renamed im p now)"
proof -
  assume im: "textOk im" and p: "utf8 p"
  let ?n = "basePath (trimSuffix p ''/'')"
  have n: "utf8 ?n" using p by (intro utf8_basePath utf8_trimSuffix_slash)
  then have "utf8 (trimPrefix (extPath ?n) ''.'')" by (intro utf8_trimPrefix_dot utf8_extPath)
  moreover have "mPath (renamed im p now) = p" "mName (renamed im p now) = ?n"
    "mExtension (renamed im p now) = trimPrefix (extPath ?n) ''.''"
    "mComments (renamed im p now) = mComments im"
    by (simp_all add: renamed_def Let_def)
  ultimately show ?thesis using im p n by (simp only: textOk_def)
qed

context badger_env
begin

lemma textOk_newFile: "utf8 p \<Longrightarrow> textOk (newFileMeta (bLower E) p i iid sz now)"
  by (simp add: textOk_def newFileMeta_def utf8_basePath extractExtension_def Let_def
      utf8_toLower lower_text utf8_trimPrefix_dot utf8_extPath)

lemma shows_storeEntry:
  assumes "shows d t m" and "textOk im" and "storeEntry E t im = Inr t'"
  obtains b where "bUnmarshal E b = Inr im"
    "shows d t' (m(makeKey prefixMeta (mPath im) \<mapsto> b, makeKey prefixIndex (idBytes (mID im)) \<mapsto> mPath im))"
proof -
  obtain t1 where t1: "setMeta E t (makeKey prefixMeta (mPath im)) im = Inr t1"
    "kvSet E t1 (makeKey prefixIndex (idBytes (mID im))) (mPath im) = Inr t'"
    using assms(3) by (auto simp: storeEntry_def)
  obtain b where "bUnmarshal E b = Inr im" "shows d t1 (m(makeKey prefixMeta (mPath im) \<mapsto> b))"
    using shows_setMeta [OF assms(1,2) t1(1)] .
  with shows_set [OF _ t1(2)] that show thesis by blast
qed

lemma writeChunks_same: "writeChunks E (idBytes i) r d = (x, d') \<Longrightarrow> sameExcept i (dview d) (dview d')"
  unfolding sameExcept_def using writeChunks_frame by blast

lemma deleteChunksDB_same:
  "deleteChunksDB E d (idBytes i) = (x, d') \<Longrightarrow> sameExcept i (dview d) (dview d')"
  using deleteChunksDB_frame [of d "idBytes i" x d'] sameExcept_without by (auto split: if_splits)

lemma deleteChunksDB_same_snd:
  "sameExcept i m (dview d) \<Longrightarrow> sameExcept i m (dview (snd (deleteChunksDB E d (idBytes i))))"
  by (cases "deleteChunksDB E d (idBytes i)") (auto dest: deleteChunksDB_same intro: sameExcept_trans)

lemma requireParent_ok:
  assumes "shows d t m" and "index_ok E m" and "requireParent E t p = Inr u"
  shows "getParentPath p = Root \<or> (\<exists>q im. metaAt E m q = Some im \<and> mIsDir im
     \<and> (q = getParentPath p \<or> q = getParentPath p @ ''/''))"
proof (cases "getParentPath p = Root")
  case False
  then obtain im where im: "findByPath E t (getParentPath p) = Inr im" "mIsDir im"
    using assms(3) by (auto simp: requireParent_def Let_def split: if_splits)
  note f = found_by_path [OF assms(1,2) im(1)]
  then show ?thesis using im(2) by (intro disjI2 exI [of _ "mPath im"] exI [of _ im]) auto
qed simp

section \<open>Create\<close>

lemma createTx_ok:
  assumes "shows d t m" and "db_ok E m" and "textOk im" and "idAt m (mID im) = None"
    and "\<not> mIsDir im" and "mInternalID im \<noteq> nilUUID"
    and "stores m (idBytes (mInternalID im)) data" and "mSize im = int (length data)"
    and "\<And>q jm. metaAt E m q = Some jm \<Longrightarrow> mInternalID jm \<noteq> mInternalID im"
    and "createTx E im t = Inr (mt, t')"
  shows "\<exists>m'. shows d t' m' \<and> mt = Meta_of im \<and> fsView E m (mPath im) = None \<and> db_ok E m'
    \<and> fsView E m' = (fsView E m)(mPath im \<mapsto> (mt, data))"
proof -
  obtain e where e: "kvGet E t (makeKey prefixMeta (mPath im)) = Inl e" "errorsIs e ErrKeyNotFound"
    and st: "storeEntry E t im = Inr t'" and mt: "mt = Meta_of im"
    using assms(10) by (auto simp: createTx_def split: sum.splits if_splits)
  have none: "m (makeKey prefixMeta (mPath im)) = None" using missing_meta [OF assms(1) e] .
  then have "fsView E m (mPath im) = None" by (simp add: fsView_def metaAt_def)
  moreover obtain b where "bUnmarshal E b = Inr im"
    "shows d t' (m(makeKey prefixMeta (mPath im) \<mapsto> b, makeKey prefixIndex (idBytes (mID im)) \<mapsto> mPath im))"
    using shows_storeEntry [OF assms(1,3) st] by blast
  ultimately show ?thesis
    using db_insert [OF assms(2) _ assms(3) none assms(4)] assms mt by blast
qed

lemma create_success:
  assumes "badger_Create E rng clock s path r = (Inr mt, s')"
    and "db_ok E (dview (b_db s))" and "utf8 path" and "idAt (dview (b_db s)) (rng 0) = None"
    and "freshIID E (dview (b_db s)) (rng 1)" and "length (rData r) \<le> maxContent"
  shows "db_ok E (dview (b_db s'))"
    and "fsView E (dview (b_db s')) = (fsView E (dview (b_db s)))(mPath mt \<mapsto> (mt, rData r))"
    and "fsView E (dview (b_db s)) (mPath mt) = None"
    and "mt = Meta_of (newFileMeta (bLower E) (rootedPath (trimSpace path)) (rng 0) (rng 1)
           (int (length (rData r))) (clock 0))"
proof -
  let ?p = "rootedPath (trimSpace path)" and ?d = "b_db s"
  obtain sz d1 where w: "writeChunks E (idBytes (rng 1)) r ?d = (Inr sz, d1)"
    and tx: "dbUpdate E (createTx E (newFileMeta (bLower E) ?p (rng 0) (rng 1) sz (clock 0))) d1 = (Inr mt, b_db s')"
    using assms(1)
    by (auto simp: badger_Create_def guarded_def Let_def split: option.splits if_splits prod.splits sum.splits)
  let ?im = "newFileMeta (bLower E) ?p (rng 0) (rng 1) (int (length (rData r))) (clock 0)"
  have same: "sameExcept (rng 1) (dview ?d) (dview d1)" using writeChunks_same [OF w] .
  have c: "sz = int (length (rData r))" "stores (dview d1) (idBytes (rng 1)) (rData r)"
    using writeChunks_ok [OF w assms(6)] assms(5) by (auto simp: freshIID_def)
  have ok1: "db_ok E (dview d1)" "fsView E (dview d1) = fsView E (dview ?d)"
    using freshIID_sameExcept [OF assms(5) same] assms(2) by auto
  note sx = sameExcept_index(1,2) [OF same, where E = E] sameExcept_index(3) [OF same]
  have "mt = Meta_of ?im \<and> fsView E (dview d1) (mPath ?im) = None \<and> db_ok E (dview (b_db s'))
    \<and> fsView E (dview (b_db s')) = (fsView E (dview d1))(mPath ?im \<mapsto> (mt, rData r))"
  proof (rule update_rule [OF tx])
    fix t a t' assume t: "shows d1 t (dview d1)"
      "createTx E (newFileMeta (bLower E) ?p (rng 0) (rng 1) sz (clock 0)) t = Inr (a, t')"
    show "\<exists>m. shows d1 t' m \<and> a = Meta_of ?im \<and> fsView E (dview d1) (mPath ?im) = None \<and> db_ok E m
      \<and> fsView E m = (fsView E (dview d1))(mPath ?im \<mapsto> (a, rData r))"
    proof (rule createTx_ok [OF t(1) ok1(1)])
      show "textOk ?im" by (rule textOk_newFile) (rule textOk_rootedPath [OF assms(3)])
      show "stores (dview d1) (idBytes (mInternalID ?im)) (rData r)" using c by (simp add: newFileMeta_def)
      show "mInternalID jm \<noteq> mInternalID ?im" if "metaAt E (dview d1) q = Some jm" for q jm
        using that freshIID_other [OF assms(5)] sx(2) by (simp add: newFileMeta_def)
    qed (use t(2) c assms(4,5) sx in \<open>auto simp: newFileMeta_def freshIID_def\<close>)
  qed
  then show "db_ok E (dview (b_db s'))"
    "fsView E (dview (b_db s')) = (fsView E (dview (b_db s)))(mPath mt \<mapsto> (mt, rData r))"
    "fsView E (dview (b_db s)) (mPath mt) = None" "mt = Meta_of ?im"
    using ok1(2) by (auto simp: newFileMeta_def Meta_of_def vmeta.truncate_def)
qed

lemma create_failure:
  assumes "badger_Create E rng clock s path r = (Inl e, s')"
    and "db_ok E (dview (b_db s))" and "freshIID E (dview (b_db s)) (rng 1)"
  shows "db_ok E (dview (b_db s')) \<and> fsView E (dview (b_db s')) = fsView E (dview (b_db s))"
proof -
  have "sameExcept (rng 1) (dview (b_db s)) (dview (b_db s'))"
    using assms(1)
    by (auto simp: badger_Create_def guarded_def Let_def split: option.splits if_splits prod.splits sum.splits
        dest!: writeChunks_same deleteChunksDB_same dbUpdate_Inl
        intro: sameExcept_trans deleteChunksDB_same_snd)
  then show ?thesis using freshIID_sameExcept [OF assms(3)] assms(2) by blast
qed


section \<open>Write\<close>

lemma writeTx_ok:
  assumes "shows d t m" and "db_ok E m" and "iid \<noteq> nilUUID" and "stores m (idBytes iid) data"
    and "sz = int (length data)" and "\<forall>q jm. metaAt E m q = Some jm \<longrightarrow> mInternalID jm \<noteq> iid"
    and "writeTx E i iid sz now t = Inr ((im', oldID), t')"
  shows "\<exists>m' im. shows d t' m' \<and> metaAt E m (mPath im) = Some im \<and> mID im = i \<and> \<not> mIsDir im
    \<and> im' = im\<lparr>mSize := sz, mModified := now, mInternalID := iid\<rparr> \<and> oldID = mInternalID im
    \<and> db_ok E m' \<and> metaAt E m' = (metaAt E m)(mPath im \<mapsto> im')
    \<and> fsView E m' = (fsView E m)(mPath im \<mapsto> (Meta_of im', data))"
proof -
  obtain p item im where p: "kvGet E t (makeKey prefixIndex (idBytes i)) = Inr p"
      "kvGet E t (makeKey prefixMeta p) = Inr item" "bUnmarshal E item = Inr im" "\<not> mIsDir im"
    and s: "setMeta E t (makeKey prefixMeta p) im' = Inr t'"
    and im': "im' = im\<lparr>mSize := sz, mModified := now, mInternalID := iid\<rparr>" "oldID = mInternalID im"
    using assms(7) by (auto simp: writeTx_def getMeta_def Let_def split: sum.splits if_splits)
  have f: "findMetaItemByID E t i = Inr item" "getMeta E (Inr item) = Inr im"
    using p by (simp_all add: findMetaItemByID_def getMeta_def)
  have io: "index_ok E m" using assms(2) by (simp add: db_ok_def)
  note im = found_by_id [OF assms(1) io f]
  have pp: "mPath im = p"
    using shows_get [OF assms(1) p(1)] im(3) by (simp add: idAt_def)
  have t': "textOk im'" using im(4) by (simp add: im'(1) textOk_def)
  obtain b where b: "bUnmarshal E b = Inr im'" "shows d t' (m(makeKey prefixMeta p \<mapsto> b))"
    using shows_setMeta [OF assms(1) t' s] .
  have "db_ok E (m(makeKey prefixMeta (mPath im') \<mapsto> b))
    \<and> fsView E (m(makeKey prefixMeta (mPath im') \<mapsto> b)) = (fsView E m)(mPath im' \<mapsto> (Meta_of im', data))"
    by (intro conjI db_update [OF assms(2) b(1) t'])
      (use im assms(3-6) p(4) in \<open>auto simp: im'(1)\<close>)
  then show ?thesis
    using b im p(4) im'(2) pp by (intro exI [of _ "m(makeKey prefixMeta p \<mapsto> b)"] exI [of _ im]) (auto simp: im'(1))
qed

lemma write_atomic:
  assumes "badger_Write E rng clock s i r = (res, s')"
    and "db_ok E (dview (b_db s))" and "freshIID E (dview (b_db s)) (rng 0)"
    and "length (rData r) \<le> maxContent"
  shows "db_ok E (dview (b_db s'))"
    and "(\<exists>e. res = Inl e) \<and> fsView E (dview (b_db s')) = fsView E (dview (b_db s))
       \<or> (\<exists>mt. overwritten E (dview (b_db s)) (dview (b_db s')) i (rData r) mt
            \<and> (res = Inr mt \<or> (\<exists>e. res = Inl e)))"
proof -
  let ?d = "b_db s"
  have "db_ok E (dview (b_db s')) \<and>
    ((\<exists>e. res = Inl e) \<and> fsView E (dview (b_db s')) = fsView E (dview ?d)
       \<or> (\<exists>mt. overwritten E (dview ?d) (dview (b_db s')) i (rData r) mt
            \<and> (res = Inr mt \<or> (\<exists>e. res = Inl e))))"
  proof (cases "(\<exists>e. res = Inl e) \<and> sameExcept (rng 0) (dview ?d) (dview (b_db s'))")
    case True
    then show ?thesis using freshIID_sameExcept [OF assms(3)] assms(2) by blast
  next
    case False
    obtain sz d1 im' oldID d2 where w: "writeChunks E (idBytes (rng 0)) r ?d = (Inr sz, d1)"
      and tx: "dbUpdate E (writeTx E i (rng 0) sz (clock 0)) d1 = (Inr (im', oldID), d2)"
      and fin: "(oldID = nilUUID \<and> res = Inr (Meta_of im') \<and> b_db s' = d2)
        \<or> (\<exists>x d3. deleteChunksDB E d2 (idBytes oldID) = (x, d3) \<and> b_db s' = d3
             \<and> res = (case x of None \<Rightarrow> Inr (Meta_of im') | Some e \<Rightarrow> Inl e))"
      using assms(1) False
      by (auto simp: badger_Write_def guarded_def Let_def
          split: option.splits if_splits prod.splits sum.splits
          dest!: writeChunks_same dbUpdate_Inl intro: sameExcept_trans deleteChunksDB_same_snd)
    have same: "sameExcept (rng 0) (dview ?d) (dview d1)" using writeChunks_same [OF w] .
    have c: "sz = int (length (rData r))" "stores (dview d1) (idBytes (rng 0)) (rData r)"
      using writeChunks_ok [OF w assms(4)] assms(3) by (auto simp: freshIID_def)
    have ok1: "db_ok E (dview d1)" "fsView E (dview d1) = fsView E (dview ?d)"
      using freshIID_sameExcept [OF assms(3) same] assms(2) by auto
    have M1: "metaAt E (dview d1) = metaAt E (dview ?d)" using sameExcept_index(2) [OF same] .
    let ?P = "\<lambda>a m. \<exists>im. metaAt E (dview d1) (mPath im) = Some im \<and> mID im = i \<and> \<not> mIsDir im
      \<and> fst a = im\<lparr>mSize := sz, mModified := clock 0, mInternalID := rng 0\<rparr> \<and> snd a = mInternalID im
      \<and> db_ok E m \<and> metaAt E m = (metaAt E (dview d1))(mPath im \<mapsto> fst a)
      \<and> fsView E m = (fsView E (dview d1))(mPath im \<mapsto> (Meta_of (fst a), rData r))"
    have iid: "rng 0 \<noteq> nilUUID" "\<forall>q jm. metaAt E (dview d1) q = Some jm \<longrightarrow> mInternalID jm \<noteq> rng 0"
      using assms(3) M1 by (auto simp: freshIID_def)
    have "?P (im', oldID) (dview d2)"
    proof (rule update_rule [OF tx])
      fix t a t' assume t: "shows d1 t (dview d1)"
        "writeTx E i (rng 0) sz (clock 0) t = Inr (a, t')"
      obtain im1 old1 where a: "a = (im1, old1)" by fastforce
      from writeTx_ok [OF t(1) ok1(1) iid(1) c(2,1) iid(2) t(2) [unfolded a]]
      show "\<exists>m. shows d1 t' m \<and> ?P a m" unfolding a fst_conv snd_conv by blast
    qed
    then obtain im where im: "metaAt E (dview d1) (mPath im) = Some im" "mID im = i" "\<not> mIsDir im"
      "im' = im\<lparr>mSize := sz, mModified := clock 0, mInternalID := rng 0\<rparr>" "oldID = mInternalID im"
      "db_ok E (dview d2)" "metaAt E (dview d2) = (metaAt E (dview d1))(mPath im \<mapsto> im')"
      "fsView E (dview d2) = (fsView E (dview d1))(mPath im \<mapsto> (Meta_of im', rData r))"
      unfolding fst_conv snd_conv by blast
    have old: "mInternalID jm \<noteq> oldID" if "metaAt E (dview d2) q = Some jm" "\<not> mIsDir jm" for q jm
    proof (cases "q = mPath im")
      case True
      then have "jm = im\<lparr>mSize := sz, mModified := clock 0, mInternalID := rng 0\<rparr>"
        using that im(4,7) by simp
      then have "mInternalID jm = rng 0" by simp
      then show ?thesis using freshIID_other [OF assms(3)] im(1,5) M1 by metis
    next
      case False
      then show ?thesis
        using that im(7,5) content_other [of "stores (dview d1)" "metaAt E (dview d1)" "mPath im" im q jm]
          ok1(1) im(1,3) by (auto simp: db_ok_def content_ok_def)
    qed
    have ov: "overwritten E (dview ?d) (dview d2) i (rData r) (Meta_of im')"
      unfolding overwritten_def using im(1-3,8) ok1(2) M1 c(1) by (auto simp: im(4) Meta_of_written)
    show ?thesis
    proof (cases "b_db s' = d2")
      case True
      then show ?thesis using fin im(6) ov by (auto split: option.splits)
    next
      case False
      then obtain x where x: "deleteChunksDB E d2 (idBytes oldID) = (x, b_db s')"
        "res = (case x of None \<Rightarrow> Inr (Meta_of im') | Some e \<Rightarrow> Inl e)" using fin by auto
      have "db_ok E (dview (b_db s')) = db_ok E (dview d2)
          \<and> fsView E (dview (b_db s')) = fsView E (dview d2)"
        using sameExcept_files [OF deleteChunksDB_same [OF x(1)]] old by blast
      moreover from this ov
      have "overwritten E (dview ?d) (dview (b_db s')) i (rData r) (Meta_of im')"
        by (simp add: overwritten_def)
      ultimately show ?thesis using x(2) im(6) by (cases x) auto
    qed
  qed
  then show "db_ok E (dview (b_db s'))"
    and "(\<exists>e. res = Inl e) \<and> fsView E (dview (b_db s')) = fsView E (dview (b_db s))
       \<or> (\<exists>mt. overwritten E (dview (b_db s)) (dview (b_db s')) i (rData r) mt
            \<and> (res = Inr mt \<or> (\<exists>e. res = Inl e)))" by blast+
qed


section \<open>Comments, directories and deletion\<close>

lemma commentsTx_ok:
  assumes "shows d t m" and "db_ok E m" and "utf8 c" and "commentsTx E i c t = Inr (mt, t')"
  shows "\<exists>m' im. shows d t' m' \<and> metaAt E m (mPath im) = Some im \<and> mID im = i
    \<and> mt = (Meta_of im)\<lparr>mComments := c\<rparr> \<and> db_ok E m'
    \<and> fsView E m' = (fsView E m)(mPath im \<mapsto> (mt, contentOf m im))"
proof -
  obtain item im where f: "findMetaItemByID E t i = Inr item" "getMeta E (Inr item) = Inr im"
    and s: "setMeta E t (makeKey prefixMeta (mPath im)) (im\<lparr>mComments := c\<rparr>) = Inr t'"
    and mt: "mt = Meta_of (im\<lparr>mComments := c\<rparr>)"
    using assms(4) by (auto simp: commentsTx_def Let_def)
  have ok: "index_ok E m" "content_ok E m" using assms(2) by (simp_all add: db_ok_def)
  note im = found_by_id [OF assms(1) ok(1) f]
  let ?im = "im\<lparr>mComments := c\<rparr>"
  have t': "textOk ?im" using im(4) assms(3) by (simp add: textOk_def)
  obtain b where b: "bUnmarshal E b = Inr ?im" "shows d t' (m(makeKey prefixMeta (mPath im) \<mapsto> b))"
    using shows_setMeta [OF assms(1) t' s] .
  have "\<not> mIsDir im \<Longrightarrow> mInternalID im \<noteq> nilUUID \<and> stores m (idBytes (mInternalID im)) (contentOf m im)
      \<and> mSize im = int (length (contentOf m im))
      \<and> (\<forall>q km. metaAt E m q = Some km \<longrightarrow> q \<noteq> mPath im \<longrightarrow> \<not> mIsDir km \<longrightarrow> mInternalID km \<noteq> mInternalID im)"
    using content_okD [OF ok(2) im(1)] ok(2) im(1) content_other
    by (metis content_ok_def)
  moreover have "mIsDir im \<Longrightarrow> contentOf m im = []" by (simp add: contentOf_def)
  ultimately have "db_ok E (m(makeKey prefixMeta (mPath ?im) \<mapsto> b))
    \<and> fsView E (m(makeKey prefixMeta (mPath ?im) \<mapsto> b)) = (fsView E m)(mPath ?im \<mapsto> (Meta_of ?im, contentOf m im))"
    by (intro conjI db_update [OF assms(2) b(1) t', where data = "contentOf m im"]) (use im(1) in auto)
  moreover have "mt = (Meta_of im)\<lparr>mComments := c\<rparr>" by (simp add: mt Meta_of_def vmeta.truncate_def)
  ultimately show ?thesis using b(2) im mt
    by (intro exI [of _ "m(makeKey prefixMeta (mPath im) \<mapsto> b)"] exI [of _ im]) auto
qed

lemma mkdirTx_ok:
  assumes "shows d t m" and "db_ok E m" and "textOk im" and "idAt m (mID im) = None"
    and "mIsDir im" and "m (makeKey prefixMeta (mPath im)) = None" and "mkdirTx E im t = Inr (mt, t')"
  shows "\<exists>m'. shows d t' m' \<and> mt = Meta_of im \<and> db_ok E m'
    \<and> fsView E m' = (fsView E m)(mPath im \<mapsto> (mt, []))"
proof -
  have st: "storeEntry E t im = Inr t'" and mt: "mt = Meta_of im"
    using assms(7) by (auto simp: mkdirTx_def split: sum.splits if_splits)
  obtain b where "bUnmarshal E b = Inr im"
    "shows d t' (m(makeKey prefixMeta (mPath im) \<mapsto> b, makeKey prefixIndex (idBytes (mID im)) \<mapsto> mPath im))"
    using shows_storeEntry [OF assms(1,3) st] by blast
  then show ?thesis
    using db_insert [OF assms(2) _ assms(3,6,4), of b "[]"] assms(5) mt by blast
qed

lemma deleteTx_ok:
  assumes "shows d t m" and "db_ok E m" and "deleteTx E i t = Inr (u, t')"
  shows "\<exists>m' im. shows d t' m' \<and> metaAt E m (mPath im) = Some im \<and> mID im = i
    \<and> keeps E m m' (map_without (subtree (mPath im) (mIsDir im)) (metaAt E m))"
proof -
  obtain item im where f: "findMetaItemByID E t i = Inr item" "getMeta E (Inr item) = Inr im"
    and del: "(if mIsDir im
            then bindE (readAll E (kvScan E t (makeKey prefixMeta (withSlash (mPath im)))))
                   (\<lambda>itemsToDelete. deleteItems E itemsToDelete t)
            else deleteItem E im t) = Inr t'"
    using assms(3) by (auto simp: deleteTx_def)
  have io: "index_ok E m" using assms(2) by (simp add: db_ok_def)
  note im = found_by_id [OF assms(1) io f]
  show ?thesis
  proof (cases "mIsDir im")
    case True
    then obtain ims where r: "readAll E (kvScan E t (makeKey prefixMeta (withSlash (mPath im)))) = Inr ims"
      and d: "deleteItems E ims t = Inr t'" using del by auto
    note sc = readAll_scan [OF assms(1) io r]
    have at: "metaAt E m (mPath jm) = Some jm" if "jm \<in> set ims" for jm
      using that index_okD [OF io] by (auto simp: sc(1))
    obtain m' where m': "shows d t' m'"
      "keeps E m m' (map_without (\<lambda>p. p \<in> mPath ` set ims) (metaAt E m))"
      using deleteItems_keeps [OF assms(1,2) at sc(2) d] by blast
    have "q \<in> mPath ` set ims \<longleftrightarrow> prefix (withSlash (mPath im)) q \<and> metaAt E m q \<noteq> None" for q
    proof
      assume "q \<in> mPath ` set ims"
      then obtain jm q' where "prefix (withSlash (mPath im)) q'" "metaAt E m q' = Some jm" "mPath jm = q"
        by (auto simp: sc(1))
      then show "prefix (withSlash (mPath im)) q \<and> metaAt E m q \<noteq> None"
        using index_okD [OF io, of q' jm] by auto
    next
      assume "prefix (withSlash (mPath im)) q \<and> metaAt E m q \<noteq> None"
      then obtain jm where "jm \<in> set ims" "mPath jm = q"
        using index_okD [OF io, of q] by (auto simp: sc(1))
      then show "q \<in> mPath ` set ims" by blast
    qed
    then have "map_without (\<lambda>p. p \<in> mPath ` set ims) (metaAt E m) =
        map_without (subtree (mPath im) (mIsDir im)) (metaAt E m)"
      using True by (auto simp: fun_eq_iff subtree_def)
    with m' im show ?thesis by metis
  next
    case False
    then obtain m' where "shows d t' m'" "keeps E m m' ((metaAt E m)(mPath im := None))"
      using deleteItem_keeps [OF assms(1,2) im(1)] del by auto
    moreover have "(metaAt E m)(mPath im := None) = map_without (subtree (mPath im) (mIsDir im)) (metaAt E m)"
      using False by (auto simp: fun_eq_iff subtree_def)
    ultimately show ?thesis using im by metis
  qed
qed

lemma keeps_without:
  "keeps E m m' (map_without P (metaAt E m)) \<Longrightarrow> fsView E m' = map_without P (fsView E m)"
proof
  fix p assume k: "keeps E m m' (map_without P (metaAt E m))"
  show "fsView E m' p = map_without P (fsView E m) p"
    unfolding keeps_fsView [OF k] by (simp add: fsView_def)
qed

end

end
