(* ===== verification/Badger_Reads.thy ===== *)
theory Badger_Reads
  imports Badger_Ops
begin

text \<open>
  The remaining results on single operations: comments, directories, deletion at the level of
  the driver's state, and the operations that only read. A store on which nothing fails is the
  locale \<open>badger_reliable\<close>; there the reading operations are exact. Both contracts are
  interpreted on the in-memory store.
\<close>

section \<open>The filter of the listing\<close>

text \<open>The filter of the listing keeps the paths with one more element and no other.\<close>

lemma slashless_iff:
  "slash \<notin> set (trimSuffix sub ''/'')
     \<longleftrightarrow> (\<exists>name. slash \<notin> set name \<and> (sub = name \<or> sub = name @ ''/''))"
proof
  assume "slash \<notin> set (trimSuffix sub ''/'')"
  then show "\<exists>name. slash \<notin> set name \<and> (sub = name \<or> sub = name @ ''/'')"
    by (cases "suffix ''/'' sub") (auto simp: trimSuffix_def suffix_def)
next
  assume "\<exists>name. slash \<notin> set name \<and> (sub = name \<or> sub = name @ ''/'')"
  then show "slash \<notin> set (trimSuffix sub ''/'')"
    by (auto simp: trimSuffix_def suffix_def)
qed

lemma directChild_iff:
  "prefix dir p \<and> directChild (makeKey prefixMeta dir) (makeKey prefixMeta p)
     \<longleftrightarrow> (\<exists>name. slash \<notin> set name \<and> (p = dir @ name \<and> name \<noteq> [] \<or> p = dir @ name @ ''/''))"
proof -
  have "directChild (makeKey prefixMeta dir) (makeKey prefixMeta (dir @ sub))
      \<longleftrightarrow> sub \<noteq> [] \<and> slash \<notin> set (trimSuffix sub ''/'')" for sub
    by (auto simp: directChild_def makeKey_def Let_def)
  then show ?thesis by (auto simp: prefix_def slashless_iff)
qed

section \<open>Updates and lookups\<close>

context badger_env
begin

lemma comments_ok:
  assumes "badger_WriteComments E s i c = (Inr mt, s')" and "db_ok E (dview (b_db s))" and "utf8 c"
  shows "\<exists>mt0 data. fsView E (dview (b_db s)) (mPath mt) = Some (mt0, data) \<and> mID mt0 = i
    \<and> mt = mt0\<lparr>mComments := c\<rparr> \<and> db_ok E (dview (b_db s'))
    \<and> fsView E (dview (b_db s')) = (fsView E (dview (b_db s)))(mPath mt \<mapsto> (mt, data))"
proof -
  have tx: "dbUpdate E (commentsTx E i c) (b_db s) = (Inr mt, b_db s')"
    using assms(1) by (auto simp: badger_WriteComments_def guarded_def split: option.splits prod.splits)
  have "\<exists>im. metaAt E (dview (b_db s)) (mPath im) = Some im \<and> mID im = i
    \<and> mt = (Meta_of im)\<lparr>mComments := c\<rparr> \<and> db_ok E (dview (b_db s'))
    \<and> fsView E (dview (b_db s')) = (fsView E (dview (b_db s)))(mPath im \<mapsto> (mt, contentOf (dview (b_db s)) im))"
    by (rule update_rule [OF tx]) (use commentsTx_ok [OF _ assms(2,3)] in blast)
  then show ?thesis by (force simp: fsView_def)
qed

lemma delete_ok:
  assumes "badger_Delete E s i = (Inr u, s')" and "db_ok E (dview (b_db s))"
  shows "\<exists>mt data. fsView E (dview (b_db s)) (mPath mt) = Some (mt, data) \<and> mID mt = i
    \<and> db_ok E (dview (b_db s'))
    \<and> fsView E (dview (b_db s')) = map_without (subtree (mPath mt) (mIsDir mt)) (fsView E (dview (b_db s)))"
proof -
  have tx: "dbUpdate E (deleteTx E i) (b_db s) = (Inr u, b_db s')"
    using assms(1) by (auto simp: badger_Delete_def guarded_def split: option.splits prod.splits)
  have "\<exists>im. metaAt E (dview (b_db s)) (mPath im) = Some im \<and> mID im = i
    \<and> keeps E (dview (b_db s)) (dview (b_db s'))
        (map_without (subtree (mPath im) (mIsDir im)) (metaAt E (dview (b_db s))))"
    by (rule update_rule [OF tx]) (use deleteTx_ok [OF _ assms(2)] in blast)
  then obtain im where im: "metaAt E (dview (b_db s)) (mPath im) = Some im" "mID im = i"
    and k: "keeps E (dview (b_db s)) (dview (b_db s'))
        (map_without (subtree (mPath im) (mIsDir im)) (metaAt E (dview (b_db s))))"
    by blast
  have "fsView E (dview (b_db s)) (mPath (Meta_of im)) = Some (Meta_of im, contentOf (dview (b_db s)) im)"
    using im by (simp add: fsView_def)
  moreover have "db_ok E (dview (b_db s'))" using k by (simp add: keeps_def)
  ultimately show ?thesis using keeps_without [OF k] im
    by (intro exI [of _ "Meta_of im"] exI [of _ "contentOf (dview (b_db s)) im"]) simp
qed

text \<open>A failing transaction leaves the database as it was.\<close>

lemma guarded_update_failure:
  assumes "guarded s (dbUpdate E f) = (Inl e, s')"
  shows "b_db s' = b_db s"
  using assms by (auto simp: guarded_def split: option.splits prod.splits dest!: dbUpdate_Inl)

lemma view_shows: "shows d (kvBegin E d) (dview d)"
  by (rule shows_begin)

lemma stat_ok:
  assumes "badger_Stat E s i = Inr mt" and "db_ok E (dview (b_db s))"
  shows "mID mt = i" "\<exists>data. fsView E (dview (b_db s)) (mPath mt) = Some (mt, data)"
proof -
  let ?t = "kvBegin E (b_db s)"
  obtain p v im where "kvGet E ?t (makeKey prefixIndex (idBytes i)) = Inr p"
    "kvGet E ?t (makeKey prefixMeta p) = Inr v" "getMeta E (Inr v) = Inr im" and mt: "mt = Meta_of im"
    using assms(1) by (auto simp: badger_Stat_def dbView_def split: option.splits sum.splits if_splits)
  then have "findMetaItemByID E ?t i = Inr v" "getMeta E (Inr v) = Inr im"
    by (simp_all add: findMetaItemByID_def)
  note f = found_by_id [OF view_shows _ this]
  with assms(2) mt show "mID mt = i" "\<exists>data. fsView E (dview (b_db s)) (mPath mt) = Some (mt, data)"
    by (auto simp: db_ok_def fsView_def)
qed

lemma statByPath_ok:
  assumes "badger_StatByPath E s p = Inr mt" and "db_ok E (dview (b_db s))"
  shows "mPath mt \<in> {rootedPath (trimSpace p), rootedPath (trimSpace p) @ ''/''}"
    "\<exists>data. fsView E (dview (b_db s)) (mPath mt) = Some (mt, data)"
proof -
  obtain im where "findByPath E (kvBegin E (b_db s)) (rootedPath (trimSpace p)) = Inr im"
    and mt: "mt = Meta_of im"
    using assms(1) by (auto simp: badger_StatByPath_def dbView_def Let_def split: option.splits if_splits)
  note f = found_by_path [OF view_shows _ this(1)]
  with assms(2) mt show "mPath mt \<in> {rootedPath (trimSpace p), rootedPath (trimSpace p) @ ''/''}"
    "\<exists>data. fsView E (dview (b_db s)) (mPath mt) = Some (mt, data)"
    by (auto simp: db_ok_def fsView_def)
qed

text \<open>An opened file is a reader at the start of the file's contents.\<close>

lemma open_ok:
  assumes "badger_Open E s i = Inr f" and "db_ok E (dview (b_db s))"
  shows "mID (fMeta f) = i"
    "\<exists>data. fsView E (dview (b_db s)) (mPath (fMeta f)) = Some (fMeta f, data)
       \<and> (if mIsDir (fMeta f) then fReader f = None
          else \<exists>br. fReader f = Some br \<and> readerAt (dview (b_db s)) br data 0)"
proof -
  let ?d = "b_db s"
  obtain v im where v: "findMetaItemByID E (kvBegin E ?d) i = Inr v" "getMeta E (Inr v) = Inr im"
    and f: "f = NewFile (Meta_of im) (if \<not> mIsDir im then Some (newBlobReader (idBytes
       (if mInternalID im = nilUUID then mID im else mInternalID im)) (mSize im)) else None)"
    using assms(1) by (auto simp: badger_Open_def dbView_def Let_def split: option.splits)
  have ok: "index_ok E (dview ?d)" "content_ok E (dview ?d)" using assms(2) by (simp_all add: db_ok_def)
  note im = found_by_id [OF view_shows ok(1) v]
  show "mID (fMeta f) = i" using im f by (simp add: NewFile_def)
  show "\<exists>data. fsView E (dview ?d) (mPath (fMeta f)) = Some (fMeta f, data)
       \<and> (if mIsDir (fMeta f) then fReader f = None
          else \<exists>br. fReader f = Some br \<and> readerAt (dview ?d) br data 0)"
  proof (cases "mIsDir im")
    case True
    then show ?thesis using im f by (simp add: NewFile_def fsView_def)
  next
    case False
    obtain data where "stores (dview ?d) (idBytes (mInternalID im)) data" "mSize im = int (length data)"
      "contentOf (dview ?d) im = data" "mInternalID im \<noteq> nilUUID"
      using content_okD [OF ok(2) im(1) False] .
    with False im f newBlobReader_at [of "dview ?d" _ data] show ?thesis
      by (auto simp: NewFile_def fsView_def)
  qed
qed

section \<open>Listing\<close>

lemma list_ok:
  assumes "badger_List E s path = Inr ms" and "db_ok E (dview (b_db s))"
  defines "dir \<equiv> withSlash (if trimSpace path = [] then Root else trimSpace path)"
  shows "set ms = {mt. \<exists>data. fsView E (dview (b_db s)) (mPath mt) = Some (mt, data)
      \<and> prefix dir (mPath mt) \<and> directChild (makeKey prefixMeta dir) (makeKey prefixMeta (mPath mt))}"
    and "distinct (map mPath ms)"
    and "dir \<noteq> Root \<Longrightarrow> fsView E (dview (b_db s)) dir \<noteq> None"
proof -
  let ?d = "b_db s" and ?k = "makeKey prefixMeta dir"
  let ?t = "kvBegin E ?d"
  have run: "mapE (\<lambda>(key, v). bindE (getMeta E v) (\<lambda>im. Inr (Meta_of im)))
      (filter (\<lambda>(key, v). directChild ?k key) (kvScan E ?t ?k)) = Inr ms"
    and dir: "dir \<noteq> Root \<Longrightarrow> \<exists>v. kvGet E ?t ?k = Inr v"
    using assms(1) unfolding badger_List_def dir_def withSlash_def
    by (auto simp: dbView_def Let_def split: option.splits if_splits sum.splits)
  have ok: "index_ok E (dview ?d)" using assms(2) by (simp add: db_ok_def)
  let ?its = "filter (\<lambda>kv. directChild ?k (fst kv)) (kvScan E ?t ?k)"
  have "mapE (\<lambda>kv. bindE (getMeta E (snd kv)) (\<lambda>im. Inr (Meta_of im))) ?its = Inr ms"
    using run by (simp only: case_prod_unfold)
  then obtain ims where "mapE (\<lambda>kv. getMeta E (snd kv)) ?its = Inr ims" and ms: "ms = map Meta_of ims"
    by (auto simp: mapE_bind [where f = "\<lambda>kv. getMeta E (snd kv)" and g = Meta_of])
  then have ims: "readAll E ?its = Inr ims" by (simp add: readAll_def case_prod_unfold)
  note r = readAll_filter [OF view_shows ok ims]
  have "set ms = Meta_of ` {im. \<exists>q. prefix dir q \<and> metaAt E (dview ?d) q = Some im \<and> directChild ?k (makeKey prefixMeta q)}"
    by (simp add: ms r(1))
  also have "\<dots> = {mt. \<exists>data. fsView E (dview ?d) (mPath mt) = Some (mt, data)
      \<and> prefix dir (mPath mt) \<and> directChild ?k (makeKey prefixMeta (mPath mt))}"
  proof (intro set_eqI iffI; elim imageE CollectE exE conjE)
    fix mt im q assume "mt = Meta_of im" "prefix dir q" "metaAt E (dview ?d) q = Some im"
      "directChild ?k (makeKey prefixMeta q)"
    moreover from this have "mPath im = q" using index_okD [OF ok] by blast
    ultimately show "mt \<in> {mt. \<exists>data. fsView E (dview ?d) (mPath mt) = Some (mt, data)
      \<and> prefix dir (mPath mt) \<and> directChild ?k (makeKey prefixMeta (mPath mt))}"
      by (simp add: fsView_def)
  next
    fix mt data assume "fsView E (dview ?d) (mPath mt) = Some (mt, data)" "prefix dir (mPath mt)"
      "directChild ?k (makeKey prefixMeta (mPath mt))"
    then show "mt \<in> Meta_of ` {im. \<exists>q. prefix dir q \<and> metaAt E (dview ?d) q = Some im
        \<and> directChild ?k (makeKey prefixMeta q)}"
      by (auto simp: fsView_def)
  qed
  finally show "set ms = {mt. \<exists>data. fsView E (dview ?d) (mPath mt) = Some (mt, data)
      \<and> prefix dir (mPath mt) \<and> directChild ?k (makeKey prefixMeta (mPath mt))}" .
  show "distinct (map mPath ms)" using r(2) by (simp add: ms comp_def)
  show "fsView E (dview ?d) dir \<noteq> None" if "dir \<noteq> Root"
  proof -
    obtain v where "kvGet E ?t ?k = Inr v" using dir [OF \<open>dir \<noteq> Root\<close>] by blast
    then have "dview ?d ?k = Some v" using shows_get [OF view_shows] by simp
    then show ?thesis using index_ok_meta [OF ok, of dir] by (simp add: fsView_def)
  qed
qed

end

section \<open>Stores on which nothing fails\<close>

locale badger_reliable = badger_env E dview tview twr + kv_reliable E dview tview twr
  for E :: "('d, 't, 'z) benv_scheme" and dview :: "'d \<Rightarrow> store" and tview :: "'t \<Rightarrow> store"
    and twr :: "'t \<Rightarrow> wlog"
begin

lemma view_get: "kvGet E (kvBegin E d) k = (case dview d k of Some v \<Rightarrow> Inr v | None \<Rightarrow> Inl ErrKeyNotFound)"
  by (simp add: get_iff begin_view)

lemma stat_exact:
  assumes "b_failed s = None" and "db_ok E (dview (b_db s))"
  shows "badger_Stat E s i = (case idAt (dview (b_db s)) i of
     None \<Rightarrow> Inl ErrNotFound
   | Some p \<Rightarrow> Inr (Meta_of (the (metaAt E (dview (b_db s)) p))))"
proof (cases "idAt (dview (b_db s)) i")
  case None
  then show ?thesis using assms(1) by (simp add: badger_Stat_def dbView_def view_get idAt_def)
next
  case (Some p)
  then obtain im where im: "metaAt E (dview (b_db s)) p = Some im"
    using index_okE assms(2) unfolding db_ok_def by metis
  then obtain b where "dview (b_db s) (makeKey prefixMeta p) = Some b" "bUnmarshal E b = Inr im"
    by (auto simp: metaAt_def split: option.splits sum.splits)
  with Some im assms(1) show ?thesis
    by (simp add: badger_Stat_def dbView_def view_get idAt_def getMeta_def)
qed

lemma mkdir_ok:
  assumes "badger_Mkdir E rng clock s path = (Inr mt, s')" and "db_ok E (dview (b_db s))"
    and "utf8 path" and "idAt (dview (b_db s)) (rng 0) = None"
  shows "mPath mt = withSlash (rootedPath (trimSpace path))" "mIsDir mt" "mID mt = rng 0"
    "db_ok E (dview (b_db s'))"
    "fsView E (dview (b_db s')) = (fsView E (dview (b_db s)))(mPath mt \<mapsto> (mt, []))"
    "fsView E (dview (b_db s)) (mPath mt) = None"
proof -
  let ?im = "newDirMeta (withSlash (rootedPath (trimSpace path))) (rng 0) (clock 0)"
  have tx: "dbUpdate E (mkdirTx E ?im) (b_db s) = (Inr mt, b_db s')"
    using assms(1) by (auto simp: badger_Mkdir_def guarded_def Let_def
        split: option.splits prod.splits if_splits)
  have "mt = Meta_of ?im \<and> db_ok E (dview (b_db s'))
    \<and> fsView E (dview (b_db s')) = (fsView E (dview (b_db s)))(mPath ?im \<mapsto> (mt, []))
    \<and> metaAt E (dview (b_db s)) (mPath ?im) = None"
  proof (rule update_rule [OF tx])
    fix t a t' assume t: "shows (b_db s) t (dview (b_db s))" "mkdirTx E ?im t = Inr (a, t')"
    obtain e where "kvGet E t (makeKey prefixMeta (mPath ?im)) = Inl e"
      using t(2) by (auto simp: mkdirTx_def split: sum.splits)
    then have "tview t (makeKey prefixMeta (mPath ?im)) = None"
      by (simp add: get_iff split: option.splits)
    then have none: "dview (b_db s) (makeKey prefixMeta (mPath ?im)) = None" using t(1) by (simp add: shows_def)
    then have "metaAt E (dview (b_db s)) (mPath ?im) = None" by (simp add: metaAt_def)
    moreover have "textOk ?im"
      by (intro textOk_newDir utf8_withSlash textOk_rootedPath assms(3))
    moreover have "idAt (dview (b_db s)) (mID ?im) = None" "mIsDir ?im"
      using assms(4) by (simp_all add: newDirMeta_def)
    ultimately show "\<exists>m. shows (b_db s) t' m \<and> (a = Meta_of ?im \<and> db_ok E m
      \<and> fsView E m = (fsView E (dview (b_db s)))(mPath ?im \<mapsto> (a, []))
      \<and> metaAt E (dview (b_db s)) (mPath ?im) = None)"
      using mkdirTx_ok [OF t(1) assms(2) _ _ _ none t(2)] by blast
  qed
  then show "mPath mt = withSlash (rootedPath (trimSpace path))" "mIsDir mt" "mID mt = rng 0"
    "db_ok E (dview (b_db s'))"
    "fsView E (dview (b_db s')) = (fsView E (dview (b_db s)))(mPath mt \<mapsto> (mt, []))"
    "fsView E (dview (b_db s)) (mPath mt) = None"
    by (auto simp: newDirMeta_def fsView_def)
qed

end

end
