(* ===== verification/Codec.thy ===== *)
theory Codec
  imports Prelude
begin

text \<open>
  A small binary encoding of numbers and strings, with which the in-memory instances of the
  stores' contracts encode their records.
\<close>

definition encInt :: "int \<Rightarrow> bytes" where
  "encInt x = beBytes 8 (nat (x + 9223372036854775808))"

definition decInt :: "bytes \<Rightarrow> int" where
  "decInt b = int (beValue b) - 9223372036854775808"

definition encStr :: "string \<Rightarrow> bytes" where
  "encStr s = beBytes 8 (length s) @ s"

definition decStr :: "bytes \<Rightarrow> string \<times> bytes" where
  "decStr b = (let n = beValue (take 8 b) in (take n (drop 8 b), drop n (drop 8 b)))"

lemma decInt_encInt: "- 9223372036854775808 \<le> x \<Longrightarrow> x < 9223372036854775808 \<Longrightarrow> decInt (encInt x) = x"
  by (simp add: decInt_def encInt_def beValue_beBytes)

lemma length_encInt [simp]: "length (encInt x) = 8"
  by (simp add: encInt_def)

lemma decStr_encStr: "length s < 18446744073709551616 \<Longrightarrow> decStr (encStr s @ b) = (s, b)"
  by (simp add: decStr_def encStr_def beValue_beBytes Let_def)

lemma decStr_encStr_end: "length s < 18446744073709551616 \<Longrightarrow> decStr (encStr s) = (s, [])"
  using decStr_encStr [of s "[]"] by simp

lemma length_encStr: "8 \<le> length (encStr s)"
  by (simp add: encStr_def)

end
