(* ===== verification/Badger_Mem.thy ===== *)
theory Badger_Mem
  imports Badger_Reads Codec
begin

text \<open>
  An instance of the driver's contract: the in-memory store with a binary metadata codec (fixed
  width numbers, length-prefixed strings). On it the contract \<open>badger_reliable\<close> holds, so every
  result of the development applies to runs that can be evaluated.
\<close>

section \<open>A codec\<close>

definition encodable :: "imeta \<Rightarrow> bool" where
  "encodable im \<longleftrightarrow> - 9223372036854775808 \<le> mSize im \<and> mSize im < 9223372036854775808
     \<and> - 9223372036854775808 \<le> mModified im \<and> mModified im < 9223372036854775808
     \<and> length (mPath im) < 18446744073709551616 \<and> length (mName im) < 18446744073709551616
     \<and> length (mExtension im) < 18446744073709551616 \<and> length (mComments im) < 18446744073709551616"

definition mem_marshal :: "imeta \<Rightarrow> err + bytes" where
  "mem_marshal im = (if \<not> encodable im then Inl (ErrOther ''out of range'')
     else Inr (idBytes (mID im) @ idBytes (mInternalID im) @ encInt (mSize im) @ encInt (mModified im)
       @ [if mIsDir im then CHR ''d'' else CHR ''f''] @ encStr (mPath im) @ encStr (mName im)
       @ encStr (mExtension im) @ encStr (mComments im)))"

definition mem_unmarshal :: "bytes \<Rightarrow> err + imeta" where
  "mem_unmarshal b =
     (if length b < 81 then Inl (ErrOther ''short'') else
      case decStr (drop 49 b) of (p, b1) \<Rightarrow>
      case decStr b1 of (n, b2) \<Rightarrow>
      case decStr b2 of (x, b3) \<Rightarrow>
      case decStr b3 of (c, b4) \<Rightarrow>
        Inr \<lparr>mID = idOfBytes (take 16 b), mPath = p, mName = n, mExtension = x,
             mSize = decInt (take 8 (drop 32 b)), mIsDir = (b ! 48 = CHR ''d''),
             mModified = decInt (take 8 (drop 40 b)), mComments = c,
             mInternalID = idOfBytes (take 16 (drop 16 b))\<rparr>)"

lemma mem_codec: "mem_marshal im = Inr b \<Longrightarrow> mem_unmarshal b = Inr im"
proof -
  assume "mem_marshal im = Inr b"
  then have e: "encodable im" and b: "b = idBytes (mID im) @ idBytes (mInternalID im) @ encInt (mSize im)
       @ encInt (mModified im) @ [if mIsDir im then CHR ''d'' else CHR ''f''] @ encStr (mPath im)
       @ encStr (mName im) @ encStr (mExtension im) @ encStr (mComments im)"
    by (auto simp: mem_marshal_def split: if_splits)
  let ?tl = "encStr (mPath im) @ encStr (mName im) @ encStr (mExtension im) @ encStr (mComments im)"
  have "81 \<le> length b"
    using length_encStr [of "mPath im"] length_encStr [of "mName im"]
      length_encStr [of "mExtension im"] length_encStr [of "mComments im"] by (simp add: b)
  moreover have "drop 49 b = ?tl" "take 16 b = idBytes (mID im)" "take 16 (drop 16 b) = idBytes (mInternalID im)"
    "take 8 (drop 32 b) = encInt (mSize im)" "take 8 (drop 40 b) = encInt (mModified im)"
    "b ! 48 = (if mIsDir im then CHR ''d'' else CHR ''f'')"
    by (simp_all add: b nth_append)
  ultimately show ?thesis
    using e by (simp add: mem_unmarshal_def encodable_def decStr_encStr decStr_encStr_end decInt_encInt)
qed

section \<open>The instance\<close>

definition mem_env :: "(mem, memtx) benv" where
  "mem_env = kv.extend mem_kv
     \<lparr>bMarshal = mem_marshal, bUnmarshal = mem_unmarshal, bLower = (\<lambda>s. s)\<rparr>"

lemma mem_env_kv [simp]:
  "kvBegin mem_env = kvBegin mem_kv" "kvGet mem_env = kvGet mem_kv" "kvSet mem_env = kvSet mem_kv"
  "kvDelete mem_env = kvDelete mem_kv" "kvScan mem_env = kvScan mem_kv"
  "kvCommit mem_env = kvCommit mem_kv" "kvBatchSet mem_env = kvBatchSet mem_kv"
  "kvBatchFlush mem_env = kvBatchFlush mem_kv" "kvBatchCancel mem_env = kvBatchCancel mem_kv"
  "bMarshal mem_env = mem_marshal" "bUnmarshal mem_env = mem_unmarshal" "bLower mem_env = (\<lambda>s. s)"
  by (simp_all add: mem_env_def kv.extend_def)

abbreviation mem_dview :: "mem \<Rightarrow> store" where
  "mem_dview \<equiv> map_of"

abbreviation mem_twr :: "memtx \<Rightarrow> wlog" where
  "mem_twr \<equiv> \<lambda>t. map_of (snd t)"

interpretation membadger: badger_reliable mem_env mem_dview mem_tview mem_twr
  by unfold_locales
    (simp_all only: mem_env_kv,
      ((rule memkv.begin_view; assumption)
      | (rule memkv.begin_wr; assumption)
      | (rule memkv.get_ok; assumption)
      | (rule memkv.get_missing; assumption)
      | (rule memkv.set_view; assumption)
      | (rule memkv.set_wr; assumption)
      | (rule memkv.delete_view; assumption)
      | (rule memkv.delete_wr; assumption)
      | (rule memkv.scan_keys; assumption)
      | (rule memkv.scan_sorted; assumption)
      | (rule memkv.scan_value; assumption)
      | (rule memkv.commit_view; assumption)
      | (rule memkv.flush_view; assumption)
      | (rule memkv.flush_failed; assumption)
      | (rule memkv.cancel_view; assumption)
      | (rule memkv.get_total; assumption)
      | (rule memkv.get_none; assumption)
      | (rule memkv.set_total; assumption)
      | (rule memkv.delete_total; assumption)
      | (rule memkv.scan_total; assumption)
      | (rule memkv.commit_total; assumption)
      | (rule memkv.batch_total; assumption)
      | (rule memkv.flush_total; assumption)
      | (rule mem_codec; assumption) | assumption)+)

end
