(* ===== verification/Paths.thy ===== *)
theory Paths
  imports GoStrings
begin

text \<open>
  The algebra of clean paths: a path seen as the list of its non-empty elements, joining a
  relative path below a directory, and taking the parent.
\<close>

definition elemsOf :: "string \<Rightarrow> string list" where
  "elemsOf p = filter (\<lambda>e. e \<noteq> []) (splitOn slash p)"

lemma splitOn_append: "splitOn c (a @ c # b) = splitOn c a @ splitOn c b"
proof (induction a)
  case (Cons x xs)
  show ?case
  proof (cases "x = c")
    case False
    then show ?thesis using Cons by (cases "splitOn c xs") (auto dest: arg_cong [where f = length])
  qed (use Cons in simp)
qed simp

lemma elemsOf_Nil [simp]: "elemsOf [] = []"
  by (simp add: elemsOf_def)

lemma elemsOf_slash [simp]: "elemsOf (slash # s) = elemsOf s"
  by (simp add: elemsOf_def)

lemma elemsOf_append [simp]: "elemsOf (a @ slash # b) = elemsOf a @ elemsOf b"
  by (simp add: elemsOf_def splitOn_append)

lemma elemsOf_join: "list_all properElem ws \<Longrightarrow> elemsOf (joinWith [slash] ws) = ws"
proof (cases "ws = []")
  case False
  assume p: "list_all properElem ws"
  then have "splitOn slash (joinWith [slash] ws) = ws"
    using False by (intro split_join) (auto simp: list_all_iff)
  moreover have "filter (\<lambda>e. e \<noteq> []) ws = ws" using p by (auto simp: list_all_iff filter_id_conv)
  ultimately show ?thesis by (simp add: elemsOf_def)
qed simp

lemma elemsOf_single: "slash \<notin> set e \<Longrightarrow> e \<noteq> [] \<Longrightarrow> elemsOf e = [e]"
  by (simp add: elemsOf_def splitOn_sep_free)

lemma joinWith_append: "xs \<noteq> [] \<Longrightarrow> ys \<noteq> [] \<Longrightarrow> joinWith s (xs @ ys) = joinWith s xs @ s @ joinWith s ys"
proof (induction s xs rule: joinWith.induct)
  case (2 sep x)
  then show ?case by (cases ys) auto
qed auto

lemma cleanAbs_elems: "cleanAbs s \<longleftrightarrow> s = slash # joinWith [slash] (elemsOf s) \<and> list_all properElem (elemsOf s)"
  by (auto simp: cleanAbs_def elemsOf_join)

lemma cleanAbs_join: "list_all properElem ws \<Longrightarrow> cleanAbs (slash # joinWith [slash] ws)"
  by (auto simp: cleanAbs_def)

lemma joinWith_Nil_iff: "list_all properElem ws \<Longrightarrow> joinWith [slash] ws = [] \<longleftrightarrow> ws = []"
  using joinWith_last by auto

lemma cleanAbs_root: "cleanAbs s \<Longrightarrow> s = [slash] \<longleftrightarrow> elemsOf s = []"
  using cleanAbs_elems joinWith_Nil_iff by (metis elemsOf_Nil elemsOf_slash joinWith.simps(1))

lemma foldl_cleanStep_elems:
  "list_all (\<lambda>e. e = [] \<or> properElem e) es \<Longrightarrow>
   foldl (cleanStep b) acc es = rev (filter (\<lambda>e. e \<noteq> []) es) @ acc"
  by (induction es arbitrary: acc) (auto simp: properElem_def)

lemma cleanPath_elems:
  assumes "list_all properElem (elemsOf (slash # s))"
  shows "cleanPath (slash # s) = slash # joinWith [slash] (elemsOf s)"
proof -
  have "list_all (\<lambda>e. e = [] \<or> properElem e) (splitOn slash (slash # s))"
    using assms by (auto simp: elemsOf_def list_all_iff)
  then show ?thesis
    using foldl_cleanStep_elems [of "splitOn slash (slash # s)" True "[]"]
    by (simp add: cleanPath_def cleanElems_def elemsOf_def del: splitOn.simps cleanStep.simps)
      simp
qed

text \<open>Cleaning any concatenation of clean pieces concatenates their elements.\<close>

lemma cleanPath_of_elems:
  assumes "prefix [slash] p" and "list_all properElem (elemsOf p)"
  shows "cleanPath p = slash # joinWith [slash] (elemsOf p)"
  using assms cleanPath_elems by (cases p) auto

lemma cleanAbs_append_iff:
  assumes "cleanAbs d" and "d \<noteq> [slash]"
  shows "cleanAbs (d @ slash # r) \<longleftrightarrow> r \<noteq> [] \<and> cleanAbs (slash # r)"
proof -
  have d: "d = slash # joinWith [slash] (elemsOf d)" "list_all properElem (elemsOf d)"
    "elemsOf d \<noteq> []"
    using assms cleanAbs_elems cleanAbs_root by metis+
  show ?thesis
  proof
    assume c: "cleanAbs (d @ slash # r)"
    then have p: "list_all properElem (elemsOf r)"
      and e: "d @ slash # r = slash # joinWith [slash] (elemsOf d @ elemsOf r)"
      using cleanAbs_elems [of "d @ slash # r"] by auto
    have r: "elemsOf r \<noteq> []"
    proof
      assume "elemsOf r = []"
      then have "d @ slash # r = d" using e d(1) by simp
      then show False by simp
    qed
    then have "d @ slash # r = d @ slash # joinWith [slash] (elemsOf r)"
      using e d(1,3) joinWith_append [of "elemsOf d" "elemsOf r" "[slash]"] by (metis append_Cons append_Nil append_assoc)
    then have "r = joinWith [slash] (elemsOf r)" by simp
    then show "r \<noteq> [] \<and> cleanAbs (slash # r)" using p r cleanAbs_join [OF p] by auto
  next
    assume r: "r \<noteq> [] \<and> cleanAbs (slash # r)"
    then have e: "r = joinWith [slash] (elemsOf r)" "list_all properElem (elemsOf r)"
      using cleanAbs_elems [of "slash # r"] by auto
    then have "elemsOf r \<noteq> []" using r by auto
    then have "slash # joinWith [slash] (elemsOf d @ elemsOf r) = d @ slash # r"
      using d e joinWith_append [of "elemsOf d" "elemsOf r" "[slash]"] by (metis append_Cons append_Nil append_assoc)
    moreover have "list_all properElem (elemsOf d @ elemsOf r)" using d e by simp
    ultimately show "cleanAbs (d @ slash # r)" using cleanAbs_join by metis
  qed
qed

lemma cleanPath_append:
  assumes "cleanAbs d" and "cleanAbs (slash # r)"
  shows "elemsOf (d @ [slash, slash] @ r) = elemsOf d @ elemsOf r"
    "elemsOf (d @ [slash, slash] @ r @ [slash]) = elemsOf d @ elemsOf r"
  using elemsOf_append [of d "slash # r"] elemsOf_append [of d "slash # r @ [slash]"]
    elemsOf_append [of r "[]"] by auto

lemma cleanPath_below:
  assumes "cleanAbs d" and "d \<noteq> [slash]" and "cleanAbs (slash # r)" and "r \<noteq> []"
  shows "cleanPath (d @ [slash, slash] @ r) = d @ slash # r"
    "cleanPath (d @ [slash, slash] @ r @ [slash]) = d @ slash # r"
proof -
  have c: "cleanAbs (d @ slash # r)" using assms cleanAbs_append_iff by blast
  then have e: "d @ slash # r = slash # joinWith [slash] (elemsOf d @ elemsOf r)"
    "list_all properElem (elemsOf d @ elemsOf r)"
    using cleanAbs_elems [of "d @ slash # r"] by auto
  have p: "prefix [slash] (d @ x)" for x using cleanAbs_starts [OF assms(1)] by auto
  show "cleanPath (d @ [slash, slash] @ r) = d @ slash # r"
    "cleanPath (d @ [slash, slash] @ r @ [slash]) = d @ slash # r"
    using cleanPath_of_elems [OF p] e cleanPath_append [OF assms(1,3)] by metis+
qed

lemma cleanPath_trailing: "cleanAbs d \<Longrightarrow> cleanPath (d @ [slash]) = d"
  using cleanPath_of_elems [of "d @ [slash]"] cleanAbs_elems [of d] cleanAbs_starts [of d]
    elemsOf_append [of d "[]"] by auto

lemma cleanAbs_parent:
  assumes "cleanAbs (a @ slash # e)" and "slash \<notin> set e" and "a @ slash # e \<noteq> [slash]"
  shows "e \<noteq> [] \<and> properElem e" "a \<noteq> [] \<Longrightarrow> cleanAbs a \<and> a \<noteq> [slash]"
proof -
  let ?s = "a @ slash # e"
  have s: "?s = slash # joinWith [slash] (elemsOf a @ elemsOf e)"
    "list_all properElem (elemsOf a @ elemsOf e)"
    using assms(1) cleanAbs_elems [of ?s] by auto
  have last: "last ?s \<noteq> slash" using cleanAbs_last [OF assms(1,3)] .
  show e: "e \<noteq> [] \<and> properElem e"
  proof
    show "e \<noteq> []" using last by auto
    then show "properElem e" using s(2) elemsOf_single [OF assms(2)] by simp
  qed
  assume a: "a \<noteq> []"
  then obtain a' where a': "a = slash # a'" using cleanAbs_starts [OF assms(1)] by (cases a) auto
  have ne: "elemsOf a \<noteq> []"
  proof
    assume "elemsOf a = []"
    then have "?s = slash # e" using s elemsOf_single [OF assms(2)] e by simp
    then show False using a by auto
  qed
  then have "?s = (slash # joinWith [slash] (elemsOf a)) @ slash # e"
    using s elemsOf_single [OF assms(2)] e joinWith_append [of "elemsOf a" "[e]" "[slash]"] by simp
  then have "a = slash # joinWith [slash] (elemsOf a)" by (simp only: append_same_eq)
  moreover have "list_all properElem (elemsOf a)" using s(2) by simp
  ultimately show "cleanAbs a \<and> a \<noteq> [slash]"
    using cleanAbs_join ne by (metis elemsOf_Nil elemsOf_slash)
qed

end
