(* ===== verification/Badger_Move.thy ===== *)
theory Badger_Move
  imports Badger_Mem Paths
begin

text \<open>
  \<open>Move\<close>: on a well-shaped tree the whole subtree, and nothing else, appears at the destination
  with its identifiers and contents, and what the destination replaced is gone.
\<close>

section \<open>Well-shaped trees\<close>

text \<open>
  Paths are clean, directories' with a trailing slash; every entry's parent is a directory; no
  name belongs to a file and a directory at once.
\<close>

definition shapedPath :: "imeta \<Rightarrow> string \<Rightarrow> bool" where
  "shapedPath im p \<longleftrightarrow> (\<exists>q. cleanAbs q \<and> q \<noteq> Root \<and> p = (if mIsDir im then q @ ''/'' else q))"

definition wf_tree :: "(string \<Rightarrow> imeta option) \<Rightarrow> bool" where
  "wf_tree M \<longleftrightarrow>
     (\<forall>p im. M p = Some im \<longrightarrow> shapedPath im p)
     \<and> (\<forall>p im. M p = Some im \<longrightarrow> getParentPath p = Root \<or> (\<exists>dm. M (getParentPath p) = Some dm \<and> mIsDir dm))
     \<and> (\<forall>q. M q \<noteq> None \<longrightarrow> M (q @ ''/'') = None)"

text \<open>What of an entry a move must not change.\<close>

definition entryOf :: "('d, 't, 'z) benv_scheme \<Rightarrow> store \<Rightarrow> string
    \<Rightarrow> (uuid \<times> bool \<times> int \<times> string \<times> bytes) option" where
  "entryOf E m p = map_option (\<lambda>im. (mID im, mIsDir im, mSize im, mComments im, contentOf m im)) (metaAt E m p)"

text \<open>
  The effect of moving the entry at \<open>p\<close> to \<open>D\<close>, whose clean form is \<open>x\<close>: its subtree is now at
  \<open>D\<close>, what was at \<open>x\<close> or below is gone, all other entries are as before.
\<close>

definition relocated :: "('d, 't, 'z) benv_scheme \<Rightarrow> store \<Rightarrow> store \<Rightarrow> bool \<Rightarrow> string \<Rightarrow> string
    \<Rightarrow> string \<Rightarrow> bool" where
  "relocated E m m' isdir p D x \<longleftrightarrow> (\<forall>q. entryOf E m' q =
     (if subtree D isdir q then entryOf E m (p @ drop (length D) q)
      else if subtree p isdir q \<or> q = x \<or> prefix (x @ ''/'') q then None
      else entryOf E m q))"

section \<open>Parents\<close>

lemma lastIndex_split: "slash \<notin> set e \<Longrightarrow> lastIndex slash (a @ slash # e) = int (length a)"
  using lastIndex_neg [of slash e] by (simp add: lastIndex_append Let_def)

lemma trimSuffix_slash_snoc [simp]: "trimSuffix (p @ [slash]) [slash] = p"
  by (simp add: trimSuffix_def)

lemma trimSuffix_slash_none: "p = [] \<or> last p \<noteq> slash \<Longrightarrow> trimSuffix p [slash] = p"
  by (auto simp: trimSuffix_def suffix_def)

lemma getParentPath_split:
  assumes "slash \<notin> set e" and "e \<noteq> []"
  shows "getParentPath (a @ slash # e) = (if a = [] then Root else a @ [slash])"
    "getParentPath (a @ slash # e @ [slash]) = (if a = [] then Root else a @ [slash])"
proof -
  have l: "last (a @ slash # e) \<noteq> slash" 
    using assms by (metis last_ConsR last_appendR last_in_set list.distinct(1))
  have s: "trimSuffix (a @ slash # e @ [slash]) [slash] = a @ slash # e"
    using trimSuffix_slash_snoc [of "a @ slash # e"] by simp
  have t: "take (nat (int (length a)) + 1) (a @ slash # e) = a @ [slash]" by simp
  have nr: "a @ slash # e \<noteq> Root" "a @ slash # e @ [slash] \<noteq> Root" using assms by (cases a; simp add: Root_def)+
  show "getParentPath (a @ slash # e) = (if a = [] then Root else a @ [slash])"
    using nr(1) t by (simp add: getParentPath_def Let_def trimSuffix_slash_none [OF disjI2 [OF l]] lastIndex_split [OF assms(1)])
  show "getParentPath (a @ slash # e @ [slash]) = (if a = [] then Root else a @ [slash])"
    using nr(2) t by (simp add: getParentPath_def Let_def s lastIndex_split [OF assms(1)])
qed

lemma clean_split:
  assumes "cleanAbs q" and "q \<noteq> [slash]"
  obtains a e where "q = a @ slash # e" "slash \<notin> set e" "e \<noteq> []" "a = [] \<or> cleanAbs a \<and> a \<noteq> [slash]"
proof -
  have "slash \<in> set q" using cleanAbs_starts [OF assms(1)] by auto
  then obtain a e where q: "q = a @ slash # e" "slash \<notin> set e" using last_slash_split by metis
  then show thesis using cleanAbs_parent [of a e] assms that by auto
qed

lemma slash_prefix:
  assumes "slash \<notin> set e" and "prefix (d @ [slash]) (a @ slash # e)"
  shows "prefix (d @ [slash]) (a @ [slash])"
proof -
  have "prefix (a @ [slash]) (a @ slash # e)" by simp
  with assms(2) have "prefix (d @ [slash]) (a @ [slash]) \<or> prefix (a @ [slash]) (d @ [slash])"
    by (rule prefix_same_cases)
  then show ?thesis
  proof
    assume "prefix (a @ [slash]) (d @ [slash])"
    then obtain z where z: "d @ [slash] = a @ slash # z" by (auto simp: prefix_def)
    then have "set z \<subseteq> set e" using assms(2) by (auto simp: prefix_def)
    moreover have "z \<noteq> [] \<Longrightarrow> slash \<in> set z"
      using z by (cases z rule: rev_cases) auto
    ultimately have "z = []" using assms(1) by auto
    then show ?thesis using z by simp
  qed
qed

text \<open>Above every entry of a well-shaped tree there are directories.\<close>

lemma wf_tree_above:
  assumes "wf_tree M" and "cleanAbs d" and "d \<noteq> [slash]" and "prefix (d @ [slash]) q"
    and "q \<noteq> d @ [slash]" and "M q = Some im"
  shows "\<exists>dm. M (d @ [slash]) = Some dm \<and> mIsDir dm"
  using assms(4-)
proof (induction "length q" arbitrary: q im rule: less_induct)
  case less
  obtain w where w: "cleanAbs w" "w \<noteq> [slash]" "q = w \<or> q = w @ [slash]"
    using assms(1) less.prems(3) unfolding wf_tree_def shapedPath_def Root_def by (metis (full_types))
  have pw: "prefix (d @ [slash]) w"
  proof -
    obtain r where r: "q = (d @ [slash]) @ r" using less.prems(1) by (auto simp: prefix_def)
    then have "r \<noteq> []" using less.prems(2) by auto
    then show ?thesis
      using w(3) r by (cases r rule: rev_cases) auto
  qed
  obtain a e where ae: "w = a @ slash # e" "slash \<notin> set e" "e \<noteq> []" "a = [] \<or> cleanAbs a \<and> a \<noteq> [slash]"
    using clean_split [OF w(1,2)] .
  have par: "getParentPath q = (if a = [] then Root else a @ [slash])"
    using w(3) getParentPath_split [OF ae(2,3), of a] by (auto simp: ae(1))
  have pa: "prefix (d @ [slash]) (a @ [slash])"
    using slash_prefix [OF ae(2)] pw ae(1) by simp
  have ane: "a \<noteq> []" using pa cleanAbs_starts [OF assms(2)] by (auto simp: prefix_def Cons_eq_append_conv)
  then have "\<exists>dm. M (a @ [slash]) = Some dm \<and> mIsDir dm"
    using assms(1) less.prems(3) par ae(4) unfolding wf_tree_def Root_def by (metis append_is_Nil_conv append_eq_Cons_conv list.simps(3))
  then obtain dm where dm: "M (a @ [slash]) = Some dm" "mIsDir dm" by blast
  show ?case
  proof (cases "a @ [slash] = d @ [slash]")
    case True
    then show ?thesis using dm by auto
  next
    case False
    have "length (a @ [slash]) < length q" using w(3) ae(1,3) by (cases e) auto
    then show ?thesis using less.hyps [OF _ pa False dm(1)] by blast
  qed
qed

section \<open>Where things go\<close>

text \<open>Directories' own paths are the prefix of what lies below them.\<close>

lemma shaped_dir: "shapedPath im p \<Longrightarrow> mIsDir im \<Longrightarrow> withSlash p = p"
  by (auto simp: shapedPath_def withSlash_def suffix_def)

lemma shaped_clean: "shapedPath im p \<Longrightarrow> cleanAbs (cleanPath p) \<and> cleanPath p \<noteq> [slash]
    \<and> p = (if mIsDir im then cleanPath p @ [slash] else cleanPath p)"
  by (auto simp: shapedPath_def cleanPath_trailing cleanPath_fix Root_def)

text \<open>The path a child of the directory \<open>s/\<close> moves to below the clean path \<open>d\<close>.\<close>

lemma childPath_eq:
  assumes "cleanAbs d" and "d \<noteq> [slash]" and "cleanAbs s" and "s \<noteq> [slash]"
    and "shapedPath im (mPath im)" and "mPath im = s @ slash # r" and "r \<noteq> []"
  shows "childPath (s @ [slash]) (d @ [slash]) im = d @ slash # r"
proof -
  have pre: "trimPrefix (mPath im) (s @ [slash]) = r"
    using assms(6) by (simp add: trimPrefix_def)
  have j: "joinPath [d @ [slash], r] = cleanPath (d @ [slash, slash] @ r)"
    using assms(7) cleanAbs_starts [OF assms(1)] by (auto simp: joinPath_def)
  obtain q where q: "cleanAbs q" "s @ slash # r = (if mIsDir im then q @ [slash] else q)"
    using assms(5,6) by (auto simp: shapedPath_def)
  show ?thesis
  proof (cases "mIsDir im")
    case False
    then have "cleanAbs (s @ slash # r)" using q by simp
    then have r: "cleanAbs (slash # r)" using cleanAbs_append_iff [OF assms(3,4)] by blast
    then have "childPath (s @ [slash]) (d @ [slash]) im = cleanPath (d @ [slash, slash] @ r)"
      using False pre j by (simp add: childPath_def Let_def)
    then show ?thesis using cleanPath_below(1) [OF assms(1,2) r assms(7)] by simp
  next
    case True
    then have e: "s @ slash # r = q @ [slash]" using q by simp
    then obtain r' where r': "r = r' @ [slash]" using assms(7) by (cases r rule: rev_cases) auto
    then have qr: "q = s @ slash # r'" using e by simp
    then have rr: "r' \<noteq> []" "cleanAbs (slash # r')" using q(1) cleanAbs_append_iff [OF assms(3,4)] by blast+
    have cp: "cleanPath (d @ [slash, slash] @ r) = d @ slash # r'"
      using cleanPath_below(2) [OF assms(1,2) rr(2,1)] r' by simp
    have "cleanAbs (d @ slash # r')" using cleanAbs_append_iff [OF assms(1,2)] rr by blast
    then have "last (d @ slash # r') \<noteq> slash"
      by (rule cleanAbs_last) (use cleanAbs_starts [OF assms(1)] in auto)
    then have "\<not> suffix [slash] (d @ slash # r')" by (metis last_snoc suffix_def)
    then show ?thesis using True pre j cp r' by (simp add: childPath_def Let_def)
  qed
qed

section \<open>The moving loop\<close>

lemma renamed_fields [simp]:
  "mPath (renamed im p now) = p" "mID (renamed im p now) = mID im" "mIsDir (renamed im p now) = mIsDir im"
  "mSize (renamed im p now) = mSize im" "mComments (renamed im p now) = mComments im"
  "mInternalID (renamed im p now) = mInternalID im"
  by (simp_all add: renamed_def Let_def)

lemma renamed_same [simp]: "sameContent (renamed im p now) im"
  by (simp add: sameContent_def)

context badger_env
begin

lemma moveItem_keeps:
  assumes "shows d t m" and "db_ok E m" and "metaAt E m (mPath im) = Some im" and "utf8 q"
    and "q \<noteq> mPath im \<Longrightarrow> metaAt E m q = None" and "moveItem E now t im q = Inr (im', t')"
  shows "im' = renamed im q now"
    "\<exists>m'. shows d t' m' \<and> keeps E m m' ((metaAt E m)(mPath im := None, q \<mapsto> renamed im q now))"
proof -
  let ?im = "renamed im q now"
  obtain t1 t2 where t1: "kvDelete E t (makeKey prefixMeta (mPath im)) = Inr t1"
    and t2: "setMeta E t1 (makeKey prefixMeta q) ?im = Inr t2"
    and t3: "kvSet E t2 (makeKey prefixIndex (idBytes (mID ?im))) q = Inr t'" and "im' = ?im"
    using assms(6) by (auto simp: moveItem_def Let_def)
  show "im' = ?im" by fact
  have "index_ok E m" using assms(2) by (simp add: db_ok_def)
  then have tx: "textOk ?im" using index_okD assms(3,4) textOk_renamed by blast
  obtain b where b: "bUnmarshal E b = Inr ?im"
    "shows d t2 (m(makeKey prefixMeta (mPath im) := None, makeKey prefixMeta q \<mapsto> b))"
    using shows_setMeta [OF shows_delete [OF assms(1) t1] tx t2] .
  have "keeps E m (m(makeKey prefixMeta (mPath im) := None, makeKey prefixMeta q \<mapsto> b,
      makeKey prefixIndex (idBytes (mID ?im)) \<mapsto> q)) ((metaAt E m)(mPath im := None, q \<mapsto> ?im))"
    by (rule keeps_move [OF assms(2,3) b(1) tx]) (use assms(5) in auto)
  then show "\<exists>m'. shows d t' m' \<and> keeps E m m' ((metaAt E m)(mPath im := None, q \<mapsto> ?im))"
    using shows_set [OF b(2) t3] by blast
qed

lemma transferItems_ok:
  assumes "shows d t m" and "index_ok E m" and "metaAt E m (mPath root) = Some root"
    and "transferItems E t root = Inr ims"
  shows "\<And>jm. jm \<in> set ims \<Longrightarrow> metaAt E m (mPath jm) = Some jm" "distinct (map mPath ims)"
    "mPath ` set ims = {q. metaAt E m q \<noteq> None
       \<and> (if mIsDir root then prefix (mPath root) q else q = mPath root)}"
proof -
  have "(\<forall>jm \<in> set ims. metaAt E m (mPath jm) = Some jm) \<and> distinct (map mPath ims)
    \<and> mPath ` set ims = {q. metaAt E m q \<noteq> None
       \<and> (if mIsDir root then prefix (mPath root) q else q = mPath root)}"
  proof (cases "mIsDir root")
    case False
    then show ?thesis using assms(3,4) by (auto simp: transferItems_def)
  next
    case True
    then obtain ims0 where r: "readAll E (kvScan E t (makeKey prefixMeta (mPath root))) = Inr ims0"
      and ims: "ims = root # filter (\<lambda>item. mID item \<noteq> mID root) ims0"
      using assms(4) by (auto simp: transferItems_def)
    note sc = readAll_scan [OF assms(1,2) r]
    have at: "metaAt E m (mPath jm) = Some jm \<and> prefix (mPath root) (mPath jm)" if "jm \<in> set ims0" for jm
      using that index_okD [OF assms(2)] sc(1) by auto
    have "mPath root \<notin> mPath ` set (filter (\<lambda>item. mID item \<noteq> mID root) ims0)"
      using at assms(3) by fastforce
    moreover have "distinct (map mPath (filter (\<lambda>item. mID item \<noteq> mID root) ims0))"
      using sc(2) by (simp add: distinct_map inj_on_def)
    moreover have "mPath ` set ims = {q. metaAt E m q \<noteq> None \<and> prefix (mPath root) q}"
    proof (intro set_eqI iffI)
      fix q assume "q \<in> mPath ` set ims"
      then show "q \<in> {q. metaAt E m q \<noteq> None \<and> prefix (mPath root) q}"
        using at assms(3) by (auto simp: ims)
    next
      fix q assume "q \<in> {q. metaAt E m q \<noteq> None \<and> prefix (mPath root) q}"
      then obtain jm where jm: "metaAt E m q = Some jm" "jm \<in> set ims0" "mPath jm = q"
        using sc(1) index_okD [OF assms(2)] by blast
      show "q \<in> mPath ` set ims"
      proof (cases "mID jm = mID root")
        case True
        then have "q = mPath root" using index_ok_ids [OF assms(2) jm(1) assms(3)] by simp
        then show ?thesis by (simp add: ims)
      next
        case False
        then show ?thesis using jm(2,3) by (auto simp: ims)
      qed
    qed
    ultimately show ?thesis using True at assms(3) by (auto simp: ims)
  qed
  then show "\<And>jm. jm \<in> set ims \<Longrightarrow> metaAt E m (mPath jm) = Some jm" "distinct (map mPath ims)"
    "mPath ` set ims = {q. metaAt E m q \<noteq> None
       \<and> (if mIsDir root then prefix (mPath root) q else q = mPath root)}" by blast+
qed

text \<open>
  Moving a list of records to fresh places: afterwards each is at its new place, unchanged but
  for its name and time, and no other place has changed.
\<close>

lemma moveEach_keeps:
  assumes "shows d t m" and "db_ok E m"
    and "\<And>im. im \<in> set ims \<Longrightarrow> metaAt E m (mPath im) = Some im \<and> utf8 (f im)"
    and "distinct (map mPath ims)" and "distinct (map f ims)"
    and "\<And>im. im \<in> set ims \<Longrightarrow> metaAt E m (f im) = None"
    and "\<And>im. im \<in> set ims \<Longrightarrow> childPath pre dst im = f im"
    and "moveEach E clock k pre dst ims t = Inr t'"
  shows "\<exists>m' M. shows d t' m' \<and> keeps E m m' M
    \<and> (\<forall>im \<in> set ims. \<exists>now. M (f im) = Some (renamed im (f im) now))
    \<and> (\<forall>q. q \<notin> f ` set ims \<longrightarrow> M q = (if q \<in> mPath ` set ims then None else metaAt E m q))"
  using assms
proof (induction ims arbitrary: k t m)
  case Nil
  then show ?case using keeps_refl [of E m] by (intro exI [of _ m] exI [of _ "metaAt E m"]) auto
next
  case (Cons im ims)
  obtain im1 t1 where s: "moveItem E (clock k) t im (f im) = Inr (im1, t1)"
    and rest: "moveEach E clock (Suc k) pre dst ims t1 = Inr t'"
    using Cons.prems(7,8) by auto
  have im: "metaAt E m (mPath im) = Some im" "utf8 (f im)" and none: "metaAt E m (f im) = None"
    using Cons.prems(3,6) by auto
  obtain m1 where m1: "shows d t1 m1"
      "keeps E m m1 ((metaAt E m)(mPath im := None, f im \<mapsto> renamed im (f im) (clock k)))"
    using moveItem_keeps(2) [OF Cons.prems(1,2) im _ s] none by blast
  then have M1: "db_ok E m1" "metaAt E m1 = (metaAt E m)(mPath im := None, f im \<mapsto> renamed im (f im) (clock k))"
    by (auto simp: keeps_def)
  have ne: "f im \<noteq> mPath jm" if "jm \<in> set (im # ims)" for jm
    using none Cons.prems(3) [OF that] by auto
  have "\<exists>m' M. shows d t' m' \<and> keeps E m1 m' M
    \<and> (\<forall>im \<in> set ims. \<exists>now. M (f im) = Some (renamed im (f im) now))
    \<and> (\<forall>q. q \<notin> f ` set ims \<longrightarrow> M q = (if q \<in> mPath ` set ims then None else metaAt E m1 q))"
  proof (rule Cons.IH [OF m1(1) M1(1) _ _ _ _ _ rest])
    fix jm assume j: "jm \<in> set ims"
    have "mPath jm \<noteq> mPath im" using Cons.prems(4) j by auto (metis imageI)
    then show "metaAt E m1 (mPath jm) = Some jm \<and> utf8 (f jm)"
      using Cons.prems(3) [of jm] j ne [of jm] M1(2) by auto
    have "f jm \<noteq> f im" using Cons.prems(5) j by auto (metis imageI)
    then show "metaAt E m1 (f jm) = None" using Cons.prems(6) [of jm] j M1(2) by auto
    show "childPath pre dst jm = f jm" using Cons.prems(7) j by simp
  qed (use Cons.prems(4,5) in auto)
  then obtain m2 M where m2: "shows d t' m2" "keeps E m1 m2 M"
    "\<And>jm. jm \<in> set ims \<Longrightarrow> \<exists>now. M (f jm) = Some (renamed jm (f jm) now)"
    "\<And>q. q \<notin> f ` set ims \<Longrightarrow> M q = (if q \<in> mPath ` set ims then None else metaAt E m1 q)"
    by blast
  have "f im \<notin> f ` set ims" using Cons.prems(5) by auto
  moreover have "f im \<notin> mPath ` set ims" using ne by auto
  ultimately have Mim: "M (f im) = Some (renamed im (f im) (clock k))" using m2(4) M1(2) by simp
  have "keeps E m m2 M"
  proof (rule keeps_trans [OF m1(2) m2(2)])
    fix p jm assume p: "M p = Some jm"
    show "\<exists>q km. ((metaAt E m)(mPath im := None, f im \<mapsto> renamed im (f im) (clock k))) q = Some km
        \<and> sameContent jm km"
    proof (cases "p \<in> f ` set ims")
      case True
      then obtain km where km: "km \<in> set ims" "p = f km" by blast
      with m2(3) p obtain now where "jm = renamed km (f km) now" by fastforce
      moreover have "metaAt E m1 (mPath km) = Some km"
      proof -
        have "mPath km \<noteq> mPath im" using Cons.prems(4) km by auto (metis imageI)
        then show ?thesis using Cons.prems(3) [of km] km ne [of km] M1(2) by auto
      qed
      ultimately show ?thesis unfolding M1(2) [symmetric] using renamed_same by blast
    next
      case False
      then have "metaAt E m1 p = Some jm" using m2(4) [of p] p by (simp split: if_splits)
      then show ?thesis using M1(2) sameContent_refl by metis
    qed
  qed
  moreover have "\<exists>now. M (f jm) = Some (renamed jm (f jm) now)" if "jm \<in> set (im # ims)" for jm
    using that m2(3) Mim by auto
  moreover have "M q = (if q \<in> mPath ` set (im # ims) then None else metaAt E m q)"
    if "q \<notin> f ` set (im # ims)" for q
  proof -
    have "q \<noteq> f im" "q \<notin> f ` set ims" using that by auto
    then show ?thesis using m2(4) [of q] M1(2) by simp
  qed
  ultimately show ?case using m2(1) by blast
qed

end

section \<open>Move\<close>

context badger_reliable
begin

lemma readable_all: "readAll E (kvScan E t p) = Inr ims \<Longrightarrow> readable E (kvScan E t p) = ims"
proof -
  have "mapE (\<lambda>(key, v). getMeta E v) its = Inr ims \<Longrightarrow> readable E its = ims" for its
    by (induction its arbitrary: ims) auto
  then show "readAll E (kvScan E t p) = Inr ims \<Longrightarrow> ?thesis" by (simp add: readAll_def)
qed

lemma readAll_total:
  assumes "shows d t m" and "index_ok E m"
  shows "\<exists>ims. readAll E (kvScan E t (makeKey prefixMeta p)) = Inr ims"
proof -
  have "\<exists>im. getMeta E v = Inr im" if kv: "(k, v) \<in> set (kvScan E t (makeKey prefixMeta p))" for k v
  proof -
    obtain b where b: "v = Inr b" using scan_total [OF kv] by blast
    then have "m k = Some b" "prefix (makeKey prefixMeta p) k"
      using shows_scan [OF assms(1)] kv by auto
    then obtain q where "m (makeKey prefixMeta q) = Some b" by (auto simp: makeKey_def prefix_def)
    then obtain im where "bUnmarshal E b = Inr im"
      using assms(2) unfolding index_ok_def decodable_def
      by (cases "bUnmarshal E b") (auto simp: metaAt_def split: option.splits sum.splits)
    then show ?thesis by (simp add: b getMeta_def)
  qed
  then have "\<forall>kv \<in> set (kvScan E t (makeKey prefixMeta p)). \<exists>im. (\<lambda>(key, v). getMeta E v) kv = Inr im"
    by auto
  then obtain g where "\<And>kv. kv \<in> set (kvScan E t (makeKey prefixMeta p)) \<Longrightarrow> (\<lambda>(key, v). getMeta E v) kv = Inr (g kv)"
    by metis
  then show ?thesis unfolding readAll_def by (meson mapE_total)
qed

text \<open>Clearing the destination: nothing is left at or below it.\<close>

lemma prepareTransfer_keeps:
  assumes "shows d t m" and "db_ok E m" and "wf_tree (metaAt E m)" and "cleanAbs x" and "x \<noteq> [slash]"
    and "D = x \<or> D = x @ [slash]" and "prepareTransfer E t D rep = Inr t'"
  shows "\<exists>m'. shows d t' m'
    \<and> keeps E m m' (map_without (\<lambda>q. q = x \<or> prefix (x @ [slash]) q) (metaAt E m))"
proof -
  let ?P = "\<lambda>q. q = x \<or> prefix (x @ [slash]) q" and ?M = "metaAt E m"
  have io: "index_ok E m" using assms(2) by (simp add: db_ok_def)
  have tx: "trimSuffix D ''/'' = x"
    using assms(6) cleanAbs_last [OF assms(4,5)] by (auto simp: trimSuffix_slash_none)
  have nt: "?M (x @ [slash]) = None" if "?M x \<noteq> None"
    using assms(3) that unfolding wf_tree_def by blast
  have below: "?M q = None" if "?M (x @ [slash]) = None" "prefix (x @ [slash]) q" for q
    using wf_tree_above [OF assms(3-5) that(2)] that(1) by (cases "q = x @ [slash]"; cases "?M q") auto
  have get: "metaAt E m p = None" if "kvGet E t (makeKey prefixMeta p) = Inl e" for p e
    using that assms(1) by (auto simp: get_iff shows_def metaAt_def split: option.splits)
  show ?thesis
  proof (cases "findByPath E t x")
    case (Inl e)
    then have t': "t' = t"
      using assms(7) by (auto simp: prepareTransfer_def tx split: if_splits option.splits)
    have "?M x = None \<and> ?M (x @ [slash]) = None"
    proof -
      have dec: "\<exists>im. getMeta E (Inr v) = Inr im" if "kvGet E t (makeKey prefixMeta p) = Inr v" for p v
      proof -
        have "m (makeKey prefixMeta p) = Some v" using shows_get [OF assms(1) that] .
        then show ?thesis using io unfolding index_ok_def decodable_def
          by (cases "bUnmarshal E v") (auto simp: metaAt_def getMeta_def split: option.splits sum.splits)
      qed
      have "errorsIs e ErrNotFound" using assms(7) Inl by (auto simp: prepareTransfer_def tx split: if_splits)
      show ?thesis
      proof (cases "kvGet E t (makeKey prefixMeta x)")
        case (Inr v)
        then show ?thesis using dec [OF Inr] Inl assms(5) by (auto simp: findByPath_def Root_def)
      next
        case (Inl e1)
        then have "e1 = ErrKeyNotFound" by (auto simp: get_iff split: option.splits)
        show ?thesis
        proof (cases "kvGet E t (makeKey prefixMeta (x @ ''/''))")
          case (Inr v)
          then show ?thesis using dec [OF Inr] Inl \<open>findByPath E t x = Inl e\<close> \<open>e1 = ErrKeyNotFound\<close> assms(5)
            by (auto simp: findByPath_def Root_def)
        next
          case (Inl e2)
          then show ?thesis using get [OF \<open>kvGet E t (makeKey prefixMeta x) = Inl e1\<close>] get [OF Inl] by simp
        qed
      qed
    qed
    then have "map_without ?P ?M = ?M" using below by (auto simp: fun_eq_iff)
    then show ?thesis using assms(1) keeps_refl [OF assms(2)] t' by auto
  next
    case (Inr target)
    note f = found_by_path [OF assms(1) io Inr]
    obtain ims where ims: "transferItems E t target = Inr ims" and del: "deleteItems E ims t = Inr t'"
      using assms(7) Inr by (auto simp: prepareTransfer_def tx split: option.splits)
    have sh: "shapedPath target (mPath target)" using assms(3) f(1) unfolding wf_tree_def by blast
    note ti = transferItems_ok [OF assms(1) io f(1) ims]
    obtain m' where m': "shows d t' m'" "keeps E m m' (map_without (\<lambda>p. p \<in> mPath ` set ims) ?M)"
      using deleteItems_keeps [OF assms(1,2) ti(1,2) del] by blast
    have iff: "q \<in> mPath ` set ims \<longleftrightarrow> ?P q" if q: "?M q \<noteq> None" for q
    proof (cases "mIsDir target")
      case True
      then have p: "mPath target = x @ [slash]"
        using sh f(2) cleanAbs_last [OF assms(4,5)] by (auto simp: shapedPath_def)
      then have "?M x = None" using nt f(1) by fastforce
      then show ?thesis using q True p ti(3) by auto
    next
      case False
      then have p: "mPath target = x"
      proof -
        have "cleanAbs (mPath target)" "mPath target \<noteq> [slash]"
          using sh False by (auto simp: shapedPath_def Root_def)
        then have "last (mPath target) \<noteq> slash" by (rule cleanAbs_last)
        then show ?thesis using f(2) by (metis last_snoc)
      qed
      have "?M x = Some target" using f(1) unfolding p .
      then have "?M (x @ [slash]) = None" using nt by simp
      then have nq: "\<not> prefix (x @ [slash]) q" using below [of q] q by metis
      have "mPath ` set ims = {q. ?M q \<noteq> None \<and> q = x}" using ti(3) False p by simp
      then show ?thesis using q nq by blast
    qed
    have "map_without (\<lambda>p. p \<in> mPath ` set ims) ?M = map_without ?P ?M"
    proof
      fix q show "map_without (\<lambda>p. p \<in> mPath ` set ims) ?M q = map_without ?P ?M q"
        using iff [of q] by (cases "?M q = None") (auto simp: map_without_def)
    qed
    with m' show ?thesis by metis
  qed
qed


lemma keeps_entryOf:
  "keeps E m m' M \<Longrightarrow> entryOf E m' q =
     map_option (\<lambda>im. (mID im, mIsDir im, mSize im, mComments im, contentOf m im)) (M q)"
  by (cases "M q") (auto simp: keeps_def entryOf_def)

lemma entry_renamed:
  "(mID (renamed im p now), mIsDir (renamed im p now), mSize (renamed im p now),
    mComments (renamed im p now), contentOf m (renamed im p now)) =
   (mID im, mIsDir im, mSize im, mComments im, contentOf m im)"
  by (simp add: contentOf_same [OF renamed_same])

lemma slash_prefix_snoc: "prefix (a @ [slash]) (b @ [slash]) \<longleftrightarrow> a = b \<or> prefix (a @ [slash]) b"
  by auto

lemma moveTx_ok:
  assumes "shows d t m" and "db_ok E m" and wf: "wf_tree (metaAt E m)" and "utf8 dst"
    and "moveTx E clock i dst rep t = Inr (mt, t')"
  shows "\<exists>m' im. shows d t' m' \<and> metaAt E m (mPath im) = Some im \<and> mID im = i
    \<and> db_ok E m' \<and> mt = Meta_of (renamed im (mPath mt) (clock 0))
    \<and> TransferPath im dst = Inr (mPath mt)
    \<and> relocated E m m' (mIsDir im) (mPath im) (mPath mt) (cleanPath (slash # trimSpace dst))"
proof -
  let ?M = "metaAt E m"
  have io: "index_ok E m" using assms(2) by (simp add: db_ok_def)
  obtain item im D t1 im' t2 where f: "findMetaItemByID E t i = Inr item" "getMeta E (Inr item) = Inr im"
    and tp: "TransferPath im dst = Inr D" and pt: "prepareTransfer E t D rep = Inr t1"
    and mi: "moveItem E (clock 0) t1 im D = Inr (im', t2)" and mt: "mt = Meta_of im'"
    and ch: "if mIsDir im' then moveChildren E clock 1 t2 (mPath im) D = Inr t' else t' = t2"
    using assms(5) by (auto simp: moveTx_def split: if_splits)
  note im = found_by_id [OF assms(1) io f]
  define p where "p = mPath im"
  have Mp: "?M p = Some im" using im(1) by (simp add: p_def)
  have sh: "shapedPath im p" using wf Mp unfolding wf_tree_def by blast
  define x where "x = cleanPath (slash # trimSpace dst)"
  have x: "D = (if mIsDir im then x @ [slash] else x)" "cleanAbs x" "x \<noteq> [slash]"
    "cleanPath p \<noteq> x" "\<not> prefix (x @ [slash]) (cleanPath p)"
    "mIsDir im \<Longrightarrow> \<not> prefix (cleanPath p @ [slash]) x"
    using tp by (auto simp: x_def p_def elim!: TransferPath_InrD)
  let ?P = "\<lambda>q. q = x \<or> prefix (x @ [slash]) q"
  define s where "s = cleanPath p"
  have s: "cleanAbs s" "s \<noteq> [slash]" "p = (if mIsDir im then s @ [slash] else s)"
    using shaped_clean [OF sh] by (auto simp: s_def)
  have lx: "last x \<noteq> slash" "x \<noteq> []" using cleanAbs_last [OF x(2,3)] cleanAbs_starts [OF x(2)] by auto
  have xs: "s \<noteq> x" "\<not> prefix (x @ [slash]) s" "mIsDir im \<Longrightarrow> \<not> prefix (s @ [slash]) x"
    using x(4-6) by (simp_all add: s_def)
  have nP: "\<not> ?P p"
    using s(3) xs lx by (auto split: if_splits)
  have ux: "utf8 x" unfolding x_def using assms(4) by (intro utf8_cleanPath) (simp add: utf8_trimSpace)
  then have uD: "utf8 D" using x(1) by (simp add: utf8_snoc_slash)
  obtain m1 where m1: "shows d t1 m1" "keeps E m m1 (map_without ?P ?M)"
    using prepareTransfer_keeps [OF assms(1,2) wf x(2,3) _ pt] x(1) by (auto split: if_splits)
  then have M1: "db_ok E m1" "metaAt E m1 = map_without ?P ?M" by (auto simp: keeps_def)
  have PD: "?P D" using x(1) by auto
  then have "D \<noteq> p" using nP by blast
  have M1p: "metaAt E m1 (mPath im) = Some im" using M1(2) nP Mp by (simp add: p_def)
  have "metaAt E m1 D = None" using M1(2) PD by simp
  note mk = moveItem_keeps [OF m1(1) M1(1) M1p uD this mi]
  obtain m2 where m2: "shows d t2 m2"
    "keeps E m1 m2 ((metaAt E m1)(p := None, D \<mapsto> renamed im D (clock 0)))"
    using mk(2) by (auto simp: p_def)
  let ?M2 = "(map_without ?P ?M)(p := None, D \<mapsto> renamed im D (clock 0))"
  have k2: "keeps E m m2 ?M2"
  proof (rule keeps_trans [OF m1(2)])
    show "keeps E m1 m2 ?M2" using m2(2) M1(2) by simp
    fix q jm assume "?M2 q = Some jm"
    then show "\<exists>q km. map_without ?P ?M q = Some km \<and> sameContent jm km"
      using M1p M1(2) renamed_same sameContent_refl by (auto simp: p_def split: if_splits)
  qed
  have res: "mt = Meta_of (renamed im (mPath mt) (clock 0))" "TransferPath im dst = Inr (mPath mt)"
    "mPath mt = D"
    using mt mk(1) tp by simp_all
  have fin: ?thesis if "shows d t' m'" "keeps E m m' M'"
    "\<And>q. map_option (\<lambda>im. (mID im, mIsDir im, mSize im, mComments im, contentOf m im)) (M' q) =
      (if subtree D (mIsDir im) q then entryOf E m (p @ drop (length D) q)
       else if subtree p (mIsDir im) q \<or> ?P q then None else entryOf E m q)" for m' M'
    using that res im(1,2) keeps_entryOf [OF that(2)]
    by (intro exI [of _ m'] exI [of _ im]) (auto simp: relocated_def keeps_def p_def x_def)
  show ?thesis
  proof (cases "mIsDir im")
    case False
    then have "t' = t2" using ch mk(1) by simp
    show ?thesis
    proof (rule fin [OF _ k2])
      show "shows d t' m2" using m2(1) \<open>t' = t2\<close> by simp
      show "map_option (\<lambda>im. (mID im, mIsDir im, mSize im, mComments im, contentOf m im)) (?M2 q) =
        (if subtree D (mIsDir im) q then entryOf E m (p @ drop (length D) q)
         else if subtree p (mIsDir im) q \<or> ?P q then None else entryOf E m q)" for q
        using False Mp \<open>D \<noteq> p\<close> by (auto simp: subtree_def entryOf_def contentOf_same [OF renamed_same])
    qed
  next
    case True
    then have ps: "p = s @ [slash]" and Dx: "D = x @ [slash]" using s(3) x(1) by auto
    have disj: "\<not> ?P q" if "prefix p q" for q
    proof
      assume "?P q"
      moreover have "q \<noteq> x" using that xs(3) True ps by auto
      ultimately have "prefix (x @ [slash]) q" by blast
      with that ps have "prefix (x @ [slash]) (s @ [slash]) \<or> prefix (s @ [slash]) (x @ [slash])"
        using prefix_same_cases by blast
      then show False unfolding slash_prefix_snoc using xs True by auto
    qed
    have pD: "\<not> prefix p D" using disj [of D] PD by blast
    have mc: "moveEach E clock 1 p D (readable E (kvScan E t2 (makeKey prefixMeta p))) t2 = Inr t'"
      using ch mk(1) True shaped_dir [OF sh True] by (simp add: moveChildren_def Let_def p_def)
    have ok2: "db_ok E m2" "metaAt E m2 = ?M2" using k2 by (auto simp: keeps_def)
    then have io2: "index_ok E m2" by (simp add: db_ok_def)
    obtain ims where ra: "readAll E (kvScan E t2 (makeKey prefixMeta p)) = Inr ims"
      using readAll_total [OF m2(1) io2] by blast
    note sc = readAll_scan [OF m2(1) io2 ra]
    have in_ims: "jm \<in> set ims \<longleftrightarrow> (\<exists>q. prefix p q \<and> q \<noteq> p \<and> ?M q = Some jm)" for jm
      using sc(1) ok2(2) disj pD by (auto split: if_splits)
    define f where "f jm = x @ slash # drop (length p) (mPath jm)" for jm :: imeta
    have child: "\<exists>r. r \<noteq> [] \<and> mPath jm = s @ slash # r \<and> f jm = x @ slash # r
        \<and> ?M (mPath jm) = Some jm" if "jm \<in> set ims" for jm
    proof -
      obtain q where q: "prefix p q" "q \<noteq> p" "?M q = Some jm" using in_ims \<open>jm \<in> set ims\<close> by blast
      then have "mPath jm = q" using index_okD [OF io] by blast
      moreover obtain r where "q = p @ r" using q(1) by (auto simp: prefix_def)
      ultimately show ?thesis using q ps by (auto simp: f_def)
    qed
    have "\<exists>m' M3. shows d t' m' \<and> keeps E m2 m' M3
      \<and> (\<forall>jm \<in> set ims. \<exists>now. M3 (f jm) = Some (renamed jm (f jm) now))
      \<and> (\<forall>q. q \<notin> f ` set ims \<longrightarrow> M3 q = (if q \<in> mPath ` set ims then None else metaAt E m2 q))"
    proof (rule moveEach_keeps [OF m2(1) ok2(1) _ sc(2) _ _ _ mc [unfolded readable_all [OF ra]]])
      fix jm assume j: "jm \<in> set ims"
      obtain r where r: "r \<noteq> []" "mPath jm = s @ slash # r" "f jm = x @ slash # r"
        "?M (mPath jm) = Some jm" using child [OF j] by blast
      have "textOk jm" using index_okD [OF io r(4)] by blast
      then have "utf8 (s @ slash # r)" using r(2) by (simp add: textOk_def)
      then have "utf8 r" using utf8_split [of slash s r] by simp
      then have uf: "utf8 (f jm)" using ux r(3) by (auto intro: utf8_append)
      have "prefix p (mPath jm)" "mPath jm \<noteq> p" using r ps by auto
      then have "metaAt E m2 (mPath jm) = Some jm" using ok2(2) disj pD r(4) by auto
      with uf show "metaAt E m2 (mPath jm) = Some jm \<and> utf8 (f jm)" by simp
      have "f jm \<noteq> D" "f jm \<noteq> p" "?P (f jm)" using r(1,3) Dx disj [of p] by auto
      then show "metaAt E m2 (f jm) = None" using ok2(2) by simp
      have "shapedPath jm (mPath jm)" using wf r(4) unfolding wf_tree_def by blast
      then show "childPath p D jm = f jm"
        using childPath_eq [OF x(2,3) s(1,2) _ r(2,1)] r(3) ps Dx by simp
    next
      show "distinct (map f ims)"
      proof -
        have "jm = km" if "jm \<in> set ims" "km \<in> set ims" "f jm = f km" for jm km
          using child [OF that(1)] child [OF that(2)] that(3) by auto
        then show ?thesis using sc(2) by (simp add: distinct_map inj_on_def)
      qed
    qed
    then obtain m' M3 where m3: "shows d t' m'" "keeps E m2 m' M3"
      "\<And>jm. jm \<in> set ims \<Longrightarrow> \<exists>now. M3 (f jm) = Some (renamed jm (f jm) now)"
      "\<And>q. q \<notin> f ` set ims \<Longrightarrow> M3 q = (if q \<in> mPath ` set ims then None else ?M2 q)"
      unfolding ok2(2) by blast
    have at2: "?M2 (mPath jm) = Some jm" if "jm \<in> set ims" for jm
    proof -
      have "prefix p (mPath jm)" "mPath jm \<noteq> p" using child [OF that] ps by auto
      then show ?thesis using disj pD child [OF that] by auto
    qed
    have k3: "keeps E m m' M3"
    proof (rule keeps_trans [OF k2 m3(2)])
      fix q jm assume q: "M3 q = Some jm"
      show "\<exists>q km. ?M2 q = Some km \<and> sameContent jm km"
      proof (cases "q \<in> f ` set ims")
        case True
        then obtain km where km: "km \<in> set ims" "q = f km" by blast
        then obtain now where "jm = renamed km (f km) now" using m3(3) [OF km(1)] q by fastforce
        then show ?thesis using at2 [OF km(1)] renamed_same by blast
      next
        case False
        then have "q \<notin> mPath ` set ims" using m3(4) [OF False] q by (metis option.distinct(1))
        then have "?M2 q = Some jm" using m3(4) [OF False] q by metis
        then show ?thesis using sameContent_refl by blast
      qed
    qed
    show ?thesis
    proof (rule fin [OF m3(1) k3])
      fix q
      let ?e = "\<lambda>im. (mID im, mIsDir im, mSize im, mComments im, contentOf m im)"
      have sub: "subtree D (mIsDir im) q = prefix D q" "subtree p (mIsDir im) q = prefix p q"
        using True ps Dx by (simp_all add: subtree_def withSlash_def)
      have ent: "map_option ?e (M3 (f jm)) = Some (?e jm)" if jm: "jm \<in> set ims" for jm
        using m3(3) [OF jm] contentOf_same [OF renamed_same, of m jm] by auto
      have fD: "prefix D (f jm)" "f jm \<noteq> D" "\<not> prefix D (mPath jm)" "prefix p (mPath jm)"
        "mPath jm \<noteq> p" if "jm \<in> set ims" for jm
        using child [OF that] ps Dx disj [of "mPath jm"] by auto
      show "map_option ?e (M3 q) = (if subtree D (mIsDir im) q then entryOf E m (p @ drop (length D) q)
        else if subtree p (mIsDir im) q \<or> ?P q then None else entryOf E m q)"
      proof (cases "prefix D q")
        case True
        then obtain r where r: "q = D @ r" by (auto simp: prefix_def)
        have nm: "q \<notin> mPath ` set ims" using fD(3) True by blast
        have "map_option ?e (M3 q) = entryOf E m (p @ r)"
        proof (cases "r = []")
          case True
          then have "q \<notin> f ` set ims" using r fD(2) by auto
          then have "M3 q = ?M2 q" using m3(4) nm by simp
          then show ?thesis using r True Mp contentOf_same [OF renamed_same, of m im]
            by (simp add: entryOf_def)
        next
          case False
          show ?thesis
          proof (cases "?M (p @ r)")
            case None
            have "q \<notin> f ` set ims"
            proof
              assume "q \<in> f ` set ims"
              then obtain jm r' where "mPath jm = s @ slash # r'" "q = x @ slash # r'" "?M (mPath jm) = Some jm"
                using child by blast
              then show False using None r Dx ps by simp
            qed
            then have "M3 q = ?M2 q" using m3(4) nm by simp
            then show ?thesis using None r False Dx disj [of q] \<open>D \<noteq> p\<close> by (auto simp: entryOf_def)
          next
            case (Some jm)
            moreover have "prefix p (p @ r)" "p @ r \<noteq> p" using False by simp_all
            ultimately have jm: "jm \<in> set ims" using in_ims by blast
            have "mPath jm = p @ r" using index_okD [OF io Some] by blast
            then have "f jm = q" using r Dx by (simp add: f_def)
            then show ?thesis using ent [OF jm] Some by (auto simp: entryOf_def)
          qed
        qed
        then show ?thesis using True r sub by simp
      next
        case False
        then have nf: "q \<notin> f ` set ims" using fD(1) by blast
        have "M3 q = (if prefix p q \<or> ?P q then None else ?M q)"
        proof (cases "q \<in> mPath ` set ims")
          case True
          then show ?thesis using m3(4) [OF nf] fD(4) by auto
        next
          case nm: False
          have "q \<noteq> D" using False by auto
          have "?M q = None" if "prefix p q" "q \<noteq> p"
            using nm that in_ims index_okD [OF io] by (cases "?M q") blast+
          then show ?thesis using m3(4) [OF nf] nm \<open>q \<noteq> D\<close> by auto
        qed
        then show ?thesis using False sub by (simp add: entryOf_def)
      qed
    qed
  qed
qed

lemma move_ok:
  assumes "badger_Move E clock s i dst rep = (Inr mt, s')" and "db_ok E (dview (b_db s))"
    and "wf_tree (metaAt E (dview (b_db s)))" and "utf8 dst"
  shows "\<exists>im. metaAt E (dview (b_db s)) (mPath im) = Some im \<and> mID im = i \<and> mID mt = i
    \<and> TransferPath im (rootedPath (trimSpace dst)) = Inr (mPath mt)
    \<and> db_ok E (dview (b_db s'))
    \<and> relocated E (dview (b_db s)) (dview (b_db s')) (mIsDir im) (mPath im) (mPath mt)
        (cleanPath (slash # trimSpace (rootedPath (trimSpace dst))))"
proof -
  have tx: "dbUpdate E (moveTx E clock i (rootedPath (trimSpace dst)) rep) (b_db s) = (Inr mt, b_db s')"
    using assms(1) by (auto simp: badger_Move_def guarded_def split: option.splits prod.splits)
  have "\<exists>im. metaAt E (dview (b_db s)) (mPath im) = Some im \<and> mID im = i
    \<and> db_ok E (dview (b_db s')) \<and> mt = Meta_of (renamed im (mPath mt) (clock 0))
    \<and> TransferPath im (rootedPath (trimSpace dst)) = Inr (mPath mt)
    \<and> relocated E (dview (b_db s)) (dview (b_db s')) (mIsDir im) (mPath im) (mPath mt)
        (cleanPath (slash # trimSpace (rootedPath (trimSpace dst))))"
    by (rule update_rule [OF tx])
      (use moveTx_ok [OF _ assms(2,3) textOk_rootedPath [OF assms(4)]] in blast)
  then obtain im where im: "metaAt E (dview (b_db s)) (mPath im) = Some im" "mID im = i"
    "db_ok E (dview (b_db s'))" and mt: "mt = Meta_of (renamed im (mPath mt) (clock 0))"
    "TransferPath im (rootedPath (trimSpace dst)) = Inr (mPath mt)"
    "relocated E (dview (b_db s)) (dview (b_db s')) (mIsDir im) (mPath im) (mPath mt)
        (cleanPath (slash # trimSpace (rootedPath (trimSpace dst))))" by blast
  have "mID mt = mID (Meta_of (renamed im (mPath mt) (clock 0)))" using mt(1) by (rule arg_cong)
  then have "mID mt = i" using im(2) by simp
  with im mt show ?thesis by blast
qed

end

end
