(* ===== verification/Badger_Total.thy ===== *)
theory Badger_Total
  imports Badger_Move
begin

text \<open>
  Progress: on a store on which nothing fails the operations succeed whenever their documented
  preconditions hold. A file written through the driver can be opened and read back.
\<close>

lemma newFileMeta_path [simp]: "mPath (newFileMeta ul p i iid sz now) = p"
  by (simp add: newFileMeta_def)

lemma newDirMeta_path [simp]: "mPath (newDirMeta p i now) = p"
  by (simp add: newDirMeta_def)

context badger_env
begin

text \<open>The records and the other chunks after a successful creation.\<close>

lemma create_stored:
  assumes "badger_Create E rng clock s path r = (Inr mt, s')" and "utf8 path"
    and "freshIID E (dview (b_db s)) (rng 1)" and "length (rData r) \<le> maxContent"
  shows "metaAt E (dview (b_db s')) = (metaAt E (dview (b_db s)))(rootedPath (trimSpace path) \<mapsto>
      newFileMeta (bLower E) (rootedPath (trimSpace path)) (rng 0) (rng 1) (int (length (rData r))) (clock 0))"
    and "j \<noteq> rng 1 \<Longrightarrow> dview (b_db s') (makeChunkKey (idBytes j) n) = dview (b_db s) (makeChunkKey (idBytes j) n)"
    and "mt = Meta_of (newFileMeta (bLower E) (rootedPath (trimSpace path)) (rng 0) (rng 1)
           (int (length (rData r))) (clock 0))"
proof -
  let ?p = "rootedPath (trimSpace path)" and ?d = "b_db s"
  obtain sz d1 where w: "writeChunks E (idBytes (rng 1)) r ?d = (Inr sz, d1)"
    and tx: "dbUpdate E (createTx E (newFileMeta (bLower E) ?p (rng 0) (rng 1) sz (clock 0))) d1 = (Inr mt, b_db s')"
    using assms(1)
    by (auto simp: badger_Create_def guarded_def Let_def split: option.splits if_splits prod.splits sum.splits)
  let ?im = "newFileMeta (bLower E) ?p (rng 0) (rng 1) (int (length (rData r))) (clock 0)"
  have same: "sameExcept (rng 1) (dview ?d) (dview d1)" using writeChunks_same [OF w] .
  have sz: "sz = int (length (rData r))"
    using writeChunks_ok(1) [OF w assms(4)] assms(3) by (simp add: freshIID_def)
  have tk: "textOk ?im" by (rule textOk_newFile) (rule textOk_rootedPath [OF assms(2)])
  have p: "mPath ?im = ?p" by (simp add: newFileMeta_def)
  have "mt = Meta_of ?im \<and> metaAt E (dview (b_db s')) = (metaAt E (dview d1))(?p \<mapsto> ?im)
    \<and> (\<forall>k i. dview (b_db s') (makeChunkKey k i) = dview d1 (makeChunkKey k i))"
  proof (rule update_rule [OF tx])
    fix t a t' assume t: "shows d1 t (dview d1)"
      "createTx E (newFileMeta (bLower E) ?p (rng 0) (rng 1) sz (clock 0)) t = Inr (a, t')"
    then have st: "storeEntry E t ?im = Inr t'" and a: "a = Meta_of ?im"
      using sz by (auto simp: createTx_def split: sum.splits if_splits)
    obtain b where b: "bUnmarshal E b = Inr ?im"
      "shows d1 t' ((dview d1)(makeKey prefixMeta (mPath ?im) \<mapsto> b, makeKey prefixIndex (idBytes (mID ?im)) \<mapsto> mPath ?im))"
      using shows_storeEntry [OF t(1) tk st] by blast
    have "metaAt E ((dview d1)(makeKey prefixMeta (mPath ?im) \<mapsto> b, makeKey prefixIndex (idBytes (mID ?im)) \<mapsto> mPath ?im))
        = (metaAt E (dview d1))(?p \<mapsto> ?im)"
      unfolding metaAt_index metaAt_meta [OF b(1)] p ..
    with b(2) a show "\<exists>m. shows d1 t' m \<and> a = Meta_of ?im \<and> metaAt E m = (metaAt E (dview d1))(?p \<mapsto> ?im)
      \<and> (\<forall>k i. m (makeChunkKey k i) = dview d1 (makeChunkKey k i))"
      by (intro exI conjI) (assumption | rule allI | simp)+
  qed
  then show "mt = Meta_of ?im" "metaAt E (dview (b_db s')) = (metaAt E (dview (b_db s)))(?p \<mapsto> ?im)"
    "j \<noteq> rng 1 \<Longrightarrow> dview (b_db s') (makeChunkKey (idBytes j) n) = dview (b_db s) (makeChunkKey (idBytes j) n)"
    using sameExcept_index(2) [OF same, where E = E] sameExcept_other(1) [OF same] by auto
qed

end

context badger_reliable
begin

lemma shows_view: "shows d t m \<Longrightarrow> kvGet E t k = (case m k of Some v \<Rightarrow> Inr v | None \<Rightarrow> Inl ErrKeyNotFound)"
  by (simp add: get_iff shows_def)

lemma getMeta_at:
  assumes "metaAt E m p = Some im"
  shows "\<exists>b. m (makeKey prefixMeta p) = Some b \<and> getMeta E (Inr b) = Inr im"
  using assms by (auto simp: metaAt_def getMeta_def split: option.splits sum.splits)

lemma requireParent_total:
  assumes "shows d t m" and "getParentPath p = Root \<or> (\<exists>dm. metaAt E m (getParentPath p) = Some dm \<and> mIsDir dm)"
  shows "requireParent E t p = Inr ()"
proof (cases "getParentPath p = Root")
  case False
  then obtain dm where "metaAt E m (getParentPath p) = Some dm" "mIsDir dm" using assms(2) by blast
  moreover from getMeta_at [OF this(1)] obtain b where
    "m (makeKey prefixMeta (getParentPath p)) = Some b" "getMeta E (Inr b) = Inr dm" by blast
  ultimately show ?thesis using False
    by (simp add: requireParent_def Let_def findByPath_def shows_view [OF assms(1)])
qed (simp add: requireParent_def)

lemma storeEntry_total: "bMarshal E im = Inr b \<Longrightarrow> \<exists>t'. storeEntry E t im = Inr t'"
proof -
  assume b: "bMarshal E im = Inr b"
  obtain t1 where "kvSet E t (makeKey prefixMeta (mPath im)) b = Inr t1" using set_total by blast
  moreover obtain t2 where "kvSet E t1 (makeKey prefixIndex (idBytes (mID im))) (mPath im) = Inr t2"
    using set_total by blast
  ultimately show ?thesis using b by (simp add: storeEntry_def setMeta_def)
qed

lemma create_total:
  assumes "b_failed s = None" and "path \<noteq> Root" and "rEnd r = ErrEOF"
    and "freshIID E (dview (b_db s)) (rng 1)" and "length (rData r) \<le> maxContent"
  defines "p \<equiv> rootedPath (trimSpace path)"
  assumes "metaAt E (dview (b_db s)) p = None" and "index_ok E (dview (b_db s))"
    and "getParentPath p = Root \<or> (\<exists>dm. metaAt E (dview (b_db s)) (getParentPath p) = Some dm \<and> mIsDir dm)"
    and "bMarshal E (newFileMeta (bLower E) p (rng 0) (rng 1) (int (length (rData r))) (clock 0)) = Inr b"
  shows "\<exists>mt s'. badger_Create E rng clock s path r = (Inr mt, s')"
proof -
  let ?d = "b_db s"
  obtain n d1 where w: "writeChunks E (idBytes (rng 1)) r ?d = (Inr n, d1)"
    using writeLoop_total [of "rEnd r" "idBytes (rng 1)" ?d "rData r" 0 0 "[]"] assms(3)
    by (auto simp: writeChunks_def)
  then have n: "n = int (length (rData r))"
    using writeChunks_ok(1) [OF w assms(5)] assms(4) by (simp add: freshIID_def)
  have same: "sameExcept (rng 1) (dview ?d) (dview d1)" using writeChunks_same [OF w] .
  have M: "metaAt E (dview d1) = metaAt E (dview ?d)" "index_ok E (dview d1)"
    using sameExcept_index(1,2) [OF same, where E = E] assms(8) by auto
  let ?im = "newFileMeta (bLower E) p (rng 0) (rng 1) n (clock 0)"
  have "requireParent E (kvBegin E d1) p = Inr ()"
    by (rule requireParent_total [OF view_shows]) (use assms(9) M in simp)
  moreover have "kvGet E (kvBegin E d1) (makeKey prefixMeta p) = Inl ErrKeyNotFound"
    using assms(7) M index_ok_meta [OF M(2), of p] by (simp add: view_get)
  moreover obtain t' where "storeEntry E (kvBegin E d1) ?im = Inr t'"
    using storeEntry_total assms(10) n by blast
  ultimately have "createTx E ?im (kvBegin E d1) = Inr (Meta_of ?im, t')"
    by (simp add: createTx_def)
  then obtain d2 where "dbUpdate E (createTx E ?im) d1 = (Inr (Meta_of ?im), d2)"
    using update_total [where a = "Meta_of ?im"] by blast
  then show ?thesis using w assms(1,2)
    by (simp add: badger_Create_def guarded_def Let_def p_def [symmetric])
qed

lemma mkdir_total:
  assumes "b_failed s = None" and "trimSpace path \<noteq> []" and "trimSpace path \<noteq> ''/''"
  defines "p \<equiv> withSlash (rootedPath (trimSpace path))"
  assumes "metaAt E (dview (b_db s)) p = None" and "index_ok E (dview (b_db s))"
    and "getParentPath p = Root \<or> (\<exists>dm. metaAt E (dview (b_db s)) (getParentPath p) = Some dm \<and> mIsDir dm)"
    and "bMarshal E (newDirMeta p (rng 0) (clock 0)) = Inr b"
  shows "\<exists>mt s'. badger_Mkdir E rng clock s path = (Inr mt, s')"
proof -
  let ?im = "newDirMeta p (rng 0) (clock 0)" and ?t = "kvBegin E (b_db s)"
  have "requireParent E ?t p = Inr ()"
    by (rule requireParent_total [OF view_shows assms(7)])
  moreover have "kvGet E ?t (makeKey prefixMeta p) = Inl ErrKeyNotFound"
    using assms(5) index_ok_meta [OF assms(6), of p] by (simp add: view_get)
  moreover obtain t' where "storeEntry E ?t ?im = Inr t'"
    using storeEntry_total assms(8) by blast
  ultimately have "mkdirTx E ?im ?t = Inr (Meta_of ?im, t')"
    by (simp add: mkdirTx_def)
  then obtain d2 where "dbUpdate E (mkdirTx E ?im) (b_db s) = (Inr (Meta_of ?im), d2)"
    using update_total [where a = "Meta_of ?im"] by blast
  then show ?thesis using assms(1-3)
    by (simp add: badger_Mkdir_def guarded_def Let_def p_def [symmetric])
qed

lemma open_total:
  assumes "b_failed s = None" and "db_ok E (dview (b_db s))"
    and "fsView E (dview (b_db s)) p = Some (mt, data)"
  shows "\<exists>f. badger_Open E s (mID mt) = Inr f \<and> fMeta f = mt"
proof -
  have io: "index_ok E (dview (b_db s))" using assms(2) by (simp add: db_ok_def)
  obtain im where im: "metaAt E (dview (b_db s)) p = Some im" "mt = Meta_of im"
    using assms(3) by (auto simp: fsView_def)
  then have "idAt (dview (b_db s)) (mID mt) = Some p" using index_okD [OF io im(1)] by simp
  moreover obtain b where "dview (b_db s) (makeKey prefixMeta p) = Some b" "getMeta E (Inr b) = Inr im"
    using getMeta_at [OF im(1)] by blast
  ultimately show ?thesis using assms(1) im(2)
    by (auto simp: badger_Open_def dbView_def findMetaItemByID_def view_get idAt_def Let_def NewFile_def)
qed

text \<open>Opening the file at a path and reading it in one call gives its contents.\<close>

lemma open_read:
  assumes "b_failed s = None" and "db_ok E (dview (b_db s))"
    and "fsView E (dview (b_db s)) p = Some (mt, data)" and "\<not> mIsDir mt" and "data \<noteq> []"
    and "badger_Open E s (mID mt) = Inr f" and "n < 2 ^ 62"
  shows "fst (File_Read (readLocked E None (b_db s)) f n) = (take n data, None)"
proof -
  have io: "index_ok E (dview (b_db s))" using assms(2) by (simp add: db_ok_def)
  obtain f' where "badger_Open E s (mID mt) = Inr f'" "fMeta f' = mt" using open_total [OF assms(1-3)] by blast
  then have fm: "fMeta f = mt" using assms(6) by simp
  have "mPath mt = p"
    using assms(3) index_okD [OF io] by (auto simp: fsView_def)
  then obtain br where br: "fReader f = Some br" "readerAt (dview (b_db s)) br data 0"
    using open_ok(2) [OF assms(6,2)] fm assms(3,4) by auto
  have "int (0 + n) < 2 ^ 63" using assms(7) by simp
  then obtain br' where "readLocked E None (b_db s) br n = ((take n (drop 0 data), None), br')"
    using readLocked_ok [OF br(2), of n] assms(5) by auto
  then show ?thesis using br(1) by (simp add: File_Read_def)
qed


section \<open>Deleting, writing, listing and moving\<close>

lemma deleteKeys_total: "\<exists>t'. deleteKeys E ks t = Inr t'"
proof (induction ks arbitrary: t)
  case (Cons k ks)
  obtain t1 where "kvDelete E t k = Inr t1" using delete_total by blast
  with Cons [of t1] show ?case by (auto simp: deleteKeys_def)
qed (simp add: deleteKeys_def)

lemma deleteItem_total: "\<exists>t'. deleteItem E im t = Inr t'"
proof -
  obtain t1 where "deleteChunks E t (idBytes (mInternalID im)) = Inr t1"
    using deleteKeys_total by (auto simp: deleteChunks_def)
  moreover obtain t2 where "kvDelete E t1 (makeKey prefixIndex (idBytes (mID im))) = Inr t2" using delete_total by blast
  moreover obtain t3 where "kvDelete E t2 (makeKey prefixMeta (mPath im)) = Inr t3" using delete_total by blast
  ultimately show ?thesis by (simp add: deleteItem_def deleteIndex_def)
qed

lemma deleteItems_total: "\<exists>t'. deleteItems E ims t = Inr t'"
proof (induction ims arbitrary: t)
  case (Cons im ims)
  have "\<exists>t1. (if \<not> mIsDir im then deleteItem E im t
      else bindE (deleteIndex E t im) (\<lambda>t. kvDelete E t (makeKey prefixMeta (mPath im)))) = Inr t1"
  proof (cases "mIsDir im")
    case True
    obtain t1 where "kvDelete E t (makeKey prefixIndex (idBytes (mID im))) = Inr t1" using delete_total by blast
    moreover obtain t2 where "kvDelete E t1 (makeKey prefixMeta (mPath im)) = Inr t2" using delete_total by blast
    ultimately show ?thesis using True by (simp add: deleteIndex_def)
  qed (use deleteItem_total in auto)
  then obtain t1 where "(if \<not> mIsDir im then deleteItem E im t
      else bindE (deleteIndex E t im) (\<lambda>t. kvDelete E t (makeKey prefixMeta (mPath im)))) = Inr t1" by blast
  with Cons [of t1] show ?case by (auto simp: deleteItems_def)
qed (simp add: deleteItems_def)

lemma find_total:
  assumes "shows d t m" and "index_ok E m" and "metaAt E m p = Some im"
  shows "\<exists>item. findMetaItemByID E t (mID im) = Inr item \<and> getMeta E (Inr item) = Inr im"
proof -
  obtain b where b: "m (makeKey prefixMeta p) = Some b" "getMeta E (Inr b) = Inr im"
    using getMeta_at [OF assms(3)] by blast
  have "idAt m (mID im) = Some p" using index_okD [OF assms(2,3)] by blast
  then show ?thesis using b by (simp add: findMetaItemByID_def shows_view [OF assms(1)] idAt_def)
qed

lemma delete_op_total:
  assumes "b_failed s = None" and "index_ok E (dview (b_db s))" and "metaAt E (dview (b_db s)) p = Some im"
  shows "\<exists>s'. badger_Delete E s (mID im) = (Inr (), s')"
proof -
  let ?t = "kvBegin E (b_db s)"
  obtain item where f: "findMetaItemByID E ?t (mID im) = Inr item" "getMeta E (Inr item) = Inr im"
    using find_total [OF view_shows assms(2,3)] by blast
  obtain ims where r: "readAll E (kvScan E ?t (makeKey prefixMeta (withSlash (mPath im)))) = Inr ims"
    using readAll_total [OF view_shows assms(2)] by blast
  obtain t1 t2 where "deleteItems E ims ?t = Inr t1" "deleteItem E im ?t = Inr t2"
    using deleteItems_total deleteItem_total by meson
  then have "\<exists>t'. deleteTx E (mID im) ?t = Inr ((), t')"
    using f r by (cases "mIsDir im") (auto simp: deleteTx_def)
  then obtain d' where "dbUpdate E (deleteTx E (mID im)) (b_db s) = (Inr (), d')"
    using update_total [where a = "()"] by blast
  then show ?thesis using assms(1) by (simp add: badger_Delete_def guarded_def)
qed

lemma write_total:
  assumes "b_failed s = None" and "index_ok E (dview (b_db s))" and "metaAt E (dview (b_db s)) p = Some im"
    and "\<not> mIsDir im" and "rEnd r = ErrEOF" and "freshIID E (dview (b_db s)) (rng 0)"
    and "length (rData r) \<le> maxContent"
    and "bMarshal E (im\<lparr>mSize := int (length (rData r)), mModified := clock 0, mInternalID := rng 0\<rparr>) = Inr b"
    and "mInternalID im = nilUUID \<or> (\<forall>d. \<exists>d'. deleteChunksDB E d (idBytes (mInternalID im)) = (None, d'))"
  shows "\<exists>mt s'. badger_Write E rng clock s (mID im) r = (Inr mt, s')"
proof -
  let ?d = "b_db s"
  obtain n d1 where w: "writeChunks E (idBytes (rng 0)) r ?d = (Inr n, d1)"
    using writeLoop_total [of "rEnd r" "idBytes (rng 0)" ?d "rData r" 0 0 "[]"] assms(5)
    by (auto simp: writeChunks_def)
  then have n: "n = int (length (rData r))"
    using writeChunks_ok(1) [OF w assms(7)] assms(6) by (simp add: freshIID_def)
  have same: "sameExcept (rng 0) (dview ?d) (dview d1)" using writeChunks_same [OF w] .
  have M: "metaAt E (dview d1) p = Some im" "index_ok E (dview d1)"
    using sameExcept_index(1,2) [OF same, where E = E] assms(2,3) by auto
  let ?t = "kvBegin E d1" and ?im = "im\<lparr>mSize := n, mModified := clock 0, mInternalID := rng 0\<rparr>"
  obtain v where v: "dview d1 (makeKey prefixMeta p) = Some v" "getMeta E (Inr v) = Inr im"
    using getMeta_at [OF M(1)] by blast
  have i: "idAt (dview d1) (mID im) = Some p" using index_okD [OF M(2,1)] by blast
  obtain t' where "kvSet E ?t (makeKey prefixMeta p) b = Inr t'" using set_total by blast
  then have "writeTx E (mID im) (rng 0) n (clock 0) ?t = Inr ((?im, mInternalID im), t')"
    using i v assms(4,8) n by (simp add: writeTx_def view_get idAt_def setMeta_def Let_def)
  then obtain d2 where "dbUpdate E (writeTx E (mID im) (rng 0) n (clock 0)) d1 = (Inr (?im, mInternalID im), d2)"
    using update_total [where a = "(?im, mInternalID im)"] by blast
  moreover have "mInternalID im \<noteq> nilUUID \<Longrightarrow> \<exists>d'. deleteChunksDB E d2 (idBytes (mInternalID im)) = (None, d')"
    using assms(9) by blast
  ultimately show ?thesis using w assms(1)
    by (cases "mInternalID im = nilUUID") (auto simp: badger_Write_def guarded_def Let_def)
qed

lemma deleteChunksDB_total: "\<exists>d'. deleteChunksDB E d i = (None, d')"
proof -
  obtain t where "deleteChunks E (kvBegin E d) i = Inr t"
    using deleteKeys_total by (auto simp: deleteChunks_def)
  then obtain d' where "dbUpdate E (\<lambda>t. bindE (deleteChunks E t i) (\<lambda>t'. Inr ((), t'))) d = (Inr (), d')"
    using update_total [where a = "()" and f = "\<lambda>t. bindE (deleteChunks E t i) (\<lambda>t'. Inr ((), t'))"] by auto
  then show ?thesis by (simp add: deleteChunksDB_def)
qed

lemma comments_total:
  assumes "b_failed s = None" and "index_ok E (dview (b_db s))" and "metaAt E (dview (b_db s)) p = Some im"
    and "bMarshal E (im\<lparr>mComments := c\<rparr>) = Inr b"
  shows "\<exists>mt s'. badger_WriteComments E s (mID im) c = (Inr mt, s')"
proof -
  let ?t = "kvBegin E (b_db s)"
  obtain item where f: "findMetaItemByID E ?t (mID im) = Inr item" "getMeta E (Inr item) = Inr im"
    using find_total [OF view_shows assms(2,3)] by blast
  obtain t' where "kvSet E ?t (makeKey prefixMeta (mPath im)) b = Inr t'" using set_total by blast
  then have "commentsTx E (mID im) c ?t = Inr (Meta_of (im\<lparr>mComments := c\<rparr>), t')"
    using f assms(4) by (simp add: commentsTx_def setMeta_def Let_def)
  then obtain d' where "dbUpdate E (commentsTx E (mID im) c) (b_db s) = (Inr (Meta_of (im\<lparr>mComments := c\<rparr>)), d')"
    using update_total [where a = "Meta_of (im\<lparr>mComments := c\<rparr>)"] by blast
  then show ?thesis using assms(1) by (simp add: badger_WriteComments_def guarded_def)
qed

lemma list_root_total:
  assumes "b_failed s = None" and "index_ok E (dview (b_db s))"
  shows "\<exists>ms. badger_List E s Root = Inr ms"
proof -
  let ?t = "kvBegin E (b_db s)" and ?k = "makeKey prefixMeta Root"
  obtain ims where r: "readAll E (kvScan E ?t ?k) = Inr ims"
    using readAll_total [OF view_shows assms(2)] by blast
  have "\<exists>y. (\<lambda>(key, v). bindE (getMeta E v) (\<lambda>im. Inr (Meta_of im))) kv = Inr y" if kv: "kv \<in> set (kvScan E ?t ?k)" for kv
  proof -
    obtain im where "(\<lambda>(key, v). getMeta E v) kv = Inr im"
      using mapE_set2 [OF r [unfolded readAll_def] kv] by blast
    then show ?thesis by (auto split: prod.splits)
  qed
  then obtain g where g: "\<And>kv. kv \<in> set (kvScan E ?t ?k) \<Longrightarrow>
      (\<lambda>(key, v). bindE (getMeta E v) (\<lambda>im. Inr (Meta_of im))) kv = Inr (g kv)" by metis
  have "mapE (\<lambda>(key, v). bindE (getMeta E v) (\<lambda>im. Inr (Meta_of im)))
      (filter (\<lambda>(key, v). directChild ?k key) (kvScan E ?t ?k))
    = Inr (map g (filter (\<lambda>(key, v). directChild ?k key) (kvScan E ?t ?k)))"
    by (rule mapE_total) (use g in auto)
  moreover have "trimSpace Root = Root" "suffix ''/'' Root" by code_simp+
  ultimately show ?thesis using assms(1)
    by (simp add: badger_List_def dbView_def Let_def Root_def)
qed

lemma move_file_total:
  assumes "b_failed s = None" and "index_ok E (dview (b_db s))" and "metaAt E (dview (b_db s)) p = Some im"
    and "\<not> mIsDir im" and "TransferPath im (rootedPath (trimSpace dst)) = Inr D"
    and "metaAt E (dview (b_db s)) (trimSuffix D ''/'') = None"
    and "metaAt E (dview (b_db s)) (trimSuffix D ''/'' @ ''/'') = None"
    and "bMarshal E (renamed im D (clock 0)) = Inr b"
  shows "\<exists>mt s'. badger_Move E clock s (mID im) dst [] = (Inr mt, s')"
proof -
  let ?t = "kvBegin E (b_db s)" and ?x = "trimSuffix D ''/''"
  obtain item where f: "findMetaItemByID E ?t (mID im) = Inr item" "getMeta E (Inr item) = Inr im"
    using find_total [OF view_shows assms(2,3)] by blast
  have "dview (b_db s) (makeKey prefixMeta ?x) = None" "dview (b_db s) (makeKey prefixMeta (?x @ ''/'')) = None"
    using assms(6,7) index_ok_meta [OF assms(2)] by blast+
  then have "findByPath E ?t ?x = Inl ErrNotFound" by (simp add: findByPath_def view_get)
  then have pt: "prepareTransfer E ?t D [] = Inr ?t" by (simp add: prepareTransfer_def CheckReplacement_def)
  obtain t1 where t1: "kvDelete E ?t (makeKey prefixMeta (mPath im)) = Inr t1" using delete_total by blast
  obtain t2 where t2: "kvSet E t1 (makeKey prefixMeta D) b = Inr t2" using set_total by blast
  obtain t3 where t3: "kvSet E t2 (makeKey prefixIndex (idBytes (mID im))) D = Inr t3" using set_total by blast
  have "moveItem E (clock 0) ?t im D = Inr (renamed im D (clock 0), t3)"
    using t1 t2 t3 assms(8) by (simp add: moveItem_def setMeta_def Let_def)
  then have "moveTx E clock (mID im) (rootedPath (trimSpace dst)) [] ?t = Inr (Meta_of (renamed im D (clock 0)), t3)"
    using f assms(4,5) pt by (simp add: moveTx_def)
  then obtain d' where "dbUpdate E (moveTx E clock (mID im) (rootedPath (trimSpace dst)) []) (b_db s)
      = (Inr (Meta_of (renamed im D (clock 0))), d')"
    using update_total [where a = "Meta_of (renamed im D (clock 0))"] by blast
  then show ?thesis using assms(1) by (simp add: badger_Move_def guarded_def)
qed

end

lemma guarded_failed: "guarded s f = (r, s') \<Longrightarrow> b_failed s' = b_failed s"
  by (auto simp: guarded_def split: option.splits prod.splits)

end
