(* ===== verification/Badger_Theorems.thy ===== *)
theory Badger_Theorems
  imports Badger_Total
begin

text \<open>
  The properties of the Badger driver, for every store and codec that keep the contract
  \<open>badger_env\<close>, each with a run of the in-memory instance on which it applies: an empty drive
  in which a file is created at \<open>/a\<close>.
\<close>

section \<open>A concrete run\<close>

definition run_rng :: "nat \<Rightarrow> uuid" where
  "run_rng k = (if k = 0 then 7 else if k = 1 then 8 else 9)"

definition run_clock :: "nat \<Rightarrow> int" where
  "run_clock k = 5"

definition run_empty :: "mem bvfs" where
  "run_empty = \<lparr>b_db = [], b_failed = None, b_inMemory = True, b_key = [], b_closed = False\<rparr>"

definition run_data :: reader where
  "run_data = \<lparr>rData = ''hi'', rEnd = ErrEOF\<rparr>"

lemma db_ok_empty: "db_ok E Map.empty"
  by (simp add: db_ok_def index_ok_def decodable_def index_inv_def content_ok_def content_inv_def
      metaAt_def idAt_def)

lemma metaAt_empty [simp]: "metaAt E Map.empty = Map.empty"
  by (simp add: metaAt_def fun_eq_iff)

lemma freshIID_empty: "i \<noteq> nilUUID \<Longrightarrow> freshIID E Map.empty i"
  by (simp add: freshIID_def)

lemma run_paths: "rootedPath (trimSpace ''/a'') = ''/a''" "getParentPath ''/a'' = Root"
  "utf8 ''/a''" "''/a'' \<noteq> Root" "basePath ''/a'' = ''a''" "extPath ''/a'' = ''''"
  by code_simp+

lemma run_db [simp]: "b_db run_empty = []" "b_failed run_empty = None"
  by (simp_all add: run_empty_def)

lemma run_fresh: "run_rng 0 \<noteq> nilUUID" "run_rng 1 \<noteq> nilUUID" "run_rng 2 \<noteq> nilUUID" "run_rng 2 \<noteq> run_rng 1"
  by (simp_all add: run_rng_def nilUUID_def)

lemma run_small: "length (rData run_data) \<le> maxContent"
  by (simp add: run_data_def maxContent_def ChunkSize_def)

lemma run_small' [simp]: "2 \<le> maxContent" "length (rData run_data) = 2" "rEnd run_data = ErrEOF"
  by (simp_all add: run_data_def maxContent_def ChunkSize_def)

definition run_meta :: imeta where
  "run_meta = newFileMeta (\<lambda>s. s) ''/a'' (run_rng 0) (run_rng 1) 2 (run_clock 0)"

lemma run_meta_fields [simp]:
  "mPath run_meta = ''/a''" "mID run_meta = run_rng 0" "\<not> mIsDir run_meta" "mSize run_meta = 2"
  "mInternalID run_meta = run_rng 1" "mName run_meta = ''a''" "mExtension run_meta = []"
  "mComments run_meta = []" "mModified run_meta = 5"
  by (simp_all add: run_meta_def newFileMeta_def run_paths extractExtension_def run_clock_def)

lemma run_marshal:
  assumes "- 9223372036854775808 \<le> mSize im \<and> mSize im < 9223372036854775808"
    and "- 9223372036854775808 \<le> mModified im \<and> mModified im < 9223372036854775808"
    and "length (mPath im) < 100" and "length (mName im) < 100" and "length (mExtension im) < 100"
    and "length (mComments im) < 100"
  shows "\<exists>b. bMarshal mem_env im = Inr b"
  using assms by (simp add: mem_marshal_def encodable_def)

text \<open>The run: the drive after creating \<open>/a\<close> in the empty one.\<close>

definition run_s1 :: "mem bvfs" where
  "run_s1 = snd (badger_Create mem_env run_rng run_clock run_empty ''/a'' run_data)"

lemma run_fresh_iid: "freshIID mem_env (map_of (b_db run_empty)) (run_rng 1)"
  using freshIID_empty [of "run_rng 1" mem_env] run_fresh by simp

lemma run_empty_ok: "db_ok mem_env (map_of (b_db run_empty))" "idAt (map_of (b_db run_empty)) (run_rng 0) = None"
    "fsView mem_env (map_of (b_db run_empty)) = Map.empty"
  using db_ok_empty [of mem_env] by (simp_all add: idAt_def fsView_def fun_eq_iff)

lemma run_im: "newFileMeta (bLower mem_env) (rootedPath (trimSpace ''/a'')) (run_rng 0) (run_rng 1)
    (int (length (rData run_data))) (run_clock 0) = run_meta"
  by (simp add: run_meta_def run_paths)

lemma run_created:
  "badger_Create mem_env run_rng run_clock run_empty ''/a'' run_data = (Inr (Meta_of run_meta), run_s1)"
proof -
  have "\<exists>b. bMarshal mem_env run_meta = Inr b" by (rule run_marshal) simp_all
  then obtain x where x: "bMarshal mem_env run_meta = Inr x" by blast
  have "\<exists>mt s'. badger_Create mem_env run_rng run_clock run_empty ''/a'' run_data = (Inr mt, s')"
  proof (rule membadger.create_total)
    show "bMarshal mem_env (newFileMeta (bLower mem_env) (rootedPath (trimSpace ''/a'')) (run_rng 0)
      (run_rng 1) (int (length (rData run_data))) (run_clock 0)) = Inr x" using x run_im by simp
    show "index_ok mem_env (map_of (b_db run_empty))" using run_empty_ok(1) by (simp only: db_ok_def)
    show "freshIID mem_env (map_of (b_db run_empty)) (run_rng 1)" by (rule run_fresh_iid)
  qed (simp_all add: run_paths)
  then obtain mt s' where c: "badger_Create mem_env run_rng run_clock run_empty ''/a'' run_data = (Inr mt, s')"
    by blast
  have "mt = Meta_of run_meta"
    using membadger.create_stored(3) [OF c run_paths(3) run_fresh_iid run_small] run_im by simp
  with c show ?thesis by (simp add: run_s1_def)
qed

lemma run_s1_store:
  "b_failed run_s1 = None" "db_ok mem_env (map_of (b_db run_s1))"
  "metaAt mem_env (map_of (b_db run_s1)) = [''/a'' \<mapsto> run_meta]"
  "fsView mem_env (map_of (b_db run_s1)) = [''/a'' \<mapsto> (Meta_of run_meta, ''hi'')]"
  "freshIID mem_env (map_of (b_db run_s1)) (run_rng 2)"
proof -
  note st = membadger.create_stored [OF run_created run_paths(3) run_fresh_iid run_small, unfolded run_im]
  note su = membadger.create_success [OF run_created run_empty_ok(1) run_paths(3) run_empty_ok(2)
      run_fresh_iid run_small]
  show "b_failed run_s1 = None"
    using guarded_failed [OF run_created [unfolded badger_Create_def]] by simp
  show "db_ok mem_env (map_of (b_db run_s1))" using su(1) .
  show M: "metaAt mem_env (map_of (b_db run_s1)) = [''/a'' \<mapsto> run_meta]"
    using st(1) by (simp add: run_paths)
  show "fsView mem_env (map_of (b_db run_s1)) = [''/a'' \<mapsto> (Meta_of run_meta, ''hi'')]"
    using su(2) run_empty_ok(3) by (simp add: run_data_def)
  have "map_of (b_db run_s1) (makeChunkKey (idBytes (run_rng 2)) n) = None" for n
    using st(2) [of "run_rng 2" n] run_fresh by simp
  then show "freshIID mem_env (map_of (b_db run_s1)) (run_rng 2)"
    using M run_fresh by (auto simp: freshIID_def split: if_splits)
qed

lemma run_index_ok: "index_ok mem_env (map_of (b_db run_s1))"
  using run_s1_store(2) by (simp add: db_ok_def)

lemma run_at: "metaAt mem_env (map_of (b_db run_s1)) ''/a'' = Some run_meta"
  using run_s1_store(3) by simp

section \<open>Creating files\<close>

text \<open>
  C1. Creating a file that succeeds adds exactly one entry to the abstract file system: at the
  normalised path, which was free, with the fresh identifier, the size and the bytes the reader
  delivered. Every other entry keeps its metadata and contents, and the store stays consistent.
\<close>

theorem create_refines:
  assumes "badger_env E dview tview twr"
    and "badger_Create E rng clock s path r = (Inr mt, s')"
    and "db_ok E (dview (b_db s))" and "utf8 path" and "idAt (dview (b_db s)) (rng 0) = None"
    and "freshIID E (dview (b_db s)) (rng 1)" and "length (rData r) \<le> maxContent"
  shows "db_ok E (dview (b_db s')) \<and> mPath mt = rootedPath (trimSpace path) \<and> mID mt = rng 0
    \<and> mSize mt = int (length (rData r)) \<and> fsView E (dview (b_db s)) (mPath mt) = None
    \<and> fsView E (dview (b_db s')) = (fsView E (dview (b_db s)))(mPath mt \<mapsto> (mt, rData r))"
  using badger_env.create_success [OF assms] by (auto simp: newFileMeta_def)

theorem create_refines_witness:
  "mPath (Meta_of run_meta) = ''/a''
     \<and> fsView mem_env (map_of (b_db run_s1)) = [''/a'' \<mapsto> (Meta_of run_meta, ''hi'')]"
  using create_refines [OF membadger.badger_env_axioms run_created run_empty_ok(1) run_paths(3)
      run_empty_ok(2) run_fresh_iid run_small] run_empty_ok(3)
  by (simp add: run_data_def)

text \<open>
  C2. A creation that fails, at whatever call of the store or because of its arguments, leaves
  the abstract file system as it was and the store consistent.
\<close>

theorem create_failure_atomic:
  assumes "badger_env E dview tview twr"
    and "badger_Create E rng clock s path r = (Inl e, s')"
    and "db_ok E (dview (b_db s))" and "freshIID E (dview (b_db s)) (rng 1)"
  shows "db_ok E (dview (b_db s')) \<and> fsView E (dview (b_db s')) = fsView E (dview (b_db s))"
  by (rule badger_env.create_failure [OF assms])

theorem create_failure_atomic_witness:
  "badger_Create mem_env run_rng run_clock run_empty ''/'' run_data = (Inl ErrInvalidPath, run_empty)
     \<and> fsView mem_env (map_of (b_db run_empty)) = Map.empty"
proof -
  have "badger_Create mem_env run_rng run_clock run_empty ''/'' run_data = (Inl ErrInvalidPath, run_empty)"
    by (simp add: badger_Create_def guarded_def Root_def run_empty_def)
  with create_failure_atomic [OF membadger.badger_env_axioms this run_empty_ok(1) run_fresh_iid] run_empty_ok(3)
  show ?thesis by simp
qed

section \<open>Overwriting files\<close>

text \<open>
  C3. Overwriting is atomic: whatever the operation returns, either nothing has changed or the
  file with the given identifier has the new contents, size and time and nothing else has
  changed; the latter whenever success is reported.
\<close>

theorem write_is_atomic:
  assumes "badger_env E dview tview twr"
    and "badger_Write E rng clock s i r = (res, s')"
    and "db_ok E (dview (b_db s))" and "freshIID E (dview (b_db s)) (rng 0)"
    and "length (rData r) \<le> maxContent"
  shows "db_ok E (dview (b_db s')) \<and>
    ((\<exists>e. res = Inl e) \<and> fsView E (dview (b_db s')) = fsView E (dview (b_db s))
     \<or> (\<exists>mt. overwritten E (dview (b_db s)) (dview (b_db s')) i (rData r) mt
          \<and> (res = Inr mt \<or> (\<exists>e. res = Inl e))))"
  using badger_env.write_atomic [OF assms] by blast

definition run_rng2 :: "nat \<Rightarrow> uuid" where
  "run_rng2 k = run_rng 2"

definition run_data2 :: reader where
  "run_data2 = \<lparr>rData = ''new'', rEnd = ErrEOF\<rparr>"

lemma run_written:
  "\<exists>mt s2. badger_Write mem_env run_rng2 run_clock run_s1 (mID run_meta) run_data2 = (Inr mt, s2)"
proof -
  have "\<exists>b. bMarshal mem_env (run_meta\<lparr>mSize := int (length (rData run_data2)), mModified := run_clock 0,
      mInternalID := run_rng2 0\<rparr>) = Inr b"
    by (rule run_marshal) (simp_all add: run_data2_def run_clock_def)
  then obtain b where b: "bMarshal mem_env (run_meta\<lparr>mSize := int (length (rData run_data2)),
      mModified := run_clock 0, mInternalID := run_rng2 0\<rparr>) = Inr b" by blast
  show ?thesis
  proof (rule membadger.write_total)
    show "b_failed run_s1 = None" by (rule run_s1_store(1))
    show "index_ok mem_env (map_of (b_db run_s1))" by (rule run_index_ok)
    show "metaAt mem_env (map_of (b_db run_s1)) ''/a'' = Some run_meta" by (rule run_at)
    show "bMarshal mem_env (run_meta\<lparr>mSize := int (length (rData run_data2)), mModified := run_clock 0,
      mInternalID := run_rng2 0\<rparr>) = Inr b" by (rule b)
    show "freshIID mem_env (map_of (b_db run_s1)) (run_rng2 0)"
      using run_s1_store(5) by (simp add: run_rng2_def)
    show "mInternalID run_meta = nilUUID \<or> (\<forall>d. \<exists>d'. deleteChunksDB mem_env d (idBytes (mInternalID run_meta)) = (None, d'))"
      using membadger.deleteChunksDB_total by blast
  qed (simp_all add: run_data2_def maxContent_def ChunkSize_def)
qed

theorem write_is_atomic_witness:
  "\<exists>mt s2. badger_Write mem_env run_rng2 run_clock run_s1 (run_rng 0) run_data2 = (Inr mt, s2)
     \<and> overwritten mem_env (map_of (b_db run_s1)) (map_of (b_db s2)) (run_rng 0) ''new'' mt"
proof -
  obtain mt s2 where w: "badger_Write mem_env run_rng2 run_clock run_s1 (run_rng 0) run_data2 = (Inr mt, s2)"
    using run_written by auto
  show ?thesis
    using write_is_atomic [OF membadger.badger_env_axioms w run_s1_store(2)] run_s1_store(5) w
    by (auto simp: run_rng2_def run_data2_def maxContent_def ChunkSize_def)
qed

text \<open>C4. Writing comments changes the comments of the entry with the identifier and nothing else.\<close>

theorem comments_change_comments:
  assumes "badger_env E dview tview twr"
    and "badger_WriteComments E s i c = (Inr mt, s')" and "db_ok E (dview (b_db s))" and "utf8 c"
  shows "\<exists>mt0 data. fsView E (dview (b_db s)) (mPath mt) = Some (mt0, data) \<and> mID mt0 = i
    \<and> mt = mt0\<lparr>mComments := c\<rparr> \<and> db_ok E (dview (b_db s'))
    \<and> fsView E (dview (b_db s')) = (fsView E (dview (b_db s)))(mPath mt \<mapsto> (mt, data))"
  by (rule badger_env.comments_ok [OF assms])

theorem comments_change_comments_witness:
  "\<exists>mt s2. badger_WriteComments mem_env run_s1 (run_rng 0) ''note'' = (Inr mt, s2) \<and> mComments mt = ''note''"
proof -
  have "\<exists>b. bMarshal mem_env (run_meta\<lparr>mComments := ''note''\<rparr>) = Inr b" by (rule run_marshal) simp_all
  then obtain mt s2 where w: "badger_WriteComments mem_env run_s1 (run_rng 0) ''note'' = (Inr mt, s2)"
    using membadger.comments_total [OF run_s1_store(1) run_index_ok run_at] by fastforce
  have "utf8 ''note''" by code_simp
  from comments_change_comments [OF membadger.badger_env_axioms w run_s1_store(2) this] w
  show ?thesis by auto
qed

section \<open>Deleting\<close>

text \<open>
  C4. Deleting removes exactly the subtree of the entry with the identifier: the entry itself for
  a file, everything under its path for a directory. All other entries keep their contents.
\<close>

theorem delete_removes_subtree:
  assumes "badger_env E dview tview twr"
    and "badger_Delete E s i = (Inr u, s')" and "db_ok E (dview (b_db s))"
  shows "\<exists>mt data. fsView E (dview (b_db s)) (mPath mt) = Some (mt, data) \<and> mID mt = i
    \<and> db_ok E (dview (b_db s'))
    \<and> fsView E (dview (b_db s')) = map_without (subtree (mPath mt) (mIsDir mt)) (fsView E (dview (b_db s)))"
  by (rule badger_env.delete_ok [OF assms])

theorem delete_removes_subtree_witness:
  "\<exists>s2. badger_Delete mem_env run_s1 (run_rng 0) = (Inr (), s2)
     \<and> fsView mem_env (map_of (b_db s2)) = Map.empty"
proof -
  obtain s2 where w: "badger_Delete mem_env run_s1 (run_rng 0) = (Inr (), s2)"
    using membadger.delete_op_total [OF run_s1_store(1) run_index_ok run_at] by auto
  obtain mt data where "fsView mem_env (map_of (b_db run_s1)) (mPath mt) = Some (mt, data)"
    "fsView mem_env (map_of (b_db s2)) =
      map_without (subtree (mPath mt) (mIsDir mt)) (fsView mem_env (map_of (b_db run_s1)))"
    using delete_removes_subtree [OF membadger.badger_env_axioms w run_s1_store(2)] by blast
  then have "fsView mem_env (map_of (b_db s2)) = Map.empty"
    using run_s1_store(4) by (auto simp: fun_eq_iff subtree_def split: if_splits)
  with w show ?thesis by blast
qed

section \<open>Directories and listings\<close>

text \<open>
  On a store whose reads do not fail, a successful Mkdir adds exactly one empty directory
  entry, at the normalised path with a trailing slash, which was free.
\<close>

theorem mkdir_adds_directory:
  assumes "badger_reliable E dview tview twr"
    and "badger_Mkdir E rng clock s path = (Inr mt, s')" and "db_ok E (dview (b_db s))"
    and "utf8 path" and "idAt (dview (b_db s)) (rng 0) = None"
  shows "mPath mt = withSlash (rootedPath (trimSpace path)) \<and> mIsDir mt \<and> mID mt = rng 0
    \<and> db_ok E (dview (b_db s')) \<and> fsView E (dview (b_db s)) (mPath mt) = None
    \<and> fsView E (dview (b_db s')) = (fsView E (dview (b_db s)))(mPath mt \<mapsto> (mt, []))"
  using badger_reliable.mkdir_ok [OF assms] by blast

theorem mkdir_adds_directory_witness:
  "\<exists>mt s1. badger_Mkdir mem_env run_rng run_clock run_empty '' d '' = (Inr mt, s1) \<and> mPath mt = ''/d/''"
proof -
  have p: "trimSpace '' d '' = ''d''" "withSlash (rootedPath ''d'') = ''/d/''"
    "getParentPath ''/d/'' = Root" "utf8 '' d ''" "basePath (trimSuffix ''/d/'' ''/'') = ''d''" by code_simp+
  have "\<exists>b. bMarshal mem_env (newDirMeta ''/d/'' (run_rng 0) (run_clock 0)) = Inr b"
    by (rule run_marshal) (simp_all add: newDirMeta_def run_clock_def p)
  then obtain b where b: "bMarshal mem_env (newDirMeta ''/d/'' (run_rng 0) (run_clock 0)) = Inr b" by blast
  have "\<exists>mt s1. badger_Mkdir mem_env run_rng run_clock run_empty '' d '' = (Inr mt, s1)"
  proof (rule membadger.mkdir_total)
    show "bMarshal mem_env (newDirMeta (withSlash (rootedPath (trimSpace '' d ''))) (run_rng 0)
        (run_clock 0)) = Inr b" using b by (simp add: p)
    show "index_ok mem_env (map_of (b_db run_empty))" using run_empty_ok(1) by (simp only: db_ok_def)
  qed (simp_all add: p)
  then obtain mt s1 where w: "badger_Mkdir mem_env run_rng run_clock run_empty '' d '' = (Inr mt, s1)" by blast
  have "mPath mt = ''/d/''"
    using mkdir_adds_directory [OF membadger.badger_reliable_axioms w run_empty_ok(1) p(4) run_empty_ok(2)]
    by (simp add: p)
  with w show ?thesis by blast
qed

text \<open>
  C5. A listing returns, each once, exactly the metadata of the entries directly below the
  directory, which must exist unless it is the root: the entries whose path is the path of the
  directory followed by one element, with or without a slash behind it. In particular neither
  the directory itself nor anything inside one of its directories is listed.
\<close>

theorem list_is_exact:
  assumes "badger_env E dview tview twr"
    and "badger_List E s path = Inr ms" and "db_ok E (dview (b_db s))"
    and "dir = withSlash (if trimSpace path = [] then Root else trimSpace path)"
  shows "set ms = {mt. \<exists>data. fsView E (dview (b_db s)) (mPath mt) = Some (mt, data)
      \<and> (\<exists>name. slash \<notin> set name
            \<and> (mPath mt = dir @ name \<and> name \<noteq> [] \<or> mPath mt = dir @ name @ ''/''))}
    \<and> distinct (map mPath ms) \<and> (dir \<noteq> Root \<longrightarrow> fsView E (dview (b_db s)) dir \<noteq> None)"
  using badger_env.list_ok [OF assms(1-3)] unfolding assms(4) directChild_iff by blast

theorem list_is_exact_witness:
  "badger_List mem_env run_s1 Root = Inr [Meta_of run_meta]"
proof -
  obtain ms where w: "badger_List mem_env run_s1 Root = Inr ms"
    using membadger.list_root_total [OF run_s1_store(1) run_index_ok] by blast
  have p: "withSlash (if trimSpace Root = [] then Root else trimSpace Root) = ''/''" by code_simp
  have name: "slash \<notin> set ''a''" "''a'' \<noteq> []" by simp_all
  have "set ms = {mt. \<exists>data. fsView mem_env (map_of (b_db run_s1)) (mPath mt) = Some (mt, data)
      \<and> (\<exists>name. slash \<notin> set name
            \<and> (mPath mt = ''/'' @ name \<and> name \<noteq> [] \<or> mPath mt = ''/'' @ name @ ''/''))}"
    and d: "distinct (map mPath ms)"
    using list_is_exact [OF membadger.badger_env_axioms w run_s1_store(2) refl] unfolding p by blast+
  moreover have "fsView mem_env (map_of (b_db run_s1)) (mPath mt) = Some (mt, data)
      \<longleftrightarrow> mt = Meta_of run_meta \<and> data = ''hi''" for mt data
    unfolding run_s1_store(4) by auto
  moreover have "mPath (Meta_of run_meta) = ''/'' @ ''a''" by (simp add: run_meta_fields)
  ultimately have "set ms = {Meta_of run_meta}" using name by blast
  moreover have "distinct ms" using d by (simp add: distinct_map)
  ultimately have "ms = [Meta_of run_meta]"
    by (cases ms) (auto simp: subset_singleton_iff)
  with w show ?thesis by simp
qed

section \<open>Reading\<close>

text \<open>
  C6. Opening a file by identifier and reading it returns the contents the abstract file system
  has for it, up to the size of the caller's buffer.
\<close>

theorem open_then_read:
  assumes "badger_reliable E dview tview twr" and "b_failed s = None" and "db_ok E (dview (b_db s))"
    and "fsView E (dview (b_db s)) p = Some (mt, data)" and "\<not> mIsDir mt" and "data \<noteq> []"
    and "n < 2 ^ 62"
  shows "\<exists>f. badger_Open E s (mID mt) = Inr f \<and> fMeta f = mt
    \<and> fst (File_Read (readLocked E None (b_db s)) f n) = (take n data, None)"
proof -
  obtain f where f: "badger_Open E s (mID mt) = Inr f" "fMeta f = mt"
    using badger_reliable.open_total [OF assms(1-4)] by blast
  with badger_reliable.open_read [OF assms(1-6) f(1) assms(7)] show ?thesis by blast
qed

theorem open_then_read_witness:
  "\<exists>f. badger_Open mem_env run_s1 (run_rng 0) = Inr f
     \<and> fst (File_Read (readLocked mem_env None (b_db run_s1)) f 10) = (''hi'', None)"
proof -
  have "fsView mem_env (map_of (b_db run_s1)) ''/a'' = Some (Meta_of run_meta, ''hi'')"
    using run_s1_store(4) by simp
  from open_then_read [OF membadger.badger_reliable_axioms run_s1_store(1,2) this, of 10]
  show ?thesis by (simp del: File_Read_def) blast
qed

text \<open>
  Every metadata lookup by identifier returns the record with that identifier, and fails with
  the not-found error exactly when there is none.
\<close>

theorem stat_by_id_exact:
  assumes "badger_reliable E dview tview twr" and "b_failed s = None" and "db_ok E (dview (b_db s))"
  shows "badger_Stat E s i = (case idAt (dview (b_db s)) i of
       None \<Rightarrow> Inl ErrNotFound
     | Some p \<Rightarrow> Inr (Meta_of (the (metaAt E (dview (b_db s)) p))))
    \<and> (badger_Stat E s i = Inl ErrNotFound \<longleftrightarrow> (\<forall>p mt data. fsView E (dview (b_db s)) p = Some (mt, data) \<longrightarrow> mID mt \<noteq> i))"
proof
  have io: "index_ok E (dview (b_db s))" using assms(3) by (simp add: db_ok_def)
  show e: "badger_Stat E s i = (case idAt (dview (b_db s)) i of
       None \<Rightarrow> Inl ErrNotFound
     | Some p \<Rightarrow> Inr (Meta_of (the (metaAt E (dview (b_db s)) p))))"
    by (rule badger_reliable.stat_exact [OF assms])
  have "idAt (dview (b_db s)) i = None \<longleftrightarrow> (\<forall>p im. metaAt E (dview (b_db s)) p = Some im \<longrightarrow> mID im \<noteq> i)"
    using index_okD [OF io] index_okE [OF io] by (metis not_Some_eq)
  also have "\<dots> \<longleftrightarrow> (\<forall>p mt data. fsView E (dview (b_db s)) p = Some (mt, data) \<longrightarrow> mID mt \<noteq> i)"
    by (simp add: fsView_def map_option_case split: option.split)
  finally show "badger_Stat E s i = Inl ErrNotFound \<longleftrightarrow> (\<forall>p mt data. fsView E (dview (b_db s)) p = Some (mt, data) \<longrightarrow> mID mt \<noteq> i)"
    unfolding e by (cases "idAt (dview (b_db s)) i") simp_all
qed

theorem stat_by_id_exact_witness:
  "badger_Stat mem_env run_s1 9 = Inl ErrNotFound"
proof -
  have "\<forall>p mt data. fsView mem_env (map_of (b_db run_s1)) p = Some (mt, data) \<longrightarrow> mID mt \<noteq> 9"
    by (auto simp: run_s1_store(4) run_rng_def split: if_splits)
  then show ?thesis
    using stat_by_id_exact [OF membadger.badger_reliable_axioms run_s1_store(1,2), of 9] by blast
qed

section \<open>Moving\<close>

text \<open>
  C7. On a well-shaped tree, a successful Move puts the whole subtree of the entry at the clean
  destination with identifiers, sizes, comments and contents unchanged, removes what was at or
  below the destination, and changes no other entry.
\<close>

theorem move_relocates_subtree:
  assumes "badger_reliable E dview tview twr"
    and "badger_Move E clock s i dst rep = (Inr mt, s')" and "db_ok E (dview (b_db s))"
    and "wf_tree (metaAt E (dview (b_db s)))" and "utf8 dst"
  shows "\<exists>im. metaAt E (dview (b_db s)) (mPath im) = Some im \<and> mID im = i \<and> mID mt = i
    \<and> TransferPath im (rootedPath (trimSpace dst)) = Inr (mPath mt)
    \<and> db_ok E (dview (b_db s'))
    \<and> relocated E (dview (b_db s)) (dview (b_db s')) (mIsDir im) (mPath im) (mPath mt)
        (cleanPath (slash # trimSpace (rootedPath (trimSpace dst))))"
  by (rule badger_reliable.move_ok [OF assms])

theorem move_relocates_subtree_witness:
  "\<exists>mt s2. badger_Move mem_env run_clock run_s1 (run_rng 0) ''/b'' [] = (Inr mt, s2) \<and> mPath mt = ''/b''
     \<and> entryOf mem_env (map_of (b_db s2)) ''/a'' = None
     \<and> entryOf mem_env (map_of (b_db s2)) ''/b'' = Some (run_rng 0, False, 2, [], ''hi'')"
proof -
  have p: "rootedPath (trimSpace ''/b'') = ''/b''" "utf8 ''/b''" "trimSuffix ''/b'' ''/'' = ''/b''"
    "basePath ''/b'' = ''b''" "extPath ''b'' = []" "trimPrefix [] ''.'' = []"
    "cleanPath (slash # trimSpace ''/b'') = ''/b''" by code_simp+
  have "cleanPath ''/a'' = ''/a''" "trimSpace ''/b'' = ''/b''" "\<not> containsAny ''/b'' badChars" by code_simp+
  then have tp: "TransferPath run_meta ''/b'' = Inr ''/b''"
    using p(7) by (simp add: TransferPath_def)
  have "\<exists>b. bMarshal mem_env (renamed run_meta ''/b'' (run_clock 0)) = Inr b"
    by (rule run_marshal) (simp_all add: renamed_def p run_clock_def Let_def)
  then obtain b where b: "bMarshal mem_env (renamed run_meta ''/b'' (run_clock 0)) = Inr b" by blast
  have "\<exists>mt s2. badger_Move mem_env run_clock run_s1 (mID run_meta) ''/b'' [] = (Inr mt, s2)"
  proof (rule membadger.move_file_total)
    show "TransferPath run_meta (rootedPath (trimSpace ''/b'')) = Inr ''/b''" using tp p(1) by simp
    show "metaAt mem_env (map_of (b_db run_s1)) ''/a'' = Some run_meta" by (rule run_at)
    show "index_ok mem_env (map_of (b_db run_s1))" by (rule run_index_ok)
  qed (use b in \<open>simp_all add: p run_s1_store(1,3)\<close>)
  then obtain mt s2 where w: "badger_Move mem_env run_clock run_s1 (run_rng 0) ''/b'' [] = (Inr mt, s2)" by auto
  have "cleanAbs ''/a''" by (rule cleanAbs_def [THEN iffD2]) (rule exI [of _ "[''a'']"], simp add: properElem_def)
  then have wf: "wf_tree (metaAt mem_env (map_of (b_db run_s1)))"
    by (auto simp: wf_tree_def run_s1_store(3) shapedPath_def run_paths split: if_splits intro!: exI [of _ "''/a''"])
  obtain im where im: "metaAt mem_env (map_of (b_db run_s1)) (mPath im) = Some im"
    "TransferPath im ''/b'' = Inr (mPath mt)"
    "relocated mem_env (map_of (b_db run_s1)) (map_of (b_db s2)) (mIsDir im) (mPath im) (mPath mt) ''/b''"
    using move_relocates_subtree [OF membadger.badger_reliable_axioms w run_s1_store(2) wf p(2)] unfolding p(1,7)
    by blast
  have "im = run_meta" using im(1) run_s1_store(3) by (simp split: if_splits)
  then have mt: "mPath mt = ''/b''" using im(2) tp by simp
  have ea: "entryOf mem_env (map_of (b_db run_s1)) ''/a'' = Some (run_rng 0, False, 2, [], ''hi'')"
    using run_s1_store(4) run_at by (auto simp: entryOf_def fsView_def dest: fun_cong [where x = "''/a''"])
  show ?thesis
    using im(3) ea w mt unfolding \<open>im = run_meta\<close> relocated_def
    by (auto simp: subtree_def)
qed

end
