(* ===== verification/Users.thy ===== *)
theory Users
  imports Kv_Store Utf8
begin

text \<open>
  The user store of the server (\<open>internal/server/services/users.go\<close>): accounts, the index of
  their names and the log of their actions, kept in a Badger database of their own. JSON, bcrypt
  and the case tables of \<open>strings.ToLower\<close> are fields of the record of external operations. An
  identifier drawn by \<open>uuid.NewV4\<close>, bcrypt's salt and the clock are arguments.
\<close>

section \<open>State and external operations\<close>

definition RoleAdmin :: string where "RoleAdmin = ''admin''"
definition RoleUser :: string where "RoleUser = ''user''"

definition roleValid :: "string \<Rightarrow> bool" where
  "roleValid r \<longleftrightarrow> r = RoleAdmin \<or> r = RoleUser"

record user =
  uID :: uuid
  uUsername :: string
  uSessionVersion :: "64 word"
  uPasswordHash :: bytes
  uRole :: string
  uDisabled :: bool
  uCreatedAt :: int
  uUpdatedAt :: int

record user_update =
  upRole :: "string option"
  upDisabled :: "bool option"
  upPassword :: string

record user_event =
  evID :: uuid
  evUserID :: uuid
  evUsername :: string
  evAction :: string
  evStatus :: int
  evCreatedAt :: int

text \<open>\<open>uCompare h p\<close> holds when \<open>bcrypt.CompareHashAndPassword\<close> reports no error.\<close>

record ('d, 't) uenv = "('d, 't) kv" +
  uMarshal :: "user \<Rightarrow> err + bytes"
  uUnmarshal :: "bytes \<Rightarrow> err + user"
  evMarshal :: "user_event \<Rightarrow> err + bytes"
  evUnmarshal :: "bytes \<Rightarrow> err + user_event"
  uHash :: "nat \<Rightarrow> string \<Rightarrow> err + bytes"
  uCompare :: "bytes \<Rightarrow> string \<Rightarrow> bool"
  uLower :: "string \<Rightarrow> string"

section \<open>Keys\<close>

definition userPrefix :: bytes where "userPrefix = ''user:''"
definition usernamePrefix :: bytes where "usernamePrefix = ''username:''"
definition eventPrefix :: bytes where "eventPrefix = ''event:''"

definition userKey :: "uuid \<Rightarrow> bytes" where
  "userKey i = userPrefix @ idBytes i"

definition usernameKey :: "string \<Rightarrow> bytes" where
  "usernameKey n = usernamePrefix @ n"

definition normalizeUsername :: "('d, 't, 'z) uenv_scheme \<Rightarrow> string \<Rightarrow> string" where
  "normalizeUsername E n = toLower (uLower E) (trimSpace n)"

text \<open>\<open>%020d\<close>: the sign, if any, then zeros up to a width of twenty.\<close>

fun decDigits :: "nat \<Rightarrow> nat \<Rightarrow> string" where
  "decDigits 0 n = []"
| "decDigits (Suc w) n = decDigits w (n div 10) @ [char_of (48 + n mod 10)]"

definition fmt020 :: "int \<Rightarrow> string" where
  "fmt020 x = (if x < 0 then CHR ''-'' # decDigits 19 (nat (- x)) else decDigits 20 (nat x))"

definition eventKey :: "user_event \<Rightarrow> bytes" where
  "eventKey ev = eventPrefix @ fmt020 (evCreatedAt ev) @ '':'' @ uuidString (evID ev)"

section \<open>Accounts\<close>

definition userCreateTx :: "('d, 't, 'z) uenv_scheme \<Rightarrow> user \<Rightarrow> 't \<Rightarrow> err + user \<times> 't" where
  "userCreateTx E user t =
     (case kvGet E t (usernameKey (uUsername user)) of
        Inr _ \<Rightarrow> Inl ErrUsernameExists
      | Inl e \<Rightarrow>
          if \<not> errorsIs e ErrKeyNotFound then Inl e
          else
            bindE (uMarshal E user) (\<lambda>data.
            bindE (kvSet E t (userKey (uID user)) data) (\<lambda>t.
            bindE (kvSet E t (usernameKey (uUsername user)) (idBytes (uID user))) (\<lambda>t.
            Inr (user, t)))))"

definition user_Create :: "('d, 't, 'z) uenv_scheme \<Rightarrow> uuid \<Rightarrow> nat \<Rightarrow> int \<Rightarrow> 'd \<Rightarrow> string \<Rightarrow> string
    \<Rightarrow> string \<Rightarrow> (err + user) \<times> 'd" where
  "user_Create E i salt now d username password role =
     (let username = normalizeUsername E username in
      if username = [] \<or> password = [] then (Inl ErrInvalidPassword, d)
      else if \<not> roleValid role then (Inl ErrInvalidRole, d)
      else case uHash E salt password of
        Inl e \<Rightarrow> (Inl e, d)
      | Inr hash \<Rightarrow>
          dbUpdate E (userCreateTx E \<lparr>uID = i, uUsername = username, uSessionVersion = 0,
            uPasswordHash = hash, uRole = role, uDisabled = False, uCreatedAt = now,
            uUpdatedAt = now\<rparr>) d)"

definition readUser :: "('d, 't, 'z) uenv_scheme \<Rightarrow> 't \<Rightarrow> uuid \<Rightarrow> err + user" where
  "readUser E t i =
     (case kvGet E t (userKey i) of
        Inl e \<Rightarrow> if errorsIs e ErrKeyNotFound then Inl ErrUserNotFound else Inl e
      | Inr data \<Rightarrow> uUnmarshal E data)"

definition user_ByID :: "('d, 't, 'z) uenv_scheme \<Rightarrow> 'd \<Rightarrow> uuid \<Rightarrow> err + user" where
  "user_ByID E d i = dbView E (\<lambda>t. readUser E t i) d"

definition user_ByUsername :: "('d, 't, 'z) uenv_scheme \<Rightarrow> 'd \<Rightarrow> string \<Rightarrow> err + user" where
  "user_ByUsername E d username = dbView E (\<lambda>t.
     case kvGet E t (usernameKey (normalizeUsername E username)) of
       Inl e \<Rightarrow> if errorsIs e ErrKeyNotFound then Inl ErrUserNotFound else Inl e
     | Inr data \<Rightarrow>
         if length data \<noteq> 16 then Inl (ErrOther ''invalid user id length'')
         else readUser E t (idOfBytes data)) d"

definition user_Authenticate :: "('d, 't, 'z) uenv_scheme \<Rightarrow> 'd \<Rightarrow> string \<Rightarrow> string \<Rightarrow> err + user" where
  "user_Authenticate E d username password =
     (case user_ByUsername E d username of
        Inl e \<Rightarrow> Inl ErrInvalidPassword
      | Inr user \<Rightarrow>
          if uDisabled user \<or> \<not> uCompare E (uPasswordHash user) password
          then Inl ErrInvalidPassword else Inr user)"

definition user_List :: "('d, 't, 'z) uenv_scheme \<Rightarrow> 'd \<Rightarrow> err + user list" where
  "user_List E d = dbView E (\<lambda>t.
     mapE (\<lambda>(key, v). bindE v (uUnmarshal E)) (kvScan E t userPrefix)) d"

definition activeAdmin :: "user \<Rightarrow> bool" where
  "activeAdmin u \<longleftrightarrow> uRole u = RoleAdmin \<and> \<not> uDisabled u"

definition activeAdminCount :: "('d, 't, 'z) uenv_scheme \<Rightarrow> 't \<Rightarrow> err + int" where
  "activeAdminCount E t =
     forE (\<lambda>(key, v) n. bindE (bindE v (uUnmarshal E)) (\<lambda>user.
         Inr (if activeAdmin user then n + 1 else n)))
       (kvScan E t userPrefix) 0"

definition userUpdateTx :: "('d, 't, 'z) uenv_scheme \<Rightarrow> uuid \<Rightarrow> user_update \<Rightarrow> bytes option \<Rightarrow> int
    \<Rightarrow> 't \<Rightarrow> err + user \<times> 't" where
  "userUpdateTx E i upd hash now t =
     bindE (readUser E t i) (\<lambda>user.
     let disabled = (case upDisabled upd of None \<Rightarrow> uDisabled user | Some b \<Rightarrow> b);
         role = (case upRole upd of None \<Rightarrow> uRole user | Some r \<Rightarrow> r)
     in bindE (if uRole user = RoleAdmin \<and> \<not> uDisabled user \<and> (role \<noteq> RoleAdmin \<or> disabled)
               then bindE (activeAdminCount E t) (\<lambda>count.
                 if count = 1 then Inl ErrLastAdmin else Inr ())
               else Inr ()) (\<lambda>_.
        let user = user\<lparr>uRole := role, uDisabled := disabled\<rparr>;
            user = (case hash of None \<Rightarrow> user
                    | Some h \<Rightarrow> user\<lparr>uPasswordHash := h, uSessionVersion := uSessionVersion user + 1\<rparr>);
            user = user\<lparr>uUpdatedAt := now\<rparr>
        in bindE (uMarshal E user) (\<lambda>data.
           bindE (kvSet E t (userKey i) data) (\<lambda>t. Inr (user, t)))))"

definition user_Update :: "('d, 't, 'z) uenv_scheme \<Rightarrow> nat \<Rightarrow> int \<Rightarrow> 'd \<Rightarrow> uuid \<Rightarrow> user_update
    \<Rightarrow> (err + user) \<times> 'd" where
  "user_Update E salt now d i upd =
     (if (case upRole upd of None \<Rightarrow> False | Some r \<Rightarrow> \<not> roleValid r) then (Inl ErrInvalidRole, d)
      else case (if upPassword upd \<noteq> [] then bindE (uHash E salt (upPassword upd)) (\<lambda>h. Inr (Some h))
                 else Inr None) of
        Inl e \<Rightarrow> (Inl e, d)
      | Inr hash \<Rightarrow> dbUpdate E (userUpdateTx E i upd hash now) d)"

section \<open>Events\<close>

definition user_RecordEvent :: "('d, 't, 'z) uenv_scheme \<Rightarrow> uuid \<Rightarrow> int \<Rightarrow> 'd \<Rightarrow> user \<Rightarrow> string \<Rightarrow> int
    \<Rightarrow> (err + unit) \<times> 'd" where
  "user_RecordEvent E i now d user action status =
     (let event = \<lparr>evID = i, evUserID = uID user, evUsername = uUsername user, evAction = action,
                   evStatus = status, evCreatedAt = now\<rparr>
      in case evMarshal E event of
           Inl e \<Rightarrow> (Inl e, d)
         | Inr data \<Rightarrow> dbUpdate E (\<lambda>t. bindE (kvSet E t (eventKey event) data) (\<lambda>t. Inr ((), t))) d)"

text \<open>
  The loop of \<open>ListEvents\<close> over the events it visits, newest key first: the events collected and
  the number of matching ones so far. Without a user, values outside the page are not read.
\<close>

definition listEventStep :: "('d, 't, 'z) uenv_scheme \<Rightarrow> int \<Rightarrow> int \<Rightarrow> uuid option
    \<Rightarrow> bytes \<times> (err + bytes) \<Rightarrow> user_event list \<times> int \<Rightarrow> err + user_event list \<times> int" where
  "listEventStep E start pageSize userID kv st =
     (case st of (events, cnt) \<Rightarrow>
      if userID = None \<and> (cnt < start \<or> int (length events) = pageSize) then Inr (events, i64 (cnt + 1))
      else bindE (bindE (snd kv) (evUnmarshal E)) (\<lambda>event.
        if userID \<noteq> None \<and> Some (evUserID event) \<noteq> userID then Inr (events, cnt)
        else Inr (if start \<le> cnt \<and> int (length events) < pageSize then events @ [event] else events,
                  i64 (cnt + 1))))"

text \<open>The reverse iterator starts at the largest key up to the prefix followed by \<open>0xff\<close>.\<close>

definition eventItems :: "('d, 't, 'z) uenv_scheme \<Rightarrow> 't \<Rightarrow> (bytes \<times> (err + bytes)) list" where
  "eventItems E t = rev (filter (\<lambda>kv. fst kv \<le> eventPrefix @ [char_of (255::nat)]) (kvScan E t eventPrefix))"

definition user_ListEvents :: "('d, 't, 'z) uenv_scheme \<Rightarrow> 'd \<Rightarrow> int \<Rightarrow> int \<Rightarrow> uuid option
    \<Rightarrow> err + user_event list \<times> int" where
  "user_ListEvents E d page pageSize userID = dbView E (\<lambda>t.
     forE (listEventStep E (i64 (i64 (page - 1) * pageSize)) pageSize userID) (eventItems E t) ([], 0)) d"

definition clearEventStep :: "('d, 't, 'z) uenv_scheme \<Rightarrow> uuid \<Rightarrow> bytes \<times> (err + bytes) \<Rightarrow> int \<times> 't
    \<Rightarrow> err + int \<times> 't" where
  "clearEventStep E userID kv st =
     (case st of (deleted, t) \<Rightarrow>
      bindE (bindE (snd kv) (evUnmarshal E)) (\<lambda>event.
        if evUserID event = userID
        then bindE (kvDelete E t (fst kv)) (\<lambda>t. Inr (i64 (deleted + 1), t))
        else Inr (deleted, t)))"

definition user_ClearEvents :: "('d, 't, 'z) uenv_scheme \<Rightarrow> 'd \<Rightarrow> uuid \<Rightarrow> (err + int) \<times> 'd" where
  "user_ClearEvents E d userID = dbUpdate E (\<lambda>t.
     forE (clearEventStep E userID) (kvScan E t eventPrefix) (0, t)) d"

section \<open>Inspection\<close>

record storage_stat =
  ssItems :: int
  ssSize :: int

text \<open>\<open>vsize\<close> is \<open>item.ValueSize()\<close>.\<close>

definition userStatStep :: "(bytes \<Rightarrow> int) \<Rightarrow> storage_stat \<times> int \<Rightarrow> bytes \<Rightarrow> storage_stat \<times> int" where
  "userStatStep vsize st key =
     (case st of (stats, users) \<Rightarrow>
        (\<lparr>ssItems = i64 (ssItems stats + 1), ssSize = i64 (ssSize stats + int (length key) + vsize key)\<rparr>,
         if prefix userPrefix key then i64 (users + 1) else users))"

definition user_Stats :: "('d, 't, 'z) uenv_scheme \<Rightarrow> ('t \<Rightarrow> bytes \<Rightarrow> int) \<Rightarrow> 'd \<Rightarrow> storage_stat \<times> int" where
  "user_Stats E vsize d = dbView E (\<lambda>t.
     foldl (userStatStep (vsize t)) (\<lparr>ssItems = 0, ssSize = 0\<rparr>, 0) (map fst (kvScan E t []))) d"

record user_res =
  urID :: uuid
  urUsername :: string
  urRole :: string
  urDisabled :: bool
  urCreatedAt :: int
  urUpdatedAt :: int

definition userResponse :: "user \<Rightarrow> user_res" where
  "userResponse u = \<lparr>urID = uID u, urUsername = uUsername u, urRole = uRole u,
     urDisabled = uDisabled u, urCreatedAt = uCreatedAt u, urUpdatedAt = uUpdatedAt u\<rparr>"

datatype entry_value = SvRedacted | SvUser user_res | SvString string | SvEvent user_event

record system_entry =
  seKey :: string
  seKind :: string
  seValue :: entry_value

definition systemEntry :: "('d, 't, 'z) uenv_scheme \<Rightarrow> bytes \<times> (err + bytes) \<Rightarrow> err + system_entry" where
  "systemEntry E item =
     (case item of (key, v) \<Rightarrow>
      if \<not> prefix userPrefix key \<and> \<not> prefix usernamePrefix key \<and> \<not> prefix eventPrefix key
      then Inr \<lparr>seKey = hexEncode key, seKind = ''unknown'', seValue = SvRedacted\<rparr>
      else bindE v (\<lambda>data.
        if prefix userPrefix key then
          bindE (uUnmarshal E data) (\<lambda>user.
            Inr \<lparr>seKey = ''user:'' @ uuidString (uID user), seKind = ''user'', seValue = SvUser (userResponse user)\<rparr>)
        else if prefix usernamePrefix key then
          (if length data \<noteq> 16 then Inl (ErrOther ''invalid UUID'')
           else Inr \<lparr>seKey = key, seKind = ''username-index'', seValue = SvString (uuidString (idOfBytes data))\<rparr>)
        else
          bindE (evUnmarshal E data) (\<lambda>event.
            Inr \<lparr>seKey = key, seKind = ''event'', seValue = SvEvent event\<rparr>)))"

definition listEntryStep :: "('d, 't, 'z) uenv_scheme \<Rightarrow> int \<Rightarrow> int \<Rightarrow> bytes \<times> (err + bytes)
    \<Rightarrow> system_entry list \<times> int \<Rightarrow> err + system_entry list \<times> int" where
  "listEntryStep E start pageSize item st =
     (case st of (entries, cnt) \<Rightarrow>
      bindE (if start \<le> cnt \<and> int (length entries) < pageSize
             then bindE (systemEntry E item) (\<lambda>entry. Inr (entries @ [entry]))
             else Inr entries) (\<lambda>entries. Inr (entries, i64 (cnt + 1))))"

definition user_ListSystemEntries :: "('d, 't, 'z) uenv_scheme \<Rightarrow> 'd \<Rightarrow> int \<Rightarrow> int
    \<Rightarrow> err + system_entry list \<times> int" where
  "user_ListSystemEntries E d page pageSize = dbView E (\<lambda>t.
     forE (listEntryStep E (i64 (i64 (page - 1) * pageSize)) pageSize) (kvScan E t []) ([], 0)) d"

text \<open>The handlers' page parameters, after \<open>strconv.Atoi\<close>: both must be given in range.\<close>

definition pagination :: "int option \<Rightarrow> int option \<Rightarrow> (int \<times> int) option" where
  "pagination page pageSize =
     (case (page, pageSize) of
        (Some p, Some n) \<Rightarrow> if p < 1 \<or> n < 1 \<or> n > 100 then None else Some (p, n)
      | _ \<Rightarrow> None)"

end
