(* ===== verification/Users_Inv.thy ===== *)
theory Users_Inv
  imports Users
begin

text \<open>
  The consistency of the user store: every account is stored under its identifier and found
  under its name, no two accounts share a name. The contract the store's client relies on is the
  locale \<open>user_env\<close>; within it, what each operation does to the accounts.
\<close>

section \<open>Views and invariant\<close>

definition userAt :: "('d, 't, 'z) uenv_scheme \<Rightarrow> store \<Rightarrow> uuid \<Rightarrow> user option" where
  "userAt E m i = (case m (userKey i) of None \<Rightarrow> None
     | Some b \<Rightarrow> (case uUnmarshal E b of Inl _ \<Rightarrow> None | Inr u \<Rightarrow> Some u))"

definition nameAt :: "store \<Rightarrow> string \<Rightarrow> bytes option" where
  "nameAt m n = m (usernameKey n)"

definition userText :: "user \<Rightarrow> bool" where
  "userText u \<longleftrightarrow> utf8 (uUsername u) \<and> roleValid (uRole u)"

definition users_ok :: "('d, 't, 'z) uenv_scheme \<Rightarrow> store \<Rightarrow> bool" where
  "users_ok E m \<longleftrightarrow>
     (\<forall>k. m k \<noteq> None \<and> prefix userPrefix k \<longrightarrow> (\<exists>i. k = userKey i \<and> userAt E m i \<noteq> None))
     \<and> (\<forall>i u. userAt E m i = Some u \<longrightarrow> uID u = i \<and> userText u \<and> nameAt m (uUsername u) = Some (idBytes i))
     \<and> (\<forall>n b. nameAt m n = Some b \<longrightarrow> (\<exists>i u. b = idBytes i \<and> userAt E m i = Some u \<and> uUsername u = n))"

lemma user_keys [simp]:
  "userKey i = userKey j \<longleftrightarrow> i = j" "usernameKey n = usernameKey n' \<longleftrightarrow> n = n'"
  "userKey i \<noteq> usernameKey n" "usernameKey n \<noteq> userKey i"
  "eventKey ev \<noteq> userKey i" "eventKey ev \<noteq> usernameKey n"
  "userKey i \<noteq> eventKey ev" "usernameKey n \<noteq> eventKey ev"
  by (auto simp: userKey_def usernameKey_def userPrefix_def usernamePrefix_def eventKey_def eventPrefix_def)

lemma user_prefixes [simp]:
  "prefix userPrefix (userKey i)" "\<not> prefix userPrefix (usernameKey n)" "\<not> prefix userPrefix (eventKey ev)"
  "prefix eventPrefix (eventKey ev)" "\<not> prefix eventPrefix (userKey i)" "\<not> prefix eventPrefix (usernameKey n)"
  by (auto simp: userKey_def usernameKey_def userPrefix_def usernamePrefix_def eventKey_def eventPrefix_def)

lemma userAt_user [simp]:
  "uUnmarshal E b = Inr u \<Longrightarrow> userAt E (m(userKey i \<mapsto> b)) = (userAt E m)(i \<mapsto> u)"
  by (auto simp: userAt_def)

lemma userAt_name [simp]: "userAt E (m(usernameKey n := x)) = userAt E m"
  by (auto simp: userAt_def)

lemma nameAt_user [simp]: "nameAt (m(userKey i := x)) = nameAt m"
  by (auto simp: nameAt_def)

lemma nameAt_name [simp]: "nameAt (m(usernameKey n := x)) = (nameAt m)(n := x)"
  by (auto simp: nameAt_def)

lemma users_okD:
  assumes "users_ok E m" and "userAt E m i = Some u"
  shows "uID u = i" "userText u" "nameAt m (uUsername u) = Some (idBytes i)"
  using assms by (auto simp: users_ok_def)

lemma users_ok_name:
  assumes "users_ok E m" and "nameAt m n = Some b"
  obtains i u where "b = idBytes i" "userAt E m i = Some u" "uUsername u = n"
  using assms unfolding users_ok_def by blast

lemma users_ok_key:
  assumes "users_ok E m" and "m k = Some b" and "prefix userPrefix k"
  obtains i u where "k = userKey i" "userAt E m i = Some u" "uUnmarshal E b = Inr u"
proof -
  obtain i where i: "k = userKey i" "userAt E m i \<noteq> None"
    using assms unfolding users_ok_def by blast
  then obtain u where "uUnmarshal E b = Inr u"
    using assms(2) by (auto simp: userAt_def split: sum.splits)
  with i assms(2) show thesis using that by (auto simp: userAt_def)
qed

lemma users_ok_keyE: "users_ok E m \<Longrightarrow> m k \<noteq> None \<Longrightarrow> prefix userPrefix k \<Longrightarrow>
    \<exists>i. k = userKey i \<and> userAt E m i \<noteq> None"
  by (simp add: users_ok_def)

lemma user_key_set:
  assumes "users_ok E m" and "uUnmarshal E b = Inr u" and "(m(userKey i \<mapsto> b)) k \<noteq> None"
    and "prefix userPrefix k"
  shows "\<exists>j. k = userKey j \<and> userAt E (m(userKey i \<mapsto> b)) j \<noteq> None"
proof (cases "k = userKey i")
  case False
  then obtain j where "k = userKey j" "userAt E m j \<noteq> None"
    using users_ok_keyE [OF assms(1), of k] assms(3,4) by auto
  with False assms(2) show ?thesis by (intro exI [of _ j]) auto
qed (use assms(2) in auto)

text \<open>Names are unique.\<close>

lemma users_ok_unique:
  "users_ok E m \<Longrightarrow> userAt E m i = Some u \<Longrightarrow> userAt E m j = Some v \<Longrightarrow> uUsername u = uUsername v \<Longrightarrow> i = j"
  using users_okD(3) [of E m i u] users_okD(3) [of E m j v] by auto

lemma users_ok_insert:
  assumes "users_ok E m" and "uUnmarshal E b = Inr u" and "userText u"
    and "nameAt m (uUsername u) = None" and "userAt E m (uID u) = None"
  shows "users_ok E (m(userKey (uID u) \<mapsto> b, usernameKey (uUsername u) \<mapsto> idBytes (uID u)))"
  unfolding users_ok_def
proof (intro conjI allI impI; (elim conjE)?)
  fix k assume "(m(userKey (uID u) \<mapsto> b, usernameKey (uUsername u) \<mapsto> idBytes (uID u))) k \<noteq> None"
    and "prefix userPrefix k"
  then show "\<exists>i. k = userKey i \<and>
      userAt E (m(userKey (uID u) \<mapsto> b, usernameKey (uUsername u) \<mapsto> idBytes (uID u))) i \<noteq> None"
    using user_key_set [OF assms(1,2), of "uID u" k]
    by (cases "k = usernameKey (uUsername u)") simp_all
next
  fix i v assume "userAt E (m(userKey (uID u) \<mapsto> b, usernameKey (uUsername u) \<mapsto> idBytes (uID u))) i = Some v"
  then show "uID v = i" "userText v"
    "nameAt (m(userKey (uID u) \<mapsto> b, usernameKey (uUsername u) \<mapsto> idBytes (uID u))) (uUsername v) = Some (idBytes i)"
    using assms users_okD [OF assms(1), of i v] by (auto split: if_splits)
next
  fix n c assume nc: "nameAt (m(userKey (uID u) \<mapsto> b, usernameKey (uUsername u) \<mapsto> idBytes (uID u))) n = Some c"
  show "\<exists>i v. c = idBytes i \<and> userAt E (m(userKey (uID u) \<mapsto> b,
      usernameKey (uUsername u) \<mapsto> idBytes (uID u))) i = Some v \<and> uUsername v = n"
  proof (cases "n = uUsername u")
    case False
    with nc have "nameAt m n = Some c" by simp
    then obtain i v where v: "c = idBytes i" "userAt E m i = Some v" "uUsername v = n"
      by (rule users_ok_name [OF assms(1)])
    then have "i \<noteq> uID u" using assms(5) by auto
    with v assms(2) show ?thesis by (intro exI [of _ i] exI [of _ v]) simp
  qed (use nc assms(2) in \<open>auto intro!: exI [of _ "uID u"]\<close>)
qed

lemma users_ok_update:
  assumes "users_ok E m" and "uUnmarshal E b = Inr u" and "userText u"
    and "userAt E m (uID u) = Some v" and "uUsername u = uUsername v"
  shows "users_ok E (m(userKey (uID u) \<mapsto> b))"
  unfolding users_ok_def
proof (intro conjI allI impI; (elim conjE)?)
  fix k assume "(m(userKey (uID u) \<mapsto> b)) k \<noteq> None" and "prefix userPrefix k"
  then show "\<exists>i. k = userKey i \<and> userAt E (m(userKey (uID u) \<mapsto> b)) i \<noteq> None"
    by (rule user_key_set [OF assms(1,2)])
next
  fix i w assume "userAt E (m(userKey (uID u) \<mapsto> b)) i = Some w"
  then have "((userAt E m)(uID u \<mapsto> u)) i = Some w" using assms(2) by simp
  then have "uID w = i \<and> userText w \<and> nameAt m (uUsername w) = Some (idBytes i)"
    using assms(3,5) users_okD [OF assms(1), of i w] users_okD(3) [OF assms(1,4)]
    by (cases "i = uID u") simp_all
  then show "uID w = i" "userText w" "nameAt (m(userKey (uID u) \<mapsto> b)) (uUsername w) = Some (idBytes i)"
    by simp_all
next
  fix n c assume "nameAt (m(userKey (uID u) \<mapsto> b)) n = Some c"
  then obtain i w where w: "c = idBytes i" "userAt E m i = Some w" "uUsername w = n"
    using users_ok_name [OF assms(1), of n c] by auto
  show "\<exists>i v. c = idBytes i \<and> userAt E (m(userKey (uID u) \<mapsto> b)) i = Some v \<and> uUsername v = n"
    using w assms(2,4,5) by (cases "i = uID u") auto
qed

lemma users_ok_event: "users_ok E (m(eventKey ev := x)) = users_ok E m"
proof -
  have a: "userAt E (m(eventKey ev := x)) = userAt E m" "nameAt (m(eventKey ev := x)) = nameAt m"
    by (auto simp: userAt_def nameAt_def)
  have "((m(eventKey ev := x)) k \<noteq> None \<and> prefix userPrefix k) = (m k \<noteq> None \<and> prefix userPrefix k)" for k
    by auto
  then show ?thesis by (simp only: users_ok_def a)
qed

section \<open>The contract\<close>

text \<open>
  JSON gives back accounts and events whose text is valid UTF-8, bcrypt accepts the password it
  hashed, and lower-casing keeps text valid.
\<close>

definition eventText :: "user_event \<Rightarrow> bool" where
  "eventText ev \<longleftrightarrow> utf8 (evUsername ev) \<and> utf8 (evAction ev)"

locale user_env = kv_store E dview tview twr
  for E :: "('d, 't, 'z) uenv_scheme" and dview :: "'d \<Rightarrow> store" and tview :: "'t \<Rightarrow> store"
    and twr :: "'t \<Rightarrow> wlog" +
  assumes user_codec: "userText u \<Longrightarrow> uMarshal E u = Inr b \<Longrightarrow> uUnmarshal E b = Inr u"
    and event_codec: "eventText ev \<Longrightarrow> evMarshal E ev = Inr b \<Longrightarrow> evUnmarshal E b = Inr ev"
    and hash_compare: "uHash E salt p = Inr h \<Longrightarrow> uCompare E h p"
    and lower_text: "utf8 s \<Longrightarrow> utf8 (uLower E s)"
begin

lemma normalize_text: "utf8 n \<Longrightarrow> utf8 (normalizeUsername E n)"
  by (simp add: normalizeUsername_def utf8_toLower lower_text utf8_trimSpace)

lemma read_user:
  assumes "shows d t m" and "readUser E t i = Inr u"
  shows "userAt E m i = Some u"
  using assms(2) by (auto simp: readUser_def userAt_def split: sum.splits if_splits
      dest!: shows_get [OF assms(1)])

lemma createTx_accounts:
  assumes "shows d t m" and "users_ok E m" and "userText u" and "userAt E m (uID u) = None"
    and "userCreateTx E u t = Inr (v, t')"
  shows "\<exists>m'. shows d t' m' \<and> v = u \<and> users_ok E m' \<and> nameAt m (uUsername u) = None
    \<and> userAt E m' = (userAt E m)(uID u \<mapsto> u)"
proof -
  obtain e where e: "kvGet E t (usernameKey (uUsername u)) = Inl e" "errorsIs e ErrKeyNotFound"
    using assms(5) by (auto simp: userCreateTx_def split: sum.splits if_splits)
  then obtain b t1 where b: "uMarshal E u = Inr b" "kvSet E t (userKey (uID u)) b = Inr t1"
    "kvSet E t1 (usernameKey (uUsername u)) (idBytes (uID u)) = Inr t'" "v = u"
    using assms(5) by (auto simp: userCreateTx_def)
  have n: "nameAt m (uUsername u) = None" using shows_missing [OF assms(1) e] by (simp add: nameAt_def)
  have c: "uUnmarshal E b = Inr u" by (rule user_codec [OF assms(3) b(1)])
  note sh = shows_set [OF shows_set [OF assms(1) b(2)] b(3)]
  show ?thesis
    using sh b(4) n users_ok_insert [OF assms(2) c assms(3) n assms(4)] c
    by (intro exI conjI) (assumption | simp)+
qed

lemma create_accounts:
  assumes "user_Create E i salt now d username password role = (Inr u, d')"
    and "users_ok E (dview d)" and "utf8 username" and "userAt E (dview d) i = None"
  shows "users_ok E (dview d')" "userAt E (dview d') = (userAt E (dview d))(i \<mapsto> u)"
    "nameAt (dview d) (uUsername u) = None" "uID u = i" "uUsername u = normalizeUsername E username"
    "uRole u = role" "roleValid role" "\<not> uDisabled u" "uCompare E (uPasswordHash u) password"
    "uSessionVersion u = 0" "uUsername u \<noteq> []"
proof -
  obtain h where h: "uHash E salt password = Inr h" "roleValid role" "normalizeUsername E username \<noteq> []"
    and tx: "dbUpdate E (userCreateTx E \<lparr>uID = i, uUsername = normalizeUsername E username, uSessionVersion = 0,
            uPasswordHash = h, uRole = role, uDisabled = False, uCreatedAt = now, uUpdatedAt = now\<rparr>) d
          = (Inr u, d')" (is "dbUpdate E (userCreateTx E ?u) d = _")
    using assms(1) by (auto simp: user_Create_def Let_def split: if_splits sum.splits)
  have tt: "userText ?u" using h(2) normalize_text [OF assms(3)] by (simp add: userText_def)
  have c: "u = ?u \<and> users_ok E (dview d') \<and> nameAt (dview d) (uUsername ?u) = None
      \<and> userAt E (dview d') = (userAt E (dview d))(uID ?u \<mapsto> ?u)"
  proof (rule update_rule [OF tx])
    fix t a t' assume "shows d t (dview d)" "userCreateTx E ?u t = Inr (a, t')"
    then show "\<exists>m. shows d t' m \<and> a = ?u \<and> users_ok E m \<and> nameAt (dview d) (uUsername ?u) = None
      \<and> userAt E m = (userAt E (dview d))(uID ?u \<mapsto> ?u)"
      by (intro createTx_accounts tt assms(2)) (simp_all add: assms(4))
  qed
  then have u: "u = ?u" by blast
  from c show "users_ok E (dview d')" "userAt E (dview d') = (userAt E (dview d))(i \<mapsto> u)"
    "nameAt (dview d) (uUsername u) = None" "uID u = i" "uUsername u = normalizeUsername E username"
    "uRole u = role" "roleValid role" "\<not> uDisabled u" "uCompare E (uPasswordHash u) password"
    "uSessionVersion u = 0" "uUsername u \<noteq> []"
    using h(2,3) hash_compare [OF h(1)] unfolding u by simp_all
qed

text \<open>A scan that decodes lists every account once.\<close>

lemma scan_users:
  assumes "shows d t m" and "users_ok E m"
    and "mapE (\<lambda>(key, v). bindE v (uUnmarshal E)) (kvScan E t userPrefix) = Inr us"
  shows "set us = {u. \<exists>i. userAt E m i = Some u}" "distinct (map uID us)"
proof -
  let ?its = "kvScan E t userPrefix"
  have l: "list_all2 (\<lambda>kv u. bindE (snd kv) (uUnmarshal E) = Inr u) ?its us"
    using assms(3) by (auto simp: mapE_Inr_iff case_prod_unfold)
  have one: "fst kv = userKey (uID u) \<and> userAt E m (uID u) = Some u"
    if kv: "kv \<in> set ?its" and u: "bindE (snd kv) (uUnmarshal E) = Inr u" for kv u
  proof -
    obtain b where b: "snd kv = Inr b" "uUnmarshal E b = Inr u" using u by auto
    then have k: "m (fst kv) = Some b" "prefix userPrefix (fst kv)"
      using shows_scan [OF assms(1), of "fst kv" b userPrefix] kv by (metis prod.collapse)+
    with users_ok_key [OF assms(2) k] b(2) users_okD(1) [OF assms(2)] show ?thesis by (metis sum.inject(2))
  qed
  have l2: "list_all2 (\<lambda>kv u. fst kv = userKey (uID u) \<and> userAt E m (uID u) = Some u) ?its us"
    by (rule list.rel_mono_strong [OF l]) (use one in auto)
  then have ks: "map fst ?its = map (\<lambda>u. userKey (uID u)) us"
    by (auto simp: list_all2_conv_all_nth list_eq_iff_nth_eq)
  have "distinct (map fst ?its)" using scan_sorted [of t userPrefix] by (simp add: strict_sorted_iff)
  then show "distinct (map uID us)" unfolding ks by (auto simp: distinct_map inj_on_def)
  show "set us = {u. \<exists>i. userAt E m i = Some u}"
  proof (intro set_eqI iffI)
    fix u assume "u \<in> set us"
    then show "u \<in> {u. \<exists>i. userAt E m i = Some u}" using l2
      by (auto simp: list_all2_conv_all_nth in_set_conv_nth)
  next
    fix u assume "u \<in> {u. \<exists>i. userAt E m i = Some u}"
    then obtain i where i: "userAt E m i = Some u" by blast
    then obtain b where "m (userKey i) = Some b" by (auto simp: userAt_def split: option.splits)
    then obtain x where "(userKey i, x) \<in> set ?its"
      using shows_scan_complete [OF assms(1), of "userKey i" b userPrefix] by auto
    then have "userKey i \<in> set (map fst ?its)" by force
    then obtain v where v: "v \<in> set us" "uID v = i" unfolding ks by auto
    then have "userAt E m i = Some v" using l2 by (auto simp: list_all2_conv_all_nth in_set_conv_nth)
    then show "u \<in> set us" using i v by simp
  qed
qed

lemma list_accounts:
  assumes "user_List E d = Inr us" and "users_ok E (dview d)"
  shows "set us = {u. \<exists>i. userAt E (dview d) i = Some u}" "distinct (map uID us)"
  using scan_users [OF shows_begin assms(2)] assms(1) by (auto simp: user_List_def dbView_def)

lemma count_loop:
  "forE (\<lambda>(key, v) n. bindE (bindE v (uUnmarshal E)) (\<lambda>user.
      Inr (if activeAdmin user then n + 1 else n))) its n = Inr r \<Longrightarrow>
   \<exists>us. mapE (\<lambda>(key, v). bindE v (uUnmarshal E)) its = Inr us \<and> r = n + int (length (filter activeAdmin us))"
proof (induction its arbitrary: n)
  case (Cons kv its)
  obtain key v where kv: "kv = (key, v)" by (cases kv)
  obtain b u where u: "v = Inr b" "uUnmarshal E b = Inr u"
    "forE (\<lambda>(key, v) n. bindE (bindE v (uUnmarshal E)) (\<lambda>user.
        Inr (if activeAdmin user then n + 1 else n))) its (if activeAdmin u then n + 1 else n) = Inr r"
    using Cons.prems kv by auto
  from Cons.IH [OF u(3)] obtain us where "mapE (\<lambda>(key, v). bindE v (uUnmarshal E)) its = Inr us"
    "r = (if activeAdmin u then n + 1 else n) + int (length (filter activeAdmin us))" by blast
  then show ?case using kv u by auto
qed simp

lemma active_count:
  assumes "shows d t m" and "users_ok E m" and "activeAdminCount E t = Inr n"
  shows "n = int (card {i. \<exists>u. userAt E m i = Some u \<and> activeAdmin u})"
proof -
  obtain us where us: "mapE (\<lambda>(key, v). bindE v (uUnmarshal E)) (kvScan E t userPrefix) = Inr us"
    and n: "n = int (length (filter activeAdmin us))"
    using count_loop [OF assms(3) [unfolded activeAdminCount_def]] by auto
  note s = scan_users [OF assms(1,2) us]
  have "length (filter activeAdmin us) = card (uID ` set (filter activeAdmin us))"
    using s(2) by (metis (no_types, lifting) card_image distinct_card distinct_filter distinct_map inj_on_subset filter_is_subset)
  also have "uID ` set (filter activeAdmin us) = {i. \<exists>u. userAt E m i = Some u \<and> activeAdmin u}"
    using s(1) users_okD(1) [OF assms(2)] by (auto simp: image_iff)
  finally show ?thesis using n by simp
qed

end

end
