(* ===== verification/Users_Ops.thy ===== *)
theory Users_Ops
  imports Users_Inv
begin

text \<open>
  What the operations of the user store do: updating accounts, among them the rule that the last
  active administrator cannot be changed, authentication, and the log of events.
\<close>

section \<open>Updating accounts\<close>

definition adminLeft :: "('d, 't, 'z) uenv_scheme \<Rightarrow> store \<Rightarrow> bool" where
  "adminLeft E m \<longleftrightarrow> (\<exists>i u. userAt E m i = Some u \<and> activeAdmin u)"

text \<open>The account after an update.\<close>

definition updated :: "user_update \<Rightarrow> bytes option \<Rightarrow> int \<Rightarrow> user \<Rightarrow> user" where
  "updated upd hash now v =
     (let v = v\<lparr>uRole := (case upRole upd of None \<Rightarrow> uRole v | Some r \<Rightarrow> r),
                uDisabled := (case upDisabled upd of None \<Rightarrow> uDisabled v | Some b \<Rightarrow> b)\<rparr>
      in (case hash of None \<Rightarrow> v
          | Some h \<Rightarrow> v\<lparr>uPasswordHash := h, uSessionVersion := uSessionVersion v + 1\<rparr>)\<lparr>uUpdatedAt := now\<rparr>)"

lemma updated_fields [simp]:
  "uID (updated upd hash now v) = uID v" "uUsername (updated upd hash now v) = uUsername v"
  "uRole (updated upd hash now v) = (case upRole upd of None \<Rightarrow> uRole v | Some r \<Rightarrow> r)"
  "uDisabled (updated upd hash now v) = (case upDisabled upd of None \<Rightarrow> uDisabled v | Some b \<Rightarrow> b)"
  "uSessionVersion (updated upd hash now v) = (case hash of None \<Rightarrow> uSessionVersion v | Some h \<Rightarrow> uSessionVersion v + 1)"
  "uPasswordHash (updated upd hash now v) = (case hash of None \<Rightarrow> uPasswordHash v | Some h \<Rightarrow> h)"
  by (simp_all add: updated_def Let_def split: option.splits)

lemma card_other:
  assumes "i \<in> A" and "card A \<noteq> 1" shows "\<exists>j \<in> A. j \<noteq> (i :: 'a :: finite)"
proof (rule ccontr)
  assume "\<not> ?thesis"
  then have "A = {i}" using assms(1) by blast
  with assms(2) show False by simp
qed

context user_env
begin

lemma updateTx_accounts:
  assumes "shows d t m" and "users_ok E m" and "case upRole upd of None \<Rightarrow> True | Some r \<Rightarrow> roleValid r"
    and "userUpdateTx E i upd hash now t = Inr (u, t')"
  shows "\<exists>m' v. shows d t' m' \<and> userAt E m i = Some v \<and> u = updated upd hash now v
    \<and> users_ok E m' \<and> userAt E m' = (userAt E m)(i \<mapsto> u) \<and> (adminLeft E m \<longrightarrow> adminLeft E m')"
proof -
  obtain v where v: "readUser E t i = Inr v" using assms(4) by (auto simp: userUpdateTx_def)
  have V: "userAt E m i = Some v" by (rule read_user [OF assms(1) v])
  note vi = users_okD [OF assms(2) V]
  let ?u = "updated upd hash now v"
  have body: "(if uRole v = RoleAdmin \<and> \<not> uDisabled v \<and> (uRole ?u \<noteq> RoleAdmin \<or> uDisabled ?u)
      then bindE (activeAdminCount E t) (\<lambda>count. if count = 1 then Inl ErrLastAdmin else Inr ())
      else Inr ()) = Inr () \<and> (\<exists>b. uMarshal E ?u = Inr b \<and> kvSet E t (userKey i) b = Inr t') \<and> u = ?u"
    using assms(4) v by (auto simp: userUpdateTx_def Let_def updated_def split: if_splits option.splits)
  then obtain b where b: "uMarshal E ?u = Inr b" "kvSet E t (userKey i) b = Inr t'" and u: "u = ?u" by blast
  have tx: "userText ?u" using vi(2) assms(3) by (auto simp: userText_def split: option.splits)
  have c: "uUnmarshal E b = Inr ?u" by (rule user_codec [OF tx b(1)])
  have ok: "users_ok E (m(userKey i \<mapsto> b))"
    using users_ok_update [OF assms(2) c tx, of v] V vi(1) by simp
  have "adminLeft E (m(userKey i \<mapsto> b))" if al: "adminLeft E m"
  proof -
    obtain j w where j: "userAt E m j = Some w" "activeAdmin w" using al unfolding adminLeft_def by blast
    consider "j \<noteq> i" | "activeAdmin ?u" | "j = i" "\<not> activeAdmin ?u" by blast
    then show ?thesis
    proof cases
      case 1
      with j c show ?thesis by (auto simp: adminLeft_def intro!: exI [of _ j])
    next
      case 2
      with c show ?thesis by (auto simp: adminLeft_def intro!: exI [of _ i])
    next
      case 3
      then have "bindE (activeAdminCount E t) (\<lambda>count. if count = 1 then Inl ErrLastAdmin else Inr ()) = Inr ()"
        using body j V by (auto simp: activeAdmin_def split: if_splits)
      then obtain n where n: "activeAdminCount E t = Inr n" "n \<noteq> 1" by (auto split: if_splits)
      let ?A = "{i. \<exists>u. userAt E m i = Some u \<and> activeAdmin u}"
      have "card ?A \<noteq> 1" using active_count [OF assms(1,2) n(1)] n(2) by simp
      moreover have "i \<in> ?A" using 3 j by auto
      ultimately obtain k where "k \<in> ?A" "k \<noteq> i" using card_other [of i ?A] by blast
      then show ?thesis using c by (auto simp: adminLeft_def intro!: exI [of _ k])
    qed
  qed
  with shows_set [OF assms(1) b(2)] V u ok c show ?thesis by (intro exI conjI) (assumption | simp)+
qed

lemma update_accounts:
  assumes "user_Update E salt now d i upd = (Inr u, d')" and "users_ok E (dview d)"
  shows "\<exists>v hash. userAt E (dview d) i = Some v \<and> u = updated upd hash now v
    \<and> (upPassword upd = [] \<longrightarrow> hash = None)
    \<and> (upPassword upd \<noteq> [] \<longrightarrow> (\<exists>h. hash = Some h \<and> uCompare E h (upPassword upd)))
    \<and> users_ok E (dview d') \<and> userAt E (dview d') = (userAt E (dview d))(i \<mapsto> u)
    \<and> (adminLeft E (dview d) \<longrightarrow> adminLeft E (dview d'))"
proof -
  obtain hash where r: "case upRole upd of None \<Rightarrow> True | Some r \<Rightarrow> roleValid r"
    and h: "upPassword upd = [] \<longrightarrow> hash = None"
      "upPassword upd \<noteq> [] \<longrightarrow> (\<exists>x. hash = Some x \<and> uHash E salt (upPassword upd) = Inr x)"
    and tx: "dbUpdate E (userUpdateTx E i upd hash now) d = (Inr u, d')"
    using assms(1) by (auto simp: user_Update_def bindE_def split: if_splits sum.splits option.splits)
  have "\<exists>v. userAt E (dview d) i = Some v \<and> u = updated upd hash now v
    \<and> users_ok E (dview d') \<and> userAt E (dview d') = (userAt E (dview d))(i \<mapsto> u)
    \<and> (adminLeft E (dview d) \<longrightarrow> adminLeft E (dview d'))"
    by (rule update_rule [OF tx]) (use updateTx_accounts [OF _ assms(2) r] in blast)
  then show ?thesis using h hash_compare by blast
qed

end

lemma user_failures:
  "user_Create E i salt now d n p r = (Inl e, d') \<Longrightarrow> d' = d"
  "user_Update E salt now d i upd = (Inl e, d') \<Longrightarrow> d' = d"
  "user_RecordEvent E i now d u a st = (Inl e, d') \<Longrightarrow> d' = d"
  "user_ClearEvents E d i = (Inl e, d') \<Longrightarrow> d' = d"
  by (auto simp: user_Create_def user_Update_def user_RecordEvent_def user_ClearEvents_def Let_def
      split: if_splits sum.splits dest: dbUpdate_Inl)

section \<open>Authentication\<close>

locale user_reliable = user_env E dview tview twr + kv_reliable E dview tview twr
  for E :: "('d, 't, 'z) uenv_scheme" and dview :: "'d \<Rightarrow> store" and tview :: "'t \<Rightarrow> store"
    and twr :: "'t \<Rightarrow> wlog"
begin

lemma read_view: "kvGet E (kvBegin E d) k = (case dview d k of Some v \<Rightarrow> Inr v | None \<Rightarrow> Inl ErrKeyNotFound)"
  by (simp add: get_iff begin_view)

lemma readUser_exact:
  assumes "users_ok E (dview d)"
  shows "readUser E (kvBegin E d) i = (case userAt E (dview d) i of None \<Rightarrow> Inl ErrUserNotFound | Some u \<Rightarrow> Inr u)"
proof (cases "dview d (userKey i)")
  case (Some b)
  then obtain j u where "userKey i = userKey j" "userAt E (dview d) j = Some u" "uUnmarshal E b = Inr u"
    using users_ok_key [OF assms Some] by auto
  with Some show ?thesis by (simp add: readUser_def read_view)
qed (simp add: readUser_def read_view userAt_def)

lemma byUsername_exact:
  assumes "users_ok E (dview d)"
  shows "user_ByUsername E d n = (case nameAt (dview d) (normalizeUsername E n) of
     None \<Rightarrow> Inl ErrUserNotFound | Some b \<Rightarrow> Inr (the (userAt E (dview d) (idOfBytes b))))"
proof (cases "nameAt (dview d) (normalizeUsername E n)")
  case (Some b)
  then obtain i u where "b = idBytes i" "userAt E (dview d) i = Some u"
    using users_ok_name [OF assms Some] by metis
  with Some show ?thesis
    by (simp add: user_ByUsername_def dbView_def read_view readUser_exact [OF assms] nameAt_def)
qed (simp add: user_ByUsername_def dbView_def read_view nameAt_def)

lemma authenticate_exact:
  assumes "users_ok E (dview d)"
  shows "user_Authenticate E d n p = Inr u \<longleftrightarrow>
      userAt E (dview d) (uID u) = Some u \<and> uUsername u = normalizeUsername E n
      \<and> \<not> uDisabled u \<and> uCompare E (uPasswordHash u) p" (is ?A)
    and "user_Authenticate E d n p = Inl e \<Longrightarrow> e = ErrInvalidPassword"
proof -
  show "user_Authenticate E d n p = Inl e \<Longrightarrow> e = ErrInvalidPassword"
    by (auto simp: user_Authenticate_def split: sum.splits if_splits)
  let ?n = "normalizeUsername E n"
  show ?A
  proof (cases "nameAt (dview d) ?n")
    case None
    then show ?thesis using users_okD(3) [OF assms, of "uID u" u]
      by (auto simp: user_Authenticate_def byUsername_exact [OF assms])
  next
    case (Some b)
    then obtain i v where v: "b = idBytes i" "userAt E (dview d) i = Some v" "uUsername v = ?n"
      by (rule users_ok_name [OF assms])
    have "user_Authenticate E d n p = (if uDisabled v \<or> \<not> uCompare E (uPasswordHash v) p
        then Inl ErrInvalidPassword else Inr v)"
      using Some v by (simp add: user_Authenticate_def byUsername_exact [OF assms])
    moreover have "userAt E (dview d) (uID u) = Some u \<and> uUsername u = ?n \<longleftrightarrow> u = v"
      using v users_okD(1) [OF assms v(2)] users_ok_unique [OF assms, of "uID u" u i v] by auto
    ultimately show ?thesis by auto
  qed
qed

end

end
