(* ===== verification/Users_Events.thy ===== *)
theory Users_Events
  imports Users_Ops
begin

text \<open>
  The event log: the keys of events sort by time, a page of the log is the corresponding part of
  the whole log, newest event first, and clearing a user's events removes exactly those.
\<close>

section \<open>Keys sort by time\<close>

lemma length_decDigits [simp]: "length (decDigits w n) = w"
  by (induction w arbitrary: n) auto

lemma less_append: "length a = length b \<Longrightarrow> a < b \<Longrightarrow> a @ x < b @ (y :: 'a :: linorder list)"
  by (induction a b rule: list_induct2) auto

lemma append_less_cancel [simp]: "p @ a < p @ b \<longleftrightarrow> a < (b :: 'a :: linorder list)"
  by (induction p) simp_all

lemma digit_less: "m < n \<Longrightarrow> n < 10 \<Longrightarrow> char_of (48 + m) < (char_of (48 + n :: nat) :: char)"
  by (simp add: less_char_def of_char_of)

lemma decDigits_less: "m < n \<Longrightarrow> n < 10 ^ w \<Longrightarrow> decDigits w m < decDigits w n"
proof (induction w arbitrary: m n)
  case (Suc w)
  consider "m div 10 < n div 10" | "m div 10 = n div 10" "m mod 10 < n mod 10"
    using Suc.prems(1) by (metis div_le_mono div_mult_mod_eq le_neq_implies_less less_imp_le_nat nat_add_left_cancel_less)
  then show ?case
  proof cases
    case 1
    moreover have "n div 10 < 10 ^ w" using Suc.prems(2) by (simp add: div_less_iff_less_mult mult.commute)
    ultimately show ?thesis using Suc.IH by (simp add: less_append)
  next
    case 2
    then show ?thesis using digit_less by simp
  qed
qed simp

lemma fmt020_less:
  assumes "0 \<le> x" and "x < y" and "y < 2 ^ 63"
  shows "fmt020 x @ s < fmt020 y @ t"
proof -
  have "nat x < nat y" "nat y < 10 ^ 20" using assms by auto
  from decDigits_less [OF this] show ?thesis using assms by (simp add: fmt020_def less_append)
qed

definition eventTime :: "user_event \<Rightarrow> bool" where
  "eventTime ev \<longleftrightarrow> 0 \<le> evCreatedAt ev \<and> evCreatedAt ev < 2 ^ 63"

lemma eventKey_time:
  assumes "eventKey a < eventKey b" and "eventTime a" and "eventTime b"
  shows "evCreatedAt a \<le> evCreatedAt b"
proof (rule ccontr)
  assume "\<not> ?thesis"
  then have "eventKey b < eventKey a"
    using fmt020_less [of "evCreatedAt b" "evCreatedAt a"] assms(2,3)
    by (simp add: eventKey_def eventTime_def)
  with assms(1) show False by simp
qed

lemma fmt020_seek: "eventTime a \<Longrightarrow> eventKey a \<le> eventPrefix @ [char_of (255::nat)]"
proof -
  assume "eventTime a"
  then have "fmt020 (evCreatedAt a) = decDigits 20 (nat (evCreatedAt a))" by (simp add: fmt020_def eventTime_def)
  moreover have "decDigits (Suc w) n @ s < [char_of (255::nat)]" for w n s
  proof (induction w arbitrary: n s)
    case 0
    have "n mod 10 < 10" by simp
    then have "48 + n mod 10 < 255" by linarith
    then show ?case by (simp add: less_char_def of_char_of)
  next
    case (Suc w)
    show ?case using Suc.IH [of "n div 10"] by (simp only: decDigits.simps(2) [of "Suc w"] append_assoc)
  qed
  then have "decDigits 20 n @ s < [char_of (255::nat)]" for n s
    by (simp only: eval_nat_numeral)
  ultimately show ?thesis
    by (simp add: eventKey_def less_imp_le)
qed

section \<open>The log in a store\<close>

definition eventAt :: "('d, 't, 'z) uenv_scheme \<Rightarrow> store \<Rightarrow> bytes \<Rightarrow> user_event option" where
  "eventAt E m k = (if prefix eventPrefix k then
     (case m k of None \<Rightarrow> None
      | Some b \<Rightarrow> (case evUnmarshal E b of Inl _ \<Rightarrow> None | Inr ev \<Rightarrow> Some ev)) else None)"

definition events_ok :: "('d, 't, 'z) uenv_scheme \<Rightarrow> store \<Rightarrow> bool" where
  "events_ok E m \<longleftrightarrow> (\<forall>k. m k \<noteq> None \<and> prefix eventPrefix k \<longrightarrow>
     (\<exists>ev. eventAt E m k = Some ev \<and> k = eventKey ev \<and> eventTime ev))"

definition logged :: "('d, 't, 'z) uenv_scheme \<Rightarrow> store \<Rightarrow> user_event set" where
  "logged E m = {ev. \<exists>k. eventAt E m k = Some ev}"

definition ofUser :: "uuid option \<Rightarrow> user_event \<Rightarrow> bool" where
  "ofUser i ev \<longleftrightarrow> i = None \<or> i = Some (evUserID ev)"

lemma events_okD: "events_ok E m \<Longrightarrow> eventAt E m k = Some ev \<Longrightarrow> k = eventKey ev \<and> eventTime ev"
  by (auto simp: events_ok_def eventAt_def split: if_splits option.splits sum.splits)

lemma eventAt_event [simp]: "evUnmarshal E b = Inr ev \<Longrightarrow> prefix eventPrefix k \<Longrightarrow>
    eventAt E (m(k \<mapsto> b)) = (eventAt E m)(k \<mapsto> ev)"
  by (auto simp: eventAt_def fun_eq_iff)

section \<open>Recording\<close>

context user_env
begin

lemma record_event:
  assumes "user_RecordEvent E i now d u action status = (Inr x, d')"
    and "events_ok E (dview d)" and "users_ok E (dview d)" and "utf8 (uUsername u)" and "utf8 action"
    and "0 \<le> now" and "now < 2 ^ 63"
  defines "ev \<equiv> \<lparr>evID = i, evUserID = uID u, evUsername = uUsername u, evAction = action,
    evStatus = status, evCreatedAt = now\<rparr>"
  shows "events_ok E (dview d') \<and> users_ok E (dview d') \<and> userAt E (dview d') = userAt E (dview d)
    \<and> eventAt E (dview d') = (eventAt E (dview d))(eventKey ev \<mapsto> ev)"
proof -
  obtain b where b: "evMarshal E ev = Inr b"
    and tx: "dbUpdate E (\<lambda>t. bindE (kvSet E t (eventKey ev) b) (\<lambda>t. Inr ((), t))) d = (Inr x, d')"
    using assms(1) by (auto simp: user_RecordEvent_def Let_def ev_def split: sum.splits)
  have c: "evUnmarshal E b = Inr ev"
    by (rule event_codec [OF _ b]) (simp add: eventText_def ev_def assms(4,5))
  have v: "dview d' = (dview d)(eventKey ev \<mapsto> b)"
    by (rule update_rule [OF tx]) (auto simp del: fun_upd_apply intro: shows_set)
  have e: "eventAt E (dview d') = (eventAt E (dview d))(eventKey ev \<mapsto> ev)"
    unfolding v by (rule eventAt_event [OF c]) simp
  moreover have "eventTime ev" using assms(6,7) by (simp add: eventTime_def ev_def)
  then have "events_ok E (dview d')"
    unfolding events_ok_def e
  proof (intro allI impI)
    fix k assume k: "dview d' k \<noteq> None \<and> prefix eventPrefix k"
    show "\<exists>ev'. ((eventAt E (dview d))(eventKey ev \<mapsto> ev)) k = Some ev' \<and> k = eventKey ev' \<and> eventTime ev'"
    proof (cases "k = eventKey ev")
      case False
      with k have "dview d k \<noteq> None \<and> prefix eventPrefix k" by (simp add: v)
      then obtain ev' where "eventAt E (dview d) k = Some ev' \<and> k = eventKey ev' \<and> eventTime ev'"
        using assms(2) unfolding events_ok_def by blast
      with False show ?thesis by auto
    qed (use \<open>eventTime ev\<close> in auto)
  qed
  moreover have "userAt E (dview d') = userAt E (dview d)"
    by (auto simp: v userAt_def)
  ultimately show ?thesis using assms(3) users_ok_event [of E "dview d" ev "Some b"] v by simp
qed

section \<open>Reading the log\<close>

text \<open>The events the reverse iterator visits, newest first.\<close>

lemma event_items:
  assumes "events_ok E (dview d)"
    and "mapE (\<lambda>kv. bindE (snd kv) (evUnmarshal E)) (eventItems E (kvBegin E d)) = Inr evs"
  shows "set evs = logged E (dview d)" "distinct evs"
    "sorted_wrt (\<lambda>a b. evCreatedAt b \<le> evCreatedAt a) evs"
proof -
  let ?s = "kvScan E (kvBegin E d) eventPrefix" and ?m = "dview d"
  have key: "k \<le> eventPrefix @ [char_of (255::nat)]" if "(k, v) \<in> set ?s" for k v
  proof -
    have "k \<in> fst ` set ?s" using that by force
    then have "?m k \<noteq> None" "prefix eventPrefix k" by (auto simp: scan_keys begin_view)
    then obtain ev where "k = eventKey ev" "eventTime ev" using assms(1) unfolding events_ok_def by blast
    then show ?thesis using fmt020_seek by simp
  qed
  then have "filter (\<lambda>kv. fst kv \<le> eventPrefix @ [char_of (255::nat)]) ?s = ?s"
    by (intro filter_True) auto
  then have its: "eventItems E (kvBegin E d) = rev ?s" by (simp add: eventItems_def)
  have l: "list_all2 (\<lambda>kv ev. bindE (snd kv) (evUnmarshal E) = Inr ev) (rev ?s) evs"
    using assms(2) unfolding its mapE_Inr_iff .
  have one: "eventAt E ?m (fst kv) = Some ev \<and> fst kv = eventKey ev \<and> eventTime ev"
    if kv: "kv \<in> set ?s" and e: "bindE (snd kv) (evUnmarshal E) = Inr ev" for kv ev
  proof -
    obtain b where b: "snd kv = Inr b" "evUnmarshal E b = Inr ev" using e by auto
    then have "?m (fst kv) = Some b" "prefix eventPrefix (fst kv)"
      using shows_scan [OF shows_begin, of "fst kv" b d eventPrefix] kv by (metis prod.collapse)+
    with b have "eventAt E ?m (fst kv) = Some ev" by (simp add: eventAt_def)
    with events_okD [OF assms(1)] show ?thesis by blast
  qed
  have l2: "list_all2 (\<lambda>kv ev. eventAt E ?m (fst kv) = Some ev \<and> fst kv = eventKey ev \<and> eventTime ev) (rev ?s) evs"
    by (rule list.rel_mono_strong [OF l]) (use one in auto)
  then have ks: "map fst (rev ?s) = map eventKey evs"
    by (auto simp: list_all2_conv_all_nth list_eq_iff_nth_eq)
  have tm: "eventTime ev" "eventAt E ?m (eventKey ev) = Some ev" if "ev \<in> set evs" for ev
  proof -
    have "\<exists>kv. eventAt E ?m (fst kv) = Some ev \<and> fst kv = eventKey ev \<and> eventTime ev"
      using that l2 by (auto simp: list_all2_conv_all_nth in_set_conv_nth)
    then show "eventTime ev" "eventAt E ?m (eventKey ev) = Some ev" by auto
  qed
  have "sorted_wrt (\<lambda>a b. b < a) (map fst (rev ?s))"
    using scan_sorted [of "kvBegin E d" eventPrefix] by (simp add: rev_map [symmetric] sorted_wrt_rev)
  then have srt: "sorted_wrt (\<lambda>a b. eventKey b < eventKey a) evs" unfolding ks by (simp add: sorted_wrt_map)
  then show "sorted_wrt (\<lambda>a b. evCreatedAt b \<le> evCreatedAt a) evs"
    by (rule sorted_wrt_mono_rel [rotated]) (use eventKey_time tm in blast)
  show "distinct evs"
    using srt by (induction evs) auto
  show "set evs = logged E ?m"
  proof (intro set_eqI iffI)
    fix ev assume "ev \<in> logged E ?m"
    then obtain k where k: "eventAt E ?m k = Some ev" by (auto simp: logged_def)
    then have "?m k \<noteq> None" "prefix eventPrefix k" by (auto simp: eventAt_def split: if_splits option.splits)
    then have "k \<in> fst ` set ?s" by (auto simp: scan_keys begin_view)
    then have "k \<in> set (map fst (rev ?s))" by simp
    then obtain ev' where "ev' \<in> set evs" "k = eventKey ev'" unfolding ks by auto
    with k tm(2) [of ev'] show "ev \<in> set evs" by simp
  qed (use tm in \<open>auto simp: logged_def\<close>)
qed

end

lemma take_drop_snoc: "take n (drop a (xs @ [x])) =
    (if a \<le> length xs \<and> length (take n (drop a xs)) < n then take n (drop a xs) @ [x] else take n (drop a xs))"
  by (auto simp: min_def)

lemma list_step:
  assumes "bindE (snd kv) (evUnmarshal E) = Inr ev" and "int (length dn) + 1 < 2 ^ 63"
  shows "listEventStep E (int a) (int n) uid kv (take n (drop a dn), int (length dn))
    = (let dn' = if ofUser uid ev then dn @ [ev] else dn in Inr (take n (drop a dn'), int (length dn')))"
proof -
  have r: "i64 (int (length dn) + 1) = int (length dn) + 1"
    using assms(2) by (intro i64_id) (simp add: int64_range_def)
  show ?thesis
  proof (cases "ofUser uid ev")
    case True
    then have u: "uid = None \<or> Some (evUserID ev) = uid" by (auto simp: ofUser_def)
    show ?thesis
    proof (cases "uid = None \<and> (length dn < a \<or> length (take n (drop a dn)) = n)")
      case sk: True
      then have "take n (drop a (dn @ [ev])) = take n (drop a dn)"
        unfolding take_drop_snoc by auto
      with sk True show ?thesis
        by (simp add: listEventStep_def r Let_def del: length_take length_drop take_append drop_append)
    next
      case False
      with u True show ?thesis unfolding listEventStep_def
        by (simp add: assms(1) r Let_def take_drop_snoc
            del: length_take length_drop take_append drop_append)
    qed
  next
    case False
    then show ?thesis using assms(1) by (auto simp: listEventStep_def ofUser_def)
  qed
qed

lemma list_loop:
  assumes "mapE (\<lambda>kv. bindE (snd kv) (evUnmarshal E)) its = Inr evs"
    and "int (length dn) + int (length its) < 2 ^ 63"
  shows "forE (listEventStep E (int a) (int n) uid) its (take n (drop a dn), int (length dn))
    = Inr (take n (drop a (dn @ filter (ofUser uid) evs)), int (length (dn @ filter (ofUser uid) evs)))"
  using assms
proof (induction its arbitrary: dn evs)
  case (Cons kv its)
  obtain ev evs' where ev: "bindE (snd kv) (evUnmarshal E) = Inr ev" "evs = ev # evs'"
    "mapE (\<lambda>kv. bindE (snd kv) (evUnmarshal E)) its = Inr evs'"
    using Cons.prems(1) by (auto simp del: bindE_eq_Inr simp add: bindE_def split: sum.splits)
  let ?dn = "if ofUser uid ev then dn @ [ev] else dn"
  have "int (length ?dn) + int (length its) < 2 ^ 63" using Cons.prems(2) by auto
  note ih = Cons.IH [OF ev(3) this]
  have "int (length dn) + 1 < 2 ^ 63" using Cons.prems(2) by simp
  note st = list_step [OF ev(1) this, of a n uid]
  have "?dn @ filter (ofUser uid) evs' = dn @ filter (ofUser uid) evs" by (simp add: ev(2))
  with ih show ?case unfolding forE.simps st Let_def by (simp only: bindE_simps)
qed simp

context user_reliable
begin

lemma list_events:
  assumes "events_ok E (dview d)" and "1 \<le> page" and "1 \<le> n" and "(page - 1) * n < 2 ^ 63"
    and "int (card (logged E (dview d))) < 2 ^ 63"
  shows "\<exists>fs. set fs = {ev \<in> logged E (dview d). ofUser uid ev} \<and> distinct fs
    \<and> sorted_wrt (\<lambda>a b. evCreatedAt b \<le> evCreatedAt a) fs
    \<and> user_ListEvents E d page n uid = Inr (take (nat n) (drop (nat ((page - 1) * n)) fs), int (length fs))"
proof -
  let ?its = "eventItems E (kvBegin E d)"
  have "\<exists>ev. bindE (snd kv) (evUnmarshal E) = Inr ev" if kv: "kv \<in> set ?its" for kv
  proof -
    have m: "kv \<in> set (kvScan E (kvBegin E d) eventPrefix)" using kv by (simp add: eventItems_def)
    then obtain b where b: "snd kv = Inr b" using scan_total by (metis prod.collapse)
    then have "dview d (fst kv) = Some b" "prefix eventPrefix (fst kv)"
      using shows_scan [OF shows_begin, of "fst kv" b d eventPrefix] m by (metis prod.collapse)+
    moreover from this obtain ev where "eventAt E (dview d) (fst kv) = Some ev"
      using assms(1) unfolding events_ok_def by blast
    ultimately show ?thesis using b by (auto simp: eventAt_def split: sum.splits)
  qed
  then obtain g where "\<And>kv. kv \<in> set ?its \<Longrightarrow> bindE (snd kv) (evUnmarshal E) = Inr (g kv)" by metis
  then have mp: "mapE (\<lambda>kv. bindE (snd kv) (evUnmarshal E)) ?its = Inr (map g ?its)" by (rule mapE_total)
  note ev = event_items [OF assms(1) mp]
  have "int (length (map g ?its)) < 2 ^ 63" using assms(5) ev(1,2) distinct_card by metis
  then have len: "int (length ([] :: user_event list)) + int (length ?its) < 2 ^ 63" by simp
  have "page - 1 \<le> (page - 1) * n" using assms(2,3) by (simp add: mult_le_cancel_left1)
  then have "i64 (page - 1) = page - 1" "i64 ((page - 1) * n) = (page - 1) * n"
    using assms(2-4) by (auto intro!: i64_id simp: int64_range_def zero_le_mult_iff order_trans [of _ 0])
  then have "user_ListEvents E d page n uid
      = forE (listEventStep E (int (nat ((page - 1) * n))) (int (nat n)) uid) ?its
          (take (nat n) (drop (nat ((page - 1) * n)) []), int (length ([] :: user_event list)))"
    using assms(2,3) by (simp add: user_ListEvents_def dbView_def)
  also have "\<dots> = Inr (take (nat n) (drop (nat ((page - 1) * n)) (filter (ofUser uid) (map g ?its))),
      int (length (filter (ofUser uid) (map g ?its))))"
    unfolding list_loop [OF mp len] by simp
  finally show ?thesis
    using ev by (intro exI [of _ "filter (ofUser uid) (map g ?its)"]) (simp add: sorted_wrt_filter)
qed

end

text \<open>A page number whose product with the page size exceeds 64 bits wraps around to an earlier page.\<close>

lemma list_events_wraps:
  "user_ListEvents E d 4611686018427387905 4 uid = user_ListEvents E d 1 4 uid"
  by (simp add: user_ListEvents_def i64_def)

section \<open>Clearing\<close>

context user_env
begin

lemma clear_step: "evUnmarshal E b = Inr ev \<Longrightarrow> clearEventStep E i (k, Inr b) (n, t) =
    (if evUserID ev = i then bindE (kvDelete E t k) (\<lambda>t. Inr (i64 (n + 1), t)) else Inr (n, t))"
  by (simp add: clearEventStep_def)

lemma clear_loop:
  assumes "forE (clearEventStep E i) its (n, t) = Inr (n', t')" and "shows d t m"
    and "0 \<le> n" and "n + int (length its) < 2 ^ 63"
    and "\<And>k v. (k, v) \<in> set its \<Longrightarrow> prefix eventPrefix k \<and> (\<forall>b. v = Inr b \<longrightarrow> m0 k = Some b)"
    and "distinct (map fst its)"
  shows "shows d t' (map_without (\<lambda>k. k \<in> fst ` set its \<and> (\<exists>ev. eventAt E m0 k = Some ev \<and> evUserID ev = i)) m)
    \<and> n' = n + int (card {k \<in> fst ` set its. \<exists>ev. eventAt E m0 k = Some ev \<and> evUserID ev = i})"
  using assms
proof (induction its arbitrary: n t m)
  case (Cons kv its)
  obtain k v where kv: "kv = (k, v)" by (cases kv)
  obtain b ev where b: "v = Inr b" "evUnmarshal E b = Inr ev"
    using Cons.prems(1) kv by (auto simp: clearEventStep_def)
  have e: "eventAt E m0 k = Some ev" using Cons.prems(5) [of k v] kv b by (simp add: eventAt_def)
  let ?P = "\<lambda>its k. k \<in> fst ` set its \<and> (\<exists>ev. eventAt E m0 k = Some ev \<and> evUserID ev = i)"
  have nk: "k \<notin> fst ` set its" using Cons.prems(6) kv by simp
  show ?case
  proof (cases "evUserID ev = i")
    case True
    then obtain t1 where t1: "kvDelete E t k = Inr t1"
      and f: "forE (clearEventStep E i) its (n + 1, t1) = Inr (n', t')"
      using Cons.prems(1,3,4) kv b by (auto simp: clear_step i64_id int64_range_def)
    have ih: "shows d t' (map_without (?P its) (m(k := None)))
      \<and> n' = n + 1 + int (card {k \<in> fst ` set its. \<exists>ev. eventAt E m0 k = Some ev \<and> evUserID ev = i})"
      by (rule Cons.IH [OF f shows_delete [OF Cons.prems(2) t1]]) (use Cons.prems kv in auto)
    have "map_without (?P its) (m(k := None)) = map_without (?P (kv # its)) m"
      using e True kv by (auto simp: fun_eq_iff)
    with ih have "shows d t' (map_without (?P (kv # its)) m)" by argo
    moreover have "{k \<in> fst ` set (kv # its). \<exists>ev. eventAt E m0 k = Some ev \<and> evUserID ev = i}
      = insert k {k \<in> fst ` set its. \<exists>ev. eventAt E m0 k = Some ev \<and> evUserID ev = i}"
      using e True kv by auto
    then have "n' = n + int (card {k \<in> fst ` set (kv # its). \<exists>ev. eventAt E m0 k = Some ev \<and> evUserID ev = i})"
      using ih nk by simp
    ultimately show ?thesis by blast
  next
    case False
    then have f: "forE (clearEventStep E i) its (n, t) = Inr (n', t')"
      using Cons.prems(1) kv b by (simp add: clear_step)
    have ih: "shows d t' (map_without (?P its) m)
      \<and> n' = n + int (card {k \<in> fst ` set its. \<exists>ev. eventAt E m0 k = Some ev \<and> evUserID ev = i})"
      by (rule Cons.IH [OF f Cons.prems(2)]) (use Cons.prems kv in auto)
    have "map_without (?P its) m = map_without (?P (kv # its)) m"
      using e False kv by (auto simp: fun_eq_iff)
    with ih have "shows d t' (map_without (?P (kv # its)) m)" by argo
    moreover have "{k \<in> fst ` set (kv # its). \<exists>ev. eventAt E m0 k = Some ev \<and> evUserID ev = i}
      = {k \<in> fst ` set its. \<exists>ev. eventAt E m0 k = Some ev \<and> evUserID ev = i}"
      using e False kv by auto
    then have "n' = n + int (card {k \<in> fst ` set (kv # its). \<exists>ev. eventAt E m0 k = Some ev \<and> evUserID ev = i})"
      using ih by simp
    ultimately show ?thesis by blast
  qed
qed simp

lemma clear_events:
  assumes "user_ClearEvents E d i = (Inr n, d')" and "int (card (dom (dview d))) < 2 ^ 63"
    and "finite (dom (dview d))"
  shows "dview d' = map_without (\<lambda>k. \<exists>ev. eventAt E (dview d) k = Some ev \<and> evUserID ev = i) (dview d)"
    "n = int (card {k. \<exists>ev. eventAt E (dview d) k = Some ev \<and> evUserID ev = i})"
proof -
  let ?m = "dview d" and ?P = "\<lambda>k. \<exists>ev. eventAt E (dview d) k = Some ev \<and> evUserID ev = i"
  have "dview d' = map_without ?P ?m \<and> n = int (card {k. ?P k})"
  proof (rule update_rule [OF assms(1) [unfolded user_ClearEvents_def]])
    fix t a t' assume t: "shows d t ?m"
      "forE (clearEventStep E i) (kvScan E t eventPrefix) (0, t) = Inr (a, t')"
    let ?s = "kvScan E t eventPrefix"
    have ks: "fst ` set ?s = {k \<in> dom ?m. prefix eventPrefix k}"
      using t(1) by (simp add: scan_keys shows_def)
    have d: "distinct (map fst ?s)" using scan_sorted [of t eventPrefix] by (simp add: strict_sorted_iff)
    have "length ?s = card (fst ` set ?s)" using distinct_card [OF d] by simp
    also have "\<dots> \<le> card (dom ?m)" unfolding ks by (rule card_mono [OF assms(3)]) auto
    finally have len: "0 + int (length ?s) < 2 ^ 63" using assms(2) by simp
    have "prefix eventPrefix k \<and> (\<forall>b. v = Inr b \<longrightarrow> ?m k = Some b)" if "(k, v) \<in> set ?s" for k v
    proof -
      have "k \<in> fst ` set ?s" using that by force
      then show ?thesis using shows_scan [OF t(1)] that unfolding ks by blast
    qed
    from clear_loop [OF t(2,1) _ len this d]
    have "shows d t' (map_without (\<lambda>k. k \<in> fst ` set ?s \<and> ?P k) ?m)"
      "a = int (card {k \<in> fst ` set ?s. ?P k})" by auto
    moreover have "(\<lambda>k. k \<in> fst ` set ?s \<and> ?P k) = ?P"
      using ks by (auto simp: fun_eq_iff eventAt_def split: if_splits option.splits)
    ultimately show "\<exists>m. shows d t' m \<and> m = map_without ?P ?m \<and> a = int (card {k. ?P k})"
      by simp
  qed
  then show "dview d' = map_without ?P ?m" "n = int (card {k. ?P k})" by blast+
qed

end

end
