(* ===== verification/Users_Mem.thy ===== *)
theory Users_Mem
  imports Users_Events Codec
begin

text \<open>
  An instance of the user store's contract: the in-memory store, a binary codec for accounts and
  events, and a password hash that marks the password.
\<close>

section \<open>Codecs\<close>

definition userEncodable :: "user \<Rightarrow> bool" where
  "userEncodable u \<longleftrightarrow> - 9223372036854775808 \<le> uCreatedAt u \<and> uCreatedAt u < 9223372036854775808
     \<and> - 9223372036854775808 \<le> uUpdatedAt u \<and> uUpdatedAt u < 9223372036854775808
     \<and> length (uUsername u) < 18446744073709551616 \<and> length (uPasswordHash u) < 18446744073709551616
     \<and> length (uRole u) < 18446744073709551616"

definition mem_uMarshal :: "user \<Rightarrow> err + bytes" where
  "mem_uMarshal u = (if \<not> userEncodable u then Inl (ErrOther ''out of range'')
     else Inr (idBytes (uID u) @ beBytes 8 (unat (uSessionVersion u)) @ encInt (uCreatedAt u)
       @ encInt (uUpdatedAt u) @ [if uDisabled u then CHR ''d'' else CHR ''e''] @ encStr (uUsername u)
       @ encStr (uPasswordHash u) @ encStr (uRole u)))"

definition mem_uUnmarshal :: "bytes \<Rightarrow> err + user" where
  "mem_uUnmarshal b =
     (if length b < 65 then Inl (ErrOther ''short'') else
      case decStr (drop 41 b) of (n, b1) \<Rightarrow>
      case decStr b1 of (h, b2) \<Rightarrow>
      case decStr b2 of (r, b3) \<Rightarrow>
        Inr \<lparr>uID = idOfBytes (take 16 b), uUsername = n,
             uSessionVersion = of_nat (beValue (take 8 (drop 16 b))), uPasswordHash = h, uRole = r,
             uDisabled = (b ! 40 = CHR ''d''), uCreatedAt = decInt (take 8 (drop 24 b)),
             uUpdatedAt = decInt (take 8 (drop 32 b))\<rparr>)"

lemma mem_user_codec: "mem_uMarshal u = Inr b \<Longrightarrow> mem_uUnmarshal b = Inr u"
proof -
  assume "mem_uMarshal u = Inr b"
  then have e: "userEncodable u" and b: "b = idBytes (uID u) @ beBytes 8 (unat (uSessionVersion u))
       @ encInt (uCreatedAt u) @ encInt (uUpdatedAt u) @ [if uDisabled u then CHR ''d'' else CHR ''e'']
       @ encStr (uUsername u) @ encStr (uPasswordHash u) @ encStr (uRole u)"
    by (auto simp: mem_uMarshal_def split: if_splits)
  let ?tl = "encStr (uUsername u) @ encStr (uPasswordHash u) @ encStr (uRole u)"
  have "65 \<le> length b"
    using length_encStr [of "uUsername u"] length_encStr [of "uPasswordHash u"] length_encStr [of "uRole u"]
    by (simp add: b)
  moreover have "drop 41 b = ?tl" "take 16 b = idBytes (uID u)"
    "take 8 (drop 16 b) = beBytes 8 (unat (uSessionVersion u))"
    "take 8 (drop 24 b) = encInt (uCreatedAt u)" "take 8 (drop 32 b) = encInt (uUpdatedAt u)"
    "b ! 40 = (if uDisabled u then CHR ''d'' else CHR ''e'')"
    by (simp_all add: b nth_append)
  moreover have "unat (uSessionVersion u) < 256 ^ 8" using unsigned_less [of "uSessionVersion u"] by simp
  ultimately show ?thesis
    using e by (simp add: mem_uUnmarshal_def userEncodable_def decStr_encStr decStr_encStr_end
        decInt_encInt beValue_beBytes)
qed

definition eventEncodable :: "user_event \<Rightarrow> bool" where
  "eventEncodable ev \<longleftrightarrow> - 9223372036854775808 \<le> evCreatedAt ev \<and> evCreatedAt ev < 9223372036854775808
     \<and> - 9223372036854775808 \<le> evStatus ev \<and> evStatus ev < 9223372036854775808
     \<and> length (evUsername ev) < 18446744073709551616 \<and> length (evAction ev) < 18446744073709551616"

definition mem_evMarshal :: "user_event \<Rightarrow> err + bytes" where
  "mem_evMarshal ev = (if \<not> eventEncodable ev then Inl (ErrOther ''out of range'')
     else Inr (idBytes (evID ev) @ idBytes (evUserID ev) @ encInt (evStatus ev) @ encInt (evCreatedAt ev)
       @ encStr (evUsername ev) @ encStr (evAction ev)))"

definition mem_evUnmarshal :: "bytes \<Rightarrow> err + user_event" where
  "mem_evUnmarshal b =
     (if length b < 64 then Inl (ErrOther ''short'') else
      case decStr (drop 48 b) of (n, b1) \<Rightarrow>
      case decStr b1 of (a, b2) \<Rightarrow>
        Inr \<lparr>evID = idOfBytes (take 16 b), evUserID = idOfBytes (take 16 (drop 16 b)), evUsername = n,
             evAction = a, evStatus = decInt (take 8 (drop 32 b)), evCreatedAt = decInt (take 8 (drop 40 b))\<rparr>)"

lemma mem_event_codec: "mem_evMarshal ev = Inr b \<Longrightarrow> mem_evUnmarshal b = Inr ev"
proof -
  assume "mem_evMarshal ev = Inr b"
  then have e: "eventEncodable ev" and b: "b = idBytes (evID ev) @ idBytes (evUserID ev)
      @ encInt (evStatus ev) @ encInt (evCreatedAt ev) @ encStr (evUsername ev) @ encStr (evAction ev)"
    by (auto simp: mem_evMarshal_def split: if_splits)
  have "64 \<le> length b"
    using length_encStr [of "evUsername ev"] length_encStr [of "evAction ev"] by (simp add: b)
  moreover have "drop 48 b = encStr (evUsername ev) @ encStr (evAction ev)" "take 16 b = idBytes (evID ev)"
    "take 16 (drop 16 b) = idBytes (evUserID ev)" "take 8 (drop 32 b) = encInt (evStatus ev)"
    "take 8 (drop 40 b) = encInt (evCreatedAt ev)"
    by (simp_all add: b)
  ultimately show ?thesis
    using e by (simp add: mem_evUnmarshal_def eventEncodable_def decStr_encStr decStr_encStr_end decInt_encInt)
qed

section \<open>The instance\<close>

definition mem_uenv :: "(mem, memtx) uenv" where
  "mem_uenv = kv.extend mem_kv
     \<lparr>uMarshal = mem_uMarshal, uUnmarshal = mem_uUnmarshal, evMarshal = mem_evMarshal,
      evUnmarshal = mem_evUnmarshal, uHash = (\<lambda>salt p. Inr (CHR ''#'' # p)),
      uCompare = (\<lambda>h p. h = CHR ''#'' # p), uLower = (\<lambda>s. s)\<rparr>"

lemma mem_uenv_kv [simp]:
  "kvBegin mem_uenv = kvBegin mem_kv" "kvGet mem_uenv = kvGet mem_kv" "kvSet mem_uenv = kvSet mem_kv"
  "kvDelete mem_uenv = kvDelete mem_kv" "kvScan mem_uenv = kvScan mem_kv"
  "kvCommit mem_uenv = kvCommit mem_kv" "kvBatchSet mem_uenv = kvBatchSet mem_kv"
  "kvBatchFlush mem_uenv = kvBatchFlush mem_kv" "kvBatchCancel mem_uenv = kvBatchCancel mem_kv"
  "uMarshal mem_uenv = mem_uMarshal" "uUnmarshal mem_uenv = mem_uUnmarshal"
  "evMarshal mem_uenv = mem_evMarshal" "evUnmarshal mem_uenv = mem_evUnmarshal"
  "uHash mem_uenv = (\<lambda>salt p. Inr (CHR ''#'' # p))" "uCompare mem_uenv = (\<lambda>h p. h = CHR ''#'' # p)"
  "uLower mem_uenv = (\<lambda>s. s)"
  by (simp_all add: mem_uenv_def kv.extend_def)

interpretation memusers: user_reliable mem_uenv "map_of" mem_tview "\<lambda>t. map_of (snd t)"
  by unfold_locales
    (simp_all only: mem_uenv_kv,
      ((rule memkv.begin_view; assumption)
      | (rule memkv.begin_wr; assumption)
      | (rule memkv.get_ok; assumption)
      | (rule memkv.get_missing; assumption)
      | (rule memkv.set_view; assumption)
      | (rule memkv.set_wr; assumption)
      | (rule memkv.delete_view; assumption)
      | (rule memkv.delete_wr; assumption)
      | (rule memkv.scan_keys; assumption)
      | (rule memkv.scan_sorted; assumption)
      | (rule memkv.scan_value; assumption)
      | (rule memkv.commit_view; assumption)
      | (rule memkv.flush_view; assumption)
      | (rule memkv.flush_failed; assumption)
      | (rule memkv.cancel_view; assumption)
      | (rule memkv.get_total; assumption)
      | (rule memkv.get_none; assumption)
      | (rule memkv.set_total; assumption)
      | (rule memkv.delete_total; assumption)
      | (rule memkv.scan_total; assumption)
      | (rule memkv.commit_total; assumption)
      | (rule memkv.batch_total; assumption)
      | (rule memkv.flush_total; assumption)
      | (rule mem_user_codec; assumption) | (rule mem_event_codec; assumption)
      | (drule sum.inject(2) [THEN iffD1], erule sym) | assumption)+)

end
