(* ===== verification/Users_Theorems.thy ===== *)
theory Users_Theorems
  imports Users_Mem
begin

text \<open>
  The properties of the user store, for every database and codec that keep the contract
  \<open>user_env\<close>, with a run on the in-memory instance: an administrator and a user are created.
\<close>

section \<open>Runs\<close>

text \<open>The databases reached by the store's operations, with fresh identifiers and valid text.\<close>

inductive user_reach :: "('d, 't, 'z) uenv_scheme \<Rightarrow> ('d \<Rightarrow> store) \<Rightarrow> 'd \<Rightarrow> 'd \<Rightarrow> bool"
  for E :: "('d, 't, 'z) uenv_scheme" and dview :: "'d \<Rightarrow> store" and d0 :: 'd where
  reach_start: "user_reach E dview d0 d0"
| reach_create: "user_reach E dview d0 d \<Longrightarrow> userAt E (dview d) i = None \<Longrightarrow> utf8 n \<Longrightarrow>
    user_Create E i salt now d n p r = (res, d') \<Longrightarrow> user_reach E dview d0 d'"
| reach_update: "user_reach E dview d0 d \<Longrightarrow> user_Update E salt now d i upd = (res, d') \<Longrightarrow>
    user_reach E dview d0 d'"
| reach_record: "user_reach E dview d0 d \<Longrightarrow> user_RecordEvent E i now d u a st = (res', d') \<Longrightarrow>
    user_reach E dview d0 d'"
| reach_clear: "user_reach E dview d0 d \<Longrightarrow> user_ClearEvents E d i = (cnt, d') \<Longrightarrow>
    user_reach E dview d0 d'"

text \<open>Keys of the log do not matter for the accounts.\<close>

lemma accounts_frame:
  assumes "\<And>k. \<not> prefix eventPrefix k \<Longrightarrow> m' k = m k"
  shows "userAt E m' = userAt E m" "users_ok E m' = users_ok E m" "adminLeft E m' = adminLeft E m"
proof -
  have k: "m' (userKey i) = m (userKey i)" "m' (usernameKey n) = m (usernameKey n)" for i n
    using assms by simp_all
  then show u: "userAt E m' = userAt E m" by (auto simp: userAt_def)
  have n: "nameAt m' = nameAt m" using k by (auto simp: nameAt_def)
  have "\<not> prefix eventPrefix k" if "prefix userPrefix k" for k
    using that by (auto simp: prefix_def eventPrefix_def userPrefix_def)
  then have "(m' k \<noteq> None \<and> prefix userPrefix k) = (m k \<noteq> None \<and> prefix userPrefix k)" for k
    using assms by metis
  then show "users_ok E m' = users_ok E m" by (simp only: users_ok_def u n)
  show "adminLeft E m' = adminLeft E m" by (simp only: adminLeft_def u)
qed

context user_env
begin

lemma clear_frame:
  assumes "user_ClearEvents E d i = (cnt, d')"
  shows "\<forall>k. \<not> prefix eventPrefix k \<longrightarrow> dview d' k = dview d k"
proof (cases cnt)
  case (Inr c)
  show ?thesis
  proof (rule update_rule [OF assms [unfolded user_ClearEvents_def Inr]])
    fix t a t' assume t: "shows d t (dview d)"
      "forE (clearEventStep E i) (kvScan E t eventPrefix) (0, t) = Inr (a, t')"
    let ?I = "\<lambda>st. \<exists>m. shows d (snd st) m \<and> (\<forall>k. \<not> prefix eventPrefix k \<longrightarrow> m k = dview d k)"
    have "?I (a, t')"
    proof (rule forE_invariant [OF t(2)])
      show "?I (0, t)" using t(1) by auto
      fix kv st st' assume kv: "kv \<in> set (kvScan E t eventPrefix)" and I: "?I st"
        and s: "clearEventStep E i kv st = Inr st'"
      obtain m where m: "shows d (snd st) m" "\<forall>k. \<not> prefix eventPrefix k \<longrightarrow> m k = dview d k"
        using I by blast
      have "prefix eventPrefix (fst kv)" using kv scan_keys [of t eventPrefix] by blast
      then show "?I st'" using s m shows_delete [OF m(1)]
        by (auto simp: clearEventStep_def split: prod.splits if_splits)
          (metis fun_upd_other)+
    qed
    then show "\<exists>m. shows d t' m \<and> (\<forall>k. \<not> prefix eventPrefix k \<longrightarrow> m k = dview d k)" by simp
  qed
next
  case (Inl e)
  then show ?thesis using user_failures(4) [OF assms [unfolded Inl]] by simp
qed

lemma record_view:
  assumes "user_RecordEvent E i now d u a st = (Inr x, d')"
  shows "\<exists>b. dview d' = (dview d)(eventKey \<lparr>evID = i, evUserID = uID u, evUsername = uUsername u,
    evAction = a, evStatus = st, evCreatedAt = now\<rparr> \<mapsto> b)"
proof -
  let ?ev = "\<lparr>evID = i, evUserID = uID u, evUsername = uUsername u, evAction = a, evStatus = st, evCreatedAt = now\<rparr>"
  obtain b where tx: "dbUpdate E (\<lambda>t. bindE (kvSet E t (eventKey ?ev) b) (\<lambda>t. Inr ((), t))) d = (Inr x, d')"
    using assms by (auto simp: user_RecordEvent_def Let_def split: sum.splits)
  have "dview d' = (dview d)(eventKey ?ev \<mapsto> b)"
    by (rule update_rule [OF tx]) (auto simp del: fun_upd_apply intro: shows_set)
  then show ?thesis by blast
qed

lemma record_frame:
  assumes "user_RecordEvent E i now d u a st = (res, d')"
  shows "\<forall>k. \<not> prefix eventPrefix k \<longrightarrow> dview d' k = dview d k"
proof (cases res)
  case (Inr x)
  from record_view [OF assms [unfolded Inr]] show ?thesis by auto
next
  case (Inl e)
  then show ?thesis using user_failures(3) [OF assms [unfolded Inl]] by simp
qed

lemma reach_invariant:
  assumes "user_reach E dview d0 d" and "users_ok E (dview d0)" and "adminLeft E (dview d0)"
  shows "users_ok E (dview d) \<and> adminLeft E (dview d)"
  using assms(1)
proof induction
  case (reach_create d i n salt now p r res d')
  show ?case
  proof (cases res)
    case (Inl e)
    then have "d' = d" using reach_create(4) user_failures(1) by metis
    with reach_create(5) show ?thesis by simp
  next
    case (Inr u)
    note c = create_accounts [OF reach_create(4) [unfolded Inr] _ reach_create(3,2)]
    from reach_create(5) have "users_ok E (dview d')" "userAt E (dview d') = (userAt E (dview d))(i \<mapsto> u)"
      using c(1,2) by blast+
    moreover obtain j w where "userAt E (dview d) j = Some w" "activeAdmin w"
      using reach_create(5) by (auto simp: adminLeft_def)
    ultimately show ?thesis using reach_create(2) by (auto simp: adminLeft_def intro!: exI [of _ j])
  qed
next
  case (reach_update d salt now i upd res d')
  show ?case
  proof (cases res)
    case (Inl e)
    then have "d' = d" using reach_update(2) user_failures(2) by metis
    with reach_update(3) show ?thesis by simp
  next
    case (Inr u)
    from update_accounts [OF reach_update(2) [unfolded Inr]] reach_update(3) show ?thesis by blast
  qed
next
  case (reach_record d i now u a st res' d')
  then show ?case using accounts_frame [of "dview d'" "dview d"] record_frame by metis
next
  case (reach_clear d i cnt d')
  then show ?case using accounts_frame [of "dview d'" "dview d"] clear_frame by metis
qed (use assms in auto)

end

section \<open>Progress\<close>

context user_reliable
begin

lemma create_user_total:
  assumes "normalizeUsername E n \<noteq> []" and "p \<noteq> []" and "roleValid r" and "uHash E salt p = Inr h"
    and "nameAt (dview d) (normalizeUsername E n) = None"
    and "uMarshal E \<lparr>uID = i, uUsername = normalizeUsername E n, uSessionVersion = 0, uPasswordHash = h,
       uRole = r, uDisabled = False, uCreatedAt = now, uUpdatedAt = now\<rparr> = Inr b"
  shows "\<exists>d'. user_Create E i salt now d n p r = (Inr \<lparr>uID = i, uUsername = normalizeUsername E n,
      uSessionVersion = 0, uPasswordHash = h, uRole = r, uDisabled = False, uCreatedAt = now,
      uUpdatedAt = now\<rparr>, d')"
proof -
  let ?u = "\<lparr>uID = i, uUsername = normalizeUsername E n, uSessionVersion = 0, uPasswordHash = h,
       uRole = r, uDisabled = False, uCreatedAt = now, uUpdatedAt = now\<rparr>"
  obtain t1 where t1: "kvSet E (kvBegin E d) (userKey i) b = Inr t1" using set_total by blast
  obtain t2 where t2: "kvSet E t1 (usernameKey (normalizeUsername E n)) (idBytes i) = Inr t2" using set_total by blast
  have "userCreateTx E ?u (kvBegin E d) = Inr (?u, t2)"
    using assms(5,6) t1 t2 by (simp add: userCreateTx_def read_view nameAt_def)
  from update_total [of "userCreateTx E ?u", OF this] show ?thesis
    using assms(1-4) by (simp add: user_Create_def Let_def)
qed

lemma set_password_total:
  assumes "users_ok E (dview d)" and "userAt E (dview d) i = Some v" and "upRole upd = None"
    and "upDisabled upd = None" and "upPassword upd \<noteq> []" and "uHash E salt (upPassword upd) = Inr h"
    and "uMarshal E (updated upd (Some h) now v) = Inr b"
  shows "\<exists>d'. user_Update E salt now d i upd = (Inr (updated upd (Some h) now v), d')"
proof -
  obtain t1 where t1: "kvSet E (kvBegin E d) (userKey i) b = Inr t1" using set_total by blast
  have "readUser E (kvBegin E d) i = Inr v" using readUser_exact [OF assms(1)] assms(2) by simp
  then have "userUpdateTx E i upd (Some h) now (kvBegin E d) = Inr (updated upd (Some h) now v, t1)"
    using assms(3,4,7) t1 by (auto simp: userUpdateTx_def updated_def Let_def)
  from update_total [of "userUpdateTx E i upd (Some h) now", OF this] show ?thesis
    using assms(3,5,6) by (simp add: user_Update_def)
qed

lemma record_total:
  assumes "evMarshal E \<lparr>evID = i, evUserID = uID u, evUsername = uUsername u, evAction = a,
      evStatus = st, evCreatedAt = now\<rparr> = Inr b"
  shows "\<exists>d'. user_RecordEvent E i now d u a st = (Inr (), d')"
proof -
  let ?ev = "\<lparr>evID = i, evUserID = uID u, evUsername = uUsername u, evAction = a, evStatus = st, evCreatedAt = now\<rparr>"
  obtain t1 where "kvSet E (kvBegin E d) (eventKey ?ev) b = Inr t1" using set_total by blast
  then have "(\<lambda>t. bindE (kvSet E t (eventKey ?ev) b) (\<lambda>t. Inr ((), t))) (kvBegin E d) = Inr ((), t1)" by simp
  from update_total [of "\<lambda>t. bindE (kvSet E t (eventKey ?ev) b) (\<lambda>t. Inr ((), t))", OF this] show ?thesis
    using assms by (simp add: user_RecordEvent_def Let_def)
qed

lemma clear_loop_total:
  assumes "\<And>kv. kv \<in> set its \<Longrightarrow> \<exists>b ev. snd kv = Inr b \<and> evUnmarshal E b = Inr ev"
  shows "\<exists>st'. forE (clearEventStep E i) its st = Inr st'"
  using assms
proof (induction its arbitrary: st)
  case (Cons kv its)
  obtain b ev where b: "snd kv = Inr b" "evUnmarshal E b = Inr ev" using Cons.prems [of kv] by auto
  obtain t' where "kvDelete E (snd st) (fst kv) = Inr t'" using delete_total by blast
  then have "\<exists>s. clearEventStep E i kv st = Inr s"
    using b by (cases st) (auto simp: clearEventStep_def)
  then show ?case using Cons by auto
qed simp

lemma clear_total:
  assumes "events_ok E (dview d)"
  shows "\<exists>n d'. user_ClearEvents E d i = (Inr n, d')"
proof -
  let ?its = "kvScan E (kvBegin E d) eventPrefix"
  have "\<exists>b ev. snd kv = Inr b \<and> evUnmarshal E b = Inr ev" if kv: "kv \<in> set ?its" for kv
  proof -
    obtain b where b: "snd kv = Inr b" using scan_total kv by (metis prod.collapse)
    then have "dview d (fst kv) = Some b" "prefix eventPrefix (fst kv)"
      using shows_scan [OF shows_begin, of "fst kv" b d eventPrefix] kv by (metis prod.collapse)+
    moreover from this obtain ev where "eventAt E (dview d) (fst kv) = Some ev"
      using assms(1) unfolding events_ok_def by blast
    ultimately show ?thesis using b by (auto simp: eventAt_def split: sum.splits)
  qed
  then obtain st' where "forE (clearEventStep E i) ?its (0, kvBegin E d) = Inr st'"
    using clear_loop_total by blast
  then have "(\<lambda>t. forE (clearEventStep E i) (kvScan E t eventPrefix) (0, t)) (kvBegin E d) = Inr (fst st', snd st')"
    by simp
  from update_total [of "\<lambda>t. forE (clearEventStep E i) (kvScan E t eventPrefix) (0, t)", OF this]
  show ?thesis unfolding user_ClearEvents_def by blast
qed

end

section \<open>A concrete run\<close>

definition run_admin :: user where
  "run_admin = \<lparr>uID = 7, uUsername = ''root'', uSessionVersion = 0, uPasswordHash = ''#pw'',
     uRole = RoleAdmin, uDisabled = False, uCreatedAt = 5, uUpdatedAt = 5\<rparr>"

definition run_users :: mem where
  "run_users = snd (user_Create mem_uenv 7 0 5 [] ''Root'' ''pw'' RoleAdmin)"

definition run_login :: user_event where
  "run_login = \<lparr>evID = 9, evUserID = 7, evUsername = ''root'', evAction = ''login'', evStatus = 200, evCreatedAt = 6\<rparr>"

definition run_log :: mem where
  "run_log = snd (user_RecordEvent mem_uenv 9 6 run_users run_admin ''login'' 200)"

lemma run_admin_fields [simp]: "uID run_admin = 7" "uUsername run_admin = ''root''"
  "uPasswordHash run_admin = ''#pw''" "uRole run_admin = RoleAdmin" "\<not> uDisabled run_admin"
  "uSessionVersion run_admin = 0" "uCreatedAt run_admin = 5" "uUpdatedAt run_admin = 5"
  by (simp_all add: run_admin_def)

lemma run_names: "normalizeUsername mem_uenv ''Root'' = ''root''" "normalizeUsername mem_uenv '' ROOT '' = ''root''"
  "utf8 ''Root''" "utf8 ''root''" "utf8 ''login''"
proof -
  have "toLower (\<lambda>s. s) (trimSpace ''Root'') = ''root''" "toLower (\<lambda>s. s) (trimSpace '' ROOT '') = ''root''"
    by code_simp+
  then show "normalizeUsername mem_uenv ''Root'' = ''root''" "normalizeUsername mem_uenv '' ROOT '' = ''root''"
    by (simp_all add: normalizeUsername_def)
qed (code_simp+)

lemma users_ok_empty: "users_ok E Map.empty" "userAt E Map.empty = Map.empty" "nameAt Map.empty = Map.empty"
  "eventAt E Map.empty = Map.empty" "events_ok E Map.empty"
  by (auto simp: users_ok_def userAt_def nameAt_def eventAt_def events_ok_def)

lemma run_marshal_user: "length (uUsername u) < 100 \<Longrightarrow> length (uPasswordHash u) < 100 \<Longrightarrow> length (uRole u) < 100 \<Longrightarrow>
    0 \<le> uCreatedAt u \<Longrightarrow> uCreatedAt u < 100 \<Longrightarrow> 0 \<le> uUpdatedAt u \<Longrightarrow> uUpdatedAt u < 100 \<Longrightarrow>
    \<exists>b. mem_uMarshal u = Inr b"
  by (simp add: mem_uMarshal_def userEncodable_def)

lemma run_user_created: "user_Create mem_uenv 7 0 5 [] ''Root'' ''pw'' RoleAdmin = (Inr run_admin, run_users)"
proof -
  obtain b where b: "mem_uMarshal run_admin = Inr b"
    using run_marshal_user [of run_admin] by (auto simp: RoleAdmin_def)
  have "\<exists>d'. user_Create mem_uenv 7 0 5 [] ''Root'' ''pw'' RoleAdmin = (Inr \<lparr>uID = 7,
      uUsername = normalizeUsername mem_uenv ''Root'', uSessionVersion = 0, uPasswordHash = ''#pw'',
      uRole = RoleAdmin, uDisabled = False, uCreatedAt = 5, uUpdatedAt = 5\<rparr>, d')"
    by (rule memusers.create_user_total [where b = b])
      (use b in \<open>simp_all add: run_names users_ok_empty roleValid_def run_admin_def\<close>)
  then show ?thesis by (auto simp: run_users_def run_names run_admin_def)
qed

lemma run_users_store:
  "users_ok mem_uenv (map_of run_users)" "userAt mem_uenv (map_of run_users) = [7 \<mapsto> run_admin]"
  "adminLeft mem_uenv (map_of run_users)"
proof -
  note c = memusers.create_accounts [OF run_user_created _ run_names(3)]
  show "users_ok mem_uenv (map_of run_users)" using c(1) by (simp add: users_ok_empty)
  show u: "userAt mem_uenv (map_of run_users) = [7 \<mapsto> run_admin]" using c(2) by (simp add: users_ok_empty)
  show "adminLeft mem_uenv (map_of run_users)"
    unfolding adminLeft_def u by (auto simp: activeAdmin_def intro!: exI [of _ 7])
qed

section \<open>Accounts\<close>

text \<open>
  C10. A successful Create adds exactly one account: with the fresh identifier, the normalised
  name, which no account had, the given role, enabled, and a password hash that accepts the
  password. No other account changes.
\<close>

theorem user_create_adds:
  assumes "user_env E dview tview twr"
    and "user_Create E i salt now d n p r = (Inr u, d')" and "users_ok E (dview d)" and "utf8 n"
    and "userAt E (dview d) i = None"
  shows "users_ok E (dview d') \<and> userAt E (dview d') = (userAt E (dview d))(i \<mapsto> u)
    \<and> uUsername u = normalizeUsername E n \<and> uUsername u \<noteq> [] \<and> uRole u = r \<and> \<not> uDisabled u
    \<and> uCompare E (uPasswordHash u) p
    \<and> (\<forall>j v. userAt E (dview d) j = Some v \<longrightarrow> uUsername v \<noteq> uUsername u)"
proof -
  note c = user_env.create_accounts [OF assms]
  have "uUsername v \<noteq> uUsername u" if "userAt E (dview d) j = Some v" for j v
    using users_okD(3) [OF assms(3) that] c(3) by auto
  with c show ?thesis by blast
qed

theorem user_create_adds_witness:
  "uUsername run_admin = ''root'' \<and> userAt mem_uenv (map_of run_users) = [7 \<mapsto> run_admin]"
  using user_create_adds [OF memusers.user_env_axioms run_user_created _ run_names(3)]
  by (simp add: users_ok_empty run_names)

text \<open>
  C11. A successful Update changes the one account: role and disabled flag as asked for, the
  password hash and the session version exactly when a password is given, which the new hash
  accepts; identifier and name stay.
\<close>

theorem user_update_changes_one:
  assumes "user_env E dview tview twr"
    and "user_Update E salt now d i upd = (Inr u, d')" and "users_ok E (dview d)"
  shows "\<exists>v. userAt E (dview d) i = Some v \<and> userAt E (dview d') = (userAt E (dview d))(i \<mapsto> u)
    \<and> users_ok E (dview d') \<and> uID u = i \<and> uUsername u = uUsername v
    \<and> uRole u = (case upRole upd of None \<Rightarrow> uRole v | Some r \<Rightarrow> r)
    \<and> uDisabled u = (case upDisabled upd of None \<Rightarrow> uDisabled v | Some b \<Rightarrow> b)
    \<and> uSessionVersion u = (if upPassword upd = [] then uSessionVersion v else uSessionVersion v + 1)
    \<and> (if upPassword upd = [] then uPasswordHash u = uPasswordHash v
       else uCompare E (uPasswordHash u) (upPassword upd))"
proof -
  obtain v hash where v: "userAt E (dview d) i = Some v" "u = updated upd hash now v"
    "upPassword upd = [] \<longrightarrow> hash = None"
    "upPassword upd \<noteq> [] \<longrightarrow> (\<exists>h. hash = Some h \<and> uCompare E h (upPassword upd))"
    "users_ok E (dview d')" "userAt E (dview d') = (userAt E (dview d))(i \<mapsto> u)"
    using user_env.update_accounts [OF assms] by blast
  then show ?thesis using users_okD(1) [OF assms(3) v(1)] by (cases "upPassword upd = []") auto
qed

definition run_password :: user_update where
  "run_password = \<lparr>upRole = None, upDisabled = None, upPassword = ''new''\<rparr>"

theorem user_update_changes_one_witness:
  "\<exists>u d'. user_Update mem_uenv 0 6 run_users 7 run_password = (Inr u, d')
     \<and> uSessionVersion u = 1 \<and> uUsername u = ''root'' \<and> uCompare mem_uenv (uPasswordHash u) ''new''"
proof -
  obtain b where b: "mem_uMarshal (updated run_password (Some ''#new'') 6 run_admin) = Inr b"
    using run_marshal_user [of "updated run_password (Some ''#new'') 6 run_admin"]
    by (auto simp: updated_def run_password_def RoleAdmin_def)
  have "\<exists>d'. user_Update mem_uenv 0 6 run_users 7 run_password
      = (Inr (updated run_password (Some ''#new'') 6 run_admin), d')"
    by (rule memusers.set_password_total [where b = b])
      (use b in \<open>simp_all add: run_users_store run_password_def\<close>)
  then obtain d' where w: "user_Update mem_uenv 0 6 run_users 7 run_password
      = (Inr (updated run_password (Some ''#new'') 6 run_admin), d')" by blast
  from user_update_changes_one [OF memusers.user_env_axioms w run_users_store(1)] w show ?thesis
    by (auto simp: run_users_store run_password_def)
qed

text \<open>
  C12. However the store's operations are interleaved, failed calls included, starting from a
  consistent store with an active administrator: the store stays consistent, names stay unique
  and there is always an active administrator.
\<close>

theorem always_an_admin:
  assumes "user_env E dview tview twr"
    and "user_reach E dview d0 d" and "users_ok E (dview d0)" and "adminLeft E (dview d0)"
  shows "users_ok E (dview d) \<and> adminLeft E (dview d)
    \<and> (\<forall>i j u v. userAt E (dview d) i = Some u \<and> userAt E (dview d) j = Some v
         \<and> uUsername u = uUsername v \<longrightarrow> i = j)"
  using user_env.reach_invariant [OF assms] users_ok_unique by blast

theorem always_an_admin_witness:
  "adminLeft mem_uenv (map_of (snd (user_Update mem_uenv 0 6 run_users 7
     \<lparr>upRole = None, upDisabled = Some True, upPassword = []\<rparr>)))" (is "adminLeft _ (map_of (snd ?r))")
proof -
  have "user_reach mem_uenv map_of run_users (snd ?r)"
    by (rule reach_update [OF reach_start prod.collapse [symmetric]])
  from always_an_admin [OF memusers.user_env_axioms this run_users_store(1,3)] show ?thesis by blast
qed

text \<open>
  C13. Authentication succeeds with an account exactly when it is the enabled account with the
  normalised name and its hash accepts the password; every failure is the same error, whether
  the name is unknown, the account disabled or the password wrong.
\<close>

theorem authenticate_iff:
  assumes "user_reliable E dview tview twr" and "users_ok E (dview d)"
  shows "(user_Authenticate E d n p = Inr u \<longleftrightarrow>
      userAt E (dview d) (uID u) = Some u \<and> uUsername u = normalizeUsername E n
      \<and> \<not> uDisabled u \<and> uCompare E (uPasswordHash u) p)
    \<and> (\<forall>e. user_Authenticate E d n p = Inl e \<longrightarrow> e = ErrInvalidPassword)"
  using user_reliable.authenticate_exact [OF assms] by blast

theorem authenticate_iff_witness:
  "user_Authenticate mem_uenv run_users '' ROOT '' ''pw'' = Inr run_admin"
  using authenticate_iff [OF memusers.user_reliable_axioms run_users_store(1), of "'' ROOT ''" "''pw''" run_admin]
  by (simp add: run_users_store run_names)

text \<open>C15. An operation of the user store that fails leaves the database as it was.\<close>

theorem user_failures_keep:
  "(user_Create E i salt now d n p r = (Inl e, d1) \<longrightarrow> d1 = d)
   \<and> (user_Update E salt now d i upd = (Inl e, d2) \<longrightarrow> d2 = d)
   \<and> (user_RecordEvent E i now d u a st = (Inl e, d3) \<longrightarrow> d3 = d)
   \<and> (user_ClearEvents E d i = (Inl e, d4) \<longrightarrow> d4 = d)"
  by (intro conjI impI; erule user_failures)

theorem user_failures_keep_witness:
  "user_Create mem_uenv 8 0 5 run_users '' '' ''pw'' RoleAdmin = (Inl ErrInvalidPassword, run_users)"
proof -
  have "toLower (\<lambda>s. s) (trimSpace '' '') = []" by code_simp
  then have "fst (user_Create mem_uenv 8 0 5 run_users '' '' ''pw'' RoleAdmin) = Inl ErrInvalidPassword"
    by (simp add: user_Create_def normalizeUsername_def)
  then show ?thesis
    using user_failures_keep [of mem_uenv 8 0 5 run_users "'' ''" "''pw''" RoleAdmin ErrInvalidPassword
      "snd (user_Create mem_uenv 8 0 5 run_users '' '' ''pw'' RoleAdmin)"]
    by (metis prod.collapse)
qed

section \<open>The event log\<close>

lemma run_recorded: "user_RecordEvent mem_uenv 9 6 run_users run_admin ''login'' 200 = (Inr (), run_log)"
proof -
  have "\<exists>b. mem_evMarshal run_login = Inr b"
    by (simp add: mem_evMarshal_def eventEncodable_def run_login_def)
  then obtain b where "mem_evMarshal run_login = Inr b" by blast
  then have "\<exists>d'. user_RecordEvent mem_uenv 9 6 run_users run_admin ''login'' 200 = (Inr (), d')"
    by (intro memusers.record_total) (simp add: run_login_def)
  then show ?thesis by (auto simp: run_log_def)
qed

lemma run_users_view: "\<exists>b. map_of run_users = (map_of [])(userKey 7 \<mapsto> b, usernameKey ''root'' \<mapsto> idBytes 7)"
  proof (rule memusers.update_rule [where P = "\<lambda>a m. \<exists>b. m = (map_of [])(userKey 7 \<mapsto> b, usernameKey ''root'' \<mapsto> idBytes 7)"])
    show "dbUpdate mem_uenv (userCreateTx mem_uenv run_admin) [] = (Inr run_admin, run_users)"
      using run_user_created by (simp add: user_Create_def run_names roleValid_def run_admin_def)
  next
    fix t a t' assume t: "memusers.shows [] t (map_of [])" "userCreateTx mem_uenv run_admin t = Inr (a, t')"
    then obtain b t1 where "kvSet mem_uenv t (userKey 7) b = Inr t1"
      "kvSet mem_uenv t1 (usernameKey ''root'') (idBytes 7) = Inr t'"
      by (auto simp: userCreateTx_def split: sum.splits if_splits)
    with t(1) memusers.shows_set
    show "\<exists>m. memusers.shows [] t' m \<and> (\<exists>b. m = (map_of [])(userKey 7 \<mapsto> b, usernameKey ''root'' \<mapsto> idBytes 7))"
      by blast
  qed

lemma run_events_before: "events_ok mem_uenv (map_of run_users)" "eventAt mem_uenv (map_of run_users) = Map.empty"
proof -
  have "map_of run_users k = None" if "prefix eventPrefix k" for k using that run_users_view by auto
  then show "events_ok mem_uenv (map_of run_users)" "eventAt mem_uenv (map_of run_users) = Map.empty"
    by (auto simp: events_ok_def eventAt_def fun_eq_iff)
qed

lemma run_log_store:
  "events_ok mem_uenv (map_of run_log)" "eventAt mem_uenv (map_of run_log) = [eventKey run_login \<mapsto> run_login]"
proof -
  note r = memusers.record_event [OF run_recorded run_events_before(1) run_users_store(1)]
  show "events_ok mem_uenv (map_of run_log)" "eventAt mem_uenv (map_of run_log) = [eventKey run_login \<mapsto> run_login]"
    using r run_names(4,5) by (simp_all add: run_events_before run_login_def)
qed

lemma run_logged: "logged mem_uenv (map_of run_log) = {run_login}"
  by (auto simp: logged_def run_log_store split: if_splits)

text \<open>
  C14. Page \<open>page\<close> of size \<open>n\<close> of the log is the corresponding part of one list of all matching
  events, each once, newest first; the reported total is the length of that list.
\<close>

theorem events_newest_first:
  assumes "user_reliable E dview tview twr" and "events_ok E (dview d)" and "1 \<le> page" and "1 \<le> n"
    and "(page - 1) * n < 2 ^ 63" and "int (card (logged E (dview d))) < 2 ^ 63"
  shows "\<exists>fs. set fs = {ev \<in> logged E (dview d). ofUser uid ev} \<and> distinct fs
    \<and> sorted_wrt (\<lambda>a b. evCreatedAt b \<le> evCreatedAt a) fs
    \<and> user_ListEvents E d page n uid = Inr (take (nat n) (drop (nat ((page - 1) * n)) fs), int (length fs))"
  by (rule user_reliable.list_events [OF assms])

theorem events_newest_first_witness:
  "user_ListEvents mem_uenv run_log 1 20 (Some 7) = Inr ([run_login], 1)"
proof -
  have "\<exists>fs. set fs = {ev \<in> logged mem_uenv (map_of run_log). ofUser (Some 7) ev} \<and> distinct fs
    \<and> sorted_wrt (\<lambda>a b. evCreatedAt b \<le> evCreatedAt a) fs
    \<and> user_ListEvents mem_uenv run_log 1 20 (Some 7) = Inr (take (nat 20) (drop (nat ((1 - 1) * 20)) fs), int (length fs))"
    by (rule events_newest_first [OF memusers.user_reliable_axioms run_log_store(1)])
      (simp_all add: run_logged)
  then obtain fs where fs: "set fs = {ev \<in> logged mem_uenv (map_of run_log). ofUser (Some 7) ev}" "distinct fs"
    "user_ListEvents mem_uenv run_log 1 20 (Some 7) = Inr (take (nat 20) (drop (nat ((1 - 1) * 20)) fs), int (length fs))"
    by blast
  have "ofUser (Some 7) run_login" by (simp add: ofUser_def run_login_def)
  then have "{ev \<in> {run_login}. ofUser (Some 7) ev} = {run_login}" by blast
  then have s: "set fs = {run_login}" using fs(1) unfolding run_logged by (rule trans [rotated])
  moreover have "length fs = 1" using distinct_card [OF fs(2)] s by simp
  ultimately have "fs = [run_login]" by (cases fs) simp_all
  with fs(3) show ?thesis by simp
qed

text \<open>
  Clearing a user's events removes exactly the log entries of that user, reports their
  number, and changes nothing else in the database.
\<close>

theorem clear_events_exact:
  assumes "user_env E dview tview twr" and "user_ClearEvents E d i = (Inr n, d')"
    and "int (card (dom (dview d))) < 2 ^ 63" and "finite (dom (dview d))"
  shows "dview d' = map_without (\<lambda>k. \<exists>ev. eventAt E (dview d) k = Some ev \<and> evUserID ev = i) (dview d)
    \<and> n = int (card {k. \<exists>ev. eventAt E (dview d) k = Some ev \<and> evUserID ev = i})"
  using user_env.clear_events [OF assms] by blast

theorem clear_events_exact_witness:
  "\<exists>d'. user_ClearEvents mem_uenv run_log 7 = (Inr 1, d') \<and> eventAt mem_uenv (map_of d') (eventKey run_login) = None"
proof -
  obtain n d' where w: "user_ClearEvents mem_uenv run_log 7 = (Inr n, d')"
    using memusers.clear_total [OF run_log_store(1)] by blast
  obtain b c where "map_of run_log = (map_of [])(userKey 7 \<mapsto> b, usernameKey ''root'' \<mapsto> idBytes 7, eventKey run_login \<mapsto> c)"
    using run_users_view memusers.record_view [OF run_recorded] by (auto simp: run_login_def)
  then have "dom (map_of run_log) = {userKey 7, usernameKey ''root'', eventKey run_login}" by auto
  then have c: "int (card (dom (map_of run_log))) < 2 ^ 63" by simp
  have k: "{k. \<exists>ev. eventAt mem_uenv (map_of run_log) k = Some ev \<and> evUserID ev = 7} = {eventKey run_login}"
    by (auto simp: run_log_store run_login_def split: if_splits)
  note cl = clear_events_exact [OF memusers.user_env_axioms w c finite_dom_map_of]
  then have "n = 1" by (simp add: k)
  moreover have "map_of d' (eventKey run_login) = None"
    using cl k by (simp add: set_eq_iff)
  then have "eventAt mem_uenv (map_of d') (eventKey run_login) = None" by (simp add: eventAt_def)
  ultimately show ?thesis using w by blast
qed

text \<open>
  The page arithmetic wraps around at 64 bits: a page number far beyond the log shows the
  first page instead of an empty one.
\<close>

theorem huge_page_shows_first:
  "pagination (Some 4611686018427387905) (Some 4) = Some (4611686018427387905, 4)
   \<and> user_ListEvents E d 4611686018427387905 4 uid = user_ListEvents E d 1 4 uid"
  using list_events_wraps by (simp add: pagination_def)

end
