(* ===== verification/Drives.thy ===== *)
theory Drives
  imports Paths Vfs "HOL-Library.Multiset"
begin

text \<open>
  The drive manager of the server (\<open>internal/server/services/drives.go\<close>): one drive per user,
  opened on demand, counted while requests use it, closed when idle, on request or at shutdown.
  A handle of an open drive is of type \<open>'v\<close>; the state of everything behind the handles is the
  world \<open>'w\<close>, which opening and closing change. Opening a driver (\<open>pkg/drivers\<close>), closing one
  and reading its tree or its resources are the fields of a record. Every function of the source
  holds the manager's mutex, so it is one step; what \<open>Stats\<close> and \<open>CloseWithContext\<close> do outside
  the mutex separates their steps.
\<close>

section \<open>Configuration and drivers\<close>

record drv_config =
  dcType :: string
  dcBadgerPath :: string
  dcBadgerKey :: "bytes option"
  dcLocalPath :: string

definition DriverTypeBadger :: string where "DriverTypeBadger = ''badger''"
definition DriverTypeLocalStorage :: string where "DriverTypeLocalStorage = ''localstorage''"

record ('v, 'w) drv_env =
  dvBadger :: "drv_config \<Rightarrow> 'w \<Rightarrow> (err + 'v) \<times> 'w"
  dvLocal :: "drv_config \<Rightarrow> 'w \<Rightarrow> (err + 'v) \<times> 'w"
  dvClose :: "'v \<Rightarrow> 'w \<Rightarrow> err option \<times> 'w"
  dvTree :: "'v \<Rightarrow> string \<Rightarrow> 'w \<Rightarrow> err + tree_node"

definition drivers_New :: "('v, 'w, 'z) drv_env_scheme \<Rightarrow> drv_config \<Rightarrow> 'w \<Rightarrow> (err + 'v) \<times> 'w" where
  "drivers_New E cfg w =
     (if dcType cfg = DriverTypeBadger then dvBadger E cfg w
      else if dcType cfg = DriverTypeLocalStorage then dvLocal E cfg w
      else (Inl (ErrOther (''unknown driver type: '' @ dcType cfg)), w))"

section \<open>State\<close>

record 'v drive_entry =
  deDrive :: 'v
  deLastUsed :: int
  deUsers :: int
  deCloseRequested :: bool

text \<open>\<open>dmDrained\<close>: whether the channel \<open>drained\<close> is closed.\<close>

record 'v manager =
  dmConfig :: drv_config
  dmDrives :: "uuid \<rightharpoonup> 'v drive_entry"
  dmIdleTimeout :: int
  dmClosed :: bool
  dmActive :: int
  dmDrained :: bool

definition NewDriveManager :: "drv_config \<Rightarrow> int \<Rightarrow> 'v manager" where
  "NewDriveManager cfg idle = \<lparr>dmConfig = cfg, dmDrives = Map.empty, dmIdleTimeout = idle,
     dmClosed = False, dmActive = 0, dmDrained = True\<rparr>"

section \<open>Opening and using drives\<close>

text \<open>The configuration a user's drive is opened with.\<close>

definition driveConfig :: "drv_config \<Rightarrow> uuid \<Rightarrow> drv_config" where
  "driveConfig cfg userID =
     (if dcType cfg = DriverTypeBadger
      then cfg\<lparr>dcBadgerPath := joinPath [dcBadgerPath cfg, uuidString userID], dcBadgerKey := None\<rparr>
      else if dcType cfg = DriverTypeLocalStorage
      then cfg\<lparr>dcLocalPath := joinPath [dcLocalPath cfg, uuidString userID]\<rparr>
      else cfg)"

definition drive_open :: "('v, 'w, 'z) drv_env_scheme \<Rightarrow> 'v manager \<Rightarrow> uuid \<Rightarrow> 'w \<Rightarrow> (err + 'v) \<times> 'w" where
  "drive_open E m userID w = drivers_New E (driveConfig (dmConfig m) userID) w"

definition setEntry :: "uuid \<Rightarrow> 'v drive_entry \<Rightarrow> 'v manager \<Rightarrow> 'v manager" where
  "setEntry u e m = m\<lparr>dmDrives := (dmDrives m)(u \<mapsto> e)\<rparr>"

definition removeEntry :: "uuid \<Rightarrow> 'v manager \<Rightarrow> 'v manager" where
  "removeEntry u m = m\<lparr>dmDrives := (dmDrives m)(u := None)\<rparr>"

definition driveLocked :: "('v, 'w, 'z) drv_env_scheme \<Rightarrow> int \<Rightarrow> uuid \<Rightarrow> 'v manager \<Rightarrow> 'w
    \<Rightarrow> (err + 'v) \<times> 'v manager \<times> 'w" where
  "driveLocked E now userID m w =
     (if dmClosed m then (Inl ErrClosed, m, w)
      else case dmDrives m userID of
        Some entry \<Rightarrow> (Inr (deDrive entry), setEntry userID (entry\<lparr>deLastUsed := now\<rparr>) m, w)
      | None \<Rightarrow>
          (case drive_open E m userID w of
             (Inl e, w) \<Rightarrow> (Inl e, m, w)
           | (Inr drive, w) \<Rightarrow>
               (Inr drive, setEntry userID \<lparr>deDrive = drive, deLastUsed = now, deUsers = 0,
                  deCloseRequested = False\<rparr> m, w)))"

definition manager_Drive :: "('v, 'w, 'z) drv_env_scheme \<Rightarrow> int \<Rightarrow> uuid \<Rightarrow> 'v manager \<Rightarrow> 'w
    \<Rightarrow> (err + 'v) \<times> 'v manager \<times> 'w" where
  "manager_Drive = driveLocked"

text \<open>The counters a successful acquisition changes; a new channel replaces a closed one.\<close>

definition countUse :: "uuid \<Rightarrow> 'v manager \<Rightarrow> 'v manager" where
  "countUse userID m =
     (let m = (if dmActive m = 0 then m\<lparr>dmDrained := False\<rparr> else m);
          m = m\<lparr>dmActive := dmActive m + 1\<rparr>
      in case dmDrives m userID of
           None \<Rightarrow> m
         | Some entry \<Rightarrow> setEntry userID (entry\<lparr>deUsers := deUsers entry + 1\<rparr>) m)"

definition manager_Acquire :: "('v, 'w, 'z) drv_env_scheme \<Rightarrow> int \<Rightarrow> uuid \<Rightarrow> 'v manager \<Rightarrow> 'w
    \<Rightarrow> (err + 'v) \<times> 'v manager \<times> 'w" where
  "manager_Acquire E now userID m w =
     (case driveLocked E now userID m w of
        (Inl e, m, w) \<Rightarrow> (Inl e, m, w)
      | (Inr drive, m, w) \<Rightarrow> (Inr drive, countUse userID m, w))"

text \<open>The deferred end of \<open>release\<close>.\<close>

definition countRelease :: "'v manager \<Rightarrow> 'v manager" where
  "countRelease m =
     (let m = m\<lparr>dmActive := dmActive m - 1\<rparr>
      in if dmActive m = 0 then m\<lparr>dmDrained := True\<rparr> else m)"

definition manager_release :: "('v, 'w, 'z) drv_env_scheme \<Rightarrow> int \<Rightarrow> uuid \<Rightarrow> 'v manager \<Rightarrow> 'w
    \<Rightarrow> 'v manager \<times> 'w" where
  "manager_release E now userID m w =
     (case dmDrives m userID of
        None \<Rightarrow> (countRelease m, w)
      | Some entry \<Rightarrow>
          let entry = entry\<lparr>deUsers := deUsers entry - 1, deLastUsed := now\<rparr>;
              m = setEntry userID entry m
          in if deUsers entry = 0 \<and> deCloseRequested entry
             then (countRelease (removeEntry userID m), snd (dvClose E (deDrive entry) w))
             else (countRelease m, w))"

definition manager_OpenCount :: "'v manager \<Rightarrow> nat" where
  "manager_OpenCount m = card (dom (dmDrives m))"

section \<open>Statistics\<close>

text \<open>
  What \<open>Resources\<close> of a Badger drive reports, \<open>None\<close> for a drive of another kind. The range over the
  map of drives visits its keys in an arbitrary order, the list \<open>ids\<close>.
\<close>

record badger_resource =
  brUserID :: uuid
  brLSMSize :: int
  brVlogSize :: int
  brBlockCache :: int
  brIndexCache :: int

definition resourceStep :: "('v \<Rightarrow> 'w \<Rightarrow> (err + int \<times> int \<times> int \<times> int) option) \<Rightarrow> 'v manager \<Rightarrow> 'w \<Rightarrow> uuid
    \<Rightarrow> badger_resource list \<Rightarrow> err + badger_resource list" where
  "resourceStep res m w userID acc =
     (case dmDrives m userID of
        None \<Rightarrow> Inr acc
      | Some entry \<Rightarrow>
          (case res (deDrive entry) w of
             None \<Rightarrow> Inr acc
           | Some r \<Rightarrow> bindE r (\<lambda>(lsm, vlog, blockCache, indexCache).
               Inr (acc @ [\<lparr>brUserID = userID, brLSMSize = lsm, brVlogSize = vlog,
                 brBlockCache = blockCache, brIndexCache = indexCache\<rparr>]))))"

definition manager_BadgerResources :: "('v \<Rightarrow> 'w \<Rightarrow> (err + int \<times> int \<times> int \<times> int) option) \<Rightarrow> uuid list
    \<Rightarrow> 'v manager \<Rightarrow> 'w \<Rightarrow> err + badger_resource list" where
  "manager_BadgerResources res ids m w = forE (resourceStep res m w) ids []"

text \<open>
  \<open>Stats\<close> acquires the drive, asks for its closing when it had to be opened for this, sums up
  the tree without the mutex, and releases the drive.
\<close>

definition stats_begin :: "('v, 'w, 'z) drv_env_scheme \<Rightarrow> int \<Rightarrow> uuid \<Rightarrow> 'v manager \<Rightarrow> 'w
    \<Rightarrow> (err + 'v) \<times> bool \<times> 'v manager \<times> 'w" where
  "stats_begin E now userID m w =
     (let wasOpen = (dmDrives m userID \<noteq> None)
      in case manager_Acquire E now userID m w of
           (Inl e, m, w) \<Rightarrow> (Inl e, wasOpen, m, w)
         | (Inr drive, m, w) \<Rightarrow>
             (Inr drive, wasOpen,
              if \<not> wasOpen
              then (case dmDrives m userID of None \<Rightarrow> m
                    | Some entry \<Rightarrow> setEntry userID (entry\<lparr>deCloseRequested := True\<rparr>) m)
              else m, w))"

definition treeTotal :: "tree_node \<Rightarrow> int \<times> int" where
  "treeTotal tree = Walk (Some tree) (\<lambda>node (items, size).
     (True, if mPath (nodeMeta node) = Root then (items, size)
            else (i64 (items + 1), i64 (size + mSize (nodeMeta node))))) (0, 0)"

definition manager_Stats :: "('v, 'w, 'z) drv_env_scheme \<Rightarrow> int \<Rightarrow> int \<Rightarrow> uuid \<Rightarrow> 'v manager \<Rightarrow> 'w
    \<Rightarrow> (err + (int \<times> int) \<times> bool) \<times> 'v manager \<times> 'w" where
  "manager_Stats E now later userID m w =
     (case stats_begin E now userID m w of
        (Inl e, wasOpen, m, w) \<Rightarrow> (Inl e, m, w)
      | (Inr drive, wasOpen, m, w) \<Rightarrow>
          (bindE (dvTree E drive Root w) (\<lambda>tree. Inr (treeTotal tree, wasOpen)),
           manager_release E later userID m w))"

section \<open>Closing\<close>

definition manager_CloseDrive :: "('v, 'w, 'z) drv_env_scheme \<Rightarrow> uuid \<Rightarrow> 'v manager \<Rightarrow> 'w
    \<Rightarrow> err option \<times> 'v manager \<times> 'w" where
  "manager_CloseDrive E userID m w =
     (case dmDrives m userID of
        None \<Rightarrow> (None, m, w)
      | Some entry \<Rightarrow>
          if 0 < deUsers entry then (None, setEntry userID (entry\<lparr>deCloseRequested := True\<rparr>) m, w)
          else (case dvClose E (deDrive entry) w of (e, w) \<Rightarrow> (e, removeEntry userID m, w)))"

text \<open>Here, too, the list \<open>ids\<close> is the order in which the map is visited.\<close>

definition idleStep :: "('v, 'w, 'z) drv_env_scheme \<Rightarrow> int \<Rightarrow> uuid \<Rightarrow> 'v manager \<times> 'w \<Rightarrow> 'v manager \<times> 'w" where
  "idleStep E now u st =
     (case st of (m, w) \<Rightarrow>
      case dmDrives m u of
        None \<Rightarrow> (m, w)
      | Some entry \<Rightarrow>
          if 0 < deUsers entry \<or> now - deLastUsed entry < dmIdleTimeout m then (m, w)
          else (removeEntry u m, snd (dvClose E (deDrive entry) w)))"

definition closeIdle :: "('v, 'w, 'z) drv_env_scheme \<Rightarrow> int \<Rightarrow> uuid list \<Rightarrow> 'v manager \<Rightarrow> 'w
    \<Rightarrow> 'v manager \<times> 'w" where
  "closeIdle E now ids m w = fold (idleStep E now) ids (m, w)"

text \<open>The period of the collector, in nanoseconds; division rounds toward zero.\<close>

definition gcInterval :: "int \<Rightarrow> int" where
  "gcInterval idle =
     (let interval = min (idle div 2) 60000000000 in if interval \<le> 0 then idle else interval)"

text \<open>\<open>CloseWithContext\<close>: new uses are refused first, the drives are closed at the end.\<close>

definition close_begin :: "'v manager \<Rightarrow> 'v manager" where
  "close_begin m = m\<lparr>dmClosed := True\<rparr>"

definition closeStep :: "('v, 'w, 'z) drv_env_scheme \<Rightarrow> uuid \<Rightarrow> err option \<times> 'v manager \<times> 'w
    \<Rightarrow> err option \<times> 'v manager \<times> 'w" where
  "closeStep E u st =
     (case st of (err, m, w) \<Rightarrow>
      case dmDrives m u of
        None \<Rightarrow> (err, m, w)
      | Some entry \<Rightarrow>
          (case dvClose E (deDrive entry) w of (e, w) \<Rightarrow> (errorsJoin [err, e], removeEntry u m, w)))"

definition close_end :: "('v, 'w, 'z) drv_env_scheme \<Rightarrow> uuid list \<Rightarrow> err option \<Rightarrow> 'v manager \<Rightarrow> 'w
    \<Rightarrow> err option \<times> 'v manager \<times> 'w" where
  "close_end E ids err m w = fold (closeStep E) ids (err, m, w)"

section \<open>Steps\<close>

text \<open>
  The system: the manager, the world, the releases its users still owe, one for every successful
  acquisition, and whether a shutdown closed drives in use. A release function acts once.
\<close>

record ('v, 'w) dsys =
  dsM :: "'v manager"
  dsW :: 'w
  dsOwed :: "uuid multiset"
  dsForced :: bool

inductive dm_step :: "('v, 'w, 'z) drv_env_scheme \<Rightarrow> ('v, 'w) dsys \<Rightarrow> ('v, 'w) dsys \<Rightarrow> bool"
  for E :: "('v, 'w, 'z) drv_env_scheme" where
  step_drive: "manager_Drive E now u (dsM s) (dsW s) = (r, m, w) \<Longrightarrow>
    dm_step E s (s\<lparr>dsM := m, dsW := w\<rparr>)"
| step_acquire: "manager_Acquire E now u (dsM s) (dsW s) = (r, m, w) \<Longrightarrow>
    dm_step E s (s\<lparr>dsM := m, dsW := w, dsOwed := (case r of Inl e \<Rightarrow> dsOwed s | Inr v \<Rightarrow> add_mset u (dsOwed s))\<rparr>)"
| step_stats: "stats_begin E now u (dsM s) (dsW s) = (r, was, m, w) \<Longrightarrow>
    dm_step E s (s\<lparr>dsM := m, dsW := w, dsOwed := (case r of Inl e \<Rightarrow> dsOwed s | Inr v \<Rightarrow> add_mset u (dsOwed s))\<rparr>)"
| step_release: "u \<in># dsOwed s \<Longrightarrow> manager_release E now u (dsM s) (dsW s) = (m, w) \<Longrightarrow>
    dm_step E s (s\<lparr>dsM := m, dsW := w, dsOwed := dsOwed s - {#u#}\<rparr>)"
| step_close_drive: "manager_CloseDrive E u (dsM s) (dsW s) = (e, m, w) \<Longrightarrow>
    dm_step E s (s\<lparr>dsM := m, dsW := w\<rparr>)"
| step_idle: "set ids = dom (dmDrives (dsM s)) \<Longrightarrow> closeIdle E now ids (dsM s) (dsW s) = (m, w) \<Longrightarrow>
    dm_step E s (s\<lparr>dsM := m, dsW := w\<rparr>)"
| step_close_begin: "dm_step E s (s\<lparr>dsM := close_begin (dsM s)\<rparr>)"
| step_close_end: "dmClosed (dsM s) \<Longrightarrow> dmDrained (dsM s) \<or> timeout \<Longrightarrow>
    set ids = dom (dmDrives (dsM s)) \<Longrightarrow> close_end E ids err (dsM s) (dsW s) = (e, m, w) \<Longrightarrow>
    dm_step E s (s\<lparr>dsM := m, dsW := w, dsForced := dsForced s \<or> \<not> dmDrained (dsM s)\<rparr>)"

definition dm_start :: "drv_config \<Rightarrow> int \<Rightarrow> 'w \<Rightarrow> ('v, 'w) dsys" where
  "dm_start cfg idle w = \<lparr>dsM = NewDriveManager cfg idle, dsW = w, dsOwed = {#}, dsForced = False\<rparr>"

end
