(* ===== verification/Drives_Inv.thy ===== *)
theory Drives_Inv
  imports Drives
begin

text \<open>
  The consistency of the drive manager: the counters agree with the releases still owed, the open
  handles are exactly those of its entries, an owed drive stays open, and a request for closing
  is pending only while the drive is used. The contract of the drivers is the locale
  \<open>drive_world\<close>.
\<close>

section \<open>The invariant\<close>

definition handleOf :: "'v manager \<Rightarrow> uuid \<rightharpoonup> 'v" where
  "handleOf m = (\<lambda>u. map_option deDrive (dmDrives m u))"

definition handles_ok :: "('w \<Rightarrow> 'v set) \<Rightarrow> 'v manager \<Rightarrow> 'w \<Rightarrow> bool" where
  "handles_ok live m w \<longleftrightarrow> live w = ran (handleOf m) \<and> inj_on (handleOf m) (dom (handleOf m))"

definition counters_ok :: "'v manager \<Rightarrow> uuid multiset \<Rightarrow> bool" where
  "counters_ok m owed \<longleftrightarrow> dmActive m = int (size owed) \<and> (dmDrained m \<longleftrightarrow> owed = {#})
     \<and> (\<forall>u e. dmDrives m u = Some e \<longrightarrow>
          deUsers e = int (count owed u) \<and> (deCloseRequested e \<longrightarrow> u \<in># owed))"

definition dm_ok :: "('w \<Rightarrow> 'v set) \<Rightarrow> 'v manager \<Rightarrow> 'w \<Rightarrow> uuid multiset \<Rightarrow> bool \<Rightarrow> bool" where
  "dm_ok live m w owed forced \<longleftrightarrow> handles_ok live m w \<and> counters_ok m owed
     \<and> (if forced then dmClosed m \<and> dmDrives m = Map.empty else \<forall>u \<in># owed. dmDrives m u \<noteq> None)"

lemma entry_simps [simp]:
  "dmDrives (setEntry u e m) = (dmDrives m)(u \<mapsto> e)" "dmClosed (setEntry u e m) = dmClosed m"
  "dmActive (setEntry u e m) = dmActive m" "dmDrained (setEntry u e m) = dmDrained m"
  "dmDrives (removeEntry u m) = (dmDrives m)(u := None)" "dmClosed (removeEntry u m) = dmClosed m"
  "dmActive (removeEntry u m) = dmActive m" "dmDrained (removeEntry u m) = dmDrained m"
  "dmIdleTimeout (removeEntry u m) = dmIdleTimeout m" "dmConfig (removeEntry u m) = dmConfig m"
  "dmConfig (setEntry u e m) = dmConfig m" "dmIdleTimeout (setEntry u e m) = dmIdleTimeout m"
  by (simp_all add: setEntry_def removeEntry_def)

lemma handleOf_set [simp]: "handleOf (setEntry u e m) = (handleOf m)(u \<mapsto> deDrive e)"
  by (auto simp: handleOf_def)

lemma handleOf_remove [simp]: "handleOf (removeEntry u m) = (handleOf m)(u := None)"
  by (auto simp: handleOf_def)

lemma handleOf_entry: "dmDrives m u = Some e \<Longrightarrow> handleOf m u = Some (deDrive e)"
  by (simp add: handleOf_def)

lemma handles_set:
  assumes "handles_ok live m w" and "dmDrives m u = Some e" and "deDrive e' = deDrive e"
  shows "handles_ok live (setEntry u e' m) w"
proof -
  have "(handleOf m)(u \<mapsto> deDrive e') = handleOf m"
    using handleOf_entry [OF assms(2)] assms(3) by (simp add: fun_upd_idem)
  with assms(1) show ?thesis by (simp add: handles_ok_def)
qed

lemma handles_add:
  assumes "handles_ok live m w" and "dmDrives m u = None" and "deDrive e \<notin> live w"
    and "live w' = insert (deDrive e) (live w)"
  shows "handles_ok live (setEntry u e m) w'"
proof -
  have u: "handleOf m u = None" using assms(2) by (simp add: handleOf_def)
  have l: "live w = ran (handleOf m)" "inj_on (handleOf m) (dom (handleOf m))"
    using assms(1) by (simp_all add: handles_ok_def)
  have "handleOf m x \<noteq> Some (deDrive e)" for x
    using assms(3) unfolding l(1) by (auto intro: ranI)
  moreover have "u \<notin> dom (handleOf m)" using u by (simp add: domIff)
  ultimately have "inj_on ((handleOf m)(u \<mapsto> deDrive e)) (insert u (dom (handleOf m)))"
    using l(2) by (auto simp: inj_on_def)
  with assms(4) l(1) u show ?thesis by (simp add: handles_ok_def)
qed

lemma ran_delete:
  assumes "inj_on M (dom M)" and "M u = Some x"
  shows "ran (M(u := None)) = ran M - {x}"
proof (intro set_eqI iffI)
  fix y assume "y \<in> ran (M(u := None))"
  then obtain a where a: "a \<noteq> u" "M a = Some y" by (auto simp: ran_def split: if_splits)
  have "y \<noteq> x"
  proof
    assume "y = x"
    then have "a = u" using inj_onD [OF assms(1), of a u] a(2) assms(2) by (simp add: domI)
    with a(1) show False by blast
  qed
  with a(2) show "y \<in> ran M - {x}" by (simp add: ranI)
next
  fix y assume "y \<in> ran M - {x}"
  then obtain a where a: "M a = Some y" "y \<noteq> x" by (auto simp: ran_def)
  then have "a \<noteq> u" using assms(2) by auto
  with a(1) have "(M(u := None)) a = Some y" by simp
  then show "y \<in> ran (M(u := None))" by (rule ranI)
qed

lemma handles_remove:
  assumes "handles_ok live m w" and "dmDrives m u = Some e" and "live w' = live w - {deDrive e}"
  shows "handles_ok live (removeEntry u m) w'"
proof -
  have l: "live w = ran (handleOf m)" "inj_on (handleOf m) (dom (handleOf m))"
    using assms(1) by (simp_all add: handles_ok_def)
  have "ran ((handleOf m)(u := None)) = ran (handleOf m) - {deDrive e}"
    by (rule ran_delete [OF l(2) handleOf_entry [OF assms(2)]])
  moreover have "inj_on ((handleOf m)(u := None)) (dom (handleOf m) - {u})"
    using l(2) by (auto simp: inj_on_def)
  ultimately show ?thesis using assms(3) l(1) by (simp add: handles_ok_def)
qed

section \<open>The contract of the drivers\<close>

text \<open>Opening yields a new handle or nothing; closing, even when it fails, ends the handle.\<close>

locale drive_world =
  fixes E :: "('v, 'w, 'z) drv_env_scheme" and live :: "'w \<Rightarrow> 'v set"
  assumes badger_opens: "dvBadger E cfg w = (Inr v, w') \<Longrightarrow> v \<notin> live w \<and> live w' = insert v (live w)"
    and badger_fails: "dvBadger E cfg w = (Inl e, w') \<Longrightarrow> live w' = live w"
    and local_opens: "dvLocal E cfg w = (Inr v, w') \<Longrightarrow> v \<notin> live w \<and> live w' = insert v (live w)"
    and local_fails: "dvLocal E cfg w = (Inl e, w') \<Longrightarrow> live w' = live w"
    and closes: "dvClose E v w = (r, w') \<Longrightarrow> live w' = live w - {v}"
begin

lemma open_live:
  "drive_open E m u w = (Inr v, w') \<Longrightarrow> v \<notin> live w \<and> live w' = insert v (live w)"
  "drive_open E m u w = (Inl e, w') \<Longrightarrow> live w' = live w"
  by (auto simp: drive_open_def drivers_New_def split: if_splits
      dest: badger_opens badger_fails local_opens local_fails)

lemma closes_snd: "live (snd (dvClose E v w)) = live w - {v}"
  using closes [of v w] by (metis prod.collapse)

lemma handles_live: "handles_ok live m w \<Longrightarrow> live w' = live w \<Longrightarrow> handles_ok live m w'"
  by (simp add: handles_ok_def)

lemma driveLocked_ok:
  assumes "dm_ok live m w owed f" and "driveLocked E now u m w = (r, m', w')"
  shows "dm_ok live m' w' owed f"
    and "r = Inr v \<Longrightarrow> \<not> f \<and> (\<exists>e. dmDrives m' u = Some e \<and> deDrive e = v) \<and> dmActive m' = dmActive m"
proof -
  have *: "dm_ok live m' w' owed f \<and> (\<forall>v. r = Inr v \<longrightarrow> \<not> f
      \<and> (\<exists>e. dmDrives m' u = Some e \<and> deDrive e = v) \<and> dmActive m' = dmActive m)"
  proof (cases "dmClosed m")
    case False
    then have f: "\<not> f" using assms(1) by (auto simp: dm_ok_def)
    show ?thesis
    proof (cases "dmDrives m u")
      case (Some e)
      then have r: "r = Inr (deDrive e)" "m' = setEntry u (e\<lparr>deLastUsed := now\<rparr>) m" "w' = w"
        using assms(2) False by (auto simp: driveLocked_def)
      have "handles_ok live m' w" unfolding r
        by (rule handles_set [OF _ Some]) (use assms(1) in \<open>simp_all add: dm_ok_def\<close>)
      moreover have "counters_ok m' owed" using assms(1) Some unfolding r
        by (auto simp: dm_ok_def counters_ok_def)
      ultimately show ?thesis using assms(1) f r by (auto simp: dm_ok_def)
    next
      case None
      obtain x w1 where o: "drive_open E m u w = (x, w1)" by fastforce
      show ?thesis
      proof (cases x)
        case (Inl e)
        then have "r = Inl e" "m' = m" "w' = w1" using assms(2) False None o by (auto simp: driveLocked_def)
        then show ?thesis using assms(1) open_live(2) [OF o [unfolded Inl]] by (auto simp: dm_ok_def intro: handles_live)
      next
        case (Inr v)
        let ?e = "\<lparr>deDrive = v, deLastUsed = now, deUsers = 0, deCloseRequested = False\<rparr>"
        have r: "r = Inr v" "m' = setEntry u ?e m" "w' = w1"
          using assms(2) False None o Inr by (auto simp: driveLocked_def)
        have "handles_ok live m' w1" unfolding r
          by (rule handles_add [OF _ None]) (use assms(1) open_live(1) [OF o [unfolded Inr]] in \<open>simp_all add: dm_ok_def\<close>)
        moreover have "u \<notin># owed" using assms(1) f None by (auto simp: dm_ok_def)
        then have "counters_ok m' owed" using assms(1) unfolding r
          by (auto simp: dm_ok_def counters_ok_def count_eq_zero_iff)
        ultimately show ?thesis using assms(1) f r by (auto simp: dm_ok_def)
      qed
    qed
  qed (use assms in \<open>auto simp: driveLocked_def\<close>)
  then show "dm_ok live m' w' owed f"
    "r = Inr v \<Longrightarrow> \<not> f \<and> (\<exists>e. dmDrives m' u = Some e \<and> deDrive e = v) \<and> dmActive m' = dmActive m" by blast+
qed

lemma countUse_fields:
  assumes "dmDrives m u = Some e"
  shows "dmDrives (countUse u m) = (dmDrives m)(u \<mapsto> e\<lparr>deUsers := deUsers e + 1\<rparr>)"
    "dmActive (countUse u m) = dmActive m + 1" "dmClosed (countUse u m) = dmClosed m"
    "dmDrained (countUse u m) = (if dmActive m = 0 then False else dmDrained m)"
  using assms by (simp_all add: countUse_def Let_def)

lemma countUse_ok:
  assumes "dm_ok live m w owed f" and "\<not> f" and "dmDrives m u = Some e"
  shows "dm_ok live (countUse u m) w (add_mset u owed) f"
proof -
  let ?m = "countUse u m"
  note c = countUse_fields [OF assms(3)]
  have "handles_ok live (setEntry u (e\<lparr>deUsers := deUsers e + 1\<rparr>) m) w"
    by (rule handles_set [OF _ assms(3)]) (use assms(1) in \<open>simp_all add: dm_ok_def\<close>)
  moreover have "handleOf ?m = handleOf (setEntry u (e\<lparr>deUsers := deUsers e + 1\<rparr>) m)"
    by (simp only: handleOf_def c entry_simps)
  ultimately have "handles_ok live ?m w" by (simp only: handles_ok_def)
  moreover have "counters_ok ?m (add_mset u owed)"
    using assms(1,3) by (auto simp: dm_ok_def counters_ok_def c)
  ultimately show ?thesis using assms by (auto simp: dm_ok_def c)
qed

lemma acquire_ok:
  assumes "dm_ok live m w owed f" and "manager_Acquire E now u m w = (r, m', w')"
  shows "dm_ok live m' w' (case r of Inl e \<Rightarrow> owed | Inr v \<Rightarrow> add_mset u owed) f"
    and "r = Inr v \<Longrightarrow> \<exists>e. dmDrives m' u = Some e \<and> deDrive e = v \<and> v \<in> live w'"
proof -
  obtain r1 m1 w1 where d: "driveLocked E now u m w = (r1, m1, w1)" by (metis prod_cases3)
  note dl = driveLocked_ok [OF assms(1) d]
  have *: "dm_ok live m' w' (case r of Inl e \<Rightarrow> owed | Inr v \<Rightarrow> add_mset u owed) f
    \<and> (\<forall>v. r = Inr v \<longrightarrow> (\<exists>e. dmDrives m' u = Some e \<and> deDrive e = v \<and> v \<in> live w'))"
  proof (cases r1)
    case (Inl e)
    then show ?thesis using assms(2) d dl(1) by (auto simp: manager_Acquire_def)
  next
    case (Inr v)
    then obtain e where e: "\<not> f" "dmDrives m1 u = Some e" "deDrive e = v" using dl(2) by blast
    have r: "r = Inr v" "m' = countUse u m1" "w' = w1"
      using assms(2) d Inr by (auto simp: manager_Acquire_def)
    have ok: "dm_ok live m' w' (add_mset u owed) f" unfolding r by (rule countUse_ok [OF dl(1) e(1,2)])
    have "dmDrives m' u = Some (e\<lparr>deUsers := deUsers e + 1\<rparr>)" by (simp add: r countUse_fields [OF e(2)])
    moreover from handleOf_entry [OF this] have "v \<in> live w'"
      using ok e(3) by (simp add: dm_ok_def handles_ok_def ranI)
    ultimately show ?thesis using ok r e(3) by auto
  qed
  then show "dm_ok live m' w' (case r of Inl e \<Rightarrow> owed | Inr v \<Rightarrow> add_mset u owed) f"
    "r = Inr v \<Longrightarrow> \<exists>e. dmDrives m' u = Some e \<and> deDrive e = v \<and> v \<in> live w'" by blast+
qed

lemma request_ok:
  assumes "dm_ok live m w owed f" and "dmDrives m u = Some e" and "u \<in># owed"
  shows "dm_ok live (setEntry u (e\<lparr>deCloseRequested := True\<rparr>) m) w owed f"
proof -
  have "handles_ok live (setEntry u (e\<lparr>deCloseRequested := True\<rparr>) m) w"
    by (rule handles_set [OF _ assms(2)]) (use assms(1) in \<open>simp_all add: dm_ok_def\<close>)
  with assms show ?thesis by (auto simp: dm_ok_def counters_ok_def split: if_splits)
qed

lemma stats_ok:
  assumes "dm_ok live m w owed f" and "stats_begin E now u m w = (r, was, m', w')"
  shows "dm_ok live m' w' (case r of Inl e \<Rightarrow> owed | Inr v \<Rightarrow> add_mset u owed) f"
proof -
  obtain r1 m1 w1 where d: "manager_Acquire E now u m w = (r1, m1, w1)" by (metis prod_cases3)
  note a = acquire_ok [OF assms(1) d]
  show ?thesis
  proof (cases r1)
    case (Inl e)
    then show ?thesis using assms(2) d a(1) by (auto simp: stats_begin_def Let_def)
  next
    case (Inr v)
    then obtain e where e: "dmDrives m1 u = Some e" using a(2) by blast
    have "dm_ok live m1 w1 (add_mset u owed) f" using a(1) Inr by simp
    from this request_ok [OF this e] show ?thesis
      using assms(2) d Inr e by (auto simp: stats_begin_def Let_def split: if_splits)
  qed
qed

lemma countRelease_fields:
  "handleOf (countRelease m) = handleOf m"
  "dmDrives (countRelease m) = dmDrives m" "dmClosed (countRelease m) = dmClosed m"
  "dmActive (countRelease m) = dmActive m - 1"
  "dmDrained (countRelease m) = (dmActive m - 1 = 0 \<or> dmDrained m)"
  by (simp_all add: countRelease_def Let_def handleOf_def)

lemma release_ok:
  assumes "dm_ok live m w owed f" and "u \<in># owed" and "manager_release E now u m w = (m', w')"
  shows "dm_ok live m' w' (owed - {#u#}) f"
proof -
  obtain ow where ow: "owed = add_mset u ow" using assms(2) by (metis insert_DiffM)
  have c: "counters_ok m (add_mset u ow)" using assms(1) by (simp add: dm_ok_def ow)
  have sz: "size ow = 0 \<longleftrightarrow> ow = {#}" by simp
  show ?thesis
  proof (cases "dmDrives m u")
    case None
    then have f: "f" using assms(1,2) by (auto simp: dm_ok_def split: if_splits)
    have r: "m' = countRelease m" "w' = w" using assms(3) None by (auto simp: manager_release_def)
    show ?thesis using assms(1) f c sz
      by (auto simp: r dm_ok_def ow counters_ok_def handles_ok_def countRelease_fields)
  next
    case (Some e)
    then have f: "\<not> f" using assms(1) by (auto simp: dm_ok_def)
    let ?e = "e\<lparr>deUsers := deUsers e - 1, deLastUsed := now\<rparr>"
    have us: "deUsers e = int (count ow u) + 1" using c Some by (simp add: counters_ok_def)
    have h: "handles_ok live (setEntry u ?e m) w"
      by (rule handles_set [OF _ Some]) (use assms(1) in \<open>simp_all add: dm_ok_def\<close>)
    have rest: "\<forall>v \<in># ow. dmDrives m v \<noteq> None" using assms(1) f by (simp add: dm_ok_def ow)
    show ?thesis
    proof (cases "deUsers ?e = 0 \<and> deCloseRequested ?e")
      case True
      then have r: "m' = countRelease (removeEntry u (setEntry u ?e m))" "w' = snd (dvClose E (deDrive ?e) w)"
        using assms(3) Some by (auto simp: manager_release_def Let_def)
      have nu: "u \<notin># ow" using True us by (simp add: count_eq_zero_iff [symmetric])
      have "handles_ok live (removeEntry u (setEntry u ?e m)) w'"
        by (rule handles_remove [OF h, of u ?e]) (simp_all add: r closes_snd)
      then have "handles_ok live m' w'" by (simp add: handles_ok_def r countRelease_fields)
      moreover have "counters_ok m' ow" using c sz nu
        by (auto simp: counters_ok_def r countRelease_fields)
      ultimately show ?thesis using f rest nu by (auto simp: dm_ok_def ow r countRelease_fields)
    next
      case False
      then have r: "m' = countRelease (setEntry u ?e m)" "w' = w"
        using assms(3) Some by (auto simp: manager_release_def Let_def)
      have "handles_ok live m' w'" using h by (simp add: handles_ok_def r countRelease_fields)
      moreover have "counters_ok m' ow" using c sz Some False us
        by (auto simp: counters_ok_def r countRelease_fields count_eq_zero_iff split: if_splits)
      ultimately show ?thesis using f rest by (auto simp: dm_ok_def ow r countRelease_fields)
    qed
  qed
qed

lemma remove_ok:
  assumes "dm_ok live m w owed f" and "dmDrives m u = Some e" and "u \<notin># owed"
  shows "dm_ok live (removeEntry u m) (snd (dvClose E (deDrive e) w)) owed f"
proof -
  have "handles_ok live (removeEntry u m) (snd (dvClose E (deDrive e) w))"
    by (rule handles_remove [OF _ assms(2)]) (use assms(1) closes_snd in \<open>simp_all add: dm_ok_def\<close>)
  with assms show ?thesis by (auto simp: dm_ok_def counters_ok_def split: if_splits)
qed

lemma unused_iff:
  "dm_ok live m w owed f \<Longrightarrow> dmDrives m u = Some e \<Longrightarrow> 0 < deUsers e \<longleftrightarrow> u \<in># owed"
  by (auto simp: dm_ok_def counters_ok_def)

lemma close_drive_ok:
  assumes "dm_ok live m w owed f" and "manager_CloseDrive E u m w = (r, m', w')"
  shows "dm_ok live m' w' owed f"
proof (cases "dmDrives m u")
  case (Some e)
  note un = unused_iff [OF assms(1) Some]
  show ?thesis
    using assms(2) Some un request_ok [OF assms(1) Some] remove_ok [OF assms(1) Some]
    by (auto simp: manager_CloseDrive_def split: if_splits prod.splits)
qed (use assms in \<open>simp add: manager_CloseDrive_def\<close>)

lemma idle_step_ok:
  assumes "dm_ok live m w owed f" and "idleStep E now u (m, w) = (m', w')"
  shows "dm_ok live m' w' owed f"
proof (cases "dmDrives m u")
  case (Some e)
  show ?thesis
    using assms Some unused_iff [OF assms(1) Some] remove_ok [OF assms(1) Some]
    by (auto simp: idleStep_def split: if_splits)
qed (use assms in \<open>simp add: idleStep_def\<close>)

lemma idle_ok:
  "dm_ok live m w owed f \<Longrightarrow> closeIdle E now ids m w = (m', w') \<Longrightarrow> dm_ok live m' w' owed f"
proof (induction ids arbitrary: m w)
  case (Cons u ids)
  obtain m1 w1 where s: "idleStep E now u (m, w) = (m1, w1)" by fastforce
  show ?case using Cons.IH [OF idle_step_ok [OF Cons.prems(1) s]] Cons.prems(2) s by (simp add: closeIdle_def)
qed (simp add: closeIdle_def)

text \<open>The closing loop empties the map and ends every handle.\<close>

lemma close_end_map:
  assumes "handles_ok live m w" and "close_end E ids err m w = (e, m', w')"
  shows "handles_ok live m' w' \<and> dmDrives m' = map_without (\<lambda>u. u \<in> set ids) (dmDrives m)
    \<and> dmClosed m' = dmClosed m \<and> dmActive m' = dmActive m \<and> dmDrained m' = dmDrained m"
  using assms
proof (induction ids arbitrary: m w err)
  case (Cons u ids)
  show ?case
  proof (cases "dmDrives m u")
    case None
    then have "close_end E ids err m w = (e, m', w')" using Cons.prems(2) by (simp add: close_end_def closeStep_def)
    note ih = Cons.IH [OF Cons.prems(1) this]
    have "map_without (\<lambda>v. v \<in> set (u # ids)) (dmDrives m) = map_without (\<lambda>v. v \<in> set ids) (dmDrives m)"
      using None by (auto simp: map_without_def)
    with ih show ?thesis by metis
  next
    case (Some d)
    obtain x w1 where x: "dvClose E (deDrive d) w = (x, w1)" by fastforce
    then have c: "close_end E ids (errorsJoin [err, x]) (removeEntry u m) w1 = (e, m', w')"
      using Cons.prems(2) Some by (simp add: close_end_def closeStep_def)
    have "handles_ok live (removeEntry u m) w1"
      by (rule handles_remove [OF Cons.prems(1) Some closes [OF x]])
    note ih = Cons.IH [OF this c]
    have "map_without (\<lambda>v. v \<in> set (u # ids)) (dmDrives m)
        = map_without (\<lambda>v. v \<in> set ids) (dmDrives (removeEntry u m))"
      by (auto simp: map_without_def)
    with ih show ?thesis by (metis entry_simps(6-8))
  qed
qed (simp add: close_end_def)

lemma close_end_ok:
  assumes "dm_ok live m w owed f" and "close_end E ids err m w = (e, m', w')"
    and "set ids = dom (dmDrives m)" and "dmClosed m"
  shows "dm_ok live m' w' owed (f \<or> \<not> dmDrained m)" "live w' = {}" "dmDrives m' = Map.empty"
proof -
  have h: "handles_ok live m w" using assms(1) by (simp add: dm_ok_def)
  note c = close_end_map [OF h assms(2)]
  show d: "dmDrives m' = Map.empty"
  proof
    fix u show "dmDrives m' u = None"
      using c assms(3) by (cases "u \<in> set ids") (auto simp: domIff)
  qed
  then have "handleOf m' = Map.empty" by (simp add: handleOf_def)
  then show "live w' = {}" using c by (simp add: handles_ok_def)
  show "dm_ok live m' w' owed (f \<or> \<not> dmDrained m)"
  proof -
    have "counters_ok m owed" using assms(1) by (simp add: dm_ok_def)
    then have "counters_ok m' owed" using c d by (simp add: counters_ok_def)
    moreover have "owed = {#}" if "\<not> f" "dmDrained m"
      using \<open>counters_ok m owed\<close> that by (simp add: counters_ok_def)
    ultimately show ?thesis unfolding dm_ok_def using c d assms(4) by auto
  qed
qed

lemma dm_step_ok:
  assumes "dm_step E s s'" and "dm_ok live (dsM s) (dsW s) (dsOwed s) (dsForced s)"
  shows "dm_ok live (dsM s') (dsW s') (dsOwed s') (dsForced s')"
  using assms
proof cases
  case (step_drive now u r m w)
  then show ?thesis using driveLocked_ok(1) [OF assms(2)] by (simp add: manager_Drive_def)
next
  case (step_acquire now u r m w)
  then show ?thesis using acquire_ok(1) [OF assms(2)] by simp
next
  case (step_stats now u r was m w)
  then show ?thesis using stats_ok [OF assms(2)] by simp
next
  case (step_release u now m w)
  then show ?thesis using release_ok [OF assms(2)] by simp
next
  case (step_close_drive u e m w)
  then show ?thesis using close_drive_ok [OF assms(2)] by simp
next
  case (step_idle ids now m w)
  then show ?thesis using idle_ok [OF assms(2)] by simp
next
  case step_close_begin
  then show ?thesis using assms(2) 
    by (auto simp: dm_ok_def counters_ok_def handles_ok_def handleOf_def close_begin_def)
next
  case (step_close_end timeout ids err e m w)
  then show ?thesis using close_end_ok(1) [OF assms(2)] by simp
qed

lemma dm_reach_ok:
  assumes "(dm_step E)\<^sup>*\<^sup>* (dm_start cfg idle w) s" and "live w = {}"
  shows "dm_ok live (dsM s) (dsW s) (dsOwed s) (dsForced s)"
  using assms(1)
proof (induction rule: rtranclp_induct)
  case base
  then show ?case using assms(2)

    by (simp add: dm_start_def NewDriveManager_def dm_ok_def handles_ok_def handleOf_def counters_ok_def)
qed (use dm_step_ok in blast)

end

end
