(* ===== verification/Formats.thy ===== *)
theory Formats
  imports GoStrings
begin

text \<open>
  Text formats of the standard library that several components write: hexadecimal identifiers
  (their injectivity and alphabet) and \<open>strconv.FormatUint\<close> in base ten.
\<close>

section \<open>Identifiers\<close>

lemma length_hexEncode: "length (hexEncode b) = 2 * length b"
  by (induction b) (simp_all add: hexEncode_def)

lemma split_groups: "x = take 8 x @ take 4 (drop 8 x) @ take 4 (drop 12 x) @ take 4 (drop 16 x) @ drop 20 x"
proof -
  have "x = take 8 x @ take 4 (drop 8 x) @ take 4 (drop 4 (drop 8 x)) @ take 4 (drop 4 (drop 4 (drop 8 x)))
      @ drop 4 (drop 4 (drop 4 (drop 8 x)))"
    by (simp only: append_take_drop_id)
  then show ?thesis by (simp only: drop_drop) simp
qed

definition hexChars :: string where
  "hexChars = ''0123456789abcdef''"

lemma hexDigit_chars: "hexDigit n \<in> set hexChars"
  unfolding hexDigit_def hexChars_def by (rule nth_mem) simp

lemma hexEncode_chars: "c \<in> set (hexEncode b) \<Longrightarrow> c \<in> set hexChars"
  using hexDigit_chars by (induction b) (auto simp: hexEncode_def)

lemma uuidString_chars: "c \<in> set (uuidString i) \<Longrightarrow> c = CHR ''-'' \<or> c \<in> set hexChars"
proof -
  assume "c \<in> set (uuidString i)"
  then have "c = CHR ''-'' \<or> c \<in> set (hexEncode (idBytes i))"
    unfolding uuidString_def Let_def by (auto dest: in_set_takeD in_set_dropD simp del: char.inject)
  then show ?thesis using hexEncode_chars by blast
qed

lemma uuidString_not: "c \<notin> set hexChars \<Longrightarrow> c \<noteq> CHR ''-'' \<Longrightarrow> c \<notin> set (uuidString i)"
  using uuidString_chars by blast

lemma length_uuidString: "length (uuidString i) = 36"
  by (simp add: uuidString_def Let_def length_hexEncode)

text \<open>Reading hexadecimal and the canonical form of an identifier back.\<close>

definition hexValue :: "char \<Rightarrow> nat" where
  "hexValue c = (if (of_char c :: nat) < 58 then of_char c - 48 else of_char c - 87)"

fun hexDecode :: "string \<Rightarrow> bytes" where
  "hexDecode (a # b # s) = char_of (16 * hexValue a + hexValue b) # hexDecode s"
| "hexDecode s = []"

definition uuidParse :: "string \<Rightarrow> uuid" where
  "uuidParse s = idOfBytes (hexDecode (filter (\<lambda>c. c \<noteq> CHR ''-'') s))"

lemma hexValue_hexDigit: "hexValue (hexDigit n) = n mod 16"
proof -
  have "\<forall>k \<in> set [0..<16]. hexValue (''0123456789abcdef'' ! k) = k" by code_simp
  moreover have "n mod 16 \<in> set [0..<16]" by simp
  ultimately show ?thesis unfolding hexDigit_def by blast
qed

lemma hexDecode_hexEncode: "hexDecode (hexEncode b) = b"
proof (induction b)
  case (Cons c b)
  have "(of_char c :: nat) < 16 * 16" using nat_of_char_less_256 [of c] by simp
  then have "(of_char c :: nat) div 16 mod 16 = of_char c div 16" by (simp add: less_mult_imp_div_less)
  then have "16 * hexValue (hexDigit (of_char c div 16)) + hexValue (hexDigit (of_char c)) = of_char c"
    by (simp add: hexValue_hexDigit)
  with Cons.IH show ?case by (simp add: hexEncode_def)
qed (simp add: hexEncode_def)

lemma uuidParse_uuidString: "uuidParse (uuidString i) = i"
proof -
  let ?h = "hexEncode (idBytes i)" and ?f = "filter (\<lambda>c. c \<noteq> CHR ''-'')"
  have "c \<noteq> CHR ''-''" if "c \<in> set ?h" for c
    using hexEncode_chars [OF that] by (auto simp: hexChars_def)
  then have f: "?f (take n (drop m ?h)) = take n (drop m ?h)" "?f (drop m ?h) = drop m ?h" for n m
    by (auto simp: filter_id_conv dest: in_set_takeD in_set_dropD)
  have "?f (uuidString i) = take 8 ?h @ take 4 (drop 8 ?h) @ take 4 (drop 12 ?h) @ take 4 (drop 16 ?h) @ drop 20 ?h"
    using f(1) [of 8 0] f by (simp add: uuidString_def Let_def)
  also have "\<dots> = ?h" by (rule sym) (rule split_groups)
  finally show ?thesis by (simp add: uuidParse_def hexDecode_hexEncode)
qed

lemma uuidString_inj: "uuidString i = uuidString j \<Longrightarrow> i = j"
  by (metis uuidParse_uuidString)

section \<open>Decimal numbers\<close>

fun formatUint :: "nat \<Rightarrow> string" where
  "formatUint n = (if n < 10 then [char_of (48 + n)] else formatUint (n div 10) @ [char_of (48 + n mod 10)])"

declare formatUint.simps [simp del]

lemma formatUint_digits: "c \<in> set (formatUint n) \<Longrightarrow> 48 \<le> (of_char c :: nat) \<and> (of_char c :: nat) \<le> 57"
proof (induction n rule: formatUint.induct)
  case (1 n)
  have "n mod 10 < 10" by simp
  with 1 show ?case
    by (subst (asm) (2) formatUint.simps) (auto simp: of_char_of split: if_splits)
qed

lemma formatUint_nonempty: "formatUint n \<noteq> []"
  by (subst formatUint.simps) simp

lemma formatUint_inj: "formatUint m = formatUint n \<Longrightarrow> m = n"
proof (induction m arbitrary: n rule: formatUint.induct)
  case (1 m)
  have d: "char_of (48 + x) = (char_of (48 + y) :: char) \<longleftrightarrow> x = y" if "x < 10" "y < 10" for x y :: nat
  proof -
    have "of_char (char_of (48 + x) :: char) = 48 + x" "of_char (char_of (48 + y) :: char) = 48 + y"
      using that by (simp_all add: of_char_of)
    then show ?thesis by (metis add_left_cancel)
  qed
  show ?case
  proof (cases "m < 10")
    case True
    then have "n < 10"
      using "1.prems" formatUint_nonempty [of "n div 10"] by (subst (asm) (1 2) formatUint.simps) (auto split: if_splits)
    with True "1.prems" show ?thesis by (subst (asm) (1 2) formatUint.simps) (simp add: d)
  next
    case False
    then have n: "\<not> n < 10"
      using "1.prems" formatUint_nonempty [of "m div 10"] by (subst (asm) (1 2) formatUint.simps) (auto split: if_splits)
    have "formatUint (m div 10) @ [char_of (48 + m mod 10)] = formatUint (n div 10) @ [char_of (48 + n mod 10)]"
      using "1.prems" formatUint.simps [of m] formatUint.simps [of n] False n by simp
    then have "formatUint (m div 10) = formatUint (n div 10) \<and> m mod 10 = n mod 10"
      by (simp add: d)
    with "1.IH" [OF False] show ?thesis by (metis div_mult_mod_eq)
  qed
qed

end
