(* ===== verification/Store_Paths.thy ===== *)
theory Store_Paths
  imports Formats Paths
begin

text \<open>
  Paths made of a directory and one more element, such as an identifier: what \<open>path.Join\<close> makes of
  them, and that different elements give different paths.
\<close>

lemma uuidString_elem: "properElem (uuidString i)"
proof -
  have "slash \<notin> set (uuidString i)" by (rule uuidString_not) (simp_all add: hexChars_def)
  moreover have "2 < length (uuidString i)" by (simp add: length_uuidString)
  ultimately show ?thesis by (auto simp: properElem_def)
qed

lemma joinWith_snoc_inj: "joinWith s (xs @ [a]) = joinWith s (xs @ [b]) \<Longrightarrow> a = b"
proof (induction s xs rule: joinWith.induct)
  case (3 sep x y ys)
  then show ?case by (cases ys) auto
qed auto

definition cleanBase :: "string \<Rightarrow> string list" where
  "cleanBase p = rev (foldl (cleanStep (prefix [slash] p)) [] (splitOn slash p))"

lemma joinPath_below:
  assumes "p \<noteq> []" and e: "properElem e"
  shows "joinPath [p, e] = (if prefix [slash] p then [slash] else []) @ joinWith [slash] (cleanBase p @ [e])"
proof -
  let ?r = "prefix [slash] p" and ?xs = "foldl (cleanStep (prefix [slash] p)) [] (splitOn slash p)"
  have "prefix [slash] (p @ slash # e) = ?r" using assms(1) by (cases p) auto
  moreover have "splitOn slash e = [e]" using e by (intro splitOn_sep_free) auto
  moreover have "cleanStep ?r ?xs e = e # ?xs" using e by (simp add: properElem_def)
  ultimately have "cleanElems (p @ slash # e) = rev ?xs @ [e]"
    unfolding cleanElems_def by (simp add: splitOn_append del: cleanStep.simps)
  moreover have "joinWith [slash] (rev ?xs @ [e]) \<noteq> []"
    using e joinWith_append [of "rev ?xs" "[e]" "[slash]"] by (cases "rev ?xs = []") auto
  ultimately show ?thesis using assms(1) e \<open>prefix [slash] (p @ slash # e) = ?r\<close>
    by (auto simp: joinPath_def cleanPath_def Let_def cleanBase_def)
qed

lemma joinPath_below_inj:
  assumes "p \<noteq> []" and "properElem a" and "properElem b" and "joinPath [p, a] = joinPath [p, b]"
  shows "a = b"
  using assms(4) joinWith_snoc_inj unfolding joinPath_below [OF assms(1,2)] joinPath_below [OF assms(1,3)] by simp

lemma join_vfs_uuid: "joinPath [''/vfs'', uuidString i] = ''/vfs/'' @ uuidString i"
proof -
  have "cleanBase ''/vfs'' = [''vfs'']" by (simp add: cleanBase_def)
  then show ?thesis using joinPath_below [of "''/vfs''", OF _ uuidString_elem] by simp
qed

end
