(* ===== verification/Drives_Theorems.thy ===== *)
theory Drives_Theorems
  imports Drives_Inv Store_Paths
begin

text \<open>
  The properties of the drive manager, for all drivers that keep the contract \<open>drive_world\<close>, and
  a run on a world whose handles are numbers.
\<close>

section \<open>A world of numbered handles\<close>

definition freshHandle :: "nat list \<Rightarrow> nat" where
  "freshHandle os = Suc (foldr max os 0)"

lemma freshHandle: "freshHandle os \<notin> set os"
proof -
  have "x \<le> foldr max os 0" if "x \<in> set os" for x using that by (induction os) auto
  then show ?thesis by (force simp: freshHandle_def)
qed

definition num_env :: "(nat, nat list) drv_env" where
  "num_env = \<lparr>dvBadger = (\<lambda>cfg os. (Inr (freshHandle os), freshHandle os # os)),
     dvLocal = (\<lambda>cfg os. (Inr (freshHandle os), freshHandle os # os)),
     dvClose = (\<lambda>v os. (None, removeAll v os)),
     dvTree = (\<lambda>v p os. Inr (TreeNode (vmeta0\<lparr>mPath := Root, mIsDir := True\<rparr>)
        [TreeNode (vmeta0\<lparr>mPath := ''/a'', mSize := 3\<rparr>) []]))\<rparr>"

interpretation numdrives: drive_world num_env set
  by unfold_locales (auto simp: num_env_def freshHandle)

definition run_config :: drv_config where
  "run_config = \<lparr>dcType = ''badger'', dcBadgerPath = ''/data'', dcBadgerKey = None, dcLocalPath = ''/data''\<rparr>"

text \<open>The system after one acquisition by user 7.\<close>

definition run_used :: "(nat, nat list) dsys" where
  "run_used = (case manager_Acquire num_env 5 7 (NewDriveManager run_config 60) [] of
     (r, m, w) \<Rightarrow> \<lparr>dsM = m, dsW = w, dsOwed = {#7#}, dsForced = False\<rparr>)"

lemma run_used_simps [simp]:
  "dmDrives (dsM run_used) = [7 \<mapsto> \<lparr>deDrive = 1, deLastUsed = 5, deUsers = 1, deCloseRequested = False\<rparr>]"
  "dsW run_used = [1]" "dsOwed run_used = {#7#}" "\<not> dsForced run_used" "\<not> dmClosed (dsM run_used)"
  "dmActive (dsM run_used) = 1" "dmIdleTimeout (dsM run_used) = 60"
  by (simp_all add: run_used_def manager_Acquire_def driveLocked_def drive_open_def drivers_New_def
      driveConfig_def run_config_def DriverTypeBadger_def NewDriveManager_def countUse_def setEntry_def
      num_env_def freshHandle_def Let_def)

lemma run_used_reach: "(dm_step num_env)\<^sup>*\<^sup>* (dm_start run_config 60 []) run_used"
proof -
  obtain r m w where a: "manager_Acquire num_env 5 7 (NewDriveManager run_config 60) [] = (r, m, w)"
    by (metis prod_cases3)
  have "r = Inr 1" using a
    by (simp add: manager_Acquire_def driveLocked_def drive_open_def drivers_New_def
      driveConfig_def run_config_def DriverTypeBadger_def NewDriveManager_def num_env_def freshHandle_def)
  then have "dm_step num_env (dm_start run_config 60 []) run_used"
    using step_acquire [of num_env 5 7 "dm_start run_config 60 []" r m w] a
    by (simp add: dm_start_def run_used_def)
  then show ?thesis by blast
qed

section \<open>Consistency\<close>

text \<open>
  C22. In every reachable state the counters are exact (the active uses are the releases still
  owed, the channel \<open>drained\<close> is closed exactly when there are none, an entry's users are its
  owed releases, a close is pending only while the drive is used), the open handles are exactly
  those of the entries, and no two users share a handle.
\<close>

theorem manager_consistent:
  assumes "drive_world E live" and "(dm_step E)\<^sup>*\<^sup>* (dm_start cfg idle w) s" and "live w = {}"
  shows "dmActive (dsM s) = int (size (dsOwed s)) \<and> (dmDrained (dsM s) \<longleftrightarrow> dsOwed s = {#})
    \<and> (\<forall>u e. dmDrives (dsM s) u = Some e \<longrightarrow> deUsers e = int (count (dsOwed s) u)
         \<and> (deCloseRequested e \<longrightarrow> u \<in># dsOwed s))
    \<and> live (dsW s) = ran (handleOf (dsM s))
    \<and> (\<forall>u v d e. dmDrives (dsM s) u = Some d \<and> dmDrives (dsM s) v = Some e \<and> u \<noteq> v
         \<longrightarrow> deDrive d \<noteq> deDrive e)"
proof -
  have ok: "dm_ok live (dsM s) (dsW s) (dsOwed s) (dsForced s)" by (rule drive_world.dm_reach_ok [OF assms])
  then have inj: "inj_on (handleOf (dsM s)) (dom (handleOf (dsM s)))" by (simp add: dm_ok_def handles_ok_def)
  have "u = v" if "dmDrives (dsM s) u = Some d" "dmDrives (dsM s) v = Some e" "deDrive d = deDrive e" for u v d e
    by (rule inj_onD [OF inj]) (use that handleOf_entry in \<open>auto simp: handleOf_def\<close>)
  with ok show ?thesis unfolding dm_ok_def handles_ok_def counters_ok_def by metis
qed

theorem manager_consistent_witness:
  "dmActive (dsM run_used) = 1 \<and> {1} = ran (handleOf (dsM run_used))"
  using manager_consistent [OF numdrives.drive_world_axioms run_used_reach] by simp

text \<open>
  C23. While a release is owed for a user, that user's drive is in the manager and its handle is
  open, whatever idle collection, closing on request or statistics happen; only a shutdown that
  ran out of time may close it.
\<close>

theorem used_drive_stays_open:
  assumes "drive_world E live" and "(dm_step E)\<^sup>*\<^sup>* (dm_start cfg idle w) s" and "live w = {}"
    and "u \<in># dsOwed s" and "\<not> dsForced s"
  shows "\<exists>e. dmDrives (dsM s) u = Some e \<and> 0 < deUsers e \<and> deDrive e \<in> live (dsW s)"
proof -
  have ok: "dm_ok live (dsM s) (dsW s) (dsOwed s) (dsForced s)" by (rule drive_world.dm_reach_ok [OF assms(1-3)])
  then obtain e where e: "dmDrives (dsM s) u = Some e" using assms(4,5) by (auto simp: dm_ok_def)
  moreover have "0 < deUsers e" using ok e assms(4) by (auto simp: dm_ok_def counters_ok_def)
  moreover have "deDrive e \<in> live (dsW s)" using ok handleOf_entry [OF e] by (auto simp: dm_ok_def handles_ok_def intro: ranI)
  ultimately show ?thesis by blast
qed

theorem used_drive_stays_open_witness:
  "\<exists>e. dmDrives (dsM run_used) 7 = Some e \<and> 0 < deUsers e \<and> deDrive e \<in> set (dsW run_used)"
  by (rule used_drive_stays_open [OF numdrives.drive_world_axioms run_used_reach]) simp_all

text \<open>
  A drive whose closing was requested is closed by the release of its last user, and by no
  earlier one.
\<close>

theorem last_release_closes:
  assumes "drive_world E live" and "(dm_step E)\<^sup>*\<^sup>* (dm_start cfg idle w) s" and "live w = {}"
    and "dmDrives (dsM s) u = Some e" and "deCloseRequested e"
    and "manager_release E now u (dsM s) (dsW s) = (m', w')"
  shows "if count (dsOwed s) u = 1 then dmDrives m' u = None \<and> deDrive e \<notin> live w'
    else (\<exists>d. dmDrives m' u = Some d \<and> deDrive d = deDrive e \<and> deCloseRequested d) \<and> deDrive e \<in> live w'"
proof -
  have ok: "dm_ok live (dsM s) (dsW s) (dsOwed s) (dsForced s)" by (rule drive_world.dm_reach_ok [OF assms(1-3)])
  then have us: "deUsers e = int (count (dsOwed s) u)" using assms(4) by (auto simp: dm_ok_def counters_ok_def)
  have l: "deDrive e \<in> live (dsW s)"
    using ok handleOf_entry [OF assms(4)] by (auto simp: dm_ok_def handles_ok_def intro: ranI)
  let ?e = "e\<lparr>deUsers := deUsers e - 1, deLastUsed := now\<rparr>"
  have r: "manager_release E now u (dsM s) (dsW s) =
      (if count (dsOwed s) u = 1
       then (countRelease (removeEntry u (setEntry u ?e (dsM s))), snd (dvClose E (deDrive e) (dsW s)))
       else (countRelease (setEntry u ?e (dsM s)), dsW s))"
    using assms(4,5) us by (simp add: manager_release_def Let_def)
  show ?thesis
  proof (cases "count (dsOwed s) u = 1")
    case True
    then have "m' = countRelease (removeEntry u (setEntry u ?e (dsM s)))" "w' = snd (dvClose E (deDrive e) (dsW s))"
      using assms(6) r by simp_all
    then show ?thesis using True
      by (simp add: drive_world.countRelease_fields [OF assms(1)] drive_world.closes_snd [OF assms(1)])
  next
    case False
    then have "m' = countRelease (setEntry u ?e (dsM s))" "w' = dsW s" using assms(6) r by simp_all
    then show ?thesis using False l assms(5)
      by (simp add: drive_world.countRelease_fields [OF assms(1)])
  qed
qed

definition run_leaving :: "(nat, nat list) dsys" where
  "run_leaving = run_used\<lparr>dsM := fst (snd (manager_CloseDrive num_env 7 (dsM run_used) (dsW run_used)))\<rparr>"

lemma run_leaving_simps [simp]:
  "dmDrives (dsM run_leaving) = [7 \<mapsto> \<lparr>deDrive = 1, deLastUsed = 5, deUsers = 1, deCloseRequested = True\<rparr>]"
  "dsW run_leaving = [1]" "dsOwed run_leaving = {#7#}"
  by (simp_all add: run_leaving_def manager_CloseDrive_def)

lemma run_leaving_reach: "(dm_step num_env)\<^sup>*\<^sup>* (dm_start run_config 60 []) run_leaving"
proof -
  obtain r m w where a: "manager_CloseDrive num_env 7 (dsM run_used) (dsW run_used) = (r, m, w)" by (metis prod_cases3)
  moreover from this have "w = dsW run_used" by (simp add: manager_CloseDrive_def)
  ultimately have "run_leaving = run_used\<lparr>dsM := m, dsW := w\<rparr>" by (simp add: run_leaving_def)
  then have "dm_step num_env run_used run_leaving" using step_close_drive [OF a] by simp
  with run_used_reach show ?thesis by (rule rtranclp.rtrancl_into_rtrancl)
qed

theorem last_release_closes_witness:
  "dmDrives (fst (manager_release num_env 9 7 (dsM run_leaving) (dsW run_leaving))) 7 = None"
proof -
  obtain m' w' where r: "manager_release num_env 9 7 (dsM run_leaving) (dsW run_leaving) = (m', w')" by fastforce
  show ?thesis
    using last_release_closes [OF numdrives.drive_world_axioms run_leaving_reach _ _ _ r,
        of "\<lparr>deDrive = 1, deLastUsed = 5, deUsers = 1, deCloseRequested = True\<rparr>"] r by simp
qed

section \<open>Closing\<close>

text \<open>
  C24. The end of a shutdown closes every handle; from its beginning on, every acquisition is
  refused without any effect.
\<close>

theorem shutdown_closes_all:
  assumes "drive_world E live" and "(dm_step E)\<^sup>*\<^sup>* (dm_start cfg idle w) s" and "live w = {}"
    and "set ids = dom (dmDrives (dsM s))"
    and "close_end E ids err (close_begin (dsM s)) (dsW s) = (e, m', w')"
  shows "live w' = {} \<and> dmDrives m' = Map.empty
    \<and> manager_Acquire E now u (close_begin (dsM s)) (dsW s) = (Inl ErrClosed, close_begin (dsM s), dsW s)
    \<and> manager_Acquire E now u m' w' = (Inl ErrClosed, m', w')"
proof -
  let ?m = "close_begin (dsM s)"
  have ok: "dm_ok live (dsM s) (dsW s) (dsOwed s) (dsForced s)" by (rule drive_world.dm_reach_ok [OF assms(1-3)])
  then have ok': "dm_ok live ?m (dsW s) (dsOwed s) (dsForced s)"
    by (auto simp: dm_ok_def counters_ok_def handles_ok_def handleOf_def close_begin_def)
  have c: "dmClosed ?m" "set ids = dom (dmDrives ?m)" using assms(4) by (simp_all add: close_begin_def)
  note e = drive_world.close_end_ok [OF assms(1) ok' assms(5) c(2,1)]
  have "handles_ok live ?m (dsW s)" using ok' by (simp add: dm_ok_def)
  from drive_world.close_end_map [OF assms(1) this assms(5)] have "dmClosed m'" using c(1) by blast
  with e c(1) show ?thesis by (simp add: manager_Acquire_def driveLocked_def)
qed

theorem shutdown_closes_all_witness:
  "snd (snd (close_end num_env [7] None (close_begin (dsM run_used)) (dsW run_used))) = []"
proof -
  obtain e m' w' where c: "close_end num_env [7] None (close_begin (dsM run_used)) (dsW run_used) = (e, m', w')"
    by (metis prod_cases3)
  show ?thesis
    using shutdown_closes_all [OF numdrives.drive_world_axioms run_used_reach _ _ c] c by simp
qed

lemma closeIdle_entries:
  "dmDrives (fst (closeIdle E now ids m w)) = map_without (\<lambda>u. u \<in> set ids \<and> (\<exists>e. dmDrives m u = Some e
     \<and> \<not> 0 < deUsers e \<and> \<not> now - deLastUsed e < dmIdleTimeout m)) (dmDrives m)"
  (is "_ = map_without (?P ids m) _")
proof (induction ids arbitrary: m w)
  case (Cons u ids)
  let ?d = "\<lambda>m. \<exists>e. dmDrives m u = Some e \<and> \<not> 0 < deUsers e \<and> \<not> now - deLastUsed e < dmIdleTimeout m"
  show ?case
  proof (cases "?d m")
    case True
    then obtain e where e: "dmDrives m u = Some e" "\<not> 0 < deUsers e" "\<not> now - deLastUsed e < dmIdleTimeout m" by blast
    then have "closeIdle E now (u # ids) m w = closeIdle E now ids (removeEntry u m) (snd (dvClose E (deDrive e) w))"
      by (simp add: closeIdle_def idleStep_def)
    then have i: "dmDrives (fst (closeIdle E now (u # ids) m w))
        = map_without (?P ids (removeEntry u m)) (dmDrives (removeEntry u m))" by (simp only: Cons.IH)
    show ?thesis unfolding i by (rule ext) (use e in auto)
  next
    case False
    then have "closeIdle E now (u # ids) m w = closeIdle E now ids m w"
      by (auto simp: closeIdle_def idleStep_def split: option.split)
    then have i: "dmDrives (fst (closeIdle E now (u # ids) m w)) = map_without (?P ids m) (dmDrives m)"
      by (simp only: Cons.IH)
    show ?thesis unfolding i by (rule ext) (use False in auto)
  qed
qed (simp add: closeIdle_def)

text \<open>
  Idle collection removes exactly the entries that nobody uses and that were last used at
  least the idle timeout ago, in whatever order the map is visited.
\<close>

theorem idle_collection_exact:
  assumes "set ids = dom (dmDrives m)"
  shows "dmDrives (fst (closeIdle E now ids m w)) u = (case dmDrives m u of None \<Rightarrow> None
    | Some e \<Rightarrow> if deUsers e \<le> 0 \<and> dmIdleTimeout m \<le> now - deLastUsed e then None else Some e)"
  unfolding closeIdle_entries using assms by (auto simp: not_less split: option.split)

theorem idle_collection_exact_witness:
  "dmDrives (fst (closeIdle num_env 1000 [7] (dsM run_used) (dsW run_used))) 7 \<noteq> None"
  by (subst idle_collection_exact) simp_all

section \<open>Isolation and statistics\<close>

text \<open>The drives of different users live under different storage paths.\<close>

theorem drive_paths_differ:
  assumes "dcType cfg = DriverTypeBadger \<or> dcType cfg = DriverTypeLocalStorage" and "u \<noteq> v"
    and "dcBadgerPath cfg \<noteq> []" and "dcLocalPath cfg \<noteq> []"
  shows "if dcType cfg = DriverTypeBadger
    then dcBadgerPath (driveConfig cfg u) \<noteq> dcBadgerPath (driveConfig cfg v)
    else dcLocalPath (driveConfig cfg u) \<noteq> dcLocalPath (driveConfig cfg v)"
proof -
  have "joinPath [p, uuidString u] \<noteq> joinPath [p, uuidString v]" if "p \<noteq> []" for p
    using joinPath_below_inj [OF that uuidString_elem uuidString_elem] uuidString_inj assms(2) by blast
  with assms show ?thesis by (auto simp: driveConfig_def)
qed

theorem drive_paths_differ_witness:
  "dcBadgerPath (driveConfig run_config 7) \<noteq> dcBadgerPath (driveConfig run_config 8)"
  using drive_paths_differ [of run_config 7 8] by (simp add: run_config_def DriverTypeBadger_def)

lemma total_loop:
  assumes "\<And>n. n \<in> set ns \<Longrightarrow> 0 \<le> mSize (nodeMeta n)"
    and "0 \<le> a" and "0 \<le> b"
    and "a + int (length ns) < 2 ^ 63" and "b + (\<Sum>n\<leftarrow>ns. mSize (nodeMeta n)) < 2 ^ 63"
  shows "snd (feed (\<lambda>node (items, size). (True, if mPath (nodeMeta node) = Root then (items, size)
      else (i64 (items + 1), i64 (size + mSize (nodeMeta node))))) ns (a, b))
    = (a + int (length (filter (\<lambda>n. mPath (nodeMeta n) \<noteq> Root) ns)),
       b + (\<Sum>n\<leftarrow>filter (\<lambda>n. mPath (nodeMeta n) \<noteq> Root) ns. mSize (nodeMeta n)))"
  using assms
proof (induction ns arbitrary: a b)
  case (Cons n ns)
  have s: "0 \<le> (\<Sum>n\<leftarrow>ns. mSize (nodeMeta n))" using Cons.prems(1) by (intro sum_list_nonneg) auto
  have n: "0 \<le> mSize (nodeMeta n)" using Cons.prems(1) by simp
  show ?case
  proof (cases "mPath (nodeMeta n) = Root")
    case True
    have "a + int (length ns) < 2 ^ 63" "b + (\<Sum>n\<leftarrow>ns. mSize (nodeMeta n)) < 2 ^ 63"
      using Cons.prems(4,5) n by simp_all
    with True Cons.IH [of a b] Cons.prems(1-3) show ?thesis by simp
  next
    case False
    have "i64 (a + 1) = a + 1" "i64 (b + mSize (nodeMeta n)) = b + mSize (nodeMeta n)"
    proof -
      have "0 \<le> b + mSize (nodeMeta n)" "b + mSize (nodeMeta n) < 2 ^ 63"
        using Cons.prems(3,5) s n by simp_all
      then show "i64 (b + mSize (nodeMeta n)) = b + mSize (nodeMeta n)" by (intro i64_id) (simp add: int64_range_def)
      show "i64 (a + 1) = a + 1" using Cons.prems(2,4) by (intro i64_id) (simp add: int64_range_def)
    qed
    with False Cons.IH [of "a + 1" "b + mSize (nodeMeta n)"] Cons.prems n show ?thesis by simp
  qed
qed simp

text \<open>
  The statistics of a tree are the number and the total size of its nodes other than the
  root, as long as they fit 64 bits.
\<close>

theorem tree_total_sums:
  assumes "\<forall>n \<in> set (preorder tree). 0 \<le> mSize (nodeMeta n)"
    and "int (length (preorder tree)) < 2 ^ 63" and "(\<Sum>n\<leftarrow>preorder tree. mSize (nodeMeta n)) < 2 ^ 63"
  shows "treeTotal tree = (int (length (filter (\<lambda>n. mPath (nodeMeta n) \<noteq> Root) (preorder tree))),
    \<Sum>n\<leftarrow>filter (\<lambda>n. mPath (nodeMeta n) \<noteq> Root) (preorder tree). mSize (nodeMeta n))"
  using total_loop [of "preorder tree" 0 0] assms by (simp add: treeTotal_def Walk_preorder)

theorem tree_total_sums_witness:
  "treeTotal (TreeNode (vmeta0\<lparr>mPath := Root, mIsDir := True\<rparr>)
     [TreeNode (vmeta0\<lparr>mPath := ''/a'', mSize := 3\<rparr>) [], TreeNode (vmeta0\<lparr>mPath := ''/b'', mSize := 4\<rparr>) []]) = (2, 7)"
  by (subst tree_total_sums) (simp_all add: vmeta0_def Root_def)

end
