(* ===== verification/Sse_Message.thy ===== *)
theory Sse_Message
  imports Formats Vfs
begin

text \<open>
  Server-sent events on the wire: the messages and their writer (\<open>internal/types/sse.go\<close>), the
  stream of the server's handler (\<open>internal/server/handlers/sse.go\<close>) and the client's parser
  (\<open>internal/client/sse.go\<close>). JSON, \<open>uuid.Parse\<close> and the layout of RFC 3339 times are fields of
  the record of external operations; writers are arguments.
\<close>

section \<open>Messages\<close>

definition SSEEventHeartbeat :: string where "SSEEventHeartbeat = ''heartbeat''"
definition SSEEventSubscribe :: string where "SSEEventSubscribe = ''subscribe''"
definition SSEEventUnsubscribe :: string where "SSEEventUnsubscribe = ''unsubscribe''"
definition SSEEventPublish :: string where "SSEEventPublish = ''publish''"
definition SSEEventError :: string where "SSEEventError = ''error''"

record sse_meta =
  smOldPath :: string
  smID :: uuid
  smPath :: string
  smAction :: string

definition sse_meta0 :: sse_meta where
  "sse_meta0 = \<lparr>smOldPath = [], smID = nilUUID, smPath = [], smAction = []\<rparr>"

definition SSEMeta_Zero :: "sse_meta \<Rightarrow> bool" where
  "SSEMeta_Zero m \<longleftrightarrow> smID m = nilUUID \<and> smPath m = [] \<and> smAction m = []"

record sse_data =
  sdTimestamp :: int
  sdStatus :: bool
  sdMessage :: string
  sdMeta :: sse_meta

definition sse_data0 :: sse_data where
  "sse_data0 = \<lparr>sdTimestamp = 0, sdStatus = False, sdMessage = [], sdMeta = sse_meta0\<rparr>"

text \<open>\<open>smgRetry\<close> is a \<open>time.Duration\<close>, in nanoseconds.\<close>

record sse_msg =
  smgID :: uuid
  smgEvent :: string
  smgData :: sse_data
  smgRetry :: int

definition sse_msg0 :: sse_msg where
  "sse_msg0 = \<lparr>smgID = nilUUID, smgEvent = [], smgData = sse_data0, smgRetry = 0\<rparr>"

text \<open>The values the source hands to \<open>json.Marshal\<close> as the members of an object.\<close>

datatype json_value = JString string | JBool bool | JInt int | JMeta sse_meta | JData sse_data

record sse_env =
  seMarshal :: "sse_data \<Rightarrow> err + bytes"
  seMarshalObject :: "(string \<times> json_value) list \<Rightarrow> err + bytes"
  seUnmarshal :: "bytes \<Rightarrow> err + sse_data"
  seParseID :: "string \<Rightarrow> err + uuid"
  seRFC3339 :: "int \<Rightarrow> string"

definition SSEData_MarshalJSON :: "sse_env \<Rightarrow> sse_data \<Rightarrow> err + bytes" where
  "SSEData_MarshalJSON E d =
     (if SSEMeta_Zero (sdMeta d)
      then seMarshalObject E [(''timestamp'', JString (seRFC3339 E (sdTimestamp d))),
             (''status'', JBool (sdStatus d)), (''message'', JString (sdMessage d))]
      else seMarshalObject E [(''timestamp'', JString (seRFC3339 E (sdTimestamp d))),
             (''status'', JBool (sdStatus d)), (''message'', JString (sdMessage d)),
             (''meta'', JMeta (sdMeta d))])"

text \<open>Go's integer division rounds toward zero.\<close>

definition durationIn :: "int \<Rightarrow> int \<Rightarrow> int" where
  "durationIn unit d = sgn d * (\<bar>d\<bar> div unit)"

definition SSEMessage_MarshalJSON :: "sse_env \<Rightarrow> sse_msg \<Rightarrow> err + bytes" where
  "SSEMessage_MarshalJSON E msg = seMarshalObject E
     [(''id'', JString (uuidString (smgID msg))), (''event'', JString (smgEvent msg)),
      (''data'', JData (smgData msg)), (''retry'', JInt (durationIn 1000000 (smgRetry msg)))]"

section \<open>Writing\<close>

text \<open>
  A writer takes bytes and returns the number it accepted and an error. \<open>thenW\<close> is the source's
  sequence \<open>n, err = ...; total += n; if err != nil { return total, err }\<close>.
\<close>

type_synonym 'w writer = "bytes \<Rightarrow> 'w \<Rightarrow> (int \<times> err option) \<times> 'w"

definition thenW :: "(int \<times> err option) \<times> 'w \<Rightarrow> ('w \<Rightarrow> (int \<times> err option) \<times> 'w)
    \<Rightarrow> (int \<times> err option) \<times> 'w" where
  "thenW r f =
     (case r of ((n, e), w) \<Rightarrow>
      (case e of
         Some e \<Rightarrow> ((n, Some e), w)
       | None \<Rightarrow> (case f w of ((m, e), w) \<Rightarrow> ((i64 (n + m), e), w))))"

definition writeTo :: "'w writer \<Rightarrow> string \<Rightarrow> bytes \<Rightarrow> 'w \<Rightarrow> (int \<times> err option) \<times> 'w" where
  "writeTo wr k v w = thenW (wr (k @ '':'') w) (\<lambda>w. thenW (wr v w) (wr [CHR 10]))"

definition SSEMessage_WriteTo :: "sse_env \<Rightarrow> 'w writer \<Rightarrow> sse_msg \<Rightarrow> 'w
    \<Rightarrow> (int \<times> err option) \<times> 'w" where
  "SSEMessage_WriteTo E wr msg w =
     thenW (if smgID msg \<noteq> nilUUID then writeTo wr ''id'' (uuidString (smgID msg)) w
            else ((0, None), w)) (\<lambda>w.
     thenW (if smgEvent msg \<noteq> [] then writeTo wr ''event'' (smgEvent msg) w
            else ((0, None), w)) (\<lambda>w.
     case seMarshal E (smgData msg) of
       Inl e \<Rightarrow> ((0, Some e), w)
     | Inr jsonData \<Rightarrow>
         thenW (writeTo wr ''data'' jsonData w) (\<lambda>w.
         thenW (if 0 < smgRetry msg
                then writeTo wr ''retry'' (formatUint (nat (durationIn 1000 (smgRetry msg)))) w
                else ((0, None), w))
           (wr [CHR 10, CHR 10]))))"

text \<open>
  The handler's stream: every message received from the client's channel is written and flushed;
  the stream ends when the channel is closed or a write fails.
\<close>

fun sseStream :: "sse_env \<Rightarrow> 'w writer \<Rightarrow> ('w \<Rightarrow> err option \<times> 'w) \<Rightarrow> sse_msg list \<Rightarrow> 'w
    \<Rightarrow> err option \<times> 'w" where
  "sseStream E wr flush [] w = (None, w)"
| "sseStream E wr flush (m # ms) w =
     (case SSEMessage_WriteTo E wr m w of ((n, e), w) \<Rightarrow>
      (case e of
         Some e \<Rightarrow> (Some e, w)
       | None \<Rightarrow>
           (case flush w of (e, w) \<Rightarrow>
            (case e of Some e \<Rightarrow> (Some e, w) | None \<Rightarrow> sseStream E wr flush ms w))))"

section \<open>Reading\<close>

text \<open>\<open>bufio.Reader.ReadString('\n')\<close> on a stream that ends with the error \<open>e\<close>.\<close>

definition readString :: "err \<Rightarrow> bytes \<Rightarrow> (err + string) \<times> bytes" where
  "readString e inp =
     (if CHR 10 \<in> set inp
      then (Inr (takeWhile (\<lambda>c. c \<noteq> CHR 10) inp @ [CHR 10]), tl (dropWhile (\<lambda>c. c \<noteq> CHR 10) inp))
      else (Inl e, []))"

text \<open>\<open>strings.Cut\<close>; \<open>None\<close> when the separator is not found.\<close>

definition strCut :: "char \<Rightarrow> string \<Rightarrow> (string \<times> string) option" where
  "strCut c s = (if c \<in> set s then Some (takeWhile (\<lambda>x. x \<noteq> c) s, tl (dropWhile (\<lambda>x. x \<noteq> c) s)) else None)"

text \<open>The effect of one line that is not empty on the message and the data read so far.\<close>

definition sseField :: "sse_env \<Rightarrow> string \<Rightarrow> sse_msg \<times> string \<Rightarrow> err + sse_msg \<times> string" where
  "sseField E line st =
     (case st of (message, data) \<Rightarrow>
      (case strCut (CHR '':'') line of
        None \<Rightarrow> Inr (message, data)
      | Some (field, value) \<Rightarrow>
          let value = trimPrefix value [CHR 32] in
          if field = ''id'' then bindE (seParseID E value) (\<lambda>i. Inr (message\<lparr>smgID := i\<rparr>, data))
          else if field = ''event'' then Inr (message\<lparr>smgEvent := value\<rparr>, data)
          else if field = ''data'' then Inr (message, (if data \<noteq> [] then data @ [CHR 10] else data) @ value)
          else Inr (message, data)))"

function sseLines :: "sse_env \<Rightarrow> err \<Rightarrow> sse_msg \<times> string \<Rightarrow> bytes \<Rightarrow> (err + sse_msg) \<times> bytes" where
  "sseLines E e st inp =
     (case readString e inp of
        (Inl e', inp') \<Rightarrow> (Inl e', inp')
      | (Inr line, inp') \<Rightarrow>
          let line = trimSuffix (trimSuffix line [CHR 10]) [CHR 13] in
          if line = [] then
            (if snd st = [] then sseLines E e st inp'
             else (bindE (seUnmarshal E (snd st)) (\<lambda>d. Inr ((fst st)\<lparr>smgData := d\<rparr>)), inp'))
          else
            (case sseField E line st of
               Inl e' \<Rightarrow> (Inl e', inp')
             | Inr st' \<Rightarrow> sseLines E e st' inp'))"
  by pat_completeness auto

lemma readString_shorter: "(Inr line, inp') = readString e inp \<Longrightarrow> length inp' < length inp"
proof -
  assume r: "(Inr line, inp') = readString e inp"
  then have c: "CHR 10 \<in> set inp" and i: "inp' = tl (dropWhile (\<lambda>c. c \<noteq> CHR 10) inp)"
    by (auto simp: readString_def split: if_splits)
  from c have "dropWhile (\<lambda>c. c \<noteq> CHR 10) inp \<noteq> []" by (auto simp: dropWhile_eq_Nil_conv)
  moreover have "length (dropWhile (\<lambda>c. c \<noteq> CHR 10) inp) \<le> length inp" by (rule length_dropWhile_le)
  ultimately show ?thesis unfolding i by (cases "dropWhile (\<lambda>c. c \<noteq> CHR 10) inp") auto
qed

termination sseLines
  by (relation "measure (\<lambda>(E, e, st, inp). length inp)") (auto dest: readString_shorter)

declare sseLines.simps [simp del]

definition readSSEMessage :: "sse_env \<Rightarrow> err \<Rightarrow> bytes \<Rightarrow> (err + sse_msg) \<times> bytes" where
  "readSSEMessage E e inp = sseLines E e (sse_msg0, []) inp"

lemma sseLines_shorter: "sseLines E e st inp = (Inr m, inp') \<Longrightarrow> length inp' < length inp"
proof (induction E e st inp rule: sseLines.induct)
  case (1 E e st inp)
  show ?case
  proof (cases "fst (readString e inp)")
    case (Inr line)
    then have r: "readString e inp = (Inr line, snd (readString e inp))" by (metis prod.collapse)
    have l: "length (snd (readString e inp)) < length inp"
      using readString_shorter [OF r [symmetric]] .
    show ?thesis
      using "1.prems" "1.IH" [OF r [symmetric] refl refl] l
      by (subst (asm) sseLines.simps, subst (asm) r)
        (auto simp: Let_def split: if_splits sum.splits dest: less_trans)
  qed (use "1.prems" in \<open>subst (asm) sseLines.simps, auto split: prod.splits sum.splits\<close>)
qed

lemma readSSEMessage_shorter: "(Inr m, inp') = readSSEMessage E e inp \<Longrightarrow> length inp' < length inp"
  unfolding readSSEMessage_def by (rule sseLines_shorter) (rule sym)

text \<open>
  \<open>SubscribeEvents\<close>: the first message must be the subscription; the messages after it are handed
  out until reading fails, and the end of the stream is not reported as an error.
\<close>

function sseEvents :: "sse_env \<Rightarrow> err \<Rightarrow> bytes \<Rightarrow> sse_msg list \<times> err option" where
  "sseEvents E e inp =
     (case readSSEMessage E e inp of
        (Inl e', inp') \<Rightarrow> ([], if errorsIs e' ErrEOF then None else Some e')
      | (Inr m, inp') \<Rightarrow>
          (case sseEvents E e inp' of (ms, e') \<Rightarrow> (m # ms, e')))"
  by pat_completeness auto

termination sseEvents
  by (relation "measure (\<lambda>(E, e, inp). length inp)") (simp_all add: readSSEMessage_shorter)

declare sseEvents.simps [simp del]

definition SubscribeEvents :: "sse_env \<Rightarrow> err \<Rightarrow> bytes \<Rightarrow> err + uuid \<times> sse_msg list \<times> err option" where
  "SubscribeEvents E e inp =
     (case readSSEMessage E e inp of
        (Inl e', inp') \<Rightarrow> Inl (ErrWrapped ''read subscribe event'' e')
      | (Inr first, inp') \<Rightarrow>
          if smgEvent first \<noteq> SSEEventSubscribe \<or> smgID first = nilUUID
          then Inl (ErrOther ''invalid subscribe event'')
          else Inr (smgID first, sseEvents E e inp'))"

end
