(* ===== verification/Sse.thy ===== *)
theory Sse
  imports Sse_Message
begin

text \<open>
  The event broker (\<open>internal/server/services/sse.go\<close>): subscribers with a buffered channel
  each, the channels into the broker, and the branches of the loop \<open>listen\<close>. The channels of the
  subscribers live in a heap indexed by the client's identifier, because the broker and the
  subscriber share them. Sending on or closing a closed channel panics; sending on a full channel
  blocks, unless it is done in a \<open>select\<close> with a default.
\<close>

section \<open>State\<close>

definition defaultBufferSize :: nat where "defaultBufferSize = 100"

record client_info =
  ciID :: uuid
  ciCreatedAt :: int
  ciAddr :: string
  ciUser :: string

record sse_client =
  clInfo :: client_info
  clInitial :: sse_msg

record sse_chan =
  chBuf :: "sse_msg list"
  chClosed :: bool

record publication =
  pubUser :: string
  pubMsg :: sse_msg

record broker =
  bkNew :: "sse_client list"
  bkClosing :: "uuid list"
  bkMessage :: "publication list"
  bkClients :: "uuid \<rightharpoonup> sse_client"
  bkChans :: "uuid \<rightharpoonup> sse_chan"
  bkReady :: "uuid list"
  bkDone :: bool
  bkRunning :: bool
  bkListening :: bool

definition NewSSEBroker :: broker where
  "NewSSEBroker = \<lparr>bkNew = [], bkClosing = [], bkMessage = [], bkClients = Map.empty,
     bkChans = Map.empty, bkReady = [], bkDone = False, bkRunning = True, bkListening = True\<rparr>"

section \<open>Channels\<close>

datatype 'a outcome = Proceeds 'a | Blocks | Panics

fun thenO :: "'a outcome \<Rightarrow> ('a \<Rightarrow> 'b outcome) \<Rightarrow> 'b outcome" where
  "thenO (Proceeds x) f = f x"
| "thenO Blocks f = Blocks"
| "thenO Panics f = Panics"

text \<open>\<open>c.ch <- m\<close>, the same in a \<open>select\<close> with an empty default, and \<open>close(c.ch)\<close>.\<close>

definition chanSend :: "uuid \<Rightarrow> sse_msg \<Rightarrow> broker \<Rightarrow> broker outcome" where
  "chanSend i m b =
     (case bkChans b i of
        None \<Rightarrow> Blocks
      | Some c \<Rightarrow>
          if chClosed c then Panics
          else if length (chBuf c) < defaultBufferSize
          then Proceeds (b\<lparr>bkChans := (bkChans b)(i \<mapsto> c\<lparr>chBuf := chBuf c @ [m]\<rparr>)\<rparr>)
          else Blocks)"

definition chanTrySend :: "uuid \<Rightarrow> sse_msg \<Rightarrow> broker \<Rightarrow> broker outcome" where
  "chanTrySend i m b = (case chanSend i m b of Blocks \<Rightarrow> Proceeds b | r \<Rightarrow> r)"

definition chanClose :: "uuid \<Rightarrow> broker \<Rightarrow> broker outcome" where
  "chanClose i b =
     (case bkChans b i of
        None \<Rightarrow> Panics
      | Some c \<Rightarrow>
          if chClosed c then Panics
          else Proceeds (b\<lparr>bkChans := (bkChans b)(i \<mapsto> c\<lparr>chClosed := True\<rparr>)\<rparr>))"

section \<open>Calls\<close>

text \<open>The client \<open>Subscribe\<close> makes, its channel, and the send that hands it to the broker.\<close>

definition newClient :: "uuid \<Rightarrow> int \<Rightarrow> string \<Rightarrow> string \<Rightarrow> sse_client" where
  "newClient i now addr user =
     \<lparr>clInfo = \<lparr>ciID = i, ciCreatedAt = now, ciAddr = addr, ciUser = user\<rparr>,
      clInitial = \<lparr>smgID = i, smgEvent = SSEEventSubscribe,
        smgData = sse_data0\<lparr>sdTimestamp := now, sdStatus := True, sdMessage := ''Subscribed successfully''\<rparr>,
        smgRetry = 0\<rparr>\<rparr>"

definition subscribe_send :: "uuid \<Rightarrow> int \<Rightarrow> string \<Rightarrow> string \<Rightarrow> broker \<Rightarrow> broker" where
  "subscribe_send i now addr user b =
     b\<lparr>bkChans := (bkChans b)(i \<mapsto> \<lparr>chBuf = [], chClosed = False\<rparr>),
       bkNew := bkNew b @ [newClient i now addr user]\<rparr>"

text \<open>
  \<open>Subscribe\<close> as its caller sees it: refused when the broker does not run; then the client is
  handed over unless the context ends first, and so is the wait for the broker to take it.
\<close>

definition sse_Subscribe :: "bool \<Rightarrow> bool \<Rightarrow> uuid \<Rightarrow> broker \<Rightarrow> err + uuid" where
  "sse_Subscribe sent gotReady i b =
     (if \<not> bkRunning b then Inl (ErrOther ''SSE broker is not running'')
      else if \<not> sent \<or> \<not> gotReady then Inl (ErrOther ''SSE broker is shutting down'')
      else Inr i)"

text \<open>
  The other calls in the same way: first whether the broker runs, then the send. Between the two
  the broker may have been shut down; the sends alone are steps of the transition system.
\<close>

definition closing_send :: "uuid \<Rightarrow> broker \<Rightarrow> broker" where
  "closing_send i b = b\<lparr>bkClosing := bkClosing b @ [i]\<rparr>"

definition sse_Unsubscribe :: "uuid \<Rightarrow> broker \<Rightarrow> broker" where
  "sse_Unsubscribe i b = (if \<not> bkRunning b then b else closing_send i b)"

definition message_send :: "string \<Rightarrow> sse_msg \<Rightarrow> broker \<Rightarrow> broker" where
  "message_send user m b = b\<lparr>bkMessage := bkMessage b @ [\<lparr>pubUser = user, pubMsg = m\<rparr>]\<rparr>"

definition sse_publish :: "string \<Rightarrow> sse_msg \<Rightarrow> broker \<Rightarrow> broker" where
  "sse_publish user m b = (if \<not> bkRunning b then b else message_send user m b)"

definition sse_Hearbeat :: "string \<Rightarrow> uuid \<Rightarrow> int \<Rightarrow> broker \<Rightarrow> broker" where
  "sse_Hearbeat user i now = sse_publish user
     \<lparr>smgID = i, smgEvent = SSEEventHeartbeat, smgData = sse_data0\<lparr>sdTimestamp := now, sdStatus := True\<rparr>,
      smgRetry = 0\<rparr>"

definition sse_Publish :: "string \<Rightarrow> uuid \<Rightarrow> sse_data \<Rightarrow> int \<Rightarrow> broker \<Rightarrow> broker" where
  "sse_Publish user i data retry = sse_publish user
     \<lparr>smgID = i, smgEvent = SSEEventPublish, smgData = data, smgRetry = retry\<rparr>"

definition sse_Broadcast :: "string \<Rightarrow> sse_data \<Rightarrow> int \<Rightarrow> broker \<Rightarrow> broker" where
  "sse_Broadcast user data retry = sse_Publish user nilUUID data retry"

definition sse_Error :: "string \<Rightarrow> uuid \<Rightarrow> sse_data \<Rightarrow> int \<Rightarrow> broker \<Rightarrow> broker" where
  "sse_Error user i data retry = sse_publish user
     \<lparr>smgID = i, smgEvent = SSEEventError, smgData = data, smgRetry = retry\<rparr>"

definition sse_Shutdown :: "broker \<Rightarrow> broker" where
  "sse_Shutdown b = b\<lparr>bkRunning := False, bkDone := True\<rparr>"

text \<open>A range over the map of clients visits its keys in some order, the list \<open>ids\<close>.\<close>

definition userClients :: "uuid list \<Rightarrow> string \<Rightarrow> broker \<Rightarrow> client_info list" where
  "userClients ids user b =
     concat (map (\<lambda>i. case bkClients b i of
        None \<Rightarrow> [] | Some c \<Rightarrow> if ciUser (clInfo c) = user then [clInfo c] else []) ids)"

definition countUserClients :: "uuid list \<Rightarrow> string \<Rightarrow> broker \<Rightarrow> int" where
  "countUserClients ids user b =
     foldl (\<lambda>n i. case bkClients b i of
        None \<Rightarrow> n | Some c \<Rightarrow> if ciUser (clInfo c) = user then i64 (n + 1) else n) 0 ids"

definition sse_Clients :: "bool \<Rightarrow> uuid list \<Rightarrow> string \<Rightarrow> broker \<Rightarrow> client_info list" where
  "sse_Clients taken ids user b = (if \<not> bkRunning b \<or> \<not> taken then [] else userClients ids user b)"

definition sse_ClientCount :: "bool \<Rightarrow> uuid list \<Rightarrow> string \<Rightarrow> broker \<Rightarrow> int" where
  "sse_ClientCount taken ids user b = (if \<not> bkRunning b \<or> \<not> taken then 0 else countUserClients ids user b)"

text \<open>
  The same two calls step by step. A caller offers its request together with an unbuffered channel
  for the answer; both it and the end of the broker's context can end the offer. Once the loop has
  taken the request, the caller goes on to receive the answer and does nothing else.
\<close>

datatype lookup = CountFor string | ListFor string
datatype answer = CountIs int | ListIs "client_info list"
datatype lookup_call = Offers lookup | Taken lookup | Awaits lookup | Answered lookup answer

definition noAnswer :: "lookup \<Rightarrow> answer" where
  "noAnswer q = (case q of CountFor user \<Rightarrow> CountIs 0 | ListFor user \<Rightarrow> ListIs [])"

definition callLookup :: "lookup \<Rightarrow> broker \<Rightarrow> lookup_call" where
  "callLookup q b = (if \<not> bkRunning b then Answered q (noAnswer q) else Offers q)"

definition callerStep :: "bool \<Rightarrow> lookup_call \<Rightarrow> lookup_call option" where
  "callerStep stopped c = (case c of
     Offers q \<Rightarrow> if stopped then Some (Answered q (noAnswer q)) else None
   | Taken q \<Rightarrow> Some (Awaits q)
   | Awaits q \<Rightarrow> None
   | Answered q a \<Rightarrow> None)"

section \<open>The loop\<close>

text \<open>
  The branches for the two requests compute the answer and send it. The send into the unbuffered
  channel proceeds only with a caller that is receiving.
\<close>

definition listen_lookup :: "uuid list \<Rightarrow> lookup \<Rightarrow> broker \<Rightarrow> answer" where
  "listen_lookup ids q b = (case q of
     CountFor user \<Rightarrow> CountIs (countUserClients ids user b)
   | ListFor user \<Rightarrow> ListIs (userClients ids user b))"

definition sendReply :: "answer \<Rightarrow> lookup_call \<Rightarrow> lookup_call outcome" where
  "sendReply a c = (case c of Awaits q \<Rightarrow> Proceeds (Answered q a) | _ \<Rightarrow> Blocks)"

definition listen_new :: "sse_client \<Rightarrow> broker \<Rightarrow> broker outcome" where
  "listen_new c b =
     (let i = ciID (clInfo c) in
      thenO (chanSend i (clInitial c) (b\<lparr>bkClients := (bkClients b)(i \<mapsto> c)\<rparr>)) (\<lambda>b.
      if i \<in> set (bkReady b) then Panics else Proceeds (b\<lparr>bkReady := i # bkReady b\<rparr>)))"

definition listen_closing :: "uuid \<Rightarrow> broker \<Rightarrow> broker outcome" where
  "listen_closing i b =
     (case bkClients b i of
        None \<Rightarrow> Proceeds b
      | Some c \<Rightarrow> chanClose i (b\<lparr>bkClients := (bkClients b)(i := None)\<rparr>))"

definition broadcastStep :: "publication \<Rightarrow> uuid \<Rightarrow> broker \<Rightarrow> broker outcome" where
  "broadcastStep p i b =
     (case bkClients b i of
        None \<Rightarrow> Proceeds b
      | Some c \<Rightarrow> if ciUser (clInfo c) \<noteq> pubUser p then Proceeds b else chanTrySend i (pubMsg p) b)"

fun forO :: "('a \<Rightarrow> 's \<Rightarrow> 's outcome) \<Rightarrow> 'a list \<Rightarrow> 's \<Rightarrow> 's outcome" where
  "forO f [] s = Proceeds s"
| "forO f (x # xs) s = thenO (f x s) (forO f xs)"

definition listen_message :: "uuid list \<Rightarrow> publication \<Rightarrow> broker \<Rightarrow> broker outcome" where
  "listen_message ids p b =
     (let m = pubMsg p in
      if smgID m \<noteq> nilUUID then
        (case bkClients b (smgID m) of
           None \<Rightarrow> Proceeds b
         | Some c \<Rightarrow> if ciUser (clInfo c) = pubUser p then chanTrySend (smgID m) m b else Proceeds b)
      else forO (broadcastStep p) ids b)"

definition listen_end :: "uuid list \<Rightarrow> broker \<Rightarrow> broker outcome" where
  "listen_end ids b =
     thenO (forO chanClose ids b) (\<lambda>b.
       Proceeds (b\<lparr>bkClients := Map.empty, bkRunning := False, bkListening := False\<rparr>))"

end
