(* ===== verification/Sse_Inv.thy ===== *)
theory Sse_Inv
  imports Sse
begin

text \<open>
  The broker with its callers and subscribers as a transition system, and its invariant: which
  channels are open, what has been delivered to whom, and that the loop \<open>listen\<close> never blocks on
  a subscriber and never panics.
\<close>

section \<open>Steps\<close>

text \<open>
  Beside the broker: who subscribed under an identifier, what each subscriber has received, the
  publications the loop has handled, the calls of \<open>Clients\<close> and \<open>ClientCount\<close>, and the answer
  the loop is sending. While it sends one, no other branch of the loop runs.
\<close>

record bsys =
  bsB :: broker
  bsOwner :: "uuid \<rightharpoonup> sse_client"
  bsRecv :: "uuid \<Rightarrow> sse_msg list"
  bsLog :: "publication list"
  bsCalls :: "nat \<rightharpoonup> lookup_call"
  bsReply :: "(nat \<times> answer) option"

text \<open>
  A send into a channel of the broker proceeds while there is room; an unbuffered channel hands
  the value over directly, which is one value in the queue that is taken next. A caller that sends
  found the broker running at some time before, which is always the case: it runs at the start.
\<close>

definition room :: "nat \<Rightarrow> 'a list \<Rightarrow> bool" where
  "room cap q \<longleftrightarrow> length q < max 1 cap"

inductive bk_step :: "nat \<Rightarrow> nat \<Rightarrow> bsys \<Rightarrow> bsys \<Rightarrow> bool" for cc cm where
  bk_subscribe: "room cc (bkNew (bsB s)) \<Longrightarrow> i \<notin> dom (bkChans (bsB s)) \<Longrightarrow>
    i \<noteq> nilUUID \<Longrightarrow>
    bk_step cc cm s (s\<lparr>bsB := subscribe_send i now addr user (bsB s),
      bsOwner := (bsOwner s)(i \<mapsto> newClient i now addr user)\<rparr>)"
| bk_unsubscribe: "room cc (bkClosing (bsB s)) \<Longrightarrow> bk_step cc cm s (s\<lparr>bsB := closing_send i (bsB s)\<rparr>)"
| bk_publish: "room cm (bkMessage (bsB s)) \<Longrightarrow> bk_step cc cm s (s\<lparr>bsB := message_send user m (bsB s)\<rparr>)"
| bk_shutdown: "bk_step cc cm s (s\<lparr>bsB := sse_Shutdown (bsB s)\<rparr>)"
| bk_cancel: "bk_step cc cm s (s\<lparr>bsB := (bsB s)\<lparr>bkDone := True\<rparr>\<rparr>)"
| bk_receive: "bkChans (bsB s) i = Some ch \<Longrightarrow> chBuf ch = m # ms \<Longrightarrow>
    bk_step cc cm s (s\<lparr>bsB := (bsB s)\<lparr>bkChans := (bkChans (bsB s))(i \<mapsto> ch\<lparr>chBuf := ms\<rparr>)\<rparr>,
      bsRecv := (bsRecv s)(i := bsRecv s i @ [m])\<rparr>)"
| bk_new: "bkListening (bsB s) \<Longrightarrow> bkNew (bsB s) = c # cs \<Longrightarrow>
    listen_new c ((bsB s)\<lparr>bkNew := cs\<rparr>) = Proceeds b \<Longrightarrow> bsReply s = None \<Longrightarrow> bk_step cc cm s (s\<lparr>bsB := b\<rparr>)"
| bk_closing: "bkListening (bsB s) \<Longrightarrow> bkClosing (bsB s) = i # is \<Longrightarrow>
    listen_closing i ((bsB s)\<lparr>bkClosing := is\<rparr>) = Proceeds b \<Longrightarrow> bsReply s = None \<Longrightarrow> bk_step cc cm s (s\<lparr>bsB := b\<rparr>)"
| bk_message: "bkListening (bsB s) \<Longrightarrow> bkMessage (bsB s) = p # ps \<Longrightarrow>
    distinct ids \<Longrightarrow> set ids = dom (bkClients (bsB s)) \<Longrightarrow>
    listen_message ids p ((bsB s)\<lparr>bkMessage := ps\<rparr>) = Proceeds b \<Longrightarrow> bsReply s = None \<Longrightarrow>
    bk_step cc cm s (s\<lparr>bsB := b, bsLog := bsLog s @ [p]\<rparr>)"
| bk_end: "bkListening (bsB s) \<Longrightarrow> bkDone (bsB s) \<Longrightarrow> distinct ids \<Longrightarrow>
    set ids = dom (bkClients (bsB s)) \<Longrightarrow> listen_end ids (bsB s) = Proceeds b \<Longrightarrow> bsReply s = None \<Longrightarrow>
    bk_step cc cm s (s\<lparr>bsB := b\<rparr>)"
| bk_call: "k \<notin> dom (bsCalls s) \<Longrightarrow>
    bk_step cc cm s (s\<lparr>bsCalls := (bsCalls s)(k \<mapsto> callLookup q (bsB s))\<rparr>)"
| bk_caller: "bsCalls s k = Some c \<Longrightarrow> callerStep (bkDone (bsB s)) c = Some c' \<Longrightarrow>
    bk_step cc cm s (s\<lparr>bsCalls := (bsCalls s)(k \<mapsto> c')\<rparr>)"
| bk_take: "bkListening (bsB s) \<Longrightarrow> bsReply s = None \<Longrightarrow> bsCalls s k = Some (Offers q) \<Longrightarrow>
    distinct ids \<Longrightarrow> set ids = dom (bkClients (bsB s)) \<Longrightarrow>
    bk_step cc cm s (s\<lparr>bsCalls := (bsCalls s)(k \<mapsto> Taken q), bsReply := Some (k, listen_lookup ids q (bsB s))\<rparr>)"
| bk_reply: "bsReply s = Some (k, a) \<Longrightarrow> bsCalls s k = Some c \<Longrightarrow> sendReply a c = Proceeds c' \<Longrightarrow>
    bk_step cc cm s (s\<lparr>bsCalls := (bsCalls s)(k \<mapsto> c'), bsReply := None\<rparr>)"

definition bk_start :: bsys where
  "bk_start = \<lparr>bsB = NewSSEBroker, bsOwner = Map.empty, bsRecv = (\<lambda>i. []), bsLog = [],
     bsCalls = Map.empty, bsReply = None\<rparr>"

section \<open>Deliveries\<close>

definition addressed :: "sse_client \<Rightarrow> publication \<Rightarrow> bool" where
  "addressed c p \<longleftrightarrow> pubUser p = ciUser (clInfo c)
     \<and> (smgID (pubMsg p) = nilUUID \<or> smgID (pubMsg p) = ciID (clInfo c))"

definition push :: "sse_msg \<Rightarrow> sse_chan \<Rightarrow> sse_chan" where
  "push m ch = (if length (chBuf ch) < defaultBufferSize then ch\<lparr>chBuf := chBuf ch @ [m]\<rparr> else ch)"

definition openClients :: "broker \<Rightarrow> bool" where
  "openClients b \<longleftrightarrow> (\<forall>i c. bkClients b i = Some c \<longrightarrow>
     ciID (clInfo c) = i \<and> (\<exists>ch. bkChans b i = Some ch \<and> \<not> chClosed ch))"

lemma push_simps [simp]: "chClosed (push m ch) = chClosed ch"
  by (simp add: push_def)

lemma chanTrySend_open:
  assumes "bkChans b i = Some ch" and "\<not> chClosed ch"
  shows "chanTrySend i m b = Proceeds (b\<lparr>bkChans := (bkChans b)(i \<mapsto> push m ch)\<rparr>)"
proof -
  have "b\<lparr>bkChans := (bkChans b)(i \<mapsto> ch)\<rparr> = b" using assms(1) by (simp add: fun_upd_idem)
  with assms show ?thesis by (simp add: chanTrySend_def chanSend_def push_def)
qed

definition deliver :: "(uuid \<Rightarrow> bool) \<Rightarrow> sse_msg \<Rightarrow> broker \<Rightarrow> broker" where
  "deliver P m b = b\<lparr>bkChans := (\<lambda>i. if P i then map_option (push m) (bkChans b i) else bkChans b i)\<rparr>"

lemma deliver_simps [simp]:
  "bkClients (deliver P m b) = bkClients b" "bkNew (deliver P m b) = bkNew b"
  "bkReady (deliver P m b) = bkReady b" "bkListening (deliver P m b) = bkListening b"
  "bkRunning (deliver P m b) = bkRunning b"
  "bkChans (deliver P m b) i = (if P i then map_option (push m) (bkChans b i) else bkChans b i)"
  by (simp_all add: deliver_def)

lemma deliver_none: "(\<And>i. \<not> P i) \<Longrightarrow> deliver P m b = b"
  by (simp add: deliver_def)

lemma openClients_deliver: "openClients b \<Longrightarrow> openClients (deliver P m b)"
  unfolding openClients_def deliver_simps by (metis option.simps(9) push_simps)

lemma broadcast_delivers:
  assumes "openClients b" and "distinct ids"
  shows "forO (broadcastStep p) ids b = Proceeds (deliver (\<lambda>i. i \<in> set ids
    \<and> (\<exists>c. bkClients b i = Some c \<and> ciUser (clInfo c) = pubUser p)) (pubMsg p) b)"
  using assms
proof (induction ids arbitrary: b)
  case Nil
  show ?case by (simp add: deliver_none)
next
  case (Cons i ids)
  let ?u = "\<lambda>i. \<exists>c. bkClients b i = Some c \<and> ciUser (clInfo c) = pubUser p"
  let ?b = "deliver (\<lambda>j. j = i \<and> ?u i) (pubMsg p) b"
  have step: "broadcastStep p i b = Proceeds ?b"
  proof (cases "?u i")
    case True
    then obtain c where c: "bkClients b i = Some c" "ciUser (clInfo c) = pubUser p" by blast
    then obtain ch where ch: "bkChans b i = Some ch" "\<not> chClosed ch"
      using Cons.prems(1) by (auto simp: openClients_def)
    have "(\<lambda>j. if j = i \<and> ?u i then map_option (push (pubMsg p)) (bkChans b j) else bkChans b j)
        = (bkChans b)(i \<mapsto> push (pubMsg p) ch)"
      using True ch by (auto simp: fun_eq_iff)
    then show ?thesis by (simp add: broadcastStep_def c chanTrySend_open [OF ch] deliver_def)
  next
    case False
    then have "deliver (\<lambda>j. j = i \<and> ?u i) (pubMsg p) b = b" by (intro deliver_none) blast
    with False show ?thesis by (auto simp: broadcastStep_def split: option.split)
  qed
  have "forO (broadcastStep p) ids ?b = Proceeds (deliver (\<lambda>j. j \<in> set ids \<and> ?u j) (pubMsg p) ?b)"
    using Cons.IH [OF openClients_deliver [OF Cons.prems(1)]] Cons.prems(2) by simp
  moreover have "deliver (\<lambda>j. j \<in> set ids \<and> ?u j) (pubMsg p) ?b
      = deliver (\<lambda>j. j \<in> set (i # ids) \<and> ?u j) (pubMsg p) b"
    using Cons.prems(2) by (auto simp: deliver_def fun_eq_iff intro!: broker.equality)
  ultimately show ?case by (simp add: step)
qed

text \<open>Handling a publication: it goes to exactly the subscribers it is addressed to.\<close>

lemma listen_message_delivers:
  assumes "openClients b" and "distinct ids" and "set ids = dom (bkClients b)"
  shows "listen_message ids p b =
    Proceeds (deliver (\<lambda>i. \<exists>c. bkClients b i = Some c \<and> addressed c p) (pubMsg p) b)"
proof (cases "smgID (pubMsg p) = nilUUID")
  case True
  have "(\<lambda>i. i \<in> set ids \<and> (\<exists>c. bkClients b i = Some c \<and> ciUser (clInfo c) = pubUser p))
      = (\<lambda>i. \<exists>c. bkClients b i = Some c \<and> addressed c p)"
    using assms(3) True by (auto simp: addressed_def fun_eq_iff)
  with True broadcast_delivers [OF assms(1,2), of p] show ?thesis by (simp add: listen_message_def)
next
  case False
  let ?t = "smgID (pubMsg p)"
  have P: "(\<exists>c. bkClients b i = Some c \<and> addressed c p) \<longleftrightarrow>
      i = ?t \<and> (\<exists>c. bkClients b ?t = Some c \<and> ciUser (clInfo c) = pubUser p)" for i
    using assms(1) False by (auto simp: addressed_def openClients_def)
  show ?thesis
  proof (cases "\<exists>c. bkClients b ?t = Some c \<and> ciUser (clInfo c) = pubUser p")
    case True
    then obtain c where c: "bkClients b ?t = Some c" "ciUser (clInfo c) = pubUser p" by blast
    then obtain ch where ch: "bkChans b ?t = Some ch" "\<not> chClosed ch"
      using assms(1) by (auto simp: openClients_def)
    have "deliver (\<lambda>i. \<exists>c. bkClients b i = Some c \<and> addressed c p) (pubMsg p) b
        = b\<lparr>bkChans := (bkChans b)(?t \<mapsto> push (pubMsg p) ch)\<rparr>"
      unfolding P deliver_def using c ch by (auto simp: fun_eq_iff intro!: broker.equality)
    with False c show ?thesis by (simp add: listen_message_def Let_def chanTrySend_open [OF ch])
  next
    case no: False
    have "deliver (\<lambda>i. \<exists>c. bkClients b i = Some c \<and> addressed c p) (pubMsg p) b = b"
      unfolding P using no by (intro deliver_none) blast
    with False no show ?thesis by (auto simp: listen_message_def Let_def split: option.split)
  qed
qed

lemma close_all:
  assumes "distinct ids" and "\<forall>i \<in> set ids. \<exists>ch. bkChans b i = Some ch \<and> \<not> chClosed ch"
  shows "forO chanClose ids b = Proceeds (b\<lparr>bkChans := (\<lambda>i. if i \<in> set ids
    then map_option (\<lambda>ch. ch\<lparr>chClosed := True\<rparr>) (bkChans b i) else bkChans b i)\<rparr>)"
  using assms
proof (induction ids arbitrary: b)
  case (Cons i ids)
  then obtain ch where ch: "bkChans b i = Some ch" "\<not> chClosed ch" by auto
  let ?b = "b\<lparr>bkChans := (bkChans b)(i \<mapsto> ch\<lparr>chClosed := True\<rparr>)\<rparr>"
  have "chanClose i b = Proceeds ?b" using ch by (simp add: chanClose_def)
  moreover have "forO chanClose ids ?b = Proceeds (?b\<lparr>bkChans := (\<lambda>j. if j \<in> set ids
      then map_option (\<lambda>ch. ch\<lparr>chClosed := True\<rparr>) (bkChans ?b j) else bkChans ?b j)\<rparr>)"
    using Cons.prems by (intro Cons.IH) auto
  ultimately show ?case
    using Cons.prems(1) ch by (auto simp: fun_eq_iff intro!: broker.equality)
qed simp

section \<open>The invariant\<close>

abbreviation clID :: "sse_client \<Rightarrow> uuid" where
  "clID c \<equiv> ciID (clInfo c)"

text \<open>
  What a subscriber was sent: its subscription first, then publications addressed to it, in the
  order the broker handled them, each at most once.
\<close>

definition history :: "sse_client \<Rightarrow> sse_msg list \<Rightarrow> publication list \<Rightarrow> bool" where
  "history c d log \<longleftrightarrow> (\<exists>rest. d = clInitial c # rest
     \<and> subseq rest (map pubMsg (filter (addressed c) log)))"

definition pendingOk :: "bsys \<Rightarrow> bool" where
  "pendingOk s \<longleftrightarrow> distinct (map clID (bkNew (bsB s))) \<and> (\<forall>c \<in> set (bkNew (bsB s)).
     bkChans (bsB s) (clID c) = Some \<lparr>chBuf = [], chClosed = False\<rparr> \<and> bkClients (bsB s) (clID c) = None
     \<and> bsOwner s (clID c) = Some c \<and> bsRecv s (clID c) = [] \<and> clID c \<notin> set (bkReady (bsB s)))"

definition clientsOk :: "bsys \<Rightarrow> bool" where
  "clientsOk s \<longleftrightarrow> openClients (bsB s) \<and> (\<not> bkListening (bsB s) \<longrightarrow> bkClients (bsB s) = Map.empty)
     \<and> (\<forall>i c. bkClients (bsB s) i = Some c \<longrightarrow> bsOwner s i = Some c \<and> i \<in> set (bkReady (bsB s)))"

definition chansOk :: "bsys \<Rightarrow> bool" where
  "chansOk s \<longleftrightarrow> (\<forall>i ch. bkChans (bsB s) i = Some ch \<longrightarrow> length (chBuf ch) \<le> defaultBufferSize
     \<and> (chClosed ch \<or> i \<in> dom (bkClients (bsB s)) \<or> i \<in> clID ` set (bkNew (bsB s))))"

definition historyOk :: "bsys \<Rightarrow> bool" where
  "historyOk s \<longleftrightarrow> (\<forall>i \<in> set (bkReady (bsB s)). \<exists>c ch. bsOwner s i = Some c \<and> bkChans (bsB s) i = Some ch
     \<and> history c (bsRecv s i @ chBuf ch) (bsLog s))"

definition ownersOk :: "bsys \<Rightarrow> bool" where
  "ownersOk s \<longleftrightarrow> (\<forall>i. bsRecv s i \<noteq> [] \<longrightarrow> bkChans (bsB s) i \<noteq> None)
     \<and> (\<forall>i c. bsOwner s i = Some c \<longrightarrow> i \<noteq> nilUUID \<and> bkChans (bsB s) i \<noteq> None
          \<and> (\<exists>now addr user. c = newClient i now addr user))"

definition bk_ok :: "bsys \<Rightarrow> bool" where
  "bk_ok s \<longleftrightarrow> pendingOk s \<and> clientsOk s \<and> chansOk s \<and> historyOk s \<and> ownersOk s"

lemmas bk_ok_defs = bk_ok_def pendingOk_def clientsOk_def chansOk_def historyOk_def ownersOk_def

lemma clID_newClient [simp]: "clID (newClient i now addr user) = i"
  "ciUser (clInfo (newClient i now addr user)) = user"
  by (simp_all add: newClient_def)

lemma bk_ok_start: "bk_ok bk_start"
  by (simp add: bk_ok_defs bk_start_def NewSSEBroker_def openClients_def)

text \<open>The loop proceeds on every value it can take from a channel.\<close>

lemma listen_new_proceeds:
  assumes "bk_ok s" and "bkNew (bsB s) = c # cs"
  shows "listen_new c ((bsB s)\<lparr>bkNew := cs\<rparr>) = Proceeds ((bsB s)\<lparr>bkNew := cs,
    bkClients := (bkClients (bsB s))(clID c \<mapsto> c),
    bkChans := (bkChans (bsB s))(clID c \<mapsto> \<lparr>chBuf = [clInitial c], chClosed = False\<rparr>),
    bkReady := clID c # bkReady (bsB s)\<rparr>)"
proof -
  have "bkChans (bsB s) (clID c) = Some \<lparr>chBuf = [], chClosed = False\<rparr>" "clID c \<notin> set (bkReady (bsB s))"
    using assms by (auto simp: bk_ok_def pendingOk_def)
  then show ?thesis by (simp add: listen_new_def Let_def chanSend_def defaultBufferSize_def)
qed

lemma listen_closing_proceeds:
  assumes "bk_ok s"
  shows "listen_closing i ((bsB s)\<lparr>bkClosing := is\<rparr>) = Proceeds ((bsB s)\<lparr>bkClosing := is,
    bkClients := (bkClients (bsB s))(i := None),
    bkChans := (\<lambda>j. if j = i \<and> bkClients (bsB s) i \<noteq> None
      then map_option (\<lambda>ch. ch\<lparr>chClosed := True\<rparr>) (bkChans (bsB s) j) else bkChans (bsB s) j)\<rparr>)"
proof (cases "bkClients (bsB s) i")
  case None
  then have "(bkClients (bsB s))(i := None) = bkClients (bsB s)" by (simp add: fun_upd_idem)
  with None show ?thesis by (simp add: listen_closing_def)
next
  case (Some c)
  then obtain ch where "bkChans (bsB s) i = Some ch" "\<not> chClosed ch"
    using assms by (auto simp: bk_ok_def clientsOk_def openClients_def)
  with Some show ?thesis
    by (auto simp: listen_closing_def chanClose_def fun_eq_iff intro!: broker.equality)
qed

lemma openClients_message [simp]: "openClients (b\<lparr>bkMessage := ps\<rparr>) = openClients b"
  by (simp add: openClients_def)

lemma listen_message_proceeds:
  assumes "bk_ok s" and "distinct ids" and "set ids = dom (bkClients (bsB s))"
  shows "listen_message ids p ((bsB s)\<lparr>bkMessage := ps\<rparr>) = Proceeds (deliver
    (\<lambda>i. \<exists>c. bkClients (bsB s) i = Some c \<and> addressed c p) (pubMsg p) ((bsB s)\<lparr>bkMessage := ps\<rparr>))"
  using listen_message_delivers [of "(bsB s)\<lparr>bkMessage := ps\<rparr>" ids p] assms
  by (simp add: bk_ok_def clientsOk_def)

lemma listen_end_proceeds:
  assumes "bk_ok s" and "distinct ids" and "set ids = dom (bkClients (bsB s))"
  shows "listen_end ids (bsB s) = Proceeds ((bsB s)\<lparr>bkClients := Map.empty, bkRunning := False,
    bkListening := False, bkChans := (\<lambda>i. if bkClients (bsB s) i \<noteq> None
      then map_option (\<lambda>ch. ch\<lparr>chClosed := True\<rparr>) (bkChans (bsB s) i) else bkChans (bsB s) i)\<rparr>)"
proof -
  have "\<forall>i \<in> set ids. \<exists>ch. bkChans (bsB s) i = Some ch \<and> \<not> chClosed ch"
    using assms(1,3) by (auto simp: bk_ok_def clientsOk_def openClients_def)
  from close_all [OF assms(2) this] show ?thesis
    using assms(3) by (auto simp: listen_end_def fun_eq_iff dom_def intro!: broker.equality)
qed

section \<open>Preservation\<close>

lemma bk_ok_client:
  "bk_ok s \<Longrightarrow> bkClients (bsB s) i = Some c \<Longrightarrow>
    clID c = i \<and> bsOwner s i = Some c \<and> (\<exists>ch. bkChans (bsB s) i = Some ch \<and> \<not> chClosed ch)"
  unfolding bk_ok_def clientsOk_def openClients_def by blast

lemma bk_ok_requests:
  assumes "bk_ok s" and "bkClients b = bkClients (bsB s)" and "bkNew b = bkNew (bsB s)"
    and "bkChans b = bkChans (bsB s)" and "bkReady b = bkReady (bsB s)" and "bkListening b = bkListening (bsB s)"
  shows "bk_ok (s\<lparr>bsB := b\<rparr>)"
  using assms by (simp add: bk_ok_defs openClients_def)

lemma bk_ok_subscribe:
  assumes "bk_ok s" and "i \<notin> dom (bkChans (bsB s))" and "i \<noteq> nilUUID"
  shows "bk_ok (s\<lparr>bsB := subscribe_send i now addr user (bsB s),
    bsOwner := (bsOwner s)(i \<mapsto> newClient i now addr user)\<rparr>)" (is "bk_ok ?s")
proof -
  have i: "bkChans (bsB s) i = None" using assms(2) by auto
  have c: "bkClients (bsB s) i = None"
    using bk_ok_client [OF assms(1), of i] i by (cases "bkClients (bsB s) i") auto
  have n: "i \<notin> clID ` set (bkNew (bsB s))"
    using assms(1) i by (auto simp: bk_ok_def pendingOk_def)
  have r: "i \<notin> set (bkReady (bsB s))" using assms(1) i by (auto simp: bk_ok_def historyOk_def)
  have v: "bsRecv s i = []" using assms(1) i by (auto simp: bk_ok_def ownersOk_def)
  have "pendingOk ?s"
    using assms(1) c n r v by (auto simp: bk_ok_def pendingOk_def subscribe_send_def)
  moreover have "clientsOk ?s"
    using assms(1) c by (auto simp: bk_ok_def clientsOk_def openClients_def subscribe_send_def)
  moreover have "chansOk ?s"
    using assms(1) by (auto simp: bk_ok_def chansOk_def subscribe_send_def)
  moreover have "historyOk ?s"
    using assms(1) r by (auto simp: bk_ok_def historyOk_def subscribe_send_def)
  moreover have "ownersOk ?s"
    using assms(1,3) by (auto simp: bk_ok_def ownersOk_def subscribe_send_def)
  ultimately show ?thesis by (simp add: bk_ok_def)
qed

lemma bk_ok_receive:
  assumes "bk_ok s" and "bkChans (bsB s) i = Some ch" and "chBuf ch = m # ms"
  shows "bk_ok (s\<lparr>bsB := (bsB s)\<lparr>bkChans := (bkChans (bsB s))(i \<mapsto> ch\<lparr>chBuf := ms\<rparr>)\<rparr>,
    bsRecv := (bsRecv s)(i := bsRecv s i @ [m])\<rparr>)" (is "bk_ok ?s")
proof -
  have n: "i \<notin> clID ` set (bkNew (bsB s))"
    using assms by (auto simp: bk_ok_def pendingOk_def)
  have "pendingOk ?s" using assms(1) n by (auto simp: bk_ok_def pendingOk_def)
  moreover have "clientsOk ?s" using assms(1,2) by (fastforce simp: bk_ok_def clientsOk_def openClients_def)
  moreover have "chansOk ?s" using assms by (fastforce simp: bk_ok_def chansOk_def)
  moreover have "historyOk ?s" using assms by (fastforce simp: bk_ok_def historyOk_def)
  moreover have "ownersOk ?s" using assms(1,2) by (auto simp: bk_ok_def ownersOk_def)
  ultimately show ?thesis by (simp add: bk_ok_def)
qed

lemma bk_ok_new:
  assumes "bk_ok s" and "bkNew (bsB s) = c # cs" and "bkListening (bsB s)"
  shows "bk_ok (s\<lparr>bsB := (bsB s)\<lparr>bkNew := cs, bkClients := (bkClients (bsB s))(clID c \<mapsto> c),
    bkChans := (bkChans (bsB s))(clID c \<mapsto> \<lparr>chBuf = [clInitial c], chClosed = False\<rparr>),
    bkReady := clID c # bkReady (bsB s)\<rparr>\<rparr>)" (is "bk_ok ?s")
proof -
  have p: "bkChans (bsB s) (clID c) = Some \<lparr>chBuf = [], chClosed = False\<rparr>" "bkClients (bsB s) (clID c) = None"
    "bsOwner s (clID c) = Some c" "bsRecv s (clID c) = []" "clID c \<notin> set (bkReady (bsB s))"
    "clID c \<notin> clID ` set cs"
    using assms(1,2) by (auto simp: bk_ok_def pendingOk_def)
  have q: "pendingOk s" using assms(1) by (simp add: bk_ok_def)
  have "pendingOk ?s"
    unfolding pendingOk_def
  proof (intro conjI ballI)
    show "distinct (map clID (bkNew (bsB ?s)))" using q assms(2) by (simp add: pendingOk_def)
    fix x assume x: "x \<in> set (bkNew (bsB ?s))"
    then have "clID x \<in> clID ` set cs" by simp
    then have "clID x \<noteq> clID c" using p(6) by metis
    with x q assms(2) show "bkChans (bsB ?s) (clID x) = Some \<lparr>chBuf = [], chClosed = False\<rparr>"
      "bkClients (bsB ?s) (clID x) = None" "bsOwner ?s (clID x) = Some x" "bsRecv ?s (clID x) = []"
      "clID x \<notin> set (bkReady (bsB ?s))"
      by (simp_all add: pendingOk_def)
  qed
  moreover have "clientsOk ?s" using assms(1,3) p(3) by (auto simp: bk_ok_def clientsOk_def openClients_def)
  moreover have "chansOk ?s"
    unfolding chansOk_def
  proof (intro allI impI)
    fix i ch
    assume ch: "bkChans (bsB ?s) i = Some ch"
    show "length (chBuf ch) \<le> defaultBufferSize
      \<and> (chClosed ch \<or> i \<in> dom (bkClients (bsB ?s)) \<or> i \<in> clID ` set (bkNew (bsB ?s)))"
    proof (cases "i = clID c")
      case True
      with ch have "ch = \<lparr>chBuf = [clInitial c], chClosed = False\<rparr>" by simp
      with True show ?thesis by (simp add: defaultBufferSize_def)
    next
      case False
      with ch have "bkChans (bsB s) i = Some ch" by simp
      then have "length (chBuf ch) \<le> defaultBufferSize
        \<and> (chClosed ch \<or> i \<in> dom (bkClients (bsB s)) \<or> i \<in> clID ` set (c # cs))"
        using assms(1,2) by (simp add: bk_ok_def chansOk_def)
      with False show ?thesis by auto
    qed
  qed
  moreover have "historyOk ?s" using assms(1) p(3,4,5) by (auto simp: bk_ok_def historyOk_def history_def)
  moreover have "ownersOk ?s" using assms(1) by (auto simp: bk_ok_def ownersOk_def)
  ultimately show ?thesis by (simp add: bk_ok_def)
qed

lemma bk_ok_close:
  assumes "bk_ok s" and "bkListening (bsB s) \<or> (\<forall>i. P i \<or> bkClients (bsB s) i = None)"
    and "bkNew b = bkNew (bsB s)" and "bkReady b = bkReady (bsB s)"
    and "bkClients b = (\<lambda>i. if P i then None else bkClients (bsB s) i)"
    and "\<not> bkListening b \<longrightarrow> (\<forall>i. P i \<or> bkClients (bsB s) i = None)"
    and "bkChans b = (\<lambda>i. if P i \<and> bkClients (bsB s) i \<noteq> None
      then map_option (\<lambda>ch. ch\<lparr>chClosed := True\<rparr>) (bkChans (bsB s) i) else bkChans (bsB s) i)"
  shows "bk_ok (s\<lparr>bsB := b\<rparr>)" (is "bk_ok ?s")
proof -
  have "pendingOk ?s" using assms(1,3,4,5,7) by (auto simp: bk_ok_def pendingOk_def)
  moreover have "clientsOk ?s"
    using assms(1,4,5,6,7) by (auto simp: bk_ok_def clientsOk_def openClients_def fun_eq_iff)
  moreover have "chansOk ?s"
    using assms(1,3,5,7) by (fastforce simp: bk_ok_def chansOk_def split: if_splits)
  moreover have "historyOk ?s"
    using assms(1,4,7) by (fastforce simp: bk_ok_def historyOk_def)
  moreover have "ownersOk ?s" using assms(1,7) by (auto simp: bk_ok_def ownersOk_def)
  ultimately show ?thesis by (simp add: bk_ok_def)
qed

lemma history_log: "history c d log \<Longrightarrow> history c d (log @ [p])"
  unfolding history_def by (auto intro: subseq_order.trans)

lemma history_push:
  "history c (r @ chBuf ch) log \<Longrightarrow> addressed c p \<Longrightarrow> history c (r @ chBuf (push (pubMsg p) ch)) (log @ [p])"
proof -
  assume h: "history c (r @ chBuf ch) log" and a: "addressed c p"
  show ?thesis
  proof (cases "length (chBuf ch) < defaultBufferSize")
    case True
    from h obtain rest where rest: "r @ chBuf ch = clInitial c # rest"
      "subseq rest (map pubMsg (filter (addressed c) log))" by (auto simp: history_def)
    have "subseq (rest @ [pubMsg p]) (map pubMsg (filter (addressed c) (log @ [p])))"
      using rest(2) a by (simp add: list_emb_append_mono)
    moreover have "r @ chBuf (push (pubMsg p) ch) = clInitial c # rest @ [pubMsg p]"
      using True rest(1) by (simp add: push_def flip: append_assoc)
    ultimately show ?thesis by (auto simp: history_def)
  qed (use h history_log in \<open>simp add: push_def\<close>)
qed

lemma bk_ok_message:
  assumes "bk_ok s"
  shows "bk_ok (s\<lparr>bsB := deliver (\<lambda>i. \<exists>c. bkClients (bsB s) i = Some c \<and> addressed c p) (pubMsg p)
    ((bsB s)\<lparr>bkMessage := ps\<rparr>), bsLog := bsLog s @ [p]\<rparr>)" (is "bk_ok ?s")
proof -
  let ?P = "\<lambda>i. \<exists>c. bkClients (bsB s) i = Some c \<and> addressed c p"
  have "pendingOk ?s" using assms by (auto simp: bk_ok_def pendingOk_def)
  moreover have "clientsOk ?s"
    using assms openClients_deliver [of "(bsB s)\<lparr>bkMessage := ps\<rparr>"] by (simp add: bk_ok_def clientsOk_def)
  moreover have "chansOk ?s"
    using assms by (fastforce simp: bk_ok_def chansOk_def push_def)
  moreover have "historyOk ?s"
    unfolding historyOk_def
  proof
    fix i assume "i \<in> set (bkReady (bsB ?s))"
    then obtain c ch where c: "bsOwner s i = Some c" "bkChans (bsB s) i = Some ch"
      "history c (bsRecv s i @ chBuf ch) (bsLog s)"
      using assms by (auto simp: bk_ok_def historyOk_def)
    show "\<exists>c ch. bsOwner ?s i = Some c \<and> bkChans (bsB ?s) i = Some ch \<and> history c (bsRecv ?s i @ chBuf ch) (bsLog ?s)"
    proof (cases "?P i")
      case True
      then have "addressed c p" using assms c(1) by (auto simp: bk_ok_def clientsOk_def)
      with True c history_push show ?thesis by simp
    next
      case False
      then have "bkChans (bsB ?s) i = Some ch" using c(2) by auto
      with c history_log show ?thesis by simp
    qed
  qed
  moreover have "ownersOk ?s" using assms by (auto simp: bk_ok_def ownersOk_def)
  ultimately show ?thesis by (simp add: bk_ok_def)
qed

theorem bk_ok_step:
  assumes "bk_step cc cm s t" and "bk_ok s"
  shows "bk_ok t"
  using assms
proof (cases rule: bk_step.cases)
  case (bk_subscribe i now addr user)
  then show ?thesis using bk_ok_subscribe assms(2) by simp
next
  case (bk_unsubscribe i)
  then show ?thesis using bk_ok_requests [OF assms(2)] by (simp add: closing_send_def)
next
  case (bk_publish user m)
  then show ?thesis using bk_ok_requests [OF assms(2)] by (simp add: message_send_def)
next
  case bk_shutdown
  then show ?thesis using bk_ok_requests [OF assms(2)] by (simp add: sse_Shutdown_def)
next
  case bk_cancel
  then show ?thesis using bk_ok_requests [OF assms(2)] by simp
next
  case (bk_receive i ch m ms)
  then show ?thesis using bk_ok_receive assms(2) by simp
next
  case (bk_new c cs b)
  then show ?thesis using bk_ok_new [OF assms(2)] listen_new_proceeds [OF assms(2)] by simp
next
  case (bk_closing i "is" b)
  have b: "b = (bsB s)\<lparr>bkClosing := is,
    bkClients := (bkClients (bsB s))(i := None),
    bkChans := (\<lambda>j. if j = i \<and> bkClients (bsB s) i \<noteq> None
      then map_option (\<lambda>ch. ch\<lparr>chClosed := True\<rparr>) (bkChans (bsB s) j) else bkChans (bsB s) j)\<rparr>"
    using bk_closing(4) unfolding listen_closing_proceeds [OF assms(2)] by simp
  show ?thesis
    unfolding bk_closing(1) by (rule bk_ok_close [OF assms(2), of "\<lambda>j. j = i"])
      (use bk_closing(2) in \<open>auto simp: b fun_eq_iff\<close>)
next
  case (bk_message p ps ids b)
  from bk_message(6) [unfolded listen_message_proceeds [OF assms(2) bk_message(4,5)]]
  have b: "b = deliver (\<lambda>i. \<exists>c. bkClients (bsB s) i = Some c \<and> addressed c p) (pubMsg p)
    ((bsB s)\<lparr>bkMessage := ps\<rparr>)" by simp
  show ?thesis unfolding bk_message(1) b by (rule bk_ok_message [OF assms(2)])
next
  case (bk_end ids b)
  note b = bk_end(6) [unfolded listen_end_proceeds [OF assms(2) bk_end(4,5)]]
  show ?thesis
    unfolding bk_end(1) by (rule bk_ok_close [OF assms(2), of "\<lambda>j. True"])
      (use b in \<open>auto simp: fun_eq_iff\<close>)
qed (use assms(2) in \<open>simp_all add: bk_ok_defs\<close>)

lemma bk_reach_ok: "(bk_step cc cm)\<^sup>*\<^sup>* bk_start s \<Longrightarrow> bk_ok s"
  by (induction rule: rtranclp_induct) (simp_all add: bk_ok_start bk_ok_step)

text \<open>The map of clients stays finite, so a range over it ends.\<close>

lemma bk_finite_step:
  assumes "bk_step cc cm s t" and "bk_ok s" and "finite (dom (bkClients (bsB s)))"
  shows "finite (dom (bkClients (bsB t)))"
  using assms(1)
proof cases
  case (bk_new c cs b)
  then show ?thesis using listen_new_proceeds [OF assms(2) bk_new(3)] assms(3) by auto
next
  case (bk_closing i "is" b)
  then show ?thesis using listen_closing_proceeds [OF assms(2)] assms(3) by auto
next
  case (bk_message p ps ids b)
  then show ?thesis using listen_message_proceeds [OF assms(2) bk_message(4,5)] assms(3) by auto
next
  case (bk_end ids b)
  then show ?thesis using listen_end_proceeds [OF assms(2) bk_end(4,5)] by auto
qed (use assms(3) in \<open>simp_all add: subscribe_send_def closing_send_def message_send_def sse_Shutdown_def\<close>)

lemma bk_reach_finite: "(bk_step cc cm)\<^sup>*\<^sup>* bk_start s \<Longrightarrow> finite (dom (bkClients (bsB s)))"
  by (induction rule: rtranclp_induct) (simp_all add: bk_start_def NewSSEBroker_def bk_finite_step bk_reach_ok)

section \<open>Answers\<close>

text \<open>
  The answer the loop is sending is right for the clients there are, and its caller is at the
  receiving end of the channel or on the way to it.
\<close>

definition replyOk :: "bsys \<Rightarrow> bool" where
  "replyOk s \<longleftrightarrow> (\<forall>k a. bsReply s = Some (k, a) \<longrightarrow>
     (\<exists>q. (bsCalls s k = Some (Taken q) \<or> bsCalls s k = Some (Awaits q))
        \<and> (\<exists>ids. distinct ids \<and> set ids = dom (bkClients (bsB s)) \<and> a = listen_lookup ids q (bsB s))))"

lemma lookup_clients: "bkClients b = bkClients b' \<Longrightarrow> listen_lookup ids q b = listen_lookup ids q b'"
  by (simp add: listen_lookup_def userClients_def countUserClients_def split: lookup.split)

lemma replyOk_same:
  assumes "replyOk s" and "bkClients (bsB t) = bkClients (bsB s)" and "bsReply t = bsReply s" and "bsCalls t = bsCalls s"
  shows "replyOk t"
  using assms(1) lookup_clients [OF assms(2)] by (simp add: replyOk_def assms(2-4))

lemma replyOk_none: "bsReply s = None \<Longrightarrow> replyOk s"
  by (simp add: replyOk_def)

lemma bk_reply_step:
  assumes "bk_step cc cm s t" and "replyOk s"
  shows "replyOk t"
  using assms(1)
proof cases
  case (bk_call k q)
  then show ?thesis using assms(2) by (auto simp: replyOk_def dom_def)
next
  case (bk_caller k c c')
  show ?thesis
    unfolding replyOk_def
  proof (intro allI impI)
    fix k' a assume "bsReply t = Some (k', a)"
    then have r: "bsReply s = Some (k', a)" by (simp add: bk_caller(1))
    with assms(2) obtain q ids where q: "bsCalls s k' = Some (Taken q) \<or> bsCalls s k' = Some (Awaits q)"
      "distinct ids" "set ids = dom (bkClients (bsB s))" "a = listen_lookup ids q (bsB s)"
      unfolding replyOk_def by blast
    have "bsCalls t k' = Some (Taken q) \<or> bsCalls t k' = Some (Awaits q)"
      using q(1) bk_caller(2,3) by (cases "k' = k") (auto simp: bk_caller(1) callerStep_def)
    then show "\<exists>q. (bsCalls t k' = Some (Taken q) \<or> bsCalls t k' = Some (Awaits q))
      \<and> (\<exists>ids. distinct ids \<and> set ids = dom (bkClients (bsB t)) \<and> a = listen_lookup ids q (bsB t))"
      using q(2-4) by (auto simp: bk_caller(1))
  qed
next
  case (bk_take k q ids)
  then show ?thesis by (auto simp: replyOk_def)
next
  case (bk_subscribe i now addr user)
  show ?thesis
    by (rule replyOk_same [OF assms(2)]) (simp_all add: bk_subscribe(1) subscribe_send_def)
next
  case (bk_unsubscribe i)
  show ?thesis
    by (rule replyOk_same [OF assms(2)]) (simp_all add: bk_unsubscribe(1) closing_send_def)
next
  case (bk_publish user m)
  show ?thesis
    by (rule replyOk_same [OF assms(2)]) (simp_all add: bk_publish(1) message_send_def)
next
  case (bk_shutdown)
  show ?thesis
    by (rule replyOk_same [OF assms(2)]) (simp_all add: bk_shutdown(1) sse_Shutdown_def)
next
  case (bk_cancel)
  show ?thesis
    by (rule replyOk_same [OF assms(2)]) (simp_all add: bk_cancel(1))
next
  case (bk_receive i ch m ms)
  show ?thesis
    by (rule replyOk_same [OF assms(2)]) (simp_all add: bk_receive(1))
qed (auto intro: replyOk_none)

lemma bk_reach_reply: "(bk_step cc cm)\<^sup>*\<^sup>* bk_start s \<Longrightarrow> replyOk s"
  by (induction rule: rtranclp_induct) (simp_all add: bk_reply_step replyOk_none bk_start_def)

end
