(* ===== verification/Sse_Wire.thy ===== *)
theory Sse_Wire
  imports Sse_Message Codec Utf8
begin

text \<open>
  What the event stream carries: the exact bytes of a message, the bytes a writer accepted when
  it fails, and the messages the client parses from any prefix of a stream.
\<close>

section \<open>The text of a message\<close>

definition linesText :: "string list \<Rightarrow> bytes" where
  "linesText ls = concat (map (\<lambda>l. l @ [CHR 10]) ls)"

definition messageLines :: "sse_msg \<Rightarrow> bytes \<Rightarrow> string list" where
  "messageLines m json =
     (if smgID m \<noteq> nilUUID then [''id:'' @ uuidString (smgID m)] else [])
     @ (if smgEvent m \<noteq> [] then [''event:'' @ smgEvent m] else [])
     @ [''data:'' @ json]
     @ (if 0 < smgRetry m then [''retry:'' @ formatUint (nat (durationIn 1000 (smgRetry m)))] else [])"

definition messageText :: "sse_msg \<Rightarrow> bytes \<Rightarrow> bytes" where
  "messageText m json = linesText (messageLines m json) @ [CHR 10, CHR 10]"

lemma linesText_simps [simp]:
  "linesText [] = []"
  "linesText (l # ls) = l @ CHR 10 # linesText ls"
  "linesText (ls @ ls') = linesText ls @ linesText ls'"
  by (simp_all add: linesText_def)

section \<open>Writers\<close>

text \<open>
  The contract of \<open>io.Writer\<close>: it accepts a prefix, all of it unless it reports an error. Flushing
  a buffered writer changes nothing about what it accepted.
\<close>

locale io_writer =
  fixes wr :: "'w writer" and flush :: "'w \<Rightarrow> err option \<times> 'w" and sink :: "'w \<Rightarrow> bytes"
  assumes wr_law: "wr b w = ((n, e), w') \<Longrightarrow>
    \<exists>k \<le> length b. sink w' = sink w @ take k b \<and> n = int k \<and> (e = None \<longrightarrow> k = length b)"
    and flush_law: "sink (snd (flush w)) = sink w"

definition textOf :: "sse_env \<Rightarrow> sse_msg \<Rightarrow> bytes" where
  "textOf E m = messageText m (case seMarshal E (smgData m) of Inl e \<Rightarrow> [] | Inr j \<Rightarrow> j)"

text \<open>Messages that can be written: their data has a JSON form, their text a length in 63 bits.\<close>

definition writable :: "sse_env \<Rightarrow> sse_msg \<Rightarrow> bool" where
  "writable E m \<longleftrightarrow> \<not> isl (seMarshal E (smgData m)) \<and> int (length (textOf E m)) < 2 ^ 63"

lemma writable_marshals: "writable E m \<Longrightarrow> \<exists>j. seMarshal E (smgData m) = Inr j"
  by (cases "seMarshal E (smgData m)") (auto simp: writable_def)

context io_writer
begin

definition wrote :: "(int \<times> err option) \<times> 'w \<Rightarrow> 'w \<Rightarrow> bytes \<Rightarrow> bool" where
  "wrote r w t \<longleftrightarrow> (int (length t) < 2 ^ 63 \<longrightarrow> (\<exists>k \<le> length t. sink (snd r) = sink w @ take k t
     \<and> fst (fst r) = int k \<and> (snd (fst r) = None \<longrightarrow> k = length t)))"

lemma wrote_wr: "wrote (wr b w) w b"
proof -
  obtain n e w' where r: "wr b w = ((n, e), w')" by (metis prod.collapse)
  from wr_law [OF r] show ?thesis by (auto simp: wrote_def r)
qed

lemma wrote_none: "wrote ((0, None), w) w []"
  by (simp add: wrote_def)

lemma wrote_then:
  assumes "wrote r w t" and "\<And>w'. wrote (f w') w' t'"
  shows "wrote (thenW r f) w (t @ t')"
proof (cases "int (length (t @ t')) < 2 ^ 63")
  case b: True
  obtain n e w1 where r: "r = ((n, e), w1)" by (metis prod.collapse)
  from assms(1) b obtain k where k: "k \<le> length t" "sink w1 = sink w @ take k t" "n = int k"
    "e = None \<longrightarrow> k = length t" by (auto simp: wrote_def r)
  show ?thesis
  proof (cases e)
    case (Some x)
    with k show ?thesis by (auto simp: wrote_def thenW_def r intro!: exI [of _ k])
  next
    case None
    obtain m e' w2 where f: "f w1 = ((m, e'), w2)" by (metis prod.collapse)
    from assms(2) [of w1] b obtain l where l: "l \<le> length t'" "sink w2 = sink w1 @ take l t'"
      "m = int l" "e' = None \<longrightarrow> l = length t'" by (auto simp: wrote_def f)
    have "i64 (n + m) = int (length t + l)"
      using k(3,4) l(1,3) b None by (subst i64_id) (simp_all add: int64_range_def)
    with k l None show ?thesis by (auto simp: wrote_def thenW_def r f intro!: exI [of _ "length t + l"])
  qed
qed (simp add: wrote_def)

lemma wrote_writeTo: "wrote (writeTo wr k v w) w ((k @ '':'' @ v) @ [CHR 10])"
proof -
  have "wrote (thenW (wr v w') (wr [CHR 10])) w' (v @ [CHR 10])" for w'
    by (rule wrote_then [OF wrote_wr wrote_wr])
  from wrote_then [OF wrote_wr [of "k @ '':''"] this] show ?thesis unfolding writeTo_def by simp
qed

lemma wrote_writeTo_if:
  "wrote (if b then writeTo wr k v w else ((0, None), w)) w (linesText (if b then [k @ '':'' @ v] else []))"
  using wrote_writeTo wrote_none by simp

lemma wrote_WriteTo:
  assumes "seMarshal E (smgData m) = Inr json"
  shows "wrote (SSEMessage_WriteTo E wr m w) w (messageText m json)"
proof -
  have eq: "messageText m json = linesText (if smgID m \<noteq> nilUUID then [''id'' @ '':'' @ uuidString (smgID m)] else [])
    @ linesText (if smgEvent m \<noteq> [] then [''event'' @ '':'' @ smgEvent m] else [])
    @ ((''data'' @ '':'' @ json) @ [CHR 10])
    @ linesText (if 0 < smgRetry m then [''retry'' @ '':'' @ formatUint (nat (durationIn 1000 (smgRetry m)))] else [])
    @ [CHR 10, CHR 10]"
    by (simp add: messageText_def messageLines_def)
  show ?thesis
    unfolding eq SSEMessage_WriteTo_def assms sum.case
    by (intro wrote_then wrote_writeTo_if wrote_writeTo wrote_wr)
qed

lemma WriteTo_text:
  assumes "writable E m" and "SSEMessage_WriteTo E wr m w = ((n, e), w')"
  shows "\<exists>k \<le> length (textOf E m). sink w' = sink w @ take k (textOf E m) \<and> n = int k
    \<and> (e = None \<longrightarrow> k = length (textOf E m))"
proof -
  from writable_marshals [OF assms(1)] assms(1)
  obtain j where j: "seMarshal E (smgData m) = Inr j" and l: "int (length (textOf E m)) < 2 ^ 63"
    by (auto simp: writable_def)
  have t: "textOf E m = messageText m j" by (simp add: textOf_def j)
  from wrote_WriteTo [OF j, of w] l show ?thesis unfolding wrote_def t assms(2) by simp
qed

lemma sseStream_text:
  assumes "\<forall>m \<in> set ms. writable E m" and "sseStream E wr flush ms w = (e, w')"
  shows "\<exists>k \<le> length (concat (map (textOf E) ms)). sink w' = sink w @ take k (concat (map (textOf E) ms))
    \<and> (e = None \<longrightarrow> k = length (concat (map (textOf E) ms)))"
  using assms
proof (induction ms arbitrary: w)
  case (Cons m ms)
  obtain n e1 w1 where r: "SSEMessage_WriteTo E wr m w = ((n, e1), w1)" by (metis prod.collapse)
  obtain e2 w2 where fl: "flush w1 = (e2, w2)" by (metis prod.collapse)
  have s2: "sink w2 = sink w1" using flush_law [of w1] fl by simp
  have "writable E m" using Cons.prems(1) by simp
  from WriteTo_text [OF this r] obtain k where k: "k \<le> length (textOf E m)"
    "sink w1 = sink w @ take k (textOf E m)" "e1 = None \<longrightarrow> k = length (textOf E m)" by blast
  show ?case
  proof (cases "e1 = None \<and> e2 = None")
    case True
    with Cons.prems(2) r fl have "sseStream E wr flush ms w2 = (e, w')" by simp
    from Cons.IH [OF _ this] Cons.prems(1) obtain l where l: "l \<le> length (concat (map (textOf E) ms))"
      "sink w' = sink w2 @ take l (concat (map (textOf E) ms))"
      "e = None \<longrightarrow> l = length (concat (map (textOf E) ms))" by auto
    show ?thesis
      by (rule exI [of _ "length (textOf E m) + l"]) (use True k l s2 in auto)
  next
    case False
    with Cons.prems(2) r fl s2 have "e \<noteq> None \<and> sink w' = sink w1" by (auto split: option.splits)
    with k show ?thesis by (auto intro!: exI [of _ k])
  qed
qed auto

end

section \<open>Parsing\<close>

text \<open>
  The contract of JSON and \<open>uuid.Parse\<close>. \<open>wire d\<close> is what the JSON form of \<open>d\<close> carries: the
  resolution of its time stamp may be lost. A JSON object is not empty, starts with a brace and
  has its control characters escaped.
\<close>

locale sse_codec =
  fixes E :: sse_env and wire :: "sse_data \<Rightarrow> sse_data"
  assumes unmarshal: "seMarshal E d = Inr j \<Longrightarrow> seUnmarshal E j = Inr (wire d)"
    and json_start: "seMarshal E d = Inr j \<Longrightarrow> prefix [CHR 123] j"
    and json_control: "seMarshal E d = Inr j \<Longrightarrow> CHR 10 \<notin> set j \<and> CHR 13 \<notin> set j"
    and parse_id: "seParseID E (uuidString i) = Inr i"

text \<open>
  JSON gives back texts that are UTF-8, and everything else but the time stamp. The old path is
  only carried with the other fields of the metadata.
\<close>

definition textData :: "sse_data \<Rightarrow> bool" where
  "textData d \<longleftrightarrow> utf8 (sdMessage d) \<and> utf8 (smOldPath (sdMeta d)) \<and> utf8 (smPath (sdMeta d))
     \<and> utf8 (smAction (sdMeta d)) \<and> (SSEMeta_Zero (sdMeta d) \<longrightarrow> smOldPath (sdMeta d) = [])"

locale sse_text = sse_codec +
  assumes wire_text: "textData d \<Longrightarrow> \<exists>t. wire d = d\<lparr>sdTimestamp := t\<rparr>"

text \<open>A line the parser takes as it is, and the events the source sends.\<close>

definition plainLine :: "string \<Rightarrow> bool" where
  "plainLine l \<longleftrightarrow> l \<noteq> [] \<and> CHR 10 \<notin> set l \<and> CHR 13 \<notin> set l"

definition plainEvent :: "string \<Rightarrow> bool" where
  "plainEvent ev \<longleftrightarrow> CHR 10 \<notin> set ev \<and> CHR 13 \<notin> set ev \<and> \<not> prefix [CHR 32] ev"

lemma readString_cut: "CHR 10 \<notin> set p \<Longrightarrow> readString e p = (Inl e, [])"
  by (simp add: readString_def)

lemma readString_line: "CHR 10 \<notin> set l \<Longrightarrow> readString e (l @ CHR 10 # rest) = (Inr (l @ [CHR 10]), rest)"
proof -
  assume l: "CHR 10 \<notin> set l"
  then have "takeWhile (\<lambda>c. c \<noteq> CHR 10) (l @ CHR 10 # rest) = l"
    "dropWhile (\<lambda>c. c \<noteq> CHR 10) (l @ CHR 10 # rest) = CHR 10 # rest"
    by (induction l) auto
  then show ?thesis by (simp add: readString_def)
qed

lemma trimSuffix_snoc: "trimSuffix (l @ [c]) [c] = l"
  by (simp add: trimSuffix_def)

lemma trimSuffix_other: "c \<notin> set l \<Longrightarrow> trimSuffix l [c] = l"
  by (auto simp: trimSuffix_def suffix_def)

lemma sseLines_blank:
  "sseLines E e st (CHR 10 # rest) =
     (if snd st = [] then sseLines E e st rest
      else (bindE (seUnmarshal E (snd st)) (\<lambda>d. Inr ((fst st)\<lparr>smgData := d\<rparr>)), rest))"
proof -
  have "readString e (CHR 10 # rest) = (Inr [CHR 10], rest)" using readString_line [of "[]"] by simp
  moreover have "trimSuffix (trimSuffix [CHR 10] [CHR 10]) [CHR 13] = []" by (simp add: trimSuffix_def suffix_def)
  ultimately show ?thesis by (subst sseLines.simps) simp
qed

lemma sseLines_line:
  assumes "plainLine l" and "sseField E l st = Inr st'"
  shows "sseLines E e st (l @ CHR 10 # rest) = sseLines E e st' rest"
  using assms by (subst sseLines.simps) (simp add: readString_line plainLine_def trimSuffix_snoc trimSuffix_other)

lemma sseLines_cut: "CHR 10 \<notin> set p \<Longrightarrow> sseLines E e st p = (Inl e, [])"
  by (subst sseLines.simps) (simp add: readString_cut)

text \<open>A stream that breaks off within the lines of a message is not read as a message.\<close>

lemma sseLines_take:
  assumes "\<forall>l \<in> set ls. plainLine l" and "forE (sseField E) ls st = Inr st'"
  shows "sseLines E e st (take k (linesText ls @ rest)) =
    (if length (linesText ls) \<le> k then sseLines E e st' (take (k - length (linesText ls)) rest)
     else (Inl e, []))"
  using assms
proof (induction ls arbitrary: st k)
  case (Cons l ls)
  from Cons.prems obtain st1 where st1: "sseField E l st = Inr st1" "forE (sseField E) ls st1 = Inr st'" by auto
  have l: "plainLine l" "CHR 10 \<notin> set l" using Cons.prems(1) by (auto simp: plainLine_def)
  show ?case
  proof (cases "length l < k")
    case True
    then obtain j where k: "k = length l + Suc j" using less_imp_Suc_add by auto
    have t: "take k (linesText (l # ls) @ rest) = l @ CHR 10 # take j (linesText ls @ rest)" by (simp add: k)
    have "sseLines E e st (take k (linesText (l # ls) @ rest)) = sseLines E e st1 (take j (linesText ls @ rest))"
      unfolding t by (rule sseLines_line [OF l(1) st1(1)])
    then show ?thesis using Cons.IH [OF _ st1(2), of j] Cons.prems(1) by (simp add: k)
  next
    case False
    then have "CHR 10 \<notin> set (take k (linesText (l # ls) @ rest))" using l(2) by (auto dest: in_set_takeD)
    from sseLines_cut [OF this] False show ?thesis by simp
  qed
qed simp

text \<open>Fields of a message as the parser sees them.\<close>

lemma sseField_line:
  assumes "CHR '':'' \<notin> set k" and "\<not> prefix [CHR 32] v"
  shows "sseField E (k @ CHR '':'' # v) (m, d) =
    (if k = ''id'' then bindE (seParseID E v) (\<lambda>i. Inr (m\<lparr>smgID := i\<rparr>, d))
     else if k = ''event'' then Inr (m\<lparr>smgEvent := v\<rparr>, d)
     else if k = ''data'' then Inr (m, (if d \<noteq> [] then d @ [CHR 10] else d) @ v)
     else Inr (m, d))"
proof -
  have "takeWhile (\<lambda>x. x \<noteq> CHR '':'') (k @ CHR '':'' # v) = k"
    "dropWhile (\<lambda>x. x \<noteq> CHR '':'') (k @ CHR '':'' # v) = CHR '':'' # v"
    using assms(1) by (induction k) auto
  then have "strCut (CHR '':'') (k @ CHR '':'' # v) = Some (k, v)" by (simp add: strCut_def)
  moreover have "trimPrefix v [CHR 32] = v" using assms(2) by (simp add: trimPrefix_def)
  ultimately show ?thesis by (simp add: sseField_def)
qed

lemma uuidString_plain: "plainLine (''id:'' @ uuidString i)" "\<not> prefix [CHR 32] (uuidString i)"
proof -
  have "CHR 10 \<notin> set (uuidString i)" "CHR 13 \<notin> set (uuidString i)" "CHR 32 \<notin> set (uuidString i)"
    by (rule uuidString_not; simp add: hexChars_def)+
  then show "plainLine (''id:'' @ uuidString i)" "\<not> prefix [CHR 32] (uuidString i)"
    by (auto simp: plainLine_def prefix_def)
qed

lemma formatUint_plain: "plainLine (''retry:'' @ formatUint n)" "\<not> prefix [CHR 32] (formatUint n)"
proof -
  have "c \<notin> set (formatUint n)" if "(of_char c :: nat) < 48" for c
    using formatUint_digits [of c n] that by auto
  from this [of "CHR 10"] this [of "CHR 13"] this [of "CHR 32"]
  have "CHR 10 \<notin> set (formatUint n)" "CHR 13 \<notin> set (formatUint n)" "CHR 32 \<notin> set (formatUint n)" by simp_all
  then show "plainLine (''retry:'' @ formatUint n)" "\<not> prefix [CHR 32] (formatUint n)"
    by (auto simp: plainLine_def prefix_def)
qed

text \<open>What the client gets of a message: the retry period is not read.\<close>

definition received :: "(sse_data \<Rightarrow> sse_data) \<Rightarrow> sse_msg \<Rightarrow> sse_msg" where
  "received wire m = m\<lparr>smgData := wire (smgData m), smgRetry := 0\<rparr>"

text \<open>
  A message as it was sent, but for the retry period, which is 0, and the time stamp.
\<close>

definition carried :: "sse_msg \<Rightarrow> sse_msg \<Rightarrow> bool" where
  "carried m x \<longleftrightarrow> smgID x = smgID m \<and> smgEvent x = smgEvent m \<and> smgRetry x = 0
     \<and> sdStatus (smgData x) = sdStatus (smgData m) \<and> sdMessage (smgData x) = sdMessage (smgData m)
     \<and> sdMeta (smgData x) = sdMeta (smgData m)"

context sse_text
begin

lemma received_carried: "textData (smgData m) \<Longrightarrow> carried m (received wire m)"
  using wire_text [of "smgData m"] by (auto simp: carried_def received_def)

lemma all_carried: "\<forall>m \<in> set ms. textData (smgData m) \<Longrightarrow> list_all2 carried ms (map (received wire) ms)"
  by (induction ms) (simp_all add: received_carried)

end

definition sendable :: "sse_env \<Rightarrow> sse_msg \<Rightarrow> bool" where
  "sendable E m \<longleftrightarrow> writable E m \<and> plainEvent (smgEvent m)"

context sse_codec
begin

lemma json_not_blank: "seMarshal E d = Inr j \<Longrightarrow> \<not> prefix [CHR 32] j \<and> j \<noteq> []"
  using json_start [of d j] by (auto simp: prefix_def)

lemma messageLines_plain:
  assumes "plainEvent (smgEvent m)" and "seMarshal E (smgData m) = Inr j"
  shows "\<forall>l \<in> set (messageLines m j). plainLine l"
  using assms(1) json_control [OF assms(2)] uuidString_plain(1) formatUint_plain(1)
  by (auto simp: messageLines_def plainEvent_def plainLine_def)

lemma messageLines_fields:
  assumes "plainEvent (smgEvent m)" and "seMarshal E (smgData m) = Inr j"
  shows "forE (sseField E) (messageLines m j) (sse_msg0, []) =
    Inr (sse_msg0\<lparr>smgID := smgID m, smgEvent := smgEvent m\<rparr>, j)"
proof -
  have i: "sseField E (''id:'' @ uuidString (smgID m)) (a, d) = Inr (a\<lparr>smgID := smgID m\<rparr>, d)" for a d
    using sseField_line [of "''id''" "uuidString (smgID m)" E a d] uuidString_plain(2) parse_id by simp
  have ev: "sseField E (''event:'' @ smgEvent m) (a, d) = Inr (a\<lparr>smgEvent := smgEvent m\<rparr>, d)" for a d
    using sseField_line [of "''event''" "smgEvent m" E a d] assms(1) by (simp add: plainEvent_def)
  have da: "sseField E (''data:'' @ j) (a, []) = Inr (a, j)" for a
    using sseField_line [of "''data''" j E a "[]"] json_not_blank [OF assms(2)] by simp
  have re: "sseField E (''retry:'' @ formatUint n) (a, d) = Inr (a, d)" for n a d
    using sseField_line [of "''retry''" "formatUint n" E a d] formatUint_plain(2) by simp
  show ?thesis
    using i ev da re by (auto simp: messageLines_def forE_append sse_msg0_def nilUUID_def [symmetric])
qed

lemma read_message_take:
  assumes "sendable E m"
  shows "readSSEMessage E e (take k (textOf E m @ rest)) =
    (if length (textOf E m) \<le> Suc k
     then (Inr (received wire m), take (Suc k - length (textOf E m)) (CHR 10 # rest))
     else (Inl e, []))"
proof -
  from assms obtain j where j: "seMarshal E (smgData m) = Inr j" and p: "plainEvent (smgEvent m)"
    using writable_marshals by (auto simp: sendable_def)
  let ?L = "linesText (messageLines m j)"
  have t: "textOf E m = ?L @ [CHR 10, CHR 10]" by (simp add: textOf_def messageText_def j)
  have x: "take k (textOf E m @ rest) = take k (?L @ CHR 10 # CHR 10 # rest)" by (simp add: t)
  note r = sseLines_take [OF messageLines_plain [OF p j] messageLines_fields [OF p j], of e k "CHR 10 # CHR 10 # rest"]
  show ?thesis
  proof (cases "Suc (length ?L) \<le> k")
    case True
    then obtain i where k: "k = length ?L + Suc i" by (metis Suc_le_D add_Suc_right le_add_diff_inverse Suc_leD le_Suc_ex add.commute add_Suc)
    have "readSSEMessage E e (take k (textOf E m @ rest)) =
      sseLines E e (sse_msg0\<lparr>smgID := smgID m, smgEvent := smgEvent m\<rparr>, j) (CHR 10 # take i (CHR 10 # rest))"
      unfolding readSSEMessage_def x r by (simp add: k)
    also have "\<dots> = (Inr (received wire m), take i (CHR 10 # rest))"
      using json_not_blank [OF j] unmarshal [OF j] by (simp add: sseLines_blank received_def sse_msg0_def)
    finally show ?thesis by (simp add: t k)
  next
    case False
    have "readSSEMessage E e (take k (textOf E m @ rest)) = (Inl e, [])"
    proof (cases "k = length ?L")
      case True
      then show ?thesis unfolding readSSEMessage_def x r by (simp add: sseLines_cut)
    next
      case False
      then have "\<not> length ?L \<le> k" using \<open>\<not> Suc (length ?L) \<le> k\<close> by simp
      then show ?thesis unfolding readSSEMessage_def x r by simp
    qed
    moreover have "\<not> length (textOf E m) \<le> Suc k" using False by (simp add: t)
    ultimately show ?thesis by simp
  qed
qed

lemma sseEvents_blank: "sseEvents E e (CHR 10 # inp) = sseEvents E e inp"
  by (subst (1 2) sseEvents.simps) (simp add: readSSEMessage_def sseLines_blank)

text \<open>Whatever part of the stream arrives, the client gets the first messages, as it receives them.\<close>

lemma sseEvents_take:
  assumes "\<forall>m \<in> set ms. sendable E m"
  shows "\<exists>n \<le> length ms. sseEvents E e (take k (concat (map (textOf E) ms)))
      = (take n (map (received wire) ms), if errorsIs e ErrEOF then None else Some e)
    \<and> (length (concat (map (textOf E) ms)) \<le> k \<longrightarrow> n = length ms)"
  using assms
proof (induction ms arbitrary: k)
  case Nil
  show ?case by (subst sseEvents.simps) (simp add: readSSEMessage_def sseLines_cut)
next
  case (Cons m ms)
  let ?t = "textOf E m" and ?rest = "concat (map (textOf E) ms)"
  have m: "sendable E m" using Cons.prems by simp
  show ?case
  proof (cases "length ?t \<le> Suc k")
    case True
    let ?k = "k - length ?t"
    from Cons.IH [of ?k] Cons.prems obtain n where n: "n \<le> length ms"
      "sseEvents E e (take ?k ?rest) = (take n (map (received wire) ms), if errorsIs e ErrEOF then None else Some e)"
      "length ?rest \<le> ?k \<longrightarrow> n = length ms" by auto
    have r: "readSSEMessage E e (take k (?t @ ?rest)) = (Inr (received wire m), take (Suc k - length ?t) (CHR 10 # ?rest))"
      using read_message_take [OF m, of e k ?rest] True by simp
    have "sseEvents E e (take (Suc k - length ?t) (CHR 10 # ?rest)) = sseEvents E e (take ?k ?rest)"
    proof (cases "length ?t \<le> k")
      case True
      then show ?thesis by (simp add: Suc_diff_le sseEvents_blank)
    qed simp
    then have "sseEvents E e (take k (?t @ ?rest))
        = (take (Suc n) (map (received wire) (m # ms)), if errorsIs e ErrEOF then None else Some e)"
      using n(2) by (subst sseEvents.simps, unfold r) simp
    moreover have "length (?t @ ?rest) \<le> k \<longrightarrow> length ?rest \<le> ?k" by auto
    ultimately show ?thesis using n(1,3) by (intro exI [of _ "Suc n"]) simp
  next
    case False
    then have "readSSEMessage E e (take k (?t @ ?rest)) = (Inl e, [])"
      using read_message_take [OF m, of e k ?rest] by simp
    then have "sseEvents E e (take k (?t @ ?rest)) = (take 0 (map (received wire) (m # ms)), if errorsIs e ErrEOF then None else Some e)"
      by (subst sseEvents.simps, simp only:) simp
    moreover have "\<not> length (?t @ ?rest) \<le> k" using False by simp
    ultimately show ?thesis by (intro exI [of _ 0]) simp
  qed
qed

lemma subscription_take:
  assumes "sendable E m" and "\<forall>m \<in> set ms. sendable E m"
    and "smgEvent m = SSEEventSubscribe" and "smgID m \<noteq> nilUUID"
    and "length (textOf E m) \<le> Suc k"
  shows "\<exists>n \<le> length ms. SubscribeEvents E ErrEOF (take k (concat (map (textOf E) (m # ms))))
      = Inr (smgID m, take n (map (received wire) ms), None)
    \<and> (length (concat (map (textOf E) (m # ms))) \<le> k \<longrightarrow> n = length ms)"
proof -
  let ?rest = "concat (map (textOf E) ms)" and ?k = "k - length (textOf E m)"
  have r: "readSSEMessage E ErrEOF (take k (textOf E m @ ?rest))
      = (Inr (received wire m), take (Suc k - length (textOf E m)) (CHR 10 # ?rest))"
    using read_message_take [OF assms(1), of ErrEOF k ?rest] assms(5) by simp
  have ev: "sseEvents E ErrEOF (take (Suc k - length (textOf E m)) (CHR 10 # ?rest)) = sseEvents E ErrEOF (take ?k ?rest)"
    by (cases "length (textOf E m) \<le> k") (simp_all add: Suc_diff_le sseEvents_blank)
  from sseEvents_take [OF assms(2), of ErrEOF ?k] obtain n where n: "n \<le> length ms"
    "sseEvents E ErrEOF (take ?k ?rest) = (take n (map (received wire) ms), None)"
    "length ?rest \<le> ?k \<longrightarrow> n = length ms" by auto
  have "SubscribeEvents E ErrEOF (take k (textOf E m @ ?rest)) = Inr (smgID m, take n (map (received wire) ms), None)"
    unfolding SubscribeEvents_def r using assms(3,4) n(2) ev by (simp add: received_def)
  moreover have "length (textOf E m @ ?rest) \<le> k \<longrightarrow> length ?rest \<le> ?k" by auto
  ultimately show ?thesis using n(1,3) by (intro exI [of _ n]) auto
qed

lemma subscription_cut:
  assumes "sendable E m" and "\<not> length (textOf E m) \<le> Suc k"
  shows "\<exists>e. SubscribeEvents E ErrEOF (take k (concat (map (textOf E) (m # ms)))) = Inl e"
proof -
  have "readSSEMessage E ErrEOF (take k (textOf E m @ concat (map (textOf E) ms))) = (Inl ErrEOF, [])"
    unfolding read_message_take [OF assms(1)] using assms(2) by simp
  then show ?thesis unfolding SubscribeEvents_def list.map concat.simps by simp
qed

end

section \<open>Instances\<close>

text \<open>A connection that accepts \<open>room\<close> more bytes and then breaks.\<close>

record conn =
  cnSent :: bytes
  cnRoom :: nat

definition conn_write :: "conn writer" where
  "conn_write b c =
     (let k = min (cnRoom c) (length b)
      in ((int k, if k < length b then Some ErrClosed else None),
          c\<lparr>cnSent := cnSent c @ take k b, cnRoom := cnRoom c - k\<rparr>))"

definition conn_flush :: "conn \<Rightarrow> err option \<times> conn" where
  "conn_flush c = (None, c)"

interpretation sseconn: io_writer conn_write conn_flush cnSent
  by unfold_locales (auto simp: conn_write_def conn_flush_def Let_def)

text \<open>A buffer, which accepts everything.\<close>

definition buf_write :: "bytes writer" where
  "buf_write b w = ((int (length b), None), w @ b)"

definition buf_flush :: "bytes \<Rightarrow> err option \<times> bytes" where
  "buf_flush w = (None, w)"

interpretation ssebuf: io_writer buf_write buf_flush "\<lambda>w. w"
  by unfold_locales (auto simp: buf_write_def buf_flush_def)

lemma buf_thenW: "snd (fst r) = None \<Longrightarrow> (\<And>w. snd (fst (f w)) = None) \<Longrightarrow> snd (fst (thenW r f)) = None"
  by (cases r; cases "f (snd r)") (auto simp: thenW_def, metis fst_conv snd_conv)

lemma buf_WriteTo:
  assumes "seMarshal E (smgData m) = Inr j"
  shows "snd (fst (SSEMessage_WriteTo E buf_write m w)) = None"
proof -
  have w: "snd (fst (buf_write b w)) = None" for b w by (simp add: buf_write_def)
  have "snd (fst (writeTo buf_write k v w)) = None" for k v w unfolding writeTo_def by (intro buf_thenW w)
  then have c: "snd (fst (if b then writeTo buf_write k v w else ((0, None), w))) = None" for b k v w by simp
  show ?thesis unfolding SSEMessage_WriteTo_def assms sum.case by (intro buf_thenW w c [where b = True, simplified] c)
qed

lemma buf_stream: "\<forall>m \<in> set ms. writable E m \<Longrightarrow> fst (sseStream E buf_write buf_flush ms w) = None"
proof (induction ms arbitrary: w)
  case (Cons m ms)
  then obtain j where "seMarshal E (smgData m) = Inr j" using writable_marshals [of E m] by auto
  from buf_WriteTo [OF this, of w] Cons show ?case by (auto simp: buf_flush_def split: prod.split)
qed simp

text \<open>A JSON-like form of event data: braces, and the fields in hexadecimal.\<close>

definition dataFits :: "sse_data \<Rightarrow> bool" where
  "dataFits d \<longleftrightarrow> - 9223372036854775808 \<le> sdTimestamp d \<and> sdTimestamp d < 9223372036854775808
     \<and> (\<forall>s \<in> {sdMessage d, smOldPath (sdMeta d), smPath (sdMeta d), smAction (sdMeta d)}.
          length s < 18446744073709551616)"

definition sse_marshal :: "sse_data \<Rightarrow> err + bytes" where
  "sse_marshal d =
     (if dataFits d
      then Inr (CHR 123 # hexEncode (encInt (sdTimestamp d) @ [if sdStatus d then CHR 0x01 else CHR 0x00]
        @ idBytes (smID (sdMeta d)) @ encStr (sdMessage d) @ encStr (smOldPath (sdMeta d))
        @ encStr (smPath (sdMeta d)) @ encStr (smAction (sdMeta d))))
      else Inl (ErrOther ''json''))"

definition sse_unmarshal :: "bytes \<Rightarrow> err + sse_data" where
  "sse_unmarshal j =
     (let b = hexDecode (tl j); (msg, b1) = decStr (drop 25 b); (old, b2) = decStr b1;
          (path, b3) = decStr b2; (act, b4) = decStr b3
      in Inr \<lparr>sdTimestamp = decInt (take 8 b), sdStatus = (b ! 8 = CHR 0x01), sdMessage = msg,
           sdMeta = \<lparr>smOldPath = old, smID = idOfBytes (take 16 (drop 9 b)), smPath = path, smAction = act\<rparr>\<rparr>)"

definition mem_sse :: sse_env where
  "mem_sse = \<lparr>seMarshal = sse_marshal, seMarshalObject = (\<lambda>fs. Inl (ErrOther ''json'')),
     seUnmarshal = sse_unmarshal, seParseID = (\<lambda>s. Inr (uuidParse s)), seRFC3339 = (\<lambda>t. [])\<rparr>"

lemma mem_sse_simps [simp]:
  "seMarshal mem_sse = sse_marshal" "seUnmarshal mem_sse = sse_unmarshal"
  "seParseID mem_sse s = Inr (uuidParse s)"
  by (simp_all add: mem_sse_def)

lemma sse_unmarshal_marshal: "sse_marshal d = Inr j \<Longrightarrow> sse_unmarshal j = Inr d"
  by (cases d; cases "sdMeta d") (auto simp: sse_marshal_def sse_unmarshal_def dataFits_def
    hexDecode_hexEncode nth_append decStr_encStr decStr_encStr_end decInt_encInt Let_def split: if_splits)

interpretation memsse: sse_codec mem_sse "\<lambda>d. d"
proof
  fix d j assume "seMarshal mem_sse d = Inr j"
  then have j: "sse_marshal d = Inr j" by simp
  show "seUnmarshal mem_sse j = Inr d" using sse_unmarshal_marshal [OF j] by simp
  show "prefix [CHR 123] j" using j by (auto simp: sse_marshal_def split: if_splits)
  have "CHR 10 \<notin> set (hexEncode b)" "CHR 13 \<notin> set (hexEncode b)" for b
    using hexEncode_chars by (fastforce simp: hexChars_def)+
  then show "CHR 10 \<notin> set j \<and> CHR 13 \<notin> set j" using j by (auto simp: sse_marshal_def split: if_splits)
next
  show "seParseID mem_sse (uuidString i) = Inr i" for i by (simp add: uuidParse_uuidString)
qed

interpretation memtext: sse_text mem_sse "\<lambda>d. d"
proof
  fix d :: sse_data
  show "\<exists>t. d = d\<lparr>sdTimestamp := t\<rparr>" by (rule exI [of _ "sdTimestamp d"]) simp
qed

end
