(* ===== verification/Sse_Theorems.thy ===== *)
theory Sse_Theorems
  imports Sse_Inv Sse_Wire
begin

text \<open>
  The properties of the event service: what is written and read back, what the broker delivers,
  and that a subscriber's client sees only what was addressed to it.
\<close>

section \<open>The wire\<close>

text \<open>Messages of ordinary size can be sent with the in-memory codec.\<close>

definition small :: "sse_msg \<Rightarrow> bool" where
  "small m \<longleftrightarrow> plainEvent (smgEvent m) \<and> length (smgEvent m) < 1000 \<and> smgRetry m \<in> {0, 3000000000}
     \<and> sdTimestamp (smgData m) = 0 \<and> length (sdMessage (smgData m)) < 1000 \<and> sdMeta (smgData m) = sse_meta0"

lemma formatUint_length: "length (formatUint n) \<le> Suc n"
proof (induction n rule: formatUint.induct)
  case (1 n)
  have "length (formatUint (n div 10)) \<le> n" if "\<not> n < 10"
  proof -
    have "length (formatUint (n div 10)) \<le> Suc (n div 10)" using 1 that by simp
    moreover have "n div 10 < n" using that by simp
    ultimately show ?thesis by linarith
  qed
  then show ?case by (subst formatUint.simps) simp
qed

lemma small_sendable:
  assumes "small m"
  shows "sendable mem_sse m"
proof -
  have z: "smOldPath sse_meta0 = []" "smID sse_meta0 = nilUUID" "smPath sse_meta0 = []" "smAction sse_meta0 = []"
    by (simp_all add: sse_meta0_def)
  have m: "sse_marshal (smgData m) = Inr (CHR 123 # hexEncode (encInt 0
      @ [if sdStatus (smgData m) then CHR 0x01 else CHR 0x00]
      @ idBytes nilUUID @ encStr (sdMessage (smgData m)) @ encStr [] @ encStr [] @ encStr []))"
    using assms by (simp add: sse_marshal_def dataFits_def small_def z)
  have d: "durationIn 1000 3000000000 = 3000000" "durationIn 1000 0 = 0" by (simp_all add: durationIn_def)
  have "int (length (formatUint (nat (durationIn 1000 (smgRetry m))))) \<le> 3000001"
    using assms formatUint_length [of 3000000] formatUint_length [of 0] by (auto simp: small_def d)
  then have "int (length (textOf mem_sse m)) < 2 ^ 63"
    using assms by (simp add: textOf_def messageText_def messageLines_def m length_hexEncode encStr_def
      length_uuidString small_def)
  with m assms show ?thesis by (simp add: sendable_def writable_def small_def)
qed

definition run_msg :: "uuid \<Rightarrow> string \<Rightarrow> sse_msg" where
  "run_msg i ev = \<lparr>smgID = i, smgEvent = ev, smgData = sse_data0\<lparr>sdMessage := ''hello''\<rparr>,
     smgRetry = 3000000000\<rparr>"

lemma run_sendables:
  "sendable mem_sse (run_msg i SSEEventPublish)" "sendable mem_sse (run_msg i SSEEventSubscribe)"
  "sendable mem_sse (clInitial (newClient i 0 addr user))"
  by (rule small_sendable; simp add: small_def run_msg_def newClient_def plainEvent_def sse_data0_def
    SSEEventPublish_def SSEEventSubscribe_def)+

text \<open>
  \<open>WriteTo\<close> writes the event's text: what the writer accepted is a beginning of it, the count
  returned is the number of bytes accepted, and without an error it is the whole text.
\<close>

theorem sse_write_exact:
  assumes "io_writer wr flush sink" and "writable E m"
    and "SSEMessage_WriteTo E wr m w = ((n, e), w')"
  shows "\<exists>k \<le> length (textOf E m). sink w' = sink w @ take k (textOf E m) \<and> n = int k
    \<and> (e = None \<longrightarrow> k = length (textOf E m))"
  using io_writer.WriteTo_text [OF assms] .

theorem sse_write_exact_witness:
  "\<exists>k \<le> length (textOf mem_sse (run_msg 5 SSEEventPublish)).
    cnSent (snd (SSEMessage_WriteTo mem_sse conn_write (run_msg 5 SSEEventPublish) \<lparr>cnSent = ''x'', cnRoom = 7\<rparr>))
      = ''x'' @ take k (textOf mem_sse (run_msg 5 SSEEventPublish))"
proof -
  have w: "writable mem_sse (run_msg 5 SSEEventPublish)" using run_sendables by (simp add: sendable_def)
  obtain n e w' where r: "SSEMessage_WriteTo mem_sse conn_write (run_msg 5 SSEEventPublish) \<lparr>cnSent = ''x'', cnRoom = 7\<rparr> = ((n, e), w')"
    by (metis prod.collapse)
  from sse_write_exact [OF sseconn.io_writer_axioms w r] show ?thesis by (auto simp: r)
qed

lemma stream_delivered:
  assumes "sse_codec E wire" and "io_writer wr flush sink"
    and "\<forall>m \<in> set (m0 # ms). sendable E m" and "smgEvent m0 = SSEEventSubscribe" and "smgID m0 \<noteq> nilUUID"
    and "sink w = []" and "sseStream E wr flush (m0 # ms) w = (e, w')"
  shows "(\<exists>err. SubscribeEvents E ErrEOF (sink w') = Inl err \<and> e \<noteq> None)
    \<or> (\<exists>n \<le> length ms. SubscribeEvents E ErrEOF (sink w') = Inr (smgID m0, take n (map (received wire) ms), None)
        \<and> (e = None \<longrightarrow> n = length ms))"
proof -
  let ?t = "concat (map (textOf E) (m0 # ms))"
  have "\<forall>m \<in> set (m0 # ms). writable E m" using assms(3) by (simp add: sendable_def)
  from io_writer.sseStream_text [OF assms(2) this assms(7)]
  obtain k where k: "k \<le> length ?t" "sink w' = take k ?t" "e = None \<longrightarrow> k = length ?t"
    using assms(6) by auto
  show ?thesis
  proof (cases "length (textOf E m0) \<le> Suc k")
    case True
    from sse_codec.subscription_take [OF assms(1) _ _ assms(4,5) True, of ms] assms(3)
    show ?thesis unfolding k(2) using k(3) by auto
  next
    case False
    then have "e \<noteq> None" using k(3) by auto
    with sse_codec.subscription_cut [OF assms(1) _ False, of ms] assms(3) show ?thesis unfolding k(2) by auto
  qed
qed

text \<open>
  C25. However far the stream gets, the client gets the beginning of what was sent: after the
  subscription the first messages, in order, each with its identifier, event, status, text and
  metadata; all of them when nothing failed. Not carried are the retry period, which the server
  writes and the client does not read, so that it is always 0, and the time stamp beyond what JSON
  keeps of it. The texts must be UTF-8.
\<close>

theorem sse_stream_delivered:
  assumes "sse_text E wire" and "io_writer wr flush sink"
    and "\<forall>m \<in> set (m0 # ms). sendable E m" and "\<forall>m \<in> set ms. textData (smgData m)"
    and "smgEvent m0 = SSEEventSubscribe" and "smgID m0 \<noteq> nilUUID"
    and "sink w = []" and "sseStream E wr flush (m0 # ms) w = (e, w')"
  shows "(\<exists>err. SubscribeEvents E ErrEOF (sink w') = Inl err \<and> e \<noteq> None)
    \<or> (\<exists>n \<le> length ms. \<exists>events. SubscribeEvents E ErrEOF (sink w') = Inr (smgID m0, events, None)
        \<and> list_all2 carried (take n ms) events \<and> (e = None \<longrightarrow> n = length ms))"
proof -
  note codec = sse_text.axioms(1) [OF assms(1)]
  have "list_all2 carried (take n ms) (take n (map (received wire) ms))" for n
    using sse_text.all_carried [OF assms(1,4)] by (rule list_all2_takeI)
  with stream_delivered [OF codec assms(2,3,5-8)] show ?thesis by blast
qed

theorem sse_stream_delivered_witness:
  "\<exists>x. SubscribeEvents mem_sse ErrEOF (snd (sseStream mem_sse buf_write buf_flush
      [run_msg 5 SSEEventSubscribe, run_msg 5 SSEEventPublish] [])) = Inr (5, [x], None)
    \<and> smgRetry (run_msg 5 SSEEventPublish) = 3000000000 \<and> carried (run_msg 5 SSEEventPublish) x"
proof -
  obtain e w' where r: "sseStream mem_sse buf_write buf_flush [run_msg 5 SSEEventSubscribe, run_msg 5 SSEEventPublish] []
      = (e, w')" by (metis prod.collapse)
  have i: "smgEvent (run_msg 5 SSEEventSubscribe) = SSEEventSubscribe" "smgID (run_msg 5 SSEEventSubscribe) = 5"
    "smgRetry (run_msg 5 SSEEventPublish) = 3000000000"
    by (simp_all add: run_msg_def)
  have t: "\<forall>m \<in> set [run_msg 5 SSEEventPublish]. textData (smgData m)"
    by (simp add: textData_def run_msg_def sse_data0_def sse_meta0_def utf8_Cons_ascii)
  have d: "\<forall>m \<in> set [run_msg 5 SSEEventSubscribe, run_msg 5 SSEEventPublish]. sendable mem_sse m"
    using run_sendables by simp
  then have "\<forall>m \<in> set [run_msg 5 SSEEventSubscribe, run_msg 5 SSEEventPublish]. writable mem_sse m"
    by (simp add: sendable_def)
  from buf_stream [OF this, of "[]"] have "e = None" by (simp only: r fst_conv)
  with sse_stream_delivered [OF memtext.sse_text_axioms ssebuf.io_writer_axioms d t i(1) _ _ r]
  show ?thesis unfolding r by (auto simp: i nilUUID_def list_all2_Cons1)
qed

section \<open>The broker\<close>

text \<open>A run: a subscription, a message to every client of the user, and its receipt.\<close>

definition run_client :: sse_client where
  "run_client = newClient 5 0 ''addr'' ''u''"

definition run_pub :: publication where
  "run_pub = \<lparr>pubUser = ''u'', pubMsg = run_msg nilUUID SSEEventPublish\<rparr>"

definition run_state :: "sse_client list \<Rightarrow> publication list \<Rightarrow> bool \<Rightarrow> sse_msg list \<Rightarrow> sse_msg list
    \<Rightarrow> publication list \<Rightarrow> bsys" where
  "run_state new msgs reg buf recv log =
     \<lparr>bsB = \<lparr>bkNew = new, bkClosing = [], bkMessage = msgs,
        bkClients = (if reg then [5 \<mapsto> run_client] else Map.empty),
        bkChans = [5 \<mapsto> \<lparr>chBuf = buf, chClosed = False\<rparr>], bkReady = (if reg then [5] else []),
        bkDone = False, bkRunning = True, bkListening = True\<rparr>,
      bsOwner = [5 \<mapsto> run_client], bsRecv = (\<lambda>i. if i = 5 then recv else []), bsLog = log,
      bsCalls = Map.empty, bsReply = None\<rparr>"

abbreviation run_waiting :: bsys where
  "run_waiting \<equiv> run_state [] [run_pub] True [clInitial run_client] [] []"

abbreviation run_sent :: bsys where
  "run_sent \<equiv> run_state [] [] True [clInitial run_client, pubMsg run_pub] [] [run_pub]"

abbreviation run_received :: bsys where
  "run_received \<equiv> run_state [] [] True [] [clInitial run_client, pubMsg run_pub] [run_pub]"

lemma run_clID [simp]: "ciID (clInfo run_client) = 5" "ciUser (clInfo run_client) = ''u''"
  by (simp_all add: run_client_def)

lemma run_pub_simps: "pubUser run_pub = ''u''" "smgID (pubMsg run_pub) = nilUUID"
  by (simp_all add: run_pub_def run_msg_def)

lemma run_waiting_reach: "(bk_step 10 100)\<^sup>*\<^sup>* bk_start run_waiting"
proof -
  let ?a = "run_state [run_client] [] False [] [] []" and ?b = "run_state [] [] True [clInitial run_client] [] []"
  have a: "?a = bk_start\<lparr>bsB := subscribe_send 5 0 ''addr'' ''u'' (bsB bk_start),
      bsOwner := (bsOwner bk_start)(5 \<mapsto> newClient 5 0 ''addr'' ''u'')\<rparr>"
    by (simp add: run_state_def bk_start_def NewSSEBroker_def subscribe_send_def run_client_def fun_eq_iff)
  have "bk_step 10 100 bk_start ?a"
    unfolding a by (rule bk_subscribe) (simp_all add: bk_start_def NewSSEBroker_def room_def nilUUID_def)
  moreover have "bk_step 10 100 ?a (?a\<lparr>bsB := bsB ?b\<rparr>)"
    by (rule bk_new [of _ run_client "[]"])
      (simp_all add: run_state_def listen_new_def chanSend_def defaultBufferSize_def Let_def)
  moreover have "?a\<lparr>bsB := bsB ?b\<rparr> = ?b" by (simp add: run_state_def)
  moreover have "bk_step 10 100 ?b (?b\<lparr>bsB := message_send ''u'' (pubMsg run_pub) (bsB ?b)\<rparr>)"
    by (rule bk_publish) (simp add: run_state_def room_def)
  moreover have "?b\<lparr>bsB := message_send ''u'' (pubMsg run_pub) (bsB ?b)\<rparr> = run_waiting"
    by (simp add: run_state_def message_send_def run_pub_def)
  ultimately show ?thesis by simp
qed

lemma run_message: "listen_message [5] run_pub ((bsB run_waiting)\<lparr>bkMessage := []\<rparr>) = Proceeds (bsB run_sent)"
  by (simp add: listen_message_def run_pub_def run_msg_def run_state_def broadcastStep_def chanTrySend_def
    chanSend_def defaultBufferSize_def)

lemma run_sent_reach: "(bk_step 10 100)\<^sup>*\<^sup>* bk_start run_sent"
proof -
  have "bk_step 10 100 run_waiting (run_waiting\<lparr>bsB := bsB run_sent, bsLog := bsLog run_waiting @ [run_pub]\<rparr>)"
    by (rule bk_message [of _ run_pub "[]" "[5]"]) (rule run_message | simp add: run_state_def)+
  moreover have "run_waiting\<lparr>bsB := bsB run_sent, bsLog := bsLog run_waiting @ [run_pub]\<rparr> = run_sent"
    by (simp add: run_state_def)
  ultimately show ?thesis using run_waiting_reach by (metis rtranclp.rtrancl_into_rtrancl)
qed

lemma run_received_reach: "(bk_step 10 100)\<^sup>*\<^sup>* bk_start run_received"
proof -
  let ?a = "run_state [] [] True [pubMsg run_pub] [clInitial run_client] [run_pub]"
  have a: "?a = run_sent\<lparr>bsB := (bsB run_sent)\<lparr>bkChans := (bkChans (bsB run_sent))(5 \<mapsto>
      \<lparr>chBuf = [clInitial run_client, pubMsg run_pub], chClosed = False\<rparr>\<lparr>chBuf := [pubMsg run_pub]\<rparr>)\<rparr>,
      bsRecv := (bsRecv run_sent)(5 := bsRecv run_sent 5 @ [clInitial run_client])\<rparr>"
    by (simp add: run_state_def fun_eq_iff)
  have "bk_step 10 100 run_sent ?a"
    unfolding a by (rule bk_receive) (simp_all add: run_state_def)
  moreover have r: "run_received = ?a\<lparr>bsB := (bsB ?a)\<lparr>bkChans := (bkChans (bsB ?a))(5 \<mapsto>
      \<lparr>chBuf = [pubMsg run_pub], chClosed = False\<rparr>\<lparr>chBuf := []\<rparr>)\<rparr>,
      bsRecv := (bsRecv ?a)(5 := bsRecv ?a 5 @ [pubMsg run_pub])\<rparr>"
    by (simp add: run_state_def fun_eq_iff)
  have "bk_step 10 100 ?a run_received"
    unfolding r by (rule bk_receive) (simp_all add: run_state_def)
  ultimately show ?thesis using run_sent_reach by (meson rtranclp.rtrancl_into_rtrancl)
qed





text \<open>
  C27. What a subscriber was ever sent, received or still in its channel, is its own subscription
  and then publications of its own user, addressed to all the user's clients or to it alone, in
  the order the broker handled them and none twice.
\<close>

theorem subscriber_history:
  assumes "(bk_step cc cm)\<^sup>*\<^sup>* bk_start s" and "i \<in> set (bkReady (bsB s))"
  shows "\<exists>c ch rest. bsOwner s i = Some c \<and> bkChans (bsB s) i = Some ch
    \<and> bsRecv s i @ chBuf ch = clInitial c # rest
    \<and> subseq rest (map pubMsg (filter (\<lambda>p. pubUser p = ciUser (clInfo c)
        \<and> (smgID (pubMsg p) = nilUUID \<or> smgID (pubMsg p) = ciID (clInfo c))) (bsLog s)))"
proof -
  have a: "(\<lambda>p. pubUser p = ciUser (clInfo c) \<and> (smgID (pubMsg p) = nilUUID \<or> smgID (pubMsg p) = ciID (clInfo c)))
      = addressed c" for c by (simp add: addressed_def fun_eq_iff)
  show ?thesis
    unfolding a using bk_reach_ok [OF assms(1)] assms(2) by (auto simp: bk_ok_def historyOk_def history_def)
qed

theorem subscriber_history_witness:
  "\<exists>rest. [clInitial run_client, pubMsg run_pub] = clInitial run_client # rest
    \<and> subseq rest (map pubMsg (filter (\<lambda>p. pubUser p = ''u'' \<and> (smgID (pubMsg p) = nilUUID \<or> smgID (pubMsg p) = 5)) [run_pub]))"
  using subscriber_history [OF run_received_reach, of 5] by (simp add: run_state_def run_pub_simps)

text \<open>
  C28. Handling a publication appends it to the channel of exactly the clients it is addressed to,
  and drops it for a client whose channel holds a hundred messages; no other channel changes.
\<close>

theorem broker_delivers:
  assumes "(bk_step cc cm)\<^sup>*\<^sup>* bk_start s" and "distinct ids" and "set ids = dom (bkClients (bsB s))"
    and "listen_message ids p ((bsB s)\<lparr>bkMessage := ps\<rparr>) = Proceeds b"
  shows "bkClients b = bkClients (bsB s) \<and> bkChans b i = (case bkClients (bsB s) i of
      None \<Rightarrow> bkChans (bsB s) i
    | Some c \<Rightarrow> map_option (\<lambda>ch. if pubUser p = ciUser (clInfo c)
          \<and> (smgID (pubMsg p) = nilUUID \<or> smgID (pubMsg p) = ciID (clInfo c)) \<and> length (chBuf ch) < 100
        then ch\<lparr>chBuf := chBuf ch @ [pubMsg p]\<rparr> else ch) (bkChans (bsB s) i))"
proof -
  have b: "b = deliver (\<lambda>i. \<exists>c. bkClients (bsB s) i = Some c \<and> addressed c p) (pubMsg p) ((bsB s)\<lparr>bkMessage := ps\<rparr>)"
    using assms(4) unfolding listen_message_proceeds [OF bk_reach_ok [OF assms(1)] assms(2,3)] by simp
  show ?thesis
    by (auto simp: b addressed_def push_def [abs_def] defaultBufferSize_def option.map_id0 id_def
      split: option.split intro: option.map_cong option.map_ident [symmetric])
qed

theorem broker_delivers_witness:
  "bkChans (bsB run_sent) 5 = Some \<lparr>chBuf = [clInitial run_client, pubMsg run_pub], chClosed = False\<rparr>"
  using broker_delivers [OF run_waiting_reach _ _ run_message, of 5]
  by (simp add: run_state_def run_pub_def run_msg_def)

text \<open>
  A subscriber's channel is open exactly while its client is registered or waits to be, holds
  at most a hundred messages, and all registered channels are closed when the loop has ended.
\<close>

theorem channels_closed:
  assumes "(bk_step cc cm)\<^sup>*\<^sup>* bk_start s" and "bkChans (bsB s) i = Some ch"
  shows "length (chBuf ch) \<le> 100
    \<and> (chClosed ch \<longleftrightarrow> i \<notin> dom (bkClients (bsB s)) \<and> i \<notin> (\<lambda>c. ciID (clInfo c)) ` set (bkNew (bsB s)))
    \<and> (bkListening (bsB s) \<or> bkClients (bsB s) = Map.empty)"
proof -
  note ok = bk_reach_ok [OF assms(1)]
  have "length (chBuf ch) \<le> defaultBufferSize \<and> (chClosed ch \<or> i \<in> dom (bkClients (bsB s)) \<or> i \<in> clID ` set (bkNew (bsB s)))"
    using ok assms(2) by (simp add: bk_ok_def chansOk_def)
  moreover have "\<not> chClosed ch" if "i \<in> dom (bkClients (bsB s))"
    using that bk_ok_client [OF ok] assms(2) by fastforce
  moreover have "\<not> chClosed ch" if "i \<in> clID ` set (bkNew (bsB s))"
    using that ok assms(2) by (auto simp: bk_ok_def pendingOk_def)
  moreover have "bkListening (bsB s) \<or> bkClients (bsB s) = Map.empty"
    using ok by (auto simp: bk_ok_def clientsOk_def)
  ultimately show ?thesis by (auto simp: defaultBufferSize_def)
qed

theorem channels_closed_witness: "\<not> chClosed \<lparr>chBuf = [clInitial run_client, pubMsg run_pub], chClosed = False\<rparr> \<and> 2 \<le> (100 :: nat)"
  using channels_closed [OF run_sent_reach, of 5 "\<lparr>chBuf = [clInitial run_client, pubMsg run_pub], chClosed = False\<rparr>"]
  by (simp add: run_state_def)

text \<open>
  C29. From end to end: when a subscriber's stream writes what the subscriber received, its client
  parses its own identifier and then only publications of its own user that are addressed to it,
  in the order the broker handled them.
\<close>

theorem client_sees_own_events:
  assumes "sse_codec E wire" and "io_writer wr flush sink"
    and "(bk_step cc cm)\<^sup>*\<^sup>* bk_start s" and "i \<in> set (bkReady (bsB s))" and "bsRecv s i \<noteq> []"
    and "\<forall>m \<in> set (bsRecv s i). sendable E m"
    and "sink w = []" and "sseStream E wr flush (bsRecv s i) w = (e, w')"
    and "SubscribeEvents E ErrEOF (sink w') = Inr (j, events, err)"
  shows "j = i \<and> (\<exists>c rest. bsOwner s i = Some c \<and> events = map (received wire) rest
    \<and> subseq rest (map pubMsg (filter (addressed c) (bsLog s))))"
proof -
  obtain c and ch :: sse_chan where c1: "bsOwner s i = Some c" "history c (bsRecv s i @ chBuf ch) (bsLog s)"
    using bk_reach_ok [OF assms(3)] assms(4) unfolding bk_ok_def historyOk_def by blast
  then obtain rest where c: "bsOwner s i = Some c" "bsRecv s i @ chBuf ch = clInitial c # rest"
    "subseq rest (map pubMsg (filter (addressed c) (bsLog s)))" unfolding history_def by blast
  from c(2) assms(5) obtain ms where ms: "bsRecv s i = clInitial c # ms" "rest = ms @ chBuf ch"
    by (cases "bsRecv s i") auto
  from bk_reach_ok [OF assms(3)] c(1) obtain now addr user where n: "i \<noteq> nilUUID" "c = newClient i now addr user"
    unfolding bk_ok_def ownersOk_def by blast
  have i: "smgEvent (clInitial c) = SSEEventSubscribe" "smgID (clInitial c) = i"
    by (simp_all add: n(2) newClient_def)
  from stream_delivered [OF assms(1,2) assms(6) [unfolded ms(1)] i(1) _ assms(7) assms(8) [unfolded ms(1)]]
  obtain k where "j = i" "events = take k (map (received wire) ms)" using assms(9) i(2) n(1) by auto
  moreover have "subseq (take k ms) (map pubMsg (filter (addressed c) (bsLog s)))"
    using c(3) ms(2) by (metis append_take_drop_id prefix_imp_subseq prefixI subseq_order.trans)
  ultimately show ?thesis
    using c(1) by (intro conjI exI [of _ c] exI [of _ "take k ms"]) (simp_all add: take_map)
qed

theorem client_sees_own_events_witness:
  "\<exists>events. SubscribeEvents mem_sse ErrEOF (snd (sseStream mem_sse buf_write buf_flush
      [clInitial run_client, pubMsg run_pub] [])) = Inr (5, events, None)
    \<and> (\<exists>rest. events = map (received (\<lambda>d. d)) rest \<and> subseq rest [pubMsg run_pub])"
proof -
  have m: "bsRecv run_received 5 = [clInitial run_client, pubMsg run_pub]" by (simp add: run_state_def)
  obtain e w' where r: "sseStream mem_sse buf_write buf_flush (bsRecv run_received 5) [] = (e, w')"
    by (metis prod.collapse)
  have d: "\<forall>m \<in> set (bsRecv run_received 5). sendable mem_sse m"
    using run_sendables unfolding m by (simp add: run_client_def run_pub_def)
  then have "\<forall>m \<in> set (bsRecv run_received 5). writable mem_sse m" by (simp add: sendable_def)
  from buf_stream [OF this, of "[]"] have e: "e = None" by (simp only: r fst_conv)
  have i: "smgEvent (clInitial run_client) = SSEEventSubscribe" "smgID (clInitial run_client) \<noteq> nilUUID"
    "smgID (clInitial run_client) = 5"
    by (simp_all add: run_client_def newClient_def nilUUID_def)
  from stream_delivered [OF memsse.sse_codec_axioms ssebuf.io_writer_axioms d [unfolded m] i(1,2) refl r [unfolded m]] e i(3)
  obtain events where ev: "SubscribeEvents mem_sse ErrEOF w' = Inr (5, events, None)" by auto
  from client_sees_own_events [OF memsse.sse_codec_axioms ssebuf.io_writer_axioms run_received_reach _ _ d _ r ev] ev r
  show ?thesis by (simp add: m run_state_def addressed_def run_pub_simps)
qed

end
