(* ===== verification/Vfs_Service.thy ===== *)
theory Vfs_Service
  imports Formats Vfs
begin

text \<open>
  The server's view of a drive (\<open>internal/server/services/vfs.go\<close>): the interface \<open>vfs.VFS\<close> as a
  record of operations on a drive of type \<open>'d\<close>, and the service that adds the resource URLs to
  what the drive returns. Readers handed to a drive are of type \<open>'i\<close>, the readers it hands out of
  type \<open>'r\<close>.
\<close>

section \<open>The interface\<close>

record ('d, 'i, 'r) vfs_ops =
  vList :: "'d \<Rightarrow> string \<Rightarrow> err + vmeta list"
  vOpen :: "'d \<Rightarrow> uuid \<Rightarrow> err + 'r vfile"
  vCreate :: "'d \<Rightarrow> string \<Rightarrow> 'i \<Rightarrow> (err + vmeta) \<times> 'd"
  vWrite :: "'d \<Rightarrow> uuid \<Rightarrow> 'i \<Rightarrow> (err + vmeta) \<times> 'd"
  vWriteComments :: "'d \<Rightarrow> uuid \<Rightarrow> string \<Rightarrow> (err + vmeta) \<times> 'd"
  vDelete :: "'d \<Rightarrow> uuid \<Rightarrow> (err + unit) \<times> 'd"
  vMkdir :: "'d \<Rightarrow> string \<Rightarrow> (err + vmeta) \<times> 'd"
  vStat :: "'d \<Rightarrow> uuid \<Rightarrow> err + vmeta"
  vMove :: "'d \<Rightarrow> uuid \<Rightarrow> string \<Rightarrow> uuid list \<Rightarrow> (err + vmeta) \<times> 'd"
  vCopy :: "'d \<Rightarrow> uuid \<Rightarrow> string \<Rightarrow> uuid list \<Rightarrow> (err + vmeta) \<times> 'd"
  vBackup :: "'d \<Rightarrow> nat \<Rightarrow> err + bytes \<times> nat"
  vLoad :: "'d \<Rightarrow> 'i \<Rightarrow> nat \<Rightarrow> (err + unit) \<times> 'd"
  vTree :: "'d \<Rightarrow> string \<Rightarrow> err + tree_node"

section \<open>Resource URLs\<close>

text \<open>\<open>url.QueryEscape\<close>.\<close>

definition hexUpper :: "nat \<Rightarrow> char" where
  "hexUpper n = ''0123456789ABCDEF'' ! (n mod 16)"

definition unreserved :: "char \<Rightarrow> bool" where
  "unreserved c \<longleftrightarrow> (let n = (of_char c :: nat) in
     48 \<le> n \<and> n \<le> 57 \<or> 65 \<le> n \<and> n \<le> 90 \<or> 97 \<le> n \<and> n \<le> 122
     \<or> c \<in> {CHR ''-'', CHR ''_'', CHR ''.'', CHR ''~''})"

definition escapeChar :: "char \<Rightarrow> string" where
  "escapeChar c =
     (if unreserved c then [c] else if c = CHR '' '' then ''+''
      else [CHR 0x25, hexUpper (of_char c div 16), hexUpper (of_char c)])"

definition queryEscape :: "string \<Rightarrow> string" where
  "queryEscape s = concat (map escapeChar s)"

record meta_res =
  mrMeta :: vmeta
  mrURL :: string

definition metaResponse :: "string \<Rightarrow> vmeta \<Rightarrow> meta_res" where
  "metaResponse pre meta =
     \<lparr>mrMeta = meta,
      mrURL = (if mIsDir meta then pre @ ''?q='' @ queryEscape (mPath meta)
               else joinPath [pre, uuidString (mID meta)])\<rparr>"

datatype tree_node_res = TreeNodeRes (trMeta: meta_res) (trChildren: "tree_node_res list")

fun mapTreeNodeRes :: "string \<Rightarrow> tree_node \<Rightarrow> tree_node_res" where
  "mapTreeNodeRes pre (TreeNode m cs) = TreeNodeRes (metaResponse pre m) (map (mapTreeNodeRes pre) cs)"

section \<open>The service\<close>

text \<open>The results of the interface with the URLs added, in a drive that may have changed.\<close>

definition addURL :: "string \<Rightarrow> (err + vmeta) \<times> 'd \<Rightarrow> (err + meta_res) \<times> 'd" where
  "addURL pre r = (bindE (fst r) (\<lambda>m. Inr (metaResponse pre m)), snd r)"

record ('d, 'i, 'r) vfs_service =
  svcVFS :: "('d, 'i, 'r) vfs_ops"
  svcPrefix :: string

definition svc_List :: "('d, 'i, 'r) vfs_service \<Rightarrow> 'd \<Rightarrow> string \<Rightarrow> err + meta_res list" where
  "svc_List S d path = bindE (vList (svcVFS S) d path) (\<lambda>metas.
     Inr (map (metaResponse (svcPrefix S)) metas))"

definition svc_Tree :: "('d, 'i, 'r) vfs_service \<Rightarrow> 'd \<Rightarrow> string \<Rightarrow> err + tree_node_res" where
  "svc_Tree S d path = bindE (vTree (svcVFS S) d path) (\<lambda>t. Inr (mapTreeNodeRes (svcPrefix S) t))"

text \<open>\<open>strings.Contains\<close>.\<close>

fun strContains :: "string \<Rightarrow> string \<Rightarrow> bool" where
  "strContains [] q = (q = [])"
| "strContains (c # s) q = (prefix q (c # s) \<or> strContains s q)"

definition svc_Search :: "(string \<Rightarrow> string) \<Rightarrow> ('d, 'i, 'r) vfs_service \<Rightarrow> 'd \<Rightarrow> string
    \<Rightarrow> err + meta_res list" where
  "svc_Search ul S d query = bindE (vTree (svcVFS S) d Root) (\<lambda>tree.
     let query = toLower ul query
     in Inr (Walk (Some tree) (\<lambda>node results.
       (True, if mPath (nodeMeta node) = Root \<or> \<not> strContains (toLower ul (mName (nodeMeta node))) query
              then results else results @ [metaResponse (svcPrefix S) (nodeMeta node)])) []))"

definition svc_Read :: "('d, 'i, 'r) vfs_service \<Rightarrow> 'd \<Rightarrow> uuid \<Rightarrow> err + 'r vfile" where
  "svc_Read S d i = vOpen (svcVFS S) d i"

definition svc_Stat :: "('d, 'i, 'r) vfs_service \<Rightarrow> 'd \<Rightarrow> uuid \<Rightarrow> err + meta_res" where
  "svc_Stat S d i = bindE (vStat (svcVFS S) d i) (\<lambda>m. Inr (metaResponse (svcPrefix S) m))"

definition svc_Create :: "('d, 'i, 'r) vfs_service \<Rightarrow> 'd \<Rightarrow> string \<Rightarrow> 'i \<Rightarrow> (err + meta_res) \<times> 'd" where
  "svc_Create S d name r = addURL (svcPrefix S) (vCreate (svcVFS S) d name r)"

definition svc_Mkdir :: "('d, 'i, 'r) vfs_service \<Rightarrow> 'd \<Rightarrow> string \<Rightarrow> (err + meta_res) \<times> 'd" where
  "svc_Mkdir S d name = addURL (svcPrefix S) (vMkdir (svcVFS S) d name)"

definition svc_Write :: "('d, 'i, 'r) vfs_service \<Rightarrow> 'd \<Rightarrow> uuid \<Rightarrow> 'i \<Rightarrow> (err + meta_res) \<times> 'd" where
  "svc_Write S d i r = addURL (svcPrefix S) (vWrite (svcVFS S) d i r)"

definition svc_Move :: "('d, 'i, 'r) vfs_service \<Rightarrow> 'd \<Rightarrow> uuid \<Rightarrow> string \<Rightarrow> uuid list
    \<Rightarrow> (err + meta_res) \<times> 'd" where
  "svc_Move S d i dst rep = addURL (svcPrefix S) (vMove (svcVFS S) d i dst rep)"

definition svc_Copy :: "('d, 'i, 'r) vfs_service \<Rightarrow> 'd \<Rightarrow> uuid \<Rightarrow> string \<Rightarrow> uuid list
    \<Rightarrow> (err + meta_res) \<times> 'd" where
  "svc_Copy S d i dst rep = addURL (svcPrefix S) (vCopy (svcVFS S) d i dst rep)"

definition svc_Delete :: "('d, 'i, 'r) vfs_service \<Rightarrow> 'd \<Rightarrow> uuid \<Rightarrow> (err + unit) \<times> 'd" where
  "svc_Delete S d i = vDelete (svcVFS S) d i"

definition svc_WriteComments :: "('d, 'i, 'r) vfs_service \<Rightarrow> 'd \<Rightarrow> uuid \<Rightarrow> string
    \<Rightarrow> (err + meta_res) \<times> 'd" where
  "svc_WriteComments S d i comment = addURL (svcPrefix S) (vWriteComments (svcVFS S) d i comment)"

definition svc_Backup :: "('d, 'i, 'r) vfs_service \<Rightarrow> 'd \<Rightarrow> err + bytes" where
  "svc_Backup S d = bindE (vBackup (svcVFS S) d 0) (\<lambda>(out, version). Inr out)"

definition svc_Restore :: "('d, 'i, 'r) vfs_service \<Rightarrow> 'd \<Rightarrow> 'i \<Rightarrow> (err + unit) \<times> 'd" where
  "svc_Restore S d r = vLoad (svcVFS S) d r 256"

definition NewVfsService :: "('d, 'i, 'r) vfs_ops \<Rightarrow> string \<Rightarrow> ('d, 'i, 'r) vfs_service" where
  "NewVfsService fs pre = \<lparr>svcVFS = fs, svcPrefix = pre\<rparr>"

section \<open>What the server relies on\<close>

text \<open>
  A drive finds what it has just created. \<open>ready\<close> is the state of the drive in which it may be
  asked to, \<open>named\<close> and \<open>input\<close> the names and contents it accepts.
\<close>

locale vfs_lookup =
  fixes fs :: "('d, 'i, 'r) vfs_ops" and ready :: "'d \<Rightarrow> bool" and named :: "string \<Rightarrow> bool"
    and input :: "'i \<Rightarrow> bool"
  assumes create_found: "ready d \<Longrightarrow> named n \<Longrightarrow> input r \<Longrightarrow> vCreate fs d n r = (Inr m, d') \<Longrightarrow>
      vStat fs d' (mID m) = Inr m"
    and mkdir_found: "ready d \<Longrightarrow> named n \<Longrightarrow> vMkdir fs d n = (Inr m, d') \<Longrightarrow> vStat fs d' (mID m) = Inr m"
begin

lemma svc_create_found:
  assumes "ready d" and "named n" and "input r" and "svc_Create (NewVfsService fs pre) d n r = (Inr m, d')"
  shows "svc_Stat (NewVfsService fs pre) d' (mID (mrMeta m)) = Inr m"
  using assms(4) create_found [OF assms(1-3)]
  by (cases "vCreate fs d n r") (auto simp: svc_Create_def addURL_def svc_Stat_def NewVfsService_def metaResponse_def)

lemma svc_mkdir_found:
  assumes "ready d" and "named n" and "svc_Mkdir (NewVfsService fs pre) d n = (Inr m, d')"
  shows "svc_Stat (NewVfsService fs pre) d' (mID (mrMeta m)) = Inr m"
  using assms(3) mkdir_found [OF assms(1-2)]
  by (cases "vMkdir fs d n") (auto simp: svc_Mkdir_def addURL_def svc_Stat_def NewVfsService_def metaResponse_def)

end

section \<open>Properties of the views\<close>

lemma search_loop:
  "snd (feed (\<lambda>node results. (True, if P node then results else results @ [f node])) ns rs)
     = rs @ map f (filter (\<lambda>n. \<not> P n) ns)"
  by (induction ns arbitrary: rs) auto

lemma strContains_iff: "strContains s q \<longleftrightarrow> (\<exists>a b. s = a @ q @ b)"
proof (induction s)
  case (Cons c s)
  have "(\<exists>a b. c # s = a @ q @ b) \<longleftrightarrow> prefix q (c # s) \<or> (\<exists>a b. s = a @ q @ b)"
  proof
    assume "\<exists>a b. c # s = a @ q @ b"
    then obtain a b where "c # s = a @ q @ b" by blast
    then show "prefix q (c # s) \<or> (\<exists>a b. s = a @ q @ b)" by (cases a) (auto simp: prefix_def)
  next
    assume "prefix q (c # s) \<or> (\<exists>a b. s = a @ q @ b)"
    then show "\<exists>a b. c # s = a @ q @ b"
      by (auto simp: prefix_def) (metis append_Nil, metis append_Cons)
  qed
  with Cons.IH show ?case by simp
qed auto

text \<open>Escaping can be undone.\<close>

definition hexUpperValue :: "char \<Rightarrow> nat" where
  "hexUpperValue c = (if (of_char c :: nat) < 58 then of_char c - 48 else of_char c - 55)"

fun queryUnescape :: "string \<Rightarrow> string" where
  "queryUnescape [] = []"
| "queryUnescape (c # s) =
     (if c = CHR 0x25 then
        (case s of a # b # t \<Rightarrow> char_of (16 * hexUpperValue a + hexUpperValue b) # queryUnescape t | _ \<Rightarrow> [])
      else (if c = CHR ''+'' then CHR '' '' else c) # queryUnescape s)"

lemma hexUpper_value: "hexUpperValue (hexUpper n) = n mod 16"
proof -
  have "\<forall>k \<in> set [0..<16]. hexUpperValue (''0123456789ABCDEF'' ! k) = k" by code_simp
  moreover have "n mod 16 \<in> set [0..<16]" by simp
  ultimately show ?thesis unfolding hexUpper_def by blast
qed

lemma queryUnescape_escapeChar: "queryUnescape (escapeChar c @ s) = c # queryUnescape s"
proof -
  have "(of_char c :: nat) < 16 * 16" using nat_of_char_less_256 [of c] by simp
  then have "(of_char c :: nat) div 16 mod 16 = of_char c div 16" by (simp add: less_mult_imp_div_less)
  then have v: "char_of (16 * hexUpperValue (hexUpper (of_char c div 16)) + hexUpperValue (hexUpper (of_char c))) = c"
    by (simp add: hexUpper_value)
  show ?thesis
  proof (cases "unreserved c")
    case True
    then have "c \<noteq> CHR 0x25" "c \<noteq> CHR ''+''" by (auto simp: unreserved_def Let_def)
    with True show ?thesis by (simp add: escapeChar_def)
  next
    case False
    with v show ?thesis by (simp add: escapeChar_def)
  qed
qed

lemma queryUnescape_queryEscape: "queryUnescape (queryEscape s) = s"
  by (induction s) (simp_all add: queryEscape_def queryUnescape_escapeChar)

lemma queryEscape_inj: "queryEscape a = queryEscape b \<Longrightarrow> a = b"
  by (metis queryUnescape_queryEscape)

end
