(* ===== verification/Vfs_Handlers.thy ===== *)
theory Vfs_Handlers
  imports Vfs_Service Sse
begin

text \<open>
  The HTTP handlers of a drive (\<open>internal/server/handlers/vfs.go\<close>), the wrapper that acquires and
  releases the drive (\<open>withVFS\<close> of \<open>internal/server/init.go\<close>) and the status codes of errors
  (\<open>internal/server/middlewares/error_handler.go\<close>). A request arrives with its parameters as
  strings and its body as the framework parsed it; parsing done by libraries is in the record of
  external operations. Work a handler leaves behind, in a goroutine or in the stream of a
  response, is part of its result: a task or a stream that holds the drive until it ends.
\<close>

section \<open>Requests\<close>

record http_env =
  hpParseID :: "string \<Rightarrow> uuid option"
  hpParseBool :: "string \<Rightarrow> bool option"
  hpErrorText :: "err \<Rightarrow> string"
  hpLower :: "string \<Rightarrow> string"
  hpNow :: int

record dst_req =
  dqCheckConflict :: bool
  dqName :: string
  dqReplaceID :: uuid

text \<open>
  The requests of the routes under \<open>/vfs\<close>. A body or form file is \<open>None\<close> when the framework could
  not deliver it, and the contents of a form file are an error when it cannot be opened or copied. \<open>RqRead\<close> carries the Range header's parsed ranges: \<open>None\<close> without a header,
  \<open>Some []\<close> when it cannot be satisfied.
\<close>

datatype 'i vfs_request =
    RqList string string
  | RqSearch string
  | RqRead string "(int \<times> int) list option"
  | RqStat string
  | RqCreate string string "(string \<times> (err + 'i)) option" string string
  | RqWrite string "'i option" string
  | RqMove string "dst_req option" string string
  | RqCopy string "dst_req option" string string
  | RqDelete string string
  | RqWriteComments string "string option" string
  | RqBackup
  | RqRestore "(err + 'i) option"

section \<open>Responses\<close>

datatype http_error = HttpError nat string | PlainError err

record 'r drive_stream =
  dsFile :: "'r vfile"
  dsLimit :: "int option"
  dsRelease :: bool

datatype 'r vfs_reply =
    RpMetas "meta_res list"
  | RpTree tree_node_res
  | RpMeta meta_res
  | RpStatus nat
  | RpUnsatisfiable int
  | RpStream int "(int \<times> int \<times> int) option" "'r drive_stream"
  | RpBackup

text \<open>
  The state a handler works on: the drive, the broker, whether the handler holds the release
  function of the drive, and how often that function has been called.
\<close>

record 'd req_state =
  rqDrive :: 'd
  rqBroker :: broker
  rqHolds :: bool
  rqReleased :: nat

text \<open>A goroutine: the work, whom to notify, and whether it releases the drive when it ends.\<close>

record 'd task =
  tkDo :: "'d \<Rightarrow> (sse_meta \<times> err option) \<times> 'd"
  tkClient :: "uuid option"
  tkRelease :: bool

type_synonym ('d, 'r) handled = "(http_error + 'r vfs_reply) \<times> 'd task option \<times> 'd req_state"

section \<open>Releasing the drive\<close>

definition takeRelease :: "'d req_state \<Rightarrow> bool \<times> 'd req_state" where
  "takeRelease s = (rqHolds s, s\<lparr>rqHolds := False\<rparr>)"

definition callRelease :: "bool \<Rightarrow> 'd req_state \<Rightarrow> 'd req_state" where
  "callRelease owned s = (if owned then s\<lparr>rqReleased := rqReleased s + 1\<rparr> else s)"

definition handler_Close :: "'d req_state \<Rightarrow> 'd req_state" where
  "handler_Close s = (case takeRelease s of (owned, s) \<Rightarrow> callRelease owned s)"

text \<open>Closing the stream of a response closes the file and then releases the drive.\<close>

definition driveStream_Close :: "('r \<Rightarrow> err option \<times> 'r) \<Rightarrow> 'r drive_stream \<Rightarrow> 'd req_state
    \<Rightarrow> err option \<times> 'd req_state" where
  "driveStream_Close cl st s = (fst (File_Close cl (dsFile st)), callRelease (dsRelease st) s)"

section \<open>Background work\<close>

definition asyncExecute :: "http_env \<Rightarrow> string \<Rightarrow> ('d \<Rightarrow> (sse_meta \<times> err option) \<times> 'd) \<Rightarrow> 'd req_state
    \<Rightarrow> 'd task \<times> 'd req_state" where
  "asyncExecute H clientID do s =
     (case takeRelease s of (owned, s) \<Rightarrow>
        (\<lparr>tkDo = do, tkClient = hpParseID H clientID, tkRelease = owned\<rparr>, s))"

definition runTask :: "http_env \<Rightarrow> string \<Rightarrow> 'd task \<Rightarrow> 'd req_state \<Rightarrow> 'd req_state" where
  "runTask H user t s =
     (case tkDo t (rqDrive s) of ((meta, e), d) \<Rightarrow>
        callRelease (tkRelease t) (case tkClient t of
          None \<Rightarrow> s\<lparr>rqDrive := d\<rparr>
        | Some cid \<Rightarrow>
            s\<lparr>rqDrive := d, rqBroker := sse_Publish user cid
                \<lparr>sdTimestamp = hpNow H, sdStatus = (e = None),
                 sdMessage = (case e of None \<Rightarrow> [] | Some e \<Rightarrow> hpErrorText H e), sdMeta = meta\<rparr>
                0 (rqBroker s)\<rparr>))"

text \<open>The metadata of an event, from a result that is the zero value when there is an error.\<close>

definition eventMeta :: "string \<Rightarrow> err + meta_res \<Rightarrow> sse_meta \<times> err option" where
  "eventMeta action r =
     (case r of
        Inl e \<Rightarrow> (\<lparr>smOldPath = [], smID = nilUUID, smPath = [], smAction = action\<rparr>, Some e)
      | Inr m \<Rightarrow> (\<lparr>smOldPath = [], smID = mID (mrMeta m), smPath = mPath (mrMeta m), smAction = action\<rparr>, None))"

definition modifying :: "string \<Rightarrow> ('d \<Rightarrow> (err + meta_res) \<times> 'd) \<Rightarrow> 'd \<Rightarrow> (sse_meta \<times> err option) \<times> 'd" where
  "modifying action f d = (case f d of (r, d) \<Rightarrow> (eventMeta action r, d))"

definition notify :: "http_env \<Rightarrow> string \<Rightarrow> string \<Rightarrow> sse_meta \<Rightarrow> 'd req_state \<Rightarrow> 'd req_state" where
  "notify H user clientID meta s =
     (case hpParseID H clientID of
        None \<Rightarrow> s
      | Some cid \<Rightarrow> s\<lparr>rqBroker := sse_Publish user cid
          \<lparr>sdTimestamp = hpNow H, sdStatus = True, sdMessage = [], sdMeta = meta\<rparr> 0 (rqBroker s)\<rparr>)"

section \<open>Handlers\<close>

definition handler_List :: "('d, 'i, 'r) vfs_service \<Rightarrow> string \<Rightarrow> string \<Rightarrow> 'd req_state \<Rightarrow> ('d, 'r) handled" where
  "handler_List S q viewType s =
     (if viewType = ''list'' then
        (case svc_List S (rqDrive s) q of
           Inl e \<Rightarrow> (Inl (PlainError e), None, s) | Inr ms \<Rightarrow> (Inr (RpMetas ms), None, s))
      else if viewType = ''tree'' then
        (case svc_Tree S (rqDrive s) q of
           Inl e \<Rightarrow> (Inl (PlainError e), None, s) | Inr t \<Rightarrow> (Inr (RpTree t), None, s))
      else (Inl (HttpError 400 ''invalid viewType''), None, s))"

definition handler_Search :: "http_env \<Rightarrow> ('d, 'i, 'r) vfs_service \<Rightarrow> string \<Rightarrow> 'd req_state
    \<Rightarrow> ('d, 'r) handled" where
  "handler_Search H S q s =
     (let query = trimSpace q in
      if query = [] then (Inl (HttpError 400 ''missing search query''), None, s)
      else case svc_Search (hpLower H) S (rqDrive s) query of
        Inl e \<Rightarrow> (Inl (PlainError e), None, s)
      | Inr ms \<Rightarrow> (Inr (RpMetas ms), None, s))"

text \<open>\<open>sk\<close> is the \<open>Seek\<close> of the drive's readers, when they have one.\<close>

definition handler_Read :: "http_env \<Rightarrow> ('d, 'i, 'r) vfs_service
    \<Rightarrow> ('r \<Rightarrow> int \<Rightarrow> int \<Rightarrow> (err + int) \<times> 'r) option \<Rightarrow> string \<Rightarrow> (int \<times> int) list option \<Rightarrow> 'd req_state
    \<Rightarrow> ('d, 'r) handled" where
  "handler_Read H S sk i rng s =
     (case hpParseID H i of
        None \<Rightarrow> (Inl (HttpError 400 ''invalid id''), None, s)
      | Some parsedID \<Rightarrow>
          (case svc_Read S (rqDrive s) parsedID of
             Inl e \<Rightarrow> (Inl (PlainError e), None, s)
           | Inr file \<Rightarrow>
               let fileSize = mSize (fMeta file) in
               (case rng of
                  None \<Rightarrow>
                    (case takeRelease s of (owned, s) \<Rightarrow>
                       (Inr (RpStream 200 None \<lparr>dsFile = file, dsLimit = None, dsRelease = owned\<rparr>), None, s))
                | Some [] \<Rightarrow> (Inr (RpUnsatisfiable fileSize), None, s)
                | Some ((start, end') # _) \<Rightarrow>
                    let end' = (if end' < 0 then i64 (fileSize - 1) else end') in
                    (case File_Seek sk file start 0 of
                       (Inl e, file) \<Rightarrow> (Inl (HttpError 500 ''failed to seek file''), None, s)
                     | (Inr _, file) \<Rightarrow>
                         (case takeRelease s of (owned, s) \<Rightarrow>
                            (Inr (RpStream 206 (Some (start, end', fileSize))
                               \<lparr>dsFile = file, dsLimit = Some (i64 (i64 (end' - start) + 1)), dsRelease = owned\<rparr>),
                             None, s))))))"

definition handler_Stat :: "http_env \<Rightarrow> ('d, 'i, 'r) vfs_service \<Rightarrow> string \<Rightarrow> 'd req_state
    \<Rightarrow> ('d, 'r) handled" where
  "handler_Stat H S i s =
     (case hpParseID H i of
        None \<Rightarrow> (Inl (HttpError 400 ''invalid id''), None, s)
      | Some parsedID \<Rightarrow>
          (case svc_Stat S (rqDrive s) parsedID of
             Inl e \<Rightarrow> (Inl (PlainError e), None, s) | Inr m \<Rightarrow> (Inr (RpMeta m), None, s)))"

definition accepted :: "http_env \<Rightarrow> string \<Rightarrow> ('d \<Rightarrow> (sse_meta \<times> err option) \<times> 'd) \<Rightarrow> 'd req_state
    \<Rightarrow> ('d, 'r) handled" where
  "accepted H clientID do s =
     (case asyncExecute H clientID do s of (t, s) \<Rightarrow> (Inr (RpStatus 202), Some t, s))"

definition createResult :: "http_env \<Rightarrow> ('d, 'i, 'r) vfs_service \<Rightarrow> string \<Rightarrow> string \<Rightarrow> string
    \<Rightarrow> ('d \<Rightarrow> (sse_meta \<times> err option) \<times> 'd) \<Rightarrow> 'd req_state \<Rightarrow> ('d, 'r) handled" where
  "createResult H S user wait clientID do s =
     (if wait = ''true'' then
        (case do (rqDrive s) of
           ((result, Some e), d) \<Rightarrow> (Inl (PlainError e), None, s\<lparr>rqDrive := d\<rparr>)
         | ((result, None), d) \<Rightarrow>
             (case svc_Stat S d (smID result) of
                Inl e \<Rightarrow> (Inl (PlainError e), None, s\<lparr>rqDrive := d\<rparr>)
              | Inr meta \<Rightarrow> (Inr (RpMeta meta), None, notify H user clientID result (s\<lparr>rqDrive := d\<rparr>))))
      else accepted H clientID do s)"

text \<open>
  A form file is its name and what copying it to a temporary file gives: its contents or an error.
  The texts of errors made by the framework's parsers are abbreviated.
\<close>

definition handler_Create :: "http_env \<Rightarrow> ('d, 'i, 'r) vfs_service \<Rightarrow> string \<Rightarrow> string \<Rightarrow> string
    \<Rightarrow> (string \<times> (err + 'i)) option \<Rightarrow> string \<Rightarrow> string \<Rightarrow> 'd req_state \<Rightarrow> ('d, 'r) handled" where
  "handler_Create H S user name isDir formFile wait clientID s =
     (case hpParseBool H isDir of
        None \<Rightarrow> (Inl (HttpError 400 ''invalid isDir''), None, s)
      | Some True \<Rightarrow>
          if name = [] then (Inl (HttpError 400 ''missing name field for directory creation''), None, s)
          else createResult H S user wait clientID (modifying ''vfs.create'' (\<lambda>d. svc_Mkdir S d name)) s
      | Some False \<Rightarrow>
          (case formFile of
             None \<Rightarrow> (Inl (HttpError 400 ''missing file''), None, s)
           | Some (filename, content) \<Rightarrow>
               let name = (if name = [] then filename else name)
               in (case content of
                     Inl e \<Rightarrow> (Inl (HttpError 500 (hpErrorText H e)), None, s)
                   | Inr tempFile \<Rightarrow>
                       createResult H S user wait clientID
                         (modifying ''vfs.create'' (\<lambda>d. svc_Create S d name tempFile)) s)))"

definition handler_Write :: "http_env \<Rightarrow> ('d, 'i, 'r) vfs_service \<Rightarrow> string \<Rightarrow> 'i option \<Rightarrow> string
    \<Rightarrow> 'd req_state \<Rightarrow> ('d, 'r) handled" where
  "handler_Write H S i body clientID s =
     (case hpParseID H i of
        None \<Rightarrow> (Inl (HttpError 400 ''invalid id''), None, s)
      | Some parsedID \<Rightarrow>
          (case body of
             None \<Rightarrow> (Inl (HttpError 400 ''failed to parse request body''), None, s)
           | Some content \<Rightarrow>
               accepted H clientID (modifying ''vfs.write'' (\<lambda>d. svc_Write S d parsedID content)) s))"

definition parseDstReq :: "dst_req option \<Rightarrow> string + dst_req" where
  "parseDstReq body =
     (case body of
        None \<Rightarrow> Inl ''invalid JSON body''
      | Some req \<Rightarrow> if dqName req = [] then Inl ''missing name'' else Inr req)"

definition asyncModify :: "http_env \<Rightarrow> ('d, 'i, 'r) vfs_service \<Rightarrow> string \<Rightarrow> string \<Rightarrow> dst_req option
    \<Rightarrow> string \<Rightarrow> string \<Rightarrow> string
    \<Rightarrow> ('d \<Rightarrow> uuid \<Rightarrow> string \<Rightarrow> uuid list \<Rightarrow> (err + meta_res) \<times> 'd) \<Rightarrow> 'd req_state \<Rightarrow> ('d, 'r) handled" where
  "asyncModify H S user i body wait clientID action fn s =
     (case hpParseID H i of
        None \<Rightarrow> (Inl (HttpError 400 ''invalid id''), None, s)
      | Some parsedID \<Rightarrow>
          (case parseDstReq body of
             Inl e \<Rightarrow> (Inl (HttpError 400 e), None, s)
           | Inr req \<Rightarrow>
               let replaceID = (if dqCheckConflict req \<or> dqReplaceID req \<noteq> nilUUID then [dqReplaceID req] else [])
               in if wait = ''true'' then
                    (case svc_Stat S (rqDrive s) parsedID of
                       Inl e \<Rightarrow> (Inl (PlainError e), None, s)
                     | Inr source \<Rightarrow>
                         (case fn (rqDrive s) parsedID (dqName req) replaceID of
                            (Inl e, d) \<Rightarrow> (Inl (PlainError e), None, s\<lparr>rqDrive := d\<rparr>)
                          | (Inr m, d) \<Rightarrow>
                              (Inr (RpMeta m), None, notify H user clientID
                                 \<lparr>smOldPath = mPath (mrMeta source), smID = mID (mrMeta m),
                                  smPath = mPath (mrMeta m), smAction = action\<rparr> (s\<lparr>rqDrive := d\<rparr>))))
                  else accepted H clientID
                    (modifying action (\<lambda>d. fn d parsedID (dqName req) replaceID)) s))"

definition deleting :: "('d, 'i, 'r) vfs_service \<Rightarrow> uuid \<Rightarrow> 'd \<Rightarrow> (sse_meta \<times> err option) \<times> 'd" where
  "deleting S i d =
     (case svc_Stat S d i of
        Inl e \<Rightarrow> ((\<lparr>smOldPath = [], smID = i, smPath = [], smAction = ''vfs.delete''\<rparr>, Some e), d)
      | Inr meta \<Rightarrow>
          (case svc_Delete S d i of (r, d) \<Rightarrow>
             ((\<lparr>smOldPath = [], smID = i, smPath = mPath (mrMeta meta), smAction = ''vfs.delete''\<rparr>,
               (case r of Inl e \<Rightarrow> Some e | Inr _ \<Rightarrow> None)), d)))"

definition handler_Delete :: "http_env \<Rightarrow> ('d, 'i, 'r) vfs_service \<Rightarrow> string \<Rightarrow> string \<Rightarrow> 'd req_state
    \<Rightarrow> ('d, 'r) handled" where
  "handler_Delete H S i clientID s =
     (case hpParseID H i of
        None \<Rightarrow> (Inl (HttpError 400 ''invalid id''), None, s)
      | Some parsedID \<Rightarrow> accepted H clientID (deleting S parsedID) s)"

definition handler_WriteComments :: "http_env \<Rightarrow> ('d, 'i, 'r) vfs_service \<Rightarrow> string \<Rightarrow> string option
    \<Rightarrow> string \<Rightarrow> 'd req_state \<Rightarrow> ('d, 'r) handled" where
  "handler_WriteComments H S i body clientID s =
     (case hpParseID H i of
        None \<Rightarrow> (Inl (HttpError 400 ''invalid id''), None, s)
      | Some parsedID \<Rightarrow>
          (if body = None \<or> body = Some [] then (Inl (HttpError 400 ''invalid JSON body''), None, s)
           else accepted H clientID
             (modifying ''vfs.write-comments'' (\<lambda>d. svc_WriteComments S d parsedID (the body))) s))"

text \<open>The backup's goroutine writes to the pipe of the response and notifies nobody.\<close>

definition handler_Backup :: "('d, 'i, 'r) vfs_service \<Rightarrow> 'd req_state \<Rightarrow> ('d, 'r) handled" where
  "handler_Backup S s =
     (case takeRelease s of (owned, s) \<Rightarrow>
        (Inr RpBackup,
         Some \<lparr>tkDo = (\<lambda>d. ((sse_meta0, case svc_Backup S d of Inl e \<Rightarrow> Some e | Inr _ \<Rightarrow> None), d)),
               tkClient = None, tkRelease = owned\<rparr>, s))"

definition handler_Restore :: "('d, 'i, 'r) vfs_service \<Rightarrow> (err + 'i) option \<Rightarrow> 'd req_state \<Rightarrow> ('d, 'r) handled" where
  "handler_Restore S formFile s =
     (case formFile of
        None \<Rightarrow> (Inl (HttpError 400 ''missing file field for restore''), None, s)
      | Some (Inl e) \<Rightarrow> (Inl (PlainError e), None, s)
      | Some (Inr file) \<Rightarrow>
          (case svc_Restore S (rqDrive s) file of
             (Inl e, d) \<Rightarrow> (Inl (PlainError e), None, s\<lparr>rqDrive := d\<rparr>)
           | (Inr _, d) \<Rightarrow> (Inr (RpStatus 200), None, s\<lparr>rqDrive := d\<rparr>)))"

section \<open>Routing\<close>

fun handle :: "http_env \<Rightarrow> ('d, 'i, 'r) vfs_service \<Rightarrow> ('r \<Rightarrow> int \<Rightarrow> int \<Rightarrow> (err + int) \<times> 'r) option
    \<Rightarrow> string \<Rightarrow> 'i vfs_request \<Rightarrow> 'd req_state \<Rightarrow> ('d, 'r) handled" where
  "handle H S sk user (RqList q viewType) s = handler_List S q viewType s"
| "handle H S sk user (RqSearch q) s = handler_Search H S q s"
| "handle H S sk user (RqRead i rng) s = handler_Read H S sk i rng s"
| "handle H S sk user (RqStat i) s = handler_Stat H S i s"
| "handle H S sk user (RqCreate name isDir file wait cid) s = handler_Create H S user name isDir file wait cid s"
| "handle H S sk user (RqWrite i body cid) s = handler_Write H S i body cid s"
| "handle H S sk user (RqMove i body wait cid) s =
     asyncModify H S user i body wait cid ''vfs.move'' (svc_Move S) s"
| "handle H S sk user (RqCopy i body wait cid) s =
     asyncModify H S user i body wait cid ''vfs.copy'' (svc_Copy S) s"
| "handle H S sk user (RqDelete i cid) s = handler_Delete H S i cid s"
| "handle H S sk user (RqWriteComments i body cid) s = handler_WriteComments H S i body cid s"
| "handle H S sk user RqBackup s = handler_Backup S s"
| "handle H S sk user (RqRestore file) s = handler_Restore S file s"

text \<open>\<open>withVFS\<close>, once the drive is acquired: the handler runs with the release function.\<close>

definition withVFS :: "http_env \<Rightarrow> ('d, 'i, 'r) vfs_ops \<Rightarrow> ('r \<Rightarrow> int \<Rightarrow> int \<Rightarrow> (err + int) \<times> 'r) option
    \<Rightarrow> uuid \<Rightarrow> 'i vfs_request \<Rightarrow> 'd \<Rightarrow> broker \<Rightarrow> ('d, 'r) handled" where
  "withVFS H fs sk userID req d b =
     (case handle H (NewVfsService fs ''/vfs'') sk (uuidString userID) req
         \<lparr>rqDrive = d, rqBroker = b, rqHolds = True, rqReleased = 0\<rparr> of
        (r, t, s) \<Rightarrow> (r, t, handler_Close s))"

section \<open>Status codes\<close>

definition handleVfsError :: "err \<Rightarrow> nat" where
  "handleVfsError e =
     (if errorsIs e ErrNotFound then 404
      else if errorsIs e ErrAlreadyExists then 409
      else if errorsIs e ErrNotDir then 400
      else if errorsIs e ErrInvalidPath then 400
      else if errorsIs e ErrNotSupported then 501
      else if errorsIs e ErrNotSupportedSeek then 501
      else 500)"

definition errorStatus :: "http_error \<Rightarrow> nat" where
  "errorStatus e = (case e of HttpError code msg \<Rightarrow> code | PlainError e \<Rightarrow> handleVfsError e)"

end
