(* ===== verification/Releases.thy ===== *)
theory Releases
  imports Vfs_Handlers
begin

text \<open>
  Who holds the release function of a request's drive: every handler keeps it or hands it on, to one
  goroutine or one response stream, and never calls it.
\<close>

text \<open>How many parts of a reply still hold the drive: its task and its stream.\<close>

definition holders :: "http_error + 'r vfs_reply \<Rightarrow> 'd task option \<Rightarrow> nat" where
  "holders r t = (case t of None \<Rightarrow> 0 | Some t \<Rightarrow> if tkRelease t then 1 else 0)
     + (case r of Inr (RpStream code rng st) \<Rightarrow> if dsRelease st then 1 else 0 | _ \<Rightarrow> 0)"

text \<open>Every handler hands on or keeps the release function, and calls it never.\<close>

definition balanced :: "'d req_state \<Rightarrow> ('d, 'r) handled \<Rightarrow> bool" where
  "balanced s h = (case h of (r, t, s') \<Rightarrow> rqReleased s' = rqReleased s
     \<and> (if rqHolds s then 1 else 0) = (if rqHolds s' then 1 else 0) + holders r t)"

lemma balanced_plain [simp]:
  assumes "rqHolds s' = rqHolds s" and "rqReleased s' = rqReleased s"
  shows "balanced s (Inl e, None, s')" "balanced s (Inr (RpMetas ms), None, s')"
    "balanced s (Inr (RpTree tr), None, s')" "balanced s (Inr (RpMeta m), None, s')"
    "balanced s (Inr (RpStatus n), None, s')" "balanced s (Inr (RpUnsatisfiable z), None, s')"
  using assms by (simp_all add: balanced_def holders_def)

lemma balanced_stream [simp]:
  "dsRelease st = rqHolds s \<Longrightarrow> balanced s (Inr (RpStream code rng st), None, s\<lparr>rqHolds := False\<rparr>)"
  by (simp add: balanced_def holders_def)

lemma notify_simps [simp]:
  "rqHolds (notify H user cid m s) = rqHolds s" "rqReleased (notify H user cid m s) = rqReleased s"
  "rqDrive (notify H user cid m s) = rqDrive s"
  by (simp_all add: notify_def split: option.split)

lemma balanced_accepted [simp]: "balanced s (accepted H cid do s)"
  by (simp add: accepted_def asyncExecute_def takeRelease_def balanced_def holders_def)

lemma balanced_createResult [simp]: "balanced s (createResult H S user wait cid do s)"
  by (simp add: createResult_def split: prod.split option.split sum.split)

lemma balanced_asyncModify [simp]: "balanced s (asyncModify H S user i body wait cid action fn s)"
  by (simp add: asyncModify_def Let_def split: prod.split option.split sum.split)

lemma balanced_Read [simp]: "balanced s (handler_Read H S sk i rng s)"
  by (simp add: handler_Read_def Let_def takeRelease_def split: prod.split option.split sum.split list.split)

lemma balanced_handle: "balanced s (handle H S sk user req s)"
proof (cases req)
  case (RqCreate name isDir form wait cid)
  then show ?thesis by (simp add: handler_Create_def Let_def split: option.split bool.split prod.split sum.split)
next
  case (RqBackup)
  then show ?thesis by (simp add: handler_Backup_def takeRelease_def balanced_def holders_def)
qed (simp_all add: handler_List_def handler_Search_def handler_Stat_def handler_Write_def handler_Delete_def
    handler_WriteComments_def handler_Restore_def Let_def
    split: option.split sum.split prod.split)

lemma runTask_released:
  "rqReleased (runTask H u task x) = rqReleased x + (if tkRelease task then 1 else 0)"
  by (simp add: runTask_def callRelease_def split: prod.split option.split)

lemma driveStream_released:
  "rqReleased (snd (driveStream_Close cl st x)) = rqReleased x + (if dsRelease st then 1 else 0)"
  by (simp add: driveStream_Close_def callRelease_def)

lemma handler_Close_released: "rqReleased (handler_Close s) = rqReleased s + (if rqHolds s then 1 else 0)"
  by (simp add: handler_Close_def takeRelease_def callRelease_def)

text \<open>A task or a stream that a handler leaves behind holds the release function the handler had.\<close>

definition handsOver :: "'d req_state \<Rightarrow> ('d, 'r) handled \<Rightarrow> bool" where
  "handsOver s h = (case h of (r, t, s') \<Rightarrow> rqHolds s \<longrightarrow>
     (case t of None \<Rightarrow> True | Some t \<Rightarrow> tkRelease t)
     \<and> (case r of Inr (RpStream code rng st) \<Rightarrow> dsRelease st | _ \<Rightarrow> True))"

lemma handsOver_plain [simp]:
  "handsOver s (Inl e, None, s')" "handsOver s (Inr (RpMetas ms), None, s')"
  "handsOver s (Inr (RpTree tr), None, s')" "handsOver s (Inr (RpMeta m), None, s')"
  "handsOver s (Inr (RpStatus n), None, s')" "handsOver s (Inr (RpUnsatisfiable z), None, s')"
  by (simp_all add: handsOver_def)

lemma handsOver_stream [simp]:
  "dsRelease st = rqHolds s \<Longrightarrow> handsOver s (Inr (RpStream code rng st), None, s')"
  by (simp add: handsOver_def)

lemma handsOver_accepted [simp]: "handsOver s (accepted H cid do s)"
  by (simp add: accepted_def asyncExecute_def takeRelease_def handsOver_def)

lemma handsOver_createResult [simp]: "handsOver s (createResult H S user wait cid do s)"
  by (simp add: createResult_def split: prod.split option.split sum.split)

lemma handsOver_asyncModify [simp]: "handsOver s (asyncModify H S user i body wait cid action fn s)"
  by (simp add: asyncModify_def Let_def split: prod.split option.split sum.split)

lemma handsOver_Read [simp]: "handsOver s (handler_Read H S sk i rng s)"
  by (simp add: handler_Read_def Let_def takeRelease_def split: prod.split option.split sum.split list.split)

lemma handsOver_handle: "handsOver s (handle H S sk user req s)"
proof (cases req)
  case (RqCreate name isDir form wait cid)
  then show ?thesis by (simp add: handler_Create_def Let_def split: option.split bool.split prod.split sum.split)
next
  case (RqBackup)
  then show ?thesis by (simp add: handler_Backup_def takeRelease_def handsOver_def)
qed (simp_all add: handler_List_def handler_Search_def handler_Stat_def handler_Write_def handler_Delete_def
    handler_WriteComments_def handler_Restore_def Let_def
    split: option.split sum.split prod.split)

text \<open>With the wrapper around it: released once, or handed to exactly one holder.\<close>

lemma withVFS_releases:
  assumes "withVFS H fs sk userID req d b = (r, t, s)"
  shows "rqReleased s + holders r t = 1" "t = Some task \<Longrightarrow> tkRelease task"
    "r = Inr (RpStream code rng st) \<Longrightarrow> dsRelease st"
proof -
  let ?s = "\<lparr>rqDrive = d, rqBroker = b, rqHolds = True, rqReleased = 0\<rparr>"
  obtain r1 t1 s1 where h: "handle H (NewVfsService fs ''/vfs'') sk (uuidString userID) req ?s = (r1, t1, s1)"
    by (metis prod_cases3)
  have e: "r1 = r" "t1 = t" "s = handler_Close s1" using assms h by (simp_all add: withVFS_def)
  have "balanced ?s (r1, t1, s1)" using balanced_handle [of ?s H "NewVfsService fs ''/vfs''" sk "uuidString userID" req] h by simp
  then show "rqReleased s + holders r t = 1" by (simp add: balanced_def e handler_Close_released)
  have "handsOver ?s (r1, t1, s1)" using handsOver_handle [of ?s H "NewVfsService fs ''/vfs''" sk "uuidString userID" req] h by simp
  then show "t = Some task \<Longrightarrow> tkRelease task" "r = Inr (RpStream code rng st) \<Longrightarrow> dsRelease st"
    by (simp_all add: handsOver_def e)
qed

end
