(* ===== verification/Badger_Drive.thy ===== *)
theory Badger_Drive
  imports Vfs_Service Badger_Total
begin

text \<open>
  The Badger driver behind the interface \<open>vfs.VFS\<close>: its operations as a record, and that it keeps
  the contract the server relies on.
\<close>

definition badger_ops :: "('d, 't, 'z) benv_scheme \<Rightarrow> (nat \<Rightarrow> uuid) \<Rightarrow> (nat \<Rightarrow> int)
    \<Rightarrow> ('d bvfs, reader, blobReader) vfs_ops" where
  "badger_ops E rng clock =
     \<lparr>vList = badger_List E, vOpen = badger_Open E, vCreate = badger_Create E rng clock,
      vWrite = badger_Write E rng clock, vWriteComments = badger_WriteComments E,
      vDelete = badger_Delete E, vMkdir = badger_Mkdir E rng clock, vStat = badger_Stat E,
      vMove = badger_Move E clock, vCopy = badger_Copy E rng clock, vBackup = badger_Backup E,
      vLoad = (\<lambda>s r. badger_Load E s (rData r)), vTree = badger_Tree E\<rparr>"

text \<open>A consistent drive, with the identifiers to be drawn not in use.\<close>

definition readyFor :: "('d, 't, 'z) benv_scheme \<Rightarrow> ('d \<Rightarrow> bytes \<rightharpoonup> bytes) \<Rightarrow> (nat \<Rightarrow> uuid) \<Rightarrow> 'd bvfs \<Rightarrow> bool" where
  "readyFor E dview rng s \<longleftrightarrow> db_ok E (dview (b_db s)) \<and> idAt (dview (b_db s)) (rng 0) = None
     \<and> freshIID E (dview (b_db s)) (rng 1)"

definition smallInput :: "reader \<Rightarrow> bool" where
  "smallInput r \<longleftrightarrow> length (rData r) \<le> maxContent"

lemma guarded_not_failed: "guarded s f = (Inr x, s') \<Longrightarrow> b_failed s' = None"
  by (auto simp: guarded_def split: option.splits prod.splits)

text \<open>
  A lookup of an entry that is there finds it, or a key that is in the store could not be read.
\<close>

definition readFault :: "('d, 't, 'z) benv_scheme \<Rightarrow> ('d \<Rightarrow> bytes \<rightharpoonup> bytes) \<Rightarrow> 'd bvfs \<Rightarrow> bool" where
  "readFault E dview s \<longleftrightarrow> (\<exists>k e. dview (b_db s) k \<noteq> None \<and> kvGet E (kvBegin E (b_db s)) k = Inl e)"

context badger_env
begin

lemma stat_known:
  assumes "badger_Stat E s (mID mt) = r" and "b_failed s = None" and "db_ok E (dview (b_db s))"
    and "fsView E (dview (b_db s)) p = Some (mt, data)"
  shows "r = Inr mt \<or> isl r \<and> readFault E dview s"
proof (cases r)
  case (Inr m)
  have ok: "index_ok E (dview (b_db s))" using assms(3) by (simp add: db_ok_def)
  from stat_ok [OF assms(1) [unfolded Inr] assms(3)] obtain data'
    where m: "mID m = mID mt" "fsView E (dview (b_db s)) (mPath m) = Some (m, data')" by blast
  obtain im jm where im: "metaAt E (dview (b_db s)) (mPath m) = Some im" "m = Meta_of im"
    and jm: "metaAt E (dview (b_db s)) p = Some jm" "mt = Meta_of jm"
    using m(2) assms(4) by (auto simp: fsView_def map_option_case split: option.splits)
  have "mPath m = p" using index_ok_ids [OF ok im(1) jm(1)] m(1) im(2) jm(2) by simp
  with im jm Inr show ?thesis by simp
next
  case (Inl e)
  let ?d = "dview (b_db s)" and ?t = "kvBegin E (b_db s)"
  have ok: "index_ok E ?d" using assms(3) by (simp add: db_ok_def)
  obtain jm where jm: "metaAt E ?d p = Some jm" "mt = Meta_of jm"
    using assms(4) by (auto simp: fsView_def map_option_case split: option.splits)
  have i: "?d (makeKey prefixIndex (idBytes (mID mt))) = Some p"
    using index_okD [OF ok jm(1)] jm(2) by (simp add: idAt_def)
  obtain b where b: "?d (makeKey prefixMeta p) = Some b" "bUnmarshal E b = Inr jm"
    using jm(1) by (auto simp: metaAt_def split: option.splits sum.splits)
  have "readFault E dview s"
  proof (rule ccontr)
    assume n: "\<not> readFault E dview s"
    have rd: "kvGet E ?t k = Inr v" if "?d k = Some v" for k v
    proof (cases "kvGet E ?t k")
      case (Inl e)
      with n that show ?thesis unfolding readFault_def by (metis option.distinct(1))
    next
      case (Inr w)
      with that shows_get [OF view_shows this] show ?thesis by simp
    qed
    show False
      using assms(1,2) Inl b(2) by (simp add: badger_Stat_def dbView_def rd [OF i] rd [OF b(1)] getMeta_def)
  qed
  with Inl show ?thesis by simp
qed

end

context badger_reliable
begin

lemma stat_of_view:
  assumes "b_failed s = None" and "db_ok E (dview (b_db s))"
    and "fsView E (dview (b_db s)) p = Some (mt, data)"
  shows "badger_Stat E s (mID mt) = Inr mt"
proof -
  from assms(3) obtain im where im: "metaAt E (dview (b_db s)) p = Some im" "mt = Meta_of im"
    by (auto simp: fsView_def map_option_case split: option.splits)
  have "index_ok E (dview (b_db s))" using assms(2) by (simp add: db_ok_def)
  from index_okD [OF this im(1)] have "idAt (dview (b_db s)) (mID im) = Some p" by simp
  with stat_exact [OF assms(1,2), of "mID im"] im show ?thesis by simp
qed

lemma badger_lookup: "vfs_lookup (badger_ops E rng clock) (readyFor E dview rng) utf8 smallInput"
proof
  fix d n r m d'
  assume r: "readyFor E dview rng d" and u: "utf8 n" and i: "smallInput r"
    and c: "vCreate (badger_ops E rng clock) d n r = (Inr m, d')"
  have c': "badger_Create E rng clock d n r = (Inr m, d')" using c by (simp add: badger_ops_def)
  have su: "db_ok E (dview (b_db d'))"
    "fsView E (dview (b_db d')) = (fsView E (dview (b_db d)))(mPath m \<mapsto> (m, rData r))"
    using create_success [OF c' _ u, unfolded newFileMeta_def] r i by (auto simp: readyFor_def smallInput_def)
  have "b_failed d' = None" using guarded_not_failed [OF c' [unfolded badger_Create_def]] .
  from stat_of_view [OF this su(1), of "mPath m" m "rData r"] su(2)
  show "vStat (badger_ops E rng clock) d' (mID m) = Inr m" by (simp add: badger_ops_def)
next
  fix d n m d'
  assume r: "readyFor E dview rng d" and u: "utf8 n"
    and c: "vMkdir (badger_ops E rng clock) d n = (Inr m, d')"
  have c': "badger_Mkdir E rng clock d n = (Inr m, d')" using c by (simp add: badger_ops_def)
  have su: "db_ok E (dview (b_db d'))"
    "fsView E (dview (b_db d')) = (fsView E (dview (b_db d)))(mPath m \<mapsto> (m, []))"
    using mkdir_ok [OF c' _ u] r by (auto simp: readyFor_def)
  have "b_failed d' = None" using guarded_not_failed [OF c' [unfolded badger_Mkdir_def]] .
  from stat_of_view [OF this su(1), of "mPath m" m "[]"] su(2)
  show "vStat (badger_ops E rng clock) d' (mID m) = Inr m" by (simp add: badger_ops_def)
qed

end

interpretation memdrive: vfs_lookup "badger_ops mem_env rng clock" "readyFor mem_env map_of rng" utf8 smallInput
  by (rule membadger.badger_lookup)

end
