(* ===== verification/Server_Theorems.thy ===== *)
theory Server_Theorems
  imports Releases Badger_Drive Badger_Theorems Store_Paths
begin

text \<open>
  The properties of the drive's HTTP interface: the drive is released exactly once, waiting for an
  operation and leaving it to a goroutine have the same effect, searches and resource URLs are
  exact, and, on the Badger driver, a request that creates an entry answers with it or with an error.
\<close>

section \<open>Releasing\<close>

text \<open>
  C30. A request releases its drive exactly once: either it has been released when the handler
  returns, or exactly one goroutine or response stream holds it, whose end releases it.
\<close>

theorem drive_released_once:
  "(case withVFS H fs sk userID req d b of (r, t, s) \<Rightarrow>
     rqReleased s + holders r t = 1
     \<and> (case t of None \<Rightarrow> True | Some task \<Rightarrow>
          rqReleased (runTask H (uuidString userID) task s) + (holders r t - (if tkRelease task then 1 else 0)) = 1)
     \<and> (case r of Inr (RpStream code rng st) \<Rightarrow>
          rqReleased (snd (driveStream_Close cl st s)) + (holders r t - (if dsRelease st then 1 else 0)) = 1
        | _ \<Rightarrow> True))"
proof -
  let ?s = "\<lparr>rqDrive = d, rqBroker = b, rqHolds = True, rqReleased = 0\<rparr>"
  obtain r t s where h: "handle H (NewVfsService fs ''/vfs'') sk (uuidString userID) req ?s = (r, t, s)"
    by (metis prod_cases3)
  have "balanced ?s (r, t, s)" using balanced_handle [of ?s H "NewVfsService fs ''/vfs''" sk "uuidString userID" req] h by simp
  then have b: "rqReleased s = 0" "(if rqHolds s then 1 else 0) + holders r t = 1" by (simp_all add: balanced_def)
  have le: "case t of None \<Rightarrow> True | Some task \<Rightarrow> (if tkRelease task then 1 else 0) \<le> holders r t"
    "case r of Inr (RpStream code rng st) \<Rightarrow> (if dsRelease st then 1 else 0) \<le> holders r t | _ \<Rightarrow> True"
    by (auto simp: holders_def split: option.split sum.split vfs_reply.split)
  show ?thesis
    unfolding withVFS_def h prod.case runTask_released driveStream_released handler_Close_released
    using b le by (cases r; cases t) (auto split: vfs_reply.split)
qed

section \<open>Waiting or not\<close>

text \<open>
  C31. Waiting for a move or a copy and leaving it to a goroutine are the same: when the waiting
  request succeeds, the goroutine of the other one leaves the drive in the same state and
  publishes the same event, which differs only in the source path the waiting request adds.
\<close>

theorem waiting_is_equivalent:
  assumes "asyncModify H S user i body ''true'' cid action fn s = (Inr (RpMeta m), None, s1)"
    and "asyncModify H S user i body wait cid action fn s = (r, Some t, s2)"
  shows "\<exists>source. rqDrive (runTask H user t s2) = rqDrive s1
    \<and> rqBroker s1 = rqBroker (notify H user cid \<lparr>smOldPath = source, smID = mID (mrMeta m),
        smPath = mPath (mrMeta m), smAction = action\<rparr> s)
    \<and> rqBroker (runTask H user t s2) = rqBroker (notify H user cid \<lparr>smOldPath = [], smID = mID (mrMeta m),
        smPath = mPath (mrMeta m), smAction = action\<rparr> s)"
proof -
  have w: "wait \<noteq> ''true''" using assms by auto
  obtain i' where i: "hpParseID H i = Some i'" using assms(1) by (auto simp: asyncModify_def split: option.splits)
  obtain req where req: "parseDstReq body = Inr req"
    using assms(1) i by (auto simp: asyncModify_def split: sum.splits)
  define rep where "rep = (if dqCheckConflict req \<or> dqReplaceID req \<noteq> nilUUID then [dqReplaceID req] else [])"
  obtain src where src: "svc_Stat S (rqDrive s) i' = Inr src"
    using assms(1) i req by (auto simp: asyncModify_def Let_def split: sum.splits)
  obtain x d where f: "fn (rqDrive s) i' (dqName req) rep = (x, d)" by (metis prod.collapse)
  have one: "x = Inr m" "s1 = notify H user cid \<lparr>smOldPath = mPath (mrMeta src), smID = mID (mrMeta m),
      smPath = mPath (mrMeta m), smAction = action\<rparr> (s\<lparr>rqDrive := d\<rparr>)"
    using assms(1) i req src f by (auto simp: asyncModify_def Let_def rep_def [symmetric] split: sum.splits)
  have two: "t = \<lparr>tkDo = modifying action (\<lambda>d. fn d i' (dqName req) rep), tkClient = hpParseID H cid,
      tkRelease = rqHolds s\<rparr>" "s2 = s\<lparr>rqHolds := False\<rparr>"
    using assms(2) i req w by (auto simp: asyncModify_def Let_def rep_def [symmetric] accepted_def
        asyncExecute_def takeRelease_def)
  have b: "rqBroker (callRelease o' y) = rqBroker y" "rqDrive (callRelease o' y) = rqDrive y" for o' and y :: "'b req_state"
    by (simp_all add: callRelease_def)
  show ?thesis
    by (rule exI [of _ "mPath (mrMeta src)"])
      (simp add: one two runTask_def modifying_def f eventMeta_def b notify_def callRelease_def split: option.split)
qed

definition run_modify :: http_env where
  "run_modify = \<lparr>hpParseID = (\<lambda>s. Some 5), hpParseBool = (\<lambda>s. None), hpErrorText = (\<lambda>e. []),
     hpLower = (\<lambda>s. s), hpNow = 0\<rparr>"

definition run_number_ops :: "(nat, unit, unit) vfs_ops" where
  "run_number_ops = \<lparr>vList = (\<lambda>d p. Inr []), vOpen = (\<lambda>d i. Inl ErrNotFound), vCreate = (\<lambda>d p r. (Inl ErrNotFound, d)),
     vWrite = (\<lambda>d i r. (Inl ErrNotFound, d)), vWriteComments = (\<lambda>d i c. (Inl ErrNotFound, d)),
     vDelete = (\<lambda>d i. (Inl ErrNotFound, d)), vMkdir = (\<lambda>d p. (Inl ErrNotFound, d)), vStat = (\<lambda>d i. Inr vmeta0),
     vMove = (\<lambda>d i p rs. (Inr (vmeta0\<lparr>mPath := p\<rparr>), d + 1)), vCopy = (\<lambda>d i p rs. (Inl ErrNotFound, d)),
     vBackup = (\<lambda>d n. Inr ([], 0)), vLoad = (\<lambda>d r n. (Inr (), d)), vTree = (\<lambda>d p. Inl ErrNotFound)\<rparr>"

theorem waiting_is_equivalent_witness:
  "rqDrive (runTask run_modify ''u'' \<lparr>tkDo = modifying ''vfs.move'' (\<lambda>d. svc_Move (NewVfsService run_number_ops ''/vfs'') d 5 ''/b'' []),
      tkClient = Some 5, tkRelease = True\<rparr> \<lparr>rqDrive = 0, rqBroker = NewSSEBroker, rqHolds = False, rqReleased = 0\<rparr>) = 1"
proof -
  let ?s = "\<lparr>rqDrive = 0 :: nat, rqBroker = NewSSEBroker, rqHolds = True, rqReleased = 0\<rparr>"
  let ?S = "NewVfsService run_number_ops ''/vfs''"
  let ?b = "Some \<lparr>dqCheckConflict = False, dqName = ''/b'', dqReplaceID = nilUUID\<rparr>"
  obtain m s1 where a: "asyncModify run_modify ?S ''u'' ''5'' ?b ''true'' ''c'' ''vfs.move'' (svc_Move ?S) ?s
      = (Inr (RpMeta m) :: http_error + unit vfs_reply, None, s1)" and d: "rqDrive s1 = 1"
    by (simp add: asyncModify_def run_modify_def parseDstReq_def svc_Stat_def svc_Move_def addURL_def
        NewVfsService_def run_number_ops_def)
  have b: "asyncModify run_modify ?S ''u'' ''5'' ?b ''false'' ''c'' ''vfs.move'' (svc_Move ?S) ?s
      = (Inr (RpStatus 202) :: http_error + unit vfs_reply, Some \<lparr>tkDo = modifying ''vfs.move'' (\<lambda>d. svc_Move ?S d 5 ''/b'' []),
          tkClient = Some 5, tkRelease = True\<rparr>, \<lparr>rqDrive = 0, rqBroker = NewSSEBroker, rqHolds = False, rqReleased = 0\<rparr>)"
    by (simp add: asyncModify_def run_modify_def parseDstReq_def accepted_def asyncExecute_def takeRelease_def)
  from waiting_is_equivalent [OF a b] d show ?thesis by auto
qed

section \<open>Creating\<close>

lemma createResult_waits:
  "createResult H S user ''true'' cid (modifying action f) s = (case f (rqDrive s) of
     (Inl e, d) \<Rightarrow> (Inl (PlainError e), None, s\<lparr>rqDrive := d\<rparr>)
   | (Inr m, d) \<Rightarrow> (case svc_Stat S d (mID (mrMeta m)) of
       Inl e \<Rightarrow> (Inl (PlainError e), None, s\<lparr>rqDrive := d\<rparr>)
     | Inr meta \<Rightarrow> (Inr (RpMeta meta), None, notify H user cid
         \<lparr>smOldPath = [], smID = mID (mrMeta m), smPath = mPath (mrMeta m), smAction = action\<rparr> (s\<lparr>rqDrive := d\<rparr>))))"
  by (simp add: createResult_def modifying_def eventMeta_def split: prod.split sum.split)

text \<open>
  C32. On the Badger driver, whatever fails in the store, a request that creates a file and waits
  either answers with the metadata of the one entry it added, with the contents sent, or answers
  with an error. Then the file system is as it was, but for one case: the entry was added and
  committed, and looking it up for the answer failed, because the store could not read a key it has.
\<close>

theorem create_request_atomic:
  assumes "badger_env E dview tview twr"
    and "hpParseBool H isDir = Some False" and "readyFor E dview rng d"
    and "utf8 (if name = [] then fname else name)" and "smallInput content"
    and "withVFS H (badger_ops E rng clock) sk userID
      (RqCreate name isDir (Some (fname, Inr content)) ''true'' cid) d b = (r, t, s)"
  shows "t = None \<and> db_ok E (dview (b_db (rqDrive s))) \<and>
    (case r of
       Inr reply \<Rightarrow> \<exists>m. reply = RpMeta (metaResponse ''/vfs'' m)
         \<and> fsView E (dview (b_db d)) (mPath m) = None
         \<and> fsView E (dview (b_db (rqDrive s))) = (fsView E (dview (b_db d)))(mPath m \<mapsto> (m, rData content))
     | Inl e \<Rightarrow> fsView E (dview (b_db (rqDrive s))) = fsView E (dview (b_db d))
         \<or> (\<exists>m. fsView E (dview (b_db d)) (mPath m) = None
              \<and> fsView E (dview (b_db (rqDrive s))) = (fsView E (dview (b_db d)))(mPath m \<mapsto> (m, rData content))
              \<and> isl (badger_Stat E (rqDrive s) (mID m)) \<and> readFault E dview (rqDrive s)))"
proof -
  define n where "n = (if name = [] then fname else name)"
  define S where "S = NewVfsService (badger_ops E rng clock) ''/vfs''"
  define s0 where "s0 = \<lparr>rqDrive = d, rqBroker = b, rqHolds = True, rqReleased = 0\<rparr>"
  note env = assms(1)
  obtain x d' where c: "badger_Create E rng clock d n content = (x, d')" by (metis prod.collapse)
  then have sc: "svc_Create S d n content = (bindE x (\<lambda>m. Inr (metaResponse ''/vfs'' m)), d')"
    by (simp add: svc_Create_def addURL_def NewVfsService_def badger_ops_def S_def)
  have st: "svc_Stat S d' i = bindE (badger_Stat E d' i) (\<lambda>m. Inr (metaResponse ''/vfs'' m))" for i
    by (simp add: svc_Stat_def addURL_def NewVfsService_def badger_ops_def S_def)
  have mm: "mrMeta (metaResponse ''/vfs'' m) = m" for m by (simp add: metaResponse_def)
  have h: "handle H S sk (uuidString userID) (RqCreate name isDir (Some (fname, Inr content)) ''true'' cid) s0
      = createResult H S (uuidString userID) ''true'' cid (modifying ''vfs.create'' (\<lambda>d. svc_Create S d n content)) s0"
    using assms(2) by (simp add: handler_Create_def Let_def n_def)
  have cl: "rqDrive (handler_Close y) = rqDrive y" for y :: "'d bvfs req_state"
    by (simp add: handler_Close_def takeRelease_def callRelease_def)
  have w: "withVFS H (badger_ops E rng clock) sk userID (RqCreate name isDir (Some (fname, Inr content)) ''true'' cid) d b
      = (case handle H S sk (uuidString userID) (RqCreate name isDir (Some (fname, Inr content)) ''true'' cid) s0 of
           (r, t, s) \<Rightarrow> (r, t, handler_Close s))"
    unfolding withVFS_def S_def s0_def ..
  have d: "rqDrive s0 = d" by (simp add: s0_def)
  have f: "db_ok E (dview (b_db d))" "idAt (dview (b_db d)) (rng 0) = None" "freshIID E (dview (b_db d)) (rng 1)"
    "length (rData content) \<le> maxContent"
    using assms(3,5) by (simp_all add: readyFor_def smallInput_def)
  have u: "utf8 n" using assms(4) by (simp add: n_def)
  show ?thesis
  proof (cases x)
    case (Inl e)
    have "r = Inl (PlainError e) \<and> t = None \<and> rqDrive s = d'"
      using assms(6) unfolding w h createResult_waits d sc Inl by (auto simp: cl)
    with badger_env.create_failure [OF env c [unfolded Inl] f(1,3)] show ?thesis by simp
  next
    case (Inr m)
    note ok = badger_env.create_success [OF env c [unfolded Inr] f(1) u f(2-4)]
    have nf: "b_failed d' = None" using guarded_not_failed [OF c [unfolded Inr badger_Create_def]] .
    have at: "fsView E (dview (b_db d')) (mPath m) = Some (m, rData content)" using ok(2) by simp
    have res: "t = None \<and> rqDrive s = d'
        \<and> r = (case badger_Stat E d' (mID m) of Inl e \<Rightarrow> Inl (PlainError e) | Inr m' \<Rightarrow> Inr (RpMeta (metaResponse ''/vfs'' m')))"
      using assms(6) unfolding w h createResult_waits d sc Inr by (auto simp: cl st mm split: sum.splits)
    show ?thesis
      using badger_env.stat_known [OF env refl nf ok(1) at] ok(1-3) res by (auto split: sum.splits)
  qed
qed

text \<open>On a store on which nothing fails the exception does not happen: what was created is found.\<close>

lemma created_is_found:
  assumes "badger_reliable E dview tview twr" and "readyFor E dview rng d" and "utf8 n" and "smallInput content"
    and "svc_Create (NewVfsService (badger_ops E rng clock) pre) d n content = (Inr m, d')"
  shows "svc_Stat (NewVfsService (badger_ops E rng clock) pre) d' (mID (mrMeta m)) = Inr m"
  by (rule vfs_lookup.svc_create_found [OF badger_reliable.badger_lookup [OF assms(1)] assms(2-5)])

text \<open>The in-memory drive and a request without identifiers.\<close>

definition run_http :: http_env where
  "run_http = \<lparr>hpParseID = (\<lambda>s. None), hpParseBool = (\<lambda>s. if s = ''false'' then Some False else None),
     hpErrorText = (\<lambda>e. []), hpLower = (\<lambda>s. s), hpNow = 0\<rparr>"

theorem create_request_atomic_witness:
  "\<exists>r t s. withVFS run_http (badger_ops mem_env run_rng run_clock) None 1
      (RqCreate ''/a'' ''false'' (Some (''f'', Inr run_data)) ''true'' '''') run_empty NewSSEBroker = (r, t, s)
    \<and> db_ok mem_env (map_of (b_db (rqDrive s)))"
proof -
  obtain r t s where w: "withVFS run_http (badger_ops mem_env run_rng run_clock) None 1
      (RqCreate ''/a'' ''false'' (Some (''f'', Inr run_data)) ''true'' '''') run_empty NewSSEBroker = (r, t, s)"
    by (metis prod_cases3)
  have p: "hpParseBool run_http ''false'' = Some False" by (simp add: run_http_def)
  have y: "readyFor mem_env map_of run_rng run_empty"
    using run_empty_ok run_fresh_iid by (simp add: readyFor_def)
  have u: "utf8 (if ''/a'' = [] then ''f'' else ''/a'')" using run_paths(3) by simp
  have "smallInput run_data" by (simp add: smallInput_def)
  from create_request_atomic [OF membadger.badger_env_axioms p y u this w] w show ?thesis by blast
qed

section \<open>Searches and addresses\<close>

text \<open>
  A search returns exactly the entries of the tree other than the root whose name contains
  the query, case ignored, in the order of the tree, each with its address.
\<close>

theorem search_exact:
  "svc_Search ul S d query = bindE (vTree (svcVFS S) d Root) (\<lambda>tree. Inr (map (\<lambda>n. metaResponse (svcPrefix S) (nodeMeta n))
    (filter (\<lambda>n. mPath (nodeMeta n) \<noteq> Root \<and> (\<exists>a b. toLower ul (mName (nodeMeta n)) = a @ toLower ul query @ b))
      (preorder tree))))"
  unfolding svc_Search_def Let_def Walk_preorder search_loop strContains_iff by simp

text \<open>
  Addresses are unambiguous: entries with the same address are both directories of the same
  path, which is the escaped part of the address, or both files with the same identifier.
\<close>

theorem addresses_identify:
  assumes "mrURL (metaResponse ''/vfs'' m) = mrURL (metaResponse ''/vfs'' m')"
  shows "mIsDir m = mIsDir m' \<and> (if mIsDir m then mPath m = mPath m' else mID m = mID m')"
proof -
  have j: "joinPath [''/vfs'', uuidString i] = ''/vfs/'' @ uuidString i" for i
    by (rule join_vfs_uuid) 
  show ?thesis
    using assms by (auto simp: metaResponse_def j split: if_splits dest: queryEscape_inj uuidString_inj)
qed

theorem addresses_identify_witness:
  "mrURL (metaResponse ''/vfs'' (vmeta0\<lparr>mID := 1\<rparr>)) \<noteq> mrURL (metaResponse ''/vfs'' (vmeta0\<lparr>mID := 2\<rparr>))"
  using addresses_identify [of "vmeta0\<lparr>mID := 1\<rparr>" "vmeta0\<lparr>mID := 2\<rparr>"] by (auto simp: vmeta0_def)

end
