(* ===== verification/Disk.thy ===== *)
theory Disk
  imports Vfs Formats
begin

text \<open>
  What the local storage driver uses of Go's \<open>os\<close> and \<open>io/fs\<close> packages: a tree of directories and
  regular files below the storage directory, the operations of \<open>os.Root\<close> on it, and their
  failures. Every call may work, return an error of the system, or be the last one before the
  process dies; which of these happens is a list of faults in the state. Operations on names are
  atomic, a write may be cut short. What a completed call has done is kept; losing writes that were
  not synchronised is not modelled, so synchronising only opens, works or fails. Symbolic links do
  not occur.
\<close>

section \<open>Trees\<close>

type_synonym dpath = "string list"

datatype dnode = DirNode | RegNode bytes

type_synonym dtree = "(dpath \<times> dnode) list"

definition nodeAt :: "dtree \<Rightarrow> dpath \<Rightarrow> dnode option" where
  "nodeAt t p = (if p = [] then Some DirNode else map_of t p)"

text \<open>The error for a name that is not there: a file in place of a directory above it, or absence.\<close>

definition underFile :: "dtree \<Rightarrow> dpath \<Rightarrow> bool" where
  "underFile t p = list_ex (\<lambda>k. case nodeAt t (take k p) of Some (RegNode b) \<Rightarrow> True | _ \<Rightarrow> False) [0..<length p]"

definition missing :: "dtree \<Rightarrow> dpath \<Rightarrow> err" where
  "missing t p = (if underFile t p then ErrOther ''not a directory'' else ErrNotExist)"

definition treeStat :: "dpath \<Rightarrow> dtree \<Rightarrow> err + dnode" where
  "treeStat p t = (case nodeAt t p of None \<Rightarrow> Inl (missing t p) | Some n \<Rightarrow> Inr n)"

definition treeAdd :: "dpath \<Rightarrow> dnode \<Rightarrow> dtree \<Rightarrow> err + dtree" where
  "treeAdd p n t =
     (if nodeAt t p \<noteq> None then Inl ErrExist
      else if nodeAt t (butlast p) = Some DirNode then Inr ((p, n) # t)
      else Inl (missing t p))"

definition hasBelow :: "dtree \<Rightarrow> dpath \<Rightarrow> bool" where
  "hasBelow t p = list_ex (\<lambda>(q, n). strict_prefix p q) t"

definition relocate :: "dpath \<Rightarrow> dpath \<Rightarrow> dpath \<Rightarrow> dpath" where
  "relocate a b p = (if prefix a p then b @ drop (length a) p else p)"

definition treeRename :: "dpath \<Rightarrow> dpath \<Rightarrow> dtree \<Rightarrow> err + dtree" where
  "treeRename a b t =
     (case nodeAt t a of
        None \<Rightarrow> Inl (missing t a)
      | Some n \<Rightarrow>
          if a = b then Inr t
          else if a = [] \<or> b = [] \<or> prefix a b then Inl (ErrOther ''invalid argument'')
          else if nodeAt t (butlast b) \<noteq> Some DirNode then Inl (missing t b)
          else if (case nodeAt t b of
                     None \<Rightarrow> True
                   | Some (RegNode c) \<Rightarrow> n \<noteq> DirNode
                   | Some DirNode \<Rightarrow> n = DirNode \<and> \<not> hasBelow t b)
               then Inr (map (\<lambda>(p, x). (relocate a b p, x)) (filter (\<lambda>(p, x). p \<noteq> b) t))
               else Inl ErrExist)"

definition treeRemove :: "dpath \<Rightarrow> dtree \<Rightarrow> err + dtree" where
  "treeRemove p t =
     (if nodeAt t p = None then Inl (missing t p)
      else if p = [] \<or> hasBelow t p then Inl (ErrOther ''directory not empty'')
      else Inr (filter (\<lambda>(q, n). q \<noteq> p) t))"

definition treeWrite :: "dpath \<Rightarrow> bytes \<Rightarrow> dtree \<Rightarrow> dtree" where
  "treeWrite p bs t = map (\<lambda>(q, n). (q, if q = p then (case n of RegNode c \<Rightarrow> RegNode (c @ bs) | DirNode \<Rightarrow> n) else n)) t"

text \<open>\<open>fs.WalkDir\<close>: an entry before what is below it, names in lexical order.\<close>

definition treeWalk :: "dtree \<Rightarrow> dpath \<Rightarrow> dpath list" where
  "treeWalk t p = p # sort (remdups (filter (strict_prefix p) (map fst t)))"

text \<open>\<open>fs.ReadDir\<close>: the names of a directory in lexical order.\<close>

definition treeNames :: "dtree \<Rightarrow> dpath \<Rightarrow> string list" where
  "treeNames t p = sort (remdups (map last (filter (\<lambda>q. q \<noteq> [] \<and> butlast q = p) (map fst t))))"

section \<open>Actions\<close>

text \<open>
  The state: the tree, the faults to come (a missing one is \<open>Works\<close>), and the order in which
  \<open>RemoveAll\<close> meets the entries it removes, given in the lexical order.
\<close>

datatype fault = Works | Breaks nat err | Crashes nat

record disk =
  dkTree :: dtree
  dkFaults :: "fault list"
  dkRemoval :: "dpath list \<Rightarrow> dpath list"

datatype 'a run = Returns 'a | Raises err | Crashed

type_synonym 'a act = "disk \<Rightarrow> 'a run \<times> disk"

definition pureA :: "'a \<Rightarrow> 'a act" where
  "pureA x d = (Returns x, d)"

definition raiseA :: "err \<Rightarrow> 'a act" where
  "raiseA e d = (Raises e, d)"

definition bindA :: "'a act \<Rightarrow> ('a \<Rightarrow> 'b act) \<Rightarrow> 'b act" where
  "bindA m f d = (case m d of
     (Returns x, d) \<Rightarrow> f x d | (Raises e, d) \<Rightarrow> (Raises e, d) | (Crashed, d) \<Rightarrow> (Crashed, d))"

text \<open>The error of an action as a value, for code that goes on after it.\<close>

definition tryA :: "'a act \<Rightarrow> (err + 'a) act" where
  "tryA m d = (case m d of
     (Returns x, d) \<Rightarrow> (Returns (Inr x), d) | (Raises e, d) \<Rightarrow> (Returns (Inl e), d) | (Crashed, d) \<Rightarrow> (Crashed, d))"

definition liftA :: "err + 'a \<Rightarrow> 'a act" where
  "liftA r = (case r of Inl e \<Rightarrow> raiseA e | Inr x \<Rightarrow> pureA x)"

definition joinA :: "err option list \<Rightarrow> 'a \<Rightarrow> 'a act" where
  "joinA es x = (case errorsJoin es of None \<Rightarrow> pureA x | Some e \<Rightarrow> raiseA e)"

fun forA :: "('a \<Rightarrow> unit act) \<Rightarrow> 'a list \<Rightarrow> unit act" where
  "forA f [] = pureA ()"
| "forA f (x # xs) = bindA (f x) (\<lambda>_. forA f xs)"

text \<open>A deferred action whose error is dropped.\<close>

definition finallyA :: "unit act \<Rightarrow> 'a act \<Rightarrow> 'a act" where
  "finallyA cleanup m = bindA (tryA m) (\<lambda>x. bindA (tryA cleanup) (\<lambda>_. liftA x))"

definition failedWith :: "err + 'a \<Rightarrow> err option" where
  "failedWith r = (case r of Inl e \<Rightarrow> Some e | Inr x \<Rightarrow> None)"

text \<open>A system call that works on the tree as a whole, and one that only reads it.\<close>

definition effectA :: "(dtree \<Rightarrow> err + 'a \<times> dtree) \<Rightarrow> 'a act" where
  "effectA f d =
     (let d' = d\<lparr>dkFaults := tl (dkFaults d)\<rparr> in
      case dkFaults d of
        Breaks n e # fs \<Rightarrow> (Raises e, d')
      | Crashes n # fs \<Rightarrow> (Crashed, d')
      | _ \<Rightarrow> (case f (dkTree d) of
                Inl e \<Rightarrow> (Raises e, d')
              | Inr (x, t) \<Rightarrow> (Returns x, d'\<lparr>dkTree := t\<rparr>)))"

definition changeA :: "(dtree \<Rightarrow> err + dtree) \<Rightarrow> unit act" where
  "changeA f = effectA (\<lambda>t. bindE (f t) (\<lambda>t. Inr ((), t)))"

definition readA :: "(dtree \<Rightarrow> err + 'a) \<Rightarrow> 'a act" where
  "readA f = effectA (\<lambda>t. bindE (f t) (\<lambda>x. Inr (x, t)))"

text \<open>A write, which may be cut short.\<close>

definition writeA :: "dpath \<Rightarrow> bytes \<Rightarrow> unit act" where
  "writeA p bs d =
     (let d' = d\<lparr>dkFaults := tl (dkFaults d)\<rparr>; part = (\<lambda>n. d'\<lparr>dkTree := treeWrite p (take n bs) (dkTree d)\<rparr>) in
      case dkFaults d of
        Breaks n e # fs \<Rightarrow> (Raises e, part n)
      | Crashes n # fs \<Rightarrow> (Crashed, part n)
      | _ \<Rightarrow> (Returns (), part (length bs)))"

section \<open>Package os\<close>

text \<open>An \<open>os.Root\<close> is the path of its directory; it resolves names that do not leave it.\<close>

type_synonym root = dpath

definition rootPath :: "root \<Rightarrow> string \<Rightarrow> err + dpath" where
  "rootPath r name =
     (let es = splitOn slash name in
      if name = [] \<or> prefix ''/'' name \<or> ''..'' \<in> set es then Inl (ErrOther ''path escapes from parent'')
      else Inr (r @ filter (\<lambda>e. e \<noteq> [] \<and> e \<noteq> ''.'') es))"

definition rootOpenRoot :: "root \<Rightarrow> string \<Rightarrow> root act" where
  "rootOpenRoot r name = readA (\<lambda>t. bindE (rootPath r name) (\<lambda>p. bindE (treeStat p t) (\<lambda>n.
     if n = DirNode then Inr p else Inl (ErrOther ''not a directory''))))"

definition rootLstat :: "root \<Rightarrow> string \<Rightarrow> dnode act" where
  "rootLstat r name = readA (\<lambda>t. bindE (rootPath r name) (\<lambda>p. treeStat p t))"

definition rootMkdir :: "root \<Rightarrow> string \<Rightarrow> unit act" where
  "rootMkdir r name = changeA (\<lambda>t. bindE (rootPath r name) (\<lambda>p. treeAdd p DirNode t))"

text \<open>\<open>OpenFile\<close> with \<open>O_CREATE|O_EXCL|O_WRONLY\<close>; the file is the path returned.\<close>

definition rootCreate :: "root \<Rightarrow> string \<Rightarrow> dpath act" where
  "rootCreate r name = effectA (\<lambda>t. bindE (rootPath r name) (\<lambda>p.
     bindE (treeAdd p (RegNode []) t) (\<lambda>t. Inr (p, t))))"

definition rootRename :: "root \<Rightarrow> string \<Rightarrow> string \<Rightarrow> unit act" where
  "rootRename r from to = changeA (\<lambda>t. bindE (rootPath r from) (\<lambda>a. bindE (rootPath r to) (\<lambda>b. treeRename a b t)))"

definition treeRead :: "dpath \<Rightarrow> dtree \<Rightarrow> err + bytes" where
  "treeRead p t = bindE (treeStat p t) (\<lambda>n.
     case n of DirNode \<Rightarrow> Inl (ErrOther ''is a directory'') | RegNode b \<Rightarrow> Inr b)"

definition rootReadFile :: "root \<Rightarrow> string \<Rightarrow> bytes act" where
  "rootReadFile r name = readA (\<lambda>t. bindE (rootPath r name) (\<lambda>p. treeRead p t))"

text \<open>\<open>RemoveAll\<close> removes the entries below a name one by one and succeeds when there is nothing.\<close>

definition removalOrder :: "dpath \<Rightarrow> disk \<Rightarrow> dpath list" where
  "removalOrder p d = (if nodeAt (dkTree d) p = None then [] else dkRemoval d (treeWalk (dkTree d) p))"

definition osRemoveAll :: "dpath \<Rightarrow> unit act" where
  "osRemoveAll p d = forA (\<lambda>q. changeA (treeRemove q)) (removalOrder p d) d"

definition rootRemoveAll :: "root \<Rightarrow> string \<Rightarrow> unit act" where
  "rootRemoveAll r name d = (case rootPath r name of Inl e \<Rightarrow> (Raises e, d) | Inr p \<Rightarrow> osRemoveAll p d)"

text \<open>\<open>f.Sync()\<close> and \<open>f.Close()\<close> of an open file.\<close>

definition syncFile :: "unit act" where
  "syncFile = readA (\<lambda>t. Inr ())"

definition closeFile :: "unit act" where
  "closeFile = readA (\<lambda>t. Inr ())"

definition syncAndClose :: "err option \<Rightarrow> 'a \<Rightarrow> 'a act" where
  "syncAndClose e x = bindA (tryA syncFile) (\<lambda>s. bindA (tryA closeFile) (\<lambda>c.
     joinA [e, failedWith s, failedWith c] x))"

definition openFile :: "root \<Rightarrow> string \<Rightarrow> dpath act" where
  "openFile r name = readA (\<lambda>t. bindE (rootPath r name) (\<lambda>p. bindE (treeStat p t) (\<lambda>_. Inr p)))"

text \<open>\<open>io.Copy\<close> from a reader to a new file.\<close>

definition copyTo :: "dpath \<Rightarrow> reader \<Rightarrow> (err option) act" where
  "copyTo p r = bindA (tryA (writeA p (rData r))) (\<lambda>w.
     pureA (case w of Inl e \<Rightarrow> Some e | Inr _ \<Rightarrow> if rEnd r = ErrEOF then None else Some (rEnd r)))"

section \<open>Files by their paths\<close>

text \<open>The functions of \<open>os\<close> that take a path, which need no \<open>os.Root\<close>.\<close>

definition osStat :: "dpath \<Rightarrow> dnode act" where
  "osStat p = readA (treeStat p)"

definition osMkdir :: "dpath \<Rightarrow> unit act" where
  "osMkdir p = changeA (treeAdd p DirNode)"

definition osReadFile :: "dpath \<Rightarrow> bytes act" where
  "osReadFile p = readA (treeRead p)"

definition osCreate :: "dpath \<Rightarrow> unit act" where
  "osCreate p = changeA (treeAdd p (RegNode []))"

definition osRename :: "dpath \<Rightarrow> dpath \<Rightarrow> unit act" where
  "osRename a b = changeA (treeRename a b)"

definition osRemove :: "dpath \<Rightarrow> unit act" where
  "osRemove p = changeA (treeRemove p)"

text \<open>\<open>OpenFile\<close> with \<open>O_CREATE|O_TRUNC|O_WRONLY\<close>, and \<open>WriteFile\<close>, whose error is the first one.\<close>

definition treeTruncate :: "dpath \<Rightarrow> dtree \<Rightarrow> err + dtree" where
  "treeTruncate p t =
     (case nodeAt t p of
        None \<Rightarrow> treeAdd p (RegNode []) t
      | Some DirNode \<Rightarrow> Inl (ErrOther ''is a directory'')
      | Some (RegNode _) \<Rightarrow> Inr (map (\<lambda>(q, n). (q, if q = p then RegNode [] else n)) t))"

definition osTruncate :: "dpath \<Rightarrow> unit act" where
  "osTruncate p = changeA (treeTruncate p)"

definition osWriteFile :: "dpath \<Rightarrow> bytes \<Rightarrow> unit act" where
  "osWriteFile p b =
     bindA (osTruncate p) (\<lambda>_.
     bindA (tryA (writeA p b)) (\<lambda>w.
     bindA (tryA closeFile) (\<lambda>c.
     case w of Inl e \<Rightarrow> raiseA e | Inr _ \<Rightarrow> liftA c)))"

text \<open>
  \<open>CreateTemp\<close> for a pattern that ends in a star tries random numbers until the name is free;
  \<open>ns\<close> are the numbers it draws before it gives up.
\<close>

fun osCreateTemp :: "dpath \<Rightarrow> string \<Rightarrow> nat list \<Rightarrow> dpath act" where
  "osCreateTemp dir pre [] = raiseA ErrExist"
| "osCreateTemp dir pre (n # ns) =
     (let f = dir @ [pre @ formatUint n]
      in bindA (tryA (osCreate f)) (\<lambda>r. case r of
           Inr _ \<Rightarrow> pureA f
         | Inl e \<Rightarrow> if errorsIs e ErrExist then osCreateTemp dir pre ns else raiseA e))"

text \<open>\<open>MkdirAll\<close> on a path whose elements are given from the last to the first.\<close>

fun mkdirAllRev :: "dpath \<Rightarrow> unit act" where
  "mkdirAllRev [] = bindA (osStat []) (\<lambda>_. pureA ())"
| "mkdirAllRev (x # xs) =
     (let p = rev (x # xs)
      in bindA (tryA (osStat p)) (\<lambda>s. case s of
           Inr DirNode \<Rightarrow> pureA ()
         | Inr (RegNode _) \<Rightarrow> raiseA (ErrOther ''not a directory'')
         | Inl _ \<Rightarrow>
             bindA (mkdirAllRev xs) (\<lambda>_.
             bindA (tryA (osMkdir p)) (\<lambda>m. case m of
               Inr _ \<Rightarrow> pureA ()
             | Inl e \<Rightarrow> bindA (tryA (osStat p)) (\<lambda>s. if s = Inr DirNode then pureA () else raiseA e)))))"

definition osMkdirAll :: "dpath \<Rightarrow> unit act" where
  "osMkdirAll p = mkdirAllRev (rev p)"

end
