(* ===== verification/Local_Tx.thy ===== *)
theory Local_Tx
  imports Disk
begin

text \<open>
  The storage transactions of the local driver (\<open>pkg/drivers/localstorage/transaction.go\<close>): paths,
  the index file, the journal and recovery from it, and the commit protocol. The JSON encodings of
  the index and the journal, and the order in which Go visits a map, are parameters.
\<close>

section \<open>Paths\<close>

definition IndexFileName :: string where "IndexFileName = ''.vfs_index.json''"

definition transactionDir :: string where "transactionDir = ''.vfs-transaction''"

definition inTransaction :: "string \<Rightarrow> string" where
  "inTransaction name = transactionDir @ ''/'' @ name"

record diskMove =
  dmFrom :: string
  dmTo :: string

definition storagePath :: "string \<Rightarrow> bool \<Rightarrow> err + string" where
  "storagePath value directory =
     (let value = trimSpace value in
      if containsAny value badChars
         \<or> list_ex (\<lambda>part. part = ''..'' \<or> prefix ''.vfs'' part) (splitOn slash value)
      then Inl ErrInvalidPath
      else
        let value = cleanPath (''/'' @ value)
        in Inr (if directory \<and> value \<noteq> ''/'' then value @ ''/'' else value))"

definition relative :: "string \<Rightarrow> string" where
  "relative value = trimBoth slash (trimPrefix value ''/'')"

definition local_getParentPath :: "string \<Rightarrow> string" where
  "local_getParentPath path =
     (if path = ''/'' then ''/''
      else
        let dir = dirPath (trimSuffix path ''/'')
        in if dir = ''/'' then ''/'' else if \<not> suffix ''/'' dir then dir @ ''/'' else dir)"

definition isInternalPath :: "string \<Rightarrow> bool" where
  "isInternalPath value \<longleftrightarrow> value \<noteq> [] \<and> value \<noteq> ''.'' \<and> \<not> prefix ''/'' value \<and> cleanPath value = value
     \<and> \<not> containsAny value badChars \<and> \<not> prefix ''../'' value"

section \<open>The index\<close>

type_synonym id_map = "uuid \<rightharpoonup> vmeta"
type_synonym path_map = "string \<rightharpoonup> vmeta"
type_synonym ls_maps = "id_map \<times> path_map"

record ls_env =
  leEncIndex :: "vmeta list \<Rightarrow> err + bytes"
  leDecIndex :: "bytes \<Rightarrow> err + vmeta list"
  leEncMoves :: "diskMove list \<Rightarrow> err + bytes"
  leDecMoves :: "bytes \<Rightarrow> err + diskMove list"
  leOrder :: "id_map \<Rightarrow> uuid list"
  lePaths :: "path_map \<Rightarrow> string list"

definition statPath :: "path_map \<Rightarrow> string \<Rightarrow> err + vmeta" where
  "statPath paths value = bindE (storagePath value False) (\<lambda>p.
     case paths p of
       Some m \<Rightarrow> Inr m
     | None \<Rightarrow> (case paths (p @ ''/'') of Some m \<Rightarrow> Inr m | None \<Rightarrow> Inl ErrNotFound))"

definition checkParent :: "path_map \<Rightarrow> string \<Rightarrow> err + unit" where
  "checkParent paths value =
     (let parent = local_getParentPath value in
      if parent = ''/'' then Inr ()
      else bindE (statPath paths parent) (\<lambda>m. if \<not> mIsDir m then Inl ErrNotDir else Inr ()))"

definition validEntry :: "vmeta \<Rightarrow> bool" where
  "validEntry m \<longleftrightarrow> (case storagePath (mPath m) (mIsDir m) of
       Inl e \<Rightarrow> False
     | Inr clean \<Rightarrow> clean = mPath m \<and> clean \<noteq> ''/'' \<and> mID m \<noteq> nilUUID \<and> 0 \<le> mSize m
         \<and> mName m = basePath (trimSuffix clean ''/''))"

definition readEntry :: "vmeta \<Rightarrow> ls_maps \<Rightarrow> err + ls_maps" where
  "readEntry m st =
     (case st of (ids, paths) \<Rightarrow>
        if \<not> validEntry m then Inl (ErrOther ''invalid index entry'')
        else if ids (mID m) \<noteq> None then Inl (ErrOther ''duplicate index ID'')
        else
          let key = trimSuffix (mPath m) ''/'' in
          if paths key \<noteq> None then Inl (ErrOther ''duplicate index path'')
          else Inr (ids(mID m \<mapsto> m), paths(key \<mapsto> m)))"

text \<open>The values of a map in the order of a loop over it.\<close>

definition metasOf :: "ls_env \<Rightarrow> id_map \<Rightarrow> vmeta list" where
  "metasOf E ids = map (\<lambda>i. the (ids i)) (leOrder E ids)"

definition readIndex :: "ls_env \<Rightarrow> bytes \<Rightarrow> err + ls_maps" where
  "readIndex E data = bindE (leDecIndex E data) (\<lambda>metas.
     bindE (forE readEntry metas (Map.empty, Map.empty)) (\<lambda>(ids, _).
       let pathMap = foldl (\<lambda>m meta. m(mPath meta \<mapsto> meta)) Map.empty (metasOf E ids)
       in bindE (mapE (\<lambda>meta. case checkParent pathMap (mPath meta) of
              Inl e \<Rightarrow> Inl (ErrWrapped ''invalid parent'' e) | Inr _ \<Rightarrow> Inr ()) (metasOf E ids))
            (\<lambda>_. Inr (ids, pathMap))))"

definition matchesEntry :: "vmeta \<Rightarrow> dnode \<Rightarrow> bool" where
  "matchesEntry meta info =
     (case info of
        DirNode \<Rightarrow> mIsDir meta
      | RegNode b \<Rightarrow> \<not> mIsDir meta \<and> int (length b) = mSize meta)"

definition checkIndexedFiles :: "ls_env \<Rightarrow> id_map \<Rightarrow> root \<Rightarrow> unit act" where
  "checkIndexedFiles E ids r = forA (\<lambda>meta. bindA (rootLstat r (relative (mPath meta))) (\<lambda>info.
     if \<not> matchesEntry meta info then raiseA (ErrOther ''stored file does not match index'') else pureA ()))
     (metasOf E ids)"

section \<open>Synchronised files\<close>

definition syncDirectory :: "root \<Rightarrow> string \<Rightarrow> unit act" where
  "syncDirectory r name = bindA (openFile r name) (\<lambda>_. syncAndClose None ())"

definition writeSynced :: "root \<Rightarrow> string \<Rightarrow> bytes \<Rightarrow> unit act" where
  "writeSynced r name data = bindA (rootCreate r name) (\<lambda>f. bindA (tryA (writeA f data)) (\<lambda>w.
     syncAndClose (failedWith w) ()))"

definition syncStaging :: "root \<Rightarrow> unit act" where
  "syncStaging r = bindA (readA (\<lambda>t. Inr (treeWalk t (r @ [transactionDir])))) (\<lambda>names.
     forA (\<lambda>p. bindA (readA (\<lambda>t. bindE (treeStat p t) (\<lambda>_. Inr ()))) (\<lambda>_. syncAndClose None ())) names)"

definition stageContent :: "root \<Rightarrow> reader \<Rightarrow> int act" where
  "stageContent r rd = bindA (rootCreate r (inTransaction ''new'')) (\<lambda>f. bindA (copyTo f rd) (\<lambda>e.
     syncAndClose e (int (length (rData rd)))))"

section \<open>Recovery\<close>

definition rollbackMove :: "root \<Rightarrow> diskMove \<Rightarrow> unit act" where
  "rollbackMove r move =
     (if \<not> isInternalPath (dmFrom move) \<or> \<not> isInternalPath (dmTo move)
      then raiseA (ErrOther ''invalid recovery path'')
      else
        bindA (tryA (rootLstat r (dmFrom move))) (\<lambda>from. bindA (tryA (rootLstat r (dmTo move))) (\<lambda>to.
        case from of
          Inr _ \<Rightarrow> pureA ()
        | Inl fromErr \<Rightarrow>
            if \<not> errorsIs fromErr ErrNotExist then raiseA fromErr
            else (case to of
                Inl toErr \<Rightarrow> if errorsIs toErr ErrNotExist then pureA () else raiseA toErr
              | Inr _ \<Rightarrow>
                  bindA (tryA (rootRename r (dmTo move) (dmFrom move))) (\<lambda>renamed.
                  case renamed of
                    Inl e \<Rightarrow> raiseA (ErrWrapped ''rollback failed'' e)
                  | Inr _ \<Rightarrow> forA (syncDirectory r) [dirPath (dmFrom move), dirPath (dmTo move)])))))"

definition recoverTransaction :: "ls_env \<Rightarrow> root \<Rightarrow> unit act" where
  "recoverTransaction E r =
     bindA (tryA (rootReadFile r (inTransaction ''journal''))) (\<lambda>journal.
     case journal of
       Inl e \<Rightarrow> if errorsIs e ErrNotExist then rootRemoveAll r transactionDir else raiseA e
     | Inr data \<Rightarrow>
         bindA (liftA (leDecMoves E data)) (\<lambda>moves.
         bindA (tryA (rootLstat r (inTransaction ''index''))) (\<lambda>index.
         bindA (case index of
                  Inr _ \<Rightarrow> forA (rollbackMove r) (rev moves)
                | Inl e \<Rightarrow> if errorsIs e ErrNotExist then pureA () else raiseA e) (\<lambda>_.
         bindA (syncDirectory r ''.'') (\<lambda>_. rootRemoveAll r transactionDir)))))"

section \<open>Committing\<close>

record lstore =
  lsIds :: id_map
  lsPaths :: path_map
  lsFailed :: "err option"
  lsDisk :: disk

definition applyMove :: "root \<Rightarrow> diskMove \<Rightarrow> unit act" where
  "applyMove r move = bindA (rootRename r (dmFrom move) (dmTo move)) (\<lambda>_.
     forA (syncDirectory r) [dirPath (dmFrom move), dirPath (dmTo move)])"

text \<open>
  The body of a transaction up to the renaming of the index. \<open>stage\<close> prepares the moves, \<open>update\<close>
  changes the maps with what \<open>stage\<close> found out and gives the result of the operation.
\<close>

definition commit :: "ls_env \<Rightarrow> root \<Rightarrow> (diskMove list \<times> 'x) act \<Rightarrow> ('x \<Rightarrow> ls_maps \<Rightarrow> ls_maps \<times> 'r)
    \<Rightarrow> ls_maps \<Rightarrow> (ls_maps \<times> 'r) act" where
  "commit E r stage update maps =
     bindA stage (\<lambda>(moves, x).
     let (maps', result) = update x maps in
     bindA (liftA (leEncIndex E (metasOf E (fst maps')))) (\<lambda>data.
     bindA (writeSynced r (inTransaction ''index'') data) (\<lambda>_.
     bindA (liftA (leEncMoves E moves)) (\<lambda>journal.
     bindA (writeSynced r (inTransaction ''journal.new'') journal) (\<lambda>_.
     bindA (rootRename r (inTransaction ''journal.new'') (inTransaction ''journal'')) (\<lambda>_.
     bindA (syncStaging r) (\<lambda>_.
     bindA (syncDirectory r ''.'') (\<lambda>_.
     bindA (forA (applyMove r) moves) (\<lambda>_.
     bindA (rootRename r (inTransaction ''index'') IndexFileName) (\<lambda>_.
     pureA (maps', result)))))))))))"

text \<open>The deferred recovery, with the error the transaction has so far.\<close>

definition afterwards :: "ls_env \<Rightarrow> err option \<Rightarrow> 'r run \<Rightarrow> lstore \<Rightarrow> disk \<Rightarrow> 'r run \<times> lstore" where
  "afterwards E err result s d =
     (case recoverTransaction E [] d of
        (Crashed, d) \<Rightarrow> (Crashed, s\<lparr>lsDisk := d\<rparr>)
      | (Raises e, d) \<Rightarrow> (Raises (the (errorsJoin [err, Some e])), s\<lparr>lsDisk := d, lsFailed := Some e\<rparr>)
      | (Returns _, d) \<Rightarrow>
          ((case errorsJoin [err, None] of None \<Rightarrow> result | Some e \<Rightarrow> Raises e), s\<lparr>lsDisk := d\<rparr>))"

definition transaction :: "ls_env \<Rightarrow> (diskMove list \<times> 'x) act \<Rightarrow> ('x \<Rightarrow> ls_maps \<Rightarrow> ls_maps \<times> 'r)
    \<Rightarrow> lstore \<Rightarrow> 'r run \<times> lstore" where
  "transaction E stage update s =
     (case readA (\<lambda>t. Inr ()) (lsDisk s) of
        (Crashed, d) \<Rightarrow> (Crashed, s\<lparr>lsDisk := d\<rparr>)
      | (Raises e, d) \<Rightarrow> (Raises e, s\<lparr>lsDisk := d\<rparr>)
      | (Returns _, d) \<Rightarrow>
          (case rootMkdir [] transactionDir d of
             (Crashed, d) \<Rightarrow> (Crashed, s\<lparr>lsDisk := d\<rparr>)
           | (Raises e, d) \<Rightarrow> (Raises (ErrWrapped ''unfinished storage transaction'' e), s\<lparr>lsDisk := d\<rparr>)
           | (Returns _, d) \<Rightarrow>
               (case commit E [] stage update (lsIds s, lsPaths s) d of
                  (Crashed, d) \<Rightarrow> (Crashed, s\<lparr>lsDisk := d\<rparr>)
                | (Raises e, d) \<Rightarrow> afterwards E (Some e) Crashed s d
                | (Returns (maps, result), d) \<Rightarrow>
                    let s = s\<lparr>lsIds := fst maps, lsPaths := snd maps\<rparr> in
                    (case syncDirectory [] ''.'' d of
                       (Crashed, d) \<Rightarrow> (Crashed, s\<lparr>lsDisk := d\<rparr>)
                     | (Raises e, d) \<Rightarrow> afterwards E (Some e) Crashed s d
                     | (Returns _, d) \<Rightarrow> afterwards E None (Returns result) s d))))"

definition emptyStage :: "(diskMove list \<times> unit) act" where
  "emptyStage = pureA ([], ())"

end
