(* ===== verification/Disk_Facts.thy ===== *)
theory Disk_Facts
  imports Disk
begin

text \<open>
  What the operations on trees do to the function from paths to nodes, on trees in which every
  entry lies in a directory, and the rules for reasoning about actions: the weakest precondition of
  an action for its three outcomes.
\<close>

section \<open>Trees as functions\<close>

type_synonym tfun = "dpath \<Rightarrow> dnode option"

definition okF :: "tfun \<Rightarrow> bool" where
  "okF f \<longleftrightarrow> f [] = Some DirNode \<and> (\<forall>p. f p \<noteq> None \<longrightarrow> p \<noteq> [] \<longrightarrow> f (butlast p) = Some DirNode)"

definition tree_ok :: "dtree \<Rightarrow> bool" where
  "tree_ok t \<longleftrightarrow> okF (nodeAt t) \<and> [] \<notin> fst ` set t"

lemma nodeAt_Nil [simp]: "nodeAt t [] = Some DirNode"
  by (simp add: nodeAt_def)

lemma tree_okF: "tree_ok t \<Longrightarrow> okF (nodeAt t)"
  by (simp add: tree_ok_def)

lemma okF_parent: "okF f \<Longrightarrow> f p \<noteq> None \<Longrightarrow> p \<noteq> [] \<Longrightarrow> f (butlast p) = Some DirNode"
  by (simp add: okF_def)

lemma okF_above: "okF f \<Longrightarrow> f p \<noteq> None \<Longrightarrow> strict_prefix q p \<Longrightarrow> f q = Some DirNode"
proof (induction p rule: rev_induct)
  case (snoc x p)
  then have d: "f p = Some DirNode" using okF_parent [of f "p @ [x]"] by simp
  from snoc.prems(3) have "q = p \<or> strict_prefix q p" by (auto simp: strict_prefix_def)
  with d snoc show ?case by auto
qed simp

lemma okF_prefix: "okF f \<Longrightarrow> f p \<noteq> None \<Longrightarrow> prefix q p \<Longrightarrow> f q \<noteq> None"
  using okF_above by (metis option.distinct(1) prefix_order.le_less)

lemma okF_file: "okF f \<Longrightarrow> f p = Some (RegNode b) \<Longrightarrow> strict_prefix p q \<Longrightarrow> f q = None"
  using okF_above by fastforce

lemma underFile_iff: "underFile t p \<longleftrightarrow> (\<exists>q b. strict_prefix q p \<and> nodeAt t q = Some (RegNode b))"
proof
  assume "underFile t p"
  then obtain k where k: "k < length p" "case nodeAt t (take k p) of Some (RegNode b) \<Rightarrow> True | _ \<Rightarrow> False"
    by (auto simp: underFile_def list_ex_iff)
  then have "strict_prefix (take k p) p" by (auto simp: strict_prefix_def take_is_prefix dest: arg_cong [where f = length])
  with k(2) show "\<exists>q b. strict_prefix q p \<and> nodeAt t q = Some (RegNode b)"
    by (auto split: option.splits dnode.splits)
next
  assume "\<exists>q b. strict_prefix q p \<and> nodeAt t q = Some (RegNode b)"
  then obtain q b where q: "strict_prefix q p" "nodeAt t q = Some (RegNode b)" by blast
  then have "q = take (length q) p" "length q < length p"
    by (auto simp: strict_prefix_def prefix_def)
  with q(2) show "underFile t p" by (auto simp: underFile_def list_ex_iff intro!: bexI [of _ "length q"])
qed

lemma missing_absent:
  assumes "\<And>q b. strict_prefix q p \<Longrightarrow> nodeAt t q \<noteq> Some (RegNode b)"
  shows "missing t p = ErrNotExist"
  using assms by (auto simp: missing_def underFile_iff)

lemma missing_in_dir:
  assumes "tree_ok t" and "nodeAt t (butlast p) = Some DirNode"
  shows "missing t p = ErrNotExist"
proof (rule missing_absent)
  fix q b assume q: "strict_prefix q p"
  then have "q = butlast p \<or> strict_prefix q (butlast p)"
    by (cases p rule: rev_cases) (auto simp: strict_prefix_def)
  then have "nodeAt t q = Some DirNode"
    using okF_above [OF tree_okF [OF assms(1)], of "butlast p" q] assms(2) by auto
  then show "nodeAt t q \<noteq> Some (RegNode b)" by simp
qed

lemma hasBelow_iff: "tree_ok t \<Longrightarrow> hasBelow t p \<longleftrightarrow> (\<exists>q. strict_prefix p q \<and> nodeAt t q \<noteq> None)"
proof -
  have "(\<exists>n. (q, n) \<in> set t) \<longleftrightarrow> map_of t q \<noteq> None" for q by (auto simp: map_of_eq_None_iff rev_image_eqI)
  moreover have "strict_prefix p q \<Longrightarrow> q \<noteq> []" for q by auto
  ultimately show ?thesis unfolding hasBelow_def list_ex_iff nodeAt_def by (metis (no_types, lifting) case_prodE case_prodI)
qed

lemma treeAdd_Inr:
  assumes "treeAdd p n t = Inr t'"
  shows "nodeAt t p = None \<and> nodeAt t (butlast p) = Some DirNode \<and> nodeAt t' = (nodeAt t)(p \<mapsto> n) \<and> p \<noteq> []"
proof -
  from assms have a: "nodeAt t p = None" "nodeAt t (butlast p) = Some DirNode" "t' = (p, n) # t"
    by (simp_all add: treeAdd_def split: if_splits)
  then have "p \<noteq> []" by auto
  with a show ?thesis by (simp add: nodeAt_def fun_eq_iff)
qed

lemma okF_add: "okF f \<Longrightarrow> f p = None \<Longrightarrow> f (butlast p) = Some DirNode \<Longrightarrow> okF (f(p \<mapsto> n))"
  by (auto simp: okF_def)

lemma treeAdd_ok: "tree_ok t \<Longrightarrow> treeAdd p n t = Inr t' \<Longrightarrow> tree_ok t'"
proof -
  assume t: "tree_ok t" and r: "treeAdd p n t = Inr t'"
  from treeAdd_Inr [OF r] have a: "nodeAt t p = None" "nodeAt t (butlast p) = Some DirNode"
    "nodeAt t' = (nodeAt t)(p \<mapsto> n)" "p \<noteq> []" by auto
  have "t' = (p, n) # t" using r by (simp add: treeAdd_def split: if_splits)
  with okF_add [OF tree_okF [OF t] a(1,2), of n] a t show ?thesis by (simp add: tree_ok_def)
qed

section \<open>Renaming\<close>

definition treeRenamed :: "dpath \<Rightarrow> dpath \<Rightarrow> tfun \<Rightarrow> tfun" where
  "treeRenamed a b f p = (if prefix b p then f (a @ drop (length b) p) else if prefix a p then None else f p)"

definition apart :: "dpath \<Rightarrow> dpath \<Rightarrow> bool" where
  "apart a b \<longleftrightarrow> \<not> prefix a b \<and> \<not> prefix b a"

lemma apart_sym: "apart a b \<Longrightarrow> apart b a"
  by (auto simp: apart_def)

lemma apart_below: "apart a b \<Longrightarrow> prefix a p \<Longrightarrow> prefix b q \<Longrightarrow> apart p q"
  by (auto simp: apart_def dest: prefix_order.trans prefix_same_cases)

lemma apart_not_both: "apart a b \<Longrightarrow> prefix a p \<Longrightarrow> \<not> prefix b p"
  using prefix_same_cases by (auto simp: apart_def)

lemma apart_neq: "apart a b \<Longrightarrow> a \<noteq> [] \<and> b \<noteq> [] \<and> a \<noteq> b"
  by (auto simp: apart_def)

lemma treeRenamed_outside: "\<not> prefix a p \<Longrightarrow> \<not> prefix b p \<Longrightarrow> treeRenamed a b f p = f p"
  by (simp add: treeRenamed_def)

lemma treeRenamed_source: "apart a b \<Longrightarrow> prefix a p \<Longrightarrow> treeRenamed a b f p = None"
  by (simp add: treeRenamed_def apart_not_both)

lemma treeRenamed_target: "treeRenamed a b f (b @ p) = f (a @ p)"
  by (simp add: treeRenamed_def)

lemma butlast_prefix: "prefix b p \<Longrightarrow> p \<noteq> b \<Longrightarrow> prefix b (butlast p) \<and> drop (length b) (butlast p) = butlast (drop (length b) p)
    \<and> drop (length b) p \<noteq> []"
  by (auto simp: prefix_def butlast_append)

lemma not_prefix_butlast: "\<not> prefix b p \<Longrightarrow> \<not> prefix b (butlast p)"
  using prefix_order.trans prefixeq_butlast by blast

lemma treeRenamed_ok:
  assumes f: "okF f" and ab: "apart a b" and fa: "f a \<noteq> None" and fb: "f (butlast b) = Some DirNode"
  shows "okF (treeRenamed a b f)"
  unfolding okF_def
proof (intro conjI allI impI)
  have n: "a \<noteq> []" "b \<noteq> []" using apart_neq [OF ab] by auto
  then show "treeRenamed a b f [] = Some DirNode" using f by (simp add: treeRenamed_def okF_def)
  fix p assume p: "treeRenamed a b f p \<noteq> None" "p \<noteq> []"
  show "treeRenamed a b f (butlast p) = Some DirNode"
  proof (cases "prefix b p")
    case True
    then have fp: "f (a @ drop (length b) p) \<noteq> None" using p(1) by (simp add: treeRenamed_def)
    show ?thesis
    proof (cases "p = b")
      case True
      have "\<not> prefix b (butlast b)" using n prefix_length_le [of b "butlast b"] by (cases b) auto
      moreover have "\<not> prefix a (butlast b)" using ab prefix_order.trans [OF _ prefixeq_butlast] by (auto simp: apart_def)
      ultimately show ?thesis using True fb by (simp add: treeRenamed_def)
    next
      case False
      note b = butlast_prefix [OF True False]
      have "f (butlast (a @ drop (length b) p)) = Some DirNode"
        using okF_parent [OF f fp] n by simp
      then show ?thesis using b by (simp add: treeRenamed_def butlast_append)
    qed
  next
    case False
    with p have "\<not> prefix a p" "f p \<noteq> None" by (auto simp: treeRenamed_def split: if_splits)
    with False show ?thesis
      using okF_parent [OF f _ p(2)] not_prefix_butlast [OF False] not_prefix_butlast [of a p] by (simp add: treeRenamed_def)
  qed
qed

lemma treeRenamed_back:
  assumes "okF f" and "apart a b" and "f b = None"
  shows "treeRenamed b a (treeRenamed a b f) = f"
proof
  fix p
  have below: "prefix b p \<Longrightarrow> f p = None" using okF_prefix [OF assms(1)] assms(3) by blast
  show "treeRenamed b a (treeRenamed a b f) p = f p"
  proof (cases "prefix a p")
    case True
    then obtain q where q: "p = a @ q" by (auto simp: prefix_def)
    then show ?thesis by (simp add: treeRenamed_def)
  next
    case False
    then show ?thesis using below by (auto simp: treeRenamed_def)
  qed
qed

lemma map_of_relocate:
  assumes "apart a b" and "\<And>p. prefix b p \<Longrightarrow> map_of t p = None"
  shows "map_of (map (\<lambda>(p, x). (relocate a b p, x)) t) q = treeRenamed a b (map_of t) q"
  using assms(2)
proof (induction t)
  case (Cons e t)
  obtain p x where e: "e = (p, x)" by fastforce
  have nb: "\<not> prefix b p" using Cons.prems [of p] by (auto simp: e)
  have p: "map_of t r = None" if "prefix b r" for r
    using Cons.prems [OF that] by (simp add: e split: if_splits)
  have r: "relocate a b p = q \<longleftrightarrow> (if prefix b q then p = a @ drop (length b) q else \<not> prefix a q \<and> p = q)"
  proof (cases "prefix a p")
    case True
    then obtain s where s: "p = a @ s" by (auto simp: prefix_def)
    then have "relocate a b p = b @ s" by (simp add: relocate_def)
    then show ?thesis using s by (auto simp: prefix_def)
  next
    case False
    then show ?thesis using nb by (auto simp: relocate_def)
  qed
  show ?case using Cons.IH [OF p] r nb apart_not_both [OF assms(1)] by (auto simp: e treeRenamed_def)
qed (simp add: treeRenamed_def)

lemma treeRename_fresh:
  assumes t: "tree_ok t" and ab: "apart a b" and fb: "nodeAt t b = None"
    and r: "treeRename a b t = Inr t'"
  shows "nodeAt t' = treeRenamed a b (nodeAt t) \<and> tree_ok t' \<and> nodeAt t a \<noteq> None"
proof -
  have n: "a \<noteq> []" "b \<noteq> []" "a \<noteq> b" using apart_neq [OF ab] by auto
  from r fb n have a: "nodeAt t a \<noteq> None" and pb: "nodeAt t (butlast b) = Some DirNode"
    and t': "t' = map (\<lambda>(p, x). (relocate a b p, x)) (filter (\<lambda>(p, x). p \<noteq> b) t)"
    by (auto simp: treeRename_def split: option.splits if_splits)
  have nb: "map_of t p = None" if "prefix b p" for p
  proof -
    have "p \<noteq> []" using that n by auto
    moreover have "nodeAt t p = None" using okF_prefix [OF tree_okF [OF t] _ that] fb by blast
    ultimately show ?thesis by (simp add: nodeAt_def)
  qed
  have "filter (\<lambda>(p, x). p \<noteq> b) t = t"
    using nb [of b] by (auto simp: filter_id_conv map_of_eq_None_iff rev_image_eqI)
  then have t': "t' = map (\<lambda>(p, x). (relocate a b p, x)) t" using t' by simp
  have e: "nodeAt t' = treeRenamed a b (nodeAt t)"
  proof
    fix q show "nodeAt t' q = treeRenamed a b (nodeAt t) q"
      unfolding t' nodeAt_def using map_of_relocate [OF ab nb, of q] n by (auto simp: treeRenamed_def)
  qed
  moreover have "[] \<notin> fst ` set t'"
  proof
    assume "[] \<in> fst ` set t'"
    then obtain p x where "(p, x) \<in> set t" "relocate a b p = []" by (auto simp: t')
    then show False using n t by (auto simp: relocate_def tree_ok_def rev_image_eqI split: if_splits)
  qed
  ultimately show ?thesis
    using treeRenamed_ok [OF tree_okF [OF t] ab a pb] a by (simp add: tree_ok_def)
qed

lemma treeRename_works:
  assumes "apart a b" and "nodeAt t a \<noteq> None" and "nodeAt t b = None" and "nodeAt t (butlast b) = Some DirNode"
  shows "\<exists>t'. treeRename a b t = Inr t'"
  using assms apart_neq [OF assms(1)] by (auto simp: treeRename_def apart_def)

text \<open>Replacing one file by another.\<close>

lemma treeRename_over:
  assumes t: "tree_ok t" and ab: "apart a b" and fa: "nodeAt t a = Some (RegNode x)"
    and fb: "nodeAt t b = None \<or> (\<exists>y. nodeAt t b = Some (RegNode y))" and pb: "nodeAt t (butlast b) = Some DirNode"
  shows "\<exists>t'. treeRename a b t = Inr t' \<and> nodeAt t' = (nodeAt t)(a := None, b \<mapsto> RegNode x) \<and> tree_ok t'"
proof -
  have n: "a \<noteq> []" "b \<noteq> []" "a \<noteq> b" using apart_neq [OF ab] by auto
  let ?u = "filter (\<lambda>(p, x). p \<noteq> b) t"
  have nu: "nodeAt ?u = (nodeAt t)(b := None)"
  proof
    fix p
    have "map_of ?u p = (if p = b then None else map_of t p)" by (induction t) auto
    then show "nodeAt ?u p = ((nodeAt t)(b := None)) p" using n by (auto simp: nodeAt_def)
  qed
  have below: "nodeAt t p = None" if "strict_prefix b p" for p
    using fb okF_file [OF tree_okF [OF t] _ that] okF_above [OF tree_okF [OF t] _ that] by fastforce
  have ok: "okF ((nodeAt t)(b := None))" unfolding okF_def
  proof (intro conjI allI impI)
    fix p assume p: "((nodeAt t)(b := None)) p \<noteq> None" "p \<noteq> []"
    then have "butlast p \<noteq> b" using below [of p] by (cases p rule: rev_cases) (auto simp: strict_prefix_def split: if_splits)
    then show "((nodeAt t)(b := None)) (butlast p) = Some DirNode"
      using okF_parent [OF tree_okF [OF t], of p] p by (auto split: if_splits)
  qed (use n in simp)
  then have u: "tree_ok ?u" using t nu by (auto simp: tree_ok_def)
  have ua: "nodeAt ?u a = Some (RegNode x)" "nodeAt ?u b = None" "nodeAt ?u (butlast b) = Some DirNode"
    using fa pb n by (auto simp: nu) (metis append_butlast_last_id not_Cons_self2 self_append_conv)
  from treeRename_works [OF ab _ ua(2,3)] ua(1) obtain t' where t': "treeRename a b ?u = Inr t'" by auto
  have "treeRename a b t = treeRename a b ?u"
  proof -
    have f: "filter (\<lambda>(p, x). p \<noteq> b) ?u = ?u" by (simp add: filter_id_conv)
    show ?thesis using fa fb pb n ab ua by (auto simp: treeRename_def apart_def)
  qed
  with t' have r: "treeRename a b t = Inr t'" by simp
  from treeRename_fresh [OF u ab ua(2) t'] have e: "nodeAt t' = treeRenamed a b (nodeAt ?u)" "tree_ok t'" by auto
  have "treeRenamed a b (nodeAt ?u) = (nodeAt t)(a := None, b \<mapsto> RegNode x)"
  proof
    fix p
    show "treeRenamed a b (nodeAt ?u) p = ((nodeAt t)(a := None, b \<mapsto> RegNode x)) p"
    proof (cases "prefix b p")
      case True
      then obtain q where q: "p = b @ q" by (auto simp: prefix_def)
      have "p \<noteq> a" using ab True by (auto simp: apart_def)
      then show ?thesis
        using ua(1) below [of p] okF_file [OF tree_okF [OF u] ua(1), of "a @ q"] q
        by (cases "q = []") (auto simp: treeRenamed_def strict_prefix_def)
    next
      case False
      then show ?thesis
        using okF_file [OF tree_okF [OF t] fa, of p] by (auto simp: treeRenamed_def nu strict_prefix_def)
    qed
  qed
  with r e show ?thesis by simp
qed

section \<open>Removing and writing\<close>

lemma treeRemove_Inr:
  assumes t: "tree_ok t" and r: "treeRemove p t = Inr t'"
  shows "nodeAt t' = (nodeAt t)(p := None) \<and> tree_ok t' \<and> p \<noteq> [] \<and> nodeAt t p \<noteq> None"
proof -
  from r have a: "nodeAt t p \<noteq> None" "p \<noteq> []" "\<not> hasBelow t p" "t' = filter (\<lambda>(q, n). q \<noteq> p) t"
    by (auto simp: treeRemove_def split: if_splits)
  have m: "map_of (filter (\<lambda>(q, n). q \<noteq> p) t) q = (if q = p then None else map_of t q)" for q
    by (induction t) auto
  have e: "nodeAt t' = (nodeAt t)(p := None)"
    using a(2) by (auto simp: a(4) nodeAt_def m fun_eq_iff)
  have "okF (nodeAt t')" unfolding okF_def
  proof (intro conjI allI impI)
    fix q assume q: "nodeAt t' q \<noteq> None" "q \<noteq> []"
    then have "nodeAt t q \<noteq> None" by (auto simp: e split: if_splits)
    moreover have "butlast q \<noteq> p"
    proof
      assume "butlast q = p"
      then have "strict_prefix p q" using q(2) by (cases q rule: rev_cases) (auto simp: strict_prefix_def)
      with a(3) calculation hasBelow_iff [OF t, of p] show False by blast
    qed
    ultimately show "nodeAt t' (butlast q) = Some DirNode"
      using okF_parent [OF tree_okF [OF t], of q] q(2) by (simp add: e)
  qed simp
  with a t e show ?thesis by (auto simp: tree_ok_def)
qed

lemma treeRemove_works:
  assumes "tree_ok t" and "nodeAt t p \<noteq> None" and "p \<noteq> []"
    and "\<And>q. strict_prefix p q \<Longrightarrow> nodeAt t q = None"
  shows "\<exists>t'. treeRemove p t = Inr t'"
  using assms hasBelow_iff [OF assms(1), of p] by (auto simp: treeRemove_def)

lemma treeWrite_at: "nodeAt (treeWrite p bs t) q =
  (if q = p then (case nodeAt t q of Some (RegNode c) \<Rightarrow> Some (RegNode (c @ bs)) | n \<Rightarrow> n) else nodeAt t q)"
proof -
  have "map_of (treeWrite p bs t) q =
      (if q = p then (case map_of t q of Some (RegNode c) \<Rightarrow> Some (RegNode (c @ bs)) | n \<Rightarrow> n) else map_of t q)"
    unfolding treeWrite_def by (induction t) (auto split: dnode.split option.split)
  then show ?thesis by (auto simp: nodeAt_def)
qed

lemma treeWrite_ok: "tree_ok t \<Longrightarrow> tree_ok (treeWrite p bs t)"
proof -
  assume t: "tree_ok t"
  have "okF (nodeAt (treeWrite p bs t))" unfolding okF_def
  proof (intro conjI allI impI)
    fix q assume "nodeAt (treeWrite p bs t) q \<noteq> None" "q \<noteq> []"
    then have "nodeAt t (butlast q) = Some DirNode"
      using okF_parent [OF tree_okF [OF t], of q] by (auto simp: treeWrite_at split: if_splits option.splits dnode.splits)
    then show "nodeAt (treeWrite p bs t) (butlast q) = Some DirNode" by (auto simp: treeWrite_at)
  qed (simp add: treeWrite_at)
  moreover have "fst ` set (treeWrite p bs t) = fst ` set t" by (force simp: treeWrite_def)
  ultimately show ?thesis using t by (simp add: tree_ok_def)
qed

lemma treeWalk_set: "set (treeWalk t p) = insert p {q. strict_prefix p q \<and> q \<in> fst ` set t}"
  by (auto simp: treeWalk_def)

lemma treeWalk_nodes: "tree_ok t \<Longrightarrow> nodeAt t p \<noteq> None \<Longrightarrow> set (treeWalk t p) = {q. prefix p q \<and> nodeAt t q \<noteq> None}"
proof -
  assume t: "tree_ok t" and p: "nodeAt t p \<noteq> None"
  have "q \<in> fst ` set t \<longleftrightarrow> nodeAt t q \<noteq> None" if "strict_prefix p q" for q
  proof -
    have "q \<noteq> []" using that by auto
    then show ?thesis using map_of_eq_None_iff [of t q] by (simp add: nodeAt_def)
  qed
  with p show ?thesis by (auto simp: treeWalk_set strict_prefix_def)
qed

lemma treeWalk_distinct: "distinct (treeWalk t p)"
  by (simp add: treeWalk_def)

section \<open>Outcomes of actions\<close>

text \<open>
  The conditions an action runs under: the order of removals and whether there are faults. Faults
  are errors other than the absence of a name.
\<close>

type_synonym setting = "(dpath list \<Rightarrow> dpath list) \<times> bool"

definition faultOk :: "fault \<Rightarrow> bool" where
  "faultOk f = (case f of Breaks n e \<Rightarrow> \<not> errorsIs e ErrNotExist | _ \<Rightarrow> True)"

definition settled :: "setting \<Rightarrow> disk \<Rightarrow> bool" where
  "settled c d \<longleftrightarrow> dkRemoval d = fst c \<and> (\<not> snd c \<longrightarrow> dkFaults d = []) \<and> list_all faultOk (dkFaults d)"

definition wp :: "setting \<Rightarrow> 'a act \<Rightarrow> ('a \<Rightarrow> dtree \<Rightarrow> bool) \<Rightarrow> (err \<Rightarrow> dtree \<Rightarrow> bool) \<Rightarrow> (dtree \<Rightarrow> bool) \<Rightarrow> dtree \<Rightarrow> bool" where
  "wp c m Q E C t \<longleftrightarrow> (\<forall>d. dkTree d = t \<longrightarrow> settled c d \<longrightarrow> (case m d of (r, d') \<Rightarrow> settled c d' \<and>
     (case r of Returns x \<Rightarrow> Q x (dkTree d') | Raises e \<Rightarrow> E e (dkTree d') | Crashed \<Rightarrow> C (dkTree d'))))"

text \<open>What must hold when a call fails that leaves the tree as it is.\<close>

definition faulty :: "setting \<Rightarrow> (err \<Rightarrow> dtree \<Rightarrow> bool) \<Rightarrow> (dtree \<Rightarrow> bool) \<Rightarrow> dtree \<Rightarrow> bool" where
  "faulty c E C t \<longleftrightarrow> (snd c \<longrightarrow> (\<forall>e. \<not> errorsIs e ErrNotExist \<longrightarrow> E e t) \<and> C t)"

named_theorems wpI

lemma wpD:
  assumes "wp c m Q E C (dkTree d)" and "settled c d" and "m d = (r, d')"
  shows "settled c d' \<and>
    (case r of Returns x \<Rightarrow> Q x (dkTree d') | Raises e \<Rightarrow> E e (dkTree d') | Crashed \<Rightarrow> C (dkTree d'))"
  using assms(1,2) unfolding wp_def by (metis (no_types, lifting) assms(3) case_prod_conv)

lemma wpI2:
  assumes "\<And>d r d'. dkTree d = t \<Longrightarrow> settled c d \<Longrightarrow> m d = (r, d') \<Longrightarrow> settled c d' \<and>
    (case r of Returns x \<Rightarrow> Q x (dkTree d') | Raises e \<Rightarrow> E e (dkTree d') | Crashed \<Rightarrow> C (dkTree d'))"
  shows "wp c m Q E C t"
  unfolding wp_def
proof (intro allI impI)
  fix d assume d: "dkTree d = t" "settled c d"
  obtain r d' where r: "m d = (r, d')" by fastforce
  from assms [OF d r]
  show "case m d of (r, d') \<Rightarrow> settled c d' \<and>
     (case r of Returns x \<Rightarrow> Q x (dkTree d') | Raises e \<Rightarrow> E e (dkTree d') | Crashed \<Rightarrow> C (dkTree d'))"
    unfolding r prod.case .
qed

lemma wp_mono:
  assumes "wp c m Q E C t" and "\<And>x t. Q x t \<Longrightarrow> Q' x t" and "\<And>e t. E e t \<Longrightarrow> E' e t" and "\<And>t. C t \<Longrightarrow> C' t"
  shows "wp c m Q' E' C' t"
proof (rule wpI2)
  fix d r d' assume d: "dkTree d = t" "settled c d" "m d = (r, d')"
  from wpD [OF assms(1) [folded d(1)] d(2,3)] assms(2-4)
  show "settled c d' \<and>
    (case r of Returns x \<Rightarrow> Q' x (dkTree d') | Raises e \<Rightarrow> E' e (dkTree d') | Crashed \<Rightarrow> C' (dkTree d'))"
    by (cases r) auto
qed

lemma wp_pure [wpI]: "Q x t \<Longrightarrow> wp c (pureA x) Q E C t"
  by (auto simp: wp_def pureA_def)

lemma wp_raise [wpI]: "E e t \<Longrightarrow> wp c (raiseA e) Q E C t"
  by (auto simp: wp_def raiseA_def)

lemma wp_lift [wpI]: "(\<And>e. r = Inl e \<Longrightarrow> E e t) \<Longrightarrow> (\<And>x. r = Inr x \<Longrightarrow> Q x t) \<Longrightarrow> wp c (liftA r) Q E C t"
  by (auto simp: liftA_def split: sum.split intro: wpI)

lemma wp_join [wpI]: "(\<And>e. errorsJoin es = Some e \<Longrightarrow> E e t) \<Longrightarrow> (errorsJoin es = None \<Longrightarrow> Q x t) \<Longrightarrow> wp c (joinA es x) Q E C t"
  unfolding joinA_def by (cases "errorsJoin es") (simp_all add: wp_pure wp_raise del: errorsJoin_None)

lemma wp_bind [wpI]: "wp c m (\<lambda>x. wp c (f x) Q E C) E C t \<Longrightarrow> wp c (bindA m f) Q E C t"
proof (rule wpI2)
  fix d r d' assume w: "wp c m (\<lambda>x. wp c (f x) Q E C) E C t" and d: "dkTree d = t" "settled c d" "bindA m f d = (r, d')"
  obtain r1 d1 where r1: "m d = (r1, d1)" by fastforce
  from wpD [OF w [folded d(1)] d(2) r1] have s: "settled c d1"
    "case r1 of Returns x \<Rightarrow> wp c (f x) Q E C (dkTree d1) | Raises e \<Rightarrow> E e (dkTree d1) | Crashed \<Rightarrow> C (dkTree d1)" by auto
  show "settled c d' \<and>
    (case r of Returns x \<Rightarrow> Q x (dkTree d') | Raises e \<Rightarrow> E e (dkTree d') | Crashed \<Rightarrow> C (dkTree d'))"
  proof (cases r1)
    case (Returns x)
    with d(3) r1 have "f x d1 = (r, d')" by (simp add: bindA_def)
    moreover have "wp c (f x) Q E C (dkTree d1)" using s(2) Returns by simp
    ultimately show ?thesis by (intro wpD [OF _ s(1)])
  qed (use d(3) r1 s in \<open>auto simp: bindA_def\<close>)
qed

lemma wp_then:
  assumes "wp c m Q' E C t" and "\<And>x t'. Q' x t' \<Longrightarrow> wp c (f x) Q E C t'"
  shows "wp c (bindA m f) Q E C t"
  by (rule wp_bind) (rule wp_mono [OF assms(1)], use assms(2) in auto)

lemma wp_try [wpI]: "wp c m (\<lambda>x. Q (Inr x)) (\<lambda>e. Q (Inl e)) C t \<Longrightarrow> wp c (tryA m) Q E C t"
proof (rule wpI2)
  fix d r d' assume w: "wp c m (\<lambda>x. Q (Inr x)) (\<lambda>e. Q (Inl e)) C t" and d: "dkTree d = t" "settled c d" "tryA m d = (r, d')"
  obtain r1 d1 where r1: "m d = (r1, d1)" by fastforce
  from wpD [OF w [folded d(1)] d(2) r1] d(3) r1
  show "settled c d' \<and>
    (case r of Returns x \<Rightarrow> Q x (dkTree d') | Raises e \<Rightarrow> E e (dkTree d') | Crashed \<Rightarrow> C (dkTree d'))"
    by (cases r1) (auto simp: tryA_def)
qed

lemma settled_tl: "settled c d \<Longrightarrow> settled c (d\<lparr>dkFaults := tl (dkFaults d)\<rparr>)"
  by (cases "dkFaults d") (auto simp: settled_def)

lemma settled_tree [simp]: "settled c (d\<lparr>dkTree := t\<rparr>) = settled c d"
  by (simp add: settled_def)

lemma wp_effect [wpI]:
  assumes "\<And>e. f t = Inl e \<Longrightarrow> E e t" and "\<And>x t'. f t = Inr (x, t') \<Longrightarrow> Q x t'" and "faulty c E C t"
  shows "wp c (effectA f) Q E C t"
proof (rule wpI2)
  fix d r d' assume d: "dkTree d = t" "settled c d" "effectA f d = (r, d')"
  have s: "snd c \<or> dkFaults d = []" "list_all faultOk (dkFaults d)" using d(2) by (auto simp: settled_def)
  note tl = settled_tl [OF d(2)]
  show "settled c d' \<and>
    (case r of Returns x \<Rightarrow> Q x (dkTree d') | Raises e \<Rightarrow> E e (dkTree d') | Crashed \<Rightarrow> C (dkTree d'))"
  proof (cases "dkFaults d")
    case Nil
    then show ?thesis using assms(1,2) tl d(1,3) by (cases "f t") (auto simp: effectA_def Let_def)
  next
    case (Cons x xs)
    then show ?thesis using assms s tl d(1,3)
      by (cases x; cases "f t") (auto simp: effectA_def Let_def faultOk_def faulty_def)
  qed
qed

lemma wp_read [wpI]:
  assumes "\<And>e. f t = Inl e \<Longrightarrow> E e t" and "\<And>x. f t = Inr x \<Longrightarrow> Q x t" and "faulty c E C t"
  shows "wp c (readA f) Q E C t"
  unfolding readA_def using assms by (intro wp_effect) (auto simp: bindE_eq_Inl)

lemma wp_change [wpI]:
  assumes "\<And>e. f t = Inl e \<Longrightarrow> E e t" and "\<And>t'. f t = Inr t' \<Longrightarrow> Q () t'" and "faulty c E C t"
  shows "wp c (changeA f) Q E C t"
  unfolding changeA_def using assms by (intro wp_effect) (auto simp: bindE_eq_Inl)

lemma wp_write [wpI]:
  assumes "Q () (treeWrite p bs t)" and "\<And>n. snd c \<Longrightarrow> faulty c E C (treeWrite p (take n bs) t)"
  shows "wp c (writeA p bs) Q E C t"
proof (rule wpI2)
  fix d r d' assume d: "dkTree d = t" "settled c d" "writeA p bs d = (r, d')"
  have s: "snd c \<or> dkFaults d = []" "list_all faultOk (dkFaults d)" using d(2) by (auto simp: settled_def)
  note tl = settled_tl [OF d(2)]
  show "settled c d' \<and>
    (case r of Returns x \<Rightarrow> Q x (dkTree d') | Raises e \<Rightarrow> E e (dkTree d') | Crashed \<Rightarrow> C (dkTree d'))"
  proof (cases "dkFaults d")
    case Nil
    then show ?thesis using assms(1) tl d(1,3) by (auto simp: writeA_def Let_def)
  next
    case (Cons x xs)
    then show ?thesis using assms s tl d(1,3)
      by (cases x) (auto simp: writeA_def Let_def faultOk_def faulty_def)
  qed
qed

lemma wp_for:
  assumes "I xs t" and "\<And>x xs t. I (x # xs) t \<Longrightarrow> wp c (f x) (\<lambda>_. I xs) E C t" and "\<And>t. I [] t \<Longrightarrow> Q () t"
  shows "wp c (forA f xs) Q E C t"
  using assms(1)
proof (induction xs arbitrary: t)
  case (Cons x xs)
  have "wp c (f x) (\<lambda>_. wp c (forA f xs) Q E C) E C t"
    using assms(2) [OF Cons.prems] by (rule wp_mono) (auto intro: Cons.IH)
  then show ?case by (simp add: wp_bind)
qed (simp add: wp_pure assms(3))

lemma faultyI: "(\<And>e. snd c \<Longrightarrow> \<not> errorsIs e ErrNotExist \<Longrightarrow> E e t) \<Longrightarrow> (snd c \<Longrightarrow> C t) \<Longrightarrow> faulty c E C t"
  by (simp add: faulty_def)

section \<open>Outcomes shared by the proofs\<close>

text \<open>Errors and crashes only with faults, in a tree that satisfies \<open>P\<close>.\<close>

definition stopsIn :: "setting \<Rightarrow> (dtree \<Rightarrow> bool) \<Rightarrow> dtree \<Rightarrow> bool" where
  "stopsIn c P t \<longleftrightarrow> snd c \<and> P t"

abbreviation wpS :: "setting \<Rightarrow> 'a act \<Rightarrow> ('a \<Rightarrow> dtree \<Rightarrow> bool) \<Rightarrow> (dtree \<Rightarrow> bool) \<Rightarrow> dtree \<Rightarrow> bool" where
  "wpS c m Q P t \<equiv> wp c m Q (\<lambda>_. stopsIn c P) (stopsIn c P) t"

lemma faulty_stops [simp]: "faulty c (\<lambda>_. stopsIn c P) (stopsIn c P) t = (snd c \<longrightarrow> P t)"
  by (auto simp: faulty_def stopsIn_def intro: exI [of _ ErrClosed])

text \<open>
  Errors that need no fault of the disk: \<open>refused\<close> says whether the program itself may refuse.
\<close>

definition abortsIn :: "setting \<Rightarrow> bool \<Rightarrow> (dtree \<Rightarrow> bool) \<Rightarrow> err \<Rightarrow> dtree \<Rightarrow> bool" where
  "abortsIn c refused P e t \<longleftrightarrow> (snd c \<or> refused) \<and> P t"

lemma stops_aborts: "stopsIn c P t \<Longrightarrow> abortsIn c refused P e t"
  by (simp add: stopsIn_def abortsIn_def)

lemma wpS_aborts: "wpS c m Q P t \<Longrightarrow> wp c m Q (abortsIn c refused P) (stopsIn c P) t"
  by (erule wp_mono) (auto intro: stops_aborts)

lemma wp_syncAndClose:
  assumes "e = None \<Longrightarrow> Q x t" and "\<And>e'. e \<noteq> None \<or> snd c \<Longrightarrow> E e' t" and "snd c \<Longrightarrow> C t"
  shows "wp c (syncAndClose e x) Q E C t"
proof -
  have j: "errorsJoin [e, failedWith s, failedWith d] = Some e' \<Longrightarrow> snd c \<or> s = Inr () \<and> d = Inr () \<Longrightarrow> E e' t"
    "errorsJoin [e, failedWith s, failedWith d] = None \<Longrightarrow> Q x t" for s d :: "err + unit" and e'
    using assms(1,2) by (auto simp: failedWith_def errorsJoin_def Let_def split: sum.splits if_splits)
  have k: "wp c (tryA (readA (\<lambda>t. Inr ()))) R E C t"
    if "R (Inr ()) t" "\<And>e. snd c \<Longrightarrow> R (Inl e) t" for R :: "err + unit \<Rightarrow> dtree \<Rightarrow> bool"
    by (intro wp_try wp_read faultyI) (use that assms(3) in auto)
  show ?thesis
    unfolding syncAndClose_def syncFile_def closeFile_def
    by (intro wp_bind k wp_join) (erule j; simp)+
qed

section \<open>Removing a directory\<close>

text \<open>Orders in which a directory is removed after what is in it.\<close>

definition orderly :: "(dpath list \<Rightarrow> dpath list) \<Rightarrow> bool" where
  "orderly ord \<longleftrightarrow> (\<forall>ps. distinct ps \<longrightarrow> set (ord ps) = set ps \<and> distinct (ord ps)
     \<and> (\<forall>xs q ys. ord ps = xs @ q # ys \<longrightarrow> (\<forall>q' \<in> set ys. \<not> strict_prefix q q')))"

lemma deepest_first: "rev (sort_key length ps) = xs @ q # ys \<Longrightarrow> q' \<in> set ys \<Longrightarrow> \<not> strict_prefix q q'"
proof
  assume a: "rev (sort_key length ps) = xs @ q # ys" "q' \<in> set ys" "strict_prefix q q'"
  then have "sort_key length ps = rev ys @ q # rev xs" by (metis append.assoc append_Cons append_Nil rev.simps(2) rev_append rev_rev_ident)
  moreover have "sorted (map length (sort_key length ps))" by simp
  ultimately have "length q' \<le> length q" using a(2) by (auto simp: sorted_append)
  moreover have "length q < length q'" using a(3) by (rule prefix_length_less)
  ultimately show False by simp
qed

definition without :: "dpath set \<Rightarrow> tfun \<Rightarrow> tfun" where
  "without X f p = (if p \<in> X then None else f p)"

lemma wp_osRemoveAll:
  assumes t: "tree_ok t" and c: "orderly (fst c)" and p: "p \<noteq> []"
    and Q: "\<And>t'. tree_ok t' \<Longrightarrow> nodeAt t' = without {q. prefix p q} (nodeAt t) \<Longrightarrow> Q () t'"
    and P: "\<And>gone rest t'. fst c (treeWalk t p) = gone @ rest \<Longrightarrow> (\<And>q. q \<in> set gone \<Longrightarrow> prefix p q) \<Longrightarrow>
      tree_ok t' \<Longrightarrow> nodeAt t' = without (set gone) (nodeAt t) \<Longrightarrow> P t'"
  shows "wpS c (osRemoveAll p) Q P t"
proof -
  define ps where "ps = (if nodeAt t p = None then [] else fst c (treeWalk t p))"
  have "nodeAt t p = None \<Longrightarrow> prefix p q \<Longrightarrow> nodeAt t q = None" for q
    using okF_prefix [OF tree_okF [OF t], of q p] by blast
  with c treeWalk_distinct [of t p] treeWalk_nodes [OF t, of p]
  have ps: "set ps = {q. prefix p q \<and> nodeAt t q \<noteq> None}" "distinct ps"
    "ps = xs @ q # ys \<Longrightarrow> q' \<in> set ys \<Longrightarrow> \<not> strict_prefix q q'" for xs q ys q'
    by (auto simp: ps_def orderly_def split: if_splits)
  define I where "I = (\<lambda>rest t'. \<exists>gone. ps = gone @ rest \<and> tree_ok t' \<and> nodeAt t' = without (set gone) (nodeAt t))"
  have IP: "P t'" if I: "I rest t'" for rest t'
  proof -
    from I obtain gone where g: "ps = gone @ rest" "tree_ok t'" "nodeAt t' = without (set gone) (nodeAt t)"
      by (auto simp: I_def)
    have s: "\<And>q. q \<in> set gone \<Longrightarrow> prefix p q" using ps(1) g(1) by auto
    show ?thesis
    proof (cases "nodeAt t p = None")
      case True
      then have "gone = []" using g(1) by (simp add: ps_def)
      with g show ?thesis using P [of "[]" "fst c (treeWalk t p)" t'] by simp
    next
      case False
      have "fst c (treeWalk t p) = gone @ rest" using g(1) unfolding ps_def if_not_P [OF False] .
      from P [OF this s g(2,3)] show ?thesis by simp
    qed
  qed
  have step: "wpS c (changeA (treeRemove q)) (\<lambda>_. I rest) P t'" if I: "I (q # rest) t'" for q rest t'
  proof -
    from I obtain gone where g: "ps = gone @ q # rest" "tree_ok t'" "nodeAt t' = without (set gone) (nodeAt t)"
      by (auto simp: I_def)
    have q: "prefix p q" "nodeAt t q \<noteq> None" "q \<notin> set gone" using ps(1,2) g(1) by auto
    then have q': "nodeAt t' q \<noteq> None" "q \<noteq> []" using p by (auto simp: g(3) without_def)
    have "nodeAt t' q' = None" if "strict_prefix q q'" for q'
    proof (rule ccontr)
      assume n: "nodeAt t' q' \<noteq> None"
      then have "q' \<in> set ps" "q' \<notin> set gone"
        using q(1) that by (auto simp: ps(1) g(3) without_def strict_prefix_def split: if_splits dest: prefix_order.trans)
      then have "q' \<in> set rest" using that g(1) by (auto simp: strict_prefix_def)
      with ps(3) [OF g(1)] that show False by blast
    qed
    from treeRemove_works [OF g(2) q' this] obtain t1 where t1: "treeRemove q t' = Inr t1" by blast
    from treeRemove_Inr [OF g(2) t1] have "tree_ok t1" "nodeAt t1 = without (set (gone @ [q])) (nodeAt t)"
      by (auto simp: g(3) without_def fun_eq_iff)
    then have "I rest t1" using g(1) unfolding I_def by (intro exI [of _ "gone @ [q]"]) simp
    then show ?thesis using t1 IP [OF I] by (intro wp_change) auto
  qed
  have fin: "Q () t'" if I: "I [] t'" for t'
  proof -
    from I have g: "tree_ok t'" "nodeAt t' = without (set ps) (nodeAt t)" by (auto simp: I_def)
    have "without (set ps) (nodeAt t) = without {q. prefix p q} (nodeAt t)" by (auto simp: without_def ps(1) fun_eq_iff)
    with g Q show ?thesis by simp
  qed
  have "I ps t" using t by (auto simp: I_def without_def fun_eq_iff)
  then have w: "wpS c (forA (\<lambda>q. changeA (treeRemove q)) ps) Q P t"
    by (rule wp_for [where I = I]) (erule step, erule fin)
  show ?thesis
  proof (rule wpI2)
    fix d r' d' assume d: "dkTree d = t" "settled c d" "osRemoveAll p d = (r', d')"
    have "removalOrder p d = ps"
      unfolding removalOrder_def ps_def d(1) using d(2) by (simp add: settled_def)
    then have "forA (\<lambda>q. changeA (treeRemove q)) ps d = (r', d')"
      using d(3) by (simp add: osRemoveAll_def)
    from wpD [OF w [folded d(1)] d(2) this]
    show "settled c d' \<and> (case r' of Returns x \<Rightarrow> Q x (dkTree d') | Raises e \<Rightarrow> stopsIn c P (dkTree d')
        | Crashed \<Rightarrow> stopsIn c P (dkTree d'))" .
  qed
qed

lemma wp_removeAll:
  assumes "tree_ok t" and "orderly (fst c)" and p: "rootPath r name = Inr p" "p \<noteq> []"
    and "\<And>t'. tree_ok t' \<Longrightarrow> nodeAt t' = without {q. prefix p q} (nodeAt t) \<Longrightarrow> Q () t'"
    and "\<And>gone rest t'. fst c (treeWalk t p) = gone @ rest \<Longrightarrow> (\<And>q. q \<in> set gone \<Longrightarrow> prefix p q) \<Longrightarrow>
      tree_ok t' \<Longrightarrow> nodeAt t' = without (set gone) (nodeAt t) \<Longrightarrow> P t'"
  shows "wpS c (rootRemoveAll r name) Q P t"
proof -
  have "rootRemoveAll r name = osRemoveAll p" by (rule ext) (simp add: rootRemoveAll_def p(1))
  moreover have "wpS c (osRemoveAll p) Q P t"
    by (rule wp_osRemoveAll) (fact assms(1), fact assms(2), fact p(2), erule (1) assms(5), rule assms(6))
  ultimately show ?thesis by simp
qed

section \<open>Replacing a file\<close>

lemma wp_finally:
  assumes "wp c m (\<lambda>x. wp c cleanup (\<lambda>_. Q x) (\<lambda>_. Q x) C) (\<lambda>e. wp c cleanup (\<lambda>_. E e) (\<lambda>_. E e) C) C t"
  shows "wp c (finallyA cleanup m) Q E C t"
  unfolding finallyA_def
  by (intro wp_bind wp_try wp_mono [OF assms]) (auto intro!: wp_lift elim: wp_mono)

end
