(* ===== verification/Local_Names.thy ===== *)
theory Local_Names
  imports Local_Tx Paths Disk_Facts
begin

text \<open>
  Names below the storage directory as lists of elements: what the operations of \<open>os.Root\<close>, \<open>Dir\<close>
  and \<open>isInternalPath\<close> make of a name whose elements are proper.
\<close>

definition nameOf :: "dpath \<Rightarrow> string" where
  "nameOf es = joinWith [slash] es"

definition goodName :: "dpath \<Rightarrow> bool" where
  "goodName es \<longleftrightarrow> es \<noteq> [] \<and> list_all properElem es \<and> \<not> containsAny (nameOf es) badChars"

lemma nameOf_split: "list_all properElem es \<Longrightarrow> es \<noteq> [] \<Longrightarrow> splitOn slash (nameOf es) = es"
  unfolding nameOf_def by (rule split_join) (auto simp: list_all_iff)

lemma nameOf_start: "list_all properElem es \<Longrightarrow> es \<noteq> [] \<Longrightarrow> nameOf es \<noteq> [] \<and> \<not> prefix ''/'' (nameOf es)"
proof -
  assume e: "list_all properElem es" "es \<noteq> []"
  then obtain x xs where x: "es = x # xs" "properElem x" by (cases es) auto
  then have "x \<noteq> []" "slash \<notin> set x" by auto
  then obtain c y where "x = c # y" "c \<noteq> slash" by (cases x) auto
  then show ?thesis using x(1) by (cases xs) (auto simp: nameOf_def)
qed

lemma proper_filter: "list_all properElem es \<Longrightarrow> filter (\<lambda>e. e \<noteq> [] \<and> e \<noteq> ''.'') es = es"
  by (induction es) (auto simp: properElem_def)

lemma rootPath_name: "list_all properElem es \<Longrightarrow> es \<noteq> [] \<Longrightarrow> rootPath r (nameOf es) = Inr (r @ es)"
proof -
  assume e: "list_all properElem es" "es \<noteq> []"
  have "''..'' \<notin> set es" using e(1) by (auto simp: list_all_iff properElem_def)
  then show ?thesis using nameOf_split [OF e] nameOf_start [OF e] proper_filter [OF e(1)] by (simp add: rootPath_def Let_def)
qed

lemma goodName_root: "goodName es \<Longrightarrow> rootPath r (nameOf es) = Inr (r @ es)"
  by (simp add: goodName_def rootPath_name)

lemma rootPath_dot [simp]: "rootPath r ''.'' = Inr r"
  by (simp add: rootPath_def)

lemma cleanPath_name:
  assumes "list_all properElem es" and "es \<noteq> []"
  shows "cleanPath (nameOf es) = nameOf es"
proof -
  have "cleanElems (nameOf es) = es"
    using nameOf_split [OF assms] nameOf_start [OF assms] assms(1) by (simp add: cleanElems_def foldl_cleanStep_fix)
  then show ?thesis using nameOf_start [OF assms] by (simp add: cleanPath_def nameOf_def)
qed

lemma internal_name:
  assumes "goodName es"
  shows "isInternalPath (nameOf es)"
proof -
  have e: "list_all properElem es" "es \<noteq> []" "\<not> containsAny (nameOf es) badChars" using assms by (auto simp: goodName_def)
  have "nameOf es \<noteq> ''.''"
  proof
    assume "nameOf es = ''.''"
    then have "es = [''.'']" using nameOf_split [OF e(1,2)] by simp
    then show False using e(1) by (simp add: properElem_def)
  qed
  moreover have "\<not> prefix ''../'' (nameOf es)"
  proof
    assume "prefix ''../'' (nameOf es)"
    then obtain s where "nameOf es = ''..'' @ slash # s" by (auto simp: prefix_def)
    then have "es = ''..'' # splitOn slash s" using nameOf_split [OF e(1,2)] splitOn_append_sep [of slash "''..''" s] by simp
    then show False using e(1) by (simp add: properElem_def)
  qed
  ultimately show ?thesis
    using e nameOf_start [OF e(1,2)] cleanPath_name [OF e(1,2)] by (simp add: isInternalPath_def)
qed

lemma dirPath_name:
  assumes "list_all properElem es" and "es \<noteq> []"
  shows "rootPath r (dirPath (nameOf es)) = Inr (r @ butlast es)"
proof -
  obtain xs x where x: "es = xs @ [x]" using assms(2) by (metis append_butlast_last_id)
  then have p: "properElem x" "list_all properElem xs" using assms(1) by auto
  show ?thesis
  proof (cases "xs = []")
    case True
    have "takeWhile ((\<noteq>) slash) (rev x) = rev x" using p(1) by (auto simp: takeWhile_eq_all_conv)
    then have "afterSlash (nameOf es) = x" by (simp only: afterSlash_def nameOf_def x True append_Nil joinWith.simps rev_rev_ident)
    then have "dirPath (nameOf es) = ''.''"
      by (simp add: dirPath_def nameOf_def x True cleanPath_def cleanElems_def)
    then show ?thesis using x True by simp
  next
    case False
    have n: "nameOf es = nameOf xs @ slash # x"
      using False joinWith_append [of xs "[x]" "[slash]"] by (simp add: nameOf_def x)
    have "takeWhile ((\<noteq>) slash) (rev x @ slash # rev (nameOf xs)) = rev x"
      using p(1) by (subst takeWhile_append2) auto
    then have "afterSlash (nameOf es) = x" by (simp add: afterSlash_def n)
    then have d: "dirPath (nameOf es) = cleanPath (nameOf xs @ [slash])" by (simp add: dirPath_def n)
    have "splitOn slash (nameOf xs @ [slash]) = xs @ [[]]"
      using nameOf_split [OF p(2) False] splitOn_append [of slash "nameOf xs" "[]"] by simp
    moreover have np: "\<not> prefix ''/'' (nameOf xs @ [slash])"
      using nameOf_start [OF p(2) False] by (cases "nameOf xs") auto
    ultimately have "cleanElems (nameOf xs @ [slash]) = xs"
      using p(2) by (simp add: cleanElems_def foldl_cleanStep_fix)
    then have "cleanPath (nameOf xs @ [slash]) = nameOf xs"
      using np nameOf_start [OF p(2) False] by (simp add: cleanPath_def nameOf_def)
    with d rootPath_name [OF p(2) False] show ?thesis by (simp add: x)
  qed
qed

section \<open>Names of the transaction directory\<close>

definition tx :: "string \<Rightarrow> dpath" where
  "tx x = [transactionDir, x]"

lemma transactionDir_proper: "properElem transactionDir"
  by (simp add: properElem_def transactionDir_def)

lemma IndexFileName_proper: "properElem IndexFileName"
  by (simp add: properElem_def IndexFileName_def)

lemma rootPath_transactionDir [simp]: "rootPath r transactionDir = Inr (r @ [transactionDir])"
  using rootPath_name [of "[transactionDir]" r] transactionDir_proper by (simp add: nameOf_def)

lemma rootPath_IndexFileName [simp]: "rootPath r IndexFileName = Inr (r @ [IndexFileName])"
  using rootPath_name [of "[IndexFileName]" r] IndexFileName_proper by (simp add: nameOf_def)

lemma nameOf_tx: "nameOf (tx x) = inTransaction x"
  by (simp add: nameOf_def tx_def inTransaction_def)

lemma rootPath_tx: "properElem x \<Longrightarrow> rootPath r (inTransaction x) = Inr (r @ tx x)"
  using rootPath_name [of "tx x" r] transactionDir_proper nameOf_tx [of x] by (simp add: tx_def)

lemma tx_names [simp]:
  "rootPath r (inTransaction ''journal'') = Inr (r @ tx ''journal'')"
  "rootPath r (inTransaction ''journal.new'') = Inr (r @ tx ''journal.new'')"
  "rootPath r (inTransaction ''index'') = Inr (r @ tx ''index'')"
  "rootPath r (inTransaction ''new'') = Inr (r @ tx ''new'')"
  "rootPath r (inTransaction ''old'') = Inr (r @ tx ''old'')"
  by (simp_all add: rootPath_tx properElem_def)

lemma tx_simps [simp]: "butlast (tx x) = [transactionDir]" "tx x \<noteq> []" "tx x = tx y \<longleftrightarrow> x = y"
  "prefix [transactionDir] (tx x)" "tx x \<noteq> [y]" "[y] \<noteq> tx x"
  by (simp_all add: tx_def)

lemma apart_tx [simp]: "apart (tx x) (tx y) \<longleftrightarrow> x \<noteq> y"
  by (auto simp: tx_def apart_def)

lemma names_differ [simp]: "transactionDir \<noteq> IndexFileName" "IndexFileName \<noteq> transactionDir"
  by (simp_all add: transactionDir_def IndexFileName_def)

lemma goodName_tx: "properElem x \<Longrightarrow> \<not> containsAny x badChars \<Longrightarrow> goodName (tx x)"
proof -
  assume x: "properElem x" "\<not> containsAny x badChars"
  have "\<not> containsAny (nameOf (tx x)) badChars"
    using x(2) by (auto simp: nameOf_tx inTransaction_def transactionDir_def containsAny_def list_ex_iff badChars_def)
  then show ?thesis using x transactionDir_proper by (simp add: goodName_def tx_def)
qed

lemma goodName_staging: "goodName (tx ''new'')" "goodName (tx ''old'')"
  by (rule goodName_tx; simp add: properElem_def containsAny_def badChars_def)+

end
