(* ===== verification/Local_Recovery.thy ===== *)
theory Local_Recovery
  imports Local_Names
begin

text \<open>
  Recovery from the journal. A list of moves that can be carried out one after the other is undone
  from any point it has reached; a recovery that is interrupted, by an error or the end of the
  process, leaves a state from which recovery reaches the same tree. Removing the transaction
  directory is not atomic, and an interrupted removal is safe when the journal goes first or when
  no move replaces anything.
\<close>

section \<open>Files that are synchronised\<close>

lemma wp_syncDirectory:
  assumes "rootPath r name = Inr p" and "nodeAt t p \<noteq> None" and "Q () t" and "P t"
  shows "wpS c (syncDirectory r name) Q P t"
  unfolding syncDirectory_def openFile_def
  by (intro wp_bind wp_read) (use assms in \<open>auto simp: treeStat_def stopsIn_def intro!: wp_syncAndClose\<close>)

lemma wp_writeSynced:
  assumes t: "tree_ok t" and p: "rootPath r name = Inr p" and free: "nodeAt t p = None" "nodeAt t (butlast p) = Some DirNode"
    and Q: "\<And>t'. tree_ok t' \<Longrightarrow> nodeAt t' = (nodeAt t)(p \<mapsto> RegNode data) \<Longrightarrow> Q () t'"
    and P: "P t" "\<And>t' b. tree_ok t' \<Longrightarrow> nodeAt t' = (nodeAt t)(p \<mapsto> RegNode b) \<Longrightarrow> P t'"
  shows "wpS c (writeSynced r name data) Q P t"
proof -
  obtain t1 where a: "treeAdd p (RegNode []) t = Inr t1" using free by (simp add: treeAdd_def)
  have t1: "tree_ok t1" "nodeAt t1 = (nodeAt t)(p \<mapsto> RegNode [])"
    using treeAdd_ok [OF t a] treeAdd_Inr [OF a] by auto
  have w: "tree_ok (treeWrite p b t1)" "nodeAt (treeWrite p b t1) = (nodeAt t)(p \<mapsto> RegNode b)" for b
    using treeWrite_ok [OF t1(1)] by (auto simp: treeWrite_at t1(2) fun_eq_iff)
  show ?thesis
    unfolding writeSynced_def rootCreate_def
  proof (intro wp_bind wp_effect)
    fix f t' assume "bindE (rootPath r name) (\<lambda>p. bindE (treeAdd p (RegNode []) t) (\<lambda>t. Inr (p, t))) = Inr (f, t')"
    then have f: "f = p" "t' = t1" by (auto simp: p a)
    show "wp c (tryA (writeA f data)) (\<lambda>x. wp c (syncAndClose (failedWith x) ()) Q (\<lambda>_. stopsIn c P) (stopsIn c P))
        (\<lambda>_. stopsIn c P) (stopsIn c P) t'"
      unfolding f
      by (intro wp_try wp_write faultyI wp_syncAndClose) (use w Q P(2) in \<open>auto simp: failedWith_def stopsIn_def\<close>)
  qed (use P(1) in \<open>auto simp: p a\<close>)
qed

section \<open>Plans\<close>

text \<open>Paths that have nothing to do with the journal and the index.\<close>

definition untouched :: "dpath \<Rightarrow> bool" where
  "untouched p \<longleftrightarrow> apart p (tx ''journal'') \<and> apart p (tx ''index'') \<and> apart p [IndexFileName]"

text \<open>Moves that can be carried out in order from a tree, none of them onto something.\<close>

fun plan_ok :: "tfun \<Rightarrow> (dpath \<times> dpath) list \<Rightarrow> bool" where
  "plan_ok f [] \<longleftrightarrow> True"
| "plan_ok f ((a, b) # ms) \<longleftrightarrow> apart a b \<and> f b = None \<and> f (butlast b) = Some DirNode
     \<and> untouched a \<and> untouched b \<and> (\<forall>(a', b') \<in> set ((a, b) # ms). f a' \<noteq> None)
     \<and> plan_ok (treeRenamed a b f) ms"

definition moved :: "tfun \<Rightarrow> (dpath \<times> dpath) list \<Rightarrow> tfun" where
  "moved f ms = foldl (\<lambda>f (a, b). treeRenamed a b f) f ms"

lemma moved_simps [simp]: "moved f [] = f" "moved f ((a, b) # ms) = moved (treeRenamed a b f) ms"
  "moved f (ms @ [(a, b)]) = treeRenamed a b (moved f ms)"
  by (simp_all add: moved_def)

lemma plan_take: "plan_ok f (ms @ ms') \<Longrightarrow> plan_ok f ms \<and> plan_ok (moved f ms) ms'
    \<and> (\<forall>(a, b) \<in> set ms'. moved f ms a \<noteq> None)"
proof (induction f ms rule: plan_ok.induct)
  case (1 f)
  show ?case
  proof (cases ms')
    case (Cons m ms'')
    with 1 show ?thesis by (cases m) auto
  qed simp
qed auto

lemma plan_next: "plan_ok f (ms @ (a, b) # ms') \<Longrightarrow> let g = moved f ms in apart a b \<and> g b = None
    \<and> g (butlast b) = Some DirNode \<and> g a \<noteq> None \<and> untouched a \<and> untouched b"
  using plan_take [of f ms "(a, b) # ms'"] by simp

lemma plan_okF: "plan_ok f ms \<Longrightarrow> okF f \<Longrightarrow> okF (moved f ms)"
proof (induction f ms rule: plan_ok.induct)
  case (2 f a b ms)
  then show ?case using treeRenamed_ok [of f a b] by simp
qed simp

lemma moved_reserved: "plan_ok f ms \<Longrightarrow> p \<in> {tx ''journal'', tx ''index'', [IndexFileName]} \<Longrightarrow> moved f ms p = f p"
proof (induction f ms rule: plan_ok.induct)
  case (2 f a b ms)
  then have "\<not> prefix a p" "\<not> prefix b p" by (auto simp: untouched_def apart_def)
  then have "treeRenamed a b f p = f p" by (rule treeRenamed_outside)
  with 2 show ?case by simp
qed simp

text \<open>A plan in the journal.\<close>

definition movesOf :: "(dpath \<times> dpath) list \<Rightarrow> diskMove list" where
  "movesOf ms = map (\<lambda>(a, b). \<lparr>dmFrom = nameOf a, dmTo = nameOf b\<rparr>) ms"

definition goodMoves :: "(dpath \<times> dpath) list \<Rightarrow> bool" where
  "goodMoves ms \<longleftrightarrow> list_all (\<lambda>(a, b). goodName a \<and> goodName b) ms"

definition tT :: dpath where
  "tT = [transactionDir]"

lemma tT_tx [simp]: "prefix tT (tx x)" "tT \<noteq> []" "butlast (tx x) = tT" "tT \<noteq> tx x" "tx x \<noteq> tT"
  by (simp_all add: tT_def tx_def)

text \<open>Two trees that agree outside the transaction directory.\<close>

definition outside :: "tfun \<Rightarrow> tfun \<Rightarrow> bool" where
  "outside f g \<longleftrightarrow> (\<forall>p. \<not> prefix tT p \<longrightarrow> g p = f p)"

lemma outside_refl [simp]: "outside f f"
  by (simp add: outside_def)

lemma outside_without: "(\<And>q. q \<in> X \<Longrightarrow> prefix tT q) \<Longrightarrow> outside f (without X g) = outside f g"
  by (auto simp: outside_def without_def)

text \<open>A move that replaces nothing in \<open>f\<close>.\<close>

definition freshMove :: "tfun \<Rightarrow> dpath \<times> dpath \<Rightarrow> bool" where
  "freshMove f m \<longleftrightarrow> (case m of (a, b) \<Rightarrow> \<not> prefix tT a \<and> f a \<noteq> None
     \<or> (\<exists>x. a = tx x) \<and> \<not> prefix tT b \<and> f b = None \<and> f (butlast b) = Some DirNode)"

text \<open>Orders that remove the journal, which is a file, before everything else.\<close>

definition journalFirst :: "(dpath list \<Rightarrow> dpath list) \<Rightarrow> bool" where
  "journalFirst ord \<longleftrightarrow> (\<forall>ps. distinct ps \<longrightarrow> tx ''journal'' \<in> set ps \<longrightarrow> (\<forall>q \<in> set ps. \<not> strict_prefix (tx ''journal'') q)
     \<longrightarrow> (\<exists>rest. ord ps = tx ''journal'' # rest))"

lemma journal_dir: "tree_ok t \<Longrightarrow> nodeAt t (tx x) \<noteq> None \<Longrightarrow> nodeAt t [transactionDir] = Some DirNode"
  using okF_parent [OF tree_okF, of t "tx x"] by (simp add: tT_def)

section \<open>States of an unfinished transaction\<close>

text \<open>Before the journal; with the journal and the first \<open>k\<close> moves done; rolled back and partly removed.\<close>

definition journaled :: "ls_env \<Rightarrow> tfun \<Rightarrow> (dpath \<times> dpath) list \<Rightarrow> bool" where
  "journaled E f ms \<longleftrightarrow> (\<exists>journal. f (tx ''journal'') = Some (RegNode journal)
     \<and> leDecMoves E journal = Inr (movesOf ms) \<and> goodMoves ms)"

definition dirOrNone :: "dnode option \<Rightarrow> bool" where
  "dirOrNone n \<longleftrightarrow> (\<forall>b. n \<noteq> Some (RegNode b))"

definition phaseStaging :: "tfun \<Rightarrow> tfun \<Rightarrow> bool" where
  "phaseStaging f g \<longleftrightarrow> g (tx ''journal'') = None \<and> dirOrNone (g tT) \<and> outside f g"

definition phaseMoving :: "ls_env \<Rightarrow> (dpath list \<Rightarrow> dpath list) \<Rightarrow> tfun \<Rightarrow> tfun \<Rightarrow> bool" where
  "phaseMoving E ord f g \<longleftrightarrow> (\<exists>f0 ms k. outside f f0 \<and> okF f0 \<and> journaled E f0 ms \<and> f0 (tx ''index'') \<noteq> None
     \<and> plan_ok f0 ms \<and> k \<le> length ms \<and> g = moved f0 (take k ms)
     \<and> (journalFirst ord \<or> list_all (freshMove f) ms))"

definition phaseClearing :: "ls_env \<Rightarrow> tfun \<Rightarrow> tfun \<Rightarrow> bool" where
  "phaseClearing E f g \<longleftrightarrow> outside f g \<and> (\<exists>ms. journaled E g ms \<and> list_all (freshMove f) ms)"

definition recOld :: "ls_env \<Rightarrow> (dpath list \<Rightarrow> dpath list) \<Rightarrow> tfun \<Rightarrow> dtree \<Rightarrow> bool" where
  "recOld E ord f t \<longleftrightarrow> tree_ok t \<and> (phaseStaging f (nodeAt t) \<or> phaseMoving E ord f (nodeAt t)
     \<or> phaseClearing E f (nodeAt t))"

text \<open>After the index has been treeRenamed.\<close>

definition recNew :: "ls_env \<Rightarrow> tfun \<Rightarrow> dtree \<Rightarrow> bool" where
  "recNew E f t \<longleftrightarrow> tree_ok t \<and> nodeAt t (tx ''index'') = None \<and> dirOrNone (nodeAt t tT) \<and> outside f (nodeAt t)
     \<and> (nodeAt t (tx ''journal'') = None \<or> (\<exists>ms. journaled E (nodeAt t) ms))"

definition noStaging :: "tfun \<Rightarrow> bool" where
  "noStaging f \<longleftrightarrow> (\<forall>p. prefix tT p \<longrightarrow> f p = None)"

definition cleanTree :: "tfun \<Rightarrow> dtree \<Rightarrow> bool" where
  "cleanTree f t \<longleftrightarrow> tree_ok t \<and> nodeAt t = f"

lemma cleaned: "noStaging f \<Longrightarrow> outside f g \<Longrightarrow> without {q. prefix tT q} g = f"
  by (auto simp: noStaging_def outside_def without_def fun_eq_iff)

lemma wp_removeT:
  assumes "tree_ok t" and "orderly (fst c)" and "noStaging f" and "outside f (nodeAt t)"
    and "\<And>gone rest t'. fst c (treeWalk t tT) = gone @ rest \<Longrightarrow> (\<And>q. q \<in> set gone \<Longrightarrow> prefix tT q) \<Longrightarrow>
      tree_ok t' \<Longrightarrow> nodeAt t' = without (set gone) (nodeAt t) \<Longrightarrow> P t'"
  shows "wpS c (rootRemoveAll [] transactionDir) (\<lambda>_. cleanTree f) P t"
proof (rule wp_removeAll [OF assms(1,2), where p = tT])
  show "rootPath [] transactionDir = Inr tT" "tT \<noteq> []" by (simp_all add: tT_def)
  show "cleanTree f t'" if "tree_ok t'" "nodeAt t' = without {q. prefix tT q} (nodeAt t)" for t'
    using that cleaned [OF assms(3,4)] by (simp add: cleanTree_def)
qed (use assms(5) in simp)

lemma recOld_staging_remove:
  assumes "tree_ok t" and "orderly (fst c)" and "noStaging f" and "phaseStaging f (nodeAt t)"
  shows "wpS c (rootRemoveAll [] transactionDir) (\<lambda>_. cleanTree f) (recOld E (fst c) f) t"
proof (rule wp_removeT [OF assms(1-3)])
  show "outside f (nodeAt t)" using assms(4) by (simp add: phaseStaging_def)
  fix gone rest t'
  assume g: "\<And>q. q \<in> set gone \<Longrightarrow> prefix tT q" "tree_ok t'" "nodeAt t' = without (set gone) (nodeAt t)"
  then have "phaseStaging f (nodeAt t')"
    using assms(4) outside_without [of "set gone"] by (auto simp: phaseStaging_def without_def dirOrNone_def)
  with g(2) show "recOld E (fst c) f t'" by (simp add: recOld_def)
qed

text \<open>Removal once everything is rolled back.\<close>

lemma rolled_back_remove:
  assumes t: "tree_ok t" and c: "orderly (fst c)" "noStaging f" and o: "outside f (nodeAt t)"
    and r: "recOld E (fst c) f t" and j: "journaled E (nodeAt t) ms"
    and s: "journalFirst (fst c) \<or> list_all (freshMove f) ms"
  shows "wpS c (rootRemoveAll [] transactionDir) (\<lambda>_. cleanTree f) (recOld E (fst c) f) t"
proof (rule wp_removeT [OF t c o])
  fix gone rest t'
  assume w: "fst c (treeWalk t tT) = gone @ rest" and g: "\<And>q. q \<in> set gone \<Longrightarrow> prefix tT q"
    and t': "tree_ok t'" "nodeAt t' = without (set gone) (nodeAt t)"
  have o': "outside f (nodeAt t')" using o outside_without [of "set gone"] g by (simp add: t'(2))
  show "recOld E (fst c) f t'"
  proof (cases "gone = []")
    case True
    then have "nodeAt t' = nodeAt t" by (simp add: t'(2) without_def fun_eq_iff)
    with r t'(1) show ?thesis by (simp add: recOld_def)
  next
    case False
    show ?thesis
    proof (cases "tx ''journal'' \<in> set gone")
      case True
      moreover have "dirOrNone (nodeAt t' tT)"
        using j journal_dir [OF t, of "''journal''"] by (auto simp: t'(2) without_def dirOrNone_def journaled_def tT_def)
      ultimately show ?thesis using o' t' by (simp add: recOld_def phaseStaging_def without_def)
    next
      case nj: False
      have "nodeAt t (tx ''journal'') \<noteq> None" using j by (auto simp: journaled_def)
      then have "tx ''journal'' \<in> set (treeWalk t tT)"
        using treeWalk_nodes [OF t, of tT] okF_prefix [OF tree_okF [OF t], of "tx ''journal''" tT] by simp
      moreover have "\<not> strict_prefix (tx ''journal'') q" if "q \<in> set (treeWalk t tT)" for q
      proof -
        obtain b where b: "nodeAt t (tx ''journal'') = Some (RegNode b)" using j by (auto simp: journaled_def)
        have "nodeAt t tT \<noteq> None" using okF_prefix [OF tree_okF [OF t], of "tx ''journal''" tT] b by simp
        then have "nodeAt t q \<noteq> None" using treeWalk_nodes [OF t] that by auto
        then show ?thesis using okF_file [OF tree_okF [OF t] b] by auto
      qed
      ultimately have "\<not> journalFirst (fst c)"
        using w False nj treeWalk_distinct [of t tT] by (cases gone) (auto simp: journalFirst_def)
      with s have "list_all (freshMove f) ms" by simp
      moreover have "journaled E (nodeAt t') ms" using j nj by (simp add: journaled_def t'(2) without_def)
      ultimately show ?thesis using o' t'(1) by (auto simp: recOld_def phaseClearing_def)
    qed
  qed
qed

section \<open>Undoing a move\<close>

lemma wp_lstat:
  assumes "rootPath r name = Inr p" and "nodeAt t p \<noteq> None \<Longrightarrow> Q (Inr (the (nodeAt t p))) t"
    and "nodeAt t p = None \<Longrightarrow> Q (Inl (missing t p)) t"
    and "\<And>e. snd c \<Longrightarrow> \<not> errorsIs e ErrNotExist \<Longrightarrow> Q (Inl e) t" and "snd c \<Longrightarrow> C t"
  shows "wp c (tryA (rootLstat r name)) Q E C t"
  unfolding rootLstat_def
  by (intro wp_try wp_read faultyI) (use assms in \<open>auto simp: treeStat_def split: option.splits\<close>)

lemma rollback_skip:
  assumes g: "goodName a" "goodName b" and q: "Q () t" and p: "snd c \<Longrightarrow> P t"
    and a: "nodeAt t a \<noteq> None \<or> missing t a = ErrNotExist \<and> nodeAt t b = None \<and> missing t b = ErrNotExist"
  shows "wpS c (rollbackMove [] \<lparr>dmFrom = nameOf a, dmTo = nameOf b\<rparr>) Q P t"
  unfolding rollbackMove_def
  using internal_name [OF g(1)] internal_name [OF g(2)] goodName_root [OF g(1), of "[]"] goodName_root [OF g(2), of "[]"] q p a
  by (auto intro!: wp_bind wp_lstat wp_pure wp_raise simp: stopsIn_def split: sum.split)

lemma rollback_undo:
  assumes t: "tree_ok t" and g: "goodName a" "goodName b"
    and f: "okF f" "apart a b" "f b = None" "f a \<noteq> None" "nodeAt t = treeRenamed a b f"
    and q: "\<And>t'. tree_ok t' \<Longrightarrow> nodeAt t' = f \<Longrightarrow> Q () t'" and p: "P t" "\<And>t'. tree_ok t' \<Longrightarrow> nodeAt t' = f \<Longrightarrow> P t'"
  shows "wpS c (rollbackMove [] \<lparr>dmFrom = nameOf a, dmTo = nameOf b\<rparr>) Q P t"
proof -
  have ne: "a \<noteq> []" "b \<noteq> []" using apart_neq [OF f(2)] by auto
  have na: "nodeAt t a = None" using f(2,5) by (simp add: treeRenamed_source)
  have nb: "nodeAt t b \<noteq> None" using f(4,5) treeRenamed_target [of a b f "[]"] by simp
  have "\<not> prefix a (butlast a)" using ne prefix_length_le [of a "butlast a"] by (cases a) auto
  moreover have "\<not> prefix b (butlast a)" using f(2) not_prefix_butlast by (auto simp: apart_def)
  ultimately have da: "nodeAt t (butlast a) = Some DirNode"
    using okF_parent [OF f(1,4) ne(1)] by (simp add: f(5) treeRenamed_outside)
  from missing_in_dir [OF t da] have ma: "missing t a = ErrNotExist" .
  from treeRename_works [OF apart_sym [OF f(2)] nb na da] obtain t1 where t1: "treeRename b a t = Inr t1" ..
  from treeRename_fresh [OF t apart_sym [OF f(2)] na t1] treeRenamed_back [OF f(1-3)]
  have e1: "nodeAt t1 = f" "tree_ok t1" by (simp_all add: f(5))
  have d1: "nodeAt t1 (butlast a) \<noteq> None" using okF_parent [OF f(1,4) ne(1)] by (simp add: e1)
  have pb: "nodeAt t (butlast b) = Some DirNode" using okF_parent [OF tree_okF [OF t] nb ne(2)] .
  have "\<not> prefix a (butlast b)" using f(2) not_prefix_butlast by (auto simp: apart_def)
  moreover have "\<not> prefix b (butlast b)" using ne prefix_length_le [of b "butlast b"] by (cases b) auto
  ultimately have d2: "nodeAt t1 (butlast b) \<noteq> None" using pb by (simp add: e1 f(5) treeRenamed_outside)
  have n: "rootPath [] (nameOf a) = Inr a" "rootPath [] (nameOf b) = Inr b"
    using goodName_root [OF g(1), of "[]"] goodName_root [OF g(2), of "[]"] by simp_all
  have dirs: "rootPath [] (dirPath (nameOf a)) = Inr (butlast a)" "rootPath [] (dirPath (nameOf b)) = Inr (butlast b)"
    using dirPath_name g by (simp_all add: goodName_def)
  have syncs: "wpS c (forA (syncDirectory []) [dirPath (nameOf a), dirPath (nameOf b)]) Q P t1"
    using q [OF e1(2,1)] p(2) [OF e1(2,1)] d1 d2 dirs by (auto intro!: wp_bind wp_syncDirectory wp_pure)
  have ren: "wp c (tryA (rootRename [] (nameOf b) (nameOf a))) R E C t"
    if "R (Inr ()) t1" "\<And>e. snd c \<Longrightarrow> R (Inl e) t" "snd c \<Longrightarrow> C t" for R :: "err + unit \<Rightarrow> dtree \<Rightarrow> bool" and E C
    unfolding rootRename_def by (intro wp_try wp_change faultyI) (use that n t1 in auto)
  show ?thesis
    unfolding rollbackMove_def
    using internal_name [OF g(1)] internal_name [OF g(2)] na ma nb n syncs p(1)
    by (auto intro!: wp_bind wp_lstat wp_pure wp_raise ren simp: stopsIn_def split: sum.split)
qed

text \<open>Undoing the moves that are done, and skipping the others.\<close>

lemma wp_rollback:
  assumes f0: "okF f0" "plan_ok f0 ms" "goodMoves ms" and k: "k \<le> length ms"
    and t: "tree_ok t" "nodeAt t = moved f0 (take k ms)"
    and q: "\<And>t'. tree_ok t' \<Longrightarrow> nodeAt t' = f0 \<Longrightarrow> Q () t'"
    and p: "\<And>k t'. k \<le> length ms \<Longrightarrow> tree_ok t' \<Longrightarrow> nodeAt t' = moved f0 (take k ms) \<Longrightarrow> P t'"
  shows "wpS c (forA (rollbackMove []) (rev (movesOf ms))) Q P t"
proof -
  define I where "I = (\<lambda>rest t'. tree_ok t' \<and> (\<exists>n. n \<le> length ms \<and> rest = rev (movesOf (take n ms))
    \<and> nodeAt t' = moved f0 (take (min k n) ms)))"
  have start: "I (rev (movesOf ms)) t" unfolding I_def using t k by (auto intro!: exI [of _ "length ms"] simp: min_absorb1)
  have fin: "Q () t'" if "I [] t'" for t'
  proof -
    from that obtain n where "tree_ok t'" "n \<le> length ms" "movesOf (take n ms) = []" "nodeAt t' = moved f0 (take (min k n) ms)"
      by (auto simp: I_def)
    then have "take (min k n) ms = []" by (auto simp: movesOf_def)
    with \<open>nodeAt t' = _\<close> \<open>tree_ok t'\<close> show ?thesis by (auto intro: q)
  qed
  have step: "wpS c (rollbackMove [] m) (\<lambda>_. I rest) P t'" if I: "I (m # rest) t'" for m rest t'
  proof -
  from I obtain n where n: "tree_ok t'" "n \<le> length ms" "m # rest = rev (movesOf (take n ms))"
    "nodeAt t' = moved f0 (take (min k n) ms)" by (auto simp: I_def)
  then have "n \<noteq> 0" by (intro notI) (simp add: movesOf_def)
  then obtain i where i: "n = Suc i" by (cases n) auto
  then have il: "i < length ms" using n(2) by simp
  obtain a b where ab: "ms ! i = (a, b)" by fastforce
  have tk: "take n ms = take i ms @ [(a, b)]" using il ab by (simp add: i take_Suc_conv_app_nth)
  then have m: "m = \<lparr>dmFrom = nameOf a, dmTo = nameOf b\<rparr>" "rest = rev (movesOf (take i ms))"
    using n(3) by (simp_all add: movesOf_def)
  have ms: "ms = take i ms @ (a, b) # drop n ms" using il ab by (simp add: i id_take_nth_drop [symmetric])
      (metis Cons_nth_drop_Suc append_take_drop_id)
  have g: "goodName a" "goodName b" using f0(3) ms unfolding goodMoves_def list_all_iff by (metis case_prodD in_set_conv_decomp)+
  have nx: "let g = moved f0 (take i ms) in apart a b \<and> g b = None \<and> g (butlast b) = Some DirNode \<and> g a \<noteq> None
      \<and> untouched a \<and> untouched b"
    by (rule plan_next [of f0 "take i ms" a b "drop n ms"]) (use f0(2) ms in simp)
  have Pt: "P t'" by (rule p [of "min k n"]) (use n in auto)
  show ?thesis
  proof (cases "k \<le> i")
    case True
    have "\<forall>(a, b) \<in> set (drop k ms). moved f0 (take k ms) a \<noteq> None"
      using plan_take [of f0 "take k ms" "drop k ms"] f0(2) by simp
    moreover have "(a, b) \<in> set (drop k ms)" 
      using il True ab nth_drop [of k ms "i - k"] nth_mem [of "i - k" "drop k ms"] by simp
    ultimately have na: "nodeAt t' a \<noteq> None" using True by (auto simp: n(4) i min_def)
    show ?thesis unfolding m(1)
    proof (rule rollback_skip [OF g])
      show "I rest t'" unfolding I_def using n(1,2,4) True m(2) i by (auto intro!: exI [of _ i] simp: min_def)
    qed (use Pt na in simp_all)
  next
    case False
    then have mn: "min k n = n" using i by simp
    have okf: "okF (moved f0 (take i ms))"
      using plan_okF [of f0 "take i ms"] plan_take [of f0 "take i ms" "drop i ms"] f0(1,2) by simp
    have e: "nodeAt t' = treeRenamed a b (moved f0 (take i ms))" using n(4) by (simp add: mn tk)
    show ?thesis unfolding m(1)
    proof (rule rollback_undo [OF n(1) g okf])
      show "I rest t''" if "tree_ok t''" "nodeAt t'' = moved f0 (take i ms)" for t''
        unfolding I_def using that il m(2) False by (auto intro!: exI [of _ i] simp: min_def)
      show "P t''" if "tree_ok t''" "nodeAt t'' = moved f0 (take i ms)" for t''
        by (rule p [of i]) (use that il in auto)
    qed (use nx e Pt in \<open>auto simp: Let_def\<close>)
  qed
  qed
  from start show ?thesis by (rule wp_for [where I = I]) (erule step, erule fin)
qed

section \<open>Recovery\<close>

lemma wp_readJournal:
  assumes t: "tree_ok t" and q: "\<And>b. nodeAt t (tx ''journal'') = Some (RegNode b) \<Longrightarrow> Q (Inr b) t"
    and n: "nodeAt t (tx ''journal'') = None \<Longrightarrow> Q (Inl ErrNotExist) t"
    and d: "nodeAt t (tx ''journal'') \<noteq> Some DirNode"
    and e: "\<And>e. snd c \<Longrightarrow> \<not> errorsIs e ErrNotExist \<Longrightarrow> Q (Inl e) t" and cr: "snd c \<Longrightarrow> C t"
    and u: "\<And>b. nodeAt t [transactionDir] \<noteq> Some (RegNode b)"
  shows "wp c (tryA (rootReadFile [] (inTransaction ''journal''))) Q E C t"
proof -
  have m: "missing t (tx ''journal'') = ErrNotExist"
  proof (rule missing_absent)
    fix q b assume "strict_prefix q (tx ''journal'')"
    then have "q = [] \<or> q = [transactionDir]" by (auto simp: tx_def strict_prefix_def prefix_Cons)
    then show "nodeAt t q \<noteq> Some (RegNode b)" using u by auto
  qed
  show ?thesis
    unfolding rootReadFile_def
    by (intro wp_try wp_read faultyI)
      (use assms m in \<open>auto simp: treeRead_def treeStat_def split: option.splits dnode.splits\<close>)
qed

text \<open>What recovery does once it has read the journal.\<close>

lemma wp_lstatIndex:
  assumes t: "tree_ok t" and j: "nodeAt t (tx ''journal'') \<noteq> None"
    and q: "nodeAt t (tx ''index'') \<noteq> None \<Longrightarrow> Q (Inr (the (nodeAt t (tx ''index'')))) t"
    and n: "nodeAt t (tx ''index'') = None \<Longrightarrow> Q (Inl ErrNotExist) t"
    and e: "\<And>e. snd c \<Longrightarrow> \<not> errorsIs e ErrNotExist \<Longrightarrow> Q (Inl e) t" and cr: "snd c \<Longrightarrow> C t"
  shows "wp c (tryA (rootLstat [] (inTransaction ''index''))) Q E C t"
proof -
  have "nodeAt t [transactionDir] = Some DirNode" using okF_parent [OF tree_okF [OF t] j] by (simp add: tT_def)
  then have "missing t (tx ''index'') = ErrNotExist" using missing_in_dir [OF t, of "tx ''index''"] by (simp add: tT_def)
  with assms show ?thesis by (intro wp_lstat [where p = "tx ''index''"]) auto
qed

lemma recover_new:
  assumes r: "recNew E f t" and f: "noStaging f" and c: "orderly (fst c)"
  shows "wpS c (recoverTransaction E []) (\<lambda>_. cleanTree f) (recNew E f) t"
proof -
  have t: "tree_ok t" and i: "nodeAt t (tx ''index'') = None" and o: "outside f (nodeAt t)"
    and j: "nodeAt t (tx ''journal'') = None \<or> (\<exists>ms. journaled E (nodeAt t) ms)" and u: "dirOrNone (nodeAt t tT)"
    using r by (auto simp: recNew_def)
  have rem: "wpS c (rootRemoveAll [] transactionDir) (\<lambda>_. cleanTree f) (recNew E f) t"
  proof (rule wp_removeT [OF t c f o])
    fix gone rest t'
    assume g: "\<And>q. q \<in> set gone \<Longrightarrow> prefix tT q" "tree_ok t'" "nodeAt t' = without (set gone) (nodeAt t)"
    show "recNew E f t'" unfolding recNew_def
      using g i o j u outside_without [of "set gone" f "nodeAt t"] by (auto simp: without_def journaled_def dirOrNone_def)
  qed
  have d: "nodeAt t (tx ''journal'') \<noteq> Some DirNode" using j by (auto simp: journaled_def)
  show ?thesis
    unfolding recoverTransaction_def
  proof (intro wp_bind wp_readJournal [OF t _ _ d])
    fix b assume b: "nodeAt t (tx ''journal'') = Some (RegNode b)"
    then obtain ms where "leDecMoves E b = Inr (movesOf ms)" using j by (auto simp: journaled_def)
    moreover have "wpS c (syncDirectory [] ''.'') (\<lambda>_. wpS c (rootRemoveAll [] transactionDir) (\<lambda>_. cleanTree f) (recNew E f)) (recNew E f) t"
      by (rule wp_syncDirectory [where p = "[]"]) (use rem r in auto)
    ultimately show "wpS c (case Inr b of Inl e \<Rightarrow> if errorsIs e ErrNotExist then rootRemoveAll [] transactionDir else raiseA e
        | Inr data \<Rightarrow> bindA (liftA (leDecMoves E data)) (\<lambda>moves. bindA (tryA (rootLstat [] (inTransaction ''index''))) (\<lambda>index.
            bindA (case index of Inl e \<Rightarrow> if errorsIs e ErrNotExist then pureA () else raiseA e
              | Inr _ \<Rightarrow> forA (rollbackMove []) (rev moves)) (\<lambda>_. bindA (syncDirectory [] ''.'') (\<lambda>_. rootRemoveAll [] transactionDir)))))
        (\<lambda>_. cleanTree f) (recNew E f) t"
      using b i r by (auto intro!: wp_bind wp_lift wp_lstatIndex [OF t] wp_pure wp_raise simp: stopsIn_def)
  qed (use rem r u in \<open>auto simp: stopsIn_def dirOrNone_def tT_def intro!: wp_raise\<close>)
qed

lemma recover_old:
  assumes r: "recOld E (fst c) f t" and f: "noStaging f" and c: "orderly (fst c)"
  shows "wpS c (recoverTransaction E []) (\<lambda>_. cleanTree f) (recOld E (fst c) f) t"
proof -
  let ?P = "recOld E (fst c) f"
  have t: "tree_ok t" using r by (simp add: recOld_def)
  have sync: "wpS c (syncDirectory [] ''.'') (\<lambda>_. wpS c (rootRemoveAll [] transactionDir) (\<lambda>_. cleanTree f) ?P) ?P t'"
    if "wpS c (rootRemoveAll [] transactionDir) (\<lambda>_. cleanTree f) ?P t'" "?P t'" for t'
    by (rule wp_syncDirectory [where p = "[]"]) (use that in auto)
  have go: "wpS c (recoverTransaction E []) (\<lambda>_. cleanTree f) ?P t"
    if j: "journaled E (nodeAt t) ms" and i: "nodeAt t (tx ''index'') \<noteq> None \<Longrightarrow>
        wpS c (forA (rollbackMove []) (rev (movesOf ms))) (\<lambda>_ t'. wpS c (rootRemoveAll [] transactionDir) (\<lambda>_. cleanTree f) ?P t' \<and> ?P t') ?P t"
      and n: "nodeAt t (tx ''index'') = None \<Longrightarrow> wpS c (rootRemoveAll [] transactionDir) (\<lambda>_. cleanTree f) ?P t" for ms
  proof -
    obtain b where b: "nodeAt t (tx ''journal'') = Some (RegNode b)" "leDecMoves E b = Inr (movesOf ms)"
      using j by (auto simp: journaled_def)
    have u: "nodeAt t [transactionDir] \<noteq> Some (RegNode b)" for b using journal_dir [OF t, of "''journal''"] b(1) by simp
    have i': "wpS c (forA (rollbackMove []) (rev (movesOf ms)))
        (\<lambda>_. wpS c (bindA (syncDirectory [] ''.'') (\<lambda>_. rootRemoveAll [] transactionDir)) (\<lambda>_. cleanTree f) ?P) ?P t"
      if "nodeAt t (tx ''index'') \<noteq> None"
      by (rule wp_mono [OF i [OF that]]) (use sync in \<open>auto intro: wp_bind\<close>)
    show ?thesis
      unfolding recoverTransaction_def
      using b i' sync [OF n r] r
      by (auto intro!: wp_bind wp_readJournal [OF t _ _ _ _ _ u] wp_lift wp_lstatIndex [OF t] wp_pure wp_raise simp: stopsIn_def)
  qed
  from r have "phaseStaging f (nodeAt t) \<or> phaseMoving E (fst c) f (nodeAt t) \<or> phaseClearing E f (nodeAt t)"
    by (simp add: recOld_def)
  then show ?thesis
  proof (elim disjE)
    assume s: "phaseStaging f (nodeAt t)"
    then have "nodeAt t (tx ''journal'') = None" "\<And>b. nodeAt t [transactionDir] \<noteq> Some (RegNode b)"
      by (auto simp: phaseStaging_def dirOrNone_def tT_def)
    with recOld_staging_remove [OF t c f s, of E] r show ?thesis
      unfolding recoverTransaction_def
      by (auto intro!: wp_bind wp_readJournal [OF t] wp_raise simp: stopsIn_def)
  next
    assume "phaseMoving E (fst c) f (nodeAt t)"
    then obtain f0 ms k where m: "outside f f0" "okF f0" "journaled E f0 ms" "f0 (tx ''index'') \<noteq> None" "plan_ok f0 ms"
      "k \<le> length ms" "nodeAt t = moved f0 (take k ms)" "journalFirst (fst c) \<or> list_all (freshMove f) ms"
      by (auto simp: phaseMoving_def)
    have pk: "plan_ok f0 (take k ms)" using plan_take [of f0 "take k ms" "drop k ms"] m(5) by simp
    have jk: "nodeAt t (tx ''journal'') = f0 (tx ''journal'')" "nodeAt t (tx ''index'') = f0 (tx ''index'')"
      using moved_reserved [OF pk] by (auto simp: m(7))
    have mov: "?P t'" if "k' \<le> length ms" "tree_ok t'" "nodeAt t' = moved f0 (take k' ms)" for k' t'
      unfolding recOld_def phaseMoving_def using m(1-5,8) that by blast
    show ?thesis
    proof (rule go)
      show "journaled E (nodeAt t) ms" using m(3) by (simp add: journaled_def jk)
      show "wpS c (forA (rollbackMove []) (rev (movesOf ms)))
          (\<lambda>_ t'. wpS c (rootRemoveAll [] transactionDir) (\<lambda>_. cleanTree f) ?P t' \<and> ?P t') ?P t"
      proof (rule wp_rollback [OF m(2,5) _ m(6) t m(7)])
        show "goodMoves ms" using m(3) by (auto simp: journaled_def)
        fix t' assume t': "tree_ok t'" "nodeAt t' = f0"
        have "?P t'" by (rule mov [of 0]) (use t' in auto)
        moreover have "wpS c (rootRemoveAll [] transactionDir) (\<lambda>_. cleanTree f) ?P t'"
          by (rule rolled_back_remove [OF t'(1) c f]) (use m t' calculation in auto)
        ultimately show "wpS c (rootRemoveAll [] transactionDir) (\<lambda>_. cleanTree f) ?P t' \<and> ?P t'" by simp
      qed (rule mov)
    qed (use m(4) jk in simp)
  next
    assume "phaseClearing E f (nodeAt t)"
    then obtain ms where m: "outside f (nodeAt t)" "journaled E (nodeAt t) ms" "list_all (freshMove f) ms"
      by (auto simp: phaseClearing_def)
    have rem: "wpS c (rootRemoveAll [] transactionDir) (\<lambda>_. cleanTree f) ?P t"
      by (rule rolled_back_remove [OF t c f m(1) r m(2)]) (use m(3) in simp)
    have dT: "nodeAt t tT = Some DirNode" using m(2) journal_dir [OF t, of "''journal''"] by (auto simp: journaled_def tT_def)
    show ?thesis
    proof (rule go [OF m(2) _ rem])
      have "wpS c (forA (rollbackMove []) (rev (movesOf ms))) (\<lambda>_ t'. t' = t) ?P t"
      proof (rule wp_for [where I = "\<lambda>xs t'. t' = t \<and> set xs \<subseteq> set (movesOf ms)"])
        fix x xs t' assume x: "t' = t \<and> set (x # xs) \<subseteq> set (movesOf ms)"
        then obtain a b where ab: "(a, b) \<in> set ms" "x = \<lparr>dmFrom = nameOf a, dmTo = nameOf b\<rparr>"
          by (auto simp: movesOf_def)
        then have g: "goodName a" "goodName b" using m(2) by (auto simp: journaled_def goodMoves_def list_all_iff)
        have fr: "freshMove f (a, b)" using m(3) ab(1) by (auto simp: list_all_iff)
        have "nodeAt t a \<noteq> None \<or> missing t a = ErrNotExist \<and> nodeAt t b = None \<and> missing t b = ErrNotExist"
        proof (cases "prefix tT a")
          case False
          then show ?thesis using fr m(1) by (auto simp: freshMove_def outside_def)
        next
          case True
          then obtain y where y: "a = tx y" "\<not> prefix tT b" "f b = None" "f (butlast b) = Some DirNode"
            using fr by (auto simp: freshMove_def)
          then have "nodeAt t b = None" "nodeAt t (butlast b) = Some DirNode"
            using m(1) not_prefix_butlast [OF y(2)] by (auto simp: outside_def)
          then show ?thesis
            using missing_in_dir [OF t, of b] missing_in_dir [OF t, of a] dT by (auto simp: y(1) tT_def)
        qed
        with x r ab show "wpS c (rollbackMove [] x) (\<lambda>_ t'. t' = t \<and> set xs \<subseteq> set (movesOf ms)) ?P t'"
          by (auto intro!: rollback_skip [OF g])
      qed auto
      then show "wpS c (forA (rollbackMove []) (rev (movesOf ms)))
          (\<lambda>_ t'. wpS c (rootRemoveAll [] transactionDir) (\<lambda>_. cleanTree f) ?P t' \<and> ?P t') ?P t"
        by (rule wp_mono) (use rem r in auto)
    qed
  qed
qed

end
