(* ===== verification/Local_Commit.thy ===== *)
theory Local_Commit
  imports Local_Recovery
begin

text \<open>
  A transaction of the local driver is atomic: however it ends, by success, an error or the end of
  the process, the tree is one from which recovery reaches either the old tree or the new one, and
  the maps in memory fit it.
\<close>

section \<open>The journal is written\<close>

lemma plan_upd:
  "plan_ok f ms \<Longrightarrow> p = tx ''journal'' \<or> p = tx ''index'' \<or> p = [IndexFileName] \<Longrightarrow>
   plan_ok (f(p \<mapsto> n)) ms \<and> moved (f(p \<mapsto> n)) ms = (moved f ms)(p \<mapsto> n)"
proof (induction f ms rule: plan_ok.induct)
  case (2 f a b ms)
  then have ab: "apart a p" "apart b p" by (auto simp: untouched_def)
  have e: "treeRenamed a b (f(p \<mapsto> n)) = (treeRenamed a b f)(p \<mapsto> n)"
  proof
    fix q
    show "treeRenamed a b (f(p \<mapsto> n)) q = ((treeRenamed a b f)(p \<mapsto> n)) q"
      using ab by (auto simp: treeRenamed_def apart_def)
  qed
  have "b \<noteq> p" using ab by (auto simp: apart_def)
  moreover have "butlast b \<noteq> p" using ab prefixeq_butlast [of b] by (auto simp: apart_def)
  ultimately have v: "(f(p \<mapsto> n)) b = f b" "(f(p \<mapsto> n)) (butlast b) = f (butlast b)" by simp_all
  have w: "f q \<noteq> None \<Longrightarrow> (f(p \<mapsto> n)) q \<noteq> None" for q by simp
  have i: "plan_ok ((treeRenamed a b f)(p \<mapsto> n)) ms \<and> moved ((treeRenamed a b f)(p \<mapsto> n)) ms = (moved (treeRenamed a b f) ms)(p \<mapsto> n)"
    by (rule 2(1)) (use 2(2,3) in simp_all)
  show ?case unfolding plan_ok.simps moved_simps e v using i 2(2) w by auto
qed simp

text \<open>What a stage has to prepare.\<close>

definition staged :: "ls_env \<Rightarrow> (dpath list \<Rightarrow> dpath list) \<Rightarrow> tfun \<Rightarrow> (dpath \<times> dpath) list \<Rightarrow> tfun \<Rightarrow> bool" where
  "staged E ord f ms g \<longleftrightarrow> outside f g \<and> g tT = Some DirNode \<and> g (tx ''journal'') = None
     \<and> g (tx ''journal.new'') = None \<and> g (tx ''index'') = None \<and> goodMoves ms \<and> plan_ok g ms
     \<and> (journalFirst ord \<or> list_all (freshMove f) ms)
     \<and> (\<forall>j. leEncMoves E (movesOf ms) = Inr j \<longrightarrow> leDecMoves E j = Inr (movesOf ms))"

text \<open>The tree after the transaction.\<close>

definition committedTree :: "tfun \<Rightarrow> (dpath \<times> dpath) list \<Rightarrow> bytes \<Rightarrow> tfun" where
  "committedTree g ms data = without {q. prefix tT q} ((moved g ms)([IndexFileName] \<mapsto> RegNode data))"

lemma staging_recOld: "tree_ok t \<Longrightarrow> outside f (nodeAt t) \<Longrightarrow> nodeAt t (tx ''journal'') = None \<Longrightarrow> dirOrNone (nodeAt t tT) \<Longrightarrow> recOld E ord f t"
  by (simp add: recOld_def phaseStaging_def)

lemma outside_upd: "prefix tT p \<Longrightarrow> outside f (g(p \<mapsto> n)) = outside f g"
  by (auto simp: outside_def)

lemma wp_syncStaging:
  assumes "tree_ok t" and "nodeAt t tT \<noteq> None" and "Q () t" and "P t"
  shows "wpS c (syncStaging []) Q P t"
  unfolding syncStaging_def
proof (intro wp_bind wp_read)
  fix names assume "Inr (treeWalk t ([] @ [transactionDir])) = (Inr names :: err + dpath list)"
  then have names: "set names \<subseteq> {q. nodeAt t q \<noteq> None}"
    using treeWalk_nodes [OF assms(1,2)] by (auto simp: tT_def)
  show "wpS c (forA (\<lambda>p. bindA (readA (\<lambda>t. bindE (treeStat p t) (\<lambda>_. Inr ()))) (\<lambda>_. syncAndClose None ())) names) Q P t"
  proof (rule wp_for [where I = "\<lambda>xs t'. t' = t \<and> set xs \<subseteq> {q. nodeAt t q \<noteq> None}"])
    fix x xs t' assume x: "t' = t \<and> set (x # xs) \<subseteq> {q. nodeAt t q \<noteq> None}"
    then show "wpS c (bindA (readA (\<lambda>t. bindE (treeStat x t) (\<lambda>_. Inr ()))) (\<lambda>_. syncAndClose None ()))
        (\<lambda>_ t'. t' = t \<and> set xs \<subseteq> {q. nodeAt t q \<noteq> None}) P t'"
      using assms(4) by (auto intro!: wp_bind wp_read wp_syncAndClose simp: treeStat_def stopsIn_def)
  qed (use assms names in auto)
qed (use assms in auto)

lemma wp_applyMove:
  assumes t: "tree_ok t" and g: "goodName a" "goodName b" and ab: "apart a b"
    and n: "nodeAt t b = None" "nodeAt t (butlast b) = Some DirNode" "nodeAt t a \<noteq> None"
    and q: "\<And>t'. tree_ok t' \<Longrightarrow> nodeAt t' = treeRenamed a b (nodeAt t) \<Longrightarrow> Q () t'"
    and p: "P t" "\<And>t'. tree_ok t' \<Longrightarrow> nodeAt t' = treeRenamed a b (nodeAt t) \<Longrightarrow> P t'"
  shows "wpS c (applyMove [] \<lparr>dmFrom = nameOf a, dmTo = nameOf b\<rparr>) Q P t"
proof -
  have ne: "a \<noteq> []" "b \<noteq> []" using apart_neq [OF ab] by auto
  from treeRename_works [OF ab n(3,1,2)] obtain t1 where t1: "treeRename a b t = Inr t1" ..
  from treeRename_fresh [OF t ab n(1) t1] have e: "nodeAt t1 = treeRenamed a b (nodeAt t)" "tree_ok t1" by auto
  have "\<not> prefix a (butlast a)" "\<not> prefix b (butlast b)"
    using ne prefix_length_le [of a "butlast a"] prefix_length_le [of b "butlast b"] by (cases a; cases b; auto)+
  moreover have "\<not> prefix b (butlast a)" "\<not> prefix a (butlast b)" using ab not_prefix_butlast by (auto simp: apart_def)
  ultimately have d: "nodeAt t1 (butlast a) \<noteq> None" "nodeAt t1 (butlast b) \<noteq> None"
    using okF_parent [OF tree_okF [OF t] n(3) ne(1)] n(2) by (simp_all add: e treeRenamed_outside)
  have nm: "rootPath [] (nameOf a) = Inr a" "rootPath [] (nameOf b) = Inr b"
    using goodName_root [OF g(1), of "[]"] goodName_root [OF g(2), of "[]"] by simp_all
  have dirs: "rootPath [] (dirPath (nameOf a)) = Inr (butlast a)" "rootPath [] (dirPath (nameOf b)) = Inr (butlast b)"
    using dirPath_name g by (simp_all add: goodName_def)
  show ?thesis
    unfolding applyMove_def rootRename_def
    using nm t1 q [OF e(2,1)] p(1) p(2) [OF e(2,1)] d dirs
    by (auto intro!: wp_bind wp_change wp_syncDirectory wp_pure)
qed

lemma wp_applyMoves:
  assumes f0: "okF f0" "plan_ok f0 ms" "goodMoves ms"
    and t: "tree_ok t" "nodeAt t = f0"
    and q: "\<And>t'. tree_ok t' \<Longrightarrow> nodeAt t' = moved f0 ms \<Longrightarrow> Q () t'"
    and p: "\<And>k t'. k \<le> length ms \<Longrightarrow> tree_ok t' \<Longrightarrow> nodeAt t' = moved f0 (take k ms) \<Longrightarrow> P t'"
  shows "wpS c (forA (applyMove []) (movesOf ms)) Q P t"
proof -
  define I where "I = (\<lambda>rest t'. tree_ok t' \<and> (\<exists>k \<le> length ms. rest = movesOf (drop k ms) \<and> nodeAt t' = moved f0 (take k ms)))"
  have start: "I (movesOf ms) t" unfolding I_def using t by (auto intro!: exI [of _ 0])
  have fin: "Q () t'" if "I [] t'" for t'
  proof -
    from that obtain k where k: "tree_ok t'" "k \<le> length ms" "movesOf (drop k ms) = []" "nodeAt t' = moved f0 (take k ms)"
      by (auto simp: I_def)
    then have "take k ms = ms" by (simp add: movesOf_def)
    with k show ?thesis by (intro q) auto
  qed
  have step: "wpS c (applyMove [] m) (\<lambda>_. I rest) P t'" if I: "I (m # rest) t'" for m rest t'
  proof -
    from I obtain k where k: "tree_ok t'" "k \<le> length ms" "m # rest = movesOf (drop k ms)" "nodeAt t' = moved f0 (take k ms)"
      by (auto simp: I_def)
    then have kl: "k < length ms" by (cases "k = length ms") (auto simp: movesOf_def)
    obtain a b where ab: "ms ! k = (a, b)" by fastforce
    have dk: "drop k ms = (a, b) # drop (Suc k) ms" using kl ab by (metis Cons_nth_drop_Suc)
    have tk: "take (Suc k) ms = take k ms @ [(a, b)]" using kl ab by (simp add: take_Suc_conv_app_nth)
    have m: "m = \<lparr>dmFrom = nameOf a, dmTo = nameOf b\<rparr>" "rest = movesOf (drop (Suc k) ms)"
      using k(3) by (simp_all add: dk movesOf_def)
    have ms: "ms = take k ms @ (a, b) # drop (Suc k) ms" using dk by (metis append_take_drop_id)
    have g: "goodName a" "goodName b" using f0(3) ms unfolding goodMoves_def list_all_iff by (metis case_prodD in_set_conv_decomp)+
    have nx: "let g = moved f0 (take k ms) in apart a b \<and> g b = None \<and> g (butlast b) = Some DirNode \<and> g a \<noteq> None
        \<and> untouched a \<and> untouched b"
      by (rule plan_next [of f0 "take k ms" a b "drop (Suc k) ms"]) (use f0(2) ms in simp)
    show ?thesis unfolding m(1)
    proof (rule wp_applyMove [OF k(1) g])
      fix t'' assume t'': "tree_ok t''" "nodeAt t'' = treeRenamed a b (nodeAt t')"
      then have e: "nodeAt t'' = moved f0 (take (Suc k) ms)" by (simp add: k(4) tk)
      show "I rest t''" unfolding I_def using t''(1) e m(2) kl by (auto intro!: exI [of _ "Suc k"])
      show "P t''" by (rule p [of "Suc k"]) (use t''(1) e kl in auto)
    next
      show "P t'" by (rule p [of k]) (use k in auto)
    qed (use nx k(4) in \<open>auto simp: Let_def\<close>)
  qed
  from start show ?thesis by (rule wp_for [where I = I]) (erule step, erule fin)
qed

section \<open>Committing\<close>

lemma wp_rename:
  assumes "rootPath r x = Inr a" and "rootPath r y = Inr b" and "treeRename a b t = Inr t'" and "Q () t'" and "P t"
  shows "wpS c (rootRename r x y) Q P t"
  unfolding rootRename_def by (intro wp_change) (use assms in auto)

lemma wp_commit_journaled:
  assumes t: "tree_ok t" "nodeAt t = g" and st: "staged E (fst c) f ms g"
    and ix: "g [IndexFileName] = None \<or> (\<exists>y. g [IndexFileName] = Some (RegNode y))"
    and data: "leEncIndex E (metasOf E (fst maps')) = Inr data" and jr: "leEncMoves E (movesOf ms) = Inr journal"
    and q: "\<And>t'. recNew E (committedTree g ms data) t' \<Longrightarrow> Q (maps', res) t'"
  shows "wpS c (bindA (writeSynced [] (inTransaction ''index'') data) (\<lambda>_.
     bindA (writeSynced [] (inTransaction ''journal.new'') journal) (\<lambda>_.
     bindA (rootRename [] (inTransaction ''journal.new'') (inTransaction ''journal'')) (\<lambda>_.
     bindA (syncStaging []) (\<lambda>_. bindA (syncDirectory [] ''.'') (\<lambda>_.
     bindA (forA (applyMove []) (movesOf ms)) (\<lambda>_.
     bindA (rootRename [] (inTransaction ''index'') IndexFileName) (\<lambda>_.
     pureA (maps', res))))))))) Q (recOld E (fst c) f) t"
proof -
  let ?P = "recOld E (fst c) f"
  let ?i = "tx ''index''" and ?n = "tx ''journal.new''" and ?j = "tx ''journal''"
  have s: "outside f g" "g tT = Some DirNode" "g ?j = None" "g ?n = None" "g ?i = None" "goodMoves ms" "plan_ok g ms"
    "journalFirst (fst c) \<or> list_all (freshMove f) ms" "leDecMoves E journal = Inr (movesOf ms)"
    using st jr by (auto simp: staged_def)
  have stg: "?P t'" if "tree_ok t'" "outside g (nodeAt t')" "nodeAt t' ?j = None" "nodeAt t' tT = Some DirNode" for t'
    using that s(1) by (intro staging_recOld) (auto simp: outside_def dirOrNone_def)
  define f0 where "f0 = g(?i \<mapsto> RegNode data, ?j \<mapsto> RegNode journal)"
  have pl: "plan_ok f0 ms" "moved f0 ms = (moved g ms)(?i \<mapsto> RegNode data, ?j \<mapsto> RegNode journal)"
    using plan_upd [OF s(7), of ?i "RegNode data"] plan_upd [of "g(?i \<mapsto> RegNode data)" ms ?j "RegNode journal"]
    by (auto simp: f0_def)
  have jf: "journaled E f0 ms" using s(6,9) by (auto simp: journaled_def f0_def)
  have of0: "outside f f0" using s(1) by (simp add: f0_def outside_upd)
  have mov: "?P t'" if "okF f0" "k \<le> length ms" "tree_ok t'" "nodeAt t' = moved f0 (take k ms)" for k t'
  proof -
    have ni: "f0 ?i \<noteq> None" by (simp add: f0_def)
    have "phaseMoving E (fst c) f (nodeAt t')"
      unfolding phaseMoving_def
      by (rule exI [of _ f0], rule exI [of _ ms], rule exI [of _ k])
        (intro conjI of0 that(1) jf ni pl(1) that(2) that(4) s(8))
    then show ?thesis using that(3) by (simp add: recOld_def)
  qed
  have fin: "wpS c (bindA (rootRename [] (inTransaction ''index'') IndexFileName) (\<lambda>_. pureA (maps', res))) Q ?P t'"
    if o: "okF f0" and t': "tree_ok t'" "nodeAt t' = moved f0 ms" for t'
  proof -
    have "moved f0 ms ?i = f0 ?i" "moved f0 ms [IndexFileName] = f0 [IndexFileName]"
      by (rule moved_reserved [OF pl(1)]; simp)+
    moreover have "f0 ?i = Some (RegNode data)" "f0 [IndexFileName] = g [IndexFileName]"
      by (simp_all add: f0_def)
    ultimately have r: "nodeAt t' ?i = Some (RegNode data)" "nodeAt t' [IndexFileName] = g [IndexFileName]"
      by (simp_all only: t'(2))
    have ap: "apart ?i [IndexFileName]" by (auto simp: apart_def tx_def)
    obtain t1 where t1: "treeRename ?i [IndexFileName] t' = Inr t1"
      "nodeAt t1 = (nodeAt t')(?i := None, [IndexFileName] \<mapsto> RegNode data)" "tree_ok t1"
      using treeRename_over [OF t'(1) ap r(1)] r(2) ix by auto
    have jt: "nodeAt t1 ?j = Some (RegNode journal)" by (simp add: t1(2) t'(2) pl(2))
    have "recNew E (committedTree g ms data) t1"
      unfolding recNew_def
    proof (intro conjI disjI2)
      show "outside (committedTree g ms data) (nodeAt t1)"
        by (auto simp: outside_def committedTree_def without_def t1(2) t'(2) pl(2))
      show "dirOrNone (nodeAt t1 tT)" using journal_dir [OF t1(3), of "''journal''"] jt by (simp add: dirOrNone_def tT_def)
      show "\<exists>ms. journaled E (nodeAt t1) ms" using jt s(6,9) by (auto simp: journaled_def)
    qed (use t1 in simp_all)
    then show ?thesis
      unfolding rootRename_def
      using t1(1) q mov [OF o _ t'(1), of "length ms"] t'(2) by (auto intro!: wp_bind wp_change wp_pure)
  qed
  have mid: "wpS c (bindA (syncStaging []) (\<lambda>_. bindA (syncDirectory [] ''.'') (\<lambda>_.
     bindA (forA (applyMove []) (movesOf ms)) (\<lambda>_.
     bindA (rootRename [] (inTransaction ''index'') IndexFileName) (\<lambda>_. pureA (maps', res)))))) Q ?P t'"
    if t': "tree_ok t'" "nodeAt t' = f0" for t'
  proof -
    have o: "okF f0" using tree_okF [OF t'(1)] t'(2) by simp
    have P: "?P t'" by (rule mov [OF o, of 0]) (use t' in auto)
    have m1: "wpS c (bindA (forA (applyMove []) (movesOf ms)) (\<lambda>_.
        bindA (rootRename [] (inTransaction ''index'') IndexFileName) (\<lambda>_. pureA (maps', res)))) Q ?P t'"
      by (rule wp_bind, rule wp_applyMoves [OF o pl(1) s(6) t']) (erule (1) fin [OF o], erule (2) mov [OF o])
    have m2: "wpS c (bindA (syncDirectory [] ''.'') (\<lambda>_. bindA (forA (applyMove []) (movesOf ms)) (\<lambda>_.
        bindA (rootRename [] (inTransaction ''index'') IndexFileName) (\<lambda>_. pureA (maps', res))))) Q ?P t'"
      by (rule wp_bind, rule wp_syncDirectory [where p = "[]"]) (simp_all add: m1 P)
    have "nodeAt t' tT \<noteq> None" using s(2) by (simp add: t'(2) f0_def)
    then show ?thesis by (intro wp_bind [where m = "syncStaging []"] wp_syncStaging t'(1) m2 P)
  qed
  have ren: "wpS c (bindA (rootRename [] (inTransaction ''journal.new'') (inTransaction ''journal'')) (\<lambda>_.
     bindA (syncStaging []) (\<lambda>_. bindA (syncDirectory [] ''.'') (\<lambda>_.
     bindA (forA (applyMove []) (movesOf ms)) (\<lambda>_.
     bindA (rootRename [] (inTransaction ''index'') IndexFileName) (\<lambda>_. pureA (maps', res))))))) Q ?P t'"
    if t': "tree_ok t'" "nodeAt t' = g(?i \<mapsto> RegNode data, ?n \<mapsto> RegNode journal)" for t'
  proof -
    have "nodeAt t' ?n = Some (RegNode journal)" "nodeAt t' ?j = None" "nodeAt t' (butlast ?j) = Some DirNode"
      using s(2,3) by (simp_all add: t'(2) tT_def tx_def)
    then obtain t1 where t1: "treeRename ?n ?j t' = Inr t1" "nodeAt t1 = (nodeAt t')(?n := None, ?j \<mapsto> RegNode journal)" "tree_ok t1"
      using treeRename_over [OF t'(1), of ?n ?j journal] by auto
    have "nodeAt t1 = f0" using s(4) by (auto simp: t1(2) t'(2) f0_def fun_eq_iff)
    from mid [OF t1(3) this] have "wpS c (bindA (syncStaging []) (\<lambda>_. bindA (syncDirectory [] ''.'') (\<lambda>_.
       bindA (forA (applyMove []) (movesOf ms)) (\<lambda>_.
       bindA (rootRename [] (inTransaction ''index'') IndexFileName) (\<lambda>_. pureA (maps', res)))))) Q ?P t1" .
    moreover have "?P t'" by (rule stg) (use t' s in \<open>auto simp: outside_upd tT_def tx_def\<close>)
    ultimately show ?thesis
      using t1(1) by (intro wp_bind [where m = "rootRename [] (inTransaction ''journal.new'') (inTransaction ''journal'')"]
        wp_rename [where a = ?n and b = ?j]) simp_all
  qed
  show ?thesis
  proof (rule wp_bind, rule wp_writeSynced [where p = ?i])
    fix t1 assume t1: "tree_ok t1" "nodeAt t1 = (nodeAt t)(?i \<mapsto> RegNode data)"
    show "wpS c (bindA (writeSynced [] (inTransaction ''journal.new'') journal) (\<lambda>_.
     bindA (rootRename [] (inTransaction ''journal.new'') (inTransaction ''journal'')) (\<lambda>_.
     bindA (syncStaging []) (\<lambda>_. bindA (syncDirectory [] ''.'') (\<lambda>_.
     bindA (forA (applyMove []) (movesOf ms)) (\<lambda>_.
     bindA (rootRename [] (inTransaction ''index'') IndexFileName) (\<lambda>_.
     pureA (maps', res)))))))) Q ?P t1"
    proof (rule wp_bind, rule wp_writeSynced [where p = ?n])
      fix t2 assume t2: "tree_ok t2" "nodeAt t2 = (nodeAt t1)(?n \<mapsto> RegNode journal)"
      show "wpS c (bindA (rootRename [] (inTransaction ''journal.new'') (inTransaction ''journal'')) (\<lambda>_.
       bindA (syncStaging []) (\<lambda>_. bindA (syncDirectory [] ''.'') (\<lambda>_.
       bindA (forA (applyMove []) (movesOf ms)) (\<lambda>_.
       bindA (rootRename [] (inTransaction ''index'') IndexFileName) (\<lambda>_. pureA (maps', res))))))) Q ?P t2"
        by (rule ren) (use t1 t2 t in auto)
    next
      fix t' b assume "tree_ok t'" "nodeAt t' = (nodeAt t1)(?n \<mapsto> RegNode b)"
      then show "?P t'" using t1 t s by (intro stg) (auto simp: outside_upd tT_def tx_def)
    next
      show "?P t1" using t1 t s by (intro stg) (auto simp: outside_upd tT_def tx_def)
    qed (use t1 t s in \<open>auto simp: tT_def tx_def\<close>)
  next
    fix t' b assume "tree_ok t'" "nodeAt t' = (nodeAt t)(?i \<mapsto> RegNode b)"
    then show "?P t'" using t s by (intro stg) (auto simp: outside_upd tT_def tx_def)
  next
    show "?P t" using t s by (intro stg) auto
  qed (use t s in \<open>auto simp: tT_def tx_def\<close>)
qed

definition prepared :: "ls_env \<Rightarrow> setting \<Rightarrow> tfun \<Rightarrow> ('x \<Rightarrow> (dpath \<times> dpath) list \<Rightarrow> tfun \<Rightarrow> bool)
    \<Rightarrow> diskMove list \<times> 'x \<Rightarrow> dtree \<Rightarrow> bool" where
  "prepared E c f Post r t \<longleftrightarrow> tree_ok t \<and> (\<exists>ms. fst r = movesOf ms \<and> staged E (fst c) f ms (nodeAt t)
     \<and> Post (snd r) ms (nodeAt t))"

text \<open>The new tree and maps of a transaction whose stage satisfies \<open>Post\<close>.\<close>

definition commits :: "ls_env \<Rightarrow> setting \<Rightarrow> tfun \<Rightarrow> ('x \<Rightarrow> (dpath \<times> dpath) list \<Rightarrow> tfun \<Rightarrow> bool)
    \<Rightarrow> ('x \<Rightarrow> ls_maps \<Rightarrow> ls_maps \<times> 'r) \<Rightarrow> ls_maps \<Rightarrow> ls_maps \<Rightarrow> 'r \<Rightarrow> tfun \<Rightarrow> bool" where
  "commits E c f Post update maps maps' res f' \<longleftrightarrow> (\<exists>x ms g data. staged E (fst c) f ms g \<and> okF g \<and> Post x ms g
     \<and> update x maps = (maps', res) \<and> leEncIndex E (metasOf E (fst maps')) = Inr data
     \<and> f' = committedTree g ms data)"

lemma commits_noStaging: "commits E c f Post update maps maps' res f' \<Longrightarrow> noStaging f'"
  by (auto simp: commits_def committedTree_def noStaging_def without_def)

definition updatesEncode :: "ls_env \<Rightarrow> ('x \<Rightarrow> (dpath \<times> dpath) list \<Rightarrow> tfun \<Rightarrow> bool) \<Rightarrow> ('x \<Rightarrow> ls_maps \<Rightarrow> ls_maps \<times> 'r) \<Rightarrow> ls_maps \<Rightarrow> bool" where
  "updatesEncode E Post update maps \<longleftrightarrow> (\<forall>x ms g. Post x ms g \<longrightarrow> \<not> isl (leEncIndex E (metasOf E (fst (fst (update x maps)))))
     \<and> \<not> isl (leEncMoves E (movesOf ms)))"

lemma bindA_lift [simp]: "bindA (liftA (Inr x)) k = k x" "bindA (liftA (Inl e)) k = raiseA e"
  by (auto simp: bindA_def liftA_def pureA_def raiseA_def)

lemma wp_commit:
  assumes stage: "wp c stage (prepared E c f Post) (abortsIn c refused (recOld E (fst c) f)) (stopsIn c (recOld E (fst c) f)) t"
    and ix: "f [IndexFileName] = None \<or> (\<exists>y. f [IndexFileName] = Some (RegNode y))"
    and enc: "refused \<or> updatesEncode E Post update maps"
  shows "wp c (commit E [] stage update maps) (\<lambda>(maps', res) t'. \<exists>f'. commits E c f Post update maps maps' res f' \<and> recNew E f' t')
    (abortsIn c refused (recOld E (fst c) f)) (stopsIn c (recOld E (fst c) f)) t"
  unfolding commit_def
proof (rule wp_bind, rule wp_mono [OF stage])
  fix mx t2
  let ?E = "abortsIn c refused (recOld E (fst c) f)" and ?C = "stopsIn c (recOld E (fst c) f)"
  let ?Q = "\<lambda>(maps', res) t'. \<exists>f'. commits E c f Post update maps maps' res f' \<and> recNew E f' t'"
  assume pr: "prepared E c f Post mx t2"
  obtain moves x where mx: "mx = (moves, x)" by fastforce
  from pr obtain ms where m: "tree_ok t2" "moves = movesOf ms" "staged E (fst c) f ms (nodeAt t2)" "Post x ms (nodeAt t2)"
    by (auto simp: prepared_def mx)
  obtain maps' res where u: "update x maps = (maps', res)" by fastforce
  have old: "recOld E (fst c) f t2"
    using m(1,3) by (intro staging_recOld) (auto simp: staged_def dirOrNone_def)
  have gx: "nodeAt t2 [IndexFileName] = None \<or> (\<exists>y. nodeAt t2 [IndexFileName] = Some (RegNode y))"
    using ix m(3) by (auto simp: staged_def outside_def tT_def)
  show "wp c (case mx of (moves, x) \<Rightarrow> let (maps', result) = update x maps in
     bindA (liftA (leEncIndex E (metasOf E (fst maps')))) (\<lambda>data.
     bindA (writeSynced [] (inTransaction ''index'') data) (\<lambda>_.
     bindA (liftA (leEncMoves E moves)) (\<lambda>journal.
     bindA (writeSynced [] (inTransaction ''journal.new'') journal) (\<lambda>_.
     bindA (rootRename [] (inTransaction ''journal.new'') (inTransaction ''journal'')) (\<lambda>_.
     bindA (syncStaging []) (\<lambda>_.
     bindA (syncDirectory [] ''.'') (\<lambda>_.
     bindA (forA (applyMove []) moves) (\<lambda>_.
     bindA (rootRename [] (inTransaction ''index'') IndexFileName) (\<lambda>_.
     pureA (maps', result))))))))))) ?Q ?E ?C t2"
  proof (cases "leEncIndex E (metasOf E (fst maps'))")
    case (Inl e)
    then have "refused" using enc m(4) u by (force simp: updatesEncode_def)
    then show ?thesis using old by (auto simp: mx u Inl abortsIn_def intro!: wp_raise)
  next
    case data: (Inr data)
    show ?thesis
    proof (cases "leEncMoves E moves")
      case (Inl e)
      then have rf: "refused" using enc m(2,4) by (force simp: updatesEncode_def)
      have "wpS c (writeSynced [] (inTransaction ''index'') data) (\<lambda>_. recOld E (fst c) f) (recOld E (fst c) f) t2"
      proof (rule wp_writeSynced [where p = "tx ''index''"])
        have *: "recOld E (fst c) f t'" if "tree_ok t'" "nodeAt t' = (nodeAt t2)(tx ''index'' \<mapsto> RegNode b)" for t' b
          using m(3) that by (intro staging_recOld) (auto simp: staged_def dirOrNone_def outside_upd)
        show "\<And>t'. tree_ok t' \<Longrightarrow> nodeAt t' = (nodeAt t2)(tx ''index'' \<mapsto> RegNode data) \<Longrightarrow> recOld E (fst c) f t'"
          "\<And>t' b. tree_ok t' \<Longrightarrow> nodeAt t' = (nodeAt t2)(tx ''index'' \<mapsto> RegNode b) \<Longrightarrow> recOld E (fst c) f t'"
          by (erule (1) *)+
      qed (use m old in \<open>auto simp: staged_def tT_def\<close>)
      from wpS_aborts [OF this, of refused] have
        w: "wp c (writeSynced [] (inTransaction ''index'') data) (\<lambda>_. recOld E (fst c) f) ?E ?C t2" .
      show ?thesis
        unfolding mx u prod.case Let_def data Inl bindA_lift
        by (rule wp_bind, rule wp_mono [OF w]) (auto intro!: wp_raise simp: abortsIn_def rf)
    next
      case jr: (Inr journal)
      have "wpS c (bindA (writeSynced [] (inTransaction ''index'') data) (\<lambda>_.
         bindA (writeSynced [] (inTransaction ''journal.new'') journal) (\<lambda>_.
         bindA (rootRename [] (inTransaction ''journal.new'') (inTransaction ''journal'')) (\<lambda>_.
         bindA (syncStaging []) (\<lambda>_. bindA (syncDirectory [] ''.'') (\<lambda>_.
         bindA (forA (applyMove []) (movesOf ms)) (\<lambda>_.
         bindA (rootRename [] (inTransaction ''index'') IndexFileName) (\<lambda>_.
         pureA (maps', res))))))))) ?Q (recOld E (fst c) f) t2"
      proof (rule wp_commit_journaled [where Q = ?Q, OF m(1) refl m(3) gx data])
        show "leEncMoves E (movesOf ms) = Inr journal" using jr m(2) by simp
      next
        fix t' assume n: "recNew E (committedTree (nodeAt t2) ms data) t'"
        have "commits E c f Post update maps maps' res (committedTree (nodeAt t2) ms data)"
          unfolding commits_def using m u data tree_okF [OF m(1)] by blast
        with n show "?Q (maps', res) t'" by auto
      qed
      from wpS_aborts [OF this, of refused] jr data show ?thesis
        by (simp add: mx u m(2))
    qed
  qed
qed (auto simp: stopsIn_def abortsIn_def)

section \<open>Whole transactions\<close>

text \<open>
  How a transaction ends: with the old maps and the old tree, or one from which recovery reaches it;
  or with the new maps and the new tree, or one from which recovery reaches that. After the end of
  the process only the tree is left.
\<close>

definition keptOld :: "ls_env \<Rightarrow> setting \<Rightarrow> bool \<Rightarrow> tfun \<Rightarrow> lstore \<Rightarrow> 'r run \<Rightarrow> lstore \<Rightarrow> bool" where
  "keptOld E c refused f s r s' \<longleftrightarrow> (case r of
       Returns x \<Rightarrow> False
     | Raises e \<Rightarrow> (snd c \<or> refused) \<and> lsIds s' = lsIds s \<and> lsPaths s' = lsPaths s
         \<and> (if lsFailed s' = None then cleanTree f (dkTree (lsDisk s')) else snd c \<and> recOld E (fst c) f (dkTree (lsDisk s')))
     | Crashed \<Rightarrow> snd c \<and> recOld E (fst c) f (dkTree (lsDisk s')))"

definition keptNew :: "ls_env \<Rightarrow> setting \<Rightarrow> ls_maps \<Rightarrow> 'r \<Rightarrow> tfun \<Rightarrow> 'r run \<Rightarrow> lstore \<Rightarrow> bool" where
  "keptNew E c maps' res f' r s' \<longleftrightarrow> (case r of
       Returns x \<Rightarrow> x = res \<and> lsIds s' = fst maps' \<and> lsPaths s' = snd maps' \<and> lsFailed s' = None
         \<and> cleanTree f' (dkTree (lsDisk s'))
     | Raises e \<Rightarrow> snd c \<and> lsIds s' = fst maps' \<and> lsPaths s' = snd maps'
         \<and> (if lsFailed s' = None then cleanTree f' (dkTree (lsDisk s')) else recNew E f' (dkTree (lsDisk s')))
     | Crashed \<Rightarrow> snd c \<and> recNew E f' (dkTree (lsDisk s')))"

lemma clean_recOld: "cleanTree f t \<Longrightarrow> noStaging f \<Longrightarrow> recOld E ord f t"
  by (auto simp: cleanTree_def noStaging_def dirOrNone_def intro!: staging_recOld)

lemma errorsJoin_one: "errorsJoin [Some e, None] \<noteq> None"
  by (simp add: errorsJoin_def Let_def)

lemma afterwards_old:
  assumes s: "settled c d" "lsFailed s = None" and r: "recOld E (fst c) f (dkTree d)" and f: "noStaging f" "orderly (fst c)"
    and b: "snd c \<or> refused" and a: "afterwards E (Some e) Crashed s d = (r, s')"
  shows "settled c (lsDisk s') \<and> keptOld E c refused f s r s'"
proof -
  obtain r1 d1 where rc: "recoverTransaction E [] d = (r1, d1)" by fastforce
  from wpD [OF recover_old [OF r f] s(1) rc] a rc s(2) b errorsJoin_one [of e]
  show ?thesis
    by (cases r1) (auto simp: afterwards_def keptOld_def stopsIn_def split: option.splits)
qed

lemma afterwards_new:
  assumes s: "settled c d" "lsFailed s = None" and r: "recNew E f' (dkTree d)" and f: "noStaging f'" "orderly (fst c)"
    and b: "err = None \<and> res' = Returns res \<or> snd c \<and> err \<noteq> None"
    and a: "afterwards E err res' s d = (r, s')"
  shows "settled c (lsDisk s') \<and> keptNew E c (lsIds s, lsPaths s) res f' r s'"
proof -
  obtain r1 d1 where rc: "recoverTransaction E [] d = (r1, d1)" by fastforce
  from wpD [OF recover_new [OF r f] s(1) rc] a rc s(2) b errorsJoin_one
  show ?thesis
    by (cases r1) (auto simp: afterwards_def keptNew_def stopsIn_def errorsJoin_def Let_def split: option.splits)
qed

lemma transaction_atomic:
  assumes s: "settled c (lsDisk s)" "lsFailed s = None" and t: "cleanTree f (dkTree (lsDisk s))"
    and f: "noStaging f" "orderly (fst c)"
    and ix: "f [IndexFileName] = None \<or> (\<exists>y. f [IndexFileName] = Some (RegNode y))"
    and stage: "\<And>t. tree_ok t \<Longrightarrow> nodeAt t = f(tT \<mapsto> DirNode) \<Longrightarrow>
      wp c stage (prepared E c f Post) (abortsIn c refused (recOld E (fst c) f)) (stopsIn c (recOld E (fst c) f)) t"
    and enc: "refused \<or> updatesEncode E Post update (lsIds s, lsPaths s)"
    and r: "transaction E stage update s = (r, s')"
  shows "settled c (lsDisk s') \<and> (keptOld E c refused f s r s' \<or>
    (\<exists>maps' res f'. commits E c f Post update (lsIds s, lsPaths s) maps' res f' \<and> keptNew E c maps' res f' r s'))"
proof -
  let ?goal = "settled c (lsDisk s') \<and> (keptOld E c refused f s r s' \<or>
    (\<exists>maps' res f'. commits E c f Post update (lsIds s, lsPaths s) maps' res f' \<and> keptNew E c maps' res f' r s'))"
  let ?O = "recOld E (fst c) f"
  have tO: "?O (dkTree (lsDisk s))" using clean_recOld [OF t f(1)] .
  have tk: "tree_ok (dkTree (lsDisk s))" "nodeAt (dkTree (lsDisk s)) = f" using t by (auto simp: cleanTree_def)
  obtain r1 d1 where 1: "readA (\<lambda>t. Inr () :: err + unit) (lsDisk s) = (r1, d1)" by fastforce
  have "wpS c (readA (\<lambda>t. Inr ())) (\<lambda>_. cleanTree f) (cleanTree f) (dkTree (lsDisk s))"
    by (rule wp_read) (use t in auto)
  from wpD [OF this s(1) 1] have w1: "settled c d1" "cleanTree f (dkTree d1)" "r1 \<noteq> Returns () \<Longrightarrow> snd c"
    by (cases r1; auto simp: stopsIn_def)+
  have w1': "?O (dkTree d1)" "tree_ok (dkTree d1)" "nodeAt (dkTree d1) = f" using clean_recOld [OF w1(2) f(1)] w1(2) by (auto simp: cleanTree_def)
  obtain r2 d2 where 2: "rootMkdir [] transactionDir d1 = (r2, d2)" by fastforce
  have "f tT = None" using f(1) by (simp add: noStaging_def)
  then obtain t2 where t2: "treeAdd tT DirNode (dkTree d1) = Inr t2"
    using w1'(3) nodeAt_Nil [of "dkTree d1"] by (simp add: treeAdd_def tT_def)
  have n2: "tree_ok t2" "nodeAt t2 = f(tT \<mapsto> DirNode)"
    using treeAdd_ok [OF w1'(2) t2] treeAdd_Inr [OF t2] w1'(3) by auto
  have "wpS c (rootMkdir [] transactionDir) (\<lambda>_ t. t = t2) (cleanTree f) (dkTree d1)"
    unfolding rootMkdir_def by (rule wp_change) (use w1(2) t2 in \<open>auto simp: tT_def\<close>)
  from wpD [OF this w1(1) 2] have w2: "settled c d2" "r2 = Returns () \<Longrightarrow> dkTree d2 = t2"
    "r2 \<noteq> Returns () \<Longrightarrow> snd c \<and> cleanTree f (dkTree d2)"
    by (cases r2; auto simp: stopsIn_def)+
  obtain r3 d3 where 3: "commit E [] stage update (lsIds s, lsPaths s) d2 = (r3, d3)" by fastforce
  show ?goal
  proof (cases "r1 = Returns () \<and> r2 = Returns ()")
    case False
    then show ?thesis
      using r 1 2 w1 w2 w1'(1) s clean_recOld [OF _ f(1), of "dkTree d2" E "fst c"]
      by (cases r1; cases r2) (auto simp: transaction_def keptOld_def)
  next
    case True
    have c3: "wp c (commit E [] stage update (lsIds s, lsPaths s)) (\<lambda>(maps', res) t'. \<exists>f'. commits E c f Post update (lsIds s, lsPaths s) maps' res f' \<and> recNew E f' t')
        (abortsIn c refused ?O) (stopsIn c ?O) (dkTree d2)"
      by (rule wp_commit [where f = f and refused = refused and Post = Post])
        (use w2(2) True stage [OF n2] ix enc in simp_all)
    note w3 = wpD [OF c3 w2(1) 3]
    show ?thesis
    proof (cases r3)
      case Crashed
      with w3 r 1 2 3 True show ?thesis by (auto simp: transaction_def keptOld_def stopsIn_def)
    next
      case (Raises e)
      with r 1 2 3 True have a: "afterwards E (Some e) Crashed s d3 = (r, s')" by (simp add: transaction_def)
      from w3 Raises have "settled c d3" "?O (dkTree d3)" "snd c \<or> refused" by (auto simp: abortsIn_def)
      from afterwards_old [OF this(1) s(2) this(2) f this(3) a] show ?thesis by simp
    next
      case (Returns mr)
      obtain maps' res where mr: "mr = (maps', res)" by fastforce
      from w3 Returns obtain f' where f': "settled c d3" "commits E c f Post update (lsIds s, lsPaths s) maps' res f'" "recNew E f' (dkTree d3)"
        by (auto simp: mr)
      define s1 where "s1 = s\<lparr>lsIds := fst maps', lsPaths := snd maps'\<rparr>"
      have s1: "lsFailed s1 = None" "(lsIds s1, lsPaths s1) = maps'" using s(2) by (simp_all add: s1_def)
      obtain r4 d4 where 4: "syncDirectory [] ''.'' d3 = (r4, d4)" by fastforce
      have "wpS c (syncDirectory [] ''.'') (\<lambda>_. recNew E f') (recNew E f') (dkTree d3)"
        by (rule wp_syncDirectory [where p = "[]"]) (use f'(3) in auto)
      from wpD [OF this f'(1) 4] have w4: "settled c d4" "recNew E f' (dkTree d4)" "r4 \<noteq> Returns () \<Longrightarrow> snd c"
        by (cases r4; auto simp: stopsIn_def)+
      note new = afterwards_new [OF w4(1) s1(1) w4(2) commits_noStaging [OF f'(2)] f(2)]
      have tr: "transaction E stage update s = (case r4 of Crashed \<Rightarrow> (Crashed, s1\<lparr>lsDisk := d4\<rparr>)
          | Raises e \<Rightarrow> afterwards E (Some e) Crashed s1 d4 | Returns _ \<Rightarrow> afterwards E None (Returns res) s1 d4)"
        using True 1 2 3 4 Returns mr by (simp add: transaction_def s1_def Let_def split: run.split)
      show ?thesis
      proof (cases r4)
        case Crashed
        with r tr w4 have "keptNew E c maps' res f' r s'" "settled c (lsDisk s')" by (auto simp: keptNew_def)
        with f'(2) show ?thesis by blast
      next
        case (Raises e)
        with r tr have "afterwards E (Some e) Crashed s1 d4 = (r, s')" by simp
        from new [OF _ this, of res] w4(3) Raises f'(2) show ?thesis unfolding s1(2) by blast
      next
        case (Returns u)
        with r tr have "afterwards E None (Returns res) s1 d4 = (r, s')" by simp
        from new [OF _ this, of res] f'(2) show ?thesis unfolding s1(2) by blast
      qed
    qed
  qed
qed

end
