(* ===== verification/Local_Store.thy ===== *)
theory Local_Store
  imports Local_Tx
begin

text \<open>
  The operations of the local storage driver (\<open>pkg/drivers/localstorage/localstorage.go\<close>) on the maps
  in memory and the tree on disk. An operation gives its result and the driver's next state; after
  \<open>Crashed\<close> only the disk of that state is left.
\<close>

section \<open>Opening and closing\<close>

definition newLocal :: "ls_env \<Rightarrow> disk \<Rightarrow> unit run \<times> lstore" where
  "newLocal E d =
     (let opened = bindA (readA (\<lambda>t. Inr ())) (\<lambda>_. bindA (readA (\<lambda>t. Inr ())) (\<lambda>_.
        bindA (recoverTransaction E []) (\<lambda>_. bindA (tryA (rootReadFile [] IndexFileName)) (\<lambda>data.
        case data of
          Inl e \<Rightarrow> if \<not> errorsIs e ErrNotExist then raiseA e else pureA (Map.empty, Map.empty)
        | Inr data \<Rightarrow> bindA (liftA (readIndex E data)) (\<lambda>maps.
            bindA (checkIndexedFiles E (fst maps) []) (\<lambda>_. pureA maps))))));
        store = (\<lambda>maps d. \<lparr>lsIds = fst maps, lsPaths = snd maps, lsFailed = None, lsDisk = d\<rparr>)
      in case opened d of
           (Returns maps, d) \<Rightarrow> (Returns (), store maps d)
         | (Raises e, d) \<Rightarrow> (Raises e, store (Map.empty, Map.empty) d)
         | (Crashed, d) \<Rightarrow> (Crashed, store (Map.empty, Map.empty) d))"

text \<open>\<open>tmp\<close> is the name that \<open>os.CreateTemp\<close> picks.\<close>

definition saveIndex :: "ls_env \<Rightarrow> string \<Rightarrow> id_map \<Rightarrow> unit act" where
  "saveIndex E tmp ids =
     bindA (liftA (leEncIndex E (metasOf E ids))) (\<lambda>data.
     bindA (rootCreate [] tmp) (\<lambda>f.
     finallyA (changeA (treeRemove f))
       (bindA (tryA (readA (\<lambda>t. Inr ()))) (\<lambda>chmod.
        case chmod of
          Inl e \<Rightarrow> bindA (tryA closeFile) (\<lambda>c. joinA [Some e, failedWith c] ())
        | Inr _ \<Rightarrow>
            bindA (tryA (writeA f data)) (\<lambda>w. bindA (syncAndClose (failedWith w) ()) (\<lambda>_.
            bindA (rootRename [] tmp IndexFileName) (\<lambda>_.
            bindA (readA (\<lambda>t. Inr ())) (\<lambda>_. syncDirectory [] ''.''))))))))"

text \<open>Every operation first looks whether an earlier recovery failed.\<close>

definition whenOpen :: "lstore \<Rightarrow> 'r run \<times> lstore \<Rightarrow> 'r run \<times> lstore" where
  "whenOpen s k = (case lsFailed s of Some e \<Rightarrow> (Raises e, s) | None \<Rightarrow> k)"

definition onDisk :: "'r act \<Rightarrow> lstore \<Rightarrow> 'r run \<times> lstore" where
  "onDisk m s = (case m (lsDisk s) of (r, d) \<Rightarrow> (r, s\<lparr>lsDisk := d\<rparr>))"

definition local_Close :: "ls_env \<Rightarrow> string \<Rightarrow> lstore \<Rightarrow> unit run \<times> lstore" where
  "local_Close E tmp s = whenOpen s (onDisk (saveIndex E tmp (lsIds s)) s)"

section \<open>Reading\<close>

definition answer :: "err + 'r \<Rightarrow> 'r run" where
  "answer r = (case r of Inl e \<Rightarrow> Raises e | Inr x \<Rightarrow> Returns x)"

definition local_List :: "ls_env \<Rightarrow> string \<Rightarrow> lstore \<Rightarrow> vmeta list run \<times> lstore" where
  "local_List E path s = whenOpen s
     (answer (bindE (storagePath path True) (\<lambda>path.
        Inr (filter (\<lambda>m. local_getParentPath (mPath m) = path)
               (map (\<lambda>p. the (lsPaths s p)) (lePaths E (lsPaths s)))))), s)"

text \<open>An open file reads the contents it had when it was opened: files are replaced, never changed.\<close>

definition local_Open :: "uuid \<Rightarrow> lstore \<Rightarrow> bytes vfile run \<times> lstore" where
  "local_Open i s = whenOpen s
     (case lsIds s i of
        None \<Rightarrow> (Raises ErrNotFound, s)
      | Some meta \<Rightarrow>
          if mIsDir meta then (Returns (NewFile meta None), s)
          else onDisk (bindA (readA (\<lambda>t. Inr ())) (\<lambda>_.
                 bindA (rootReadFile [] (relative (mPath meta))) (\<lambda>f. pureA (NewFile meta (Some f))))) s)"

definition local_Stat :: "uuid \<Rightarrow> lstore \<Rightarrow> vmeta run \<times> lstore" where
  "local_Stat i s = whenOpen s
     (case lsIds s i of None \<Rightarrow> (Raises ErrNotFound, s) | Some m \<Rightarrow> (Returns m, s))"

definition local_StatByPath :: "string \<Rightarrow> lstore \<Rightarrow> vmeta run \<times> lstore" where
  "local_StatByPath p s = whenOpen s (answer (statPath (lsPaths s) p), s)"

section \<open>Creating and writing\<close>

definition putEntry :: "vmeta \<Rightarrow> ls_maps \<Rightarrow> ls_maps \<times> vmeta" where
  "putEntry m maps = (((fst maps)(mID m \<mapsto> m), (snd maps)(mPath m \<mapsto> m)), m)"

text \<open>The check that nothing is stored under a name the index does not know.\<close>

definition absentA :: "string \<Rightarrow> unit act" where
  "absentA name = bindA (tryA (rootLstat [] name)) (\<lambda>l.
     case l of
       Inr _ \<Rightarrow> raiseA ErrAlreadyExists
     | Inl e \<Rightarrow> if \<not> errorsIs e ErrNotExist then raiseA e else pureA ())"

definition newEntry :: "(uuid \<Rightarrow> string \<Rightarrow> (diskMove list \<times> 'x) act \<times> ('x \<Rightarrow> vmeta)) \<Rightarrow> ls_env \<Rightarrow> uuid
    \<Rightarrow> bool \<Rightarrow> string \<Rightarrow> lstore \<Rightarrow> vmeta run \<times> lstore" where
  "newEntry mk E i directory value s =
     (case storagePath value directory of
        Inl e \<Rightarrow> (Raises ErrInvalidPath, s)
      | Inr p \<Rightarrow>
          if p = ''/'' then (Raises ErrInvalidPath, s)
          else (case statPath (lsPaths s) p of
              Inr _ \<Rightarrow> (Raises ErrAlreadyExists, s)
            | Inl _ \<Rightarrow>
                (case checkParent (lsPaths s) p of
                   Inl e \<Rightarrow> (Raises e, s)
                 | Inr _ \<Rightarrow>
                     (case mk i p of (stage, meta) \<Rightarrow>
                        transaction E stage (\<lambda>x. putEntry (meta x)) s))))"

definition fileStage :: "string \<Rightarrow> reader \<Rightarrow> (diskMove list \<times> int) act" where
  "fileStage p rd = bindA (absentA (relative p)) (\<lambda>_. bindA (stageContent [] rd) (\<lambda>size.
     pureA ([\<lparr>dmFrom = inTransaction ''new'', dmTo = relative p\<rparr>], size)))"

definition fileEntry :: "uuid \<Rightarrow> int \<Rightarrow> string \<Rightarrow> int \<Rightarrow> vmeta" where
  "fileEntry i now p sz = \<lparr>mID = i, mPath = p, mName = basePath p,
     mExtension = trimPrefix (extPath p) ''.'', mSize = sz, mIsDir = False, mModified = now, mComments = []\<rparr>"

definition local_Create :: "ls_env \<Rightarrow> uuid \<Rightarrow> int \<Rightarrow> string \<Rightarrow> reader \<Rightarrow> lstore \<Rightarrow> vmeta run \<times> lstore" where
  "local_Create E i now value rd s = whenOpen s
     (newEntry (\<lambda>i p. (fileStage p rd, fileEntry i now p)) E i False value s)"

definition dirStage :: "string \<Rightarrow> (diskMove list \<times> unit) act" where
  "dirStage p = bindA (absentA (relative p)) (\<lambda>_. bindA (rootMkdir [] (inTransaction ''new'')) (\<lambda>_.
     pureA ([\<lparr>dmFrom = inTransaction ''new'', dmTo = relative p\<rparr>], ())))"

definition dirEntry :: "uuid \<Rightarrow> int \<Rightarrow> string \<Rightarrow> vmeta" where
  "dirEntry i now p = \<lparr>mID = i, mPath = p, mName = basePath (trimSuffix p ''/''), mExtension = [],
     mSize = 0, mIsDir = True, mModified = now, mComments = []\<rparr>"

definition local_Mkdir :: "ls_env \<Rightarrow> uuid \<Rightarrow> int \<Rightarrow> string \<Rightarrow> lstore \<Rightarrow> vmeta run \<times> lstore" where
  "local_Mkdir E i now value s = whenOpen s
     (newEntry (\<lambda>i p. (dirStage p, \<lambda>_. dirEntry i now p)) E i True value s)"

definition local_Write :: "ls_env \<Rightarrow> int \<Rightarrow> uuid \<Rightarrow> reader \<Rightarrow> lstore \<Rightarrow> vmeta run \<times> lstore" where
  "local_Write E now i rd s = whenOpen s
     (case lsIds s i of
        None \<Rightarrow> (Raises ErrNotFound, s)
      | Some meta \<Rightarrow>
          if mIsDir meta then (Raises ErrNotDir, s)
          else transaction E
            (bindA (stageContent [] rd) (\<lambda>size. pureA
               ([\<lparr>dmFrom = relative (mPath meta), dmTo = inTransaction ''old''\<rparr>,
                 \<lparr>dmFrom = inTransaction ''new'', dmTo = relative (mPath meta)\<rparr>], size)))
            (\<lambda>size (ids, paths). let m = meta\<lparr>mSize := size, mModified := now\<rparr>
               in ((ids(i \<mapsto> m), paths(mPath meta \<mapsto> m)), m)) s)"

definition local_WriteComments :: "ls_env \<Rightarrow> uuid \<Rightarrow> string \<Rightarrow> lstore \<Rightarrow> vmeta run \<times> lstore" where
  "local_WriteComments E i comment s = whenOpen s
     (case lsIds s i of
        None \<Rightarrow> (Raises ErrNotFound, s)
      | Some meta \<Rightarrow>
          transaction E emptyStage
            (\<lambda>_ (ids, paths). let m = meta\<lparr>mComments := comment\<rparr>
               in ((ids(i \<mapsto> m), paths(mPath meta \<mapsto> m)), m)) s)"

section \<open>Deleting\<close>

text \<open>An entry of the map is \<open>meta\<close> or below it.\<close>

definition belongsTo :: "vmeta \<Rightarrow> uuid \<Rightarrow> vmeta \<Rightarrow> bool" where
  "belongsTo meta uid m \<longleftrightarrow> uid = mID meta \<or> (mIsDir meta \<and> prefix (mPath meta) (mPath m))"

definition dropEntries :: "ls_env \<Rightarrow> vmeta \<Rightarrow> ls_maps \<Rightarrow> ls_maps" where
  "dropEntries E meta maps =
     foldl (\<lambda>(ids, paths) uid.
         case ids uid of
           None \<Rightarrow> (ids, paths)
         | Some m \<Rightarrow> if belongsTo meta uid m then (ids(uid := None), paths(mPath m := None)) else (ids, paths))
       maps (leOrder E (fst maps))"

definition local_Delete :: "ls_env \<Rightarrow> uuid \<Rightarrow> lstore \<Rightarrow> unit run \<times> lstore" where
  "local_Delete E i s = whenOpen s
     (case lsIds s i of
        None \<Rightarrow> (Raises ErrNotFound, s)
      | Some meta \<Rightarrow>
          transaction E (pureA ([\<lparr>dmFrom = relative (mPath meta), dmTo = inTransaction ''old''\<rparr>], ()))
            (\<lambda>_ maps. (dropEntries E (meta\<lparr>mID := i\<rparr>) maps, ())) s)"

section \<open>Moving and copying\<close>

definition copyRootFile :: "root \<Rightarrow> root \<Rightarrow> dpath \<Rightarrow> dpath \<Rightarrow> unit act" where
  "copyRootFile dst src from to =
     bindA (readA (treeRead (src @ from))) (\<lambda>content.
     bindA (changeA (treeAdd (dst @ to) (RegNode []))) (\<lambda>_.
     bindA (tryA (writeA (dst @ to) content)) (\<lambda>w. syncAndClose (failedWith w) ())))"

definition copyTree :: "root \<Rightarrow> root \<Rightarrow> dpath \<Rightarrow> unit act" where
  "copyTree dst src target =
     bindA (readA (\<lambda>t. Inr (treeWalk t src))) (\<lambda>names.
     forA (\<lambda>p. let name = drop (length src) p in
       bindA (readA (treeStat p)) (\<lambda>entry.
       case entry of
         DirNode \<Rightarrow> changeA (treeAdd (dst @ target @ name) DirNode)
       | RegNode _ \<Rightarrow> copyRootFile dst src name (target @ name))) names)"

definition movedEntry :: "vmeta \<Rightarrow> string \<Rightarrow> int \<Rightarrow> vmeta \<Rightarrow> vmeta" where
  "movedEntry src dst now meta =
     (let path = dst @ trimPrefix (mPath meta) (mPath src);
          name = basePath (trimSuffix path ''/'')
      in meta\<lparr>mPath := path, mName := name, mExtension := trimPrefix (extPath name) ''.'', mModified := now\<rparr>)"

text \<open>\<open>rng k\<close> and \<open>clock k\<close> are the identifier and the time drawn for the \<open>k\<close>th entry.\<close>

definition transferEntry :: "(nat \<Rightarrow> uuid) \<Rightarrow> (nat \<Rightarrow> int) \<Rightarrow> vmeta \<Rightarrow> string \<Rightarrow> bool \<Rightarrow> nat \<times> vmeta
    \<Rightarrow> ls_maps \<times> vmeta \<Rightarrow> ls_maps \<times> vmeta" where
  "transferEntry rng clock src dst copyItem item st =
     (case (item, st) of ((k, meta), ((ids, paths), result)) \<Rightarrow>
        let originalID = mID meta;
            paths = (if copyItem then paths else paths(mPath meta := None));
            meta = (if copyItem then meta\<lparr>mID := rng k\<rparr> else meta);
            m = movedEntry src dst (clock k) meta
        in ((ids(mID m \<mapsto> m), paths(mPath m \<mapsto> m)), if originalID = mID src then m else result))"

definition transferMetadata :: "ls_env \<Rightarrow> (nat \<Rightarrow> uuid) \<Rightarrow> (nat \<Rightarrow> int) \<Rightarrow> vmeta \<Rightarrow> string \<Rightarrow> bool
    \<Rightarrow> vmeta option \<Rightarrow> ls_maps \<Rightarrow> ls_maps \<times> vmeta" where
  "transferMetadata E rng clock src dst copyItem target maps =
     (let items = filter (\<lambda>meta. belongsTo src (mID meta) meta) (metasOf E (fst maps));
          maps = (case target of None \<Rightarrow> maps | Some t \<Rightarrow> dropEntries E t maps)
      in foldl (\<lambda>st item. transferEntry rng clock src dst copyItem item st) (maps, vmeta0)
           (enumerate 0 items))"

definition transferStage :: "vmeta \<Rightarrow> string \<Rightarrow> bool \<Rightarrow> vmeta option \<Rightarrow> (diskMove list \<times> unit) act" where
  "transferStage src dst copyItem target =
     bindA (if copyItem then
              bindA (rootOpenRoot [] ''.'') (\<lambda>sourceRoot.
              bindA (if mIsDir src then
                       bindA (rootOpenRoot sourceRoot (relative (mPath src))) (\<lambda>subtree.
                       copyTree [] subtree [transactionDir, ''new''])
                     else bindA (liftA (rootPath [] (relative (mPath src)))) (\<lambda>from.
                       copyRootFile [] sourceRoot from [transactionDir, ''new'']))
                (\<lambda>_. pureA (inTransaction ''new'')))
            else pureA (relative (mPath src))) (\<lambda>source.
     bindA (case target of
              Some t \<Rightarrow> pureA [\<lparr>dmFrom = relative (mPath t), dmTo = inTransaction ''old''\<rparr>]
            | None \<Rightarrow> bindA (absentA (relative dst)) (\<lambda>_. pureA [])) (\<lambda>moves.
     pureA (moves @ [\<lparr>dmFrom = source, dmTo = relative dst\<rparr>], ())))"

definition local_transfer :: "ls_env \<Rightarrow> (nat \<Rightarrow> uuid) \<Rightarrow> (nat \<Rightarrow> int) \<Rightarrow> uuid \<Rightarrow> string \<Rightarrow> uuid list \<Rightarrow> bool
    \<Rightarrow> lstore \<Rightarrow> vmeta run \<times> lstore" where
  "local_transfer E rng clock i dst replaceID copyItem s = whenOpen s
     (case lsIds s i of
        None \<Rightarrow> (Raises ErrNotFound, s)
      | Some src \<Rightarrow>
          (case bindE (bindE (storagePath dst False) (TransferPath src)) (\<lambda>dst.
                  bindE (checkParent (lsPaths s) dst) (\<lambda>_. Inr dst)) of
             Inl e \<Rightarrow> (Raises e, s)
           | Inr dst \<Rightarrow>
               let bare = trimSuffix dst ''/'';
                   target = (case lsPaths s bare of Some t \<Rightarrow> Some t | None \<Rightarrow> lsPaths s (bare @ ''/''))
               in (case CheckReplacement target replaceID of
                     Some e \<Rightarrow> (Raises e, s)
                   | None \<Rightarrow>
                       transaction E (transferStage src dst copyItem target)
                         (\<lambda>_. transferMetadata E rng clock src dst copyItem target) s)))"

definition local_Move :: "ls_env \<Rightarrow> (nat \<Rightarrow> uuid) \<Rightarrow> (nat \<Rightarrow> int) \<Rightarrow> uuid \<Rightarrow> string \<Rightarrow> uuid list \<Rightarrow> lstore
    \<Rightarrow> vmeta run \<times> lstore" where
  "local_Move E rng clock i dst replaceID s = local_transfer E rng clock i dst replaceID False s"

definition local_Copy :: "ls_env \<Rightarrow> (nat \<Rightarrow> uuid) \<Rightarrow> (nat \<Rightarrow> int) \<Rightarrow> uuid \<Rightarrow> string \<Rightarrow> uuid list \<Rightarrow> lstore
    \<Rightarrow> vmeta run \<times> lstore" where
  "local_Copy E rng clock i dst replaceID s =
     local_transfer E rng clock i dst (if replaceID = [] then [nilUUID] else replaceID) True s"

section \<open>Trees\<close>

text \<open>
  \<open>buildTree\<close> on the entries grouped by parent. Every level of the recursion is one path element
  deeper, so the number of entries bounds its depth.
\<close>

fun buildTree :: "nat \<Rightarrow> (string \<Rightarrow> vmeta list) \<Rightarrow> vmeta \<Rightarrow> tree_node" where
  "buildTree 0 childrenMap m = TreeNode m []"
| "buildTree (Suc n) childrenMap m =
     (let pre = (if \<not> suffix ''/'' (mPath m) then mPath m @ ''/'' else mPath m)
      in TreeNode m (map (\<lambda>c. if mIsDir c then buildTree n childrenMap c else TreeNode c []) (childrenMap pre)))"

definition rootMeta :: vmeta where
  "rootMeta = vmeta0\<lparr>mPath := ''/'', mName := ''/'', mIsDir := True\<rparr>"

definition local_Tree :: "ls_env \<Rightarrow> string \<Rightarrow> lstore \<Rightarrow> tree_node run \<times> lstore" where
  "local_Tree E path s = whenOpen s
     (answer (bindE (storagePath path False) (\<lambda>path.
        let found = (case lsPaths s path of
              Some m \<Rightarrow> Some m
            | None \<Rightarrow> (case lsPaths s (trimSuffix path ''/'' @ ''/'') of
                Some m \<Rightarrow> Some m | None \<Rightarrow> if path = ''/'' then Some rootMeta else None))
        in case found of
             None \<Rightarrow> Inl ErrNotFound
           | Some node \<Rightarrow>
               let pre = trimSuffix (mPath node) ''/'' @ ''/'';
                   ms = filter (\<lambda>m. \<not> (mPath m = mPath node \<or> \<not> prefix pre (mPath m)))
                          (map (\<lambda>p. the (lsPaths s p)) (lePaths E (lsPaths s)))
               in Inr (buildTree (Suc (length ms))
                    (\<lambda>parent. filter (\<lambda>m. local_getParentPath (mPath m) = parent) ms) node))), s)"

end
