(* ===== verification/Local_Inv.thy ===== *)
theory Local_Inv
  imports Local_Names Local_Store
begin

text \<open>
  The index of the local driver: which paths it accepts and the elements they stand for, the
  well-formed maps, and that reading an index accepts exactly these.
\<close>

section \<open>Accepted paths\<close>

definition visible :: "string list \<Rightarrow> bool" where
  "visible es \<longleftrightarrow> list_all properElem es \<and> list_all (\<lambda>e. \<not> prefix ''.vfs'' e) es \<and> \<not> containsAny (nameOf es) badChars"

definition pathOf :: "string list \<Rightarrow> bool \<Rightarrow> string" where
  "pathOf es dir = slash # nameOf es @ (if dir \<and> es \<noteq> [] then [slash] else [])"

lemma splitOn_chars: "w \<in> set (splitOn c s) \<Longrightarrow> set w \<subseteq> set s"
proof (induction s arbitrary: w)
  case (Cons x xs)
  obtain y ys where yy: "splitOn c xs = y # ys" by (cases "splitOn c xs") auto
  then show ?case using Cons by (fastforce split: if_splits)
qed simp

lemma joinWith_chars: "set (joinWith [c] ws) \<subseteq> insert c (\<Union> (set ` set ws))"
  by (induction "[c]" ws rule: joinWith.induct) auto

lemma containsAny_sub: "set a \<subseteq> set b \<union> (- set cs) \<Longrightarrow> \<not> containsAny b cs \<Longrightarrow> \<not> containsAny a cs"
  by (auto simp: containsAny_def list_ex_iff)

lemma cleanElems_noDots:
  assumes "''..'' \<notin> set (splitOn slash s)"
  shows "cleanElems (slash # s) = filter (\<lambda>e. e \<noteq> [] \<and> e \<noteq> ''.'') (splitOn slash s)"
proof -
  have "''..'' \<notin> set es \<Longrightarrow> foldl (cleanStep b) acc es = rev (filter (\<lambda>e. e \<noteq> [] \<and> e \<noteq> ''.'') es) @ acc" for es acc b
    by (induction es arbitrary: acc) auto
  from this [OF assms] show ?thesis by (simp add: cleanElems_def)
qed

lemma storagePath_shape:
  assumes "storagePath v dir = Inr p"
  shows "visible (elemsOf p) \<and> p = pathOf (elemsOf p) dir"
proof -
  define s where "s = trimSpace v"
  let ?es = "filter (\<lambda>e. e \<noteq> [] \<and> e \<noteq> ''.'') (splitOn slash s)"
  from assms have a: "\<not> containsAny s badChars" "''..'' \<notin> set (splitOn slash s)"
    "\<And>e. e \<in> set (splitOn slash s) \<Longrightarrow> \<not> prefix ''.vfs'' e"
    "p = (if dir \<and> cleanPath (slash # s) \<noteq> ''/'' then cleanPath (slash # s) @ ''/'' else cleanPath (slash # s))"
    by (auto simp: storagePath_def Let_def s_def list_ex_iff split: if_splits)
  have c: "cleanPath (slash # s) = slash # nameOf ?es"
    by (simp add: cleanPath_def cleanElems_noDots [OF a(2)] nameOf_def)
  have pr: "list_all properElem ?es"
    using a(2) splitOn_no_sep [of _ slash s] by (auto simp: list_all_iff properElem_def)
  have "set (nameOf ?es) \<subseteq> insert slash (set s)"
    using joinWith_chars [of slash ?es] splitOn_chars [of _ slash s] by (fastforce simp: nameOf_def)
  then have "\<not> containsAny (nameOf ?es) badChars"
    using containsAny_sub [OF _ a(1)] by (auto simp: badChars_def)
  then have v: "visible ?es" using pr a(3) by (auto simp: visible_def list_all_iff)
  have e: "elemsOf (nameOf ?es) = ?es" using elemsOf_join [OF pr] by (simp add: nameOf_def)
  have ne: "nameOf ?es = [] \<longleftrightarrow> ?es = []" using joinWith_Nil_iff [OF pr] by (simp add: nameOf_def)
  have p: "p = pathOf ?es dir" using a(4) ne by (auto simp: c pathOf_def)
  have "elemsOf p = ?es" using e elemsOf_append [of "nameOf ?es" "[]"] by (auto simp: p pathOf_def)
  with p v show ?thesis by simp
qed

lemma visible_simps: "visible es \<Longrightarrow> list_all properElem es" "visible (es @ es') \<Longrightarrow> list_all properElem es'"
  by (auto simp: visible_def)

lemma visible_good: "visible es \<Longrightarrow> es \<noteq> [] \<Longrightarrow> goodName es"
  by (simp add: visible_def goodName_def)

lemma elemsOf_pathOf: "list_all properElem es \<Longrightarrow> elemsOf (pathOf es dir) = es"
  using elemsOf_join [of es] elemsOf_append [of "nameOf es" "[]"] by (auto simp: pathOf_def nameOf_def)

lemma pathOf_eq: "list_all properElem es \<Longrightarrow> list_all properElem es' \<Longrightarrow> pathOf es d = pathOf es' d' \<Longrightarrow> es = es'"
  using elemsOf_pathOf by metis

lemma nameOf_ends: "list_all properElem es \<Longrightarrow> es \<noteq> [] \<Longrightarrow> \<exists>c s. nameOf es = c # s \<and> c \<noteq> slash \<and> last (nameOf es) \<noteq> slash"
  using nameOf_start [of es] joinWith_last [of es] by (cases "nameOf es") (auto simp: nameOf_def)

lemma dropWhile_rev_last: "s \<noteq> [] \<Longrightarrow> last s \<noteq> c \<Longrightarrow> dropWhile ((=) c) (rev s) = rev s"
  by (cases s rule: rev_cases) auto

lemma relative_pathOf: "list_all properElem es \<Longrightarrow> es \<noteq> [] \<Longrightarrow> relative (pathOf es dir) = nameOf es"
  using nameOf_ends [of es] dropWhile_rev_last [of "nameOf es" slash]
  by (auto simp: relative_def pathOf_def trimPrefix_def trimBoth_def)

lemma trimSuffix_char: "trimSuffix (s @ [c]) [c] = s" "s = [] \<or> last s \<noteq> c \<Longrightarrow> trimSuffix s [c] = s"
  by (auto simp: trimSuffix_def suffix_def)

lemma trimSuffix_pathOf: "list_all properElem es \<Longrightarrow> es \<noteq> [] \<Longrightarrow> trimSuffix (pathOf es dir) [slash] = slash # nameOf es"
  using nameOf_ends [of es] trimSuffix_char(1) [of "slash # nameOf es" slash] trimSuffix_char(2) [of "slash # nameOf es" slash]
  by (auto simp: pathOf_def)

section \<open>Trimming\<close>

lemma spaces_slash: "w \<in> set goSpaces \<Longrightarrow> \<not> prefix w (slash # s) \<and> \<not> suffix w (s @ [slash])"
proof -
  assume w: "w \<in> set goSpaces"
  have "list_all (\<lambda>w. w \<noteq> [] \<and> hd w \<noteq> slash \<and> last w \<noteq> slash) goSpaces" by code_simp
  with w have n: "w \<noteq> []" "hd w \<noteq> slash" "last w \<noteq> slash" by (auto simp: list_all_iff)
  then show ?thesis by (auto simp: prefix_Cons suffix_def) (metis last_appendR last_snoc)
qed

lemma trimSpace_start: "trimSpace (slash # s) = trimRight (slash # s)"
proof -
  have "leadSpace (slash # s) = None" using spaces_slash by (auto simp: leadSpace_def find_None_iff)
  then show ?thesis by (simp add: trimSpace_def trimLeft_fix)
qed

lemma trimSpace_slashes: "trimSpace (slash # s @ [slash]) = slash # s @ [slash]" "trimSpace [slash] = [slash]"
proof -
  have "trailSpace (t @ [slash]) = None" for t using spaces_slash by (auto simp: trailSpace_def find_None_iff)
  from trimRight_fix [OF this [of "slash # s"]] trimRight_fix [OF this [of "[]"]]
  show "trimSpace (slash # s @ [slash]) = slash # s @ [slash]" "trimSpace [slash] = [slash]"
    by (simp_all add: trimSpace_start)
qed

lemma storagePath_pathOf:
  assumes v: "visible es" and t: "trimSpace (pathOf es d) = pathOf es d"
  shows "storagePath (pathOf es d) dir = Inr (pathOf es dir)"
proof -
  have p: "list_all properElem es" using v by (simp add: visible_def)
  have ne: "nameOf es = [] \<longleftrightarrow> es = []" using joinWith_Nil_iff [OF p] by (simp add: nameOf_def)
  have sp: "set (splitOn slash (pathOf es d)) \<subseteq> insert [] (set es)"
  proof (cases "es = []")
    case False
    then show ?thesis using nameOf_split [OF p False] splitOn_append [of slash "nameOf es" "[]"] by (auto simp: pathOf_def)
  qed (simp add: pathOf_def nameOf_def)
  have "''..'' \<notin> set es" using p by (auto simp: list_all_iff properElem_def)
  with v sp have ok: "\<not> list_ex (\<lambda>part. part = ''..'' \<or> prefix ''.vfs'' part) (splitOn slash (pathOf es d))"
    by (fastforce simp: visible_def list_all_iff list_ex_iff)
  have bad: "\<not> containsAny (pathOf es d) badChars"
    using v by (auto simp: visible_def pathOf_def containsAny_def list_ex_iff badChars_def)
  have "cleanPath (slash # pathOf es d) = slash # nameOf es"
    using cleanPath_elems [of "pathOf es d"] elemsOf_pathOf [OF p, of d] p by (simp add: nameOf_def)
  with ok bad ne t show ?thesis
    unfolding storagePath_def by (auto simp: Let_def pathOf_def)
qed

section \<open>Parents\<close>

lemma pathOf_root: "pathOf es dir = ''/'' \<longleftrightarrow> nameOf es = [] \<and> \<not> (dir \<and> es \<noteq> [])"
  by (auto simp: pathOf_def)

lemma dirPath_pathOf:
  assumes p: "list_all properElem es" and n: "es \<noteq> []"
  shows "dirPath (slash # nameOf es) = slash # nameOf (butlast es)"
proof -
  obtain xs x where x: "es = xs @ [x]" using n by (metis append_butlast_last_id)
  have px: "properElem x" "list_all properElem xs" using p x by auto
  have e: "slash # nameOf es = (if xs = [] then [] else slash # nameOf xs) @ slash # x"
    using joinWith_append [of xs "[x]" "[slash]"] by (simp add: nameOf_def x)
  have "takeWhile ((\<noteq>) slash) (rev x @ slash # ys) = rev x" for ys using px(1) by (subst takeWhile_append2) auto
  then have "afterSlash (slash # nameOf es) = x" by (simp add: afterSlash_def e)
  then have "dirPath (slash # nameOf es) = cleanPath ((if xs = [] then [] else slash # nameOf xs) @ [slash])"
    by (simp add: dirPath_def e)
  also have "\<dots> = slash # nameOf xs"
    using cleanPath_trailing [of "slash # nameOf xs"] cleanAbs_join [OF px(2)] cleanPath_fix [of "[slash]"]
      cleanAbs_join [of "[]"] by (auto simp: nameOf_def)
  finally show ?thesis by (simp add: x)
qed

lemma parent_pathOf:
  assumes p: "list_all properElem es" and n: "es \<noteq> []"
  shows "local_getParentPath (pathOf es dir) = pathOf (butlast es) True"
proof -
  have pb: "list_all properElem (butlast es)" using p by (auto simp: list_all_iff dest: in_set_butlastD)
  have ne: "nameOf (butlast es) = [] \<longleftrightarrow> butlast es = []" using joinWith_Nil_iff [OF pb] by (simp add: nameOf_def)
  have "\<not> suffix ''/'' (slash # nameOf (butlast es))" if "butlast es \<noteq> []"
  proof
    assume "suffix ''/'' (slash # nameOf (butlast es))"
    then have "last (slash # nameOf (butlast es)) = slash" by (auto simp: suffix_def dest!: arg_cong [where f = last])
    with nameOf_ends [OF pb that] show False by (auto split: if_splits)
  qed
  moreover have "pathOf es dir \<noteq> ''/''" using nameOf_ends [OF p n] by (auto simp: pathOf_root)
  ultimately show ?thesis
    using dirPath_pathOf [OF p n] trimSuffix_pathOf [OF p n, of dir] ne
    by (auto simp: local_getParentPath_def Let_def pathOf_def)
qed

text \<open>The entry for a list of elements, as \<open>statPath\<close> looks for it.\<close>

definition entryAt :: "path_map \<Rightarrow> string list \<Rightarrow> vmeta option" where
  "entryAt paths es = (case paths (pathOf es False) of Some m \<Rightarrow> Some m | None \<Rightarrow> paths (pathOf es False @ ''/''))"

lemma statPath_entryAt: "statPath paths v = bindE (storagePath v False) (\<lambda>p.
    case entryAt paths (elemsOf p) of Some m \<Rightarrow> Inr m | None \<Rightarrow> Inl ErrNotFound)"
proof (cases "storagePath v False")
  case (Inr p)
  from storagePath_shape [OF Inr] have "p = pathOf (elemsOf p) False" by simp
  then show ?thesis by (simp add: statPath_def entryAt_def Inr split: option.split)
qed (simp add: statPath_def)

lemma checkParent_pathOf:
  assumes v: "visible es" and n: "es \<noteq> []"
  shows "checkParent paths (pathOf es dir) = (if butlast es = [] then Inr ()
    else case entryAt paths (butlast es) of None \<Rightarrow> Inl ErrNotFound
      | Some m \<Rightarrow> if mIsDir m then Inr () else Inl ErrNotDir)"
proof -
  have p: "list_all properElem es" using v by (simp add: visible_def)
  have set: "set (butlast es) \<subseteq> set es" by (auto dest: in_set_butlastD)
  have pb: "list_all properElem (butlast es)" using p set by (auto simp: list_all_iff)
  have "es = butlast es @ [last es]" using n by simp
  then have "nameOf es = nameOf (butlast es) @ slash # last es \<or> butlast es = []"
    using joinWith_append [of "butlast es" "[last es]" "[slash]"] by (cases "butlast es = []") (auto simp: nameOf_def)
  then have "set (nameOf (butlast es)) \<subseteq> set (nameOf es)" by (auto simp: nameOf_def)
  then have "\<not> containsAny (nameOf (butlast es)) badChars"
    using v containsAny_sub [of "nameOf (butlast es)" "nameOf es" badChars] by (auto simp: visible_def)
  then have vb: "visible (butlast es)" using v set pb by (auto simp: visible_def list_all_iff)
  have t: "trimSpace (pathOf (butlast es) True) = pathOf (butlast es) True"
    using trimSpace_slashes by (auto simp: pathOf_def nameOf_def)
  have "pathOf (butlast es) True = ''/'' \<longleftrightarrow> butlast es = []"
    using joinWith_Nil_iff [OF pb] by (auto simp: pathOf_root nameOf_def)
  then show ?thesis
    using storagePath_pathOf [OF vb t, of False] elemsOf_pathOf [OF pb, of False]
    by (auto simp: checkParent_def parent_pathOf [OF p n] statPath_entryAt split: option.split)
qed

section \<open>Entries\<close>

abbreviation elems :: "vmeta \<Rightarrow> string list" where
  "elems m \<equiv> elemsOf (mPath m)"

lemma validEntry_shape:
  assumes "validEntry m"
  shows "visible (elems m)" "elems m \<noteq> []" "mPath m = pathOf (elems m) (mIsDir m)" "mID m \<noteq> nilUUID" "0 \<le> mSize m"
    "list_all properElem (elems m)"
proof -
  from assms have a: "storagePath (mPath m) (mIsDir m) = Inr (mPath m)" "mPath m \<noteq> ''/''" "mID m \<noteq> nilUUID" "0 \<le> mSize m"
    by (auto simp: validEntry_def split: sum.splits)
  from storagePath_shape [OF a(1)] show s: "visible (elems m)" "mPath m = pathOf (elems m) (mIsDir m)" by auto
  show "elems m \<noteq> []" using s(2) a(2) by (auto simp: pathOf_def nameOf_def)
  show "list_all properElem (elems m)" using s(1) by (simp add: visible_def)
qed (use assms in \<open>auto simp: validEntry_def split: sum.splits\<close>)

lemma relative_entry: "validEntry m \<Longrightarrow> relative (mPath m) = nameOf (elems m)"
  using validEntry_shape [of m] relative_pathOf [of "elems m" "mIsDir m"] by simp

lemma key_entry: "validEntry m \<Longrightarrow> trimSuffix (mPath m) [slash] = pathOf (elems m) False"
  using validEntry_shape [of m] trimSuffix_pathOf [of "elems m" "mIsDir m"] by (simp add: pathOf_def)

lemma parent_entry: "validEntry m \<Longrightarrow> checkParent paths (mPath m) = (if butlast (elems m) = [] then Inr ()
    else case entryAt paths (butlast (elems m)) of None \<Rightarrow> Inl ErrNotFound
      | Some m \<Rightarrow> if mIsDir m then Inr () else Inl ErrNotDir)"
  using validEntry_shape [of m] checkParent_pathOf [of "elems m" paths "mIsDir m"] by simp

text \<open>Well-formed maps.\<close>

definition entriesOk :: "id_map \<Rightarrow> bool" where
  "entriesOk ids \<longleftrightarrow> finite (dom ids) \<and> (\<forall>i m. ids i = Some m \<longrightarrow> mID m = i \<and> validEntry m)
     \<and> (\<forall>m m'. m \<in> ran ids \<longrightarrow> m' \<in> ran ids \<longrightarrow> elems m = elems m' \<longrightarrow> m = m')"

definition parentsOk :: "id_map \<Rightarrow> bool" where
  "parentsOk ids \<longleftrightarrow> (\<forall>m \<in> ran ids. butlast (elems m) = [] \<or> (\<exists>m' \<in> ran ids. mIsDir m' \<and> elems m' = butlast (elems m)))"

definition byPath :: "id_map \<Rightarrow> path_map" where
  "byPath ids p = (if \<exists>m \<in> ran ids. mPath m = p then Some (THE m. m \<in> ran ids \<and> mPath m = p) else None)"

definition mapsOk :: "ls_maps \<Rightarrow> bool" where
  "mapsOk maps \<longleftrightarrow> (case maps of (ids, paths) \<Rightarrow> entriesOk ids \<and> parentsOk ids
     \<and> (\<forall>p m. paths p = Some m \<longleftrightarrow> m \<in> ran ids \<and> mPath m = p))"

lemma ran_entry: "entriesOk ids \<Longrightarrow> m \<in> ran ids \<Longrightarrow> ids (mID m) = Some m \<and> validEntry m"
  by (auto simp: entriesOk_def ran_def)

lemma entries_path_eq: "entriesOk ids \<Longrightarrow> m \<in> ran ids \<Longrightarrow> m' \<in> ran ids \<Longrightarrow> mPath m = mPath m' \<Longrightarrow> m = m'"
  by (auto simp: entriesOk_def)

lemma entryAt_Some:
  assumes "entriesOk ids" and "\<And>p m. paths p = Some m \<longleftrightarrow> m \<in> ran ids \<and> mPath m = p" and "list_all properElem es" and "es \<noteq> []"
  shows "entryAt paths es = Some m \<longleftrightarrow> m \<in> ran ids \<and> elems m = es"
proof -
  have a: "pathOf es False @ ''/'' = pathOf es True" using assms(4) by (simp add: pathOf_def)
  have b: "mPath m = pathOf es d \<Longrightarrow> elems m = es" for m d using elemsOf_pathOf [OF assms(3)] by simp
  have c: "m \<in> ran ids \<Longrightarrow> elems m = es \<Longrightarrow> mPath m = pathOf es (mIsDir m)" for m
    using ran_entry [OF assms(1)] validEntry_shape(3) by metis
  have u: "m \<in> ran ids \<Longrightarrow> m' \<in> ran ids \<Longrightarrow> elems m = es \<Longrightarrow> elems m' = es \<Longrightarrow> m = m'" for m m'
    using assms(1) by (auto simp: entriesOk_def)
  show ?thesis
  proof
    assume "entryAt paths es = Some m"
    then show "m \<in> ran ids \<and> elems m = es" using b by (auto simp: entryAt_def a assms(2) split: option.splits)
  next
    assume m: "m \<in> ran ids \<and> elems m = es"
    then have e: "paths (pathOf es (mIsDir m)) = Some m" using c by (simp add: assms(2))
    show "entryAt paths es = Some m"
    proof (cases "mIsDir m")
      case True
      have "paths (pathOf es False) \<noteq> Some m'" if "m' \<noteq> m" for m' using that u m b by (auto simp: assms(2))
      then show ?thesis using e True by (auto simp: entryAt_def a split: option.split)
    qed (use e in \<open>simp add: entryAt_def\<close>)
  qed
qed

lemma mapsOkD:
  assumes "mapsOk (ids, paths)"
  shows "entriesOk ids" "parentsOk ids" "\<And>p m. paths p = Some m \<longleftrightarrow> m \<in> ran ids \<and> mPath m = p"
  using assms by (auto simp: mapsOk_def)

lemma parents_iff:
  assumes "entriesOk ids" and "\<And>p m. paths p = Some m \<longleftrightarrow> m \<in> ran ids \<and> mPath m = p"
  shows "parentsOk ids \<longleftrightarrow> (\<forall>m \<in> ran ids. checkParent paths (mPath m) = Inr ())"
proof -
  have "(butlast (elems m) = [] \<or> (\<exists>m' \<in> ran ids. mIsDir m' \<and> elems m' = butlast (elems m))) \<longleftrightarrow> checkParent paths (mPath m) = Inr ()"
    if m: "m \<in> ran ids" for m
  proof (cases "butlast (elems m) = []")
    case False
    have v: "validEntry m" using ran_entry [OF assms(1) m] by simp
    have p: "list_all properElem (butlast (elems m))"
      using validEntry_shape(6) [OF v] by (auto simp: list_all_iff dest: in_set_butlastD)
    have u: "m1 \<in> ran ids \<Longrightarrow> m2 \<in> ran ids \<Longrightarrow> elems m1 = elems m2 \<Longrightarrow> m1 = m2" for m1 m2
      using assms(1) by (simp add: entriesOk_def)
    show ?thesis
      using False entryAt_Some [OF assms p False] u by (auto simp: parent_entry [OF v] split: option.split) metis
  qed (use ran_entry [OF assms(1) m] parent_entry in auto)
  then show ?thesis by (simp add: parentsOk_def)
qed

section \<open>Reading the index\<close>

definition orderOk :: "ls_env \<Rightarrow> bool" where
  "orderOk E \<longleftrightarrow> (\<forall>ids. finite (dom ids) \<longrightarrow> distinct (leOrder E ids) \<and> set (leOrder E ids) = dom ids)"

definition idsOf :: "vmeta list \<Rightarrow> id_map" where
  "idsOf metas = map_of (map (\<lambda>m. (mID m, m)) metas)"

definition entryList :: "vmeta list \<Rightarrow> bool" where
  "entryList metas \<longleftrightarrow> list_all validEntry metas \<and> distinct (map mID metas) \<and> distinct (map elems metas)"

lemma idsOf_ran: "distinct (map mID metas) \<Longrightarrow> ran (idsOf metas) = set metas"
  unfolding idsOf_def by (subst ran_distinct) (auto simp: comp_def image_iff)

lemma metasOf_set: "orderOk E \<Longrightarrow> finite (dom ids) \<Longrightarrow> set (metasOf E ids) = ran ids"
  by (auto simp: metasOf_def orderOk_def ran_def image_iff) force

lemma entryList_entries: "entryList metas \<Longrightarrow> entriesOk (idsOf metas)"
proof -
  assume e: "entryList metas"
  then have d: "distinct (map mID metas)" by (simp add: entryList_def)
  have "idsOf metas i = Some m \<Longrightarrow> m \<in> set metas \<and> mID m = i" for i m
    by (auto simp: idsOf_def dest: map_of_SomeD)
  moreover have "finite (dom (idsOf metas))" by (simp add: idsOf_def finite_dom_map_of)
  moreover have "m \<in> set metas \<Longrightarrow> m' \<in> set metas \<Longrightarrow> elems m = elems m' \<Longrightarrow> m = m'" for m m'
    using e by (auto simp: entryList_def distinct_map inj_on_def)
  ultimately show ?thesis using e idsOf_ran [OF d] by (auto simp: entriesOk_def entryList_def list_all_iff)
qed

lemma entries_metas:
  assumes "orderOk E" and "entriesOk ids"
  shows "entryList (metasOf E ids) \<and> idsOf (metasOf E ids) = ids"
proof -
  have fin: "finite (dom ids)" using assms(2) by (simp add: entriesOk_def)
  then have o: "distinct (leOrder E ids)" "set (leOrder E ids) = dom ids" using assms(1) by (auto simp: orderOk_def)
  have k: "mID (the (ids i)) = i" if "i \<in> set (leOrder E ids)" for i using that o(2) assms(2) by (auto simp: entriesOk_def)
  then have mi: "map mID (metasOf E ids) = leOrder E ids" by (simp add: metasOf_def map_idI)
  have s: "set (metasOf E ids) = ran ids" using metasOf_set [OF assms(1) fin] .
  have "distinct (metasOf E ids)" using mi o(1) by (metis distinct_map)
  moreover have "inj_on elems (set (metasOf E ids))" using assms(2) by (auto simp: s inj_on_def entriesOk_def)
  ultimately have "entryList (metasOf E ids)"
    using o(1) mi ran_entry [OF assms(2)] by (auto simp: entryList_def list_all_iff s distinct_map)
  moreover have "idsOf (metasOf E ids) = ids"
  proof
    fix i
    have "map (\<lambda>m. (mID m, m)) (metasOf E ids) = map (\<lambda>i. (i, the (ids i))) (leOrder E ids)"
      using k by (auto simp: metasOf_def)
    then show "idsOf (metasOf E ids) i = ids i"
      using o(2) by (auto simp: idsOf_def map_of_map_restrict restrict_map_def dom_def)
  qed
  ultimately show ?thesis by simp
qed

definition keysOf :: "vmeta list \<Rightarrow> path_map" where
  "keysOf metas = map_of (map (\<lambda>m. (pathOf (elems m) False, m)) metas)"

lemma map_of_snoc: "map_of xs k = None \<Longrightarrow> [k \<mapsto> v] ++ map_of xs = (map_of xs)(k \<mapsto> v)"
  by (auto simp: fun_eq_iff map_add_def split: option.split)

lemma map_of_key: "map_of (map (\<lambda>m. (k m, m)) ms) x = None \<longleftrightarrow> x \<notin> k ` set ms"
  by (simp add: map_of_eq_None_iff image_image)

lemma entryList_snoc: "entryList (ms @ [m]) \<longleftrightarrow> entryList ms \<and> validEntry m \<and> mID m \<notin> mID ` set ms \<and> elems m \<notin> elems ` set ms"
  by (auto simp: entryList_def)

lemma readEntries: "forE readEntry metas (Map.empty, Map.empty) = Inr st \<longleftrightarrow> entryList metas \<and> st = (idsOf metas, keysOf metas)"
proof (induction metas arbitrary: st rule: rev_induct)
  case Nil
  then show ?case by (auto simp: entryList_def idsOf_def keysOf_def)
next
  case (snoc m ms)
  have step: "readEntry m (idsOf ms, keysOf ms) = Inr st \<longleftrightarrow> entryList (ms @ [m]) \<and> st = (idsOf (ms @ [m]), keysOf (ms @ [m]))"
    if e: "entryList ms" for st
  proof (cases "validEntry m")
    case True
    note v = validEntry_shape [OF True]
    have pe: "pathOf (elems m) False = pathOf (elems m') False \<longleftrightarrow> elems m = elems m'" if "m' \<in> set ms" for m'
      using pathOf_eq [OF v(6) validEntry_shape(6)] e that by (auto simp: entryList_def list_all_iff)
    have i: "idsOf ms (mID m) = None \<longleftrightarrow> mID m \<notin> mID ` set ms" by (simp add: idsOf_def map_of_key)
    have k: "keysOf ms (pathOf (elems m) False) = None \<longleftrightarrow> elems m \<notin> elems ` set ms"
      using pe by (auto simp: keysOf_def map_of_key image_iff)
    have "entryList (ms @ [m]) \<Longrightarrow> idsOf (ms @ [m]) = (idsOf ms)(mID m \<mapsto> m) \<and> keysOf (ms @ [m]) = (keysOf ms)(pathOf (elems m) False \<mapsto> m)"
      using i k by (simp add: entryList_snoc idsOf_def keysOf_def map_of_snoc)
    then show ?thesis using True e i k by (auto simp: readEntry_def key_entry entryList_snoc Let_def)
  qed (auto simp: readEntry_def entryList_snoc)
  show ?case
  proof (cases "forE readEntry ms (Map.empty, Map.empty)")
    case (Inl e)
    then have "\<not> entryList ms" using snoc by auto
    with Inl show ?thesis by (simp add: forE_append entryList_snoc)
  next
    case (Inr st0)
    then have "entryList ms" "st0 = (idsOf ms, keysOf ms)" using snoc by auto
    with Inr step show ?thesis by (auto simp: forE_append)
  qed
qed

lemma foldl_paths:
  "distinct (map mPath ms) \<Longrightarrow> foldl (\<lambda>g meta. g(mPath meta \<mapsto> meta)) Map.empty ms p = Some m \<longleftrightarrow> m \<in> set ms \<and> mPath m = p"
  by (induction ms rule: rev_induct) (auto simp: image_iff)

lemma option_eqI: "(\<And>x. a = Some x \<longleftrightarrow> b = Some x) \<Longrightarrow> a = b"
  by (cases a; cases b) auto

lemma readIndex_exact_core:
  assumes E: "orderOk E"
  shows "readIndex E data = Inr maps \<longleftrightarrow>
    (\<exists>metas. leDecIndex E data = Inr metas \<and> distinct (map mID metas) \<and> distinct (map elems metas) \<and> fst maps = idsOf metas \<and> mapsOk maps)"
proof -
  obtain ids paths where maps: "maps = (ids, paths)" by fastforce
  have main: "bindE (forE readEntry metas (Map.empty, Map.empty)) (\<lambda>(ids, _).
       let pathMap = foldl (\<lambda>m meta. m(mPath meta \<mapsto> meta)) Map.empty (metasOf E ids)
       in bindE (mapE (\<lambda>meta. case checkParent pathMap (mPath meta) of
              Inl e \<Rightarrow> Inl (ErrWrapped ''invalid parent'' e) | Inr _ \<Rightarrow> Inr ()) (metasOf E ids))
            (\<lambda>_. Inr (ids, pathMap))) = Inr (ids, paths)
     \<longleftrightarrow> distinct (map mID metas) \<and> distinct (map elems metas) \<and> ids = idsOf metas \<and> mapsOk (ids, paths)" (is "?l = _ \<longleftrightarrow> ?r") for metas
  proof (cases "entryList metas")
    case False
    then obtain e where "forE readEntry metas (Map.empty, Map.empty) = Inl e"
      using readEntries by (metis sum.exhaust)
    moreover have "\<not> ?r"
    proof
      assume r: ?r
      then have "set metas = ran ids" using idsOf_ran by metis
      moreover have "entriesOk ids" using r by (auto simp: mapsOk_def)
      ultimately have "list_all validEntry metas" using ran_entry by (auto simp: list_all_iff)
      with r False show False by (simp add: entryList_def)
    qed
    ultimately show ?thesis by simp
  next
    case True
    let ?ids = "idsOf metas" and ?P = "foldl (\<lambda>m meta. m(mPath meta \<mapsto> meta)) Map.empty (metasOf E (idsOf metas))"
    have en: "entriesOk ?ids" by (rule entryList_entries [OF True])
    have fin: "finite (dom ?ids)" using en by (simp add: entriesOk_def)
    have s: "set (metasOf E ?ids) = ran ?ids" by (rule metasOf_set [OF E fin])
    have "distinct (map mPath (metasOf E ?ids))"
      using entries_metas [OF E en] entries_path_eq [OF en] by (auto simp: entryList_def distinct_map inj_on_def s)
    then have P: "?P p = Some m \<longleftrightarrow> m \<in> ran ?ids \<and> mPath m = p" for p m by (simp add: foldl_paths s)
    have ok: "(\<exists>us. mapE (\<lambda>meta. case checkParent ?P (mPath meta) of
        Inl e \<Rightarrow> Inl (ErrWrapped ''invalid parent'' e) | Inr _ \<Rightarrow> Inr ()) (metasOf E ?ids) = Inr us) \<longleftrightarrow> parentsOk ?ids" (is "(\<exists>us. mapE ?c _ = _) \<longleftrightarrow> _")
    proof -
      have c: "?c m = Inr u \<longleftrightarrow> checkParent ?P (mPath m) = Inr ()" for m u by (auto split: sum.split)
      have "(\<exists>us. mapE ?c ms = Inr us) \<longleftrightarrow> (\<forall>m \<in> set ms. checkParent ?P (mPath m) = Inr ())" for ms
      proof
        assume "\<exists>us. mapE ?c ms = Inr us"
        then obtain us where "mapE ?c ms = Inr us" ..
        then have "\<exists>u \<in> set us. ?c m = Inr u" if "m \<in> set ms" for m using mapE_set2 [of ?c ms us m] that by blast
        then show "\<forall>m \<in> set ms. checkParent ?P (mPath m) = Inr ()" using c by blast
      next
        assume "\<forall>m \<in> set ms. checkParent ?P (mPath m) = Inr ()"
        then have "mapE ?c ms = Inr (map (\<lambda>_. ()) ms)" using c by (intro mapE_total) blast
        then show "\<exists>us. mapE ?c ms = Inr us" by blast
      qed
      from this [of "metasOf E ?ids"] show ?thesis unfolding parents_iff [OF en P] s .
    qed
    have "paths = ?P" if "mapsOk (?ids, paths)"
    proof
      fix p
      show "paths p = ?P p" by (rule option_eqI) (use that P [of p] in \<open>simp add: mapsOk_def\<close>)
    qed
    moreover have "mapsOk (?ids, ?P) \<longleftrightarrow> parentsOk ?ids" using en P by (simp add: mapsOk_def)
    ultimately show ?thesis
      using True ok readEntries [of metas "(?ids, keysOf metas)"] by (auto simp: entryList_def Let_def bindE_eq_Inr)
  qed
  show ?thesis
  proof (cases "leDecIndex E data")
    case (Inr metas)
    show ?thesis unfolding readIndex_def maps Inr bindE_simps main by simp
  qed (simp add: readIndex_def)
qed

end
