(* ===== verification/Local_Reopen.thy ===== *)
theory Local_Reopen
  imports Local_Commit Local_Inv Utf8
begin

text \<open>
  Opening the local driver on what an earlier process left: the trees that hold the entries of given
  maps, the outcome of \<open>New\<close> on them, and of any number of attempts that fail or die.
\<close>

section \<open>Trees that hold the entries of an index\<close>

definition textMeta :: "vmeta \<Rightarrow> bool" where
  "textMeta m \<longleftrightarrow> utf8 (mPath m) \<and> utf8 (mName m) \<and> utf8 (mExtension m) \<and> utf8 (mComments m)"

text \<open>What the source relies on: JSON gives back what is valid UTF-8, a loop over a map visits every entry once.\<close>

definition codecOk :: "ls_env \<Rightarrow> bool" where
  "codecOk E \<longleftrightarrow> orderOk E
     \<and> (\<forall>metas data. list_all textMeta metas \<longrightarrow> leEncIndex E metas = Inr data \<longrightarrow> leDecIndex E data = Inr metas)
     \<and> (\<forall>moves j. list_all (\<lambda>m. utf8 (dmFrom m) \<and> utf8 (dmTo m)) moves \<longrightarrow> leEncMoves E moves = Inr j \<longrightarrow> leDecMoves E j = Inr moves)"

definition filesMatch :: "id_map \<Rightarrow> tfun \<Rightarrow> bool" where
  "filesMatch ids f \<longleftrightarrow> (\<forall>m \<in> ran ids. \<exists>n. f (elems m) = Some n \<and> matchesEntry m n)"

definition indexed :: "ls_env \<Rightarrow> ls_maps \<Rightarrow> tfun \<Rightarrow> bool" where
  "indexed E maps f \<longleftrightarrow> f [IndexFileName] = None \<and> maps = (Map.empty, Map.empty)
     \<or> (\<exists>data. f [IndexFileName] = Some (RegNode data) \<and> readIndex E data = Inr maps)"

definition storeTree :: "ls_env \<Rightarrow> ls_maps \<Rightarrow> tfun \<Rightarrow> bool" where
  "storeTree E maps f \<longleftrightarrow> okF f \<and> noStaging f \<and> mapsOk maps \<and> (\<forall>m \<in> ran (fst maps). textMeta m)
     \<and> filesMatch (fst maps) f \<and> indexed E maps f"

lemma storeTreeD:
  assumes "storeTree E maps f"
  shows "okF f" "noStaging f" "mapsOk maps" "filesMatch (fst maps) f" "indexed E maps f"
    "f [IndexFileName] = None \<or> (\<exists>y. f [IndexFileName] = Some (RegNode y))"
  using assms by (auto simp: storeTree_def indexed_def)

text \<open>The states that lead to a tree by recovery.\<close>

definition recoverable :: "ls_env \<Rightarrow> (dpath list \<Rightarrow> dpath list) \<Rightarrow> tfun \<Rightarrow> dtree \<Rightarrow> bool" where
  "recoverable E ord f t \<longleftrightarrow> recOld E ord f t \<or> recNew E f t"

lemma wp_recover:
  assumes "recoverable E (fst c) f t" and "noStaging f" and "orderly (fst c)"
  shows "wpS c (recoverTransaction E []) (\<lambda>_. cleanTree f) (recoverable E (fst c) f) t"
  using assms(1) [unfolded recoverable_def]
proof
  assume "recOld E (fst c) f t"
  from recover_old [OF this assms(2,3)] show ?thesis
    by (rule wp_mono) (auto simp: stopsIn_def recoverable_def)
next
  assume "recNew E f t"
  from recover_new [OF this assms(2,3)] show ?thesis
    by (rule wp_mono) (auto simp: stopsIn_def recoverable_def)
qed

lemma wp_checkIndexedFiles:
  assumes E: "orderOk E" and m: "mapsOk (ids, paths)" and f: "filesMatch ids (nodeAt t)" and q: "Q () t" and p: "P t"
  shows "wpS c (checkIndexedFiles E ids []) Q P t"
  unfolding checkIndexedFiles_def
proof (rule wp_for [where I = "\<lambda>ms t'. t' = t \<and> set ms \<subseteq> ran ids"])
  have e: "entriesOk ids" using mapsOkD(1) [OF m] .
  show "t = t \<and> set (metasOf E ids) \<subseteq> ran ids"
    using metasOf_set [OF E] e by (simp add: entriesOk_def)
  fix meta ms t' assume i: "t' = t \<and> set (meta # ms) \<subseteq> ran ids"
  then have v: "validEntry meta" using ran_entry [OF e] by auto
  from i f obtain n where n: "nodeAt t (elems meta) = Some n" "matchesEntry meta n" by (auto simp: filesMatch_def)
  have "rootPath [] (relative (mPath meta)) = Inr (elems meta)"
    using goodName_root [OF visible_good [OF validEntry_shape(1,2) [OF v]], of "[]"] relative_entry [OF v] by simp
  then show "wpS c (bindA (rootLstat [] (relative (mPath meta))) (\<lambda>info.
     if \<not> matchesEntry meta info then raiseA (ErrOther ''stored file does not match index'') else pureA ()))
     (\<lambda>_ t'. t' = t \<and> set ms \<subseteq> ran ids) P t'"
    unfolding rootLstat_def by (intro wp_bind wp_read) (use i n p in \<open>auto simp: treeStat_def intro: wp_pure\<close>)
qed (use q in auto)

section \<open>Opening\<close>

lemma wp_touch: "wpS c m Q P t \<Longrightarrow> P t \<Longrightarrow> wpS c (bindA (readA (\<lambda>t. Inr ())) (\<lambda>_. m)) Q P t"
  by (rule wp_bind, rule wp_read) simp_all

definition storeAt :: "lstore \<Rightarrow> ls_maps \<Rightarrow> tfun \<Rightarrow> bool" where
  "storeAt s maps f \<longleftrightarrow> lsFailed s = None \<and> (lsIds s, lsPaths s) = maps \<and> cleanTree f (dkTree (lsDisk s))"

lemma newLocal_opens:
  assumes E: "orderOk E" and st: "storeTree E maps f" and p: "recoverable E (fst c) f (dkTree d)" and o: "orderly (fst c)"
    and s: "settled c d" and r: "newLocal E d = (r, s')"
  shows "settled c (lsDisk s') \<and> (case r of Returns _ \<Rightarrow> storeAt s' maps f | _ \<Rightarrow> snd c \<and> recoverable E (fst c) f (dkTree (lsDisk s')))"
proof -
  let ?P = "recoverable E (fst c) f"
  define reading where "reading = bindA (tryA (rootReadFile [] IndexFileName)) (\<lambda>data.
        case data of
          Inl e \<Rightarrow> if \<not> errorsIs e ErrNotExist then raiseA e else pureA (Map.empty, Map.empty)
        | Inr data \<Rightarrow> bindA (liftA (readIndex E data)) (\<lambda>maps.
            bindA (checkIndexedFiles E (fst maps) []) (\<lambda>_. pureA maps)))"
  define opened where "opened = bindA (readA (\<lambda>t. Inr ())) (\<lambda>_. bindA (readA (\<lambda>t. Inr ())) (\<lambda>_.
        bindA (recoverTransaction E []) (\<lambda>_. reading)))"
  have n: "noStaging f" using storeTreeD(2) [OF st] .
  have clean: "?P t" if "cleanTree f t" for t using clean_recOld [OF that n] by (simp add: recoverable_def)
  have rest: "wpS c reading (\<lambda>x t. x = maps \<and> cleanTree f t) ?P t"
    if t: "cleanTree f t" for t
  proof -
    have tk: "tree_ok t" "nodeAt t = f" using t by (auto simp: cleanTree_def)
    have ms: "missing t [IndexFileName] = ErrNotExist" by (rule missing_in_dir [OF tk(1)]) simp
    have chk: "wpS c (checkIndexedFiles E (fst maps) []) (\<lambda>_. wpS c (pureA maps) (\<lambda>x t. x = maps \<and> cleanTree f t) ?P) ?P t"
      using storeTreeD(3,4) [OF st] tk t clean [OF t]
      by (cases maps) (auto intro!: wp_checkIndexedFiles [OF E] wp_pure)
    from storeTreeD(5) [OF st] show ?thesis unfolding indexed_def
    proof
      assume i: "f [IndexFileName] = None \<and> maps = (Map.empty, Map.empty)"
      show ?thesis unfolding reading_def rootReadFile_def
        by (intro wp_bind wp_try wp_read faultyI)
          (use i ms tk(2) t clean [OF t] in \<open>auto simp: treeRead_def treeStat_def stopsIn_def intro!: wp_raise wp_pure\<close>)
    next
      assume "\<exists>data. f [IndexFileName] = Some (RegNode data) \<and> readIndex E data = Inr maps"
      then obtain data where i: "f [IndexFileName] = Some (RegNode data)" "readIndex E data = Inr maps" by blast
      show ?thesis unfolding reading_def rootReadFile_def
        by (intro wp_bind wp_try wp_read faultyI)
          (use i chk tk(2) clean [OF t] in \<open>auto simp: treeRead_def treeStat_def stopsIn_def intro!: wp_raise wp_bind wp_lift\<close>)
    qed
  qed
  have w: "wpS c opened (\<lambda>x t. x = maps \<and> cleanTree f t) ?P (dkTree d)"
  proof -
    have "wpS c (recoverTransaction E []) (\<lambda>_. wpS c reading (\<lambda>x t. x = maps \<and> cleanTree f t) ?P) ?P (dkTree d)"
      by (rule wp_mono [OF wp_recover [OF p n o]]) (simp_all add: rest)
    then have w1: "wpS c (bindA (recoverTransaction E []) (\<lambda>_. reading)) (\<lambda>x t. x = maps \<and> cleanTree f t) ?P (dkTree d)"
      by (rule wp_bind)
    show ?thesis unfolding opened_def by (intro wp_touch w1 p)
  qed
  obtain r1 d1 where 1: "opened d = (r1, d1)" by fastforce
  from wpD [OF w s 1] r 1 show ?thesis
    unfolding newLocal_def reading_def [symmetric] opened_def [symmetric] Let_def
    by (cases r1) (auto simp: storeAt_def stopsIn_def)
qed

text \<open>
  Opening the driver after any number of attempts that failed or died, each with faults of its own.
\<close>

inductive restarts :: "ls_env \<Rightarrow> disk \<Rightarrow> lstore \<Rightarrow> bool" for E where
  opened: "list_all faultOk fs \<Longrightarrow> newLocal E (d\<lparr>dkFaults := fs\<rparr>) = (Returns (), s) \<Longrightarrow> restarts E d s"
| failed: "list_all faultOk fs \<Longrightarrow> newLocal E (d\<lparr>dkFaults := fs\<rparr>) = (r, s) \<Longrightarrow> r \<noteq> Returns () \<Longrightarrow>
    restarts E (lsDisk s) s' \<Longrightarrow> restarts E d s'"

lemma restarts_storeAt:
  assumes "restarts E d s" and E: "orderOk E" and st: "storeTree E maps f"
    and "recoverable E (dkRemoval d) f (dkTree d)" and o: "orderly (dkRemoval d)"
  shows "storeAt s maps f"
  using assms(1,4,5)
proof (induction rule: restarts.induct)
  case (opened fs d s)
  have "settled (dkRemoval d, True) (d\<lparr>dkFaults := fs\<rparr>)" using opened(1) by (simp add: settled_def)
  from newLocal_opens [OF E st _ _ this opened(2)] opened(3,4) show ?case by simp
next
  case (failed fs d r s s')
  have "settled (dkRemoval d, True) (d\<lparr>dkFaults := fs\<rparr>)" using failed(1) by (simp add: settled_def)
  from newLocal_opens [OF E st _ _ this failed(2)] failed(3,6,7)
  have "settled (dkRemoval d, True) (lsDisk s)" "recoverable E (dkRemoval d) f (dkTree (lsDisk s))" by (cases r; simp)+
  then show ?case using failed(5,7) by (simp add: settled_def)
qed

lemma opens_at_last:
  assumes E: "orderOk E" and st: "storeTree E maps f" and "recoverable E (dkRemoval d) f (dkTree d)" and "orderly (dkRemoval d)"
  shows "\<exists>s. newLocal E (d\<lparr>dkFaults := []\<rparr>) = (Returns (), s) \<and> storeAt s maps f"
proof -
  obtain r s where n: "newLocal E (d\<lparr>dkFaults := []\<rparr>) = (r, s)" by fastforce
  have "settled (dkRemoval d, False) (d\<lparr>dkFaults := []\<rparr>)" by (simp add: settled_def)
  from newLocal_opens [OF E st _ _ this n] assms(3,4) n show ?thesis by (cases r) auto
qed

end
