(* ===== verification/Local_View.thy ===== *)
theory Local_View
  imports Local_Reopen
begin

text \<open>
  The file system a local store presents, as a map from paths to entries and contents, and what it
  means for an operation on it to be atomic in spite of failures of the disk and the end of the
  process. A transaction is atomic when its stage prepares the new tree.
\<close>

section \<open>Views\<close>

type_synonym ls_view = "string \<Rightarrow> (vmeta \<times> bytes option) option"

definition fileAt :: "tfun \<Rightarrow> vmeta \<Rightarrow> bytes option" where
  "fileAt f m = (case f (elems m) of Some (RegNode b) \<Rightarrow> Some b | _ \<Rightarrow> None)"

definition lsView :: "ls_maps \<Rightarrow> tfun \<Rightarrow> ls_view" where
  "lsView maps f p = map_option (\<lambda>m. (m, fileAt f m)) (snd maps p)"

definition storeView :: "lstore \<Rightarrow> ls_view" where
  "storeView s = lsView (lsIds s, lsPaths s) (nodeAt (dkTree (lsDisk s)))"

definition healthy :: "ls_env \<Rightarrow> lstore \<Rightarrow> bool" where
  "healthy E s \<longleftrightarrow> lsFailed s = None \<and> tree_ok (dkTree (lsDisk s))
     \<and> storeTree E (lsIds s, lsPaths s) (nodeAt (dkTree (lsDisk s)))"

text \<open>Whatever happens until the driver is open again, it then shows one of the views.\<close>

definition comesBack :: "ls_env \<Rightarrow> ls_view set \<Rightarrow> disk \<Rightarrow> bool" where
  "comesBack E views d \<longleftrightarrow> (\<forall>s. restarts E d s \<longrightarrow> healthy E s \<and> storeView s \<in> views) \<and> (\<exists>s. restarts E d s)"

definition atomically :: "ls_env \<Rightarrow> setting \<Rightarrow> bool \<Rightarrow> ls_view \<Rightarrow> ls_view \<Rightarrow> 'r \<Rightarrow> 'r run \<Rightarrow> lstore \<Rightarrow> bool" where
  "atomically E c refused old new res r s' \<longleftrightarrow> settled c (lsDisk s') \<and> (case r of
       Returns x \<Rightarrow> x = res \<and> healthy E s' \<and> storeView s' = new
     | Raises e \<Rightarrow> (snd c \<or> refused) \<and>
         (if lsFailed s' = None then healthy E s' \<and> (storeView s' = old \<or> snd c \<and> storeView s' = new)
          else snd c \<and> comesBack E {old, new} (lsDisk s'))
     | Crashed \<Rightarrow> snd c \<and> comesBack E {old, new} (lsDisk s'))"

lemma storeAt_healthy: "storeAt s maps f \<Longrightarrow> storeTree E maps f \<Longrightarrow> healthy E s \<and> storeView s = lsView maps f"
  by (auto simp: storeAt_def healthy_def storeView_def cleanTree_def)

lemma recoverable_comesBack:
  assumes E: "orderOk E" and st: "storeTree E maps f" and "recoverable E (dkRemoval d) f (dkTree d)" and "orderly (dkRemoval d)"
    and v: "lsView maps f \<in> views"
  shows "comesBack E views d"
  unfolding comesBack_def
proof (intro conjI allI impI)
  fix s assume "restarts E d s"
  from storeAt_healthy [OF restarts_storeAt [OF this assms(1-4)] st] v show "healthy E s" "storeView s \<in> views" by auto
next
  show "\<exists>s. restarts E d s" using opens_at_last [OF assms(1-4)] restarts.opened [where fs = "[]" and E = E and d = d] by auto
qed

section \<open>The committed tree\<close>

lemma committed_okF:
  assumes "okF g" and "plan_ok g ms" and ix: "g [IndexFileName] = None \<or> (\<exists>y. g [IndexFileName] = Some (RegNode y))"
  shows "okF (committedTree g ms data)"
proof -
  let ?h = "moved g ms"
  have h: "okF ?h" by (rule plan_okF [OF assms(2,1)])
  have hi: "?h [IndexFileName] = g [IndexFileName]" by (rule moved_reserved [OF assms(2)]) simp
  have nb: "butlast p \<noteq> [IndexFileName]" if "?h p \<noteq> None" "p \<noteq> []" for p
    using okF_parent [OF h that] ix hi by auto
  show ?thesis
    unfolding okF_def
  proof (intro conjI allI impI)
    show "committedTree g ms data [] = Some DirNode"
      using h by (simp add: committedTree_def without_def tT_def okF_def)
    fix p assume p: "committedTree g ms data p \<noteq> None" "p \<noteq> []"
    then have np: "\<not> prefix tT p" by (auto simp: committedTree_def without_def)
    then have "\<not> prefix tT (butlast p)" by (rule not_prefix_butlast)
    moreover have "?h (butlast p) = Some DirNode \<and> butlast p \<noteq> [IndexFileName]"
    proof (cases "p = [IndexFileName]")
      case True
      then show ?thesis using h by (simp add: okF_def)
    next
      case False
      then have "?h p \<noteq> None" using p(1) np by (simp add: committedTree_def without_def)
      with okF_parent [OF h this p(2)] nb p(2) show ?thesis by simp
    qed
    ultimately show "committedTree g ms data (butlast p) = Some DirNode"
      by (simp add: committedTree_def without_def)
  qed
qed

lemma reads_back:
  assumes E: "codecOk E" and m: "mapsOk maps" and t: "\<And>m. m \<in> ran (fst maps) \<Longrightarrow> textMeta m"
    and d: "leEncIndex E (metasOf E (fst maps)) = Inr data"
  shows "readIndex E data = Inr maps"
proof -
  have o: "orderOk E" using E by (simp add: codecOk_def)
  have e: "entriesOk (fst maps)" using m by (auto simp: mapsOk_def)
  then have s: "set (metasOf E (fst maps)) = ran (fst maps)" using metasOf_set [OF o] by (simp add: entriesOk_def)
  have "leDecIndex E data = Inr (metasOf E (fst maps))" using E d t by (auto simp: codecOk_def list_all_iff s)
  with entries_metas [OF o e] m show ?thesis by (auto simp: readIndex_exact_core [OF o] entryList_def)
qed

section \<open>Atomic operations\<close>

lemma transaction_view:
  assumes E: "codecOk E" and h: "healthy E s" and c: "settled c (lsDisk s)" "orderly (fst c)"
    and fdef: "f = nodeAt (dkTree (lsDisk s))"
    and stage: "\<And>t. tree_ok t \<Longrightarrow> nodeAt t = f(tT \<mapsto> DirNode) \<Longrightarrow>
      wp c stage (prepared E c f Post) (abortsIn c refused (recOld E (fst c) f)) (stopsIn c (recOld E (fst c) f)) t"
    and enc: "refused \<or> updatesEncode E Post update (lsIds s, lsPaths s)"
    and new: "\<And>x ms g data maps' res'. staged E (fst c) f ms g \<Longrightarrow> okF g \<Longrightarrow> Post x ms g \<Longrightarrow>
      update x (lsIds s, lsPaths s) = (maps', res') \<Longrightarrow>
      res' = res \<and> mapsOk maps' \<and> (\<forall>m \<in> ran (fst maps'). textMeta m) \<and> filesMatch (fst maps') (committedTree g ms data)
        \<and> lsView maps' (committedTree g ms data) = newView"
    and r: "transaction E stage update s = (r, s')"
  shows "atomically E c refused (storeView s) newView res r s'"
proof -
  have o: "orderOk E" using E by (simp add: codecOk_def)
  have st: "storeTree E (lsIds s, lsPaths s) f" "lsFailed s = None" "cleanTree f (dkTree (lsDisk s))"
    using h by (auto simp: healthy_def cleanTree_def fdef)
  have old: "storeView s = lsView (lsIds s, lsPaths s) f" by (simp add: storeView_def fdef)
  from transaction_atomic [OF c(1) st(2,3) storeTreeD(2) [OF st(1)] c(2) storeTreeD(6) [OF st(1)] stage enc r]
  have a: "settled c (lsDisk s')" "keptOld E c refused f s r s' \<or>
    (\<exists>maps' res f'. commits E c f Post update (lsIds s, lsPaths s) maps' res f' \<and> keptNew E c maps' res f' r s')" by auto
  have rm: "dkRemoval (lsDisk s') = fst c" using a(1) by (simp add: settled_def)
  from a(2) show ?thesis
  proof
    assume k: "keptOld E c refused f s r s'"
    have resumes: "recOld E (fst c) f (dkTree (lsDisk s')) \<Longrightarrow> comesBack E {storeView s, newView} (lsDisk s')"
      using c(2) by (intro recoverable_comesBack [OF o st(1)]) (auto simp: rm recoverable_def old)
    have stay: "cleanTree f (dkTree (lsDisk s')) \<Longrightarrow> lsFailed s' = None \<Longrightarrow> lsIds s' = lsIds s \<Longrightarrow> lsPaths s' = lsPaths s \<Longrightarrow>
        healthy E s' \<and> storeView s' = storeView s"
      using storeAt_healthy [OF _ st(1), of s'] by (simp add: storeAt_def old)
    from k a(1) resumes stay show ?thesis
      unfolding keptOld_def atomically_def by (cases r) (auto split: if_splits)
  next
    assume "\<exists>maps' res f'. commits E c f Post update (lsIds s, lsPaths s) maps' res f' \<and> keptNew E c maps' res f' r s'"
    then obtain maps' res' f' where k: "commits E c f Post update (lsIds s, lsPaths s) maps' res' f'" "keptNew E c maps' res' f' r s'"
      by blast
    then obtain x ms g data where g: "staged E (fst c) f ms g" "okF g" "Post x ms g" "update x (lsIds s, lsPaths s) = (maps', res')"
      "leEncIndex E (metasOf E (fst maps')) = Inr data" "f' = committedTree g ms data"
      by (auto simp: commits_def)
    note n = new [OF g(1-4), of data, folded g(6)]
    have gi: "g [IndexFileName] = None \<or> (\<exists>y. g [IndexFileName] = Some (RegNode y))"
      using g(1) storeTreeD(6) [OF st(1)] by (auto simp: staged_def outside_def tT_def)
    have "okF f'" using committed_okF [OF g(2) _ gi, of ms data] g(1) by (simp add: staged_def g(6))
    moreover have "f' [IndexFileName] = Some (RegNode data)" by (simp add: g(6) committedTree_def without_def tT_def)
    moreover have "readIndex E data = Inr maps'" using n by (intro reads_back [OF E _ _ g(5)]) auto
    ultimately have st': "storeTree E maps' f'"
      using n commits_noStaging [OF k(1)] by (auto simp: storeTree_def indexed_def)
    have resumes: "recNew E f' (dkTree (lsDisk s')) \<Longrightarrow> comesBack E {storeView s, newView} (lsDisk s')"
      using c(2) n by (intro recoverable_comesBack [OF o st']) (auto simp: rm recoverable_def)
    have stay: "cleanTree f' (dkTree (lsDisk s')) \<Longrightarrow> lsFailed s' = None \<Longrightarrow> lsIds s' = fst maps' \<Longrightarrow> lsPaths s' = snd maps' \<Longrightarrow>
        healthy E s' \<and> storeView s' = newView"
      using storeAt_healthy [OF _ st', of s'] n by (simp add: storeAt_def)
    from k(2) a(1) resumes stay n show ?thesis
      unfolding keptNew_def atomically_def by (cases r) (auto split: if_splits)
  qed
qed

end
