(* ===== verification/Local_Ops.thy ===== *)
theory Local_Ops
  imports Local_View
begin

text \<open>
  The operations of the local driver that add an entry, \<open>Create\<close> and \<open>Mkdir\<close>: what their stages
  prepare, the tree they commit and the view it gives.
\<close>

section \<open>Indexed paths in a tree\<close>

lemma visible_hd: "visible es \<Longrightarrow> es \<noteq> [] \<Longrightarrow> \<not> prefix ''.vfs'' (hd es)"
  by (cases es) (auto simp: visible_def)

lemma reserved_names: "prefix ''.vfs'' transactionDir" "prefix ''.vfs'' IndexFileName"
  by (simp_all add: transactionDir_def IndexFileName_def)

lemma visible_apart:
  assumes "visible es" and "es \<noteq> []"
  shows "apart es (tx x)" "apart (tx x) es" "untouched es" "\<not> prefix tT es" "es \<noteq> [IndexFileName]" "\<not> prefix es (tx x)"
    "\<not> prefix tT (butlast es)" "es \<noteq> tx x" "tx x \<noteq> es" "[IndexFileName] \<noteq> es" "apart es [IndexFileName]"
proof -
  obtain e rest where e: "es = e # rest" using assms(2) by (cases es) auto
  then have h: "e \<noteq> transactionDir" "e \<noteq> IndexFileName" using visible_hd [OF assms] reserved_names by auto
  then show "apart es (tx x)" "apart (tx x) es" "untouched es" "\<not> prefix tT es" "es \<noteq> [IndexFileName]" "\<not> prefix es (tx x)"
    "es \<noteq> tx x" "tx x \<noteq> es" "[IndexFileName] \<noteq> es" "apart es [IndexFileName]"
    by (auto simp: e apart_def tx_def untouched_def tT_def)
  then show "\<not> prefix tT (butlast es)" using not_prefix_butlast by blast
qed

lemma untouched_tx: "x \<noteq> ''journal'' \<Longrightarrow> x \<noteq> ''index'' \<Longrightarrow> untouched (tx x)"
  by (auto simp: untouched_def apart_def tx_def)

lemma below_none: "okF f \<Longrightarrow> f p = None \<Longrightarrow> f (p @ q) = None"
  by (metis okF_prefix prefixI)

lemma noStaging_tx: "noStaging f \<Longrightarrow> f (tx x) = None" "noStaging f \<Longrightarrow> f tT = None"
  by (simp_all add: noStaging_def)

section \<open>The tree after a new entry\<close>

definition withNew :: "tfun \<Rightarrow> dnode \<Rightarrow> tfun" where
  "withNew f n = f(tT \<mapsto> DirNode, tx ''new'' \<mapsto> n)"

lemma withNew_simps [simp]: "withNew f n tT = Some DirNode" "withNew f n (tx ''new'') = Some n"
  "x \<noteq> ''new'' \<Longrightarrow> withNew f n (tx x) = f (tx x)" "\<not> prefix tT p \<Longrightarrow> withNew f n p = f p"
  by (auto simp: withNew_def)

lemma withNew_staging:
  assumes "noStaging f" and "tree_ok t" and "nodeAt t = withNew f n"
  shows "recOld E ord f t"
  using assms by (intro staging_recOld) (auto simp: outside_def dirOrNone_def noStaging_tx)

lemma withT_staging:
  assumes "noStaging f" and "tree_ok t" and "nodeAt t = f(tT \<mapsto> DirNode)"
  shows "recOld E ord f t"
  using assms by (intro staging_recOld) (auto simp: outside_def dirOrNone_def noStaging_tx)

lemma new_staged:
  assumes f: "noStaging f" "okF f" and es: "visible es" "es \<noteq> []" and free: "f es = None" "f (butlast es) = Some DirNode"
    and codec: "codecOk E" "utf8 (nameOf es)"
  shows "staged E ord f [(tx ''new'', es)] (withNew f n)"
proof -
  note v = visible_apart [OF es]
  have m: "list_all (\<lambda>m. utf8 (dmFrom m) \<and> utf8 (dmTo m)) (movesOf [(tx ''new'', es)])"
    using codec(2) by (simp add: movesOf_def nameOf_tx) code_simp
  have "goodMoves [(tx ''new'', es)]" using goodName_staging visible_good [OF es] by (simp add: goodMoves_def)
  moreover have "freshMove f (tx ''new'', es)" using v free by (auto simp: freshMove_def)
  moreover have "plan_ok (withNew f n) [(tx ''new'', es)]"
    using v free untouched_tx [of "''new''"] by simp
  moreover have "outside f (withNew f n)" by (simp add: outside_def)
  ultimately show ?thesis
    using codec(1) m f by (auto simp: staged_def noStaging_tx codecOk_def)
qed

lemma new_committed:
  assumes f: "noStaging f" "okF f" and es: "visible es" "es \<noteq> []" and free: "f es = None"
  shows "committedTree (withNew f n) [(tx ''new'', es)] data = f(es \<mapsto> n, [IndexFileName] \<mapsto> RegNode data)"
proof
  fix p
  note v = visible_apart [OF es]
  have b: "withNew f n (tx ''new'' @ q) = (if q = [] then Some n else None)" for q
    using f(1) by (auto simp: withNew_def noStaging_def tT_def tx_def)
  show "committedTree (withNew f n) [(tx ''new'', es)] data p = (f(es \<mapsto> n, [IndexFileName] \<mapsto> RegNode data)) p"
  proof (cases "prefix tT p")
    case True
    then have "p \<noteq> es" "p \<noteq> [IndexFileName]" using v(4) by (auto simp: tT_def)
    with True f(1) show ?thesis by (simp add: committedTree_def without_def noStaging_def)
  next
    case np: False
    show ?thesis
    proof (cases "prefix es p")
      case True
      then obtain q where q: "p = es @ q" by (auto simp: prefix_def)
      have "p \<noteq> [IndexFileName]" using True v(11) by (auto simp: apart_def)
      with np q show ?thesis
        using below_none [OF f(2) free] by (simp add: committedTree_def without_def treeRenamed_target b)
    next
      case False
      moreover have "\<not> prefix (tx ''new'') p" using np prefix_order.trans [OF tT_tx(1)] by blast
      ultimately have "treeRenamed (tx ''new'') es (withNew f n) p = f p" using np by (simp add: treeRenamed_outside)
      with np False show ?thesis by (auto simp: committedTree_def without_def)
    qed
  qed
qed

section \<open>The maps after a new entry\<close>

lemma mapsOk_put:
  assumes m: "mapsOk (ids, paths)" and v: "validEntry m" and i: "ids (mID m) = None"
    and e: "entryAt paths (elems m) = None" and p: "checkParent paths (mPath m) = Inr ()"
  shows "mapsOk (ids(mID m \<mapsto> m), paths(mPath m \<mapsto> m))"
proof -
  note k = mapsOkD [OF m] and vs = validEntry_shape [OF v]
  have r: "ran (ids(mID m \<mapsto> m)) = insert m (ran ids)" using i by (simp add: ran_map_upd)
  have u: "m' \<in> ran ids \<Longrightarrow> elems m' \<noteq> elems m" for m'
    using entryAt_Some [OF k(1,3) vs(6,2), of m'] e by auto
  have "entriesOk (ids(mID m \<mapsto> m))"
    using k(1) v u u [symmetric] r by (auto simp: entriesOk_def)
  moreover have "parentsOk (ids(mID m \<mapsto> m))"
    unfolding parentsOk_def r
  proof
    fix m' assume "m' \<in> insert m (ran ids)"
    then show "butlast (elems m') = [] \<or> (\<exists>m'' \<in> insert m (ran ids). mIsDir m'' \<and> elems m'' = butlast (elems m'))"
    proof
      assume "m' = m"
      have pb: "list_all properElem (butlast (elems m))" using vs(6) by (auto simp: list_all_iff dest: in_set_butlastD)
      show ?thesis
      proof (cases "butlast (elems m) = []")
        case False
        with p obtain mp where "entryAt paths (butlast (elems m)) = Some mp" "mIsDir mp"
          by (auto simp: parent_entry [OF v] split: option.splits if_splits)
        with entryAt_Some [OF k(1,3) pb False, of mp] \<open>m' = m\<close> show ?thesis by auto
      qed (simp add: \<open>m' = m\<close>)
    next
      assume "m' \<in> ran ids"
      with k(2) show ?thesis by (auto simp: parentsOk_def)
    qed
  qed
  moreover have "(paths(mPath m \<mapsto> m)) q = Some m' \<longleftrightarrow> m' \<in> insert m (ran ids) \<and> mPath m' = q" for q m'
    using k(3) u [of m'] by auto
  ultimately show ?thesis unfolding mapsOk_def by (simp add: r)
qed

lemma put_tree:
  assumes st: "storeTree E (ids, paths) f" and v: "validEntry m" and free: "ids (mID m) = None" "entryAt paths (elems m) = None"
    and n: "matchesEntry m n" and f': "f' = f(elems m \<mapsto> n, [IndexFileName] \<mapsto> RegNode data)"
  shows "filesMatch (ids(mID m \<mapsto> m)) f'"
    "lsView (ids(mID m \<mapsto> m), paths(mPath m \<mapsto> m)) f' = (lsView (ids, paths) f)(mPath m \<mapsto> (m, case n of RegNode b \<Rightarrow> Some b | DirNode \<Rightarrow> None))"
proof -
  note k = mapsOkD [OF storeTreeD(3) [OF st]] and vs = validEntry_shape [OF v]
  have ni: "elems m' \<noteq> [IndexFileName]" if "validEntry m'" for m'
    using visible_apart(5) [OF validEntry_shape(1,2) [OF that]] .
  have o: "f' (elems m') = f (elems m')" if "m' \<in> ran ids" for m'
  proof -
    have "elems m' \<noteq> elems m" using entryAt_Some [OF k(1,3) vs(6,2), of m'] free(2) that by auto
    with ni [of m'] ran_entry [OF k(1) that] show ?thesis by (simp add: f')
  qed
  have s: "f' (elems m) = Some n" using ni [OF v] by (simp add: f')
  have r: "ran (ids(mID m \<mapsto> m)) = insert m (ran ids)" using free(1) by (simp add: ran_map_upd)
  show "filesMatch (ids(mID m \<mapsto> m)) f'" using storeTreeD(4) [OF st] n o s by (auto simp: filesMatch_def r)
  show "lsView (ids(mID m \<mapsto> m), paths(mPath m \<mapsto> m)) f' = (lsView (ids, paths) f)(mPath m \<mapsto> (m, case n of RegNode b \<Rightarrow> Some b | DirNode \<Rightarrow> None))"
  proof
    fix p
    have "fileAt f' m' = fileAt f m'" if "paths p = Some m'" for m' using o [of m'] k(3) that by (auto simp: fileAt_def)
    moreover have "fileAt f' m = (case n of RegNode b \<Rightarrow> Some b | DirNode \<Rightarrow> None)" by (simp add: fileAt_def s split: dnode.split)
    ultimately show "lsView (ids(mID m \<mapsto> m), paths(mPath m \<mapsto> m)) f' p = ((lsView (ids, paths) f)(mPath m \<mapsto> (m, case n of RegNode b \<Rightarrow> Some b | DirNode \<Rightarrow> None))) p"
      by (cases "paths p") (auto simp: lsView_def)
  qed
qed

section \<open>Stages of a new entry\<close>

lemma wp_absentA:
  assumes "tree_ok t" and "rootPath [] name = Inr p" and "nodeAt t (butlast p) = Some DirNode"
    and "nodeAt t p = None \<Longrightarrow> Q () t" and "\<And>e. nodeAt t p \<noteq> None \<or> snd c \<Longrightarrow> E e t" and "snd c \<Longrightarrow> C t"
  shows "wp c (absentA name) Q E C t"
  unfolding absentA_def
  using assms(2-) missing_in_dir [OF assms(1,3)]
  by (auto intro!: wp_bind wp_lstat wp_raise wp_pure)

lemma wp_stageContent:
  assumes t: "tree_ok t" "nodeAt t = f(tT \<mapsto> DirNode)" and f: "noStaging f" "okF f"
    and q: "\<And>t'. rEnd rd = ErrEOF \<Longrightarrow> tree_ok t' \<Longrightarrow> nodeAt t' = withNew f (RegNode (rData rd)) \<Longrightarrow> Q (int (length (rData rd))) t'"
    and b: "rEnd rd \<noteq> ErrEOF \<Longrightarrow> refused"
  shows "wp c (stageContent [] rd) Q (abortsIn c refused (recOld E (fst c) f)) (stopsIn c (recOld E (fst c) f)) t"
proof -
  let ?P = "recOld E (fst c) f" and ?n = "tx ''new''"
  have "nodeAt t ?n = None" "nodeAt t (butlast ?n) = Some DirNode" using f(1) by (simp_all add: t(2) noStaging_tx tT_def)
  then obtain t1 where a: "treeAdd ?n (RegNode []) t = Inr t1" by (simp add: treeAdd_def)
  have w: "tree_ok (treeWrite ?n bs t1)" "nodeAt (treeWrite ?n bs t1) = withNew f (RegNode bs)" for bs
    using treeWrite_ok [OF treeAdd_ok [OF t(1) a]] treeAdd_Inr [OF a] t(2) by (auto simp: treeWrite_at withNew_def fun_eq_iff)
  have P: "?P (treeWrite ?n bs t1)" for bs by (rule withNew_staging [OF f(1) w])
  have P0: "?P t" using withT_staging [OF f(1) t] .
  have fin: "wp c (syncAndClose e (int (length (rData rd)))) Q (abortsIn c refused ?P) (stopsIn c ?P) t'"
    if "e = None \<Longrightarrow> rEnd rd = ErrEOF \<and> t' = treeWrite ?n (rData rd) t1" "?P t'" "e \<noteq> None \<Longrightarrow> snd c \<or> refused" for e t'
    by (rule wp_syncAndClose) (use that q w in \<open>auto simp: abortsIn_def stopsIn_def\<close>)
  have cp: "wp c (copyTo ?n rd) (\<lambda>e. wp c (syncAndClose e (int (length (rData rd)))) Q (abortsIn c refused ?P) (stopsIn c ?P))
      (abortsIn c refused ?P) (stopsIn c ?P) t1"
    unfolding copyTo_def
    by (intro wp_bind wp_try wp_write faultyI wp_pure fin) (use P b in \<open>auto simp: stopsIn_def split: if_splits\<close>)
  show ?thesis
    unfolding stageContent_def rootCreate_def
    by (intro wp_bind wp_effect faultyI) (use a cp P0 in \<open>auto simp: abortsIn_def stopsIn_def\<close>)
qed

definition encodes :: "ls_env \<Rightarrow> bool" where
  "encodes E \<longleftrightarrow> (\<forall>metas. \<not> isl (leEncIndex E metas)) \<and> (\<forall>moves. \<not> isl (leEncMoves E moves))"

lemma encodes_updates: "encodes E \<Longrightarrow> updatesEncode E Post update maps"
  by (simp add: encodes_def updatesEncode_def)

text \<open>What the stage of a new entry prepares.\<close>

definition newPost :: "tfun \<Rightarrow> string list \<Rightarrow> dnode \<Rightarrow> 'x \<Rightarrow> 'x \<Rightarrow> (dpath \<times> dpath) list \<Rightarrow> tfun \<Rightarrow> bool" where
  "newPost f es n x0 x ms g \<longleftrightarrow> f es = None \<and> x = x0 \<and> ms = [(tx ''new'', es)] \<and> g = withNew f n"

lemma new_prepared:
  assumes f: "noStaging f" "okF f" and es: "visible es" "es \<noteq> []" and free: "f es = None" "f (butlast es) = Some DirNode"
    and codec: "codecOk E" "utf8 (nameOf es)" and t: "tree_ok t" "nodeAt t = withNew f n"
  shows "prepared E c f (newPost f es n x0) ([\<lparr>dmFrom = inTransaction ''new'', dmTo = nameOf es\<rparr>], x0) t"
  unfolding prepared_def
  using new_staged [OF f es free codec] t
  by (intro conjI exI [of _ "[(tx ''new'', es)]"]) (use free(1) in \<open>auto simp: newPost_def movesOf_def nameOf_tx\<close>)

lemma wp_fileStage:
  assumes t: "tree_ok t" "nodeAt t = f(tT \<mapsto> DirNode)" and f: "noStaging f" "okF f" and es: "visible es" "es \<noteq> []"
    and par: "f (butlast es) = Some DirNode" and codec: "codecOk E" "utf8 (nameOf es)"
    and b: "f es \<noteq> None \<or> rEnd rd \<noteq> ErrEOF \<Longrightarrow> refused"
  shows "wp c (fileStage (pathOf es False) rd) (prepared E c f (newPost f es (RegNode (rData rd)) (int (length (rData rd)))))
    (abortsIn c refused (recOld E (fst c) f)) (stopsIn c (recOld E (fst c) f)) t"
proof -
  have P0: "recOld E (fst c) f t" using withT_staging [OF f(1) t] .
  have r: "relative (pathOf es False) = nameOf es" using es by (intro relative_pathOf) (auto simp: visible_def)
  have p: "rootPath [] (nameOf es) = Inr es" using goodName_root [OF visible_good [OF es], of "[]"] by simp
  have e: "nodeAt t es = f es" "nodeAt t (butlast es) = Some DirNode"
    using visible_apart [OF es] par by (auto simp: t(2))
  show ?thesis
    unfolding fileStage_def r
    by (intro wp_bind wp_absentA [OF t(1) p e(2)] wp_stageContent [OF t f] wp_pure new_prepared [OF f es _ par codec])
      (use b P0 e(1) in \<open>auto simp: abortsIn_def stopsIn_def\<close>)
qed

lemma wp_dirStage:
  assumes t: "tree_ok t" "nodeAt t = f(tT \<mapsto> DirNode)" and f: "noStaging f" "okF f" and es: "visible es" "es \<noteq> []"
    and par: "f (butlast es) = Some DirNode" and codec: "codecOk E" "utf8 (nameOf es)"
    and b: "f es \<noteq> None \<Longrightarrow> refused"
  shows "wp c (dirStage (pathOf es True)) (prepared E c f (newPost f es DirNode ()))
    (abortsIn c refused (recOld E (fst c) f)) (stopsIn c (recOld E (fst c) f)) t"
proof -
  have P0: "recOld E (fst c) f t" using withT_staging [OF f(1) t] .
  have r: "relative (pathOf es True) = nameOf es" using es by (intro relative_pathOf) (auto simp: visible_def)
  have p: "rootPath [] (nameOf es) = Inr es" using goodName_root [OF visible_good [OF es], of "[]"] by simp
  have e: "nodeAt t es = f es" "nodeAt t (butlast es) = Some DirNode"
    using visible_apart [OF es] par by (auto simp: t(2))
  have "nodeAt t (tx ''new'') = None" "nodeAt t (butlast (tx ''new'')) = Some DirNode"
    using f(1) by (simp_all add: t(2) noStaging_tx tT_def)
  then obtain t1 where a: "treeAdd (tx ''new'') DirNode t = Inr t1" by (simp add: treeAdd_def)
  have w: "tree_ok t1" "nodeAt t1 = withNew f DirNode"
    using treeAdd_ok [OF t(1) a] treeAdd_Inr [OF a] t(2) by (auto simp: withNew_def)
  have mk: "wp c (rootMkdir [] (inTransaction ''new''))
      (\<lambda>_. wp c (pureA ([\<lparr>dmFrom = inTransaction ''new'', dmTo = nameOf es\<rparr>], ())) (prepared E c f (newPost f es DirNode ()))
        (abortsIn c refused (recOld E (fst c) f)) (stopsIn c (recOld E (fst c) f)))
      (abortsIn c refused (recOld E (fst c) f)) (stopsIn c (recOld E (fst c) f)) t" if "f es = None"
    unfolding rootMkdir_def
    by (intro wp_change faultyI wp_pure new_prepared [OF f es that par codec])
      (use a w P0 in \<open>auto simp: abortsIn_def stopsIn_def\<close>)
  show ?thesis
    unfolding dirStage_def r
    by (intro wp_bind wp_absentA [OF t(1) p e(2)] mk) (use b P0 e(1) in \<open>auto simp: abortsIn_def stopsIn_def\<close>)
qed

section \<open>The operations\<close>

lemma parent_on_disk:
  assumes st: "storeTree E (ids, paths) f" and es: "visible es" "es \<noteq> []" and p: "checkParent paths (pathOf es dir) = Inr ()"
  shows "f (butlast es) = Some DirNode"
proof (cases "butlast es = []")
  case True
  then show ?thesis using storeTreeD(1) [OF st] by (simp add: okF_def)
next
  case False
  have pb: "list_all properElem (butlast es)" using es(1) by (auto simp: visible_def list_all_iff dest: in_set_butlastD)
  from p False obtain m where m: "entryAt paths (butlast es) = Some m" "mIsDir m"
    by (auto simp: checkParent_pathOf [OF es] split: option.splits if_splits)
  note k = mapsOkD [OF storeTreeD(3) [OF st]]
  from m entryAt_Some [OF k(1,3) pb False, of m] have "m \<in> ran ids" "elems m = butlast es" by auto
  then obtain n where "f (butlast es) = Some n" "matchesEntry m n" using storeTreeD(4) [OF st] by (auto simp: filesMatch_def)
  with m(2) show ?thesis by (cases n) (auto simp: matchesEntry_def)
qed

lemma put_atomic:
  assumes E: "codecOk E" and h: "healthy E s" and c: "settled c (lsDisk s)" "orderly (fst c)"
    and fdef: "f = nodeAt (dkTree (lsDisk s))"
    and m: "validEntry m" "textMeta m" "lsIds s (mID m) = None" "entryAt (lsPaths s) (elems m) = None"
      "checkParent (lsPaths s) (mPath m) = Inr ()" "matchesEntry m n"
    and stage: "\<And>t. tree_ok t \<Longrightarrow> nodeAt t = f(tT \<mapsto> DirNode) \<Longrightarrow>
      wp c stage (prepared E c f (newPost f (elems m) n x0)) (abortsIn c refused (recOld E (fst c) f)) (stopsIn c (recOld E (fst c) f)) t"
    and enc: "refused \<or> encodes E" and x: "meta x0 = m"
    and r: "transaction E stage (\<lambda>x. putEntry (meta x)) s = (r, s')"
  shows "atomically E c refused (storeView s)
    ((storeView s)(mPath m \<mapsto> (m, case n of RegNode b \<Rightarrow> Some b | DirNode \<Rightarrow> None))) m r s'"
proof (rule transaction_view [OF E h c fdef, where Post = "newPost f (elems m) n x0"])
  have st: "storeTree E (lsIds s, lsPaths s) f" using h by (simp add: healthy_def fdef)
  have sv: "storeView s = lsView (lsIds s, lsPaths s) f" by (simp add: storeView_def fdef)
  note vs = validEntry_shape [OF m(1)]
  show "refused \<or> updatesEncode E (newPost f (elems m) n x0) (\<lambda>x. putEntry (meta x)) (lsIds s, lsPaths s)"
    using enc encodes_updates by blast
  show "transaction E stage (\<lambda>x. putEntry (meta x)) s = (r, s')" by (rule r)
  fix xx ms g data maps' res'
  assume p: "newPost f (elems m) n x0 xx ms g" and u: "putEntry (meta xx) (lsIds s, lsPaths s) = (maps', res')"
  from p have e: "xx = x0" "ms = [(tx ''new'', elems m)]" "g = withNew f n" "f (elems m) = None" by (auto simp: newPost_def)
  from u have maps': "maps' = ((lsIds s)(mID m \<mapsto> m), (lsPaths s)(mPath m \<mapsto> m))" "res' = m"
    by (auto simp: putEntry_def e(1) x)
  have ct: "committedTree g ms data = f(elems m \<mapsto> n, [IndexFileName] \<mapsto> RegNode data)"
    unfolding e(2,3) by (rule new_committed [OF storeTreeD(2,1) [OF st] vs(1,2) e(4)])
  have "\<forall>m' \<in> ran (fst maps'). textMeta m'"
    using st m(2,3) by (auto simp: maps' ran_map_upd storeTree_def)
  with put_tree [OF st m(1,3,4,6) ct] mapsOk_put [OF storeTreeD(3) [OF st] m(1,3,4,5)] maps'(2)
  show "res' = m \<and> mapsOk maps' \<and> (\<forall>m \<in> ran (fst maps'). textMeta m) \<and> filesMatch (fst maps') (committedTree g ms data)
      \<and> lsView maps' (committedTree g ms data) = (storeView s)(mPath m \<mapsto> (m, case n of RegNode b \<Rightarrow> Some b | DirNode \<Rightarrow> None))"
    by (simp add: maps'(1) sv)
qed (rule stage)

text \<open>What a new entry needs beyond what the operation checks.\<close>

definition newName :: "string \<Rightarrow> bool \<Rightarrow> string \<Rightarrow> bool" where
  "newName v dir p \<longleftrightarrow> storagePath v dir = Inr p \<and> p \<noteq> ''/'' \<and> trimSpace p = p \<and> utf8 p"

lemma newName_shape:
  assumes "newName v dir p"
  shows "visible (elemsOf p)" "elemsOf p \<noteq> []" "p = pathOf (elemsOf p) dir" "utf8 (nameOf (elemsOf p))"
    "storagePath p d = Inr (pathOf (elemsOf p) d)"
proof -
  from assms have a: "storagePath v dir = Inr p" "p \<noteq> ''/''" "trimSpace p = p" "utf8 p" by (auto simp: newName_def)
  from storagePath_shape [OF a(1)] show s: "visible (elemsOf p)" "p = pathOf (elemsOf p) dir" by auto
  show n: "elemsOf p \<noteq> []" using s(2) a(2) by (auto simp: pathOf_def nameOf_def)
  have "utf8 (pathOf (elemsOf p) dir)" using a(4) s(2) by simp
  then show "utf8 (nameOf (elemsOf p))" using n by (auto simp: pathOf_def utf8_snoc_slash split: if_splits)
  show "storagePath p d = Inr (pathOf (elemsOf p) d)"
    using storagePath_pathOf [OF s(1), of dir d] a(3) s(2) by simp
qed

lemma fileEntry_ok:
  assumes n: "newName v False p" and i: "i \<noteq> nilUUID" "0 \<le> sz"
  shows "validEntry (fileEntry i now p sz)" "textMeta (fileEntry i now p sz)"
proof -
  note s = newName_shape [OF n]
  have e: "list_all properElem (elemsOf p)" using s(1) by (simp add: visible_def)
  have "trimSuffix p ''/'' = p" using trimSuffix_pathOf [OF e s(2), of False] s(3) by (simp add: pathOf_def)
  then show "validEntry (fileEntry i now p sz)"
    using i n s(5) [of False] s(3) by (simp add: validEntry_def fileEntry_def newName_def)
  show "textMeta (fileEntry i now p sz)"
    using n by (simp add: textMeta_def fileEntry_def newName_def utf8_basePath utf8_trimPrefix_dot utf8_extPath)
qed

lemma dirEntry_ok:
  assumes n: "newName v True p" and i: "i \<noteq> nilUUID"
  shows "validEntry (dirEntry i now p)" "textMeta (dirEntry i now p)"
proof -
  note s = newName_shape [OF n]
  show "validEntry (dirEntry i now p)"
    using i n s(5) [of True] s(3) by (simp add: validEntry_def dirEntry_def newName_def)
  show "textMeta (dirEntry i now p)"
    using n by (simp add: textMeta_def dirEntry_def newName_def utf8_basePath utf8_trimSuffix_slash)
qed

text \<open>The outcome of adding an entry: refused outright, or atomic.\<close>

definition createOutcome :: "ls_env \<Rightarrow> setting \<Rightarrow> bool \<Rightarrow> lstore \<Rightarrow> string \<Rightarrow> vmeta \<Rightarrow> bytes option \<Rightarrow> vmeta run \<Rightarrow> lstore \<Rightarrow> bool" where
  "createOutcome E c refused s p m content r s' \<longleftrightarrow>
     (if \<not> isl (statPath (lsPaths s) p) then r = Raises ErrAlreadyExists \<and> s' = s
      else case checkParent (lsPaths s) p of
        Inl e \<Rightarrow> r = Raises e \<and> s' = s
      | Inr _ \<Rightarrow> atomically E c refused (storeView s) ((storeView s)(p \<mapsto> (m, content))) m r s')"

lemma newEntry_core:
  assumes E: "codecOk E" and h: "healthy E s" and c: "settled c (lsDisk s)" "orderly (fst c)"
    and n: "newName v dir p" and i: "lsIds s i = None"
    and fdef: "f = nodeAt (dkTree (lsDisk s))" and enc: "refused \<or> encodes E"
    and mk: "mk i p = (stage, meta)" "meta z = m"
    and m: "mPath m = p" "mID m = i" "validEntry m" "textMeta m" "matchesEntry m node"
    and stage: "\<And>t. tree_ok t \<Longrightarrow> nodeAt t = f(tT \<mapsto> DirNode) \<Longrightarrow> f (butlast (elemsOf p)) = Some DirNode \<Longrightarrow> noStaging f \<Longrightarrow> okF f \<Longrightarrow>
      wp c stage (prepared E c f (newPost f (elemsOf p) node z)) (abortsIn c refused (recOld E (fst c) f)) (stopsIn c (recOld E (fst c) f)) t"
    and r: "newEntry mk E i dir v s = (r, s')"
  shows "createOutcome E c refused s p m (case node of RegNode b \<Rightarrow> Some b | DirNode \<Rightarrow> None) r s'"
proof -
  let ?es = "elemsOf p"
  note ns = newName_shape [OF n]
  have st: "storeTree E (lsIds s, lsPaths s) f" using h by (simp add: healthy_def fdef)
  have sp: "statPath (lsPaths s) p = (case entryAt (lsPaths s) ?es of Some m \<Rightarrow> Inr m | None \<Rightarrow> Inl ErrNotFound)"
    using ns(1,3) ns(5) [of False] elemsOf_pathOf [of ?es False] by (simp add: statPath_entryAt visible_def)
  have go: "createOutcome E c refused s p m (case node of RegNode b \<Rightarrow> Some b | DirNode \<Rightarrow> None) r s'"
    if e: "entryAt (lsPaths s) ?es = None" and par: "checkParent (lsPaths s) p = Inr ()"
  proof -
    have tr: "transaction E stage (\<lambda>x. putEntry (meta x)) s = (r, s')"
      using r n e par sp mk by (simp add: newEntry_def newName_def)
    have "atomically E c refused (storeView s)
        ((storeView s)(mPath m \<mapsto> (m, case node of RegNode b \<Rightarrow> Some b | DirNode \<Rightarrow> None))) m r s'"
    proof (rule put_atomic [OF E h c fdef m(3,4), where ?x0.0 = z])
      have "f (butlast ?es) = Some DirNode" using parent_on_disk [OF st ns(1,2), of dir] par ns(3) by simp
      then show "wp c stage (prepared E c f (newPost f (elems m) node z)) (abortsIn c refused (recOld E (fst c) f)) (stopsIn c (recOld E (fst c) f)) t"
        if "tree_ok t" "nodeAt t = f(tT \<mapsto> DirNode)" for t
        using stage [OF that _ storeTreeD(2,1) [OF st]] by (simp add: m(1))
    qed (use e par i tr enc mk m in simp_all)
    then show ?thesis using e par sp by (simp add: createOutcome_def m(1))
  qed
  show ?thesis
  proof (cases "entryAt (lsPaths s) ?es")
    case (Some m)
    then show ?thesis using r n sp by (simp add: newEntry_def newName_def createOutcome_def)
  next
    case None
    then show ?thesis
      using r n sp go by (cases "checkParent (lsPaths s) p") (simp_all add: newEntry_def newName_def createOutcome_def)
  qed
qed

lemma create_core:
  assumes E: "codecOk E" and h: "healthy E s" and c: "settled c (lsDisk s)" "orderly (fst c)"
    and n: "newName v False p" and i: "i \<noteq> nilUUID" "lsIds s i = None"
    and ref: "refused \<longleftrightarrow> nodeAt (dkTree (lsDisk s)) (elemsOf p) \<noteq> None \<or> rEnd rd \<noteq> ErrEOF \<or> \<not> encodes E"
    and r: "local_Create E i now v rd s = (r, s')"
  shows "createOutcome E c refused s p (fileEntry i now p (int (length (rData rd)))) (Some (rData rd)) r s'"
proof -
  define f where "f = nodeAt (dkTree (lsDisk s))"
  note ns = newName_shape [OF n]
  have "lsFailed s = None" using h by (simp add: healthy_def)
  then have r': "newEntry (\<lambda>i p. (fileStage p rd, fileEntry i now p)) E i False v s = (r, s')"
    using r by (simp add: local_Create_def whenOpen_def)
  have "createOutcome E c refused s p (fileEntry i now p (int (length (rData rd))))
      (case RegNode (rData rd) of RegNode b \<Rightarrow> Some b | DirNode \<Rightarrow> None) r s'"
  proof (rule newEntry_core [OF E h c n i(2) f_def _ _ refl _ _ _ _ _ _ r'])
    show "(fileStage p rd, fileEntry i now p) = (fileStage p rd, fileEntry i now p)" ..
    show "validEntry (fileEntry i now p (int (length (rData rd))))" "textMeta (fileEntry i now p (int (length (rData rd))))"
      by (rule fileEntry_ok [OF n i(1)]; simp)+
    fix t assume "tree_ok t" "nodeAt t = f(tT \<mapsto> DirNode)" "f (butlast (elemsOf p)) = Some DirNode" "noStaging f" "okF f"
    then have "wp c (fileStage (pathOf (elemsOf p) False) rd) (prepared E c f (newPost f (elemsOf p) (RegNode (rData rd)) (int (length (rData rd)))))
        (abortsIn c refused (recOld E (fst c) f)) (stopsIn c (recOld E (fst c) f)) t"
      using ref by (intro wp_fileStage [OF _ _ _ _ ns(1,2) _ E ns(4)]) (auto simp: f_def)
    then show "wp c (fileStage p rd) (prepared E c f (newPost f (elemsOf p) (RegNode (rData rd)) (int (length (rData rd)))))
        (abortsIn c refused (recOld E (fst c) f)) (stopsIn c (recOld E (fst c) f)) t"
      using ns(3) by simp
  qed (use ref in \<open>auto simp: fileEntry_def matchesEntry_def\<close>)
  then show ?thesis by simp
qed

lemma mkdir_core:
  assumes E: "codecOk E" and h: "healthy E s" and c: "settled c (lsDisk s)" "orderly (fst c)"
    and n: "newName v True p" and i: "i \<noteq> nilUUID" "lsIds s i = None"
    and ref: "refused \<longleftrightarrow> nodeAt (dkTree (lsDisk s)) (elemsOf p) \<noteq> None \<or> \<not> encodes E"
    and r: "local_Mkdir E i now v s = (r, s')"
  shows "createOutcome E c refused s p (dirEntry i now p) None r s'"
proof -
  define f where "f = nodeAt (dkTree (lsDisk s))"
  note ns = newName_shape [OF n]
  have "lsFailed s = None" using h by (simp add: healthy_def)
  then have r': "newEntry (\<lambda>i p. (dirStage p, \<lambda>_. dirEntry i now p)) E i True v s = (r, s')"
    using r by (simp add: local_Mkdir_def whenOpen_def)
  have "createOutcome E c refused s p (dirEntry i now p) (case DirNode of RegNode b \<Rightarrow> Some b | DirNode \<Rightarrow> None) r s'"
  proof (rule newEntry_core [OF E h c n i(2) f_def _ _ refl _ _ _ _ _ _ r'])
    show "(dirStage p, \<lambda>_ :: unit. dirEntry i now p) = (dirStage p, \<lambda>_. dirEntry i now p)" ..
    show "validEntry (dirEntry i now p)" "textMeta (dirEntry i now p)" by (rule dirEntry_ok [OF n i(1)])+
    fix t assume "tree_ok t" "nodeAt t = f(tT \<mapsto> DirNode)" "f (butlast (elemsOf p)) = Some DirNode" "noStaging f" "okF f"
    then have "wp c (dirStage (pathOf (elemsOf p) True)) (prepared E c f (newPost f (elemsOf p) DirNode ()))
        (abortsIn c refused (recOld E (fst c) f)) (stopsIn c (recOld E (fst c) f)) t"
      using ref by (intro wp_dirStage [OF _ _ _ _ ns(1,2) _ E ns(4)]) (auto simp: f_def)
    then show "wp c (dirStage p) (prepared E c f (newPost f (elemsOf p) DirNode ()))
        (abortsIn c refused (recOld E (fst c) f)) (stopsIn c (recOld E (fst c) f)) t"
      using ns(3) by simp
  qed (use ref in \<open>auto simp: dirEntry_def matchesEntry_def\<close>)
  then show ?thesis by simp
qed

end
