(* ===== verification/Local_Change.thy ===== *)
theory Local_Change
  imports Local_Ops
begin

text \<open>
  The operations of the local driver that change or remove what is there: \<open>Write\<close>,
  \<open>WriteComments\<close> and \<open>Delete\<close>.
\<close>

section \<open>Replacing an entry\<close>

lemma entry_id: "entriesOk ids \<Longrightarrow> ids i = Some m \<Longrightarrow> mID m = i \<and> validEntry m"
  by (simp add: entriesOk_def)

lemma ran_replace: "entriesOk ids \<Longrightarrow> ids i = Some m \<Longrightarrow> ran (ids(i \<mapsto> m')) = insert m' (ran ids - {m})"
proof -
  assume e: "entriesOk ids" "ids i = Some m"
  have id: "j = i" if j: "ids j = Some m" for j
    using entry_id [OF e(1) j] entry_id [OF e] by simp
  have "x \<in> ran ids - {m} \<longleftrightarrow> (\<exists>j. j \<noteq> i \<and> ids j = Some x)" for x
  proof
    assume "x \<in> ran ids - {m}"
    then obtain j where j: "ids j = Some x" "x \<noteq> m" by (auto simp: ran_def)
    then have "j \<noteq> i" using e(2) by (metis option.inject)
    with j(1) show "\<exists>j. j \<noteq> i \<and> ids j = Some x" by blast
  next
    assume "\<exists>j. j \<noteq> i \<and> ids j = Some x"
    then obtain j where j: "j \<noteq> i" "ids j = Some x" by blast
    then have "x \<noteq> m" using id by blast
    with j(2) show "x \<in> ran ids - {m}" by (simp add: ranI)
  qed
  moreover have "ran (ids(i \<mapsto> m')) = insert m' {x. \<exists>j. j \<noteq> i \<and> ids j = Some x}" by (auto simp: ran_def)
  ultimately show ?thesis by blast
qed

lemma mapsOk_replace:
  assumes m: "mapsOk (ids, paths)" and i: "ids i = Some m"
    and m': "validEntry m'" "mID m' = i" "mPath m' = mPath m" "mIsDir m' = mIsDir m"
  shows "mapsOk (ids(i \<mapsto> m'), paths(mPath m \<mapsto> m'))"
proof -
  note k = mapsOkD [OF m]
  have r: "ran (ids(i \<mapsto> m')) = insert m' (ran ids - {m})" by (rule ran_replace [OF k(1) i])
  have mr: "m \<in> ran ids" using i by (auto simp: ran_def)
  have u: "m1 \<in> ran ids \<Longrightarrow> m2 \<in> ran ids \<Longrightarrow> elems m1 = elems m2 \<Longrightarrow> m1 = m2" for m1 m2
    using k(1) by (auto simp: entriesOk_def)
  have "entriesOk (ids(i \<mapsto> m'))"
    using k(1) m' u mr unfolding entriesOk_def r by (auto split: if_splits)
  moreover have "parentsOk (ids(i \<mapsto> m'))"
    unfolding parentsOk_def r
  proof
    fix x assume "x \<in> insert m' (ran ids - {m})"
    then obtain y where y: "y \<in> ran ids" "elems y = elems x" using mr m'(3) by auto
    then have "butlast (elems x) = [] \<or> (\<exists>z \<in> ran ids. mIsDir z \<and> elems z = butlast (elems x))"
      using k(2) by (auto simp: parentsOk_def)
    then show "butlast (elems x) = [] \<or> (\<exists>z \<in> insert m' (ran ids - {m}). mIsDir z \<and> elems z = butlast (elems x))"
      using m'(3,4) by (metis DiffI insertCI singletonD)
  qed
  moreover have "(paths(mPath m \<mapsto> m')) p = Some x \<longleftrightarrow> x \<in> insert m' (ran ids - {m}) \<and> mPath x = p" for p x
  proof -
    have "x \<in> ran ids \<Longrightarrow> mPath x = mPath m \<Longrightarrow> x = m" using u [of x m] mr by simp
    with k(3) m'(3) show ?thesis by auto
  qed
  ultimately show ?thesis unfolding mapsOk_def by (simp add: r)
qed

lemma replace_tree:
  assumes st: "storeTree E (ids, paths) f" and i: "ids i = Some m" and m': "mPath m' = mPath m"
    and n: "f' (elems m) = Some n" "matchesEntry m' n" "\<And>x. x \<in> ran ids \<Longrightarrow> x \<noteq> m \<Longrightarrow> f' (elems x) = f (elems x)"
  shows "filesMatch (ids(i \<mapsto> m')) f'"
    "lsView (ids(i \<mapsto> m'), paths(mPath m \<mapsto> m')) f' = (lsView (ids, paths) f)(mPath m \<mapsto> (m', fileAt f' m'))"
proof -
  note k = mapsOkD [OF storeTreeD(3) [OF st]]
  show "filesMatch (ids(i \<mapsto> m')) f'"
    using storeTreeD(4) [OF st] n m' by (auto simp: filesMatch_def ran_replace [OF k(1) i])
  show "lsView (ids(i \<mapsto> m'), paths(mPath m \<mapsto> m')) f' = (lsView (ids, paths) f)(mPath m \<mapsto> (m', fileAt f' m'))"
  proof
    fix p
    have "fileAt f' x = fileAt f x" if "paths p = Some x" "p \<noteq> mPath m" for x
    proof -
      have "x \<noteq> m" "x \<in> ran ids" using that k(3) by auto
      then show ?thesis using n(3) [of x] by (simp add: fileAt_def)
    qed
    then show "lsView (ids(i \<mapsto> m'), paths(mPath m \<mapsto> m')) f' p = ((lsView (ids, paths) f)(mPath m \<mapsto> (m', fileAt f' m'))) p"
      by (cases "paths p") (auto simp: lsView_def)
  qed
qed

lemma replace_all:
  assumes st: "storeTree E (ids, paths) f" and i: "ids i = Some m"
    and m': "validEntry m'" "textMeta m'" "mID m' = i" "mPath m' = mPath m" "mIsDir m' = mIsDir m"
    and n: "f' (elems m) = Some n" "matchesEntry m' n" "\<And>x. x \<in> ran ids \<Longrightarrow> x \<noteq> m \<Longrightarrow> f' (elems x) = f (elems x)"
    and maps': "maps' = (ids(i \<mapsto> m'), paths(mPath m \<mapsto> m'))"
  shows "mapsOk maps' \<and> (\<forall>x \<in> ran (fst maps'). textMeta x) \<and> filesMatch (fst maps') f'
    \<and> lsView maps' f' = (lsView (ids, paths) f)(mPath m \<mapsto> (m', fileAt f' m'))"
proof (intro conjI)
  note k = mapsOkD [OF storeTreeD(3) [OF st]]
  show "mapsOk maps'" unfolding maps' by (rule mapsOk_replace [OF storeTreeD(3) [OF st] i m'(1,3,4,5)])
  show "\<forall>x \<in> ran (fst maps'). textMeta x"
    using st m'(2) by (auto simp: maps' ran_replace [OF k(1) i] storeTree_def)
  show "filesMatch (fst maps') f'" "lsView maps' f' = (lsView (ids, paths) f)(mPath m \<mapsto> (m', fileAt f' m'))"
    unfolding maps' fst_conv using replace_tree [where f' = f' and n = n, OF st i m'(4) n] by blast+
qed

lemma entry_not_index: "validEntry x \<Longrightarrow> elems x \<noteq> [IndexFileName]"
  using visible_apart(5) [OF validEntry_shape(1,2)] by simp

lemma indexed_elsewhere: "validEntry x \<Longrightarrow> (f([IndexFileName] \<mapsto> n)) (elems x) = f (elems x)"
  by (simp add: entry_not_index)

section \<open>WriteComments\<close>

lemma stay_committed: "noStaging f \<Longrightarrow> committedTree (f(tT \<mapsto> DirNode)) [] data = f([IndexFileName] \<mapsto> RegNode data)"
  by (auto simp: committedTree_def without_def noStaging_def tT_def fun_eq_iff)

lemma stay_staged:
  assumes "noStaging f" and "codecOk E"
  shows "staged E ord f [] (f(tT \<mapsto> DirNode))"
  using assms by (auto simp: staged_def outside_upd noStaging_tx goodMoves_def codecOk_def movesOf_def)

lemma comments_core:
  assumes E: "codecOk E" and h: "healthy E s" and c: "settled c (lsDisk s)" "orderly (fst c)"
    and i: "lsIds s i = Some m" and u: "utf8 comment" and enc: "refused \<longleftrightarrow> \<not> encodes E"
    and r: "local_WriteComments E i comment s = (r, s')"
  shows "atomically E c refused (storeView s)
    ((storeView s)(mPath m \<mapsto> (m\<lparr>mComments := comment\<rparr>, fileAt (nodeAt (dkTree (lsDisk s))) m)))
    (m\<lparr>mComments := comment\<rparr>) r s'"
proof -
  define f where "f = nodeAt (dkTree (lsDisk s))"
  let ?m = "m\<lparr>mComments := comment\<rparr>"
  have st: "storeTree E (lsIds s, lsPaths s) f" and nf: "lsFailed s = None" using h by (auto simp: healthy_def f_def)
  note k = mapsOkD [OF storeTreeD(3) [OF st]]
  have mr: "m \<in> ran (lsIds s)" using i by (auto simp: ran_def)
  have v: "validEntry m" "mID m = i" using k(1) i by (auto simp: entriesOk_def)
  have v': "validEntry ?m" using v(1) by (simp add: validEntry_def split: sum.splits)
  have sv: "storeView s = lsView (lsIds s, lsPaths s) f" by (simp add: storeView_def f_def)
  obtain n where n: "f (elems m) = Some n" "matchesEntry m n" using storeTreeD(4) [OF st] mr by (auto simp: filesMatch_def)
  have tr: "transaction E emptyStage (\<lambda>_ (ids, paths). let m' = m\<lparr>mComments := comment\<rparr>
      in ((ids(i \<mapsto> m'), paths(mPath m \<mapsto> m')), m')) s = (r, s')"
    using r i nf by (simp add: local_WriteComments_def whenOpen_def)
  show ?thesis
    unfolding f_def [symmetric]
  proof (rule transaction_view [OF E h c f_def _ _ _ tr, where Post = "\<lambda>_ ms g. ms = [] \<and> g = f(tT \<mapsto> DirNode)"])
    fix t assume t: "tree_ok t" "nodeAt t = f(tT \<mapsto> DirNode)"
    show "wp c emptyStage (prepared E c f (\<lambda>_ ms g. ms = [] \<and> g = f(tT \<mapsto> DirNode)))
        (abortsIn c refused (recOld E (fst c) f)) (stopsIn c (recOld E (fst c) f)) t"
      unfolding emptyStage_def
      by (rule wp_pure) (use t stay_staged [OF storeTreeD(2) [OF st] E] in \<open>auto simp: prepared_def movesOf_def\<close>)
  next
    fix x :: unit and ms :: "(dpath \<times> dpath) list" and g data maps' res'
    assume p: "ms = [] \<and> g = f(tT \<mapsto> DirNode)"
      and up: "(case (lsIds s, lsPaths s) of (ids, paths) \<Rightarrow> let m' = ?m in ((ids(i \<mapsto> m'), paths(mPath m \<mapsto> m')), m')) = (maps', res')"
    from up have maps': "maps' = ((lsIds s)(i \<mapsto> ?m), (lsPaths s)(mPath m \<mapsto> ?m))" "res' = ?m" by (auto simp: Let_def)
    have ct: "committedTree g ms data = f([IndexFileName] \<mapsto> RegNode data)"
      using p stay_committed [OF storeTreeD(2) [OF st]] by simp
    define f' where "f' = f([IndexFileName] \<mapsto> RegNode data)"
    have at: "f' (elems x) = f (elems x)" if "x \<in> ran (lsIds s)" for x
      unfolding f'_def by (rule indexed_elsewhere) (use ran_entry [OF k(1) that] in simp)
    have fm: "matchesEntry ?m n" using n(2) by (simp add: matchesEntry_def split: dnode.splits)
    have fa: "fileAt f' ?m = fileAt f m" using at [OF mr] by (simp add: fileAt_def)
    have tm: "textMeta ?m" using st u mr by (auto simp: storeTree_def textMeta_def)
    have "mapsOk maps' \<and> (\<forall>x \<in> ran (fst maps'). textMeta x) \<and> filesMatch (fst maps') f'
        \<and> lsView maps' f' = (lsView (lsIds s, lsPaths s) f)(mPath m \<mapsto> (?m, fileAt f' ?m))"
      by (rule replace_all [OF st i v' tm, where n = n]) (use at mr n(1) fm v(2) maps'(1) in simp_all)
    then show "res' = ?m \<and> mapsOk maps' \<and> (\<forall>m \<in> ran (fst maps'). textMeta m) \<and> filesMatch (fst maps') (committedTree g ms data)
        \<and> lsView maps' (committedTree g ms data) = (storeView s)(mPath m \<mapsto> (?m, fileAt f m))"
      using maps'(2) by (simp add: ct sv fa f'_def [symmetric])
  qed (use enc encodes_updates in blast)
qed

section \<open>Write\<close>

definition swapMoves :: "string list \<Rightarrow> (dpath \<times> dpath) list" where
  "swapMoves es = [(es, tx ''old''), (tx ''new'', es)]"

lemma swap_moved:
  assumes f: "noStaging f" "okF f" and es: "visible es" "es \<noteq> []" and old: "f es = Some (RegNode b0)"
  shows "treeRenamed es (tx ''old'') (withNew f (RegNode b)) = (withNew f (RegNode b))(es := None, tx ''old'' \<mapsto> RegNode b0)"
proof
  fix p
  note v = visible_apart [OF es]
  let ?g = "withNew f (RegNode b)"
  have below: "f (es @ q) = None" if "q \<noteq> []" for q
    using okF_file [OF f(2) old, of "es @ q"] that by (auto simp: strict_prefix_def)
  have np: "\<not> prefix tT (es @ q)" for q
    using v(4) es(2) by (cases es) (auto simp: tT_def)
  have g: "?g (es @ q) = (if q = [] then Some (RegNode b0) else None)" for q
    using below old np by simp
  have under: "?g (tx ''old'' @ q) = None" for q
    using f(1) by (auto simp: withNew_def noStaging_def tT_def tx_def)
  show "treeRenamed es (tx ''old'') ?g p = (?g(es := None, tx ''old'' \<mapsto> RegNode b0)) p"
  proof (cases "prefix (tx ''old'') p")
    case True
    then obtain q where q: "p = tx ''old'' @ q" by (auto simp: prefix_def)
    have "p \<noteq> es" using True v(2) [of "''old''"] by (auto simp: apart_def)
    then show ?thesis using under [of q] g [of q] by (simp add: q treeRenamed_target)
  next
    case F: False
    show ?thesis
    proof (cases "prefix es p")
      case True
      then obtain q where "p = es @ q" by (auto simp: prefix_def)
      with F g [of q] v(1) [of "''old''"] show ?thesis
        by (cases "q = []") (auto simp: treeRenamed_source)
    next
      case False
      with F show ?thesis by (auto simp: treeRenamed_outside)
    qed
  qed
qed

lemma swap_final:
  assumes f: "noStaging f" "okF f" and es: "visible es" "es \<noteq> []" and old: "f es = Some (RegNode b0)"
  shows "moved (withNew f (RegNode b)) (swapMoves es) = f(tT \<mapsto> DirNode, tx ''old'' \<mapsto> RegNode b0, es \<mapsto> RegNode b)"
    (is "_ = ?h")
proof
  fix p
  note v = visible_apart [OF es]
  let ?g = "(withNew f (RegNode b))(es := None, tx ''old'' \<mapsto> RegNode b0)"
  have np: "\<not> prefix tT (es @ q)" for q using v(4) es(2) by (cases es) (auto simp: tT_def)
  have below: "f (es @ q) = None" if "q \<noteq> []" for q
    using okF_file [OF f(2) old, of "es @ q"] that by (auto simp: strict_prefix_def)
  have new: "?g (tx ''new'' @ q) = (if q = [] then Some (RegNode b) else None)" for q
    using f(1) v(8,9) np [of "[]"] by (auto simp: withNew_def noStaging_def tT_def tx_def)
  have fn: "f (tx ''new'' @ q) = None" for q using f(1) by (simp add: noStaging_def tT_def tx_def)
  have "treeRenamed (tx ''new'') es ?g p = ?h p"
  proof (cases "prefix es p")
    case True
    then obtain q where q: "p = es @ q" by (auto simp: prefix_def)
    have "p \<noteq> tT" "p \<noteq> tx ''old''" using np [of q] by (auto simp: q)
    then show ?thesis using new [of q] below [of q] by (simp add: q treeRenamed_target)
  next
    case F: False
    show ?thesis
    proof (cases "prefix (tx ''new'') p")
      case True
      then obtain q where q: "p = tx ''new'' @ q" by (auto simp: prefix_def)
      have "p \<noteq> tT" "p \<noteq> tx ''old''" "p \<noteq> es" using F by (auto simp: q tx_def tT_def)
      then show ?thesis using True v(2) fn [of q] by (simp add: treeRenamed_source q)
    next
      case False
      with F have "p \<noteq> es" "p \<noteq> tx ''new''" by auto
      then show ?thesis using False F by (simp add: treeRenamed_outside withNew_def)
    qed
  qed
  then show "moved (withNew f (RegNode b)) (swapMoves es) p = ?h p"
    unfolding swapMoves_def moved_simps swap_moved [OF f es old] .
qed

lemma swap_committed:
  assumes f: "noStaging f" "okF f" and es: "visible es" "es \<noteq> []" and old: "f es = Some (RegNode b0)"
  shows "committedTree (withNew f (RegNode b)) (swapMoves es) data = f(es \<mapsto> RegNode b, [IndexFileName] \<mapsto> RegNode data)"
proof
  fix p
  note v = visible_apart [OF es]
  show "committedTree (withNew f (RegNode b)) (swapMoves es) data p = (f(es \<mapsto> RegNode b, [IndexFileName] \<mapsto> RegNode data)) p"
    unfolding committedTree_def swap_final [OF f es old]
    using f(1) v(4) by (auto simp: without_def noStaging_def tT_def tx_def)
qed

lemma swap_staged:
  assumes f: "noStaging f" "okF f" and es: "visible es" "es \<noteq> []" and old: "f es = Some (RegNode b0)"
    and codec: "codecOk E" "utf8 (nameOf es)" and j: "journalFirst ord"
  shows "staged E ord f (swapMoves es) (withNew f (RegNode b))"
proof -
  note v = visible_apart [OF es]
  have pb: "f (butlast es) = Some DirNode" using okF_parent [OF f(2) _ es(2)] old by simp
  have nb: "butlast es \<noteq> es" using es(2) by (metis append_butlast_last_id not_Cons_self2 self_append_conv)
  have m: "list_all (\<lambda>m. utf8 (dmFrom m) \<and> utf8 (dmTo m)) (movesOf (swapMoves es))"
    using codec(2) by (simp add: movesOf_def nameOf_tx swapMoves_def) code_simp
  have "goodMoves (swapMoves es)" using goodName_staging visible_good [OF es] by (simp add: goodMoves_def swapMoves_def)
  moreover have "plan_ok (withNew f (RegNode b)) (swapMoves es)"
    unfolding swapMoves_def plan_ok.simps swap_moved [OF f es old]
    using v(1,2,3,4,7,8) pb nb old untouched_tx [of "''new''"] untouched_tx [of "''old''"] noStaging_tx [OF f(1)]
    by (auto simp: tT_def [symmetric])
  moreover have "outside f (withNew f (RegNode b))" by (simp add: outside_def)
  ultimately show ?thesis
    using codec(1) m f j by (auto simp: staged_def noStaging_tx codecOk_def)
qed

lemma write_core:
  assumes E: "codecOk E" and h: "healthy E s" and c: "settled c (lsDisk s)" "orderly (fst c)" "journalFirst (fst c)"
    and i: "lsIds s i = Some m" "\<not> mIsDir m"
    and ref: "refused \<longleftrightarrow> rEnd rd \<noteq> ErrEOF \<or> \<not> encodes E"
    and r: "local_Write E now i rd s = (r, s')"
  shows "atomically E c refused (storeView s)
    ((storeView s)(mPath m \<mapsto> (m\<lparr>mSize := int (length (rData rd)), mModified := now\<rparr>, Some (rData rd))))
    (m\<lparr>mSize := int (length (rData rd)), mModified := now\<rparr>) r s'"
proof -
  define f where "f = nodeAt (dkTree (lsDisk s))"
  let ?m = "m\<lparr>mSize := int (length (rData rd)), mModified := now\<rparr>" and ?es = "elems m" and ?b = "RegNode (rData rd)"
  let ?Post = "\<lambda>sz ms g. sz = int (length (rData rd)) \<and> ms = swapMoves ?es \<and> g = withNew f ?b"
  have st: "storeTree E (lsIds s, lsPaths s) f" and nf: "lsFailed s = None" using h by (auto simp: healthy_def f_def)
  note k = mapsOkD [OF storeTreeD(3) [OF st]] and ns = storeTreeD(2,1) [OF st]
  have mr: "m \<in> ran (lsIds s)" using i by (auto simp: ran_def)
  have v: "validEntry m" "mID m = i" using entry_id [OF k(1) i(1)] by auto
  note vs = validEntry_shape [OF v(1)]
  have v': "validEntry ?m" using v(1) by (simp add: validEntry_def split: sum.splits)
  have sv: "storeView s = lsView (lsIds s, lsPaths s) f" by (simp add: storeView_def f_def)
  obtain n where n: "f ?es = Some n" "matchesEntry m n" using storeTreeD(4) [OF st] mr by (auto simp: filesMatch_def)
  then obtain b0 where old: "f ?es = Some (RegNode b0)" using i(2) by (cases n) (auto simp: matchesEntry_def)
  have tm: "textMeta m" using st mr by (auto simp: storeTree_def)
  have un: "utf8 (nameOf ?es)"
    using tm vs(3) i(2) by (simp add: textMeta_def pathOf_def) (metis utf8_slash)
  have tr: "transaction E
            (bindA (stageContent [] rd) (\<lambda>size. pureA
               ([\<lparr>dmFrom = nameOf ?es, dmTo = inTransaction ''old''\<rparr>, \<lparr>dmFrom = inTransaction ''new'', dmTo = nameOf ?es\<rparr>], size)))
            (\<lambda>size (ids, paths). let m = m\<lparr>mSize := size, mModified := now\<rparr>
               in ((ids(i \<mapsto> m), paths(mPath m \<mapsto> m)), m)) s = (r, s')"
    using r i nf by (simp add: local_Write_def whenOpen_def relative_entry [OF v(1)] Let_def)
  show ?thesis
  proof (rule transaction_view [OF E h c(1,2) f_def _ _ _ tr, where Post = ?Post])
    fix t assume t: "tree_ok t" "nodeAt t = f(tT \<mapsto> DirNode)"
    show "wp c (bindA (stageContent [] rd) (\<lambda>size. pureA
               ([\<lparr>dmFrom = nameOf ?es, dmTo = inTransaction ''old''\<rparr>, \<lparr>dmFrom = inTransaction ''new'', dmTo = nameOf ?es\<rparr>], size)))
        (prepared E c f ?Post) (abortsIn c refused (recOld E (fst c) f)) (stopsIn c (recOld E (fst c) f)) t"
      by (intro wp_bind wp_stageContent [OF t ns] wp_pure)
        (use ref swap_staged [OF ns vs(1,2) old E un c(3)] in \<open>auto simp: prepared_def movesOf_def swapMoves_def nameOf_tx\<close>)
  next
    fix x :: int and ms g data maps' res'
    assume p: "x = int (length (rData rd)) \<and> ms = swapMoves ?es \<and> g = withNew f ?b"
      and up: "(case (lsIds s, lsPaths s) of (ids, paths) \<Rightarrow> let m = m\<lparr>mSize := x, mModified := now\<rparr>
        in ((ids(i \<mapsto> m), paths(mPath m \<mapsto> m)), m)) = (maps', res')"
    from up p have maps': "maps' = ((lsIds s)(i \<mapsto> ?m), (lsPaths s)(mPath m \<mapsto> ?m))" "res' = ?m" by (auto simp: Let_def)
    define f' where "f' = f(?es \<mapsto> ?b, [IndexFileName] \<mapsto> RegNode data)"
    have ct: "committedTree g ms data = f'"
      using p swap_committed [OF ns vs(1,2) old] by (simp add: f'_def)
    have at: "f' (elems x) = f (elems x)" if "x \<in> ran (lsIds s)" "x \<noteq> m" for x
    proof -
      have "elems x \<noteq> ?es" using k(1) that mr by (auto simp: entriesOk_def)
      then show ?thesis using entry_not_index [of x] ran_entry [OF k(1) that(1)] by (simp add: f'_def)
    qed
    have s: "f' ?es = Some ?b" using entry_not_index [OF v(1)] by (simp add: f'_def)
    have fm: "matchesEntry ?m ?b" using i(2) by (simp add: matchesEntry_def)
    have fa: "fileAt f' ?m = Some (rData rd)" using s by (simp add: fileAt_def)
    have tm': "textMeta ?m" using tm by (simp add: textMeta_def)
    have "mapsOk maps' \<and> (\<forall>x \<in> ran (fst maps'). textMeta x) \<and> filesMatch (fst maps') f'
        \<and> lsView maps' f' = (lsView (lsIds s, lsPaths s) f)(mPath m \<mapsto> (?m, fileAt f' ?m))"
      by (rule replace_all [OF st i(1) v' tm', where n = ?b]) (use at s fm v(2) maps'(1) in simp_all)
    then show "res' = ?m \<and> mapsOk maps' \<and> (\<forall>m \<in> ran (fst maps'). textMeta m) \<and> filesMatch (fst maps') (committedTree g ms data)
        \<and> lsView maps' (committedTree g ms data) = (storeView s)(mPath m \<mapsto> (?m, Some (rData rd)))"
      using maps'(2) by (simp add: ct sv fa)
  qed (use ref encodes_updates in blast)
qed

section \<open>Delete\<close>

text \<open>The entries that go with one: those it is a prefix of, element by element.\<close>

lemma prefix_pathOf:
  assumes "list_all properElem es" and "list_all properElem es'" and "es \<noteq> []" and "es' \<noteq> es"
  shows "prefix (pathOf es True) (pathOf es' d) \<longleftrightarrow> prefix es es'"
proof
  assume "prefix (pathOf es True) (pathOf es' d)"
  then obtain r where "pathOf es' d = slash # nameOf es @ slash # r" using assms(3) by (auto simp: pathOf_def prefix_def)
  then have "elemsOf (pathOf es' d) = elemsOf (nameOf es) @ elemsOf r" by simp
  then show "prefix es es'" using elemsOf_pathOf [OF assms(2)] elemsOf_join [OF assms(1)] by (simp add: nameOf_def)
next
  assume "prefix es es'"
  then obtain q where q: "es' = es @ q" "q \<noteq> []" using assms(4) by (auto simp: prefix_def)
  then have "nameOf es' = nameOf es @ slash # nameOf q" using joinWith_append [of es q "[slash]"] assms(3) by (simp add: nameOf_def)
  then show "prefix (pathOf es True) (pathOf es' d)" using assms(3) by (auto simp: pathOf_def)
qed

lemma belongsTo_prefix:
  assumes st: "storeTree E (ids, paths) f" and m: "ids i = Some m" and x: "ids j = Some x"
  shows "belongsTo m j x \<longleftrightarrow> prefix (elems m) (elems x)"
proof -
  note k = mapsOkD [OF storeTreeD(3) [OF st]]
  note vm = entry_id [OF k(1) m] and vx = entry_id [OF k(1) x]
  note sm = validEntry_shape [OF conjunct2 [OF vm]] and sx = validEntry_shape [OF conjunct2 [OF vx]]
  have r: "m \<in> ran ids" "x \<in> ran ids" using m x by (auto simp: ran_def)
  have same: "elems x = elems m \<longleftrightarrow> j = i"
    using k(1) r m x vm vx by (metis (no_types, lifting) entriesOk_def option.inject)
  show ?thesis
  proof (cases "j = i")
    case True
    then show ?thesis using same vm by (simp add: belongsTo_def)
  next
    case False
    then have ne: "elems x \<noteq> elems m" using same by simp
    show ?thesis
    proof (cases "mIsDir m")
      case True
      then show ?thesis
        using prefix_pathOf [OF sm(6) sx(6) sm(2) ne, of "mIsDir x"] sm(3) sx(3) False vm by (simp add: belongsTo_def)
    next
      case reg: False
      obtain n where "f (elems m) = Some n" "matchesEntry m n" using storeTreeD(4) [OF st] r(1) by (auto simp: filesMatch_def)
      then obtain b where b: "f (elems m) = Some (RegNode b)" using reg by (cases n) (auto simp: matchesEntry_def)
      have "f (elems x) \<noteq> None" using storeTreeD(4) [OF st] r(2) by (auto simp: filesMatch_def)
      then have "\<not> strict_prefix (elems m) (elems x)" using okF_file [OF storeTreeD(1) [OF st] b] by auto
      then show ?thesis using reg False vm ne by (auto simp: belongsTo_def strict_prefix_def)
    qed
  qed
qed

lemma dropEntries_fold:
  assumes "distinct is"
  shows "foldl (\<lambda>(ids, paths) uid. case ids uid of None \<Rightarrow> (ids, paths)
         | Some x \<Rightarrow> if belongsTo m uid x then (ids(uid := None), paths(mPath x := None)) else (ids, paths)) (ids, paths) is
    = (\<lambda>j. if j \<in> set is \<and> (\<exists>x. ids j = Some x \<and> belongsTo m j x) then None else ids j,
       \<lambda>p. if \<exists>j \<in> set is. \<exists>x. ids j = Some x \<and> belongsTo m j x \<and> mPath x = p then None else paths p)"
  using assms
proof (induction "is" rule: rev_induct)
  case (snoc j js)
  then have j: "j \<notin> set js" and IH: "foldl (\<lambda>(ids, paths) uid. case ids uid of None \<Rightarrow> (ids, paths)
         | Some x \<Rightarrow> if belongsTo m uid x then (ids(uid := None), paths(mPath x := None)) else (ids, paths)) (ids, paths) js
    = (\<lambda>j. if j \<in> set js \<and> (\<exists>x. ids j = Some x \<and> belongsTo m j x) then None else ids j,
       \<lambda>p. if \<exists>j \<in> set js. \<exists>x. ids j = Some x \<and> belongsTo m j x \<and> mPath x = p then None else paths p)"
    by auto
  show ?case
    unfolding foldl_append IH using j by (cases "ids j") (auto simp: fun_eq_iff)
qed simp

lemma dropEntries_spec:
  assumes E: "orderOk E" and m: "mapsOk (ids, paths)"
  shows "dropEntries E m0 (ids, paths) =
    (\<lambda>j. if \<exists>x. ids j = Some x \<and> belongsTo m0 j x then None else ids j,
     \<lambda>p. if \<exists>j x. ids j = Some x \<and> belongsTo m0 j x \<and> mPath x = p then None else paths p)"
proof -
  have fin: "finite (dom ids)" using mapsOkD(1) [OF m] by (simp add: entriesOk_def)
  then have o: "distinct (leOrder E ids)" "set (leOrder E ids) = dom ids" using E by (auto simp: orderOk_def)
  have d: "j \<in> dom ids \<and> (\<exists>x. ids j = Some x \<and> belongsTo m0 j x) \<longleftrightarrow> (\<exists>x. ids j = Some x \<and> belongsTo m0 j x)" for j
    by blast
  have e: "(\<exists>j \<in> dom ids. \<exists>x. ids j = Some x \<and> belongsTo m0 j x \<and> mPath x = p)
      \<longleftrightarrow> (\<exists>j x. ids j = Some x \<and> belongsTo m0 j x \<and> mPath x = p)" for p
    by blast
  show ?thesis
    unfolding dropEntries_def fst_conv dropEntries_fold [OF o(1)] o(2) d e ..
qed

definition cutTree :: "string list \<Rightarrow> tfun \<Rightarrow> tfun" where
  "cutTree es f p = (if prefix es p then None else f p)"

lemma drop_maps:
  assumes E: "orderOk E" and st: "storeTree E (ids, paths) f" and i: "ids i = Some m"
    and maps': "dropEntries E m (ids, paths) = (ids', paths')"
  shows "ran ids' = {x \<in> ran ids. \<not> prefix (elems m) (elems x)}" "mapsOk (ids', paths')"
    "ids' \<subseteq>\<^sub>m ids"
    "\<And>p. paths' p = (case paths p of None \<Rightarrow> None | Some x \<Rightarrow> if prefix (elems m) (elems x) then None else Some x)"
proof -
  note k = mapsOkD [OF storeTreeD(3) [OF st]]
  from maps' dropEntries_spec [OF E storeTreeD(3) [OF st], of m]
  have i': "ids' = (\<lambda>j. if \<exists>x. ids j = Some x \<and> belongsTo m j x then None else ids j)"
    and p': "paths' = (\<lambda>p. if \<exists>j x. ids j = Some x \<and> belongsTo m j x \<and> mPath x = p then None else paths p)" by auto
  have b: "ids j = Some x \<Longrightarrow> belongsTo m j x \<longleftrightarrow> prefix (elems m) (elems x)" for j x
    by (rule belongsTo_prefix [OF st i])
  have ids': "ids' j = (case ids j of None \<Rightarrow> None | Some x \<Rightarrow> if prefix (elems m) (elems x) then None else Some x)" for j
    using b by (auto simp: i' split: option.split)
  show r: "ran ids' = {x \<in> ran ids. \<not> prefix (elems m) (elems x)}"
    by (auto simp: ran_def ids' split: option.splits if_splits)
  show s: "ids' \<subseteq>\<^sub>m ids" by (auto simp: map_le_def ids' dom_def split: option.splits if_splits)
  show paths': "paths' p = (case paths p of None \<Rightarrow> None | Some x \<Rightarrow> if prefix (elems m) (elems x) then None else Some x)" for p
  proof (cases "paths p")
    case (Some x)
    then have x: "x \<in> ran ids" "mPath x = p" using k(3) by auto
    have "(\<exists>j y. ids j = Some y \<and> belongsTo m j y \<and> mPath y = p) \<longleftrightarrow> prefix (elems m) (elems x)"
    proof
      assume "\<exists>j y. ids j = Some y \<and> belongsTo m j y \<and> mPath y = p"
      then obtain j y where y: "ids j = Some y" "belongsTo m j y" "mPath y = p" by blast
      then show "prefix (elems m) (elems x)" using b [OF y(1)] x(2) by simp
    next
      assume "prefix (elems m) (elems x)"
      then show "\<exists>j y. ids j = Some y \<and> belongsTo m j y \<and> mPath y = p"
        using ran_entry [OF k(1) x(1)] b x(2) by blast
    qed
    with Some show ?thesis by (simp add: p')
  qed (simp add: p')
  have "finite (dom ids')" using s k(1) by (auto simp: entriesOk_def intro: finite_subset [OF map_le_implies_dom_le])
  then have e: "entriesOk ids'" using k(1) s r
    unfolding entriesOk_def map_le_def by (metis (no_types, lifting) domI mem_Collect_eq)
  have "parentsOk ids'" unfolding parentsOk_def r
  proof
    fix x assume x: "x \<in> {x \<in> ran ids. \<not> prefix (elems m) (elems x)}"
    then have "butlast (elems x) = [] \<or> (\<exists>z \<in> ran ids. mIsDir z \<and> elems z = butlast (elems x))"
      using k(2) by (auto simp: parentsOk_def)
    moreover have "\<not> prefix (elems m) (butlast (elems x))" using x not_prefix_butlast by auto
    ultimately show "butlast (elems x) = [] \<or> (\<exists>z \<in> {x \<in> ran ids. \<not> prefix (elems m) (elems x)}. mIsDir z \<and> elems z = butlast (elems x))"
      by force
  qed
  moreover have "paths' p = Some x \<longleftrightarrow> x \<in> ran ids' \<and> mPath x = p" for p x
    using k(3) [of p x] unfolding paths' r by (auto split: option.split)
  ultimately show "mapsOk (ids', paths')" using e by (simp add: mapsOk_def)
qed

lemma cut_committed:
  assumes f: "noStaging f" "okF f" and es: "visible es" "es \<noteq> []"
  shows "committedTree (f(tT \<mapsto> DirNode)) [(es, tx ''old'')] data = (cutTree es f)([IndexFileName] \<mapsto> RegNode data)"
proof
  fix p
  note v = visible_apart [OF es]
  show "committedTree (f(tT \<mapsto> DirNode)) [(es, tx ''old'')] data p = ((cutTree es f)([IndexFileName] \<mapsto> RegNode data)) p"
  proof (cases "prefix tT p")
    case True
    then have "p \<noteq> [IndexFileName]" by (auto simp: tT_def)
    with True f(1) show ?thesis by (auto simp: committedTree_def without_def noStaging_def cutTree_def)
  next
    case False
    then have "\<not> prefix (tx ''old'') p" "p \<noteq> tT" using prefix_order.trans [OF tT_tx(1)] by auto
    with False v show ?thesis
      by (auto simp: committedTree_def without_def cutTree_def treeRenamed_def)
  qed
qed

lemma cut_staged:
  assumes f: "noStaging f" "okF f" and es: "visible es" "es \<noteq> []" and there: "f es \<noteq> None"
    and codec: "codecOk E" "utf8 (nameOf es)"
  shows "staged E ord f [(es, tx ''old'')] (f(tT \<mapsto> DirNode))"
proof -
  note v = visible_apart [OF es]
  have m: "list_all (\<lambda>m. utf8 (dmFrom m) \<and> utf8 (dmTo m)) (movesOf [(es, tx ''old'')])"
    using codec(2) by (simp add: movesOf_def nameOf_tx) code_simp
  have "goodMoves [(es, tx ''old'')]" using goodName_staging visible_good [OF es] by (simp add: goodMoves_def)
  moreover have "freshMove f (es, tx ''old'')" using v there by (simp add: freshMove_def)
  moreover have "plan_ok (f(tT \<mapsto> DirNode)) [(es, tx ''old'')]"
    using v there untouched_tx [of "''old''"] noStaging_tx [OF f(1)] by (auto simp: tT_def)
  ultimately show ?thesis
    using codec(1) m f by (auto simp: staged_def noStaging_tx codecOk_def outside_upd)
qed

text \<open>A view without an entry and what is below it.\<close>

definition removedAt :: "vmeta \<Rightarrow> ls_view \<Rightarrow> ls_view" where
  "removedAt m view p = (if p = mPath m \<or> mIsDir m \<and> prefix (mPath m) p then None else view p)"

lemma delete_core:
  assumes E: "codecOk E" and h: "healthy E s" and c: "settled c (lsDisk s)" "orderly (fst c)"
    and i: "lsIds s i = Some m" and ref: "refused \<longleftrightarrow> \<not> encodes E"
    and r: "local_Delete E i s = (r, s')"
  shows "atomically E c refused (storeView s) (removedAt m (storeView s)) () r s'"
proof -
  define f where "f = nodeAt (dkTree (lsDisk s))"
  let ?es = "elems m" and ?Post = "\<lambda>_ ms g. ms = [(elems m, tx ''old'')] \<and> g = f(tT \<mapsto> DirNode)"
  have o: "orderOk E" using E by (simp add: codecOk_def)
  have st: "storeTree E (lsIds s, lsPaths s) f" and nf: "lsFailed s = None" using h by (auto simp: healthy_def f_def)
  note k = mapsOkD [OF storeTreeD(3) [OF st]] and ns = storeTreeD(2,1) [OF st]
  have mr: "m \<in> ran (lsIds s)" using i by (auto simp: ran_def)
  have v: "validEntry m" "mID m = i" using entry_id [OF k(1) i] by auto
  note vs = validEntry_shape [OF v(1)]
  have sv: "storeView s = lsView (lsIds s, lsPaths s) f" by (simp add: storeView_def f_def)
  have there: "f ?es \<noteq> None" using storeTreeD(4) [OF st] mr by (auto simp: filesMatch_def)
  have "utf8 (mPath m)" using st mr by (auto simp: storeTree_def textMeta_def)
  then have "utf8 (pathOf ?es (mIsDir m))" using vs(3) by simp
  then have un: "utf8 (nameOf ?es)" by (auto simp: pathOf_def utf8_snoc_slash split: if_splits)
  have mi: "m\<lparr>mID := i\<rparr> = m" using v(2) by simp
  have tr: "transaction E (pureA ([\<lparr>dmFrom = nameOf ?es, dmTo = inTransaction ''old''\<rparr>], ()))
      (\<lambda>_ maps. (dropEntries E m maps, ())) s = (r, s')"
    using r i nf by (simp add: local_Delete_def whenOpen_def relative_entry [OF v(1)] mi)
  show ?thesis
  proof (rule transaction_view [OF E h c f_def _ _ _ tr, where Post = ?Post])
    fix t assume t: "tree_ok t" "nodeAt t = f(tT \<mapsto> DirNode)"
    show "wp c (pureA ([\<lparr>dmFrom = nameOf ?es, dmTo = inTransaction ''old''\<rparr>], ())) (prepared E c f ?Post)
        (abortsIn c refused (recOld E (fst c) f)) (stopsIn c (recOld E (fst c) f)) t"
      by (rule wp_pure) (use t cut_staged [OF ns vs(1,2) there E un] in \<open>auto simp: prepared_def movesOf_def nameOf_tx\<close>)
  next
    fix x :: unit and ms g data maps' and res' :: unit
    assume p: "ms = [(elems m, tx ''old'')] \<and> g = f(tT \<mapsto> DirNode)" and up: "(dropEntries E m (lsIds s, lsPaths s), ()) = (maps', res')"
    obtain ids' paths' where maps': "maps' = (ids', paths')" by fastforce
    then have dr: "dropEntries E m (lsIds s, lsPaths s) = (ids', paths')" using up by simp
    note d = drop_maps [OF o st i dr]
    define f' where "f' = (cutTree ?es f)([IndexFileName] \<mapsto> RegNode data)"
    have ct: "committedTree g ms data = f'" using p cut_committed [OF ns vs(1,2)] by (simp add: f'_def)
    have at: "f' (elems x) = f (elems x)" if "x \<in> ran (lsIds s)" "\<not> prefix ?es (elems x)" for x
      using that entry_not_index ran_entry [OF k(1) that(1)] by (simp add: f'_def cutTree_def)
    have fm: "filesMatch ids' f'" using storeTreeD(4) [OF st] at by (auto simp: filesMatch_def d(1))
    have tx: "\<forall>x \<in> ran ids'. textMeta x" using st by (auto simp: d(1) storeTree_def)
    have "lsView maps' f' = removedAt m (storeView s)"
    proof
      fix p
      show "lsView maps' f' p = removedAt m (storeView s) p"
      proof (cases "lsPaths s p")
        case None
        then show ?thesis by (simp add: lsView_def maps' d(4) removedAt_def sv)
      next
        case (Some x)
        then have x: "x \<in> ran (lsIds s)" "mPath x = p" using k(3) by auto
        have xi: "lsIds s (mID x) = Some x" using ran_entry [OF k(1) x(1)] by simp
        have "p = mPath m \<longleftrightarrow> mID x = mID m"
        proof
          assume "p = mPath m"
          with entries_path_eq [OF k(1) x(1) mr] x(2) show "mID x = mID m" by simp
        next
          assume "mID x = mID m"
          then have "lsIds s (mID x) = Some m" using i v(2) by simp
          with xi have "x = m" by (metis option.inject)
          with x(2) show "p = mPath m" by simp
        qed
        then have "p = mPath m \<or> mIsDir m \<and> prefix (mPath m) p \<longleftrightarrow> prefix ?es (elems x)"
          using belongsTo_prefix [OF st i xi] x(2) by (simp add: belongsTo_def)
        moreover have "\<not> prefix ?es (elems x) \<Longrightarrow> fileAt f' x = fileAt f x" using at [OF x(1)] by (simp add: fileAt_def)
        ultimately show ?thesis using Some by (simp add: lsView_def maps' d(4) removedAt_def sv)
      qed
    qed
    then show "res' = () \<and> mapsOk maps' \<and> (\<forall>m \<in> ran (fst maps'). textMeta m) \<and> filesMatch (fst maps') (committedTree g ms data)
        \<and> lsView maps' (committedTree g ms data) = removedAt m (storeView s)"
      using d(2) fm tx by (simp add: ct maps')
  qed (use ref encodes_updates in blast)
qed

end
