(* ===== verification/Local_Mem.thy ===== *)
theory Local_Mem
  imports Local_Change
begin

text \<open>
  An instance of what the local driver is given: an encoding of the index and of the journal, the
  order of a loop over a map, and an order of removals; and the drive it starts with. The driver's
  properties are applied to them.
\<close>

section \<open>An encoding\<close>

fun putText :: "string \<Rightarrow> bytes" where
  "putText [] = ''0''"
| "putText (c # s) = CHR ''1'' # c # putText s"

fun getText :: "bytes \<Rightarrow> string \<times> bytes" where
  "getText (b # bs) = (if b = CHR ''0'' then ([], bs) else case bs of [] \<Rightarrow> ([], [])
     | c # rest \<Rightarrow> (case getText rest of (s, r) \<Rightarrow> (c # s, r)))"
| "getText [] = ([], [])"

lemma getText_putText: "getText (putText s @ r) = (s, r)"
  by (induction s) auto

lemma getText_shorter: "bs \<noteq> [] \<Longrightarrow> length (snd (getText bs)) < length bs"
  by (induction bs rule: getText.induct) (auto split: list.splits prod.splits, fastforce)

fun putTexts :: "string list \<Rightarrow> bytes" where
  "putTexts [] = []"
| "putTexts (s # ss) = putText s @ putTexts ss"

function getTexts :: "bytes \<Rightarrow> string list" where
  "getTexts bs = (if bs = [] then [] else case getText bs of (s, r) \<Rightarrow> s # getTexts r)"
  by pat_completeness auto
termination
  by (relation "measure length") (auto dest: getText_shorter split: prod.splits, metis getText_shorter snd_conv)

declare getTexts.simps [simp del]

lemma getTexts_putTexts: "getTexts (putTexts ss) = ss"
proof (induction ss)
  case (Cons s ss)
  have "putText s \<noteq> []" by (cases s) auto
  then show ?case using Cons getText_putText [of s "putTexts ss"] by (subst getTexts.simps) simp
qed (simp add: getTexts.simps)

definition intText :: "int \<Rightarrow> string" where
  "intText x = (if x < 0 then CHR ''-'' else CHR ''+'') # replicate (nat \<bar>x\<bar>) CHR ''1''"

definition textInt :: "string \<Rightarrow> int" where
  "textInt s = (if hd s = CHR ''-'' then - int (length (tl s)) else int (length (tl s)))"

lemma textInt_intText [simp]: "textInt (intText x) = x"
  by (simp add: textInt_def intText_def)

definition metaTexts :: "vmeta \<Rightarrow> string list" where
  "metaTexts m = [idBytes (mID m), mPath m, mName m, mExtension m, intText (mSize m),
     if mIsDir m then ''t'' else ''f'', intText (mModified m), mComments m]"

fun textsMetas :: "string list \<Rightarrow> vmeta list" where
  "textsMetas (i # p # n # e # z # d # t # c # rest) =
     \<lparr>mID = idOfBytes i, mPath = p, mName = n, mExtension = e, mSize = textInt z, mIsDir = (d = ''t''),
       mModified = textInt t, mComments = c\<rparr> # textsMetas rest"
| "textsMetas _ = []"

lemma textsMetas_metaTexts: "textsMetas (concat (map metaTexts ms)) = ms"
  by (induction ms) (simp_all add: metaTexts_def)

fun textsMoves :: "string list \<Rightarrow> diskMove list" where
  "textsMoves (a # b # rest) = \<lparr>dmFrom = a, dmTo = b\<rparr> # textsMoves rest"
| "textsMoves _ = []"

lemma textsMoves_moves: "textsMoves (concat (map (\<lambda>m. [dmFrom m, dmTo m]) ms)) = ms"
  by (induction ms) simp_all

definition mem_le :: ls_env where
  "mem_le = \<lparr>leEncIndex = \<lambda>ms. Inr (putTexts (concat (map metaTexts ms))),
     leDecIndex = \<lambda>b. Inr (textsMetas (getTexts b)),
     leEncMoves = \<lambda>ms. Inr (putTexts (concat (map (\<lambda>m. [dmFrom m, dmTo m]) ms))),
     leDecMoves = \<lambda>b. Inr (textsMoves (getTexts b)),
     leOrder = \<lambda>ids. sorted_list_of_set (dom ids), lePaths = \<lambda>paths. []\<rparr>"

lemma mem_le_simps [simp]:
  "leEncIndex mem_le ms = Inr (putTexts (concat (map metaTexts ms)))"
  "leDecIndex mem_le b = Inr (textsMetas (getTexts b))"
  "leEncMoves mem_le mv = Inr (putTexts (concat (map (\<lambda>m. [dmFrom m, dmTo m]) mv)))"
  "leDecMoves mem_le b = Inr (textsMoves (getTexts b))"
  "leOrder mem_le ids = sorted_list_of_set (dom ids)"
  by (simp_all add: mem_le_def)

lemma mem_le_codec: "codecOk mem_le"
  by (auto simp: codecOk_def orderOk_def getTexts_putTexts textsMetas_metaTexts textsMoves_moves)

lemma mem_encodes: "encodes mem_le"
  by (simp add: encodes_def)

section \<open>An order of removals\<close>

definition journalOrder :: "dpath list \<Rightarrow> dpath list" where
  "journalOrder ps = (let j = tx ''journal''; rest = rev (sort_key length (filter (\<lambda>p. p \<noteq> j) ps)) in
     if j \<in> set ps \<and> list_all (\<lambda>q. \<not> strict_prefix j q) ps then j # rest else rev (sort_key length ps))"

lemma journalOrder_orderly: "orderly journalOrder"
  unfolding orderly_def
proof (intro allI impI conjI)
  fix ps :: "dpath list" assume d: "distinct ps"
  show "set (journalOrder ps) = set ps" "distinct (journalOrder ps)"
    using d by (auto simp: journalOrder_def Let_def)
  fix xs q ys assume o: "journalOrder ps = xs @ q # ys"
  show "\<forall>q' \<in> set ys. \<not> strict_prefix q q'"
  proof
    fix q' assume q': "q' \<in> set ys"
    show "\<not> strict_prefix q q'"
    proof (cases "tx ''journal'' \<in> set ps \<and> list_all (\<lambda>q. \<not> strict_prefix (tx ''journal'') q) ps")
      case True
      then have e: "tx ''journal'' # rev (sort_key length (filter (\<lambda>p. p \<noteq> tx ''journal'') ps)) = xs @ q # ys"
        using o by (simp add: journalOrder_def Let_def)
      show ?thesis
      proof (cases xs)
        case Nil
        then have "q = tx ''journal''" "set ys \<subseteq> set ps" using e by auto
        with True q' show ?thesis by (auto simp: list_all_iff)
      next
        case (Cons x xs')
        then show ?thesis using e q' deepest_first [of _ xs' q ys q'] by auto
      qed
    next
      case False
      then have "rev (sort_key length ps) = xs @ q # ys" using o by (simp add: journalOrder_def Let_def split: if_splits)
      from deepest_first [OF this q'] show ?thesis .
    qed
  qed
qed

lemma journalOrder_first: "journalFirst journalOrder"
  by (auto simp: journalFirst_def journalOrder_def list_all_iff Let_def)

section \<open>The first drive\<close>

text \<open>An empty directory, with faults to come.\<close>

definition emptyDrive :: "fault list \<Rightarrow> lstore" where
  "emptyDrive fs = \<lparr>lsIds = Map.empty, lsPaths = Map.empty, lsFailed = None,
     lsDisk = \<lparr>dkTree = [], dkFaults = fs, dkRemoval = journalOrder\<rparr>\<rparr>"

lemma emptyDrive_healthy: "healthy mem_le (emptyDrive fs)"
  by (auto simp: healthy_def emptyDrive_def storeTree_def tree_ok_def okF_def nodeAt_def noStaging_def mapsOk_def
    entriesOk_def parentsOk_def filesMatch_def indexed_def tT_def)

definition withFaults :: "fault list \<Rightarrow> lstore \<Rightarrow> lstore" where
  "withFaults fs s = s\<lparr>lsDisk := (lsDisk s)\<lparr>dkFaults := fs\<rparr>\<rparr>"

lemma withFaults_healthy [simp]: "healthy E (withFaults fs s) = healthy E s" "storeView (withFaults fs s) = storeView s"
  "lsIds (withFaults fs s) = lsIds s" "lsPaths (withFaults fs s) = lsPaths s" "dkTree (lsDisk (withFaults fs s)) = dkTree (lsDisk s)"
  by (simp_all add: healthy_def storeView_def withFaults_def)

end
