(* ===== verification/Local_Index.thy ===== *)
theory Local_Index
  imports Local_Inv
begin

text \<open>
  What an index may hold, said without the functions of the driver: an entry names a place below the
  root by proper elements, a set of entries forms a tree. The checks of \<open>readIndex\<close> accept exactly these.
\<close>

section \<open>Trailing spaces\<close>

definition spaceless :: "string \<Rightarrow> bool" where
  "spaceless s \<longleftrightarrow> list_all (\<lambda>w. \<not> suffix w s) goSpaces"

lemma trimSpace_path_iff: "trimSpace (slash # s) = slash # s \<longleftrightarrow> spaceless (slash # s)"
proof -
  have "trailSpace (slash # s) = None \<longleftrightarrow> spaceless (slash # s)"
    by (auto simp: trailSpace_def find_None_iff spaceless_def list_all_iff)
  then show ?thesis using trimRight_fix trailSpace_trimRight [of "slash # s"] by (auto simp: trimSpace_start)
qed

text \<open>Joining the kept parts of a text again makes it no longer.\<close>

lemma joinWith_length: "ws \<noteq> [] \<Longrightarrow> Suc (length (joinWith [c] ws)) = sum_list (map (\<lambda>w. Suc (length w)) ws)"
  by (induction "[c]" ws rule: joinWith.induct) auto

lemma splitOn_length: "sum_list (map (\<lambda>w. Suc (length w)) (splitOn c s)) = Suc (length s)"
proof (induction s)
  case (Cons x xs)
  obtain y ys where "splitOn c xs = y # ys" by (cases "splitOn c xs") auto
  then show ?case using Cons by auto
qed simp

lemma kept_length:
  assumes "filter P (splitOn c s) \<noteq> []"
  shows "length (joinWith [c] (filter P (splitOn c s))) \<le> length s"
proof -
  have "sum_list (map (\<lambda>w. Suc (length w)) (filter P (splitOn c s)))
      \<le> sum_list (map (\<lambda>w. Suc (length w)) (splitOn c s))"
    by (rule sum_list_filter_le_nat)
  then show ?thesis using joinWith_length [OF assms, of c] unfolding splitOn_length by linarith
qed

lemma clean_noDots:
  assumes "''..'' \<notin> set (splitOn slash s)"
  shows "cleanPath (slash # s) = slash # nameOf (filter (\<lambda>e. e \<noteq> [] \<and> e \<noteq> ''.'') (splitOn slash s))"
  by (simp add: cleanPath_def cleanElems_noDots [OF assms] nameOf_def)

text \<open>So a path that \<open>storagePath\<close> returns as it is had no space to be trimmed.\<close>

lemma storagePath_keeps:
  assumes s: "storagePath (pathOf es dir) dir = Inr (pathOf es dir)" and p: "list_all properElem es" and n: "es \<noteq> []"
  shows "trimSpace (pathOf es dir) = pathOf es dir"
proof (cases dir)
  case True
  then show ?thesis using trimSpace_slashes(1) n by (simp add: pathOf_def)
next
  case False
  let ?p = "slash # nameOf es" and ?kept = "\<lambda>e. e \<noteq> [] \<and> e \<noteq> ''.''"
  have pp: "pathOf es False = ?p" by (simp add: pathOf_def)
  then have s': "storagePath ?p False = Inr ?p" using s False by simp
  have d: "''..'' \<notin> set (splitOn slash (trimSpace ?p))" and c: "cleanPath (slash # trimSpace ?p) = ?p"
    using s' by (auto simp: storagePath_def Let_def list_ex_iff split: if_splits)
  have e: "nameOf (filter ?kept (splitOn slash (trimSpace ?p))) = nameOf es"
    using c clean_noDots [OF d] by simp
  have pre: "prefix (trimSpace ?p) ?p" using prefix_trimRight [of ?p] by (simp add: trimSpace_start)
  have ne: "nameOf es \<noteq> []" using joinWith_Nil_iff [OF p] n by (simp add: nameOf_def)
  then have k: "filter ?kept (splitOn slash (trimSpace ?p)) \<noteq> []" using e by (auto simp: nameOf_def)
  then have "trimSpace ?p \<noteq> []" by auto
  with pre obtain t where t: "trimSpace ?p = slash # t" by (cases "trimSpace ?p") auto
  obtain y ys where y: "splitOn slash t = y # ys" by (cases "splitOn slash t") auto
  have f: "filter ?kept (splitOn slash (slash # t)) = filter ?kept (splitOn slash t)" using y by simp
  have "length (nameOf es) \<le> length t"
    using kept_length [of ?kept slash t] k e unfolding t f unfolding nameOf_def by simp
  with pre have "trimSpace ?p = ?p" unfolding t by (auto simp: prefix_def)
  with False pp show ?thesis by simp
qed

section \<open>Entries\<close>

text \<open>
  An entry of an index: its path is a slash, proper elements that are not private to the driver,
  separated by slashes, and one more slash for a directory; it has no backslash or NUL and, at the
  end, no space; the name is the last element. It has an identifier and no negative size.
\<close>

definition goodEntry :: "vmeta \<Rightarrow> bool" where
  "goodEntry m \<longleftrightarrow> mID m \<noteq> nilUUID \<and> 0 \<le> mSize m \<and> spaceless (mPath m)
     \<and> CHR 0x5C \<notin> set (mPath m) \<and> CHR 0x00 \<notin> set (mPath m)
     \<and> (\<exists>dirs name. list_all (\<lambda>e. properElem e \<and> \<not> prefix ''.vfs'' e) (dirs @ [name])
          \<and> mPath m = ''/'' @ joinWith ''/'' (dirs @ [name]) @ (if mIsDir m then ''/'' else []) \<and> mName m = name)"

lemma basePath_pathOf:
  assumes "list_all properElem (dirs @ [name])"
  shows "basePath (slash # nameOf (dirs @ [name])) = name"
proof -
  have n: "properElem name" "name \<noteq> []" "slash \<notin> set name" using assms by auto
  have e: "slash # nameOf (dirs @ [name]) = (if dirs = [] then [] else slash # nameOf dirs) @ slash # name"
    using joinWith_append [of dirs "[name]" "[slash]"] by (simp add: nameOf_def)
  have l: "last name \<noteq> slash" using n last_in_set by metis
  have s: "stripSlashes (xs @ slash # name) = xs @ slash # name" for xs
    using dropWhile_rev_last [of "xs @ slash # name" slash] l n by (simp add: stripSlashes_def)
  have "takeWhile ((\<noteq>) slash) (rev name @ slash # ys) = rev name" for ys using n by (subst takeWhile_append2) auto
  then have a: "afterSlash (xs @ slash # name) = name" for xs by (simp add: afterSlash_def)
  show ?thesis unfolding e basePath_def s a using n by simp
qed

lemma goodEntry_iff: "validEntry m \<longleftrightarrow> goodEntry m"
proof
  assume v: "validEntry m"
  note vs = validEntry_shape [OF v]
  obtain dirs name where es: "elems m = dirs @ [name]" using vs(2) by (metis append_butlast_last_id)
  have p: "mPath m = ''/'' @ joinWith ''/'' (dirs @ [name]) @ (if mIsDir m then ''/'' else [])"
    using vs(3) by (simp add: es pathOf_def nameOf_def)
  have "storagePath (pathOf (elems m) (mIsDir m)) (mIsDir m) = Inr (pathOf (elems m) (mIsDir m))"
    and n: "mName m = basePath (trimSuffix (mPath m) ''/'')"
    using v vs(3) by (auto simp: validEntry_def split: sum.splits)
  then have "trimSpace (mPath m) = mPath m" using storagePath_keeps vs(2,3,6) by metis
  then have sp: "spaceless (mPath m)" using trimSpace_path_iff unfolding p by simp
  have "mName m = basePath (slash # nameOf (dirs @ [name]))"
    using n trimSuffix_pathOf [OF vs(6,2), of "mIsDir m"] vs(3) unfolding es by simp
  then have n: "mName m = name" using basePath_pathOf vs(6) unfolding es by simp
  have "\<not> containsAny (nameOf (dirs @ [name])) badChars" using vs(1) by (simp add: visible_def es)
  then have "CHR 0x5C \<notin> set (mPath m)" "CHR 0x00 \<notin> set (mPath m)"
    unfolding p by (auto simp: nameOf_def containsAny_def badChars_def list_ex_iff)
  moreover have "list_all (\<lambda>e. properElem e \<and> \<not> prefix ''.vfs'' e) (dirs @ [name])"
    using vs(1) by (simp add: visible_def es list_all_iff)
  ultimately show "goodEntry m" unfolding goodEntry_def using sp n vs(4,5) p by blast
next
  assume g: "goodEntry m"
  then obtain dirs name where es: "list_all (\<lambda>e. properElem e \<and> \<not> prefix ''.vfs'' e) (dirs @ [name])"
    and p: "mPath m = ''/'' @ joinWith ''/'' (dirs @ [name]) @ (if mIsDir m then ''/'' else [])" and n: "mName m = name"
    unfolding goodEntry_def by blast
  let ?es = "dirs @ [name]"
  have p': "mPath m = pathOf ?es (mIsDir m)" by (simp add: p pathOf_def nameOf_def)
  have pe: "list_all properElem ?es" using es by (simp add: list_all_iff)
  have "\<not> containsAny (nameOf ?es) badChars"
    using g unfolding goodEntry_def p by (auto simp: containsAny_def badChars_def list_ex_iff nameOf_def)
  then have v: "visible ?es" using es pe by (simp add: visible_def list_all_iff)
  have "trimSpace (mPath m) = mPath m" using g trimSpace_path_iff unfolding goodEntry_def p by simp
  then have s: "storagePath (mPath m) (mIsDir m) = Inr (mPath m)" using storagePath_pathOf [OF v] p' by metis
  have "mPath m \<noteq> ''/''" using nameOf_ends [OF pe] by (auto simp: p' pathOf_root)
  moreover have "trimSuffix (mPath m) ''/'' = slash # nameOf ?es"
    using trimSuffix_pathOf [OF pe] by (simp add: p')
  ultimately show "validEntry m"
    using g s n basePath_pathOf [OF pe] by (simp add: validEntry_def goodEntry_def)
qed

section \<open>Trees\<close>

text \<open>A list of entries that is a tree: nothing twice, and above every entry a directory.\<close>

definition entryTree :: "vmeta list \<Rightarrow> bool" where
  "entryTree metas \<longleftrightarrow> list_all goodEntry metas \<and> distinct (map mID metas) \<and> distinct (map elems metas)
     \<and> (\<forall>m \<in> set metas. butlast (elems m) = [] \<or> (\<exists>m' \<in> set metas. mIsDir m' \<and> elems m' = butlast (elems m)))"

lemma entryTree_iff:
  "distinct (map mID metas) \<and> distinct (map elems metas) \<and> fst maps = idsOf metas \<and> mapsOk maps
     \<longleftrightarrow> entryTree metas \<and> fst maps = idsOf metas \<and> (\<forall>p m. snd maps p = Some m \<longleftrightarrow> m \<in> set metas \<and> mPath m = p)"
proof -
  obtain ids paths where maps: "maps = (ids, paths)" by fastforce
  have "mapsOk (ids, paths) \<longleftrightarrow> entryTree metas \<and> (\<forall>p m. paths p = Some m \<longleftrightarrow> m \<in> set metas \<and> mPath m = p)"
    if d: "distinct (map mID metas)" "distinct (map elems metas)" "ids = idsOf metas"
  proof -
    have r: "ran ids = set metas" using idsOf_ran [OF d(1)] d(3) by simp
    have "entriesOk ids \<longleftrightarrow> list_all goodEntry metas"
    proof
      assume "entriesOk ids"
      then show "list_all goodEntry metas" using ran_entry r by (auto simp: list_all_iff goodEntry_iff)
    next
      assume "list_all goodEntry metas"
      then show "entriesOk ids"
        using d entryList_entries [of metas] by (simp add: entryList_def list_all_iff goodEntry_iff)
    qed
    then show ?thesis using d(1,2) by (auto simp: mapsOk_def entryTree_def parentsOk_def r)
  qed
  then show ?thesis by (auto simp: maps entryTree_def)
qed

end
