(* ===== verification/Local_Theorems.thy ===== *)
theory Local_Theorems
  imports Local_Mem Local_Index
begin

text \<open>
  What the local driver promises: which indexes it opens, that its operations are atomic in spite of
  failures of the disk and the end of the process at any system call, and that it comes back after
  them; and two situations in which it does not.
\<close>

section \<open>Trimming small names\<close>

lemma trimSpace_keeps:
  assumes "s \<noteq> []" and "list_all (\<lambda>w. w \<noteq> [] \<and> hd w \<noteq> hd s \<and> last w \<noteq> last s) goSpaces"
  shows "trimSpace s = s"
proof -
  have "\<not> prefix w s \<and> \<not> suffix w s" if "w \<in> set goSpaces" for w
    using assms that by (auto simp: list_all_iff prefix_def suffix_def)
  then show ?thesis
    by (simp add: trimSpace_def trimLeft_fix trimRight_fix leadSpace_def trailSpace_def find_None_iff)
qed

lemma trailSpace_none: "s \<noteq> [] \<Longrightarrow> list_all (\<lambda>w. w \<noteq> [] \<and> last w \<noteq> last s) goSpaces \<Longrightarrow> trailSpace s = None"
proof -
  assume s: "s \<noteq> []" "list_all (\<lambda>w. w \<noteq> [] \<and> last w \<noteq> last s) goSpaces"
  have "\<not> suffix w s" if "w \<in> set goSpaces" for w
    using s that by (auto simp: list_all_iff suffix_def)
  then show ?thesis by (simp add: trailSpace_def find_None_iff)
qed

lemma goSpaces_ends: "list_all (\<lambda>w. w \<noteq> [] \<and> hd w \<notin> {slash, CHR ''a'', CHR ''b''} \<and> last w \<notin> {slash, CHR ''a'', CHR ''b'', CHR ''.''}) goSpaces"
  by code_simp

section \<open>The index\<close>

text \<open> C33. The local driver opens an index exactly when it decodes to entries with different
  identifiers and different paths that form a tree: an entry has a path of proper elements with none
  private to the driver, no backslash, NUL or trailing space, its last element as the name, an
  identifier, no negative size, and a directory above it. Then it has exactly these entries, found by
  their identifiers and by their paths. \<close>

theorem index_exact:
  assumes "orderOk E"
  shows "readIndex E data = Inr maps \<longleftrightarrow> (\<exists>metas. leDecIndex E data = Inr metas \<and> entryTree metas
    \<and> fst maps = idsOf metas \<and> (\<forall>p m. snd maps p = Some m \<longleftrightarrow> m \<in> set metas \<and> mPath m = p))"
  unfolding readIndex_exact_core [OF assms] entryTree_iff ..

section \<open>Atomic operations\<close>

text \<open> C34. Whatever system calls fail and wherever the process dies, \<open>Create\<close> of the local driver
  either leaves the file system as it was or adds exactly the new file with the bytes of the reader,
  and the driver, whenever it is opened again, shows one of the two; it fails only after a failing
  call, a failing reader, something in the way or an encoding error. \<close>

theorem local_create_atomic:
  assumes "codecOk E" and "healthy E s" and "settled c (lsDisk s)" and "orderly (fst c)"
    and "newName v False p" and "i \<noteq> nilUUID" and "lsIds s i = None"
    and "local_Create E i now v rd s = (r, s')"
  shows "createOutcome E c (nodeAt (dkTree (lsDisk s)) (elemsOf p) \<noteq> None \<or> rEnd rd \<noteq> ErrEOF \<or> \<not> encodes E) s p
    (fileEntry i now p (int (length (rData rd)))) (Some (rData rd)) r s'"
  by (rule create_core [OF assms(1-7) refl assms(8)])

definition smallReader :: reader where
  "smallReader = \<lparr>rData = ''xy'', rEnd = ErrEOF\<rparr>"

lemma newName_a: "newName ''/a'' False ''/a''" "newName ''b'' True ''/b/''"
proof -
  have s: "trimSpace ''/a'' = ''/a''" "trimSpace ''b'' = ''b''" "trimSpace ''/b/'' = ''/b/''"
    by (rule trimSpace_keeps; use goSpaces_ends in \<open>simp add: list_all_iff\<close>)+
  have u: "utf8 ''a''" "utf8 ''b/''" by (simp_all add: utf8_Cons_ascii)
  show "newName ''/a'' False ''/a''" "newName ''b'' True ''/b/''"
    unfolding newName_def storagePath_def s
    by (simp_all add: u containsAny_def badChars_def cleanPath_def cleanElems_def)
qed

theorem index_exact_witness:
  "\<exists>maps. readIndex mem_le (putTexts (metaTexts (fileEntry 1 0 ''/a'' 2))) = Inr maps
     \<and> fst maps 1 = Some (fileEntry 1 0 ''/a'' 2) \<and> snd maps ''/a'' = Some (fileEntry 1 0 ''/a'' 2)"
proof -
  let ?m = "fileEntry 1 0 ''/a'' 2" and ?maps = "([1 \<mapsto> fileEntry 1 0 ''/a'' 2], [''/a'' \<mapsto> fileEntry 1 0 ''/a'' 2])"
  have m: "validEntry ?m" "textMeta ?m" "mPath ?m = ''/a''" "mID ?m = 1" "elems ?m = [''a'']"
    using fileEntry_ok [OF newName_a(1), of 1 2 0] by (simp_all add: nilUUID_def fileEntry_def elemsOf_def)
  have "leDecIndex mem_le (putTexts (metaTexts ?m)) = Inr [?m]"
    using conjunct1 [OF conjunct2 [OF mem_le_codec [unfolded codecOk_def]], rule_format, of "[?m]"] m(2) by simp
  moreover have "entryTree [?m]" using m by (simp add: entryTree_def goodEntry_iff [symmetric])
  ultimately have "readIndex mem_le (putTexts (metaTexts ?m)) = Inr ?maps"
    using m(3,4) mem_le_codec by (subst index_exact) (auto simp: codecOk_def idsOf_def)
  then show ?thesis by simp
qed

lemma free_a: "isl (statPath (lsPaths (emptyDrive fs)) ''/a'')" "checkParent (lsPaths (emptyDrive fs)) ''/a'' = Inr ()"
proof -
  have e: "elemsOf ''/a'' = [''a'']" by (simp add: elemsOf_def)
  note s = newName_shape [OF newName_a(1), unfolded e]
  have p: "pathOf [''a''] False = ''/a''" by (simp add: pathOf_def nameOf_def)
  show "checkParent (lsPaths (emptyDrive fs)) ''/a'' = Inr ()"
    using checkParent_pathOf [OF s(1), of "lsPaths (emptyDrive fs)" False] by (simp add: p)
  show "isl (statPath (lsPaths (emptyDrive fs)) ''/a'')"
    using s(5) [of False] by (simp add: statPath_def emptyDrive_def)
qed

lemma empty_settled: "list_all faultOk fs \<Longrightarrow> settled (journalOrder, True) (lsDisk (emptyDrive fs))"
  "settled (journalOrder, False) (lsDisk (emptyDrive []))"
  by (simp_all add: settled_def emptyDrive_def)

lemma fewFaults: "list_all faultOk (replicate n Works @ [Crashes 0])"
  by (simp add: faultOk_def list_all_iff)

theorem local_create_atomic_witness:
  "case local_Create mem_le 1 0 ''/a'' smallReader (emptyDrive (replicate 9 Works @ [Crashes 0])) of (r, s') \<Rightarrow>
     createOutcome mem_le (journalOrder, True) False (emptyDrive (replicate 9 Works @ [Crashes 0])) ''/a''
       (fileEntry 1 0 ''/a'' 2) (Some ''xy'') r s'"
proof -
  let ?s = "emptyDrive (replicate 9 Works @ [Crashes 0])"
  obtain r s' where r: "local_Create mem_le 1 0 ''/a'' smallReader ?s = (r, s')" by fastforce
  have f: "nodeAt (dkTree (lsDisk ?s)) (elemsOf ''/a'') = None" "lsIds ?s 1 = None"
    by (simp_all add: emptyDrive_def nodeAt_def elemsOf_def)
  from local_create_atomic [OF mem_le_codec emptyDrive_healthy empty_settled(1) [OF fewFaults] _ newName_a(1) _ f(2) r]
  show ?thesis using r f(1) by (simp add: smallReader_def journalOrder_orderly mem_encodes nilUUID_def)
qed

text \<open>A drive with one file.\<close>

definition fileDrive :: lstore where
  "fileDrive = snd (local_Create mem_le 1 0 ''/a'' smallReader (emptyDrive []))"

lemma fileDrive_facts: "healthy mem_le fileDrive" "lsIds fileDrive 1 = Some (fileEntry 1 0 ''/a'' 2)"
  "settled (journalOrder, False) (lsDisk fileDrive)" "storeView fileDrive = [''/a'' \<mapsto> (fileEntry 1 0 ''/a'' 2, Some ''xy'')]"
proof -
  let ?m = "fileEntry 1 0 ''/a'' 2"
  obtain r where r: "local_Create mem_le 1 0 ''/a'' smallReader (emptyDrive []) = (r, fileDrive)"
    unfolding fileDrive_def by (metis prod.collapse)
  have n: "nodeAt (dkTree (lsDisk (emptyDrive []))) (elemsOf ''/a'') = None" "lsIds (emptyDrive []) 1 = None"
    by (simp_all add: emptyDrive_def nodeAt_def elemsOf_def)
  have "createOutcome mem_le (journalOrder, False) False (emptyDrive []) ''/a'' ?m (Some ''xy'') r fileDrive"
    using create_core [OF mem_le_codec emptyDrive_healthy empty_settled(2) _ newName_a(1) _ n(2) refl r] n(1)
    by (simp add: smallReader_def journalOrder_orderly mem_encodes nilUUID_def)
  with free_a [of "[]"] have a: "settled (journalOrder, False) (lsDisk fileDrive)" "healthy mem_le fileDrive"
    "storeView fileDrive = (storeView (emptyDrive []))(''/a'' \<mapsto> (?m, Some ''xy''))"
    by (auto simp: createOutcome_def atomically_def split: run.splits)
  then show "healthy mem_le fileDrive" "settled (journalOrder, False) (lsDisk fileDrive)" by auto
  have "storeView (emptyDrive []) = Map.empty" by (simp add: storeView_def lsView_def emptyDrive_def fun_eq_iff)
  with a(3) show "storeView fileDrive = [''/a'' \<mapsto> (?m, Some ''xy'')]" by simp
  from a(3) have "lsPaths fileDrive ''/a'' = Some ?m" by (auto simp: storeView_def lsView_def fun_eq_iff split: if_splits)
  moreover have "mapsOk (lsIds fileDrive, lsPaths fileDrive)" using a(2) by (simp add: healthy_def storeTree_def)
  ultimately have "?m \<in> ran (lsIds fileDrive)" "entriesOk (lsIds fileDrive)" by (auto simp: mapsOk_def)
  from ran_entry [OF this(2,1)] show "lsIds fileDrive 1 = Some ?m" by (simp add: fileEntry_def)
qed

lemma fileDrive_faults: "list_all faultOk fs \<Longrightarrow> settled (journalOrder, True) (lsDisk (withFaults fs fileDrive))"
  using fileDrive_facts(3) by (simp add: settled_def withFaults_def)

text \<open> \<open>Mkdir\<close> of the local driver is atomic in the same way: it adds exactly one directory or
  changes nothing, whatever fails and wherever the process dies. \<close>

theorem local_mkdir_atomic:
  assumes "codecOk E" and "healthy E s" and "settled c (lsDisk s)" and "orderly (fst c)"
    and "newName v True p" and "i \<noteq> nilUUID" and "lsIds s i = None"
    and "local_Mkdir E i now v s = (r, s')"
  shows "createOutcome E c (nodeAt (dkTree (lsDisk s)) (elemsOf p) \<noteq> None \<or> \<not> encodes E) s p (dirEntry i now p) None r s'"
  by (rule mkdir_core [OF assms(1-7) refl assms(8)])

theorem local_mkdir_atomic_witness:
  "case local_Mkdir mem_le 2 0 ''b'' (withFaults (replicate 8 Works @ [Crashes 0]) (emptyDrive [])) of (r, s') \<Rightarrow>
     createOutcome mem_le (journalOrder, True) False (withFaults (replicate 8 Works @ [Crashes 0]) (emptyDrive [])) ''/b/''
       (dirEntry 2 0 ''/b/'') None r s'"
proof -
  let ?s = "withFaults (replicate 8 Works @ [Crashes 0]) (emptyDrive [])"
  obtain r s' where r: "local_Mkdir mem_le 2 0 ''b'' ?s = (r, s')" by fastforce
  have f: "nodeAt (dkTree (lsDisk ?s)) (elemsOf ''/b/'') = None" "lsIds ?s 2 = None"
    by (simp_all add: emptyDrive_def nodeAt_def elemsOf_def)
  have c: "settled (journalOrder, True) (lsDisk ?s)" using fewFaults by (simp add: settled_def withFaults_def emptyDrive_def)
  have h: "healthy mem_le ?s" using emptyDrive_healthy by simp
  from local_mkdir_atomic [OF mem_le_codec h c _ newName_a(2) _ f(2) r]
  show ?thesis using r f(1) by (simp add: journalOrder_orderly mem_encodes nilUUID_def)
qed

text \<open> C35. \<open>Write\<close> of the local driver replaces the contents of exactly one file by the bytes of the
  reader or changes nothing, whatever fails and wherever the process dies, provided that
  \<open>RemoveAll\<close> removes the journal of a transaction before the files next to it. \<close>

theorem local_write_atomic:
  assumes "codecOk E" and "healthy E s" and "settled c (lsDisk s)" and "orderly (fst c)" and "journalFirst (fst c)"
    and "lsIds s i = Some m" and "\<not> mIsDir m"
    and "local_Write E now i rd s = (r, s')"
  shows "atomically E c (rEnd rd \<noteq> ErrEOF \<or> \<not> encodes E) (storeView s)
    ((storeView s)(mPath m \<mapsto> (m\<lparr>mSize := int (length (rData rd)), mModified := now\<rparr>, Some (rData rd))))
    (m\<lparr>mSize := int (length (rData rd)), mModified := now\<rparr>) r s'"
  by (rule write_core [OF assms(1-7) refl assms(8)])

theorem local_write_atomic_witness:
  "case local_Write mem_le 7 1 smallReader (withFaults (replicate 24 Works @ [Crashes 0]) fileDrive) of (r, s') \<Rightarrow>
     atomically mem_le (journalOrder, True) False (storeView fileDrive)
       ((storeView fileDrive)(''/a'' \<mapsto> (fileEntry 1 7 ''/a'' 2, Some ''xy''))) (fileEntry 1 7 ''/a'' 2) r s'"
proof -
  let ?s = "withFaults (replicate 24 Works @ [Crashes 0]) fileDrive"
  obtain r s' where r: "local_Write mem_le 7 1 smallReader ?s = (r, s')" by fastforce
  have h: "healthy mem_le ?s" "lsIds ?s 1 = Some (fileEntry 1 0 ''/a'' 2)" using fileDrive_facts by simp_all
  from local_write_atomic [OF mem_le_codec h(1) fileDrive_faults [OF fewFaults] _ _ h(2) _ r]
  show ?thesis
    using r by (simp add: smallReader_def journalOrder_orderly journalOrder_first mem_encodes fileEntry_def)
qed

text \<open> C36. \<open>Delete\<close> of the local driver removes exactly the entry and everything below it or
  changes nothing, whatever fails and wherever the process dies. \<close>

theorem local_delete_atomic:
  assumes "codecOk E" and "healthy E s" and "settled c (lsDisk s)" and "orderly (fst c)"
    and "lsIds s i = Some m" and "local_Delete E i s = (r, s')"
  shows "atomically E c (\<not> encodes E) (storeView s) (removedAt m (storeView s)) () r s'"
  by (rule delete_core [OF assms(1-5) refl assms(6)])

theorem local_delete_atomic_witness:
  "case local_Delete mem_le 1 (withFaults (replicate 12 Works @ [Crashes 0]) fileDrive) of (r, s') \<Rightarrow>
     atomically mem_le (journalOrder, True) False (storeView fileDrive) (removedAt (fileEntry 1 0 ''/a'' 2) (storeView fileDrive)) () r s'"
proof -
  let ?s = "withFaults (replicate 12 Works @ [Crashes 0]) fileDrive"
  obtain r s' where r: "local_Delete mem_le 1 ?s = (r, s')" by fastforce
  have h: "healthy mem_le ?s" "lsIds ?s 1 = Some (fileEntry 1 0 ''/a'' 2)" using fileDrive_facts by simp_all
  from local_delete_atomic [OF mem_le_codec h(1) fileDrive_faults [OF fewFaults] _ h(2) r]
  show ?thesis using r by (simp add: journalOrder_orderly mem_encodes)
qed

section \<open>Opening again\<close>

lemma reopen_core:
  assumes "orderOk E" and h: "healthy E s" and "orderly (dkRemoval (lsDisk s))"
  shows "comesBack E {storeView s} (lsDisk s)"
proof -
  let ?f = "nodeAt (dkTree (lsDisk s))"
  have st: "storeTree E (lsIds s, lsPaths s) ?f" and cl: "cleanTree ?f (dkTree (lsDisk s))"
    using h by (auto simp: healthy_def cleanTree_def)
  have "recoverable E (dkRemoval (lsDisk s)) ?f (dkTree (lsDisk s))"
    using clean_recOld [OF cl storeTreeD(2) [OF st]] by (simp add: recoverable_def)
  from recoverable_comesBack [OF assms(1) st this assms(3)] show ?thesis by (simp add: storeView_def)
qed

text \<open> C37. A drive that is opened again after any number of attempts that fail or die shows what it
  showed before, and an attempt in which no system call fails succeeds. \<close>

theorem local_reopens:
  assumes "orderOk E" and "healthy E s" and "orderly (dkRemoval (lsDisk s))"
  shows "(\<forall>s'. restarts E (lsDisk s) s' \<longrightarrow> healthy E s' \<and> storeView s' = storeView s)
    \<and> (\<exists>s'. newLocal E ((lsDisk s)\<lparr>dkFaults := []\<rparr>) = (Returns (), s'))"
proof
  show "\<forall>s'. restarts E (lsDisk s) s' \<longrightarrow> healthy E s' \<and> storeView s' = storeView s"
    using reopen_core [OF assms] by (simp add: comesBack_def)
next
  let ?f = "nodeAt (dkTree (lsDisk s))"
  have st: "storeTree E (lsIds s, lsPaths s) ?f" and cl: "cleanTree ?f (dkTree (lsDisk s))"
    using assms(2) by (auto simp: healthy_def cleanTree_def)
  have "recoverable E (dkRemoval (lsDisk s)) ?f (dkTree (lsDisk s))"
    using clean_recOld [OF cl storeTreeD(2) [OF st]] by (simp add: recoverable_def)
  from opens_at_last [OF assms(1) st this assms(3)]
  show "\<exists>s'. newLocal E ((lsDisk s)\<lparr>dkFaults := []\<rparr>) = (Returns (), s')" by blast
qed

theorem local_reopens_witness:
  "\<exists>s'. newLocal mem_le ((lsDisk fileDrive)\<lparr>dkFaults := []\<rparr>) = (Returns (), s')"
proof -
  have "orderOk mem_le" "orderly (dkRemoval (lsDisk fileDrive))"
    using mem_le_codec fileDrive_facts(3) journalOrder_orderly by (auto simp: codecOk_def settled_def)
  with local_reopens [OF _ fileDrive_facts(1)] show ?thesis by blast
qed

section \<open>Two gaps\<close>

text \<open>
  \<open>Create\<close> accepts a name whose normal form ends in a space, and no index with such an entry is
  ever opened again.
\<close>

theorem trailing_space_rejected:
  "storagePath ''a /.'' False = Inr ''/a ''"
  "leDecIndex E data = Inr metas \<Longrightarrow> m \<in> set metas \<Longrightarrow> mPath m = ''/a '' \<Longrightarrow> isl (readIndex E data)"
proof -
  have "trimSpace ''a /.'' = ''a /.''"
    by (rule trimSpace_keeps) (use goSpaces_ends in \<open>simp_all add: list_all_iff\<close>)
  then show "storagePath ''a /.'' False = Inr ''/a ''"
    unfolding storagePath_def by (simp add: containsAny_def badChars_def cleanPath_def cleanElems_def)
  assume d: "leDecIndex E data = Inr metas" "m \<in> set metas" "mPath m = ''/a ''"
  have "trailSpace ''/a '' = Some '' ''" by code_simp
  moreover have "trailSpace ''/a'' = None"
    by (rule trailSpace_none) (use goSpaces_ends in \<open>simp_all add: list_all_iff\<close>)
  ultimately have "trimRight ''/a '' = ''/a''" by (simp add: trimRight.simps [of "''/a ''"] trimRight_fix)
  then have "trimSpace ''/a '' = ''/a''" by (simp add: trimSpace_start)
  then have "storagePath ''/a '' False = Inr ''/a''" "storagePath ''/a '' True = Inr ''/a/''"
    unfolding storagePath_def by (simp_all add: containsAny_def badChars_def cleanPath_def cleanElems_def)
  then have "\<not> validEntry m" using d(3) by (cases "mIsDir m") (auto simp: validEntry_def)
  then have "\<not> entryList metas" using d(2) by (auto simp: entryList_def list_all_iff)
  then obtain e where "forE readEntry metas (Map.empty, Map.empty) = Inl e" using readEntries by (metis sum.exhaust)
  then show "isl (readIndex E data)" by (simp add: readIndex_def d(1))
qed

text \<open>
  A \<open>Write\<close> that was interrupted after its moves is rolled back; the process dies again while the
  transaction directory is being removed, after the new contents and before the journal; the next
  recovery takes the restored file for the new contents and removes it.
\<close>

definition swap_le :: ls_env where
  "swap_le = \<lparr>leEncIndex = \<lambda>ms. Inr [], leDecIndex = \<lambda>b. Inr [], leEncMoves = \<lambda>m. Inr [],
     leDecMoves = \<lambda>b. Inr [\<lparr>dmFrom = ''a'', dmTo = inTransaction ''old''\<rparr>,
       \<lparr>dmFrom = inTransaction ''new'', dmTo = ''a''\<rparr>],
     leOrder = \<lambda>i. [], lePaths = \<lambda>p. []\<rparr>"

definition interrupted :: "fault list \<Rightarrow> disk" where
  "interrupted fs = \<lparr>dkTree = [([''a''], RegNode ''new''), ([transactionDir], DirNode), (tx ''index'', RegNode []),
       (tx ''journal'', RegNode []), (tx ''old'', RegNode ''kept'')], dkFaults = fs, dkRemoval = rev\<rparr>"

theorem recovery_loses:
  "case recoverTransaction swap_le [] (interrupted []) of (r, d) \<Rightarrow> r = Returns () \<and> dkTree d = [([''a''], RegNode ''kept'')]"
  "case recoverTransaction swap_le [] (interrupted (replicate 24 Works @ [Crashes 0])) of (r, d) \<Rightarrow> r = Crashed \<and>
     (case recoverTransaction swap_le [] d of (r, d) \<Rightarrow> r = Returns () \<and> dkTree d = [])"
  by code_simp+

end
