(* ===== verification/Auth.thy ===== *)
theory Auth
  imports Users Drives Vfs_Handlers
begin

text \<open>
  Who may do what: the middlewares that admit a request (\<open>internal/server/middlewares/auth.go\<close>), the
  handlers of sessions and of accounts (\<open>internal/server/handlers/auth.go\<close>, \<open>handlers/admin.go\<close>) and the
  chains of guards the routes have (\<open>internal/server/init.go\<close>). Signing and verifying tokens, JSON bodies,
  the address of the host and the sizes Badger reports are fields of a record; clock readings, random
  identifiers and the orders in which maps are visited are arguments.
\<close>

section \<open>Tokens and requests\<close>

text \<open>
  The claims \<open>Login\<close> signs, with the time of expiry in seconds, and a verified token as its accessors
  show it: \<open>jtVersion\<close> is \<open>None\<close> when the claims have another type or hold no such string.
\<close>

record token_claims =
  tcSubject :: string
  tcExp :: int
  tcVersion :: string

record token =
  jtRaw :: string
  jtSubject :: "err + string"
  jtExp :: "err + int option"
  jtVersion :: "string option"

text \<open>
  \<open>axVerify k t s\<close> is the library's verification of the token \<open>s\<close> at time \<open>t\<close> with the key \<open>k\<close>;
  \<open>axLoopback\<close> is \<open>None\<close> for a text that is not an IP address.
\<close>

record ('d, 't, 'v, 'w) auth_env = http_env +
  axUsers :: "('d, 't) uenv"
  axDrives :: "('v, 'w) drv_env"
  axSecret :: string
  axLifetime :: int
  axSign :: "string \<Rightarrow> token_claims \<Rightarrow> err + string"
  axVerify :: "string \<Rightarrow> int \<Rightarrow> string \<Rightarrow> token option"
  axFold :: "string \<Rightarrow> string \<Rightarrow> bool"
  axLoopback :: "string \<Rightarrow> bool option"
  axValueSize :: "'t \<Rightarrow> bytes \<Rightarrow> int"
  axResources :: "'v \<Rightarrow> 'w \<Rightarrow> (err + int \<times> int \<times> int \<times> int) option"

text \<open>
  What a request finds: the clock when it starts and when it ends, an identifier and a salt for an
  account or a session's event, an identifier for the audit's event, the order of the open drives and
  of the broker's clients, and whether the broker's queue takes a question for its clients.
\<close>

record ambient =
  amNow :: int
  amEnd :: int
  amFresh :: uuid
  amSalt :: nat
  amAudit :: uuid
  amDrives :: "uuid list"
  amClients :: "uuid list"
  amTaken :: bool

text \<open>The credentials and the origin of a request: the Bearer token, the cookie, protocol and host.\<close>

record credentials =
  crBearer :: "string option"
  crCookie :: "string option"
  crProtocol :: string
  crHost :: string

record cookie =
  ckValue :: string
  ckExpires :: int
  ckSecure :: bool

record login_req =
  lqUsername :: string
  lqPassword :: string

record password_req =
  pqCurrent :: string
  pqNew :: string

record create_req =
  cqUsername :: string
  cqPassword :: string
  cqRole :: string

text \<open>
  The requests of the routes under \<open>/auth\<close> and \<open>/admin\<close>. A body that could not be bound
  is the error's text; a page parameter is \<open>None\<close> when it is not a number, and an absent one has its default.
\<close>

datatype auth_request = AqLogin "string + login_req" | AqLogout | AqMe | AqPassword "string + password_req"

datatype admin_request =
    AqListUsers
  | AqCreateUser "string + create_req"
  | AqUpdateUser string "string + user_update"
  | AqUserStatus string
  | AqClearEvents string
  | AqStatus
  | AqSystemEntries "int option" "int option"
  | AqEvents "int option" "int option" string

record token_res =
  trID :: uuid
  trUsername :: string
  trRole :: string
  trToken :: string
  trExpiresAt :: int

record status_res =
  srUsers :: int
  srOpenDrives :: nat
  srSystem :: storage_stat
  srBadgerDrives :: "badger_resource list"

record user_status_res =
  usUserID :: uuid
  usUsername :: string
  usOpen :: bool
  usOnline :: bool
  usSSECount :: int
  usItems :: int
  usSize :: int

datatype reply =
    RyToken token_res
  | RyNoContent
  | RyUsers "user_res list"
  | RyCreated user_res
  | RyUser user_res
  | RyStatus status_res
  | RyUserStatus user_status_res
  | RyEvents "user_event list" int int int
  | RyEntries "system_entry list" int int int

definition replyStatus :: "reply \<Rightarrow> nat" where
  "replyStatus r = (case r of RyNoContent \<Rightarrow> 204 | RyCreated _ \<Rightarrow> 201 | _ \<Rightarrow> 200)"

record ('d, 'v, 'w) server =
  svUsers :: 'd
  svDrives :: "'v manager"
  svWorld :: 'w
  svBroker :: broker

abbreviation errUnauthorized :: http_error where "errUnauthorized \<equiv> HttpError 401 ''Unauthorized''"
abbreviation errForbidden :: http_error where "errForbidden \<equiv> HttpError 403 ''Forbidden''"
abbreviation errNotFound :: http_error where "errNotFound \<equiv> HttpError 404 ''Not Found''"

text \<open>Errors of the services that a handler returns as they are.\<close>

definition plainE :: "err + 'a \<Rightarrow> http_error + 'a" where
  "plainE r = (case r of Inl e \<Rightarrow> Inl (PlainError e) | Inr x \<Rightarrow> Inr x)"

section \<open>Middlewares\<close>

definition JWTAuthMiddleware :: "('d, 't, 'v, 'w) auth_env \<Rightarrow> ambient \<Rightarrow> credentials \<Rightarrow> http_error + token" where
  "JWTAuthMiddleware A am cr =
     (case (case crBearer cr of Some s \<Rightarrow> Some s | None \<Rightarrow> crCookie cr) of
        None \<Rightarrow> Inl errUnauthorized
      | Some s \<Rightarrow>
          (case axVerify A (axSecret A) (amNow am) s of
             None \<Rightarrow> Inl errUnauthorized
           | Some tok \<Rightarrow>
               (case jtExp tok of
                  Inr (Some exp) \<Rightarrow> Inr tok
                | _ \<Rightarrow> Inl errUnauthorized)))"

definition UserMiddleware :: "('d, 't, 'v, 'w) auth_env \<Rightarrow> token \<Rightarrow> 'd \<Rightarrow> http_error + user" where
  "UserMiddleware A tok d =
     (case jtSubject tok of
        Inl e \<Rightarrow> Inl errUnauthorized
      | Inr subject \<Rightarrow>
          (case hpParseID A subject of
             None \<Rightarrow> Inl errUnauthorized
           | Some i \<Rightarrow>
               (case user_ByID (axUsers A) d i of
                  Inl e \<Rightarrow> Inl errUnauthorized
                | Inr user \<Rightarrow>
                    if uDisabled user then Inl errUnauthorized
                    else if jtVersion tok \<noteq> Some (formatUint (unat (uSessionVersion user)))
                    then Inl errUnauthorized
                    else Inr user)))"

definition AdminOnly :: "user \<Rightarrow> http_error + unit" where
  "AdminOnly user = (if uRole user \<noteq> RoleAdmin then Inl errForbidden else Inr ())"

text \<open>
  The status \<open>Audit\<close> records: the code of a \<open>fiber.Error\<close>, and for any other outcome the status of the
  response so far, which is 200 when an error left it untouched.
\<close>

definition auditStatus :: "('a \<Rightarrow> nat) \<Rightarrow> http_error + 'a \<Rightarrow> nat" where
  "auditStatus st r = (case r of Inl (HttpError code msg) \<Rightarrow> code | Inl (PlainError e) \<Rightarrow> 200 | Inr x \<Rightarrow> st x)"

definition Audit :: "('d, 't, 'v, 'w) auth_env \<Rightarrow> ambient \<Rightarrow> bool \<Rightarrow> string \<Rightarrow> user \<Rightarrow> nat \<Rightarrow> 'd \<Rightarrow> 'd" where
  "Audit A am isGet routeName user status d =
     (if isGet then d
      else snd (user_RecordEvent (axUsers A) (amAudit am) (amEnd am) d user routeName (int status)))"

text \<open>The two middlewares every guarded route starts with.\<close>

definition admitted :: "('d, 't, 'v, 'w) auth_env \<Rightarrow> ambient \<Rightarrow> credentials \<Rightarrow> 'd \<Rightarrow> http_error + token \<times> user" where
  "admitted A am cr d =
     bindE (JWTAuthMiddleware A am cr) (\<lambda>tok. bindE (UserMiddleware A tok d) (\<lambda>user. Inr (tok, user)))"

section \<open>Sessions\<close>

definition equalFold :: "(string \<Rightarrow> string \<Rightarrow> bool) \<Rightarrow> string \<Rightarrow> string \<Rightarrow> bool" where
  "equalFold uf s t = (if isAscii s \<and> isAscii t then map asciiLower s = map asciiLower t else uf s t)"

definition secureCookie :: "('d, 't, 'v, 'w) auth_env \<Rightarrow> credentials \<Rightarrow> bool" where
  "secureCookie A cr =
     (if crProtocol cr = ''https'' then True
      else if equalFold (axFold A) (crHost cr) ''localhost''
        \<or> suffix ''.localhost'' (toLower (hpLower A) (crHost cr)) then False
      else (case axLoopback A (crHost cr) of None \<Rightarrow> True | Some loopback \<Rightarrow> \<not> loopback))"

type_synonym ('d, 'v, 'w) answered = "(http_error + reply) \<times> cookie option \<times> ('d, 'v, 'w) server"

definition handler_Login :: "('d, 't, 'v, 'w) auth_env \<Rightarrow> ambient \<Rightarrow> credentials \<Rightarrow> string + login_req
    \<Rightarrow> ('d, 'v, 'w) server \<Rightarrow> ('d, 'v, 'w) answered" where
  "handler_Login A am cr body s =
     (case body of
        Inl msg \<Rightarrow> (Inl (HttpError 400 msg), None, s)
      | Inr req \<Rightarrow>
          (case user_Authenticate (axUsers A) (svUsers s) (lqUsername req) (lqPassword req) of
             Inl e \<Rightarrow> (Inl (HttpError 401 ''Invalid credentials''), None, s)
           | Inr user \<Rightarrow>
               let sec = (amNow am + axLifetime A) div 1000000000
               in (case axSign A (axSecret A) \<lparr>tcSubject = uuidString (uID user), tcExp = sec,
                      tcVersion = formatUint (unat (uSessionVersion user))\<rparr> of
                     Inl e \<Rightarrow> (Inl (HttpError 500 (hpErrorText A e)), None, s)
                   | Inr t \<Rightarrow>
                       (Inr (RyToken \<lparr>trID = uID user, trUsername = uUsername user, trRole = uRole user,
                          trToken = t, trExpiresAt = sec * 1000000000\<rparr>),
                        Some \<lparr>ckValue = t, ckExpires = sec * 1000000000, ckSecure = secureCookie A cr\<rparr>,
                        s\<lparr>svUsers := snd (user_RecordEvent (axUsers A) (amFresh am) (amEnd am) (svUsers s)
                            user ''auth.login'' 200)\<rparr>))))"

definition handler_Logout :: "('d, 't, 'v, 'w) auth_env \<Rightarrow> ambient \<Rightarrow> credentials \<Rightarrow> user
    \<Rightarrow> ('d, 'v, 'w) server \<Rightarrow> ('d, 'v, 'w) answered" where
  "handler_Logout A am cr user s =
     (case manager_CloseDrive (axDrives A) (uID user) (svDrives s) (svWorld s) of
        (e, m, w) \<Rightarrow>
          ((case e of Some e \<Rightarrow> Inl (PlainError e) | None \<Rightarrow> Inr RyNoContent),
           Some \<lparr>ckValue = [], ckExpires = amNow am - 3600000000000, ckSecure = secureCookie A cr\<rparr>,
           s\<lparr>svDrives := m, svWorld := w\<rparr>))"

definition handler_IsLoggedIn :: "token \<Rightarrow> user \<Rightarrow> http_error + reply" where
  "handler_IsLoggedIn tok user =
     (case jtExp tok of
        Inr (Some exp) \<Rightarrow>
          Inr (RyToken \<lparr>trID = uID user, trUsername = uUsername user, trRole = uRole user,
             trToken = jtRaw tok, trExpiresAt = exp\<rparr>)
      | _ \<Rightarrow> Inl errUnauthorized)"

definition handler_ChangePassword :: "('d, 't, 'v, 'w) auth_env \<Rightarrow> ambient \<Rightarrow> string + password_req \<Rightarrow> user
    \<Rightarrow> 'd \<Rightarrow> (http_error + reply) \<times> 'd" where
  "handler_ChangePassword A am body user d =
     (case body of
        Inl msg \<Rightarrow> (Inl (HttpError 400 ''invalid password''), d)
      | Inr req \<Rightarrow>
          if pqNew req = [] then (Inl (HttpError 400 ''invalid password''), d)
          else case user_Authenticate (axUsers A) d (uUsername user) (pqCurrent req) of
            Inl e \<Rightarrow> if errorsIs e ErrInvalidPassword then (Inl (HttpError 401 ''Invalid credentials''), d)
                      else (Inl (PlainError e), d)
          | Inr _ \<Rightarrow>
              (case user_Update (axUsers A) (amSalt am) (amNow am) d (uID user)
                  \<lparr>upRole = None, upDisabled = None, upPassword = pqNew req\<rparr> of
                 (Inl e, d) \<Rightarrow> (Inl (PlainError e), d)
               | (Inr _, d) \<Rightarrow> (Inr RyNoContent, d)))"

text \<open>The routes under \<open>/auth\<close>; the audit belongs to the change of the password only.\<close>

definition serveAuth :: "('d, 't, 'v, 'w) auth_env \<Rightarrow> ambient \<Rightarrow> credentials \<Rightarrow> auth_request
    \<Rightarrow> ('d, 'v, 'w) server \<Rightarrow> ('d, 'v, 'w) answered" where
  "serveAuth A am cr rq s =
     (case rq of
        AqLogin body \<Rightarrow> handler_Login A am cr body s
      | AqLogout \<Rightarrow>
          (case admitted A am cr (svUsers s) of
             Inl e \<Rightarrow> (Inl e, None, s) | Inr (tok, user) \<Rightarrow> handler_Logout A am cr user s)
      | AqMe \<Rightarrow>
          (case admitted A am cr (svUsers s) of
             Inl e \<Rightarrow> (Inl e, None, s) | Inr (tok, user) \<Rightarrow> (handler_IsLoggedIn tok user, None, s))
      | AqPassword body \<Rightarrow>
          (case admitted A am cr (svUsers s) of
             Inl e \<Rightarrow> (Inl e, None, s)
           | Inr (tok, user) \<Rightarrow>
               (case handler_ChangePassword A am body user (svUsers s) of
                  (r, d) \<Rightarrow> (r, None, s\<lparr>svUsers :=
                    Audit A am False ''auth.password'' user (auditStatus replyStatus r) d\<rparr>))))"

section \<open>Administration\<close>

definition handler_ListUsers :: "('d, 't, 'v, 'w) auth_env \<Rightarrow> 'd \<Rightarrow> http_error + reply" where
  "handler_ListUsers A d = bindE (plainE (user_List (axUsers A) d)) (\<lambda>us. Inr (RyUsers (map userResponse us)))"

text \<open>
  Of the errors of \<open>Create\<close>, \<open>ErrAlreadyExists\<close> of the services is the one for a name in use.
\<close>

definition handler_CreateUser :: "('d, 't, 'v, 'w) auth_env \<Rightarrow> ambient \<Rightarrow> string + create_req \<Rightarrow> 'd
    \<Rightarrow> (http_error + reply) \<times> 'd" where
  "handler_CreateUser A am body d =
     (case body of
        Inl msg \<Rightarrow> (Inl (HttpError 400 msg), d)
      | Inr req \<Rightarrow>
          (case user_Create (axUsers A) (amFresh am) (amSalt am) (amNow am) d (cqUsername req)
              (cqPassword req) (cqRole req) of
             (Inl e, d) \<Rightarrow>
               (if errorsIs e ErrUsernameExists \<or> errorsIs e ErrInvalidRole \<or> errorsIs e ErrInvalidPassword
                then Inl (HttpError 400 (hpErrorText A e)) else Inl (PlainError e), d)
           | (Inr user, d) \<Rightarrow> (Inr (RyCreated (userResponse user)), d)))"

definition handler_UpdateUser :: "('d, 't, 'v, 'w) auth_env \<Rightarrow> ambient \<Rightarrow> string \<Rightarrow> string + user_update \<Rightarrow> 'd
    \<Rightarrow> (http_error + reply) \<times> 'd" where
  "handler_UpdateUser A am param body d =
     (case hpParseID A param of
        None \<Rightarrow> (Inl (HttpError 400 ''invalid user id''), d)
      | Some i \<Rightarrow>
          (case body of
             Inl msg \<Rightarrow> (Inl (HttpError 400 msg), d)
           | Inr upd \<Rightarrow>
               (case user_Update (axUsers A) (amSalt am) (amNow am) d i upd of
                  (Inl e, d) \<Rightarrow>
                    (if errorsIs e ErrUserNotFound then Inl errNotFound
                     else if errorsIs e ErrInvalidRole \<or> errorsIs e ErrLastAdmin
                     then Inl (HttpError 400 (hpErrorText A e))
                     else Inl (PlainError e), d)
                | (Inr user, d) \<Rightarrow> (Inr (RyUser (userResponse user)), d))))"

definition handler_Status :: "('d, 't, 'v, 'w) auth_env \<Rightarrow> ambient \<Rightarrow> ('d, 'v, 'w) server \<Rightarrow> http_error + reply" where
  "handler_Status A am s =
     (case user_Stats (axUsers A) (axValueSize A) (svUsers s) of
        (system, users) \<Rightarrow>
          bindE (plainE (manager_BadgerResources (axResources A) (amDrives am) (svDrives s) (svWorld s)))
            (\<lambda>badgerDrives. Inr (RyStatus \<lparr>srUsers = users, srOpenDrives = manager_OpenCount (svDrives s),
               srSystem = system, srBadgerDrives = badgerDrives\<rparr>)))"

definition handler_UserStatus :: "('d, 't, 'v, 'w) auth_env \<Rightarrow> ambient \<Rightarrow> string \<Rightarrow> ('d, 'v, 'w) server
    \<Rightarrow> (http_error + reply) \<times> ('d, 'v, 'w) server" where
  "handler_UserStatus A am param s =
     (case hpParseID A param of
        None \<Rightarrow> (Inl (HttpError 400 ''invalid user id''), s)
      | Some i \<Rightarrow>
          (case user_ByID (axUsers A) (svUsers s) i of
             Inl e \<Rightarrow> (if errorsIs e ErrUserNotFound then Inl errNotFound else Inl (PlainError e), s)
           | Inr user \<Rightarrow>
               (case manager_Stats (axDrives A) (amNow am) (amEnd am) (uID user) (svDrives s) (svWorld s) of
                  (Inl e, m, w) \<Rightarrow> (Inl (PlainError e), s\<lparr>svDrives := m, svWorld := w\<rparr>)
                | (Inr ((items, used), wasOpen), m, w) \<Rightarrow>
                    let sseCount = sse_ClientCount (amTaken am) (amClients am) (uuidString (uID user)) (svBroker s)
                    in (Inr (RyUserStatus \<lparr>usUserID = uID user, usUsername = uUsername user, usOpen = wasOpen,
                          usOnline = (0 < sseCount), usSSECount = sseCount, usItems = items, usSize = used\<rparr>),
                        s\<lparr>svDrives := m, svWorld := w\<rparr>))))"

definition pageParams :: "int option \<Rightarrow> int option \<Rightarrow> http_error + int \<times> int" where
  "pageParams page pageSize =
     (case pagination page pageSize of
        None \<Rightarrow> Inl (HttpError 400 (if (case page of None \<Rightarrow> True | Some p \<Rightarrow> p < 1)
                                 then ''invalid page'' else ''invalid page size''))
      | Some p \<Rightarrow> Inr p)"

definition handler_Events :: "('d, 't, 'v, 'w) auth_env \<Rightarrow> int option \<Rightarrow> int option \<Rightarrow> string \<Rightarrow> 'd
    \<Rightarrow> http_error + reply" where
  "handler_Events A page pageSize value d =
     bindE (pageParams page pageSize) (\<lambda>(page, pageSize).
     bindE (if value = [] then Inr None
            else case hpParseID A value of
              None \<Rightarrow> Inl (HttpError 400 ''invalid user id'') | Some i \<Rightarrow> Inr (Some i)) (\<lambda>userID.
     bindE (plainE (user_ListEvents (axUsers A) d page pageSize userID)) (\<lambda>(events, total).
     Inr (RyEvents events page pageSize total))))"

definition handler_SystemEntries :: "('d, 't, 'v, 'w) auth_env \<Rightarrow> int option \<Rightarrow> int option \<Rightarrow> 'd
    \<Rightarrow> http_error + reply" where
  "handler_SystemEntries A page pageSize d =
     bindE (pageParams page pageSize) (\<lambda>(page, pageSize).
     bindE (plainE (user_ListSystemEntries (axUsers A) d page pageSize)) (\<lambda>(entries, total).
     Inr (RyEntries entries page pageSize total)))"

definition handler_ClearUserEvents :: "('d, 't, 'v, 'w) auth_env \<Rightarrow> string \<Rightarrow> 'd \<Rightarrow> (http_error + reply) \<times> 'd" where
  "handler_ClearUserEvents A param d =
     (case hpParseID A param of
        None \<Rightarrow> (Inl (HttpError 400 ''invalid user id''), d)
      | Some i \<Rightarrow>
          (case user_ByID (axUsers A) d i of
             Inl e \<Rightarrow> (if errorsIs e ErrUserNotFound then Inl errNotFound else Inl (PlainError e), d)
           | Inr _ \<Rightarrow>
               (case user_ClearEvents (axUsers A) d i of
                  (Inl e, d) \<Rightarrow> (Inl (PlainError e), d)
                | (Inr _, d) \<Rightarrow> (Inr RyNoContent, d))))"

fun handleAdmin :: "('d, 't, 'v, 'w) auth_env \<Rightarrow> ambient \<Rightarrow> admin_request \<Rightarrow> ('d, 'v, 'w) server
    \<Rightarrow> (http_error + reply) \<times> ('d, 'v, 'w) server" where
  "handleAdmin A am AqListUsers s = (handler_ListUsers A (svUsers s), s)"
| "handleAdmin A am (AqCreateUser body) s =
     (case handler_CreateUser A am body (svUsers s) of (r, d) \<Rightarrow> (r, s\<lparr>svUsers := d\<rparr>))"
| "handleAdmin A am (AqUpdateUser param body) s =
     (case handler_UpdateUser A am param body (svUsers s) of (r, d) \<Rightarrow> (r, s\<lparr>svUsers := d\<rparr>))"
| "handleAdmin A am (AqUserStatus param) s = handler_UserStatus A am param s"
| "handleAdmin A am (AqClearEvents param) s =
     (case handler_ClearUserEvents A param (svUsers s) of (r, d) \<Rightarrow> (r, s\<lparr>svUsers := d\<rparr>))"
| "handleAdmin A am AqStatus s = (handler_Status A am s, s)"
| "handleAdmin A am (AqSystemEntries page pageSize) s = (handler_SystemEntries A page pageSize (svUsers s), s)"
| "handleAdmin A am (AqEvents page pageSize value) s = (handler_Events A page pageSize value (svUsers s), s)"

fun adminRoute :: "admin_request \<Rightarrow> bool \<times> string" where
  "adminRoute AqListUsers = (True, ''admin.users'')"
| "adminRoute (AqCreateUser _) = (False, ''admin.create-user'')"
| "adminRoute (AqUpdateUser _ _) = (False, ''admin.update-user'')"
| "adminRoute (AqUserStatus _) = (True, ''admin.user-status'')"
| "adminRoute (AqClearEvents _) = (False, ''admin.clear-user-events'')"
| "adminRoute AqStatus = (True, ''admin.status'')"
| "adminRoute (AqSystemEntries _ _) = (True, ''admin.system-entries'')"
| "adminRoute (AqEvents _ _ _) = (True, ''admin.events'')"

text \<open>The routes under \<open>/admin\<close>: the token, the account, the role, and the audit around the handler.\<close>

definition serveAdmin :: "('d, 't, 'v, 'w) auth_env \<Rightarrow> ambient \<Rightarrow> credentials \<Rightarrow> admin_request
    \<Rightarrow> ('d, 'v, 'w) server \<Rightarrow> (http_error + reply) \<times> ('d, 'v, 'w) server" where
  "serveAdmin A am cr rq s =
     (case bindE (admitted A am cr (svUsers s)) (\<lambda>(tok, user). bindE (AdminOnly user) (\<lambda>_. Inr user)) of
        Inl e \<Rightarrow> (Inl e, s)
      | Inr user \<Rightarrow>
          (case handleAdmin A am rq s of
             (r, s) \<Rightarrow> (r, s\<lparr>svUsers := Audit A am (fst (adminRoute rq)) (snd (adminRoute rq)) user
                (auditStatus replyStatus r) (svUsers s)\<rparr>)))"

section \<open>Start\<close>

text \<open>
  What \<open>Init\<close> does with the user store it has opened: a store without accounts gets the administrator of
  the configuration.
\<close>

definition initUsers :: "('d, 't, 'v, 'w) auth_env \<Rightarrow> ambient \<Rightarrow> string \<Rightarrow> string \<Rightarrow> 'd \<Rightarrow> (err + unit) \<times> 'd" where
  "initUsers A am username password d =
     (case user_List (axUsers A) d of
        Inl e \<Rightarrow> (Inl e, d)
      | Inr list \<Rightarrow>
          if list = [] then
            (if username = [] \<or> password = [] then (Inl (ErrOther ''initial admin credentials are required''), d)
             else case user_Create (axUsers A) (amFresh am) (amSalt am) (amNow am) d username password RoleAdmin of
               (Inl e, d) \<Rightarrow> (Inl e, d)
             | (Inr _, d) \<Rightarrow> (Inr (), d))
          else (Inr (), d))"

end
