(* ===== verification/Server.thy ===== *)
theory Server
  imports Auth
begin

text \<open>
  The server as a whole: requests on drives behind the guards of \<open>/vfs\<close>, with the drive acquired from the
  manager (\<open>registerRoutes\<close> and \<open>withVFS\<close> of \<open>internal/server/init.go\<close>), the goroutines and response streams
  they leave behind, and the steps of the system they form with sessions, administration and the
  collection of idle drives. What a handle stands for, the state of an open drive, is read from and
  written to the world through a pair of functions.
\<close>

section \<open>Requests on drives\<close>

record ('v, 'w, 'ds) drive_access =
  daGet :: "'v \<Rightarrow> 'w \<Rightarrow> 'ds"
  daPut :: "'v \<Rightarrow> 'ds \<Rightarrow> 'w \<Rightarrow> 'w"

definition vfsStatus :: "'r vfs_reply \<Rightarrow> nat" where
  "vfsStatus r = (case r of RpStatus n \<Rightarrow> n | RpUnsatisfiable _ \<Rightarrow> 416 | RpStream n _ _ \<Rightarrow> nat n | _ \<Rightarrow> 200)"

fun vfsRoute :: "'i vfs_request \<Rightarrow> bool \<times> string" where
  "vfsRoute RqBackup = (False, ''vfs.backup'')"
| "vfsRoute (RqRestore _) = (False, ''vfs.restore'')"
| "vfsRoute (RqCreate _ _ _ _ _) = (False, ''vfs.create'')"
| "vfsRoute (RqList _ _) = (True, ''vfs.list'')"
| "vfsRoute (RqSearch _) = (True, ''vfs.search'')"
| "vfsRoute (RqRead _ _) = (True, ''vfs.read'')"
| "vfsRoute (RqStat _) = (True, ''vfs.stat'')"
| "vfsRoute (RqWrite _ _ _) = (False, ''vfs.write'')"
| "vfsRoute (RqMove _ _ _ _) = (False, ''vfs.move'')"
| "vfsRoute (RqDelete _ _) = (False, ''vfs.delete'')"
| "vfsRoute (RqCopy _ _ _ _) = (False, ''vfs.copy'')"
| "vfsRoute (RqWriteComments _ _ _) = (False, ''vfs.write-comments'')"

text \<open>A release function acts once, however often it is called.\<close>

definition releaseDrive :: "('v, 'w) drv_env \<Rightarrow> int \<Rightarrow> uuid \<Rightarrow> nat \<Rightarrow> 'v manager \<Rightarrow> 'w \<Rightarrow> 'v manager \<times> 'w" where
  "releaseDrive E now userID n m w = (if n = 0 then (m, w) else manager_release E now userID m w)"

definition requestHttp :: "('d, 't, 'v, 'w) auth_env \<Rightarrow> ambient \<Rightarrow> http_env" where
  "requestHttp A am = (http_env.truncate A)\<lparr>hpNow := amEnd am\<rparr>"

text \<open>
  The acquired drive with the handler on it: the outcome, the task it leaves, the state of the server,
  and the handle, when there is one.
\<close>

definition onDrive :: "('d, 't, 'v, 'w) auth_env \<Rightarrow> ('v, 'w, 'ds) drive_access \<Rightarrow> ('ds, 'i, 'r) vfs_ops
    \<Rightarrow> ('r \<Rightarrow> int \<Rightarrow> int \<Rightarrow> (err + int) \<times> 'r) option \<Rightarrow> ambient \<Rightarrow> uuid \<Rightarrow> 'i vfs_request
    \<Rightarrow> ('d, 'v, 'w) server \<Rightarrow> (http_error + 'r vfs_reply) \<times> 'ds task option \<times> 'v option \<times> ('d, 'v, 'w) server" where
  "onDrive A acc fs sk am userID rq s =
     (case manager_Acquire (axDrives A) (amNow am) userID (svDrives s) (svWorld s) of
        (Inl e, m, w) \<Rightarrow> (Inl (PlainError e), None, None, s\<lparr>svDrives := m, svWorld := w\<rparr>)
      | (Inr v, m, w) \<Rightarrow>
          (case withVFS (requestHttp A am) fs sk userID rq (daGet acc v w) (svBroker s) of
             (r, t, rs) \<Rightarrow>
               (case releaseDrive (axDrives A) (amEnd am) userID (rqReleased rs) m (daPut acc v (rqDrive rs) w) of
                  (m, w) \<Rightarrow> (r, t, Some v, s\<lparr>svDrives := m, svWorld := w, svBroker := rqBroker rs\<rparr>))))"

definition serveVfs :: "('d, 't, 'v, 'w) auth_env \<Rightarrow> ('v, 'w, 'ds) drive_access \<Rightarrow> ('ds, 'i, 'r) vfs_ops
    \<Rightarrow> ('r \<Rightarrow> int \<Rightarrow> int \<Rightarrow> (err + int) \<times> 'r) option \<Rightarrow> ambient \<Rightarrow> credentials \<Rightarrow> 'i vfs_request
    \<Rightarrow> ('d, 'v, 'w) server \<Rightarrow> (http_error + 'r vfs_reply) \<times> 'ds task option \<times> 'v option \<times> ('d, 'v, 'w) server" where
  "serveVfs A acc fs sk am cr rq s =
     (case admitted A am cr (svUsers s) of
        Inl e \<Rightarrow> (Inl e, None, None, s)
      | Inr (tok, user) \<Rightarrow>
          (case onDrive A acc fs sk am (uID user) rq s of
             (r, t, v, s) \<Rightarrow>
               (r, t, v, s\<lparr>svUsers := Audit A am (fst (vfsRoute rq)) (snd (vfsRoute rq)) user
                  (auditStatus vfsStatus r) (svUsers s)\<rparr>)))"

text \<open>A goroutine's work, and the end of a response stream, on the drive they hold.\<close>

definition serveTask :: "('d, 't, 'v, 'w) auth_env \<Rightarrow> ('v, 'w, 'ds) drive_access \<Rightarrow> ambient \<Rightarrow> uuid \<Rightarrow> 'v
    \<Rightarrow> 'ds task \<Rightarrow> ('d, 'v, 'w) server \<Rightarrow> ('d, 'v, 'w) server" where
  "serveTask A acc am userID v t s =
     (let rs = runTask (requestHttp A am) (uuidString userID) t
        \<lparr>rqDrive = daGet acc v (svWorld s), rqBroker = svBroker s, rqHolds = False, rqReleased = 0\<rparr>
      in case releaseDrive (axDrives A) (amEnd am) userID (rqReleased rs) (svDrives s)
           (daPut acc v (rqDrive rs) (svWorld s)) of
           (m, w) \<Rightarrow> s\<lparr>svDrives := m, svWorld := w, svBroker := rqBroker rs\<rparr>)"

definition endStream :: "('d, 't, 'v, 'w) auth_env \<Rightarrow> ambient \<Rightarrow> uuid \<Rightarrow> 'r drive_stream
    \<Rightarrow> ('d, 'v, 'w) server \<Rightarrow> ('d, 'v, 'w) server" where
  "endStream A am userID st s =
     (case releaseDrive (axDrives A) (amEnd am) userID (if dsRelease st then 1 else 0) (svDrives s) (svWorld s) of
        (m, w) \<Rightarrow> s\<lparr>svDrives := m, svWorld := w\<rparr>)"

section \<open>The system\<close>

text \<open>The server with the goroutines that have not run and the streams that have not ended.\<close>

record ('d, 'v, 'w, 'ds, 'r) system =
  syServer :: "('d, 'v, 'w) server"
  syTasks :: "(uuid \<times> 'v \<times> 'ds task) list"
  syStreams :: "(uuid \<times> 'v \<times> 'r drive_stream) list"

definition leftTasks :: "uuid \<Rightarrow> 'v option \<Rightarrow> 'ds task option \<Rightarrow> (uuid \<times> 'v \<times> 'ds task) list" where
  "leftTasks u v t = (case (v, t) of (Some v, Some t) \<Rightarrow> [(u, v, t)] | _ \<Rightarrow> [])"

definition leftStreams :: "uuid \<Rightarrow> 'v option \<Rightarrow> http_error + 'r vfs_reply \<Rightarrow> (uuid \<times> 'v \<times> 'r drive_stream) list" where
  "leftStreams u v r = (case (v, r) of (Some v, Inr (RpStream code rng st)) \<Rightarrow> [(u, v, st)] | _ \<Rightarrow> [])"

inductive server_step :: "('d, 't, 'v, 'w) auth_env \<Rightarrow> ('v, 'w, 'ds) drive_access \<Rightarrow> ('ds, 'i, 'r) vfs_ops
    \<Rightarrow> ('r \<Rightarrow> int \<Rightarrow> int \<Rightarrow> (err + int) \<times> 'r) option
    \<Rightarrow> ('d, 'v, 'w, 'ds, 'r) system \<Rightarrow> ('d, 'v, 'w, 'ds, 'r) system \<Rightarrow> bool"
  for A :: "('d, 't, 'v, 'w) auth_env" and acc :: "('v, 'w, 'ds) drive_access" and fs :: "('ds, 'i, 'r) vfs_ops"
    and sk :: "('r \<Rightarrow> int \<Rightarrow> int \<Rightarrow> (err + int) \<times> 'r) option" where
  sv_auth: "serveAuth A am cr rq (syServer s) = (r, ck, sv) \<Longrightarrow>
    server_step A acc fs sk s (s\<lparr>syServer := sv\<rparr>)"
| sv_admin: "serveAdmin A am cr rq (syServer s) = (r, sv) \<Longrightarrow>
    server_step A acc fs sk s (s\<lparr>syServer := sv\<rparr>)"
| sv_vfs: "serveVfs A acc fs sk am cr rq (syServer s) = (r, t, v, sv) \<Longrightarrow>
    admitted A am cr (svUsers (syServer s)) = Inr (tok, user) \<Longrightarrow>
    server_step A acc fs sk s (s\<lparr>syServer := sv, syTasks := syTasks s @ leftTasks (uID user) v t,
      syStreams := syStreams s @ leftStreams (uID user) v r\<rparr>)"
| sv_task: "syTasks s = xs @ (u, v, t) # ys \<Longrightarrow>
    server_step A acc fs sk s (s\<lparr>syServer := serveTask A acc am u v t (syServer s), syTasks := xs @ ys\<rparr>)"
| sv_stream: "syStreams s = zs @ (u, v, st) # zs' \<Longrightarrow>
    server_step A acc fs sk s (s\<lparr>syServer := endStream A am u st (syServer s), syStreams := zs @ zs'\<rparr>)"
| sv_idle: "set ids = dom (dmDrives (svDrives (syServer s))) \<Longrightarrow>
    closeIdle (axDrives A) now ids (svDrives (syServer s)) (svWorld (syServer s)) = (m, w) \<Longrightarrow>
    server_step A acc fs sk s (s\<lparr>syServer := (syServer s)\<lparr>svDrives := m, svWorld := w\<rparr>\<rparr>)"

end
