(* ===== verification/Apart_Dirs.thy ===== *)
theory Apart_Dirs
  imports Store_Paths
begin

text \<open>
  Directories that have nothing in common, such as those of different users below the directory of
  the server.
\<close>

text \<open>
  Two directories apart: neither is the other or inside it. Different elements below the same
  directory are.
\<close>

definition apartDirs :: "string \<Rightarrow> string \<Rightarrow> bool" where
  "apartDirs p q \<longleftrightarrow> \<not> prefix (p @ ''/'') (q @ ''/'') \<and> \<not> prefix (q @ ''/'') (p @ ''/'')"

definition belowDir :: "string \<Rightarrow> string" where
  "belowDir p = (if p = [] then [] else (if prefix [slash] p then [slash] else [])
     @ (if cleanBase p = [] then [] else joinWith [slash] (cleanBase p) @ [slash]))"

lemma joinPath_elem: "properElem e \<Longrightarrow> joinPath [p, e] = belowDir p @ e"
proof (cases "p = []")
  case True
  assume e: "properElem e"
  then have "splitOn slash e = [e]" by (intro splitOn_sep_free) auto
  moreover have "\<not> prefix [slash] e" using e by (cases e) (auto simp: properElem_def)
  ultimately show ?thesis using e True
    by (simp add: joinPath_def cleanPath_def cleanElems_def belowDir_def properElem_def)
next
  case False
  assume "properElem e"
  then show ?thesis
    using joinPath_below [OF False] joinWith_append [of "cleanBase p" "[e]" "[slash]"]
    by (simp add: belowDir_def False)
qed

lemma elem_apart: "properElem a \<Longrightarrow> slash \<notin> set b \<Longrightarrow> prefix (a @ ''/'') (b @ ''/'') \<Longrightarrow> a = b"
proof -
  assume a: "properElem a" "slash \<notin> set b" "prefix (a @ ''/'') (b @ ''/'')"
  then obtain k where k: "b @ ''/'' = a @ ''/'' @ k" by (auto simp: prefix_def)
  show "a = b"
  proof (cases k rule: rev_cases)
    case (snoc k' c)
    then have "b = a @ ''/'' @ k'" using k by simp
    then show ?thesis using a(2) by simp
  qed (use k in simp)
qed

lemma joinPath_apart:
  assumes "properElem a" and "properElem b" and "a \<noteq> b"
  shows "apartDirs (joinPath [p, a]) (joinPath [p, b])"
  using assms elem_apart [of a b] elem_apart [of b a]
  by (auto simp: apartDirs_def joinPath_elem)

end
