(* ===== verification/System_Inv.thy ===== *)
theory System_Inv
  imports Server Releases Drives_Inv Apart_Dirs
begin

text \<open>
  The invariant of the system: the manager is consistent with the releases that goroutines and streams
  still owe, and each of them holds the handle under which its user's drive is open. The contract of
  drives with a state is the locale \<open>drive_states\<close>; \<open>drive_places\<close> says where a drive keeps it.
\<close>

section \<open>Drives with a state\<close>

text \<open>Changing the state of a drive opens and closes none.\<close>

locale drive_states = drive_world E live
  for E :: "('v, 'w) drv_env" and live :: "'w \<Rightarrow> 'v set" +
  fixes acc :: "('v, 'w, 'ds) drive_access"
  assumes put_live: "live (daPut acc v d w) = live w"

text \<open>
  A drive keeps its state in the directory it was opened with, the path of its configuration, and
  reaches nothing outside it: what is opened, written or closed in one directory leaves the drives in
  directories apart from it as they are. Nothing is said of two drives in the same directory, or of one
  inside the directory of another.
\<close>

locale drive_places = drive_states E live acc
  for E :: "('v, 'w) drv_env" and live :: "'w \<Rightarrow> 'v set" and acc :: "('v, 'w, 'ds) drive_access" +
  fixes place :: "'v \<Rightarrow> string"
  assumes badger_place: "dvBadger E cfg w = (Inr v, w') \<Longrightarrow> place v = dcBadgerPath cfg"
    and local_place: "dvLocal E cfg w = (Inr v, w') \<Longrightarrow> place v = dcLocalPath cfg"
    and badger_apart: "dvBadger E cfg w = (r, w') \<Longrightarrow> v \<in> live w \<Longrightarrow> apartDirs (dcBadgerPath cfg) (place v)
      \<Longrightarrow> daGet acc v w' = daGet acc v w"
    and local_apart: "dvLocal E cfg w = (r, w') \<Longrightarrow> v \<in> live w \<Longrightarrow> apartDirs (dcLocalPath cfg) (place v)
      \<Longrightarrow> daGet acc v w' = daGet acc v w"
    and close_apart: "dvClose E v w = (e, w') \<Longrightarrow> apartDirs (place v) (place v') \<Longrightarrow> daGet acc v' w' = daGet acc v' w"
    and put_apart: "apartDirs (place v) (place v') \<Longrightarrow> daGet acc v' (daPut acc v d w) = daGet acc v' w"

text \<open>The directory of a user's drive, below the one the server is configured with.\<close>

definition userDir :: "drv_config \<Rightarrow> uuid \<Rightarrow> string" where
  "userDir cfg u = joinPath [if dcType cfg = DriverTypeBadger then dcBadgerPath cfg else dcLocalPath cfg, uuidString u]"

definition drives_placed :: "('v \<Rightarrow> string) \<Rightarrow> 'v manager \<Rightarrow> bool" where
  "drives_placed place m \<longleftrightarrow> (\<forall>u v. handleOf m u = Some v \<longrightarrow> place v = userDir (dmConfig m) u)"

lemma userDir_apart: "u \<noteq> x \<Longrightarrow> apartDirs (userDir cfg u) (userDir cfg x)"
  unfolding userDir_def by (rule joinPath_apart [OF uuidString_elem uuidString_elem]) (use uuidString_inj in blast)

lemma placed_shrinks: "drives_placed place m \<Longrightarrow> handleOf m' \<subseteq>\<^sub>m handleOf m \<Longrightarrow> dmConfig m' = dmConfig m
    \<Longrightarrow> drives_placed place m'"
  unfolding drives_placed_def map_le_def by (metis domI)

section \<open>What the manager does to other entries\<close>

lemma countUse_handles [simp]: "handleOf (countUse u m) = handleOf m"
  by (auto simp: countUse_def Let_def handleOf_def setEntry_def fun_eq_iff split: option.split)

lemma setEntry_handles: "dmDrives m u = Some e \<Longrightarrow> deDrive e' = deDrive e \<Longrightarrow> handleOf (setEntry u e' m) = handleOf m"
  by (auto simp: handleOf_def fun_eq_iff)

lemma removeEntry_shrinks: "handleOf (removeEntry u m) \<subseteq>\<^sub>m handleOf m"
  by (auto simp: handleOf_def map_le_def)

lemma locked_grows:
  assumes "driveLocked E now u m w = (r, m', w')"
  shows "handleOf m \<subseteq>\<^sub>m handleOf m'" and "r = Inr v \<Longrightarrow> handleOf m' u = Some v"
    and "x \<noteq> u \<Longrightarrow> handleOf m' x = handleOf m x"
  using assms
  by (auto simp: driveLocked_def handleOf_def map_le_def split: if_splits option.splits sum.splits prod.splits)

lemma acquire_grows:
  assumes "manager_Acquire E now u m w = (r, m', w')"
  shows "handleOf m \<subseteq>\<^sub>m handleOf m'" and "r = Inr v \<Longrightarrow> handleOf m' u = Some v"
    and "x \<noteq> u \<Longrightarrow> handleOf m' x = handleOf m x"
proof -
  obtain r1 m1 w1 where d: "driveLocked E now u m w = (r1, m1, w1)" by (metis prod_cases3)
  have "r = r1" "handleOf m' = handleOf m1" using assms d by (auto simp: manager_Acquire_def split: sum.splits)
  with locked_grows [OF d]
  show "handleOf m \<subseteq>\<^sub>m handleOf m'" "r = Inr v \<Longrightarrow> handleOf m' u = Some v"
    "x \<noteq> u \<Longrightarrow> handleOf m' x = handleOf m x" by simp_all
qed

lemma stats_grows:
  assumes "stats_begin E now u m w = (r, was, m', w')"
  shows "handleOf m \<subseteq>\<^sub>m handleOf m'"
proof -
  obtain r1 m1 w1 where d: "manager_Acquire E now u m w = (r1, m1, w1)" by (metis prod_cases3)
  have "handleOf m' = handleOf m1" using assms d setEntry_handles [of m1 u]
    by (auto simp: stats_begin_def Let_def split: sum.splits if_splits option.splits)
  with acquire_grows(1) [OF d] show ?thesis by simp
qed

lemma release_shrinks:
  assumes "manager_release E now u m w = (m', w')"
  shows "handleOf m' \<subseteq>\<^sub>m handleOf m" and "x \<noteq> u \<Longrightarrow> handleOf m' x = handleOf m x"
  using assms
  by (auto simp: manager_release_def countRelease_def Let_def handleOf_def map_le_def setEntry_def removeEntry_def
      split: option.splits if_splits)

lemma close_drive_shrinks: "manager_CloseDrive E u m w = (r, m', w') \<Longrightarrow> handleOf m' \<subseteq>\<^sub>m handleOf m"
  by (auto simp: manager_CloseDrive_def handleOf_def map_le_def split: option.splits if_splits prod.splits)

lemma idle_step_shrinks: "idleStep E now u (m, w) = (m', w') \<Longrightarrow> handleOf m' \<subseteq>\<^sub>m handleOf m"
  by (auto simp: idleStep_def handleOf_def map_le_def split: option.splits if_splits)

lemma idle_shrinks: "closeIdle E now ids m w = (m', w') \<Longrightarrow> handleOf m' \<subseteq>\<^sub>m handleOf m"
proof (induction ids arbitrary: m w)
  case (Cons u ids)
  obtain m1 w1 where s: "idleStep E now u (m, w) = (m1, w1)" by fastforce
  with Cons show ?case using map_le_trans [OF Cons.IH idle_step_shrinks [OF s]] by (simp add: closeIdle_def)
qed (simp add: closeIdle_def)

text \<open>A consistent manager has an entry for every user that owes a release.\<close>

lemma owed_open: "dm_ok live m w owed False \<Longrightarrow> u \<in># owed \<Longrightarrow> \<exists>v. handleOf m u = Some v"
  by (auto simp: dm_ok_def handleOf_def)

lemma shrunk_kept:
  assumes "handleOf m' \<subseteq>\<^sub>m handleOf m" and "dm_ok live m' w owed False" and "u \<in># owed"
  shows "handleOf m' u = handleOf m u"
  using owed_open [OF assms(2,3)] assms(1) by (auto simp: map_le_def dom_def)

lemma grown_kept:
  assumes "handleOf m \<subseteq>\<^sub>m handleOf m'" and "dm_ok live m w owed False" and "u \<in># owed"
  shows "handleOf m' u = handleOf m u"
  using owed_open [OF assms(2,3)] assms(1) by (auto simp: map_le_def dom_def)

section \<open>The invariant\<close>

definition holdsOpen :: "'v manager \<Rightarrow> uuid \<times> 'v \<times> 'x \<Rightarrow> bool" where
  "holdsOpen m h = (case h of (u, v, x) \<Rightarrow> handleOf m u = Some v)"

lemma holdsOpen_kept: "handleOf m' (fst h) = handleOf m (fst h) \<Longrightarrow> holdsOpen m h \<Longrightarrow> holdsOpen m' h"
  by (simp add: holdsOpen_def case_prod_unfold)

definition owedOf :: "('d, 'v, 'w, 'ds, 'r) system \<Rightarrow> uuid multiset" where
  "owedOf s = mset (map fst (syTasks s)) + mset (map fst (syStreams s))"

definition system_ok :: "('w \<Rightarrow> 'v set) \<Rightarrow> ('d, 'v, 'w, 'ds, 'r) system \<Rightarrow> bool" where
  "system_ok live s \<longleftrightarrow>
     dm_ok live (svDrives (syServer s)) (svWorld (syServer s)) (owedOf s) False
     \<and> (\<forall>h \<in> set (syTasks s). holdsOpen (svDrives (syServer s)) h \<and> tkRelease (snd (snd h)))
     \<and> (\<forall>h \<in> set (syStreams s). holdsOpen (svDrives (syServer s)) h \<and> dsRelease (snd (snd h)))"

text \<open>
  A step keeps the invariant when the manager stays consistent, drives that are owed before and after
  keep their handles, and new goroutines and streams hold theirs.
\<close>

lemma system_ok_step:
  assumes "system_ok live s"
    and "dm_ok live (svDrives (syServer s2)) (svWorld (syServer s2)) (owedOf s2) False"
    and kept: "\<And>x. x \<in># owedOf s \<Longrightarrow> x \<in># owedOf s2 \<Longrightarrow>
      handleOf (svDrives (syServer s2)) x = handleOf (svDrives (syServer s)) x"
    and tasks: "\<And>h. h \<in> set (syTasks s2) \<Longrightarrow> h \<in> set (syTasks s)
      \<or> holdsOpen (svDrives (syServer s2)) h \<and> tkRelease (snd (snd h))"
    and streams: "\<And>h. h \<in> set (syStreams s2) \<Longrightarrow> h \<in> set (syStreams s)
      \<or> holdsOpen (svDrives (syServer s2)) h \<and> dsRelease (snd (snd h))"
  shows "system_ok live s2"
proof -
  have t: "holdsOpen (svDrives (syServer s2)) h \<and> tkRelease (snd (snd h))" if h: "h \<in> set (syTasks s2)" for h
  proof (cases "h \<in> set (syTasks s)")
    case True
    then have "fst h \<in># owedOf s" "fst h \<in># owedOf s2" using h by (simp_all add: owedOf_def)
    from holdsOpen_kept [of "svDrives (syServer s2)" h, OF kept [OF this]] True assms(1)
    show ?thesis by (simp add: system_ok_def)
  qed (use tasks [OF h] in blast)
  have st: "holdsOpen (svDrives (syServer s2)) h \<and> dsRelease (snd (snd h))" if h: "h \<in> set (syStreams s2)" for h
  proof (cases "h \<in> set (syStreams s)")
    case True
    then have "fst h \<in># owedOf s" "fst h \<in># owedOf s2" using h by (simp_all add: owedOf_def)
    from holdsOpen_kept [of "svDrives (syServer s2)" h, OF kept [OF this]] True assms(1)
    show ?thesis by (simp add: system_ok_def)
  qed (use streams [OF h] in blast)
  from assms(2) t st show ?thesis by (simp add: system_ok_def)
qed

lemma owedOf_simps [simp]:
  "owedOf (s\<lparr>syServer := sv\<rparr>) = owedOf s"
  "owedOf (s\<lparr>syServer := sv, syTasks := ts\<rparr>) = mset (map fst ts) + mset (map fst (syStreams s))"
  "owedOf (s\<lparr>syServer := sv, syStreams := ss\<rparr>) = mset (map fst (syTasks s)) + mset (map fst ss)"
  "owedOf (s\<lparr>syServer := sv, syTasks := ts, syStreams := ss\<rparr>) = mset (map fst ts) + mset (map fst ss)"
  by (simp_all add: owedOf_def)

text \<open>Sessions and administration reach the drives by \<open>CloseDrive\<close> and \<open>Stats\<close> only.\<close>

lemma serveAuth_reaches:
  assumes "serveAuth A am cr rq s = (r, ck, s')"
  shows "(svDrives s' = svDrives s \<and> svWorld s' = svWorld s)
    \<or> (\<exists>u e. manager_CloseDrive (axDrives A) u (svDrives s) (svWorld s) = (e, svDrives s', svWorld s'))"
  using assms
  by (auto simp: serveAuth_def handler_Login_def handler_Logout_def Let_def
      split: auth_request.splits option.splits sum.splits prod.splits)

lemma serveAdmin_reaches:
  assumes "serveAdmin A am cr rq s = (r, s')"
  shows "(svDrives s' = svDrives s \<and> svWorld s' = svWorld s)
    \<or> (\<exists>u q. manager_Stats (axDrives A) (amNow am) (amEnd am) u (svDrives s) (svWorld s) = (q, svDrives s', svWorld s'))"
  using assms
  by (cases rq; auto simp: serveAdmin_def handler_UserStatus_def Let_def
      split: option.splits sum.splits prod.splits)

context drive_states
begin

lemma handles_put: "dm_ok live m (daPut acc v d w) owed f = dm_ok live m w owed f"
  by (simp add: dm_ok_def handles_ok_def put_live)

lemma release_drive_ok:
  assumes "dm_ok live m w (owed + (if n = 0 then {#} else {#u#})) False" and "releaseDrive E now u n m w = (m', w')"
  shows "dm_ok live m' w' owed False" and "x \<in># owed \<Longrightarrow> handleOf m' x = handleOf m x"
proof -
  have *: "dm_ok live m' w' owed False \<and> handleOf m' \<subseteq>\<^sub>m handleOf m"
  proof (cases "n = 0")
    case False
    then have r: "manager_release E now u m w = (m', w')" using assms(2) by (simp add: releaseDrive_def)
    from release_ok [OF _ _ r, of "owed + {#u#}" False] assms(1) False release_shrinks(1) [OF r]
    show ?thesis by simp
  qed (use assms in \<open>simp add: releaseDrive_def\<close>)
  then show ok: "dm_ok live m' w' owed False" by blast
  show "x \<in># owed \<Longrightarrow> handleOf m' x = handleOf m x"
    by (rule shrunk_kept [OF _ ok]) (use * in blast)
qed

lemma onDrive_ok:
  assumes "onDrive A acc fs sk am u rq s = (r, t, v, s')" and "axDrives A = E"
    and "dm_ok live (svDrives s) (svWorld s) owed False"
  defines "left \<equiv> mset (map fst (leftTasks u v t)) + mset (map fst (leftStreams u v r))"
  shows "dm_ok live (svDrives s') (svWorld s') (owed + left) False"
    and "x \<in># owed \<Longrightarrow> handleOf (svDrives s') x = handleOf (svDrives s) x"
    and "h \<in> set (leftTasks u v t) \<Longrightarrow> holdsOpen (svDrives s') h \<and> tkRelease (snd (snd h))"
    and "k \<in> set (leftStreams u v r) \<Longrightarrow> holdsOpen (svDrives s') k \<and> dsRelease (snd (snd k))"
    and "svUsers s' = svUsers s"
proof -
  obtain q m w where a: "manager_Acquire E (amNow am) u (svDrives s) (svWorld s) = (q, m, w)" by (metis prod_cases3)
  note ok = acquire_ok(1) [OF assms(3) a] and g = acquire_grows [OF a]
  have kept: "handleOf m x = handleOf (svDrives s) x" if "x \<in># owed" for x
    by (rule grown_kept [OF g(1) assms(3) that])
  have "dm_ok live (svDrives s') (svWorld s') (owed + left) False
    \<and> (\<forall>x. x \<in># owed \<longrightarrow> handleOf (svDrives s') x = handleOf (svDrives s) x)
    \<and> (\<forall>h \<in> set (leftTasks u v t). holdsOpen (svDrives s') h \<and> tkRelease (snd (snd h)))
    \<and> (\<forall>h \<in> set (leftStreams u v r). holdsOpen (svDrives s') h \<and> dsRelease (snd (snd h)))
    \<and> svUsers s' = svUsers s"
  proof (cases q)
    case (Inl e)
    then have "s' = s\<lparr>svDrives := m, svWorld := w\<rparr>" "v = None" using assms(1,2) a
      by (auto simp: onDrive_def)
    with ok Inl kept show ?thesis by (simp add: left_def leftTasks_def leftStreams_def)
  next
    case (Inr hd)
    obtain r1 t1 rs where h: "withVFS (requestHttp A am) fs sk u rq (daGet acc hd w) (svBroker s) = (r1, t1, rs)"
      by (metis prod_cases3)
    obtain m' w' where rel: "releaseDrive E (amEnd am) u (rqReleased rs) m (daPut acc hd (rqDrive rs) w) = (m', w')"
      by fastforce
    have e: "r1 = r" "t1 = t" "v = Some hd" "s' = s\<lparr>svDrives := m', svWorld := w', svBroker := rqBroker rs\<rparr>"
      using assms(1,2) a Inr h rel by (auto simp: onDrive_def)
    note wr = withVFS_releases [OF h, unfolded e(1,2)]
    have tasks: "leftTasks u v t = (case t of None \<Rightarrow> [] | Some x \<Rightarrow> [(u, hd, x)])"
      by (simp add: leftTasks_def e split: option.split)
    have streams: "leftStreams u v r = (case r of Inr (RpStream code rng st) \<Rightarrow> [(u, hd, st)] | _ \<Rightarrow> [])"
      by (simp add: leftStreams_def e)
    have hold: "mset (map fst (leftTasks u v t)) + mset (map fst (leftStreams u v r)) = replicate_mset (holders r t) u"
      using wr(2,3) by (auto simp: tasks streams holders_def split: option.splits sum.splits vfs_reply.splits)
    have bal: "left + (if rqReleased rs = 0 then {#} else {#u#}) = {#u#}"
      using wr(1) unfolding left_def hold by (cases "rqReleased rs"; cases "holders r t") auto
    have "dm_ok live m (daPut acc hd (rqDrive rs) w) (owed + left + (if rqReleased rs = 0 then {#} else {#u#})) False"
      using ok Inr bal by (simp add: handles_put add.assoc)
    note ro = release_drive_ok [OF this rel]
    have "handleOf m' u = Some hd" if "u \<in># left" using ro(2) [of u] that g(2) [OF Inr] by simp
    moreover have "u \<in># left" if "leftTasks u v t \<noteq> [] \<or> leftStreams u v r \<noteq> []"
      using that unfolding left_def tasks streams
      by (auto split: option.splits sum.splits vfs_reply.splits)
    ultimately have "handleOf m' u = Some hd" if "leftTasks u v t \<noteq> [] \<or> leftStreams u v r \<noteq> []" using that by blast
    then have "\<forall>h \<in> set (leftTasks u v t). holdsOpen m' h \<and> tkRelease (snd (snd h))"
      "\<forall>h \<in> set (leftStreams u v r). holdsOpen m' h \<and> dsRelease (snd (snd h))"
      using wr(2,3) unfolding tasks streams
      by (auto simp: holdsOpen_def split: option.splits sum.splits vfs_reply.splits)
    with ro kept show ?thesis by (simp add: e)
  qed
  then show "dm_ok live (svDrives s') (svWorld s') (owed + left) False"
    "x \<in># owed \<Longrightarrow> handleOf (svDrives s') x = handleOf (svDrives s) x"
    "h \<in> set (leftTasks u v t) \<Longrightarrow> holdsOpen (svDrives s') h \<and> tkRelease (snd (snd h))"
    "k \<in> set (leftStreams u v r) \<Longrightarrow> holdsOpen (svDrives s') k \<and> dsRelease (snd (snd k))"
    "svUsers s' = svUsers s" by blast+
qed

lemma manager_Stats_ok:
  assumes "dm_ok live m w owed False" and "manager_Stats E now later u m w = (r, m', w')"
  shows "dm_ok live m' w' owed False" and "x \<in># owed \<Longrightarrow> handleOf m' x = handleOf m x"
proof -
  obtain q was m1 w1 where b: "stats_begin E now u m w = (q, was, m1, w1)" by (metis prod_cases4)
  note ok = stats_ok [OF assms(1) b] and g = stats_grows [OF b]
  have k1: "handleOf m1 x = handleOf m x" if "x \<in># owed" for x by (rule grown_kept [OF g assms(1) that])
  have "dm_ok live m' w' owed False \<and> (x \<in># owed \<longrightarrow> handleOf m' x = handleOf m1 x)"
  proof (cases q)
    case (Inl e)
    then have "m' = m1" "w' = w1" using assms(2) b by (auto simp: manager_Stats_def)
    with ok Inl show ?thesis by simp
  next
    case (Inr v)
    then have "releaseDrive E later u 1 m1 w1 = (m', w')"
      using assms(2) b by (auto simp: manager_Stats_def releaseDrive_def)
    moreover have "dm_ok live m1 w1 (owed + (if (1 :: nat) = 0 then {#} else {#u#})) False" using ok Inr by simp
    ultimately show ?thesis using release_drive_ok by blast
  qed
  with k1 show "dm_ok live m' w' owed False" "x \<in># owed \<Longrightarrow> handleOf m' x = handleOf m x" by auto
qed

lemma serveAuth_drives:
  assumes "dm_ok live (svDrives s) (svWorld s) owed False" and "serveAuth A am cr rq s = (r, ck, s')"
    and "axDrives A = E"
  shows "dm_ok live (svDrives s') (svWorld s') owed False"
    and "x \<in># owed \<Longrightarrow> handleOf (svDrives s') x = handleOf (svDrives s) x"
proof -
  have *: "dm_ok live (svDrives s') (svWorld s') owed False \<and> handleOf (svDrives s') \<subseteq>\<^sub>m handleOf (svDrives s)"
    using serveAuth_reaches [OF assms(2), unfolded assms(3)]
  proof (elim disjE exE)
    fix u e assume c: "manager_CloseDrive E u (svDrives s) (svWorld s) = (e, svDrives s', svWorld s')"
    from close_drive_ok [OF assms(1) c] close_drive_shrinks [OF c] show ?thesis by blast
  qed (use assms(1) in simp)
  from * show ok: "dm_ok live (svDrives s') (svWorld s') owed False" by blast
  show "x \<in># owed \<Longrightarrow> handleOf (svDrives s') x = handleOf (svDrives s) x"
    by (rule shrunk_kept [OF _ ok]) (use * in blast)
qed

lemma serveAdmin_drives:
  assumes "dm_ok live (svDrives s) (svWorld s) owed False" and "serveAdmin A am cr rq s = (r, s')"
    and "axDrives A = E"
  shows "dm_ok live (svDrives s') (svWorld s') owed False"
    and "x \<in># owed \<Longrightarrow> handleOf (svDrives s') x = handleOf (svDrives s) x"
proof -
  have "dm_ok live (svDrives s') (svWorld s') owed False
      \<and> (x \<in># owed \<longrightarrow> handleOf (svDrives s') x = handleOf (svDrives s) x)"
    using serveAdmin_reaches [OF assms(2), unfolded assms(3)]
  proof (elim disjE exE)
    fix u q assume "manager_Stats E (amNow am) (amEnd am) u (svDrives s) (svWorld s) = (q, svDrives s', svWorld s')"
    from manager_Stats_ok [OF assms(1) this] show ?thesis by blast
  qed (use assms(1) in simp)
  then show "dm_ok live (svDrives s') (svWorld s') owed False"
    "x \<in># owed \<Longrightarrow> handleOf (svDrives s') x = handleOf (svDrives s) x" by blast+
qed

text \<open>The end of a goroutine or of a stream releases the drive it held.\<close>

lemma serveTask_drives:
  assumes "dm_ok live (svDrives s) (svWorld s) (owed + {#u#}) False" and "tkRelease t" and "axDrives A = E"
  shows "dm_ok live (svDrives (serveTask A acc am u v t s)) (svWorld (serveTask A acc am u v t s)) owed False"
    and "x \<in># owed \<Longrightarrow> handleOf (svDrives (serveTask A acc am u v t s)) x = handleOf (svDrives s) x"
proof -
  define rs where "rs = runTask (requestHttp A am) (uuidString u) t
    \<lparr>rqDrive = daGet acc v (svWorld s), rqBroker = svBroker s, rqHolds = False, rqReleased = 0\<rparr>"
  have n: "rqReleased rs = 1" using assms(2) by (simp add: rs_def runTask_released)
  obtain m w where r: "releaseDrive E (amEnd am) u (rqReleased rs) (svDrives s)
      (daPut acc v (rqDrive rs) (svWorld s)) = (m, w)" by fastforce
  have e: "serveTask A acc am u v t s = s\<lparr>svDrives := m, svWorld := w, svBroker := rqBroker rs\<rparr>"
    using r assms(3) by (simp add: serveTask_def Let_def rs_def [symmetric])
  have "dm_ok live (svDrives s) (daPut acc v (rqDrive rs) (svWorld s))
      (owed + (if rqReleased rs = 0 then {#} else {#u#})) False"
    using assms(1) n by (simp add: handles_put)
  from release_drive_ok [OF this r]
  show "dm_ok live (svDrives (serveTask A acc am u v t s)) (svWorld (serveTask A acc am u v t s)) owed False"
    "x \<in># owed \<Longrightarrow> handleOf (svDrives (serveTask A acc am u v t s)) x = handleOf (svDrives s) x"
    by (simp_all add: e)
qed

lemma endStream_drives:
  assumes "dm_ok live (svDrives s) (svWorld s) (owed + {#u#}) False" and "dsRelease st" and "axDrives A = E"
  shows "dm_ok live (svDrives (endStream A am u st s)) (svWorld (endStream A am u st s)) owed False"
    and "x \<in># owed \<Longrightarrow> handleOf (svDrives (endStream A am u st s)) x = handleOf (svDrives s) x"
proof -
  obtain m w where r: "releaseDrive E (amEnd am) u 1 (svDrives s) (svWorld s) = (m, w)" by fastforce
  have e: "endStream A am u st s = s\<lparr>svDrives := m, svWorld := w\<rparr>"
    using r assms(2,3) by (simp add: endStream_def)
  have "dm_ok live (svDrives s) (svWorld s) (owed + (if (1 :: nat) = 0 then {#} else {#u#})) False"
    using assms(1) by simp
  from release_drive_ok [OF this r]
  show "dm_ok live (svDrives (endStream A am u st s)) (svWorld (endStream A am u st s)) owed False"
    "x \<in># owed \<Longrightarrow> handleOf (svDrives (endStream A am u st s)) x = handleOf (svDrives s) x"
    by (simp_all add: e)
qed

end

end
