(* ===== verification/System_Places.thy ===== *)
theory System_Places
  imports System_Inv
begin

text \<open>
  Where the drives are: every open drive of the manager has the directory of its user, whatever the
  server is asked. The configuration the directories are below never changes.
\<close>

section \<open>The configuration stays\<close>

lemma config_simps [simp]:
  "dmConfig (setEntry u e m) = dmConfig m"
  "dmConfig (removeEntry u m) = dmConfig m"
  "dmConfig (countUse u m) = dmConfig m"
  "dmConfig (countRelease m) = dmConfig m"
  by (simp_all add: setEntry_def removeEntry_def countUse_def countRelease_def Let_def split: option.split)

lemma release_config: "manager_release E now u m w = (m', w') \<Longrightarrow> dmConfig m' = dmConfig m"
  by (auto simp: manager_release_def Let_def split: option.splits if_splits)

lemma close_drive_config: "manager_CloseDrive E u m w = (r, m', w') \<Longrightarrow> dmConfig m' = dmConfig m"
  by (auto simp: manager_CloseDrive_def split: option.splits if_splits prod.splits)

lemma idle_step_config: "idleStep E now u (m, w) = (m', w') \<Longrightarrow> dmConfig m' = dmConfig m"
  by (auto simp: idleStep_def split: option.splits if_splits)

lemma idle_config: "closeIdle E now ids m w = (m', w') \<Longrightarrow> dmConfig m' = dmConfig m"
proof (induction ids arbitrary: m w)
  case (Cons u ids)
  obtain m1 w1 where s: "idleStep E now u (m, w) = (m1, w1)" by fastforce
  with Cons show ?case using idle_step_config [OF s] by (simp add: closeIdle_def)
qed (simp add: closeIdle_def)

lemma placed_same: "handleOf m' = handleOf m \<Longrightarrow> dmConfig m' = dmConfig m \<Longrightarrow> drives_placed place m' = drives_placed place m"
  by (simp add: drives_placed_def)

section \<open>Every step keeps the drives in their places\<close>

context drive_places
begin

lemma open_place: "drive_open E m u w = (Inr v, w') \<Longrightarrow> place v = userDir (dmConfig m) u"
  using badger_place [of "driveConfig (dmConfig m) u"] local_place [of "driveConfig (dmConfig m) u"]
  by (cases "dcType (dmConfig m) = DriverTypeBadger"; cases "dcType (dmConfig m) = DriverTypeLocalStorage")
    (auto simp: drive_open_def drivers_New_def driveConfig_def userDir_def)

lemma locked_placed:
  assumes "driveLocked E now u m w = (r, m', w')" and "drives_placed place m"
  shows "drives_placed place m'"
proof -
  note g = locked_grows [OF assms(1)]
  have c: "dmConfig m' = dmConfig m"
    using assms(1) by (auto simp: driveLocked_def split: if_splits option.splits sum.splits prod.splits)
  have "place v = userDir (dmConfig m) u" if h: "handleOf m' u = Some v" for v
  proof (cases "handleOf m u")
    case None
    then have n: "dmDrives m u = None" by (simp add: handleOf_def)
    obtain r0 w0 where o: "drive_open E m u w = (r0, w0)" by fastforce
    have "r0 = Inr v" using assms(1) h n o
      by (cases r0) (auto simp: driveLocked_def handleOf_def split: if_splits)
    with o show ?thesis by (auto dest: open_place)
  next
    case (Some v0)
    then have "v = v0" using g(1) h by (force simp: map_le_def dom_def)
    with Some assms(2) show ?thesis by (simp add: drives_placed_def)
  qed
  then have "place v = userDir (dmConfig m) y" if "handleOf m' y = Some v" for y v
    using that g(3) assms(2) by (cases "y = u") (auto simp: drives_placed_def)
  then show ?thesis by (simp add: drives_placed_def c)
qed

lemma acquire_placed:
  assumes "manager_Acquire E now u m w = (r, m', w')" and "drives_placed place m"
  shows "drives_placed place m'"
proof -
  obtain r1 m1 w1 where d: "driveLocked E now u m w = (r1, m1, w1)" by (metis prod_cases3)
  have "handleOf m' = handleOf m1" "dmConfig m' = dmConfig m1"
    using assms(1) d by (auto simp: manager_Acquire_def split: sum.splits)
  from placed_same [OF this, of place] locked_placed [OF d assms(2)] show ?thesis by simp
qed

lemma release_placed:
  "releaseDrive E now u n m w = (m', w') \<Longrightarrow> drives_placed place m \<Longrightarrow> drives_placed place m'"
  using placed_shrinks [OF _ release_shrinks(1) release_config]
  by (auto simp: releaseDrive_def split: if_splits)

lemma stats_placed:
  assumes "manager_Stats E now later u m w = (r, m', w')" and "drives_placed place m"
  shows "drives_placed place m'"
proof -
  obtain q was m1 w1 where b: "stats_begin E now u m w = (q, was, m1, w1)" by (metis prod_cases4)
  obtain r2 m2 w2 where a: "manager_Acquire E now u m w = (r2, m2, w2)" by (metis prod_cases3)
  have "handleOf m1 = handleOf m2" "dmConfig m1 = dmConfig m2" using b a setEntry_handles [of m2 u]
    by (auto simp: stats_begin_def Let_def split: sum.splits if_splits option.splits)
  from placed_same [OF this, of place] acquire_placed [OF a assms(2)] have p: "drives_placed place m1" by simp
  show ?thesis
  proof (cases q)
    case (Inr v)
    then have "releaseDrive E later u 1 m1 w1 = (m', w')"
      using assms(1) b by (auto simp: manager_Stats_def releaseDrive_def)
    from release_placed [OF this p] show ?thesis .
  qed (use assms(1) b p in \<open>auto simp: manager_Stats_def\<close>)
qed

lemma onDrive_placed:
  assumes "onDrive A acc fs sk am u rq s = (r, t, v, s')" and "axDrives A = E" and "drives_placed place (svDrives s)"
  shows "drives_placed place (svDrives s')"
proof -
  obtain q m w where a: "manager_Acquire E (amNow am) u (svDrives s) (svWorld s) = (q, m, w)" by (metis prod_cases3)
  note p = acquire_placed [OF a assms(3)]
  show ?thesis
  proof (cases q)
    case (Inr hd)
    obtain r1 t1 rs where h: "withVFS (requestHttp A am) fs sk u rq (daGet acc hd w) (svBroker s) = (r1, t1, rs)"
      by (metis prod_cases3)
    obtain m' w' where rel: "releaseDrive E (amEnd am) u (rqReleased rs) m (daPut acc hd (rqDrive rs) w) = (m', w')"
      by fastforce
    have "svDrives s' = m'" using assms(1,2) a Inr h rel by (auto simp: onDrive_def)
    with release_placed [OF rel p] show ?thesis by simp
  qed (use assms(1,2) a p in \<open>auto simp: onDrive_def\<close>)
qed

lemma serveTask_placed:
  assumes "drives_placed place (svDrives s)" and "axDrives A = E"
  shows "drives_placed place (svDrives (serveTask A acc am u v t s))"
  using release_placed [OF prod.collapse [symmetric] assms(1)] assms(2)
  by (simp add: serveTask_def Let_def case_prod_unfold)

lemma endStream_placed:
  assumes "drives_placed place (svDrives s)" and "axDrives A = E"
  shows "drives_placed place (svDrives (endStream A am u st s))"
  using release_placed [OF prod.collapse [symmetric] assms(1)] assms(2)
  by (simp add: endStream_def case_prod_unfold)

lemma server_step_placed:
  assumes "server_step A acc fs sk s s'" and "axDrives A = E" and "drives_placed place (svDrives (syServer s))"
  shows "drives_placed place (svDrives (syServer s'))"
  using assms(1)
proof cases
  case (sv_auth am cr rq r ck sv)
  from serveAuth_reaches [OF sv_auth(2), unfolded assms(2)]
  show ?thesis
    using placed_shrinks [OF assms(3) close_drive_shrinks close_drive_config] assms(3) by (auto simp: sv_auth(1))
next
  case (sv_admin am cr rq r sv)
  from serveAdmin_reaches [OF sv_admin(2), unfolded assms(2)]
  show ?thesis using stats_placed assms(3) by (auto simp: sv_admin(1))
next
  case (sv_vfs am cr rq r t v sv tok user)
  obtain s1 where "onDrive A acc fs sk am (uID user) rq (syServer s) = (r, t, v, s1)" "svDrives sv = svDrives s1"
    using sv_vfs(2,3) by (auto simp: serveVfs_def split: prod.splits)
  with onDrive_placed [OF _ assms(2,3)] show ?thesis by (simp add: sv_vfs(1))
next
  case (sv_task xs u v t ys am)
  show ?thesis using serveTask_placed [OF assms(3,2)] by (simp add: sv_task(1))
next
  case (sv_stream zs u v st zs' am)
  show ?thesis using endStream_placed [OF assms(3,2)] by (simp add: sv_stream(1))
next
  case (sv_idle ids now m w)
  show ?thesis
    using placed_shrinks [OF assms(3) idle_shrinks [OF sv_idle(3)] idle_config [OF sv_idle(3)]] by (simp add: sv_idle(1))
qed

lemma system_reach_placed:
  "(server_step A acc fs sk)\<^sup>*\<^sup>* s0 s \<Longrightarrow> axDrives A = E \<Longrightarrow> drives_placed place (svDrives (syServer s0))
    \<Longrightarrow> drives_placed place (svDrives (syServer s))"
  by (induction rule: rtranclp_induct) (use server_step_placed in blast)+

end

end
