(* ===== verification/System_Apart.thy ===== *)
theory System_Apart
  imports System_Places
begin

text \<open>
  The steps of the system: every one keeps the invariant, and those of one user, a request with a session
  of the account or a goroutine it left, reach no other drive and send messages to no other user.
\<close>

section \<open>Messages\<close>

text \<open>The broker's queue gets messages for one user at most.\<close>

definition addressed :: "string \<Rightarrow> broker \<Rightarrow> broker \<Rightarrow> bool" where
  "addressed user b b' \<longleftrightarrow> (\<exists>ps. bkMessage b' = bkMessage b @ ps \<and> (\<forall>p \<in> set ps. pubUser p = user))"

lemma addressed_refl [simp]: "addressed user b b"
  by (simp add: addressed_def)

lemma addressed_publish [simp]: "addressed user b (sse_Publish user i data retry b)"
  by (auto simp: addressed_def sse_Publish_def sse_publish_def message_send_def)

lemma addressed_notify [simp]:
  "rqBroker s' = rqBroker s \<Longrightarrow> addressed user (rqBroker s) (rqBroker (notify H user cid m s'))"
  by (simp add: notify_def split: option.split)

definition addressedBy :: "string \<Rightarrow> 'd req_state \<Rightarrow> ('d, 'r) handled \<Rightarrow> bool" where
  "addressedBy user s h = addressed user (rqBroker s) (rqBroker (snd (snd h)))"

lemma addressed_plain [simp]: "rqBroker s' = rqBroker s \<Longrightarrow> addressedBy user s (r, t, s')"
  by (simp add: addressedBy_def)

lemma addressed_notified [simp]:
  "rqBroker s' = rqBroker s \<Longrightarrow> addressedBy user s (r, t, notify H user cid m s')"
  by (simp add: addressedBy_def)

lemma addressed_accepted [simp]: "addressedBy user s (accepted H cid do s)"
  by (simp add: accepted_def asyncExecute_def takeRelease_def)

lemma addressed_createResult [simp]: "addressedBy user s (createResult H S user wait cid do s)"
  by (simp add: createResult_def split: prod.split option.split sum.split)

lemma addressed_asyncModify [simp]: "addressedBy user s (asyncModify H S user i body wait cid action fn s)"
  by (simp add: asyncModify_def Let_def split: prod.split option.split sum.split)

lemma addressed_Read [simp]: "addressedBy user s (handler_Read H S sk i rng s)"
  by (simp add: handler_Read_def Let_def takeRelease_def split: prod.split option.split sum.split list.split)

lemma addressed_handle: "addressedBy user s (handle H S sk user req s)"
proof (cases req)
  case (RqCreate name isDir form wait cid)
  then show ?thesis by (simp add: handler_Create_def Let_def split: option.split bool.split prod.split sum.split)
next
  case (RqBackup)
  then show ?thesis by (simp add: handler_Backup_def takeRelease_def)
qed (simp_all add: handler_List_def handler_Search_def handler_Stat_def handler_Write_def handler_Delete_def
    handler_WriteComments_def handler_Restore_def Let_def
    split: option.split sum.split prod.split)

lemma withVFS_addressed:
  "withVFS H fs sk u req d b = (r, t, s) \<Longrightarrow> addressed (uuidString u) b (rqBroker s)"
  using addressed_handle [of "uuidString u" "\<lparr>rqDrive = d, rqBroker = b, rqHolds = True, rqReleased = 0\<rparr>" H
      "NewVfsService fs ''/vfs''" sk req]
  by (auto simp: withVFS_def addressedBy_def handler_Close_def takeRelease_def callRelease_def split: prod.splits if_splits)

lemma runTask_addressed: "addressed user (rqBroker s) (rqBroker (runTask H user t s))"
  by (simp add: runTask_def callRelease_def split: prod.split option.split)

section \<open>Other drives\<close>

context drive_places
begin

text \<open>What a request or a goroutine of \<open>u\<close> leaves as it is: the open drive of another user.\<close>

definition apart :: "'v manager \<Rightarrow> 'w \<Rightarrow> 'v manager \<Rightarrow> 'w \<Rightarrow> uuid \<Rightarrow> bool" where
  "apart m w m' w' x \<longleftrightarrow> (\<forall>h. handleOf m x = Some h \<longrightarrow> handleOf m' x = Some h \<and> daGet acc h w' = daGet acc h w)"

lemma apart_trans: "apart m w m1 w1 x \<Longrightarrow> apart m1 w1 m' w' x \<Longrightarrow> apart m w m' w' x"
  by (simp add: apart_def)

text \<open>The directories of two users are apart, hence those of their drives.\<close>

lemma handles_apart:
  assumes "drives_placed place m" and "handleOf m u = Some v" and "handleOf m x = Some h" and "x \<noteq> u"
  shows "apartDirs (place v) (place h)"
proof -
  have "place v = userDir (dmConfig m) u" "place h = userDir (dmConfig m) x"
    using assms(1-3) by (simp_all add: drives_placed_def)
  then show ?thesis using userDir_apart assms(4) by metis
qed

lemma open_apart:
  assumes "drive_open E m u w = (r, w')" and "h \<in> live w" and "place h = userDir (dmConfig m) x" and "x \<noteq> u"
  shows "daGet acc h w' = daGet acc h w"
proof -
  have a: "apartDirs (userDir (dmConfig m) u) (place h)" using userDir_apart assms(3,4) by metis
  let ?c = "driveConfig (dmConfig m) u"
  consider "dcType (dmConfig m) = DriverTypeBadger" "dvBadger E ?c w = (r, w')" "dcBadgerPath ?c = userDir (dmConfig m) u"
    | "dcType (dmConfig m) = DriverTypeLocalStorage" "dvLocal E ?c w = (r, w')" "dcLocalPath ?c = userDir (dmConfig m) u"
    | "w' = w"
    using assms(1) by (cases "dcType (dmConfig m) = DriverTypeBadger"; cases "dcType (dmConfig m) = DriverTypeLocalStorage")
      (auto simp: drive_open_def drivers_New_def driveConfig_def userDir_def)
  then show ?thesis
  proof cases
    case 1
    with badger_apart [OF 1(2) assms(2)] a show ?thesis by simp
  next
    case 2
    with local_apart [OF 2(2) assms(2)] a show ?thesis by simp
  qed simp
qed

lemma acquire_apart:
  assumes "manager_Acquire E now u m w = (r, m', w')" and "dm_ok live m w owed f" and "drives_placed place m" and "x \<noteq> u"
  shows "apart m w m' w' x"
proof -
  have "w' = w \<or> (\<exists>q. drive_open E m u w = (q, w'))"
    using assms(1) by (auto simp: manager_Acquire_def driveLocked_def split: if_splits option.splits sum.splits prod.splits)
  moreover have "h \<in> live w" "place h = userDir (dmConfig m) x" if "handleOf m x = Some h" for h
    using assms(2,3) that by (auto simp: dm_ok_def handles_ok_def drives_placed_def intro: ranI)
  ultimately show ?thesis using acquire_grows(3) [OF assms(1,4)] open_apart assms(4) unfolding apart_def by metis
qed

lemma release_apart:
  assumes "releaseDrive E now u n m w = (m', w')" and "drives_placed place m" and "x \<noteq> u"
  shows "apart m w m' w' x"
proof (cases "n = 0")
  case False
  then have r: "manager_release E now u m w = (m', w')" using assms(1) by (simp add: releaseDrive_def)
  then consider "w' = w" | v where "handleOf m u = Some v" "w' = snd (dvClose E v w)"
    by (auto simp: manager_release_def Let_def handleOf_def split: option.splits if_splits)
  then show ?thesis
  proof cases
    case 2
    have "daGet acc h w' = daGet acc h w" if "handleOf m x = Some h" for h
      using close_apart [OF prod.collapse [symmetric]] handles_apart [OF assms(2) 2(1) that assms(3)] 2(2) by metis
    with release_shrinks(2) [OF r assms(3)] show ?thesis by (simp add: apart_def)
  qed (use release_shrinks(2) [OF r assms(3)] in \<open>simp add: apart_def\<close>)
qed (use assms(1) in \<open>simp add: releaseDrive_def apart_def\<close>)

lemma put_leaves:
  assumes "drives_placed place m" and "handleOf m u = Some v" and "x \<noteq> u"
  shows "apart m w m (daPut acc v d w) x"
  using handles_apart [OF assms(1,2) _ assms(3)] put_apart unfolding apart_def by metis

lemma onDrive_apart:
  assumes "onDrive A acc fs sk am u rq s = (r, t, v, s')" and "axDrives A = E"
    and "dm_ok live (svDrives s) (svWorld s) owed f" and "drives_placed place (svDrives s)" and "x \<noteq> u"
  shows "apart (svDrives s) (svWorld s) (svDrives s') (svWorld s') x"
    and "addressed (uuidString u) (svBroker s) (svBroker s')"
proof -
  obtain q m w where a: "manager_Acquire E (amNow am) u (svDrives s) (svWorld s) = (q, m, w)" by (metis prod_cases3)
  note ap = acquire_apart [OF a assms(3-5)] and pl = acquire_placed [OF a assms(4)]
  have "apart (svDrives s) (svWorld s) (svDrives s') (svWorld s') x \<and> addressed (uuidString u) (svBroker s) (svBroker s')"
  proof (cases q)
    case (Inl e)
    then have "s' = s\<lparr>svDrives := m, svWorld := w\<rparr>" using assms(1,2) a by (auto simp: onDrive_def)
    with ap show ?thesis by simp
  next
    case (Inr hd)
    obtain r1 t1 rs where h: "withVFS (requestHttp A am) fs sk u rq (daGet acc hd w) (svBroker s) = (r1, t1, rs)"
      by (metis prod_cases3)
    obtain m' w' where rel: "releaseDrive E (amEnd am) u (rqReleased rs) m (daPut acc hd (rqDrive rs) w) = (m', w')"
      by fastforce
    have e: "s' = s\<lparr>svDrives := m', svWorld := w', svBroker := rqBroker rs\<rparr>"
      using assms(1,2) a Inr h rel by (auto simp: onDrive_def)
    have hu: "handleOf m u = Some hd" by (rule acquire_grows(2) [OF a Inr])
    have "apart m w m' w' x"
      by (rule apart_trans [OF put_leaves [OF pl hu assms(5)] release_apart [OF rel pl assms(5)]])
    with apart_trans [OF ap this] withVFS_addressed [OF h] show ?thesis by (simp add: e)
  qed
  then show "apart (svDrives s) (svWorld s) (svDrives s') (svWorld s') x"
    "addressed (uuidString u) (svBroker s) (svBroker s')" by blast+
qed

lemma serveTask_apart:
  assumes "drives_placed place (svDrives s)" and "axDrives A = E"
    and "handleOf (svDrives s) u = Some v" and "x \<noteq> u"
  shows "apart (svDrives s) (svWorld s) (svDrives (serveTask A acc am u v t s)) (svWorld (serveTask A acc am u v t s)) x"
    and "addressed (uuidString u) (svBroker s) (svBroker (serveTask A acc am u v t s))"
proof -
  define rs where "rs = runTask (requestHttp A am) (uuidString u) t
    \<lparr>rqDrive = daGet acc v (svWorld s), rqBroker = svBroker s, rqHolds = False, rqReleased = 0\<rparr>"
  obtain m w where r: "releaseDrive E (amEnd am) u (rqReleased rs) (svDrives s)
      (daPut acc v (rqDrive rs) (svWorld s)) = (m, w)" by fastforce
  have e: "serveTask A acc am u v t s = s\<lparr>svDrives := m, svWorld := w, svBroker := rqBroker rs\<rparr>"
    using r assms(2) by (simp add: serveTask_def Let_def rs_def [symmetric])
  have "apart (svDrives s) (svWorld s) m w x"
    by (rule apart_trans [OF put_leaves [OF assms(1,3,4)] release_apart [OF r assms(1,4)]])
  then show "apart (svDrives s) (svWorld s) (svDrives (serveTask A acc am u v t s)) (svWorld (serveTask A acc am u v t s)) x"
    by (simp add: e)
  show "addressed (uuidString u) (svBroker s) (svBroker (serveTask A acc am u v t s))"
    using runTask_addressed [of "uuidString u"
        "\<lparr>rqDrive = daGet acc v (svWorld s), rqBroker = svBroker s, rqHolds = False, rqReleased = 0\<rparr>" "requestHttp A am" t]
    by (simp add: e rs_def)
qed

end

section \<open>Steps\<close>

text \<open>Every step keeps the invariant.\<close>

context drive_states
begin

lemma server_step_ok:
  assumes "server_step A acc fs sk s s'" and "system_ok live s" and "axDrives A = E"
  shows "system_ok live s'"
proof -
  have ok: "dm_ok live (svDrives (syServer s)) (svWorld (syServer s)) (owedOf s) False"
    using assms(2) by (simp add: system_ok_def)
  show ?thesis
    using assms(1)
  proof cases
    case (sv_auth am cr rq r ck sv)
    note d = serveAuth_drives [OF ok sv_auth(2) assms(3)]
    show ?thesis by (rule system_ok_step [OF assms(2)]) (use sv_auth(1) d in simp_all)
  next
    case (sv_admin am cr rq r sv)
    note d = serveAdmin_drives [OF ok sv_admin(2) assms(3)]
    show ?thesis by (rule system_ok_step [OF assms(2)]) (use sv_admin(1) d in simp_all)
  next
    case (sv_vfs am cr rq r t v sv tok user)
    obtain s1 where o: "onDrive A acc fs sk am (uID user) rq (syServer s) = (r, t, v, s1)"
      "svDrives sv = svDrives s1" "svWorld sv = svWorld s1"
      using sv_vfs(2,3) by (auto simp: serveVfs_def split: prod.splits)
    note d = onDrive_ok [OF o(1) assms(3) ok]
    have own: "owedOf s' = owedOf s + (mset (map fst (leftTasks (uID user) v t)) + mset (map fst (leftStreams (uID user) v r)))"
      by (simp add: sv_vfs(1)) (simp add: owedOf_def)
    show ?thesis
    proof (rule system_ok_step [OF assms(2)])
      show "dm_ok live (svDrives (syServer s')) (svWorld (syServer s')) (owedOf s') False"
        unfolding own using d(1) sv_vfs(1) o by simp
    qed (use sv_vfs(1) o d(2-4) in auto)
  next
    case (sv_task xs u v t ys am)
    have own: "owedOf s = mset (map fst (xs @ ys)) + mset (map fst (syStreams s)) + {#u#}"
      by (simp add: owedOf_def sv_task(2))
    have "tkRelease t" using assms(2) sv_task(2) by (simp add: system_ok_def)
    note d = serveTask_drives [OF ok [unfolded own] this assms(3)]
    show ?thesis
    proof (rule system_ok_step [OF assms(2)])
      fix x assume "x \<in># owedOf s'"
      then have "x \<in># mset (map fst (xs @ ys)) + mset (map fst (syStreams s))" by (simp add: sv_task(1))
      from d(2) [OF this] show "handleOf (svDrives (syServer s')) x = handleOf (svDrives (syServer s)) x"
        by (simp add: sv_task(1))
    qed (use sv_task d(1) in auto)
  next
    case (sv_stream zs u v st zs' am)
    have own: "owedOf s = mset (map fst (syTasks s)) + mset (map fst (zs @ zs')) + {#u#}"
      by (simp add: owedOf_def sv_stream(2))
    have "dsRelease st" using assms(2) sv_stream(2) by (simp add: system_ok_def)
    note d = endStream_drives [OF ok [unfolded own] this assms(3)]
    show ?thesis
    proof (rule system_ok_step [OF assms(2)])
      fix x assume "x \<in># owedOf s'"
      then have "x \<in># mset (map fst (syTasks s)) + mset (map fst (zs @ zs'))" by (simp add: sv_stream(1))
      from d(2) [OF this] show "handleOf (svDrives (syServer s')) x = handleOf (svDrives (syServer s)) x"
        by (simp add: sv_stream(1))
    qed (use sv_stream d(1) in auto)
  next
    case (sv_idle ids now m w)
    have c: "closeIdle E now ids (svDrives (syServer s)) (svWorld (syServer s)) = (m, w)"
      using sv_idle(3) assms(3) by simp
    note ok' = idle_ok [OF ok c]
    show ?thesis
      by (rule system_ok_step [OF assms(2)])
        (use sv_idle(1) ok' shrunk_kept [OF idle_shrinks [OF c] ok'] in simp_all)
  qed
qed

lemma system_start_ok:
  "svDrives (syServer s) = NewDriveManager cfg idle \<Longrightarrow> live (svWorld (syServer s)) = {} \<Longrightarrow> syTasks s = [] \<Longrightarrow>
   syStreams s = [] \<Longrightarrow> system_ok live s"
  by (simp add: system_ok_def owedOf_def dm_ok_def handles_ok_def counters_ok_def NewDriveManager_def handleOf_def)

lemma system_reach_ok:
  assumes "(server_step A acc fs sk)\<^sup>*\<^sup>* s0 s" and "axDrives A = E" and "system_ok live s0"
  shows "system_ok live s"
  using assms(1) by induction (use assms(2,3) server_step_ok in blast)+

end

text \<open>The steps of one user: a request with a session of the account, and a goroutine it left.\<close>

inductive user_step :: "('d, 't, 'v, 'w) auth_env \<Rightarrow> ('v, 'w, 'ds) drive_access \<Rightarrow> ('ds, 'i, 'r) vfs_ops
    \<Rightarrow> ('r \<Rightarrow> int \<Rightarrow> int \<Rightarrow> (err + int) \<times> 'r) option \<Rightarrow> uuid
    \<Rightarrow> ('d, 'v, 'w, 'ds, 'r) system \<Rightarrow> ('d, 'v, 'w, 'ds, 'r) system \<Rightarrow> bool"
  for A :: "('d, 't, 'v, 'w) auth_env" and acc :: "('v, 'w, 'ds) drive_access" and fs :: "('ds, 'i, 'r) vfs_ops"
    and sk :: "('r \<Rightarrow> int \<Rightarrow> int \<Rightarrow> (err + int) \<times> 'r) option" where
  by_request: "serveVfs A acc fs sk am cr rq (syServer s) = (r, t, v, sv) \<Longrightarrow>
    admitted A am cr (svUsers (syServer s)) = Inr (tok, user) \<Longrightarrow>
    user_step A acc fs sk (uID user) s (s\<lparr>syServer := sv, syTasks := syTasks s @ leftTasks (uID user) v t,
      syStreams := syStreams s @ leftStreams (uID user) v r\<rparr>)"
| by_task: "syTasks s = xs @ (u, v, t) # ys \<Longrightarrow>
    user_step A acc fs sk u s (s\<lparr>syServer := serveTask A acc am u v t (syServer s), syTasks := xs @ ys\<rparr>)"

lemma user_step_server: "user_step A acc fs sk u s s' \<Longrightarrow> server_step A acc fs sk s s'"
  by (cases rule: user_step.cases) (auto intro: server_step.intros)

context drive_places
begin

lemma user_step_apart:
  assumes "user_step A acc fs sk u s s'" and "system_ok live s" and "axDrives A = E" and "x \<noteq> u"
    and pl: "drives_placed place (svDrives (syServer s))"
  shows "apart (svDrives (syServer s)) (svWorld (syServer s)) (svDrives (syServer s')) (svWorld (syServer s')) x
    \<and> addressed (uuidString u) (svBroker (syServer s)) (svBroker (syServer s'))"
proof -
  have ok: "dm_ok live (svDrives (syServer s)) (svWorld (syServer s)) (owedOf s) False"
    using assms(2) by (simp add: system_ok_def)
  show ?thesis
    using assms(1)
  proof cases
    case (by_request am cr rq r t v sv tok user)
    obtain s1 where o: "onDrive A acc fs sk am (uID user) rq (syServer s) = (r, t, v, s1)"
      "svDrives sv = svDrives s1" "svWorld sv = svWorld s1" "svBroker sv = svBroker s1"
      using by_request(3,4) by (auto simp: serveVfs_def split: prod.splits)
    from onDrive_apart [OF o(1) assms(3) ok pl] assms(4) show ?thesis by (simp add: by_request(1,2) o)
  next
    case (by_task xs v t ys am)
    have "handleOf (svDrives (syServer s)) u = Some v"
      using assms(2) by_task(2) by (simp add: system_ok_def holdsOpen_def)
    from serveTask_apart [OF pl assms(3) this assms(4)] show ?thesis by (simp add: by_task(1))
  qed
qed

end

end
