(* ===== verification/Auth_Facts.thy ===== *)
theory Auth_Facts
  imports Auth Users_Theorems Drives_Theorems
begin

text \<open>
  What the guards admit and what the requests do to the accounts: the contract of the token library as
  the locale \<open>token_env\<close> with an instance, the runs of requests, and how many new passwords an account
  got in one.
\<close>

section \<open>Refusals\<close>

lemma plainE_Inr [simp]: "plainE r = Inr x \<longleftrightarrow> r = Inr x"
  by (auto simp: plainE_def split: sum.splits)

lemma jwt_refusal: "JWTAuthMiddleware A am cr = Inl e \<Longrightarrow> e = errUnauthorized"
  by (auto simp: JWTAuthMiddleware_def split: option.splits sum.splits)

lemma user_refusal: "UserMiddleware A tok d = Inl e \<Longrightarrow> e = errUnauthorized"
  by (auto simp: UserMiddleware_def split: option.splits sum.splits if_splits)

lemma admitted_refusal: "admitted A am cr d = Inl e \<Longrightarrow> e = errUnauthorized"
  by (auto simp: admitted_def bindE_def split: sum.splits dest: jwt_refusal user_refusal)

section \<open>The token a request offers\<close>

definition offered :: "credentials \<Rightarrow> string option" where
  "offered cr = (case crBearer cr of Some s \<Rightarrow> Some s | None \<Rightarrow> crCookie cr)"

definition sessionText :: "user \<Rightarrow> string" where
  "sessionText u = formatUint (unat (uSessionVersion u))"

lemma sessionText_eq: "sessionText u = sessionText v \<longleftrightarrow> uSessionVersion u = uSessionVersion v"
  unfolding sessionText_def by (metis formatUint_inj unsigned_word_eqI)

lemma jwt_iff:
  "JWTAuthMiddleware A am cr = Inr tok \<longleftrightarrow>
     (\<exists>s e. offered cr = Some s \<and> axVerify A (axSecret A) (amNow am) s = Some tok \<and> jtExp tok = Inr (Some e))"
  by (auto simp: JWTAuthMiddleware_def offered_def split: option.splits sum.splits)

context user_reliable
begin

lemma byID_exact:
  "users_ok E (dview d) \<Longrightarrow>
   user_ByID E d i = (case userAt E (dview d) i of None \<Rightarrow> Inl ErrUserNotFound | Some u \<Rightarrow> Inr u)"
  by (simp add: user_ByID_def dbView_def readUser_exact)

end

lemma user_middleware_iff:
  assumes "user_reliable (axUsers A) dview tview twr" and "users_ok (axUsers A) (dview d)"
  shows "UserMiddleware A tok d = Inr u \<longleftrightarrow>
    (\<exists>sub. jtSubject tok = Inr sub \<and> hpParseID A sub = Some (uID u)
       \<and> userAt (axUsers A) (dview d) (uID u) = Some u \<and> \<not> uDisabled u
       \<and> jtVersion tok = Some (sessionText u))"
proof -
  have a: "UserMiddleware A tok d = Inr u \<longleftrightarrow>
      (\<exists>sub i. jtSubject tok = Inr sub \<and> hpParseID A sub = Some i \<and> user_ByID (axUsers A) d i = Inr u
         \<and> \<not> uDisabled u \<and> jtVersion tok = Some (sessionText u))"
    unfolding UserMiddleware_def sessionText_def
    by (simp split: sum.split option.split) blast
  have b: "user_ByID (axUsers A) d i = Inr u \<longleftrightarrow> i = uID u \<and> userAt (axUsers A) (dview d) (uID u) = Some u"
    for i using users_okD(1) [OF assms(2), of i u]
    by (auto simp: user_reliable.byID_exact [OF assms] split: option.splits)
  show ?thesis unfolding a b by blast
qed

lemma admitted_iff:
  assumes "user_reliable (axUsers A) dview tview twr" and "users_ok (axUsers A) (dview d)"
  shows "admitted A am cr d = Inr (tok, u) \<longleftrightarrow>
    (\<exists>s e sub. offered cr = Some s \<and> axVerify A (axSecret A) (amNow am) s = Some tok
       \<and> jtExp tok = Inr (Some e) \<and> jtSubject tok = Inr sub \<and> hpParseID A sub = Some (uID u)
       \<and> userAt (axUsers A) (dview d) (uID u) = Some u \<and> \<not> uDisabled u
       \<and> jtVersion tok = Some (sessionText u))"
proof -
  have "admitted A am cr d = Inr (tok, u) \<longleftrightarrow>
      JWTAuthMiddleware A am cr = Inr tok \<and> UserMiddleware A tok d = Inr u"
    by (auto simp: admitted_def bindE_def split: sum.splits)
  then show ?thesis unfolding user_middleware_iff [OF assms] jwt_iff by blast
qed

section \<open>The contract of the token library\<close>

text \<open>
  A signed token verifies until it expires and shows the claims it was signed with; what a token shows
  does not depend on the time; an identifier is parsed from its text.
\<close>

locale token_env =
  fixes A :: "('d, 't, 'v, 'w) auth_env"
  assumes verify_signed: "axSign A k c = Inr s \<Longrightarrow> 0 < tcExp c \<Longrightarrow> tcExp c < 2 ^ 53 \<Longrightarrow>
      now < tcExp c * 1000000000 \<Longrightarrow> axVerify A k now s = Some \<lparr>jtRaw = s, jtSubject = Inr (tcSubject c),
        jtExp = Inr (Some (tcExp c * 1000000000)), jtVersion = Some (tcVersion c)\<rparr>"
    and verify_expired: "axVerify A k now s = Some tok \<Longrightarrow> jtExp tok = Inr (Some e) \<Longrightarrow> now < e"
    and verify_stable: "axVerify A k now s = Some tok \<Longrightarrow> axVerify A k later s = Some tok' \<Longrightarrow> tok' = tok"
    and parse_text: "hpParseID A (uuidString i) = Some i"
begin

lemma login_facts:
  assumes "handler_Login A am cr (Inr req) srv = (Inr (RyToken t), ck, srv')"
  obtains u where "user_Authenticate (axUsers A) (svUsers srv) (lqUsername req) (lqPassword req) = Inr u"
    "trID t = uID u" "trExpiresAt t = (amNow am + axLifetime A) div 1000000000 * 1000000000"
    "0 < trExpiresAt t \<Longrightarrow> trExpiresAt t < 2 ^ 53 * 1000000000 \<Longrightarrow> now < trExpiresAt t \<Longrightarrow>
       axVerify A (axSecret A) now (trToken t) = Some \<lparr>jtRaw = trToken t, jtSubject = Inr (uuidString (uID u)),
         jtExp = Inr (Some (trExpiresAt t)), jtVersion = Some (sessionText u)\<rparr>"
    "srv' = srv\<lparr>svUsers := snd (user_RecordEvent (axUsers A) (amFresh am) (amEnd am) (svUsers srv) u ''auth.login'' 200)\<rparr>"
proof -
  obtain u where u: "user_Authenticate (axUsers A) (svUsers srv) (lqUsername req) (lqPassword req) = Inr u"
    using assms by (auto simp: handler_Login_def split: sum.splits)
  let ?c = "\<lparr>tcSubject = uuidString (uID u), tcExp = (amNow am + axLifetime A) div 1000000000,
     tcVersion = formatUint (unat (uSessionVersion u))\<rparr>"
  obtain s where s: "axSign A (axSecret A) ?c = Inr s"
    using assms u by (auto simp: handler_Login_def Let_def split: sum.splits)
  have t: "t = \<lparr>trID = uID u, trUsername = uUsername u, trRole = uRole u, trToken = s,
      trExpiresAt = tcExp ?c * 1000000000\<rparr>"
    "srv' = srv\<lparr>svUsers := snd (user_RecordEvent (axUsers A) (amFresh am) (amEnd am) (svUsers srv) u ''auth.login'' 200)\<rparr>"
    using assms u s by (auto simp: handler_Login_def Let_def)
  show thesis
  proof (rule that [OF u _ _ _ t(2)])
    assume "0 < trExpiresAt t" "trExpiresAt t < 2 ^ 53 * 1000000000" "now < trExpiresAt t"
    then show "axVerify A (axSecret A) now (trToken t) = Some \<lparr>jtRaw = trToken t,
        jtSubject = Inr (uuidString (uID u)), jtExp = Inr (Some (trExpiresAt t)), jtVersion = Some (sessionText u)\<rparr>"
      using verify_signed [OF s, of now] by (simp add: t sessionText_def)
  qed (simp_all add: t)
qed

end

section \<open>What happens to the accounts\<close>

text \<open>
  From one database to a later one: consistency and an active administrator are kept, no account goes
  away or gets another name, and the account \<open>i\<close> has got \<open>n\<close> new passwords.
\<close>

definition accountsGrow :: "('d, 't, 'z) uenv_scheme \<Rightarrow> uuid \<Rightarrow> nat \<Rightarrow> store \<Rightarrow> store \<Rightarrow> bool" where
  "accountsGrow E i n m m' \<longleftrightarrow> users_ok E m' \<and> (adminLeft E m \<longrightarrow> adminLeft E m')
     \<and> (\<forall>j u. userAt E m j = Some u \<longrightarrow> (\<exists>v. userAt E m' j = Some v \<and> uUsername v = uUsername u
          \<and> (j = i \<longrightarrow> uSessionVersion v = uSessionVersion u + of_nat n)))"

lemma grow_refl: "users_ok E m \<Longrightarrow> accountsGrow E i 0 m m"
  by (simp add: accountsGrow_def)

lemma grow_trans:
  assumes "accountsGrow E i n m m'" and "accountsGrow E i k m' m''"
  shows "accountsGrow E i (n + k) m m''"
  unfolding accountsGrow_def
proof (intro conjI allI impI)
  fix j u assume "userAt E m j = Some u"
  then obtain v where v: "userAt E m' j = Some v" "uUsername v = uUsername u"
    "j = i \<longrightarrow> uSessionVersion v = uSessionVersion u + of_nat n"
    using assms(1) unfolding accountsGrow_def by blast
  then obtain w where "userAt E m'' j = Some w" "uUsername w = uUsername v"
    "j = i \<longrightarrow> uSessionVersion w = uSessionVersion v + of_nat k"
    using assms(2) unfolding accountsGrow_def by blast
  with v show "\<exists>v. userAt E m'' j = Some v \<and> uUsername v = uUsername u
      \<and> (j = i \<longrightarrow> uSessionVersion v = uSessionVersion u + of_nat (n + k))" by auto
qed (use assms in \<open>auto simp: accountsGrow_def\<close>)

lemma grow_frame:
  assumes "\<forall>k. \<not> prefix eventPrefix k \<longrightarrow> m' k = m k" and "users_ok E m"
  shows "accountsGrow E i 0 m m'"
  using accounts_frame [of m' m E] assms by (simp add: accountsGrow_def)

context user_env
begin

lemma grow_create:
  assumes "user_Create E j salt now d n p r = (res, d')" and "users_ok E (dview d)" and "utf8 n"
    and "userAt E (dview d) j = None"
  shows "accountsGrow E i 0 (dview d) (dview d')"
proof (cases res)
  case (Inl e)
  with user_failures(1) [OF assms(1) [unfolded Inl]] show ?thesis by (simp add: grow_refl assms(2))
next
  case (Inr u)
  note c = create_accounts [OF assms(1) [unfolded Inr] assms(2-4)]
  have a: "adminLeft E (dview d')" if al: "adminLeft E (dview d)"
  proof -
    obtain k w where k: "userAt E (dview d) k = Some w" "activeAdmin w"
      using al unfolding adminLeft_def by blast
    then have "k \<noteq> j" using assms(4) by auto
    with k c(2) show ?thesis by (auto simp: adminLeft_def)
  qed
  have "userAt E (dview d') k = Some v" if "userAt E (dview d) k = Some v" for k v
    using that assms(4) by (auto simp: c(2))
  with a c(1) show ?thesis by (simp add: accountsGrow_def)
qed

lemma grow_update:
  assumes "user_Update E salt now d j upd = (res, d')" and "users_ok E (dview d)"
  shows "accountsGrow E i (if j = i \<and> upPassword upd \<noteq> [] \<and> (\<exists>u. res = Inr u) then 1 else 0) (dview d) (dview d')"
proof (cases res)
  case (Inl e)
  with user_failures(2) [OF assms(1) [unfolded Inl]] show ?thesis by (simp add: grow_refl assms(2))
next
  case (Inr u)
  obtain v hash where v: "userAt E (dview d) j = Some v" "u = updated upd hash now v"
    "upPassword upd = [] \<longrightarrow> hash = None" "upPassword upd \<noteq> [] \<longrightarrow> (\<exists>h. hash = Some h)"
    "users_ok E (dview d')" "userAt E (dview d') = (userAt E (dview d))(j \<mapsto> u)"
    "adminLeft E (dview d) \<longrightarrow> adminLeft E (dview d')"
    using update_accounts [OF assms(1) [unfolded Inr] assms(2)] by blast
  then have "uSessionVersion u = uSessionVersion v + (if upPassword upd \<noteq> [] then 1 else 0)"
    "uUsername u = uUsername v" by auto
  then have "\<exists>w. ((userAt E (dview d))(j \<mapsto> u)) k = Some w \<and> uUsername w = uUsername x
      \<and> (k = i \<longrightarrow> uSessionVersion w = uSessionVersion x + of_nat (if j = i \<and> upPassword upd \<noteq> [] then 1 else 0))"
    if "userAt E (dview d) k = Some x" for k x
    using that v(1) by (cases "k = j") auto
  with v(5-7) Inr show ?thesis unfolding accountsGrow_def by simp
qed

lemmas grow_record = grow_frame [OF record_frame]
lemmas grow_clear = grow_frame [OF clear_frame]

end

end
