(* ===== verification/Auth_Runs.thy ===== *)
theory Auth_Runs
  imports Auth_Facts
begin

text \<open>
  Runs of requests on the server: what one request does to the accounts and to the log of events, and
  how many new passwords an account has got in a run.
\<close>

section \<open>New passwords\<close>

definition succeeded :: "'a + 'b \<Rightarrow> bool" where
  "succeeded r = (case r of Inl _ \<Rightarrow> False | Inr _ \<Rightarrow> True)"

lemma succeeded_simps [simp]: "succeeded (Inr x)" "\<not> succeeded (Inl e)"
  by (simp_all add: succeeded_def)

lemma succeeded_iff: "succeeded r \<longleftrightarrow> (\<exists>x. r = Inr x)"
  by (cases r) auto

text \<open>Whether a request gives the account \<open>i\<close> a new password.\<close>

definition changesPassword :: "('d, 't, 'v, 'w) auth_env \<Rightarrow> uuid \<Rightarrow> ambient \<Rightarrow> credentials \<Rightarrow> auth_request
    \<Rightarrow> ('d, 'v, 'w) server \<Rightarrow> bool" where
  "changesPassword A i am cr rq s =
     (case rq of
        AqPassword body \<Rightarrow>
          (case admitted A am cr (svUsers s) of
             Inl _ \<Rightarrow> False
           | Inr (tok, user) \<Rightarrow> uID user = i \<and> succeeded (fst (handler_ChangePassword A am body user (svUsers s))))
      | _ \<Rightarrow> False)"

definition resetsPassword :: "('d, 't, 'v, 'w) auth_env \<Rightarrow> uuid \<Rightarrow> ambient \<Rightarrow> credentials \<Rightarrow> admin_request
    \<Rightarrow> ('d, 'v, 'w) server \<Rightarrow> bool" where
  "resetsPassword A i am cr rq s =
     (case rq of
        AqUpdateUser param (Inr upd) \<Rightarrow>
          hpParseID A param = Some i \<and> upPassword upd \<noteq> [] \<and> succeeded (fst (serveAdmin A am cr rq s))
      | _ \<Rightarrow> False)"

text \<open>Text that came out of JSON is valid, and \<open>uuid.NewV4\<close> draws an identifier no account has.\<close>

definition freshAccount :: "('d, 't, 'v, 'w) auth_env \<Rightarrow> ('d \<Rightarrow> store) \<Rightarrow> ambient \<Rightarrow> admin_request
    \<Rightarrow> ('d, 'v, 'w) server \<Rightarrow> bool" where
  "freshAccount A dview am rq s =
     (case rq of
        AqCreateUser (Inr body) \<Rightarrow>
          utf8 (cqUsername body) \<and> userAt (axUsers A) (dview (svUsers s)) (amFresh am) = None
      | _ \<Rightarrow> True)"

section \<open>One request\<close>

lemma grow_audit:
  assumes "user_env (axUsers A) dview tview twr" and "users_ok (axUsers A) (dview d)"
  shows "accountsGrow (axUsers A) i 0 (dview d) (dview (Audit A am g name u st d))"
  using user_env.grow_record [OF assms(1) prod.collapse [symmetric] assms(2)] grow_refl [OF assms(2)]
  by (simp add: Audit_def)

lemma audit_accounts:
  assumes "user_env (axUsers A) dview tview twr"
  shows "userAt E (dview (Audit A am g name u st d)) = userAt E (dview d)"
proof -
  have "\<forall>k. \<not> prefix eventPrefix k \<longrightarrow> dview (Audit A am g name u st d) k = dview d k"
    using user_env.record_frame [OF assms prod.collapse [symmetric]] by (simp add: Audit_def)
  then show ?thesis by (intro accounts_frame(1)) blast
qed

lemma grow_password:
  assumes "user_env (axUsers A) dview tview twr" and "users_ok (axUsers A) (dview d)"
    and "handler_ChangePassword A am body u d = (r, d')"
  shows "accountsGrow (axUsers A) i (if uID u = i \<and> succeeded r then 1 else 0) (dview d) (dview d')"
proof (cases "d' = d \<and> \<not> succeeded r")
  case True
  then show ?thesis by (simp add: grow_refl assms(2))
next
  case False
  then obtain req x where b: "body = Inr req" "pqNew req \<noteq> []"
      "user_Authenticate (axUsers A) d (uUsername u) (pqCurrent req) = Inr x"
    using assms(3) by (auto simp: handler_ChangePassword_def split: option.splits if_splits sum.splits)
  obtain res d1 where u: "user_Update (axUsers A) (amSalt am) (amNow am) d (uID u)
      \<lparr>upRole = None, upDisabled = None, upPassword = pqNew req\<rparr> = (res, d1)" by fastforce
  have "d1 = d'" "succeeded r \<longleftrightarrow> (\<exists>x. res = Inr x)"
    using assms(3) b u by (cases res; auto simp: handler_ChangePassword_def)+
  with user_env.grow_update [OF assms(1) u assms(2), of i] b(2) show ?thesis by simp
qed

lemma serveAuth_grow:
  assumes "user_env (axUsers A) dview tview twr" and "users_ok (axUsers A) (dview (svUsers s))"
    and "serveAuth A am cr rq s = (r, ck, s')"
  shows "accountsGrow (axUsers A) i (if changesPassword A i am cr rq s then 1 else 0)
    (dview (svUsers s)) (dview (svUsers s'))"
proof (cases "svUsers s' = svUsers s \<and> \<not> changesPassword A i am cr rq s")
  case True
  then show ?thesis by (simp add: grow_refl assms(2))
next
  case False
  note env = assms(1)
  consider (login) u where "\<not> changesPassword A i am cr rq s"
      "svUsers s' = snd (user_RecordEvent (axUsers A) (amFresh am) (amEnd am) (svUsers s) u ''auth.login'' 200)"
    | (pw) body tok u d' where "rq = AqPassword body" "admitted A am cr (svUsers s) = Inr (tok, u)"
      "handler_ChangePassword A am body u (svUsers s) = (r, d')"
      "svUsers s' = Audit A am False ''auth.password'' u (auditStatus replyStatus r) d'"
    using assms(3) False
    by (auto simp: serveAuth_def handler_Login_def handler_Logout_def changesPassword_def Let_def
        split: auth_request.splits option.splits sum.splits prod.splits)
  then show ?thesis
  proof cases
    case login
    with user_env.grow_record [OF env prod.collapse [symmetric] assms(2)] show ?thesis by simp
  next
    case pw
    have g: "accountsGrow (axUsers A) i (if uID u = i \<and> succeeded r then 1 else 0) (dview (svUsers s)) (dview d')"
      by (rule grow_password [OF env assms(2) pw(3)])
    then have "users_ok (axUsers A) (dview d')" by (simp add: accountsGrow_def)
    from grow_trans [OF g grow_audit [OF env this]] pw show ?thesis
      by (simp add: changesPassword_def)
  qed
qed

lemma handleAdmin_grow:
  assumes "user_env (axUsers A) dview tview twr" and "users_ok (axUsers A) (dview (svUsers s))"
    and "handleAdmin A am rq s = (r, s')" and "freshAccount A dview am rq s"
  shows "accountsGrow (axUsers A) i
    (case rq of AqUpdateUser param (Inr upd) \<Rightarrow>
       if hpParseID A param = Some i \<and> upPassword upd \<noteq> [] \<and> succeeded r then 1 else 0 | _ \<Rightarrow> 0)
    (dview (svUsers s)) (dview (svUsers s'))"
proof -
  note env = assms(1) and ok = assms(2)
  note g0 = grow_refl [OF ok]
  show ?thesis
  proof (cases rq)
    case (AqCreateUser b)
    show ?thesis
    proof (cases b)
      case (Inr body)
      obtain res d' where c: "user_Create (axUsers A) (amFresh am) (amSalt am) (amNow am) (svUsers s)
          (cqUsername body) (cqPassword body) (cqRole body) = (res, d')" by fastforce
      have "svUsers s' = d'" using assms(3) AqCreateUser Inr c
        by (auto simp: handler_CreateUser_def split: sum.splits)
      then show ?thesis
        using user_env.grow_create [OF env c ok] assms(4) AqCreateUser Inr by (simp add: freshAccount_def)
    qed (use assms(3) AqCreateUser g0 in \<open>auto simp: handler_CreateUser_def\<close>)
  next
    case (AqUpdateUser param b)
    show ?thesis
    proof (cases "\<exists>j upd. hpParseID A param = Some j \<and> b = Inr upd")
      case True
      then obtain j upd where ju: "hpParseID A param = Some j" "b = Inr upd" by blast
      obtain res d' where u: "user_Update (axUsers A) (amSalt am) (amNow am) (svUsers s) j upd = (res, d')"
        by fastforce
      have "svUsers s' = d'" "succeeded r \<longleftrightarrow> (\<exists>x. res = Inr x)" using assms(3) AqUpdateUser ju u
        by (auto simp: handler_UpdateUser_def split: sum.splits if_splits)
      with user_env.grow_update [OF env u ok, of i] show ?thesis by (simp add: AqUpdateUser ju)
    qed (use assms(3) AqUpdateUser g0 in \<open>auto simp: handler_UpdateUser_def split: option.splits sum.splits\<close>)
  next
    case (AqClearEvents param)
    have "svUsers s' = svUsers s \<or> (\<exists>j. svUsers s' = snd (user_ClearEvents (axUsers A) (svUsers s) j))"
      using assms(3) AqClearEvents
      by (auto simp: handler_ClearUserEvents_def split: option.splits sum.splits prod.splits) (metis snd_conv)+
    then show ?thesis
      using user_env.grow_clear [OF env prod.collapse [symmetric] ok] g0 AqClearEvents by auto
  next
    case (AqUserStatus param)
    have "svUsers s' = svUsers s"
      using assms(3) AqUserStatus
      by (auto simp: handler_UserStatus_def Let_def split: option.splits sum.splits prod.splits)
    with g0 show ?thesis by (simp add: AqUserStatus)
  qed (use assms(3) g0 in auto)
qed

lemma serveAdmin_cases:
  assumes "serveAdmin A am cr rq s = (r, s')"
  obtains (refused) e where "r = Inl e" "s' = s"
      "admitted A am cr (svUsers s) = Inl e \<or> (\<exists>tok u. admitted A am cr (svUsers s) = Inr (tok, u) \<and> uRole u \<noteq> RoleAdmin \<and> e = errForbidden)"
  | (served) tok u s1 where "admitted A am cr (svUsers s) = Inr (tok, u)" "uRole u = RoleAdmin"
      "handleAdmin A am rq s = (r, s1)"
      "s' = s1\<lparr>svUsers := Audit A am (fst (adminRoute rq)) (snd (adminRoute rq)) u (auditStatus replyStatus r) (svUsers s1)\<rparr>"
proof (cases "admitted A am cr (svUsers s)")
  case (Inl e)
  with assms that(1) [of e] show ?thesis by (simp add: serveAdmin_def)
next
  case (Inr tu)
  obtain tok u where tu: "tu = (tok, u)" by fastforce
  obtain r1 s1 where h: "handleAdmin A am rq s = (r1, s1)" by fastforce
  show ?thesis
  proof (cases "uRole u = RoleAdmin")
    case True
    with assms Inr tu h have "r1 = r" "s' = s1\<lparr>svUsers := Audit A am (fst (adminRoute rq)) (snd (adminRoute rq)) u
        (auditStatus replyStatus r) (svUsers s1)\<rparr>"
      by (auto simp: serveAdmin_def AdminOnly_def)
    with that(2) Inr tu h True show ?thesis by blast
  next
    case False
    with assms Inr tu that(1) [of errForbidden] show ?thesis by (simp add: serveAdmin_def AdminOnly_def)
  qed
qed

lemma serveAdmin_grow:
  assumes "user_env (axUsers A) dview tview twr" and "users_ok (axUsers A) (dview (svUsers s))"
    and "serveAdmin A am cr rq s = (r, s')" and "freshAccount A dview am rq s"
  shows "accountsGrow (axUsers A) i (if resetsPassword A i am cr rq s then 1 else 0)
    (dview (svUsers s)) (dview (svUsers s'))"
  using assms(3)
proof (cases rule: serveAdmin_cases)
  case (refused e)
  then have "\<not> resetsPassword A i am cr rq s" using assms(3)
    by (auto simp: resetsPassword_def split: admin_request.splits option.splits sum.splits)
  with refused(2) show ?thesis by (simp add: grow_refl assms(2))
next
  case (served tok u s1)
  note g = handleAdmin_grow [OF assms(1,2) served(3) assms(4), of i]
  have n: "(case rq of AqUpdateUser param (Inr upd) \<Rightarrow>
       if hpParseID A param = Some i \<and> upPassword upd \<noteq> [] \<and> succeeded r then 1 else 0 | _ \<Rightarrow> 0)
     = (if resetsPassword A i am cr rq s then 1 else 0 :: nat)"
    using assms(3) by (auto simp: resetsPassword_def split: admin_request.splits option.splits sum.splits)
  have "users_ok (axUsers A) (dview (svUsers s1))" using g by (simp add: accountsGrow_def)
  from grow_trans [OF g grow_audit [OF assms(1) this]] show ?thesis by (simp add: n served(4))
qed

section \<open>The log of events\<close>

text \<open>Creating and updating accounts writes no key of the log.\<close>

lemma sets_no_event: "\<not> prefix eventPrefix k \<Longrightarrow> \<forall>x. prefix eventPrefix x \<longrightarrow> (m(k \<mapsto> b)) x = m x"
  by auto

context user_env
begin

lemma create_no_event:
  assumes "user_Create E j salt now d n p r = (res, d')"
  shows "\<forall>k. prefix eventPrefix k \<longrightarrow> dview d' k = dview d k"
proof (cases res)
  case (Inl e)
  with user_failures(1) [OF assms [unfolded Inl]] show ?thesis by simp
next
  case (Inr u)
  then obtain v where tx: "dbUpdate E (userCreateTx E v) d = (Inr u, d')"
    using assms by (auto simp: user_Create_def Let_def split: if_splits sum.splits)
  show ?thesis
  proof (rule update_rule [OF tx])
    fix t a t' assume t: "shows d t (dview d)" "userCreateTx E v t = Inr (a, t')"
    then obtain b t1 where "kvSet E t (userKey (uID v)) b = Inr t1"
        "kvSet E t1 (usernameKey (uUsername v)) (idBytes (uID v)) = Inr t'"
      by (auto simp: userCreateTx_def split: sum.splits if_splits)
    with shows_set [OF shows_set [OF t(1)]]
    show "\<exists>m. shows d t' m \<and> (\<forall>k. prefix eventPrefix k \<longrightarrow> m k = dview d k)" by fastforce
  qed
qed

lemma update_no_event:
  assumes "user_Update E salt now d j upd = (res, d')"
  shows "\<forall>k. prefix eventPrefix k \<longrightarrow> dview d' k = dview d k"
proof (cases res)
  case (Inl e)
  with user_failures(2) [OF assms [unfolded Inl]] show ?thesis by simp
next
  case (Inr u)
  then obtain hash where tx: "dbUpdate E (userUpdateTx E j upd hash now) d = (Inr u, d')"
    using assms by (auto simp: user_Update_def split: if_splits sum.splits)
  show ?thesis
  proof (rule update_rule [OF tx])
    fix t a t' assume t: "shows d t (dview d)" "userUpdateTx E j upd hash now t = Inr (a, t')"
    then obtain b where "kvSet E t (userKey j) b = Inr t'"
      by (auto simp: userUpdateTx_def Let_def split: sum.splits if_splits)
    with shows_set [OF t(1)]
    show "\<exists>m. shows d t' m \<and> (\<forall>k. prefix eventPrefix k \<longrightarrow> m k = dview d k)" by fastforce
  qed
qed

end

lemma events_frame:
  assumes "\<forall>k. prefix eventPrefix k \<longrightarrow> m' k = m k"
  shows "eventAt E m' = eventAt E m" "events_ok E m' = events_ok E m"
proof -
  show e: "eventAt E m' = eventAt E m" using assms by (auto simp: eventAt_def fun_eq_iff)
  show "events_ok E m' = events_ok E m" using assms by (simp add: events_ok_def e) metis
qed

text \<open>The event the audit of an admitted request writes.\<close>

definition auditEvent :: "ambient \<Rightarrow> string \<Rightarrow> user \<Rightarrow> nat \<Rightarrow> user_event" where
  "auditEvent am name u status = \<lparr>evID = amAudit am, evUserID = uID u, evUsername = uUsername u,
     evAction = name, evStatus = int status, evCreatedAt = amEnd am\<rparr>"

lemma audit_appends:
  assumes "user_reliable (axUsers A) dview tview twr" and "users_ok (axUsers A) (dview d)"
    and "events_ok (axUsers A) (dview d)" and "userAt (axUsers A) (dview d0) (uID u) = Some u"
    and "users_ok (axUsers A) (dview d0)" and "utf8 name" and "0 \<le> amEnd am" and "amEnd am < 2 ^ 63"
    and "evMarshal (axUsers A) (auditEvent am name u status) = Inr b"
  shows "eventAt (axUsers A) (dview (Audit A am False name u status d))
    = (eventAt (axUsers A) (dview d))(eventKey (auditEvent am name u status) \<mapsto> auditEvent am name u status)"
proof -
  have env: "user_env (axUsers A) dview tview twr" by (rule user_reliable.axioms(1) [OF assms(1)])
  obtain d' where r: "user_RecordEvent (axUsers A) (amAudit am) (amEnd am) d u name (int status) = (Inr (), d')"
    using user_reliable.record_total [OF assms(1)] assms(9) unfolding auditEvent_def by blast
  have "utf8 (uUsername u)" using users_okD(2) [OF assms(5,4)] by (simp add: userText_def)
  from user_env.record_event [OF env r assms(3,2) this assms(6-8)] r show ?thesis
    by (simp add: Audit_def auditEvent_def)
qed

lemma clear_events_ok:
  assumes "user_env E dview tview twr" and "user_ClearEvents E d j = (res, d')" and "events_ok E (dview d)"
    and "finite (dom (dview d))" and "int (card (dom (dview d))) < 2 ^ 63"
  shows "events_ok E (dview d')"
proof (cases res)
  case (Inl e)
  with user_failures(4) [OF assms(2) [unfolded Inl]] assms(3) show ?thesis by simp
next
  case (Inr n)
  define P where "P = (\<lambda>k. \<exists>ev. eventAt E (dview d) k = Some ev \<and> evUserID ev = j)"
  have m: "dview d' = map_without P (dview d)"
    using user_env.clear_events(1) [OF assms(1) assms(2) [unfolded Inr] assms(5,4)] by (simp add: P_def)
  have "eventAt E (map_without P (dview d)) k = (if P k then None else eventAt E (dview d) k)" for k
    by (simp add: eventAt_def)
  with assms(3) show ?thesis unfolding m events_ok_def by (metis map_without_apply)
qed

lemma handleAdmin_events:
  assumes "user_env (axUsers A) dview tview twr" and "events_ok (axUsers A) (dview (svUsers s))"
    and "finite (dom (dview (svUsers s)))" and "int (card (dom (dview (svUsers s)))) < 2 ^ 63"
    and "handleAdmin A am rq s = (r, s1)"
  shows "events_ok (axUsers A) (dview (svUsers s1))"
    and "rq \<notin> range AqClearEvents \<Longrightarrow>
      eventAt (axUsers A) (dview (svUsers s1)) = eventAt (axUsers A) (dview (svUsers s))"
proof -
  note env = assms(1)
  have unchanged: "events_ok (axUsers A) (dview (svUsers s1)) \<and> (rq \<notin> range AqClearEvents \<longrightarrow>
      eventAt (axUsers A) (dview (svUsers s1)) = eventAt (axUsers A) (dview (svUsers s)))"
    if "\<forall>k. prefix eventPrefix k \<longrightarrow> dview (svUsers s1) k = dview (svUsers s) k"
    by (simp add: events_frame [OF that] assms(2))
  have "events_ok (axUsers A) (dview (svUsers s1)) \<and> (rq \<notin> range AqClearEvents \<longrightarrow>
      eventAt (axUsers A) (dview (svUsers s1)) = eventAt (axUsers A) (dview (svUsers s)))"
  proof (cases rq)
    case (AqCreateUser b)
    have "svUsers s1 = svUsers s \<or> (\<exists>n p r. svUsers s1 = snd (user_Create (axUsers A) (amFresh am) (amSalt am)
        (amNow am) (svUsers s) n p r))"
      using assms(5) AqCreateUser
      by (auto simp: handler_CreateUser_def split: option.splits sum.splits prod.splits) (metis snd_conv)+
    then show ?thesis
      by (intro unchanged) (auto simp: user_env.create_no_event [OF env prod.collapse [symmetric]])
  next
    case (AqUpdateUser param b)
    have "svUsers s1 = svUsers s \<or> (\<exists>j upd. svUsers s1 = snd (user_Update (axUsers A) (amSalt am)
        (amNow am) (svUsers s) j upd))"
      using assms(5) AqUpdateUser
      by (auto simp: handler_UpdateUser_def split: option.splits sum.splits prod.splits) (metis snd_conv)+
    then show ?thesis
      by (intro unchanged) (auto simp: user_env.update_no_event [OF env prod.collapse [symmetric]])
  next
    case (AqClearEvents param)
    have "svUsers s1 = svUsers s \<or> (\<exists>j. svUsers s1 = snd (user_ClearEvents (axUsers A) (svUsers s) j))"
      using assms(5) AqClearEvents
      by (auto simp: handler_ClearUserEvents_def split: option.splits sum.splits prod.splits) (metis snd_conv)+
    then show ?thesis
      using clear_events_ok [OF env prod.collapse [symmetric] assms(2-4)] assms(2) AqClearEvents by auto
  next
    case (AqUserStatus param)
    have "svUsers s1 = svUsers s"
      using assms(5) AqUserStatus
      by (auto simp: handler_UserStatus_def Let_def split: option.splits sum.splits prod.splits)
    then show ?thesis by (intro unchanged) simp
  qed (use assms(5) unchanged in auto)
  then show "events_ok (axUsers A) (dview (svUsers s1))"
    "rq \<notin> range AqClearEvents \<Longrightarrow>
      eventAt (axUsers A) (dview (svUsers s1)) = eventAt (axUsers A) (dview (svUsers s))" by blast+
qed

lemma route_text: "utf8 (snd (adminRoute rq))"
proof -
  have "utf8 ''admin.users'' \<and> utf8 ''admin.create-user'' \<and> utf8 ''admin.update-user'' \<and> utf8 ''admin.user-status''
      \<and> utf8 ''admin.clear-user-events'' \<and> utf8 ''admin.status'' \<and> utf8 ''admin.system-entries'' \<and> utf8 ''admin.events''"
    by code_simp
  then show ?thesis by (cases rq) simp_all
qed

section \<open>Runs\<close>

text \<open>
  The states after any sequence of requests, with the number of new passwords of account \<open>i\<close>. A request
  on a drive or for events may change everything but the accounts, which it reaches through the audit.
\<close>

inductive serve_run :: "('d, 't, 'v, 'w) auth_env \<Rightarrow> ('d \<Rightarrow> store) \<Rightarrow> uuid \<Rightarrow> ('d, 'v, 'w) server \<Rightarrow> nat
    \<Rightarrow> ('d, 'v, 'w) server \<Rightarrow> bool"
  for A :: "('d, 't, 'v, 'w) auth_env" and dview :: "'d \<Rightarrow> store" and i :: uuid and s0 :: "('d, 'v, 'w) server" where
  run_start: "serve_run A dview i s0 0 s0"
| run_auth: "serve_run A dview i s0 n s \<Longrightarrow> serveAuth A am cr rq s = (r, ck, s') \<Longrightarrow>
    serve_run A dview i s0 (n + (if changesPassword A i am cr rq s then 1 else 0)) s'"
| run_admin: "serve_run A dview i s0 n s \<Longrightarrow> freshAccount A dview am rq' s \<Longrightarrow>
    serveAdmin A am cr rq' s = (r, s') \<Longrightarrow>
    serve_run A dview i s0 (n + (if resetsPassword A i am cr rq' s then 1 else 0)) s'"
| run_other: "serve_run A dview i s0 n s \<Longrightarrow> svUsers s' = svUsers s \<or> svUsers s' = Audit A am g name u st (svUsers s) \<Longrightarrow>
    serve_run A dview i s0 n s'"

lemma run_grow:
  assumes "serve_run A dview i s0 n s" and "user_env (axUsers A) dview tview twr"
    and "users_ok (axUsers A) (dview (svUsers s0))"
  shows "accountsGrow (axUsers A) i n (dview (svUsers s0)) (dview (svUsers s))"
  using assms(1)
proof induction
  case run_start
  show ?case by (rule grow_refl [OF assms(3)])
next
  case (run_auth n s am cr rq r ck s')
  then have "users_ok (axUsers A) (dview (svUsers s))" by (simp add: accountsGrow_def)
  from grow_trans [OF run_auth.IH serveAuth_grow [OF assms(2) this run_auth.hyps(2)]] show ?case .
next
  case (run_admin n s am rq cr r s')
  then have "users_ok (axUsers A) (dview (svUsers s))" by (simp add: accountsGrow_def)
  from grow_trans [OF run_admin.IH serveAdmin_grow [OF assms(2) this run_admin.hyps(3,2)]] show ?case .
next
  case (run_other n s s' am g name u st)
  then have ok: "users_ok (axUsers A) (dview (svUsers s))" by (simp add: accountsGrow_def)
  from run_other.hyps(2) show ?case
  proof
    assume "svUsers s' = svUsers s"
    with run_other.IH show ?thesis by simp
  next
    assume "svUsers s' = Audit A am g name u st (svUsers s)"
    with grow_trans [OF run_other.IH grow_audit [OF assms(2) ok, of i am g name u st]] show ?thesis by simp
  qed
qed

end
