(* ===== verification/Auth_Theorems.thy ===== *)
theory Auth_Theorems
  imports Auth_Runs
begin

text \<open>
  The properties of sessions, roles and the audit, for every token library that keeps the contract
  \<open>token_env\<close> and every reliable user store; and an instance with a server that has one administrator.
\<close>

section \<open>An instance of the token library\<close>

text \<open>A token that shows its claims and its key; it stands for a signature nobody forges.\<close>

definition mem_sign :: "string \<Rightarrow> token_claims \<Rightarrow> err + string" where
  "mem_sign k c =
     (if - 9223372036854775808 \<le> tcExp c \<and> tcExp c < 9223372036854775808
        \<and> length k < 18446744073709551616 \<and> length (tcSubject c) < 18446744073709551616
        \<and> length (tcVersion c) < 18446744073709551616
      then Inr (encInt (tcExp c) @ encStr k @ encStr (tcSubject c) @ encStr (tcVersion c))
      else Inl (ErrOther ''out of range''))"

definition mem_verify :: "string \<Rightarrow> int \<Rightarrow> string \<Rightarrow> token option" where
  "mem_verify k now s =
     (case decStr (drop 8 s) of (k', r) \<Rightarrow> case decStr r of (sub, r) \<Rightarrow> case decStr r of (version, r) \<Rightarrow>
      let e = decInt (take 8 s) * 1000000000
      in if k' = k \<and> now < e
         then Some \<lparr>jtRaw = s, jtSubject = Inr sub, jtExp = Inr (Some e), jtVersion = Some version\<rparr> else None)"

lemma mem_verify_sign:
  "mem_sign k c = Inr s \<Longrightarrow> now < tcExp c * 1000000000 \<Longrightarrow> mem_verify k now s = Some \<lparr>jtRaw = s,
     jtSubject = Inr (tcSubject c), jtExp = Inr (Some (tcExp c * 1000000000)), jtVersion = Some (tcVersion c)\<rparr>"
  by (auto simp: mem_sign_def mem_verify_def decInt_encInt decStr_encStr decStr_encStr_end Let_def split: if_splits)

definition memAuth :: "('v, 'w) drv_env \<Rightarrow> (mem, memtx, 'v, 'w) auth_env" where
  "memAuth V = \<lparr>hpParseID = (\<lambda>s. Some (uuidParse s)), hpParseBool = (\<lambda>s. None), hpErrorText = (\<lambda>e. []),
     hpLower = (\<lambda>s. s), hpNow = 0, axUsers = mem_uenv, axDrives = V, axSecret = ''key'',
     axLifetime = 60000000000, axSign = mem_sign, axVerify = mem_verify, axFold = (\<lambda>s t. s = t),
     axLoopback = (\<lambda>s. None), axValueSize = (\<lambda>t k. 0), axResources = (\<lambda>v w. None)\<rparr>"

abbreviation mem_auth :: "(mem, memtx, nat, nat list) auth_env" where
  "mem_auth \<equiv> memAuth num_env"

lemma memAuth_simps [simp]:
  "axUsers (memAuth V) = mem_uenv" "axDrives (memAuth V) = V" "axSecret (memAuth V) = ''key''"
  "axLifetime (memAuth V) = 60000000000" "axSign (memAuth V) = mem_sign" "axVerify (memAuth V) = mem_verify"
  "hpParseID (memAuth V) s = Some (uuidParse s)"
  by (simp_all add: memAuth_def)

interpretation memtoken: token_env "memAuth V" for V
proof
  show "axVerify (memAuth V) k now s = Some tok \<Longrightarrow> jtExp tok = Inr (Some e) \<Longrightarrow> now < e" for k now s tok e
    by (auto simp: mem_verify_def Let_def split: prod.splits if_splits)
  show "axVerify (memAuth V) k now s = Some tok \<Longrightarrow> axVerify (memAuth V) k later s = Some tok' \<Longrightarrow> tok' = tok"
    for k now s tok later tok'
    by (auto simp: mem_verify_def Let_def split: prod.splits if_splits)
qed (use mem_verify_sign in \<open>auto simp: uuidParse_uuidString\<close>)

section \<open>A server with one administrator\<close>

definition run_server :: "(mem, nat, nat list) server" where
  "run_server = \<lparr>svUsers = run_users, svDrives = NewDriveManager run_config 60, svWorld = [],
     svBroker = NewSSEBroker\<rparr>"

definition run_ambient :: ambient where
  "run_ambient = \<lparr>amNow = 10, amEnd = 11, amFresh = 21, amSalt = 0, amAudit = 22, amDrives = [],
     amClients = [], amTaken = True\<rparr>"

lemma run_server_simps [simp]: "svUsers run_server = run_users"
  "amNow run_ambient = 10" "amEnd run_ambient = 11" "amAudit run_ambient = 22" "amFresh run_ambient = 21"
  "amSalt run_ambient = 0"
  by (simp_all add: run_server_def run_ambient_def)

lemma run_ambient_now: "run_ambient\<lparr>amNow := 10\<rparr> = run_ambient"
  by (simp add: run_ambient_def)

text \<open>The token of the administrator's login.\<close>

definition run_token :: string where
  "run_token = encInt 60 @ encStr ''key'' @ encStr (uuidString 7) @ encStr ''0''"

definition run_bearer :: credentials where
  "run_bearer = \<lparr>crBearer = Some run_token, crCookie = None, crProtocol = ''https'', crHost = ''host''\<rparr>"

lemma run_signed: "mem_sign ''key'' \<lparr>tcSubject = uuidString 7, tcExp = 60, tcVersion = ''0''\<rparr> = Inr run_token"
  by (simp add: mem_sign_def run_token_def length_uuidString)

lemma run_offered [simp]: "offered run_bearer = Some run_token"
  by (simp add: offered_def run_bearer_def)

lemma run_zero: "formatUint 0 = ''0''"
  by code_simp

lemma run_version: "sessionText run_admin = ''0''"
  by (simp add: sessionText_def run_zero)

definition run_jwt :: token where
  "run_jwt = \<lparr>jtRaw = run_token, jtSubject = Inr (uuidString 7), jtExp = Inr (Some 60000000000), jtVersion = Some ''0''\<rparr>"

lemma run_verified: "now < 60000000000 \<Longrightarrow> mem_verify ''key'' now run_token = Some run_jwt"
  using mem_verify_sign [OF run_signed, of now] by (simp add: run_jwt_def)

lemma run_admitted: "now < 60000000000 \<Longrightarrow>
    admitted (memAuth V) (run_ambient\<lparr>amNow := now\<rparr>) run_bearer run_users = Inr (run_jwt, run_admin)"
  using admitted_iff [of "memAuth V" map_of mem_tview "\<lambda>t. map_of (snd t)" run_users "run_ambient\<lparr>amNow := now\<rparr>"
      run_bearer run_jwt run_admin]
  by (simp add: memusers.user_reliable_axioms run_users_store run_verified run_version)
    (simp add: run_jwt_def uuidParse_uuidString)

section \<open>Sessions\<close>

text \<open>
  C15. A request is let in as the account \<open>u\<close> exactly when the Bearer token, or without one the cookie,
  verifies now, has a time of expiry, names \<open>u\<close> as its subject, \<open>u\<close> is enabled, and the token carries
  the account's current session version; every other request is answered 401.
\<close>

theorem token_admits_exactly:
  assumes "user_reliable (axUsers A) dview tview twr" and "users_ok (axUsers A) (dview d)"
  shows "(admitted A am cr d = Inr (tok, u) \<longleftrightarrow>
      (\<exists>s e sub. offered cr = Some s \<and> axVerify A (axSecret A) (amNow am) s = Some tok
         \<and> jtExp tok = Inr (Some e) \<and> jtSubject tok = Inr sub \<and> hpParseID A sub = Some (uID u)
         \<and> userAt (axUsers A) (dview d) (uID u) = Some u \<and> \<not> uDisabled u
         \<and> jtVersion tok = Some (sessionText u)))
    \<and> (\<forall>e. admitted A am cr d = Inl e \<longrightarrow> e = errUnauthorized)"
  by (intro conjI admitted_iff [OF assms] allI impI) (rule admitted_refusal)

theorem token_admits_exactly_witness:
  "admitted mem_auth run_ambient run_bearer run_users = Inr (run_jwt, run_admin)"
  using token_admits_exactly [of mem_auth map_of mem_tview "\<lambda>t. map_of (snd t)" run_users run_ambient
      run_bearer run_jwt run_admin]
  by (simp add: memusers.user_reliable_axioms run_users_store run_verified run_version)
    (simp add: run_jwt_def uuidParse_uuidString)

text \<open>
  C16. A successful login needs an enabled account with the normalised name whose hash accepts the
  password, and opens a session: until the token expires, as long as the account is enabled and gets no
  new password, whatever else the server is asked in the meantime, a request with the token is let in as
  that account.
\<close>

theorem login_opens_session:
  assumes "token_env A" and "user_reliable (axUsers A) dview tview twr"
    and "users_ok (axUsers A) (dview (svUsers s))"
    and "serveAuth A am cr (AqLogin (Inr req)) s = (Inr (RyToken t), ck, s1)"
    and "serve_run A dview (trID t) s1 0 s2" and "0 < trExpiresAt t" and "trExpiresAt t < 2 ^ 53 * 1000000000"
    and "amNow later < trExpiresAt t" and "offered cr2 = Some (trToken t)"
  shows "\<exists>u. userAt (axUsers A) (dview (svUsers s)) (trID t) = Some u
    \<and> uUsername u = normalizeUsername (axUsers A) (lqUsername req) \<and> \<not> uDisabled u
    \<and> uCompare (axUsers A) (uPasswordHash u) (lqPassword req)
    \<and> (\<exists>v tok. userAt (axUsers A) (dview (svUsers s2)) (trID t) = Some v \<and> uUsername v = uUsername u
         \<and> (\<not> uDisabled v \<longrightarrow> admitted A later cr2 (svUsers s2) = Inr (tok, v)))"
proof -
  have env: "user_env (axUsers A) dview tview twr" by (rule user_reliable.axioms(1) [OF assms(2)])
  have l: "handler_Login A am cr (Inr req) s = (Inr (RyToken t), ck, s1)"
    using assms(4) by (simp add: serveAuth_def)
  obtain u where u: "user_Authenticate (axUsers A) (svUsers s) (lqUsername req) (lqPassword req) = Inr u"
      "trID t = uID u"
    and ver: "axVerify A (axSecret A) (amNow later) (trToken t) = Some \<lparr>jtRaw = trToken t,
      jtSubject = Inr (uuidString (uID u)), jtExp = Inr (Some (trExpiresAt t)), jtVersion = Some (sessionText u)\<rparr>"
    using token_env.login_facts [OF assms(1) l] assms(6-8) by metis
  have a: "userAt (axUsers A) (dview (svUsers s)) (uID u) = Some u"
    "uUsername u = normalizeUsername (axUsers A) (lqUsername req)" "\<not> uDisabled u"
    "uCompare (axUsers A) (uPasswordHash u) (lqPassword req)"
    using user_reliable.authenticate_exact(1) [OF assms(2,3)] u(1) by blast+
  have g1: "accountsGrow (axUsers A) (trID t) 0 (dview (svUsers s)) (dview (svUsers s1))"
    using serveAuth_grow [OF env assms(3,4), of "trID t"] by (simp add: changesPassword_def)
  then have "users_ok (axUsers A) (dview (svUsers s1))" by (simp add: accountsGrow_def)
  from grow_trans [OF g1 run_grow [OF assms(5) env this]]
  have g: "accountsGrow (axUsers A) (trID t) 0 (dview (svUsers s)) (dview (svUsers s2))" by simp
  then have ok: "users_ok (axUsers A) (dview (svUsers s2))" by (simp add: accountsGrow_def)
  obtain v where v: "userAt (axUsers A) (dview (svUsers s2)) (uID u) = Some v" "uUsername v = uUsername u"
      "uSessionVersion v = uSessionVersion u"
    using g a(1) u(2) unfolding accountsGrow_def by force
  have "uID v = uID u" by (rule users_okD(1) [OF ok v(1)])
  then have "admitted A later cr2 (svUsers s2) = Inr (\<lparr>jtRaw = trToken t, jtSubject = Inr (uuidString (uID u)),
      jtExp = Inr (Some (trExpiresAt t)), jtVersion = Some (sessionText u)\<rparr>, v)" if "\<not> uDisabled v"
    using that v ver assms(9) sessionText_eq [of u v] token_env.parse_text [OF assms(1)]
    by (simp add: admitted_iff [OF assms(2) ok])
  with a u(2) v show ?thesis by auto
qed

lemma run_login_served:
  "serveAuth mem_auth run_ambient run_bearer (AqLogin (Inr \<lparr>lqUsername = '' ROOT '', lqPassword = ''pw''\<rparr>)) run_server
   = (Inr (RyToken \<lparr>trID = 7, trUsername = ''root'', trRole = RoleAdmin, trToken = run_token, trExpiresAt = 60000000000\<rparr>),
      Some \<lparr>ckValue = run_token, ckExpires = 60000000000, ckSecure = True\<rparr>,
      run_server\<lparr>svUsers := snd (user_RecordEvent mem_uenv 21 11 run_users run_admin ''auth.login'' 200)\<rparr>)"
proof -
  have "user_Authenticate mem_uenv run_users '' ROOT '' ''pw'' = Inr run_admin"
    using memusers.authenticate_exact(1) [OF run_users_store(1), of "'' ROOT ''" "''pw''" run_admin]
    by (simp add: run_users_store run_names)
  then show ?thesis
    by (simp add: run_zero serveAuth_def handler_Login_def run_signed Let_def secureCookie_def run_bearer_def)
qed

theorem login_opens_session_witness:
  "\<exists>v tok. userAt mem_uenv (map_of (snd (user_RecordEvent mem_uenv 21 11 run_users run_admin ''auth.login'' 200))) 7 = Some v
     \<and> uUsername v = ''root''
     \<and> (\<not> uDisabled v \<longrightarrow> admitted mem_auth (run_ambient\<lparr>amNow := 59999999999\<rparr>) run_bearer
          (snd (user_RecordEvent mem_uenv 21 11 run_users run_admin ''auth.login'' 200)) = Inr (tok, v))"
proof -
  have r: "user_reliable (axUsers mem_auth) map_of mem_tview (\<lambda>t. map_of (snd t))"
    by (simp add: memusers.user_reliable_axioms)
  have ok: "users_ok (axUsers mem_auth) (map_of (svUsers run_server))" by (simp add: run_users_store)
  from login_opens_session [OF memtoken.token_env_axioms r ok run_login_served run_start,
      of "run_ambient\<lparr>amNow := 59999999999\<rparr>" run_bearer]
  show ?thesis by (auto simp: run_users_store)
qed

text \<open>
  C17. New passwords end sessions: a token that was good for an account is refused, whoever offers it and
  whenever, once the account has got a new password, by its owner or by an administrator, and until it
  has got as many as a session version has values.
\<close>

theorem new_password_ends_sessions:
  assumes "token_env A" and "user_reliable (axUsers A) dview tview twr"
    and "users_ok (axUsers A) (dview (svUsers s0))" and "admitted A am cr (svUsers s0) = Inr (tok, u)"
    and "serve_run A dview (uID u) s0 n s" and "0 < n" and "n < 2 ^ 64" and "offered cr2 = offered cr"
  shows "admitted A later cr2 (svUsers s) = Inl errUnauthorized"
proof (cases "admitted A later cr2 (svUsers s)")
  case (Inl e)
  then show ?thesis using admitted_refusal by metis
next
  case (Inr tv)
  obtain tok2 v where tv: "tv = (tok2, v)" by fastforce
  have env: "user_env (axUsers A) dview tview twr" by (rule user_reliable.axioms(1) [OF assms(2)])
  note g = run_grow [OF assms(5) env assms(3)]
  then have ok: "users_ok (axUsers A) (dview (svUsers s))" by (simp add: accountsGrow_def)
  from assms(4) obtain t1 sub where a: "offered cr = Some t1" "axVerify A (axSecret A) (amNow am) t1 = Some tok"
      "jtSubject tok = Inr sub" "hpParseID A sub = Some (uID u)" "jtVersion tok = Some (sessionText u)"
      "userAt (axUsers A) (dview (svUsers s0)) (uID u) = Some u"
    unfolding admitted_iff [OF assms(2,3)] by blast
  from Inr [unfolded tv] assms(8) a(1) obtain sub2 where b: "axVerify A (axSecret A) (amNow later) t1 = Some tok2"
      "jtSubject tok2 = Inr sub2" "hpParseID A sub2 = Some (uID v)" "jtVersion tok2 = Some (sessionText v)"
      "userAt (axUsers A) (dview (svUsers s)) (uID v) = Some v"
    unfolding admitted_iff [OF assms(2) ok] by auto
  have "tok2 = tok" by (rule token_env.verify_stable [OF assms(1) a(2) b(1)])
  then have e: "uID v = uID u" "uSessionVersion v = uSessionVersion u"
    using a b by (auto simp: sessionText_eq)
  obtain w where "userAt (axUsers A) (dview (svUsers s)) (uID u) = Some w"
      "uSessionVersion w = uSessionVersion u + of_nat n"
    using g a(6) unfolding accountsGrow_def by blast
  with b(5) e have "(of_nat n :: 64 word) = 0" by simp
  then have "2 ^ 64 dvd n" by (simp add: word_of_nat_eq_0_iff)
  with assms(6,7) show ?thesis by (auto dest: dvd_imp_le)
qed

lemma run_root: "normalizeUsername mem_uenv ''root'' = ''root''"
proof -
  have "toLower (\<lambda>s. s) (trimSpace ''root'') = ''root''" by code_simp
  then show ?thesis by (simp add: normalizeUsername_def)
qed

lemma run_new_password:
  "changesPassword mem_auth 7 run_ambient run_bearer (AqPassword (Inr \<lparr>pqCurrent = ''pw'', pqNew = ''new''\<rparr>)) run_server"
proof -
  let ?upd = "\<lparr>upRole = None, upDisabled = None, upPassword = ''new''\<rparr>"
  have c: "user_Authenticate mem_uenv run_users ''root'' ''pw'' = Inr run_admin"
    using memusers.authenticate_exact(1) [OF run_users_store(1), of "''root''" "''pw''" run_admin] run_root
    by (simp add: run_users_store)
  obtain b where "mem_uMarshal (updated ?upd (Some ''#new'') 10 run_admin) = Inr b"
    using run_marshal_user [of "updated ?upd (Some ''#new'') 10 run_admin"] by (auto simp: updated_def RoleAdmin_def)
  then have "\<exists>d'. user_Update mem_uenv 0 10 run_users 7 ?upd = (Inr (updated ?upd (Some ''#new'') 10 run_admin), d')"
    by (intro memusers.set_password_total) (simp_all add: run_users_store)
  then show ?thesis using run_admitted [of 10 num_env] c
    by (auto simp: run_ambient_now changesPassword_def handler_ChangePassword_def)
qed

theorem new_password_ends_sessions_witness:
  "admitted mem_auth (run_ambient\<lparr>amNow := 20\<rparr>) run_bearer (svUsers (snd (snd (serveAuth mem_auth run_ambient
     run_bearer (AqPassword (Inr \<lparr>pqCurrent = ''pw'', pqNew = ''new''\<rparr>)) run_server)))) = Inl errUnauthorized"
proof -
  obtain r ck s' where s: "serveAuth mem_auth run_ambient run_bearer
      (AqPassword (Inr \<lparr>pqCurrent = ''pw'', pqNew = ''new''\<rparr>)) run_server = (r, ck, s')"
    by (metis prod_cases3)
  have run: "serve_run mem_auth map_of (uID run_admin) run_server 1 s'"
    using serve_run.run_auth [OF run_start s, of map_of "uID run_admin"] run_new_password by simp
  have r: "user_reliable (axUsers mem_auth) map_of mem_tview (\<lambda>t. map_of (snd t))"
    by (simp add: memusers.user_reliable_axioms)
  have ok: "users_ok (axUsers mem_auth) (map_of (svUsers run_server))" by (simp add: run_users_store)
  have "admitted mem_auth (run_ambient\<lparr>amNow := 10\<rparr>) run_bearer (svUsers run_server) = Inr (run_jwt, run_admin)"
    using run_admitted [of 10 num_env] by simp
  from new_password_ends_sessions [OF memtoken.token_env_axioms r ok this run] show ?thesis by (simp add: s)
qed

section \<open>Administration\<close>

text \<open>
  C18. Only administrators administer: a request under \<open>/admin\<close> without a valid session is answered 401,
  one with the session of another account 403, and neither changes anything; so what changes the server
  or gets an answer came from an enabled administrator.
\<close>

theorem admin_only:
  assumes "serveAdmin A am cr rq s = (r, s')"
  shows "case admitted A am cr (svUsers s) of
      Inl _ \<Rightarrow> r = Inl errUnauthorized \<and> s' = s
    | Inr (tok, u) \<Rightarrow> uRole u \<noteq> RoleAdmin \<longrightarrow> r = Inl errForbidden \<and> s' = s"
  using assms by (cases rule: serveAdmin_cases) (auto dest: admitted_refusal)

theorem admin_only_witness:
  "serveAdmin mem_auth run_ambient (run_bearer\<lparr>crBearer := None\<rparr>) (AqUserStatus []) run_server
   = (Inl errUnauthorized, run_server)"
proof -
  obtain r s' where s: "serveAdmin mem_auth run_ambient (run_bearer\<lparr>crBearer := None\<rparr>) (AqUserStatus []) run_server = (r, s')"
    by fastforce
  have "\<exists>e. admitted mem_auth run_ambient (run_bearer\<lparr>crBearer := None\<rparr>) (svUsers run_server) = Inl e"
    by (simp add: admitted_def JWTAuthMiddleware_def run_bearer_def)
  with admin_only [OF s] s show ?thesis by auto
qed

lemma init_users:
  assumes "user_env (axUsers A) dview tview twr" and "initUsers A am name pw d = (Inr (), d')"
    and "users_ok (axUsers A) (dview d)" and "utf8 name" and "userAt (axUsers A) (dview d) (amFresh am) = None"
    and "userAt (axUsers A) (dview d) = Map.empty \<or> adminLeft (axUsers A) (dview d)"
  shows "users_ok (axUsers A) (dview d') \<and> adminLeft (axUsers A) (dview d')"
proof -
  obtain us where us: "user_List (axUsers A) d = Inr us"
    using assms(2) by (auto simp: initUsers_def split: sum.splits)
  show ?thesis
  proof (cases "us = []")
    case True
    then obtain u where c: "user_Create (axUsers A) (amFresh am) (amSalt am) (amNow am) d name pw RoleAdmin = (Inr u, d')"
      using assms(2) us by (auto simp: initUsers_def split: if_splits sum.splits prod.splits)
    note cr = user_env.create_accounts [OF assms(1) c assms(3-5)]
    have "activeAdmin u" using cr(6,8) by (simp add: activeAdmin_def)
    with cr(1,2) show ?thesis by (auto simp: adminLeft_def)
  next
    case False
    then have "d' = d" using assms(2) us by (simp add: initUsers_def)
    moreover have "userAt (axUsers A) (dview d) \<noteq> Map.empty"
      using user_env.list_accounts(1) [OF assms(1) us assms(3)] False by (cases us) auto
    ultimately show ?thesis using assms(3,6) by simp
  qed
qed

text \<open>
  C19. A server that has started, on an empty user store or on one that an earlier server left, always has
  an active administrator, whatever it is asked; its user store stays consistent, and no two accounts
  share a name.
\<close>

theorem started_server_has_admin:
  assumes "user_env (axUsers A) dview tview twr" and "users_ok (axUsers A) (dview d)"
    and "userAt (axUsers A) (dview d) = Map.empty \<or> adminLeft (axUsers A) (dview d)"
    and "utf8 name" and "userAt (axUsers A) (dview d) (amFresh am) = None"
    and "initUsers A am name pw d = (Inr (), svUsers s0)" and "serve_run A dview i s0 n s"
  shows "users_ok (axUsers A) (dview (svUsers s)) \<and> adminLeft (axUsers A) (dview (svUsers s))
    \<and> (\<forall>j k u v. userAt (axUsers A) (dview (svUsers s)) j = Some u \<and> userAt (axUsers A) (dview (svUsers s)) k = Some v
         \<and> uUsername u = uUsername v \<longrightarrow> j = k)"
proof -
  note st = init_users [OF assms(1,6,2,4,5,3)]
  from run_grow [OF assms(7,1) conjunct1 [OF st]] st
  have "users_ok (axUsers A) (dview (svUsers s))" "adminLeft (axUsers A) (dview (svUsers s))"
    by (simp_all add: accountsGrow_def)
  then show ?thesis using users_ok_unique by blast
qed

lemma run_started: "initUsers mem_auth (run_ambient\<lparr>amNow := 5, amFresh := 7\<rparr>) ''Root'' ''pw'' [] = (Inr (), run_users)"
proof -
  have "user_List mem_uenv [] = Inr []" by (simp add: user_List_def dbView_def mem_kv_def mem_scan_def)
  with run_user_created show ?thesis by (simp add: initUsers_def)
qed

theorem started_server_has_admin_witness:
  "adminLeft mem_uenv (map_of (svUsers (snd (serveAdmin mem_auth run_ambient run_bearer
     (AqUpdateUser (uuidString 7) (Inr \<lparr>upRole = Some RoleUser, upDisabled = None, upPassword = []\<rparr>)) run_server))))"
proof -
  let ?rq = "AqUpdateUser (uuidString 7) (Inr \<lparr>upRole = Some RoleUser, upDisabled = None, upPassword = []\<rparr>)"
  obtain r s' where s: "serveAdmin mem_auth run_ambient run_bearer ?rq run_server = (r, s')" by fastforce
  have "serve_run mem_auth map_of 7 run_server (0 + (if resetsPassword mem_auth 7 run_ambient run_bearer ?rq run_server then 1 else 0)) s'"
    by (rule serve_run.run_admin [OF run_start _ s]) (simp add: freshAccount_def)
  from started_server_has_admin [OF _ _ _ _ _ _ this, of mem_tview "\<lambda>t. map_of (snd t)" "[]" "''Root''"
      "run_ambient\<lparr>amNow := 5, amFresh := 7\<rparr>" "''pw''"]
  show ?thesis by (simp add: s memusers.user_env_axioms users_ok_empty run_names run_started)
qed

section \<open>The audit\<close>

text \<open>
  The audit is complete and exact: serving an administrator's request is running its handler, and
  then, unless the request is a GET, exactly one event more is in the log, with the administrator's
  identifier and name, the route, and the answer's status, except that an error that is not the
  framework's is recorded as 200. The accounts are what the handler left.
\<close>

theorem audit_exact:
  assumes "user_reliable (axUsers A) dview tview twr" and "users_ok (axUsers A) (dview (svUsers s))"
    and "events_ok (axUsers A) (dview (svUsers s))" and "freshAccount A dview am rq s"
    and "finite (dom (dview (svUsers s)))" and "int (card (dom (dview (svUsers s)))) < 2 ^ 63"
    and "admitted A am cr (svUsers s) = Inr (tok, u)" and "uRole u = RoleAdmin"
    and "handleAdmin A am rq s = (r, s1)" and "0 \<le> amEnd am" and "amEnd am < 2 ^ 63"
    and "evMarshal (axUsers A) (auditEvent am (snd (adminRoute rq)) u (auditStatus replyStatus r)) = Inr b"
  shows "\<exists>s2. serveAdmin A am cr rq s = (r, s2) \<and> eventAt (axUsers A) (dview (svUsers s2)) =
      (if fst (adminRoute rq) then eventAt (axUsers A) (dview (svUsers s1))
       else (eventAt (axUsers A) (dview (svUsers s1)))
         (eventKey (auditEvent am (snd (adminRoute rq)) u (auditStatus replyStatus r))
            \<mapsto> auditEvent am (snd (adminRoute rq)) u (auditStatus replyStatus r)))
    \<and> userAt (axUsers A) (dview (svUsers s2)) = userAt (axUsers A) (dview (svUsers s1))
    \<and> (rq \<notin> range AqClearEvents \<longrightarrow> eventAt (axUsers A) (dview (svUsers s1)) = eventAt (axUsers A) (dview (svUsers s)))"
proof -
  have env: "user_env (axUsers A) dview tview twr" by (rule user_reliable.axioms(1) [OF assms(1)])
  have ok: "users_ok (axUsers A) (dview (svUsers s1))"
    using handleAdmin_grow [OF env assms(2,9,4), of 0] by (simp add: accountsGrow_def)
  note ev = handleAdmin_events [OF env assms(3,5,6,9)]
  have u: "userAt (axUsers A) (dview (svUsers s)) (uID u) = Some u"
    using assms(7) unfolding admitted_iff [OF assms(1,2)] by blast
  define name where "name = snd (adminRoute rq)"
  define d2 where "d2 = Audit A am (fst (adminRoute rq)) name u (auditStatus replyStatus r) (svUsers s1)"
  have "serveAdmin A am cr rq s = (r, s1\<lparr>svUsers := d2\<rparr>)"
    using assms(7-9) by (simp add: serveAdmin_def AdminOnly_def d2_def name_def)
  moreover have "userAt (axUsers A) (dview d2) = userAt (axUsers A) (dview (svUsers s1))"
    by (simp add: d2_def audit_accounts [OF env])
  moreover have "eventAt (axUsers A) (dview d2) = (if fst (adminRoute rq) then eventAt (axUsers A) (dview (svUsers s1))
       else (eventAt (axUsers A) (dview (svUsers s1)))(eventKey (auditEvent am name u (auditStatus replyStatus r))
            \<mapsto> auditEvent am name u (auditStatus replyStatus r)))"
    using audit_appends [OF assms(1) ok ev(1) u assms(2) _ assms(10,11)] route_text [of rq] assms(12)
    by (simp add: d2_def name_def) (simp add: Audit_def)
  ultimately show ?thesis using ev(2) unfolding name_def by (intro exI [of _ "s1\<lparr>svUsers := d2\<rparr>"]) simp
qed

lemma run_users_dom: "int (card (dom (map_of run_users))) < 2 ^ 63"
proof -
  obtain b where "map_of run_users = (map_of [])(userKey 7 \<mapsto> b, usernameKey ''root'' \<mapsto> idBytes 7)"
    using run_users_view by blast
  then have "dom (map_of run_users) = {userKey 7, usernameKey ''root''}" by auto
  then show ?thesis by simp
qed

theorem audit_exact_witness:
  "\<exists>s2 e. serveAdmin mem_auth run_ambient run_bearer (AqCreateUser (Inl ''bad'')) run_server
       = (Inl (HttpError 400 ''bad''), s2)
     \<and> eventAt mem_uenv (map_of (svUsers s2)) = [eventKey e \<mapsto> e] \<and> evStatus e = 400 \<and> evUserID e = 7"
proof -
  have r: "user_reliable (axUsers mem_auth) map_of mem_tview (\<lambda>t. map_of (snd t))"
    by (simp add: memusers.user_reliable_axioms)
  let ?e = "auditEvent run_ambient ''admin.create-user'' run_admin 400"
  obtain b where b: "evMarshal (axUsers mem_auth) ?e = Inr b"
    by (simp add: mem_evMarshal_def eventEncodable_def auditEvent_def)
  have "\<exists>s2. serveAdmin mem_auth run_ambient run_bearer (AqCreateUser (Inl ''bad'')) run_server
       = (Inl (HttpError 400 ''bad''), s2)
     \<and> eventAt (axUsers mem_auth) (map_of (svUsers s2)) =
       (if fst (adminRoute (AqCreateUser (Inl ''bad''))) then eventAt (axUsers mem_auth) (map_of (svUsers run_server))
        else (eventAt (axUsers mem_auth) (map_of (svUsers run_server)))(eventKey ?e \<mapsto> ?e))
     \<and> userAt (axUsers mem_auth) (map_of (svUsers s2)) = userAt (axUsers mem_auth) (map_of (svUsers run_server))
     \<and> (AqCreateUser (Inl ''bad'') \<notin> range AqClearEvents \<longrightarrow> eventAt (axUsers mem_auth) (map_of (svUsers run_server))
          = eventAt (axUsers mem_auth) (map_of (svUsers run_server)))"
    using audit_exact [OF r, of run_server run_ambient "AqCreateUser (Inl ''bad'')" run_bearer run_jwt run_admin
        "Inl (HttpError 400 ''bad'')" run_server b] b
      run_admitted [of 10 num_env] run_users_dom
    by (simp add: run_users_store run_events_before freshAccount_def finite_dom_map_of run_ambient_now
        handler_CreateUser_def auditStatus_def)
  then obtain s2 where s2: "serveAdmin mem_auth run_ambient run_bearer (AqCreateUser (Inl ''bad'')) run_server
      = (Inl (HttpError 400 ''bad''), s2)" "eventAt mem_uenv (map_of (svUsers s2)) = [eventKey ?e \<mapsto> ?e]"
    by (auto simp: run_events_before)
  show ?thesis by (rule exI [of _ s2], rule exI [of _ ?e]) (simp add: s2 auditEvent_def)
qed

end
