(* ===== verification/System_Theorems.thy ===== *)
theory System_Theorems
  imports System_Apart Auth_Theorems Badger_Drive
begin

text \<open>
  The properties of the server as a whole: goroutines and response streams work on open drives, and a
  request reaches no drive but that of the account it was let in as. In the instance, the handles are
  numbers, and behind each of them is a Badger drive in memory.
\<close>

section \<open>A world of drives\<close>

text \<open>
  A handle is a number and the directory it was opened with. The world is the open handles and what is
  in the directories; two handles of the same directory see the same.
\<close>

type_synonym handle = "nat \<times> string"

definition openAt :: "string \<Rightarrow> handle list \<times> (string \<Rightarrow> 'ds) \<Rightarrow> (err + handle) \<times> handle list \<times> (string \<Rightarrow> 'ds)" where
  "openAt p w = (let v = (freshHandle (map fst (fst w)), p) in (Inr v, v # fst w, snd w))"

definition fileEnv :: "(handle, handle list \<times> (string \<Rightarrow> 'ds)) drv_env" where
  "fileEnv = \<lparr>dvBadger = (\<lambda>cfg. openAt (dcBadgerPath cfg)), dvLocal = (\<lambda>cfg. openAt (dcLocalPath cfg)),
     dvClose = (\<lambda>v w. (None, removeAll v (fst w), snd w)),
     dvTree = (\<lambda>v p w. Inr (TreeNode (vmeta0\<lparr>mPath := Root, mIsDir := True\<rparr>) []))\<rparr>"

definition fileAccess :: "(handle, handle list \<times> (string \<Rightarrow> 'ds), 'ds) drive_access" where
  "fileAccess = \<lparr>daGet = (\<lambda>v w. snd w (snd v)), daPut = (\<lambda>v d w. (fst w, (snd w)(snd v := d)))\<rparr>"

lemma openAt_fresh: "(freshHandle (map fst os), p) \<notin> set os"
  using freshHandle [of "map fst os"] by force

lemma apartDirs_differ: "apartDirs p q \<Longrightarrow> p \<noteq> q"
  by (auto simp: apartDirs_def)

interpretation filedrives: drive_places fileEnv "\<lambda>w. set (fst w)" fileAccess snd
  by unfold_locales (auto simp: fileEnv_def fileAccess_def openAt_def openAt_fresh Let_def dest: apartDirs_differ)

section \<open>Background work\<close>

text \<open>
  C20. Whatever the server is asked and in whatever order goroutines run, streams end and idle drives are
  collected: the drive of every goroutine and every response stream that has not ended is open, under the
  handle it holds, and counted as used; the number of uses is the number of those goroutines and streams.
\<close>

theorem work_on_open_drives:
  assumes "drive_states E live acc" and "(server_step A acc fs sk)\<^sup>*\<^sup>* s0 s" and "axDrives A = E"
    and "svDrives (syServer s0) = NewDriveManager cfg idle" and "live (svWorld (syServer s0)) = {}"
    and "syTasks s0 = []" and "syStreams s0 = []"
  shows "(\<forall>(u, v, t) \<in> set (syTasks s). \<exists>e. dmDrives (svDrives (syServer s)) u = Some e \<and> deDrive e = v
      \<and> v \<in> live (svWorld (syServer s)) \<and> 0 < deUsers e)
    \<and> (\<forall>(u, v, st) \<in> set (syStreams s). \<exists>e. dmDrives (svDrives (syServer s)) u = Some e \<and> deDrive e = v
      \<and> v \<in> live (svWorld (syServer s)) \<and> 0 < deUsers e)
    \<and> dmActive (svDrives (syServer s)) = int (length (syTasks s) + length (syStreams s))"
proof -
  have ok: "system_ok live s"
    by (rule drive_states.system_reach_ok [OF assms(1-3) drive_states.system_start_ok [OF assms(1,4-7)]])
  let ?m = "svDrives (syServer s)" and ?w = "svWorld (syServer s)"
  have dm: "dm_ok live ?m ?w (owedOf s) False" using ok by (simp add: system_ok_def)
  have one: "\<exists>e. dmDrives ?m u = Some e \<and> deDrive e = v \<and> v \<in> live ?w \<and> 0 < deUsers e"
    if h: "holdsOpen ?m (u, v, x)" "u \<in># owedOf s" for u v x
  proof -
    obtain e where e: "dmDrives ?m u = Some e" "deDrive e = v"
      using h(1) by (auto simp: holdsOpen_def handleOf_def)
    moreover have "v \<in> live ?w" using dm handleOf_entry [OF e(1)] e(2) by (auto simp: dm_ok_def handles_ok_def intro: ranI)
    moreover have "0 < deUsers e" using drive_world.unused_iff [OF drive_states.axioms(1) [OF assms(1)] dm e(1)] h(2) by simp
    ultimately show ?thesis by blast
  qed
  have "\<exists>e. dmDrives ?m u = Some e \<and> deDrive e = v \<and> v \<in> live ?w \<and> 0 < deUsers e"
    if "(u, v, t) \<in> set (syTasks s)" for u v t
    by (rule one [of u v t]) (use that ok in \<open>force simp: system_ok_def owedOf_def\<close>)+
  moreover have "\<exists>e. dmDrives ?m u = Some e \<and> deDrive e = v \<and> v \<in> live ?w \<and> 0 < deUsers e"
    if "(u, v, st) \<in> set (syStreams s)" for u v st
    by (rule one [of u v st]) (use that ok in \<open>force simp: system_ok_def owedOf_def\<close>)+
  moreover have "dmActive ?m = int (length (syTasks s) + length (syStreams s))"
    using dm by (simp add: dm_ok_def counters_ok_def owedOf_def)
  ultimately show ?thesis by (intro conjI ballI) (clarify, blast)+
qed

text \<open>The instance: the administrator of the server with one account, on Badger drives in memory.\<close>

definition run_fs :: "(mem bvfs, reader, blobReader) vfs_ops" where
  "run_fs = badger_ops mem_env (\<lambda>n. of_nat n) (\<lambda>n. int n)"

definition run_drive :: "mem bvfs" where
  "run_drive = \<lparr>b_db = [], b_failed = None, b_inMemory = True, b_key = [], b_closed = False\<rparr>"

definition run_begin :: "(mem, handle, handle list \<times> (string \<Rightarrow> mem bvfs), mem bvfs, blobReader) system" where
  "run_begin = \<lparr>syServer = \<lparr>svUsers = run_users, svDrives = NewDriveManager run_config 60,
     svWorld = ([], \<lambda>_. run_drive), svBroker = NewSSEBroker\<rparr>, syTasks = [], syStreams = []\<rparr>"

abbreviation run_auth :: "(mem, memtx, handle, handle list \<times> (string \<Rightarrow> mem bvfs)) auth_env" where
  "run_auth \<equiv> memAuth fileEnv"

text \<open>The handle of the first drive it opens.\<close>

definition run_handle :: handle where
  "run_handle = (1, userDir run_config 7)"

text \<open>A deletion is accepted and leaves a goroutine with the drive.\<close>

lemma run_deletion:
  "\<exists>t sv. serveVfs run_auth fileAccess run_fs None run_ambient run_bearer (RqDelete (uuidString 3) []) (syServer run_begin)
     = (Inr (RpStatus 202), Some t, Some run_handle, sv)"
proof -
  let ?m = "countUse 7 (setEntry 7 \<lparr>deDrive = run_handle, deLastUsed = 10, deUsers = 0, deCloseRequested = False\<rparr>
      (NewDriveManager run_config 60))" and ?w = "([run_handle], \<lambda>_ :: string. run_drive)"
  have a: "admitted run_auth run_ambient run_bearer run_users = Inr (run_jwt, run_admin)"
    using run_admitted [of 10 fileEnv] by (simp add: run_ambient_now)
  have q: "manager_Acquire fileEnv 10 7 (NewDriveManager run_config 60) ([], \<lambda>_. run_drive) = (Inr run_handle, ?m, ?w)"
    by (simp add: manager_Acquire_def driveLocked_def drive_open_def drivers_New_def driveConfig_def run_config_def
        DriverTypeBadger_def NewDriveManager_def fileEnv_def openAt_def Let_def freshHandle_def run_handle_def userDir_def)
  have "\<exists>t rs. withVFS (requestHttp run_auth run_ambient) run_fs None 7 (RqDelete (uuidString 3) []) d b
      = (Inr (RpStatus 202), Some t, rs)" for d b
    by (simp add: withVFS_def handler_Delete_def accepted_def asyncExecute_def takeRelease_def requestHttp_def
        http_env.truncate_def)
  then obtain t rs where h: "withVFS (requestHttp run_auth run_ambient) run_fs None 7 (RqDelete (uuidString 3) [])
      (daGet fileAccess run_handle ?w) NewSSEBroker = (Inr (RpStatus 202), Some t, rs)" by blast
  obtain m' w' where "releaseDrive fileEnv 11 7 (rqReleased rs) ?m (daPut fileAccess run_handle (rqDrive rs) ?w) = (m', w')"
    by (metis surj_pair)
  with a q h show ?thesis unfolding serveVfs_def onDrive_def by (simp add: run_begin_def)
qed

theorem work_on_open_drives_witness:
  "\<exists>t sv. serveVfs run_auth fileAccess run_fs None run_ambient run_bearer (RqDelete (uuidString 3) []) (syServer run_begin)
     = (Inr (RpStatus 202), Some t, Some run_handle, sv)
   \<and> (\<exists>e. dmDrives (svDrives sv) 7 = Some e \<and> deDrive e = run_handle \<and> run_handle \<in> set (fst (svWorld sv)) \<and> 0 < deUsers e)"
proof -
  obtain t sv where q: "serveVfs run_auth fileAccess run_fs None run_ambient run_bearer (RqDelete (uuidString 3) [])
      (syServer run_begin) = (Inr (RpStatus 202), Some t, Some run_handle, sv)" using run_deletion by blast
  have "admitted run_auth run_ambient run_bearer (svUsers (syServer run_begin)) = Inr (run_jwt, run_admin)"
    using run_admitted [of 10 fileEnv] by (simp add: run_ambient_now run_begin_def)
  from sv_vfs [OF q this]
  have "(server_step run_auth fileAccess run_fs None)\<^sup>*\<^sup>* run_begin
    (run_begin\<lparr>syServer := sv, syTasks := [(7, run_handle, t)], syStreams := []\<rparr>)"
    by (intro r_into_rtranclp) (simp add: leftTasks_def leftStreams_def run_begin_def)
  from work_on_open_drives [OF filedrives.drive_states_axioms this, where cfg = run_config and idle = 60]
  have "\<exists>e. dmDrives (svDrives sv) 7 = Some e \<and> deDrive e = run_handle \<and> run_handle \<in> set (fst (svWorld sv)) \<and> 0 < deUsers e"
    by (simp add: run_begin_def)
  with q show ?thesis by blast
qed

text \<open>The system after the opening of two drives, for the accounts 7 and 8.\<close>

definition run_pair :: "mem bvfs \<Rightarrow> mem bvfs
    \<Rightarrow> (mem, handle, handle list \<times> (string \<Rightarrow> mem bvfs), mem bvfs, blobReader) system" where
  "run_pair d7 d8 = \<lparr>syServer = \<lparr>svUsers = run_users,
     svDrives = (NewDriveManager run_config 60)\<lparr>dmDrives :=
       [7 \<mapsto> \<lparr>deDrive = (1, userDir run_config 7), deLastUsed = 5, deUsers = 0, deCloseRequested = False\<rparr>,
        8 \<mapsto> \<lparr>deDrive = (2, userDir run_config 8), deLastUsed = 5, deUsers = 0, deCloseRequested = False\<rparr>]\<rparr>,
     svWorld = ([(1, userDir run_config 7), (2, userDir run_config 8)],
       (\<lambda>_. run_drive)(userDir run_config 7 := d7, userDir run_config 8 := d8)), svBroker = NewSSEBroker\<rparr>,
     syTasks = [], syStreams = []\<rparr>"

lemma run_pair_ok: "system_ok (\<lambda>w. set (fst w)) (run_pair d7 d8)"
  "drives_placed snd (svDrives (syServer (run_pair d7 d8)))"
proof -
  let ?h = "[7 :: uuid \<mapsto> (1 :: nat, userDir run_config 7), 8 \<mapsto> (2, userDir run_config 8)]"
  have h: "handleOf (svDrives (syServer (run_pair d7 d8))) = ?h"
    by (auto simp: handleOf_def run_pair_def fun_eq_iff)
  have "ran ?h = {(1, userDir run_config 7), (2, userDir run_config 8)}" by auto
  moreover have "inj_on ?h (dom ?h)" by (auto simp: inj_on_def)
  ultimately have "handles_ok (\<lambda>w. set (fst w)) (svDrives (syServer (run_pair d7 d8))) (svWorld (syServer (run_pair d7 d8)))"
    unfolding handles_ok_def h by (simp add: run_pair_def)
  then show "system_ok (\<lambda>w. set (fst w)) (run_pair d7 d8)"
    by (auto simp: system_ok_def owedOf_def dm_ok_def counters_ok_def run_pair_def NewDriveManager_def)
  show "drives_placed snd (svDrives (syServer (run_pair d7 d8)))"
    unfolding drives_placed_def h by (auto simp: run_pair_def NewDriveManager_def)
qed

section \<open>Isolation\<close>

text \<open>
  C21. Accounts are isolated. Every account has a directory of its own below the one of the server, and a
  drive reaches no directory but the one it was opened with. So, whatever the server has been asked
  before, a request with a session of an account, and the work of a goroutine it left, leave the open
  drive of every other account open under its handle and in the same state, and the events they publish
  are addressed to the account itself.
\<close>

theorem drives_isolated:
  assumes "drive_places E live acc place" and "axDrives A = E"
    and "system_ok live s0" and "drives_placed place (svDrives (syServer s0))"
    and "(server_step A acc fs sk)\<^sup>*\<^sup>* s0 s"
    and "user_step A acc fs sk u s s'" and "x \<noteq> u" and "dmDrives (svDrives (syServer s)) x = Some e"
  shows "(\<exists>e'. dmDrives (svDrives (syServer s')) x = Some e' \<and> deDrive e' = deDrive e)
    \<and> daGet acc (deDrive e) (svWorld (syServer s')) = daGet acc (deDrive e) (svWorld (syServer s))
    \<and> (\<exists>ps. bkMessage (svBroker (syServer s')) = bkMessage (svBroker (syServer s)) @ ps
         \<and> (\<forall>p \<in> set ps. pubUser p = uuidString u))"
proof -
  note st = drive_places.axioms(1) [OF assms(1)]
  have "system_ok live s" by (rule drive_states.system_reach_ok [OF st assms(5,2,3)])
  moreover have "drives_placed place (svDrives (syServer s))"
    by (rule drive_places.system_reach_placed [OF assms(1,5,2,4)])
  ultimately have ap: "drive_places.apart acc (svDrives (syServer s)) (svWorld (syServer s))
        (svDrives (syServer s')) (svWorld (syServer s')) x
      \<and> addressed (uuidString u) (svBroker (syServer s)) (svBroker (syServer s'))"
    by (rule drive_places.user_step_apart [OF assms(1,6) _ assms(2,7)])
  have "handleOf (svDrives (syServer s')) x = Some (deDrive e)
      \<and> daGet acc (deDrive e) (svWorld (syServer s')) = daGet acc (deDrive e) (svWorld (syServer s))"
    using ap handleOf_entry [OF assms(8)] by (simp add: drive_places.apart_def [OF assms(1)])
  moreover from this obtain e' where "dmDrives (svDrives (syServer s')) x = Some e'" "deDrive e' = deDrive e"
    by (auto simp: handleOf_def)
  ultimately show ?thesis using ap by (simp add: addressed_def)
qed

theorem drives_isolated_witness:
  "\<forall>(rq :: reader vfs_request) d7 d8. snd (svWorld (snd (snd (snd
     (serveVfs run_auth fileAccess run_fs None run_ambient run_bearer rq (syServer (run_pair d7 d8)))))))
     (userDir run_config 8) = d8"
proof (intro allI)
  fix rq :: "reader vfs_request" and d7 d8
  let ?s = "run_pair d7 d8"
  obtain r t v sv where q: "serveVfs run_auth fileAccess run_fs None run_ambient run_bearer rq (syServer ?s) = (r, t, v, sv)"
    by (metis prod_cases4)
  have "admitted run_auth run_ambient run_bearer (svUsers (syServer ?s)) = Inr (run_jwt, run_admin)"
    using run_admitted [of 10 fileEnv] by (simp add: run_ambient_now run_pair_def)
  from by_request [OF q this] have st: "user_step run_auth fileAccess run_fs None 7 ?s
      (?s\<lparr>syServer := sv, syTasks := syTasks ?s @ leftTasks 7 v t, syStreams := syStreams ?s @ leftStreams 7 v r\<rparr>)" by simp
  have e: "dmDrives (svDrives (syServer ?s)) 8
      = Some \<lparr>deDrive = (2, userDir run_config 8), deLastUsed = 5, deUsers = 0, deCloseRequested = False\<rparr>"
    by (simp add: run_pair_def)
  from drives_isolated [OF filedrives.drive_places_axioms _ run_pair_ok rtranclp.rtrancl_refl st _ e]
  have "daGet fileAccess (2, userDir run_config 8) (svWorld sv)
      = daGet fileAccess (2, userDir run_config 8) (svWorld (syServer ?s))" by simp
  then have w: "snd (svWorld sv) (userDir run_config 8) = d8" by (simp add: fileAccess_def run_pair_def)
  show "snd (svWorld (snd (snd (snd (serveVfs run_auth fileAccess run_fs None run_ambient run_bearer rq
      (syServer ?s)))))) (userDir run_config 8) = d8"
    by (simp only: q snd_conv w)
qed

end
