(* ===== verification/Rotation.thy ===== *)
theory Rotation
  imports Badger_Vfs Disk_Facts
begin

text \<open>
  The key files of the Badger driver: \<open>pkg/drivers/badger/rotation.go\<close>, the key functions of \<open>utils.go\<close>,
  and \<open>Options\<close>, \<open>New\<close> and \<open>Rotate\<close> of \<open>badger.go\<close>. The secret file holds the key that BadgerDB's
  registry of data keys is encrypted with; a rotation replaces both, with a copy of the old pair and
  two markers beside them. What BadgerDB does to its own files are fields of a record, as actions on
  the same disk. Random numbers are arguments: \<open>rs k\<close> are the ones drawn for the \<open>k\<close>th temporary file.
\<close>

section \<open>Names\<close>

definition DefaultSecretFilename :: string where "DefaultSecretFilename = ''.secret''"

definition rotationDirectory :: string where "rotationDirectory = ''.key-rotation''"

text \<open>
  BadgerDB: opening and closing a database, and the key registry, which is opened for reading and
  written under a key. The database opened in memory has no directory.
\<close>

record ('db, 'reg) key_env =
  kyRegistryName :: string
  kyOpen :: "bytes \<Rightarrow> dpath \<Rightarrow> 'db act"
  kyOpenInMemory :: "bytes \<Rightarrow> 'db act"
  kyClose :: "'db \<Rightarrow> unit act"
  kyOpenRegistry :: "bytes \<Rightarrow> dpath \<Rightarrow> 'reg act"
  kyWriteRegistry :: "'reg \<Rightarrow> bytes \<Rightarrow> dpath \<Rightarrow> unit act"
  kyCloseRegistry :: "'reg \<Rightarrow> unit act"

definition secretAndRegistry :: "('db, 'reg) key_env \<Rightarrow> string list" where
  "secretAndRegistry E = [DefaultSecretFilename, kyRegistryName E]"

section \<open>Files\<close>

definition syncDir :: "dpath \<Rightarrow> unit act" where
  "syncDir dir = bindA (osStat dir) (\<lambda>_. syncAndClose None ())"

text \<open>\<open>Chmod\<close> may fail and changes nothing that is modelled.\<close>

definition atomicSecret :: "nat list \<Rightarrow> dpath \<Rightarrow> bytes \<Rightarrow> unit act" where
  "atomicSecret ns name data =
     bindA (osCreateTemp (butlast name) ''.key-'' ns) (\<lambda>file.
     finallyA (osRemove file)
       (bindA (tryA (readA (\<lambda>t. Inr ()))) (\<lambda>chmod.
        case chmod of
          Inl e \<Rightarrow> bindA (tryA closeFile) (\<lambda>c. joinA [Some e, failedWith c] ())
        | Inr _ \<Rightarrow>
            bindA (tryA (writeA file data)) (\<lambda>w. bindA (syncAndClose (failedWith w) ()) (\<lambda>_.
            bindA (osRename file name) (\<lambda>_. syncDir (butlast name)))))))"

section \<open>Recovery\<close>

definition restoreSecret :: "nat list \<Rightarrow> dpath \<Rightarrow> dpath \<Rightarrow> string \<Rightarrow> unit act" where
  "restoreSecret ns dir backup name =
     bindA (osReadFile (backup @ [name])) (\<lambda>data.
     bindA (tryA (atomicSecret ns (dir @ [name]) data)) (\<lambda>w.
     case w of Inl e \<Rightarrow> raiseA (ErrWrapped ''rotation rollback failed'' e) | Inr _ \<Rightarrow> pureA ()))"

definition restoreSaved :: "('db, 'reg) key_env \<Rightarrow> (nat \<Rightarrow> nat list) \<Rightarrow> dpath \<Rightarrow> dpath \<Rightarrow> unit act" where
  "restoreSaved E rs dir backup =
     bindA (forA (\<lambda>(k, name). restoreSecret (rs k) dir backup name) (enumerate 0 (secretAndRegistry E)))
       (\<lambda>_. osRemoveAll backup)"

text \<open>A backup without the marker of the commit.\<close>

definition recoverBackup :: "('db, 'reg) key_env \<Rightarrow> (nat \<Rightarrow> nat list) \<Rightarrow> dpath \<Rightarrow> dpath \<Rightarrow> unit act" where
  "recoverBackup E rs dir backup =
     bindA (tryA (osStat (backup @ [''ready'']))) (\<lambda>s. case s of
       Inl e \<Rightarrow> if errorsIs e ErrNotExist then osRemoveAll backup else raiseA e
     | Inr _ \<Rightarrow> restoreSaved E rs dir backup)"

definition recoverRotation :: "('db, 'reg) key_env \<Rightarrow> (nat \<Rightarrow> nat list) \<Rightarrow> dpath \<Rightarrow> unit act" where
  "recoverRotation E rs dir =
     (let backup = dir @ [rotationDirectory]
      in bindA (tryA (osStat backup)) (\<lambda>s. case s of
           Inl e \<Rightarrow> if errorsIs e ErrNotExist then pureA () else raiseA e
         | Inr _ \<Rightarrow>
             bindA (tryA (osStat (backup @ [''committed'']))) (\<lambda>s. case s of
               Inr _ \<Rightarrow> osRemoveAll backup
             | Inl e \<Rightarrow> if \<not> errorsIs e ErrNotExist then raiseA e else recoverBackup E rs dir backup)))"

section \<open>Rotation\<close>

definition saveSecret :: "nat list \<Rightarrow> dpath \<Rightarrow> dpath \<Rightarrow> string \<Rightarrow> unit act" where
  "saveSecret ns dir backup name =
     bindA (osReadFile (dir @ [name])) (\<lambda>data. atomicSecret ns (backup @ [name]) data)"

definition prepareRotation :: "('db, 'reg) key_env \<Rightarrow> (nat \<Rightarrow> nat list) \<Rightarrow> dpath \<Rightarrow> dpath act" where
  "prepareRotation E rs dir =
     (let backup = dir @ [rotationDirectory]
      in bindA (osMkdir backup) (\<lambda>_.
         bindA (forA (\<lambda>(k, name). saveSecret (rs k) dir backup name) (enumerate 0 (secretAndRegistry E))) (\<lambda>_.
         bindA (atomicSecret (rs 2) (backup @ [''ready'']) []) (\<lambda>_.
         bindA (syncDir dir) (\<lambda>_. pureA backup)))))"

text \<open>The registry under the new key.\<close>

definition rewriteRegistry :: "('db, 'reg) key_env \<Rightarrow> bytes \<Rightarrow> bytes \<Rightarrow> dpath \<Rightarrow> unit act" where
  "rewriteRegistry E key newKey dir =
     bindA (kyOpenRegistry E key dir) (\<lambda>registry.
     bindA (tryA (kyWriteRegistry E registry newKey dir)) (\<lambda>w.
     bindA (tryA (kyCloseRegistry E registry)) (\<lambda>c. joinA [failedWith w, failedWith c] ())))"

definition markCommitted :: "('db, 'reg) key_env \<Rightarrow> nat list \<Rightarrow> dpath \<Rightarrow> 'db \<Rightarrow> ('db \<times> dpath) act" where
  "markCommitted E ns backup db =
     bindA (tryA (atomicSecret ns (backup @ [''committed'']) [])) (\<lambda>m. case m of
       Inl e \<Rightarrow> bindA (tryA (kyClose E db)) (\<lambda>c. joinA [Some e, failedWith c] (db, backup))
     | Inr _ \<Rightarrow> pureA (db, backup))"

text \<open>The part of \<open>rotate\<close> that is rolled back when it fails: up to the marker of the commit.\<close>

definition rotateFiles :: "('db, 'reg) key_env \<Rightarrow> (nat \<Rightarrow> nat list) \<Rightarrow> bytes \<Rightarrow> bytes \<Rightarrow> dpath \<Rightarrow> ('db \<times> dpath) act" where
  "rotateFiles E rs key newKey dir =
     bindA (prepareRotation E rs dir) (\<lambda>backup.
     bindA (rewriteRegistry E key newKey dir) (\<lambda>_.
     bindA (atomicSecret (rs 3) (dir @ [DefaultSecretFilename]) newKey) (\<lambda>_.
     bindA (kyOpen E newKey dir) (\<lambda>db. markCommitted E (rs 4) backup db))))"

text \<open>
  The deferred rollback: the database it has opened, or the error that stopped it and whether the
  driver keeps that error.
\<close>

definition rollbackRotation :: "('db, 'reg) key_env \<Rightarrow> (nat \<Rightarrow> nat list) \<Rightarrow> bytes \<Rightarrow> dpath
    \<Rightarrow> ((err \<times> bool) + 'db) act" where
  "rollbackRotation E rs key dir =
     bindA (tryA (osRemove (dir @ [rotationDirectory, ''committed'']))) (\<lambda>m.
     let goOn = bindA (tryA (recoverRotation E rs dir)) (\<lambda>r. case r of
         Inl e \<Rightarrow> pureA (Inl (e, True))
       | Inr _ \<Rightarrow> bindA (tryA (kyOpen E key dir)) (\<lambda>db.
           pureA (case db of Inl e \<Rightarrow> Inl (e, False) | Inr db \<Rightarrow> Inr db)))
     in case m of
          Inl e \<Rightarrow> if \<not> errorsIs e ErrNotExist then pureA (Inl (e, True)) else goOn
        | Inr _ \<Rightarrow> goOn)"

definition rotate :: "('db, 'reg) key_env \<Rightarrow> (nat \<Rightarrow> nat list) \<Rightarrow> dpath \<Rightarrow> bytes \<Rightarrow> 'db bvfs \<Rightarrow> disk
    \<Rightarrow> unit run \<times> 'db bvfs \<times> disk" where
  "rotate E rs dir newKey s d =
     (case kyClose E (b_db s) d of
        (Crashed, d) \<Rightarrow> (Crashed, s, d)
      | (Raises e, d) \<Rightarrow> (Raises e, s, d)
      | (Returns _, d) \<Rightarrow>
          let s = s\<lparr>b_failed := Some ErrClosed\<rparr> in
          (case rotateFiles E rs (b_key s) newKey dir d of
             (Crashed, d) \<Rightarrow> (Crashed, s, d)
           | (Returns (db, backup), d) \<Rightarrow>
               (case osRemoveAll backup d of
                  (r, d) \<Rightarrow> (r, s\<lparr>b_db := db, b_key := newKey, b_failed := None\<rparr>, d))
           | (Raises e, d) \<Rightarrow>
               (case rollbackRotation E (\<lambda>k. rs (5 + k)) (b_key s) dir d of
                  (Returns (Inr db), d) \<Rightarrow>
                    (Raises (the (errorsJoin [Some e, None])), s\<lparr>b_db := db, b_failed := None\<rparr>, d)
                | (Returns (Inl (e', stuck)), d) \<Rightarrow>
                    (Raises (the (errorsJoin [Some e, Some e'])),
                     if stuck then s\<lparr>b_failed := Some e'\<rparr> else s, d)
                | (_, d) \<Rightarrow> (Crashed, s, d))))"

definition badger_Rotate :: "('db, 'reg) key_env \<Rightarrow> (nat \<Rightarrow> nat list) \<Rightarrow> dpath \<Rightarrow> bytes \<Rightarrow> 'db bvfs \<Rightarrow> disk
    \<Rightarrow> unit run \<times> 'db bvfs \<times> disk" where
  "badger_Rotate E rs dir newKey s d =
     (case b_failed s of
        Some e \<Rightarrow> (Raises e, s, d)
      | None \<Rightarrow>
          if b_inMemory s then (Raises ErrNotSupported, s, d)
          else if length newKey \<notin> {16, 24, 32} then (Raises ErrInvalidEncryptionKey, s, d)
          else if newKey = b_key s then (Returns (), s, d)
          else rotate E rs dir newKey s d)"

section \<open>Opening the driver\<close>

text \<open>The configuration; a key that is not set is \<open>None\<close>, and so is an empty path.\<close>

record badger_config =
  bcPath :: "dpath option"
  bcEncryptKey :: "bytes option"
  bcInMemory :: bool

definition getEncryptionKey :: "dpath \<Rightarrow> bytes act" where
  "getEncryptionKey secretFile = osReadFile secretFile"

text \<open>\<open>random\<close> is what \<open>randomSecretKey\<close> returns.\<close>

definition GenerateEncryptionKey :: "err + bytes \<Rightarrow> dpath \<Rightarrow> bytes act" where
  "GenerateEncryptionKey random secretFile =
     bindA (liftA random) (\<lambda>key.
     bindA (osMkdirAll (butlast secretFile)) (\<lambda>_.
     bindA (osCreate secretFile) (\<lambda>_.
     bindA (tryA (writeA secretFile key)) (\<lambda>w.
     bindA (syncAndClose (failedWith w) ()) (\<lambda>_.
     bindA (syncDir (butlast secretFile)) (\<lambda>_. pureA key))))))"

definition inMemoryOnly :: "badger_config \<Rightarrow> bool" where
  "inMemoryOnly cfg \<longleftrightarrow> bcInMemory cfg \<or> bcPath cfg = None"

text \<open>The key of the options; the errors of reading and generating it leave it unset.\<close>

definition badger_Options :: "err + bytes \<Rightarrow> badger_config \<Rightarrow> bytes option act" where
  "badger_Options random cfg =
     (case bcEncryptKey cfg of
        Some key \<Rightarrow> pureA (Some key)
      | None \<Rightarrow>
          let keyOf = (\<lambda>r :: err + bytes. case r of Inl e \<Rightarrow> None | Inr key \<Rightarrow> Some key)
          in if inMemoryOnly cfg then pureA (keyOf random)
             else let secretFile = the (bcPath cfg) @ [DefaultSecretFilename]
               in bindA (tryA (getEncryptionKey secretFile)) (\<lambda>r. case r of
                    Inr key \<Rightarrow> pureA (Some key)
                  | Inl e \<Rightarrow>
                      if errorsIs e ErrNotExist
                      then bindA (tryA (GenerateEncryptionKey random secretFile)) (\<lambda>r. pureA (keyOf r))
                      else pureA None))"

definition badger_New :: "('db, 'reg) key_env \<Rightarrow> (nat \<Rightarrow> nat list) \<Rightarrow> err + bytes \<Rightarrow> badger_config \<Rightarrow> 'db bvfs act" where
  "badger_New E rs random cfg =
     bindA (case bcPath cfg of None \<Rightarrow> pureA () | Some dir \<Rightarrow> recoverRotation E rs dir) (\<lambda>_.
     bindA (badger_Options random cfg) (\<lambda>key. case key of
       None \<Rightarrow> raiseA (ErrOther ''could not initialize encryption key'')
     | Some key \<Rightarrow>
         bindA (if inMemoryOnly cfg then kyOpenInMemory E key else kyOpen E key (the (bcPath cfg))) (\<lambda>db.
         pureA \<lparr>b_db = db, b_failed = None, b_inMemory = inMemoryOnly cfg, b_key = key, b_closed = False\<rparr>)))"

end
