(* ===== verification/Rotation_Facts.thy ===== *)
theory Rotation_Facts
  imports Rotation
begin

text \<open>
  What a rotation and a recovery do to the key files, whatever fails: the replacement of one file,
  the states in which a recovery finds a matching pair of secret and registry, and BadgerDB's part as
  a locale.
\<close>

section \<open>Temporary files\<close>

definition tempFile :: "dpath \<Rightarrow> dpath \<Rightarrow> bool" where
  "tempFile dir f \<longleftrightarrow> (\<exists>n. f = dir @ [''.key-'' @ formatUint n])"

definition allTaken :: "dpath \<Rightarrow> nat list \<Rightarrow> dtree \<Rightarrow> bool" where
  "allTaken dir ns t \<longleftrightarrow> (\<forall>n \<in> set ns. nodeAt t (dir @ [''.key-'' @ formatUint n]) \<noteq> None)"

lemma wp_osCreateTemp:
  assumes t: "tree_ok t" "nodeAt t dir = Some DirNode"
    and Q: "\<And>f t'. tempFile dir f \<Longrightarrow> nodeAt t f = None \<Longrightarrow> tree_ok t' \<Longrightarrow> nodeAt t' = (nodeAt t)(f \<mapsto> RegNode []) \<Longrightarrow> Q f t'"
    and E: "\<And>e. snd c \<or> allTaken dir ns t \<Longrightarrow> E e t" and C: "snd c \<Longrightarrow> C t"
  shows "wp c (osCreateTemp dir ''.key-'' ns) Q E C t"
  using E
proof (induction ns)
  case Nil
  then show ?case by (auto simp: allTaken_def intro!: wp_raise)
next
  case (Cons n ns)
  let ?f = "dir @ [''.key-'' @ formatUint n]"
  have go: "wp c (osCreateTemp dir ''.key-'' ns) Q E C t" if "snd c \<or> nodeAt t ?f \<noteq> None"
    by (rule Cons.IH, rule Cons.prems) (use that in \<open>auto simp: allTaken_def\<close>)
  have f: "wp c (case Inl e of Inr _ \<Rightarrow> pureA ?f | Inl e \<Rightarrow> if errorsIs e ErrExist then osCreateTemp dir ''.key-'' ns else raiseA e) Q E C t"
    if "snd c \<or> e = ErrExist \<and> nodeAt t ?f \<noteq> None" for e :: err
    using go that Cons.prems by (auto intro!: wp_raise)
  show ?case
    unfolding osCreateTemp.simps Let_def osCreate_def
  proof (intro wp_bind wp_try wp_change faultyI)
    fix e assume "treeAdd ?f (RegNode []) t = Inl e"
    then have "e = ErrExist \<and> nodeAt t ?f \<noteq> None" using t(2) by (auto simp: treeAdd_def split: if_splits)
    then show "wp c (case Inl e of Inr _ \<Rightarrow> pureA ?f | Inl e \<Rightarrow> if errorsIs e ErrExist then osCreateTemp dir ''.key-'' ns else raiseA e) Q E C t"
      by (intro f) simp
  next
    fix t' assume a: "treeAdd ?f (RegNode []) t = Inr t'"
    from treeAdd_ok [OF t(1) a] treeAdd_Inr [OF a] Q [of ?f t']
    show "wp c (case Inr () of Inr _ \<Rightarrow> pureA ?f | Inl e \<Rightarrow> if errorsIs e ErrExist then osCreateTemp dir ''.key-'' ns else raiseA e) Q E C t'"
      by (auto simp: tempFile_def intro!: wp_pure)
  qed (use f C in auto)
qed

lemma wp_syncDir:
  assumes "nodeAt t dir \<noteq> None" and "Q () t" and "\<And>e. snd c \<Longrightarrow> E e t" and "snd c \<Longrightarrow> C t"
  shows "wp c (syncDir dir) Q E C t"
  unfolding syncDir_def osStat_def
  by (intro wp_bind wp_read wp_syncAndClose faultyI) (use assms in \<open>auto simp: treeStat_def\<close>)

text \<open>
  The file has its new contents or nothing has changed but a temporary file. Without faults it
  fails only when every number drawn is taken.
\<close>

lemma wp_atomicSecret:
  assumes t: "tree_ok t" "nodeAt t (butlast name) = Some DirNode" "name \<noteq> []"
    and n: "nodeAt t name = None \<or> (\<exists>b. nodeAt t name = Some (RegNode b))" "\<not> tempFile (butlast name) name"
    and Q: "\<And>t'. tree_ok t' \<Longrightarrow> nodeAt t' = (nodeAt t)(name \<mapsto> RegNode data) \<Longrightarrow> Q () t'"
    and P: "\<And>t' f x. tempFile (butlast name) f \<Longrightarrow> nodeAt t f = None \<Longrightarrow> tree_ok t' \<Longrightarrow> nodeAt t' = (nodeAt t)(f := x) \<Longrightarrow> P t'"
      "P t" "\<And>t'. tree_ok t' \<Longrightarrow> nodeAt t' = (nodeAt t)(name \<mapsto> RegNode data) \<Longrightarrow> P t'"
    and G: "snd c \<or> allTaken (butlast name) ns t \<Longrightarrow> G"
  shows "wp c (atomicSecret ns name data) Q (\<lambda>_ t. G \<and> P t) (\<lambda>t. snd c \<and> P t) t"
  unfolding atomicSecret_def
proof (intro wp_bind wp_osCreateTemp [OF t(1,2)])
  fix f t1
  assume f: "tempFile (butlast name) f" "nodeAt t f = None" and t1: "tree_ok t1" "nodeAt t1 = (nodeAt t)(f \<mapsto> RegNode [])"
  have "f \<noteq> name" using f(1) n(2) by blast
  with f(1) have ff: "f \<noteq> name" "butlast f = butlast name" "f \<noteq> []" by (auto simp: tempFile_def)
  have ap: "apart f name"
  proof -
    have "f = butlast name @ [last f]" "name = butlast name @ [last name]"
      using append_butlast_last_id [OF ff(3)] append_butlast_last_id [OF t(3)] ff(2) by simp_all
    moreover have "apart (p @ [x]) (p @ [y])" if "x \<noteq> y" for p :: dpath and x y using that by (auto simp: apart_def)
    ultimately show ?thesis using ff(1) by metis
  qed
  define D where "D t' \<longleftrightarrow> tree_ok t' \<and> nodeAt t' = (nodeAt t)(name \<mapsto> RegNode data)" for t'
  define W where "W b t' \<longleftrightarrow> tree_ok t' \<and> nodeAt t' = (nodeAt t)(f \<mapsto> RegNode b)" for b t'
  have WP: "W b t' \<Longrightarrow> P t'" for b t' using P(1) [OF f, of t' "Some (RegNode b)"] by (simp add: W_def)
  have DP: "D t' \<Longrightarrow> P t'" for t' using P(3) by (simp add: D_def)
  have dir: "nodeAt t' (butlast name) \<noteq> None" if "D t'" for t'
  proof -
    have "butlast name \<noteq> name" using t(3) by (metis append_butlast_last_id not_Cons_self2 self_append_conv)
    then show ?thesis using that t(2) by (simp add: D_def)
  qed
  have filled: "W b (treeWrite f b t1)" for b
    using treeWrite_ok [OF t1(1)] by (auto simp: W_def treeWrite_at t1(2) fun_eq_iff)
  have half: "\<exists>b'. W b' (treeWrite f b t1)" for b using filled by blast
  have ren: "treeRename f name t' = Inr t'' \<Longrightarrow> D t''" "treeRename f name t' \<noteq> Inl e" if w: "W data t'" for t' t'' e
  proof -
    have w': "tree_ok t'" "nodeAt t' = (nodeAt t)(f \<mapsto> RegNode data)" using w by (auto simp: W_def)
    have "nodeAt t' (butlast name) = Some DirNode"
      using t(2) f(2) by (auto simp: w'(2))
    then obtain t2 where "treeRename f name t' = Inr t2" "tree_ok t2"
        "nodeAt t2 = (nodeAt t')(f := None, name \<mapsto> RegNode data)"
      using treeRename_over [OF w'(1) ap, of data] n(1) ff(1) by (auto simp: w'(2))
    moreover have "(nodeAt t)(f := None, name \<mapsto> RegNode data) = (nodeAt t)(name \<mapsto> RegNode data)"
      using f(2) by (simp add: fun_upd_idem)
    ultimately show "treeRename f name t' = Inr t'' \<Longrightarrow> D t''" "treeRename f name t' \<noteq> Inl e"
      by (auto simp: D_def w'(2))
  qed
  let ?S = "\<lambda>t'. snd c \<and> (D t' \<or> (\<exists>b. W b t'))"
  have w1: "W [] t1" using t1 by (simp add: W_def)
  have body: "wp c (bindA (tryA (readA (\<lambda>t. Inr ()))) (\<lambda>chmod. case chmod of
          Inl e \<Rightarrow> bindA (tryA closeFile) (\<lambda>c. joinA [Some e, failedWith c] ())
        | Inr _ \<Rightarrow> bindA (tryA (writeA f data)) (\<lambda>w. bindA (syncAndClose (failedWith w) ()) (\<lambda>_.
            bindA (osRename f name) (\<lambda>_. syncDir (butlast name))))))
     (\<lambda>_. D) (\<lambda>_. ?S) ?S t1"
  proof (intro wp_bind wp_try wp_read faultyI)
    fix e assume c: "snd c"
    show "wp c (case Inl e of Inl e \<Rightarrow> bindA (tryA closeFile) (\<lambda>c. joinA [Some e, failedWith c] ())
        | Inr _ \<Rightarrow> bindA (tryA (writeA f data)) (\<lambda>w. bindA (syncAndClose (failedWith w) ()) (\<lambda>_.
            bindA (osRename f name) (\<lambda>_. syncDir (butlast name))))) (\<lambda>_. D) (\<lambda>_. ?S) ?S t1"
      unfolding sum.case closeFile_def
      by (intro wp_bind wp_try wp_read wp_join faultyI) (use w1 c in auto)
  next
    fix x assume "Inr () = (Inr x :: err + unit)"
    show "wp c (case Inr x of Inl e \<Rightarrow> bindA (tryA closeFile) (\<lambda>c. joinA [Some e, failedWith c] ())
        | Inr _ \<Rightarrow> bindA (tryA (writeA f data)) (\<lambda>w. bindA (syncAndClose (failedWith w) ()) (\<lambda>_.
            bindA (osRename f name) (\<lambda>_. syncDir (butlast name))))) (\<lambda>_. D) (\<lambda>_. ?S) ?S t1"
      unfolding sum.case osRename_def
      by (intro wp_bind wp_try wp_write wp_syncAndClose wp_change wp_syncDir faultyI)
        (use half ren [OF filled] dir in \<open>auto simp: failedWith_def\<close>)
  qed (use w1 in auto)
  have clean: "wp c (osRemove f) (\<lambda>_ t'. R t') (\<lambda>_ t'. R t') (\<lambda>t'. snd c \<and> P t') t'"
    if "R t'" "snd c \<Longrightarrow> P t'" "\<And>t''. treeRemove f t' = Inr t'' \<Longrightarrow> R t''" for R t'
    unfolding osRemove_def by (intro wp_change faultyI) (use that in auto)
  show "wp c (finallyA (osRemove f) (bindA (tryA (readA (\<lambda>t. Inr ()))) (\<lambda>chmod. case chmod of
          Inl e \<Rightarrow> bindA (tryA closeFile) (\<lambda>c. joinA [Some e, failedWith c] ())
        | Inr _ \<Rightarrow> bindA (tryA (writeA f data)) (\<lambda>w. bindA (syncAndClose (failedWith w) ()) (\<lambda>_.
            bindA (osRename f name) (\<lambda>_. syncDir (butlast name)))))))
     Q (\<lambda>_ t. G \<and> P t) (\<lambda>t. snd c \<and> P t) t1"
  proof (intro wp_finally wp_mono [OF body])
    fix x t' assume d: "D t'"
    then have "treeRemove f t' \<noteq> Inr t''" for t'' using f(2) ff(1) by (auto simp: treeRemove_def D_def)
    then show "wp c (osRemove f) (\<lambda>_. Q x) (\<lambda>_. Q x) (\<lambda>t. snd c \<and> P t) t'"
      using d Q DP by (intro clean) (auto simp: D_def)
  next
    fix e t' assume s: "?S t'"
    have "G \<and> P t''" if rm: "treeRemove f t' = Inr t''" for t''
    proof -
      from s obtain b where w: "W b t'" using f(2) ff(1) rm by (auto simp: treeRemove_def D_def)
      from treeRemove_Inr [OF _ rm] w have "tree_ok t''" "nodeAt t'' = (nodeAt t)(f := None)"
        by (auto simp: W_def)
      with P(1) [OF f] s G show ?thesis by blast
    qed
    then show "wp c (osRemove f) (\<lambda>_ t. G \<and> P t) (\<lambda>_ t. G \<and> P t) (\<lambda>t. snd c \<and> P t) t'"
      using s G WP DP by (intro clean) auto
  qed (use WP DP in auto)
qed (use P(2) G in auto)

section \<open>Key files\<close>

text \<open>
  The files of a drive in \<open>dir\<close>, as a function from paths to nodes. \<open>opens key b\<close> holds when a registry
  with the contents \<open>b\<close> is encrypted with \<open>key\<close>.
\<close>

abbreviation secretAt :: "dpath \<Rightarrow> dpath" where "secretAt dir \<equiv> dir @ [DefaultSecretFilename]"
abbreviation backupAt :: "dpath \<Rightarrow> dpath" where "backupAt dir \<equiv> dir @ [rotationDirectory]"

definition isFile :: "tfun \<Rightarrow> dpath \<Rightarrow> bool" where
  "isFile f p \<longleftrightarrow> (\<exists>b. f p = Some (RegNode b))"

definition registryOpens :: "string \<Rightarrow> (bytes \<Rightarrow> bytes \<Rightarrow> bool) \<Rightarrow> bytes \<Rightarrow> dpath \<Rightarrow> tfun \<Rightarrow> bool" where
  "registryOpens rg opens key dir f \<longleftrightarrow> (\<exists>b. f (dir @ [rg]) = Some (RegNode b) \<and> opens key b)"

text \<open>The secret file holds the key of the registry.\<close>

definition keyPair :: "string \<Rightarrow> (bytes \<Rightarrow> bytes \<Rightarrow> bool) \<Rightarrow> bytes \<Rightarrow> dpath \<Rightarrow> tfun \<Rightarrow> bool" where
  "keyPair rg opens key dir f \<longleftrightarrow> f (secretAt dir) = Some (RegNode key) \<and> registryOpens rg opens key dir f"

text \<open>A recovery would put the saved pair back.\<close>

definition pending :: "dpath \<Rightarrow> tfun \<Rightarrow> bool" where
  "pending dir f \<longleftrightarrow> f (backupAt dir @ [''ready'']) \<noteq> None \<and> f (backupAt dir @ [''committed'']) = None"

text \<open>
  The files in the course of a rotation from the key \<open>old\<close>: what has been saved belongs to \<open>old\<close>, and when
  nothing would be put back there is a pair for a key in \<open>K\<close>.
\<close>

definition rotating :: "string \<Rightarrow> (bytes \<Rightarrow> bytes \<Rightarrow> bool) \<Rightarrow> bytes \<Rightarrow> bytes set \<Rightarrow> dpath \<Rightarrow> tfun \<Rightarrow> bool" where
  "rotating rg opens old K dir f \<longleftrightarrow> f dir = Some DirNode
     \<and> (f (secretAt dir) = None \<or> isFile f (secretAt dir)) \<and> (f (dir @ [rg]) = None \<or> isFile f (dir @ [rg]))
     \<and> (f (backupAt dir) = None \<or> f (backupAt dir) = Some DirNode)
     \<and> (f (backupAt dir @ [DefaultSecretFilename]) = None \<or> f (backupAt dir @ [DefaultSecretFilename]) = Some (RegNode old))
     \<and> (f (backupAt dir @ [rg]) = None \<or> (\<exists>b. f (backupAt dir @ [rg]) = Some (RegNode b) \<and> opens old b))
     \<and> (\<not> pending dir f \<longrightarrow> (\<exists>key \<in> K. keyPair rg opens key dir f))"

text \<open>Names BadgerDB has nothing to do with.\<close>

definition besideSame :: "dpath \<Rightarrow> tfun \<Rightarrow> tfun \<Rightarrow> bool" where
  "besideSame dir f f' \<longleftrightarrow> f' dir = f dir
     \<and> (\<forall>p x. prefix (dir @ [x]) p \<longrightarrow> x = DefaultSecretFilename \<or> prefix ''.key-'' x \<longrightarrow> f' p = f p)"

definition besideKept :: "dpath \<Rightarrow> dtree \<Rightarrow> dtree \<Rightarrow> bool" where
  "besideKept dir t t' \<longleftrightarrow> tree_ok t' \<and> besideSame dir (nodeAt t) (nodeAt t')"

definition dbKept :: "string \<Rightarrow> (bytes \<Rightarrow> bytes \<Rightarrow> bool) \<Rightarrow> bytes \<Rightarrow> dpath \<Rightarrow> dtree \<Rightarrow> dtree \<Rightarrow> bool" where
  "dbKept rg opens key dir t t' \<longleftrightarrow> besideKept dir t t' \<and> registryOpens rg opens key dir (nodeAt t')"

text \<open>
  What the driver relies on: BadgerDB keeps a registry under its key, writes it as a whole, touches
  no other of these files, and fails only with faults of the system unless it is \<open>flaky\<close>.
\<close>

locale key_files =
  fixes E :: "('db, 'reg) key_env" and opens :: "bytes \<Rightarrow> bytes \<Rightarrow> bool" and flaky :: bool
  assumes registry_name: "\<not> prefix ''.key-'' (kyRegistryName E)"
      "kyRegistryName E \<notin> {DefaultSecretFilename, ''committed'', ''ready''}"
    and open_db: "tree_ok t \<Longrightarrow> nodeAt t dir = Some DirNode \<Longrightarrow> registryOpens (kyRegistryName E) opens key dir (nodeAt t)
      \<Longrightarrow> wp c (kyOpen E key dir) (\<lambda>_. dbKept (kyRegistryName E) opens key dir t)
        (\<lambda>_ t'. (snd c \<or> flaky) \<and> dbKept (kyRegistryName E) opens key dir t t')
        (\<lambda>t'. snd c \<and> dbKept (kyRegistryName E) opens key dir t t') t"
    and close_db: "tree_ok t \<Longrightarrow> nodeAt t dir = Some DirNode \<Longrightarrow> registryOpens (kyRegistryName E) opens key dir (nodeAt t)
      \<Longrightarrow> wp c (kyClose E db) (\<lambda>_. dbKept (kyRegistryName E) opens key dir t)
        (\<lambda>_ t'. (snd c \<or> flaky) \<and> dbKept (kyRegistryName E) opens key dir t t')
        (\<lambda>t'. snd c \<and> dbKept (kyRegistryName E) opens key dir t t') t"
    and open_registry: "tree_ok t \<Longrightarrow> nodeAt t dir = Some DirNode \<Longrightarrow> registryOpens (kyRegistryName E) opens key dir (nodeAt t)
      \<Longrightarrow> wp c (kyOpenRegistry E key dir) (\<lambda>_ t'. t' = t) (\<lambda>_ t'. (snd c \<or> flaky) \<and> t' = t) (\<lambda>t'. snd c \<and> t' = t) t"
    and write_registry: "tree_ok t \<Longrightarrow> nodeAt t dir = Some DirNode \<Longrightarrow> isFile (nodeAt t) (dir @ [kyRegistryName E])
      \<Longrightarrow> wp c (kyWriteRegistry E reg key dir) (\<lambda>_. dbKept (kyRegistryName E) opens key dir t)
        (\<lambda>_ t'. (snd c \<or> flaky) \<and> besideKept dir t t' \<and> isFile (nodeAt t') (dir @ [kyRegistryName E]))
        (\<lambda>t'. snd c \<and> besideKept dir t t' \<and> isFile (nodeAt t') (dir @ [kyRegistryName E])) t"
    and close_registry: "wp c (kyCloseRegistry E reg) (\<lambda>_ t'. t' = t) (\<lambda>_ t'. (snd c \<or> flaky) \<and> t' = t)
      (\<lambda>t'. snd c \<and> t' = t) t"

section \<open>What keeps a rotation in order\<close>

lemma rotation_names [simp]: "DefaultSecretFilename \<noteq> rotationDirectory" "rotationDirectory \<noteq> DefaultSecretFilename"
  "DefaultSecretFilename \<noteq> ''committed''" "DefaultSecretFilename \<noteq> ''ready''"
  "''committed'' \<noteq> DefaultSecretFilename" "''ready'' \<noteq> DefaultSecretFilename" "prefix ''.key-'' rotationDirectory"
  "\<not> prefix ''.key-'' DefaultSecretFilename"
  by (simp_all add: DefaultSecretFilename_def rotationDirectory_def)

lemma tempFile_not: "\<not> prefix ''.key-'' x \<Longrightarrow> \<not> tempFile dir (dir @ [x])"
  by (auto simp: tempFile_def)

lemma tempFile_backup: "\<not> tempFile dir (backupAt dir)"
proof
  assume "tempFile dir (backupAt dir)"
  then obtain n where "rotationDirectory = ''.key-'' @ formatUint n" by (auto simp: tempFile_def)
  then have "formatUint n = ''rotation''" by (simp add: rotationDirectory_def)
  then show False using formatUint_digits [of "CHR ''r''" n] by simp
qed

lemma tempFile_apart: "tempFile dir g \<Longrightarrow> g \<noteq> dir" "tempFile dir g \<Longrightarrow> g \<noteq> dir @ [x, y]"
  "tempFile (dir @ [x]) g \<Longrightarrow> g \<noteq> dir" "tempFile (dir @ [x]) g \<Longrightarrow> g \<noteq> dir @ [y]"
  by (auto simp: tempFile_def)

context key_files
begin

abbreviation pairIn :: "bytes \<Rightarrow> dpath \<Rightarrow> tfun \<Rightarrow> bool" where "pairIn \<equiv> keyPair (kyRegistryName E) opens"
abbreviation inRotation :: "bytes \<Rightarrow> bytes set \<Rightarrow> dpath \<Rightarrow> tfun \<Rightarrow> bool" where
  "inRotation \<equiv> rotating (kyRegistryName E) opens"

lemma registry_differs [simp]: "kyRegistryName E \<noteq> DefaultSecretFilename" "DefaultSecretFilename \<noteq> kyRegistryName E"
  "kyRegistryName E \<noteq> ''committed''" "kyRegistryName E \<noteq> ''ready''" "kyRegistryName E \<noteq> rotationDirectory"
  "''committed'' \<noteq> kyRegistryName E" "''ready'' \<noteq> kyRegistryName E" "rotationDirectory \<noteq> kyRegistryName E"
  "\<not> prefix ''.key-'' (kyRegistryName E)"
  using registry_name rotation_names(7) by auto

lemma temp_differs:
  assumes "tempFile dir g \<or> tempFile (backupAt dir) g"
  shows "dir \<noteq> g" "secretAt dir \<noteq> g" "backupAt dir \<noteq> g" "dir @ [kyRegistryName E] \<noteq> g"
    "dir @ [rotationDirectory, DefaultSecretFilename] \<noteq> g" "dir @ [rotationDirectory, kyRegistryName E] \<noteq> g"
    "dir @ [rotationDirectory, ''ready''] \<noteq> g" "dir @ [rotationDirectory, ''committed''] \<noteq> g"
  using assms tempFile_apart(1,2) [of dir g] tempFile_apart(3,4) [of dir rotationDirectory g]
    tempFile_not [of _ dir] tempFile_not [of _ "backupAt dir"] tempFile_backup
  by auto

lemma rotating_mono: "inRotation old K dir f \<Longrightarrow> K \<subseteq> K' \<Longrightarrow> inRotation old K' dir f"
  by (auto simp: rotating_def)

lemma rotating_temp:
  assumes "inRotation old K dir f" and "tempFile dir g \<or> tempFile (backupAt dir) g"
  shows "inRotation old K dir (f(g := x))"
  using assms(1) temp_differs [OF assms(2)]
  by (simp add: rotating_def isFile_def pending_def keyPair_def registryOpens_def)

lemma rotating_without:
  assumes "inRotation old K dir f" and "pairIn key dir f" "key \<in> K" and "\<And>q. q \<in> X \<Longrightarrow> prefix (backupAt dir) q"
  shows "inRotation old K dir (without X f)"
proof -
  have "dir \<notin> X" "secretAt dir \<notin> X" "dir @ [kyRegistryName E] \<notin> X" using assms(4) by fastforce+
  moreover from this have "pairIn key dir (without X f)"
    using assms(2) by (auto simp: keyPair_def registryOpens_def without_def)
  ultimately show ?thesis using assms(1,3) by (auto simp: rotating_def isFile_def without_def)
qed

lemma rotating_saved:
  assumes "inRotation old K dir f"
  shows "inRotation old K dir (f(backupAt dir @ [DefaultSecretFilename] \<mapsto> RegNode old))"
    "opens old b \<Longrightarrow> inRotation old K dir (f(backupAt dir @ [kyRegistryName E] \<mapsto> RegNode b))"
  using assms by (auto simp: rotating_def isFile_def pending_def keyPair_def registryOpens_def)

lemma rotating_pending:
  assumes "inRotation old K dir f" "pending dir f"
  shows "inRotation old K' dir (f(secretAt dir \<mapsto> RegNode b))" "inRotation old K' dir (f(dir @ [kyRegistryName E] \<mapsto> RegNode b))"
    "pending dir (f(secretAt dir \<mapsto> RegNode b))" "pending dir (f(dir @ [kyRegistryName E] \<mapsto> RegNode b))"
  using assms by (auto simp: rotating_def isFile_def pending_def)

lemma besideSame_at:
  assumes "besideSame dir f f'" and "x = DefaultSecretFilename \<or> prefix ''.key-'' x"
  shows "f' (dir @ x # xs) = f (dir @ x # xs)"
  using assms unfolding besideSame_def by (metis append_Cons append_Nil append_assoc prefixI)

lemma beside_rotating:
  assumes "besideSame dir f f'" and "inRotation old K dir f" and "isFile f' (dir @ [kyRegistryName E])"
    and "\<not> pending dir f \<Longrightarrow> key \<in> K \<and> pairIn key dir f'"
  shows "inRotation old K dir f'" "pending dir f' = pending dir f"
proof -
  note k = besideSame_at [OF assms(1)]
  have d: "f' dir = f dir" using assms(1) by (simp add: besideSame_def)
  show p: "pending dir f' = pending dir f" by (simp add: pending_def k)
  with assms(2-4) show "inRotation old K dir f'" unfolding rotating_def by (auto simp: k d isFile_def)
qed

section \<open>Recovery, whatever fails\<close>

definition inOrder :: "bytes \<Rightarrow> bytes set \<Rightarrow> dpath \<Rightarrow> dtree \<Rightarrow> bool" where
  "inOrder old K dir t \<longleftrightarrow> tree_ok t \<and> inRotation old K dir (nodeAt t)"

text \<open>No rotation is left over and the files hold a pair.\<close>

definition recovered :: "bytes set \<Rightarrow> dpath \<Rightarrow> dtree \<Rightarrow> bool" where
  "recovered K dir t \<longleftrightarrow> tree_ok t \<and> nodeAt t dir = Some DirNode \<and> nodeAt t (backupAt dir) = None
     \<and> (\<exists>key \<in> K. pairIn key dir (nodeAt t))"

lemma wp_cleanup:
  assumes t: "inOrder old K dir t" and "pairIn key dir (nodeAt t)" "key \<in> K" and "orderly (fst c)"
  shows "wp c (osRemoveAll (backupAt dir))
    (\<lambda>_ t'. recovered {key} dir t' \<and> nodeAt t' (secretAt dir) = nodeAt t (secretAt dir))
    (\<lambda>_ t'. snd c \<and> inOrder old K dir t' \<and> pairIn key dir (nodeAt t'))
    (\<lambda>t'. snd c \<and> inOrder old K dir t' \<and> pairIn key dir (nodeAt t')) t"
proof -
  have r: "tree_ok t" "inRotation old K dir (nodeAt t)" using t by (auto simp: inOrder_def)
  have pair: "pairIn key dir (without X (nodeAt t))" if "\<And>q. q \<in> X \<Longrightarrow> prefix (backupAt dir) q" for X
  proof -
    have "secretAt dir \<notin> X" "dir @ [kyRegistryName E] \<notin> X" using that by fastforce+
    then show ?thesis using assms(2) by (auto simp: keyPair_def registryOpens_def without_def)
  qed
  have "wpS c (osRemoveAll (backupAt dir))
      (\<lambda>_ t'. recovered {key} dir t' \<and> nodeAt t' (secretAt dir) = nodeAt t (secretAt dir))
      (\<lambda>t'. inOrder old K dir t' \<and> pairIn key dir (nodeAt t')) t"
  proof (rule wp_osRemoveAll [OF r(1) assms(4)])
    fix t' assume t': "tree_ok t'" "nodeAt t' = without {q. prefix (backupAt dir) q} (nodeAt t)"
    then have "pairIn key dir (nodeAt t')" using pair [of "{q. prefix (backupAt dir) q}"] by simp
    moreover have "nodeAt t' dir = Some DirNode" using r(2) by (auto simp: t'(2) without_def rotating_def)
    ultimately show "recovered {key} dir t' \<and> nodeAt t' (secretAt dir) = nodeAt t (secretAt dir)"
      using t'(1) assms(2) by (auto simp: recovered_def t'(2) without_def keyPair_def)
  next
    fix gone rest t'
    assume g: "\<And>q. q \<in> set gone \<Longrightarrow> prefix (backupAt dir) q" and t': "tree_ok t'" "nodeAt t' = without (set gone) (nodeAt t)"
    show "inOrder old K dir t' \<and> pairIn key dir (nodeAt t')"
      using rotating_without [OF r(2) assms(2,3) g] pair [OF g] t' by (simp add: inOrder_def)
  qed simp
  then show ?thesis by (rule wp_mono) (auto simp: stopsIn_def)
qed

lemma treeRead_at: "treeRead p t = Inr b \<longleftrightarrow> nodeAt t p = Some (RegNode b)"
  by (auto simp: treeRead_def treeStat_def bindE_def split: option.splits dnode.splits)

lemma wp_restore:
  assumes t: "inOrder old K dir t" and "pending dir (nodeAt t)" and x: "x = DefaultSecretFilename \<or> x = kyRegistryName E"
    and Q: "\<And>data t'. nodeAt t (backupAt dir @ [x]) = Some (RegNode data) \<Longrightarrow> tree_ok t' \<Longrightarrow>
      nodeAt t' = (nodeAt t)(dir @ [x] \<mapsto> RegNode data) \<Longrightarrow> Q () t'"
  shows "wp c (restoreSecret ns dir (backupAt dir) x) Q (\<lambda>_. inOrder old K dir) (\<lambda>t'. snd c \<and> inOrder old K dir t') t"
  unfolding restoreSecret_def osReadFile_def
proof (intro wp_bind wp_read wp_try faultyI)
  fix data assume "treeRead (backupAt dir @ [x]) t = Inr data"
  then have data: "nodeAt t (backupAt dir @ [x]) = Some (RegNode data)" by (simp add: treeRead_at)
  have r: "tree_ok t" "inRotation old K dir (nodeAt t)" using t by (auto simp: inOrder_def)
  have files: "nodeAt t dir = Some DirNode" "nodeAt t (dir @ [x]) = None \<or> (\<exists>b. nodeAt t (dir @ [x]) = Some (RegNode b))"
    using r(2) x by (auto simp: rotating_def isFile_def)
  let ?w = "\<lambda>w :: err + unit. case w of Inl e \<Rightarrow> raiseA (ErrWrapped ''rotation rollback failed'' e) | Inr _ \<Rightarrow> pureA ()"
  have "wp c (atomicSecret ns (dir @ [x]) data) (\<lambda>y. wp c (?w (Inr y)) Q (\<lambda>_. inOrder old K dir) (\<lambda>t'. snd c \<and> inOrder old K dir t'))
     (\<lambda>_ t. True \<and> inOrder old K dir t) (\<lambda>t'. snd c \<and> inOrder old K dir t') t"
  proof (rule wp_atomicSecret)
    show "\<not> tempFile (butlast (dir @ [x])) (dir @ [x])" using x tempFile_not by auto
    fix t' f y assume "tempFile (butlast (dir @ [x])) f" "tree_ok t'" "nodeAt t' = (nodeAt t)(f := y)"
    then show "inOrder old K dir t'" using rotating_temp [OF r(2)] by (simp add: inOrder_def)
  next
    fix t' assume t': "tree_ok t'" "nodeAt t' = (nodeAt t)(dir @ [x] \<mapsto> RegNode data)"
    then show "inOrder old K dir t'" using rotating_pending(1,2) [OF r(2) assms(2)] x by (auto simp: inOrder_def)
    show "wp c (?w (Inr y)) Q (\<lambda>_. inOrder old K dir) (\<lambda>t'. snd c \<and> inOrder old K dir t') t'" for y
      using Q [OF data t'] by (auto intro: wp_pure)
  qed (use files r t in auto)
  then show "wp c (atomicSecret ns (dir @ [x]) data) (\<lambda>y. wp c (?w (Inr y)) Q (\<lambda>_. inOrder old K dir) (\<lambda>t'. snd c \<and> inOrder old K dir t'))
     (\<lambda>e. wp c (?w (Inl e)) Q (\<lambda>_. inOrder old K dir) (\<lambda>t'. snd c \<and> inOrder old K dir t')) (\<lambda>t'. snd c \<and> inOrder old K dir t') t"
    by (rule wp_mono) (auto intro: wp_raise)
qed (use t in auto)

lemma inOrder_settled:
  assumes "inOrder old K dir t" and "\<not> pending dir (nodeAt t)"
  obtains key where "key \<in> K" "pairIn key dir (nodeAt t)"
  using assms by (auto simp: inOrder_def rotating_def)

lemma treeStat_simps: "treeStat p t = Inr n \<longleftrightarrow> nodeAt t p = Some n" "treeStat p t = Inl e \<Longrightarrow> nodeAt t p = None"
  by (auto simp: treeStat_def split: option.splits)

lemma wp_removeBackup:
  assumes "inOrder old K dir t" and "\<not> pending dir (nodeAt t)" and "orderly (fst c)"
  shows "wp c (osRemoveAll (backupAt dir)) (\<lambda>_. recovered K dir) (\<lambda>_. inOrder old K dir) (\<lambda>t'. snd c \<and> inOrder old K dir t') t"
proof -
  obtain key where k: "key \<in> K" "pairIn key dir (nodeAt t)" by (rule inOrder_settled [OF assms(1,2)])
  show ?thesis by (rule wp_mono [OF wp_cleanup [OF assms(1) k(2,1) assms(3)]]) (use k in \<open>auto simp: recovered_def\<close>)
qed

lemma wp_restoreSaved:
  assumes t: "inOrder old K dir t" and pn: "pending dir (nodeAt t)" and "old \<in> K" and "orderly (fst c)"
  shows "wp c (restoreSaved E rs dir (backupAt dir)) (\<lambda>_. recovered K dir) (\<lambda>_. inOrder old K dir)
    (\<lambda>t'. snd c \<and> inOrder old K dir t') t"
  unfolding restoreSaved_def secretAndRegistry_def enumerate_simps forA.simps prod.case
proof (intro wp_bind wp_restore [OF t pn] wp_pure)
  fix data t1
  assume d: "nodeAt t (backupAt dir @ [DefaultSecretFilename]) = Some (RegNode data)" and
    t1: "tree_ok t1" "nodeAt t1 = (nodeAt t)(secretAt dir \<mapsto> RegNode data)"
  have r: "inRotation old K dir (nodeAt t)" using t by (simp add: inOrder_def)
  then have data: "data = old" using d by (auto simp: rotating_def)
  have o1: "inOrder old K dir t1" "pending dir (nodeAt t1)"
    using rotating_pending [OF r pn] t1 by (auto simp: inOrder_def)
  let ?W = "\<lambda>m. wp c m (\<lambda>_. recovered K dir) (\<lambda>_. inOrder old K dir) (\<lambda>t'. snd c \<and> inOrder old K dir t')"
  show "wp c (restoreSecret (rs (Suc 0)) dir (backupAt dir) (kyRegistryName E))
      (\<lambda>x. wp c (pureA ()) (\<lambda>_. ?W (osRemoveAll (backupAt dir))) (\<lambda>_. inOrder old K dir) (\<lambda>t'. snd c \<and> inOrder old K dir t'))
      (\<lambda>_. inOrder old K dir) (\<lambda>t'. snd c \<and> inOrder old K dir t') t1"
  proof (intro wp_restore [OF o1] wp_pure)
    fix b t2
    assume b: "nodeAt t1 (backupAt dir @ [kyRegistryName E]) = Some (RegNode b)" and
      t2: "tree_ok t2" "nodeAt t2 = (nodeAt t1)(dir @ [kyRegistryName E] \<mapsto> RegNode b)"
    have "opens old b" using o1(1) b by (auto simp: inOrder_def rotating_def)
    then have "pairIn old dir (nodeAt t2)" by (simp add: t2(2) t1(2) data keyPair_def registryOpens_def)
    moreover have "inOrder old K dir t2" using rotating_pending [of old K dir "nodeAt t1"] o1 t2 by (auto simp: inOrder_def)
    ultimately show "?W (osRemoveAll (backupAt dir)) t2"
      using assms(3,4) by (intro wp_mono [OF wp_cleanup]) (auto simp: recovered_def)
  qed simp
qed simp

lemma wp_recoverBackup:
  assumes t: "inOrder old K dir t" and "nodeAt t (backupAt dir @ [''committed'']) = None" and "old \<in> K" and "orderly (fst c)"
  shows "wp c (recoverBackup E rs dir (backupAt dir)) (\<lambda>_. recovered K dir) (\<lambda>_. inOrder old K dir)
    (\<lambda>t'. snd c \<and> inOrder old K dir t') t"
  unfolding recoverBackup_def osStat_def
proof (intro wp_bind wp_try wp_read faultyI)
  let ?W = "\<lambda>m. wp c m (\<lambda>_. recovered K dir) (\<lambda>_. inOrder old K dir) (\<lambda>t'. snd c \<and> inOrder old K dir t')"
  fix e assume "treeStat (backupAt dir @ [''ready'']) t = Inl e"
  then have "\<not> pending dir (nodeAt t)" using treeStat_simps(2) by (auto simp: pending_def)
  then show "?W (case Inl e of Inl e \<Rightarrow> if errorsIs e ErrNotExist then osRemoveAll (backupAt dir) else raiseA e
     | Inr _ \<Rightarrow> restoreSaved E rs dir (backupAt dir)) t"
    using wp_removeBackup [OF t _ assms(4)] t by (auto intro: wp_raise)
next
  fix n assume "treeStat (backupAt dir @ [''ready'']) t = Inr n"
  then have "pending dir (nodeAt t)" using assms(2) by (simp add: treeStat_simps pending_def)
  from wp_restoreSaved [OF t this assms(3,4)]
  show "wp c (case Inr n of Inl e \<Rightarrow> if errorsIs e ErrNotExist then osRemoveAll (backupAt dir) else raiseA e
     | Inr _ \<Rightarrow> restoreSaved E rs dir (backupAt dir)) (\<lambda>_. recovered K dir) (\<lambda>_. inOrder old K dir)
    (\<lambda>t'. snd c \<and> inOrder old K dir t') t"
    by simp
qed (use t in \<open>auto intro: wp_raise\<close>)

lemma wp_recoverKeys:
  assumes t: "inOrder old K dir t" and "old \<in> K" and "orderly (fst c)"
  shows "wp c (recoverRotation E rs dir) (\<lambda>_. recovered K dir) (\<lambda>_. inOrder old K dir) (\<lambda>t'. snd c \<and> inOrder old K dir t') t"
proof -
  let ?W = "\<lambda>m. wp c m (\<lambda>_. recovered K dir) (\<lambda>_. inOrder old K dir) (\<lambda>t'. snd c \<and> inOrder old K dir t') t"
  have r: "tree_ok t" "inRotation old K dir (nodeAt t)" using t by (auto simp: inOrder_def)
  have none: "recovered K dir t" if "treeStat (backupAt dir) t = Inl e" for e
  proof -
    have b: "nodeAt t (backupAt dir) = None" using treeStat_simps(2) [OF that] .
    then have "nodeAt t (backupAt dir @ [''ready'']) = None" by (metis okF_prefix [OF tree_okF [OF r(1)]] prefixI)
    then have "\<not> pending dir (nodeAt t)" by (simp add: pending_def)
    with r b show ?thesis by (auto simp: recovered_def rotating_def)
  qed
  have committed: "?W (osRemoveAll (backupAt dir))" if "treeStat (backupAt dir @ [''committed'']) t = Inr n" for n
    using that by (intro wp_removeBackup [OF t _ assms(3)]) (auto simp: treeStat_simps pending_def)
  have uncommitted: "?W (if \<not> errorsIs e ErrNotExist then raiseA e else recoverBackup E rs dir (backupAt dir))"
    if "treeStat (backupAt dir @ [''committed'']) t = Inl e" for e
    using wp_recoverBackup [OF t treeStat_simps(2) [OF that] assms(2,3)] t by (auto intro: wp_raise)
  show ?thesis
    unfolding recoverRotation_def Let_def osStat_def
  proof (intro wp_bind wp_try wp_read faultyI)
    fix n assume "treeStat (backupAt dir) t = Inr n"
    show "?W (case Inr n of Inl e \<Rightarrow> if errorsIs e ErrNotExist then pureA () else raiseA e
       | Inr _ \<Rightarrow> bindA (tryA (readA (treeStat (backupAt dir @ [''committed''])))) (\<lambda>s. case s of
           Inr _ \<Rightarrow> osRemoveAll (backupAt dir)
         | Inl e \<Rightarrow> if \<not> errorsIs e ErrNotExist then raiseA e else recoverBackup E rs dir (backupAt dir)))"
      unfolding sum.case
      by (intro wp_bind wp_try wp_read faultyI) (use committed uncommitted t in \<open>auto intro: wp_raise\<close>)
  qed (use none t in \<open>auto intro: wp_raise wp_pure\<close>)
qed

end

end
