(* ===== verification/Rotation_Runs.thy ===== *)
theory Rotation_Runs
  imports Rotation_Facts
begin

text \<open>
  A rotation from beginning to end: the saved copies, the new registry and secret, the marker of the
  commit, and what the deferred rollback makes of a failure.
\<close>

section \<open>States of a rotation\<close>

text \<open>Enough random numbers: one of each list is free among the temporary files of the drive.\<close>

definition lucky :: "dpath \<Rightarrow> (nat \<Rightarrow> nat list) \<Rightarrow> dtree \<Rightarrow> bool" where
  "lucky dir rs t \<longleftrightarrow> (\<forall>k. \<not> allTaken dir (rs k) t)"

context key_files
begin

text \<open>A rotation that has failed: a recovery finds a pair, and without the marker it is the old one.\<close>

definition undoable :: "bytes \<Rightarrow> bytes \<Rightarrow> dpath \<Rightarrow> dtree \<Rightarrow> bool" where
  "undoable old new dir t \<longleftrightarrow> inOrder old {old, new} dir t
     \<and> inRotation old {old} dir ((nodeAt t)(backupAt dir @ [''committed''] := None))"

definition uncommitted :: "bytes \<Rightarrow> dpath \<Rightarrow> tfun \<Rightarrow> bool" where
  "uncommitted old dir f \<longleftrightarrow> inRotation old {old} dir f \<and> f (backupAt dir @ [''committed'']) = None"

lemma uncommitted_undoable: "tree_ok t \<Longrightarrow> uncommitted old dir (nodeAt t) \<Longrightarrow> undoable old new dir t"
  using rotating_mono [of old "{old}" dir "nodeAt t" "{old, new}"]
  by (simp add: undoable_def uncommitted_def inOrder_def fun_upd_idem)

lemma uncommitted_temp: "uncommitted old dir f \<Longrightarrow> tempFile dir g \<or> tempFile (backupAt dir) g \<Longrightarrow> uncommitted old dir (f(g := x))"
  using rotating_temp [of old "{old}" dir f g x] temp_differs(8) [of dir g] by (auto simp: uncommitted_def)

lemma uncommitted_saved:
  assumes "uncommitted old dir f"
  shows "uncommitted old dir (f(backupAt dir @ [DefaultSecretFilename] \<mapsto> RegNode old))"
    "opens old b \<Longrightarrow> uncommitted old dir (f(backupAt dir @ [kyRegistryName E] \<mapsto> RegNode b))"
    "uncommitted old dir (f(backupAt dir @ [''ready''] \<mapsto> RegNode []))"
  using assms rotating_saved [of old "{old}" dir f]
  by (auto simp: uncommitted_def rotating_def pending_def isFile_def)

lemma temp_name: "''.key-'' @ formatUint n \<noteq> x" if "\<not> prefix ''.key-'' x"
  using that by (metis prefixI)

lemma temp_names [simplified, simp]: "''.key-'' @ formatUint n \<noteq> DefaultSecretFilename"
  "''.key-'' @ formatUint n \<noteq> kyRegistryName E"
  by (rule temp_name, simp)+

text \<open>Writing a file of the backup directory.\<close>

lemma wp_saved:
  assumes t: "tree_ok t" "nodeAt t (backupAt dir) = Some DirNode" "nodeAt t (backupAt dir @ [x]) = None"
    and x: "\<not> prefix ''.key-'' x" and u: "uncommitted old dir (nodeAt t)"
      "uncommitted old dir ((nodeAt t)(backupAt dir @ [x] \<mapsto> RegNode data))"
    and free: "\<And>n. nodeAt t (backupAt dir @ [''.key-'' @ formatUint n]) = None" and G: "snd c \<or> ns = [] \<Longrightarrow> G"
    and Q: "\<And>t'. tree_ok t' \<Longrightarrow> nodeAt t' = (nodeAt t)(backupAt dir @ [x] \<mapsto> RegNode data) \<Longrightarrow> Q () t'"
  shows "wp c (atomicSecret ns (backupAt dir @ [x]) data) Q (\<lambda>_ t'. G \<and> undoable old new dir t')
    (\<lambda>t'. snd c \<and> undoable old new dir t') t"
proof (rule wp_atomicSecret)
  show "\<not> tempFile (butlast (backupAt dir @ [x])) (backupAt dir @ [x])" using tempFile_not [OF x, of "backupAt dir"] by (simp add: butlast_append)
  fix t' f y assume a: "tempFile (butlast (backupAt dir @ [x])) f" and t': "tree_ok t'" "nodeAt t' = (nodeAt t)(f := y)"
  have "uncommitted old dir ((nodeAt t)(f := y))" using uncommitted_temp [OF u(1)] a by (simp add: butlast_append)
  then show "undoable old new dir t'" using uncommitted_undoable [OF t'(1)] t'(2) by simp
next
  fix t' assume t': "tree_ok t'" "nodeAt t' = (nodeAt t)(backupAt dir @ [x] \<mapsto> RegNode data)"
  then show "undoable old new dir t'" using uncommitted_undoable [OF t'(1)] u(2) by simp
  show "Q () t'" by (rule Q [OF t'])
next
  show "undoable old new dir t" by (rule uncommitted_undoable [OF t(1) u(1)])
  assume "snd c \<or> allTaken (butlast (backupAt dir @ [x])) ns t"
  then show G using G free by (cases ns) (auto simp: allTaken_def butlast_append)
qed (use t in \<open>auto simp: butlast_append\<close>)

lemma wp_saveSecret:
  assumes t: "tree_ok t" "nodeAt t (backupAt dir) = Some DirNode" "nodeAt t (backupAt dir @ [x]) = None"
    and "\<not> prefix ''.key-'' x" and u: "uncommitted old dir (nodeAt t)"
      "uncommitted old dir ((nodeAt t)(backupAt dir @ [x] \<mapsto> RegNode data))"
    and free: "\<And>n. nodeAt t (backupAt dir @ [''.key-'' @ formatUint n]) = None" and G: "snd c \<or> ns = [] \<Longrightarrow> G"
    and data: "nodeAt t (dir @ [x]) = Some (RegNode data)"
    and Q: "\<And>t'. tree_ok t' \<Longrightarrow> nodeAt t' = (nodeAt t)(backupAt dir @ [x] \<mapsto> RegNode data) \<Longrightarrow> Q () t'"
  shows "wp c (saveSecret ns dir (backupAt dir) x) Q (\<lambda>_ t'. G \<and> undoable old new dir t')
    (\<lambda>t'. snd c \<and> undoable old new dir t') t"
  unfolding saveSecret_def osReadFile_def
proof (intro wp_bind wp_read faultyI)
  fix d assume "treeRead (dir @ [x]) t = Inr d"
  then have "d = data" using data by (simp add: treeRead_at)
  moreover have "wp c (atomicSecret ns (backupAt dir @ [x]) data) Q
      (\<lambda>_ t'. G \<and> undoable old new dir t') (\<lambda>t'. snd c \<and> undoable old new dir t') t"
    by (rule wp_saved) (fact t u assms(4) free | rule G Q, assumption+)+
  ultimately show "wp c (atomicSecret ns (backupAt dir @ [x]) d) Q
      (\<lambda>_ t'. G \<and> undoable old new dir t') (\<lambda>t'. snd c \<and> undoable old new dir t') t" by simp
next
  fix e assume "treeRead (dir @ [x]) t = Inl e"
  moreover have "treeRead (dir @ [x]) t = Inr data" using data by (simp add: treeRead_at)
  ultimately show "G \<and> undoable old new dir t" by simp
qed (use G uncommitted_undoable [OF t(1) u(1)] in auto)

lemma wp_prepare:
  assumes t: "recovered {old} dir t" and reg: "nodeAt t (dir @ [kyRegistryName E]) = Some (RegNode b)"
    and G: "snd c \<or> \<not> lucky dir rs t \<Longrightarrow> G"
    and Q: "\<And>t'. tree_ok t' \<Longrightarrow> nodeAt t' = (nodeAt t)(backupAt dir \<mapsto> DirNode,
      backupAt dir @ [DefaultSecretFilename] \<mapsto> RegNode old, backupAt dir @ [kyRegistryName E] \<mapsto> RegNode b,
      backupAt dir @ [''ready''] \<mapsto> RegNode []) \<Longrightarrow> uncommitted old dir (nodeAt t') \<Longrightarrow> Q (backupAt dir) t'"
  shows "wp c (prepareRotation E rs dir) Q (\<lambda>_ t'. G \<and> undoable old new dir t') (\<lambda>t'. snd c \<and> undoable old new dir t') t"
proof -
  let ?f = "nodeAt t" and ?B = "backupAt dir"
  let ?f1 = "?f(?B \<mapsto> DirNode)"
  let ?f2 = "?f1(?B @ [DefaultSecretFilename] \<mapsto> RegNode old)"
  let ?f3 = "?f2(?B @ [kyRegistryName E] \<mapsto> RegNode b)"
  let ?f4 = "?f3(?B @ [''ready''] \<mapsto> RegNode [])"
  have t': "tree_ok t" "?f dir = Some DirNode" "?f ?B = None" "pairIn old dir ?f" using t by (auto simp: recovered_def)
  then have sec: "?f (secretAt dir) = Some (RegNode old)" and ob: "opens old b"
    using reg by (auto simp: keyPair_def registryOpens_def)
  have below: "?f (?B @ xs) = None" for xs using t'(3) by (metis okF_prefix [OF tree_okF [OF t'(1)]] prefixI)
  have below': "?f (dir @ rotationDirectory # xs) = None" for xs using below [of xs] by simp
  have u1: "uncommitted old dir ?f1" and u: "uncommitted old dir ?f"
    using t' sec reg by (auto simp: uncommitted_def rotating_def below' isFile_def keyPair_def registryOpens_def pending_def)
  note u2 = uncommitted_saved(1) [OF u1] note u3 = uncommitted_saved(2) [OF u2 ob] note u4 = uncommitted_saved(3) [OF u3]
  have "\<not> lucky dir rs t" if "rs k = []" for k using that by (auto simp: lucky_def allTaken_def intro!: exI [of _ k])
  with G have g: "G" if "snd c \<or> rs k = []" for k using that by blast
  have un: "undoable old new dir t1" if "tree_ok t1" "uncommitted old dir (nodeAt t1)" for t1
    by (rule uncommitted_undoable [OF that])
  have nt: "\<not> prefix ''.key-'' DefaultSecretFilename" "\<not> prefix ''.key-'' ''ready''" by simp_all
  let ?W = "\<lambda>m. wp c m Q (\<lambda>_ t'. G \<and> undoable old new dir t') (\<lambda>t'. snd c \<and> undoable old new dir t')"
  have sync: "?W (bindA (syncDir dir) (\<lambda>_. pureA ?B)) t5" if t5: "tree_ok t5" "nodeAt t5 = ?f4" for t5
  proof -
    have u5: "uncommitted old dir (nodeAt t5)" using u4 by (simp add: t5(2))
    have "?W (pureA ?B) t5" by (rule wp_pure, rule Q [OF t5 u5])
    moreover have "nodeAt t5 dir \<noteq> None" using t'(2) by (simp add: t5(2))
    ultimately show ?thesis using un [OF t5(1) u5] g [of 0] by (intro wp_bind wp_syncDir) auto
  qed
  have ready: "?W (bindA (atomicSecret (rs 2) (?B @ [''ready'']) []) (\<lambda>_. bindA (syncDir dir) (\<lambda>_. pureA ?B))) t4"
    if t4: "tree_ok t4" "nodeAt t4 = ?f3" for t4
    by (rule wp_bind, rule wp_saved [OF t4(1)]) (use u3 u4 t4(2) sync below' g nt in \<open>auto simp: t4(2)\<close>)
  obtain t1 where t1: "treeAdd ?B DirNode t = Inr t1" using t'(2,3) by (auto simp: treeAdd_def)
  from treeAdd_ok [OF t'(1) t1] treeAdd_Inr [OF t1]
  have ok1: "tree_ok t1" "nodeAt t1 = ?f1" by auto
  have saves: "wp c (forA (\<lambda>(k, name). saveSecret (rs k) dir ?B name) (enumerate 0 (secretAndRegistry E)))
      (\<lambda>_. ?W (bindA (atomicSecret (rs 2) (?B @ [''ready'']) []) (\<lambda>_. bindA (syncDir dir) (\<lambda>_. pureA ?B))))
      (\<lambda>_ t'. G \<and> undoable old new dir t') (\<lambda>t'. snd c \<and> undoable old new dir t') t1"
    unfolding secretAndRegistry_def enumerate_simps forA.simps prod.case
  proof (intro wp_bind wp_saveSecret [OF ok1(1)])
    fix t2 assume t2: "tree_ok t2" "nodeAt t2 = (nodeAt t1)(?B @ [DefaultSecretFilename] \<mapsto> RegNode old)"
    then have f2: "nodeAt t2 = ?f2" by (simp add: ok1(2))
    show "wp c (saveSecret (rs (Suc 0)) dir ?B (kyRegistryName E))
        (\<lambda>_. wp c (pureA ()) (\<lambda>_. ?W (bindA (atomicSecret (rs 2) (?B @ [''ready'']) []) (\<lambda>_. bindA (syncDir dir) (\<lambda>_. pureA ?B))))
          (\<lambda>_ t'. G \<and> undoable old new dir t') (\<lambda>t'. snd c \<and> undoable old new dir t'))
        (\<lambda>_ t'. G \<and> undoable old new dir t') (\<lambda>t'. snd c \<and> undoable old new dir t') t2"
      by (rule wp_saveSecret [OF t2(1)])
        (use u2 u3 reg ready below' g in \<open>auto simp: f2 intro!: wp_pure\<close>)
  qed (use u1 u2 sec below' g nt in \<open>auto simp: ok1(2)\<close>)
  show ?thesis
    unfolding prepareRotation_def Let_def osMkdir_def
    by (intro wp_bind wp_change faultyI) (use t1 saves un [OF t'(1) u] g [of 0] in \<open>auto intro!: wp_bind\<close>)
qed

section \<open>Replacing the pair\<close>

text \<open>The old pair is saved, nothing is committed, and the files are as a rotation needs them.\<close>

definition saved :: "bytes \<Rightarrow> dpath \<Rightarrow> dtree \<Rightarrow> bool" where
  "saved old dir t \<longleftrightarrow> tree_ok t \<and> nodeAt t dir = Some DirNode \<and> nodeAt t (backupAt dir) = Some DirNode
     \<and> uncommitted old dir (nodeAt t) \<and> pending dir (nodeAt t) \<and> isFile (nodeAt t) (dir @ [kyRegistryName E])
     \<and> (\<forall>n. nodeAt t (backupAt dir @ [''.key-'' @ formatUint n]) = None)"

lemma saved_undoable: "saved old dir t \<Longrightarrow> undoable old new dir t"
  using uncommitted_undoable by (simp add: saved_def)

lemma undoable_inOrder: "undoable old new dir t \<Longrightarrow> inOrder old {old, new} dir t"
  by (simp add: undoable_def)

lemma saved_beside:
  assumes "saved old dir t" and "besideKept dir t t'" and "isFile (nodeAt t') (dir @ [kyRegistryName E])"
  shows "saved old dir t'"
proof -
  have s: "besideSame dir (nodeAt t) (nodeAt t')" "tree_ok t'" using assms(2) by (auto simp: besideKept_def)
  have "inRotation old {old} dir (nodeAt t')" "pending dir (nodeAt t') = pending dir (nodeAt t)"
    using beside_rotating [OF s(1) _ assms(3), of old "{old}" old] assms(1) by (auto simp: saved_def uncommitted_def)
  with assms(1,3) s(2) show ?thesis
    using besideSame_at [OF s(1)] s(1) by (auto simp: saved_def uncommitted_def besideSame_def)
qed

lemma saved_secret:
  assumes "saved old dir t" and "tree_ok t'" and "nodeAt t' = (nodeAt t)(secretAt dir \<mapsto> RegNode b)"
  shows "saved old dir t'"
  using assms rotating_pending(1) [of old "{old}" dir "nodeAt t" "{old}" b]
  by (auto simp: saved_def uncommitted_def isFile_def pending_def)

lemma opens_file: "registryOpens (kyRegistryName E) opens key dir f \<Longrightarrow> isFile f (dir @ [kyRegistryName E])"
  by (auto simp: registryOpens_def isFile_def)

lemma pair_kept:
  assumes "pairIn key dir (nodeAt t)" and "dbKept (kyRegistryName E) opens key dir t t'"
  shows "pairIn key dir (nodeAt t')"
  using assms besideSame_at [of dir "nodeAt t" "nodeAt t'" DefaultSecretFilename "[]"]
  by (simp add: keyPair_def dbKept_def besideKept_def)

lemma undoable_kept:
  assumes u: "undoable old new dir t" and pn: "pairIn new dir (nodeAt t)" and k: "dbKept (kyRegistryName E) opens new dir t t'"
    and pd: "pending dir ((nodeAt t)(backupAt dir @ [''committed''] := None))"
  shows "undoable old new dir t'"
proof -
  let ?C = "backupAt dir @ [''committed'']"
  have s: "besideSame dir (nodeAt t) (nodeAt t')" "tree_ok t'" using k by (auto simp: dbKept_def besideKept_def)
  have f: "isFile (nodeAt t') (dir @ [kyRegistryName E])" using k by (auto simp: dbKept_def opens_file)
  have "besideSame dir ((nodeAt t)(?C := None)) ((nodeAt t')(?C := None))"
    using s(1) by (auto simp: besideSame_def)
  moreover have "isFile ((nodeAt t')(?C := None)) (dir @ [kyRegistryName E])" using f by (simp add: isFile_def)
  ultimately have "inRotation old {old} dir ((nodeAt t')(?C := None))"
    using beside_rotating(1) [of dir _ _ old "{old}" old] u pd by (auto simp: undoable_def)
  moreover have "inRotation old {old, new} dir (nodeAt t')"
    using beside_rotating(1) [OF s(1) _ f, of old "{old, new}" new] u pair_kept [OF pn k] by (auto simp: undoable_def inOrder_def)
  ultimately show ?thesis using s(2) by (simp add: undoable_def inOrder_def)
qed

lemma wp_markCommitted:
  assumes t: "saved old dir t" and pn: "pairIn new dir (nodeAt t)" and G: "snd c \<or> ns = [] \<Longrightarrow> G"
  shows "wp c (markCommitted E ns (backupAt dir) db)
    (\<lambda>r t'. r = (db, backupAt dir) \<and> inOrder old {old, new} dir t' \<and> pairIn new dir (nodeAt t'))
    (\<lambda>_ t'. G \<and> undoable old new dir t') (\<lambda>t'. snd c \<and> undoable old new dir t') t"
proof -
  let ?C = "backupAt dir @ [''committed'']"
  define M where "M t' \<longleftrightarrow> undoable old new dir t' \<and> pairIn new dir (nodeAt t') \<and> tree_ok t' \<and> nodeAt t' dir = Some DirNode
    \<and> pending dir ((nodeAt t')(?C := None))" for t'
  have s: "tree_ok t" "nodeAt t dir = Some DirNode" "nodeAt t (backupAt dir) = Some DirNode" "nodeAt t ?C = None"
    "uncommitted old dir (nodeAt t)" "pending dir (nodeAt t)"
    "\<And>n. nodeAt t (backupAt dir @ [''.key-'' @ formatUint n]) = None"
    using t by (auto simp: saved_def uncommitted_def)
  have MU: "M t' \<Longrightarrow> undoable old new dir t'" for t' by (simp add: M_def)
  have tmp: "M t'" if f: "tempFile (backupAt dir) f" and t': "tree_ok t'" "nodeAt t' = (nodeAt t)(f := x)" for t' f x
  proof -
    note d = temp_differs [OF disjI2 [OF f]]
    have "undoable old new dir t'" using uncommitted_undoable [OF t'(1)] uncommitted_temp [OF s(5) disjI2 [OF f]] by (simp add: t'(2))
    then show ?thesis using s(2,6) pn t' d by (simp add: M_def t'(2) keyPair_def registryOpens_def pending_def)
  qed
  have Mt: "M t" using s pn saved_undoable [OF t] by (simp add: M_def fun_upd_idem)
  have mark: "M t'" if t': "tree_ok t'" "nodeAt t' = (nodeAt t)(?C \<mapsto> RegNode [])" for t'
  proof -
    have "pairIn new dir (nodeAt t')" using pn by (simp add: t'(2) keyPair_def registryOpens_def)
    moreover from this have "inRotation old {old, new} dir (nodeAt t')"
      using s(5) by (auto simp: t'(2) uncommitted_def rotating_def isFile_def)
    moreover have "(nodeAt t')(?C := None) = nodeAt t" using s(4) by (simp add: t'(2) fun_upd_idem)
    ultimately show ?thesis
      using s t' by (simp add: M_def undoable_def inOrder_def uncommitted_def)
  qed
  have closing: "wp c (kyClose E db) (\<lambda>_. undoable old new dir) (\<lambda>_. undoable old new dir) (\<lambda>t'. snd c \<and> undoable old new dir t') t'"
    if m: "M t'" for t'
  proof -
    have "registryOpens (kyRegistryName E) opens new dir (nodeAt t')" using m by (simp add: M_def keyPair_def)
    with m have "wp c (kyClose E db) (\<lambda>_. dbKept (kyRegistryName E) opens new dir t')
        (\<lambda>_ t''. (snd c \<or> flaky) \<and> dbKept (kyRegistryName E) opens new dir t' t'')
        (\<lambda>t''. snd c \<and> dbKept (kyRegistryName E) opens new dir t' t'') t'"
      by (intro close_db) (auto simp: M_def)
    then show ?thesis by (rule wp_mono) (use m undoable_kept [of old new dir t'] in \<open>auto simp: M_def\<close>)
  qed
  have marked: "wp c (atomicSecret ns ?C []) (\<lambda>_. M) (\<lambda>_ t'. G \<and> M t') (\<lambda>t'. snd c \<and> M t') t"
  proof (rule wp_atomicSecret)
    show "\<not> tempFile (butlast ?C) ?C" using tempFile_not [of "''committed''" "backupAt dir"] by (simp add: butlast_append)
    assume "snd c \<or> allTaken (butlast ?C) ns t"
    then show G using G s(7) by (cases ns) (auto simp: allTaken_def butlast_append)
  qed (use s tmp mark Mt in \<open>auto simp: butlast_append\<close>)
  show ?thesis
    unfolding markCommitted_def
  proof (intro wp_bind wp_try wp_mono [OF marked])
    fix e t' assume m: "G \<and> M t'"
    show "wp c (case Inl e of Inl e \<Rightarrow> bindA (tryA (kyClose E db)) (\<lambda>c. joinA [Some e, failedWith c] (db, backupAt dir))
        | Inr _ \<Rightarrow> pureA (db, backupAt dir))
      (\<lambda>r t'. r = (db, backupAt dir) \<and> inOrder old {old, new} dir t' \<and> pairIn new dir (nodeAt t'))
      (\<lambda>_ t'. G \<and> undoable old new dir t') (\<lambda>t'. snd c \<and> undoable old new dir t') t'"
      unfolding sum.case
      by (intro wp_bind wp_try wp_mono [OF closing]) (use m in \<open>auto intro!: wp_join\<close>)
  qed (auto simp: M_def undoable_def intro!: wp_pure)
qed

lemma wp_rewriteRegistry:
  assumes t: "tree_ok t" "nodeAt t dir = Some DirNode" "registryOpens (kyRegistryName E) opens old dir (nodeAt t)"
  shows "wp c (rewriteRegistry E old new dir) (\<lambda>_. dbKept (kyRegistryName E) opens new dir t)
    (\<lambda>_ t'. (snd c \<or> flaky) \<and> besideKept dir t t' \<and> isFile (nodeAt t') (dir @ [kyRegistryName E]))
    (\<lambda>t'. snd c \<and> besideKept dir t t' \<and> isFile (nodeAt t') (dir @ [kyRegistryName E])) t"
proof -
  let ?rg = "kyRegistryName E"
  let ?B = "\<lambda>t'. besideKept dir t t' \<and> isFile (nodeAt t') (dir @ [?rg])"
  have f: "isFile (nodeAt t) (dir @ [?rg])" using opens_file [OF t(3)] .
  have b: "?B t" using f t(1) by (simp add: besideKept_def besideSame_def)
  have kb: "dbKept ?rg opens new dir t t' \<Longrightarrow> ?B t'" for t'
    by (auto simp: dbKept_def intro: opens_file)
  let ?W = "\<lambda>m. wp c m (\<lambda>_. dbKept ?rg opens new dir t) (\<lambda>_ t'. (snd c \<or> flaky) \<and> ?B t') (\<lambda>t'. snd c \<and> ?B t')"
  let ?F = "\<lambda>reg (w :: err + unit). ?W (bindA (tryA (kyCloseRegistry E reg)) (\<lambda>c. joinA [failedWith w, failedWith c] ()))"
  have closing: "?F reg w t'"
    if w: "case w of Inl e \<Rightarrow> (snd c \<or> flaky) \<and> ?B t' | Inr x \<Rightarrow> dbKept ?rg opens new dir t t'" for w reg t'
  proof -
    have "?B t'" using w kb by (cases w) auto
    then show ?thesis
      by (intro wp_bind wp_try wp_mono [OF close_registry [of c reg t']] wp_join)
        (use w in \<open>auto simp: failedWith_def errorsJoin_def Let_def split: sum.splits\<close>)
  qed
  show ?thesis
    unfolding rewriteRegistry_def
  proof (intro wp_bind wp_try wp_mono [OF open_registry [OF t]])
    fix reg t' assume t': "t' = t"
    show "wp c (kyWriteRegistry E reg new dir) (\<lambda>x. ?F reg (Inr x)) (\<lambda>e. ?F reg (Inl e)) (\<lambda>t'. snd c \<and> ?B t') t'"
      unfolding t'
      by (rule wp_mono [OF write_registry [OF t(1,2) f]]) (rule closing, simp | assumption)+
  qed (use b in auto)
qed

lemma wp_rotateFiles:
  assumes t: "recovered {old} dir t" and G: "snd c \<or> flaky \<or> \<not> lucky dir rs t \<Longrightarrow> G"
  shows "wp c (rotateFiles E rs old new dir)
    (\<lambda>(db, backup) t'. backup = backupAt dir \<and> inOrder old {old, new} dir t' \<and> pairIn new dir (nodeAt t'))
    (\<lambda>_ t'. G \<and> undoable old new dir t') (\<lambda>t'. snd c \<and> undoable old new dir t') t"
proof -
  let ?rg = "kyRegistryName E" and ?B = "backupAt dir"
  let ?Q = "\<lambda>(db, backup) t'. backup = ?B \<and> inOrder old {old, new} dir t' \<and> pairIn new dir (nodeAt t')"
  let ?W = "\<lambda>m. wp c m ?Q (\<lambda>_ t'. G \<and> undoable old new dir t') (\<lambda>t'. snd c \<and> undoable old new dir t')"
  obtain b where reg: "nodeAt t (dir @ [?rg]) = Some (RegNode b)" and dir: "nodeAt t dir = Some DirNode"
      and pair: "pairIn old dir (nodeAt t)"
    using t by (auto simp: recovered_def keyPair_def registryOpens_def)
  have nil: "rs k = [] \<Longrightarrow> G" for k by (intro G) (auto simp: lucky_def allTaken_def intro!: exI [of _ k])
  have marking: "?W (markCommitted E (rs 4) ?B db) t6" if "saved old dir t6" "pairIn new dir (nodeAt t6)" for t6 db
    by (rule wp_mono [OF wp_markCommitted [OF that]]) (use G nil in auto)
  have openNew: "?W (bindA (kyOpen E new dir) (\<lambda>db. markCommitted E (rs 4) ?B db)) t5"
    if t5: "saved old dir t5" "pairIn new dir (nodeAt t5)" for t5
  proof -
    have k: "saved old dir t6 \<and> pairIn new dir (nodeAt t6)" if "dbKept ?rg opens new dir t5 t6" for t6
      using that saved_beside [OF t5(1)] pair_kept [OF t5(2)] by (auto simp: dbKept_def opens_file)
    have "wp c (kyOpen E new dir) (\<lambda>_. dbKept ?rg opens new dir t5) (\<lambda>_ t'. (snd c \<or> flaky) \<and> dbKept ?rg opens new dir t5 t')
        (\<lambda>t'. snd c \<and> dbKept ?rg opens new dir t5 t') t5"
      using t5 by (intro open_db) (auto simp: saved_def keyPair_def)
    then show ?thesis
      by (intro wp_bind, elim wp_mono) (use k marking saved_undoable G in blast)+
  qed
  have temps: "nodeAt t' (dir @ [''.key-'' @ formatUint n]) = nodeAt t1 (dir @ [''.key-'' @ formatUint n])"
    if "besideKept dir t1 t'" for t1 t' n
    using that besideSame_at [of dir "nodeAt t1" "nodeAt t'" "''.key-'' @ formatUint n" "[]"] by (auto simp: besideKept_def)
  have secret: "?W (bindA (atomicSecret (rs 3) (secretAt dir) new) (\<lambda>_. bindA (kyOpen E new dir) (\<lambda>db. markCommitted E (rs 4) ?B db))) t3"
    if t3: "saved old dir t3" "registryOpens ?rg opens new dir (nodeAt t3)"
      "\<And>n. nodeAt t3 (dir @ [''.key-'' @ formatUint n]) = nodeAt t (dir @ [''.key-'' @ formatUint n])" for t3
  proof (rule wp_bind, rule wp_atomicSecret)
    show "\<not> tempFile (butlast (secretAt dir)) (secretAt dir)" using tempFile_not by simp
    fix t' f x assume f: "tempFile (butlast (secretAt dir)) f" and t': "tree_ok t'" "nodeAt t' = (nodeAt t3)(f := x)"
    then show "undoable old new dir t'"
      using uncommitted_undoable [OF t'(1)] uncommitted_temp [of old dir "nodeAt t3" f x] t3(1) by (simp add: saved_def)
  next
    fix t' assume t': "tree_ok t'" "nodeAt t' = (nodeAt t3)(secretAt dir \<mapsto> RegNode new)"
    have s: "saved old dir t'" by (rule saved_secret [OF t3(1) t'])
    then show "undoable old new dir t'" by (rule saved_undoable)
    have "pairIn new dir (nodeAt t')" using t3(2) by (simp add: t'(2) keyPair_def registryOpens_def)
    from openNew [OF s this] show "?W (bindA (kyOpen E new dir) (\<lambda>db. markCommitted E (rs 4) ?B db)) t'" .
  next
    assume a: "snd c \<or> allTaken (butlast (secretAt dir)) (rs 3) t3"
    have "allTaken dir (rs 3) t3 = allTaken dir (rs 3) t" unfolding allTaken_def t3(3) by (rule refl)
    with a show G using G by (auto simp: lucky_def)
  qed (use t3(1) saved_undoable in \<open>auto simp: saved_def uncommitted_def rotating_def isFile_def\<close>)
  have rewriting: "wp c (rewriteRegistry E old new dir) (\<lambda>_. ?W (bindA (atomicSecret (rs 3) (secretAt dir) new)
      (\<lambda>_. bindA (kyOpen E new dir) (\<lambda>db. markCommitted E (rs 4) ?B db)))) (\<lambda>_ t'. G \<and> undoable old new dir t')
      (\<lambda>t'. snd c \<and> undoable old new dir t') t1"
    if t1: "saved old dir t1" "registryOpens ?rg opens old dir (nodeAt t1)"
      "\<And>n. nodeAt t1 (dir @ [''.key-'' @ formatUint n]) = nodeAt t (dir @ [''.key-'' @ formatUint n])" for t1
  proof -
    have "tree_ok t1" "nodeAt t1 dir = Some DirNode" using t1(1) by (auto simp: saved_def)
    note w = wp_rewriteRegistry [OF this t1(2), of c new]
    show ?thesis
      by (intro wp_mono [OF w])
        (use secret t1 temps saved_beside [OF t1(1)] saved_undoable G in \<open>auto simp: dbKept_def opens_file\<close>)
  qed
  show ?thesis
    unfolding rotateFiles_def
  proof (intro wp_bind wp_prepare [OF t reg])
    fix t1 assume t1: "tree_ok t1" "nodeAt t1 = (nodeAt t)(?B \<mapsto> DirNode, ?B @ [DefaultSecretFilename] \<mapsto> RegNode old,
        ?B @ [?rg] \<mapsto> RegNode b, ?B @ [''ready''] \<mapsto> RegNode [])" "uncommitted old dir (nodeAt t1)"
    have b0: "nodeAt t (dir @ rotationDirectory # xs) = None" for xs
    proof -
      have "tree_ok t" "nodeAt t ?B = None" using t by (auto simp: recovered_def)
      then have "nodeAt t (?B @ xs) = None" by (metis okF_prefix tree_okF prefixI)
      then show ?thesis by simp
    qed
    have "saved old dir t1"
      using t1(1,3) dir reg by (auto simp: saved_def t1(2) b0 pending_def isFile_def)
    moreover have "registryOpens ?rg opens old dir (nodeAt t1)" using pair by (auto simp: t1(2) keyPair_def registryOpens_def)
    moreover have "''.key-'' @ formatUint n \<noteq> rotationDirectory" for n
      using tempFile_backup [of dir] by (metis tempFile_def)
    then have "nodeAt t1 (dir @ [''.key-'' @ formatUint n]) = nodeAt t (dir @ [''.key-'' @ formatUint n])" for n
      by (simp add: t1(2))
    ultimately show "wp c (rewriteRegistry E old new dir) (\<lambda>_. ?W (bindA (atomicSecret (rs 3) (secretAt dir) new)
      (\<lambda>_. bindA (kyOpen E new dir) (\<lambda>db. markCommitted E (rs 4) ?B db)))) (\<lambda>_ t'. G \<and> undoable old new dir t')
      (\<lambda>t'. snd c \<and> undoable old new dir t') t1"
      by (rule rewriting)
  qed (use G in auto)
qed

section \<open>Rollback\<close>

lemma recovered_inOrder:
  assumes "recovered K dir t" and "K \<subseteq> K'"
  shows "inOrder old K' dir t" and "\<not> pending dir (nodeAt t)"
proof -
  have t: "tree_ok t" "nodeAt t (backupAt dir) = None" using assms(1) by (auto simp: recovered_def)
  have b: "nodeAt t (dir @ rotationDirectory # xs) = None" for xs
  proof -
    have "nodeAt t (backupAt dir @ xs) = None" using t by (metis okF_prefix tree_okF prefixI)
    then show ?thesis by simp
  qed
  show "\<not> pending dir (nodeAt t)" by (simp add: pending_def b)
  show "inOrder old K' dir t"
    using assms by (auto simp: recovered_def inOrder_def rotating_def isFile_def keyPair_def registryOpens_def b)
qed

lemma recovered_kept:
  assumes "recovered {key} dir t" and "dbKept (kyRegistryName E) opens key dir t t'"
  shows "recovered {key} dir t'"
proof -
  have s: "besideSame dir (nodeAt t) (nodeAt t')" "tree_ok t'" using assms(2) by (auto simp: dbKept_def besideKept_def)
  have "pairIn key dir (nodeAt t')" using pair_kept [OF _ assms(2)] assms(1) by (simp add: recovered_def)
  moreover have "nodeAt t' (backupAt dir) = nodeAt t (backupAt dir)" using besideSame_at [OF s(1), of rotationDirectory "[]"] by simp
  moreover have "nodeAt t' dir = nodeAt t dir" using s(1) by (simp add: besideSame_def)
  ultimately show ?thesis using assms(1) s(2) by (simp add: recovered_def)
qed

lemma wp_open_recovered:
  assumes "recovered {key} dir t"
  shows "wp c (kyOpen E key dir) (\<lambda>_. recovered {key} dir) (\<lambda>_ t'. (snd c \<or> flaky) \<and> recovered {key} dir t')
    (\<lambda>t'. snd c \<and> recovered {key} dir t') t"
proof -
  have "registryOpens (kyRegistryName E) opens key dir (nodeAt t)" using assms by (simp add: recovered_def keyPair_def)
  then have "wp c (kyOpen E key dir) (\<lambda>_. dbKept (kyRegistryName E) opens key dir t)
        (\<lambda>_ t'. (snd c \<or> flaky) \<and> dbKept (kyRegistryName E) opens key dir t t')
        (\<lambda>t'. snd c \<and> dbKept (kyRegistryName E) opens key dir t t') t"
    using assms by (intro open_db) (auto simp: recovered_def)
  then show ?thesis by (rule wp_mono) (use recovered_kept [OF assms] in auto)
qed

lemma wp_rollbackKeys:
  assumes u: "undoable old new dir t" and c: "orderly (fst c)"
  shows "wp c (rollbackRotation E rs old dir)
    (\<lambda>r t'. case r of Inl e \<Rightarrow> inOrder old {old, new} dir t' | Inr db \<Rightarrow> recovered {old} dir t')
    (\<lambda>_ _. False) (\<lambda>t'. snd c \<and> inOrder old {old, new} dir t') t"
proof -
  let ?C = "backupAt dir @ [''committed'']"
  let ?Q = "\<lambda>(r :: (err \<times> bool) + 'db) t'. case r of Inl e \<Rightarrow> inOrder old {old, new} dir t' | Inr db \<Rightarrow> recovered {old} dir t'"
  let ?W = "\<lambda>m. wp c m ?Q (\<lambda>_ _. False) (\<lambda>t'. snd c \<and> inOrder old {old, new} dir t')"
  have t: "tree_ok t" "inOrder old {old, new} dir t" using u by (auto simp: undoable_def inOrder_def)
  have weaken: "inOrder old {old} dir t' \<Longrightarrow> inOrder old {old, new} dir t'" for t'
    using rotating_mono [of old "{old}" dir "nodeAt t'" "{old, new}"] by (simp add: inOrder_def)
  have rec: "recovered {old} dir t' \<Longrightarrow> inOrder old {old, new} dir t'" for t' by (rule recovered_inOrder) auto
  let ?G = "bindA (tryA (recoverRotation E rs dir)) (\<lambda>r. case r of
         Inl e \<Rightarrow> pureA (Inl (e, True))
       | Inr _ \<Rightarrow> bindA (tryA (kyOpen E old dir)) (\<lambda>db.
           pureA (case db of Inl e \<Rightarrow> Inl (e, False) | Inr db \<Rightarrow> Inr db)))"
  have goOn: "?W ?G t'" if i: "inOrder old {old} dir t'" for t'
  proof (intro wp_bind wp_try wp_mono [OF wp_recoverKeys [OF i _ c]])
    fix x t'' assume r: "recovered {old} dir t''"
    show "?W (case Inr x of Inl e \<Rightarrow> pureA (Inl (e, True))
       | Inr _ \<Rightarrow> bindA (tryA (kyOpen E old dir)) (\<lambda>db. pureA (case db of Inl e \<Rightarrow> Inl (e, False) | Inr db \<Rightarrow> Inr db))) t''"
      unfolding sum.case
      by (intro wp_bind wp_try wp_mono [OF wp_open_recovered [OF r]]) (use rec in \<open>auto intro: wp_pure\<close>)
  qed (use weaken in \<open>auto intro: wp_pure\<close>)
  have r: "inRotation old {old} dir ((nodeAt t)(?C := None))" using u by (simp add: undoable_def)
  have gone: "inOrder old {old} dir t" if "nodeAt t ?C = None" using r t(1) that by (simp add: inOrder_def fun_upd_idem)
  show ?thesis
    unfolding rollbackRotation_def Let_def osRemove_def
  proof (intro wp_bind wp_try wp_change faultyI)
    fix e assume "treeRemove (dir @ [rotationDirectory, ''committed'']) t = Inl e"
    then have "errorsIs e ErrNotExist \<Longrightarrow> nodeAt t ?C = None" by (auto simp: treeRemove_def split: if_splits)
    then show "?W (case Inl e of Inl e \<Rightarrow> if \<not> errorsIs e ErrNotExist then pureA (Inl (e, True)) else ?G | Inr _ \<Rightarrow> ?G) t"
      using goOn gone t by (auto intro: wp_pure)
  next
    fix t' assume "treeRemove (dir @ [rotationDirectory, ''committed'']) t = Inr t'"
    from treeRemove_Inr [OF t(1) this] r have "inOrder old {old} dir t'" by (simp add: inOrder_def)
    then show "?W (case Inr () of Inl e \<Rightarrow> if \<not> errorsIs e ErrNotExist then pureA (Inl (e, True)) else ?G | Inr _ \<Rightarrow> ?G) t'"
      using goOn by simp
  qed (use t in \<open>auto intro: wp_pure\<close>)
qed

section \<open>The whole rotation\<close>

text \<open>
  How a rotation from \<open>old\<close> to \<open>new\<close> may end: with the new pair and nothing left over; with an error, and
  then the driver either has the key of the pair on disk or refuses all further work; or in a crash.
  What it leaves can be recovered to the old or the new pair.
\<close>

definition rotationEnds :: "setting \<Rightarrow> bool \<Rightarrow> bytes \<Rightarrow> bytes \<Rightarrow> dpath \<Rightarrow> unit run \<Rightarrow> 'db bvfs \<Rightarrow> dtree \<Rightarrow> bool" where
  "rotationEnds c G old new dir r s t \<longleftrightarrow> inOrder old {old, new} dir t \<and> (case r of
     Returns _ \<Rightarrow> b_failed s = None \<and> b_key s = new \<and> recovered {new} dir t
   | Raises e \<Rightarrow> G \<and> (b_failed s = None \<longrightarrow> b_key s = old \<and> recovered {old} dir t \<or> b_key s = new \<and> pairIn new dir (nodeAt t))
   | Crashed \<Rightarrow> snd c)"

lemma rotation_ends:
  assumes t: "recovered {b_key s} dir (dkTree d)" and c: "settled c d" "orderly (fst c)" and s: "b_failed s = None"
    and G: "snd c \<or> flaky \<or> \<not> lucky dir rs (dkTree d) \<Longrightarrow> G"
    and r: "rotate E rs dir new s d = (r, s', d')"
  shows "settled c d' \<and> rotationEnds c G (b_key s) new dir r s' (dkTree d')"
proof -
  let ?old = "b_key s"
  have reg: "tree_ok (dkTree d)" "nodeAt (dkTree d) dir = Some DirNode"
      "registryOpens (kyRegistryName E) opens ?old dir (nodeAt (dkTree d))"
    using t by (auto simp: recovered_def keyPair_def)
  obtain r1 d1 where r1: "kyClose E (b_db s) d = (r1, d1)" by fastforce
  note k = wpD [OF close_db [OF reg] c(1) r1]
  have keep: "recovered {?old} dir t'" if "dbKept (kyRegistryName E) opens ?old dir (dkTree d) t'" for t'
    by (rule recovered_kept [OF t that])
  have io: "recovered K dir t' \<Longrightarrow> K \<subseteq> {?old, new} \<Longrightarrow> inOrder ?old {?old, new} dir t'" for t' K
    by (rule recovered_inOrder)
  show ?thesis
  proof (cases r1)
    case (Returns x)
    with k have d1: "settled c d1" "dbKept (kyRegistryName E) opens ?old dir (dkTree d) (dkTree d1)" by auto
    have "nodeAt (dkTree d1) (dir @ [''.key-'' @ formatUint n]) = nodeAt (dkTree d) (dir @ [''.key-'' @ formatUint n])" for n
      using d1(2) besideSame_at [of dir "nodeAt (dkTree d)" "nodeAt (dkTree d1)" "''.key-'' @ formatUint n" "[]"]
      by (auto simp: dbKept_def besideKept_def)
    then have "lucky dir rs (dkTree d1) = lucky dir rs (dkTree d)" unfolding lucky_def allTaken_def by metis
    then have G1: "snd c \<or> flaky \<or> \<not> lucky dir rs (dkTree d1) \<Longrightarrow> G" using G by simp
    obtain r2 d2 where r2: "rotateFiles E rs ?old new dir d1 = (r2, d2)" by fastforce
    note k2 = wpD [OF wp_rotateFiles [OF keep [OF d1(2)] G1] d1(1) r2]
    show ?thesis
    proof (cases r2)
      case (Returns y)
      obtain db backup where y: "y = (db, backup)" by fastforce
      with k2 Returns have d2: "settled c d2" "backup = backupAt dir" "inOrder ?old {?old, new} dir (dkTree d2)"
        "pairIn new dir (nodeAt (dkTree d2))" by auto
      obtain r3 d3 where r3: "osRemoveAll backup d2 = (r3, d3)" by fastforce
      have e: "r = r3" "d' = d3" "b_key s' = new" "b_failed s' = None"
        using r r1 \<open>r1 = Returns x\<close> r2 Returns y r3 by (auto simp: rotate_def Let_def)
      have "wp c (osRemoveAll (backupAt dir)) (\<lambda>_. recovered {new} dir)
          (\<lambda>_ t'. snd c \<and> inOrder ?old {?old, new} dir t' \<and> pairIn new dir (nodeAt t'))
          (\<lambda>t'. snd c \<and> inOrder ?old {?old, new} dir t' \<and> pairIn new dir (nodeAt t')) (dkTree d2)"
        by (rule wp_mono [OF wp_cleanup [OF d2(3,4) _ c(2)]]) auto
      from wpD [OF this d2(1) r3 [unfolded d2(2)]] show ?thesis
        using e io [of "{new}"] G by (cases r3) (auto simp: rotationEnds_def)
    next
      case (Raises e2)
      with k2 have d2: "settled c d2" G "undoable ?old new dir (dkTree d2)" by auto
      obtain r3 d3 where r3: "rollbackRotation E (\<lambda>k. rs (5 + k)) ?old dir d2 = (r3, d3)" by fastforce
      note k3 = wpD [OF wp_rollbackKeys [OF d2(3) c(2)] d2(1) r3]
      show ?thesis
      proof (cases r3)
        case R3: (Returns z)
        show ?thesis
        proof (cases z)
          case (Inl es)
          obtain e' stuck where es: "es = (e', stuck)" by fastforce
          have "r = Raises (the (errorsJoin [Some e2, Some e']))" "d' = d3" "b_failed s' \<noteq> None"
            using r r1 \<open>r1 = Returns x\<close> r2 Raises r3 R3 Inl es by (auto simp: rotate_def Let_def split: if_splits)
          with k3 R3 Inl d2(2) show ?thesis by (auto simp: rotationEnds_def)
        next
          case (Inr db)
          have "r = Raises (the (errorsJoin [Some e2, None]))" "d' = d3" "b_failed s' = None" "b_key s' = ?old"
            using r r1 \<open>r1 = Returns x\<close> r2 Raises r3 R3 Inr by (auto simp: rotate_def Let_def)
          with k3 R3 Inr d2(2) io [of "{?old}"] show ?thesis by (simp add: rotationEnds_def)
        qed
      next
        case (Raises e3)
        with k3 show ?thesis by simp
      next
        case Crashed
        then have "r = Crashed" "d' = d3"
          using r r1 \<open>r1 = Returns x\<close> r2 Raises r3 by (auto simp: rotate_def Let_def)
        with k3 Crashed show ?thesis by (simp add: rotationEnds_def)
      qed
    next
      case Crashed
      then have "r = Crashed" "d' = d2" using r r1 \<open>r1 = Returns x\<close> r2 by (auto simp: rotate_def Let_def)
      with k2 Crashed undoable_inOrder show ?thesis by (simp add: rotationEnds_def)
    qed
  next
    case (Raises e1)
    then have "r = Raises e1" "s' = s" "d' = d1" using r r1 by (auto simp: rotate_def)
    with k Raises keep [of "dkTree d1"] io [of "{?old}" "dkTree d1"] G s show ?thesis by (auto simp: rotationEnds_def)
  next
    case Crashed
    then have "r = Crashed" "d' = d1" using r r1 by (auto simp: rotate_def)
    with k Crashed keep [of "dkTree d1"] io [of "{?old}" "dkTree d1"] show ?thesis by (auto simp: rotationEnds_def)
  qed
qed

end

section \<open>Starting again\<close>

text \<open>
  The driver that \<open>New\<close> returns at last, after attempts that failed or died; every attempt meets faults
  of its own.
\<close>

inductive reopens :: "('db, 'reg) key_env \<Rightarrow> badger_config \<Rightarrow> disk \<Rightarrow> 'db bvfs \<Rightarrow> disk \<Rightarrow> bool" for E cfg where
  started: "list_all faultOk fs \<Longrightarrow> badger_New E rs random cfg (d\<lparr>dkFaults := fs\<rparr>) = (Returns s, d')
    \<Longrightarrow> reopens E cfg d s d'"
| again: "list_all faultOk fs \<Longrightarrow> badger_New E rs random cfg (d\<lparr>dkFaults := fs\<rparr>) = (r, d1)
    \<Longrightarrow> (\<And>s. r \<noteq> Returns s) \<Longrightarrow> reopens E cfg d1 s d' \<Longrightarrow> reopens E cfg d s d'"

context key_files
begin

lemma wp_New:
  assumes t: "inOrder old K dir t" and "old \<in> K" and c: "orderly (fst c)"
    and cfg: "bcPath cfg = Some dir" "bcEncryptKey cfg = None" "\<not> bcInMemory cfg"
  shows "wp c (badger_New E rs random cfg) (\<lambda>s t'. b_key s \<in> K \<and> b_failed s = None \<and> recovered {b_key s} dir t')
    (\<lambda>_. inOrder old K dir) (\<lambda>t'. snd c \<and> inOrder old K dir t') t"
proof -
  let ?Q = "\<lambda>s t'. b_key s \<in> K \<and> b_failed s = None \<and> recovered {b_key s} dir t'"
  let ?W = "\<lambda>m. wp c m ?Q (\<lambda>_. inOrder old K dir) (\<lambda>t'. snd c \<and> inOrder old K dir t')"
  let ?O = "\<lambda>k :: bytes option. case k of
       None \<Rightarrow> raiseA (ErrOther ''could not initialize encryption key'')
     | Some key \<Rightarrow>
         bindA (if inMemoryOnly cfg then kyOpenInMemory E key else kyOpen E key (the (bcPath cfg))) (\<lambda>db.
         pureA \<lparr>b_db = db, b_failed = None, b_inMemory = inMemoryOnly cfg, b_key = key, b_closed = False\<rparr>)"
  have m: "\<not> inMemoryOnly cfg" using cfg by (simp add: inMemoryOnly_def)
  have go: "wp c (badger_Options random cfg) (\<lambda>k. ?W (?O k)) (\<lambda>_. inOrder old K dir) (\<lambda>t'. snd c \<and> inOrder old K dir t') t'"
    if r: "recovered K dir t'" for t'
  proof -
    obtain key where key: "key \<in> K" "recovered {key} dir t'" using r by (auto simp: recovered_def)
    have io: "recovered {key} dir t'' \<Longrightarrow> inOrder old K dir t''" for t'' using key(1) by (intro recovered_inOrder(1)) auto
    have opn: "?W (?O (Some key)) t'"
      unfolding option.case using m cfg(1) key(1)
      by (auto intro!: wp_bind wp_mono [OF wp_open_recovered [OF key(2)]] wp_pure io)
    have none: "?W (?O None) t'" using io [OF key(2)] by (auto intro: wp_raise)
    have sec: "treeRead (secretAt dir) t' = Inr key" using key(2) by (simp add: treeRead_at recovered_def keyPair_def)
    show ?thesis
      unfolding badger_Options_def getEncryptionKey_def osReadFile_def
      using m cfg sec opn none io [OF key(2)]
      by (auto simp: Let_def intro!: wp_bind wp_try wp_read faultyI wp_pure)
  qed
  show ?thesis
    unfolding badger_New_def using cfg go
    by (auto intro!: wp_bind wp_mono [OF wp_recoverKeys [OF t assms(2) c]])
qed

lemma reopens_pair:
  assumes "reopens E cfg d s d'" and "inOrder old K dir (dkTree d)" and "old \<in> K" and "orderly (dkRemoval d)"
    and cfg: "bcPath cfg = Some dir" "bcEncryptKey cfg = None" "\<not> bcInMemory cfg"
  shows "b_key s \<in> K \<and> b_failed s = None \<and> recovered {b_key s} dir (dkTree d')"
  using assms(1,2,4)
proof (induction rule: reopens.induct)
  case (started fs rs random d s d')
  have st: "settled (dkRemoval d, True) (d\<lparr>dkFaults := fs\<rparr>)" using started(1) by (simp add: settled_def)
  have "inOrder old K dir (dkTree (d\<lparr>dkFaults := fs\<rparr>))" using started(3) by simp
  from wpD [OF wp_New [OF this assms(3) _ cfg] st started(2)] started(4) show ?case by simp
next
  case (again fs rs random d r d1 s d')
  have st: "settled (dkRemoval d, True) (d\<lparr>dkFaults := fs\<rparr>)" using again(1) by (simp add: settled_def)
  have "inOrder old K dir (dkTree (d\<lparr>dkFaults := fs\<rparr>))" using again.prems(1) by simp
  note w = wpD [OF wp_New [OF this assms(3) _ cfg] st again(2)]
  have "settled (dkRemoval d, True) d1 \<and> inOrder old K dir (dkTree d1)"
    using w again(3) again.prems(2) by (cases r) auto
  then show ?case using again.prems(2) by (intro again.IH) (auto simp: settled_def)
qed

end

end
