(* ===== verification/Rotation_Theorems.thy ===== *)
theory Rotation_Theorems
  imports Rotation_Runs
begin

text \<open>
  The properties of the key rotation, with an instance of BadgerDB's part in which the registry holds
  its key, and two runs in which the code does not do what it is meant to.
\<close>

section \<open>An instance\<close>

definition registryName :: string where "registryName = ''KEYREGISTRY''"

definition treePut :: "dpath \<Rightarrow> bytes \<Rightarrow> dtree \<Rightarrow> dtree" where
  "treePut p bs t = map (\<lambda>(q, n). (q, if q = p then (case n of RegNode c \<Rightarrow> RegNode bs | DirNode \<Rightarrow> n) else n)) t"

definition mem_checkKey :: "bytes \<Rightarrow> dpath \<Rightarrow> unit act" where
  "mem_checkKey key dir = bindA (osReadFile (dir @ [registryName])) (\<lambda>b.
     if b = key then pureA () else raiseA ErrInvalidEncryptionKey)"

text \<open>Opening creates a registry that is not there.\<close>

definition mem_keys :: "(unit, unit) key_env" where
  "mem_keys = \<lparr>kyRegistryName = registryName,
     kyOpen = \<lambda>key dir. bindA (tryA (mem_checkKey key dir)) (\<lambda>r. case r of
       Inr _ \<Rightarrow> pureA ()
     | Inl e \<Rightarrow> if errorsIs e ErrNotExist
         then bindA (osCreate (dir @ [registryName])) (\<lambda>_. writeA (dir @ [registryName]) key) else raiseA e),
     kyOpenInMemory = \<lambda>key. pureA (), kyClose = \<lambda>db. pureA (), kyOpenRegistry = mem_checkKey,
     kyWriteRegistry = \<lambda>reg key dir. changeA (\<lambda>t. Inr (treePut (dir @ [registryName]) key t)),
     kyCloseRegistry = \<lambda>reg. pureA ()\<rparr>"

lemma treePut_at: "nodeAt (treePut p bs t) q =
  (if q = p then (case nodeAt t q of Some (RegNode c) \<Rightarrow> Some (RegNode bs) | n \<Rightarrow> n) else nodeAt t q)"
proof -
  have "map_of (treePut p bs t) q =
      (if q = p then (case map_of t q of Some (RegNode c) \<Rightarrow> Some (RegNode bs) | n \<Rightarrow> n) else map_of t q)"
    unfolding treePut_def by (induction t) (auto split: dnode.split option.split)
  then show ?thesis by (auto simp: nodeAt_def)
qed

lemma treePut_ok: "tree_ok t \<Longrightarrow> tree_ok (treePut p bs t)"
proof -
  assume t: "tree_ok t"
  have "okF (nodeAt (treePut p bs t))" unfolding okF_def
  proof (intro conjI allI impI)
    fix q assume "nodeAt (treePut p bs t) q \<noteq> None" "q \<noteq> []"
    then have "nodeAt t (butlast q) = Some DirNode"
      using okF_parent [OF tree_okF [OF t], of q] by (auto simp: treePut_at split: if_splits option.splits dnode.splits)
    then show "nodeAt (treePut p bs t) (butlast q) = Some DirNode" by (auto simp: treePut_at)
  qed (simp add: treePut_at)
  moreover have "fst ` set (treePut p bs t) = fst ` set t" by (force simp: treePut_def)
  ultimately show ?thesis using t by (simp add: tree_ok_def)
qed

lemma registryName_differs: "registryName \<noteq> DefaultSecretFilename" "\<not> prefix ''.key-'' registryName"
  "registryName \<noteq> ''committed''" "registryName \<noteq> ''ready''"
  by (simp_all add: registryName_def DefaultSecretFilename_def)

lemma kept_refl: "tree_ok t \<Longrightarrow> registryOpens rg opens key dir (nodeAt t) \<Longrightarrow> dbKept rg opens key dir t t"
  by (simp add: dbKept_def besideKept_def besideSame_def)

lemma wp_checkKey:
  assumes "registryOpens registryName (=) key dir (nodeAt t)"
  shows "wp c (mem_checkKey key dir) (\<lambda>_ t'. t' = t) (\<lambda>e t'. snd c \<and> \<not> errorsIs e ErrNotExist \<and> t' = t) (\<lambda>t'. snd c \<and> t' = t) t"
proof -
  have "treeRead (dir @ [registryName]) t = Inr key"
    using assms by (auto simp: registryOpens_def treeRead_def treeStat_def bindE_def)
  then show ?thesis
    unfolding mem_checkKey_def osReadFile_def by (intro wp_bind wp_read faultyI) (auto intro: wp_pure)
qed

interpretation memkeys: key_files mem_keys "(=)" False
proof unfold_locales
  show "\<not> prefix ''.key-'' (kyRegistryName mem_keys)" "kyRegistryName mem_keys \<notin> {DefaultSecretFilename, ''committed'', ''ready''}"
    using registryName_differs by (simp_all add: mem_keys_def)
next
  fix t dir key c and db :: unit
  assume t: "tree_ok t" "nodeAt t dir = Some DirNode" and r: "registryOpens (kyRegistryName mem_keys) (=) key dir (nodeAt t)"
  note k = kept_refl [OF t(1) r]
  have r': "registryOpens registryName (=) key dir (nodeAt t)" using r by (simp add: mem_keys_def)
  show "wp c (kyOpen mem_keys key dir) (\<lambda>_. dbKept (kyRegistryName mem_keys) (=) key dir t)
      (\<lambda>_ t'. (snd c \<or> False) \<and> dbKept (kyRegistryName mem_keys) (=) key dir t t')
      (\<lambda>t'. snd c \<and> dbKept (kyRegistryName mem_keys) (=) key dir t t') t"
    using k by (auto simp: mem_keys_def intro!: wp_bind wp_try wp_mono [OF wp_checkKey [OF r']] wp_pure wp_raise)
  show "wp c (kyClose mem_keys db) (\<lambda>_. dbKept (kyRegistryName mem_keys) (=) key dir t)
      (\<lambda>_ t'. (snd c \<or> False) \<and> dbKept (kyRegistryName mem_keys) (=) key dir t t')
      (\<lambda>t'. snd c \<and> dbKept (kyRegistryName mem_keys) (=) key dir t t') t"
    using k by (auto simp: mem_keys_def intro!: wp_pure)
  show "wp c (kyOpenRegistry mem_keys key dir) (\<lambda>_ t'. t' = t) (\<lambda>_ t'. (snd c \<or> False) \<and> t' = t) (\<lambda>t'. snd c \<and> t' = t) t"
    using wp_mono [OF wp_checkKey [OF r']] by (auto simp: mem_keys_def)
next
  fix t dir reg key c
  assume t: "tree_ok t" "nodeAt t dir = Some DirNode" and f: "isFile (nodeAt t) (dir @ [kyRegistryName mem_keys])"
  have b: "besideKept dir t (treePut (dir @ [registryName]) key t)"
    using treePut_ok [OF t(1)] registryName_differs t(2)
    by (auto simp: besideKept_def besideSame_def treePut_at)
  have r: "registryOpens registryName (=) key dir (nodeAt (treePut (dir @ [registryName]) key t))"
    using f by (auto simp: registryOpens_def treePut_at mem_keys_def isFile_def)
  have "besideKept dir t t" using t(1) by (simp add: besideKept_def besideSame_def)
  then show "wp c (kyWriteRegistry mem_keys reg key dir) (\<lambda>_. dbKept (kyRegistryName mem_keys) (=) key dir t)
      (\<lambda>_ t'. (snd c \<or> False) \<and> besideKept dir t t' \<and> isFile (nodeAt t') (dir @ [kyRegistryName mem_keys]))
      (\<lambda>t'. snd c \<and> besideKept dir t t' \<and> isFile (nodeAt t') (dir @ [kyRegistryName mem_keys])) t"
    using b r f by (auto simp: mem_keys_def dbKept_def intro!: wp_change faultyI)
qed (auto simp: mem_keys_def intro!: wp_pure)

text \<open>A drive of the key \<open>oldKey\<close>, and the order of names in which a directory is emptied.\<close>

definition oldKey :: bytes where "oldKey = replicate 16 (CHR ''a'')"
definition newKey :: bytes where "newKey = replicate 16 (CHR ''b'')"

definition nameOrder :: "dpath list \<Rightarrow> dpath list" where
  "nameOrder ps = rev (sort_key length (rev ps))"

lemma nameOrder_orderly: "orderly nameOrder"
  unfolding orderly_def nameOrder_def using deepest_first by fastforce

definition keyDisk :: "fault list \<Rightarrow> disk" where
  "keyDisk fs = \<lparr>dkTree = [([''d''], DirNode), ([''d'', DefaultSecretFilename], RegNode oldKey),
     ([''d'', registryName], RegNode oldKey)], dkFaults = fs, dkRemoval = nameOrder\<rparr>"

definition keyDrive :: "unit bvfs" where
  "keyDrive = \<lparr>b_db = (), b_failed = None, b_inMemory = False, b_key = oldKey, b_closed = False\<rparr>"

definition keyConfig :: badger_config where
  "keyConfig = \<lparr>bcPath = Some [''d''], bcEncryptKey = None, bcInMemory = False\<rparr>"

definition draws :: "nat \<Rightarrow> nat list" where "draws k = [k]"

section \<open>Rotations\<close>

context key_files
begin

lemma Rotate_ends:
  assumes t: "recovered {b_key s} dir (dkTree d)" and c: "settled c d" "orderly (fst c)" and s: "b_failed s = None"
    and G: "snd c \<or> flaky \<or> \<not> lucky dir rs (dkTree d) \<or> b_inMemory s \<or> length new \<notin> {16, 24, 32} \<Longrightarrow> G"
    and r: "badger_Rotate E rs dir new s d = (r, s', d')"
  shows "settled c d' \<and> rotationEnds c G (b_key s) new dir r s' (dkTree d')"
proof (cases "b_inMemory s \<or> length new \<notin> {16, 24, 32} \<or> new = b_key s")
  case True
  have "inOrder (b_key s) {b_key s, new} dir (dkTree d)" by (rule recovered_inOrder(1) [OF t]) simp
  with True r s t c(1) G show ?thesis
    by (auto simp: badger_Rotate_def rotationEnds_def split: if_splits)
next
  case False
  then have "rotate E rs dir new s d = (r, s', d')" using r s by (auto simp: badger_Rotate_def)
  from rotation_ends [OF t c s _ this, of G] G show ?thesis by blast
qed

end

text \<open> C8. However a rotation of the key ends, by success, an error, or the end of the process at any
  system call, and however often starting again is interrupted: a driver that has no failure recorded
  has the key that the secret file and the registry hold, success means the new key with nothing left
  over, and the driver that \<open>New\<close> returns at last holds the old or the new key, which opens the registry. \<close>

theorem rotation_keeps_a_pair:
  assumes "key_files E opens flaky" and "tree_ok (dkTree d)" and "nodeAt (dkTree d) dir = Some DirNode"
    and "nodeAt (dkTree d) (backupAt dir) = None"
    and "keyPair (kyRegistryName E) opens (b_key s) dir (nodeAt (dkTree d))" and "b_failed s = None"
    and "settled c d" and "orderly (fst c)"
    and "badger_Rotate E rs dir new s d = (r, s', d')"
  shows "(r = Returns () \<longrightarrow> b_failed s' = None \<and> b_key s' = new \<and> nodeAt (dkTree d') (backupAt dir) = None)
    \<and> (r \<noteq> Crashed \<and> b_failed s' = None \<longrightarrow> keyPair (kyRegistryName E) opens (b_key s') dir (nodeAt (dkTree d')))
    \<and> (\<forall>cfg s2 d2. bcPath cfg = Some dir \<longrightarrow> bcEncryptKey cfg = None \<longrightarrow> \<not> bcInMemory cfg \<longrightarrow> reopens E cfg d' s2 d2 \<longrightarrow>
        b_key s2 \<in> {b_key s, new} \<and> keyPair (kyRegistryName E) opens (b_key s2) dir (nodeAt (dkTree d2))
        \<and> nodeAt (dkTree d2) (backupAt dir) = None)"
proof -
  note k = assms(1)
  have "key_files.recovered E opens {b_key s} dir (dkTree d)"
    using assms(2-5) by (simp add: key_files.recovered_def [OF k])
  from key_files.Rotate_ends [OF k this assms(7,8,6) _ assms(9), of True]
  have e: "settled c d'" "key_files.rotationEnds E opens c True (b_key s) new dir r s' (dkTree d')" by simp_all
  have i: "key_files.inOrder E opens (b_key s) {b_key s, new} dir (dkTree d')"
    using e(2) by (simp add: key_files.rotationEnds_def [OF k])
  have o: "orderly (dkRemoval d')" using e(1) assms(8) by (simp add: settled_def)
  show ?thesis
    using e(2) key_files.reopens_pair [OF k _ i _ o]
    by (auto simp: key_files.rotationEnds_def [OF k] key_files.recovered_def [OF k] split: run.splits)
qed

text \<open>The process dies after the commit, before the backup directory is gone.\<close>

definition interruptedRotation :: "nat \<Rightarrow> unit run \<times> unit bvfs \<times> disk" where
  "interruptedRotation n = badger_Rotate mem_keys draws [''d''] newKey keyDrive (keyDisk (replicate n Works @ [Crashes 0]))"

lemma keyDisk_tree: "tree_ok (dkTree (keyDisk fs))" "nodeAt (dkTree (keyDisk fs)) [''d''] = Some DirNode"
  "nodeAt (dkTree (keyDisk fs)) (backupAt [''d'']) = None"
  "keyPair (kyRegistryName mem_keys) (=) (b_key keyDrive) [''d''] (nodeAt (dkTree (keyDisk fs)))"
  by (auto simp: keyDisk_def tree_ok_def okF_def nodeAt_def keyPair_def registryOpens_def mem_keys_def keyDrive_def
      DefaultSecretFilename_def rotationDirectory_def registryName_def)

lemma keyDisk_settled: "settled (nameOrder, True) (keyDisk (replicate n Works @ [Crashes 0]))"
  by (simp add: settled_def keyDisk_def list_all_iff faultOk_def)

lemma interrupted_run:
  "case interruptedRotation 61 of (r, s', d') \<Rightarrow> r = Crashed \<and>
     (case badger_New mem_keys draws (Inr []) keyConfig (d'\<lparr>dkFaults := []\<rparr>) of (r2, d2) \<Rightarrow>
        (case r2 of Returns s2 \<Rightarrow> b_key s2 = newKey | _ \<Rightarrow> False))"
  by code_simp

theorem rotation_keeps_a_pair_witness:
  "case interruptedRotation 61 of (r, s', d') \<Rightarrow> r = Crashed \<and>
     (case badger_New mem_keys draws (Inr []) keyConfig (d'\<lparr>dkFaults := []\<rparr>) of (r2, d2) \<Rightarrow>
        (case r2 of Returns s2 \<Rightarrow> b_key s2 = newKey \<and> keyPair registryName (=) newKey [''d''] (nodeAt (dkTree d2)) | _ \<Rightarrow> False))"
proof -
  obtain r s' d' where run: "interruptedRotation 61 = (r, s', d')" by (metis surj_pair)
  obtain r2 d2 where new: "badger_New mem_keys draws (Inr []) keyConfig (d'\<lparr>dkFaults := []\<rparr>) = (r2, d2)" by (metis surj_pair)
  from interrupted_run obtain s2 where s2: "r = Crashed" "r2 = Returns s2" "b_key s2 = newKey"
    by (auto simp: run new split: run.splits)
  have cfg: "bcPath keyConfig = Some [''d'']" "bcEncryptKey keyConfig = None" "\<not> bcInMemory keyConfig"
    by (simp_all add: keyConfig_def)
  have "reopens mem_keys keyConfig d' s2 d2" using new s2(2) by (auto intro: reopens.started [of "[]"])
  with rotation_keeps_a_pair [OF memkeys.key_files_axioms keyDisk_tree _ keyDisk_settled _ run [unfolded interruptedRotation_def]] cfg
  have "keyPair registryName (=) newKey [''d''] (nodeAt (dkTree d2))"
    using s2(3) by (fastforce simp: keyDrive_def nameOrder_orderly mem_keys_def)
  with s2 show ?thesis by (simp add: run new)
qed

text \<open> C9. Without faults of the system and of BadgerDB, with numbers left for temporary files, a
  rotation to another key of a valid length succeeds. \<close>

theorem rotation_succeeds:
  assumes "key_files E opens False" and "tree_ok (dkTree d)" and "nodeAt (dkTree d) dir = Some DirNode"
    and "nodeAt (dkTree d) (backupAt dir) = None"
    and "keyPair (kyRegistryName E) opens (b_key s) dir (nodeAt (dkTree d))" and "b_failed s = None" and "\<not> b_inMemory s"
    and "dkFaults d = []" and "orderly (dkRemoval d)" and "lucky dir rs (dkTree d)" and "length new \<in> {16, 24, 32}"
  shows "\<exists>s' d'. badger_Rotate E rs dir new s d = (Returns (), s', d') \<and> b_failed s' = None \<and> b_key s' = new
    \<and> keyPair (kyRegistryName E) opens new dir (nodeAt (dkTree d')) \<and> nodeAt (dkTree d') (backupAt dir) = None"
proof -
  note k = assms(1)
  obtain r s' d' where r: "badger_Rotate E rs dir new s d = (r, s', d')" by (metis surj_pair)
  have "key_files.recovered E opens {b_key s} dir (dkTree d)"
    using assms(2-5) by (simp add: key_files.recovered_def [OF k])
  moreover have "settled (dkRemoval d, False) d" using assms(8) by (simp add: settled_def)
  ultimately have "key_files.rotationEnds E opens (dkRemoval d, False) False (b_key s) new dir r s' (dkTree d')"
    using key_files.Rotate_ends [OF k _ _ _ assms(6) _ r, of "(dkRemoval d, False)" False] assms(7-11) by auto
  then show ?thesis
    using r by (auto simp: key_files.rotationEnds_def [OF k] key_files.recovered_def [OF k] split: run.splits)
qed

theorem rotation_succeeds_witness:
  "\<exists>s' d'. badger_Rotate mem_keys draws [''d''] newKey keyDrive (keyDisk []) = (Returns (), s', d') \<and> b_key s' = newKey"
proof -
  have "lucky [''d''] draws (dkTree (keyDisk []))"
    by (auto simp: lucky_def allTaken_def draws_def keyDisk_def nodeAt_def DefaultSecretFilename_def registryName_def)
  with rotation_succeeds [OF memkeys.key_files_axioms keyDisk_tree, of "[]" draws newKey] show ?thesis
    by (fastforce simp: keyDrive_def newKey_def nameOrder_orderly keyDisk_def)
qed

section \<open>Two gaps\<close>

text \<open>
  \<open>RemoveAll\<close> is interrupted after it has removed the saved secret and the marker of the commit and before
  it removes the marker \<open>ready\<close>: no later start succeeds, although the database and its key are intact.
\<close>

theorem cleanup_blocks_starting:
  "case interruptedRotation 62 of (r, s', d') \<Rightarrow> r = Crashed
     \<and> nodeAt (dkTree d') (secretAt [''d'']) = Some (RegNode newKey) \<and> nodeAt (dkTree d') [''d'', registryName] = Some (RegNode newKey)
     \<and> (case badger_New mem_keys draws (Inr []) keyConfig d' of (r2, d2) \<Rightarrow> r2 = Raises ErrNotExist \<and> dkTree d2 = dkTree d')"
  by code_simp

text \<open>
  The first start dies between the creation of the secret file and its contents: every later start
  opens the database with an empty key, which is no encryption.
\<close>

theorem secret_may_be_empty:
  "case badger_New mem_keys draws (Inr newKey) keyConfig
       \<lparr>dkTree = [([''d''], DirNode)], dkFaults = replicate 4 Works @ [Crashes 0], dkRemoval = nameOrder\<rparr> of (r, d) \<Rightarrow>
     r = Crashed \<and> (case badger_New mem_keys draws (Inr newKey) keyConfig d of (r2, d2) \<Rightarrow>
       (case r2 of Returns s \<Rightarrow> b_key s = [] \<and> b_failed s = None | _ \<Rightarrow> False))"
  by code_simp

end
