(* ===== verification/Local_Archive.thy ===== *)
theory Local_Archive
  imports Local_Store Paths
begin

text \<open>
  \<open>Backup\<close> and \<open>Load\<close> of the local driver (\<open>pkg/drivers/localstorage/localstorage.go\<close>). Formats of
  \<open>archive/tar\<close> and \<open>compress/gzip\<close> are parameters: an archive that is read is the list of its
  headers with their contents, an archive that is written turns every call into writes on the
  writer below. \<open>Load\<close> unpacks into a directory of a storage transaction and validates what it
  has unpacked before the transaction puts it in place of the old files.
\<close>

section \<open>Archives\<close>

datatype tar_type = TypeReg | TypeDir | TypeOther

record tar_header =
  hdName :: string
  hdMode :: int
  hdSize :: int
  hdType :: tar_type

text \<open>
  An archive as the loop over \<open>tr.Next()\<close> meets it: headers with the readers of their contents, the
  error after the last one, and what is left of the decompressed stream.
\<close>

record archive =
  arEntries :: "(tar_header \<times> reader) list"
  arEnd :: err
  arRest :: reader

datatype tar_op = OpHeader tar_header | OpData bytes | OpCloseTar | OpCloseGzip

text \<open>
  \<open>teWrite\<close> gives the writes of a call on the writers of tar and gzip, its own error and their next
  state; \<open>teFiles\<close> is the order of the second loop over the index, \<open>teMode\<close> the permissions of a file,
  which the disk does not keep; \<open>teSink\<close> is \<open>Write\<close> of the writer that \<open>Backup\<close> is given.
\<close>

record ('z, 'w) tar_env =
  teOpen :: "reader \<Rightarrow> err + archive"
  teStart :: 'z
  teWrite :: "tar_op \<Rightarrow> 'z \<Rightarrow> bytes list \<times> err option \<times> 'z"
  teSink :: "bytes \<Rightarrow> 'w \<Rightarrow> (int \<times> err option) \<times> 'w"
  teFiles :: "id_map \<Rightarrow> uuid list"
  teMode :: "dpath \<Rightarrow> int"

section \<open>Writing an archive\<close>

text \<open>The writers in use: tar and gzip with the error that has stopped them, the counter, the sink.\<close>

record ('z, 'w) tar_out =
  toArchive :: 'z
  toBroken :: "err option"
  toSink :: 'w
  toCount :: "64 word"

definition countWriter_Write :: "('z, 'w) tar_env \<Rightarrow> bytes \<Rightarrow> ('z, 'w) tar_out \<Rightarrow> (int \<times> err option) \<times> ('z, 'w) tar_out" where
  "countWriter_Write A p o1 =
     (case teSink A p (toSink o1) of ((n, e), w) \<Rightarrow>
        ((n, e), o1\<lparr>toSink := w, toCount := (if n > 0 then toCount o1 + word_of_int n else toCount o1)\<rparr>))"

fun emit :: "('z, 'w) tar_env \<Rightarrow> bytes list \<Rightarrow> ('z, 'w) tar_out \<Rightarrow> err option \<times> ('z, 'w) tar_out" where
  "emit A [] o1 = (None, o1)"
| "emit A (p # ps) o1 =
     (case countWriter_Write A p o1 of
        ((n, Some e), o2) \<Rightarrow> (Some e, o2\<lparr>toBroken := Some e\<rparr>)
      | ((n, None), o2) \<Rightarrow> emit A ps o2)"

definition tarDo :: "('z, 'w) tar_env \<Rightarrow> tar_op \<Rightarrow> ('z, 'w) tar_out \<Rightarrow> err option \<times> ('z, 'w) tar_out" where
  "tarDo A oper o1 =
     (case toBroken o1 of
        Some e \<Rightarrow> (Some e, o1)
      | None \<Rightarrow>
          (case teWrite A oper (toArchive o1) of (ps, own, z) \<Rightarrow>
             (case emit A ps (o1\<lparr>toArchive := z\<rparr>) of
                (Some e, o2) \<Rightarrow> (Some e, o2)
              | (None, o2) \<Rightarrow> (own, o2))))"

text \<open>
  \<open>io.Copy\<close> from an open file: it reads up to the 32 KiB of its buffer and writes what it has read,
  until there is nothing left; what has been written before a failing read stays written. A round that
  does not end the loop advances by at least one byte, so the size and one are rounds enough.
\<close>

definition copyBuffer :: nat where
  "copyBuffer = 32768"

fun copyOut :: "nat \<Rightarrow> ('z, 'w) tar_env \<Rightarrow> dpath \<Rightarrow> nat \<Rightarrow> ('z, 'w) tar_out \<Rightarrow> (err option \<times> ('z, 'w) tar_out) act" where
  "copyOut 0 A p off o1 = pureA (Some (ErrOther ''file grows while it is copied''), o1)"
| "copyOut (Suc k) A p off o1 = bindA (tryA (osReadFile p)) (\<lambda>content.
     case content of
       Inl e \<Rightarrow> pureA (Some e, o1)
     | Inr b \<Rightarrow>
         let buf = take copyBuffer (drop off b)
         in if buf = [] then pureA (None, o1)
            else (case tarDo A (OpData buf) o1 of
                    (Some e, o2) \<Rightarrow> pureA (Some e, o2)
                  | (None, o2) \<Rightarrow> copyOut k A p (off + length buf) o2))"

text \<open>
  One file: its header, then its contents; a directory is not written. The error is a value, because
  the writers are closed whatever happens.
\<close>

definition backupFile :: "('z, 'w) tar_env \<Rightarrow> vmeta \<Rightarrow> ('z, 'w) tar_out \<Rightarrow> (err option \<times> ('z, 'w) tar_out) act" where
  "backupFile A m o1 =
     (if mIsDir m then pureA (None, o1)
      else
        bindA (tryA (bindA (liftA (rootPath [] (relative (mPath m)))) (\<lambda>p.
           bindA (osStat p) (\<lambda>info. bindA (osStat p) (\<lambda>_. pureA (p, info)))))) (\<lambda>found.
        case found of
          Inl e \<Rightarrow> pureA (Some e, o1)
        | Inr (p, info) \<Rightarrow>
            let header = \<lparr>hdName = trimPrefix (mPath m) ''/'', hdMode = teMode A p,
                  hdSize = (case info of RegNode b \<Rightarrow> int (length b) | DirNode \<Rightarrow> 0),
                  hdType = (case info of RegNode b \<Rightarrow> TypeReg | DirNode \<Rightarrow> TypeDir)\<rparr>
            in (case tarDo A (OpHeader header) o1 of
                  (Some e, o2) \<Rightarrow> bindA (tryA closeFile) (\<lambda>_. pureA (Some e, o2))
                | (None, o2) \<Rightarrow>
                    bindA (copyOut (Suc (nat (hdSize header))) A p 0 o2) (\<lambda>(e, o3).
                    case e of
                      Some e \<Rightarrow> bindA (tryA closeFile) (\<lambda>_. pureA (Some e, o3))
                    | None \<Rightarrow> bindA (tryA closeFile) (\<lambda>closed. pureA (failedWith closed, o3))))))"

fun backupFiles :: "('z, 'w) tar_env \<Rightarrow> vmeta list \<Rightarrow> ('z, 'w) tar_out \<Rightarrow> (err option \<times> ('z, 'w) tar_out) act" where
  "backupFiles A [] o1 = pureA (None, o1)"
| "backupFiles A (m # ms) o1 = bindA (backupFile A m o1) (\<lambda>(e, o2).
     case e of Some e \<Rightarrow> pureA (Some e, o2) | None \<Rightarrow> backupFiles A ms o2)"

definition indexHeader :: "bytes \<Rightarrow> tar_header" where
  "indexHeader data = \<lparr>hdName = IndexFileName, hdMode = 420, hdSize = int (length data), hdType = TypeReg\<rparr>"

text \<open>The body of \<open>Backup\<close> between opening the writers and closing them.\<close>

definition backupBody :: "ls_env \<Rightarrow> ('z, 'w) tar_env \<Rightarrow> id_map \<Rightarrow> ('z, 'w) tar_out \<Rightarrow> (err option \<times> ('z, 'w) tar_out) act" where
  "backupBody E A ids o1 =
     (case leEncIndex E (metasOf E ids) of
        Inl e \<Rightarrow> pureA (Some e, o1)
      | Inr data \<Rightarrow>
          (case tarDo A (OpHeader (indexHeader data)) o1 of
             (Some e, o2) \<Rightarrow> pureA (Some e, o2)
           | (None, o2) \<Rightarrow>
               (case tarDo A (OpData data) o2 of
                  (Some e, o3) \<Rightarrow> pureA (Some e, o3)
                | (None, o3) \<Rightarrow> backupFiles A (map (\<lambda>i. the (ids i)) (teFiles A ids)) o3)))"

text \<open>The result is the size with the error, beside what the sink has become.\<close>

definition local_Backup :: "ls_env \<Rightarrow> ('z, 'w) tar_env \<Rightarrow> 'w \<Rightarrow> lstore
    \<Rightarrow> ((64 word \<times> err option) \<times> 'w) run \<times> lstore" where
  "local_Backup E A w s =
     (case lsFailed s of
        Some e \<Rightarrow> (Returns ((0, Some e), w), s)
      | None \<Rightarrow> onDisk
          (bindA (tryA (osStat [])) (\<lambda>root.
           case root of
             Inl e \<Rightarrow> pureA ((0, Some e), w)
           | Inr _ \<Rightarrow>
               bindA (backupBody E A (lsIds s) \<lparr>toArchive = teStart A, toBroken = None, toSink = w, toCount = 0\<rparr>) (\<lambda>(e, o1).
               case tarDo A OpCloseTar o1 of (tarErr, o2) \<Rightarrow>
               case tarDo A OpCloseGzip o2 of (gzipErr, o3) \<Rightarrow>
                 pureA ((toCount o3, errorsJoin [e, tarErr, gzipErr]), toSink o3)))) s)"

section \<open>Unpacking\<close>

text \<open>
  \<open>base\<close> is the directory of \<open>restored\<close>. A header's name has become clean and relative, so \<open>Join\<close>
  appends its elements and \<open>Rel\<close> gives it back.
\<close>

definition writeIndexFile :: "ls_env \<Rightarrow> dpath \<Rightarrow> reader \<Rightarrow> ls_maps act" where
  "writeIndexFile E base r =
     (if rEnd r \<noteq> ErrEOF then raiseA (rEnd r)
      else bindA (liftA (readIndex E (rData r))) (\<lambda>maps.
        bindA (osWriteFile (base @ [IndexFileName]) (rData r)) (\<lambda>_. pureA maps)))"

definition MaxUint32 :: int where
  "MaxUint32 = 4294967295"

definition extractTarEntry :: "ls_env \<Rightarrow> dpath \<Rightarrow> tar_header \<Rightarrow> reader \<Rightarrow> ls_maps \<Rightarrow> ls_maps act" where
  "extractTarEntry E base h r maps =
     (if hdName h = IndexFileName then writeIndexFile E base r
      else if hdType h \<noteq> TypeReg \<and> hdType h \<noteq> TypeDir then raiseA ErrInvalidPath
      else (case storagePath (hdName h) (hdType h = TypeDir) of
          Inl e \<Rightarrow> raiseA ErrInvalidPath
        | Inr clean \<Rightarrow>
            if clean = ''/'' then raiseA ErrInvalidPath
            else
              let name = relative clean; targetPath = base @ elemsOf name in
              if prefix ''..'' name then raiseA (ErrOther ''illegal path traversal in tar file'')
              else if hdType h = TypeDir then bindA (osMkdirAll targetPath) (\<lambda>_. pureA maps)
              else
                bindA (osMkdirAll (butlast targetPath)) (\<lambda>_.
                if hdMode h < 0 then raiseA (ErrOther ''illegal file mode in tar file'')
                else if hdMode h > MaxUint32 then raiseA (ErrOther ''illegal file mode in tar file'')
                else
                  bindA (osTruncate targetPath) (\<lambda>_.
                  bindA (copyTo targetPath r) (\<lambda>copyErr.
                  bindA (tryA closeFile) (\<lambda>closeErr. joinA [copyErr, failedWith closeErr] maps))))))"

fun extractEntries :: "ls_env \<Rightarrow> dpath \<Rightarrow> (tar_header \<times> reader) list \<Rightarrow> ls_maps \<Rightarrow> ls_maps act" where
  "extractEntries E base [] maps = pureA maps"
| "extractEntries E base ((h, r) # es) maps = bindA (extractTarEntry E base h r maps) (extractEntries E base es)"

text \<open>\<open>io.CopyN\<close> of at most one MiB that is thrown away, which is to meet the end.\<close>

definition trailingLimit :: nat where
  "trailingLimit = 1048576"

definition trailingError :: "reader \<Rightarrow> err option" where
  "trailingError r =
     (if length (rData r) \<ge> trailingLimit then Some (ErrOther ''archive has excessive trailing data'')
      else if errorsIs (rEnd r) ErrEOF then None else Some (rEnd r))"

definition extractArchive :: "ls_env \<Rightarrow> (reader \<Rightarrow> err + archive) \<Rightarrow> dpath \<Rightarrow> reader \<Rightarrow> ls_maps act" where
  "extractArchive E dec base r =
     bindA (liftA (dec r)) (\<lambda>ar.
     bindA (extractEntries E base (arEntries ar) (Map.empty, Map.empty)) (\<lambda>maps.
     if \<not> errorsIs (arEnd ar) ErrEOF then raiseA (arEnd ar)
     else (case trailingError (arRest ar) of Some e \<Rightarrow> raiseA e | None \<Rightarrow> pureA maps)))"

section \<open>Loading\<close>

definition validateEntry :: "path_map \<Rightarrow> dpath \<Rightarrow> dpath \<times> dnode \<Rightarrow> unit act" where
  "validateEntry paths base item =
     (case item of (p, entry) \<Rightarrow>
        let name = drop (length base) p in
        if name = [] \<or> name = [IndexFileName] then pureA ()
        else
          (case paths (''/'' @ joinWith [slash] name @ (if entry = DirNode then ''/'' else [])) of
             None \<Rightarrow> raiseA (ErrOther ''unindexed restored entry'')
           | Some meta \<Rightarrow> bindA (osStat p) (\<lambda>info.
               if \<not> matchesEntry meta info then raiseA (ErrOther ''restored file does not match index'')
               else pureA ())))"

definition validateRestoredFiles :: "ls_env \<Rightarrow> dpath \<Rightarrow> ls_maps \<Rightarrow> unit act" where
  "validateRestoredFiles E base maps =
     bindA (osStat base) (\<lambda>_.
     bindA (forA (\<lambda>meta.
        bindA (liftA (rootPath base (relative (mPath meta)))) (\<lambda>p.
        bindA (if mIsDir meta then osMkdirAll p else pureA ()) (\<lambda>_.
        bindA (osStat p) (\<lambda>_. pureA ())))) (metasOf E (fst maps))) (\<lambda>_.
     bindA (readA (\<lambda>t. Inr (map (\<lambda>p. (p, the (nodeAt t p))) (treeWalk t base)))) (\<lambda>items.
     forA (validateEntry (snd maps) base) items)))"

definition oldMove :: "nat \<times> string \<Rightarrow> diskMove" where
  "oldMove item = \<lparr>dmFrom = snd item, dmTo = inTransaction (''old-'' @ formatUint (fst item))\<rparr>"

definition newMove :: "string \<Rightarrow> diskMove" where
  "newMove name = \<lparr>dmFrom = inTransaction (''new/'' @ name), dmTo = name\<rparr>"

definition loadStage :: "ls_env \<Rightarrow> (reader \<Rightarrow> err + archive) \<Rightarrow> reader \<Rightarrow> (diskMove list \<times> ls_maps) act" where
  "loadStage E dec r =
     (let base = [transactionDir, ''new''] in
      bindA (rootMkdir [] (inTransaction ''new'')) (\<lambda>_.
      bindA (extractArchive E dec base r) (\<lambda>maps.
      bindA (rootLstat [] (inTransaction (''new/'' @ IndexFileName))) (\<lambda>_.
      bindA (validateRestoredFiles E base maps) (\<lambda>_.
      bindA (readA (\<lambda>t. Inr (treeNames t []))) (\<lambda>entries.
      bindA (readA (\<lambda>t. Inr (treeNames t base))) (\<lambda>next.
      pureA (map oldMove (filter (\<lambda>(i, name). name \<noteq> transactionDir \<and> name \<noteq> IndexFileName) (enumerate 0 entries))
         @ map newMove (filter (\<lambda>name. name \<noteq> IndexFileName) next), maps))))))))"

definition local_Load :: "ls_env \<Rightarrow> (reader \<Rightarrow> err + archive) \<Rightarrow> reader \<Rightarrow> lstore \<Rightarrow> unit run \<times> lstore" where
  "local_Load E dec r s = whenOpen s (transaction E (loadStage E dec r) (\<lambda>maps _. (maps, ())) s)"

end
