(* ===== verification/Disk_Dirs.thy ===== *)
theory Disk_Dirs
  imports Disk_Facts
begin

text \<open>
  Making a directory with those above it, and writing files by their paths: what the calls of package
  \<open>os\<close> do to the function from paths to nodes.
\<close>

section \<open>Directories\<close>

text \<open>A path with all directories above it, and a file on the way.\<close>

definition withDir :: "dpath \<Rightarrow> tfun \<Rightarrow> tfun" where
  "withDir p f q = (if prefix q p then Some DirNode else f q)"

definition fileOnWay :: "tfun \<Rightarrow> dpath \<Rightarrow> bool" where
  "fileOnWay f p \<longleftrightarrow> list_ex (\<lambda>k. case f (take k p) of Some (RegNode b) \<Rightarrow> True | _ \<Rightarrow> False) [0..<Suc (length p)]"

lemma fileOnWay_iff: "fileOnWay f p \<longleftrightarrow> (\<exists>q b. prefix q p \<and> f q = Some (RegNode b))"
proof
  assume "fileOnWay f p"
  then obtain k where "case f (take k p) of Some (RegNode b) \<Rightarrow> True | _ \<Rightarrow> False"
    unfolding fileOnWay_def list_ex_iff by blast
  then show "\<exists>q b. prefix q p \<and> f q = Some (RegNode b)"
    by (auto split: option.splits dnode.splits intro!: exI [of _ "take k p"] take_is_prefix)
next
  assume "\<exists>q b. prefix q p \<and> f q = Some (RegNode b)"
  then obtain q b where q: "prefix q p" "f q = Some (RegNode b)" by blast
  then obtain r where "p = q @ r" by (auto simp: prefix_def)
  with q(2) show "fileOnWay f p" unfolding fileOnWay_def list_ex_iff by (intro bexI [of _ "length q"]) auto
qed

lemma fileOnWay_snoc: "fileOnWay f (p @ [x]) \<longleftrightarrow> fileOnWay f p \<or> (\<exists>b. f (p @ [x]) = Some (RegNode b))"
  by (auto simp: fileOnWay_iff)

lemma withDir_snoc: "withDir (p @ [x]) f = (withDir p f)(p @ [x] \<mapsto> DirNode)"
  by (auto simp: withDir_def fun_eq_iff)

lemma withDir_there: "okF f \<Longrightarrow> f p = Some DirNode \<Longrightarrow> withDir p f = f \<and> \<not> fileOnWay f p"
  using okF_above [of f p] by (auto simp: withDir_def fileOnWay_iff fun_eq_iff strict_prefix_def) (metis dnode.distinct(1) option.inject)+

lemma wp_osMkdirAll:
  assumes t: "tree_ok t" and ref: "fileOnWay (nodeAt t) p \<Longrightarrow> refused"
    and P: "\<And>q t'. prefix q p \<Longrightarrow> tree_ok t' \<Longrightarrow> nodeAt t' = withDir q (nodeAt t) \<Longrightarrow> P t'"
  shows "wp c (osMkdirAll p) (\<lambda>_ t'. \<not> fileOnWay (nodeAt t) p \<and> tree_ok t' \<and> nodeAt t' = withDir p (nodeAt t))
    (abortsIn c refused P) (stopsIn c P) t"
  unfolding osMkdirAll_def using ref P
proof (induction p rule: rev_induct)
  case Nil
  have P: "P t" by (rule Nil(2) [of "[]"]) (use t in \<open>auto simp: withDir_def fun_eq_iff\<close>)
  show ?case
    by (simp add: osStat_def, intro wp_bind wp_read wp_pure faultyI)
      (use t P in \<open>auto simp: treeStat_def abortsIn_def stopsIn_def fileOnWay_iff withDir_def fun_eq_iff\<close>)
next
  case (snoc x p)
  let ?f = "nodeAt t" and ?p = "p @ [x]"
  let ?Q = "\<lambda>(_ :: unit) t'. \<not> fileOnWay ?f ?p \<and> tree_ok t' \<and> nodeAt t' = withDir ?p ?f"
  have P0: "P t" by (rule snoc(3) [of "[]"]) (use t in \<open>auto simp: withDir_def fun_eq_iff\<close>)
  have IH: "wp c (mkdirAllRev (rev p)) (\<lambda>_ t'. \<not> fileOnWay ?f p \<and> tree_ok t' \<and> nodeAt t' = withDir p ?f)
      (abortsIn c refused P) (stopsIn c P) t"
    by (rule snoc(1)) (use snoc(2,3) in \<open>auto simp: fileOnWay_snoc\<close>)
  have last: "wp c (bindA (tryA (osMkdir ?p)) (\<lambda>m. case m of
               Inr _ \<Rightarrow> pureA ()
             | Inl e \<Rightarrow> bindA (tryA (osStat ?p)) (\<lambda>s. if s = Inr DirNode then pureA () else raiseA e)))
      ?Q (abortsIn c refused P) (stopsIn c P) t1"
    if t1: "\<not> fileOnWay ?f p" "tree_ok t1" "nodeAt t1 = withDir p ?f" for t1
  proof -
    have P1: "P t1" using snoc(3) [of p t1] t1 by simp
    have at: "nodeAt t1 ?p = ?f ?p" "nodeAt t1 p = Some DirNode" by (auto simp: t1(3) withDir_def)
    have stay: "?Q () t1" if "?f ?p = Some DirNode"
      using that t1 withDir_snoc [of p x ?f] by (auto simp: fileOnWay_snoc withDir_def fun_eq_iff)
    have new: "?Q () t2 \<and> P t2" if "treeAdd ?p DirNode t1 = Inr t2" for t2
    proof -
      have "tree_ok t2" "nodeAt t2 = withDir ?p ?f" using treeAdd_ok [OF t1(2) that] treeAdd_Inr [OF that] t1(3)
        by (auto simp: withDir_snoc)
      moreover have "?f ?p = None" using that at(1) by (auto simp: treeAdd_def split: if_splits)
      ultimately show ?thesis using t1(1) snoc(3) [of ?p t2] by (auto simp: fileOnWay_snoc)
    qed
    have miss: "refused \<or> ?f ?p = Some DirNode" if "?f ?p \<noteq> None"
      using that snoc(2) by (cases "the (?f ?p)") (auto simp: fileOnWay_snoc)
    have add: "treeAdd ?p DirNode t1 = Inl e \<Longrightarrow> ?f ?p \<noteq> None" for e
      using at by (auto simp: treeAdd_def split: if_splits)
    show ?thesis
      unfolding osMkdir_def osStat_def
      by (intro wp_bind wp_try wp_change faultyI)
        (use P1 stay new miss add at in \<open>auto simp: treeStat_def abortsIn_def stopsIn_def split: option.splits
          intro!: wp_bind wp_try wp_read wp_pure wp_raise faultyI\<close>)
  qed
  define again where "again = bindA (mkdirAllRev (rev p)) (\<lambda>_. bindA (tryA (osMkdir ?p)) (\<lambda>m. case m of
               Inr _ \<Rightarrow> pureA ()
             | Inl e \<Rightarrow> bindA (tryA (osStat ?p)) (\<lambda>s. if s = Inr DirNode then pureA () else raiseA e)))"
  have rest: "wp c again ?Q (abortsIn c refused P) (stopsIn c P) t"
    unfolding again_def by (rule wp_then [OF IH]) (use last in blast)
  have there: "?f ?p = Some DirNode \<Longrightarrow> ?Q () t" using withDir_there [OF tree_okF [OF t]] t by auto
  have onfile: "?f ?p = Some (RegNode b) \<Longrightarrow> refused" for b using snoc(2) by (auto simp: fileOnWay_snoc)
  have step: "mkdirAllRev (rev ?p) = bindA (tryA (osStat ?p)) (\<lambda>s. case s of
      Inr DirNode \<Rightarrow> pureA () | Inr (RegNode _) \<Rightarrow> raiseA (ErrOther ''not a directory'') | Inl _ \<Rightarrow> again)"
    unfolding again_def rev_append rev.simps append_Nil append_Cons mkdirAllRev.simps Let_def rev_rev_ident by (rule refl)
  have refuses: "(snd c \<or> refused) \<Longrightarrow> abortsIn c refused P e t" and stops: "snd c \<Longrightarrow> stopsIn c P t" for e
    using P0 by (simp_all add: abortsIn_def stopsIn_def)
  show ?case
    unfolding step osStat_def
    by (intro wp_bind wp_try wp_read faultyI)
      (use there onfile rest refuses stops in \<open>auto simp: treeStat_def split: option.splits dnode.splits
          intro!: wp_pure wp_raise\<close>)
qed

section \<open>Files\<close>

lemma treeTruncate_Inr:
  assumes t: "tree_ok t" and e: "treeTruncate p t = Inr t'"
  shows "nodeAt t p \<noteq> Some DirNode \<and> tree_ok t' \<and> nodeAt t' = (nodeAt t)(p \<mapsto> RegNode [])"
proof (cases "nodeAt t p")
  case None
  with e have a: "treeAdd p (RegNode []) t = Inr t'" by (simp add: treeTruncate_def)
  from treeAdd_ok [OF t a] treeAdd_Inr [OF a] None show ?thesis by simp
next
  case (Some n)
  with e obtain b where n: "n = RegNode b" and t': "t' = map (\<lambda>(q, n). (q, if q = p then RegNode [] else n)) t"
    by (cases n) (auto simp: treeTruncate_def)
  have p: "p \<noteq> []" using Some n by auto
  have at: "nodeAt t' = (nodeAt t)(p \<mapsto> RegNode [])"
  proof
    fix q
    have "map_of t' q = (if q = p then map_option (\<lambda>_. RegNode []) (map_of t q) else map_of t q)"
      unfolding t' by (induction t) auto
    then show "nodeAt t' q = ((nodeAt t)(p \<mapsto> RegNode [])) q" using Some p by (auto simp: nodeAt_def)
  qed
  have "okF ((nodeAt t)(p \<mapsto> RegNode []))"
    unfolding okF_def
  proof (intro conjI allI impI)
    fix q assume q: "((nodeAt t)(p \<mapsto> RegNode [])) q \<noteq> None" "q \<noteq> []"
    then have d: "nodeAt t (butlast q) = Some DirNode"
      using okF_parent [OF tree_okF [OF t], of q] Some by (cases "q = p") auto
    then show "((nodeAt t)(p \<mapsto> RegNode [])) (butlast q) = Some DirNode" using Some n by auto
  qed (use p in simp)
  moreover have "fst ` set t' = fst ` set t" by (force simp: t')
  ultimately show ?thesis using t Some n at by (simp add: tree_ok_def)
qed

lemma wp_osTruncate:
  assumes "tree_ok t" and "nodeAt t (butlast p) = Some DirNode" and "nodeAt t p = Some DirNode \<Longrightarrow> refused" and "P t"
  shows "wp c (osTruncate p) (\<lambda>_ t'. nodeAt t p \<noteq> Some DirNode \<and> tree_ok t' \<and> nodeAt t' = (nodeAt t)(p \<mapsto> RegNode []))
    (abortsIn c refused P) (stopsIn c P) t"
proof -
  have "treeTruncate p t = Inl e \<Longrightarrow> nodeAt t p = Some DirNode" for e
    using assms(2) by (auto simp: treeTruncate_def treeAdd_def split: option.splits dnode.splits)
  then show ?thesis
    unfolding osTruncate_def
    by (intro wp_change faultyI) (use assms treeTruncate_Inr [OF assms(1)] in \<open>auto simp: abortsIn_def stopsIn_def\<close>)
qed

lemma written_at:
  assumes "tree_ok t" and "nodeAt t = f(p \<mapsto> RegNode [])"
  shows "tree_ok (treeWrite p b t)" "nodeAt (treeWrite p b t) = f(p \<mapsto> RegNode b)"
  using treeWrite_ok [OF assms(1)] by (auto simp: treeWrite_at assms(2) fun_eq_iff)

lemma wp_close:
  assumes "R (Inr ()) t" and "\<And>e. snd c \<Longrightarrow> R (Inl e) t" and "snd c \<Longrightarrow> C t"
  shows "wp c (tryA closeFile) R E C t"
  unfolding closeFile_def by (intro wp_try wp_read faultyI) (use assms in auto)

lemma wp_osWriteFile:
  assumes t: "tree_ok t" "nodeAt t (butlast p) = Some DirNode" and ref: "nodeAt t p = Some DirNode \<Longrightarrow> refused"
    and P: "P t" "\<And>b t'. tree_ok t' \<Longrightarrow> nodeAt t' = (nodeAt t)(p \<mapsto> RegNode b) \<Longrightarrow> P t'"
  shows "wp c (osWriteFile p b) (\<lambda>_ t'. nodeAt t p \<noteq> Some DirNode \<and> tree_ok t' \<and> nodeAt t' = (nodeAt t)(p \<mapsto> RegNode b))
    (abortsIn c refused P) (stopsIn c P) t"
proof -
  let ?Q = "\<lambda>(_ :: unit) t'. nodeAt t p \<noteq> Some DirNode \<and> tree_ok t' \<and> nodeAt t' = (nodeAt t)(p \<mapsto> RegNode b)"
  have rest: "wp c (bindA (tryA (writeA p b)) (\<lambda>w. bindA (tryA closeFile) (\<lambda>c. case w of Inl e \<Rightarrow> raiseA e | Inr _ \<Rightarrow> liftA c)))
      ?Q (abortsIn c refused P) (stopsIn c P) t1"
    if t1: "nodeAt t p \<noteq> Some DirNode" "tree_ok t1" "nodeAt t1 = (nodeAt t)(p \<mapsto> RegNode [])" for t1
  proof -
    note w = written_at [OF t1(2,3)]
    have "P (treeWrite p b' t1)" for b' by (rule P(2) [OF w])
    then show ?thesis
      by (intro wp_bind wp_try wp_write wp_close faultyI)
        (use t1(1) w in \<open>auto simp: abortsIn_def stopsIn_def intro!: wp_raise wp_lift\<close>)
  qed
  have "wp c (osTruncate p) (\<lambda>_ t'. nodeAt t p \<noteq> Some DirNode \<and> tree_ok t' \<and> nodeAt t' = (nodeAt t)(p \<mapsto> RegNode []))
    (abortsIn c refused P) (stopsIn c P) t"
    by (rule wp_osTruncate) (use t ref P(1) in simp_all)
  then show ?thesis
    unfolding osWriteFile_def by (rule wp_then) (use rest in blast)
qed

text \<open>\<open>io.Copy\<close> to a file that is then closed.\<close>

lemma wp_fill:
  assumes t: "tree_ok t" "nodeAt t = f(p \<mapsto> RegNode [])" and ref: "rEnd r \<noteq> ErrEOF \<Longrightarrow> refused"
    and P: "\<And>b t'. tree_ok t' \<Longrightarrow> nodeAt t' = f(p \<mapsto> RegNode b) \<Longrightarrow> P t'"
  shows "wp c (bindA (copyTo p r) (\<lambda>copyErr. bindA (tryA closeFile) (\<lambda>closeErr. joinA [copyErr, failedWith closeErr] x)))
    (\<lambda>y t'. y = x \<and> rEnd r = ErrEOF \<and> tree_ok t' \<and> nodeAt t' = f(p \<mapsto> RegNode (rData r)))
    (abortsIn c refused P) (stopsIn c P) t"
proof -
  note w = written_at [OF t]
  have PW: "P (treeWrite p b t)" for b by (rule P [OF w])
  have j: "errorsJoin [e, None] = None \<longleftrightarrow> e = None" "errorsJoin [e, Some e'] \<noteq> None" for e e'
    by (cases e; simp add: errorsJoin_def Let_def)+
  have fin: "wp c (bindA (tryA closeFile) (\<lambda>closeErr. joinA [e, failedWith closeErr] x))
      (\<lambda>y t'. y = x \<and> rEnd r = ErrEOF \<and> tree_ok t' \<and> nodeAt t' = f(p \<mapsto> RegNode (rData r)))
      (abortsIn c refused P) (stopsIn c P) t'"
    if "e = None \<Longrightarrow> rEnd r = ErrEOF \<and> t' = treeWrite p (rData r) t" "e \<noteq> None \<Longrightarrow> snd c \<or> refused" "P t'" for e t'
    by (cases e; intro wp_bind wp_close wp_join)
      (use that w j(2) j(1) [of None] in \<open>auto simp: abortsIn_def stopsIn_def failedWith_def\<close>)
  show ?thesis
    unfolding copyTo_def
    by (intro wp_bind [of c "bindA (tryA (writeA p (rData r))) k" for k] wp_bind [of c "tryA (writeA p (rData r))"] wp_try wp_write wp_pure fin faultyI)
      (use ref PW in \<open>auto simp: stopsIn_def split: if_splits\<close>)
qed

end
