(* ===== verification/Local_Unpack.thy ===== *)
theory Local_Unpack
  imports Local_Archive Local_Ops Disk_Dirs
begin

text \<open>
  What an archive contains, as a function of its headers and contents alone: the index and the files
  it unpacks to, and whether they fit. Unpacking and validating on a disk yields exactly that in the
  staging directory, or stops because of a fault or because the archive does not fit.
\<close>

section \<open>The contents of an archive\<close>

definition unpackEntry :: "ls_env \<Rightarrow> tar_header \<Rightarrow> reader \<Rightarrow> ls_maps \<times> tfun \<Rightarrow> (ls_maps \<times> tfun) option" where
  "unpackEntry E h r st =
     (case st of (maps, F) \<Rightarrow>
      if hdName h = IndexFileName then
        (if rEnd r \<noteq> ErrEOF \<or> F [IndexFileName] = Some DirNode then None
         else (case readIndex E (rData r) of
             Inl e \<Rightarrow> None
           | Inr maps' \<Rightarrow> Some (maps', F([IndexFileName] \<mapsto> RegNode (rData r)))))
      else if hdType h = TypeOther then None
      else (case storagePath (hdName h) (hdType h = TypeDir) of
          Inl e \<Rightarrow> None
        | Inr clean \<Rightarrow>
            let es = elemsOf clean; dir = (if hdType h = TypeDir then es else butlast es) in
            if clean = ''/'' \<or> prefix ''..'' (relative clean) \<or> fileOnWay F dir then None
            else if hdType h = TypeDir then Some (maps, withDir dir F)
            else if hdMode h < 0 \<or> hdMode h > MaxUint32 \<or> withDir dir F es = Some DirNode \<or> rEnd r \<noteq> ErrEOF then None
            else Some (maps, (withDir dir F)(es \<mapsto> RegNode (rData r)))))"

fun unpackEntries :: "ls_env \<Rightarrow> (tar_header \<times> reader) list \<Rightarrow> ls_maps \<times> tfun \<Rightarrow> (ls_maps \<times> tfun) option" where
  "unpackEntries E [] st = Some st"
| "unpackEntries E ((h, r) # es) st = Option.bind (unpackEntry E h r st) (unpackEntries E es)"

definition emptyTree :: tfun where
  "emptyTree = [[] \<mapsto> DirNode]"

definition unpack :: "ls_env \<Rightarrow> (reader \<Rightarrow> err + archive) \<Rightarrow> reader \<Rightarrow> (ls_maps \<times> tfun) option" where
  "unpack E dec r =
     (case dec r of
        Inl e \<Rightarrow> None
      | Inr ar \<Rightarrow>
          if \<not> errorsIs (arEnd ar) ErrEOF \<or> trailingError (arRest ar) \<noteq> None then None
          else unpackEntries E (arEntries ar) ((Map.empty, Map.empty), emptyTree))"

text \<open>The files with the directories of the index, and whether they are those of the index.\<close>

definition withDirs :: "vmeta set \<Rightarrow> tfun \<Rightarrow> tfun" where
  "withDirs M f q = (if \<exists>m \<in> M. mIsDir m \<and> prefix q (elems m) then Some DirNode else f q)"

definition keyOf :: "dpath \<Rightarrow> dnode \<Rightarrow> string" where
  "keyOf p n = ''/'' @ joinWith [slash] p @ (if n = DirNode then ''/'' else [])"

definition dirsFit :: "vmeta set \<Rightarrow> tfun \<Rightarrow> bool" where
  "dirsFit M F \<longleftrightarrow> (\<forall>m \<in> M. mIsDir m \<longrightarrow> \<not> fileOnWay F (elems m)) \<and> (\<forall>m \<in> M. withDirs M F (elems m) \<noteq> None)"

definition walkFits :: "path_map \<Rightarrow> tfun \<Rightarrow> bool" where
  "walkFits paths F \<longleftrightarrow> (\<forall>p n. F p = Some n \<longrightarrow> p = [] \<or> p = [IndexFileName]
     \<or> (\<exists>meta. paths (keyOf p n) = Some meta \<and> matchesEntry meta n))"

definition fits :: "ls_maps \<Rightarrow> tfun \<Rightarrow> bool" where
  "fits maps F \<longleftrightarrow> F [IndexFileName] \<noteq> None \<and> dirsFit (ran (fst maps)) F
     \<and> walkFits (snd maps) (withDirs (ran (fst maps)) F)"

section \<open>Staging trees\<close>

text \<open>The tree \<open>f\<close> with the files of \<open>F\<close> in the staging directory.\<close>

definition graft :: "tfun \<Rightarrow> tfun \<Rightarrow> tfun" where
  "graft f F p = (if prefix (tx ''new'') p then F (drop 2 p) else if p = tT then Some DirNode else f p)"

definition grafted :: "tfun \<Rightarrow> tfun \<Rightarrow> dtree \<Rightarrow> bool" where
  "grafted f F t \<longleftrightarrow> tree_ok t \<and> nodeAt t = graft f F \<and> F [] = Some DirNode"

definition unpacking :: "tfun \<Rightarrow> dtree \<Rightarrow> bool" where
  "unpacking f t \<longleftrightarrow> (\<exists>F. grafted f F t)"

lemma tx_append [simp]: "drop 2 (tx x @ p) = p" "tx x @ p \<noteq> tT" "tT \<noteq> tx x @ p" "prefix (tx x) (tx y @ p) \<longleftrightarrow> x = y"
  by (simp_all add: tx_def tT_def)

lemma graft_new [simp]: "graft f F (tx ''new'' @ p) = F p" "graft f F (tx ''new'') = F []"
  using graft_def [of f F "tx ''new''"] by (simp_all add: graft_def tx_def)

lemma graft_other: "\<not> prefix tT p \<Longrightarrow> graft f F p = f p"
  "x \<noteq> ''new'' \<Longrightarrow> graft f F (tx x @ p) = f (tx x @ p)" "graft f F tT = Some DirNode"
  using prefix_order.trans [OF tT_tx(1) [of "''new''"], of p] by (auto simp: graft_def tT_def tx_def)

lemma graft_Nil [simp]: "graft f F [] = f []"
  by (simp add: graft_other(1) tT_def)

lemma unpacking_recOld:
  assumes "noStaging f" and "unpacking f t"
  shows "recOld E ord f t"
proof -
  from assms(2) obtain F where F: "tree_ok t" "nodeAt t = graft f F" by (auto simp: unpacking_def grafted_def)
  have "nodeAt t (tx ''journal'') = None"
    using graft_other(2) [of "''journal''" f F "[]"] noStaging_tx(1) [OF assms(1)] by (simp add: F(2))
  with F show ?thesis by (intro staging_recOld) (auto simp: outside_def graft_other dirOrNone_def)
qed

text \<open>Prefixes of a staged path: the two directories above, or staged themselves.\<close>

lemma prefix_staged: "prefix q (tx ''new'' @ p) \<longleftrightarrow> q = [] \<or> q = tT \<or> (\<exists>q'. q = tx ''new'' @ q' \<and> prefix q' p)"
proof -
  have "tx ''new'' @ p = transactionDir # ''new'' # p" by (simp add: tx_def)
  then show ?thesis by (cases q; cases "tl q") (auto simp: tT_def tx_def)
qed

lemma graft_withDir: "okF f \<Longrightarrow> withDir (tx ''new'' @ p) (graft f F) = graft f (withDir p F)"
proof
  fix q assume f: "okF f"
  show "withDir (tx ''new'' @ p) (graft f F) q = graft f (withDir p F) q"
  proof (cases "prefix (tx ''new'') q")
    case True
    then obtain q' where "q = tx ''new'' @ q'" by (auto simp: prefix_def)
    then show ?thesis by (simp add: withDir_def)
  next
    case False
    then have "prefix q (tx ''new'' @ p) \<longleftrightarrow> q = [] \<or> q = tT" by (auto simp: prefix_staged)
    with False f show ?thesis by (auto simp: withDir_def graft_def okF_def)
  qed
qed

lemma graft_onWay: "okF f \<Longrightarrow> fileOnWay (graft f F) (tx ''new'' @ p) \<longleftrightarrow> fileOnWay F p"
  by (auto simp: fileOnWay_iff prefix_staged graft_other okF_def)

lemma graft_upd: "(graft f F)(tx ''new'' @ p \<mapsto> n) = graft f (F(p \<mapsto> n))"
proof
  fix q
  show "((graft f F)(tx ''new'' @ p \<mapsto> n)) q = graft f (F(p \<mapsto> n)) q"
  proof (cases "prefix (tx ''new'') q")
    case True
    then obtain q' where "q = tx ''new'' @ q'" by (auto simp: prefix_def)
    then show ?thesis by simp
  qed (auto simp: graft_def)
qed

lemma graftedI: "tree_ok t \<Longrightarrow> nodeAt t = graft f F \<Longrightarrow> F [] = Some DirNode \<Longrightarrow> grafted f F t"
  by (simp add: grafted_def)

lemma grafted_unpacking: "grafted f F t \<Longrightarrow> unpacking f t"
  by (auto simp: unpacking_def)

section \<open>Unpacking on a disk\<close>

text \<open>What a stage does that yields \<open>r\<close>, or fails if there is none.\<close>

abbreviation yields :: "setting \<Rightarrow> tfun \<Rightarrow> 'a act \<Rightarrow> ('a \<times> tfun) option \<Rightarrow> dtree \<Rightarrow> bool" where
  "yields c f m r t \<equiv> wp c m (\<lambda>x t'. \<exists>F'. r = Some (x, F') \<and> grafted f F' t')
     (abortsIn c (r = None) (unpacking f)) (stopsIn c (unpacking f)) t"

lemma yields_raise: "grafted f F t \<Longrightarrow> r = None \<Longrightarrow> yields c f (raiseA e) r t"
  by (rule wp_raise) (simp add: abortsIn_def grafted_unpacking)

lemma refuses_raise: "grafted f F t \<Longrightarrow> wp c (raiseA e) Q (abortsIn c True (unpacking f)) C t"
  by (rule wp_raise) (simp add: abortsIn_def grafted_unpacking)

lemma wp_staged_mkdir:
  assumes f: "okF f" and t: "grafted f F t"
  shows "wp c (osMkdirAll (tx ''new'' @ p)) (\<lambda>_ t'. \<not> fileOnWay F p \<and> grafted f (withDir p F) t')
    (abortsIn c (fileOnWay F p) (unpacking f)) (stopsIn c (unpacking f)) t"
proof -
  have tk: "tree_ok t" "nodeAt t = graft f F" "F [] = Some DirNode" using t by (auto simp: grafted_def)
  have P: "unpacking f t'" if q: "prefix q (tx ''new'' @ p)" and t': "tree_ok t'" "nodeAt t' = withDir q (nodeAt t)" for q t'
  proof (cases "q = [] \<or> q = tT")
    case True
    then have "withDir q (graft f F) = graft f F" using f by (auto simp: withDir_def fun_eq_iff okF_def graft_other(3) [unfolded tT_def] tT_def prefix_Cons)
    with t' tk show ?thesis by (auto simp: unpacking_def grafted_def)
  next
    case False
    with q obtain q' where "q = tx ''new'' @ q'" by (auto simp: prefix_staged)
    then have "nodeAt t' = graft f (withDir q' F)" using t'(2) graft_withDir [OF f] by (simp add: tk(2))
    then show ?thesis using t'(1) by (auto simp: unpacking_def withDir_def intro!: exI [of _ "withDir q' F"] graftedI)
  qed
  have "wp c (osMkdirAll (tx ''new'' @ p)) (\<lambda>_ t'. \<not> fileOnWay (nodeAt t) (tx ''new'' @ p) \<and> tree_ok t'
      \<and> nodeAt t' = withDir (tx ''new'' @ p) (nodeAt t)) (abortsIn c (fileOnWay F p) (unpacking f)) (stopsIn c (unpacking f)) t"
    by (rule wp_osMkdirAll [OF tk(1) _ P]) (simp add: tk(2) graft_onWay [OF f])
  then show ?thesis
    by (rule wp_mono) (auto simp: tk(2) graft_onWay [OF f] graft_withDir [OF f] withDir_def intro!: graftedI)
qed

lemma yields_index:
  assumes f: "okF f" and t: "grafted f F t"
  shows "yields c f (writeIndexFile E (tx ''new'') r)
    (if rEnd r \<noteq> ErrEOF \<or> F [IndexFileName] = Some DirNode then None
     else (case readIndex E (rData r) of Inl e \<Rightarrow> None | Inr maps' \<Rightarrow> Some (maps', F([IndexFileName] \<mapsto> RegNode (rData r))))) t"
    (is "yields c f _ ?r t")
proof (cases "rEnd r = ErrEOF")
  case False
  then show ?thesis using refuses_raise [OF t, of c] by (simp add: writeIndexFile_def)
next
  case eof: True
  have tk: "tree_ok t" "nodeAt t = graft f F" "F [] = Some DirNode" using t by (auto simp: grafted_def)
  let ?p = "tx ''new'' @ [IndexFileName]"
  show ?thesis
  proof (cases "readIndex E (rData r)")
    case (Inl e)
    then show ?thesis using refuses_raise [OF t, of c] eof by (simp add: writeIndexFile_def)
  next
    case (Inr maps')
    have P: "unpacking f t'" if "tree_ok t'" "nodeAt t' = (nodeAt t)(?p \<mapsto> RegNode b)" for b t'
      using that tk by (auto simp: unpacking_def graft_upd intro!: exI [of _ "F([IndexFileName] \<mapsto> RegNode b)"] graftedI)
    have w: "wp c (osWriteFile ?p (rData r)) (\<lambda>_ t'. nodeAt t ?p \<noteq> Some DirNode \<and> tree_ok t' \<and> nodeAt t' = (nodeAt t)(?p \<mapsto> RegNode (rData r)))
        (abortsIn c (?r = None) (unpacking f)) (stopsIn c (unpacking f)) t"
      by (rule wp_osWriteFile [where P = "unpacking f"]; (rule P; assumption)?)
        (use tk grafted_unpacking [OF t] in \<open>auto simp: butlast_append\<close>)
    have x: "writeIndexFile E (tx ''new'') r = bindA (osWriteFile ?p (rData r)) (\<lambda>_. pureA maps')"
      by (simp add: writeIndexFile_def eof Inr)
    show ?thesis unfolding x by (rule wp_then [OF w]) (use tk in \<open>auto simp: eof Inr graft_upd intro!: wp_pure graftedI\<close>)
  qed
qed

lemma storagePath_elems:
  assumes "storagePath v d = Inr clean" and "clean \<noteq> ''/''"
  shows "visible (elemsOf clean)" "elemsOf clean \<noteq> []" "relative clean = nameOf (elemsOf clean)" "elemsOf (relative clean) = elemsOf clean"
proof -
  from storagePath_shape [OF assms(1)] have s: "visible (elemsOf clean)" "clean = pathOf (elemsOf clean) d" by auto
  then show v: "visible (elemsOf clean)" and ne: "elemsOf clean \<noteq> []"
    using assms(2) by (auto simp: pathOf_def nameOf_def)
  have p: "list_all properElem (elemsOf clean)" using v by (simp add: visible_def)
  show r: "relative clean = nameOf (elemsOf clean)" using relative_pathOf [OF p ne, of d] s(2) by simp
  show "elemsOf (relative clean) = elemsOf clean" unfolding r using elemsOf_join [OF p] by (simp add: nameOf_def)
qed

lemma yields_entry:
  assumes f: "okF f" and t: "grafted f F t"
  shows "yields c f (extractTarEntry E (tx ''new'') h r maps) (unpackEntry E h r (maps, F)) t"
proof (cases "hdName h = IndexFileName \<or> hdType h = TypeOther \<or> isl (storagePath (hdName h) (hdType h = TypeDir))
    \<or> storagePath (hdName h) (hdType h = TypeDir) = Inr ''/''")
  case True
  then show ?thesis
    using yields_index [OF f t, of c E r] refuses_raise [OF t, of c]
    by (cases "hdType h") (auto simp: extractTarEntry_def unpackEntry_def isl_def split: sum.splits)
next
  case False
  then obtain clean where cl: "storagePath (hdName h) (hdType h = TypeDir) = Inr clean" "clean \<noteq> ''/''"
    by (cases "storagePath (hdName h) (hdType h = TypeDir)") auto
  note es = storagePath_elems [OF cl]
  let ?es = "elemsOf clean" and ?u = "unpackEntry E h r (maps, F)"
  have tk: "tree_ok t" "nodeAt t = graft f F" "F [] = Some DirNode" using t by (auto simp: grafted_def)
  have nx: "hdName h \<noteq> IndexFileName" "hdType h \<noteq> TypeOther" using False by auto
  show ?thesis
  proof (cases "prefix ''..'' (relative clean)")
    case True
    then show ?thesis using nx cl refuses_raise [OF t, of c]
      by (cases "hdType h") (auto simp: extractTarEntry_def unpackEntry_def Let_def)
  next
    case nd: False
    show ?thesis
    proof (cases "hdType h = TypeDir")
      case True
      have u: "?u = (if fileOnWay F ?es then None else Some (maps, withDir ?es F))"
        using nx cl nd True by (simp add: unpackEntry_def Let_def)
      have x: "extractTarEntry E (tx ''new'') h r maps = bindA (osMkdirAll (tx ''new'' @ ?es)) (\<lambda>_. pureA maps)"
        using nx cl nd True es by (simp add: extractTarEntry_def Let_def)
      have w: "wp c (osMkdirAll (tx ''new'' @ ?es)) (\<lambda>_ t'. \<not> fileOnWay F ?es \<and> grafted f (withDir ?es F) t')
          (abortsIn c (?u = None) (unpacking f)) (stopsIn c (unpacking f)) t"
        by (rule wp_mono [OF wp_staged_mkdir [OF f t, of c ?es]]) (auto simp: abortsIn_def u)
      show ?thesis unfolding x by (rule wp_then [OF w]) (auto simp: u intro!: wp_pure)
    next
      case reg: False
      then have ty: "hdType h = TypeReg" using nx by (cases "hdType h") auto
      let ?d = "butlast ?es"
      let ?F = "withDir ?d F"
      let ?p = "tx ''new'' @ ?es"
      let ?bad = "hdMode h < 0 \<or> hdMode h > MaxUint32"
      have u: "?u = (if fileOnWay F ?d \<or> ?bad \<or> ?F ?es = Some DirNode \<or> rEnd r \<noteq> ErrEOF then None
          else Some (maps, ?F(?es \<mapsto> RegNode (rData r))))"
        using nx cl nd ty by (auto simp: unpackEntry_def Let_def)
      have pb: "butlast ?p = tx ''new'' @ ?d" using es(2) by (simp add: butlast_append)
      have x: "extractTarEntry E (tx ''new'') h r maps = bindA (osMkdirAll (tx ''new'' @ ?d)) (\<lambda>_.
          if ?bad then raiseA (ErrOther ''illegal file mode in tar file'')
          else bindA (osTruncate ?p) (\<lambda>_. bindA (copyTo ?p r) (\<lambda>copyErr.
            bindA (tryA closeFile) (\<lambda>closeErr. joinA [copyErr, failedWith closeErr] maps))))"
        using nx cl nd ty es pb by (auto simp: extractTarEntry_def Let_def)
      have w: "wp c (osMkdirAll (tx ''new'' @ ?d)) (\<lambda>_ t'. \<not> fileOnWay F ?d \<and> grafted f ?F t')
          (abortsIn c (?u = None) (unpacking f)) (stopsIn c (unpacking f)) t"
        by (rule wp_mono [OF wp_staged_mkdir [OF f t, of c ?d]]) (auto simp: abortsIn_def u)
      show ?thesis unfolding x
      proof (rule wp_then [OF w])
        fix y t1 assume "\<not> fileOnWay F ?d \<and> grafted f ?F t1"
        then have way: "\<not> fileOnWay F ?d" and t1: "grafted f ?F t1" by auto
        have k1: "tree_ok t1" "nodeAt t1 = graft f ?F" "?F [] = Some DirNode" using t1 by (auto simp: grafted_def)
        have P: "unpacking f t'" if "tree_ok t'" "nodeAt t' = (nodeAt t1)(?p \<mapsto> RegNode b)" for b t'
          using that k1 es(2) by (auto simp: unpacking_def graft_upd intro!: exI [of _ "?F(?es \<mapsto> RegNode b)"] graftedI)
        show "yields c f (if ?bad then raiseA (ErrOther ''illegal file mode in tar file'')
          else bindA (osTruncate ?p) (\<lambda>_. bindA (copyTo ?p r) (\<lambda>copyErr.
            bindA (tryA closeFile) (\<lambda>closeErr. joinA [copyErr, failedWith closeErr] maps)))) ?u t1"
        proof (cases ?bad)
          case True
          then show ?thesis using refuses_raise [OF t1, of c] by (simp add: u)
        next
          case ok: False
          have tr: "wp c (osTruncate ?p) (\<lambda>_ t'. nodeAt t1 ?p \<noteq> Some DirNode \<and> tree_ok t' \<and> nodeAt t' = (nodeAt t1)(?p \<mapsto> RegNode []))
              (abortsIn c (?u = None) (unpacking f)) (stopsIn c (unpacking f)) t1"
            by (rule wp_osTruncate [where P = "unpacking f", OF k1(1)])
              (use k1(2) es(2) in \<open>auto simp: u pb withDir_def grafted_unpacking [OF t1]\<close>)
          show ?thesis unfolding if_not_P [OF ok]
          proof (rule wp_then [OF tr])
            fix z t2 assume a: "nodeAt t1 ?p \<noteq> Some DirNode \<and> tree_ok t2 \<and> nodeAt t2 = (nodeAt t1)(?p \<mapsto> RegNode [])"
            show "yields c f (bindA (copyTo ?p r) (\<lambda>copyErr.
                bindA (tryA closeFile) (\<lambda>closeErr. joinA [copyErr, failedWith closeErr] maps))) ?u t2"
              by (rule wp_mono [OF wp_fill [OF conjunct1 [OF conjunct2 [OF a]] conjunct2 [OF conjunct2 [OF a]] _ P]])
                (use a k1 es(2) way ok in \<open>auto simp: u graft_upd intro!: graftedI\<close>)
          qed
        qed
      qed
    qed
  qed
qed

lemma yields_then:
  assumes m: "yields c f m r t" and k: "\<And>x F' t'. r = Some (x, F') \<Longrightarrow> grafted f F' t' \<Longrightarrow> yields c f (k x) (r' (x, F')) t'"
  shows "yields c f (bindA m k) (Option.bind r r') t"
proof (rule wp_then)
  show "wp c m (\<lambda>x t'. \<exists>F'. r = Some (x, F') \<and> grafted f F' t') (abortsIn c (Option.bind r r' = None) (unpacking f))
      (stopsIn c (unpacking f)) t"
    by (rule wp_mono [OF m]) (auto simp: abortsIn_def)
  fix x t' assume "\<exists>F'. r = Some (x, F') \<and> grafted f F' t'"
  then obtain F' where F': "r = Some (x, F')" "grafted f F' t'" by blast
  with k [OF F'] show "yields c f (k x) (Option.bind r r') t'" by simp
qed

lemma yields_entries:
  assumes f: "okF f"
  shows "grafted f F t \<Longrightarrow> yields c f (extractEntries E (tx ''new'') es maps) (unpackEntries E es (maps, F)) t"
proof (induction es arbitrary: F maps t)
  case Nil
  then show ?case by (auto intro: wp_pure)
next
  case (Cons e es)
  obtain h r where e: "e = (h, r)" by fastforce
  show ?case unfolding e extractEntries.simps unpackEntries.simps
    by (rule yields_then [OF yields_entry [OF f Cons.prems]]) (rule Cons.IH)
qed

lemma yields_archive:
  assumes f: "okF f" and t: "grafted f emptyTree t"
  shows "yields c f (extractArchive E dec (tx ''new'') r) (unpack E dec r) t"
proof (cases "dec r")
  case (Inl e)
  then show ?thesis using refuses_raise [OF t, of c] by (simp add: extractArchive_def unpack_def)
next
  case (Inr ar)
  let ?u = "unpackEntries E (arEntries ar) ((Map.empty, Map.empty), emptyTree)"
  let ?finish = "\<lambda>maps. if \<not> errorsIs (arEnd ar) ErrEOF then raiseA (arEnd ar)
      else (case trailingError (arRest ar) of Some e \<Rightarrow> raiseA e | None \<Rightarrow> pureA maps)"
  have x: "extractArchive E dec (tx ''new'') r = bindA (extractEntries E (tx ''new'') (arEntries ar) (Map.empty, Map.empty)) ?finish"
    by (simp add: extractArchive_def Inr)
  have u: "unpack E dec r = Option.bind ?u (\<lambda>st. if \<not> errorsIs (arEnd ar) ErrEOF \<or> trailingError (arRest ar) \<noteq> None then None else Some st)"
    by (simp add: unpack_def Inr)
  have fin: "yields c f (?finish maps) (if \<not> errorsIs (arEnd ar) ErrEOF \<or> trailingError (arRest ar) \<noteq> None then None else Some (maps, F)) t'"
    if "grafted f F t'" for maps F t'
    using refuses_raise [OF that, of c] that by (auto intro: wp_pure split: option.split)
  show ?thesis unfolding x u by (rule yields_then [OF yields_entries [OF f t]]) (rule fin)
qed

section \<open>Validating on a disk\<close>

lemma withDirs_more:
  "withDirs (insert m M) F = (if mIsDir m then withDir (elems m) (withDirs M F) else withDirs M F)"
  by (auto simp: withDirs_def withDir_def fun_eq_iff)

lemma withDirs_empty [simp]: "withDirs {} F = F"
  by (simp add: withDirs_def fun_eq_iff)

lemma withDirs_way:
  "fileOnWay (withDirs M F) p \<Longrightarrow> fileOnWay F p"
  by (auto simp: fileOnWay_iff withDirs_def split: if_splits)

text \<open>What is above an entry of an index is a directory of it.\<close>

lemma parents_chain:
  assumes m: "mapsOk (ids, paths)" and x: "x \<in> ran ids" and p: "prefix p (elems x)" "p \<noteq> []"
  shows "p = elems x \<or> (\<exists>d \<in> ran ids. mIsDir d \<and> elems d = p)"
  using x p
proof (induction "length (elems x)" arbitrary: x rule: less_induct)
  case less
  show ?case
  proof (cases "p = elems x")
    case False
    then have b: "prefix p (butlast (elems x))" using less.prems(2) by (metis butlast_prefix)
    with less.prems(3) obtain d where d: "d \<in> ran ids" "mIsDir d" "elems d = butlast (elems x)"
      using mapsOkD(2) [OF m] less.prems(1) by (auto simp: parentsOk_def)
    have "length (elems d) < length (elems x)"
      using b less.prems(3) d(3) by (metis False append_butlast_last_id butlast.simps(1) length_append_singleton lessI prefix_Nil)
    from less.hyps [OF this d(1)] b less.prems(3) d show ?thesis by auto
  qed simp
qed

lemma entry_unique: "mapsOk (ids, paths) \<Longrightarrow> x \<in> ran ids \<Longrightarrow> y \<in> ran ids \<Longrightarrow> elems x = elems y \<Longrightarrow> x = y"
  using mapsOkD(1) by (auto simp: entriesOk_def)

lemma file_not_above:
  assumes m: "mapsOk (ids, paths)" and x: "x \<in> ran ids" "\<not> mIsDir x" and y: "y \<in> ran ids" "mIsDir y"
  shows "\<not> prefix (elems x) (elems y)"
proof
  assume p: "prefix (elems x) (elems y)"
  have "validEntry x" using ran_entry [OF mapsOkD(1) [OF m] x(1)] by simp
  then have "elems x \<noteq> []" by (rule validEntry_shape(2))
  from parents_chain [OF m y(1) p this] x y entry_unique [OF m] show False by metis
qed

lemma wp_validateDirs:
  assumes f: "okF f" and t: "grafted f F t" and m: "mapsOk (ids, paths)" and metas: "set metas = ran ids"
    and ref: "\<not> dirsFit (ran ids) F \<Longrightarrow> refused"
  shows "wp c (forA (\<lambda>meta. bindA (liftA (rootPath (tx ''new'') (relative (mPath meta)))) (\<lambda>p.
        bindA (if mIsDir meta then osMkdirAll p else pureA ()) (\<lambda>_. bindA (osStat p) (\<lambda>_. pureA ())))) metas)
     (\<lambda>_ t'. dirsFit (ran ids) F \<and> grafted f (withDirs (ran ids) F) t') (abortsIn c refused (unpacking f)) (stopsIn c (unpacking f)) t"
proof (rule wp_for [where I = "\<lambda>rest t'. \<exists>gone. metas = gone @ rest \<and> dirsFit (set gone) F \<and> grafted f (withDirs (set gone) F) t'"])
  show "\<exists>gone. metas = gone @ metas \<and> dirsFit (set gone) F \<and> grafted f (withDirs (set gone) F) t"
    using t by (simp add: dirsFit_def)
  show "dirsFit (ran ids) F \<and> grafted f (withDirs (ran ids) F) t'"
    if "\<exists>gone. metas = gone @ [] \<and> dirsFit (set gone) F \<and> grafted f (withDirs (set gone) F) t'" for t'
    using that metas by auto
  fix x rest t'
  assume "\<exists>gone. metas = gone @ x # rest \<and> dirsFit (set gone) F \<and> grafted f (withDirs (set gone) F) t'"
  then obtain gone where g: "metas = gone @ x # rest" "dirsFit (set gone) F" "grafted f (withDirs (set gone) F) t'" by blast
  have xr: "x \<in> ran ids" and gr: "set gone \<subseteq> ran ids" using metas g(1) by auto
  have v: "validEntry x" using ran_entry [OF mapsOkD(1) [OF m] xr] by simp
  note vs = validEntry_shape [OF v]
  let ?p = "tx ''new'' @ elems x" and ?G = "withDirs (set gone) F"
  let ?post = "\<lambda>t'. \<exists>gone. metas = gone @ rest \<and> dirsFit (set gone) F \<and> grafted f (withDirs (set gone) F) t'"
  have r: "rootPath (tx ''new'') (relative (mPath x)) = Inr ?p"
    using goodName_root [OF visible_good [OF vs(1,2)]] relative_entry [OF v] by simp
  have stat: "wp c (bindA (osStat ?p) (\<lambda>_. pureA ())) (\<lambda>_. ?post) (abortsIn c refused (unpacking f)) (stopsIn c (unpacking f)) t1"
    if t1: "grafted f (withDirs (insert x (set gone)) F) t1" and way: "mIsDir x \<Longrightarrow> \<not> fileOnWay F (elems x)" for t1
  proof -
    have at: "nodeAt t1 ?p = withDirs (insert x (set gone)) F (elems x)" using t1 by (auto simp: grafted_def)
    have "refused" if n: "withDirs (insert x (set gone)) F (elems x) = None"
    proof (rule ref)
      have "\<not> mIsDir x" using n by (auto simp: withDirs_def)
      then have "withDirs (ran ids) F (elems x) = None"
        using n file_not_above [OF m xr] by (auto simp: withDirs_def split: if_splits)
      then show "\<not> dirsFit (ran ids) F" using xr by (auto simp: dirsFit_def)
    qed
    moreover have "?post t1" if n: "withDirs (insert x (set gone)) F (elems x) \<noteq> None"
    proof (intro exI conjI)
      show "metas = (gone @ [x]) @ rest" using g(1) by simp
      show "dirsFit (set (gone @ [x])) F"
        using g(2) n way by (auto simp: dirsFit_def withDirs_def split: if_splits)
      show "grafted f (withDirs (set (gone @ [x])) F) t1" using t1 by simp
    qed
    ultimately show ?thesis
      unfolding osStat_def by (intro wp_bind wp_read wp_pure faultyI)
        (use grafted_unpacking [OF t1] at in \<open>auto simp: abortsIn_def stopsIn_def treeStat_def split: option.splits\<close>)
  qed
  show "wp c (bindA (liftA (rootPath (tx ''new'') (relative (mPath x)))) (\<lambda>p.
        bindA (if mIsDir x then osMkdirAll p else pureA ()) (\<lambda>_. bindA (osStat p) (\<lambda>_. pureA ()))))
     (\<lambda>_. ?post) (abortsIn c refused (unpacking f)) (stopsIn c (unpacking f)) t'"
  proof (cases "mIsDir x")
    case True
    have way: "fileOnWay ?G (elems x) \<longleftrightarrow> fileOnWay F (elems x)"
    proof
      assume "fileOnWay F (elems x)"
      then obtain q b where q: "prefix q (elems x)" "F q = Some (RegNode b)" by (auto simp: fileOnWay_iff)
      then have "?G q = Some (RegNode b)" using g(2) by (auto simp: dirsFit_def withDirs_def fileOnWay_iff)
      with q(1) show "fileOnWay ?G (elems x)" by (auto simp: fileOnWay_iff)
    qed (rule withDirs_way)
    have mk: "wp c (osMkdirAll ?p) (\<lambda>_ t'. \<not> fileOnWay ?G (elems x) \<and> grafted f (withDir (elems x) ?G) t')
        (abortsIn c refused (unpacking f)) (stopsIn c (unpacking f)) t'"
      by (rule wp_mono [OF wp_staged_mkdir [OF f g(3), of c "elems x"]])
        (use way ref xr True in \<open>auto simp: abortsIn_def dirsFit_def\<close>)
    show ?thesis
      using r True by simp (rule wp_then [OF mk], rule stat, use way withDirs_more [of x "set gone" F] in auto)
  next
    case False
    then have "withDirs (insert x (set gone)) F = ?G" by (simp add: withDirs_more)
    with stat g(3) False r show ?thesis by (simp add: wp_bind wp_pure)
  qed
qed

lemma wp_validateWalk:
  assumes t: "grafted f F t" and ref: "\<not> walkFits paths F \<Longrightarrow> refused"
  shows "wp c (bindA (readA (\<lambda>t. Inr (map (\<lambda>p. (p, the (nodeAt t p))) (treeWalk t (tx ''new'')))))
       (forA (validateEntry paths (tx ''new''))))
     (\<lambda>_ t'. walkFits paths F \<and> grafted f F t') (abortsIn c refused (unpacking f)) (stopsIn c (unpacking f)) t"
proof -
  have tk: "tree_ok t" "nodeAt t = graft f F" "F [] = Some DirNode" using t by (auto simp: grafted_def)
  let ?items = "map (\<lambda>p. (p, the (nodeAt t p))) (treeWalk t (tx ''new''))"
  have it: "set ?items = {(tx ''new'' @ p, n) | p n. F p = Some n}"
    using treeWalk_nodes [OF tk(1), of "tx ''new''"] tk by (force simp: prefix_def image_iff)
  let ?ok = "\<lambda>p n. p = [] \<or> p = [IndexFileName] \<or> (\<exists>meta. paths (keyOf p n) = Some meta \<and> matchesEntry meta n)"
  let ?good = "\<lambda>x. \<exists>p n. x = (tx ''new'' @ p, n) \<and> ?ok p n"
  have all: "walkFits paths F \<longleftrightarrow> (\<forall>x \<in> set ?items. ?good x)" unfolding it walkFits_def by (simp, blast)
  have P: "unpacking f t" by (rule grafted_unpacking [OF t])
  let ?I = "\<lambda>rest t'. t' = t \<and> (\<exists>gone. ?items = gone @ rest \<and> (\<forall>x \<in> set gone. ?good x))"
  have "wp c (forA (validateEntry paths (tx ''new'')) ?items) (\<lambda>_ t'. walkFits paths F \<and> grafted f F t')
      (abortsIn c refused (unpacking f)) (stopsIn c (unpacking f)) t"
  proof (rule wp_for [where I = ?I])
    fix x rest t' assume i: "?I (x # rest) t'"
    then obtain gone where g: "?items = gone @ x # rest" "\<forall>x \<in> set gone. ?good x" by blast
    then have "x \<in> set ?items" by simp
    then obtain p n where x: "x = (tx ''new'' @ p, n)" "F p = Some n" unfolding it by auto
    have ok: "?good x \<Longrightarrow> ?I rest t" using g by (intro conjI exI [of _ "gone @ [x]"]) auto
    have bad: "\<not> ?good x \<Longrightarrow> refused" using ref all g(1) by auto
    have at: "treeStat (tx ''new'' @ p) t = Inr n" using tk(2) x(2) by (simp add: treeStat_def)
    have name: "drop (length (tx ''new'')) (tx ''new'' @ p) = p" "drop 2 (tx ''new'' @ p) = p" by (simp_all add: tx_def)
    have ok': "?ok p n \<Longrightarrow> ?I rest t" and bad': "\<not> ?ok p n \<Longrightarrow> refused" using ok bad unfolding x(1) by auto
    have step: "validateEntry paths (tx ''new'') x = (if p = [] \<or> p = [IndexFileName] then pureA () else (case paths (keyOf p n) of
        None \<Rightarrow> raiseA (ErrOther ''unindexed restored entry'')
      | Some meta \<Rightarrow> bindA (osStat (tx ''new'' @ p)) (\<lambda>info. if \<not> matchesEntry meta info
          then raiseA (ErrOther ''restored file does not match index'') else pureA ())))"
      unfolding validateEntry_def x(1) prod.case Let_def name keyOf_def ..
    show "wp c (validateEntry paths (tx ''new'') x) (\<lambda>_. ?I rest) (abortsIn c refused (unpacking f)) (stopsIn c (unpacking f)) t'"
    proof (cases "p = [] \<or> p = [IndexFileName]")
      case True
      then show ?thesis using ok' i unfolding step by (auto intro!: wp_pure)
    next
      case False
      show ?thesis
      proof (cases "paths (keyOf p n)")
        case None
        then have refused using bad' False by auto
        then show ?thesis using refuses_raise [OF t, of c] i False None unfolding step by simp
      next
        case (Some meta)
        have m: "\<not> matchesEntry meta n \<Longrightarrow> refused" using bad' False Some by auto
        have m': "matchesEntry meta n \<Longrightarrow> ?I rest t" using ok' Some by blast
        have "wp c (bindA (osStat (tx ''new'' @ p)) (\<lambda>info. if \<not> matchesEntry meta info
            then raiseA (ErrOther ''restored file does not match index'') else pureA ())) (\<lambda>_. ?I rest)
            (abortsIn c refused (unpacking f)) (stopsIn c (unpacking f)) t"
          unfolding osStat_def
          by (intro wp_bind wp_read faultyI; cases "matchesEntry meta n")
            (use at m m' P in \<open>auto simp: abortsIn_def stopsIn_def intro!: wp_pure wp_raise\<close>)
        then show ?thesis using i False Some unfolding step by simp
      qed
    qed
  qed (use t all in auto)
  then show ?thesis
    by (intro wp_bind wp_read faultyI) (use P in \<open>auto simp: abortsIn_def stopsIn_def\<close>)
qed

lemma wp_validateRestored:
  assumes f: "okF f" and t: "grafted f F t" and E: "orderOk E" and m: "mapsOk maps"
    and ref: "\<not> (dirsFit (ran (fst maps)) F \<and> walkFits (snd maps) (withDirs (ran (fst maps)) F)) \<Longrightarrow> refused"
  shows "wp c (validateRestoredFiles E (tx ''new'') maps)
     (\<lambda>_ t'. dirsFit (ran (fst maps)) F \<and> walkFits (snd maps) (withDirs (ran (fst maps)) F)
        \<and> grafted f (withDirs (ran (fst maps)) F) t') (abortsIn c refused (unpacking f)) (stopsIn c (unpacking f)) t"
proof -
  obtain ids paths where maps: "maps = (ids, paths)" by fastforce
  have mo: "mapsOk (ids, paths)" using m by (simp add: maps)
  have metas: "set (metasOf E ids) = ran ids"
    using metasOf_set [OF E] mapsOkD(1) [OF mo] by (simp add: entriesOk_def)
  have tk: "nodeAt t (tx ''new'') = Some DirNode" using t by (auto simp: grafted_def)
  have top: "wp c (osStat (tx ''new'')) (\<lambda>_ t'. t' = t) (abortsIn c refused (unpacking f)) (stopsIn c (unpacking f)) t"
    unfolding osStat_def by (intro wp_read faultyI)
      (use tk grafted_unpacking [OF t] in \<open>auto simp: treeStat_def abortsIn_def stopsIn_def\<close>)
  show ?thesis
    unfolding validateRestoredFiles_def maps fst_conv snd_conv
  proof (rule wp_then [OF top])
    fix n t' assume "t' = t"
    show "wp c (bindA (forA (\<lambda>meta. bindA (liftA (rootPath (tx ''new'') (relative (mPath meta)))) (\<lambda>p.
        bindA (if mIsDir meta then osMkdirAll p else pureA ()) (\<lambda>_. bindA (osStat p) (\<lambda>_. pureA ())))) (metasOf E ids))
        (\<lambda>_. bindA (readA (\<lambda>t. Inr (map (\<lambda>p. (p, the (nodeAt t p))) (treeWalk t (tx ''new''))))) (forA (validateEntry paths (tx ''new'')))))
      (\<lambda>_ t'. dirsFit (ran ids) F \<and> walkFits paths (withDirs (ran ids) F) \<and> grafted f (withDirs (ran ids) F) t')
      (abortsIn c refused (unpacking f)) (stopsIn c (unpacking f)) t'"
    proof (rule wp_then [OF wp_validateDirs [OF f _ mo metas, where F = F and refused = refused]])
      show "grafted f F t'" using t \<open>t' = t\<close> by simp
      show "\<not> dirsFit (ran ids) F \<Longrightarrow> refused" using ref by (simp add: maps)
      fix u t1 assume d: "dirsFit (ran ids) F \<and> grafted f (withDirs (ran ids) F) t1"
      then show "wp c (bindA (readA (\<lambda>t. Inr (map (\<lambda>p. (p, the (nodeAt t p))) (treeWalk t (tx ''new''))))) (forA (validateEntry paths (tx ''new''))))
          (\<lambda>_ t'. dirsFit (ran ids) F \<and> walkFits paths (withDirs (ran ids) F) \<and> grafted f (withDirs (ran ids) F) t')
          (abortsIn c refused (unpacking f)) (stopsIn c (unpacking f)) t1"
        by (intro wp_mono [OF wp_validateWalk [of f _ t1 paths refused c]]) (use ref in \<open>auto simp: maps\<close>)
    qed
  qed
qed

text \<open>The maps an archive yields are those of an index.\<close>

definition decodesText :: "ls_env \<Rightarrow> bool" where
  "decodesText E \<longleftrightarrow> (\<forall>data metas. leDecIndex E data = Inr metas \<longrightarrow> list_all textMeta metas)"

definition readMaps :: "ls_env \<Rightarrow> ls_maps \<Rightarrow> bool" where
  "readMaps E maps \<longleftrightarrow> mapsOk maps \<and> (decodesText E \<longrightarrow> (\<forall>m \<in> ran (fst maps). textMeta m))"

lemma readIndex_maps:
  assumes E: "orderOk E" and r: "readIndex E data = Inr maps"
  shows "readMaps E maps"
proof -
  from r obtain metas where m: "leDecIndex E data = Inr metas" "distinct (map mID metas)" "fst maps = idsOf metas" "mapsOk maps"
    unfolding readIndex_exact_core [OF E] by blast
  then show ?thesis using idsOf_ran [OF m(2)] by (auto simp: readMaps_def decodesText_def list_all_iff)
qed

text \<open>Properties that every entry keeps.\<close>

lemma unpack_invariant:
  assumes step: "\<And>h rd st st'. unpackEntry E h rd st = Some st' \<Longrightarrow> P st \<Longrightarrow> P st'"
    and start: "P ((Map.empty, Map.empty), emptyTree)"
  shows "unpack E dec r = Some st \<Longrightarrow> P st"
proof -
  have "unpackEntries E es st = Some st' \<Longrightarrow> P st \<Longrightarrow> P st'" for es st st'
  proof (induction es arbitrary: st)
    case (Cons e es)
    obtain h rd where e: "e = (h, rd)" by fastforce
    with Cons.prems(1) obtain st1 where "unpackEntry E h rd st = Some st1" "unpackEntries E es st1 = Some st'"
      by (auto simp: bind_eq_Some_conv)
    with Cons.IH step Cons.prems(2) show ?case by blast
  qed simp
  with start show "unpack E dec r = Some st \<Longrightarrow> P st"
    by (auto simp: unpack_def split: sum.splits if_splits)
qed

lemma unpack_maps:
  assumes E: "orderOk E" and u: "unpack E dec r = Some (maps, F)"
  shows "readMaps E maps"
proof -
  have "readMaps E (fst (maps, F))"
  proof (rule unpack_invariant [OF _ _ u])
    show "unpackEntry E h rd st = Some st' \<Longrightarrow> readMaps E (fst st) \<Longrightarrow> readMaps E (fst st')" for h rd st st'
      using readIndex_maps [OF E] by (auto simp: unpackEntry_def Let_def split: prod.splits if_splits sum.splits)
  qed (simp add: readMaps_def mapsOk_def entriesOk_def parentsOk_def)
  then show ?thesis by simp
qed

text \<open>What fits is exactly the index and its files.\<close>

definition properTree :: "tfun \<Rightarrow> bool" where
  "properTree F \<longleftrightarrow> (\<forall>p. F p \<noteq> None \<longrightarrow> list_all properElem p)"

lemma proper_prefix: "list_all properElem p \<Longrightarrow> prefix q p \<Longrightarrow> list_all properElem q"
  by (auto simp: prefix_def)

lemma butlast_prefix': "prefix (butlast p) p"
  by (cases p rule: rev_cases) auto

lemma unpack_proper:
  assumes u: "unpack E dec r = Some (maps, F)"
  shows "properTree F"
proof -
  have "properTree (snd (maps, F))"
  proof (rule unpack_invariant [OF _ _ u])
    fix h rd st st' assume s: "unpackEntry E h rd st = Some st'" and F: "properTree (snd st)"
    show "properTree (snd st')"
    proof (cases "hdName h = IndexFileName")
      case True
      then show ?thesis using s F IndexFileName_proper
        by (auto simp: unpackEntry_def properTree_def split: prod.splits if_splits sum.splits)
    next
      case False
      then obtain clean where c: "storagePath (hdName h) (hdType h = TypeDir) = Inr clean" "clean \<noteq> ''/''"
        using s by (auto simp: unpackEntry_def Let_def split: prod.splits if_splits sum.splits)
      have "list_all properElem (elemsOf clean)" using storagePath_elems(1) [OF c] by (simp add: visible_def)
      with proper_prefix [OF this] proper_prefix [OF proper_prefix [OF this butlast_prefix']] F s False c(1) show ?thesis
        by (auto simp: unpackEntry_def properTree_def withDir_def Let_def split: prod.splits if_splits)
    qed
  qed (simp add: properTree_def emptyTree_def)
  then show ?thesis by simp
qed

lemma unpack_root:
  assumes u: "unpack E dec r = Some (maps, F)"
  shows "F [] = Some DirNode"
proof -
  have "snd (maps, F) [] = Some DirNode"
  proof (rule unpack_invariant [OF _ _ u])
    fix h rd st st' assume s: "unpackEntry E h rd st = Some st'" and F: "snd st [] = Some DirNode"
    have e: "storagePath (hdName h) d = Inr clean \<Longrightarrow> clean \<noteq> ''/'' \<Longrightarrow> elemsOf clean \<noteq> []" for d clean
      by (rule storagePath_elems(2))
    from s F show "snd st' [] = Some DirNode"
      by (auto simp: unpackEntry_def withDir_def Let_def dest: e split: prod.splits if_splits sum.splits)
  qed (simp add: emptyTree_def)
  then show ?thesis by simp
qed

lemma fits_shape:
  assumes m: "mapsOk (ids, paths)" and w: "walkFits paths F" and pr: "properTree F"
    and p: "F p = Some n" "p \<noteq> []" "p \<noteq> [IndexFileName]"
  shows "\<exists>m \<in> ran ids. elems m = p \<and> matchesEntry m n"
proof -
  from w p obtain meta where k: "paths (keyOf p n) = Some meta" "matchesEntry meta n" by (auto simp: walkFits_def)
  then have r: "meta \<in> ran ids" "mPath meta = keyOf p n" using mapsOkD(3) [OF m] by auto
  have l: "list_all properElem p" using pr p(1) by (auto simp: properTree_def)
  have "keyOf p n = pathOf p (n = DirNode)" using p(2) by (simp add: keyOf_def pathOf_def nameOf_def)
  then have "elems meta = p" using elemsOf_pathOf [OF l] by (simp add: r(2))
  with r(1) k(2) show ?thesis by blast
qed

end
