(* ===== verification/Local_Load.thy ===== *)
theory Local_Load
  imports Local_Unpack Local_Change
begin

text \<open>
  \<open>Load\<close> of the local driver as a transaction: the old entries of the storage directory are moved into
  the transaction directory and the unpacked ones out of it. Its stage prepares moves that can be
  undone, and the tree they lead to holds exactly the files of the archive.
\<close>

section \<open>Moves that do not meet\<close>

fun apartAll :: "(dpath \<times> dpath) list \<Rightarrow> bool" where
  "apartAll [] \<longleftrightarrow> True"
| "apartAll ((a, b) # ms) \<longleftrightarrow> apart a b \<and> (\<forall>(a', b') \<in> set ms. apart a a' \<and> apart b b' \<and> apart a b' \<and> apart b a') \<and> apartAll ms"

lemma moved_beside:
  assumes "\<forall>(a, b) \<in> set ms. \<not> prefix a p \<and> \<not> prefix b p"
  shows "moved f ms p = f p"
  using assms by (induction ms arbitrary: f) (auto simp: treeRenamed_outside)

lemma moved_away:
  assumes "apartAll ms" and "(a, b) \<in> set ms" and "prefix a p"
  shows "moved f ms p = None"
  using assms
proof (induction ms arbitrary: f)
  case (Cons m ms)
  obtain a1 b1 where m: "m = (a1, b1)" by fastforce
  show ?case
  proof (cases "(a, b) = (a1, b1)")
    case True
    with Cons.prems have "\<forall>(a', b') \<in> set ms. \<not> prefix a' p \<and> \<not> prefix b' p"
      using apart_not_both by (fastforce simp: m)
    then have "moved (treeRenamed a b f) ms p = treeRenamed a b f p" by (rule moved_beside)
    with True Cons.prems show ?thesis by (simp add: m treeRenamed_source)
  next
    case False
    with Cons show ?thesis by (auto simp: m)
  qed
qed simp

lemma moved_onto:
  assumes "apartAll ms" and "(a, b) \<in> set ms"
  shows "moved f ms (b @ q) = f (a @ q)"
  using assms
proof (induction ms arbitrary: f)
  case (Cons m ms)
  obtain a1 b1 where m: "m = (a1, b1)" by fastforce
  show ?case
  proof (cases "(a, b) = (a1, b1)")
    case True
    with Cons.prems have "\<forall>(a', b') \<in> set ms. \<not> prefix a' (b @ q) \<and> \<not> prefix b' (b @ q)"
      using apart_not_both [of b _ "b @ q"] by (fastforce simp: m)
    then have "moved (treeRenamed a b f) ms (b @ q) = treeRenamed a b f (b @ q)" by (rule moved_beside)
    with True show ?thesis by (simp add: m treeRenamed_target)
  next
    case False
    with Cons.prems have ab: "(a, b) \<in> set ms" "apartAll ms" "apart a1 a" "apart b1 a" by (auto simp: m)
    from Cons.IH [OF ab(2,1)] have "moved f (m # ms) (b @ q) = treeRenamed a1 b1 f (a @ q)" by (simp add: m)
    also have "\<dots> = f (a @ q)"
      using apart_not_both [OF apart_sym [OF ab(3)], of "a @ q"] apart_not_both [OF apart_sym [OF ab(4)], of "a @ q"]
      by (intro treeRenamed_outside) auto
    finally show ?thesis .
  qed
qed simp

lemma plan_apart:
  assumes "apartAll ms"
    and "\<forall>(a, b) \<in> set ms. f a \<noteq> None \<and> f b = None \<and> f (butlast b) = Some DirNode \<and> untouched a \<and> untouched b
      \<and> (\<forall>(a', b') \<in> set ms. \<not> prefix a' (butlast b) \<and> \<not> prefix b' (butlast b))"
  shows "plan_ok f ms"
  using assms
proof (induction ms arbitrary: f)
  case (Cons m ms)
  obtain a b where m: "m = (a, b)" by fastforce
  have same: "treeRenamed a b f a' = f a' \<and> treeRenamed a b f b' = f b' \<and> treeRenamed a b f (butlast b') = f (butlast b')"
    if "(a', b') \<in> set ms" for a' b'
  proof -
    from that Cons.prems(1) have ap: "apart a a'" "apart b b'" "apart a b'" "apart b a'" by (auto simp: m)
    have "\<not> prefix a a'" "\<not> prefix b a'" "\<not> prefix a b'" "\<not> prefix b b'" using ap by (auto simp: apart_def)
    moreover have "\<not> prefix a (butlast b')" "\<not> prefix b (butlast b')" using that Cons.prems(2) by (auto simp: m)
    ultimately show ?thesis by (simp add: treeRenamed_outside)
  qed
  have "plan_ok (treeRenamed a b f) ms"
    by (rule Cons.IH) (use Cons.prems same in \<open>fastforce simp: m\<close>)+
  with Cons.prems show ?case by (auto simp: m)
qed simp

lemma plan_append:
  assumes "plan_ok f ms" and "plan_ok (moved f ms) ms'"
    and "\<forall>(a, b) \<in> set ms. \<forall>(a', b') \<in> set ms'. \<not> prefix a a' \<and> \<not> prefix b a'" and "\<forall>(a', b') \<in> set ms'. f a' \<noteq> None"
  shows "plan_ok f (ms @ ms')"
  using assms
proof (induction f ms rule: plan_ok.induct)
  case (2 f a b ms)
  have "treeRenamed a b f a' = f a'" if "(a', b') \<in> set ms'" for a' b'
    using that 2(4) by (intro treeRenamed_outside) auto
  then have "\<forall>(a', b') \<in> set ms'. treeRenamed a b f a' \<noteq> None" using 2(5) by auto
  with 2 show ?case by auto
qed simp

section \<open>The names of a directory\<close>

lemma treeNames_set: "tree_ok t \<Longrightarrow> set (treeNames t p) = {x. nodeAt t (p @ [x]) \<noteq> None}"
proof -
  assume t: "tree_ok t"
  have "x \<in> set (treeNames t p) \<longleftrightarrow> p @ [x] \<in> fst ` set t" for x
  proof
    assume "x \<in> set (treeNames t p)"
    then obtain q where q: "q \<in> fst ` set t" "q \<noteq> []" "butlast q = p" "last q = x" by (auto simp: treeNames_def)
    then have "q = p @ [x]" by (metis append_butlast_last_id)
    with q(1) show "p @ [x] \<in> fst ` set t" by simp
  next
    assume "p @ [x] \<in> fst ` set t"
    then show "x \<in> set (treeNames t p)" by (force simp: treeNames_def image_iff)
  qed
  then show ?thesis using map_of_eq_None_iff [of t] by (auto simp: nodeAt_def)
qed

lemma treeNames_distinct: "distinct (treeNames t p)"
  by (simp add: treeNames_def)

section \<open>The moves of a load\<close>

definition oldMoves :: "string list \<Rightarrow> (dpath \<times> dpath) list" where
  "oldMoves names = map (\<lambda>(i, x). ([x], tx (''old-'' @ formatUint i)))
     (filter (\<lambda>(i, x). x \<noteq> transactionDir \<and> x \<noteq> IndexFileName) (enumerate 0 names))"

definition newMoves :: "string list \<Rightarrow> (dpath \<times> dpath) list" where
  "newMoves next = map (\<lambda>x. (tx ''new'' @ [x], [x])) (filter (\<lambda>x. x \<noteq> IndexFileName) next)"

lemma nameOf_new: "nameOf (tx ''new'' @ [x]) = inTransaction (''new/'' @ x)"
  by (simp add: nameOf_def tx_def inTransaction_def)

lemma nameOf_single: "nameOf [x] = x"
  by (simp add: nameOf_def)

lemma load_moves:
  "movesOf (oldMoves names @ newMoves next) =
     map oldMove (filter (\<lambda>(i, name). name \<noteq> transactionDir \<and> name \<noteq> IndexFileName) (enumerate 0 names))
     @ map newMove (filter (\<lambda>name. name \<noteq> IndexFileName) next)"
  by (simp add: movesOf_def oldMoves_def newMoves_def comp_def oldMove_def newMove_def nameOf_tx nameOf_new nameOf_single
      split_beta)

lemma oldMoves_set: "m \<in> set (oldMoves names) \<longleftrightarrow> (\<exists>i < length names. names ! i \<noteq> transactionDir \<and> names ! i \<noteq> IndexFileName
    \<and> m = ([names ! i], tx (''old-'' @ formatUint i)))"
  by (auto simp: oldMoves_def in_set_enumerate_eq image_iff)

lemma newMoves_set: "m \<in> set (newMoves next) \<longleftrightarrow> (\<exists>x \<in> set next. x \<noteq> IndexFileName \<and> m = (tx ''new'' @ [x], [x]))"
  by (auto simp: newMoves_def image_iff)

lemma apartAll_map:
  assumes "distinct xs" and "\<And>x. x \<in> set xs \<Longrightarrow> apart (a x) (b x)"
    and "\<And>x y. x \<in> set xs \<Longrightarrow> y \<in> set xs \<Longrightarrow> x \<noteq> y \<Longrightarrow> apart (a x) (a y) \<and> apart (b x) (b y) \<and> apart (a x) (b y)"
  shows "apartAll (map (\<lambda>x. (a x, b x)) xs)"
  using assms by (induction xs) (auto intro: apart_sym)

lemma apart_single [simp]: "apart [x] [y] \<longleftrightarrow> x \<noteq> y" "apart [x] (tx y) \<longleftrightarrow> x \<noteq> transactionDir"
  "apart (tx z @ [x]) [y] \<longleftrightarrow> y \<noteq> transactionDir" "apart (tx z @ [x]) (tx z @ [y]) \<longleftrightarrow> x \<noteq> y"
  by (auto simp: apart_def tx_def)

lemma oldMoves_apart: "distinct names \<Longrightarrow> apartAll (oldMoves names)"
proof -
  assume d: "distinct names"
  have e: "oldMoves names = map (\<lambda>z. ([snd z], tx (''old-'' @ formatUint (fst z))))
      (filter (\<lambda>(i, x). x \<noteq> transactionDir \<and> x \<noteq> IndexFileName) (enumerate 0 names))"
    by (simp add: oldMoves_def split_beta)
  have ne: "snd y \<noteq> snd z \<and> formatUint (fst y) \<noteq> formatUint (fst z)" if "y \<in> set (enumerate 0 names)" "z \<in> set (enumerate 0 names)" "y \<noteq> z" for y z
  proof -
    have "names ! fst y = snd y" "names ! fst z = snd z" "fst y < length names" "fst z < length names"
      using that(1,2) by (simp_all add: in_set_enumerate_eq)
    with d that(3) show ?thesis by (metis formatUint_inj nth_eq_iff_index_eq prod.expand)
  qed
  show ?thesis
    unfolding e
  proof (intro apartAll_map distinct_filter distinct_enumerate)
    fix y z assume "y \<in> set (filter (\<lambda>(i, x). x \<noteq> transactionDir \<and> x \<noteq> IndexFileName) (enumerate 0 names))"
      "z \<in> set (filter (\<lambda>(i, x). x \<noteq> transactionDir \<and> x \<noteq> IndexFileName) (enumerate 0 names))" "y \<noteq> z"
    then have "y \<in> set (enumerate 0 names)" "z \<in> set (enumerate 0 names)" "y \<noteq> z" "snd y \<noteq> transactionDir" by auto
    with ne [OF this(1-3)]
    show "apart [snd y] [snd z] \<and> apart (tx (''old-'' @ formatUint (fst y))) (tx (''old-'' @ formatUint (fst z)))
        \<and> apart [snd y] (tx (''old-'' @ formatUint (fst z)))" by simp
  qed auto
qed

lemma newMoves_apart:
  assumes "distinct next" and "transactionDir \<notin> set next"
  shows "apartAll (newMoves next)"
  unfolding newMoves_def by (intro apartAll_map distinct_filter assms(1)) (use assms(2) in auto)

section \<open>The tree of a load\<close>

text \<open>The names in a storage directory, its own and foreign ones, which a journal can name.\<close>

definition tidy :: "tfun \<Rightarrow> bool" where
  "tidy f \<longleftrightarrow> (\<forall>x. f [x] \<noteq> None \<longrightarrow> goodName [x] \<and> utf8 x)"

definition topNames :: "tfun \<Rightarrow> bool" where
  "topNames G \<longleftrightarrow> (\<forall>x. G [x] \<noteq> None \<longrightarrow> x \<noteq> IndexFileName \<longrightarrow> visible [x])"

lemma visible_single: "visible [x] \<Longrightarrow> x \<noteq> transactionDir \<and> x \<noteq> IndexFileName \<and> untouched [x] \<and> goodName [x]"
  using visible_apart [of "[x]"] visible_good [of "[x]"] by (auto simp: tT_def)

lemma graft_okF: "okF (graft f G) \<Longrightarrow> G [] = Some DirNode \<Longrightarrow> okF G"
  unfolding okF_def
proof (intro conjI allI impI)
  fix p assume g: "graft f G [] = Some DirNode \<and> (\<forall>p. graft f G p \<noteq> None \<longrightarrow> p \<noteq> [] \<longrightarrow> graft f G (butlast p) = Some DirNode)"
    and p: "G p \<noteq> None" "p \<noteq> []"
  then have "graft f G (butlast (tx ''new'' @ p)) = Some DirNode" by simp
  then show "G (butlast p) = Some DirNode" using p(2) by (simp add: butlast_append)
qed simp

lemma load_plan:
  assumes f: "noStaging f" "okF f" and G: "G [] = Some DirNode" "topNames G"
    and names: "distinct names" "set names = {x. f [x] \<noteq> None \<or> x = transactionDir}"
    and nxt: "distinct next" "set next = {x. G [x] \<noteq> None}"
  shows "plan_ok (graft f G) (oldMoves names @ newMoves next)"
proof (rule plan_append)
  let ?g = "graft f G" and ?h = "moved (graft f G) (oldMoves names)"
  have g1: "x \<noteq> transactionDir \<Longrightarrow> ?g [x] = f [x]" for x by (rule graft_other(1)) (simp add: tT_def)
  have gtx: "x \<noteq> ''new'' \<Longrightarrow> ?g (tx x) = None" for x
    using graft_other(2) [of x f G "[]"] noStaging_tx(1) [OF f(1)] by simp
  have old: "x \<noteq> transactionDir \<Longrightarrow> x \<noteq> IndexFileName \<Longrightarrow> untouched [x]" for x
    by (auto simp: untouched_def)
  show "plan_ok ?g (oldMoves names)"
  proof (rule plan_apart [OF oldMoves_apart [OF names(1)]], intro ballI, clarify)
    fix a b assume "(a, b) \<in> set (oldMoves names)"
    then obtain i where i: "i < length names" "names ! i \<noteq> transactionDir" "names ! i \<noteq> IndexFileName" "a = [names ! i]"
      "b = tx (''old-'' @ formatUint i)" by (auto simp: oldMoves_set)
    have "f a \<noteq> None" using names(2) nth_mem [OF i(1)] i(2) by (auto simp: i(4))
    moreover have "untouched b" unfolding i(5) by (rule untouched_tx) simp_all
    moreover have "\<forall>(a', b') \<in> set (oldMoves names). \<not> prefix a' tT \<and> \<not> prefix b' tT"
      by (auto simp: oldMoves_set tT_def tx_def)
    ultimately show "?g a \<noteq> None \<and> ?g b = None \<and> ?g (butlast b) = Some DirNode \<and> untouched a \<and> untouched b
        \<and> (\<forall>(a', b') \<in> set (oldMoves names). \<not> prefix a' (butlast b) \<and> \<not> prefix b' (butlast b))"
      using i g1 gtx old graft_other(3) by (simp add: tT_def)
  qed
  have td: "transactionDir \<notin> set next" using G(2) visible_single [of transactionDir] nxt(2) by (auto simp: topNames_def)
  show "plan_ok ?h (newMoves next)"
  proof (rule plan_apart [OF newMoves_apart [OF nxt(1) td]], intro ballI, clarify)
    fix a b assume "(a, b) \<in> set (newMoves next)"
    then obtain x where x: "x \<in> set next" "x \<noteq> IndexFileName" "a = tx ''new'' @ [x]" "b = [x]" by (auto simp: newMoves_set)
    have v: "visible [x]" using x(1,2) G(2) nxt(2) by (auto simp: topNames_def)
    note vx = visible_single [OF v]
    have "\<forall>(a, b) \<in> set (oldMoves names). \<not> prefix a (tx ''new'' @ [x]) \<and> \<not> prefix b (tx ''new'' @ [x])"
      by (auto simp: oldMoves_set tx_def)
    from moved_beside [OF this, of ?g] have "?h a = G [x]" by (simp add: x(3))
    then have 1: "?h a \<noteq> None" using x(1) nxt(2) by simp
    have 2: "?h [x] = None"
    proof (cases "x \<in> set names")
      case True
      then obtain i where "i < length names" "names ! i = x" by (auto simp: in_set_conv_nth)
      then have "([x], tx (''old-'' @ formatUint i)) \<in> set (oldMoves names)" using vx by (auto simp: oldMoves_set)
      from moved_away [OF oldMoves_apart [OF names(1)] this, of "[x]"] show ?thesis by simp
    next
      case False
      then have "\<forall>(a, b) \<in> set (oldMoves names). \<not> prefix a [x] \<and> \<not> prefix b [x]" by (auto simp: oldMoves_set tx_def)
      from moved_beside [OF this, of ?g] False names(2) g1 [of x] vx show ?thesis by auto
    qed
    have "?h [] = ?g []" by (rule moved_beside) (auto simp: oldMoves_set tx_def)
    then have 3: "?h (butlast b) = Some DirNode" using f(2) by (simp add: x(4) okF_def)
    have 4: "untouched a" by (auto simp: untouched_def apart_def tx_def x(3))
    have 5: "\<forall>(a', b') \<in> set (newMoves next). \<not> prefix a' (butlast b) \<and> \<not> prefix b' (butlast b)"
      by (auto simp: newMoves_set x(4))
    show "?h a \<noteq> None \<and> ?h b = None \<and> ?h (butlast b) = Some DirNode \<and> untouched a \<and> untouched b
        \<and> (\<forall>(a', b') \<in> set (newMoves next). \<not> prefix a' (butlast b) \<and> \<not> prefix b' (butlast b))"
      using 1 2 3 4 5 vx by (simp add: x(4))
  qed
  show "\<forall>(a, b) \<in> set (oldMoves names). \<forall>(a', b') \<in> set (newMoves next). \<not> prefix a a' \<and> \<not> prefix b a'"
    by (auto simp: oldMoves_set newMoves_set tx_def)
  show "\<forall>(a', b') \<in> set (newMoves next). ?g a' \<noteq> None" using nxt(2) by (auto simp: newMoves_set)
qed

definition shaped :: "tfun \<Rightarrow> bool" where
  "shaped G \<longleftrightarrow> (\<forall>p. G p \<noteq> None \<longrightarrow> p = [] \<or> p = [IndexFileName] \<or> visible p)"

lemma shaped_top: "shaped G \<Longrightarrow> topNames G"
  by (auto simp: shaped_def topNames_def)

lemma load_final:
  assumes f: "noStaging f" "okF f" and ix: "f [IndexFileName] = None \<or> (\<exists>y. f [IndexFileName] = Some (RegNode y))"
    and G: "okF G" "shaped G"
    and names: "distinct names" "set names = {x. f [x] \<noteq> None \<or> x = transactionDir}"
    and nxt: "distinct next" "set next = {x. G [x] \<noteq> None}"
  shows "committedTree (graft f G) (oldMoves names @ newMoves next) data = G([IndexFileName] \<mapsto> RegNode data)"
proof
  fix p
  let ?g = "graft f G" and ?h = "moved (graft f G) (oldMoves names)"
  have hm: "moved ?g (oldMoves names @ newMoves next) = moved ?h (newMoves next)" by (simp add: moved_def)
  have td: "transactionDir \<notin> set next" using shaped_top [OF G(2)] visible_single [of transactionDir] nxt(2) by (auto simp: topNames_def)
  show "committedTree ?g (oldMoves names @ newMoves next) data p = (G([IndexFileName] \<mapsto> RegNode data)) p"
  proof (cases p)
    case Nil
    have "\<forall>(a, b) \<in> set (newMoves next). \<not> prefix a [] \<and> \<not> prefix b []" by (auto simp: newMoves_set tx_def)
    moreover have "\<forall>(a, b) \<in> set (oldMoves names). \<not> prefix a [] \<and> \<not> prefix b []" by (auto simp: oldMoves_set tx_def)
    ultimately have "moved ?h (newMoves next) [] = f []" using moved_beside [of _ "[]"] by simp
    then show ?thesis using f(2) G(1) by (simp add: Nil committedTree_def without_def hm tT_def okF_def)
  next
    case (Cons x q)
    have Gq: "G [x] = None \<Longrightarrow> G p = None" using okF_prefix [OF G(1), of p "[x]"] by (cases "G p") (auto simp: Cons)
    have fq: "f [x] = None \<Longrightarrow> f p = None" using okF_prefix [OF f(2), of p "[x]"] by (cases "f p") (auto simp: Cons)
    show ?thesis
    proof (cases "x = transactionDir")
      case True
      then have "G p = None" using Gq td nxt(2) by auto
      with True show ?thesis by (simp add: Cons committedTree_def without_def tT_def)
    next
      case nt: False
      have gp: "?g p = f p" using nt by (intro graft_other(1)) (simp add: tT_def Cons)
      have in_new: "moved ?h (newMoves next) p = G p" if "x \<in> set next" "x \<noteq> IndexFileName"
      proof -
        from that have "(tx ''new'' @ [x], [x]) \<in> set (newMoves next)" by (auto simp: newMoves_set)
        from moved_onto [OF newMoves_apart [OF nxt(1) td] this, of ?h q]
        have "moved ?h (newMoves next) p = ?h (tx ''new'' @ p)" by (simp add: Cons)
        moreover have "\<forall>(a, b) \<in> set (oldMoves names). \<not> prefix a (tx ''new'' @ p) \<and> \<not> prefix b (tx ''new'' @ p)"
          by (auto simp: oldMoves_set tx_def)
        from moved_beside [OF this, of ?g] have "?h (tx ''new'' @ p) = G p" by simp
        ultimately show ?thesis by simp
      qed
      have not_new: "moved ?h (newMoves next) p = ?h p" if "x \<notin> set next \<or> x = IndexFileName"
        by (rule moved_beside) (use that nt in \<open>auto simp: newMoves_set tx_def Cons\<close>)
      show ?thesis
      proof (cases "x = IndexFileName")
        case True
        have "?h p = f p"
          unfolding gp [symmetric] by (rule moved_beside) (use True in \<open>auto simp: oldMoves_set tx_def Cons\<close>)
        moreover have "q \<noteq> [] \<Longrightarrow> f p = None"
          using ix fq okF_file [OF f(2), of "[IndexFileName]" _ p] by (auto simp: Cons True strict_prefix_def)
        moreover have "q \<noteq> [] \<Longrightarrow> G p = None"
          using G(2) visible_hd [of p] reserved_names by (auto simp: shaped_def Cons True)
        ultimately show ?thesis
          using not_new True by (auto simp: committedTree_def without_def hm tT_def Cons)
      next
        case ni: False
        have "moved ?h (newMoves next) p = G p"
        proof (cases "x \<in> set next")
          case False
          have "?h p = None"
          proof (cases "x \<in> set names")
            case True
            then obtain i where "i < length names" "names ! i = x" by (auto simp: in_set_conv_nth)
            then have "([x], tx (''old-'' @ formatUint i)) \<in> set (oldMoves names)" using nt ni by (auto simp: oldMoves_set)
            from moved_away [OF oldMoves_apart [OF names(1)] this, of p] show ?thesis by (simp add: Cons)
          next
            case False
            then have "\<forall>(a, b) \<in> set (oldMoves names). \<not> prefix a p \<and> \<not> prefix b p" using nt by (auto simp: oldMoves_set tx_def Cons)
            from moved_beside [OF this, of ?g] False names(2) fq gp show ?thesis by auto
          qed
          with not_new False Gq nxt(2) show ?thesis by auto
        qed (use in_new ni in simp)
        with nt ni show ?thesis by (simp add: committedTree_def without_def hm tT_def Cons)
      qed
    qed
  qed
qed

lemma utf8_inTransaction: "utf8 (inTransaction x) \<longleftrightarrow> utf8 x"
proof -
  have "inTransaction x = transactionDir @ slash # x" by (simp add: inTransaction_def)
  moreover have "utf8 transactionDir" by code_simp
  ultimately show ?thesis using utf8_split [of slash transactionDir x] utf8_append [of transactionDir "slash # x"] by auto
qed

lemma old_name: "properElem (''old-'' @ formatUint i)" "\<not> containsAny (''old-'' @ formatUint i) badChars" "utf8 (''old-'' @ formatUint i)"
proof -
  have c: "c \<in> set (formatUint i) \<Longrightarrow> c \<noteq> slash \<and> c \<notin> set badChars \<and> (of_char c :: nat) < 128" for c
    using formatUint_digits [of c i] by (auto simp: badChars_def)
  then show "properElem (''old-'' @ formatUint i)" by (auto simp: properElem_def)
  show "\<not> containsAny (''old-'' @ formatUint i) badChars"
    using c by (auto simp: containsAny_def list_ex_iff badChars_def)
  show "utf8 (''old-'' @ formatUint i)" using c by (intro utf8_ascii) (auto simp: isAscii_def list_all_iff)
qed

lemma load_staged:
  assumes f: "noStaging f" "okF f" "tidy f" and G: "okF G" "shaped G" "\<forall>x. G [x] \<noteq> None \<longrightarrow> x \<noteq> IndexFileName \<longrightarrow> utf8 x"
    and names: "distinct names" "set names = {x. f [x] \<noteq> None \<or> x = transactionDir}"
    and nxt: "distinct next" "set next = {x. G [x] \<noteq> None}"
    and E: "codecOk E" "journalFirst ord"
  shows "staged E ord f (oldMoves names @ newMoves next) (graft f G)"
proof -
  let ?ms = "oldMoves names @ newMoves next"
  have G0: "G [] = Some DirNode" using G(1) by (simp add: okF_def)
  have old: "goodName [x] \<and> utf8 x" if "x \<in> set names" "x \<noteq> transactionDir" for x
    using that f(3) names(2) by (auto simp: tidy_def)
  have new: "goodName [x] \<and> utf8 x" if "x \<in> set next" "x \<noteq> IndexFileName" for x
    using that nxt(2) shaped_top [OF G(2)] visible_single [of x] G(3) by (auto simp: topNames_def)
  have gn: "goodName (tx ''new'' @ [x])" if "goodName [x]" for x
  proof -
    have "list_all properElem (tx ''new'' @ [x])" using that transactionDir_proper by (simp add: goodName_def tx_def) code_simp
    moreover have "\<not> containsAny (inTransaction (''new/'' @ x)) badChars"
      using that by (auto simp: goodName_def nameOf_single inTransaction_def transactionDir_def containsAny_def list_ex_iff badChars_def)
    ultimately show ?thesis by (simp add: goodName_def nameOf_new)
  qed
  have "goodMoves ?ms"
    using old new gn goodName_tx [OF old_name(1,2)] by (auto simp: goodMoves_def list_all_iff oldMoves_set newMoves_set)
  moreover have "utf8 (''new/'' @ x) = utf8 x" for x
    by (simp add: utf8_Cons_ascii)
  then have "list_all (\<lambda>m. utf8 (dmFrom m) \<and> utf8 (dmTo m)) (movesOf ?ms)"
    using old new old_name(3)
    by (auto simp: movesOf_def list_all_iff oldMoves_set newMoves_set nameOf_tx nameOf_new nameOf_single utf8_inTransaction)
  then have "\<forall>j. leEncMoves E (movesOf ?ms) = Inr j \<longrightarrow> leDecMoves E j = Inr (movesOf ?ms)"
    using E(1) by (auto simp: codecOk_def)
  moreover have "plan_ok (graft f G) ?ms" by (rule load_plan [OF f(1,2) G0 shaped_top [OF G(2)] names nxt])
  moreover have "outside f (graft f G)" by (simp add: outside_def graft_other)
  moreover have "graft f G (tx x) = None" if "x \<noteq> ''new''" for x
    using graft_other(2) [OF that, of f G "[]"] noStaging_tx(1) [OF f(1)] by simp
  ultimately show ?thesis using E(2) graft_other(3) by (simp add: staged_def)
qed

section \<open>The stage\<close>

text \<open>A load succeeds on archives that unpack to an index and its files.\<close>

definition loadable :: "ls_env \<Rightarrow> (reader \<Rightarrow> err + archive) \<Rightarrow> reader \<Rightarrow> bool" where
  "loadable E dec r \<longleftrightarrow> (case unpack E dec r of None \<Rightarrow> False | Some (maps, F) \<Rightarrow> fits maps F)"

definition loadPost :: "ls_env \<Rightarrow> (reader \<Rightarrow> err + archive) \<Rightarrow> reader \<Rightarrow> tfun \<Rightarrow> ls_maps \<Rightarrow> (dpath \<times> dpath) list \<Rightarrow> tfun \<Rightarrow> bool" where
  "loadPost E dec r f maps ms g \<longleftrightarrow> (\<exists>F names next. unpack E dec r = Some (maps, F) \<and> fits maps F
     \<and> ms = oldMoves names @ newMoves next \<and> g = graft f (withDirs (ran (fst maps)) F)
     \<and> distinct names \<and> set names = {x. f [x] \<noteq> None \<or> x = transactionDir}
     \<and> distinct next \<and> set next = {x. withDirs (ran (fst maps)) F [x] \<noteq> None})"

lemma fits_tree:
  assumes E: "orderOk E" and u: "unpack E dec r = Some (maps, F)" and fit: "fits maps F"
  shows "shaped (withDirs (ran (fst maps)) F)"
    "(\<forall>m \<in> ran (fst maps). textMeta m) \<Longrightarrow> \<forall>x. withDirs (ran (fst maps)) F [x] \<noteq> None \<longrightarrow> x \<noteq> IndexFileName \<longrightarrow> utf8 x"
    "filesMatch (fst maps) ((withDirs (ran (fst maps)) F)([IndexFileName] \<mapsto> n))"
    "lsView maps ((withDirs (ran (fst maps)) F)([IndexFileName] \<mapsto> n)) = lsView maps F"
proof -
  obtain ids paths where maps: "maps = (ids, paths)" by fastforce
  let ?G = "withDirs (ran ids) F"
  have m: "mapsOk (ids, paths)" using unpack_maps [OF E u] by (simp add: readMaps_def maps)
  have v: "validEntry m" if "m \<in> ran ids" for m using ran_entry [OF mapsOkD(1) [OF m] that] by simp
  have ft: "dirsFit (ran ids) F" "walkFits paths ?G" using fit by (auto simp: fits_def maps)
  have pr: "properTree ?G"
    using unpack_proper [OF u] proper_prefix [OF validEntry_shape(6) [OF v]]
    by (auto simp: properTree_def withDirs_def split: if_splits)
  note shape = fits_shape [OF m ft(2) pr]
  show "shaped (withDirs (ran (fst maps)) F)"
    unfolding shaped_def
  proof (intro allI impI)
    fix p assume "withDirs (ran (fst maps)) F p \<noteq> None"
    then obtain n where "?G p = Some n" by (auto simp: maps)
    with shape validEntry_shape(1) [OF v] show "p = [] \<or> p = [IndexFileName] \<or> visible p" by blast
  qed
  show "\<forall>x. withDirs (ran (fst maps)) F [x] \<noteq> None \<longrightarrow> x \<noteq> IndexFileName \<longrightarrow> utf8 x"
    if t: "\<forall>m \<in> ran (fst maps). textMeta m"
  proof (intro allI impI)
    fix x assume x: "withDirs (ran (fst maps)) F [x] \<noteq> None" "x \<noteq> IndexFileName"
    then obtain n where "?G [x] = Some n" by (auto simp: maps)
    with shape x(2) obtain y where y: "y \<in> ran ids" "elems y = [x]" by auto
    then have "utf8 (pathOf [x] (mIsDir y))" using t validEntry_shape(3) [OF v [OF y(1)]] by (auto simp: textMeta_def maps)
    then show "utf8 x" by (auto simp: pathOf_def nameOf_single utf8_snoc_slash split: if_splits)
  qed
  have at: "(?G([IndexFileName] \<mapsto> n)) (elems x) = ?G (elems x)" if "x \<in> ran ids" for x
    using entry_not_index [OF v [OF that]] by simp
  have mt: "\<exists>k. ?G (elems x) = Some k \<and> matchesEntry x k" if x: "x \<in> ran ids" for x
  proof -
    from ft(1) x obtain k where k: "?G (elems x) = Some k" by (auto simp: dirsFit_def)
    from shape [OF k] validEntry_shape(2) [OF v [OF x]] entry_not_index [OF v [OF x]]
    obtain y where "y \<in> ran ids" "elems y = elems x" "matchesEntry y k" by auto
    with entry_unique [OF m _ x] k show ?thesis by auto
  qed
  show "filesMatch (fst maps) ((withDirs (ran (fst maps)) F)([IndexFileName] \<mapsto> n))"
    using at mt by (simp add: filesMatch_def maps)
  show "lsView maps ((withDirs (ran (fst maps)) F)([IndexFileName] \<mapsto> n)) = lsView maps F"
  proof
    fix p
    have "fileAt (?G([IndexFileName] \<mapsto> n)) x = fileAt F x" if "paths p = Some x" for x
    proof -
      have x: "x \<in> ran ids" using that mapsOkD(3) [OF m] by auto
      show ?thesis
      proof (cases "mIsDir x")
        case True
        then have "?G (elems x) = Some DirNode" using x by (auto simp: withDirs_def)
        moreover have "F (elems x) \<noteq> Some (RegNode b)" for b
          using ft(1) x True by (auto simp: dirsFit_def fileOnWay_iff)
        ultimately show ?thesis using at [OF x] by (auto simp: fileAt_def split: option.split dnode.split)
      next
        case False
        then have "?G (elems x) = F (elems x)" using file_not_above [OF m x] by (auto simp: withDirs_def)
        then show ?thesis using at [OF x] by (simp add: fileAt_def)
      qed
    qed
    then show "lsView maps ((withDirs (ran (fst maps)) F)([IndexFileName] \<mapsto> n)) p = lsView maps F p"
      by (cases "paths p") (auto simp: lsView_def maps)
  qed
qed

lemma wp_names:
  assumes "tree_ok t" and "Q (treeNames t p) t" and "P t"
  shows "wp c (readA (\<lambda>t. Inr (treeNames t p))) Q (abortsIn c refused P) (stopsIn c P) t"
  by (intro wp_read faultyI) (use assms in \<open>auto simp: abortsIn_def stopsIn_def\<close>)

lemma wp_loadStage:
  assumes f: "noStaging f" "okF f" "tidy f" and t: "tree_ok t" "nodeAt t = f(tT \<mapsto> DirNode)"
    and E: "codecOk E" "journalFirst (fst c)"
    and ref: "\<not> loadable E dec r \<Longrightarrow> refused"
    and utf: "\<And>maps F. unpack E dec r = Some (maps, F) \<Longrightarrow> \<forall>m \<in> ran (fst maps). textMeta m"
  shows "wp c (loadStage E dec r) (prepared E c f (loadPost E dec r f))
    (abortsIn c refused (recOld E (fst c) f)) (stopsIn c (recOld E (fst c) f)) t"
proof -
  let ?P = "recOld E (fst c) f"
  have o: "orderOk E" using E(1) by (simp add: codecOk_def)
  have P0: "?P t" using withT_staging [OF f(1) t] .
  have PU: "unpacking f t' \<Longrightarrow> ?P t'" for t' by (rule unpacking_recOld [OF f(1)])
  have weak: "wp c m Q (abortsIn c refused' (unpacking f)) (stopsIn c (unpacking f)) t' \<Longrightarrow> (refused' \<Longrightarrow> refused)
      \<Longrightarrow> wp c m Q (abortsIn c refused ?P) (stopsIn c ?P) t'" for m Q refused' t'
    by (erule wp_mono) (auto simp: abortsIn_def stopsIn_def PU)
  have base: "[transactionDir, ''new''] = tx ''new''" by (simp add: tx_def)
  have mk: "wp c (rootMkdir [] (inTransaction ''new'')) (\<lambda>_. grafted f emptyTree) (abortsIn c refused ?P) (stopsIn c ?P) t"
  proof -
    have "nodeAt t (tx ''new'') = None" "nodeAt t (butlast (tx ''new'')) = Some DirNode"
      using f(1) by (simp_all add: t(2) noStaging_tx tT_def)
    then obtain t1 where a: "treeAdd (tx ''new'') DirNode t = Inr t1" by (simp add: treeAdd_def)
    have "nodeAt t1 = graft f emptyTree"
    proof
      fix p
      show "nodeAt t1 p = graft f emptyTree p"
      proof (cases "prefix (tx ''new'') p")
        case True
        then obtain q where "p = tx ''new'' @ q" by (auto simp: prefix_def)
        have "f (tx ''new'' @ q) = None" using f(1) by (simp add: noStaging_def)
        then show ?thesis using treeAdd_Inr [OF a] by (simp add: t(2) emptyTree_def \<open>p = tx ''new'' @ q\<close>)
      qed (use treeAdd_Inr [OF a] in \<open>auto simp: t(2) graft_def\<close>)
    qed
    then have "grafted f emptyTree t1" using treeAdd_ok [OF t(1) a] by (simp add: grafted_def emptyTree_def)
    then show ?thesis
      unfolding rootMkdir_def by (intro wp_change faultyI) (use a P0 in \<open>auto simp: abortsIn_def stopsIn_def\<close>)
  qed
  show ?thesis
    unfolding loadStage_def Let_def base
  proof (rule wp_then [OF mk])
    fix u1 t1 assume t1: "grafted f emptyTree t1"
    have ex: "wp c (extractArchive E dec (tx ''new'') r) (\<lambda>maps t'. \<exists>F. unpack E dec r = Some (maps, F) \<and> grafted f F t')
        (abortsIn c refused ?P) (stopsIn c ?P) t1"
      by (rule weak [OF yields_archive [OF f(2) t1]]) (use ref in \<open>simp add: loadable_def\<close>)
    show "wp c (bindA (extractArchive E dec (tx ''new'') r) (\<lambda>maps.
        bindA (rootLstat [] (inTransaction (''new/'' @ IndexFileName))) (\<lambda>_.
        bindA (validateRestoredFiles E (tx ''new'') maps) (\<lambda>_.
        bindA (readA (\<lambda>t. Inr (treeNames t []))) (\<lambda>entries.
        bindA (readA (\<lambda>t. Inr (treeNames t (tx ''new'')))) (\<lambda>next.
        pureA (map oldMove (filter (\<lambda>(i, name). name \<noteq> transactionDir \<and> name \<noteq> IndexFileName) (enumerate 0 entries))
           @ map newMove (filter (\<lambda>name. name \<noteq> IndexFileName) next), maps)))))))
        (prepared E c f (loadPost E dec r f)) (abortsIn c refused ?P) (stopsIn c ?P) t1"
    proof (rule wp_then [OF ex])
      fix maps t2 assume "\<exists>F. unpack E dec r = Some (maps, F) \<and> grafted f F t2"
      then obtain F where u: "unpack E dec r = Some (maps, F)" and t2: "grafted f F t2" by blast
      have k2: "tree_ok t2" "nodeAt t2 = graft f F" "F [] = Some DirNode" using t2 by (auto simp: grafted_def)
      have mo: "mapsOk maps" using unpack_maps [OF o u] by (simp add: readMaps_def)
      have ref': "\<not> fits maps F \<Longrightarrow> refused" using ref by (simp add: loadable_def u)
      have nm: "rootPath [] (inTransaction (''new/'' @ IndexFileName)) = Inr (tx ''new'' @ [IndexFileName])"
        using rootPath_name [of "tx ''new'' @ [IndexFileName]" "[]", unfolded nameOf_new] transactionDir_proper IndexFileName_proper
        by (simp add: tx_def properElem_def)
      have st: "wp c (rootLstat [] (inTransaction (''new/'' @ IndexFileName))) (\<lambda>_ t'. t' = t2 \<and> F [IndexFileName] \<noteq> None)
          (abortsIn c refused ?P) (stopsIn c ?P) t2"
        unfolding rootLstat_def by (intro wp_read faultyI)
          (use ref' PU [OF grafted_unpacking [OF t2]] k2(2) in \<open>auto simp: nm [simplified] treeStat_def abortsIn_def stopsIn_def fits_def split: option.splits\<close>)
      show "wp c (bindA (rootLstat [] (inTransaction (''new/'' @ IndexFileName))) (\<lambda>_.
        bindA (validateRestoredFiles E (tx ''new'') maps) (\<lambda>_.
        bindA (readA (\<lambda>t. Inr (treeNames t []))) (\<lambda>entries.
        bindA (readA (\<lambda>t. Inr (treeNames t (tx ''new'')))) (\<lambda>next.
        pureA (map oldMove (filter (\<lambda>(i, name). name \<noteq> transactionDir \<and> name \<noteq> IndexFileName) (enumerate 0 entries))
           @ map newMove (filter (\<lambda>name. name \<noteq> IndexFileName) next), maps))))))
        (prepared E c f (loadPost E dec r f)) (abortsIn c refused ?P) (stopsIn c ?P) t2"
      proof (rule wp_then [OF st])
        fix n t3 assume t3: "t3 = t2 \<and> F [IndexFileName] \<noteq> None"
        have va: "wp c (validateRestoredFiles E (tx ''new'') maps) (\<lambda>_ t'. fits maps F \<and> grafted f (withDirs (ran (fst maps)) F) t')
            (abortsIn c refused ?P) (stopsIn c ?P) t3"
          by (rule wp_mono [OF weak [OF wp_validateRestored [OF f(2) _ o mo, where F = F and refused = refused]]])
            (use t2 t3 ref' in \<open>auto simp: fits_def\<close>)
        show "wp c (bindA (validateRestoredFiles E (tx ''new'') maps) (\<lambda>_.
            bindA (readA (\<lambda>t. Inr (treeNames t []))) (\<lambda>entries.
            bindA (readA (\<lambda>t. Inr (treeNames t (tx ''new'')))) (\<lambda>next.
            pureA (map oldMove (filter (\<lambda>(i, name). name \<noteq> transactionDir \<and> name \<noteq> IndexFileName) (enumerate 0 entries))
               @ map newMove (filter (\<lambda>name. name \<noteq> IndexFileName) next), maps)))))
            (prepared E c f (loadPost E dec r f)) (abortsIn c refused ?P) (stopsIn c ?P) t3"
        proof (rule wp_then [OF va])
          fix u4 t4 assume "fits maps F \<and> grafted f (withDirs (ran (fst maps)) F) t4"
          then have fit: "fits maps F" and t4: "grafted f (withDirs (ran (fst maps)) F) t4" by auto
          let ?G = "withDirs (ran (fst maps)) F" and ?names = "treeNames t4 []" and ?next = "treeNames t4 (tx ''new'')"
          have k4: "tree_ok t4" "nodeAt t4 = graft f ?G" "?G [] = Some DirNode" using t4 by (auto simp: grafted_def)
          have G: "okF ?G" using graft_okF [of f ?G] tree_okF [OF k4(1)] k4(2,3) by simp
          have ns: "set ?names = {x. f [x] \<noteq> None \<or> x = transactionDir}" "set ?next = {x. ?G [x] \<noteq> None}"
          proof -
            have "graft f ?G [x] \<noteq> None \<longleftrightarrow> f [x] \<noteq> None \<or> x = transactionDir" for x
              using graft_other(1) [of "[x]" f ?G] graft_other(3) [of f ?G] by (cases "x = transactionDir") (auto simp: tT_def)
            then show "set ?names = {x. f [x] \<noteq> None \<or> x = transactionDir}" by (simp add: treeNames_set [OF k4(1)] k4(2))
            show "set ?next = {x. ?G [x] \<noteq> None}" by (simp add: treeNames_set [OF k4(1)] k4(2))
          qed
          have sg: "staged E (fst c) f (oldMoves ?names @ newMoves ?next) (graft f ?G)"
            by (rule load_staged [OF f G fits_tree(1) [OF o u fit] fits_tree(2) [OF o u fit utf [OF u]] treeNames_distinct ns(1) treeNames_distinct ns(2) E])
          have post: "loadPost E dec r f maps (oldMoves ?names @ newMoves ?next) (graft f ?G)"
            unfolding loadPost_def
            by (intro exI [of _ F] exI [of _ ?names] exI [of _ ?next] conjI) (use u fit ns treeNames_distinct in simp_all)
          have "prepared E c f (loadPost E dec r f)
              (map oldMove (filter (\<lambda>(i, name). name \<noteq> transactionDir \<and> name \<noteq> IndexFileName) (enumerate 0 ?names))
               @ map newMove (filter (\<lambda>name. name \<noteq> IndexFileName) ?next), maps) t4"
            unfolding prepared_def fst_conv snd_conv load_moves [symmetric] k4(2)
            by (intro conjI exI [of _ "oldMoves ?names @ newMoves ?next"] k4(1) refl sg post)
          then show "wp c (bindA (readA (\<lambda>t. Inr (treeNames t []))) (\<lambda>entries.
              bindA (readA (\<lambda>t. Inr (treeNames t (tx ''new'')))) (\<lambda>next.
              pureA (map oldMove (filter (\<lambda>(i, name). name \<noteq> transactionDir \<and> name \<noteq> IndexFileName) (enumerate 0 entries))
                 @ map newMove (filter (\<lambda>name. name \<noteq> IndexFileName) next), maps))))
              (prepared E c f (loadPost E dec r f)) (abortsIn c refused ?P) (stopsIn c ?P) t4"
            by (intro wp_bind wp_names wp_pure k4(1) PU [OF grafted_unpacking [OF t4]])
        qed
      qed
    qed
  qed
qed

section \<open>The operation\<close>

lemma load_view:
  assumes E: "codecOk E" and h: "healthy E s" and c: "settled c (lsDisk s)" "orderly (fst c)" "journalFirst (fst c)"
    and tidy: "tidy (nodeAt (dkTree (lsDisk s)))"
    and ref: "\<not> loadable E dec rd \<or> \<not> encodes E \<Longrightarrow> refused"
    and utf: "\<And>maps F. unpack E dec rd = Some (maps, F) \<Longrightarrow> \<forall>m \<in> ran (fst maps). textMeta m"
    and new: "\<And>maps F. unpack E dec rd = Some (maps, F) \<Longrightarrow> fits maps F \<Longrightarrow> newView = lsView maps F"
    and r: "local_Load E dec rd s = (r, s')"
  shows "atomically E c refused (storeView s) newView () r s'"
proof -
  define f where "f = nodeAt (dkTree (lsDisk s))"
  have o: "orderOk E" using E by (simp add: codecOk_def)
  have st: "storeTree E (lsIds s, lsPaths s) f" and nf: "lsFailed s = None" using h by (auto simp: healthy_def f_def)
  note ns = storeTreeD(2,1) [OF st]
  have tr: "transaction E (loadStage E dec rd) (\<lambda>maps _. (maps, ())) s = (r, s')"
    using r nf by (simp add: local_Load_def whenOpen_def)
  show ?thesis
  proof (rule transaction_view [OF E h c(1,2) f_def _ _ _ tr, where Post = "loadPost E dec rd f"])
    fix t assume t: "tree_ok t" "nodeAt t = f(tT \<mapsto> DirNode)"
    show "wp c (loadStage E dec rd) (prepared E c f (loadPost E dec rd f)) (abortsIn c refused (recOld E (fst c) f)) (stopsIn c (recOld E (fst c) f)) t"
      by (rule wp_loadStage [OF ns _ t E c(3)]) (use tidy ref utf f_def in auto)
  next
    show "refused \<or> updatesEncode E (loadPost E dec rd f) (\<lambda>maps _. (maps, ())) (lsIds s, lsPaths s)"
      using ref encodes_updates by blast
  next
    fix maps ms g data maps' res'
    assume og: "okF g" and p: "loadPost E dec rd f maps ms g" and up: "(maps, ()) = (maps', res')"
    from p obtain F names nxt where u: "unpack E dec rd = Some (maps, F)" "fits maps F" and
      ms: "ms = oldMoves names @ newMoves nxt" "g = graft f (withDirs (ran (fst maps)) F)" and
      nm: "distinct names" "set names = {x. f [x] \<noteq> None \<or> x = transactionDir}" "distinct nxt"
        "set nxt = {x. withDirs (ran (fst maps)) F [x] \<noteq> None}"
      unfolding loadPost_def by blast
    let ?G = "withDirs (ran (fst maps)) F"
    have "F [] = Some DirNode" by (rule unpack_root [OF u(1)])
    then have "?G [] = Some DirNode" by (simp add: withDirs_def)
    then have G: "okF ?G" using graft_okF [of f ?G] og ms(2) by simp
    have ct: "committedTree g ms data = ?G([IndexFileName] \<mapsto> RegNode data)"
      unfolding ms by (rule load_final [OF ns storeTreeD(6) [OF st] G fits_tree(1) [OF o u] nm])
    have "mapsOk maps" using unpack_maps [OF o u(1)] by (simp add: readMaps_def)
    then show "res' = () \<and> mapsOk maps' \<and> (\<forall>m \<in> ran (fst maps'). textMeta m) \<and> filesMatch (fst maps') (committedTree g ms data)
        \<and> lsView maps' (committedTree g ms data) = newView"
      using up utf [OF u(1)] fits_tree(3,4) [OF o u] new [OF u] by (simp add: ct)
  qed
qed

lemma load_refused:
  assumes E: "codecOk E" and h: "healthy E s" and c: "settled c (lsDisk s)" "orderly (fst c)" "journalFirst (fst c)"
    and tidy: "tidy (nodeAt (dkTree (lsDisk s)))" and l: "\<not> loadable E dec rd"
    and utf: "\<And>maps F. unpack E dec rd = Some (maps, F) \<Longrightarrow> \<forall>m \<in> ran (fst maps). textMeta m"
    and r: "local_Load E dec rd s = (r, s')"
  shows "r \<noteq> Returns () \<and> atomically E c True (storeView s) (storeView s) () r s'"
proof -
  have any: "atomically E c True (storeView s) v () r s'" for v
    by (rule load_view [OF E h c tidy _ utf _ r]) (use l in \<open>auto simp: loadable_def\<close>)
  have "r \<noteq> Returns ()"
    using any [of "\<lambda>p. None"] any [of "\<lambda>p. Some undefined"] by (auto simp: atomically_def fun_eq_iff)
  with any show ?thesis by simp
qed

end
