(* ===== verification/Local_Backup.thy ===== *)
theory Local_Backup
  imports Local_Load
begin

text \<open>
  \<open>Backup\<close> of the local driver: what it writes when it succeeds, and that its archive unpacks to the
  store it was taken from. The contract of the archive formats and of the writer below is the locale
  \<open>tar_archive\<close>.
\<close>

section \<open>Operations on an archive\<close>

fun tarAll :: "('z, 'w) tar_env \<Rightarrow> tar_op list \<Rightarrow> ('z, 'w) tar_out \<Rightarrow> err option \<times> ('z, 'w) tar_out" where
  "tarAll A [] o1 = (None, o1)"
| "tarAll A (x # xs) o1 = (case tarDo A x o1 of (Some e, o2) \<Rightarrow> (Some e, o2) | (None, o2) \<Rightarrow> tarAll A xs o2)"

lemma tarAll_append: "tarAll A (xs @ ys) o1 = (case tarAll A xs o1 of (Some e, o2) \<Rightarrow> (Some e, o2) | (None, o2) \<Rightarrow> tarAll A ys o2)"
  by (induction xs arbitrary: o1) (auto split: prod.splits option.splits)

text \<open>What the writers of tar and gzip make of a sequence of calls when none of them fails.\<close>

fun emitted :: "('z, 'w) tar_env \<Rightarrow> 'z \<Rightarrow> tar_op list \<Rightarrow> bytes list option" where
  "emitted A z [] = Some []"
| "emitted A z (x # xs) = (case teWrite A x z of (ps, own, z') \<Rightarrow>
     if own = None then map_option ((@) ps) (emitted A z' xs) else None)"

type_synonym member = "tar_header \<times> bytes list"

definition memberOps :: "member \<Rightarrow> tar_op list" where
  "memberOps m = OpHeader (fst m) # map OpData (snd m)"

definition archiveOps :: "member list \<Rightarrow> tar_op list" where
  "archiveOps ms = concat (map memberOps ms) @ [OpCloseTar, OpCloseGzip]"

text \<open>Members whose header is read back as it was written: regular files of their size.\<close>

definition member_ok :: "member \<Rightarrow> bool" where
  "member_ok m \<longleftrightarrow> (case m of (h, ds) \<Rightarrow> hdType h = TypeReg \<and> hdSize h = int (length (concat ds))
     \<and> utf8 (hdName h) \<and> CHR 0x00 \<notin> set (hdName h) \<and> hdName h \<noteq> [] \<and> \<not> suffix ''/'' (hdName h) \<and> 0 \<le> hdMode h \<and> hdMode h \<le> 511)"

definition wholeReader :: "bytes \<Rightarrow> reader" where
  "wholeReader b = \<lparr>rData = b, rEnd = ErrEOF\<rparr>"

definition readMember :: "member \<Rightarrow> tar_header \<times> reader" where
  "readMember m = (fst m, wholeReader (concat (snd m)))"

locale tar_archive =
  fixes A :: "('z, 'w) tar_env" and wrote :: "'w \<Rightarrow> bytes"
  assumes sink_law: "teSink A p w = ((n, e), w') \<Longrightarrow>
      0 \<le> n \<and> n \<le> int (length p) \<and> wrote w' = wrote w @ take (nat n) p \<and> (e = None \<longrightarrow> n = int (length p))"
    and read_law: "list_all member_ok ms \<Longrightarrow> \<exists>ps ar. emitted A (teStart A) (archiveOps ms) = Some ps
        \<and> teOpen A (wholeReader (concat ps)) = Inr ar
        \<and> arEntries ar = map readMember ms \<and> arEnd ar = ErrEOF \<and> arRest ar = wholeReader []"
begin

text \<open>The size a backup reports is what it has written, counted in 64 bits, however it ends.\<close>

definition counted :: "('z, 'w) tar_out \<Rightarrow> ('z, 'w) tar_out \<Rightarrow> bool" where
  "counted o1 o2 \<longleftrightarrow> (\<exists>bs. wrote (toSink o2) = wrote (toSink o1) @ bs \<and> toCount o2 = toCount o1 + of_nat (length bs))"

lemma counted_refl: "counted o1 o1"
  by (simp add: counted_def)

lemma counted_trans:
  assumes "counted o1 o2" and "counted o2 o3"
  shows "counted o1 o3"
proof -
  from assms obtain bs cs where "wrote (toSink o2) = wrote (toSink o1) @ bs" "toCount o2 = toCount o1 + of_nat (length bs)"
    "wrote (toSink o3) = wrote (toSink o2) @ cs" "toCount o3 = toCount o2 + of_nat (length cs)" by (auto simp: counted_def)
  then show ?thesis unfolding counted_def by (intro exI [of _ "bs @ cs"]) (simp add: add.assoc)
qed

lemma count_counted:
  assumes "countWriter_Write A p o1 = ((n, e), o2)"
  shows "counted o1 o2" "e = None \<Longrightarrow> wrote (toSink o2) = wrote (toSink o1) @ p"
    "toBroken o2 = toBroken o1" "toArchive o2 = toArchive o1"
proof -
  obtain w' where w: "teSink A p (toSink o1) = ((n, e), w')"
    and o2: "o2 = o1\<lparr>toSink := w', toCount := (if n > 0 then toCount o1 + word_of_int n else toCount o1)\<rparr>"
    using assms by (auto simp: countWriter_Write_def split: prod.splits)
  note l = sink_law [OF w]
  from l obtain k where k: "n = int k" "k \<le> length p" by (metis nonneg_int_cases of_nat_le_iff)
  then have "word_of_int n = (of_nat (length (take (nat n) p)) :: 64 word)" by simp
  moreover have "n = 0 \<Longrightarrow> take (nat n) p = []" by simp
  ultimately show "counted o1 o2" using l by (auto simp: counted_def o2 intro!: exI [of _ "take (nat n) p"])
  show "e = None \<Longrightarrow> wrote (toSink o2) = wrote (toSink o1) @ p" using l by (simp add: o2)
qed (use assms in \<open>auto simp: countWriter_Write_def split: prod.splits\<close>)

lemma emit_counted: "emit A ps o1 = (e, o2) \<Longrightarrow> counted o1 o2"
proof (induction ps arbitrary: o1)
  case (Cons p ps)
  obtain n e1 oo where c: "countWriter_Write A p o1 = ((n, e1), oo)" by (metis surj_pair)
  note cc = count_counted(1) [OF c]
  show ?case
  proof (cases e1)
    case None
    then show ?thesis using Cons c cc counted_trans by auto
  next
    case (Some x)
    then show ?thesis using Cons.prems c cc by (auto simp: counted_def)
  qed
qed (simp add: counted_refl)

lemma emit_all:
  "emit A ps o1 = (None, o2) \<Longrightarrow> wrote (toSink o2) = wrote (toSink o1) @ concat ps \<and> toBroken o2 = toBroken o1 \<and> toArchive o2 = toArchive o1"
proof (induction ps arbitrary: o1)
  case (Cons p ps)
  obtain n e1 oo where c: "countWriter_Write A p o1 = ((n, e1), oo)" by (metis surj_pair)
  with Cons count_counted(2-4) [OF c] show ?case by (cases e1) auto
qed simp

lemma tarDo_counted: "tarDo A x o1 = (e, o2) \<Longrightarrow> counted o1 o2"
  using emit_counted by (fastforce simp: tarDo_def counted_def split: option.splits prod.splits)

lemma tarDo_all:
  assumes "tarDo A x o1 = (None, o2)" and "toBroken o1 = None"
  shows "\<exists>ps z. teWrite A x (toArchive o1) = (ps, None, z) \<and> toArchive o2 = z \<and> toBroken o2 = None
    \<and> wrote (toSink o2) = wrote (toSink o1) @ concat ps"
  using assms emit_all [of _ "o1\<lparr>toArchive := _\<rparr>" o2]
  by (fastforce simp: tarDo_def split: prod.splits option.splits)

lemma tarAll_emitted:
  assumes "tarAll A xs o1 = (None, o2)" and "toBroken o1 = None"
  shows "\<exists>ps. emitted A (toArchive o1) xs = Some ps \<and> wrote (toSink o2) = wrote (toSink o1) @ concat ps"
  using assms
proof (induction xs arbitrary: o1)
  case (Cons x xs)
  then obtain o3 where d: "tarDo A x o1 = (None, o3)" "tarAll A xs o3 = (None, o2)"
    by (auto split: prod.splits option.splits)
  from tarDo_all [OF d(1) Cons.prems(2)] obtain ps z where t: "teWrite A x (toArchive o1) = (ps, None, z)"
    "toArchive o3 = z" "toBroken o3 = None" "wrote (toSink o3) = wrote (toSink o1) @ concat ps" by blast
  from Cons.IH [OF d(2) t(3)] t show ?case by auto
qed simp

text \<open>An archive whose calls have all succeeded is read back.\<close>

lemma written_opens:
  assumes "tarAll A (archiveOps ms) \<lparr>toArchive = teStart A, toBroken = None, toSink = w, toCount = 0\<rparr> = (None, o2)"
    and "wrote w = []" and "list_all member_ok ms"
  shows "\<exists>ar. teOpen A (wholeReader (wrote (toSink o2))) = Inr ar
    \<and> arEntries ar = map readMember ms \<and> arEnd ar = ErrEOF \<and> arRest ar = wholeReader []"
  using tarAll_emitted [OF assms(1)] assms(2) read_law [OF assms(3)] by auto

text \<open>On a writer that takes everything the calls for such members all succeed.\<close>

lemma emit_succeeds: "\<forall>p w. snd (fst (teSink A p w)) = None \<Longrightarrow> fst (emit A ps o1) = None"
proof (induction ps arbitrary: o1)
  case (Cons p ps)
  obtain n e1 oo where c: "countWriter_Write A p o1 = ((n, e1), oo)" by (metis surj_pair)
  then have "e1 = None" using Cons.prems by (auto simp: countWriter_Write_def split: prod.splits) (metis fst_conv snd_conv)
  with Cons c show ?case by simp
qed simp

lemma tarAll_succeeds:
  assumes s: "\<forall>p w. snd (fst (teSink A p w)) = None"
  shows "emitted A (toArchive o1) xs = Some ps \<Longrightarrow> toBroken o1 = None \<Longrightarrow> fst (tarAll A xs o1) = None"
proof (induction xs arbitrary: o1 ps)
  case (Cons x xs)
  obtain qs own z where w: "teWrite A x (toArchive o1) = (qs, own, z)" by (metis surj_pair)
  with Cons.prems obtain rs where own: "own = None" and rs: "emitted A z xs = Some rs" by (auto split: if_splits)
  obtain e o2 where e: "emit A qs (o1\<lparr>toArchive := z\<rparr>) = (e, o2)" by fastforce
  then have "e = None" using emit_succeeds [OF s, of qs "o1\<lparr>toArchive := z\<rparr>"] by simp
  with e emit_all [of qs "o1\<lparr>toArchive := z\<rparr>" o2] w own Cons.prems(2)
  have "tarDo A x o1 = (None, o2)" "toArchive o2 = z" "toBroken o2 = None" by (simp_all add: tarDo_def)
  with Cons.IH [of o2 rs] rs show ?case by simp
qed simp

lemma members_succeed:
  assumes "\<forall>p w. snd (fst (teSink A p w)) = None" and "list_all member_ok ms"
  shows "fst (tarAll A (archiveOps ms) \<lparr>toArchive = teStart A, toBroken = None, toSink = w, toCount = 0\<rparr>) = None"
  using read_law [OF assms(2)] tarAll_succeeds [OF assms(1)] by fastforce

end

section \<open>What a backup writes\<close>

text \<open>The buffers a file is copied in.\<close>

function pieces :: "bytes \<Rightarrow> bytes list" where
  "pieces b = (if b = [] then [] else take copyBuffer b # pieces (drop copyBuffer b))"
  by auto
termination
  by (relation "measure length") (auto simp: copyBuffer_def)

declare pieces.simps [simp del]

lemma copyBuffer_pos [simp]: "0 < copyBuffer"
  by (simp add: copyBuffer_def)

lemma pieces_Nil [simp]: "pieces [] = []"
  by (simp add: pieces.simps)

lemma pieces_Cons: "b \<noteq> [] \<Longrightarrow> pieces b = take copyBuffer b # pieces (drop (length (take copyBuffer b)) b)"
  by (subst pieces.simps) (simp add: min_def)

lemma concat_pieces [simp]: "concat (pieces b) = b"
proof (induction b rule: pieces.induct)
  case (1 b)
  then show ?case by (cases "b = []") (simp_all add: pieces.simps [of b])
qed

definition fileMember :: "('z, 'w) tar_env \<Rightarrow> tfun \<Rightarrow> vmeta \<Rightarrow> member" where
  "fileMember A f m = (let b = (case f (elems m) of Some (RegNode b) \<Rightarrow> b | _ \<Rightarrow> []) in
     (\<lparr>hdName = trimPrefix (mPath m) ''/'', hdMode = teMode A (elems m), hdSize = int (length b), hdType = TypeReg\<rparr>,
      pieces b))"

definition indexMember :: "bytes \<Rightarrow> member" where
  "indexMember data = (indexHeader data, [data])"

definition fileMetas :: "('z, 'w) tar_env \<Rightarrow> id_map \<Rightarrow> vmeta list" where
  "fileMetas A ids = filter (\<lambda>m. \<not> mIsDir m) (map (\<lambda>i. the (ids i)) (teFiles A ids))"

text \<open>Steps of a backup read the disk and leave it as it is; their errors are values.\<close>

abbreviation reads :: "setting \<Rightarrow> 'a act \<Rightarrow> ('a \<Rightarrow> bool) \<Rightarrow> dtree \<Rightarrow> bool" where
  "reads c m Q t \<equiv> wp c m (\<lambda>x t'. t' = t \<and> Q x) (\<lambda>_ _. False) (\<lambda>t'. snd c \<and> t' = t) t"

text \<open>Without faults a backup fails only where the writers of the archive fail.\<close>

definition did :: "setting \<Rightarrow> err option \<times> 'o \<Rightarrow> err option \<times> 'o \<Rightarrow> bool" where
  "did c wanted done1 \<longleftrightarrow> (if fst done1 = None then wanted = done1 else snd c \<or> fst wanted \<noteq> None)"

lemma did_None [simp]: "did c wanted (None, oo) \<longleftrightarrow> wanted = (None, oo)"
  and did_Some [simp]: "did c wanted (Some e, oo) \<longleftrightarrow> snd c \<or> fst wanted \<noteq> None"
  by (simp_all add: did_def)

lemma reads_then: "reads c m R t \<Longrightarrow> (\<And>x. R x \<Longrightarrow> reads c (k x) Q t) \<Longrightarrow> reads c (bindA m k) Q t"
  by (erule wp_then) auto

lemma reads_copy:
  assumes "treeRead p t = Inr b" and "off \<le> length b" and "length b < off + k"
  shows "reads c (copyOut k A p off o1) (did c (tarAll A (map OpData (pieces (drop off b))) o1)) t"
  using assms(2,3)
proof (induction k arbitrary: off o1)
  case 0
  then show ?case by simp
next
  case (Suc k)
  have rd: "reads c (tryA (osReadFile p)) (\<lambda>content. (isl content \<longrightarrow> snd c) \<and> (\<forall>x. content = Inr x \<longrightarrow> x = b)) t"
    unfolding osReadFile_def by (intro wp_try wp_read faultyI) (use assms(1) in auto)
  let ?buf = "take copyBuffer (drop off b)" and ?Q = "did c (tarAll A (map OpData (pieces (drop off b))) o1)"
  have round: "reads c (if ?buf = [] then pureA (None, o1)
      else (case tarDo A (OpData ?buf) o1 of (Some e, o2) \<Rightarrow> pureA (Some e, o2)
            | (None, o2) \<Rightarrow> copyOut k A p (off + length ?buf) o2)) ?Q t"
  proof (cases "drop off b = []")
    case True
    then show ?thesis by (simp add: wp_pure)
  next
    case False
    then have less: "off + length ?buf \<le> length b" "length b < (off + length ?buf) + k" and ne: "?buf \<noteq> []"
      using Suc.prems by (auto simp: min_def copyBuffer_def)
    obtain e o2 where d: "tarDo A (OpData ?buf) o1 = (e, o2)" by fastforce
    have all: "tarAll A (map OpData (pieces (drop off b))) o1 = (case e of Some e \<Rightarrow> (Some e, o2)
        | None \<Rightarrow> tarAll A (map OpData (pieces (drop (off + length ?buf) b))) o2)"
      by (simp add: pieces_Cons [OF False] d add.commute split: option.split)
    show ?thesis using Suc.IH [OF less, of o2] ne d
      by (cases e) (simp_all add: all wp_pure del: take_eq_Nil)
  qed
  show ?case
    unfolding copyOut.simps
  proof (rule reads_then [OF rd])
    fix content :: "err + bytes" assume "(isl content \<longrightarrow> snd c) \<and> (\<forall>x. content = Inr x \<longrightarrow> x = b)"
    then show "reads c (case content of Inl e \<Rightarrow> pureA (Some e, o1)
        | Inr b \<Rightarrow> let buf = take copyBuffer (drop off b) in if buf = [] then pureA (None, o1)
            else (case tarDo A (OpData buf) o1 of (Some e, o2) \<Rightarrow> pureA (Some e, o2)
                  | (None, o2) \<Rightarrow> copyOut k A p (off + length buf) o2)) ?Q t"
      using round by (cases content) (simp_all add: Let_def wp_pure del: take_eq_Nil)
  qed
qed

lemma reads_file:
  assumes v: "validEntry m" and f: "nodeAt t (elems m) = Some n" "matchesEntry m n"
  shows "reads c (backupFile A m o1) (did c
    (tarAll A (if mIsDir m then [] else memberOps (fileMember A (nodeAt t) m)) o1)) t"
proof (cases "mIsDir m")
  case True
  then show ?thesis by (simp add: backupFile_def wp_pure)
next
  case False
  then obtain b where b: "n = RegNode b" using f(2) by (cases n) (auto simp: matchesEntry_def)
  note vs = validEntry_shape [OF v]
  have r: "rootPath [] (relative (mPath m)) = Inr (elems m)"
    using goodName_root [OF visible_good [OF vs(1,2)], of "[]"] relative_entry [OF v] by simp
  let ?h = "\<lparr>hdName = trimPrefix (mPath m) ''/'', hdMode = teMode A (elems m), hdSize = int (length b), hdType = TypeReg\<rparr>"
  have fm: "memberOps (fileMember A (nodeAt t) m) = OpHeader ?h # map OpData (pieces b)"
    using f(1) by (simp add: fileMember_def memberOps_def b)
  have st: "treeStat (elems m) t = Inr (RegNode b)" "treeRead (elems m) t = Inr b"
    using f(1) by (simp_all add: treeStat_def treeRead_def b)
  let ?all = "tarAll A (memberOps (fileMember A (nodeAt t) m)) o1"
  let ?Q = "did c ?all"
  let ?find = "tryA (bindA (liftA (rootPath [] (relative (mPath m)))) (\<lambda>p.
      bindA (osStat p) (\<lambda>info. bindA (osStat p) (\<lambda>_. pureA (p, info)))))"
  have cl: "reads c (tryA closeFile) (\<lambda>closed. isl closed \<longrightarrow> snd c) t"
    unfolding closeFile_def by (intro wp_try wp_read faultyI) auto
  have fl: "reads c (bindA (tryA closeFile) (\<lambda>_. pureA (Some e, oo))) ?Q t"
    if "snd c \<or> fst ?all \<noteq> None" for e oo
    by (rule reads_then [OF cl]) (use that in \<open>auto intro: wp_pure\<close>)
  have fd: "reads c ?find (\<lambda>found. (isl found \<longrightarrow> snd c) \<and> (\<forall>x. found = Inr x \<longrightarrow> x = (elems m, RegNode b))) t"
    unfolding r osStat_def by (intro wp_try wp_bind wp_lift wp_read wp_pure faultyI) (use st in \<open>auto intro!: wp_read wp_pure faultyI\<close>)
  have cp: "reads c (copyOut (Suc (length b)) A (elems m) 0 oo) (did c (tarAll A (map OpData (pieces b)) oo)) t" for oo
    using reads_copy [OF st(2), of 0 "Suc (length b)"] by (simp del: copyOut.simps)
  have last: "reads c (bindA (tryA closeFile) (\<lambda>closed. pureA (failedWith closed, oo))) ?Q t"
    if "?all = (None, oo)" for oo
    by (rule reads_then [OF cl]) (use that in \<open>auto simp: failedWith_def intro!: wp_pure split: sum.split\<close>)
  have body: "reads c (case tarDo A (OpHeader ?h) o1 of
        (Some e, o2) \<Rightarrow> bindA (tryA closeFile) (\<lambda>_. pureA (Some e, o2))
      | (None, o2) \<Rightarrow> bindA (copyOut (Suc (length b)) A (elems m) 0 o2) (\<lambda>(e, o3). case e of
            Some e \<Rightarrow> bindA (tryA closeFile) (\<lambda>_. pureA (Some e, o3))
          | None \<Rightarrow> bindA (tryA closeFile) (\<lambda>closed. pureA (failedWith closed, o3)))) ?Q t"
  proof (cases "tarDo A (OpHeader ?h) o1")
    case (Pair e o2)
    show ?thesis
    proof (cases e)
      case None
      show ?thesis unfolding Pair None prod.case option.case
      proof (rule reads_then [OF cp])
        fix x :: "err option \<times> ('a, 'b) tar_out" assume x: "did c (tarAll A (map OpData (pieces b)) o2) x"
        have all: "?all = tarAll A (map OpData (pieces b)) o2" using Pair None by (simp add: fm)
        from x fl last show "reads c (case x of (e, o3) \<Rightarrow> (case e of
            Some e \<Rightarrow> bindA (tryA closeFile) (\<lambda>_. pureA (Some e, o3))
          | None \<Rightarrow> bindA (tryA closeFile) (\<lambda>closed. pureA (failedWith closed, o3)))) ?Q t"
          unfolding all by (cases x; cases "fst x") auto
      qed
    next
      case (Some x)
      then have "fst ?all \<noteq> None" using Pair by (simp add: fm)
      with fl Some Pair show ?thesis by simp
    qed
  qed
  show ?thesis
    unfolding backupFile_def if_not_P [OF False]
  proof (rule reads_then [OF fd])
    fix found :: "err + (dpath \<times> dnode)" assume "(isl found \<longrightarrow> snd c) \<and> (\<forall>x. found = Inr x \<longrightarrow> x = (elems m, RegNode b))"
    then show "reads c (case found of Inl e \<Rightarrow> pureA (Some e, o1)
        | Inr (p, info) \<Rightarrow> let header = \<lparr>hdName = trimPrefix (mPath m) ''/'', hdMode = teMode A p,
                  hdSize = (case info of RegNode b \<Rightarrow> int (length b) | DirNode \<Rightarrow> 0),
                  hdType = (case info of RegNode b \<Rightarrow> TypeReg | DirNode \<Rightarrow> TypeDir)\<rparr>
            in (case tarDo A (OpHeader header) o1 of
                  (Some e, o2) \<Rightarrow> bindA (tryA closeFile) (\<lambda>_. pureA (Some e, o2))
                | (None, o2) \<Rightarrow> bindA (copyOut (Suc (nat (hdSize header))) A p 0 o2) (\<lambda>(e, o3). case e of
                      Some e \<Rightarrow> bindA (tryA closeFile) (\<lambda>_. pureA (Some e, o3))
                    | None \<Rightarrow> bindA (tryA closeFile) (\<lambda>closed. pureA (failedWith closed, o3))))) ?Q t"
      using body by (auto simp: Let_def intro: wp_pure split: sum.split simp del: copyOut.simps
        cong del: prod.case_cong_weak option.case_cong_weak)
  qed
qed

lemma reads_files:
  assumes "\<And>m. m \<in> set ms \<Longrightarrow> validEntry m \<and> (\<exists>n. nodeAt t (elems m) = Some n \<and> matchesEntry m n)"
  shows "reads c (backupFiles A ms o1) (did c
    (tarAll A (concat (map (memberOps \<circ> fileMember A (nodeAt t)) (filter (\<lambda>m. \<not> mIsDir m) ms))) o1)) t"
  using assms
proof (induction ms arbitrary: o1)
  case Nil
  then show ?case by (auto intro: wp_pure)
next
  case (Cons m ms)
  from Cons.prems [of m] obtain n where n: "validEntry m" "nodeAt t (elems m) = Some n" "matchesEntry m n" by auto
  show ?case
    unfolding backupFiles.simps
  proof (rule reads_then [OF reads_file [OF n]])
    fix x :: "err option \<times> ('a, 'b) tar_out" assume x: "did c (tarAll A (if mIsDir m then [] else memberOps (fileMember A (nodeAt t) m)) o1) x"
    obtain e o2 where eo: "x = (e, o2)" by fastforce
    have IH: "reads c (backupFiles A ms o2) (did c
        (tarAll A (concat (map (memberOps \<circ> fileMember A (nodeAt t)) (filter (\<lambda>m. \<not> mIsDir m) ms))) o2)) t"
      by (rule Cons.IH) (use Cons.prems in auto)
    show "reads c (case x of (e, o2) \<Rightarrow> (case e of Some e \<Rightarrow> pureA (Some e, o2) | None \<Rightarrow> backupFiles A ms o2))
        (did c (tarAll A (concat (map (memberOps \<circ> fileMember A (nodeAt t)) (filter (\<lambda>m. \<not> mIsDir m) (m # ms)))) o1)) t"
    proof (cases e)
      case None
      with x IH show ?thesis by (auto simp: eo tarAll_append)
    next
      case (Some x1)
      with x show ?thesis
        by (auto simp: eo tarAll_append intro!: wp_pure split: if_splits prod.splits option.splits)
    qed
  qed
qed

lemma reads_body:
  assumes "\<And>m. m \<in> set (map (\<lambda>i. the (ids i)) (teFiles A ids)) \<Longrightarrow> validEntry m \<and> (\<exists>n. nodeAt t (elems m) = Some n \<and> matchesEntry m n)"
    and enc: "leEncIndex E (metasOf E ids) = Inr data"
  shows "reads c (backupBody E A ids o1) (did c
    (tarAll A (concat (map memberOps (indexMember data # map (fileMember A (nodeAt t)) (fileMetas A ids)))) o1)) t"
proof (cases "tarDo A (OpHeader (indexHeader data)) o1")
  case h: (Pair e2 o2)
  show ?thesis
  proof (cases "tarDo A (OpData data) o2")
    case d: (Pair e3 o3)
    show ?thesis
    proof (cases "e2 = None \<and> e3 = None")
      case True
      have "reads c (backupFiles A (map (\<lambda>i. the (ids i)) (teFiles A ids)) o3) (did c
          (tarAll A (concat (map (memberOps \<circ> fileMember A (nodeAt t)) (fileMetas A ids))) o3)) t"
        unfolding fileMetas_def by (rule reads_files [OF assms(1)])
      then show ?thesis using enc h d True
        by (simp add: backupBody_def indexMember_def memberOps_def comp_def)
    next
      case False
      then show ?thesis using enc h d
        by (cases e2; cases e3) (auto simp: backupBody_def indexMember_def memberOps_def intro!: wp_pure)
    qed
  qed
qed

section \<open>The outcome of a backup\<close>

definition startOut :: "('z, 'w) tar_env \<Rightarrow> 'w \<Rightarrow> ('z, 'w) tar_out" where
  "startOut A w = \<lparr>toArchive = teStart A, toBroken = None, toSink = w, toCount = 0\<rparr>"

definition membersOf :: "('z, 'w) tar_env \<Rightarrow> bytes \<Rightarrow> tfun \<Rightarrow> id_map \<Rightarrow> member list" where
  "membersOf A data f ids = indexMember data # map (fileMember A f) (fileMetas A ids)"

definition visitsAll :: "('z, 'w) tar_env \<Rightarrow> bool" where
  "visitsAll A \<longleftrightarrow> (\<forall>ids. finite (dom ids) \<longrightarrow> distinct (teFiles A ids) \<and> set (teFiles A ids) = dom ids)"

text \<open>A backup writes all members, or fails because of a failing call, the encoding or the writers.\<close>

definition backedUp :: "ls_env \<Rightarrow> ('z, 'w) tar_env \<Rightarrow> setting \<Rightarrow> tfun \<Rightarrow> id_map \<Rightarrow> 'w \<Rightarrow> (64 word \<times> err option) \<times> 'w \<Rightarrow> bool" where
  "backedUp E A c f ids w res \<longleftrightarrow> (case res of ((n, e), w') \<Rightarrow>
     (case leEncIndex E (metasOf E ids) of
        Inl _ \<Rightarrow> e \<noteq> None
      | Inr data \<Rightarrow> (case tarAll A (archiveOps (membersOf A data f ids)) (startOut A w) of (e', o3) \<Rightarrow>
          if e = None then e' = None \<and> w' = toSink o3 else snd c \<or> e' \<noteq> None)))"

lemma backup_reads:
  assumes "\<And>m. m \<in> set (map (\<lambda>i. the (ids i)) (teFiles A ids)) \<Longrightarrow> validEntry m \<and> (\<exists>n. nodeAt t (elems m) = Some n \<and> matchesEntry m n)"
  shows "reads c (bindA (tryA (osStat [])) (\<lambda>root.
       case root of
         Inl e \<Rightarrow> pureA ((0, Some e), w)
       | Inr _ \<Rightarrow>
           bindA (backupBody E A ids (startOut A w)) (\<lambda>(e, o1).
           case tarDo A OpCloseTar o1 of (tarErr, o2) \<Rightarrow>
           case tarDo A OpCloseGzip o2 of (gzipErr, o3) \<Rightarrow>
             pureA ((toCount o3, errorsJoin [e, tarErr, gzipErr]), toSink o3))))
     (backedUp E A c (nodeAt t) ids w) t"
proof (rule reads_then)
  show "reads c (tryA (osStat [])) (\<lambda>root. isl root \<longrightarrow> snd c) t"
    unfolding osStat_def by (intro wp_try wp_read faultyI) (auto simp: treeStat_def)
  fix root :: "err + dnode" assume r: "isl root \<longrightarrow> snd c"
  let ?close = "\<lambda>(e, o1). case tarDo A OpCloseTar o1 of (tarErr, o2) \<Rightarrow>
       case tarDo A OpCloseGzip o2 of (gzipErr, o3) \<Rightarrow> pureA ((toCount o3, errorsJoin [e, tarErr, gzipErr]), toSink o3)"
  have "reads c (bindA (backupBody E A ids (startOut A w)) ?close) (backedUp E A c (nodeAt t) ids w) t"
  proof (cases "leEncIndex E (metasOf E ids)")
    case (Inl e)
    show ?thesis
    proof (rule reads_then)
      show "reads c (backupBody E A ids (startOut A w)) (\<lambda>x. fst x \<noteq> None) t" by (simp add: backupBody_def Inl wp_pure)
      fix x :: "err option \<times> ('a, 'b) tar_out" assume "fst x \<noteq> None"
      then have "errorsJoin [fst x, e1, e2] \<noteq> None" for e1 e2 by simp
      then show "reads c (?close x) (backedUp E A c (nodeAt t) ids w) t"
        by (auto simp: backedUp_def Inl simp del: errorsJoin_None intro!: wp_pure split: prod.split)
    qed
  next
    case (Inr data)
    let ?ops = "concat (map memberOps (membersOf A data (nodeAt t) ids))"
    show ?thesis
    proof (rule reads_then)
      show "reads c (backupBody E A ids (startOut A w)) (did c (tarAll A ?ops (startOut A w))) t"
        unfolding membersOf_def by (rule reads_body [OF assms Inr])
      fix x :: "err option \<times> ('a, 'b) tar_out" assume d: "did c (tarAll A ?ops (startOut A w)) x"
      obtain e o1 where x: "x = (e, o1)" by fastforce
      obtain tarErr o2 where t2: "tarDo A OpCloseTar o1 = (tarErr, o2)" by fastforce
      obtain gzipErr o3 where t3: "tarDo A OpCloseGzip o2 = (gzipErr, o3)" by fastforce
      have "backedUp E A c (nodeAt t) ids w ((toCount o3, errorsJoin [e, tarErr, gzipErr]), toSink o3)"
      proof (cases "tarAll A ?ops (startOut A w)")
        case (Pair e' oo)
        with d x t2 t3 Inr show ?thesis
          by (cases e'; cases e; cases tarErr; cases gzipErr) (auto simp: backedUp_def archiveOps_def tarAll_append)
      qed
      then show "reads c (?close x) (backedUp E A c (nodeAt t) ids w) t"
        using t2 t3 by (simp add: x wp_pure)
    qed
  qed
  then show "reads c (case root of Inl e \<Rightarrow> pureA ((0, Some e), w)
     | Inr _ \<Rightarrow> bindA (backupBody E A ids (startOut A w)) ?close) (backedUp E A c (nodeAt t) ids w) t"
  proof (cases root)
    case (Inl e)
    with r show ?thesis by (auto simp: backedUp_def intro!: wp_pure split: sum.split prod.split)
  qed simp
qed

text \<open>Every entry of the index of a healthy store is on the disk.\<close>

lemma healthy_files:
  assumes h: "healthy E s" and A: "visitsAll A" and m: "m \<in> set (map (\<lambda>i. the (lsIds s i)) (teFiles A (lsIds s)))"
  shows "m \<in> ran (lsIds s)" "validEntry m \<and> (\<exists>n. nodeAt (dkTree (lsDisk s)) (elems m) = Some n \<and> matchesEntry m n)"
proof -
  from h have st: "entriesOk (lsIds s)" "filesMatch (lsIds s) (nodeAt (dkTree (lsDisk s)))"
    by (auto simp: healthy_def storeTree_def mapsOk_def)
  then have "set (teFiles A (lsIds s)) = dom (lsIds s)" using A by (auto simp: visitsAll_def entriesOk_def)
  with m show r: "m \<in> ran (lsIds s)" by (auto simp: ran_def)
  from ran_entry [OF st(1) r] st(2) r
  show "validEntry m \<and> (\<exists>n. nodeAt (dkTree (lsDisk s)) (elems m) = Some n \<and> matchesEntry m n)"
    by (auto simp: filesMatch_def)
qed

lemma backup_outcome:
  assumes h: "healthy E s" and A: "visitsAll A" and c: "settled c (lsDisk s)" and r: "local_Backup E A w s = (r, s')"
  shows "settled c (lsDisk s') \<and> dkTree (lsDisk s') = dkTree (lsDisk s) \<and> s' = s\<lparr>lsDisk := lsDisk s'\<rparr>"
    "case r of Returns res \<Rightarrow> backedUp E A c (nodeAt (dkTree (lsDisk s))) (lsIds s) w res | Raises e \<Rightarrow> False | Crashed \<Rightarrow> snd c"
proof -
  have nf: "lsFailed s = None" using h by (simp add: healthy_def)
  obtain d' where d': "s' = s\<lparr>lsDisk := d'\<rparr>" and run: "(bindA (tryA (osStat [])) (\<lambda>root.
       case root of
         Inl e \<Rightarrow> pureA ((0, Some e), w)
       | Inr _ \<Rightarrow>
           bindA (backupBody E A (lsIds s) (startOut A w)) (\<lambda>(e, o1).
           case tarDo A OpCloseTar o1 of (tarErr, o2) \<Rightarrow>
           case tarDo A OpCloseGzip o2 of (gzipErr, o3) \<Rightarrow>
             pureA ((toCount o3, errorsJoin [e, tarErr, gzipErr]), toSink o3)))) (lsDisk s) = (r, d')"
    using r nf by (auto simp: local_Backup_def onDisk_def startOut_def [symmetric] split: prod.splits)
  from wpD [OF backup_reads [OF healthy_files(2) [OF h A]] c run]
  show "settled c (lsDisk s') \<and> dkTree (lsDisk s') = dkTree (lsDisk s) \<and> s' = s\<lparr>lsDisk := lsDisk s'\<rparr>"
    "case r of Returns res \<Rightarrow> backedUp E A c (nodeAt (dkTree (lsDisk s))) (lsIds s) w res | Raises e \<Rightarrow> False | Crashed \<Rightarrow> snd c"
    by (auto simp: d' split: run.splits)
qed

section \<open>The size of a backup\<close>

text \<open>Steps that count what they write, whatever they meet on the disk.\<close>

abbreviation counts :: "setting \<Rightarrow> 'a act \<Rightarrow> ('a \<Rightarrow> bool) \<Rightarrow> dtree \<Rightarrow> bool" where
  "counts c m Q t \<equiv> wp c m (\<lambda>x _. Q x) (\<lambda>_ _. True) (\<lambda>_. True) t"

lemma counts_then: "(\<And>t. counts c m R t) \<Longrightarrow> (\<And>x t. R x \<Longrightarrow> counts c (k x) Q t) \<Longrightarrow> counts c (bindA m k) Q t"
  by (rule wp_then [where Q' = "\<lambda>x _. R x"]) auto

lemma counts_read: "counts c (readA f) (\<lambda>_. True) t" "counts c (tryA (readA f)) (\<lambda>_. True) t"
  by (intro wp_try wp_read faultyI; simp)+

context tar_archive
begin

lemma counts_copy: "counts c (copyOut k A p off o1) (\<lambda>(e, o2). counted o1 o2) t"
proof (induction k arbitrary: off o1 t)
  case (Suc k)
  have round: "counts c (case tarDo A (OpData x) o1 of (Some e, o2) \<Rightarrow> pureA (Some e, o2)
      | (None, o2) \<Rightarrow> copyOut k A p (off + length x) o2) (\<lambda>(e, o2). counted o1 o2) t" for x t
  proof (cases "tarDo A (OpData x) o1")
    case (Pair e o2)
    note c2 = tarDo_counted [OF Pair]
    have "counts c (copyOut k A p (off + length x) o2) (\<lambda>(e, o3). counted o1 o3) t"
      by (rule wp_mono [OF Suc.IH]) (use counted_trans [OF c2] in auto)
    with Pair c2 show ?thesis by (cases e) (auto intro: wp_pure)
  qed
  show ?case
    unfolding copyOut.simps osReadFile_def
    by (rule counts_then [OF counts_read(2)])
      (use round in \<open>auto simp: Let_def counted_refl intro!: wp_pure split: sum.split\<close>)
qed (simp add: wp_pure counted_refl)

lemma counts_file: "counts c (backupFile A m o1) (\<lambda>(e, o2). counted o1 o2) t"
proof (cases "mIsDir m")
  case True
  then show ?thesis by (simp add: backupFile_def wp_pure counted_refl)
next
  case False
  let ?find = "tryA (bindA (liftA (rootPath [] (relative (mPath m)))) (\<lambda>p.
      bindA (osStat p) (\<lambda>info. bindA (osStat p) (\<lambda>_. pureA (p, info)))))"
  have fd: "counts c ?find (\<lambda>_. True) t" for t
    unfolding osStat_def by (intro wp_try wp_bind wp_lift wp_read faultyI wp_pure; simp add: wp_bind wp_read wp_pure faultyI)
  have cl: "counts c (bindA (tryA closeFile) (\<lambda>closed. pureA (g closed, oo))) (\<lambda>(e, o2). counted o1 o2) t"
    if "counted o1 oo" for g :: "err + unit \<Rightarrow> err option" and oo t
    unfolding closeFile_def by (rule counts_then [OF counts_read(2)]) (simp add: that wp_pure)
  have one: "counts c (case tarDo A (OpHeader h) o1 of
        (Some e, o2) \<Rightarrow> bindA (tryA closeFile) (\<lambda>_. pureA (Some e, o2))
      | (None, o2) \<Rightarrow> bindA (copyOut k A p 0 o2) (\<lambda>(e, o3). case e of
            Some e \<Rightarrow> bindA (tryA closeFile) (\<lambda>_. pureA (Some e, o3))
          | None \<Rightarrow> bindA (tryA closeFile) (\<lambda>closed. pureA (failedWith closed, o3)))) (\<lambda>(e, o2). counted o1 o2) t" for h k p t
  proof (cases "tarDo A (OpHeader h) o1")
    case (Pair e o2)
    note c2 = tarDo_counted [OF Pair]
    show ?thesis
    proof (cases e)
      case None
      show ?thesis unfolding Pair None prod.case option.case
        by (rule counts_then [OF counts_copy]) (use cl counted_trans [OF c2] in \<open>auto split: option.split\<close>)
    qed (use Pair cl [OF c2] in simp)
  qed
  show ?thesis
    unfolding backupFile_def if_not_P [OF False]
  proof (rule counts_then [OF fd])
    fix found :: "err + (dpath \<times> dnode)" and t
    show "counts c (case found of Inl e \<Rightarrow> pureA (Some e, o1)
        | Inr (p, info) \<Rightarrow> let header = \<lparr>hdName = trimPrefix (mPath m) ''/'', hdMode = teMode A p,
                  hdSize = (case info of RegNode b \<Rightarrow> int (length b) | DirNode \<Rightarrow> 0),
                  hdType = (case info of RegNode b \<Rightarrow> TypeReg | DirNode \<Rightarrow> TypeDir)\<rparr>
            in (case tarDo A (OpHeader header) o1 of
                  (Some e, o2) \<Rightarrow> bindA (tryA closeFile) (\<lambda>_. pureA (Some e, o2))
                | (None, o2) \<Rightarrow> bindA (copyOut (Suc (nat (hdSize header))) A p 0 o2) (\<lambda>(e, o3). case e of
                      Some e \<Rightarrow> bindA (tryA closeFile) (\<lambda>_. pureA (Some e, o3))
                    | None \<Rightarrow> bindA (tryA closeFile) (\<lambda>closed. pureA (failedWith closed, o3))))) (\<lambda>(e, o2). counted o1 o2) t"
      using one by (auto simp: Let_def counted_refl intro: wp_pure split: sum.split)
  qed
qed

lemma counts_files: "counts c (backupFiles A ms o1) (\<lambda>(e, o2). counted o1 o2) t"
proof (induction ms arbitrary: o1 t)
  case (Cons m ms)
  show ?case
    unfolding backupFiles.simps
  proof (rule counts_then [OF counts_file])
    fix x :: "err option \<times> ('z, 'w) tar_out" and t assume x: "case x of (e, o2) \<Rightarrow> counted o1 o2"
    obtain e o2 where eo: "x = (e, o2)" by fastforce
    have "counts c (backupFiles A ms o2) (\<lambda>(e, o3). counted o1 o3) t"
      by (rule wp_mono [OF Cons.IH]) (use x counted_trans in \<open>auto simp: eo\<close>)
    then show "counts c (case x of (e, o2) \<Rightarrow> (case e of Some e \<Rightarrow> pureA (Some e, o2) | None \<Rightarrow> backupFiles A ms o2))
        (\<lambda>(e, o2). counted o1 o2) t"
      using x by (cases e) (auto simp: eo intro: wp_pure)
  qed
qed (simp add: wp_pure counted_refl)

lemma counts_body: "counts c (backupBody E A ids o1) (\<lambda>(e, o2). counted o1 o2) t"
proof (cases "leEncIndex E (metasOf E ids)")
  case (Inr data)
  obtain e2 o2 where h: "tarDo A (OpHeader (indexHeader data)) o1 = (e2, o2)" by fastforce
  obtain e3 o3 where d: "tarDo A (OpData data) o2 = (e3, o3)" by fastforce
  note c2 = tarDo_counted [OF h] and c3 = counted_trans [OF tarDo_counted [OF h] tarDo_counted [OF d]]
  have "counts c (backupFiles A ms o3) (\<lambda>(e, o2). counted o1 o2) t" for ms
    by (rule wp_mono [OF counts_files]) (use counted_trans [OF c3] in auto)
  with c2 c3 show ?thesis using Inr h d
    by (cases e2; cases e3) (auto simp: backupBody_def intro: wp_pure)
qed (simp add: backupBody_def wp_pure counted_refl)

lemma backup_counted:
  assumes c: "settled c (lsDisk s)" and r: "local_Backup E A w s = (Returns ((n, e), w'), s')"
  shows "\<exists>bs. wrote w' = wrote w @ bs \<and> n = of_nat (length bs)"
proof (cases "lsFailed s")
  case (Some e1)
  with r show ?thesis by (auto simp: local_Backup_def intro!: exI [of _ "[]"])
next
  case None
  let ?close = "\<lambda>(e, o1). case tarDo A OpCloseTar o1 of (tarErr, o2) \<Rightarrow>
       case tarDo A OpCloseGzip o2 of (gzipErr, o3) \<Rightarrow> pureA ((toCount o3, errorsJoin [e, tarErr, gzipErr]), toSink o3)"
  let ?act = "bindA (tryA (osStat [])) (\<lambda>root. case root of Inl e \<Rightarrow> pureA ((0, Some e), w)
     | Inr _ \<Rightarrow> bindA (backupBody E A (lsIds s) (startOut A w)) ?close)"
  let ?Q = "\<lambda>((n, e), w'). \<exists>bs. wrote w' = wrote w @ bs \<and> n = of_nat (length bs)"
  obtain d' where run: "?act (lsDisk s) = (Returns ((n, e), w'), d')"
    using r None by (auto simp: local_Backup_def onDisk_def startOut_def split: prod.splits)
  have b: "counts c (bindA (backupBody E A (lsIds s) (startOut A w)) ?close) ?Q t" for t
  proof (rule counts_then [OF counts_body])
    fix x :: "err option \<times> ('z, 'w) tar_out" and t assume "case x of (e, o2) \<Rightarrow> counted (startOut A w) o2"
    then obtain e o1 where x: "x = (e, o1)" "counted (startOut A w) o1" by auto
    obtain tarErr o2 where t2: "tarDo A OpCloseTar o1 = (tarErr, o2)" by fastforce
    obtain gzipErr o3 where t3: "tarDo A OpCloseGzip o2 = (gzipErr, o3)" by fastforce
    from counted_trans [OF x(2) counted_trans [OF tarDo_counted [OF t2] tarDo_counted [OF t3]]]
    show "counts c (?close x) ?Q t" by (auto simp: x(1) t2 t3 counted_def startOut_def intro!: wp_pure)
  qed
  have "counts c ?act ?Q t" for t
    unfolding osStat_def by (rule counts_then [OF counts_read(2)]) (use b in \<open>auto intro!: wp_pure split: sum.split\<close>)
  from wpD [OF this c run] show ?thesis by simp
qed

end

end
