(* ===== verification/Local_Restore.thy ===== *)
theory Local_Restore
  imports Local_Backup
begin

text \<open>
  What a backup contains is the store it was taken from: unpacking the members of a store whose files
  have portable names gives its index and its files, which fit.
\<close>

section \<open>Portable names\<close>

text \<open>Names that the archive's paths, without the leading slash, are read back as.\<close>

definition portable :: "vmeta \<Rightarrow> bool" where
  "portable m \<longleftrightarrow> trimSpace (nameOf (elems m)) = nameOf (elems m) \<and> \<not> prefix ''..'' (nameOf (elems m))"

lemma storagePath_nameOf:
  assumes v: "visible es" "es \<noteq> []" and t: "trimSpace (nameOf es) = nameOf es"
  shows "storagePath (nameOf es) False = Inr (pathOf es False)"
proof -
  have p: "list_all properElem es" using v(1) by (simp add: visible_def)
  have sp: "splitOn slash (nameOf es) = es" by (rule nameOf_split [OF p v(2)])
  have "elemsOf (nameOf es) = es" using elemsOf_join [OF p] by (simp add: nameOf_def)
  then have "cleanPath (slash # nameOf es) = slash # nameOf es"
    using cleanPath_elems [of "nameOf es"] p by (simp add: nameOf_def)
  moreover have "''..'' \<notin> set es" using p by (auto simp: list_all_iff properElem_def)
  ultimately show ?thesis
    using v(1) t sp unfolding storagePath_def by (auto simp: Let_def pathOf_def visible_def list_all_iff list_ex_iff)
qed

section \<open>Unpacking members\<close>

definition restored :: "bytes \<Rightarrow> tfun \<Rightarrow> vmeta set \<Rightarrow> tfun" where
  "restored data f M p =
     (if p = [IndexFileName] then Some (RegNode data)
      else if p = [] \<or> (\<exists>m \<in> M. prefix p (elems m)) then f p else None)"

lemma prefix_last: "es \<noteq> [] \<Longrightarrow> prefix p es \<longleftrightarrow> p = es \<or> prefix p (butlast es)"
  by (cases es rule: rev_cases) auto

lemma unpack_member:
  assumes v: "validEntry m" "\<not> mIsDir m" and pm: "portable m" and f: "okF f" "f (elems m) = Some (RegNode b)"
    and M: "\<And>x. x \<in> M \<Longrightarrow> visible (elems x) \<and> f (elems x) \<noteq> None"
    and mode: "0 \<le> teMode A (elems m)" "teMode A (elems m) \<le> 511"
  shows "unpackEntry E (fst (readMember (fileMember A f m))) (snd (readMember (fileMember A f m))) (maps, restored data f M)
    = Some (maps, restored data f (insert m M))"
proof -
  note vs = validEntry_shape [OF v(1)]
  let ?es = "elems m" and ?F = "restored data f M"
  let ?d = "butlast ?es"
  have ni: "?es \<noteq> [IndexFileName]" "\<And>q. prefix q ?es \<Longrightarrow> q \<noteq> [IndexFileName]"
    using visible_hd [OF vs(1,2)] reserved_names by (auto simp: prefix_def)
  have above: "f q = Some DirNode" if "prefix q ?d" for q
  proof -
    have "strict_prefix q ?es" using that vs(2) by (cases ?es rule: rev_cases) (auto simp: strict_prefix_def)
    then show ?thesis using okF_above [OF f(1), of ?es q] f(2) by simp
  qed
  have way: "\<not> fileOnWay ?F ?d"
    using above ni(2) vs(2) by (auto simp: fileOnWay_iff restored_def prefix_last [OF vs(2)] split: if_splits)
  have at: "withDir ?d ?F ?es \<noteq> Some DirNode"
  proof -
    have "\<not> prefix ?es ?d" using prefix_length_le [of ?es ?d] vs(2) by (cases ?es rule: rev_cases) auto
    then show ?thesis using ni(1) f(2) by (simp add: withDir_def restored_def)
  qed
  have new: "(withDir ?d ?F)(?es \<mapsto> RegNode b) = restored data f (insert m M)"
  proof
    fix p
    show "((withDir ?d ?F)(?es \<mapsto> RegNode b)) p = restored data f (insert m M) p"
      using f(2) ni above by (auto simp: withDir_def restored_def prefix_last [OF vs(2)])
  qed
  have "trimPrefix (pathOf es False) ''/'' = nameOf es" for es by (simp add: pathOf_def trimPrefix_def)
  then have tp: "trimPrefix (mPath m) ''/'' = nameOf ?es" using vs(3) v(2) by metis
  have hd: "fst (readMember (fileMember A f m)) = \<lparr>hdName = nameOf ?es, hdMode = teMode A ?es, hdSize = int (length b), hdType = TypeReg\<rparr>"
    "snd (readMember (fileMember A f m)) = wholeReader b" using f(2) tp by (simp_all add: readMember_def fileMember_def Let_def)
  have nx: "nameOf ?es \<noteq> IndexFileName"
  proof
    assume "nameOf ?es = IndexFileName"
    then have "splitOn slash IndexFileName = ?es" using nameOf_split [OF vs(6,2)] by simp
    then show False using ni(1) splitOn_sep_free [of slash IndexFileName] IndexFileName_proper by (simp add: properElem_def)
  qed
  have sp: "storagePath (nameOf ?es) False = Inr (pathOf ?es False)"
    using storagePath_nameOf [OF vs(1,2)] pm by (simp add: portable_def)
  have ne: "pathOf ?es False \<noteq> ''/''" using nameOf_start [OF vs(6,2)] by (simp add: pathOf_def)
  have rl: "relative (pathOf ?es False) = nameOf ?es" "elemsOf (pathOf ?es False) = ?es"
    using relative_pathOf [OF vs(6,2)] elemsOf_pathOf [OF vs(6)] by simp_all
  have "\<not> prefix ''..'' (nameOf ?es)" using pm by (simp add: portable_def)
  then show ?thesis
    using nx sp ne rl way at mode
    by (simp add: hd unpackEntry_def Let_def new [symmetric] wholeReader_def MaxUint32_def)
qed

lemma unpack_members:
  assumes f: "okF f" and mode: "\<And>p. 0 \<le> teMode A p \<and> teMode A p \<le> 511"
    and ms: "\<And>m. m \<in> set ms \<Longrightarrow> validEntry m \<and> \<not> mIsDir m \<and> portable m \<and> (\<exists>b. f (elems m) = Some (RegNode b))"
  shows "(\<And>x. x \<in> M \<Longrightarrow> visible (elems x) \<and> f (elems x) \<noteq> None) \<Longrightarrow>
    unpackEntries E (map (readMember \<circ> fileMember A f) ms) (maps, restored data f M)
    = Some (maps, restored data f (M \<union> set ms))"
  using ms
proof (induction ms arbitrary: M)
  case (Cons m ms)
  from Cons.prems(2) [of m] obtain b where m: "validEntry m" "\<not> mIsDir m" "portable m" "f (elems m) = Some (RegNode b)" by auto
  have "unpackEntries E (map (readMember \<circ> fileMember A f) ms) (maps, restored data f (insert m M))
      = Some (maps, restored data f (insert m M \<union> set ms))"
    by (rule Cons.IH) (use Cons.prems validEntry_shape(1) [OF m(1)] m(4) in auto)
  then show ?case
    using unpack_member [OF m(1-3) f m(4) Cons.prems(1), where A = A] mode
    by (cases "readMember (fileMember A f m)") (simp add: comp_def)
qed simp

section \<open>A backup fits\<close>

lemma entry_node:
  assumes "filesMatch ids f" and "x \<in> ran ids"
  shows "mIsDir x \<Longrightarrow> f (elems x) = Some DirNode"
    "\<not> mIsDir x \<Longrightarrow> \<exists>b. f (elems x) = Some (RegNode b) \<and> int (length b) = mSize x"
proof -
  from assms obtain n where "f (elems x) = Some n" "matchesEntry x n" by (auto simp: filesMatch_def)
  then show "mIsDir x \<Longrightarrow> f (elems x) = Some DirNode"
    "\<not> mIsDir x \<Longrightarrow> \<exists>b. f (elems x) = Some (RegNode b) \<and> int (length b) = mSize x"
    by (cases n; auto simp: matchesEntry_def)+
qed

lemma restored_fits:
  assumes st: "storeTree E (ids, paths) f" and M: "M = {m \<in> ran ids. \<not> mIsDir m}"
  shows "fits (ids, paths) (restored data f M)" "lsView (ids, paths) (restored data f M) = lsView (ids, paths) f"
proof -
  from st have f: "okF f" and m: "mapsOk (ids, paths)" and mt: "filesMatch ids f" by (auto simp: storeTree_def)
  let ?F = "restored data f M" and ?R = "ran ids"
  have v: "validEntry x" if "x \<in> ?R" for x using ran_entry [OF mapsOkD(1) [OF m] that] by simp
  have ni: "\<not> prefix [IndexFileName] (elems x)" if "x \<in> ?R" for x
    using visible_hd [OF validEntry_shape(1,2) [OF v [OF that]]] reserved_names by (auto simp: prefix_def)
  have ni': "elems x \<noteq> [IndexFileName]" if "x \<in> ?R" for x using ni [OF that] by auto
  note dir = entry_node(1) [OF mt]
  have reg: "\<exists>b. f (elems x) = Some (RegNode b) \<and> int (length b) = mSize x \<and> ?F (elems x) = f (elems x)" if "x \<in> ?R" "\<not> mIsDir x" for x
    using entry_node(2) [OF mt that] that ni' [OF that(1)] by (auto simp: restored_def M)
  have sub: "?F p = Some n \<Longrightarrow> p \<noteq> [IndexFileName] \<Longrightarrow> f p = Some n" for p n by (auto simp: restored_def split: if_splits)
  have way: "\<not> fileOnWay ?F (elems x)" if x: "x \<in> ?R" "mIsDir x" for x
  proof
    assume "fileOnWay ?F (elems x)"
    then obtain q b where q: "prefix q (elems x)" "?F q = Some (RegNode b)" by (auto simp: fileOnWay_iff)
    then have "f q = Some (RegNode b)" using sub ni [OF x(1)] by auto
    moreover have "f q = Some DirNode"
      using q(1) dir [OF x] okF_above [OF f, of "elems x" q] by (cases "q = elems x") (auto simp: strict_prefix_def)
    ultimately show False by simp
  qed
  have key: "x \<in> ?R \<Longrightarrow> paths (keyOf (elems x) n) = Some x" if "n = DirNode \<longleftrightarrow> mIsDir x" for x n
    using validEntry_shape(2,3) [OF v, of x] mapsOkD(3) [OF m, of "mPath x" x] that
    by (simp add: keyOf_def pathOf_def nameOf_def)
  have walk: "p = [] \<or> p = [IndexFileName] \<or> (\<exists>x. paths (keyOf p n) = Some x \<and> matchesEntry x n)"
    if p: "withDirs ?R ?F p = Some n" for p n
  proof (cases "p = [] \<or> p = [IndexFileName]")
    case False
    have isdir: ?thesis if "d \<in> ?R" "mIsDir d" "elems d = p" "n = DirNode" for d
      using key [of n d] that by (auto simp: matchesEntry_def)
    show ?thesis
    proof (cases "\<exists>d \<in> ?R. mIsDir d \<and> prefix p (elems d)")
      case True
      then obtain d where d: "d \<in> ?R" "mIsDir d" "prefix p (elems d)" by blast
      have "n = DirNode" using p True by (auto simp: withDirs_def)
      with parents_chain [OF m d(1,3)] d False isdir show ?thesis by auto
    next
      case nd: False
      then have Fp: "?F p = Some n" using p by (auto simp: withDirs_def split: if_splits)
      with False obtain x where x: "x \<in> ?R" "\<not> mIsDir x" "prefix p (elems x)" by (auto simp: restored_def M split: if_splits)
      have "p = elems x" using parents_chain [OF m x(1,3)] False nd by auto
      with reg [OF x(1,2)] Fp key [of n x] x show ?thesis by (auto simp: matchesEntry_def)
    qed
  qed blast
  have "dirsFit ?R ?F" using way reg by (fastforce simp: dirsFit_def withDirs_def)
  with walk show "fits (ids, paths) ?F" by (simp add: fits_def walkFits_def restored_def [of data f M "[IndexFileName]"])
  have "fileAt ?F x = fileAt f x" if x: "x \<in> ?R" for x
  proof (cases "mIsDir x")
    case True
    have "?F (elems x) \<noteq> Some (RegNode b)" for b using sub [of "elems x"] ni' [OF x] dir [OF x True] by auto
    with dir [OF x True] show ?thesis by (auto simp: fileAt_def split: option.split dnode.split)
  qed (use reg [OF x] in \<open>auto simp: fileAt_def\<close>)
  then have "paths p = Some x \<Longrightarrow> fileAt ?F x = fileAt f x" for p x using mapsOkD(3) [OF m] by simp
  then show "lsView (ids, paths) ?F = lsView (ids, paths) f"
    by (auto simp: lsView_def map_option_case split: option.split)
qed

section \<open>The archive of a store\<close>

definition portableStore :: "lstore \<Rightarrow> bool" where
  "portableStore s \<longleftrightarrow> (\<forall>m \<in> ran (lsIds s). mIsDir m \<or> portable m)"

definition plainModes :: "('z, 'w) tar_env \<Rightarrow> bool" where
  "plainModes A \<longleftrightarrow> (\<forall>p. 0 \<le> teMode A p \<and> teMode A p \<le> 511)"

lemma fileMetas_set:
  assumes h: "healthy E s" and A: "visitsAll A"
  shows "set (fileMetas A (lsIds s)) = {m \<in> ran (lsIds s). \<not> mIsDir m}"
proof -
  have "finite (dom (lsIds s))" using h by (auto simp: healthy_def storeTree_def mapsOk_def entriesOk_def)
  then have "set (teFiles A (lsIds s)) = dom (lsIds s)" using A by (simp add: visitsAll_def)
  then show ?thesis by (auto simp: fileMetas_def ran_def image_iff dom_def)
qed

lemma members_ok:
  assumes h: "healthy E s" and A: "visitsAll A" "plainModes A"
  shows "list_all member_ok (membersOf A data (nodeAt (dkTree (lsDisk s))) (lsIds s))"
proof -
  let ?f = "nodeAt (dkTree (lsDisk s))"
  have "utf8 IndexFileName" by code_simp
  moreover have "CHR 0x00 \<notin> set IndexFileName \<and> IndexFileName \<noteq> [] \<and> \<not> suffix ''/'' IndexFileName"
    by (simp add: IndexFileName_def suffix_def)
  ultimately have "member_ok (indexMember data)" by (simp add: member_ok_def indexMember_def indexHeader_def)
  moreover have "member_ok (fileMember A ?f m)" if m: "m \<in> set (fileMetas A (lsIds s))" for m
  proof -
    from m have mr: "m \<in> ran (lsIds s)" "\<not> mIsDir m" by (simp_all add: fileMetas_set [OF h A(1)])
    from h have st: "storeTree E (lsIds s, lsPaths s) ?f" by (simp add: healthy_def)
    then have e: "entriesOk (lsIds s)" by (auto simp: storeTree_def mapsOk_def)
    have v: "validEntry m" using ran_entry [OF e mr(1)] by simp
    note vs = validEntry_shape [OF v]
    have "trimPrefix (pathOf es False) ''/'' = nameOf es" for es by (simp add: pathOf_def trimPrefix_def)
    then have tp: "trimPrefix (mPath m) ''/'' = nameOf (elems m)" using vs(3) mr(2) by metis
    have "utf8 (mPath m)" using st mr(1) by (auto simp: storeTree_def textMeta_def)
    then have "utf8 (pathOf (elems m) False)" using vs(3) mr(2) by metis
    then have u: "utf8 (nameOf (elems m))" by (simp add: pathOf_def)
    have "CHR 0x00 \<notin> set (nameOf (elems m))"
      using vs(1) by (auto simp: visible_def containsAny_def list_ex_iff badChars_def)
    moreover have "nameOf (elems m) \<noteq> []" "last (nameOf (elems m)) \<noteq> slash" using nameOf_ends [OF vs(6,2)] by (metis list.distinct(1))+
    then have "nameOf (elems m) \<noteq> [] \<and> \<not> suffix ''/'' (nameOf (elems m))" by (auto simp: suffix_def)
    ultimately show ?thesis
      using u A(2) by (simp add: member_ok_def fileMember_def Let_def tp plainModes_def)
  qed
  ultimately show ?thesis by (simp add: membersOf_def list_all_iff)
qed

text \<open>A backup fails only because of the disk, the encoding or the writer it is given.\<close>

definition takesAll :: "('z, 'w) tar_env \<Rightarrow> bool" where
  "takesAll A \<longleftrightarrow> (\<forall>p w. snd (fst (teSink A p w)) = None)"

lemma backup_fails:
  assumes A: "tar_archive A wrote" "visitsAll A" "plainModes A" and h: "healthy E s"
    and b: "backedUp E A c (nodeAt (dkTree (lsDisk s))) (lsIds s) w ((n, e), w')" and e: "e \<noteq> None"
  shows "snd c \<or> \<not> encodes E \<or> \<not> takesAll A"
proof (cases "leEncIndex E (metasOf E (lsIds s))")
  case (Inl x)
  then have "\<not> encodes E" unfolding encodes_def by (metis isl_def)
  then show ?thesis by simp
next
  case (Inr data)
  let ?all = "tarAll A (archiveOps (membersOf A data (nodeAt (dkTree (lsDisk s))) (lsIds s))) (startOut A w)"
  have "takesAll A \<Longrightarrow> fst ?all = None"
    using tar_archive.members_succeed [OF A(1) _ members_ok [OF h A(2,3)], of data w]
    by (simp add: takesAll_def startOut_def)
  with b e Inr show ?thesis by (auto simp: backedUp_def split: prod.splits)
qed

lemma backup_unpacks:
  assumes A: "tar_archive A wrote" "visitsAll A" "plainModes A" and E: "codecOk E" and h: "healthy E s" and p: "portableStore s"
    and w: "wrote w = []" and b: "backedUp E A c (nodeAt (dkTree (lsDisk s))) (lsIds s) w ((n, None), w')"
  shows "\<exists>F. unpack E (teOpen A) (wholeReader (wrote w')) = Some ((lsIds s, lsPaths s), F) \<and> fits (lsIds s, lsPaths s) F
    \<and> lsView (lsIds s, lsPaths s) F = storeView s"
proof -
  let ?f = "nodeAt (dkTree (lsDisk s))" and ?ids = "lsIds s"
  from h have st: "storeTree E (?ids, lsPaths s) ?f" by (simp add: healthy_def)
  then have m: "mapsOk (?ids, lsPaths s)" and tm: "\<And>x. x \<in> ran ?ids \<Longrightarrow> textMeta x" and f: "okF ?f" and mt: "filesMatch ?ids ?f"
    by (auto simp: storeTree_def)
  from b obtain data o3 where d: "leEncIndex E (metasOf E ?ids) = Inr data"
    and t: "tarAll A (archiveOps (membersOf A data ?f ?ids)) (startOut A w) = (None, o3)" "w' = toSink o3"
    by (auto simp: backedUp_def split: sum.splits prod.splits)
  from tar_archive.written_opens [OF A(1) t(1) [unfolded startOut_def] w members_ok [OF h A(2,3)]]
  obtain ar where ar: "teOpen A (wholeReader (wrote w')) = Inr ar"
    "arEntries ar = map readMember (membersOf A data ?f ?ids)" "arEnd ar = ErrEOF" "arRest ar = wholeReader []"
    by (auto simp: t(2))
  have ix: "readIndex E data = Inr (?ids, lsPaths s)" using reads_back [OF E, of "(?ids, lsPaths s)" data] m tm d by simp
  let ?M = "{m \<in> ran ?ids. \<not> mIsDir m}"
  have e0: "emptyTree([IndexFileName] \<mapsto> RegNode data) = restored data ?f {}"
    by (auto simp: emptyTree_def restored_def fun_eq_iff)
  have reg: "\<exists>b. ?f (elems x) = Some (RegNode b)" if "x \<in> ?M" for x
    using entry_node(2) [OF mt, of x] that by auto
  have "unpackEntries E (map (readMember \<circ> fileMember A ?f) (fileMetas A ?ids)) ((?ids, lsPaths s), restored data ?f {})
      = Some ((?ids, lsPaths s), restored data ?f ({} \<union> set (fileMetas A ?ids)))"
    by (rule unpack_members [OF f])
      (use A(3) p reg ran_entry [OF mapsOkD(1) [OF m]] in \<open>auto simp: plainModes_def portableStore_def fileMetas_set [OF h A(2)]\<close>)
  then have "unpackEntries E (arEntries ar) ((Map.empty, Map.empty), emptyTree) = Some ((?ids, lsPaths s), restored data ?f ?M)"
    using ix e0 fileMetas_set [OF h A(2)]
    by (simp add: ar(2) membersOf_def indexMember_def readMember_def unpackEntry_def indexHeader_def wholeReader_def emptyTree_def comp_def)
  moreover have "errorsIs ErrEOF ErrEOF" "trailingError (wholeReader []) = None"
    by (simp_all add: trailingError_def wholeReader_def trailingLimit_def)
  ultimately have "unpack E (teOpen A) (wholeReader (wrote w')) = Some ((?ids, lsPaths s), restored data ?f ?M)"
    by (simp add: unpack_def ar)
  with restored_fits [OF st refl, of data] show ?thesis by (auto simp: storeView_def)
qed

end
