(* ===== verification/Archive_Theorems.thy ===== *)
theory Archive_Theorems
  imports Local_Restore Local_Theorems
begin

text \<open>
  What \<open>Backup\<close> and \<open>Load\<close> of the local driver promise: a backup changes nothing and reports its size,
  a load replaces the whole file system or nothing, and a loaded backup is the store it was taken
  from; and the names with which that fails. The archive formats are instantiated by one in memory.
\<close>

section \<open>Archives in memory\<close>

type_synonym tar_state = "(tar_header \<times> bytes) list"

definition entryTexts :: "tar_header \<times> bytes \<Rightarrow> string list" where
  "entryTexts e = [hdName (fst e), intText (hdMode (fst e)), snd e]"

fun textsEntries :: "string list \<Rightarrow> (tar_header \<times> reader) list" where
  "textsEntries (n # m # b # rest) =
     (\<lparr>hdName = n, hdMode = textInt m, hdSize = int (length b), hdType = TypeReg\<rparr>, wholeReader b) # textsEntries rest"
| "textsEntries _ = []"

fun memWrite :: "tar_op \<Rightarrow> tar_state \<Rightarrow> bytes list \<times> err option \<times> tar_state" where
  "memWrite (OpHeader h) z = ([], None, z @ [(h, [])])"
| "memWrite (OpData b) z = ([], None, butlast z @ [(fst (last z), snd (last z) @ b)])"
| "memWrite OpCloseTar z = ([], None, z)"
| "memWrite OpCloseGzip z = ([putTexts (concat (map entryTexts z))], None, z)"

definition memTar :: "(tar_state, bytes) tar_env" where
  "memTar = \<lparr>teOpen = \<lambda>r. if rEnd r \<noteq> ErrEOF then Inl (rEnd r)
       else Inr \<lparr>arEntries = textsEntries (getTexts (rData r)), arEnd = ErrEOF, arRest = wholeReader []\<rparr>,
     teStart = [], teWrite = memWrite, teSink = \<lambda>p w. ((int (length p), None), w @ p),
     teFiles = \<lambda>ids. sorted_list_of_set (dom ids), teMode = \<lambda>p. 420\<rparr>"

lemma memTar_simps [simp]:
  "teWrite memTar = memWrite" "teStart memTar = []" "teSink memTar p w = ((int (length p), None), w @ p)"
  "teFiles memTar ids = sorted_list_of_set (dom ids)" "teMode memTar q = 420" "map_option ((@) []) x = x"
  by (simp_all add: memTar_def) (cases x; simp)

lemma memTar_data: "emitted memTar (z @ [(h, b)]) (map OpData ds @ ops) = emitted memTar (z @ [(h, b @ concat ds)]) ops"
  by (induction ds arbitrary: b) simp_all

lemma memTar_members: "emitted memTar z (concat (map memberOps ms) @ ops) = emitted memTar (z @ map (\<lambda>m. (fst m, concat (snd m))) ms) ops"
proof (induction ms arbitrary: z)
  case (Cons m ms)
  have "emitted memTar z (concat (map memberOps (m # ms)) @ ops)
      = emitted memTar (z @ [(fst m, [])]) (map OpData (snd m) @ concat (map memberOps ms) @ ops)"
    by (simp add: memberOps_def)
  with Cons show ?case by (simp add: memTar_data)
qed simp

lemma textsEntries_members:
  "list_all member_ok ms \<Longrightarrow> textsEntries (concat (map entryTexts (map (\<lambda>m. (fst m, concat (snd m))) ms))) = map readMember ms"
  by (induction ms) (auto simp: entryTexts_def member_ok_def readMember_def)

interpretation memtar: tar_archive memTar "\<lambda>w. w"
proof
  show "0 \<le> n \<and> n \<le> int (length p) \<and> w' = w @ take (nat n) p \<and> (e = None \<longrightarrow> n = int (length p))"
    if "teSink memTar p w = ((n, e), w')" for p w n e w'
    using that by auto
  show "\<exists>ps ar. emitted memTar (teStart memTar) (archiveOps ms) = Some ps
        \<and> teOpen memTar (wholeReader (concat ps)) = Inr ar
        \<and> arEntries ar = map readMember ms \<and> arEnd ar = ErrEOF \<and> arRest ar = wholeReader []"
    if ok: "list_all member_ok ms" for ms
  proof -
    let ?b = "putTexts (concat (map entryTexts (map (\<lambda>m. (fst m, concat (snd m))) ms)))"
    have "emitted memTar (teStart memTar) (archiveOps ms) = Some [?b]"
      using memTar_members [of "teStart memTar" ms] by (simp add: archiveOps_def)
    moreover have "teOpen memTar (wholeReader ?b) = Inr \<lparr>arEntries = map readMember ms, arEnd = ErrEOF, arRest = wholeReader []\<rparr>"
      using textsEntries_members [OF ok] by (simp add: memTar_def wholeReader_def getTexts_putTexts)
    ultimately show ?thesis by auto
  qed
qed

lemma memTar_plain: "visitsAll memTar" "plainModes memTar"
  by (auto simp: visitsAll_def plainModes_def)

section \<open>Backup\<close>

text \<open> C40. \<open>Backup\<close> of the local driver leaves the file system as it is, whatever fails; the size it
  returns, with or without an error, is the number of bytes it has written, in 64 bits; and it fails
  only after a failing call, an encoding error or an error of the writer it is given. \<close>

theorem backup_exact:
  assumes "tar_archive A wrote" and "visitsAll A" and "plainModes A" and "healthy E s" and "settled c (lsDisk s)"
    and "local_Backup E A w s = (r, s')"
  shows "settled c (lsDisk s') \<and> healthy E s' \<and> storeView s' = storeView s \<and> (case r of
      Returns ((n, e), w') \<Rightarrow> (\<exists>bs. wrote w' = wrote w @ bs \<and> n = of_nat (length bs))
        \<and> (e \<noteq> None \<longrightarrow> snd c \<or> \<not> encodes E \<or> \<not> takesAll A)
    | Raises e \<Rightarrow> False
    | Crashed \<Rightarrow> snd c)"
proof -
  note b = backup_outcome [OF assms(4,2,5,6)]
  have "healthy E s'" "storeView s' = storeView s"
    using b(1) assms(4) by (metis (no_types, lifting) healthy_def storeView_def lstore.select_convs lstore.surjective lstore.update_convs(4))+
  moreover have "snd c \<or> \<not> encodes E \<or> \<not> takesAll A" if "r = Returns ((n, e), w')" "e \<noteq> None" for n e w'
    using b(2) backup_fails [OF assms(1-4) _ that(2)] that(1) by simp
  ultimately show ?thesis
    using b tar_archive.backup_counted [OF assms(1,5)] assms(6) by (auto split: run.splits)
qed

theorem backup_exact_witness:
  "\<exists>n w' s'. local_Backup mem_le memTar [] fileDrive = (Returns ((n, None), w'), s') \<and> n = of_nat (length w')"
proof -
  obtain r s' where r: "local_Backup mem_le memTar [] fileDrive = (r, s')" by fastforce
  have "takesAll memTar" by (simp add: takesAll_def)
  with backup_exact [OF memtar.tar_archive_axioms memTar_plain fileDrive_facts(1,3) r] show ?thesis
    using r by (auto simp: mem_encodes split: run.splits)
qed

section \<open>Load\<close>

text \<open>The file system an archive stands for: its index and its files, if they fit.\<close>

definition archiveView :: "ls_env \<Rightarrow> (reader \<Rightarrow> err + archive) \<Rightarrow> reader \<Rightarrow> ls_view option" where
  "archiveView E dec r = (case unpack E dec r of
     None \<Rightarrow> None
   | Some (maps, F) \<Rightarrow> if fits maps F then Some (lsView maps F) else None)"

text \<open> C39. Whatever system calls fail and wherever the process dies, \<open>Load\<close> of the local driver either
  leaves the file system as it was or replaces it by exactly the entries and files of the archive,
  and the driver, whenever it is opened again, shows one of the two; an archive whose files are not
  those of its index, or that cannot be unpacked, is refused. This is under two conditions. As for
  \<open>Write\<close>, \<open>RemoveAll\<close> removes the journal of a transaction before the files next to it, which Go does
  not promise: otherwise a removal that breaks off after the staged files loses what they replaced
  (\<open>recovery_loses\<close>). And no name at the top of the directory, also of files that are not the
  driver's, holds a backslash or a NUL or is not valid text (\<open>tidy\<close>): an interrupted load would leave
  a journal with such a name, which recovery refuses. \<close>

theorem local_load_atomic:
  assumes "codecOk E" and "decodesText E" and "healthy E s" and "settled c (lsDisk s)" and "orderly (fst c)" and "journalFirst (fst c)"
    and "tidy (nodeAt (dkTree (lsDisk s)))" and "local_Load E dec rd s = (r, s')"
  shows "case archiveView E dec rd of
      None \<Rightarrow> r \<noteq> Returns () \<and> atomically E c True (storeView s) (storeView s) () r s'
    | Some v \<Rightarrow> atomically E c (\<not> encodes E) (storeView s) v () r s'"
proof -
  have o: "orderOk E" using assms(1) by (simp add: codecOk_def)
  have utf: "\<forall>m \<in> ran (fst maps). textMeta m" if "unpack E dec rd = Some (maps, F)" for maps F
    using unpack_maps [OF o that] assms(2) by (simp add: readMaps_def)
  show ?thesis
  proof (cases "archiveView E dec rd")
    case None
    then have "\<not> loadable E dec rd" by (auto simp: archiveView_def loadable_def split: option.splits prod.splits if_splits)
    from load_refused [OF assms(1,3-7) this utf assms(8)] None show ?thesis by simp
  next
    case (Some v)
    then obtain maps F where u: "unpack E dec rd = Some (maps, F)" "fits maps F" "v = lsView maps F"
      by (auto simp: archiveView_def split: option.splits prod.splits if_splits)
    then have "loadable E dec rd" by (simp add: loadable_def)
    with load_view [OF assms(1,3-7) _ utf _ assms(8), where refused = "\<not> encodes E" and newView = v] u Some show ?thesis by auto
  qed
qed

text \<open>An encoding that accepts only valid text, and a process that dies during the moves of a load.\<close>

definition text_le :: ls_env where
  "text_le = mem_le\<lparr>leDecIndex := \<lambda>b. let metas = textsMetas (getTexts b) in
     if list_all textMeta metas then Inr metas else Inl (ErrOther ''invalid text'')\<rparr>"

lemma text_le_facts: "codecOk text_le" "decodesText text_le" "encodes text_le" "healthy text_le (emptyDrive fs)"
proof -
  show "codecOk text_le"
    using mem_le_codec by (auto simp: codecOk_def orderOk_def text_le_def Let_def getTexts_putTexts textsMetas_metaTexts)
  show "decodesText text_le" by (auto simp: decodesText_def text_le_def Let_def split: if_splits)
  show "encodes text_le" using mem_encodes by (simp add: encodes_def text_le_def)
  show "healthy text_le (emptyDrive fs)"
    using emptyDrive_healthy [of fs] by (auto simp: healthy_def storeTree_def indexed_def emptyDrive_def nodeAt_def)
qed

lemma emptyDrive_tidy: "tidy (nodeAt (dkTree (lsDisk (emptyDrive fs))))"
  by (simp add: tidy_def emptyDrive_def nodeAt_def)

theorem local_load_atomic_witness:
  "case local_Load text_le (teOpen memTar) smallReader (emptyDrive (replicate 9 Works @ [Crashes 0])) of (r, s') \<Rightarrow>
     (case archiveView text_le (teOpen memTar) smallReader of
        None \<Rightarrow> r \<noteq> Returns () \<and> atomically text_le (journalOrder, True) True Map.empty Map.empty () r s'
      | Some v \<Rightarrow> atomically text_le (journalOrder, True) False Map.empty v () r s')"
proof -
  let ?s = "emptyDrive (replicate 9 Works @ [Crashes 0])"
  obtain r s' where r: "local_Load text_le (teOpen memTar) smallReader ?s = (r, s')" by fastforce
  have v: "storeView ?s = Map.empty" by (simp add: storeView_def lsView_def emptyDrive_def fun_eq_iff)
  from local_load_atomic [OF text_le_facts(1,2,4) empty_settled(1) [OF fewFaults] _ _ emptyDrive_tidy r]
  show ?thesis using r text_le_facts(3) by (simp add: v journalOrder_orderly journalOrder_first split: option.splits)
qed

section \<open>Loading a backup\<close>

text \<open> C38. What \<open>Backup\<close> has written without an error, \<open>Load\<close> of any local drive takes: the drive then
  shows exactly the file system of the store that was backed up, provided its file names survive
  the trimming of archive paths and do not start with two dots. And whatever system calls fail during
  the load, and wherever the process dies, the drive shows that or what it showed before, under the two
  conditions of a load: that \<open>RemoveAll\<close> removes the journal of a transaction before the files next to
  it (without which a removal that breaks off loses files, \<open>recovery_loses\<close>), and that the names at the
  top of the target's directory are ones a journal can hold (\<open>tidy\<close>: no backslash, no NUL, valid text). \<close>

theorem backup_restores:
  assumes "tar_archive A wrote" and "visitsAll A" and "plainModes A" and "codecOk E"
    and "healthy E s" and "settled c (lsDisk s)" and "portableStore s" and "wrote w = []"
    and "local_Backup E A w s = (Returns ((n, None), w'), s1)"
    and "healthy E s0" and "settled c0 (lsDisk s0)" and "orderly (fst c0)" and "journalFirst (fst c0)"
    and "tidy (nodeAt (dkTree (lsDisk s0)))"
    and "local_Load E (teOpen A) (wholeReader (wrote w')) s0 = (r, s2)"
  shows "atomically E c0 (\<not> encodes E) (storeView s0) (storeView s) () r s2"
proof -
  have "backedUp E A c (nodeAt (dkTree (lsDisk s))) (lsIds s) w ((n, None), w')"
    using backup_outcome(2) [OF assms(5,2,6,9)] by simp
  from backup_unpacks [OF assms(1-5,7,8) this] obtain F where
    u: "unpack E (teOpen A) (wholeReader (wrote w')) = Some ((lsIds s, lsPaths s), F)" "fits (lsIds s, lsPaths s) F"
      "lsView (lsIds s, lsPaths s) F = storeView s" by blast
  have "\<forall>m \<in> ran (lsIds s). textMeta m" using assms(5) by (auto simp: healthy_def storeTree_def)
  with u show ?thesis
    by (intro load_view [OF assms(4,10-14) _ _ _ assms(15)]) (auto simp: loadable_def)
qed

lemma fileDrive_portable: "portableStore fileDrive"
proof -
  have "portable m" if m: "m \<in> ran (lsIds fileDrive)" for m
  proof -
    have "mapsOk (lsIds fileDrive, lsPaths fileDrive)" using fileDrive_facts(1) by (simp add: healthy_def storeTree_def)
    with m have "lsPaths fileDrive (mPath m) = Some m" using mapsOkD(3) by blast
    then have "storeView fileDrive (mPath m) \<noteq> None" by (simp add: storeView_def lsView_def)
    then have "mPath m = ''/a''" by (simp add: fileDrive_facts(4) split: if_splits)
    moreover have "trimSpace ''a'' = ''a''" by (rule trimSpace_keeps) (use goSpaces_ends in \<open>simp_all add: list_all_iff\<close>)
    ultimately show ?thesis by (simp add: portable_def elemsOf_def nameOf_def)
  qed
  then show ?thesis by (simp add: portableStore_def)
qed

theorem backup_restores_witness:
  "\<exists>n w' s1. local_Backup mem_le memTar [] fileDrive = (Returns ((n, None), w'), s1)
     \<and> (case local_Load mem_le (teOpen memTar) (wholeReader w') (emptyDrive []) of (r, s2) \<Rightarrow>
          atomically mem_le (journalOrder, False) False Map.empty [''/a'' \<mapsto> (fileEntry 1 0 ''/a'' 2, Some ''xy'')] () r s2)"
proof -
  obtain r1 s1 where b: "local_Backup mem_le memTar [] fileDrive = (r1, s1)" by fastforce
  have t: "takesAll memTar" by (simp add: takesAll_def)
  note bo = backup_outcome(2) [OF fileDrive_facts(1) memTar_plain(1) fileDrive_facts(3) b]
  have "\<exists>n w'. r1 = Returns ((n, None), w')"
    using bo backup_fails [OF memtar.tar_archive_axioms memTar_plain fileDrive_facts(1)] t mem_encodes
    by (cases r1) fastforce+
  then obtain n w' where x: "r1 = Returns ((n, None), w')" by blast
  obtain r s2 where l: "local_Load mem_le (teOpen memTar) (wholeReader w') (emptyDrive []) = (r, s2)" by fastforce
  have v: "storeView (emptyDrive []) = Map.empty" by (simp add: storeView_def lsView_def emptyDrive_def fun_eq_iff)
  from backup_restores [OF memtar.tar_archive_axioms memTar_plain mem_le_codec fileDrive_facts(1,3) fileDrive_portable _ b [unfolded x]
      emptyDrive_healthy empty_settled(2) _ _ emptyDrive_tidy l]
  have "atomically mem_le (journalOrder, False) False Map.empty [''/a'' \<mapsto> (fileEntry 1 0 ''/a'' 2, Some ''xy'')] () r s2"
    by (simp add: v journalOrder_orderly journalOrder_first mem_encodes fileDrive_facts(4))
  with b x l show ?thesis by auto
qed

section \<open>Names that are not restored\<close>

text \<open>
  Two names that \<open>Create\<close> accepts and \<open>Backup\<close> writes, and that \<open>Load\<close> does not give back: one that starts
  with two dots is taken for a path out of the directory, and a space before the first name, which
  follows a slash in the index, is trimmed from the archive's path.
\<close>

theorem names_not_restored:
  "storagePath ''/..a'' False = Inr ''/..a''" "hdName h = ''..a'' \<Longrightarrow> hdType h = TypeReg \<Longrightarrow> unpackEntry E h rd st = None"
  "storagePath ''/ a'' False = Inr ''/ a''" "storagePath '' a'' False = Inr ''/a''"
proof -
  have ends: "list_all (\<lambda>w. w \<noteq> [] \<and> hd w \<notin> {slash, CHR ''a'', CHR ''.''} \<and> last w \<noteq> CHR ''a'') goSpaces" by code_simp
  have keeps: "trimSpace ''/..a'' = ''/..a''" "trimSpace ''..a'' = ''..a''" "trimSpace ''/ a'' = ''/ a''" "trimSpace ''a'' = ''a''"
    by (rule trimSpace_keeps; use ends in \<open>simp add: list_all_iff\<close>)+
  have "leadSpace '' a'' = Some '' ''" by code_simp
  then have "trimSpace '' a'' = trimSpace ''a''" by (simp add: trimSpace_def trimLeft.simps [of "'' a''"])
  note t = keeps this [unfolded keeps(4)]
  have sp: "storagePath ''..a'' False = Inr ''/..a''"
    unfolding storagePath_def t by (simp add: containsAny_def badChars_def cleanPath_def cleanElems_def)
  show "storagePath ''/..a'' False = Inr ''/..a''" "storagePath ''/ a'' False = Inr ''/ a''" "storagePath '' a'' False = Inr ''/a''"
    unfolding storagePath_def t by (simp_all add: containsAny_def badChars_def cleanPath_def cleanElems_def)
  assume h: "hdName h = ''..a''" "hdType h = TypeReg"
  then have "hdName h \<noteq> IndexFileName" by (simp add: IndexFileName_def)
  moreover have "relative ''/..a'' = ''..a''" by code_simp
  ultimately show "unpackEntry E h rd st = None"
    using h sp by (auto simp: unpackEntry_def Let_def split: prod.split)
qed

end
