(* ===== verification/Spec2Isabelle.thy ===== *)
theory Spec2Isabelle
  imports Badger_Theorems Users_Theorems Drives_Theorems Sse_Theorems Server_Theorems Local_Theorems
    System_Theorems Rotation_Theorems Archive_Theorems
begin

text \<open>
  govfs is a virtual file system: one interface, \<open>vfs.VFS\<close> (\<open>src/vfs.go\<close>), two storage
  drivers behind it (\<open>src/pkg/drivers/badger\<close>, \<open>src/pkg/drivers/localstorage\<close>), and a server that
  opens one drive per user, serves it over HTTP and tells the user's other clients what has changed
  (\<open>src/internal/server\<close>). This development models the drivers, the services and the drive's HTTP
  interface as functions and step relations, in the order the code has them, and proves what each
  of them promises.

  \<^bold>\<open>Parts and theories.\<close>

  \<^item> \<open>Prelude\<close>, \<open>GoStrings\<close>, \<open>Utf8\<close>, \<open>Formats\<close>, \<open>Paths\<close>, \<open>Store_Paths\<close>: what the code uses of Go and
    its standard library. Results are values of a sum type (\<open>Inl\<close> an error), \<open>int64\<close> is a word of 64
    bits, strings are lists of bytes; \<open>path.Clean\<close>, \<open>path.Join\<close>, \<open>path.Dir\<close>, \<open>strings.TrimSuffix\<close> and
    their like are definitions, and clean paths are shown to be lists of elements. \<open>Apart_Dirs\<close> has
    directories that have nothing in common.
  \<^item> \<open>Vfs\<close>: \<open>src/vfs.go\<close>, \<open>src/constants.go\<close>, \<open>src/transfer.go\<close>. Metadata, open files with their
    \<open>Read\<close>, \<open>Seek\<close> and \<open>Close\<close>, trees and \<open>Walk\<close>, the errors, the rules for moving and copying that both
    drivers share.
  \<^item> \<open>Kv_Store\<close>: BadgerDB as the record of its operations, an argument of every definition that uses
    it, and the locale of its documented behaviour; the in-memory store is an instance.
  \<^item> \<open>Badger_Blob\<close>, \<open>Badger_Meta\<close>, \<open>Badger_Vfs\<close>: \<open>utils.go\<close> and \<open>badger.go\<close>. Keys and chunks, records and
    their index, the operations of \<open>BadgerVFS\<close>. \<open>Badger_Inv\<close> has the invariant of the store and the
    abstract file system it stands for, \<open>Badger_Env\<close>, \<open>Badger_Ops\<close>, \<open>Badger_Reads\<close>, \<open>Badger_Move\<close> and
    \<open>Badger_Total\<close> what each operation does to it, \<open>Badger_Mem\<close> an instance, \<open>Badger_Theorems\<close> the
    properties.
  \<^item> \<open>Rotation\<close>: \<open>rotation.go\<close>, the key files of \<open>utils.go\<close>, \<open>Options\<close>, \<open>New\<close> and \<open>Rotate\<close> of
    \<open>badger.go\<close>. Secret, key registry, their backups and the marker that is the commit point, the
    rotation and the recovery on opening. \<open>Rotation_Facts\<close> has the invariant of the files and what their
    replacement does, \<open>Rotation_Runs\<close> follows a rotation and the openings after it through every
    interruption, \<open>Rotation_Theorems\<close> has an instance and the properties.
  \<^item> \<open>Disk\<close>, \<open>Disk_Facts\<close>: an \<open>os.Root\<close> as a tree of files and directories. Every call may fail, and the
    process may end before or after any of them. An action has three outcomes, a value, an error and
    the end of the process, and a weakest precondition with a case for each.
  \<^item> \<open>Local_Tx\<close>, \<open>Local_Store\<close>: \<open>transaction.go\<close> and \<open>localstorage.go\<close>. The index, the journal, recovery,
    the commit protocol, and the operations of \<open>LocalStorageVFS\<close>. \<open>Local_Names\<close>, \<open>Local_Recovery\<close> and
    \<open>Local_Commit\<close> show that recovery undoes an interrupted transaction and that a transaction is
    atomic; \<open>Local_Inv\<close> and \<open>Local_Reopen\<close> which indexes are accepted and what \<open>New\<close> makes of what an
    earlier process left, \<open>Local_Index\<close> what such an index is without the driver's own checks; \<open>Local_View\<close>, \<open>Local_Ops\<close> and \<open>Local_Change\<close> what the operations do to the
    file system a store presents; \<open>Local_Mem\<close> is an instance, \<open>Local_Theorems\<close> the properties.
  \<^item> \<open>Local_Archive\<close>: \<open>Backup\<close> and \<open>Load\<close> of \<open>localstorage.go\<close>. The formats of tar and gzip are arguments.
    \<open>Disk_Dirs\<close> has the calls on paths they use, \<open>Local_Unpack\<close> what an archive contains and that
    unpacking and validating on a disk yields exactly that, \<open>Local_Load\<close> the moves of a load and that it is
    atomic, \<open>Local_Backup\<close> what a backup writes, \<open>Local_Restore\<close> that its archive unpacks to the store it
    was taken from, \<open>Archive_Theorems\<close> an instance of the archive formats and the properties.
  \<^item> \<open>Users\<close>: \<open>src/internal/server/services/users.go\<close>. Accounts, the index of their names, the log of
    events. \<open>Users_Inv\<close>, \<open>Users_Ops\<close>, \<open>Users_Events\<close> hold the invariant and what the operations do,
    \<open>Users_Mem\<close> an instance, \<open>Users_Theorems\<close> the properties.
  \<^item> \<open>Auth\<close>: \<open>middlewares/auth.go\<close>, \<open>handlers/auth.go\<close>, \<open>handlers/admin.go\<close> and the routes of \<open>init.go\<close>.
    Tokens, the middlewares that admit a request, the handlers of sessions and accounts, the chains of
    guards. \<open>Auth_Facts\<close> and \<open>Auth_Runs\<close> show what one request and a run of requests do to the accounts and
    the log, \<open>Auth_Theorems\<close> has an instance and the properties.
  \<^item> \<open>Drives\<close>: \<open>services/drives.go\<close> and \<open>src/pkg/drivers/driver.go\<close>. The manager that opens a drive on
    demand, counts its users, closes it when the last one leaves or when it is idle, and shuts down.
    \<open>Drives_Inv\<close> is its transition system with its invariant, \<open>Drives_Theorems\<close> the properties.
  \<^item> \<open>Sse_Message\<close>, \<open>Sse_Wire\<close>: \<open>src/internal/types/sse.go\<close>, the stream of \<open>handlers/sse.go\<close> and the parser
    of \<open>src/internal/client/sse.go\<close>. \<open>Sse\<close>, \<open>Sse_Inv\<close>: the broker of \<open>services/sse.go\<close>, whose loop, with
    all its branches, and callers are one step relation over bounded channels; a call that asks for the
    clients is several steps, from the offer of the request to the receipt of the answer. \<open>Sse_Theorems\<close>: the properties.
  \<^item> \<open>Vfs_Service\<close>, \<open>Vfs_Handlers\<close>: \<open>services/vfs.go\<close> and \<open>handlers/vfs.go\<close>. The interface \<open>vfs.VFS\<close> is the
    record \<open>vfs_ops\<close> of a driver's operations; \<open>Badger_Drive\<close> puts the Badger driver behind it.
    \<open>Releases\<close> counts who holds a drive, \<open>Server_Theorems\<close> has the properties of requests on a drive.
  \<^item> \<open>Server\<close>: \<open>registerRoutes\<close> and \<open>withVFS\<close> of \<open>internal/server/init.go\<close>, where guards, drive manager,
    drives and broker meet; the server with its goroutines and streams is a step relation. \<open>System_Inv\<close>
    has its invariant, \<open>System_Places\<close> in which directory each drive is, \<open>System_Apart\<close> shows that the
    steps keep the invariant and whom each step is for,
    \<open>System_Theorems\<close> has an instance and the properties.

  \<^bold>\<open>How the parts meet.\<close> A request is a value of a datatype with a constructor per handler. It is
  handled against the user's drive, which the drive manager opened once the guards admitted it; its
  outcome lists the answer, the events for the broker and how often the drive was released. The drivers
  are reached through \<open>vfs_ops\<close>, BadgerDB through \<open>kv_ops\<close>, a disk through \<open>disk_env\<close>.

  \<^bold>\<open>Interfaces and their instances.\<close> \<open>kv_store\<close> is what BadgerDB documents: a transaction sees its own
  writes, commits all of them or none, iterates in the order of the keys. \<open>kv_reliable\<close> adds that nothing
  fails, which BadgerDB does not promise (transactions may be too big or conflict, the disk may fail); only
  properties that say an operation succeeds, or that read several keys, use it. \<open>badger_env\<close> and \<open>user_env\<close> extend it by the encoding of records, \<open>badger_reliable\<close> and
  \<open>user_reliable\<close> by the absence of failures; \<open>memkv\<close>, \<open>membadger\<close> and \<open>memusers\<close> interpret them on a store
  held in memory with binary encodings. \<open>vfs_lookup\<close> is what the service's search needs of a driver, and
  \<open>memdrive\<close> discharges it for the Badger driver. \<open>drive_world\<close> is opening and closing a driver,
  \<open>token_env\<close> is signing and verifying tokens, interpreted as \<open>memtoken\<close>; \<open>drive_states\<close> is the state
  a handle gives access to and \<open>drive_places\<close> that a drive reaches nothing outside the directory it was
  opened with, both interpreted as \<open>filedrives\<close>, where a directory holds a Badger drive in memory. \<open>key_files\<close> is what the database makes of a
  secret and its registry, interpreted as \<open>memkeys\<close>. \<open>tar_archive\<close> is a writer and archive formats that
  give back what was written, interpreted as \<open>memtar\<close>. \<open>io_writer\<close> is a buffered connection, \<open>sse_codec\<close>
  the encoding of events, \<open>sse_text\<close> that it keeps everything but the time stamp. A property states the contract it needs as a hypothesis, and its witness
  applies it to the instance.

  \<^bold>\<open>What is shown.\<close>

  \<^item> Badger driver: every operation refines one on a map from paths to entries and contents.
    \<open>Create\<close>, \<open>Mkdir\<close>, \<open>Move\<close>, \<open>Delete\<close> and \<open>WriteComments\<close> make exactly the documented change, a failed
    operation makes none, \<open>List\<close> and \<open>Stat\<close> are exact, and what was written is read back over the
    boundaries of chunks.
  \<^item> Key rotation: however a rotation ends, at whatever system call, and however often the recovery
    after it is interrupted, the next opening finds secret and registry as one pair, the old or the new
    one; without failures the rotation succeeds with the new pair.
  \<^item> Local driver: however \<open>Create\<close>, \<open>Mkdir\<close>, \<open>Write\<close> and \<open>Delete\<close> end, by success, an error, or the end
    of the process at any system call, a later \<open>New\<close> presents the file system before the operation or
    the one after it, also when recovery itself is interrupted any number of times. For \<open>Write\<close> and
    \<open>Load\<close>, which replace files, this needs that the removal of the transaction's directory takes the
    journal first (\<open>journalFirst\<close>); \<open>os.RemoveAll\<close> promises no order, and \<open>recovery_loses\<close> shows a file
    lost in another one. \<open>Load\<close> also needs that the names in the directory fit in a journal (\<open>tidy\<close>),
    and a created name must not end in a space (\<open>trailing_space_rejected\<close>). \<open>New\<close> accepts exactly
    the well-formed indexes. \<open>Load\<close> is atomic under these conditions and accepts exactly the archives that unpack
    to an index and its files; \<open>Backup\<close> changes nothing and reports its size; a loaded backup is the store
    it was taken from, but for the names in \<open>names_not_restored\<close>.
  \<^item> Users: names stay unique, the last active administrator stays, authentication accepts exactly the
    password of an enabled account, pages of the event log are the newest events first.
  \<^item> Sessions: a token admits exactly the enabled account it names with the version it carries, a login
    opens a session that lasts until the password, the role or the account changes, a new password ends
    all of them, only administrators administer, the audit records exactly the requests it should, and a
    server that has started keeps an administrator who can log in.
  \<^item> System: whatever requests, goroutines, streams and collections of idle drives interleave, work is
    only done on open drives; every account's drive is in a directory of its own, and nothing done for one
    account changes the open drive of another.
  \<^item> Drives: the use counters agree with the releases still owed, a drive in use is not closed, the last
    release closes a drive marked for closing, a shutdown closes all of them.
  \<^item> Events: what is written is parsed back but for the retry period, which the client does not read,
    and the resolution of time stamps; the broker is never stuck, a subscriber receives exactly
    the messages addressed to it while it is subscribed, in order, and each channel is closed once.
  \<^item> Requests: the drive is released exactly once on every path, waiting for an operation and leaving it
    to a goroutine have the same effect, a search returns exactly the matching entries. A request that
    creates a file on the Badger driver and fails has changed nothing, but for a failing lookup after it.

  \<^bold>\<open>Bounds and fuel.\<close> \<open>ChunkSize\<close> is the code's 256 KiB; reading and writing loops are recursions on the
  reader's answers or carry a measure, and a recursion over a tree (\<open>buildTree\<close>, \<open>copyTree\<close>) over the
  entries of a finite map has as fuel a number that exceeds the depth of the entries; the copy of a file
  into an archive (\<open>copyOut\<close>, 32 KiB a round) has as fuel its size and one, and ends within it when the
  file keeps its size, as it does under the driver's lock. Offsets and sizes
  are words of 64 bits, and their wrap-around is written out where the code can reach it. The loops of
  the broker, the manager and the collector do not end; they are step relations, and what is shown of
  them holds in every reachable state.

  \<^bold>\<open>What the model takes as given.\<close> \<open>encoding/json\<close>, \<open>bcrypt\<close>, \<open>jwt\<close>, BadgerDB, the web framework, clocks
  and random identifiers are arguments of the definitions, with named hypotheses. A loop of Go over a
  map runs in an order that is an argument. Operations on one drive are modelled one at a time. The local driver
  holds its lock for their whole duration. The Badger driver does not: \<open>Create\<close>, \<open>Write\<close>, \<open>Delete\<close>, \<open>Mkdir\<close>,
  \<open>Move\<close> and \<open>Copy\<close> take a read lock, so they may run at the same time, each in a transaction of its own
  with the chunks of a file written before it; what such operations do to each other is left to BadgerDB's
  detection of conflicts and is not covered here. In the system a request is one step. In the crash model a completed system call stays; what the
  operating system itself may lose when the machine stops is not modelled, so the calls of \<open>Sync\<close> are
  actions that may fail and nothing more. \<open>os.Root\<close> is modelled without symbolic links.

  \<^bold>\<open>Not modelled.\<close> The formats of tar and gzip, and the permissions of files. Of the server: the routes
  under \<open>/badger\<close> and \<open>/sse\<close> (the broker and the stream behind the latter are modelled), fetching
  a URL for an upload, the order of start and shutdown. Of the Badger driver: the sizes of its caches,
  its logger and the goroutine that collects garbage. The configuration, the command line clients, the
  HTTP client but for its event stream, the MCP tools, logging, the updater, the web interface, and the
  generators and migrations under \<open>tools\<close> are input and output around the parts above or calls of
  third-party libraries. \<open>docs/docs.go\<close> is generated.
\<close>

end
